(* ===== verification/CPrelude.thy ===== *)
theory CPrelude
  imports Main "HOL-Library.Word"
begin

text \<open>
  Shared vocabulary of the development: C run-time failures as values, the result type
  every fallible routine returns, pointer chains and the loops that walk them, and the
  generic facts on lists and machine words the components use.
\<close>

unbundle bit_operations_syntax

named_theorems res_simps \<open>equations for sequencing fallible steps\<close>
named_theorems chain_intros \<open>facts that build pointer chains\<close>

subsection \<open>Failures and results\<close>

text \<open>
  \<open>Fatal\<close> and \<open>Panic\<close> are the two ways misc.c stops the simulator (\<open>_fatal\<close> exits,
  \<open>_panic\<close> aborts); they carry the format string of the call. \<open>Undefined\<close> is an operation
  the C standard leaves undefined (a signed division that overflows, say), and \<open>Diverge\<close> a
  loop that does not end.
\<close>

datatype cerr =
    Fatal string
  | Panic string
  | AssertFail
  | NullDeref
  | OutOfBounds
  | Undefined
  | Diverge

type_synonym 'a cres = "cerr + 'a"

definition cbind :: "'a cres \<Rightarrow> ('a \<Rightarrow> 'b cres) \<Rightarrow> 'b cres" where
  "cbind m f = (case m of Inl e \<Rightarrow> Inl e | Inr x \<Rightarrow> f x)"

definition deref :: "'a option \<Rightarrow> 'a cres" where
  "deref p = (case p of None \<Rightarrow> Inl NullDeref | Some x \<Rightarrow> Inr x)"

definition cassert :: "bool \<Rightarrow> 'a cres \<Rightarrow> 'a cres" where
  "cassert b m = (if b then m else Inl AssertFail)"

lemma cbind_simps [simp, res_simps]:
  "cbind (Inl e) f = Inl e"
  "cbind (Inr x) f = f x"
  by (simp_all add: cbind_def)

lemma cbind_Inr_iff [res_simps]:
  "cbind m f = Inr y \<longleftrightarrow> (\<exists>x. m = Inr x \<and> f x = Inr y)"
  by (cases m) auto

lemma cbind_assoc: "cbind (cbind m f) g = cbind m (\<lambda>x. cbind (f x) g)"
  by (cases m) auto

lemma deref_simps [simp, res_simps]:
  "deref None = Inl NullDeref"
  "deref (Some x) = Inr x"
  by (simp_all add: deref_def)

lemma deref_Inr_iff [simp]: "deref p = Inr x \<longleftrightarrow> p = Some x"
  by (cases p) auto

lemma cassert_simps [simp, res_simps]:
  "cassert True m = m"
  "cassert False m = Inl AssertFail"
  by (simp_all add: cassert_def)

lemma cassert_Inr_iff [res_simps]: "cassert b m = Inr y \<longleftrightarrow> b \<and> m = Inr y"
  by (cases b) auto

subsection \<open>Pointer chains\<close>

text \<open>
  A chain is what a C loop \<open>for (p = head; p; p = p->next)\<close> visits. \<open>walk\<close> is that loop with
  a break condition. Its fuel bounds the number of nodes visited: a walk over \<open>n\<close> nodes
  that needs more than \<open>n + 1\<close> tests has met a node twice and never ends, which is
  \<open>Diverge\<close>.
\<close>

fun chain :: "('a \<Rightarrow> 'a option) \<Rightarrow> 'a option \<Rightarrow> 'a list \<Rightarrow> bool" where
  "chain nx p [] = (p = None)"
| "chain nx p (x # xs) = (p = Some x \<and> chain nx (nx x) xs)"

fun walk :: "nat \<Rightarrow> ('a \<Rightarrow> bool) \<Rightarrow> ('a \<Rightarrow> 'a option) \<Rightarrow> 'a option \<Rightarrow> 'a option cres" where
  "walk 0 P nx p = Inl Diverge"
| "walk (Suc n) P nx None = Inr None"
| "walk (Suc n) P nx (Some x) = (if P x then Inr (Some x) else walk n P nx (nx x))"

lemma walk_chain:
  "chain nx p xs \<Longrightarrow> length xs < n \<Longrightarrow> walk n P nx p = Inr (find P xs)"
proof (induction xs arbitrary: p n)
  case Nil
  then show ?case by (cases n) auto
next
  case (Cons x xs)
  then show ?case by (cases n) auto
qed

lemma chain_unique: "chain nx p xs \<Longrightarrow> chain nx p ys \<Longrightarrow> xs = ys"
proof (induction xs arbitrary: p ys)
  case Nil
  then show ?case by (cases ys) auto
next
  case (Cons x xs)
  then show ?case by (cases ys) auto
qed

lemma chain_cong:
  "(\<And>x. x \<in> set xs \<Longrightarrow> nx x = nx' x) \<Longrightarrow> chain nx p xs = chain nx' p xs"
  by (induction xs arbitrary: p) auto

text \<open>
  Doubly-linked segments: \<open>dseg nx pv p f xs n l\<close> says that the nodes \<open>xs\<close> are linked both
  ways from \<open>f\<close> to \<open>l\<close>, with \<open>p\<close> before the first and \<open>n\<close> after the last.
\<close>

fun dseg :: "('a \<Rightarrow> 'a option) \<Rightarrow> ('a \<Rightarrow> 'a option) \<Rightarrow> 'a option \<Rightarrow> 'a option \<Rightarrow> 'a list
    \<Rightarrow> 'a option \<Rightarrow> 'a option \<Rightarrow> bool" where
  "dseg nx pv p f [] n l = (f = n \<and> l = p)"
| "dseg nx pv p f (x # xs) n l = (f = Some x \<and> pv x = p \<and> dseg nx pv (Some x) (nx x) xs n l)"

lemma dseg_append:
  "dseg nx pv p f (xs @ ys) n l
    \<longleftrightarrow> (\<exists>m k. dseg nx pv p f xs m k \<and> dseg nx pv k m ys n l)"
  by (induction xs arbitrary: p f) auto

lemma dseg_cong:
  "(\<And>x. x \<in> set xs \<Longrightarrow> nx x = nx' x \<and> pv x = pv' x)
    \<Longrightarrow> dseg nx pv p f xs n l = dseg nx' pv' p f xs n l"
  by (induction xs arbitrary: p f) auto

lemma dseg_chain: "dseg nx pv p f xs None l \<Longrightarrow> chain nx f xs"
  by (induction xs arbitrary: p f) auto

lemma dseg_snoc:
  "dseg nx pv p f (xs @ [x]) n l
    \<longleftrightarrow> dseg nx pv p f xs (Some x) (pv x) \<and> nx x = n \<and> l = Some x"
  by (auto simp: dseg_append)

lemma dseg_last: "dseg nx pv p f xs n l \<Longrightarrow> xs \<noteq> [] \<Longrightarrow> l = Some (last xs)"
  by (induction xs arbitrary: p f) (auto split: if_splits)

lemma dseg_hd: "dseg nx pv p f xs n l \<Longrightarrow> xs \<noteq> [] \<Longrightarrow> f = Some (hd xs)"
  by (cases xs) auto

lemma dseg_relink_first:
  "dseg nx pv p f zs n l \<Longrightarrow> zs = z # zs' \<Longrightarrow> distinct zs
    \<Longrightarrow> dseg nx (pv(z := q)) q f zs n l"
  by (auto intro: dseg_cong [THEN iffD1, rotated])

lemma dseg_relink_last:
  "dseg nx pv p f ys n l \<Longrightarrow> ys = ys' @ [y] \<Longrightarrow> distinct ys
    \<Longrightarrow> dseg (nx(y := m)) pv p f ys m l"
  by (auto simp: dseg_snoc intro: dseg_cong [THEN iffD1, rotated])

lemma dseg_upd_notin:
  "b \<notin> set xs \<Longrightarrow> dseg (nx(b := u)) pv p f xs n l = dseg nx pv p f xs n l"
  "b \<notin> set xs \<Longrightarrow> dseg nx (pv(b := v)) p f xs n l = dseg nx pv p f xs n l"
  by (auto intro!: dseg_cong)

text \<open>Splicing a node that is not first out of a segment and linking it in at the front.\<close>

lemma dseg_splice:
  assumes d: "dseg nx pv None f (ys @ b # zs) None l" and dist: "distinct (ys @ b # zs)"
    and ne: "ys \<noteq> []"
  shows "dseg (nx(last ys := nx b)) (if zs = [] then pv else pv(hd zs := Some (last ys)))
      None f (ys @ zs) None (Some (last (ys @ zs)))"
    and "pv b = Some (last ys)" and "nx b = (if zs = [] then None else Some (hd zs))"
    and "f = Some (hd ys)"
proof -
  obtain m where m: "dseg nx pv None f ys (Some b) m" "pv b = m" "dseg nx pv (Some b) (nx b) zs None l"
    using d by (auto simp: dseg_append)
  show pb: "pv b = Some (last ys)" using dseg_last [OF m(1) ne] m(2) by simp
  show nb: "nx b = (if zs = [] then None else Some (hd zs))"
    using dseg_hd [OF m(3)] m(3) by (cases zs) auto
  show "f = Some (hd ys)" using m(1) ne by (rule dseg_hd)
  obtain ys' y where ys: "ys = ys' @ [y]" using ne by (cases ys rule: rev_cases) auto
  have 1: "dseg (nx(last ys := nx b)) pv None f ys (nx b) (Some (last ys))"
    using dseg_relink_last [OF m(1), of ys' y "nx b"] ys dist pb m(2) by simp
  have ly: "last ys \<notin> set zs" using dist ys by auto
  show "dseg (nx(last ys := nx b)) (if zs = [] then pv else pv(hd zs := Some (last ys)))
      None f (ys @ zs) None (Some (last (ys @ zs)))"
  proof (cases zs)
    case Nil
    then show ?thesis using 1 nb by simp
  next
    case (Cons z zs')
    then have l: "l = Some (last zs)" using dseg_last [OF m(3)] by simp
    have "dseg nx (pv(z := Some (last ys))) (Some (last ys)) (nx b) zs None l"
      using dseg_relink_first [OF m(3) Cons] dist by simp
    then have 2: "dseg (nx(last ys := nx b)) (pv(z := Some (last ys))) (Some (last ys)) (nx b) zs None l"
      using ly by (simp add: dseg_upd_notin)
    have "z \<notin> set ys" using dist Cons by auto
    then have "dseg (nx(last ys := nx b)) (pv(z := Some (last ys))) None f ys (nx b) (Some (last ys))"
      using 1 by (simp add: dseg_upd_notin)
    with 2 Cons l show ?thesis unfolding dseg_append by auto
  qed
qed

lemma dseg_push_front:
  assumes d: "dseg nx pv None f xs None l" and x: "xs = x # xs'" and dist: "distinct xs" "b \<notin> set xs"
  shows "dseg (nx(b := Some x)) ((pv(b := None))(x := Some b)) None (Some b) (b # xs) None l"
proof -
  have "dseg nx (pv(x := Some b)) (Some b) f xs None l"
    using dseg_relink_first [OF d x dist(1)] .
  moreover have "f = Some x" using d x by simp
  moreover have "b \<noteq> x" using dist(2) x by auto
  ultimately show ?thesis using dist(2) by (simp add: dseg_upd_notin fun_upd_twist [of b x])
qed

subsection \<open>Lists\<close>

lemma find_Some_iff_nth_in: "find P xs = Some x \<Longrightarrow> x \<in> set xs \<and> P x"
  by (auto simp: find_Some_iff)

lemma find_None_iff_all: "find P xs = None \<longleftrightarrow> (\<forall>x \<in> set xs. \<not> P x)"
  by (auto simp: find_None_iff)

text \<open>With at most one match, the order of the search does not matter.\<close>

lemma find_unique:
  assumes uniq: "\<And>x y. x \<in> set xs \<Longrightarrow> y \<in> set xs \<Longrightarrow> P x \<Longrightarrow> P y \<Longrightarrow> x = y"
    and same: "\<And>x. x \<in> set xs \<and> P x \<longleftrightarrow> x \<in> set ys \<and> P x"
  shows "find P xs = find P ys"
proof (cases "find P xs")
  case None
  then have "\<forall>x \<in> set ys. \<not> P x"
    using same by (auto simp: find_None_iff)
  with None show ?thesis by (simp add: find_None_iff_all [THEN iffD2])
next
  case (Some x)
  then have x: "x \<in> set xs" "P x" by (auto dest: find_Some_iff_nth_in)
  then have "x \<in> set ys" using same by blast
  with x(2) obtain y where y: "find P ys = Some y"
    by (cases "find P ys") (auto simp: find_None_iff_all)
  then have "y \<in> set ys" "P y" by (auto dest: find_Some_iff_nth_in)
  with same have "y \<in> set xs" by blast
  with x \<open>P y\<close> uniq have "y = x" by blast
  with y Some show ?thesis by simp
qed

text \<open>Positions of a circular buffer of size \<open>n\<close>.\<close>

lemma ring_inj:
  assumes "(t + i) mod n = (t + j) mod n" "i < n" "j < (n :: nat)"
  shows "i = j"
proof -
  obtain q q' where "t + i + n * q = t + j + n * q'" using assms(1) unfolding nat_mod_eq_iff by blast
  then have "(i + n * q) mod n = (j + n * q') mod n" by simp
  then show ?thesis using assms(2,3) by simp
qed

text \<open>The nodes of a chain, as the list a loop visits, cut off after \<open>n\<close> nodes.\<close>

fun collect :: "nat \<Rightarrow> ('a \<Rightarrow> 'a option) \<Rightarrow> 'a option \<Rightarrow> 'a list" where
  "collect 0 nx p = []"
| "collect (Suc n) nx None = []"
| "collect (Suc n) nx (Some x) = x # collect n nx (nx x)"

lemma collect_chain: "chain nx p xs \<Longrightarrow> length xs \<le> n \<Longrightarrow> collect n nx p = xs"
proof (induction xs arbitrary: p n)
  case Nil
  then show ?case by (cases n) auto
next
  case (Cons x xs)
  then show ?case by (cases n) auto
qed

lemma chain_upd_notin: "b \<notin> set xs \<Longrightarrow> chain (nx(b := v)) p xs = chain nx p xs"
  by (rule chain_cong) auto

lemma chain_remove:
  assumes "chain nx p (ys @ b # zs)" "distinct (ys @ b # zs)"
  shows "if ys = [] then chain nx (nx b) zs else chain (nx(last ys := nx b)) p (ys @ zs)"
  using assms
proof (induction ys arbitrary: p)
  case Nil
  then show ?case by simp
next
  case (Cons y ys)
  show ?case
  proof (cases "ys = []")
    case True
    with Cons.prems have "chain (nx(y := nx b)) (nx b) zs"
      by (auto intro: chain_cong [THEN iffD1, rotated])
    with True Cons.prems show ?thesis by simp
  next
    case False
    then have "last ys \<noteq> y" using Cons.prems last_in_set [OF False] by auto
    with False Cons show ?thesis by auto
  qed
qed

text \<open>
  A search that keeps the previous node, \<open>for (prev = NULL, p = head; p; prev = p, p = p->next)\<close>
  with a break at the first node that meets the condition.
\<close>

fun pscan :: "nat \<Rightarrow> ('a \<Rightarrow> bool) \<Rightarrow> ('a \<Rightarrow> 'a option) \<Rightarrow> 'a option \<Rightarrow> 'a option
    \<Rightarrow> ('a option \<times> 'a option) cres" where
  "pscan 0 P nx prev p = Inl Diverge"
| "pscan (Suc n) P nx prev None = Inr (prev, None)"
| "pscan (Suc n) P nx prev (Some x) =
     (if P x then Inr (prev, Some x) else pscan n P nx (Some x) (nx x))"

lemma pscan_found:
  assumes "chain nx p (ys @ b # zs)" "\<forall>y \<in> set ys. \<not> P y" "P b" "length ys < n"
  shows "pscan n P nx prev p = Inr (if ys = [] then prev else Some (last ys), Some b)"
  using assms
proof (induction ys arbitrary: prev p n)
  case Nil
  then show ?case by (cases n) auto
next
  case (Cons y ys)
  then obtain m where "n = Suc m" by (cases n) auto
  with Cons show ?case by auto
qed

lemma pscan_none:
  assumes "chain nx p ys" "\<forall>y \<in> set ys. \<not> P y" "length ys < n"
  shows "pscan n P nx prev p = Inr (if ys = [] then prev else Some (last ys), None)"
  using assms
proof (induction ys arbitrary: prev p n)
  case Nil
  then show ?case by (cases n) auto
next
  case (Cons y ys)
  then obtain m where "n = Suc m" by (cases n) auto
  with Cons show ?case by auto
qed

text \<open>Moving a node that is not first to the front of its chain.\<close>

lemma chain_to_front:
  assumes c: "chain nx p (ys @ b # zs)" and d: "distinct (ys @ b # zs)" and ne: "ys \<noteq> []"
  shows "chain ((nx(last ys := nx b))(b := p)) (Some b) (b # ys @ zs)"
proof -
  have "chain (nx(last ys := nx b)) p (ys @ zs)" using chain_remove [OF c d] ne by simp
  moreover have "b \<notin> set (ys @ zs)" using d by auto
  ultimately show ?thesis by (simp add: chain_upd_notin)
qed

lemma chain_bound:
  assumes "distinct xs" "set xs \<subseteq> {..<n}"
  shows "length xs \<le> n"
  using assms card_mono [of "{..<n}" "set xs"] by (simp add: distinct_card)

lemma find_split_first:
  assumes "find P xs = Some b"
  obtains ys zs where "xs = ys @ b # zs" "\<forall>y \<in> set ys. \<not> P y" "P b"
  using assms
proof (induction xs arbitrary: thesis)
  case Nil
  then show ?case by simp
next
  case (Cons x xs)
  show ?case
  proof (cases "P x")
    case True
    with Cons.prems show ?thesis by (intro Cons.prems(1) [of "[]" xs]) auto
  next
    case False
    with Cons.prems(2) have "find P xs = Some b" by simp
    then obtain ys zs where "xs = ys @ b # zs" "\<forall>y \<in> set ys. \<not> P y" "P b" using Cons.IH by blast
    with False show ?thesis by (intro Cons.prems(1) [of "x # ys" zs]) auto
  qed
qed

subsection \<open>Powers of two and masks\<close>

text \<open>The C test \<open>(n & (n-1)) == 0\<close> singles out the powers of two among the positive numbers.\<close>

lemma and_pred_nat:
  "0 < (n::nat) \<Longrightarrow> n AND (n - 1) = 0 \<longleftrightarrow> (\<exists>k. n = 2 ^ k)"
proof (induction n rule: less_induct)
  case (less n)
  show ?case
  proof (cases "even n")
    case True
    then obtain m where m: "n = 2 * m" by (elim evenE)
    with less.prems have "0 < m" "m < n" by auto
    then have IH: "m AND (m - 1) = 0 \<longleftrightarrow> (\<exists>k. m = 2 ^ k)" by (rule less.IH [rotated])
    have half: "(2 * m - Suc 0) div 2 = m - Suc 0" using \<open>0 < m\<close> by presburger
    have "n AND (n - 1) = 2 * (m AND (m - 1))"
      by (subst and_rec) (simp add: m half)
    then have "n AND (n - 1) = 0 \<longleftrightarrow> (\<exists>k. m = 2 ^ k)" using IH by simp
    also have "\<dots> \<longleftrightarrow> (\<exists>k. n = 2 ^ k)"
    proof
      assume "\<exists>k. m = 2 ^ k"
      then show "\<exists>k. n = 2 ^ k" using m by (metis power_Suc)
    next
      assume "\<exists>k. n = 2 ^ k"
      then obtain k where k: "n = 2 ^ k" ..
      with True obtain j where "k = Suc j" by (cases k) auto
      with k m show "\<exists>k. m = 2 ^ k" by auto
    qed
    finally show ?thesis .
  next
    case False
    then obtain m where m: "n = 2 * m + 1" by (elim oddE)
    have "n AND (n - 1) = 2 * m"
      by (subst and_rec) (simp add: m)
    moreover have "(\<exists>k. n = 2 ^ k) \<longleftrightarrow> m = 0"
    proof
      assume "\<exists>k. n = 2 ^ k"
      then obtain k where "n = 2 ^ k" ..
      with False show "m = 0" using m by (cases k) auto
    next
      assume "m = 0"
      then have "n = 2 ^ 0" using m by simp
      then show "\<exists>k. n = 2 ^ k" ..
    qed
    ultimately show ?thesis by simp
  qed
qed

lemma and_pred_int:
  assumes "0 < (n::int)"
  shows "n AND (n - 1) = 0 \<longleftrightarrow> (\<exists>k. n = 2 ^ k)"
proof -
  have n: "n = int (nat n)" and p: "n - 1 = int (nat n - 1)" using assms by auto
  have "n AND (n - 1) = int (nat n AND (nat n - 1))"
    by (subst (1) n, subst p) (simp add: of_nat_and_eq)
  then have "n AND (n - 1) = 0 \<longleftrightarrow> (\<exists>k. nat n = 2 ^ k)"
    using and_pred_nat [of "nat n"] assms by simp
  also have "\<dots> \<longleftrightarrow> (\<exists>k. n = 2 ^ k)"
    by (metis n nat_2 nat_power_eq of_nat_numeral of_nat_power zero_le_numeral nat_int)
  finally show ?thesis .
qed

lemma and_mask_word: "x AND (2 ^ k - 1) = take_bit k (x :: 'a::len word)"
  by (simp add: take_bit_eq_mask mask_eq_exp_minus_1)

lemma unat_and_mask_less:
  "k < LENGTH('a) \<Longrightarrow> unat (x AND (2 ^ k - 1) :: 'a::len word) < 2 ^ k"
  by (simp add: and_mask_word unsigned_take_bit_eq)

lemma unat_two_power: "k < LENGTH('a) \<Longrightarrow> unat (2 ^ k :: 'a::len word) = 2 ^ k"
  by (simp add: unat_eq_nat_uint uint_2p word_gt_0 nat_power_eq)

subsection \<open>Runs and simulation\<close>

text \<open>
  A run of a fallible step function over a list of inputs, and the inputs an abstract
  machine admits. The locale is the contract between a component's step and its abstract
  specification; a component that meets it refines the specification on whole runs.
\<close>

fun run :: "('s \<Rightarrow> 'i \<Rightarrow> 's cres) \<Rightarrow> 's \<Rightarrow> 'i list \<Rightarrow> 's cres" where
  "run step s [] = Inr s"
| "run step s (i # js) = cbind (step s i) (\<lambda>s'. run step s' js)"

fun admits :: "('a \<Rightarrow> 'i \<Rightarrow> bool) \<Rightarrow> ('a \<Rightarrow> 'i \<Rightarrow> 'a) \<Rightarrow> 'a \<Rightarrow> 'i list \<Rightarrow> bool" where
  "admits ok astep a [] \<longleftrightarrow> True"
| "admits ok astep a (i # js) \<longleftrightarrow> ok a i \<and> admits ok astep (astep a i) js"

lemma admits_const: "(\<forall>i \<in> set js. ok i) \<Longrightarrow> admits (\<lambda>_. ok) astep a js"
  by (induction js arbitrary: a) auto

locale simulation =
  fixes inv :: "'s \<Rightarrow> bool"
    and ok :: "'a \<Rightarrow> 'i \<Rightarrow> bool"
    and step :: "'s \<Rightarrow> 'i \<Rightarrow> 's cres"
    and abs :: "'s \<Rightarrow> 'a"
    and astep :: "'a \<Rightarrow> 'i \<Rightarrow> 'a"
  assumes step_sim: "inv s \<Longrightarrow> ok (abs s) i
    \<Longrightarrow> \<exists>s'. step s i = Inr s' \<and> inv s' \<and> abs s' = astep (abs s) i"
begin

lemma run_sim:
  "inv s \<Longrightarrow> admits ok astep (abs s) js
    \<Longrightarrow> \<exists>s'. run step s js = Inr s' \<and> inv s' \<and> abs s' = foldl astep (abs s) js"
proof (induction js arbitrary: s)
  case Nil
  then show ?case by simp
next
  case (Cons i js)
  then obtain s1 where s1: "step s i = Inr s1" "inv s1" "abs s1 = astep (abs s) i"
    using step_sim [of s i] by auto
  with Cons.IH [of s1] Cons.prems(2) show ?case by auto
qed

lemma run_never_fails: "inv s \<Longrightarrow> admits ok astep (abs s) js \<Longrightarrow> run step s js \<noteq> Inl e"
  using run_sim by fastforce

end

end
