(* ===== verification/CacheSet.thy ===== *)
theory CacheSet
  imports CPrelude
begin

text \<open>
  One cache set of cache.c: its blocks, the doubly-linked way chain that orders them for
  replacement, and the hash bucket chains of highly associative caches. Pointers to blocks
  are indices into the set's block array (all blocks of a set are allocated together,
  cache_create). The pointer operations are translated as written; the lemmas show that
  they act on the abstract order of the ways and on the abstract buckets.
\<close>

subsection \<open>Data\<close>

datatype mem_cmd = Read | Write

datatype cache_policy = LRU | Random | FIFO

definition CACHE_BLK_VALID :: "32 word" where "CACHE_BLK_VALID = 0x00000001"
definition CACHE_BLK_DIRTY :: "32 word" where "CACHE_BLK_DIRTY = 0x00000002"

record cache_blk =
  way_next :: "nat option"
  way_prev :: "nat option"
  hash_next :: "nat option"
  blk_tag :: "64 word"
  blk_status :: "32 word"
  blk_ready :: "64 word"
  blk_user_data :: "nat option"
  blk_data :: "8 word list"

record cache_set =
  set_hash :: "nat option list"
  way_head :: "nat option"
  way_tail :: "nat option"
  set_blks :: "cache_blk list"

datatype list_loc = Head | Tail

definition upd_blk :: "nat \<Rightarrow> (cache_blk \<Rightarrow> cache_blk) \<Rightarrow> cache_set \<Rightarrow> cache_set" where
  "upd_blk i f s = s\<lparr>set_blks := (set_blks s)[i := f (set_blks s ! i)]\<rparr>"

abbreviation nxt :: "cache_set \<Rightarrow> nat \<Rightarrow> nat option" where
  "nxt s \<equiv> (\<lambda>i. way_next (set_blks s ! i))"

abbreviation prv :: "cache_set \<Rightarrow> nat \<Rightarrow> nat option" where
  "prv s \<equiv> (\<lambda>i. way_prev (set_blks s ! i))"

abbreviation hnx :: "cache_set \<Rightarrow> nat \<Rightarrow> nat option" where
  "hnx s \<equiv> (\<lambda>i. hash_next (set_blks s ! i))"

definition blk_valid :: "cache_blk \<Rightarrow> bool" where
  "blk_valid b \<longleftrightarrow> blk_status b AND CACHE_BLK_VALID \<noteq> 0"

definition blk_dirty :: "cache_blk \<Rightarrow> bool" where
  "blk_dirty b \<longleftrightarrow> blk_status b AND CACHE_BLK_DIRTY \<noteq> 0"

definition CACHE_HASH :: "int \<Rightarrow> 64 word \<Rightarrow> nat" where
  "CACHE_HASH hsize key =
     unat ((drop_bit 24 key XOR drop_bit 16 key XOR drop_bit 8 key XOR key)
           AND word_of_int (hsize - 1))"

subsection \<open>Hash bucket chains\<close>

text \<open>The scan of \<open>unlink_htab_ent\<close>: it returns \<open>prev\<close> and \<open>ent\<close> where the loop stops.\<close>

fun htab_scan :: "nat \<Rightarrow> (nat \<Rightarrow> nat option) \<Rightarrow> nat \<Rightarrow> nat option \<Rightarrow> nat option
    \<Rightarrow> (nat option \<times> nat option) cres" where
  "htab_scan 0 nx b prev ent = Inl Diverge"
| "htab_scan (Suc n) nx b prev None = Inr (prev, None)"
| "htab_scan (Suc n) nx b prev (Some e) =
     (if e = b then Inr (prev, Some e) else htab_scan n nx b (Some e) (nx e))"

definition unlink_htab_ent :: "int \<Rightarrow> cache_set \<Rightarrow> nat \<Rightarrow> cache_set cres" where
  "unlink_htab_ent hsize s b =
     (let index = CACHE_HASH hsize (blk_tag (set_blks s ! b)) in
      cbind (htab_scan (Suc (length (set_blks s))) (hnx s) b None (set_hash s ! index))
        (\<lambda>(prev, ent). case ent of
            None \<Rightarrow> Inl AssertFail
          | Some e \<Rightarrow>
              let s1 = (case prev of
                          None \<Rightarrow> s\<lparr>set_hash := (set_hash s)[index := hnx s e]\<rparr>
                        | Some p \<Rightarrow> upd_blk p (hash_next_update (\<lambda>_. hnx s e)) s)
              in Inr (upd_blk e (hash_next_update (\<lambda>_. None)) s1)))"

definition link_htab_ent :: "int \<Rightarrow> cache_set \<Rightarrow> nat \<Rightarrow> cache_set" where
  "link_htab_ent hsize s b =
     (let index = CACHE_HASH hsize (blk_tag (set_blks s ! b));
          s1 = upd_blk b (hash_next_update (\<lambda>_. set_hash s ! index)) s
      in s1\<lparr>set_hash := (set_hash s1)[index := Some b]\<rparr>)"

subsection \<open>The way chain\<close>

text \<open>The last part of \<open>update_way_list\<close>: put an unlinked block at one end.\<close>

definition way_link :: "cache_set \<Rightarrow> nat \<Rightarrow> list_loc \<Rightarrow> cache_set cres" where
  "way_link s b loc = (case loc of
     Head \<Rightarrow>
       (let s1 = upd_blk b (way_next_update (\<lambda>_. way_head s)) s;
            s2 = upd_blk b (way_prev_update (\<lambda>_. None)) s1
        in cbind (deref (way_head s2)) (\<lambda>h.
             Inr ((upd_blk h (way_prev_update (\<lambda>_. Some b)) s2)\<lparr>way_head := Some b\<rparr>)))
   | Tail \<Rightarrow>
       (let s1 = upd_blk b (way_prev_update (\<lambda>_. way_tail s)) s;
            s2 = upd_blk b (way_next_update (\<lambda>_. None)) s1
        in cbind (deref (way_tail s2)) (\<lambda>t.
             Inr ((upd_blk t (way_next_update (\<lambda>_. Some b)) s2)\<lparr>way_tail := Some b\<rparr>))))"

definition update_way_list :: "cache_set \<Rightarrow> nat \<Rightarrow> list_loc \<Rightarrow> cache_set cres" where
  "update_way_list s b loc =
     (case (prv s b, nxt s b) of
        (None, None) \<Rightarrow>
          cassert (way_head s = Some b \<and> way_tail s = Some b) (Inr s)
      | (None, Some n) \<Rightarrow>
          cassert (way_head s = Some b \<and> way_tail s \<noteq> Some b)
            (if loc = Head then Inr s
             else way_link (upd_blk n (way_prev_update (\<lambda>_. None)) (s\<lparr>way_head := Some n\<rparr>)) b loc)
      | (Some p, None) \<Rightarrow>
          cassert (way_head s \<noteq> Some b \<and> way_tail s = Some b)
            (if loc = Tail then Inr s
             else way_link (upd_blk p (way_next_update (\<lambda>_. None)) (s\<lparr>way_tail := Some p\<rparr>)) b loc)
      | (Some p, Some n) \<Rightarrow>
          cassert (way_head s \<noteq> Some b \<and> way_tail s \<noteq> Some b)
            (way_link
               (upd_blk n (way_prev_update (\<lambda>_. Some p))
                 (upd_blk p (way_next_update (\<lambda>_. Some n)) s)) b loc))"

subsection \<open>Reading a set after an update\<close>

lemma upd_blk_sel [simp]:
  "set_hash (upd_blk i f s) = set_hash s"
  "way_head (upd_blk i f s) = way_head s"
  "way_tail (upd_blk i f s) = way_tail s"
  "length (set_blks (upd_blk i f s)) = length (set_blks s)"
  by (simp_all add: upd_blk_def)

lemma upd_blk_nth:
  "i < length (set_blks s) \<Longrightarrow>
    set_blks (upd_blk i f s) ! j = (if j = i then f (set_blks s ! i) else set_blks s ! j)"
  by (simp add: upd_blk_def nth_list_update)

lemma way_upd [simp]:
  assumes "i < length (set_blks s)"
  shows "nxt (upd_blk i (way_next_update (\<lambda>_. v)) s) = (nxt s)(i := v)"
    and "prv (upd_blk i (way_next_update (\<lambda>_. v)) s) = prv s"
    and "nxt (upd_blk i (way_prev_update (\<lambda>_. v)) s) = nxt s"
    and "prv (upd_blk i (way_prev_update (\<lambda>_. v)) s) = (prv s)(i := v)"
  using assms by (auto simp: fun_eq_iff upd_blk_nth)

text \<open>What the way list operations leave alone.\<close>

definition blk_core :: "cache_blk \<Rightarrow> cache_blk" where
  "blk_core b = b\<lparr>way_next := None, way_prev := None\<rparr>"

definition same_content :: "cache_set \<Rightarrow> cache_set \<Rightarrow> bool" where
  "same_content s t \<longleftrightarrow>
     set_hash s = set_hash t \<and> map blk_core (set_blks s) = map blk_core (set_blks t)"

lemma same_content_refl [simp]: "same_content s s"
  by (simp add: same_content_def)

lemma same_content_trans: "same_content s t \<Longrightarrow> same_content t u \<Longrightarrow> same_content s u"
  by (simp add: same_content_def)

lemma same_content_upd [simp]:
  "same_content (s\<lparr>way_head := h\<rparr>) t = same_content s t"
  "same_content (s\<lparr>way_tail := h\<rparr>) t = same_content s t"
  "same_content s (t\<lparr>way_head := h\<rparr>) = same_content s t"
  "same_content s (t\<lparr>way_tail := h\<rparr>) = same_content s t"
  by (simp_all add: same_content_def)

lemma same_content_way_upd [simp]:
  assumes "i < length (set_blks s)"
  shows "same_content (upd_blk i (way_next_update f) s) t = same_content s t"
    and "same_content (upd_blk i (way_prev_update f) s) t = same_content s t"
  using assms
  by (auto simp: same_content_def upd_blk_def map_update blk_core_def list_eq_iff_nth_eq
        nth_list_update)

lemma same_content_hash: "same_content s t \<Longrightarrow> set_hash s = set_hash t"
  by (simp add: same_content_def)

lemma same_content_length: "same_content s t \<Longrightarrow> length (set_blks s) = length (set_blks t)"
  by (auto simp: same_content_def dest: map_eq_imp_length_eq)

lemma blk_core_sel [simp]:
  "blk_tag (blk_core b) = blk_tag b" "blk_status (blk_core b) = blk_status b"
  "blk_ready (blk_core b) = blk_ready b" "hash_next (blk_core b) = hash_next b"
  "blk_data (blk_core b) = blk_data b" "blk_user_data (blk_core b) = blk_user_data b"
  by (simp_all add: blk_core_def)

lemma same_content_nth:
  assumes "same_content s t" "i < length (set_blks t)"
  shows "blk_tag (set_blks s ! i) = blk_tag (set_blks t ! i)"
    and "blk_status (set_blks s ! i) = blk_status (set_blks t ! i)"
    and "blk_ready (set_blks s ! i) = blk_ready (set_blks t ! i)"
    and "hash_next (set_blks s ! i) = hash_next (set_blks t ! i)"
    and "blk_data (set_blks s ! i) = blk_data (set_blks t ! i)"
    and "blk_user_data (set_blks s ! i) = blk_user_data (set_blks t ! i)"
proof -
  have eq: "blk_core (set_blks s ! i) = blk_core (set_blks t ! i)"
  proof -
    have "map blk_core (set_blks s) ! i = map blk_core (set_blks t) ! i"
      using assms by (simp add: same_content_def)
    then show ?thesis using assms(2) same_content_length [OF assms(1)] by simp
  qed
  show "blk_tag (set_blks s ! i) = blk_tag (set_blks t ! i)"
    using arg_cong [OF eq, of blk_tag] by simp
  show "blk_status (set_blks s ! i) = blk_status (set_blks t ! i)"
    using arg_cong [OF eq, of blk_status] by simp
  show "blk_ready (set_blks s ! i) = blk_ready (set_blks t ! i)"
    using arg_cong [OF eq, of blk_ready] by simp
  show "hash_next (set_blks s ! i) = hash_next (set_blks t ! i)"
    using arg_cong [OF eq, of hash_next] by simp
  show "blk_data (set_blks s ! i) = blk_data (set_blks t ! i)"
    using arg_cong [OF eq, of blk_data] by simp
  show "blk_user_data (set_blks s ! i) = blk_user_data (set_blks t ! i)"
    using arg_cong [OF eq, of blk_user_data] by simp
qed

subsection \<open>The way chain keeps an order\<close>

text \<open>\<open>way_order s xs\<close>: following \<open>way_next\<close> from the head visits the blocks in the order \<open>xs\<close>.\<close>

definition way_order :: "cache_set \<Rightarrow> nat list \<Rightarrow> bool" where
  "way_order s xs \<longleftrightarrow>
     dseg (nxt s) (prv s) None (way_head s) xs None (way_tail s)
     \<and> distinct xs \<and> set xs \<subseteq> {..<length (set_blks s)}"

definition move_to :: "list_loc \<Rightarrow> nat \<Rightarrow> nat list \<Rightarrow> nat list" where
  "move_to loc b xs = (case loc of Head \<Rightarrow> b # remove1 b xs | Tail \<Rightarrow> remove1 b xs @ [b])"

lemma set_move_to [simp]: "b \<in> set xs \<Longrightarrow> distinct xs \<Longrightarrow> set (move_to loc b xs) = set xs"
  by (auto simp: move_to_def split: list_loc.splits)

lemma distinct_move_to [simp]: "distinct xs \<Longrightarrow> distinct (move_to loc b xs)"
  by (auto simp: move_to_def split: list_loc.splits)

lemma length_move_to [simp]: "b \<in> set xs \<Longrightarrow> length (move_to loc b xs) = length xs"
  by (auto simp: move_to_def length_remove1 Suc_pred [OF length_pos_if_in_set]
      split: list_loc.splits)

lemma way_orderD:
  assumes "way_order s xs"
  shows "chain (nxt s) (way_head s) xs" and "distinct xs"
    and "\<And>x. x \<in> set xs \<Longrightarrow> x < length (set_blks s)"
  using assms by (auto simp: way_order_def dest: dseg_chain)

lemma way_order_unique: "way_order s xs \<Longrightarrow> way_order s ys \<Longrightarrow> xs = ys"
  by (blast dest: way_orderD(1) chain_unique)

lemma way_link_order:
  assumes ord: "way_order s us" and ne: "us \<noteq> []"
    and b: "b \<notin> set us" "b < length (set_blks s)"
  shows "\<exists>s'. way_link s b loc = Inr s' \<and> same_content s' s
      \<and> way_order s' (case loc of Head \<Rightarrow> b # us | Tail \<Rightarrow> us @ [b])"
proof (cases loc)
  case Head
  obtain h hs where us: "us = h # hs" using ne by (cases us) auto
  with ord b have h: "way_head s = Some h" "h < length (set_blks s)" "h \<noteq> b"
    by (auto simp: way_order_def)
  let ?s = "(upd_blk h (way_prev_update (\<lambda>_. Some b))
      (upd_blk b (way_prev_update (\<lambda>_. None))
        (upd_blk b (way_next_update (\<lambda>_. Some h)) s)))\<lparr>way_head := Some b\<rparr>"
  have "dseg (nxt s) ((prv s)(h := Some b)) (Some b) (Some h) us None (way_tail s)"
    using dseg_relink_first [of "nxt s" "prv s" None "way_head s" us None "way_tail s" h hs]
      ord us h(1) by (auto simp: way_order_def)
  then have "way_order ?s (b # us)"
    using ord b h by (auto simp: way_order_def dseg_upd_notin fun_upd_twist [of b h])
  then show ?thesis using Head h b by (auto simp: way_link_def Let_def)
next
  case Tail
  obtain ts t where us: "us = ts @ [t]" using ne by (cases us rule: rev_cases) auto
  with ord b have t: "way_tail s = Some t" "t < length (set_blks s)" "t \<noteq> b"
    by (auto simp: way_order_def dseg_snoc)
  let ?s = "(upd_blk t (way_next_update (\<lambda>_. Some b))
      (upd_blk b (way_next_update (\<lambda>_. None))
        (upd_blk b (way_prev_update (\<lambda>_. Some t)) s)))\<lparr>way_tail := Some b\<rparr>"
  have "dseg ((nxt s)(t := Some b)) (prv s) None (way_head s) us (Some b) (Some t)"
    using dseg_relink_last [of "nxt s" "prv s" None "way_head s" us None "way_tail s" ts t]
      ord us t(1) by (auto simp: way_order_def)
  then have "way_order ?s (us @ [b])"
    using ord b t by (auto simp: way_order_def dseg_upd_notin dseg_snoc fun_upd_twist [of b t])
  then show ?thesis using Tail t b by (auto simp: way_link_def Let_def)
qed

text \<open>
  The main fact on the way chain: none of the asserts of \<open>update_way_list\<close> fires on a
  well-linked set, and the block ends up first or last with the others in their old order.
\<close>

lemma way_order_split:
  assumes ord: "way_order s (ys @ b # zs)"
  shows "prv s b = (if ys = [] then None else Some (last ys))"
    and "nxt s b = (if zs = [] then None else Some (hd zs))"
    and "dseg (nxt s) (prv s) None (way_head s) ys (Some b) (prv s b)"
    and "dseg (nxt s) (prv s) (Some b) (nxt s b) zs None (way_tail s)"
    and "way_head s = (if ys = [] then Some b else Some (hd ys))"
    and "way_tail s = (if zs = [] then Some b else Some (last zs))"
proof -
  obtain k where k: "dseg (nxt s) (prv s) None (way_head s) ys (Some b) k" "prv s b = k"
      "dseg (nxt s) (prv s) (Some b) (nxt s b) zs None (way_tail s)"
    using ord by (auto simp: way_order_def dseg_append)
  then show "dseg (nxt s) (prv s) None (way_head s) ys (Some b) (prv s b)"
    and "dseg (nxt s) (prv s) (Some b) (nxt s b) zs None (way_tail s)" by auto
  from k show "prv s b = (if ys = [] then None else Some (last ys))"
    and "way_head s = (if ys = [] then Some b else Some (hd ys))"
    by (auto dest: dseg_last dseg_hd)
  from k(3) show "nxt s b = (if zs = [] then None else Some (hd zs))"
    and "way_tail s = (if zs = [] then Some b else Some (last zs))"
    by (auto dest: dseg_last dseg_hd)
qed

lemma update_way_list_order:
  assumes ord: "way_order s xs" and b: "b \<in> set xs"
  shows "\<exists>s'. update_way_list s b loc = Inr s' \<and> way_order s' (move_to loc b xs)
      \<and> same_content s' s"
proof -
  from b obtain ys zs where xs: "xs = ys @ b # zs" by (meson split_list)
  from ord have d: "distinct xs" and lt: "\<And>x. x \<in> set xs \<Longrightarrow> x < length (set_blks s)"
    by (auto dest: way_orderD)
  have nb: "b \<notin> set ys" "b \<notin> set zs" and ds: "distinct ys" "distinct zs" using d xs by auto
  note sp = way_order_split [OF ord [unfolded xs]]
  have rm: "move_to loc b xs = (case loc of Head \<Rightarrow> b # (ys @ zs) | Tail \<Rightarrow> (ys @ zs) @ [b])"
    using nb xs by (simp add: move_to_def remove1_append split: list_loc.splits)
  have hd_zs: "hd zs < length (set_blks s)" "zs = hd zs # tl zs" if "zs \<noteq> []"
    using that lt [of "hd zs"] xs by auto
  have last_ys: "last ys < length (set_blks s)" "ys = butlast ys @ [last ys]" if "ys \<noteq> []"
    using that lt [of "last ys"] xs by auto
  have ends: "ys \<noteq> [] \<Longrightarrow> hd ys \<noteq> b" "zs \<noteq> [] \<Longrightarrow> last zs \<noteq> b"
    using nb by (metis hd_in_set, metis last_in_set)
  have linked: ?thesis
    if eq: "update_way_list s b loc = way_link s1 b loc" and o1: "way_order s1 (ys @ zs)"
      and ne: "ys @ zs \<noteq> []" and c: "same_content s1 s" for s1
  proof -
    have "b < length (set_blks s1)" using lt [OF b] same_content_length [OF c] by simp
    with way_link_order [OF o1 ne, of b loc] nb show ?thesis
      using eq rm c by (auto intro: same_content_trans)
  qed
  consider (single) "ys = []" "zs = []" | (first) "ys = []" "zs \<noteq> []"
    | (last) "ys \<noteq> []" "zs = []" | (mid) "ys \<noteq> []" "zs \<noteq> []" by auto
  then show ?thesis
  proof cases
    case single
    then have "update_way_list s b loc = Inr s" and "move_to loc b xs = xs"
      using sp xs by (auto simp: update_way_list_def move_to_def split: list_loc.splits)
    then show ?thesis using ord by auto
  next
    case first
    show ?thesis
    proof (cases loc)
      case Head
      then have "update_way_list s b loc = Inr s" and "move_to loc b xs = xs"
        using first sp nb xs
        by (auto simp: update_way_list_def move_to_def ends)
      then show ?thesis using ord by auto
    next
      case Tail
      let ?s1 = "upd_blk (hd zs) (way_prev_update (\<lambda>_. None)) (s\<lparr>way_head := Some (hd zs)\<rparr>)"
      have "dseg (nxt s) ((prv s)(hd zs := None)) None (Some (hd zs)) zs None (way_tail s)"
        using dseg_relink_first [OF sp(4) hd_zs(2) ds(2)] first sp by simp
      then have "way_order ?s1 (ys @ zs)"
        using hd_zs first ds lt xs by (auto simp: way_order_def)
      moreover have "update_way_list s b loc = way_link ?s1 b loc"
        using first sp nb Tail by (auto simp: update_way_list_def ends)
      ultimately show ?thesis using linked first hd_zs by auto
    qed
  next
    case last
    show ?thesis
    proof (cases loc)
      case Tail
      then have "update_way_list s b loc = Inr s" and "move_to loc b xs = xs"
        using last sp nb xs
        by (auto simp: update_way_list_def move_to_def remove1_append ends)
      then show ?thesis using ord by auto
    next
      case Head
      let ?s1 = "upd_blk (last ys) (way_next_update (\<lambda>_. None)) (s\<lparr>way_tail := Some (last ys)\<rparr>)"
      have "dseg ((nxt s)(last ys := None)) (prv s) None (way_head s) ys None (Some (last ys))"
        using dseg_relink_last [OF sp(3) last_ys(2) ds(1)] last sp by simp
      then have "way_order ?s1 (ys @ zs)"
        using last_ys last ds lt xs by (auto simp: way_order_def)
      moreover have "update_way_list s b loc = way_link ?s1 b loc"
        using last sp nb Head by (auto simp: update_way_list_def ends)
      ultimately show ?thesis using linked last last_ys by auto
    qed
  next
    case mid
    let ?p = "last ys" and ?n = "hd zs"
    let ?s1 = "upd_blk ?n (way_prev_update (\<lambda>_. Some ?p)) (upd_blk ?p (way_next_update (\<lambda>_. Some ?n)) s)"
    have p: "?p \<in> set ys" "?p \<notin> set zs" and n: "?n \<in> set zs" "?n \<notin> set ys"
      using d xs last_in_set [OF mid(1)] hd_in_set [OF mid(2)] by auto
    have "dseg ((nxt s)(?p := Some ?n)) ((prv s)(?n := Some ?p)) None (way_head s) ys (Some ?n) (Some ?p)"
      using dseg_relink_last [OF sp(3) last_ys(2) ds(1)] mid sp n by (simp add: dseg_upd_notin)
    moreover have "dseg ((nxt s)(?p := Some ?n)) ((prv s)(?n := Some ?p)) (Some ?p) (Some ?n) zs None (way_tail s)"
      using dseg_relink_first [OF sp(4) hd_zs(2) ds(2)] mid sp p by (simp add: dseg_upd_notin)
    ultimately have "dseg ((nxt s)(?p := Some ?n)) ((prv s)(?n := Some ?p)) None (way_head s)
        (ys @ zs) None (way_tail s)"
      by (auto simp: dseg_append)
    then have "way_order ?s1 (ys @ zs)"
      using hd_zs last_ys mid d lt xs by (auto simp: way_order_def)
    moreover have "update_way_list s b loc = way_link ?s1 b loc"
      using mid sp nb by (auto simp: update_way_list_def ends)
    ultimately show ?thesis using linked mid hd_zs last_ys by auto
  qed
qed

subsection \<open>The hash buckets\<close>

text \<open>
  \<open>bucket_chains hsize s B\<close>: the bucket chains hold exactly the blocks in \<open>B\<close>, each in the
  bucket its tag hashes to. Between \<open>unlink_htab_ent\<close> and \<open>link_htab_ent\<close> the replaced block
  is in none of them.
\<close>

definition hsize_ok :: "int \<Rightarrow> bool" where
  "hsize_ok hsize \<longleftrightarrow> (\<exists>k < 31. hsize = 2 ^ k)"

definition bucket_chains :: "int \<Rightarrow> cache_set \<Rightarrow> nat set \<Rightarrow> bool" where
  "bucket_chains hsize s B \<longleftrightarrow>
     length (set_hash s) = nat hsize
     \<and> (\<forall>k < nat hsize. \<exists>hs. chain (hnx s) (set_hash s ! k) hs \<and> distinct hs
          \<and> set hs = {i \<in> B. CACHE_HASH hsize (blk_tag (set_blks s ! i)) = k})"

lemma bucket_chainsE:
  assumes "bucket_chains hsize s B" "k < nat hsize"
  obtains hs where "chain (hnx s) (set_hash s ! k) hs" "distinct hs"
    "set hs = {i \<in> B. CACHE_HASH hsize (blk_tag (set_blks s ! i)) = k}"
  using assms unfolding bucket_chains_def by blast

definition blk_ways :: "cache_blk \<Rightarrow> cache_blk" where
  "blk_ways b = b\<lparr>hash_next := None\<rparr>"

definition same_but_hash :: "cache_set \<Rightarrow> cache_set \<Rightarrow> bool" where
  "same_but_hash s t \<longleftrightarrow> way_head s = way_head t \<and> way_tail s = way_tail t
     \<and> map blk_ways (set_blks s) = map blk_ways (set_blks t)"

lemma CACHE_HASH_less:
  assumes "hsize_ok hsize"
  shows "CACHE_HASH hsize key < nat hsize"
proof -
  from assms obtain k where k: "k < 31" "hsize = 2 ^ k" by (auto simp: hsize_ok_def)
  then have "word_of_int (hsize - 1) = (2 ^ k - 1 :: 64 word)" by simp
  then show ?thesis
    using k unat_and_mask_less [of k, where 'a = 64] by (simp add: CACHE_HASH_def nat_power_eq)
qed

lemma htab_scan_chain:
  assumes "chain nx ent (ys @ b # zs)" "b \<notin> set ys" "length (ys @ b # zs) < n"
  shows "htab_scan n nx b prev ent = Inr (if ys = [] then prev else Some (last ys), Some b)"
  using assms
proof (induction ys arbitrary: prev ent n)
  case Nil
  then show ?case by (cases n) auto
next
  case (Cons y ys)
  then obtain m where n: "n = Suc m" by (cases n) auto
  with Cons show ?case by auto
qed

lemma same_but_hash_length:
  "same_but_hash s t \<Longrightarrow> length (set_blks s) = length (set_blks t)"
  by (auto simp: same_but_hash_def dest: map_eq_imp_length_eq)

lemma blk_ways_sel [simp]:
  "blk_tag (blk_ways b) = blk_tag b" "blk_status (blk_ways b) = blk_status b"
  "blk_ready (blk_ways b) = blk_ready b" "blk_data (blk_ways b) = blk_data b"
  "way_next (blk_ways b) = way_next b" "way_prev (blk_ways b) = way_prev b"
  "blk_user_data (blk_ways b) = blk_user_data b"
  by (simp_all add: blk_ways_def)

lemma same_but_hash_nth:
  assumes "same_but_hash s t" "i < length (set_blks t)"
  shows "blk_tag (set_blks s ! i) = blk_tag (set_blks t ! i)"
    and "blk_status (set_blks s ! i) = blk_status (set_blks t ! i)"
    and "blk_ready (set_blks s ! i) = blk_ready (set_blks t ! i)"
    and "way_next (set_blks s ! i) = way_next (set_blks t ! i)"
    and "way_prev (set_blks s ! i) = way_prev (set_blks t ! i)"
    and "blk_data (set_blks s ! i) = blk_data (set_blks t ! i)"
    and "blk_user_data (set_blks s ! i) = blk_user_data (set_blks t ! i)"
proof -
  have eq: "blk_ways (set_blks s ! i) = blk_ways (set_blks t ! i)"
  proof -
    have "map blk_ways (set_blks s) ! i = map blk_ways (set_blks t) ! i"
      using assms by (simp add: same_but_hash_def)
    then show ?thesis using assms(2) same_but_hash_length [OF assms(1)] by simp
  qed
  show "blk_tag (set_blks s ! i) = blk_tag (set_blks t ! i)"
    using arg_cong [OF eq, of blk_tag] by simp
  show "blk_status (set_blks s ! i) = blk_status (set_blks t ! i)"
    using arg_cong [OF eq, of blk_status] by simp
  show "blk_ready (set_blks s ! i) = blk_ready (set_blks t ! i)"
    using arg_cong [OF eq, of blk_ready] by simp
  show "way_next (set_blks s ! i) = way_next (set_blks t ! i)"
    using arg_cong [OF eq, of way_next] by simp
  show "way_prev (set_blks s ! i) = way_prev (set_blks t ! i)"
    using arg_cong [OF eq, of way_prev] by simp
  show "blk_data (set_blks s ! i) = blk_data (set_blks t ! i)"
    using arg_cong [OF eq, of blk_data] by simp
  show "blk_user_data (set_blks s ! i) = blk_user_data (set_blks t ! i)"
    using arg_cong [OF eq, of blk_user_data] by simp
qed

lemma way_order_cong:
  assumes "length (set_blks s) = length (set_blks t)" "way_head s = way_head t" "way_tail s = way_tail t"
    and "\<And>i. i < length (set_blks t) \<Longrightarrow> nxt s i = nxt t i \<and> prv s i = prv t i"
  shows "way_order s xs = way_order t xs"
proof (cases "set xs \<subseteq> {..<length (set_blks t)}")
  case True
  then have "dseg (nxt s) (prv s) None (way_head s) xs None (way_tail s)
      = dseg (nxt t) (prv t) None (way_head t) xs None (way_tail t)"
    unfolding assms(2,3) by (intro dseg_cong assms(4)) auto
  with assms show ?thesis by (simp add: way_order_def)
next
  case False
  with assms show ?thesis by (simp add: way_order_def)
qed

lemma same_but_hash_way_order: "same_but_hash s t \<Longrightarrow> way_order s xs = way_order t xs"
  by (rule way_order_cong)
    (auto simp: same_but_hash_length same_but_hash_nth, auto simp: same_but_hash_def)

lemma same_but_hash_upd [simp]:
  assumes "i < length (set_blks s)"
  shows "same_but_hash (upd_blk i (hash_next_update f) s) t = same_but_hash s t"
  using assms
  by (auto simp: same_but_hash_def upd_blk_def blk_ways_def list_eq_iff_nth_eq nth_list_update)

lemma same_but_hash_set_hash [simp]:
  "same_but_hash (s\<lparr>set_hash := h\<rparr>) t = same_but_hash s t"
  by (simp add: same_but_hash_def)

lemma same_but_hash_refl [simp]: "same_but_hash s s"
  by (simp add: same_but_hash_def)

lemma hnx_upd:
  "i < length (set_blks s) \<Longrightarrow> hnx (upd_blk i (hash_next_update (\<lambda>_. v)) s) = (hnx s)(i := v)"
  by (auto simp: fun_eq_iff upd_blk_nth)

text \<open>
  \<open>unlink_htab_ent\<close> on a block that is in its bucket: the assert does not fire, the block
  leaves its chain and the other chains stay.
\<close>

lemma unlink_htab_ent_chains:
  assumes hs: "hsize_ok hsize" and bc: "bucket_chains hsize s B" and b: "b \<in> B"
    and B: "B \<subseteq> {..<length (set_blks s)}"
  shows "\<exists>s'. unlink_htab_ent hsize s b = Inr s' \<and> bucket_chains hsize s' (B - {b})
      \<and> same_but_hash s' s"
proof -
  define index where "index = CACHE_HASH hsize (blk_tag (set_blks s ! b))"
  let ?bkt = "\<lambda>k. {i \<in> B. CACHE_HASH hsize (blk_tag (set_blks s ! i)) = k}"
  have len: "length (set_hash s) = nat hsize" and ix: "index < nat hsize"
    using bc hs CACHE_HASH_less by (auto simp: bucket_chains_def index_def)
  from bc ix obtain hs0 where h0: "chain (hnx s) (set_hash s ! index) hs0" "distinct hs0"
      "set hs0 = ?bkt index" by (auto simp: bucket_chains_def)
  then have "b \<in> set hs0" using b by (simp add: index_def)
  then obtain ys zs where sp: "hs0 = ys @ b # zs" by (meson split_list)
  have bl: "b < length (set_blks s)" using b B by auto
  have "length hs0 = card (set hs0)" using h0(2) by (simp add: distinct_card)
  also have "\<dots> \<le> card {..<length (set_blks s)}" using h0(3) B by (intro card_mono) auto
  finally have scan: "htab_scan (Suc (length (set_blks s))) (hnx s) b None (set_hash s ! index)
      = Inr (if ys = [] then None else Some (last ys), Some b)"
    using h0 sp by (intro htab_scan_chain [of _ _ ys b zs]) auto
  define s1 where "s1 = (if ys = [] then s\<lparr>set_hash := (set_hash s)[index := hnx s b]\<rparr>
      else upd_blk (last ys) (hash_next_update (\<lambda>_. hnx s b)) s)"
  define s2 where "s2 = upd_blk b (hash_next_update (\<lambda>_. None)) s1"
  have last: "last ys \<in> ?bkt index" "last ys < length (set_blks s)" "last ys \<noteq> b" if "ys \<noteq> []"
  proof -
    have "last ys \<in> set hs0" using that sp by simp
    then show "last ys \<in> ?bkt index" "last ys < length (set_blks s)" using h0(3) B by auto
    show "last ys \<noteq> b" using that h0(2) sp by (metis distinct_append disjoint_iff last_in_set
          list.set_intros(1))
  qed
  have l1: "length (set_blks s1) = length (set_blks s)" by (simp add: s1_def)
  have sbh: "same_but_hash s2 s" using bl last l1 by (simp add: s2_def s1_def)
  have tag: "blk_tag (set_blks s2 ! i) = blk_tag (set_blks s ! i)" if "i \<in> B" for i
    using same_but_hash_nth [OF sbh] that B by auto
  have hn: "hnx s2 = (if ys = [] then (hnx s)(b := None) else (hnx s)(last ys := hnx s b, b := None))"
    using bl last l1 by (auto simp: s2_def s1_def hnx_upd)
  have hh: "set_hash s2 = (if ys = [] then (set_hash s)[index := hnx s b] else set_hash s)"
    by (simp add: s2_def s1_def)
  have "bucket_chains hsize s2 (B - {b})"
    unfolding bucket_chains_def
  proof (intro conjI allI impI)
    show "length (set_hash s2) = nat hsize" using len hh by simp
  next
    fix k assume k: "k < nat hsize"
    have bkt: "{i \<in> B - {b}. CACHE_HASH hsize (blk_tag (set_blks s2 ! i)) = k} = ?bkt k - {b}"
      using tag by auto
    show "\<exists>hs. chain (hnx s2) (set_hash s2 ! k) hs \<and> distinct hs
        \<and> set hs = {i \<in> B - {b}. CACHE_HASH hsize (blk_tag (set_blks s2 ! i)) = k}"
    proof (cases "k = index")
      case True
      have "chain (hnx s2) (set_hash s2 ! k) (ys @ zs)"
        using chain_remove [OF h0(1,2) [unfolded sp]] h0(2) sp hn hh True ix len
        by (auto simp: chain_upd_notin)
      moreover have "set (ys @ zs) = ?bkt k - {b}" using h0(2,3) sp True by auto
      ultimately show ?thesis using bkt h0(2) sp by (intro exI [of _ "ys @ zs"]) auto
    next
      case False
      with bc k obtain hk where hk: "chain (hnx s) (set_hash s ! k) hk" "distinct hk"
          "set hk = ?bkt k" by (auto simp: bucket_chains_def)
      have "b \<notin> set hk" using hk(3) False by (auto simp: index_def)
      moreover have "ys \<noteq> [] \<Longrightarrow> last ys \<notin> set hk" using last(1) hk(3) False by auto
      ultimately have "chain (hnx s2) (set_hash s2 ! k) hk"
        using hk(1) hn hh False by (auto simp: chain_upd_notin)
      moreover have "set hk = ?bkt k - {b}" using hk(3) False by (auto simp: index_def)
      ultimately show ?thesis using bkt hk(2) by blast
    qed
  qed
  moreover have "unlink_htab_ent hsize s b = Inr s2"
    unfolding unlink_htab_ent_def Let_def index_def [symmetric] scan
    by (simp add: s2_def s1_def)
  ultimately show ?thesis using sbh by blast
qed

lemma link_htab_ent_chains:
  assumes hs: "hsize_ok hsize" and bc: "bucket_chains hsize s B" and b: "b \<notin> B"
    and bl: "b < length (set_blks s)" and B: "B \<subseteq> {..<length (set_blks s)}"
  shows "bucket_chains hsize (link_htab_ent hsize s b) (insert b B)
      \<and> same_but_hash (link_htab_ent hsize s b) s"
proof
  let ?t = "link_htab_ent hsize s b"
  define index where "index = CACHE_HASH hsize (blk_tag (set_blks s ! b))"
  show sbh: "same_but_hash ?t s" using bl by (simp add: link_htab_ent_def Let_def)
  have len: "length (set_hash s) = nat hsize" and ix: "index < nat hsize"
    using bc hs CACHE_HASH_less by (auto simp: bucket_chains_def index_def)
  have hn: "hnx ?t = (hnx s)(b := set_hash s ! index)"
    using bl by (simp add: link_htab_ent_def Let_def index_def [symmetric] hnx_upd)
  have hh: "set_hash ?t = (set_hash s)[index := Some b]"
    by (simp add: link_htab_ent_def Let_def index_def)
  have tag: "blk_tag (set_blks ?t ! i) = blk_tag (set_blks s ! i)" if "i \<in> insert b B" for i
    using same_but_hash_nth [OF sbh] that B bl by auto
  show "bucket_chains hsize ?t (insert b B)"
    unfolding bucket_chains_def
  proof (intro conjI allI impI)
    show "length (set_hash ?t) = nat hsize" using len hh by simp
  next
    fix k assume k: "k < nat hsize"
    with bc obtain hk where hk: "chain (hnx s) (set_hash s ! k) hk" "distinct hk"
        "set hk = {i \<in> B. CACHE_HASH hsize (blk_tag (set_blks s ! i)) = k}"
      by (auto simp: bucket_chains_def)
    have nb: "b \<notin> set hk" using hk(3) b by auto
    let ?hs = "if k = index then b # hk else hk"
    have "chain (hnx ?t) (set_hash ?t ! k) ?hs"
      using hk(1) hn hh k len nb by (auto simp: chain_upd_notin)
    moreover have "set ?hs = {i \<in> insert b B. CACHE_HASH hsize (blk_tag (set_blks ?t ! i)) = k}"
      using hk(3) tag b by (auto simp: index_def)
    ultimately show "\<exists>hs. chain (hnx ?t) (set_hash ?t ! k) hs \<and> distinct hs
        \<and> set hs = {i \<in> insert b B. CACHE_HASH hsize (blk_tag (set_blks ?t ! i)) = k}"
      using hk(2) nb by (intro exI [of _ ?hs]) auto
  qed
qed

end
