(* ===== verification/Misc.thy ===== *)
theory Misc
  imports CPrelude
begin

text \<open>
  The machine-independent helpers of misc.c.
\<close>

subsection \<open>Logarithm to base two\<close>

fun log2_loop :: "nat \<Rightarrow> nat \<Rightarrow> nat" where
  "log2_loop n pw = (let m = n div 2 in if m = 0 then pw else log2_loop m (pw + 1))"

declare log2_loop.simps [simp del]

definition log_base2 :: "int \<Rightarrow> nat cres" where
  "log_base2 n =
     (if n \<le> 0 \<or> n AND (n - 1) \<noteq> 0
      then Inl (Panic ''log2() only works for positive power of two values'')
      else Inr (log2_loop (nat n) 0))"

lemma log2_loop_pow2: "log2_loop (2 ^ k) p = p + k"
proof (induction k arbitrary: p)
  case 0
  then show ?case by (subst log2_loop.simps) simp
next
  case (Suc k)
  then show ?case by (subst log2_loop.simps) simp
qed

lemma log_base2_pow2: "log_base2 (2 ^ k) = Inr k"
  using and_pred_int [of "2 ^ k"] by (auto simp: log_base2_def nat_power_eq log2_loop_pow2)

end
