(* ===== verification/Cache.thy ===== *)
theory Cache
  imports CacheSet Misc
begin

text \<open>
  The cache module (cache.c, cache.h): creation, access, probe and the two flushes, over the
  sets of the theory CacheSet. The miss handler \<open>blk_access_fn\<close> is a function pointer that
  every simulator supplies: it is a parameter, given the block by value and the state \<open>'w\<close>
  of the memory below the cache, and it returns its latency, the block's data and the new
  state below. \<open>myrand()\<close> is the parameter \<open>rnd\<close>. Addresses are 64-bit words
  (\<open>md_addr_t\<close>), ticks 64-bit two's complement words (\<open>tick_t\<close>), latencies 32-bit words.
\<close>

subsection \<open>State\<close>

record cache =
  cp_name :: string
  cp_nsets :: int
  cp_bsize :: int
  cp_balloc :: bool
  cp_usize :: int
  cp_assoc :: int
  cp_policy :: cache_policy
  cp_hit_latency :: "32 word"
  cp_hsize :: int
  cp_blk_mask :: "64 word"
  cp_set_shift :: nat
  cp_set_mask :: "64 word"
  cp_tag_shift :: nat
  cp_tagset_mask :: "64 word"
  cp_bus_free :: "64 word"
  cp_hits :: "64 word"
  cp_misses :: "64 word"
  cp_replacements :: "64 word"
  cp_writebacks :: "64 word"
  cp_invalidations :: "64 word"
  cp_last_tagset :: "64 word"
  cp_last_blk :: "(nat \<times> nat) option"
  cp_sets :: "cache_set list"

type_synonym 'w blk_access_fn =
  "mem_cmd \<Rightarrow> 64 word \<Rightarrow> int \<Rightarrow> cache_blk \<Rightarrow> 64 word \<Rightarrow> 'w \<Rightarrow> 32 word \<times> 8 word list \<times> 'w"

definition CACHE_TAG :: "cache \<Rightarrow> 64 word \<Rightarrow> 64 word" where
  "CACHE_TAG cp addr = drop_bit (cp_tag_shift cp) addr"

definition CACHE_SET :: "cache \<Rightarrow> 64 word \<Rightarrow> 64 word" where
  "CACHE_SET cp addr = drop_bit (cp_set_shift cp) addr AND cp_set_mask cp"

definition CACHE_BLK :: "cache \<Rightarrow> 64 word \<Rightarrow> 64 word" where
  "CACHE_BLK cp addr = addr AND cp_blk_mask cp"

definition CACHE_TAGSET :: "cache \<Rightarrow> 64 word \<Rightarrow> 64 word" where
  "CACHE_TAGSET cp addr = addr AND cp_tagset_mask cp"

definition CACHE_BADDR :: "cache \<Rightarrow> 64 word \<Rightarrow> 64 word" where
  "CACHE_BADDR cp addr = addr AND NOT (cp_blk_mask cp)"

definition CACHE_MK_BADDR :: "cache \<Rightarrow> 64 word \<Rightarrow> 64 word \<Rightarrow> 64 word" where
  "CACHE_MK_BADDR cp tag st = push_bit (cp_tag_shift cp) tag OR push_bit (cp_set_shift cp) st"

text \<open>\<open>CACHE_BCOPY\<close>: the block's new data and the new buffer.\<close>

definition bcopy_len :: "int \<Rightarrow> nat" where
  "bcopy_len nbytes =
     (if nbytes = 1 then 1 else if nbytes = 2 then 2 else if nbytes = 4 then 4
      else nat (4 * (nbytes div 4)))"

definition CACHE_BCOPY :: "mem_cmd \<Rightarrow> 8 word list \<Rightarrow> nat \<Rightarrow> 8 word list \<Rightarrow> int
    \<Rightarrow> 8 word list \<times> 8 word list" where
  "CACHE_BCOPY cmd blk bofs p nbytes =
     (let n = bcopy_len nbytes in
      case cmd of
        Read \<Rightarrow> (blk, take n (drop bofs blk) @ drop n p)
      | Write \<Rightarrow> (take bofs blk @ take n p @ drop (bofs + n) blk, p))"

text \<open>Data moves only in caches that allocate it (\<open>if (cp->balloc)\<close>).\<close>

definition blk_copy :: "cache \<Rightarrow> mem_cmd \<Rightarrow> 8 word list \<Rightarrow> nat \<Rightarrow> 8 word list \<Rightarrow> int
    \<Rightarrow> 8 word list \<times> 8 word list" where
  "blk_copy cp cmd blk bofs p nbytes =
     (if cp_balloc cp then CACHE_BCOPY cmd blk bofs p nbytes else (blk, p))"

definition BOUND_POS :: "64 word \<Rightarrow> 32 word" where
  "BOUND_POS n = (if n <s 0 then 0 else if 2147483647 <s n then 2147483647 else ucast n)"

definition smax :: "64 word \<Rightarrow> 64 word \<Rightarrow> 64 word" where
  "smax a b = (if a <s b then b else a)"

definition upd_set :: "nat \<Rightarrow> (cache_set \<Rightarrow> cache_set) \<Rightarrow> cache \<Rightarrow> cache" where
  "upd_set i f cp = cp\<lparr>cp_sets := (cp_sets cp)[i := f (cp_sets cp ! i)]\<rparr>"

subsection \<open>Creation\<close>

definition CACHE_HIGHLY_ASSOC :: "int \<Rightarrow> bool" where
  "CACHE_HIGHLY_ASSOC assoc \<longleftrightarrow> assoc > 4"

definition zero_blk :: "bool \<Rightarrow> int \<Rightarrow> cache_blk" where
  "zero_blk balloc bsize =
     \<lparr>way_next = None, way_prev = None, hash_next = None, blk_tag = 0, blk_status = 0,
      blk_ready = 0, blk_user_data = None,
      blk_data = (if balloc then replicate (nat bsize) 0 else [])\<rparr>"

text \<open>Insert a block at the head of the way list, \<open>cache_create\<close>'s own code.\<close>

definition way_push :: "nat \<Rightarrow> cache_set \<Rightarrow> cache_set" where
  "way_push b s =
     (let s1 = upd_blk b (\<lambda>k. k\<lparr>way_next := way_head s, way_prev := None\<rparr>) s;
          s2 = (case way_head s of None \<Rightarrow> s1 | Some h \<Rightarrow> upd_blk h (way_prev_update (\<lambda>_. Some b)) s1);
          s3 = s2\<lparr>way_head := Some b\<rparr>
      in if way_tail s3 = None then s3\<lparr>way_tail := Some b\<rparr> else s3)"

definition init_blk :: "int \<Rightarrow> int \<Rightarrow> nat \<Rightarrow> nat \<Rightarrow> cache_set \<Rightarrow> cache_set" where
  "init_blk hsize usize base j s =
     (let s1 = upd_blk j (\<lambda>k. k\<lparr>blk_status := 0, blk_tag := 0, blk_ready := 0,
                            blk_user_data := (if usize \<noteq> 0 then Some (base + j) else None)\<rparr>) s;
          s2 = (if hsize \<noteq> 0 then link_htab_ent hsize s1 j else s1)
      in way_push j s2)"

definition init_set :: "int \<Rightarrow> int \<Rightarrow> bool \<Rightarrow> int \<Rightarrow> nat \<Rightarrow> nat \<Rightarrow> cache_set" where
  "init_set hsize usize balloc bsize n i =
     fold (init_blk hsize usize (i * n)) [0..<n]
       \<lparr>set_hash = replicate (nat hsize) None, way_head = None, way_tail = None,
        set_blks = replicate n (zero_blk balloc bsize)\<rparr>"

definition cache_params_check :: "int \<Rightarrow> int \<Rightarrow> int \<Rightarrow> int \<Rightarrow> bool \<Rightarrow> unit cres" where
  "cache_params_check nsets bsize usize assoc has_fn =
     (if nsets \<le> 0 then Inl (Fatal ''cache size (in sets) `%d' must be non-zero'')
      else if nsets AND (nsets - 1) \<noteq> 0 then Inl (Fatal ''cache size (in sets) `%d' is not a power of two'')
      else if bsize < 8 then Inl (Fatal ''cache block size (in bytes) `%d' must be 8 or greater'')
      else if bsize AND (bsize - 1) \<noteq> 0 then Inl (Fatal ''cache block size (in bytes) `%d' must be a power of two'')
      else if usize < 0 then Inl (Fatal ''user data size (in bytes) `%d' must be a positive value'')
      else if assoc \<le> 0 then Inl (Fatal ''cache associativity `%d' must be non-zero and positive'')
      else if assoc AND (assoc - 1) \<noteq> 0 then Inl (Fatal ''cache associativity `%d' must be a power of two'')
      else if \<not> has_fn then Inl (Fatal ''must specify miss/replacement functions'')
      else Inr ())"

definition cache_create :: "string \<Rightarrow> int \<Rightarrow> int \<Rightarrow> bool \<Rightarrow> int \<Rightarrow> int \<Rightarrow> cache_policy \<Rightarrow> bool
    \<Rightarrow> 32 word \<Rightarrow> cache cres" where
  "cache_create name nsets bsize balloc usize assoc policy has_fn hit_latency =
     cbind (cache_params_check nsets bsize usize assoc has_fn) (\<lambda>_.
     cbind (log_base2 bsize) (\<lambda>set_shift.
     cbind (log_base2 nsets) (\<lambda>lsets.
     let hsize = (if CACHE_HIGHLY_ASSOC assoc then assoc div 4 else 0);
         blk_mask = word_of_int (bsize - 1)
     in Inr \<lparr>cp_name = name, cp_nsets = nsets, cp_bsize = bsize, cp_balloc = balloc,
             cp_usize = usize, cp_assoc = assoc, cp_policy = policy,
             cp_hit_latency = hit_latency, cp_hsize = hsize, cp_blk_mask = blk_mask,
             cp_set_shift = set_shift, cp_set_mask = word_of_int (nsets - 1),
             cp_tag_shift = set_shift + lsets, cp_tagset_mask = NOT blk_mask,
             cp_bus_free = 0, cp_hits = 0, cp_misses = 0, cp_replacements = 0,
             cp_writebacks = 0, cp_invalidations = 0, cp_last_tagset = 0, cp_last_blk = None,
             cp_sets = map (init_set hsize usize balloc bsize (nat assoc)) [0..<nat nsets]\<rparr>)))"

definition cache_char2policy :: "char \<Rightarrow> cache_policy cres" where
  "cache_char2policy c =
     (if c = CHR ''l'' then Inr LRU
      else if c = CHR ''r'' then Inr Random
      else if c = CHR ''f'' then Inr FIFO
      else Inl (Fatal (''bogus replacement policy, `%c'' @ [CHR 0x27])))"

subsection \<open>Lookup\<close>

definition blk_match :: "64 word \<Rightarrow> cache_set \<Rightarrow> nat \<Rightarrow> bool" where
  "blk_match tag s i \<longleftrightarrow> blk_tag (set_blks s ! i) = tag \<and> blk_valid (set_blks s ! i)"

text \<open>
  The search shared by \<open>cache_access\<close>, \<open>cache_probe\<close> and \<open>cache_flush_addr\<close>: through the hash
  table of the set when the cache is highly associative, else along the way list.
\<close>

definition cache_find :: "cache \<Rightarrow> 64 word \<Rightarrow> nat \<Rightarrow> nat option cres" where
  "cache_find cp tag si =
     (let s = cp_sets cp ! si; fuel = Suc (length (set_blks s)) in
      if cp_hsize cp \<noteq> 0
      then walk fuel (blk_match tag s) (hnx s) (set_hash s ! CACHE_HASH (cp_hsize cp) tag)
      else walk fuel (blk_match tag s) (nxt s) (way_head s))"

definition cache_probe :: "cache \<Rightarrow> 64 word \<Rightarrow> bool cres" where
  "cache_probe cp addr =
     cbind (cache_find cp (CACHE_TAG cp addr) (unat (CACHE_SET cp addr)))
       (\<lambda>r. Inr (r \<noteq> None))"

subsection \<open>Access\<close>

record 'w access_out =
  ao_lat :: "32 word"
  ao_p :: "8 word list"
  ao_udata :: "nat option"
  ao_repl_addr :: "64 word"
  ao_cache :: cache
  ao_world :: 'w

text \<open>Size, alignment and block-span checks at the head of \<open>cache_access\<close>.\<close>

definition access_check :: "cache \<Rightarrow> 64 word \<Rightarrow> int \<Rightarrow> unit cres" where
  "access_check cp addr nbytes =
     (if nbytes AND (nbytes - 1) \<noteq> 0 \<or> addr AND word_of_int (nbytes - 1) \<noteq> 0
      then Inl (Fatal ''cache: access error: bad size or alignment, addr 0x%08x'')
      else if addr + word_of_int nbytes
              > (addr AND NOT (cp_blk_mask cp)) + word_of_int (cp_bsize cp)
      then Inl (Fatal ''cache: access error: access spans block, addr 0x%08x'')
      else Inr ())"

text \<open>Choice of the block to replace; LRU and FIFO also relink it at the head.\<close>

definition choose_repl :: "cache \<Rightarrow> int \<Rightarrow> cache_set \<Rightarrow> (nat \<times> cache_set) cres" where
  "choose_repl cp rnd s =
     (case cp_policy cp of
        Random \<Rightarrow> Inr (nat (rnd AND (cp_assoc cp - 1)), s)
      | _ \<Rightarrow> cbind (deref (way_tail s)) (\<lambda>r.
              cbind (update_way_list s r Head) (\<lambda>s'. Inr (r, s'))))"

text \<open>
  Eviction of a valid block: replacement address, waiting for the block and the bus, bus
  occupation, and the write-back of a dirty block.
\<close>

definition evict :: "'w blk_access_fn \<Rightarrow> cache \<Rightarrow> 64 word \<Rightarrow> cache_blk \<Rightarrow> 64 word \<Rightarrow> 'w
    \<Rightarrow> 32 word \<times> 64 word \<times> 8 word list \<times> cache \<times> 'w" where
  "evict fn cp st repl now w =
     (if blk_valid repl then
        let baddr = CACHE_MK_BADDR cp (blk_tag repl) st;
            lat1 = BOUND_POS (blk_ready repl - now);
            lat2 = lat1 + BOUND_POS (cp_bus_free cp - (now + scast lat1));
            cp1 = cp\<lparr>cp_replacements := cp_replacements cp + 1,
                     cp_bus_free := smax (cp_bus_free cp) (now + scast lat2) + 1\<rparr>
        in if blk_dirty repl then
             let (l, d, w') = fn Write baddr (cp_bsize cp) repl (now + scast lat2) w
             in (lat2 + l, baddr, d, cp1\<lparr>cp_writebacks := cp_writebacks cp1 + 1\<rparr>, w')
           else (lat2, baddr, blk_data repl, cp1, w)
      else (0, 0, blk_data repl, cp, w))"

text \<open>
  The rest of a miss, once the victim \<open>r\<close> is chosen and out of the hash table: eviction, the
  fetch of the block, the copy, the status update and the return to the hash table.
\<close>

definition cache_fill :: "'w blk_access_fn \<Rightarrow> cache \<Rightarrow> mem_cmd \<Rightarrow> 64 word \<Rightarrow> 8 word list \<Rightarrow> int
    \<Rightarrow> 64 word \<Rightarrow> 'w \<Rightarrow> nat \<Rightarrow> cache_set \<Rightarrow> 'w access_out" where
  "cache_fill fn cp cmd addr p nbytes now w r s2 =
     (let tag = CACHE_TAG cp addr; st = CACHE_SET cp addr; si = unat st;
          bofs = unat (CACHE_BLK cp addr);
          cp2 = cp\<lparr>cp_last_tagset := 0, cp_last_blk := None\<rparr>;
          (lat1, repl_addr, d1, cp3, w1) = evict fn cp2 st (set_blks s2 ! r) now w;
          s3 = upd_blk r (\<lambda>b. b\<lparr>blk_data := d1, blk_tag := tag, blk_status := CACHE_BLK_VALID\<rparr>) s2;
          (l, d2, w2) = fn Read (CACHE_BADDR cp addr) (cp_bsize cp) (set_blks s3 ! r)
                           (now + scast lat1) w1;
          lat = lat1 + l;
          dp = blk_copy cp cmd d2 bofs p nbytes;
          s4 = upd_blk r (\<lambda>b. b\<lparr>blk_data := fst dp,
                 blk_status := (if cmd = Write then blk_status b OR CACHE_BLK_DIRTY
                                else blk_status b),
                 blk_ready := now + scast lat\<rparr>) s3;
          s5 = (if cp_hsize cp \<noteq> 0 then link_htab_ent (cp_hsize cp) s4 r else s4)
      in \<lparr>ao_lat = lat, ao_p = snd dp, ao_udata = blk_user_data (set_blks s5 ! r),
          ao_repl_addr = repl_addr, ao_cache = upd_set si (\<lambda>_. s5) cp3, ao_world = w2\<rparr>)"

definition cache_miss :: "'w blk_access_fn \<Rightarrow> cache \<Rightarrow> mem_cmd \<Rightarrow> 64 word \<Rightarrow> 8 word list \<Rightarrow> int
    \<Rightarrow> 64 word \<Rightarrow> int \<Rightarrow> 'w \<Rightarrow> 'w access_out cres" where
  "cache_miss fn cp cmd addr p nbytes now rnd w =
     (let cp1 = cp\<lparr>cp_misses := cp_misses cp + 1\<rparr> in
      cbind (choose_repl cp1 rnd (cp_sets cp1 ! unat (CACHE_SET cp1 addr))) (\<lambda>(r, s1).
      cbind (if cp_hsize cp1 \<noteq> 0 then unlink_htab_ent (cp_hsize cp1) s1 r else Inr s1) (\<lambda>s2.
      Inr (cache_fill fn cp1 cmd addr p nbytes now w r s2))))"

definition cache_hit :: "cache \<Rightarrow> mem_cmd \<Rightarrow> 64 word \<Rightarrow> 8 word list \<Rightarrow> int
    \<Rightarrow> 64 word \<Rightarrow> nat \<Rightarrow> 'w \<Rightarrow> 'w access_out cres" where
  "cache_hit cp cmd addr p nbytes now b w =
     (let si = unat (CACHE_SET cp addr); bofs = unat (CACHE_BLK cp addr);
          cp1 = cp\<lparr>cp_hits := cp_hits cp + 1\<rparr>;
          s = cp_sets cp1 ! si; blk = set_blks s ! b;
          dp = blk_copy cp cmd (blk_data blk) bofs p nbytes;
          s1 = upd_blk b (\<lambda>k. k\<lparr>blk_data := fst dp,
                 blk_status := (if cmd = Write then blk_status k OR CACHE_BLK_DIRTY
                                else blk_status k)\<rparr>) s
      in cbind (if prv s1 b \<noteq> None \<and> cp_policy cp = LRU then update_way_list s1 b Head
                else Inr s1) (\<lambda>s2.
         let cp2 = (upd_set si (\<lambda>_. s2) cp1)\<lparr>cp_last_tagset := CACHE_TAGSET cp addr,
                                                cp_last_blk := Some (si, b)\<rparr>
         in Inr \<lparr>ao_lat = ucast (smax (ucast (cp_hit_latency cp)) (blk_ready blk - now)),
                 ao_p = snd dp, ao_udata = blk_user_data blk, ao_repl_addr = 0,
                 ao_cache = cp2, ao_world = w\<rparr>))"

definition cache_access :: "'w blk_access_fn \<Rightarrow> cache \<Rightarrow> mem_cmd \<Rightarrow> 64 word \<Rightarrow> 8 word list \<Rightarrow> int
    \<Rightarrow> 64 word \<Rightarrow> int \<Rightarrow> 'w \<Rightarrow> 'w access_out cres" where
  "cache_access fn cp cmd addr p nbytes now rnd w =
     cbind (access_check cp addr nbytes) (\<lambda>_.
     cbind (cache_find cp (CACHE_TAG cp addr) (unat (CACHE_SET cp addr))) (\<lambda>r.
     case r of
       Some b \<Rightarrow> cache_hit cp cmd addr p nbytes now b w
     | None \<Rightarrow> cache_miss fn cp cmd addr p nbytes now rnd w))"

subsection \<open>Flushing\<close>

text \<open>
  Invalidate one valid block, writing it back when dirty: the body shared by both flushes.
  They form the address of the write-back differently (\<open>mk\<close>): in \<open>cache_flush\<close> the set
  index is an \<open>int\<close> and is shifted at 32 bits.
\<close>

definition invalidate_blk :: "'w blk_access_fn \<Rightarrow> (64 word \<Rightarrow> 64 word) \<Rightarrow> nat \<Rightarrow> nat \<Rightarrow> 64 word
    \<Rightarrow> 32 word \<times> cache \<times> 'w \<Rightarrow> 32 word \<times> cache \<times> 'w" where
  "invalidate_blk fn mk si b now = (\<lambda>(lat, cp, w).
     let s1 = upd_blk b (\<lambda>k. k\<lparr>blk_status := blk_status k AND NOT CACHE_BLK_VALID\<rparr>) (cp_sets cp ! si);
         blk = set_blks s1 ! b;
         cp1 = (upd_set si (\<lambda>_. s1) cp)\<lparr>cp_invalidations := cp_invalidations cp + 1\<rparr>
     in if blk_dirty blk then
          let (l, d, w') = fn Write (mk (blk_tag blk)) (cp_bsize cp) blk (now + scast lat) w
          in (lat + l,
              upd_set si (upd_blk b (\<lambda>k. k\<lparr>blk_data := d\<rparr>))
                (cp1\<lparr>cp_writebacks := cp_writebacks cp1 + 1\<rparr>), w')
        else (lat, cp1, w))"

definition CACHE_MK_BADDR_int :: "cache \<Rightarrow> 64 word \<Rightarrow> nat \<Rightarrow> 64 word" where
  "CACHE_MK_BADDR_int cp tag i =
     push_bit (cp_tag_shift cp) tag OR scast (push_bit (cp_set_shift cp) (of_nat i :: 32 word))"

fun flush_ways :: "nat \<Rightarrow> 'w blk_access_fn \<Rightarrow> nat \<Rightarrow> 64 word \<Rightarrow> nat option
    \<Rightarrow> 32 word \<times> cache \<times> 'w \<Rightarrow> (32 word \<times> cache \<times> 'w) cres" where
  "flush_ways 0 fn si now p st = Inl Diverge"
| "flush_ways (Suc n) fn si now None st = Inr st"
| "flush_ways (Suc n) fn si now (Some b) st =
     (let st' = (if blk_valid (set_blks (cp_sets (fst (snd st)) ! si) ! b)
                 then invalidate_blk fn (\<lambda>t. CACHE_MK_BADDR_int (fst (snd st)) t si) si b now st
                 else st)
      in flush_ways n fn si now (nxt (cp_sets (fst (snd st')) ! si) b) st')"

fun flush_sets :: "'w blk_access_fn \<Rightarrow> nat list \<Rightarrow> 64 word \<Rightarrow> 32 word \<times> cache \<times> 'w
    \<Rightarrow> (32 word \<times> cache \<times> 'w) cres" where
  "flush_sets fn [] now st = Inr st"
| "flush_sets fn (i # is) now st =
     (let s = cp_sets (fst (snd st)) ! i in
      cbind (flush_ways (Suc (length (set_blks s))) fn i now (way_head s) st)
        (flush_sets fn is now))"

definition cache_flush :: "'w blk_access_fn \<Rightarrow> cache \<Rightarrow> 64 word \<Rightarrow> 'w \<Rightarrow> (32 word \<times> cache \<times> 'w) cres" where
  "cache_flush fn cp now w =
     flush_sets fn [0..<nat (cp_nsets cp)] now
       (cp_hit_latency cp, cp\<lparr>cp_last_tagset := 0, cp_last_blk := None\<rparr>, w)"

definition cache_flush_addr :: "'w blk_access_fn \<Rightarrow> cache \<Rightarrow> 64 word \<Rightarrow> 64 word \<Rightarrow> 'w
    \<Rightarrow> (32 word \<times> cache \<times> 'w) cres" where
  "cache_flush_addr fn cp addr now w =
     (let si = unat (CACHE_SET cp addr); lat = cp_hit_latency cp in
      cbind (cache_find cp (CACHE_TAG cp addr) si) (\<lambda>r.
      case r of
        None \<Rightarrow> Inr (lat, cp, w)
      | Some b \<Rightarrow>
          let (lat', cp', w') = invalidate_blk fn
                (\<lambda>t. CACHE_MK_BADDR cp t (CACHE_SET cp addr)) si b now
                (lat, cp\<lparr>cp_last_tagset := 0, cp_last_blk := None\<rparr>, w)
          in cbind (update_way_list (cp_sets cp' ! si) b Tail) (\<lambda>s2.
               Inr (lat', upd_set si (\<lambda>_. s2) cp', w'))))"

end
