(* ===== verification/CacheCorrect.thy ===== *)
theory CacheCorrect
  imports Cache
begin

text \<open>
  Correctness of the cache: well-formedness and its preservation, the equivalence of the
  two lookups, the refinement of the LRU and FIFO caches by lists of lines, and the facts
  on probes and flushes that follow.
\<close>

subsection \<open>Well-formedness\<close>

definition set_wf :: "int \<Rightarrow> nat \<Rightarrow> cache_set \<Rightarrow> bool" where
  "set_wf hsize n s \<longleftrightarrow>
     length (set_blks s) = n
     \<and> (\<exists>xs. way_order s xs \<and> set xs = {..<n})
     \<and> (hsize \<noteq> 0 \<longrightarrow> bucket_chains hsize s {..<n})
     \<and> (\<forall>i < n. \<forall>j < n. blk_valid (set_blks s ! i) \<and> blk_valid (set_blks s ! j)
          \<and> blk_tag (set_blks s ! i) = blk_tag (set_blks s ! j) \<longrightarrow> i = j)"

definition geometry :: "cache \<Rightarrow> nat \<Rightarrow> nat \<Rightarrow> nat \<Rightarrow> bool" where
  "geometry cp kb ks ka \<longleftrightarrow>
     3 \<le> kb \<and> kb < 31 \<and> ks < 31 \<and> ka < 31
     \<and> cp_bsize cp = 2 ^ kb \<and> cp_nsets cp = 2 ^ ks \<and> cp_assoc cp = 2 ^ ka
     \<and> cp_hsize cp = (if (4::int) < 2 ^ ka then 2 ^ ka div 4 else 0)
     \<and> cp_blk_mask cp = 2 ^ kb - 1 \<and> cp_set_shift cp = kb
     \<and> cp_set_mask cp = 2 ^ ks - 1 \<and> cp_tag_shift cp = kb + ks
     \<and> cp_tagset_mask cp = NOT (cp_blk_mask cp)"

definition cache_wf :: "cache \<Rightarrow> bool" where
  "cache_wf cp \<longleftrightarrow>
     (\<exists>kb ks ka. geometry cp kb ks ka \<and> length (cp_sets cp) = 2 ^ ks
        \<and> (\<forall>s \<in> set (cp_sets cp). set_wf (cp_hsize cp) (2 ^ ka) s))"

lemma hsize_ok_geometry: "geometry cp kb ks ka \<Longrightarrow> cp_hsize cp \<noteq> 0 \<Longrightarrow> hsize_ok (cp_hsize cp)"
proof -
  assume g: "geometry cp kb ks ka" and h: "cp_hsize cp \<noteq> 0"
  then have "(2::int) ^ 2 < 2 ^ ka" by (auto simp: geometry_def split: if_splits)
  then have "2 < ka" using power_less_imp_less_exp [of "2::int" 2 ka] by simp
  then have "(2::int) ^ ka = 4 * 2 ^ (ka - 2)"
    by (subst le_add_diff_inverse [of 2 ka, symmetric], simp, subst power_add, simp)
  with g h \<open>2 < ka\<close> show ?thesis
    by (auto simp: geometry_def hsize_ok_def intro!: exI [of _ "ka - 2"] split: if_splits)
qed

lemma CACHE_SET_less:
  assumes "geometry cp kb ks ka"
  shows "unat (CACHE_SET cp addr) < 2 ^ ks"
  using assms unat_and_mask_less [of ks "drop_bit kb addr"]
  by (simp add: geometry_def CACHE_SET_def)

lemma set_wfD:
  assumes "set_wf hsize n s"
  obtains xs where "length (set_blks s) = n" "way_order s xs" "set xs = {..<n}"
    "distinct xs" "length xs = n"
proof -
  from assms obtain xs where xs: "length (set_blks s) = n" "way_order s xs" "set xs = {..<n}"
    by (auto simp: set_wf_def)
  then have "distinct xs" by (auto dest: way_orderD)
  then have "length xs = n" using xs(3) by (metis card_lessThan distinct_card)
  with xs \<open>distinct xs\<close> that show thesis by blast
qed

subsection \<open>The two lookups agree\<close>

definition match_in :: "64 word \<Rightarrow> cache_set \<Rightarrow> nat option" where
  "match_in tag s = find (blk_match tag s) [0..<length (set_blks s)]"

lemma way_walk_match:
  assumes wf: "set_wf hsize n s"
  shows "walk (Suc n) (blk_match tag s) (nxt s) (way_head s) = Inr (match_in tag s)"
proof -
  obtain xs where xs: "length (set_blks s) = n" "way_order s xs" "set xs = {..<n}" "length xs = n"
    using wf by (rule set_wfD)
  have "walk (Suc n) (blk_match tag s) (nxt s) (way_head s) = Inr (find (blk_match tag s) xs)"
    using xs by (intro walk_chain way_orderD(1)) auto
  also have "find (blk_match tag s) xs = match_in tag s"
    unfolding match_in_def using wf xs by (intro find_unique) (auto simp: set_wf_def blk_match_def)
  finally show ?thesis .
qed

lemma hash_walk_match:
  assumes wf: "set_wf hsize n s" and h: "hsize_ok hsize"
  shows "walk (Suc n) (blk_match tag s) (hnx s) (set_hash s ! CACHE_HASH hsize tag)
    = Inr (match_in tag s)"
proof -
  have n: "length (set_blks s) = n" using wf by (simp add: set_wf_def)
  have "hsize \<noteq> 0" using h by (auto simp: hsize_ok_def)
  with wf have "bucket_chains hsize s {..<n}" by (simp add: set_wf_def)
  from bucket_chainsE [OF this CACHE_HASH_less [OF h, of tag]] obtain hs where hs: "chain (hnx s) (set_hash s ! CACHE_HASH hsize tag) hs" "distinct hs"
      "set hs = {i \<in> {..<n}. CACHE_HASH hsize (blk_tag (set_blks s ! i)) = CACHE_HASH hsize tag}"
    by blast
  have "length hs = card (set hs)" using hs(2) by (simp add: distinct_card)
  also have "\<dots> \<le> card {..<n}" using hs(3) by (intro card_mono) auto
  finally have "walk (Suc n) (blk_match tag s) (hnx s) (set_hash s ! CACHE_HASH hsize tag)
      = Inr (find (blk_match tag s) hs)"
    using hs(1) by (intro walk_chain) auto
  also have "find (blk_match tag s) hs = match_in tag s"
    unfolding match_in_def using wf hs(3) n by (intro find_unique) (auto simp: set_wf_def blk_match_def)
  finally show ?thesis .
qed

lemma set_wf_nth:
  assumes "geometry cp kb ks ka" "length (cp_sets cp) = 2 ^ ks"
    "\<forall>s \<in> set (cp_sets cp). set_wf (cp_hsize cp) (2 ^ ka) s"
  shows "set_wf (cp_hsize cp) (2 ^ ka) (cp_sets cp ! unat (CACHE_SET cp addr))"
  using assms CACHE_SET_less [OF assms(1), of addr] by auto

lemma cache_find_match:
  assumes "geometry cp kb ks ka" "set_wf (cp_hsize cp) (2 ^ ka) (cp_sets cp ! si)"
  shows "cache_find cp tag si = Inr (match_in tag (cp_sets cp ! si))"
  using assms way_walk_match [OF assms(2)] hash_walk_match [OF assms(2)]
    hsize_ok_geometry [OF assms(1)]
  by (auto simp: cache_find_def Let_def set_wf_def)

lemma match_in_Some:
  "match_in tag s = Some b \<Longrightarrow> b < length (set_blks s) \<and> blk_match tag s b"
  by (auto simp: match_in_def dest: find_Some_iff_nth_in)

lemma match_in_None:
  "match_in tag s = None \<longleftrightarrow> (\<forall>i < length (set_blks s). \<not> blk_match tag s i)"
  by (auto simp: match_in_def find_None_iff_all)

subsection \<open>Congruence of the parts of well-formedness\<close>

lemma bucket_chains_transfer:
  assumes bc: "bucket_chains hsize t B" and hash: "set_hash s = set_hash t"
    and same: "\<And>i. i \<in> B \<Longrightarrow> hash_next (set_blks s ! i) = hash_next (set_blks t ! i)
        \<and> blk_tag (set_blks s ! i) = blk_tag (set_blks t ! i)"
  shows "bucket_chains hsize s B"
  unfolding bucket_chains_def
proof (intro conjI allI impI)
  show "length (set_hash s) = nat hsize" using bc hash by (simp add: bucket_chains_def)
next
  fix k assume "k < nat hsize"
  from bucket_chainsE [OF bc this] obtain hs where hs: "chain (hnx t) (set_hash t ! k) hs"
      "distinct hs" "set hs = {i \<in> B. CACHE_HASH hsize (blk_tag (set_blks t ! i)) = k}"
    by blast
  have "chain (hnx s) (set_hash s ! k) hs = chain (hnx t) (set_hash s ! k) hs"
    using hs(3) same by (intro chain_cong) auto
  moreover have "set hs = {i \<in> B. CACHE_HASH hsize (blk_tag (set_blks s ! i)) = k}"
    using hs(3) same by auto
  ultimately show "\<exists>hs. chain (hnx s) (set_hash s ! k) hs \<and> distinct hs
      \<and> set hs = {i \<in> B. CACHE_HASH hsize (blk_tag (set_blks s ! i)) = k}"
    using hs hash by auto
qed

lemma set_wf_update:
  assumes wf: "set_wf hsize n s"
    and len: "length (set_blks t) = n" and hash: "set_hash t = set_hash s"
    and ways: "\<exists>xs. way_order t xs \<and> set xs = {..<n}"
    and same: "\<And>i. i < n \<Longrightarrow> hash_next (set_blks t ! i) = hash_next (set_blks s ! i)
      \<and> blk_tag (set_blks t ! i) = blk_tag (set_blks s ! i)
      \<and> (blk_valid (set_blks t ! i) \<longrightarrow> blk_valid (set_blks s ! i))"
  shows "set_wf hsize n t"
proof -
  have "hsize \<noteq> 0 \<longrightarrow> bucket_chains hsize t {..<n}"
    using wf same hash by (auto simp: set_wf_def intro: bucket_chains_transfer [of _ s])
  moreover have "\<forall>i < n. \<forall>j < n. blk_valid (set_blks t ! i) \<and> blk_valid (set_blks t ! j)
          \<and> blk_tag (set_blks t ! i) = blk_tag (set_blks t ! j) \<longrightarrow> i = j"
    using wf same by (metis set_wf_def)
  ultimately show ?thesis using wf len ways by (simp add: set_wf_def)
qed

text \<open>An update of one block's contents keeps the chains.\<close>

lemma way_order_content:
  assumes "i < length (set_blks s)"
    and "\<And>k. way_next (f k) = way_next k" "\<And>k. way_prev (f k) = way_prev k"
  shows "way_order (upd_blk i f s) xs = way_order s xs"
  using assms by (intro way_order_cong) (auto simp: upd_blk_nth)

text \<open>The status bits.\<close>

lemma status_bits:
  "(st OR CACHE_BLK_DIRTY) AND CACHE_BLK_VALID = st AND CACHE_BLK_VALID"
  "(st AND NOT CACHE_BLK_VALID) AND CACHE_BLK_VALID = 0"
  "(st AND NOT CACHE_BLK_VALID) AND CACHE_BLK_DIRTY = st AND CACHE_BLK_DIRTY"
  unfolding CACHE_BLK_DIRTY_def CACHE_BLK_VALID_def
  by (rule bit_word_eqI, auto simp: bit_simps)+

lemma status_dirty: "(st OR CACHE_BLK_DIRTY) AND CACHE_BLK_DIRTY \<noteq> 0"
  by (auto simp: bit_simps bit_eq_iff exI [of _ "1::nat"] CACHE_BLK_DIRTY_def)

lemma status_const [simp]:
  "CACHE_BLK_VALID \<noteq> 0" "CACHE_BLK_DIRTY \<noteq> 0"
  "CACHE_BLK_VALID AND CACHE_BLK_DIRTY = 0" "CACHE_BLK_DIRTY AND CACHE_BLK_VALID = 0"
  by (simp_all add: CACHE_BLK_DIRTY_def CACHE_BLK_VALID_def)

subsection \<open>A hit\<close>

text \<open>What \<open>cache_hit\<close> does to the set: contents of one block, then the order of the ways.\<close>

lemma cache_hit_set:
  assumes geo: "geometry cp kb ks ka" and si: "si = unat (CACHE_SET cp addr)"
    and wf: "set_wf (cp_hsize cp) (2 ^ ka) (cp_sets cp ! si)"
    and b: "b < 2 ^ ka" and ord: "way_order (cp_sets cp ! si) xs"
  shows "\<exists>out s2. cache_hit cp cmd addr p nbytes now b w = Inr out
    \<and> ao_cache out = (upd_set si (\<lambda>_. s2) (cp\<lparr>cp_hits := cp_hits cp + 1\<rparr>))
         \<lparr>cp_last_tagset := CACHE_TAGSET cp addr, cp_last_blk := Some (si, b)\<rparr>
    \<and> ao_world out = w
    \<and> set_wf (cp_hsize cp) (2 ^ ka) s2
    \<and> way_order s2 (if cp_policy cp = LRU then move_to Head b xs else xs)
    \<and> (\<forall>i < 2 ^ ka. blk_tag (set_blks s2 ! i) = blk_tag (set_blks (cp_sets cp ! si) ! i)
         \<and> blk_valid (set_blks s2 ! i) = blk_valid (set_blks (cp_sets cp ! si) ! i)
         \<and> blk_ready (set_blks s2 ! i) = blk_ready (set_blks (cp_sets cp ! si) ! i)
         \<and> blk_dirty (set_blks s2 ! i)
              = (blk_dirty (set_blks (cp_sets cp ! si) ! i) \<or> i = b \<and> cmd = Write))"
proof -
  define s where "s = cp_sets cp ! si"
  define dp where "dp = blk_copy cp cmd (blk_data (set_blks s ! b)) (unat (CACHE_BLK cp addr)) p nbytes"
  define d where "d = fst dp"
  define s1 where "s1 = upd_blk b (\<lambda>k. k\<lparr>blk_data := d, blk_status := (if cmd = Write
      then blk_status k OR CACHE_BLK_DIRTY else blk_status k)\<rparr>) s"
  obtain ys where n: "length (set_blks s) = 2 ^ ka" and "way_order s ys" "set ys = {..<2 ^ ka}"
    using wf s_def by (auto elim: set_wfD)
  with ord have sx: "set xs = {..<2 ^ ka}" and dx: "distinct xs"
    using s_def by (auto dest: way_order_unique way_orderD)
  have o1: "way_order s1 xs"
    unfolding s1_def using b n ord s_def by (subst way_order_content) auto
  have prv_eq: "prv s1 b = prv s b" using b n by (auto simp: s1_def upd_blk_nth)
  have at_head: "move_to Head b xs = xs" if "prv s1 b = None"
  proof -
    have "b \<in> set xs" using b sx by simp
    then obtain us vs where xs: "xs = us @ b # vs" by (meson split_list)
    then have "us = []" using way_order_split(1) [of s1 us b vs] o1 that by (auto split: if_splits)
    then show ?thesis using xs by (simp add: move_to_def)
  qed
  have "\<exists>s2. (if prv s1 b \<noteq> None \<and> cp_policy cp = LRU then update_way_list s1 b Head else Inr s1)
        = Inr s2 \<and> same_content s2 s1
        \<and> way_order s2 (if cp_policy cp = LRU then move_to Head b xs else xs)"
    using update_way_list_order [OF o1, of b Head] b sx o1 at_head by auto
  then obtain s2 where s2: "(if prv s1 b \<noteq> None \<and> cp_policy cp = LRU
        then update_way_list s1 b Head else Inr s1) = Inr s2" "same_content s2 s1"
      "way_order s2 (if cp_policy cp = LRU then move_to Head b xs else xs)" by blast
  have n1: "length (set_blks s1) = 2 ^ ka" using n by (simp add: s1_def)
  then have l2: "length (set_blks s2) = 2 ^ ka" using same_content_length [OF s2(2)] by simp
  have s1_nth: "set_blks s1 ! i = (if i = b then (set_blks s ! b)\<lparr>blk_data := d,
      blk_status := (if cmd = Write then blk_status (set_blks s ! b) OR CACHE_BLK_DIRTY
                     else blk_status (set_blks s ! b))\<rparr> else set_blks s ! i)" for i
    using b n by (simp add: s1_def upd_blk_nth)
  have fld: "blk_tag (set_blks s2 ! i) = blk_tag (set_blks s ! i)
      \<and> blk_valid (set_blks s2 ! i) = blk_valid (set_blks s ! i)
      \<and> blk_ready (set_blks s2 ! i) = blk_ready (set_blks s ! i)
      \<and> hash_next (set_blks s2 ! i) = hash_next (set_blks s ! i)
      \<and> blk_dirty (set_blks s2 ! i) = (blk_dirty (set_blks s ! i) \<or> i = b \<and> cmd = Write)"
    if "i < 2 ^ ka" for i
    using same_content_nth [OF s2(2), of i] that n1
    by (auto simp: s1_nth blk_valid_def blk_dirty_def status_bits status_dirty)
  have "set_wf (cp_hsize cp) (2 ^ ka) s2"
  proof (rule set_wf_update [OF wf [folded s_def] l2])
    show "set_hash s2 = set_hash s" using s2(2) by (simp add: same_content_def s1_def)
    show "\<exists>zs. way_order s2 zs \<and> set zs = {..<2 ^ ka}"
      using s2(3) sx dx b by (intro exI [of _ "if cp_policy cp = LRU then move_to Head b xs else xs"]) auto
  qed (use fld in auto)
  moreover have "cache_hit cp cmd addr p nbytes now b w
      = Inr \<lparr>ao_lat = ucast (smax (ucast (cp_hit_latency cp)) (blk_ready (set_blks s ! b) - now)),
             ao_p = snd dp, ao_udata = blk_user_data (set_blks s ! b), ao_repl_addr = 0,
             ao_cache = (upd_set si (\<lambda>_. s2) (cp\<lparr>cp_hits := cp_hits cp + 1\<rparr>))
               \<lparr>cp_last_tagset := CACHE_TAGSET cp addr, cp_last_blk := Some (si, b)\<rparr>,
             ao_world = w\<rparr>"
    unfolding cache_hit_def Let_def si [symmetric]
    using s2(1)
    by (auto simp: s_def [symmetric] dp_def [symmetric] d_def [symmetric] s1_def [symmetric]
        split: if_splits)
  ultimately show ?thesis using s2(3) fld by (auto simp: s_def)
qed

subsection \<open>A miss\<close>

lemma evict_result:
  assumes "evict fn cp st blk now w = (lat, addr, d, cp', w')"
  shows "addr = (if blk_valid blk then CACHE_MK_BADDR cp (blk_tag blk) st else 0)"
    and "cp' = cp\<lparr>cp_bus_free := cp_bus_free cp',
      cp_replacements := cp_replacements cp + (if blk_valid blk then 1 else 0),
      cp_writebacks := cp_writebacks cp + (if blk_valid blk \<and> blk_dirty blk then 1 else 0)\<rparr>"
  using assms by (auto simp: evict_def Let_def split: if_splits prod.splits)

text \<open>The victim and the new order of the ways.\<close>

definition victim :: "cache \<Rightarrow> int \<Rightarrow> nat list \<Rightarrow> nat" where
  "victim cp rnd xs = (if cp_policy cp = Random then nat (rnd AND (cp_assoc cp - 1)) else last xs)"

definition ways_after_miss :: "cache \<Rightarrow> nat list \<Rightarrow> nat list" where
  "ways_after_miss cp xs = (if cp_policy cp = Random then xs else last xs # butlast xs)"

lemma random_victim_less:
  assumes "geometry cp kb ks ka"
  shows "nat (rnd AND (cp_assoc cp - 1)) < 2 ^ ka"
proof -
  have "rnd AND (cp_assoc cp - 1) = take_bit ka rnd"
    using assms by (simp add: geometry_def take_bit_eq_mask mask_eq_exp_minus_1)
  then show ?thesis by (simp add: nat_less_iff)
qed

lemma choose_repl_result:
  assumes geo: "geometry cp kb ks ka" and wf: "set_wf h (2 ^ ka) s" and ord: "way_order s xs"
  shows "\<exists>s1. choose_repl cp rnd s = Inr (victim cp rnd xs, s1) \<and> same_content s1 s
      \<and> way_order s1 (ways_after_miss cp xs)"
    and "victim cp rnd xs < 2 ^ ka" and "set (ways_after_miss cp xs) = {..<2 ^ ka}"
proof -
  obtain ys where "way_order s ys" "set ys = {..<2 ^ ka}" "length ys = 2 ^ ka"
    using wf by (auto elim: set_wfD)
  with ord have sx: "set xs = {..<2 ^ ka}" "xs \<noteq> []" "distinct xs"
    by (auto dest: way_order_unique way_orderD)
  then have split: "xs = butlast xs @ [last xs]" by simp
  then have mv: "move_to Head (last xs) xs = last xs # butlast xs"
    using sx by (cases xs rule: rev_cases) (auto simp: move_to_def remove1_append)
  have lst: "last xs \<in> set xs" using sx(2) by (rule last_in_set)
  then have "last xs \<in> {..<2 ^ ka}" unfolding sx(1) .
  then have lst_less: "last xs < 2 ^ ka" by simp
  show "victim cp rnd xs < 2 ^ ka"
    using random_victim_less [OF geo] lst_less by (auto simp: victim_def)
  show "set (ways_after_miss cp xs) = {..<2 ^ ka}"
    using sx split by (metis mv set_move_to lst ways_after_miss_def)
  have tail: "way_tail s = Some (last xs)"
    using way_order_split(6) [of s "butlast xs" "last xs" "[]"] ord split by simp
  from update_way_list_order [OF ord lst, of Head]
  show "\<exists>s1. choose_repl cp rnd s = Inr (victim cp rnd xs, s1) \<and> same_content s1 s
      \<and> way_order s1 (ways_after_miss cp xs)"
    using ord tail mv
    by (cases "cp_policy cp") (auto simp: choose_repl_def victim_def ways_after_miss_def)
qed

lemma set_wf_length: "set_wf h n s \<Longrightarrow> length (set_blks s) = n"
  by (simp add: set_wf_def)

text \<open>
  Replacing the contents of block \<open>r\<close> between the two hash operations: from \<open>s1\<close> (ways
  relinked) to \<open>s5\<close> (hash relinked), with the new tag not present among the other blocks.
\<close>

lemma replace_set_wf:
  assumes h: "h \<noteq> 0 \<Longrightarrow> hsize_ok h" and wf: "set_wf h n s" and r: "r < n"
    and s1: "same_content s1 s" "way_order s1 ys" "set ys = {..<n}"
    and new: "\<forall>i < n. \<not> blk_match tag s i"
    and f: "\<And>k. way_next (f k) = way_next k \<and> way_prev (f k) = way_prev k \<and> blk_tag (f k) = tag"
  shows "\<exists>s2. (if h \<noteq> 0 then unlink_htab_ent h s1 r else Inr s1) = Inr s2
    \<and> same_but_hash s2 s1
    \<and> (let s4 = upd_blk r f s2; s5 = (if h \<noteq> 0 then link_htab_ent h s4 r else s4)
       in set_wf h n s5 \<and> way_order s5 ys \<and> same_but_hash s5 s4)"
proof -
  have n: "length (set_blks s1) = n" using wf same_content_length [OF s1(1)] by (simp add: set_wf_def)
  have n': "length (set_blks s) = n" using wf by (simp add: set_wf_def)
  have bc: "bucket_chains h s1 {..<n}" if "h \<noteq> 0"
  proof (rule bucket_chains_transfer)
    show "bucket_chains h s {..<n}" using wf that by (simp add: set_wf_def)
    show "set_hash s1 = set_hash s" using s1(1) by (rule same_content_hash)
  qed (use same_content_nth [OF s1(1)] n' in auto)
  have "\<exists>s2. (if h \<noteq> 0 then unlink_htab_ent h s1 r else Inr s1) = Inr s2 \<and> same_but_hash s2 s1
      \<and> (h \<noteq> 0 \<longrightarrow> bucket_chains h s2 ({..<n} - {r}))"
  proof (cases "h = 0")
    case True
    then show ?thesis by (intro exI [of _ s1]) simp
  next
    case False
    have "r \<in> {..<n}" and "{..<n} \<subseteq> {..<length (set_blks s1)}" using r n by auto
    from unlink_htab_ent_chains [OF h [OF False] bc [OF False] this] False
    show ?thesis by auto
  qed
  then obtain s2 where s2: "(if h \<noteq> 0 then unlink_htab_ent h s1 r else Inr s1) = Inr s2"
      "same_but_hash s2 s1" "h \<noteq> 0 \<Longrightarrow> bucket_chains h s2 ({..<n} - {r})" by blast
  define s4 where "s4 = upd_blk r f s2"
  define s5 where "s5 = (if h \<noteq> 0 then link_htab_ent h s4 r else s4)"
  have n2: "length (set_blks s2) = n" using s2(2) n same_but_hash_length by simp
  have n4: "length (set_blks s4) = n" using n2 by (simp add: s4_def)
  have s4n: "set_blks s4 ! i = (if i = r then f (set_blks s2 ! r) else set_blks s2 ! i)" for i
    using n2 r by (simp add: s4_def upd_blk_nth)
  have bc4: "bucket_chains h s4 ({..<n} - {r})" if "h \<noteq> 0"
    using s2(3) [OF that] by (rule bucket_chains_transfer) (auto simp: s4n, simp add: s4_def)
  have lk: "bucket_chains h (link_htab_ent h s4 r) (insert r ({..<n} - {r}))
      \<and> same_but_hash (link_htab_ent h s4 r) s4" if "h \<noteq> 0"
    using that h bc4 r n4 by (intro link_htab_ent_chains) auto
  have sb5: "same_but_hash s5 s4" using lk by (simp add: s5_def)
  have bc5: "h \<noteq> 0 \<Longrightarrow> bucket_chains h s5 {..<n}"
    using lk r by (simp add: s5_def insert_absorb)
  have o5: "way_order s5 ys"
  proof -
    have "way_order s4 ys = way_order s2 ys"
      unfolding s4_def using r n2 f by (intro way_order_content) auto
    then show ?thesis
      using same_but_hash_way_order [OF sb5] same_but_hash_way_order [OF s2(2)] s1(2) by simp
  qed
  have old: "blk_tag (set_blks s5 ! i) = blk_tag (set_blks s ! i)
      \<and> blk_valid (set_blks s5 ! i) = blk_valid (set_blks s ! i)" if "i < n" "i \<noteq> r" for i
    using that same_but_hash_nth [OF sb5, of i] same_but_hash_nth [OF s2(2), of i]
      same_content_nth [OF s1(1), of i] n n' n4 by (simp add: s4n blk_valid_def)
  have newr: "blk_tag (set_blks s5 ! r) = tag"
    using same_but_hash_nth [OF sb5, of r] r n4 f by (simp add: s4n)
  have "\<forall>i < n. \<forall>j < n. blk_valid (set_blks s5 ! i) \<and> blk_valid (set_blks s5 ! j)
      \<and> blk_tag (set_blks s5 ! i) = blk_tag (set_blks s5 ! j) \<longrightarrow> i = j"
  proof (intro allI impI)
    fix i j assume ij: "i < n" "j < n" and v: "blk_valid (set_blks s5 ! i) \<and> blk_valid (set_blks s5 ! j)
      \<and> blk_tag (set_blks s5 ! i) = blk_tag (set_blks s5 ! j)"
    have no: "\<not> (blk_valid (set_blks s ! k) \<and> blk_tag (set_blks s ! k) = tag)" if "k < n" for k
      using new that by (auto simp: blk_match_def)
    have un: "k = l" if "k < n" "l < n" "blk_valid (set_blks s ! k)" "blk_valid (set_blks s ! l)"
      "blk_tag (set_blks s ! k) = blk_tag (set_blks s ! l)" for k l
      using wf that by (simp add: set_wf_def)
    consider "i = r" "j = r" | "i = r" "j \<noteq> r" | "i \<noteq> r" "j = r" | "i \<noteq> r" "j \<noteq> r" by blast
    then show "i = j"
    proof cases
      case 1 then show ?thesis by simp
    next
      case 2 then show ?thesis using v old [OF ij(2)] no [OF ij(2)] newr by simp
    next
      case 3 then show ?thesis using v old [OF ij(1)] no [OF ij(1)] newr by simp
    next
      case 4 then show ?thesis using v old [OF ij(1)] old [OF ij(2)] un [OF ij] by simp
    qed
  qed
  then have "set_wf h n s5"
    using bc5 o5 s1(3) same_but_hash_length [OF sb5] n4 by (auto simp: set_wf_def)
  with s2 sb5 o5 show ?thesis by (auto simp: Let_def s4_def s5_def)
qed

lemma cache_miss_set:
  assumes geo: "geometry cp kb ks ka" and si: "si = unat (CACHE_SET cp addr)"
    and wf: "set_wf (cp_hsize cp) (2 ^ ka) (cp_sets cp ! si)"
    and ord: "way_order (cp_sets cp ! si) xs"
    and none: "match_in (CACHE_TAG cp addr) (cp_sets cp ! si) = None"
    and r: "r = victim cp rnd xs" and v: "v = set_blks (cp_sets cp ! si) ! r"
  shows "\<exists>out s5 bus. cache_miss fn cp cmd addr p nbytes now rnd w = Inr out
    \<and> ao_cache out = upd_set si (\<lambda>_. s5) (cp\<lparr>cp_misses := cp_misses cp + 1,
         cp_last_tagset := 0, cp_last_blk := None, cp_bus_free := bus,
         cp_replacements := cp_replacements cp + (if blk_valid v then 1 else 0),
         cp_writebacks := cp_writebacks cp + (if blk_valid v \<and> blk_dirty v then 1 else 0)\<rparr>)
    \<and> ao_repl_addr out
         = (if blk_valid v then CACHE_MK_BADDR cp (blk_tag v) (CACHE_SET cp addr) else 0)
    \<and> set_wf (cp_hsize cp) (2 ^ ka) s5
    \<and> way_order s5 (ways_after_miss cp xs)
    \<and> blk_ready (set_blks s5 ! r) = now + scast (ao_lat out)
    \<and> (\<forall>i < 2 ^ ka. blk_tag (set_blks s5 ! i)
            = (if i = r then CACHE_TAG cp addr else blk_tag (set_blks (cp_sets cp ! si) ! i))
         \<and> blk_valid (set_blks s5 ! i) = (i = r \<or> blk_valid (set_blks (cp_sets cp ! si) ! i))
         \<and> blk_dirty (set_blks s5 ! i)
              = (if i = r then cmd = Write else blk_dirty (set_blks (cp_sets cp ! si) ! i)))"
proof -
  define s where "s = cp_sets cp ! si"
  define cp1 where "cp1 = cp\<lparr>cp_misses := cp_misses cp + 1\<rparr>"
  define tag where "tag = CACHE_TAG cp addr"
  note wf' = wf [folded s_def] and ord' = ord [folded s_def]
  have geo1: "geometry cp1 kb ks ka" using geo by (simp add: geometry_def cp1_def)
  have vic: "victim cp1 rnd xs = r" "ways_after_miss cp1 xs = ways_after_miss cp xs"
    by (simp_all add: r cp1_def victim_def ways_after_miss_def)
  note ch = choose_repl_result(1,2) [OF geo1 wf' ord', of rnd, unfolded vic]
    choose_repl_result(3) [OF geo1 wf' ord', unfolded vic]
  from ch(1) obtain s1 where s1: "choose_repl cp1 rnd s = Inr (r, s1)" "same_content s1 s"
      "way_order s1 (ways_after_miss cp xs)" by blast
  have n: "length (set_blks s) = 2 ^ ka" using wf' by (rule set_wf_length)
  have n1: "length (set_blks s1) = 2 ^ ka" using same_content_length [OF s1(2)] n by simp
  have new: "\<forall>i < 2 ^ ka. \<not> blk_match tag s i"
    using none n by (simp add: match_in_None s_def tag_def)
  let ?h = "cp_hsize cp"
  have hok: "?h \<noteq> 0 \<Longrightarrow> hsize_ok ?h" using hsize_ok_geometry [OF geo] .
  obtain s2 where s2: "(if ?h \<noteq> 0 then unlink_htab_ent ?h s1 r else Inr s1) = Inr s2"
      "same_but_hash s2 s1"
    using replace_set_wf [OF hok wf' ch(2) s1(2,3) ch(3) new,
        of "blk_tag_update (\<lambda>_. tag)"] by auto
  define cp2 where "cp2 = cp1\<lparr>cp_last_tagset := 0, cp_last_blk := None\<rparr>"
  obtain lat1 raddr d1 cp3 w1 where ev: "evict fn cp2 (CACHE_SET cp addr) (set_blks s2 ! r) now w
      = (lat1, raddr, d1, cp3, w1)" by (metis prod_cases5)
  define f3 where "f3 = (\<lambda>b :: cache_blk. b\<lparr>blk_data := d1, blk_tag := tag, blk_status := CACHE_BLK_VALID\<rparr>)"
  define s3 where "s3 = upd_blk r f3 s2"
  obtain l d2 w2 where rd: "fn Read (CACHE_BADDR cp addr) (cp_bsize cp) (set_blks s3 ! r)
      (now + scast lat1) w1 = (l, d2, w2)" by (metis prod_cases3)
  define lat where "lat = lat1 + l"
  define dp where "dp = blk_copy cp cmd d2 (unat (CACHE_BLK cp addr)) p nbytes"
  define f4 where "f4 = (\<lambda>b :: cache_blk. b\<lparr>blk_data := fst dp,
      blk_status := (if cmd = Write then blk_status b OR CACHE_BLK_DIRTY else blk_status b),
      blk_ready := now + scast lat\<rparr>)"
  define s4 where "s4 = upd_blk r f4 s3"
  define s5 where "s5 = (if ?h \<noteq> 0 then link_htab_ent ?h s4 r else s4)"
  have n2: "length (set_blks s2) = 2 ^ ka" using same_but_hash_length [OF s2(2)] n1 by simp
  have s4': "s4 = upd_blk r (f4 \<circ> f3) s2"
    using ch(2) n2 by (simp add: s4_def s3_def upd_blk_def)
  have f: "way_next ((f4 \<circ> f3) k) = way_next k \<and> way_prev ((f4 \<circ> f3) k) = way_prev k
      \<and> blk_tag ((f4 \<circ> f3) k) = tag" for k
    by (simp add: f3_def f4_def)
  have wf5: "set_wf ?h (2 ^ ka) s5 \<and> way_order s5 (ways_after_miss cp xs) \<and> same_but_hash s5 s4"
    using replace_set_wf [OF hok wf' ch(2) s1(2,3) ch(3) new, of "f4 \<circ> f3"] f s2(1)
    by (auto simp: Let_def s5_def s4')
  have s4n: "set_blks s4 ! i = (if i = r then f4 (f3 (set_blks s2 ! r)) else set_blks s2 ! i)" for i
    using ch(2) n2 by (simp add: s4' upd_blk_nth)
  have n4: "length (set_blks s4) = 2 ^ ka" using n2 by (simp add: s4')
  have old: "blk_tag (set_blks s2 ! i) = blk_tag (set_blks s ! i)"
      "blk_status (set_blks s2 ! i) = blk_status (set_blks s ! i)" if "i < 2 ^ ka" for i
    using that same_but_hash_nth [OF s2(2), of i] same_content_nth [OF s1(2), of i] n n1 by auto
  have fld: "blk_tag (set_blks s5 ! i) = (if i = r then tag else blk_tag (set_blks s ! i))
      \<and> blk_valid (set_blks s5 ! i) = (i = r \<or> blk_valid (set_blks s ! i))
      \<and> blk_dirty (set_blks s5 ! i) = (if i = r then cmd = Write else blk_dirty (set_blks s ! i))"
    if "i < 2 ^ ka" for i
    using that same_but_hash_nth [of s5 s4 i] wf5 n4 old [of i]
    by (auto simp: s4n f3_def f4_def blk_valid_def blk_dirty_def status_bits status_dirty)
  have rdy: "blk_ready (set_blks s5 ! r) = now + scast lat"
    using same_but_hash_nth [of s5 s4 r] wf5 n4 ch(2) by (simp add: s4n f4_def)
  have vv: "blk_valid (set_blks s2 ! r) = blk_valid v" "blk_dirty (set_blks s2 ! r) = blk_dirty v"
      "blk_tag (set_blks s2 ! r) = blk_tag v"
    using old [OF ch(2)] by (simp_all add: v s_def blk_valid_def blk_dirty_def)
  note er = evict_result [OF ev, unfolded vv]
  have par: "CACHE_TAG cp1 addr = tag" "CACHE_SET cp1 addr = CACHE_SET cp addr"
      "CACHE_BLK cp1 addr = CACHE_BLK cp addr" "CACHE_BADDR cp1 addr = CACHE_BADDR cp addr"
      "cp_hsize cp1 = ?h" "cp_bsize cp1 = cp_bsize cp" "cp_sets cp1 ! si = s"
      "blk_copy cp1 = blk_copy cp"
    by (simp_all add: cp1_def tag_def CACHE_TAG_def CACHE_SET_def CACHE_BLK_def CACHE_BADDR_def
        s_def blk_copy_def fun_eq_iff)
  have fill: "cache_fill fn cp1 cmd addr p nbytes now w r s2 = \<lparr>ao_lat = lat, ao_p = snd dp,
      ao_udata = blk_user_data (set_blks s5 ! r), ao_repl_addr = raddr,
      ao_cache = upd_set si (\<lambda>_. s5) cp3, ao_world = w2\<rparr>"
    unfolding cache_fill_def Let_def par si [symmetric]
    by (simp add: cp2_def [symmetric] ev f3_def [symmetric] s3_def [symmetric] rd
        lat_def [symmetric] dp_def [symmetric] f4_def [symmetric] s4_def [symmetric]
        s5_def)
  have miss: "cache_miss fn cp cmd addr p nbytes now rnd w
      = Inr (cache_fill fn cp1 cmd addr p nbytes now w r s2)"
    unfolding cache_miss_def Let_def cp1_def [symmetric] par si [symmetric] s1(1)
    by (simp only: cbind_simps prod.case s2(1))
  have cp3: "cp3 = cp\<lparr>cp_misses := cp_misses cp + 1,
      cp_last_tagset := 0, cp_last_blk := None, cp_bus_free := cp_bus_free cp3,
      cp_replacements := cp_replacements cp + (if blk_valid v then 1 else 0),
      cp_writebacks := cp_writebacks cp + (if blk_valid v \<and> blk_dirty v then 1 else 0)\<rparr>"
    by (subst er(2)) (simp add: cp2_def cp1_def)
  have "raddr = (if blk_valid v then CACHE_MK_BADDR cp (blk_tag v) (CACHE_SET cp addr) else 0)"
    unfolding er(1) by (simp add: cp2_def cp1_def CACHE_MK_BADDR_def)
  moreover have "upd_set si (\<lambda>_. s5) cp3 = upd_set si (\<lambda>_. s5) (cp\<lparr>cp_misses := cp_misses cp + 1,
      cp_last_tagset := 0, cp_last_blk := None, cp_bus_free := cp_bus_free cp3,
      cp_replacements := cp_replacements cp + (if blk_valid v then 1 else 0),
      cp_writebacks := cp_writebacks cp + (if blk_valid v \<and> blk_dirty v then 1 else 0)\<rparr>)"
    by (rule arg_cong [OF cp3])
  ultimately show ?thesis
    unfolding miss fill s_def [symmetric] tag_def [symmetric]
    using wf5 fld rdy
    by (intro exI [of _ "\<lparr>ao_lat = lat, ao_p = snd dp,
          ao_udata = blk_user_data (set_blks s5 ! r), ao_repl_addr = raddr,
          ao_cache = upd_set si (\<lambda>_. s5) cp3, ao_world = w2\<rparr>"]
        exI [of _ s5] exI [of _ "cp_bus_free cp3"]) auto
qed

end
