(* ===== verification/CacheRefine.thy ===== *)
theory CacheRefine
  imports CacheCorrect
begin

text \<open>
  The whole operations of the cache: \<open>cache_access\<close> never fails on a well-formed cache and
  keeps it well-formed; the LRU and FIFO policies refine a list of lines; what a probe says
  after an access or a flush; what \<open>cache_create\<close> builds and rejects.
\<close>

subsection \<open>Access, by hit and miss\<close>

definition addr_set :: "cache \<Rightarrow> 64 word \<Rightarrow> cache_set" where
  "addr_set cp addr = cp_sets cp ! unat (CACHE_SET cp addr)"

lemma cache_wfE:
  assumes "cache_wf cp"
  obtains kb ks ka where "geometry cp kb ks ka" "length (cp_sets cp) = 2 ^ ks"
    "\<And>i. i < 2 ^ ks \<Longrightarrow> set_wf (cp_hsize cp) (2 ^ ka) (cp_sets cp ! i)"
    "\<And>addr. unat (CACHE_SET cp addr) < 2 ^ ks"
    "\<And>addr. set_wf (cp_hsize cp) (2 ^ ka) (addr_set cp addr)"
  using assms CACHE_SET_less by (fastforce simp: cache_wf_def addr_set_def)

lemma cache_find_wf:
  assumes "cache_wf cp"
  shows "cache_find cp tag (unat (CACHE_SET cp addr)) = Inr (match_in tag (addr_set cp addr))"
  using assms by (auto elim!: cache_wfE simp: addr_set_def intro: cache_find_match)

text \<open>Well-formedness after an access: one set replaced, geometry untouched.\<close>

lemma cache_wf_upd_set:
  assumes "cache_wf cp" "geometry cp kb ks ka"
    and "cp_sets cp' = (cp_sets cp)[i := s]" "set_wf (cp_hsize cp) (2 ^ ka) s"
    and "cp_bsize cp' = cp_bsize cp" "cp_nsets cp' = cp_nsets cp" "cp_assoc cp' = cp_assoc cp"
      "cp_hsize cp' = cp_hsize cp" "cp_blk_mask cp' = cp_blk_mask cp"
      "cp_set_shift cp' = cp_set_shift cp" "cp_set_mask cp' = cp_set_mask cp"
      "cp_tag_shift cp' = cp_tag_shift cp" "cp_tagset_mask cp' = cp_tagset_mask cp"
  shows "cache_wf cp'"
proof -
  obtain kb' ks' ka' where g: "geometry cp kb' ks' ka'" "length (cp_sets cp) = 2 ^ ks'"
      "\<forall>s \<in> set (cp_sets cp). set_wf (cp_hsize cp) (2 ^ ka') s"
    using assms(1) by (auto simp: cache_wf_def)
  have "int (2 ^ ka') = int (2 ^ ka)" using g(1) assms(2) by (simp add: geometry_def)
  then have "(2::nat) ^ ka' = 2 ^ ka" by (simp only: of_nat_eq_iff)
  then have "\<forall>s \<in> set (cp_sets cp'). set_wf (cp_hsize cp') (2 ^ ka') s"
    using g(3) assms(3,4,8) by (auto dest!: set_update_subset_insert [THEN subsetD])
  moreover have "geometry cp' kb' ks' ka'"
    using g(1) assms(5-13) by (simp add: geometry_def)
  ultimately show ?thesis using g(2) assms(3) by (auto simp: cache_wf_def)
qed

lemma geometry_unique:
  "geometry cp kb ks ka \<Longrightarrow> geometry cp kb' ks' ka' \<Longrightarrow> kb = kb' \<and> ks = ks' \<and> ka = ka'"
  by (auto simp: geometry_def)

definition same_params :: "cache \<Rightarrow> cache \<Rightarrow> bool" where
  "same_params cp' cp \<longleftrightarrow>
     cp_name cp' = cp_name cp \<and> cp_nsets cp' = cp_nsets cp \<and> cp_bsize cp' = cp_bsize cp
     \<and> cp_balloc cp' = cp_balloc cp \<and> cp_usize cp' = cp_usize cp \<and> cp_assoc cp' = cp_assoc cp
     \<and> cp_policy cp' = cp_policy cp \<and> cp_hit_latency cp' = cp_hit_latency cp
     \<and> cp_hsize cp' = cp_hsize cp \<and> cp_blk_mask cp' = cp_blk_mask cp
     \<and> cp_set_shift cp' = cp_set_shift cp \<and> cp_set_mask cp' = cp_set_mask cp
     \<and> cp_tag_shift cp' = cp_tag_shift cp \<and> cp_tagset_mask cp' = cp_tagset_mask cp"

lemma cache_wf_replace:
  assumes "cache_wf cp" "geometry cp kb ks ka" "same_params cp' cp"
    and "cp_sets cp' = (cp_sets cp)[i := s]" "set_wf (cp_hsize cp) (2 ^ ka) s"
  shows "cache_wf cp'"
  using assms(3) by (intro cache_wf_upd_set [OF assms(1,2,4,5)]) (auto simp: same_params_def)

lemma same_params_upd_set [simp]:
  "same_params (upd_set i f cp) cp' \<longleftrightarrow> same_params cp cp'"
  by (simp add: same_params_def upd_set_def)

lemma same_params_macros:
  assumes "same_params cp' cp"
  shows "CACHE_TAG cp' = CACHE_TAG cp" "CACHE_SET cp' = CACHE_SET cp"
    "CACHE_BLK cp' = CACHE_BLK cp" "CACHE_BADDR cp' = CACHE_BADDR cp"
    "CACHE_MK_BADDR cp' = CACHE_MK_BADDR cp"
  using assms by (simp_all add: same_params_def fun_eq_iff CACHE_TAG_def CACHE_SET_def
      CACHE_BLK_def CACHE_BADDR_def CACHE_MK_BADDR_def)

text \<open>
  The two outcomes of an access to a well-formed cache, as relations between the cache
  before and after.
\<close>

definition hit_step :: "cache \<Rightarrow> mem_cmd \<Rightarrow> 64 word \<Rightarrow> nat \<Rightarrow> cache \<Rightarrow> bool" where
  "hit_step cp cmd addr b cp' \<longleftrightarrow>
     cp_hits cp' = cp_hits cp + 1 \<and> cp_misses cp' = cp_misses cp
     \<and> cp_replacements cp' = cp_replacements cp \<and> cp_writebacks cp' = cp_writebacks cp
     \<and> cp_invalidations cp' = cp_invalidations cp
     \<and> (\<exists>xs. way_order (addr_set cp addr) xs
         \<and> way_order (addr_set cp' addr) (if cp_policy cp = LRU then move_to Head b xs else xs))
     \<and> (\<forall>i < length (set_blks (addr_set cp addr)).
          let k = set_blks (addr_set cp addr) ! i; k' = set_blks (addr_set cp' addr) ! i in
          blk_tag k' = blk_tag k \<and> blk_valid k' = blk_valid k \<and> blk_ready k' = blk_ready k
          \<and> blk_dirty k' = (blk_dirty k \<or> i = b \<and> cmd = Write))"

definition miss_step :: "cache \<Rightarrow> mem_cmd \<Rightarrow> 64 word \<Rightarrow> int \<Rightarrow> cache \<Rightarrow> bool" where
  "miss_step cp cmd addr rnd cp' \<longleftrightarrow>
     cp_hits cp' = cp_hits cp \<and> cp_misses cp' = cp_misses cp + 1
     \<and> cp_invalidations cp' = cp_invalidations cp
     \<and> (\<exists>xs. way_order (addr_set cp addr) xs \<and> way_order (addr_set cp' addr) (ways_after_miss cp xs)
         \<and> (let r = victim cp rnd xs; v = set_blks (addr_set cp addr) ! r in
             cp_replacements cp' = cp_replacements cp + (if blk_valid v then 1 else 0)
             \<and> cp_writebacks cp' = cp_writebacks cp + (if blk_valid v \<and> blk_dirty v then 1 else 0)
             \<and> (\<forall>i < length (set_blks (addr_set cp addr)).
                 let k = set_blks (addr_set cp addr) ! i; k' = set_blks (addr_set cp' addr) ! i in
                 blk_tag k' = (if i = r then CACHE_TAG cp addr else blk_tag k)
                 \<and> blk_valid k' = (i = r \<or> blk_valid k)
                 \<and> blk_dirty k' = (if i = r then cmd = Write else blk_dirty k))))"

lemma miss_stepD:
  assumes "miss_step cp cmd addr rnd cp'" "way_order (addr_set cp addr) xs"
  defines "r \<equiv> victim cp rnd xs" and "v \<equiv> set_blks (addr_set cp addr) ! victim cp rnd xs"
  shows "way_order (addr_set cp' addr) (ways_after_miss cp xs)"
    and "cp_replacements cp' = cp_replacements cp + (if blk_valid v then 1 else 0)"
    and "cp_writebacks cp' = cp_writebacks cp + (if blk_valid v \<and> blk_dirty v then 1 else 0)"
    and "\<And>i. i < length (set_blks (addr_set cp addr)) \<Longrightarrow>
      blk_tag (set_blks (addr_set cp' addr) ! i)
          = (if i = r then CACHE_TAG cp addr else blk_tag (set_blks (addr_set cp addr) ! i))
      \<and> blk_valid (set_blks (addr_set cp' addr) ! i)
          = (i = r \<or> blk_valid (set_blks (addr_set cp addr) ! i))
      \<and> blk_dirty (set_blks (addr_set cp' addr) ! i)
          = (if i = r then cmd = Write else blk_dirty (set_blks (addr_set cp addr) ! i))"
proof -
  obtain ys where ys: "way_order (addr_set cp addr) ys"
    and *: "way_order (addr_set cp' addr) (ways_after_miss cp ys)"
      "let r = victim cp rnd ys; v = set_blks (addr_set cp addr) ! r in
             cp_replacements cp' = cp_replacements cp + (if blk_valid v then 1 else 0)
             \<and> cp_writebacks cp' = cp_writebacks cp + (if blk_valid v \<and> blk_dirty v then 1 else 0)
             \<and> (\<forall>i < length (set_blks (addr_set cp addr)).
                 let k = set_blks (addr_set cp addr) ! i; k' = set_blks (addr_set cp' addr) ! i in
                 blk_tag k' = (if i = r then CACHE_TAG cp addr else blk_tag k)
                 \<and> blk_valid k' = (i = r \<or> blk_valid k)
                 \<and> blk_dirty k' = (if i = r then cmd = Write else blk_dirty k))"
    using assms(1) by (auto simp: miss_step_def)
  have "ys = xs" using ys assms(2) by (rule way_order_unique)
  note * = * [unfolded this Let_def, folded r_def, folded v_def [unfolded r_def [symmetric]]]
  show "way_order (addr_set cp' addr) (ways_after_miss cp xs)" by (rule *(1))
  show "cp_replacements cp' = cp_replacements cp + (if blk_valid v then 1 else 0)"
    and "cp_writebacks cp' = cp_writebacks cp + (if blk_valid v \<and> blk_dirty v then 1 else 0)"
    using *(2) by (simp_all add: v_def r_def)
  fix i assume "i < length (set_blks (addr_set cp addr))"
  with *(2) show "blk_tag (set_blks (addr_set cp' addr) ! i)
          = (if i = r then CACHE_TAG cp addr else blk_tag (set_blks (addr_set cp addr) ! i))
      \<and> blk_valid (set_blks (addr_set cp' addr) ! i)
          = (i = r \<or> blk_valid (set_blks (addr_set cp addr) ! i))
      \<and> blk_dirty (set_blks (addr_set cp' addr) ! i)
          = (if i = r then cmd = Write else blk_dirty (set_blks (addr_set cp addr) ! i))"
    by blast
qed

definition other_sets :: "cache \<Rightarrow> 64 word \<Rightarrow> cache \<Rightarrow> bool" where
  "other_sets cp addr cp' \<longleftrightarrow> same_params cp' cp \<and> length (cp_sets cp') = length (cp_sets cp)
     \<and> (\<forall>j. j \<noteq> unat (CACHE_SET cp addr) \<longrightarrow> cp_sets cp' ! j = cp_sets cp ! j)"

lemma cache_access_hit_step:
  assumes wf: "cache_wf cp" and chk: "access_check cp addr nbytes = Inr ()"
    and m: "match_in (CACHE_TAG cp addr) (addr_set cp addr) = Some b"
  shows "\<exists>out. cache_access fn cp cmd addr p nbytes now rnd w = Inr out
    \<and> cache_wf (ao_cache out) \<and> other_sets cp addr (ao_cache out)
    \<and> hit_step cp cmd addr b (ao_cache out) \<and> ao_world out = w"
proof -
  obtain kb ks ka where g: "geometry cp kb ks ka" and l: "length (cp_sets cp) = 2 ^ ks"
    and si: "unat (CACHE_SET cp addr) < 2 ^ ks"
    and sw: "set_wf (cp_hsize cp) (2 ^ ka) (addr_set cp addr)"
    using wf by (rule cache_wfE) blast
  obtain xs where xs: "way_order (addr_set cp addr) xs" "length (set_blks (addr_set cp addr)) = 2 ^ ka"
    using sw by (auto elim: set_wfD)
  have b: "b < 2 ^ ka" using match_in_Some [OF m] xs(2) by simp
  note hit = cache_hit_set [OF g refl, folded addr_set_def, OF sw b xs(1)]
  have acc: "cache_access fn cp cmd addr p nbytes now rnd w = cache_hit cp cmd addr p nbytes now b w"
    using chk m by (simp add: cache_access_def cache_find_wf [OF wf])
  obtain out s2 where o: "cache_hit cp cmd addr p nbytes now b w = Inr out"
    "ao_cache out = (upd_set (unat (CACHE_SET cp addr)) (\<lambda>_. s2) (cp\<lparr>cp_hits := cp_hits cp + 1\<rparr>))
         \<lparr>cp_last_tagset := CACHE_TAGSET cp addr, cp_last_blk := Some (unat (CACHE_SET cp addr), b)\<rparr>"
    "ao_world out = w" "set_wf (cp_hsize cp) (2 ^ ka) s2"
    "way_order s2 (if cp_policy cp = LRU then move_to Head b xs else xs)"
    "\<forall>i < 2 ^ ka. blk_tag (set_blks s2 ! i) = blk_tag (set_blks (addr_set cp addr) ! i)
         \<and> blk_valid (set_blks s2 ! i) = blk_valid (set_blks (addr_set cp addr) ! i)
         \<and> blk_ready (set_blks s2 ! i) = blk_ready (set_blks (addr_set cp addr) ! i)
         \<and> blk_dirty (set_blks s2 ! i)
              = (blk_dirty (set_blks (addr_set cp addr) ! i) \<or> i = b \<and> cmd = Write)"
    using hit [of cmd p nbytes now w] by blast
  have sp: "same_params (ao_cache out) cp" by (simp add: o(2) same_params_def upd_set_def)
  have sets: "cp_sets (ao_cache out) = (cp_sets cp)[unat (CACHE_SET cp addr) := s2]"
    by (simp add: o(2) upd_set_def)
  have as: "addr_set (ao_cache out) addr = s2"
    using si l by (simp add: addr_set_def sets same_params_macros [OF sp])
  have "hit_step cp cmd addr b (ao_cache out)"
    unfolding hit_step_def as Let_def using o(5,6) xs by (auto simp: o(2) upd_set_def)
  moreover have "other_sets cp addr (ao_cache out)"
    using sp by (simp add: other_sets_def sets)
  ultimately show ?thesis
    using acc o(1,3) cache_wf_replace [OF wf g sp sets o(4)] by auto
qed

lemma cache_access_miss_step:
  assumes wf: "cache_wf cp" and chk: "access_check cp addr nbytes = Inr ()"
    and m: "match_in (CACHE_TAG cp addr) (addr_set cp addr) = None"
  shows "\<exists>out. cache_access fn cp cmd addr p nbytes now rnd w = Inr out
    \<and> cache_wf (ao_cache out) \<and> other_sets cp addr (ao_cache out)
    \<and> miss_step cp cmd addr rnd (ao_cache out)
    \<and> (\<forall>xs. way_order (addr_set cp addr) xs \<longrightarrow>
        (let v = set_blks (addr_set cp addr) ! victim cp rnd xs in
         ao_repl_addr out = (if blk_valid v
           then CACHE_MK_BADDR cp (blk_tag v) (CACHE_SET cp addr) else 0)
         \<and> blk_ready (set_blks (addr_set (ao_cache out) addr) ! victim cp rnd xs)
             = now + scast (ao_lat out)))"
proof -
  obtain kb ks ka where g: "geometry cp kb ks ka" and l: "length (cp_sets cp) = 2 ^ ks"
    and si: "unat (CACHE_SET cp addr) < 2 ^ ks"
    and sw: "set_wf (cp_hsize cp) (2 ^ ka) (addr_set cp addr)"
    using wf by (rule cache_wfE) blast
  obtain xs where xs: "way_order (addr_set cp addr) xs" "length (set_blks (addr_set cp addr)) = 2 ^ ka"
    using sw by (auto elim: set_wfD)
  define v where "v = set_blks (addr_set cp addr) ! victim cp rnd xs"
  have acc: "cache_access fn cp cmd addr p nbytes now rnd w = cache_miss fn cp cmd addr p nbytes now rnd w"
    using chk m by (simp add: cache_access_def cache_find_wf [OF wf])
  obtain out s5 bus where o: "cache_miss fn cp cmd addr p nbytes now rnd w = Inr out"
    "ao_cache out = upd_set (unat (CACHE_SET cp addr)) (\<lambda>_. s5) (cp\<lparr>cp_misses := cp_misses cp + 1,
         cp_last_tagset := 0, cp_last_blk := None, cp_bus_free := bus,
         cp_replacements := cp_replacements cp + (if blk_valid v then 1 else 0),
         cp_writebacks := cp_writebacks cp + (if blk_valid v \<and> blk_dirty v then 1 else 0)\<rparr>)"
    "ao_repl_addr out = (if blk_valid v then CACHE_MK_BADDR cp (blk_tag v) (CACHE_SET cp addr) else 0)"
    "set_wf (cp_hsize cp) (2 ^ ka) s5" "way_order s5 (ways_after_miss cp xs)"
    "blk_ready (set_blks s5 ! victim cp rnd xs) = now + scast (ao_lat out)"
    "\<forall>i < 2 ^ ka. blk_tag (set_blks s5 ! i) = (if i = victim cp rnd xs then CACHE_TAG cp addr
            else blk_tag (set_blks (addr_set cp addr) ! i))
         \<and> blk_valid (set_blks s5 ! i) = (i = victim cp rnd xs \<or> blk_valid (set_blks (addr_set cp addr) ! i))
         \<and> blk_dirty (set_blks s5 ! i) = (if i = victim cp rnd xs then cmd = Write
            else blk_dirty (set_blks (addr_set cp addr) ! i))"
    using cache_miss_set [OF g refl, folded addr_set_def, OF sw xs(1) m refl v_def,
        where fn = fn and cmd = cmd and p = p and nbytes = nbytes and now = now and w = w] by blast
  have sp: "same_params (ao_cache out) cp" by (simp add: o(2) same_params_def upd_set_def)
  have sets: "cp_sets (ao_cache out) = (cp_sets cp)[unat (CACHE_SET cp addr) := s5]"
    by (simp add: o(2) upd_set_def)
  have as: "addr_set (ao_cache out) addr = s5"
    using si l by (simp add: addr_set_def sets same_params_macros [OF sp])
  have "miss_step cp cmd addr rnd (ao_cache out)"
    unfolding miss_step_def as Let_def using o(5,7) xs
    by (intro conjI exI [of _ xs]) (simp_all add: o(2) upd_set_def v_def)
  moreover have "other_sets cp addr (ao_cache out)"
    using sp by (simp add: other_sets_def sets)
  moreover have "\<forall>ys. way_order (addr_set cp addr) ys \<longrightarrow> ys = xs"
    using way_order_unique xs(1) by blast
  ultimately show ?thesis
    using acc o(1,3,6) cache_wf_replace [OF wf g sp sets o(4)]
    by (auto simp: as v_def [symmetric] Let_def)
qed

subsection \<open>LRU and FIFO as lists of lines\<close>

text \<open>
  The abstract view of a set: its lines from the most to the least recently used (LRU) or
  filled (FIFO), each a tag with a dirty flag, or an invalid line.
\<close>

type_synonym line = "(64 word \<times> bool) option"

definition line_of :: "cache_blk \<Rightarrow> line" where
  "line_of k = (if blk_valid k then Some (blk_tag k, blk_dirty k) else None)"

definition set_lines :: "cache_set \<Rightarrow> line list" where
  "set_lines s = map (\<lambda>i. line_of (set_blks s ! i))
     (collect (length (set_blks s)) (nxt s) (way_head s))"

definition has_tag :: "64 word \<Rightarrow> line \<Rightarrow> bool" where
  "has_tag tag l = (case l of None \<Rightarrow> False | Some (t, d) \<Rightarrow> t = tag)"

definition spec_access :: "cache_policy \<Rightarrow> mem_cmd \<Rightarrow> 64 word \<Rightarrow> line list \<Rightarrow> line list" where
  "spec_access pol cmd tag ls =
     (if list_ex (has_tag tag) ls then
        let l = Some (tag, cmd = Write \<or> Some (tag, True) \<in> set ls)
        in if pol = LRU then l # filter (\<lambda>k. \<not> has_tag tag k) ls
           else map (\<lambda>k. if has_tag tag k then l else k) ls
      else Some (tag, cmd = Write) # butlast ls)"

lemma has_tag_line [simp]: "has_tag tag (line_of (set_blks s ! i)) \<longleftrightarrow> blk_match tag s i"
  by (auto simp: has_tag_def line_of_def blk_match_def)

lemma set_lines_order:
  assumes "way_order s xs"
  shows "set_lines s = map (\<lambda>i. line_of (set_blks s ! i)) xs"
proof -
  have "length xs = card (set xs)" using assms by (simp add: way_order_def distinct_card)
  also have "\<dots> \<le> card {..<length (set_blks s)}"
    using assms by (intro card_mono) (auto simp: way_order_def)
  finally have "collect (length (set_blks s)) (nxt s) (way_head s) = xs"
    using assms by (intro collect_chain way_orderD(1)) auto
  then show ?thesis by (simp add: set_lines_def)
qed

lemma list_ex_match:
  assumes "set_wf h n s" "way_order s xs"
  shows "list_ex (has_tag tag) (set_lines s) \<longleftrightarrow> match_in tag s \<noteq> None"
proof -
  obtain ys where "way_order s ys" "set ys = {..<n}" "length (set_blks s) = n"
    using assms(1) by (rule set_wfD)
  moreover have "ys = xs" using calculation(1) assms(2) by (rule way_order_unique)
  ultimately show ?thesis
    by (auto simp: set_lines_order list_ex_iff match_in_None)
qed

lemma match_unique:
  assumes "set_wf h n s" "match_in tag s = Some b" "i < n"
  shows "blk_match tag s i \<longleftrightarrow> i = b"
  using assms match_in_Some [OF assms(2)] by (auto simp: set_wf_def blk_match_def)

lemma hit_refines:
  assumes wf: "cache_wf cp" and m: "match_in (CACHE_TAG cp addr) (addr_set cp addr) = Some b"
    and st: "hit_step cp cmd addr b cp'"
  shows "set_lines (addr_set cp' addr)
    = spec_access (cp_policy cp) cmd (CACHE_TAG cp addr) (set_lines (addr_set cp addr))"
proof -
  define s where "s = addr_set cp addr"
  define s' where "s' = addr_set cp' addr"
  define tag where "tag = CACHE_TAG cp addr"
  obtain ka where sw: "set_wf (cp_hsize cp) (2 ^ ka) s"
    using wf unfolding s_def by (rule cache_wfE) blast
  obtain xs where xs: "length (set_blks s) = 2 ^ ka" "way_order s xs" "set xs = {..<2 ^ ka}" "distinct xs"
    using sw by (rule set_wfD)
  note mm = match_in_Some [OF m, folded s_def tag_def, unfolded xs(1)]
  have mi: "blk_match tag s i \<longleftrightarrow> i = b" if "i \<in> set xs" for i
    using match_unique [OF sw m [folded s_def tag_def]] that xs(3) by simp
  define l where "l = Some (tag, cmd = Write \<or> Some (tag, True) \<in> set (set_lines s))"
  have ls: "set_lines s = map (\<lambda>i. line_of (set_blks s ! i)) xs" using xs(2) by (rule set_lines_order)
  have dirty: "Some (tag, True) \<in> set (set_lines s) \<longleftrightarrow> blk_dirty (set_blks s ! b)"
  proof
    assume "Some (tag, True) \<in> set (set_lines s)"
    then obtain i where "i \<in> set xs" "line_of (set_blks s ! i) = Some (tag, True)" by (auto simp: ls)
    with mi [of i] show "blk_dirty (set_blks s ! b)"
      by (auto simp: line_of_def blk_match_def split: if_splits)
  next
    assume "blk_dirty (set_blks s ! b)"
    with mm have "line_of (set_blks s ! b) = Some (tag, True)"
      by (auto simp: line_of_def blk_match_def)
    moreover have "b \<in> set xs" using mm xs(3) by simp
    ultimately show "Some (tag, True) \<in> set (set_lines s)" unfolding ls by force
  qed
  have new: "line_of (set_blks s' ! i) = (if i = b then l else line_of (set_blks s ! i))" if "i \<in> set xs" for i
    using st that xs mm dirty unfolding hit_step_def s_def [symmetric] s'_def [symmetric]
    by (auto simp: line_of_def l_def blk_match_def Let_def)
  have ord: "way_order s' (if cp_policy cp = LRU then move_to Head b xs else xs)"
    using st xs(2) way_order_unique unfolding hit_step_def s_def [symmetric] s'_def [symmetric]
    by blast
  have bx: "b \<in> set xs" using mm xs(3) by simp
  have hitls: "list_ex (has_tag tag) (set_lines s)"
    using list_ex_match [OF sw xs(2), of tag] m by (simp add: s_def tag_def)
  have "set_lines s' = spec_access (cp_policy cp) cmd tag (set_lines s)"
  proof (cases "cp_policy cp = LRU")
    case True
    have "set_lines s' = map (\<lambda>i. line_of (set_blks s' ! i)) (b # remove1 b xs)"
      using set_lines_order [OF ord] True by (simp add: move_to_def)
    also have "\<dots> = l # map (\<lambda>i. line_of (set_blks s ! i)) (filter (\<lambda>i. \<not> blk_match tag s i) xs)"
    proof -
      have "filter (\<lambda>i. \<not> blk_match tag s i) xs = filter (\<lambda>i. b \<noteq> i) xs"
        using mi by (intro filter_cong) auto
      also have "\<dots> = remove1 b xs"
        using xs(4) by (simp add: distinct_remove1_removeAll removeAll_filter_not_eq)
      finally have fil: "filter (\<lambda>i. \<not> blk_match tag s i) xs = remove1 b xs" .
      have "line_of (set_blks s' ! i) = line_of (set_blks s ! i)" if "i \<in> set (remove1 b xs)" for i
        using new [of i] that xs(4) by simp
      then show ?thesis unfolding fil using new [OF bx] by (simp cong: map_cong)
    qed
    also have "map (\<lambda>i. line_of (set_blks s ! i)) (filter (\<lambda>i. \<not> blk_match tag s i) xs)
        = filter (\<lambda>k. \<not> has_tag tag k) (set_lines s)"
      unfolding ls by (simp add: filter_map o_def)
    also have "l # \<dots> = spec_access LRU cmd tag (set_lines s)"
      using hitls by (simp add: spec_access_def Let_def l_def)
    finally show ?thesis using True by simp
  next
    case False
    have "set_lines s' = map (\<lambda>i. if i = b then l else line_of (set_blks s ! i)) xs"
      using set_lines_order [OF ord] False new by simp
    also have "\<dots> = map (\<lambda>k. if has_tag tag k then l else k) (set_lines s)"
      using mi by (simp add: ls)
    also have "\<dots> = spec_access (cp_policy cp) cmd tag (set_lines s)"
      using hitls False by (simp add: spec_access_def Let_def l_def)
    finally show ?thesis .
  qed
  then show ?thesis by (simp add: s_def s'_def tag_def)
qed

lemma miss_refines:
  assumes wf: "cache_wf cp" and m: "match_in (CACHE_TAG cp addr) (addr_set cp addr) = None"
    and st: "miss_step cp cmd addr rnd cp'" and pol: "cp_policy cp \<noteq> Random"
  shows "set_lines (addr_set cp' addr)
    = spec_access (cp_policy cp) cmd (CACHE_TAG cp addr) (set_lines (addr_set cp addr))"
proof -
  define s where "s = addr_set cp addr"
  define s' where "s' = addr_set cp' addr"
  obtain ka where sw: "set_wf (cp_hsize cp) (2 ^ ka) s"
    using wf unfolding s_def by (rule cache_wfE) blast
  obtain xs where xs: "length (set_blks s) = 2 ^ ka" "way_order s xs" "set xs = {..<2 ^ ka}"
      "distinct xs" "length xs = 2 ^ ka"
    by (rule set_wfD [OF sw]) (rule that)
  have "length xs \<noteq> 0" unfolding xs(5) by simp
  then have ne: "xs \<noteq> []" by auto
  have un: "ys = xs" if "way_order s ys" for ys using that xs(2) by (rule way_order_unique)
  have vic: "victim cp rnd xs = last xs" using pol by (simp add: victim_def)
  have lst: "last xs \<notin> set (butlast xs)"
    using xs(4) ne by (metis append_butlast_last_id distinct_append not_distinct_conv_prefix)
  note md = miss_stepD [OF st, folded s_def, OF xs(2), folded s'_def, unfolded vic xs(1)]
  have ord: "way_order s' (last xs # butlast xs)"
    using md(1) pol by (simp add: ways_after_miss_def)
  have new: "line_of (set_blks s' ! i) = (if i = last xs then Some (CACHE_TAG cp addr, cmd = Write)
      else line_of (set_blks s ! i))" if "i < 2 ^ ka" for i
    using md(4) [OF that] by (cases "i = last xs") (simp_all add: line_of_def)
  have lt: "last xs < 2 ^ ka" using xs(3) ne last_in_set [OF ne] by blast
  have old: "map (\<lambda>i. line_of (set_blks s' ! i)) (butlast xs)
      = map (\<lambda>i. line_of (set_blks s ! i)) (butlast xs)"
  proof (rule map_cong [OF refl])
    fix i assume i: "i \<in> set (butlast xs)"
    then have "i < 2 ^ ka" using xs(3) in_set_butlastD [OF i] by blast
    with i lst new [of i] show "line_of (set_blks s' ! i) = line_of (set_blks s ! i)" by auto
  qed
  have "set_lines s' = Some (CACHE_TAG cp addr, cmd = Write)
      # map (\<lambda>i. line_of (set_blks s ! i)) (butlast xs)"
    unfolding set_lines_order [OF ord] using old new [OF lt] by simp
  also have "\<dots> = Some (CACHE_TAG cp addr, cmd = Write) # butlast (set_lines s)"
    unfolding set_lines_order [OF xs(2)] by (simp add: map_butlast)
  also have "\<dots> = spec_access (cp_policy cp) cmd (CACHE_TAG cp addr) (set_lines s)"
    using list_ex_match [OF sw xs(2), of "CACHE_TAG cp addr"] m
    by (simp add: spec_access_def s_def)
  finally show ?thesis by (simp add: s_def s'_def)
qed

subsection \<open>Creation\<close>

lemma way_push_order:
  assumes ord: "way_order s xs" and b: "b < length (set_blks s)" "b \<notin> set xs"
  shows "way_order (way_push b s) (b # xs) \<and> same_content (way_push b s) s"
proof -
  have both: "upd_blk b (\<lambda>k. k\<lparr>way_next := way_head s, way_prev := None\<rparr>) s
    = upd_blk b (way_prev_update (\<lambda>_. None)) (upd_blk b (way_next_update (\<lambda>_. way_head s)) s)"
    using b(1) by (simp add: upd_blk_def)
  show ?thesis
  proof (cases xs)
    case Nil
    then have "way_head s = None" "way_tail s = None" using ord by (auto simp: way_order_def)
    then show ?thesis using ord b Nil both by (simp add: way_order_def way_push_def Let_def)
  next
    case (Cons h hs)
    then have h: "way_head s = Some h" "way_tail s \<noteq> None"
      using ord dseg_last [of "nxt s" "prv s" None "way_head s" xs None "way_tail s"]
      by (auto simp: way_order_def)
    then have "way_link s b Head = Inr (way_push b s)"
      by (auto simp: way_link_def way_push_def Let_def both [unfolded h(1)])
    with way_link_order [OF ord _ b(2,1), of Head] Cons show ?thesis by auto
  qed
qed

definition init_inv :: "int \<Rightarrow> nat \<Rightarrow> nat \<Rightarrow> cache_set \<Rightarrow> bool" where
  "init_inv hsize n k s \<longleftrightarrow> length (set_blks s) = n \<and> way_order s (rev [0..<k])
     \<and> (hsize \<noteq> 0 \<longrightarrow> bucket_chains hsize s {..<k})
     \<and> (\<forall>i < n. blk_tag (set_blks s ! i) = 0 \<and> blk_status (set_blks s ! i) = 0)"

lemma init_blk_inv:
  assumes inv: "init_inv hsize n k s" and k: "k < n" and h: "hsize \<noteq> 0 \<Longrightarrow> hsize_ok hsize"
  shows "init_inv hsize n (Suc k) (init_blk hsize usize base k s)"
proof -
  define f where "f = (\<lambda>b :: cache_blk. b\<lparr>blk_status := 0, blk_tag := 0, blk_ready := 0,
      blk_user_data := (if usize \<noteq> 0 then Some (base + k) else None)\<rparr>)"
  define s1 where "s1 = upd_blk k f s"
  define s2 where "s2 = (if hsize \<noteq> 0 then link_htab_ent hsize s1 k else s1)"
  have n: "length (set_blks s) = n" using inv by (simp add: init_inv_def)
  have n1: "length (set_blks s1) = n" by (simp add: s1_def n)
  have s1n: "set_blks s1 ! i = (if i = k then f (set_blks s ! k) else set_blks s ! i)" for i
    using n k by (simp add: s1_def upd_blk_nth)
  have o1: "way_order s1 (rev [0..<k])"
    using inv k unfolding s1_def by (subst way_order_content) (auto simp: init_inv_def f_def)
  have bc1: "bucket_chains hsize s1 {..<k}" if "hsize \<noteq> 0"
  proof (rule bucket_chains_transfer)
    show "bucket_chains hsize s {..<k}" using inv that by (simp add: init_inv_def)
    show "set_hash s1 = set_hash s" by (simp add: s1_def)
    show "\<And>i. i \<in> {..<k} \<Longrightarrow> hash_next (set_blks s1 ! i) = hash_next (set_blks s ! i)
        \<and> blk_tag (set_blks s1 ! i) = blk_tag (set_blks s ! i)"
      by (simp add: s1n)
  qed
  have lk: "bucket_chains hsize (link_htab_ent hsize s1 k) (insert k {..<k})
      \<and> same_but_hash (link_htab_ent hsize s1 k) s1" if "hsize \<noteq> 0"
    using that h bc1 k n1 by (intro link_htab_ent_chains) auto
  have sb: "same_but_hash s2 s1" using lk by (simp add: s2_def)
  have n2: "length (set_blks s2) = n" using same_but_hash_length [OF sb] n1 by simp
  have o2: "way_order s2 (rev [0..<k])" using same_but_hash_way_order [OF sb] o1 by simp
  have wp: "way_order (way_push k s2) (k # rev [0..<k])" "same_content (way_push k s2) s2"
    using way_push_order [OF o2, of k] k n2 by auto
  have st2: "blk_tag (set_blks s2 ! i) = 0 \<and> blk_status (set_blks s2 ! i) = 0" if "i < n" for i
    using same_but_hash_nth [OF sb, of i] that n1 inv by (auto simp: s1n f_def init_inv_def)
  have "blk_tag (set_blks (way_push k s2) ! i) = 0 \<and> blk_status (set_blks (way_push k s2) ! i) = 0"
    if "i < n" for i
    using same_content_nth(1,2) [OF wp(2), of i] st2 [OF that] that n2 by simp
  moreover have "bucket_chains hsize (way_push k s2) {..<Suc k}" if "hsize \<noteq> 0"
  proof (rule bucket_chains_transfer)
    show "bucket_chains hsize s2 {..<Suc k}" using lk [OF that] that by (simp add: s2_def lessThan_Suc)
    show "set_hash (way_push k s2) = set_hash s2" by (rule same_content_hash [OF wp(2)])
    show "\<And>i. i \<in> {..<Suc k} \<Longrightarrow> hash_next (set_blks (way_push k s2) ! i) = hash_next (set_blks s2 ! i)
        \<and> blk_tag (set_blks (way_push k s2) ! i) = blk_tag (set_blks s2 ! i)"
      using same_content_nth(1,4) [OF wp(2)] k n2 by simp
  qed
  moreover have "init_blk hsize usize base k s = way_push k s2"
    by (simp add: init_blk_def s2_def s1_def f_def Let_def)
  ultimately show ?thesis
    using wp same_content_length [OF wp(2)] n2 by (simp add: init_inv_def)
qed

lemma init_set_wf:
  assumes "hsize \<noteq> 0 \<Longrightarrow> hsize_ok hsize"
  shows "set_wf hsize n (init_set hsize usize balloc bsize n i)"
    and "way_order (init_set hsize usize balloc bsize n i) (rev [0..<n])"
    and "\<forall>j < n. \<not> blk_valid (set_blks (init_set hsize usize balloc bsize n i) ! j)"
proof -
  let ?s0 = "\<lparr>set_hash = replicate (nat hsize) None, way_head = None, way_tail = None,
      set_blks = replicate n (zero_blk balloc bsize)\<rparr>"
  have "k \<le> n \<Longrightarrow> init_inv hsize n k (fold (init_blk hsize usize (i * n)) [0..<k] ?s0)" for k
  proof (induction k)
    case 0
    show ?case by (auto simp: init_inv_def way_order_def bucket_chains_def zero_blk_def)
  next
    case (Suc k)
    then show ?case using init_blk_inv [OF _ _ assms] by simp
  qed
  from this [of n] have inv: "init_inv hsize n n (init_set hsize usize balloc bsize n i)"
    by (simp add: init_set_def)
  then show "way_order (init_set hsize usize balloc bsize n i) (rev [0..<n])"
    and v: "\<forall>j < n. \<not> blk_valid (set_blks (init_set hsize usize balloc bsize n i) ! j)"
    by (auto simp: init_inv_def blk_valid_def)
  have "set (rev [0..<n]) = {..<n}" by auto
  with inv v show "set_wf hsize n (init_set hsize usize balloc bsize n i)"
    unfolding set_wf_def init_inv_def by blast
qed

lemma cache_params_check_iff:
  "cache_params_check nsets bsize usize assoc has_fn = Inr () \<longleftrightarrow>
     (\<exists>k. nsets = 2 ^ k) \<and> 8 \<le> bsize \<and> (\<exists>k. bsize = 2 ^ k) \<and> 0 \<le> usize
     \<and> (\<exists>k. assoc = 2 ^ k) \<and> has_fn"
  using and_pred_int [of nsets] and_pred_int [of bsize] and_pred_int [of assoc]
  by (auto simp: cache_params_check_def not_le)

lemma pow2_less_31: "(2::int) ^ k < 2 ^ 31 \<Longrightarrow> k < 31"
  using power_less_imp_less_exp [of "2::int" k 31] by simp

lemma cache_create_pow2:
  assumes k: "3 \<le> kb" "kb < 31" "ks < 31" "ka < 31" and u: "0 \<le> usize"
  obtains cp where "cache_create name (2 ^ ks) (2 ^ kb) balloc usize (2 ^ ka) policy True lat = Inr cp"
    "geometry cp kb ks ka" "cp_policy cp = policy"
    "cp_sets cp = map (init_set (cp_hsize cp) usize balloc (2 ^ kb) (2 ^ ka)) [0..<2 ^ ks]"
    "cp_hits cp = 0" "cp_misses cp = 0"
proof -
  have "(2::int) ^ 3 \<le> 2 ^ kb" using k by (intro power_increasing) auto
  then have ok: "cache_params_check (2 ^ ks) (2 ^ kb) usize (2 ^ ka) True = Inr ()"
    using u by (auto simp: cache_params_check_iff)
  define h where "h = (if CACHE_HIGHLY_ASSOC (2 ^ ka) then (2::int) ^ ka div 4 else 0)"
  define cp where "cp = \<lparr>cp_name = name, cp_nsets = 2 ^ ks, cp_bsize = 2 ^ kb, cp_balloc = balloc,
     cp_usize = usize, cp_assoc = 2 ^ ka, cp_policy = policy, cp_hit_latency = lat, cp_hsize = h,
     cp_blk_mask = word_of_int (2 ^ kb - 1), cp_set_shift = kb,
     cp_set_mask = word_of_int (2 ^ ks - 1), cp_tag_shift = kb + ks,
     cp_tagset_mask = NOT (word_of_int (2 ^ kb - 1)), cp_bus_free = 0, cp_hits = 0, cp_misses = 0,
     cp_replacements = 0, cp_writebacks = 0, cp_invalidations = 0, cp_last_tagset = 0,
     cp_last_blk = None,
     cp_sets = map (init_set h usize balloc (2 ^ kb) (nat (2 ^ ka))) [0..<nat (2 ^ ks)]\<rparr>"
  have "cache_create name (2 ^ ks) (2 ^ kb) balloc usize (2 ^ ka) policy True lat = Inr cp"
    unfolding cache_create_def ok log_base2_pow2 cbind_simps Let_def h_def cp_def ..
  moreover have "geometry cp kb ks ka"
    using k by (simp add: geometry_def cp_def h_def CACHE_HIGHLY_ASSOC_def)
  ultimately show thesis
    by (rule that) (simp_all add: cp_def nat_power_eq)
qed

lemma create_wf:
  assumes "geometry cp kb ks ka"
    and "cp_sets cp = map (init_set (cp_hsize cp) usize balloc (2 ^ kb) (2 ^ ka)) [0..<2 ^ ks]"
  shows "cache_wf cp" and "match_in tag (addr_set cp addr) = None"
proof -
  note w = init_set_wf [OF hsize_ok_geometry [OF assms(1)]]
  have "\<forall>s \<in> set (cp_sets cp). set_wf (cp_hsize cp) (2 ^ ka) s" using assms(2) w(1) by auto
  then show "cache_wf cp" using assms by (auto simp: cache_wf_def)
  have "unat (CACHE_SET cp addr) < 2 ^ ks" by (rule CACHE_SET_less [OF assms(1)])
  then have "addr_set cp addr = init_set (cp_hsize cp) usize balloc (2 ^ kb) (2 ^ ka) (unat (CACHE_SET cp addr))"
    using assms(2) by (simp add: addr_set_def)
  with w(3) set_wf_length [OF w(1)] show "match_in tag (addr_set cp addr) = None"
    by (auto simp: match_in_None blk_match_def)
qed

subsection \<open>Probes\<close>

lemma cache_probe_wf:
  assumes "cache_wf cp"
  shows "cache_probe cp addr = Inr (match_in (CACHE_TAG cp addr) (addr_set cp addr) \<noteq> None)"
  using cache_find_wf [OF assms, of "CACHE_TAG cp addr" addr] by (simp add: cache_probe_def)

lemma cache_probe_lines:
  assumes "cache_wf cp"
  shows "cache_probe cp addr
    = Inr (list_ex (has_tag (CACHE_TAG cp addr)) (set_lines (addr_set cp addr)))"
proof -
  obtain ka where w: "set_wf (cp_hsize cp) (2 ^ ka) (addr_set cp addr)"
    using assms by (rule cache_wfE) blast
  then obtain xs where "way_order (addr_set cp addr) xs" by (auto elim: set_wfD)
  with w show ?thesis by (simp add: cache_probe_wf [OF assms] list_ex_match)
qed

lemma other_sets_probe:
  assumes "cache_wf cp" "cache_wf cp'" "other_sets cp addr cp'" "CACHE_SET cp a \<noteq> CACHE_SET cp addr"
  shows "cache_probe cp' a = cache_probe cp a"
proof -
  have sp: "same_params cp' cp" using assms(3) by (simp add: other_sets_def)
  have "unat (CACHE_SET cp a) \<noteq> unat (CACHE_SET cp addr)"
    using assms(4) by (simp add: word_unat_eq_iff)
  then have "addr_set cp' a = addr_set cp a"
    using assms(3) by (simp add: other_sets_def addr_set_def same_params_macros [OF sp])
  then show ?thesis
    by (simp add: cache_probe_wf [OF assms(1)] cache_probe_wf [OF assms(2)] same_params_macros [OF sp])
qed

text \<open>The access, without telling hits from misses.\<close>

lemma cache_access_total:
  assumes wf: "cache_wf cp" and chk: "access_check cp addr nbytes = Inr ()"
  obtains out where "cache_access fn cp cmd addr p nbytes now rnd w = Inr out"
    "cache_wf (ao_cache out)" "other_sets cp addr (ao_cache out)"
    "(\<exists>b. match_in (CACHE_TAG cp addr) (addr_set cp addr) = Some b
        \<and> hit_step cp cmd addr b (ao_cache out))
     \<or> match_in (CACHE_TAG cp addr) (addr_set cp addr) = None
        \<and> miss_step cp cmd addr rnd (ao_cache out)"
proof (cases "match_in (CACHE_TAG cp addr) (addr_set cp addr)")
  case None
  from cache_access_miss_step [OF wf chk this, of fn cmd p now rnd w] None that show ?thesis by blast
next
  case (Some b)
  from cache_access_hit_step [OF wf chk this, of fn cmd p now rnd w] Some that show ?thesis by blast
qed

lemma access_same_set_probe:
  assumes wf: "cache_wf cp" and wf': "cache_wf cp'" and oth: "other_sets cp addr cp'"
    and st: "(\<exists>b. match_in (CACHE_TAG cp addr) (addr_set cp addr) = Some b \<and> hit_step cp cmd addr b cp')
     \<or> match_in (CACHE_TAG cp addr) (addr_set cp addr) = None \<and> miss_step cp cmd addr rnd cp'"
  shows "cache_probe cp' addr = Inr True"
    and "cache_probe cp' a = Inr True \<Longrightarrow> CACHE_SET cp a = CACHE_SET cp addr
      \<Longrightarrow> CACHE_TAG cp a \<noteq> CACHE_TAG cp addr \<Longrightarrow> cache_probe cp a = Inr True"
proof -
  define s where "s = addr_set cp addr"
  define s' where "s' = addr_set cp' addr"
  have sp: "same_params cp' cp" using oth by (simp add: other_sets_def)
  obtain ka where w: "set_wf (cp_hsize cp) (2 ^ ka) s" and g: "\<exists>kb ks. geometry cp kb ks ka"
    using wf unfolding s_def by (rule cache_wfE) blast
  obtain xs where xs: "length (set_blks s) = 2 ^ ka" "way_order s xs" using w by (rule set_wfD)
  obtain kb' ks' ka' where "geometry cp' kb' ks' ka'" "set_wf (cp_hsize cp') (2 ^ ka') s'"
    using wf' unfolding s'_def by (rule cache_wfE) blast
  moreover have "\<exists>kb ks. geometry cp' kb ks ka" using g sp by (auto simp: geometry_def same_params_def)
  ultimately have n': "length (set_blks s') = 2 ^ ka" by (auto dest: geometry_unique set_wf_length)
  have vl: "victim cp rnd xs < 2 ^ ka" using choose_repl_result(2) w xs(2) g by blast
  have A: "\<exists>i < 2 ^ ka. blk_match (CACHE_TAG cp addr) s' i"
    using st
  proof
    assume "\<exists>b. match_in (CACHE_TAG cp addr) (addr_set cp addr) = Some b \<and> hit_step cp cmd addr b cp'"
    then obtain b where b: "match_in (CACHE_TAG cp addr) s = Some b" "hit_step cp cmd addr b cp'"
      by (auto simp: s_def)
    from match_in_Some [OF b(1)] b(2) xs(1) show ?thesis
      unfolding hit_step_def s_def [symmetric] s'_def [symmetric]
      by (auto simp: Let_def blk_match_def)
  next
    assume "match_in (CACHE_TAG cp addr) (addr_set cp addr) = None \<and> miss_step cp cmd addr rnd cp'"
    with miss_stepD(4) [of cp cmd addr rnd cp' xs "victim cp rnd xs"] xs vl show ?thesis
      by (auto simp: s_def s'_def blk_match_def)
  qed
  then show "cache_probe cp' addr = Inr True"
    using n' by (auto simp: cache_probe_wf [OF wf'] match_in_None same_params_macros [OF sp]
        s'_def [symmetric] simp del: not_None_eq)
  have B: "blk_match tag s i" if "blk_match tag s' i" "i < 2 ^ ka" "tag \<noteq> CACHE_TAG cp addr" for tag i
    using st
  proof
    assume "\<exists>b. match_in (CACHE_TAG cp addr) (addr_set cp addr) = Some b \<and> hit_step cp cmd addr b cp'"
    then obtain b where "hit_step cp cmd addr b cp'" by blast
    with that xs show ?thesis
      unfolding hit_step_def s_def [symmetric] s'_def [symmetric]
      by (auto simp: Let_def blk_match_def)
  next
    assume "match_in (CACHE_TAG cp addr) (addr_set cp addr) = None \<and> miss_step cp cmd addr rnd cp'"
    with miss_stepD(4) [of cp cmd addr rnd cp' xs i] xs that show ?thesis
      by (auto simp: s_def s'_def blk_match_def split: if_splits)
  qed
  assume p: "cache_probe cp' a = Inr True" "CACHE_SET cp a = CACHE_SET cp addr"
    "CACHE_TAG cp a \<noteq> CACHE_TAG cp addr"
  have as: "addr_set cp a = s" "addr_set cp' a = s'"
    using p(2) by (simp_all add: addr_set_def s_def s'_def same_params_macros [OF sp])
  from p(1) obtain i where "i < 2 ^ ka" "blk_match (CACHE_TAG cp a) s' i"
    by (auto simp: cache_probe_wf [OF wf'] as same_params_macros [OF sp] n' dest!: match_in_Some)
  with B p(3) xs(1) show "cache_probe cp a = Inr True"
    by (auto simp: cache_probe_wf [OF wf] as match_in_None simp del: not_None_eq)
qed

end
