(* ===== verification/CacheFlush.thy ===== *)
theory CacheFlush
  imports CacheRefine
begin

text \<open>
  The two flushes of cache.c: \<open>cache_flush\<close> empties the cache and \<open>cache_flush_addr\<close> drops
  one block; both keep the cache well-formed and write back exactly the dirty blocks they
  invalidate.
\<close>

subsection \<open>Invalidating one block\<close>

text \<open>\<open>s'\<close> is \<open>s\<close> with the blocks of \<open>B\<close> invalid; links, tags and dirty bits stay.\<close>

definition invalidated :: "nat set \<Rightarrow> cache_set \<Rightarrow> cache_set \<Rightarrow> bool" where
  "invalidated B s s' \<longleftrightarrow> way_head s' = way_head s \<and> way_tail s' = way_tail s
     \<and> set_hash s' = set_hash s \<and> length (set_blks s') = length (set_blks s)
     \<and> (\<forall>i < length (set_blks s). let k = set_blks s ! i; k' = set_blks s' ! i in
          way_next k' = way_next k \<and> way_prev k' = way_prev k \<and> hash_next k' = hash_next k
          \<and> blk_tag k' = blk_tag k \<and> blk_dirty k' = blk_dirty k
          \<and> blk_valid k' = (blk_valid k \<and> i \<notin> B))"

lemma invalidated_refl [simp]: "invalidated {} s s"
  by (simp add: invalidated_def Let_def)

lemma invalidated_trans:
  "invalidated A s t \<Longrightarrow> invalidated B t u \<Longrightarrow> invalidated (A \<union> B) s u"
  by (simp add: invalidated_def Let_def)

lemma invalidated_way_order:
  assumes "invalidated B s s'"
  shows "way_order s' xs = way_order s xs"
  using assms by (intro way_order_cong) (auto simp: invalidated_def Let_def)

lemma invalidated_wf:
  assumes i: "invalidated B s s'" and wf: "set_wf h n s"
  shows "set_wf h n s'"
proof (rule set_wf_update [OF wf])
  have n: "length (set_blks s) = n" using wf by (rule set_wf_length)
  then show "length (set_blks s') = n" and "set_hash s' = set_hash s"
    using i by (auto simp: invalidated_def)
  show "\<exists>xs. way_order s' xs \<and> set xs = {..<n}"
    using wf by (auto simp: invalidated_way_order [OF i] set_wf_def)
  show "\<And>j. j < n \<Longrightarrow> hash_next (set_blks s' ! j) = hash_next (set_blks s ! j)
      \<and> blk_tag (set_blks s' ! j) = blk_tag (set_blks s ! j)
      \<and> (blk_valid (set_blks s' ! j) \<longrightarrow> blk_valid (set_blks s ! j))"
    using i n by (simp add: invalidated_def Let_def)
qed

lemma invalidate_blk_result:
  assumes si: "si < length (cp_sets cp)" and b: "b < length (set_blks (cp_sets cp ! si))"
    and res: "invalidate_blk fn mk si b now (lat, cp, w) = (lat', cp', w')"
  shows "\<exists>s'. cp_sets cp' = (cp_sets cp)[si := s'] \<and> invalidated {b} (cp_sets cp ! si) s'"
    and "same_params cp' cp"
    and "cp_invalidations cp' = cp_invalidations cp + 1"
    and "cp_writebacks cp' = cp_writebacks cp
           + (if blk_dirty (set_blks (cp_sets cp ! si) ! b) then 1 else 0)"
proof -
  define s where "s = cp_sets cp ! si"
  define f where "f = (\<lambda>k :: cache_blk. k\<lparr>blk_status := blk_status k AND NOT CACHE_BLK_VALID\<rparr>)"
  define s1 where "s1 = upd_blk b f s"
  define blk where "blk = set_blks s1 ! b"
  obtain l d w1 where fn: "fn Write (mk (blk_tag blk)) (cp_bsize cp) blk (now + scast lat) w = (l, d, w1)"
    by (metis prod_cases3)
  have s1n: "set_blks s1 ! i = (if i = b then f (set_blks s ! b) else set_blks s ! i)" for i
    using b by (simp add: s1_def s_def upd_blk_nth)
  have inv1: "invalidated {b} s s1"
    using b unfolding invalidated_def s1n
    by (auto simp: s1_def f_def blk_valid_def blk_dirty_def status_bits)
  have inv2: "invalidated {b} s (upd_blk b (\<lambda>k. k\<lparr>blk_data := d\<rparr>) s1)"
    using b inv1 by (auto simp: invalidated_def Let_def upd_blk_nth s_def s1_def
        blk_valid_def blk_dirty_def)
  have dirty: "blk_dirty blk = blk_dirty (set_blks s ! b)"
    by (simp add: blk_def s1n f_def blk_dirty_def status_bits)
  have res': "(lat', cp', w') = (if blk_dirty blk then (lat + l,
        upd_set si (upd_blk b (\<lambda>k. k\<lparr>blk_data := d\<rparr>))
          ((upd_set si (\<lambda>_. s1) cp)\<lparr>cp_invalidations := cp_invalidations cp + 1,
             cp_writebacks := cp_writebacks cp + 1\<rparr>), w1)
      else (lat, (upd_set si (\<lambda>_. s1) cp)\<lparr>cp_invalidations := cp_invalidations cp + 1\<rparr>, w))"
    unfolding res [symmetric] invalidate_blk_def
    by (simp add: Let_def fn s_def [symmetric] f_def [symmetric] s1_def [symmetric]
        blk_def [symmetric], simp add: upd_set_def)
  show "\<exists>s'. cp_sets cp' = (cp_sets cp)[si := s'] \<and> invalidated {b} (cp_sets cp ! si) s'"
    using res' inv1 inv2 si by (auto simp: upd_set_def s_def [symmetric] split: if_splits)
  show "same_params cp' cp" using res' by (auto simp: same_params_def upd_set_def split: if_splits)
  show "cp_invalidations cp' = cp_invalidations cp + 1"
    using res' by (auto simp: upd_set_def split: if_splits)
  show "cp_writebacks cp' = cp_writebacks cp
           + (if blk_dirty (set_blks (cp_sets cp ! si) ! b) then 1 else 0)"
    using res' dirty by (auto simp: upd_set_def s_def split: if_splits)
qed

subsection \<open>The whole cache\<close>

lemma flush_ways_result:
  assumes "chain (nxt (cp_sets cp ! si)) p xs" "length xs < n" "si < length (cp_sets cp)"
    and "set xs \<subseteq> {..<length (set_blks (cp_sets cp ! si))}"
  shows "\<exists>lat' cp' w' s'. flush_ways n fn si now p (lat, cp, w) = Inr (lat', cp', w')
    \<and> cp_sets cp' = (cp_sets cp)[si := s'] \<and> invalidated (set xs) (cp_sets cp ! si) s'
    \<and> same_params cp' cp"
  using assms
proof (induction xs arbitrary: p n lat cp w)
  case Nil
  then show ?case by (cases n) (auto intro: exI [of _ "cp_sets cp ! si"] simp: same_params_def)
next
  case (Cons b xs)
  then obtain m where m: "n = Suc m" "p = Some b" by (cases n) auto
  let ?s = "cp_sets cp ! si"
  define st where "st = (if blk_valid (set_blks ?s ! b)
      then invalidate_blk fn (\<lambda>t. CACHE_MK_BADDR_int cp t si) si b now (lat, cp, w) else (lat, cp, w))"
  obtain lat1 cp1 w1 where st: "st = (lat1, cp1, w1)" by (metis prod_cases3)
  have bl: "b < length (set_blks ?s)" using Cons.prems(4) by simp
  obtain s1 where s1: "cp_sets cp1 = (cp_sets cp)[si := s1]" "invalidated {b} ?s s1" "same_params cp1 cp"
  proof (cases "blk_valid (set_blks ?s ! b)")
    case True
    with st have "invalidate_blk fn (\<lambda>t. CACHE_MK_BADDR_int cp t si) si b now (lat, cp, w)
        = (lat1, cp1, w1)" by (simp add: st_def)
    from invalidate_blk_result(1,2) [OF Cons.prems(3) bl this] that show thesis by blast
  next
    case False
    then have "cp1 = cp" "invalidated {b} ?s ?s" using st by (auto simp: st_def invalidated_def Let_def)
    then show thesis by (intro that [of ?s]) (auto simp: same_params_def)
  qed
  have cs: "cp_sets cp1 ! si = s1" using s1(1) Cons.prems(3) by simp
  have nx: "nxt s1 i = nxt ?s i" if "i < length (set_blks ?s)" for i
    using s1(2) that by (simp add: invalidated_def Let_def)
  have l1: "length (set_blks s1) = length (set_blks ?s)" using s1(2) by (simp add: invalidated_def)
  have "chain (nxt (cp_sets cp1 ! si)) (nxt s1 b) xs"
    using Cons.prems(1,4) nx bl unfolding cs
    by (subst chain_cong [of xs _ "nxt ?s"]) auto
  moreover have "length xs < m" "si < length (cp_sets cp1)"
    "set xs \<subseteq> {..<length (set_blks (cp_sets cp1 ! si))}"
    using Cons.prems m s1(1) l1 cs by auto
  ultimately obtain lat' cp' w' s' where r: "flush_ways m fn si now (nxt s1 b) (lat1, cp1, w1) = Inr (lat', cp', w')"
    "cp_sets cp' = (cp_sets cp1)[si := s']" "invalidated (set xs) (cp_sets cp1 ! si) s'"
    "same_params cp' cp1"
    using Cons.IH [of cp1 "nxt s1 b" m lat1 w1] by blast
  have "flush_ways n fn si now p (lat, cp, w) = Inr (lat', cp', w')"
  proof -
    have "flush_ways n fn si now p (lat, cp, w)
        = flush_ways m fn si now (nxt (cp_sets (fst (snd st)) ! si) b) st"
      by (simp only: m flush_ways.simps Let_def fst_conv snd_conv st_def)
    then show ?thesis using r(1) by (simp add: st cs)
  qed
  moreover have "cp_sets cp' = (cp_sets cp)[si := s']" using r(2) s1(1) by simp
  moreover have "invalidated (set (b # xs)) ?s s'"
    using invalidated_trans [OF s1(2)] r(3) cs by simp
  moreover have "same_params cp' cp" using r(4) s1(3) by (simp add: same_params_def)
  ultimately show ?case by blast
qed

lemma flush_sets_result:
  assumes "\<forall>i \<in> set js. i < length (cp_sets cp) \<and> set_wf h n (cp_sets cp ! i)" "distinct js"
  shows "\<exists>lat' cp' w'. flush_sets fn js now (lat, cp, w) = Inr (lat', cp', w')
    \<and> same_params cp' cp \<and> length (cp_sets cp') = length (cp_sets cp)
    \<and> (\<forall>i. i \<notin> set js \<longrightarrow> cp_sets cp' ! i = cp_sets cp ! i)
    \<and> (\<forall>i \<in> set js. invalidated {..<n} (cp_sets cp ! i) (cp_sets cp' ! i))"
  using assms
proof (induction js arbitrary: lat cp w)
  case Nil
  then show ?case by (simp add: same_params_def)
next
  case (Cons i js)
  let ?s = "cp_sets cp ! i"
  have i: "i < length (cp_sets cp)" "set_wf h n ?s" using Cons.prems by auto
  obtain xs where xs: "length (set_blks ?s) = n" "way_order ?s xs" "set xs = {..<n}"
      "distinct xs" "length xs = n"
    by (rule set_wfD [OF i(2)]) (rule that)
  obtain lat1 cp1 w1 s1 where r1: "flush_ways (Suc n) fn i now (way_head ?s) (lat, cp, w) = Inr (lat1, cp1, w1)"
      "cp_sets cp1 = (cp_sets cp)[i := s1]" "invalidated {..<n} ?s s1" "same_params cp1 cp"
    using flush_ways_result [OF way_orderD(1) [OF xs(2)], of "Suc n" fn now lat w] xs i by auto
  have "\<forall>j \<in> set js. j < length (cp_sets cp1) \<and> set_wf h n (cp_sets cp1 ! j)"
    using Cons.prems r1(2) by (auto simp: nth_list_update)
  with Cons.prems obtain lat' cp' w' where r: "flush_sets fn js now (lat1, cp1, w1) = Inr (lat', cp', w')"
      "same_params cp' cp1" "length (cp_sets cp') = length (cp_sets cp1)"
      "\<forall>j. j \<notin> set js \<longrightarrow> cp_sets cp' ! j = cp_sets cp1 ! j"
      "\<forall>j \<in> set js. invalidated {..<n} (cp_sets cp1 ! j) (cp_sets cp' ! j)"
    using Cons.IH [of cp1 lat1 w1] by auto
  have "flush_sets fn (i # js) now (lat, cp, w) = Inr (lat', cp', w')"
    using r1(1) r(1) xs(1) by (simp add: Let_def)
  moreover have "same_params cp' cp" using r(2) r1(4) by (simp add: same_params_def)
  moreover have "\<forall>j. j \<notin> set (i # js) \<longrightarrow> cp_sets cp' ! j = cp_sets cp ! j"
    using r(4) r1(2) by simp
  moreover have "\<forall>j \<in> set (i # js). invalidated {..<n} (cp_sets cp ! j) (cp_sets cp' ! j)"
    using r(4,5) r1(2,3) Cons.prems i by (auto simp: nth_list_update split: if_splits)
  moreover have "length (cp_sets cp') = length (cp_sets cp)" using r(3) r1(2) by simp
  ultimately show ?case by blast
qed

lemma geometry_cp_nsets: "geometry cp kb ks ka \<Longrightarrow> nat (cp_nsets cp) = 2 ^ ks"
  by (simp add: geometry_def nat_power_eq)

lemma cache_flush_result:
  assumes wf: "cache_wf cp"
  shows "\<exists>lat' cp' w'. cache_flush fn cp now w = Inr (lat', cp', w') \<and> cache_wf cp'
    \<and> same_params cp' cp \<and> (\<forall>tag addr. match_in tag (addr_set cp' addr) = None)"
proof -
  obtain kb ks ka where g: "geometry cp kb ks ka" and l: "length (cp_sets cp) = 2 ^ ks"
    and sw: "\<And>i. i < 2 ^ ks \<Longrightarrow> set_wf (cp_hsize cp) (2 ^ ka) (cp_sets cp ! i)"
    using wf by (rule cache_wfE) blast
  let ?cp = "cp\<lparr>cp_last_tagset := 0, cp_last_blk := None\<rparr>"
  obtain lat' cp' w' where r: "flush_sets fn [0..<2 ^ ks] now (cp_hit_latency cp, ?cp, w) = Inr (lat', cp', w')"
      "same_params cp' ?cp" "length (cp_sets cp') = length (cp_sets ?cp)"
      "\<forall>i \<in> set [0..<2 ^ ks]. invalidated {..<2 ^ ka} (cp_sets ?cp ! i) (cp_sets cp' ! i)"
    using flush_sets_result [of "[0..<2 ^ ks]" ?cp "cp_hsize cp" "2 ^ ka" fn now "cp_hit_latency cp" w]
      l sw by auto
  have sp: "same_params cp' cp" using r(2) by (simp add: same_params_def)
  have inv: "invalidated {..<2 ^ ka} (cp_sets cp ! i) (cp_sets cp' ! i)" if "i < 2 ^ ks" for i
    using r(4) that by simp
  have g': "geometry cp' kb ks ka" using g sp by (simp add: geometry_def same_params_def)
  have hs: "cp_hsize cp' = cp_hsize cp" using sp by (simp add: same_params_def)
  have sw': "set_wf (cp_hsize cp') (2 ^ ka) (cp_sets cp' ! i)" if "i < 2 ^ ks" for i
    unfolding hs by (rule invalidated_wf [OF inv [OF that] sw [OF that]])
  have "\<forall>s \<in> set (cp_sets cp'). set_wf (cp_hsize cp') (2 ^ ka) s"
    using sw' r(3) l by (auto simp: in_set_conv_nth)
  then have "cache_wf cp'" using g' r(3) l by (auto simp: cache_wf_def)
  moreover have "match_in tag (addr_set cp' addr) = None" for tag addr
  proof -
    have i: "unat (CACHE_SET cp' addr) < 2 ^ ks" by (rule CACHE_SET_less [OF g'])
    show ?thesis using inv [OF i] set_wf_length [OF sw [OF i]]
      by (auto simp: match_in_None addr_set_def invalidated_def Let_def blk_match_def)
  qed
  moreover have "cache_flush fn cp now w = Inr (lat', cp', w')"
    using r(1) by (simp add: cache_flush_def geometry_cp_nsets [OF g])
  ultimately show ?thesis using sp by blast
qed

subsection \<open>One block\<close>

lemma cache_flush_addr_result:
  assumes wf: "cache_wf cp"
  shows "\<exists>lat' cp' w'. cache_flush_addr fn cp addr now w = Inr (lat', cp', w') \<and> cache_wf cp'
    \<and> other_sets cp addr cp'
    \<and> (\<forall>tag. match_in tag (addr_set cp' addr) \<noteq> None
         \<longleftrightarrow> tag \<noteq> CACHE_TAG cp addr \<and> match_in tag (addr_set cp addr) \<noteq> None)
    \<and> cp_invalidations cp' = cp_invalidations cp
         + (if match_in (CACHE_TAG cp addr) (addr_set cp addr) = None then 0 else 1)"
proof (cases "match_in (CACHE_TAG cp addr) (addr_set cp addr)")
  case None
  then show ?thesis using wf
    by (auto simp: cache_flush_addr_def Let_def cache_find_wf [OF wf] other_sets_def same_params_def
        simp del: not_None_eq)
next
  case (Some b)
  obtain kb ks ka where g: "geometry cp kb ks ka" and l: "length (cp_sets cp) = 2 ^ ks"
    and si: "unat (CACHE_SET cp addr) < 2 ^ ks"
    and sw: "set_wf (cp_hsize cp) (2 ^ ka) (addr_set cp addr)"
    using wf by (rule cache_wfE) blast
  define i where "i = unat (CACHE_SET cp addr)"
  define s where "s = addr_set cp addr"
  have s: "s = cp_sets cp ! i" by (simp add: s_def i_def addr_set_def)
  note sw = sw [folded s_def]
  obtain xs where xs: "length (set_blks s) = 2 ^ ka" "way_order s xs" "set xs = {..<2 ^ ka}" "distinct xs"
    using sw by (rule set_wfD)
  note b = match_in_Some [OF Some, folded s_def, unfolded xs(1)]
  let ?cp = "cp\<lparr>cp_last_tagset := 0, cp_last_blk := None\<rparr>"
  obtain lat1 cp1 w1 where iv: "invalidate_blk fn (\<lambda>t. CACHE_MK_BADDR cp t (CACHE_SET cp addr)) i b now
      (cp_hit_latency cp, ?cp, w) = (lat1, cp1, w1)" by (metis prod_cases3)
  have il: "i < length (cp_sets ?cp)" "b < length (set_blks (cp_sets ?cp ! i))"
    using si l b xs(1) by (simp_all add: i_def s [symmetric, unfolded i_def])
  obtain s1 where s1: "cp_sets cp1 = (cp_sets cp)[i := s1]" "invalidated {b} s s1"
    using invalidate_blk_result(1) [OF il iv] by (auto simp: s)
  have sp1: "same_params cp1 cp" and iv1: "cp_invalidations cp1 = cp_invalidations cp + 1"
    using invalidate_blk_result(2,3) [OF il iv] by (simp_all add: same_params_def)
  have o1: "way_order s1 xs" using xs(2) by (simp add: invalidated_way_order [OF s1(2)])
  have l1: "length (set_blks s1) = 2 ^ ka" using s1(2) xs(1) by (simp add: invalidated_def)
  obtain s2 where s2: "update_way_list s1 b Tail = Inr s2" "same_content s2 s1"
      "way_order s2 (move_to Tail b xs)"
    using update_way_list_order [OF o1, of b Tail] b xs(3) by auto
  let ?c = "upd_set i (\<lambda>_. s2) cp1"
  have cs1: "cp_sets cp1 ! i = s1" using s1(1) il by simp
  have "cache_flush_addr fn cp addr now w = Inr (lat1, ?c, w1)"
    using iv cs1 s2(1) cache_find_wf [OF wf, of "CACHE_TAG cp addr" addr]
    by (simp add: cache_flush_addr_def Let_def Some i_def [symmetric])
  moreover have wf2: "set_wf (cp_hsize cp) (2 ^ ka) s2"
  proof (rule set_wf_update [OF invalidated_wf [OF s1(2) sw]])
    show "length (set_blks s2) = 2 ^ ka" using same_content_length [OF s2(2)] l1 by simp
    show "set_hash s2 = set_hash s1" by (rule same_content_hash [OF s2(2)])
    show "\<exists>zs. way_order s2 zs \<and> set zs = {..<2 ^ ka}"
      using s2(3) xs(3,4) b by (intro exI [of _ "move_to Tail b xs"]) simp
    show "\<And>j. j < 2 ^ ka \<Longrightarrow> hash_next (set_blks s2 ! j) = hash_next (set_blks s1 ! j)
      \<and> blk_tag (set_blks s2 ! j) = blk_tag (set_blks s1 ! j)
      \<and> (blk_valid (set_blks s2 ! j) \<longrightarrow> blk_valid (set_blks s1 ! j))"
      using same_content_nth [OF s2(2)] l1 by (simp add: blk_valid_def)
  qed
  have sets: "cp_sets ?c = (cp_sets cp)[i := s2]" using s1(1) by (simp add: upd_set_def)
  have sp: "same_params ?c cp" using sp1 by simp
  have as: "addr_set ?c addr = s2"
    using il(1) by (simp add: addr_set_def sets same_params_macros [OF sp] i_def [symmetric])
  have m2: "blk_match tag s2 j \<longleftrightarrow> j \<noteq> b \<and> blk_match tag s j" if "j < 2 ^ ka" for tag j
    using same_content_nth [OF s2(2), of j] s1(2) that l1 xs(1)
    by (auto simp: blk_match_def blk_valid_def invalidated_def Let_def)
  have l2: "length (set_blks s2) = 2 ^ ka" using wf2 by (rule set_wf_length)
  have "match_in tag s2 \<noteq> None \<longleftrightarrow> tag \<noteq> CACHE_TAG cp addr \<and> match_in tag s \<noteq> None" for tag
  proof -
    have "match_in tag s2 \<noteq> None \<longleftrightarrow> (\<exists>j < 2 ^ ka. j \<noteq> b \<and> blk_match tag s j)"
      using m2 by (auto simp: match_in_None l2 simp del: not_None_eq)
    also have "\<dots> \<longleftrightarrow> tag \<noteq> CACHE_TAG cp addr \<and> (\<exists>j < 2 ^ ka. blk_match tag s j)"
      using b match_unique [OF sw Some [folded s_def]] by (auto simp: blk_match_def)
    finally show ?thesis by (auto simp: match_in_None xs(1) simp del: not_None_eq)
  qed
  moreover have "other_sets cp addr ?c"
    using sp by (auto simp: other_sets_def sets i_def [symmetric])
  moreover have "cp_invalidations ?c = cp_invalidations cp + 1"
    using iv1 by (simp add: upd_set_def)
  ultimately show ?thesis
    using cache_wf_replace [OF wf g sp sets wf2] as Some by (auto simp: s_def simp del: not_None_eq)
qed

text \<open>Address round trip: the block address is rebuilt from its tag and set.\<close>

lemma CACHE_MK_BADDR_round:
  assumes g: "geometry cp kb ks ka"
  shows "CACHE_MK_BADDR cp (CACHE_TAG cp addr) (CACHE_SET cp addr) = CACHE_BADDR cp addr"
proof (rule bit_word_eqI)
  fix n assume n: "n < LENGTH(64)"
  have set: "cp_set_mask cp = mask ks" and blk: "cp_blk_mask cp = mask kb"
    using g by (simp_all add: geometry_def mask_eq_exp_minus_1)
  show "bit (CACHE_MK_BADDR cp (CACHE_TAG cp addr) (CACHE_SET cp addr)) n = bit (CACHE_BADDR cp addr) n"
    using g n unfolding CACHE_MK_BADDR_def CACHE_TAG_def CACHE_SET_def CACHE_BADDR_def set blk
    by (cases "n < kb + ks") (auto simp: geometry_def bit_simps)
qed

text \<open>The tag and set of an address are those of its block.\<close>

lemma CACHE_BADDR_tag_set:
  assumes g: "geometry cp kb ks ka"
  shows "CACHE_TAG cp (CACHE_BADDR cp addr) = CACHE_TAG cp addr
    \<and> CACHE_SET cp (CACHE_BADDR cp addr) = CACHE_SET cp addr"
proof -
  have "cp_blk_mask cp = mask kb" "cp_tag_shift cp = kb + ks" "cp_set_shift cp = kb"
    using g by (simp_all add: geometry_def mask_eq_exp_minus_1)
  moreover have bl: "j < 64" if "bit addr j" for j using bit_imp_le_length [OF that] by simp
  ultimately show ?thesis
    by (auto intro!: bit_word_eqI simp: CACHE_TAG_def CACHE_SET_def CACHE_BADDR_def bit_simps
        dest!: bl)
qed

end
