(* ===== verification/CacheProps.thy ===== *)
theory CacheProps
  imports CacheFlush
begin

text \<open>
  The properties of the cache module, each with the cache created by the code at a concrete
  configuration as its witness, and the simulation of a whole run of accesses.
\<close>

subsection \<open>Concrete caches for the witnesses\<close>

lemma example_cache:
  assumes "ka < 31"
  obtains cp where "cache_create ''dl1'' 2 8 False 0 (2 ^ ka) pol True 1 = Inr cp"
    "geometry cp 3 1 ka" "cache_wf cp" "cp_policy cp = pol" "access_check cp 16 4 = Inr ()"
    "\<And>tag addr. match_in tag (addr_set cp addr) = None" "cp_misses cp = 0"
proof -
  obtain cp where cp: "cache_create ''dl1'' (2 ^ 1) (2 ^ 3) False 0 (2 ^ ka) pol True 1 = Inr cp"
      "geometry cp 3 1 ka" "cp_policy cp = pol"
      "cp_sets cp = map (init_set (cp_hsize cp) 0 False (2 ^ 3) (2 ^ ka)) [0..<2 ^ 1]"
      "cp_misses cp = 0"
    using cache_create_pow2 [of 3 1 ka 0 "''dl1''" False pol 1] assms by auto
  have "access_check cp 16 4 = Inr ()"
    using cp(2) by (simp add: access_check_def geometry_def)
  with cp create_wf [OF cp(2,4)] that show thesis by simp
qed

lemma access_present:
  assumes wf: "cache_wf cp" and chk: "access_check cp addr nbytes = Inr ()"
  obtains out where "cache_access fn cp cmd addr p nbytes now rnd w = Inr out"
    "cache_wf (ao_cache out)" "other_sets cp addr (ao_cache out)"
    "cache_probe (ao_cache out) addr = Inr True"
proof (rule cache_access_total [OF wf chk, of fn cmd p now rnd w])
  fix out assume "cache_access fn cp cmd addr p nbytes now rnd w = Inr out"
    and o: "cache_wf (ao_cache out)" "other_sets cp addr (ao_cache out)"
      "(\<exists>b. match_in (CACHE_TAG cp addr) (addr_set cp addr) = Some b
          \<and> hit_step cp cmd addr b (ao_cache out))
        \<or> match_in (CACHE_TAG cp addr) (addr_set cp addr) = None
          \<and> miss_step cp cmd addr rnd (ao_cache out)"
  with access_same_set_probe(1) [OF wf o] that show thesis by simp
qed

text \<open>A miss handler with latency 10 that leaves the block's data alone.\<close>

definition mem_fn :: "unit blk_access_fn" where
  "mem_fn cmd baddr bsize blk now w = (10, blk_data blk, w)"

subsection \<open>Single accesses\<close>

text \<open>C1: an access to an LRU or FIFO cache refines the list of lines of its set.\<close>

theorem cache_access_refines:
  assumes "cache_wf cp" and "access_check cp addr nbytes = Inr ()" and "cp_policy cp \<noteq> Random"
  shows "\<exists>out. cache_access fn cp cmd addr p nbytes now rnd w = Inr out
    \<and> cache_wf (ao_cache out)
    \<and> set_lines (addr_set (ao_cache out) addr)
        = spec_access (cp_policy cp) cmd (CACHE_TAG cp addr) (set_lines (addr_set cp addr))
    \<and> (\<forall>j. j \<noteq> unat (CACHE_SET cp addr) \<longrightarrow> cp_sets (ao_cache out) ! j = cp_sets cp ! j)"
proof -
  obtain out where o: "cache_access fn cp cmd addr p nbytes now rnd w = Inr out"
    "cache_wf (ao_cache out)" "other_sets cp addr (ao_cache out)"
    "(\<exists>b. match_in (CACHE_TAG cp addr) (addr_set cp addr) = Some b
        \<and> hit_step cp cmd addr b (ao_cache out))
     \<or> match_in (CACHE_TAG cp addr) (addr_set cp addr) = None
        \<and> miss_step cp cmd addr rnd (ao_cache out)"
    by (rule cache_access_total [OF assms(1,2)])
  then show ?thesis
    using hit_refines [OF assms(1)] miss_refines [OF assms(1) _ _ assms(3)]
    by (auto simp: other_sets_def)
qed

theorem cache_access_refines_witness:
  "\<exists>cp. cache_create ''dl1'' 2 8 False 0 2 LRU True 1 = Inr cp
    \<and> (\<exists>out. cache_access mem_fn cp Write 16 [1, 2, 3, 4] 4 0 0 () = Inr out
        \<and> cache_wf (ao_cache out)
        \<and> set_lines (addr_set (ao_cache out) 16)
            = spec_access LRU Write (CACHE_TAG cp 16) (set_lines (addr_set cp 16)))"
proof -
  obtain cp where "cache_create ''dl1'' 2 8 False 0 (2 ^ 1) LRU True 1 = Inr cp" "cache_wf cp"
    "cp_policy cp = LRU" "access_check cp 16 4 = Inr ()"
    by (rule example_cache [of 1 LRU]) auto
  with cache_access_refines [of cp 16 4 mem_fn Write "[1, 2, 3, 4]" 0 0 "()"]
  show ?thesis by auto
qed

text \<open>C7: an access to a cache of any policy never fails when its size and alignment are legal;
  it keeps the cache well-formed, counts as one hit (exactly when a probe said so) or one miss,
  and leaves the block present.\<close>

theorem cache_access_total_inv:
  assumes "cache_wf cp" and "access_check cp addr nbytes = Inr ()"
  shows "\<exists>out. cache_access fn cp cmd addr p nbytes now rnd w = Inr out
    \<and> cache_wf (ao_cache out)
    \<and> cache_probe (ao_cache out) addr = Inr True
    \<and> (if cache_probe cp addr = Inr True
       then cp_hits (ao_cache out) = cp_hits cp + 1 \<and> cp_misses (ao_cache out) = cp_misses cp
            \<and> ao_world out = w
       else cp_hits (ao_cache out) = cp_hits cp \<and> cp_misses (ao_cache out) = cp_misses cp + 1)"
proof (cases "match_in (CACHE_TAG cp addr) (addr_set cp addr)")
  case None
  from cache_access_miss_step [OF assms None, of fn cmd p now rnd w]
  obtain out where o: "cache_access fn cp cmd addr p nbytes now rnd w = Inr out"
    "cache_wf (ao_cache out)" "other_sets cp addr (ao_cache out)"
    "miss_step cp cmd addr rnd (ao_cache out)" by blast
  with access_same_set_probe(1) [OF assms(1) o(2,3), of cmd rnd] None show ?thesis
    by (auto simp: cache_probe_wf [OF assms(1)] miss_step_def)
next
  case (Some b)
  from cache_access_hit_step [OF assms Some, of fn cmd p now rnd w]
  obtain out where o: "cache_access fn cp cmd addr p nbytes now rnd w = Inr out"
    "cache_wf (ao_cache out)" "other_sets cp addr (ao_cache out)"
    "hit_step cp cmd addr b (ao_cache out)" "ao_world out = w" by blast
  with access_same_set_probe(1) [OF assms(1) o(2,3), of cmd rnd] Some show ?thesis
    by (auto simp: cache_probe_wf [OF assms(1)] hit_step_def)
qed

theorem cache_access_total_inv_witness:
  "\<exists>cp. cache_create ''dl1'' 2 8 False 0 8 Random True 1 = Inr cp
    \<and> (\<exists>out. cache_access mem_fn cp Read 16 [0, 0, 0, 0] 4 5 3 () = Inr out
        \<and> cache_wf (ao_cache out) \<and> cache_probe (ao_cache out) 16 = Inr True
        \<and> cp_misses (ao_cache out) = 1)"
proof -
  obtain cp where "cache_create ''dl1'' 2 8 False 0 (2 ^ 3) Random True 1 = Inr cp" "cache_wf cp"
    "access_check cp 16 4 = Inr ()" "\<And>tag addr. match_in tag (addr_set cp addr) = None"
    "cp_misses cp = 0"
    by (rule example_cache [of 3 Random]) auto
  with cache_access_total_inv [of cp 16 4 mem_fn Read "[0, 0, 0, 0]" 5 3 "()"]
  show ?thesis by (auto simp: cache_probe_wf)
qed

text \<open>C8: an access can evict at most one block: every other block present afterwards was present
  before, and blocks of other sets are not affected at all.\<close>

theorem cache_access_evicts_only:
  assumes "cache_wf cp" and "access_check cp addr nbytes = Inr ()"
    and "cache_access fn cp cmd addr p nbytes now rnd w = Inr out"
    and "CACHE_BADDR cp a \<noteq> CACHE_BADDR cp addr"
  shows "(cache_probe (ao_cache out) a = Inr True \<longrightarrow> cache_probe cp a = Inr True)
    \<and> (CACHE_SET cp a \<noteq> CACHE_SET cp addr \<longrightarrow> cache_probe (ao_cache out) a = cache_probe cp a)"
proof -
  obtain out' where "cache_access fn cp cmd addr p nbytes now rnd w = Inr out'"
    and o: "cache_wf (ao_cache out')" "other_sets cp addr (ao_cache out')"
    "(\<exists>b. match_in (CACHE_TAG cp addr) (addr_set cp addr) = Some b
        \<and> hit_step cp cmd addr b (ao_cache out'))
     \<or> match_in (CACHE_TAG cp addr) (addr_set cp addr) = None
        \<and> miss_step cp cmd addr rnd (ao_cache out')"
    by (rule cache_access_total [OF assms(1,2)])
  then have out: "out' = out" using assms(3) by simp
  note o = o [unfolded out]
  have oth: "CACHE_SET cp a \<noteq> CACHE_SET cp addr \<Longrightarrow> cache_probe (ao_cache out) a = cache_probe cp a"
    by (rule other_sets_probe [OF assms(1) o(1,2)])
  have "cache_probe cp a = Inr True" if p: "cache_probe (ao_cache out) a = Inr True"
  proof (cases "CACHE_SET cp a = CACHE_SET cp addr")
    case True
    obtain kb ks ka where "geometry cp kb ks ka" using assms(1) by (rule cache_wfE) blast
    then have "CACHE_TAG cp a \<noteq> CACHE_TAG cp addr"
      using True assms(4) CACHE_MK_BADDR_round by metis
    with access_same_set_probe(2) [OF assms(1) o p True] show ?thesis .
  next
    case False
    with oth p show ?thesis by simp
  qed
  with oth show ?thesis by blast
qed

theorem cache_access_evicts_only_witness:
  "\<exists>cp. cache_create ''dl1'' 2 8 False 0 2 FIFO True 1 = Inr cp
    \<and> (\<exists>out. cache_access mem_fn cp Write 16 [1, 2, 3, 4] 4 0 0 () = Inr out
        \<and> cache_probe (ao_cache out) 8 \<noteq> Inr True)"
proof -
  obtain cp where cp: "cache_create ''dl1'' 2 8 False 0 (2 ^ 1) FIFO True 1 = Inr cp" "cache_wf cp"
    "geometry cp 3 1 1" "access_check cp 16 4 = Inr ()" "\<And>tag addr. match_in tag (addr_set cp addr) = None"
    by (rule example_cache [of 1 FIFO]) auto
  from cache_access_total [OF cp(2,4), of mem_fn Write "[1, 2, 3, 4]" 0 0 "()"] obtain out
    where o: "cache_access mem_fn cp Write 16 [1, 2, 3, 4] 4 0 0 () = Inr out" by blast
  have "CACHE_BADDR cp 8 \<noteq> CACHE_BADDR cp 16" using cp(3) by (simp add: CACHE_BADDR_def geometry_def)
  from cache_access_evicts_only [OF cp(2,4) o this] cp o show ?thesis
    by (auto simp: cache_probe_wf)
qed

text \<open>On a miss the block at the tail of the way list (LRU, FIFO) or the one \<open>myrand()\<close> picks
  is replaced: the address reported is that of its old contents, the replacement is counted when
  it held a valid block and the write-back exactly when that block was dirty.\<close>

theorem cache_miss_eviction:
  assumes "cache_wf cp" and "access_check cp addr nbytes = Inr ()"
    and "cache_probe cp addr = Inr False" and "way_order (addr_set cp addr) xs"
    and "v = set_blks (addr_set cp addr)
           ! (if cp_policy cp = Random then nat (rnd AND (cp_assoc cp - 1)) else last xs)"
  shows "\<exists>out. cache_access fn cp cmd addr p nbytes now rnd w = Inr out
    \<and> ao_repl_addr out
        = (if blk_valid v then CACHE_MK_BADDR cp (blk_tag v) (CACHE_SET cp addr) else 0)
    \<and> cp_replacements (ao_cache out) = cp_replacements cp + (if blk_valid v then 1 else 0)
    \<and> cp_writebacks (ao_cache out)
        = cp_writebacks cp + (if blk_valid v \<and> blk_dirty v then 1 else 0)"
proof -
  have m: "match_in (CACHE_TAG cp addr) (addr_set cp addr) = None"
    using assms(3) by (simp add: cache_probe_wf [OF assms(1)])
  have v: "v = set_blks (addr_set cp addr) ! victim cp rnd xs"
    using assms(5) by (simp add: victim_def)
  from cache_access_miss_step [OF assms(1,2) m, of fn cmd p now rnd w] obtain out
    where o: "cache_access fn cp cmd addr p nbytes now rnd w = Inr out"
      "miss_step cp cmd addr rnd (ao_cache out)"
      "ao_repl_addr out = (if blk_valid v then CACHE_MK_BADDR cp (blk_tag v) (CACHE_SET cp addr) else 0)"
    using assms(4) by (auto simp: Let_def v)
  then show ?thesis using miss_stepD(2,3) [OF o(2) assms(4)] by (auto simp: v)
qed

theorem cache_miss_eviction_witness:
  "\<exists>cp. cache_create ''dl1'' 2 8 False 0 2 LRU True 1 = Inr cp
    \<and> (\<exists>out. cache_access mem_fn cp Write 16 [1, 2, 3, 4] 4 0 0 () = Inr out
        \<and> ao_repl_addr out = 0 \<and> cp_replacements (ao_cache out) = cp_replacements cp)"
proof -
  obtain cp where cp: "cache_create ''dl1'' 2 8 False 0 (2 ^ 1) LRU True 1 = Inr cp" "cache_wf cp"
    "geometry cp 3 1 1" "access_check cp 16 4 = Inr ()" "\<And>tag addr. match_in tag (addr_set cp addr) = None"
    "cp_policy cp = LRU"
    by (rule example_cache [of 1 LRU]) auto
  obtain ka where w: "set_wf (cp_hsize cp) (2 ^ ka) (addr_set cp 16)"
    using cp(2) by (rule cache_wfE) blast
  obtain xs where xs: "length (set_blks (addr_set cp 16)) = 2 ^ ka" "way_order (addr_set cp 16) xs"
      "set xs = {..<2 ^ ka}" "distinct xs" "length xs = 2 ^ ka"
    by (rule set_wfD [OF w]) (rule that)
  have "length xs \<noteq> 0" unfolding xs(5) by simp
  then have "xs \<noteq> []" by simp
  then have l: "last xs < 2 ^ ka" using xs(3) last_in_set [of xs] by blast
  have "match_in (blk_tag (set_blks (addr_set cp 16) ! last xs)) (addr_set cp 16) = None" by (rule cp(5))
  then have "\<not> blk_valid (set_blks (addr_set cp 16) ! last xs)"
    using l xs(1) by (auto simp: match_in_None blk_match_def)
  with cache_miss_eviction [OF cp(2,4) _ xs(2) refl, where fn = mem_fn and cmd = Write
      and p = "[1, 2, 3, 4]" and now = 0 and rnd = 0 and w = "()"] cp
  show ?thesis by (auto simp: cache_probe_wf)
qed

text \<open>The lookups through the hash buckets and along the way list agree, and a probe answers
  whether some line of the set carries the tag.\<close>

theorem cache_lookup_agree:
  assumes "cache_wf cp"
  shows "cache_probe cp addr = cache_probe (cp\<lparr>cp_hsize := 0\<rparr>) addr
    \<and> cache_probe cp addr
        = Inr (list_ex (has_tag (CACHE_TAG cp addr)) (set_lines (addr_set cp addr)))"
proof -
  obtain ka where "set_wf (cp_hsize cp) (2 ^ ka) (addr_set cp addr)"
    using assms by (rule cache_wfE) blast
  from way_walk_match [OF this] set_wf_length [OF this]
  have "cache_find (cp\<lparr>cp_hsize := 0\<rparr>) (CACHE_TAG cp addr) (unat (CACHE_SET cp addr))
      = Inr (match_in (CACHE_TAG cp addr) (addr_set cp addr))"
    by (simp add: cache_find_def addr_set_def Let_def)
  then have "cache_probe (cp\<lparr>cp_hsize := 0\<rparr>) addr
      = Inr (match_in (CACHE_TAG cp addr) (addr_set cp addr) \<noteq> None)"
    by (simp add: cache_probe_def CACHE_TAG_def CACHE_SET_def)
  then show ?thesis
    using cache_probe_wf [OF assms] cache_probe_lines [OF assms, of addr] by simp
qed

theorem cache_lookup_agree_witness:
  "\<exists>cp. cache_create ''dl1'' 2 8 False 0 8 LRU True 1 = Inr cp \<and> cp_hsize cp = 2
    \<and> cache_probe cp 24 = cache_probe (cp\<lparr>cp_hsize := 0\<rparr>) 24"
proof -
  obtain cp where cp: "cache_create ''dl1'' 2 8 False 0 (2 ^ 3) LRU True 1 = Inr cp" "cache_wf cp"
    "geometry cp 3 1 3" by (rule example_cache [of 3 LRU]) auto
  from cp(3) have "cp_hsize cp = 2" by (simp add: geometry_def)
  with cp cache_lookup_agree [OF cp(2), of 24] show ?thesis by auto
qed



text \<open>Flushing the whole cache always ends, and leaves a well-formed cache without any block.\<close>

theorem cache_flush_empties:
  assumes "cache_wf cp"
  shows "\<exists>lat cp' w'. cache_flush fn cp now w = Inr (lat, cp', w') \<and> cache_wf cp'
    \<and> (\<forall>addr. cache_probe cp' addr = Inr False)"
  using cache_flush_result [OF assms, of fn now w] by (auto simp: cache_probe_wf)

theorem cache_flush_empties_witness:
  "\<exists>cp out lat cp' w'. cache_create ''dl1'' 2 8 False 0 8 LRU True 1 = Inr cp
    \<and> cache_access mem_fn cp Write 16 [1, 2, 3, 4] 4 0 0 () = Inr out
    \<and> cache_probe (ao_cache out) 16 = Inr True
    \<and> cache_flush mem_fn (ao_cache out) 7 () = Inr (lat, cp', w') \<and> cache_probe cp' 16 = Inr False"
proof -
  obtain cp where cp: "cache_create ''dl1'' 2 8 False 0 (2 ^ 3) LRU True 1 = Inr cp" "cache_wf cp"
    "access_check cp 16 4 = Inr ()" by (rule example_cache [of 3 LRU]) auto
  obtain out where o: "cache_access mem_fn cp Write 16 [1, 2, 3, 4] 4 0 0 () = Inr out"
      "cache_wf (ao_cache out)" "cache_probe (ao_cache out) 16 = Inr True"
    by (rule access_present [OF cp(2,3)])
  with cp(1) cache_flush_empties [OF o(2), of mem_fn 7 "()"] show ?thesis by auto
qed

text \<open>Flushing one address removes exactly its block: every other address of the cache is
  present afterwards if and only if it was before, and one invalidation is counted when the
  block was there.\<close>

theorem cache_flush_addr_exact:
  assumes "cache_wf cp"
  shows "\<exists>lat cp' w'. cache_flush_addr fn cp addr now w = Inr (lat, cp', w') \<and> cache_wf cp'
    \<and> (\<forall>a. cache_probe cp' a = (if CACHE_BADDR cp a = CACHE_BADDR cp addr then Inr False
                                else cache_probe cp a))
    \<and> cp_invalidations cp' = cp_invalidations cp
        + (if cache_probe cp addr = Inr True then 1 else 0)"
proof -
  obtain lat cp' w' where r: "cache_flush_addr fn cp addr now w = Inr (lat, cp', w')" "cache_wf cp'"
    "other_sets cp addr cp'"
    "\<forall>tag. match_in tag (addr_set cp' addr) \<noteq> None
         \<longleftrightarrow> tag \<noteq> CACHE_TAG cp addr \<and> match_in tag (addr_set cp addr) \<noteq> None"
    "cp_invalidations cp' = cp_invalidations cp
         + (if match_in (CACHE_TAG cp addr) (addr_set cp addr) = None then 0 else 1)"
    using cache_flush_addr_result [OF assms, of fn addr now w] by blast
  have sp: "same_params cp' cp" using r(3) by (simp add: other_sets_def)
  obtain kb ks ka where g: "geometry cp kb ks ka" using assms by (rule cache_wfE) blast
  have same: "CACHE_BADDR cp a = CACHE_BADDR cp addr
      \<longleftrightarrow> CACHE_TAG cp a = CACHE_TAG cp addr \<and> CACHE_SET cp a = CACHE_SET cp addr" for a
    using CACHE_MK_BADDR_round [OF g] CACHE_BADDR_tag_set [OF g] by metis
  have "cache_probe cp' a = (if CACHE_BADDR cp a = CACHE_BADDR cp addr then Inr False
      else cache_probe cp a)" for a
  proof (cases "CACHE_SET cp a = CACHE_SET cp addr")
    case True
    then have "addr_set cp a = addr_set cp addr" "addr_set cp' a = addr_set cp' addr"
      by (simp_all add: addr_set_def same_params_macros [OF sp])
    with True r(4) show ?thesis
      by (auto simp: cache_probe_wf [OF r(2)] cache_probe_wf [OF assms] same
          same_params_macros [OF sp] simp del: not_None_eq)
  next
    case False
    with other_sets_probe [OF assms r(2,3) False] show ?thesis by (simp add: same)
  qed
  with r(1,2,5) show ?thesis by (auto simp: cache_probe_wf [OF assms])
qed

theorem cache_flush_addr_exact_witness:
  "\<exists>cp out lat cp' w'. cache_create ''dl1'' 2 8 False 0 8 LRU True 1 = Inr cp
    \<and> cache_access mem_fn cp Write 16 [1, 2, 3, 4] 4 0 0 () = Inr out
    \<and> cache_flush_addr mem_fn (ao_cache out) 20 7 () = Inr (lat, cp', w')
    \<and> cache_probe (ao_cache out) 16 = Inr True \<and> cache_probe cp' 16 = Inr False"
proof -
  obtain cp where cp: "cache_create ''dl1'' 2 8 False 0 (2 ^ 3) LRU True 1 = Inr cp" "cache_wf cp"
    "access_check cp 16 4 = Inr ()" "geometry cp 3 1 3" by (rule example_cache [of 3 LRU]) auto
  obtain out where o: "cache_access mem_fn cp Write 16 [1, 2, 3, 4] 4 0 0 () = Inr out"
      "cache_wf (ao_cache out)" "other_sets cp 16 (ao_cache out)"
      "cache_probe (ao_cache out) 16 = Inr True"
    by (rule access_present [OF cp(2,3)])
  then have sp: "same_params (ao_cache out) cp" by (simp add: other_sets_def)
  have "CACHE_BADDR (ao_cache out) 16 = CACHE_BADDR (ao_cache out) 20"
    using cp(4) by (simp add: same_params_macros [OF sp] CACHE_BADDR_def geometry_def)
  with o cp(1) cache_flush_addr_exact [OF o(2), of mem_fn 20 7 "()"] show ?thesis by auto
qed

subsection \<open>Runs of accesses\<close>

text \<open>
  A run of accesses as a step machine over the cache and the memory below it, and the
  abstract machine: one list of lines per set and the number of accesses so far.
\<close>

record mem_op =
  op_cmd :: mem_cmd
  op_addr :: "64 word"
  op_buf :: "8 word list"
  op_bytes :: int
  op_now :: "64 word"
  op_rnd :: int

definition cache_step :: "'w blk_access_fn \<Rightarrow> cache \<times> 'w \<Rightarrow> mem_op \<Rightarrow> (cache \<times> 'w) cres" where
  "cache_step fn st r =
     cbind (cache_access fn (fst st) (op_cmd r) (op_addr r) (op_buf r) (op_bytes r) (op_now r)
              (op_rnd r) (snd st))
       (\<lambda>out. Inr (ao_cache out, ao_world out))"

definition lines_of :: "cache \<times> 'w \<Rightarrow> line list list \<times> 64 word" where
  "lines_of st = (map set_lines (cp_sets (fst st)), cp_hits (fst st) + cp_misses (fst st))"

definition lines_step :: "cache \<Rightarrow> line list list \<times> 64 word \<Rightarrow> mem_op
    \<Rightarrow> line list list \<times> 64 word" where
  "lines_step cp a r =
     (let i = unat (CACHE_SET cp (op_addr r)) in
      ((fst a)[i := spec_access (cp_policy cp) (op_cmd r) (CACHE_TAG cp (op_addr r)) (fst a ! i)],
       snd a + 1))"

definition run_inv :: "cache \<Rightarrow> cache \<times> 'w \<Rightarrow> bool" where
  "run_inv cp st \<longleftrightarrow> cache_wf (fst st) \<and> same_params (fst st) cp \<and> cp_policy cp \<noteq> Random"

lemma access_check_same: "same_params cp' cp \<Longrightarrow> access_check cp' = access_check cp"
  by (simp add: access_check_def same_params_def fun_eq_iff)

lemma cache_step_sim:
  assumes "run_inv cp st" and "access_check cp (op_addr r) (op_bytes r) = Inr ()"
  shows "\<exists>st'. cache_step fn st r = Inr st' \<and> run_inv cp st'
    \<and> lines_of st' = lines_step cp (lines_of st) r"
proof -
  define c where "c = fst st"
  have wf: "cache_wf c" and sp: "same_params c cp" and pol: "cp_policy c \<noteq> Random"
    using assms(1) by (auto simp: run_inv_def c_def same_params_def)
  have chk: "access_check c (op_addr r) (op_bytes r) = Inr ()"
    using assms(2) access_check_same [OF sp] by simp
  obtain out where o: "cache_access fn c (op_cmd r) (op_addr r) (op_buf r) (op_bytes r) (op_now r)
      (op_rnd r) (snd st) = Inr out" "cache_wf (ao_cache out)" "other_sets c (op_addr r) (ao_cache out)"
    "(\<exists>b. match_in (CACHE_TAG c (op_addr r)) (addr_set c (op_addr r)) = Some b
        \<and> hit_step c (op_cmd r) (op_addr r) b (ao_cache out))
     \<or> match_in (CACHE_TAG c (op_addr r)) (addr_set c (op_addr r)) = None
        \<and> miss_step c (op_cmd r) (op_addr r) (op_rnd r) (ao_cache out)"
    by (rule cache_access_total [OF wf chk])
  have sp': "same_params (ao_cache out) c" using o(3) by (simp add: other_sets_def)
  define i where "i = unat (CACHE_SET c (op_addr r))"
  have "set_lines (addr_set (ao_cache out) (op_addr r))
      = spec_access (cp_policy c) (op_cmd r) (CACHE_TAG c (op_addr r)) (set_lines (addr_set c (op_addr r)))"
    using o(4) hit_refines [OF wf] miss_refines [OF wf _ _ pol] by blast
  then have new: "set_lines (cp_sets (ao_cache out) ! i)
      = spec_access (cp_policy c) (op_cmd r) (CACHE_TAG c (op_addr r)) (set_lines (cp_sets c ! i))"
    by (simp add: addr_set_def i_def same_params_macros [OF sp'])
  have len: "length (cp_sets (ao_cache out)) = length (cp_sets c)"
    and oth: "\<And>j. j \<noteq> i \<Longrightarrow> cp_sets (ao_cache out) ! j = cp_sets c ! j"
    using o(3) by (simp_all add: other_sets_def i_def)
  have il: "i < length (cp_sets c)" unfolding i_def using wf by (rule cache_wfE) simp
  have "map set_lines (cp_sets (ao_cache out)) = (map set_lines (cp_sets c))[i := spec_access
      (cp_policy c) (op_cmd r) (CACHE_TAG c (op_addr r)) (map set_lines (cp_sets c) ! i)]"
    using new oth len il by (intro nth_equalityI) (auto simp: nth_list_update)
  moreover have "cp_hits (ao_cache out) + cp_misses (ao_cache out) = cp_hits c + cp_misses c + 1"
    using o(4) by (auto simp: hit_step_def miss_step_def)
  moreover have "cp_policy c = cp_policy cp" using sp by (simp add: same_params_def)
  ultimately have "lines_of (ao_cache out, ao_world out) = lines_step cp (lines_of st) r"
    by (simp add: lines_of_def lines_step_def Let_def c_def [symmetric] i_def same_params_macros [OF sp])
  moreover have "run_inv cp (ao_cache out, ao_world out)"
    using o(2) sp sp' pol by (simp add: run_inv_def same_params_def)
  moreover have "cache_step fn st r = Inr (ao_cache out, ao_world out)"
    using o(1) by (simp add: cache_step_def c_def)
  ultimately show ?thesis by blast
qed

interpretation lru: simulation "run_inv cp" "\<lambda>_ r. access_check cp (op_addr r) (op_bytes r) = Inr ()"
    "cache_step fn" lines_of "lines_step cp"
  for cp :: cache and fn :: "'w blk_access_fn"
  by unfold_locales (rule cache_step_sim)

text \<open>C6: a whole run of legal accesses to an LRU or FIFO cache never fails, and ends with the lines
  that the abstract replacement policy leaves, set by set, and with every access counted once as
  a hit or a miss.\<close>

theorem cache_run_refines:
  assumes "cache_wf cp" and "cp_policy cp \<noteq> Random"
    and "\<forall>r \<in> set ops. access_check cp (op_addr r) (op_bytes r) = Inr ()"
  shows "\<exists>st. run (cache_step fn) (cp, w) ops = Inr st \<and> cache_wf (fst st)
    \<and> lines_of st = foldl (lines_step cp) (lines_of (cp, w)) ops"
proof -
  have "run_inv cp (cp, w)" using assms(1,2) by (simp add: run_inv_def same_params_def)
  from lru.run_sim [OF this admits_const [OF assms(3)], of fn] show ?thesis
    by (auto simp: run_inv_def)
qed

theorem cache_run_refines_witness:
  "\<exists>cp st. cache_create ''dl1'' 2 8 False 0 2 FIFO True 1 = Inr cp
    \<and> run (cache_step mem_fn) (cp, ())
        [\<lparr>op_cmd = Write, op_addr = 16, op_buf = [1, 2, 3, 4], op_bytes = 4, op_now = 0, op_rnd = 0\<rparr>,
         \<lparr>op_cmd = Read, op_addr = 16, op_buf = [0, 0, 0, 0], op_bytes = 4, op_now = 9, op_rnd = 0\<rparr>]
      = Inr st
    \<and> snd (lines_of st) = cp_hits cp + cp_misses cp + 2"
proof -
  obtain cp where cp: "cache_create ''dl1'' 2 8 False 0 (2 ^ 1) FIFO True 1 = Inr cp" "cache_wf cp"
    "cp_policy cp = FIFO" "access_check cp 16 4 = Inr ()" by (rule example_cache [of 1 FIFO]) auto
  from cache_run_refines [of cp "[\<lparr>op_cmd = Write, op_addr = 16, op_buf = [1, 2, 3, 4], op_bytes = 4,
        op_now = 0, op_rnd = 0\<rparr>, \<lparr>op_cmd = Read, op_addr = 16, op_buf = [0, 0, 0, 0], op_bytes = 4,
        op_now = 9, op_rnd = 0\<rparr>]" mem_fn "()"] cp
  show ?thesis by (fastforce simp: lines_step_def lines_of_def Let_def)
qed

end
