(* ===== verification/Memory.thy ===== *)
theory Memory
  imports CacheSet
begin

text \<open>
  The simulated memory (memory.c, memory.h): an inverted page table of hash buckets whose
  entries are linked lists kept in move-to-front order, pages allocated on first write, and
  the generic access and copy routines. Page table entries and pages are heap objects: a
  pointer is an index into \<open>mem_ptes\<close> or \<open>mem_pages\<close>. The target is not cross-endian
  (riscv.h), so \<open>MD_SWAPx\<close> is the identity. \<open>calloc\<close> is taken to succeed.
\<close>

subsection \<open>Data\<close>

datatype md_fault =
    fault_none | fault_access | fault_alignment | fault_overflow
  | fault_div0 | fault_break | fault_unimpl | fault_internal

record mem_pte =
  pte_next :: "nat option"
  pte_tag :: "64 word"
  pte_page :: nat

record mem_t =
  mem_name :: string
  mem_ptab :: "nat \<Rightarrow> nat option"
  mem_ptes :: "mem_pte list"
  mem_pages :: "8 word list list"
  mem_page_count :: "64 word"
  mem_ptab_misses :: "64 word"
  mem_ptab_accesses :: "64 word"

definition MD_PAGE_SIZE :: nat where "MD_PAGE_SIZE = 4096"
definition MEM_PTAB_SIZE :: nat where "MEM_PTAB_SIZE = 32 * 1024"

definition MEM_PTAB_SET :: "64 word \<Rightarrow> nat" where
  "MEM_PTAB_SET addr = unat (drop_bit 12 addr AND 32767)"

definition MEM_PTAB_TAG :: "64 word \<Rightarrow> 64 word" where
  "MEM_PTAB_TAG addr = drop_bit (12 + 15) addr"

definition MEM_PTE_ADDR :: "mem_pte \<Rightarrow> nat \<Rightarrow> 64 word" where
  "MEM_PTE_ADDR pte idx = push_bit (12 + 15) (pte_tag pte) OR push_bit 12 (of_nat idx)"

definition MEM_OFFSET :: "64 word \<Rightarrow> nat" where
  "MEM_OFFSET addr = unat (addr AND 4095)"

subsection \<open>Translation and allocation\<close>

definition mem_create :: "string \<Rightarrow> mem_t" where
  "mem_create name =
     \<lparr>mem_name = name, mem_ptab = (\<lambda>_. None), mem_ptes = [], mem_pages = [],
      mem_page_count = 0, mem_ptab_misses = 0, mem_ptab_accesses = 0\<rparr>"

definition mem_init :: "mem_t \<Rightarrow> mem_t" where
  "mem_init mem = mem\<lparr>mem_ptab := (\<lambda>i. if i < MEM_PTAB_SIZE then None else mem_ptab mem i),
     mem_page_count := 0, mem_ptab_misses := 0, mem_ptab_accesses := 0\<rparr>"

abbreviation pnx :: "mem_t \<Rightarrow> nat \<Rightarrow> nat option" where
  "pnx mem \<equiv> (\<lambda>p. pte_next (mem_ptes mem ! p))"

definition upd_pte :: "nat \<Rightarrow> (mem_pte \<Rightarrow> mem_pte) \<Rightarrow> mem_t \<Rightarrow> mem_t" where
  "upd_pte p f mem = mem\<lparr>mem_ptes := (mem_ptes mem)[p := f (mem_ptes mem ! p)]\<rparr>"

definition set_ptab :: "nat \<Rightarrow> nat option \<Rightarrow> mem_t \<Rightarrow> mem_t" where
  "set_ptab i p mem = mem\<lparr>mem_ptab := (mem_ptab mem)(i := p)\<rparr>"

definition tag_is :: "mem_t \<Rightarrow> 64 word \<Rightarrow> nat \<Rightarrow> bool" where
  "tag_is mem addr p \<longleftrightarrow> pte_tag (mem_ptes mem ! p) = MEM_PTAB_TAG addr"

definition mem_translate :: "mem_t \<Rightarrow> 64 word \<Rightarrow> (nat option \<times> mem_t) cres" where
  "mem_translate mem addr =
     (let st = MEM_PTAB_SET addr;
          m1 = mem\<lparr>mem_ptab_misses := mem_ptab_misses mem + 1,
                   mem_ptab_accesses := mem_ptab_accesses mem + 1\<rparr>
      in cbind (pscan (Suc (length (mem_ptes m1))) (tag_is m1 addr) (pnx m1) None (mem_ptab m1 st))
           (\<lambda>(prev, pte). case pte of
               None \<Rightarrow> Inr (None, m1)
             | Some e \<Rightarrow> Inr (Some (pte_page (mem_ptes m1 ! e)),
                 case prev of
                   None \<Rightarrow> m1
                 | Some q \<Rightarrow> set_ptab st (Some e)
                     (upd_pte e (pte_next_update (\<lambda>_. mem_ptab m1 st))
                       (upd_pte q (pte_next_update (\<lambda>_. pnx m1 e)) m1)))))"

definition MEM_PAGE :: "mem_t \<Rightarrow> 64 word \<Rightarrow> (nat option \<times> mem_t) cres" where
  "MEM_PAGE mem addr =
     (case mem_ptab mem (MEM_PTAB_SET addr) of
        Some e \<Rightarrow>
          if tag_is mem addr e
          then Inr (Some (pte_page (mem_ptes mem ! e)),
                    mem\<lparr>mem_ptab_accesses := mem_ptab_accesses mem + 1\<rparr>)
          else mem_translate mem addr
      | None \<Rightarrow> mem_translate mem addr)"

definition mem_newpage :: "mem_t \<Rightarrow> 64 word \<Rightarrow> mem_t" where
  "mem_newpage mem addr =
     (let st = MEM_PTAB_SET addr;
          pte = \<lparr>pte_next = mem_ptab mem st, pte_tag = MEM_PTAB_TAG addr,
                 pte_page = length (mem_pages mem)\<rparr>
      in mem\<lparr>mem_pages := mem_pages mem @ [replicate MD_PAGE_SIZE 0],
             mem_ptes := mem_ptes mem @ [pte],
             mem_ptab := (mem_ptab mem)(st := Some (length (mem_ptes mem))),
             mem_page_count := mem_page_count mem + 1\<rparr>)"

definition MEM_TICKLE :: "mem_t \<Rightarrow> 64 word \<Rightarrow> mem_t cres" where
  "MEM_TICKLE mem addr =
     cbind (MEM_PAGE mem addr) (\<lambda>(pg, m1).
     case pg of None \<Rightarrow> Inr (mem_newpage m1 addr) | Some _ \<Rightarrow> Inr m1)"

subsection \<open>Accessor macros\<close>

text \<open>
  \<open>MEM_READ\<close> and \<open>MEM_WRITE\<close> at a type of \<open>n\<close> bytes. Both translate the address twice, as
  the macros do. An access that runs over the end of its host page is out of bounds.
\<close>

definition page_read :: "8 word list \<Rightarrow> nat \<Rightarrow> nat \<Rightarrow> 8 word list cres" where
  "page_read pg off n =
     (if off + n \<le> length pg then Inr (take n (drop off pg)) else Inl OutOfBounds)"

definition page_write :: "8 word list \<Rightarrow> nat \<Rightarrow> 8 word list \<Rightarrow> 8 word list cres" where
  "page_write pg off bs =
     (if off + length bs \<le> length pg
      then Inr (take off pg @ bs @ drop (off + length bs) pg) else Inl OutOfBounds)"

definition MEM_READ :: "mem_t \<Rightarrow> 64 word \<Rightarrow> nat \<Rightarrow> (8 word list \<times> mem_t) cres" where
  "MEM_READ mem addr n =
     cbind (MEM_PAGE mem addr) (\<lambda>(pg, m1).
     case pg of
       None \<Rightarrow> Inr (replicate n 0, m1)
     | Some _ \<Rightarrow>
         cbind (MEM_PAGE m1 addr) (\<lambda>(pg2, m2).
         cbind (deref pg2) (\<lambda>g.
         cbind (page_read (mem_pages m2 ! g) (MEM_OFFSET addr) n) (\<lambda>bs. Inr (bs, m2)))))"

definition MEM_WRITE :: "mem_t \<Rightarrow> 64 word \<Rightarrow> 8 word list \<Rightarrow> mem_t cres" where
  "MEM_WRITE mem addr bs =
     cbind (MEM_TICKLE mem addr) (\<lambda>m1.
     cbind (MEM_PAGE m1 addr) (\<lambda>(pg, m2).
     cbind (deref pg) (\<lambda>g.
     cbind (page_write (mem_pages m2 ! g) (MEM_OFFSET addr) bs) (\<lambda>pg'.
     Inr (m2\<lparr>mem_pages := (mem_pages m2)[g := pg']\<rparr>)))))"

subsection \<open>The generic access function\<close>

fun read_loop :: "nat \<Rightarrow> mem_t \<Rightarrow> 64 word \<Rightarrow> 8 word list \<Rightarrow> nat \<Rightarrow> (8 word list \<times> mem_t) cres" where
  "read_loop 0 mem addr p i = Inr (p, mem)"
| "read_loop (Suc n) mem addr p i =
     cbind (MEM_READ mem addr 1) (\<lambda>(bs, m1).
     if i < length p then read_loop n m1 (addr + 1) (p[i := hd bs]) (i + 1) else Inl OutOfBounds)"

fun write_loop :: "nat \<Rightarrow> mem_t \<Rightarrow> 64 word \<Rightarrow> 8 word list \<Rightarrow> nat \<Rightarrow> mem_t cres" where
  "write_loop 0 mem addr p i = Inr mem"
| "write_loop (Suc n) mem addr p i =
     (if i < length p
      then cbind (MEM_WRITE mem addr [p ! i]) (\<lambda>m1. write_loop n m1 (addr + 1) p (i + 1))
      else Inl OutOfBounds)"

type_synonym 'm mem_access_fn =
  "'m \<Rightarrow> mem_cmd \<Rightarrow> 64 word \<Rightarrow> 8 word list \<Rightarrow> int \<Rightarrow> (md_fault \<times> 8 word list \<times> 'm) cres"

definition mem_access :: "mem_t mem_access_fn" where
  "mem_access mem cmd addr p nbytes =
     (if nbytes AND (nbytes - 1) \<noteq> 0 \<or> nbytes > int MD_PAGE_SIZE then Inr (fault_access, p, mem)
      else if addr AND word_of_int (nbytes - 1) \<noteq> 0 then Inr (fault_alignment, p, mem)
      else case cmd of
        Read \<Rightarrow> cbind (read_loop (nat nbytes) mem addr p 0) (\<lambda>(q, m1). Inr (fault_none, q, m1))
      | Write \<Rightarrow> cbind (write_loop (nat nbytes) mem addr p 0) (\<lambda>m1. Inr (fault_none, p, m1)))"

subsection \<open>Copies through an access function\<close>

text \<open>
  The copy routines take the access function as an argument, as in C: simulators pass their
  own. \<open>copy_loop\<close> is the loop of \<open>mem_bcopy\<close> (\<open>k = 1\<close>) and \<open>mem_bcopy4\<close> (\<open>k = 4\<close>).
\<close>

fun copy_loop :: "nat \<Rightarrow> 'm mem_access_fn \<Rightarrow> nat \<Rightarrow> 'm \<Rightarrow> mem_cmd \<Rightarrow> 64 word \<Rightarrow> 8 word list \<Rightarrow> nat
    \<Rightarrow> (md_fault \<times> 8 word list \<times> 'm) cres" where
  "copy_loop 0 mem_fn k mem cmd addr p i = Inr (fault_none, p, mem)"
| "copy_loop (Suc n) mem_fn k mem cmd addr p i =
     cbind (mem_fn mem cmd addr (drop i p) (int k)) (\<lambda>(fault, q, m1).
     let p' = take i p @ q in
     if fault \<noteq> fault_none then Inr (fault, p', m1)
     else copy_loop n mem_fn k m1 cmd (addr + of_nat k) p' (i + k))"

definition mem_bcopy :: "'m mem_access_fn \<Rightarrow> 'm mem_access_fn" where
  "mem_bcopy mem_fn mem cmd addr p nbytes = copy_loop (nat nbytes) mem_fn 1 mem cmd addr p 0"

definition mem_bcopy4 :: "'m mem_access_fn \<Rightarrow> 'm mem_access_fn" where
  "mem_bcopy4 mem_fn mem cmd addr p nbytes =
     copy_loop (nat (drop_bit 2 nbytes)) mem_fn 4 mem cmd addr p 0"

fun bzero_loop :: "nat \<Rightarrow> 'm mem_access_fn \<Rightarrow> 'm \<Rightarrow> 64 word \<Rightarrow> (md_fault \<times> 'm) cres" where
  "bzero_loop 0 mem_fn mem addr = Inr (fault_none, mem)"
| "bzero_loop (Suc n) mem_fn mem addr =
     cbind (mem_fn mem Write addr [0] 1) (\<lambda>(fault, q, m1).
     if fault \<noteq> fault_none then Inr (fault, m1) else bzero_loop n mem_fn m1 (addr + 1))"

definition mem_bzero :: "'m mem_access_fn \<Rightarrow> 'm \<Rightarrow> 64 word \<Rightarrow> int \<Rightarrow> (md_fault \<times> 'm) cres" where
  "mem_bzero mem_fn mem addr nbytes = bzero_loop (nat nbytes) mem_fn mem addr"

text \<open>
  \<open>mem_strcpy\<close>: the loops end at the string terminator only, so a fuel bounds them; the host
  buffer \<open>s\<close> is read and written at its own index.
\<close>

fun strcpy_read :: "nat \<Rightarrow> 'm mem_access_fn \<Rightarrow> 'm \<Rightarrow> 64 word \<Rightarrow> 8 word list \<Rightarrow> nat
    \<Rightarrow> (md_fault \<times> 8 word list \<times> 'm) cres" where
  "strcpy_read 0 mem_fn mem addr s i = Inl Diverge"
| "strcpy_read (Suc n) mem_fn mem addr s i =
     cbind (mem_fn mem Read addr [0] 1) (\<lambda>(fault, q, m1).
     if fault \<noteq> fault_none then Inr (fault, s, m1)
     else if i < length s then
       let c = hd q; s' = s[i := c] in
       if c = 0 then Inr (fault_none, s', m1)
       else strcpy_read n mem_fn m1 (addr + 1) s' (i + 1)
     else Inl OutOfBounds)"

fun strcpy_write :: "nat \<Rightarrow> 'm mem_access_fn \<Rightarrow> 'm \<Rightarrow> 64 word \<Rightarrow> 8 word list \<Rightarrow> nat
    \<Rightarrow> (md_fault \<times> 8 word list \<times> 'm) cres" where
  "strcpy_write 0 mem_fn mem addr s i = Inl Diverge"
| "strcpy_write (Suc n) mem_fn mem addr s i =
     (if i < length s then
        let c = s ! i in
        cbind (mem_fn mem Write addr [c] 1) (\<lambda>(fault, q, m1).
        if fault \<noteq> fault_none then Inr (fault, s, m1)
        else if c = 0 then Inr (fault_none, s, m1)
        else strcpy_write n mem_fn m1 (addr + 1) s (i + 1))
      else Inl OutOfBounds)"

definition mem_strcpy :: "nat \<Rightarrow> 'm mem_access_fn \<Rightarrow> 'm \<Rightarrow> mem_cmd \<Rightarrow> 64 word \<Rightarrow> 8 word list
    \<Rightarrow> (md_fault \<times> 8 word list \<times> 'm) cres" where
  "mem_strcpy fuel mem_fn mem cmd addr s =
     (case cmd of Read \<Rightarrow> strcpy_read fuel mem_fn mem addr s 0
                | Write \<Rightarrow> strcpy_write fuel mem_fn mem addr s 0)"

subsection \<open>The dump\<close>

text \<open>\<open>mem_dump\<close>, with the printed lines (address and four bytes) as its output.\<close>

fun dump_loop :: "nat \<Rightarrow> mem_t \<Rightarrow> 64 word \<Rightarrow> (64 word \<times> 8 word list) list
    \<Rightarrow> (md_fault \<times> (64 word \<times> 8 word list) list \<times> mem_t) cres" where
  "dump_loop 0 mem addr out = Inr (fault_none, out, mem)"
| "dump_loop (Suc n) mem addr out =
     cbind (mem_access mem Read addr (replicate 4 0) 4) (\<lambda>(fault, data, m1).
     if fault \<noteq> fault_none then Inr (fault, out, m1)
     else dump_loop n m1 (addr + 4) (out @ [(addr, data)]))"

definition mem_dump :: "mem_t \<Rightarrow> 64 word \<Rightarrow> 32 word
    \<Rightarrow> (md_fault \<times> (64 word \<times> 8 word list) list \<times> mem_t) cres" where
  "mem_dump mem addr len =
     (let addr' = addr AND NOT 4;
          len' = sint (ucast ((scast len + 3 :: 64 word) AND NOT 4) :: 32 word)
      in dump_loop (nat len') mem addr' [])"

end
