(* ===== verification/MemoryCorrect.thy ===== *)
theory MemoryCorrect
  imports Memory
begin

text \<open>
  Correctness of the simulated memory: the page table with its move-to-front buckets keeps
  its invariant and implements a function from addresses to bytes; the access function
  implements reads and writes of it; the copy routines are proved once, over the interface
  of a byte-accessible memory, and hold for the memory by interpretation.
\<close>

subsection \<open>The invariant and the abstract memory\<close>

definition mem_inv :: "mem_t \<Rightarrow> (nat \<Rightarrow> nat list) \<Rightarrow> bool" where
  "mem_inv mem bk \<longleftrightarrow>
     (\<forall>i < MEM_PTAB_SIZE. chain (pnx mem) (mem_ptab mem i) (bk i) \<and> distinct (bk i)
        \<and> set (bk i) \<subseteq> {..<length (mem_ptes mem)}
        \<and> inj_on (\<lambda>p. pte_tag (mem_ptes mem ! p)) (set (bk i)))
     \<and> (\<forall>i < MEM_PTAB_SIZE. \<forall>j < MEM_PTAB_SIZE. i \<noteq> j \<longrightarrow> set (bk i) \<inter> set (bk j) = {})
     \<and> inj_on (\<lambda>p. pte_page (mem_ptes mem ! p)) {..<length (mem_ptes mem)}
     \<and> (\<forall>p < length (mem_ptes mem). pte_page (mem_ptes mem ! p) < length (mem_pages mem))
     \<and> (\<forall>pg \<in> set (mem_pages mem). length pg = MD_PAGE_SIZE)"

definition mem_wf :: "mem_t \<Rightarrow> bool" where
  "mem_wf mem \<longleftrightarrow> (\<exists>bk. mem_inv mem bk)"

definition mem_lookup :: "mem_t \<Rightarrow> 64 word \<Rightarrow> nat option" where
  "mem_lookup mem addr =
     find (tag_is mem addr)
       (collect (length (mem_ptes mem)) (pnx mem) (mem_ptab mem (MEM_PTAB_SET addr)))"

definition mem_byte :: "mem_t \<Rightarrow> 64 word \<Rightarrow> 8 word" where
  "mem_byte mem addr =
     (case mem_lookup mem addr of
        None \<Rightarrow> 0
      | Some p \<Rightarrow> mem_pages mem ! pte_page (mem_ptes mem ! p) ! MEM_OFFSET addr)"

lemma MEM_PTAB_SET_less: "MEM_PTAB_SET addr < MEM_PTAB_SIZE"
  using unat_and_mask_less [of 15 "drop_bit 12 addr"]
  by (simp add: MEM_PTAB_SET_def MEM_PTAB_SIZE_def)

lemma MEM_OFFSET_less: "MEM_OFFSET addr < MD_PAGE_SIZE"
  using unat_and_mask_less [of 12 addr] by (simp add: MEM_OFFSET_def MD_PAGE_SIZE_def)

text \<open>Set, tag and offset together determine the address.\<close>

lemma addr_split:
  "addr = push_bit 27 (MEM_PTAB_TAG addr) OR push_bit 12 (of_nat (MEM_PTAB_SET addr))
     OR of_nat (MEM_OFFSET addr)"
proof (rule bit_word_eqI)
  fix n assume n: "n < LENGTH(64)"
  have m: "(32767 :: 64 word) = mask 15" "(4095 :: 64 word) = mask 12"
    by (simp_all add: mask_eq_exp_minus_1)
  show "bit addr n = bit (push_bit 27 (MEM_PTAB_TAG addr)
      OR push_bit 12 (of_nat (MEM_PTAB_SET addr)) OR of_nat (MEM_OFFSET addr)) n"
    using n unfolding MEM_PTAB_TAG_def MEM_PTAB_SET_def MEM_OFFSET_def m
    by (cases "n < 12"; cases "n < 27") (auto simp: bit_simps)
qed

lemma addr_eqI:
  "MEM_PTAB_SET a = MEM_PTAB_SET b \<Longrightarrow> MEM_PTAB_TAG a = MEM_PTAB_TAG b
    \<Longrightarrow> MEM_OFFSET a = MEM_OFFSET b \<Longrightarrow> a = b"
  using addr_split [of a] addr_split [of b] by simp

text \<open>A page table address is the first address of its page.\<close>

lemma MEM_PTE_ADDR_page:
  assumes "pte_tag pte = MEM_PTAB_TAG addr"
  shows "MEM_PTE_ADDR pte (MEM_PTAB_SET addr) = addr AND NOT 4095"
proof (rule bit_word_eqI)
  fix n assume n: "n < LENGTH(64)"
  have m: "(32767 :: 64 word) = mask 15" "(4095 :: 64 word) = mask 12"
    by (simp_all add: mask_eq_exp_minus_1)
  show "bit (MEM_PTE_ADDR pte (MEM_PTAB_SET addr)) n = bit (addr AND NOT 4095) n"
    using n unfolding MEM_PTE_ADDR_def assms MEM_PTAB_TAG_def MEM_PTAB_SET_def m
    by (cases "n < 12"; cases "n < 27") (auto simp: bit_simps)
qed

lemma mem_invD:
  assumes "mem_inv mem bk" "i < MEM_PTAB_SIZE"
  shows "chain (pnx mem) (mem_ptab mem i) (bk i)" "distinct (bk i)"
    "set (bk i) \<subseteq> {..<length (mem_ptes mem)}"
    "inj_on (\<lambda>p. pte_tag (mem_ptes mem ! p)) (set (bk i))"
    "length (bk i) \<le> length (mem_ptes mem)"
  using assms chain_bound [of "bk i"] unfolding mem_inv_def by blast+

lemma mem_lookup_bucket:
  assumes "mem_inv mem bk"
  shows "mem_lookup mem addr = find (tag_is mem addr) (bk (MEM_PTAB_SET addr))"
  unfolding mem_lookup_def
  using mem_invD [OF assms MEM_PTAB_SET_less, of addr] by (simp add: collect_chain)

lemma mem_lookup_Some:
  assumes "mem_inv mem bk" "mem_lookup mem addr = Some p"
  shows "p \<in> set (bk (MEM_PTAB_SET addr))" "tag_is mem addr p" "p < length (mem_ptes mem)"
    "pte_page (mem_ptes mem ! p) < length (mem_pages mem)"
proof -
  show p: "p \<in> set (bk (MEM_PTAB_SET addr))" "tag_is mem addr p"
    using assms by (auto simp: mem_lookup_bucket dest: find_Some_iff_nth_in)
  then show l: "p < length (mem_ptes mem)"
    using mem_invD(3) [OF assms(1) MEM_PTAB_SET_less, of addr] by auto
  then show "pte_page (mem_ptes mem ! p) < length (mem_pages mem)"
    using assms(1) by (simp add: mem_inv_def)
qed

lemma find_tag_unique:
  assumes "mem_inv mem bk" "p \<in> set (bk (MEM_PTAB_SET addr))" "q \<in> set (bk (MEM_PTAB_SET addr))"
    "tag_is mem addr p" "tag_is mem addr q"
  shows "p = q"
  by (rule inj_onD [OF mem_invD(4) [OF assms(1) MEM_PTAB_SET_less, of addr]])
    (use assms(2-5) in \<open>simp_all add: tag_is_def\<close>)

text \<open>
  What a translation may change: the order of a bucket and the counters. Such a change
  keeps every byte.
\<close>

definition same_pages :: "mem_t \<Rightarrow> mem_t \<Rightarrow> bool" where
  "same_pages m' m \<longleftrightarrow> mem_pages m' = mem_pages m \<and> mem_page_count m' = mem_page_count m
     \<and> length (mem_ptes m') = length (mem_ptes m)
     \<and> (\<forall>p. pte_tag (mem_ptes m' ! p) = pte_tag (mem_ptes m ! p)
          \<and> pte_page (mem_ptes m' ! p) = pte_page (mem_ptes m ! p))"

lemma same_pages_refl [simp]: "same_pages m m"
  by (simp add: same_pages_def)

lemma same_pages_trans: "same_pages a b \<Longrightarrow> same_pages b c \<Longrightarrow> same_pages a c"
  by (simp add: same_pages_def)

lemma tag_is_same: "same_pages m' m \<Longrightarrow> tag_is m' addr p = tag_is m addr p"
  by (simp add: same_pages_def tag_is_def)

lemma same_pages_lookup:
  assumes inv: "mem_inv m bk" and inv': "mem_inv m' bk'" and sp: "same_pages m' m"
    and sets: "\<And>i. i < MEM_PTAB_SIZE \<Longrightarrow> set (bk' i) = set (bk i)"
  shows "mem_lookup m' addr = mem_lookup m addr"
proof -
  let ?s = "MEM_PTAB_SET addr"
  have "tag_is m' addr = tag_is m addr" using sp by (simp add: fun_eq_iff tag_is_same)
  moreover have "find (tag_is m addr) (bk' ?s) = find (tag_is m addr) (bk ?s)"
    using sets [OF MEM_PTAB_SET_less, of addr] find_tag_unique [OF inv]
    by (intro find_unique) auto
  ultimately show ?thesis by (simp add: mem_lookup_bucket [OF inv] mem_lookup_bucket [OF inv'])
qed

lemma same_pages_byte:
  assumes "mem_inv m bk" "mem_inv m' bk'" "same_pages m' m"
    and "\<And>i. i < MEM_PTAB_SIZE \<Longrightarrow> set (bk' i) = set (bk i)"
  shows "mem_byte m' addr = mem_byte m addr"
  using same_pages_lookup [OF assms] assms(3)
  by (simp add: mem_byte_def same_pages_def split: option.split)

subsection \<open>Translation\<close>

lemma upd_pte_sel [simp]:
  "length (mem_ptes (upd_pte p f m)) = length (mem_ptes m)"
  "mem_ptab (upd_pte p f m) = mem_ptab m" "mem_pages (upd_pte p f m) = mem_pages m"
  "mem_page_count (upd_pte p f m) = mem_page_count m"
  by (simp_all add: upd_pte_def)

lemma set_ptab_sel [simp]:
  "mem_ptes (set_ptab i p m) = mem_ptes m" "mem_pages (set_ptab i p m) = mem_pages m"
  "mem_page_count (set_ptab i p m) = mem_page_count m"
  "mem_ptab (set_ptab i p m) = (mem_ptab m)(i := p)"
  by (simp_all add: set_ptab_def)

lemma pnx_upd: "p < length (mem_ptes m) \<Longrightarrow>
    pnx (upd_pte p (pte_next_update (\<lambda>_. v)) m) = (pnx m)(p := v)"
  by (auto simp: fun_eq_iff upd_pte_def nth_list_update)

lemma upd_pte_nth:
  "mem_ptes (upd_pte p f m) ! q
    = (if q = p \<and> p < length (mem_ptes m) then f (mem_ptes m ! p) else mem_ptes m ! q)"
  by (cases "p < length (mem_ptes m)") (auto simp: upd_pte_def nth_list_update list_update_beyond)

lemma same_pages_upd [simp]:
  "same_pages (upd_pte p (pte_next_update f) m) m' = same_pages m m'"
  "same_pages (set_ptab i q m) m' = same_pages m m'"
  by (auto simp: same_pages_def upd_pte_nth set_ptab_def)

lemma mem_inv_reorder:
  assumes inv: "mem_inv m bk" and sp: "same_pages m' m" and s: "s < MEM_PTAB_SIZE"
    and ch: "chain (pnx m') (mem_ptab m' s) xs" "set xs = set (bk s)" "distinct xs"
    and oth: "\<And>i. i \<noteq> s \<Longrightarrow> mem_ptab m' i = mem_ptab m i"
    and nx: "\<And>p. p \<notin> set (bk s) \<Longrightarrow> pnx m' p = pnx m p"
  shows "mem_inv m' (bk(s := xs))"
proof -
  have "chain (pnx m') (mem_ptab m' i) (bk i)" if "i < MEM_PTAB_SIZE" "i \<noteq> s" for i
  proof -
    have "set (bk i) \<inter> set (bk s) = {}" using inv that s by (simp add: mem_inv_def)
    then have "chain (pnx m') (mem_ptab m i) (bk i) = chain (pnx m) (mem_ptab m i) (bk i)"
      using nx by (intro chain_cong) blast
    then show ?thesis using mem_invD(1) [OF inv that(1)] oth [OF that(2)] by simp
  qed
  then show ?thesis
    using inv ch s sp unfolding mem_inv_def same_pages_def
    by (auto simp: inj_on_def)
qed

lemma mem_translate_result:
  assumes inv: "mem_inv mem bk"
  shows "\<exists>m' bk'. mem_translate mem addr
      = Inr (map_option (\<lambda>p. pte_page (mem_ptes mem ! p)) (mem_lookup mem addr), m')
    \<and> mem_inv m' bk' \<and> same_pages m' mem \<and> (\<forall>i < MEM_PTAB_SIZE. set (bk' i) = set (bk i))"
proof -
  define m1 where "m1 = mem\<lparr>mem_ptab_misses := mem_ptab_misses mem + 1,
                   mem_ptab_accesses := mem_ptab_accesses mem + 1\<rparr>"
  let ?s = "MEM_PTAB_SET addr"
  have inv1: "mem_inv m1 bk" and sp1: "same_pages m1 mem"
    using inv by (simp_all add: m1_def mem_inv_def same_pages_def)
  have m1: "mem_ptes m1 = mem_ptes mem" by (simp add: m1_def)
  note bd = mem_invD [OF inv1 MEM_PTAB_SET_less, of addr]
  have lk: "mem_lookup mem addr = find (tag_is m1 addr) (bk ?s)"
    using mem_lookup_bucket [OF inv, of addr] by (simp add: tag_is_def [abs_def] m1)
  show ?thesis
  proof (cases "mem_lookup mem addr")
    case None
    then have "\<forall>y \<in> set (bk ?s). \<not> tag_is m1 addr y" using lk by (simp add: find_None_iff_all)
    from pscan_none [OF bd(1) this, of "Suc (length (mem_ptes m1))" None] bd(5)
    have "mem_translate mem addr = Inr (None, m1)"
      by (simp add: mem_translate_def Let_def m1_def [symmetric])
    then show ?thesis using None inv1 sp1 by auto
  next
    case (Some e)
    then obtain ys zs where yz: "bk ?s = ys @ e # zs" "\<forall>y \<in> set ys. \<not> tag_is m1 addr y" "tag_is m1 addr e"
      using lk by (metis find_split_first)
    have sc: "pscan (Suc (length (mem_ptes m1))) (tag_is m1 addr) (pnx m1) None (mem_ptab m1 ?s)
        = Inr (if ys = [] then None else Some (last ys), Some e)"
      using bd(1,5) yz by (intro pscan_found [where zs = zs]) auto
    show ?thesis
    proof (cases "ys = []")
      case True
      then have "mem_translate mem addr = Inr (Some (pte_page (mem_ptes m1 ! e)), m1)"
        using sc by (simp add: mem_translate_def Let_def m1_def [symmetric])
      then show ?thesis using Some inv1 sp1 m1 by auto
    next
      case False
      define m2 where "m2 = set_ptab ?s (Some e) (upd_pte e (pte_next_update (\<lambda>_. mem_ptab m1 ?s))
          (upd_pte (last ys) (pte_next_update (\<lambda>_. pnx m1 e)) m1))"
      have tr: "mem_translate mem addr = Inr (Some (pte_page (mem_ptes m1 ! e)), m2)"
        using sc False by (simp add: mem_translate_def Let_def m1_def [symmetric] m2_def [symmetric])
      have in_b: "e < length (mem_ptes m1)" "last ys < length (mem_ptes m1)"
        using bd(3) yz(1) last_in_set [OF False] by auto
      have nx2: "pnx m2 = ((pnx m1)(last ys := pnx m1 e))(e := mem_ptab m1 ?s)"
        using in_b by (simp add: m2_def pnx_upd)
      have ch: "chain (pnx m2) (mem_ptab m2 ?s) (e # ys @ zs)"
        using chain_to_front [OF bd(1)[unfolded yz(1)] bd(2)[unfolded yz(1)] False]
        by (simp add: nx2) (simp add: m2_def)
      have sp2: "same_pages m2 m1" by (simp add: m2_def)
      have "mem_inv m2 (bk(?s := e # ys @ zs))"
      proof (rule mem_inv_reorder [OF inv1 sp2 MEM_PTAB_SET_less ch])
        show "set (e # ys @ zs) = set (bk ?s)" "distinct (e # ys @ zs)"
          using yz(1) bd(2) by auto
        show "\<And>i. i \<noteq> ?s \<Longrightarrow> mem_ptab m2 i = mem_ptab m1 i" by (simp add: m2_def)
        show "\<And>p. p \<notin> set (bk ?s) \<Longrightarrow> pnx m2 p = pnx m1 p"
          using last_in_set [OF False] fun_cong [OF nx2] by (auto simp: yz(1))
      qed
      moreover have "\<forall>i < MEM_PTAB_SIZE. set ((bk(?s := e # ys @ zs)) i) = set (bk i)"
        using yz(1) by auto
      moreover have "same_pages m2 mem" using sp2 sp1 by (rule same_pages_trans)
      ultimately show ?thesis using tr Some m1 by auto
    qed
  qed
qed

lemma MEM_PAGE_result:
  assumes inv: "mem_inv mem bk"
  shows "\<exists>m' bk'. MEM_PAGE mem addr
      = Inr (map_option (\<lambda>p. pte_page (mem_ptes mem ! p)) (mem_lookup mem addr), m')
    \<and> mem_inv m' bk' \<and> same_pages m' mem \<and> (\<forall>i < MEM_PTAB_SIZE. set (bk' i) = set (bk i))"
proof (cases "\<exists>e. mem_ptab mem (MEM_PTAB_SET addr) = Some e \<and> tag_is mem addr e")
  case True
  then obtain e where e: "mem_ptab mem (MEM_PTAB_SET addr) = Some e" "tag_is mem addr e" by blast
  let ?m = "mem\<lparr>mem_ptab_accesses := mem_ptab_accesses mem + 1\<rparr>"
  have "MEM_PAGE mem addr = Inr (Some (pte_page (mem_ptes mem ! e)), ?m)"
    using e by (simp add: MEM_PAGE_def)
  moreover have "mem_lookup mem addr = Some e"
    using mem_invD(1) [OF inv MEM_PTAB_SET_less, of addr] e
    by (cases "bk (MEM_PTAB_SET addr)") (auto simp: mem_lookup_bucket [OF inv])
  moreover have "mem_inv ?m bk" "same_pages ?m mem"
    using inv by (simp_all add: mem_inv_def same_pages_def)
  ultimately show ?thesis by auto
next
  case False
  then have "MEM_PAGE mem addr = mem_translate mem addr"
    by (auto simp: MEM_PAGE_def split: option.split)
  with mem_translate_result [OF inv, of addr] show ?thesis by simp
qed

subsection \<open>Allocation\<close>

lemma mem_newpage_result:
  assumes inv: "mem_inv mem bk" and none: "mem_lookup mem addr = None"
  shows "\<exists>bk'. mem_inv (mem_newpage mem addr) bk'
    \<and> mem_lookup (mem_newpage mem addr) addr = Some (length (mem_ptes mem))
    \<and> (\<forall>a. mem_byte (mem_newpage mem addr) a = mem_byte mem a)"
proof -
  let ?s = "MEM_PTAB_SET addr" and ?n = "length (mem_ptes mem)"
  define m' where "m' = mem_newpage mem addr"
  define bk' where "bk' = bk(?s := ?n # bk ?s)"
  have ptes: "mem_ptes m' ! p = (if p = ?n then \<lparr>pte_next = mem_ptab mem ?s,
      pte_tag = MEM_PTAB_TAG addr, pte_page = length (mem_pages mem)\<rparr> else mem_ptes mem ! p)"
    if "p \<le> ?n" for p
    using that by (auto simp: m'_def mem_newpage_def Let_def nth_append)
  have sel: "length (mem_ptes m') = Suc ?n" "mem_pages m' = mem_pages mem @ [replicate MD_PAGE_SIZE 0]"
    "mem_ptab m' = (mem_ptab mem)(?s := Some ?n)"
    by (simp_all add: m'_def mem_newpage_def Let_def)
  have new: "\<forall>y \<in> set (bk ?s). \<not> tag_is mem addr y"
    using none by (simp add: mem_lookup_bucket [OF inv] find_None_iff_all)
  have old: "p < ?n" if "p \<in> set (bk i)" "i < MEM_PTAB_SIZE" for p i
    using mem_invD(3) [OF inv that(2)] that(1) by auto
  have ch: "chain (pnx m') p (bk i) = chain (pnx mem) p (bk i)" if "i < MEM_PTAB_SIZE" for i p
    using old [OF _ that] by (intro chain_cong) (auto simp: ptes less_imp_le)
  have "chain (pnx m') (mem_ptab m' i) (bk' i) \<and> distinct (bk' i)
        \<and> set (bk' i) \<subseteq> {..<length (mem_ptes m')}
        \<and> inj_on (\<lambda>p. pte_tag (mem_ptes m' ! p)) (set (bk' i))" if i: "i < MEM_PTAB_SIZE" for i
  proof (cases "i = ?s")
    case True
    have "inj_on (\<lambda>p. pte_tag (mem_ptes m' ! p)) (insert ?n (set (bk ?s)))"
      using mem_invD(4) [OF inv i] True new old [OF _ i]
      by (auto simp: inj_on_def ptes less_imp_le tag_is_def)
    then show ?thesis
      using mem_invD(1,2) [OF inv i] True old [OF _ i]
      by (auto simp: bk'_def sel ch [OF MEM_PTAB_SET_less] ptes less_SucI)
  next
    case False
    have "inj_on (\<lambda>p. pte_tag (mem_ptes m' ! p)) (set (bk i))"
      using mem_invD(4) [OF inv i] old [OF _ i] by (auto simp: inj_on_def ptes less_imp_le)
    then show ?thesis
      using mem_invD(1,2) [OF inv i] False old [OF _ i]
      by (auto simp: bk'_def sel ch [OF i] less_SucI)
  qed
  moreover have "\<forall>i < MEM_PTAB_SIZE. \<forall>j < MEM_PTAB_SIZE. i \<noteq> j \<longrightarrow> set (bk' i) \<inter> set (bk' j) = {}"
    using inv old by (auto simp: bk'_def mem_inv_def)
  moreover have "inj_on (\<lambda>p. pte_page (mem_ptes m' ! p)) {..<length (mem_ptes m')}"
    using inv by (auto simp: mem_inv_def sel inj_on_def ptes less_Suc_eq_le) (metis le_neq_implies_less less_irrefl)+
  moreover have "\<forall>p < length (mem_ptes m'). pte_page (mem_ptes m' ! p) < length (mem_pages m')"
  proof (intro allI impI)
    fix p assume "p < length (mem_ptes m')"
    then consider "p = ?n" | "p < ?n" unfolding sel by linarith
    then show "pte_page (mem_ptes m' ! p) < length (mem_pages m')"
      using inv by cases (auto simp: ptes sel mem_inv_def less_SucI)
  qed
  moreover have "\<forall>pg \<in> set (mem_pages m'). length pg = MD_PAGE_SIZE"
    using inv by (auto simp: mem_inv_def sel)
  ultimately have inv': "mem_inv m' bk'" by (simp add: mem_inv_def)
  have lk: "mem_lookup m' a = (if MEM_PTAB_SET a = ?s \<and> MEM_PTAB_TAG a = MEM_PTAB_TAG addr
      then Some ?n else mem_lookup mem a)" for a
  proof -
    have "find (tag_is m' a) (bk (MEM_PTAB_SET a)) = find (tag_is mem a) (bk (MEM_PTAB_SET a))"
      using old [OF _ MEM_PTAB_SET_less, of _ a]
      by (intro find_cong) (auto simp: tag_is_def ptes less_imp_le)
    then show ?thesis
      by (auto simp: mem_lookup_bucket [OF inv'] mem_lookup_bucket [OF inv] bk'_def tag_is_def ptes)
  qed
  have "mem_byte m' a = mem_byte mem a" for a
  proof (cases "MEM_PTAB_SET a = ?s \<and> MEM_PTAB_TAG a = MEM_PTAB_TAG addr")
    case True
    then have "mem_lookup mem a = None"
      using none by (simp add: mem_lookup_bucket [OF inv] tag_is_def [abs_def])
    with True show ?thesis
      using MEM_OFFSET_less [of a] by (simp add: mem_byte_def lk sel ptes nth_append)
  next
    case False
    then have same: "mem_lookup m' a = mem_lookup mem a" unfolding lk by (rule if_not_P)
    show ?thesis
    proof (cases "mem_lookup mem a")
      case None
      then show ?thesis by (simp add: mem_byte_def same)
    next
      case (Some p)
      with mem_lookup_Some(3,4) [OF inv Some] show ?thesis
        by (simp add: mem_byte_def same sel ptes nth_append less_imp_le)
    qed
  qed
  with inv' lk show ?thesis unfolding m'_def by auto
qed

lemma MEM_TICKLE_result:
  assumes inv: "mem_inv mem bk"
  shows "\<exists>m' bk' p. MEM_TICKLE mem addr = Inr m' \<and> mem_inv m' bk' \<and> mem_lookup m' addr = Some p
    \<and> (\<forall>a. mem_byte m' a = mem_byte mem a)"
proof -
  obtain m1 bk1 where m1: "MEM_PAGE mem addr
      = Inr (map_option (\<lambda>p. pte_page (mem_ptes mem ! p)) (mem_lookup mem addr), m1)"
    "mem_inv m1 bk1" "same_pages m1 mem" "\<forall>i < MEM_PTAB_SIZE. set (bk1 i) = set (bk i)"
    using MEM_PAGE_result [OF inv, of addr] by blast
  have lk: "mem_lookup m1 a = mem_lookup mem a" and byt: "mem_byte m1 a = mem_byte mem a" for a
    using same_pages_lookup [OF inv m1(2,3)] same_pages_byte [OF inv m1(2,3)] m1(4) by auto
  show ?thesis
  proof (cases "mem_lookup mem addr")
    case None
    with mem_newpage_result [OF m1(2), of addr] m1(1) lk byt show ?thesis
      by (auto simp: MEM_TICKLE_def)
  next
    case (Some p)
    with m1 lk byt show ?thesis by (auto simp: MEM_TICKLE_def)
  qed
qed

subsection \<open>Reading and writing bytes\<close>

text \<open>The page of an allocated address and what it holds.\<close>

lemma page_of_lookup:
  assumes inv: "mem_inv mem bk" and p: "mem_lookup mem addr = Some p"
  shows "length (mem_pages mem ! pte_page (mem_ptes mem ! p)) = MD_PAGE_SIZE"
    and "mem_byte mem addr = mem_pages mem ! pte_page (mem_ptes mem ! p) ! MEM_OFFSET addr"
  using mem_lookup_Some(4) [OF inv p] inv p by (auto simp: mem_inv_def mem_byte_def)

subsection \<open>Blocks of bytes\<close>

definition get :: "(64 word \<Rightarrow> 8 word) \<Rightarrow> 64 word \<Rightarrow> nat \<Rightarrow> 8 word list" where
  "get f a n = map (\<lambda>i. f (a + of_nat i)) [0..<n]"

fun put :: "(64 word \<Rightarrow> 8 word) \<Rightarrow> 64 word \<Rightarrow> 8 word list \<Rightarrow> 64 word \<Rightarrow> 8 word" where
  "put f a [] = f"
| "put f a (b # bs) = put (f(a := b)) (a + 1) bs"

lemma length_get [simp]: "length (get f a n) = n"
  by (simp add: get_def)

lemma get_0 [simp]: "get f a 0 = []"
  by (simp add: get_def)

lemma get_Suc: "get f a (Suc n) = f a # get f (a + 1) n"
  by (simp add: get_def upt_conv_Cons map_Suc_upt [symmetric] add.assoc del: upt_Suc)

lemma get_add: "get f a (m + n) = get f a m @ get f (a + of_nat m) n"
proof (induction m arbitrary: a)
  case 0
  then show ?case by simp
next
  case (Suc m)
  then show ?case by (simp add: get_Suc ac_simps)
qed

lemma put_append: "put f a (bs @ cs) = put (put f a bs) (a + of_nat (length bs)) cs"
  by (induction bs arbitrary: f a) (simp_all add: ac_simps)

lemma put_outside: "\<forall>i < length bs. x \<noteq> a + of_nat i \<Longrightarrow> put f a bs x = f x"
proof (induction bs arbitrary: f a)
  case Nil
  then show ?case by simp
next
  case (Cons b bs)
  have "\<forall>i < length bs. x \<noteq> a + 1 + of_nat i"
  proof (intro allI impI)
    fix i assume "i < length bs"
    then show "x \<noteq> a + 1 + of_nat i" using Cons.prems [rule_format, of "Suc i"] by (simp add: ac_simps)
  qed
  have "x \<noteq> a" using Cons.prems [rule_format, of 0] by simp
  have "put f a (b # bs) x = put (f(a := b)) (a + 1) bs x" by (simp only: put.simps)
  also have "\<dots> = (f(a := b)) x" by (rule Cons.IH) fact
  also have "\<dots> = f x" using \<open>x \<noteq> a\<close> by simp
  finally show ?case .
qed

lemma get_put:
  assumes "length bs \<le> 2 ^ 64"
  shows "get (put f a bs) a (length bs) = bs"
  using assms
proof (induction bs arbitrary: f a)
  case Nil
  then show ?case by simp
next
  case (Cons b bs)
  have "\<forall>i < length bs. a \<noteq> a + 1 + of_nat i"
  proof (intro allI impI notI)
    fix i assume i: "i < length bs" and "a = a + 1 + of_nat i"
    then have "of_nat (Suc i) = (0 :: 64 word)" by (simp add: add.assoc)
    then have "2 ^ 64 dvd Suc i" by (simp add: word_of_nat_eq_0_iff del: of_nat_Suc)
    then show False using i Cons.prems by (auto dest: dvd_imp_le)
  qed
  then have "put (f(a := b)) (a + 1) bs a = b" by (subst put_outside) auto
  with Cons show ?case by (simp add: get_Suc)
qed

text \<open>Inside a page, an address and a displacement add without a carry.\<close>

lemma MEM_OFFSET_mod: "MEM_OFFSET a = unat a mod 4096"
proof -
  have "unat (take_bit 12 a) = unat a mod 2 ^ 12"
    by (simp only: unsigned_take_bit_eq) (simp only: take_bit_eq_mod)
  then show ?thesis by (simp add: MEM_OFFSET_def take_bit_eq_mask mask_eq_exp_minus_1)
qed

lemma in_page:
  assumes "MEM_OFFSET a + i < MD_PAGE_SIZE"
  shows "MEM_OFFSET (a + of_nat i) = MEM_OFFSET a + i"
    "MEM_PTAB_SET (a + of_nat i) = MEM_PTAB_SET a" "MEM_PTAB_TAG (a + of_nat i) = MEM_PTAB_TAG a"
proof -
  have a: "unat a mod 4096 + i < 4096" "unat a = unat a div 4096 * 4096 + unat a mod 4096"
    using assms by (simp_all add: MEM_OFFSET_mod MD_PAGE_SIZE_def)
  moreover have "unat a div 4096 < 4503599627370496"
    using unsigned_less [of a, where ?'a = nat] by (simp add: less_mult_imp_div_less)
  ultimately have le: "unat a + i < 18446744073709551616" by linarith
  then have u: "unat (a + of_nat i) = unat a + i" by (simp add: unat_word_ariths unat_of_nat)
  have d: "(q * 4096 + r + i) div 4096 = q" "(q * 4096 + r + i) mod 4096 = r + i" if "r + i < 4096" for q r :: nat
    using that by (simp_all add: add.assoc)
  note d = d [OF a(1), of "unat a div 4096", folded a(2)]
  show "MEM_OFFSET (a + of_nat i) = MEM_OFFSET a + i" by (simp add: MEM_OFFSET_mod u d)
  have "unat (drop_bit 12 x) = unat x div 4096" for x :: "64 word"
    using unsigned_less [of x, where ?'a = nat]
    by (simp only: unsigned_drop_bit_eq) (simp add: drop_bit_eq_div take_bit_nat_eq_self)
  then have dp: "drop_bit 12 (a + of_nat i) = drop_bit 12 a"
    by (simp add: word_unat_eq_iff u d)
  then show "MEM_PTAB_SET (a + of_nat i) = MEM_PTAB_SET a" by (simp add: MEM_PTAB_SET_def)
  have "MEM_PTAB_TAG x = drop_bit 15 (drop_bit 12 x)" for x
    by (simp only: MEM_PTAB_TAG_def drop_bit_drop_bit add.commute)
  with dp show "MEM_PTAB_TAG (a + of_nat i) = MEM_PTAB_TAG a" by (simp only:)
qed

lemma put_in_page:
  "MEM_OFFSET a + length bs \<le> MD_PAGE_SIZE \<Longrightarrow> put f a bs x
    = (if MEM_PTAB_SET x = MEM_PTAB_SET a \<and> MEM_PTAB_TAG x = MEM_PTAB_TAG a
          \<and> MEM_OFFSET a \<le> MEM_OFFSET x \<and> MEM_OFFSET x < MEM_OFFSET a + length bs
       then bs ! (MEM_OFFSET x - MEM_OFFSET a) else f x)"
proof (induction bs arbitrary: f a)
  case (Cons b bs)
  have eq: "x = a \<longleftrightarrow> MEM_PTAB_SET x = MEM_PTAB_SET a \<and> MEM_PTAB_TAG x = MEM_PTAB_TAG a
    \<and> MEM_OFFSET x = MEM_OFFSET a" using addr_eqI by blast
  show ?case
  proof (cases "bs = []")
    case True
    then show ?thesis by (auto simp: eq)
  next
    case False
    then have "MEM_OFFSET a + 1 < MD_PAGE_SIZE" using Cons.prems by (cases bs) auto
    note a1 = in_page [OF this, unfolded of_nat_1]
    have len: "MEM_OFFSET (a + 1) + length bs \<le> MD_PAGE_SIZE" using Cons.prems by (simp only: a1) simp
    have "put f a (b # bs) x = put (f(a := b)) (a + 1) bs x" by (simp only: put.simps)
    also have "\<dots>
      = (if MEM_PTAB_SET x = MEM_PTAB_SET a \<and> MEM_PTAB_TAG x = MEM_PTAB_TAG a
            \<and> MEM_OFFSET a + 1 \<le> MEM_OFFSET x \<and> MEM_OFFSET x < MEM_OFFSET a + 1 + length bs
         then bs ! (MEM_OFFSET x - (MEM_OFFSET a + 1)) else (f(a := b)) x)"
      using Cons.IH [OF len, of "f(a := b)"] by (simp only: a1)
    finally show ?thesis
    proof (cases "x = a")
      case False
      then have "MEM_OFFSET x \<noteq> MEM_OFFSET a"
        if "MEM_PTAB_SET x = MEM_PTAB_SET a" "MEM_PTAB_TAG x = MEM_PTAB_TAG a" using that addr_eqI by blast
      moreover assume "put f a (b # bs) x = (if MEM_PTAB_SET x = MEM_PTAB_SET a
        \<and> MEM_PTAB_TAG x = MEM_PTAB_TAG a \<and> MEM_OFFSET a + 1 \<le> MEM_OFFSET x
        \<and> MEM_OFFSET x < MEM_OFFSET a + 1 + length bs
        then bs ! (MEM_OFFSET x - (MEM_OFFSET a + 1)) else (f(a := b)) x)"
      ultimately show ?thesis using False by (auto simp: nth_Cons' simp del: put.simps)
    qed (simp del: put.simps)
  qed
qed auto

lemma nth_patch:
  "off + length bs \<le> length pg \<Longrightarrow> i < length pg
    \<Longrightarrow> (take off pg @ bs @ drop (off + length bs) pg) ! i
      = (if off \<le> i \<and> i < off + length bs then bs ! (i - off) else pg ! i)"
  by (auto simp: nth_append)

lemma get_in_page:
  assumes inv: "mem_inv mem bk" and n: "MEM_OFFSET addr + n \<le> MD_PAGE_SIZE"
  shows "get (mem_byte mem) addr n = (case mem_lookup mem addr of None \<Rightarrow> replicate n 0
    | Some p \<Rightarrow> take n (drop (MEM_OFFSET addr) (mem_pages mem ! pte_page (mem_ptes mem ! p))))"
proof -
  have off: "MEM_OFFSET (addr + of_nat i) = MEM_OFFSET addr + i"
    and lk: "mem_lookup mem (addr + of_nat i) = mem_lookup mem addr" if "i < n" for i
    using in_page [of addr i] that n by (simp_all add: mem_lookup_def tag_is_def [abs_def])
  show ?thesis
  proof (cases "mem_lookup mem addr")
    case None
    then show ?thesis by (intro nth_equalityI) (simp_all add: get_def mem_byte_def lk)
  next
    case (Some p)
    then show ?thesis using n page_of_lookup(1) [OF inv Some]
      by (intro nth_equalityI) (simp_all add: get_def mem_byte_def lk off)
  qed
qed

lemma MEM_READ_bytes:
  assumes inv: "mem_inv mem bk" and n: "MEM_OFFSET addr + n \<le> MD_PAGE_SIZE"
  shows "\<exists>m' bk'. MEM_READ mem addr n = Inr (get (mem_byte mem) addr n, m') \<and> mem_inv m' bk'
    \<and> (\<forall>a. mem_byte m' a = mem_byte mem a)"
proof -
  obtain m1 bk1 where m1: "MEM_PAGE mem addr
      = Inr (map_option (\<lambda>p. pte_page (mem_ptes mem ! p)) (mem_lookup mem addr), m1)"
    "mem_inv m1 bk1" "same_pages m1 mem" "\<forall>i < MEM_PTAB_SIZE. set (bk1 i) = set (bk i)"
    using MEM_PAGE_result [OF inv, of addr] by blast
  have lk1: "mem_lookup m1 a = mem_lookup mem a" and b1: "mem_byte m1 a = mem_byte mem a" for a
    using same_pages_lookup [OF inv m1(2,3)] same_pages_byte [OF inv m1(2,3)] m1(4) by auto
  show ?thesis
  proof (cases "mem_lookup mem addr")
    case None
    then show ?thesis using m1 b1 by (auto simp: MEM_READ_def get_in_page [OF inv n])
  next
    case (Some p)
    obtain m2 bk2 where m2: "MEM_PAGE m1 addr
        = Inr (map_option (\<lambda>p. pte_page (mem_ptes m1 ! p)) (mem_lookup m1 addr), m2)"
      "mem_inv m2 bk2" "same_pages m2 m1" "\<forall>i < MEM_PTAB_SIZE. set (bk2 i) = set (bk1 i)"
      using MEM_PAGE_result [OF m1(2), of addr] by blast
    have b2: "mem_byte m2 a = mem_byte mem a" for a
      using same_pages_byte [OF m1(2) m2(2,3)] m2(4) b1 by simp
    let ?pg = "mem_pages mem ! pte_page (mem_ptes mem ! p)"
    have pg: "mem_pages m2 = mem_pages mem" "pte_page (mem_ptes m1 ! p) = pte_page (mem_ptes mem ! p)"
      using m1(3) m2(3) by (simp_all add: same_pages_def)
    have "page_read ?pg (MEM_OFFSET addr) n = Inr (get (mem_byte mem) addr n)"
      using page_of_lookup(1) [OF inv Some] n get_in_page [OF inv n] Some by (simp add: page_read_def)
    then have "MEM_READ mem addr n = Inr (get (mem_byte mem) addr n, m2)"
      using m1(1) m2(1) Some lk1 pg by (simp add: MEM_READ_def)
    then show ?thesis using m2(2) b2 by blast
  qed
qed

lemma MEM_WRITE_bytes:
  assumes inv: "mem_inv mem bk" and n: "MEM_OFFSET addr + length bs \<le> MD_PAGE_SIZE"
  shows "\<exists>m' bk'. MEM_WRITE mem addr bs = Inr m' \<and> mem_inv m' bk'
    \<and> (\<forall>a. mem_byte m' a = put (mem_byte mem) addr bs a)"
proof -
  obtain m1 bk1 p where m1: "MEM_TICKLE mem addr = Inr m1" "mem_inv m1 bk1" "mem_lookup m1 addr = Some p"
    "\<forall>a. mem_byte m1 a = mem_byte mem a" using MEM_TICKLE_result [OF inv] by blast
  obtain m2 bk2 where m2: "MEM_PAGE m1 addr
      = Inr (map_option (\<lambda>p. pte_page (mem_ptes m1 ! p)) (mem_lookup m1 addr), m2)"
    "mem_inv m2 bk2" "same_pages m2 m1" "\<forall>i < MEM_PTAB_SIZE. set (bk2 i) = set (bk1 i)"
    using MEM_PAGE_result [OF m1(2), of addr] by blast
  have lk2: "mem_lookup m2 a = mem_lookup m1 a" and b2: "mem_byte m2 a = mem_byte mem a" for a
    using same_pages_lookup [OF m1(2) m2(2,3)] same_pages_byte [OF m1(2) m2(2,3)] m2(4) m1(4) by auto
  have p2: "mem_lookup m2 addr = Some p" using lk2 m1(3) by simp
  define g where "g = pte_page (mem_ptes m2 ! p)"
  define off where "off = MEM_OFFSET addr"
  have g1: "pte_page (mem_ptes m1 ! p) = g" using m2(3) by (simp add: g_def same_pages_def)
  have gl: "g < length (mem_pages m2)" using mem_lookup_Some(4) [OF m2(2) p2] by (simp add: g_def)
  have pl: "length (mem_pages m2 ! g) = MD_PAGE_SIZE" and off: "off < MD_PAGE_SIZE"
    using page_of_lookup(1) [OF m2(2) p2] MEM_OFFSET_less by (simp_all add: g_def off_def)
  define m3 where "m3 = m2\<lparr>mem_pages := (mem_pages m2)[g := take off (mem_pages m2 ! g) @ bs @ drop (off + length bs) (mem_pages m2 ! g)]\<rparr>"
  have len: "off + length bs \<le> MD_PAGE_SIZE" using n by (simp add: off_def)
  then have "page_write (mem_pages m2 ! g) off bs
      = Inr (take off (mem_pages m2 ! g) @ bs @ drop (off + length bs) (mem_pages m2 ! g))"
    using pl by (simp add: page_write_def)
  then have w: "MEM_WRITE mem addr bs = Inr m3"
    using m1(1) m2(1) m1(3) g1 by (simp add: MEM_WRITE_def off_def m3_def)
  have inv3: "mem_inv m3 bk2"
    using m2(2) pl len by (auto simp: mem_inv_def m3_def dest!: set_update_subset_insert [THEN subsetD])
  have lk3: "mem_lookup m3 a = mem_lookup m2 a" for a
    by (simp add: mem_lookup_def m3_def tag_is_def [abs_def])
  have "mem_byte m3 a = put (mem_byte m2) addr bs a" for a
  proof (cases "mem_lookup m2 a")
    case None
    then have "\<not> (MEM_PTAB_SET a = MEM_PTAB_SET addr \<and> MEM_PTAB_TAG a = MEM_PTAB_TAG addr)"
      using p2 by (auto simp: mem_lookup_def tag_is_def [abs_def])
    with None lk3 put_in_page [OF n] show ?thesis by (auto simp: mem_byte_def)
  next
    case (Some q)
    show ?thesis
    proof (cases "pte_page (mem_ptes m2 ! q) = g")
      case True
      have ql: "q < length (mem_ptes m2)" "p < length (mem_ptes m2)"
        using mem_lookup_Some(3) [OF m2(2)] Some p2 by auto
      with True m2(2) have qp: "q = p" by (auto simp: mem_inv_def g_def dest: inj_onD)
      have "MEM_PTAB_SET a = MEM_PTAB_SET addr"
      proof (rule ccontr)
        assume "MEM_PTAB_SET a \<noteq> MEM_PTAB_SET addr"
        then have "set (bk2 (MEM_PTAB_SET a)) \<inter> set (bk2 (MEM_PTAB_SET addr)) = {}"
          using m2(2) MEM_PTAB_SET_less by (simp add: mem_inv_def)
        with mem_lookup_Some(1) [OF m2(2) Some] mem_lookup_Some(1) [OF m2(2) p2] qp
        show False by blast
      qed
      moreover have "MEM_PTAB_TAG a = MEM_PTAB_TAG addr"
        using mem_lookup_Some(2) [OF m2(2) Some] mem_lookup_Some(2) [OF m2(2) p2] qp
        by (simp add: tag_is_def)
      moreover have "MEM_OFFSET a < MD_PAGE_SIZE" by (rule MEM_OFFSET_less)
      ultimately show ?thesis using Some lk3 True gl pl len put_in_page [OF n]
        by (simp add: mem_byte_def m3_def off_def nth_patch)
    next
      case False
      then have "\<not> (MEM_PTAB_SET a = MEM_PTAB_SET addr \<and> MEM_PTAB_TAG a = MEM_PTAB_TAG addr)"
        using Some p2 by (auto simp: g_def mem_lookup_def tag_is_def [abs_def])
      with Some lk3 False put_in_page [OF n] show ?thesis by (auto simp: mem_byte_def m3_def)
    qed
  qed
  moreover have "mem_byte m2 = mem_byte mem" using b2 by (simp add: fun_eq_iff)
  ultimately show ?thesis using w inv3 by (intro exI [of _ m3] exI [of _ bk2]) simp
qed

lemma MEM_READ_byte:
  assumes inv: "mem_inv mem bk"
  shows "\<exists>m' bk'. MEM_READ mem addr 1 = Inr ([mem_byte mem addr], m') \<and> mem_inv m' bk'
    \<and> (\<forall>a. mem_byte m' a = mem_byte mem a)"
  using MEM_READ_bytes [OF inv, of addr 1] MEM_OFFSET_less [of addr] by (simp add: get_Suc)

lemma MEM_WRITE_byte:
  assumes inv: "mem_inv mem bk"
  shows "\<exists>m' bk'. MEM_WRITE mem addr [v] = Inr m' \<and> mem_inv m' bk'
    \<and> (\<forall>a. mem_byte m' a = (if a = addr then v else mem_byte mem a))"
  using MEM_WRITE_bytes [OF inv, of addr "[v]"] MEM_OFFSET_less [of addr] by simp

end
