(* ===== verification/MemoryProps.thy ===== *)
theory MemoryProps
  imports MemoryCorrect
begin

text \<open>
  The interface of a byte-accessible memory as a locale, the copy routines proved over it,
  its interpretation on \<open>mem_access\<close>, and the properties of the memory module.
\<close>

subsection \<open>The interface\<close>

locale byte_memory =
  fixes inv :: "'m \<Rightarrow> bool"
    and view :: "'m \<Rightarrow> 64 word \<Rightarrow> 8 word"
    and mem_fn :: "'m mem_access_fn"
  assumes read1: "inv m \<Longrightarrow> p \<noteq> [] \<Longrightarrow> \<exists>m'. mem_fn m Read a p 1
      = Inr (fault_none, view m a # tl p, m') \<and> inv m' \<and> view m' = view m"
    and write1: "inv m \<Longrightarrow> \<exists>m'. mem_fn m Write a (v # p) 1 = Inr (fault_none, v # p, m')
      \<and> inv m' \<and> view m' = (view m)(a := v)"
begin

lemma copy_read:
  "inv m \<Longrightarrow> i + n \<le> length p \<Longrightarrow> \<exists>m'. copy_loop n mem_fn 1 m Read a p i
    = Inr (fault_none, take i p @ get (view m) a n @ drop (i + n) p, m') \<and> inv m' \<and> view m' = view m"
proof (induction n arbitrary: m a p i)
  case 0
  then show ?case by auto
next
  case (Suc n)
  then have ne: "drop i p \<noteq> []" by simp
  obtain m1 where m1: "mem_fn m Read a (drop i p) 1 = Inr (fault_none, view m a # tl (drop i p), m1)"
    "inv m1" "view m1 = view m" using read1 [OF Suc.prems(1) ne] by blast
  let ?q = "take i p @ view m a # tl (drop i p)"
  have len: "i + 1 + n \<le> length ?q" using Suc.prems(2) by simp
  obtain m2 where "copy_loop n mem_fn 1 m1 Read (a + 1) ?q (i + 1)
      = Inr (fault_none, take (i + 1) ?q @ get (view m1) (a + 1) n @ drop (i + 1 + n) ?q, m2)"
    "inv m2" "view m2 = view m1" using Suc.IH [OF m1(2) len] by blast
  moreover have "take (i + 1) ?q = take i p @ [view m a]" using Suc.prems(2) by simp
  moreover have "drop (i + 1 + n) ?q = drop (i + Suc n) p"
    using Suc.prems(2) by (simp add: tl_drop drop_Suc [symmetric] ac_simps)
  ultimately show ?case using m1 by (simp add: get_Suc)
qed

lemma copy_write:
  "inv m \<Longrightarrow> i + n \<le> length p \<Longrightarrow> \<exists>m'. copy_loop n mem_fn 1 m Write a p i = Inr (fault_none, p, m')
    \<and> inv m' \<and> view m' = put (view m) a (take n (drop i p))"
proof (induction n arbitrary: m a i)
  case 0
  then show ?case by auto
next
  case (Suc n)
  then have d: "drop i p = p ! i # drop (i + 1) p" by (simp add: Cons_nth_drop_Suc)
  obtain m1 where m1: "mem_fn m Write a (drop i p) 1 = Inr (fault_none, drop i p, m1)"
    "inv m1" "view m1 = (view m)(a := p ! i)" using write1 [OF Suc.prems(1)] d by metis
  have len: "i + 1 + n \<le> length p" using Suc.prems(2) by simp
  obtain m2 where "copy_loop n mem_fn 1 m1 Write (a + 1) p (i + 1) = Inr (fault_none, p, m2)"
    and m2: "inv m2" "view m2 = put (view m1) (a + 1) (take n (drop (i + 1) p))"
    using Suc.IH [OF m1(2) len] by blast
  then have "copy_loop (Suc n) mem_fn 1 m Write a p i = Inr (fault_none, p, m2)"
    using m1(1) by simp
  moreover have "view m2 = put (view m) a (take (Suc n) (drop i p))"
    unfolding d m2(2) m1(3) take_Suc_Cons put.simps ..
  ultimately show ?case using m2(1) by blast
qed

lemma bzero:
  "inv m \<Longrightarrow> \<exists>m'. bzero_loop n mem_fn m a = Inr (fault_none, m') \<and> inv m'
    \<and> view m' = put (view m) a (replicate n 0)"
proof (induction n arbitrary: m a)
  case 0
  then show ?case by auto
next
  case (Suc n)
  obtain m1 where m1: "mem_fn m Write a [0] 1 = Inr (fault_none, [0], m1)" "inv m1"
    "view m1 = (view m)(a := 0)" using write1 [OF Suc.prems] by blast
  obtain m2 where "bzero_loop n mem_fn m1 (a + 1) = Inr (fault_none, m2)"
    and m2: "inv m2" "view m2 = put (view m1) (a + 1) (replicate n 0)"
    using Suc.IH [OF m1(2)] by blast
  then have "bzero_loop (Suc n) mem_fn m a = Inr (fault_none, m2)" using m1(1) by simp
  moreover have "view m2 = put (view m) a (replicate (Suc n) 0)"
    unfolding m2(2) m1(3) replicate.simps put.simps ..
  ultimately show ?case using m2(1) by blast
qed

lemma strcpy_out:
  "inv m \<Longrightarrow> drop i s = bs @ 0 # rest \<Longrightarrow> 0 \<notin> set bs \<Longrightarrow> length bs < n
    \<Longrightarrow> \<exists>m'. strcpy_write n mem_fn m a s i = Inr (fault_none, s, m') \<and> inv m'
      \<and> view m' = put (view m) a (bs @ [0])"
proof (induction bs arbitrary: m a i n)
  case Nil
  then obtain k where k: "n = Suc k" by (cases n) auto
  have i: "i < length s" "s ! i = 0"
    using Nil.prems(2) by (auto simp: nth_via_drop intro: ccontr)
  obtain m1 where "mem_fn m Write a [0] 1 = Inr (fault_none, [0], m1)" "inv m1"
    "view m1 = (view m)(a := 0)" using write1 [OF Nil.prems(1)] by blast
  then show ?case using i k by (auto simp: Let_def)
next
  case (Cons b bs)
  then obtain k where k: "n = Suc k" by (cases n) auto
  have i: "i < length s" "s ! i = b"
    using Cons.prems(2) by (auto simp: nth_via_drop intro: ccontr)
  have d: "drop (i + 1) s = bs @ 0 # rest"
    using Cons.prems(2) by (metis Suc_eq_plus1 append_Cons drop_Suc list.sel(3) tl_drop)
  obtain m1 where m1: "mem_fn m Write a [b] 1 = Inr (fault_none, [b], m1)" "inv m1"
    "view m1 = (view m)(a := b)" using write1 [OF Cons.prems(1)] by blast
  have nb: "0 \<notin> set bs" "length bs < k" using Cons.prems k by auto
  obtain m2 where "strcpy_write k mem_fn m1 (a + 1) s (i + 1) = Inr (fault_none, s, m2)" "inv m2"
    "view m2 = put (view m1) (a + 1) (bs @ [0])" using Cons.IH [OF m1(2) d nb] by blast
  then show ?case using i k m1 Cons.prems(3) by (auto simp: Let_def)
qed

lemma strcpy_in:
  "inv m \<Longrightarrow> 0 \<notin> set (get (view m) a n) \<Longrightarrow> view m (a + of_nat n) = 0 \<Longrightarrow> i + n < length s
    \<Longrightarrow> n < fuel \<Longrightarrow> \<exists>m'. strcpy_read fuel mem_fn m a s i
      = Inr (fault_none, take i s @ get (view m) a n @ 0 # drop (i + n + 1) s, m') \<and> inv m'
      \<and> view m' = view m"
proof (induction n arbitrary: m a i s fuel)
  case 0
  then obtain k where k: "fuel = Suc k" by (cases fuel) auto
  obtain m1 where "mem_fn m Read a [0] 1 = Inr (fault_none, [view m a], m1)" "inv m1" "view m1 = view m"
    using read1 [OF "0.prems"(1), of "[0]" a] by auto
  then show ?case using 0 k by (auto simp: Let_def upd_conv_take_nth_drop)
next
  case (Suc n)
  then obtain k where k: "fuel = Suc k" by (cases fuel) auto
  obtain m1 where m1: "mem_fn m Read a [0] 1 = Inr (fault_none, [view m a], m1)" "inv m1" "view m1 = view m"
    using read1 [OF Suc.prems(1), of "[0]" a] by auto
  let ?s = "s[i := view m a]"
  have il: "i < length s" using Suc.prems(4) by simp
  have pre: "0 \<notin> set (get (view m1) (a + 1) n)" "view m1 (a + 1 + of_nat n) = 0"
    "i + 1 + n < length ?s" "n < k"
    using Suc.prems m1(3) k by (auto simp: get_Suc ac_simps)
  obtain m2 where "strcpy_read k mem_fn m1 (a + 1) ?s (i + 1)
      = Inr (fault_none, take (i + 1) ?s @ get (view m1) (a + 1) n @ 0 # drop (i + 1 + n + 1) ?s, m2)"
    "inv m2" "view m2 = view m1" using Suc.IH [OF m1(2) pre] by blast
  moreover have "take (i + 1) ?s = take i s @ [view m a]" "drop (i + 1 + n + 1) ?s = drop (i + Suc n + 1) s"
    using il by (simp_all add: take_Suc_conv_app_nth)
  ultimately show ?case using Suc.prems(2) m1 il k by (auto simp: get_Suc Let_def)
qed

end

text \<open>The interface with aligned four-byte accesses, which \<open>mem_bcopy4\<close> needs.\<close>

lemma align4_next:
  assumes "(a :: 64 word) AND 3 = 0"
  shows "(a + 4) AND 3 = 0"
proof -
  have m: "x AND 3 = take_bit 2 x" for x :: "64 word" by (simp add: take_bit_eq_mask mask_eq_exp_minus_1)
  have i: "take_bit 2 x = 0 \<longleftrightarrow> uint x mod 4 = 0" for x :: "64 word"
    by (simp add: word_uint_eq_iff take_bit_eq_mod uint_mod_distrib)
  have "uint (a + 4) mod 4 = (uint a + 4) mod 2 ^ 64 mod 4"
    by (simp add: uint_word_ariths)
  also have "\<dots> = uint a mod 4" by (simp add: mod_mod_cancel)
  finally show ?thesis using assms by (simp add: m i)
qed

locale word_memory = byte_memory inv view mem_fn
  for inv :: "'m \<Rightarrow> bool" and view :: "'m \<Rightarrow> 64 word \<Rightarrow> 8 word" and mem_fn :: "'m mem_access_fn" +
  assumes read4: "inv m \<Longrightarrow> a AND 3 = 0 \<Longrightarrow> 4 \<le> length p \<Longrightarrow> \<exists>m'. mem_fn m Read a p 4
      = Inr (fault_none, get (view m) a 4 @ drop 4 p, m') \<and> inv m' \<and> view m' = view m"
    and write4: "inv m \<Longrightarrow> a AND 3 = 0 \<Longrightarrow> 4 \<le> length p \<Longrightarrow> \<exists>m'. mem_fn m Write a p 4
      = Inr (fault_none, p, m') \<and> inv m' \<and> view m' = put (view m) a (take 4 p)"
begin

lemma copy4_read:
  "inv m \<Longrightarrow> a AND 3 = 0 \<Longrightarrow> i + 4 * n \<le> length p \<Longrightarrow> \<exists>m'. copy_loop n mem_fn 4 m Read a p i
    = Inr (fault_none, take i p @ get (view m) a (4 * n) @ drop (i + 4 * n) p, m')
      \<and> inv m' \<and> view m' = view m"
proof (induction n arbitrary: m a p i)
  case 0
  then show ?case by auto
next
  case (Suc n)
  then have len4: "4 \<le> length (drop i p)" by simp
  obtain m1 where m1: "mem_fn m Read a (drop i p) 4 = Inr (fault_none, get (view m) a 4 @ drop 4 (drop i p), m1)"
    "inv m1" "view m1 = view m" using read4 [OF Suc.prems(1,2) len4] by blast
  let ?q = "take i p @ get (view m) a 4 @ drop 4 (drop i p)"
  have len: "i + 4 + 4 * n \<le> length ?q" using Suc.prems(3) by simp
  obtain m2 where "copy_loop n mem_fn 4 m1 Read (a + 4) ?q (i + 4)
      = Inr (fault_none, take (i + 4) ?q @ get (view m1) (a + 4) (4 * n) @ drop (i + 4 + 4 * n) ?q, m2)"
    "inv m2" "view m2 = view m1" using Suc.IH [OF m1(2) align4_next [OF Suc.prems(2)] len] by blast
  moreover have "take (i + 4) ?q = take i p @ get (view m) a 4" using Suc.prems(3) by simp
  moreover have "drop (i + 4 + 4 * n) ?q = drop (i + 4 * Suc n) p"
    using Suc.prems(3) by (simp add: ac_simps)
  moreover have "get (view m) a (4 * Suc n) = get (view m) a 4 @ get (view m) (a + 4) (4 * n)"
    using get_add [of "view m" a 4 "4 * n"] by simp
  ultimately show ?case using m1 by simp
qed

lemma copy4_write:
  "inv m \<Longrightarrow> a AND 3 = 0 \<Longrightarrow> i + 4 * n \<le> length p \<Longrightarrow> \<exists>m'. copy_loop n mem_fn 4 m Write a p i
    = Inr (fault_none, p, m') \<and> inv m' \<and> view m' = put (view m) a (take (4 * n) (drop i p))"
proof (induction n arbitrary: m a i)
  case 0
  then show ?case by auto
next
  case (Suc n)
  then have len4: "4 \<le> length (drop i p)" by simp
  obtain m1 where m1: "mem_fn m Write a (drop i p) 4 = Inr (fault_none, drop i p, m1)"
    "inv m1" "view m1 = put (view m) a (take 4 (drop i p))"
    using write4 [OF Suc.prems(1,2) len4] by blast
  have len: "i + 4 + 4 * n \<le> length p" using Suc.prems(3) by simp
  obtain m2 where "copy_loop n mem_fn 4 m1 Write (a + 4) p (i + 4) = Inr (fault_none, p, m2)"
    and m2: "inv m2" "view m2 = put (view m1) (a + 4) (take (4 * n) (drop (i + 4) p))"
    using Suc.IH [OF m1(2) align4_next [OF Suc.prems(2)] len] by blast
  then have "copy_loop (Suc n) mem_fn 4 m Write a p i = Inr (fault_none, p, m2)"
    using m1(1) by simp
  moreover have "take (4 * Suc n) (drop i p) = take 4 (drop i p) @ take (4 * n) (drop (i + 4) p)"
    using take_add [of 4 "4 * n" "drop i p"] by (simp add: ac_simps)
  then have "view m2 = put (view m) a (take (4 * Suc n) (drop i p))"
    using m2(2) m1(3) len4 by (simp add: put_append)
  ultimately show ?case using m2(1) by blast
qed

end

subsection \<open>The memory provides the interface\<close>

lemma read_loop_result:
  "mem_inv mem bk \<Longrightarrow> i + n \<le> length p \<Longrightarrow> \<exists>m' bk'. read_loop n mem a p i
    = Inr (take i p @ get (mem_byte mem) a n @ drop (i + n) p, m') \<and> mem_inv m' bk'
      \<and> mem_byte m' = mem_byte mem"
proof (induction n arbitrary: mem bk a p i)
  case 0
  then show ?case by auto
next
  case (Suc n)
  obtain m1 bk1 where m1: "MEM_READ mem a 1 = Inr ([mem_byte mem a], m1)" "mem_inv m1 bk1"
    "mem_byte m1 = mem_byte mem" using MEM_READ_byte [OF Suc.prems(1), of a] by (auto simp: fun_eq_iff)
  let ?q = "p[i := mem_byte mem a]"
  have il: "i < length p" using Suc.prems(2) by simp
  have len: "i + 1 + n \<le> length ?q" using Suc.prems(2) by simp
  obtain m2 bk2 where "read_loop n m1 (a + 1) ?q (i + 1)
      = Inr (take (i + 1) ?q @ get (mem_byte m1) (a + 1) n @ drop (i + 1 + n) ?q, m2)"
    "mem_inv m2 bk2" "mem_byte m2 = mem_byte m1" using Suc.IH [OF m1(2) len] by blast
  moreover have "take (i + 1) ?q = take i p @ [mem_byte mem a]" "drop (i + 1 + n) ?q = drop (i + Suc n) p"
    using il by (simp_all add: take_Suc_conv_app_nth)
  ultimately show ?case using m1 il by (auto simp: get_Suc)
qed

lemma write_loop_result:
  "mem_inv mem bk \<Longrightarrow> i + n \<le> length p \<Longrightarrow> \<exists>m' bk'. write_loop n mem a p i = Inr m'
    \<and> mem_inv m' bk' \<and> mem_byte m' = put (mem_byte mem) a (take n (drop i p))"
proof (induction n arbitrary: mem bk a i)
  case 0
  then show ?case by auto
next
  case (Suc n)
  then have d: "drop i p = p ! i # drop (i + 1) p" and il: "i < length p"
    by (simp_all add: Cons_nth_drop_Suc)
  obtain m1 bk1 where m1: "MEM_WRITE mem a [p ! i] = Inr m1" "mem_inv m1 bk1"
    "mem_byte m1 = (mem_byte mem)(a := p ! i)"
    using MEM_WRITE_byte [OF Suc.prems(1), of a "p ! i"] by (auto simp: fun_upd_def fun_eq_iff)
  have len: "i + 1 + n \<le> length p" using Suc.prems(2) by simp
  obtain m2 bk2 where "write_loop n m1 (a + 1) p (i + 1) = Inr m2"
    and m2: "mem_inv m2 bk2" "mem_byte m2 = put (mem_byte m1) (a + 1) (take n (drop (i + 1) p))"
    using Suc.IH [OF m1(2) len] by blast
  then have "write_loop (Suc n) mem a p i = Inr m2" using m1(1) il by simp
  moreover have "mem_byte m2 = put (mem_byte mem) a (take (Suc n) (drop i p))"
    unfolding d m2(2) m1(3) take_Suc_Cons put.simps ..
  ultimately show ?case using m2(1) by blast
qed

text \<open>A legal access reads or writes its bytes.\<close>

definition legal_access :: "64 word \<Rightarrow> int \<Rightarrow> bool" where
  "legal_access a n \<longleftrightarrow> n AND (n - 1) = 0 \<and> n \<le> int MD_PAGE_SIZE \<and> a AND word_of_int (n - 1) = 0"

lemma mem_access_read:
  assumes "mem_wf mem" "legal_access a n" "nat n \<le> length p"
  shows "\<exists>m'. mem_access mem Read a p n
      = Inr (fault_none, get (mem_byte mem) a (nat n) @ drop (nat n) p, m')
    \<and> mem_wf m' \<and> mem_byte m' = mem_byte mem"
proof -
  obtain bk where "mem_inv mem bk" using assms(1) by (auto simp: mem_wf_def)
  from read_loop_result [OF this, of 0 "nat n" p a] assms(2,3) show ?thesis
    by (auto simp: mem_access_def legal_access_def mem_wf_def)
qed

lemma mem_access_write:
  assumes "mem_wf mem" "legal_access a n" "nat n \<le> length p"
  shows "\<exists>m'. mem_access mem Write a p n = Inr (fault_none, p, m')
    \<and> mem_wf m' \<and> mem_byte m' = put (mem_byte mem) a (take (nat n) p)"
proof -
  obtain bk where "mem_inv mem bk" using assms(1) by (auto simp: mem_wf_def)
  from write_loop_result [OF this, of 0 "nat n" p a] assms(2,3) show ?thesis
    by (auto simp: mem_access_def legal_access_def mem_wf_def)
qed

lemma legal_1_4 [simp]: "legal_access a 1" "legal_access a 4 \<longleftrightarrow> a AND 3 = 0"
  by (simp_all add: legal_access_def MD_PAGE_SIZE_def)

interpretation target: word_memory mem_wf mem_byte mem_access
proof unfold_locales
  fix m :: mem_t and p :: "8 word list" and a v
  assume wf: "mem_wf m"
  show "\<exists>m'. mem_access m Read a p 1 = Inr (fault_none, mem_byte m a # tl p, m') \<and> mem_wf m'
      \<and> mem_byte m' = mem_byte m" if "p \<noteq> []"
    using mem_access_read [OF wf, of a 1 p] that by (auto simp: get_Suc drop_Suc Suc_le_eq)
  show "\<exists>m'. mem_access m Write a (v # p) 1 = Inr (fault_none, v # p, m') \<and> mem_wf m'
      \<and> mem_byte m' = (mem_byte m)(a := v)"
    using mem_access_write [OF wf, of a 1 "v # p"] by auto
  show "\<exists>m'. mem_access m Read a p 4 = Inr (fault_none, get (mem_byte m) a 4 @ drop 4 p, m')
      \<and> mem_wf m' \<and> mem_byte m' = mem_byte m" if "a AND 3 = 0" "4 \<le> length p"
    using mem_access_read [OF wf, of a 4 p] that by auto
  show "\<exists>m'. mem_access m Write a p 4 = Inr (fault_none, p, m') \<and> mem_wf m'
      \<and> mem_byte m' = put (mem_byte m) a (take 4 p)" if "a AND 3 = 0" "4 \<le> length p"
    using mem_access_write [OF wf, of a 4 p] that by auto
qed

lemma mem_create_inv: "mem_inv (mem_create name) (\<lambda>_. [])"
  by (simp add: mem_inv_def mem_create_def)

lemma mem_create_wf: "mem_wf (mem_create name)"
  using mem_create_inv by (auto simp: mem_wf_def)

lemma mem_create_byte: "mem_byte (mem_create name) a = 0"
  by (simp add: mem_byte_def mem_lookup_bucket [OF mem_create_inv])

subsection \<open>Properties\<close>

text \<open>C9: the generic access function implements a function from addresses to bytes. It faults on
  sizes that are not a power of two or exceed a page and on misaligned addresses, changing
  nothing; a legal read returns the bytes and keeps the memory, a legal write stores them, and
  no access fails in any other way.\<close>

theorem mem_access_refines:
  assumes "mem_wf mem" and "nat nbytes \<le> length p"
  shows "\<exists>fault q mem'. mem_access mem cmd addr p nbytes = Inr (fault, q, mem') \<and> mem_wf mem'
    \<and> (if nbytes AND (nbytes - 1) \<noteq> 0 \<or> nbytes > int MD_PAGE_SIZE
       then fault = fault_access \<and> q = p \<and> mem' = mem
       else if addr AND word_of_int (nbytes - 1) \<noteq> 0
       then fault = fault_alignment \<and> q = p \<and> mem' = mem
       else fault = fault_none
         \<and> q = (case cmd of Read \<Rightarrow> get (mem_byte mem) addr (nat nbytes) @ drop (nat nbytes) p
                          | Write \<Rightarrow> p)
         \<and> mem_byte mem' = (case cmd of Read \<Rightarrow> mem_byte mem
                                       | Write \<Rightarrow> put (mem_byte mem) addr (take (nat nbytes) p)))"
proof (cases "legal_access addr nbytes")
  case True
  with mem_access_read [OF assms(1) True assms(2)] mem_access_write [OF assms(1) True assms(2)]
  show ?thesis by (cases cmd) (auto simp: legal_access_def)
next
  case False
  then show ?thesis using assms(1) by (auto simp: legal_access_def mem_access_def)
qed

theorem mem_access_refines_witness:
  "\<exists>mem'. mem_access (mem_create ''mem'') Write 0x1000 [1, 2, 3, 4] 4
      = Inr (fault_none, [1, 2, 3, 4], mem') \<and> mem_byte mem' 0x1002 = 3"
  using mem_access_refines [of "mem_create ''mem''" 4 "[1, 2, 3, 4]" Write "0x1000"]
  by (auto simp: mem_create_wf MD_PAGE_SIZE_def)

text \<open>C15: copying a buffer into the memory and copying the same number of bytes back returns the
  buffer, whatever the pages involved; every other byte keeps its value.\<close>

theorem mem_bcopy_roundtrip:
  assumes "mem_wf mem" and "length p < 2 ^ 31" and "length q = length p"
  shows "\<exists>mem1 mem2. mem_bcopy mem_access mem Write addr p (int (length p)) = Inr (fault_none, p, mem1)
    \<and> mem_bcopy mem_access mem1 Read addr q (int (length p)) = Inr (fault_none, p, mem2)
    \<and> mem_wf mem2
    \<and> (\<forall>a. (\<forall>i < length p. a \<noteq> addr + of_nat i) \<longrightarrow> mem_byte mem2 a = mem_byte mem a)"
proof -
  obtain m1 where m1: "copy_loop (length p) mem_access 1 mem Write addr p 0 = Inr (fault_none, p, m1)"
    "mem_wf m1" "mem_byte m1 = put (mem_byte mem) addr p"
    using target.copy_write [OF assms(1), of 0 "length p" p addr] by auto
  obtain m2 where m2: "copy_loop (length p) mem_access 1 m1 Read addr q 0
      = Inr (fault_none, get (mem_byte m1) addr (length p), m2)" "mem_wf m2" "mem_byte m2 = mem_byte m1"
    using target.copy_read [OF m1(2), of 0 "length p" q addr] assms(3) by auto
  have "length p \<le> 2 ^ 64" using assms(2) by simp
  with m1 m2 show ?thesis by (auto simp: mem_bcopy_def get_put put_outside)
qed

theorem mem_bcopy_roundtrip_witness:
  "\<exists>mem1 mem2. mem_bcopy mem_access (mem_create ''mem'') Write 0xfff [7, 8, 9] 3
      = Inr (fault_none, [7, 8, 9], mem1)
    \<and> mem_bcopy mem_access mem1 Read 0xfff [0, 0, 0] 3 = Inr (fault_none, [7, 8, 9], mem2)"
  using mem_bcopy_roundtrip [of "mem_create ''mem''" "[7, 8, 9]" "[0, 0, 0]" "0xfff"]
  by (auto simp: mem_create_wf)

text \<open>A terminated string copied out to the memory and back in returns the string with its
  terminator; both loops end within the length of the string plus one, and only that many
  bytes of the host buffer are written.\<close>

theorem mem_strcpy_roundtrip:
  assumes "mem_wf mem" and "0 \<notin> set s" and "length s < fuel" and "length s < length buf"
    and "length s < 2 ^ 63"
  shows "\<exists>mem1 mem2. mem_strcpy fuel mem_access mem Write addr (s @ 0 # rest)
      = Inr (fault_none, s @ 0 # rest, mem1)
    \<and> mem_strcpy fuel mem_access mem1 Read addr buf
      = Inr (fault_none, s @ 0 # drop (length s + 1) buf, mem2) \<and> mem_wf mem2"
proof -
  obtain m1 where m1: "strcpy_write fuel mem_access mem addr (s @ 0 # rest) 0
      = Inr (fault_none, s @ 0 # rest, m1)" "mem_wf m1" "mem_byte m1 = put (mem_byte mem) addr (s @ [0])"
    using target.strcpy_out [OF assms(1), of 0 "s @ 0 # rest" s rest fuel addr] assms(2,3) by auto
  have "get (mem_byte m1) addr (length (s @ [0])) = s @ [0]"
    unfolding m1(3) by (rule get_put) (use assms(5) in simp)
  then have g: "get (mem_byte m1) addr (length s) = s" "mem_byte m1 (addr + of_nat (length s)) = 0"
    using get_add [of "mem_byte m1" addr "length s" 1] by (auto simp: get_Suc)
  obtain m2 where "strcpy_read fuel mem_access m1 addr buf 0
      = Inr (fault_none, s @ 0 # drop (length s + 1) buf, m2)" "mem_wf m2"
    using target.strcpy_in [OF m1(2), of addr "length s" 0 buf fuel] assms(2-4) g by auto
  with m1 show ?thesis by (auto simp: mem_strcpy_def)
qed

theorem mem_strcpy_roundtrip_witness:
  "\<exists>mem1 mem2. mem_strcpy 3 mem_access (mem_create ''mem'') Write 0x2000 [0x68, 0x69, 0]
      = Inr (fault_none, [0x68, 0x69, 0], mem1)
    \<and> mem_strcpy 3 mem_access mem1 Read 0x2000 [9, 9, 9, 9] = Inr (fault_none, [0x68, 0x69, 0, 9], mem2)"
  using mem_strcpy_roundtrip [of "mem_create ''mem''" "[0x68, 0x69]" 3 "[9, 9, 9, 9]" "0x2000" "[]"]
  by (auto simp: mem_create_wf)

text \<open>On aligned addresses the faster word copy moves the same bytes as the byte copy.\<close>

theorem mem_bcopy4_agrees:
  assumes "mem_wf mem" and "addr AND 3 = 0" and "length p = 4 * n"
  shows "\<exists>mem1 mem2 q. mem_bcopy4 mem_access mem cmd addr p (int (4 * n)) = Inr (fault_none, q, mem1)
    \<and> mem_bcopy mem_access mem cmd addr p (int (4 * n)) = Inr (fault_none, q, mem2)
    \<and> mem_wf mem1 \<and> mem_wf mem2 \<and> mem_byte mem1 = mem_byte mem2"
proof -
  have w: "nat (drop_bit 2 (4 * int n)) = n" "nat (4 * int n) = 4 * n"
    by (simp_all add: drop_bit_eq_div)
  show ?thesis
  proof (cases cmd)
    case Read
    from target.copy4_read [OF assms(1,2), of 0 n p] target.copy_read [OF assms(1), of 0 "4 * n" p addr]
    show ?thesis using assms(3) Read by (auto simp: mem_bcopy4_def mem_bcopy_def w)
  next
    case Write
    from target.copy4_write [OF assms(1,2), of 0 n p] target.copy_write [OF assms(1), of 0 "4 * n" p addr]
    show ?thesis using assms(3) Write by (auto simp: mem_bcopy4_def mem_bcopy_def w)
  qed
qed

theorem mem_bcopy4_agrees_witness:
  "\<exists>mem1 mem2 q. mem_bcopy4 mem_access (mem_create ''mem'') Write 0x1ffc [1, 2, 3, 4, 5, 6, 7, 8] 8
      = Inr (fault_none, q, mem1)
    \<and> mem_bcopy mem_access (mem_create ''mem'') Write 0x1ffc [1, 2, 3, 4, 5, 6, 7, 8] 8
      = Inr (fault_none, q, mem2)
    \<and> mem_byte mem1 = mem_byte mem2"
  using mem_bcopy4_agrees [of "mem_create ''mem''" "0x1ffc" "[1, 2, 3, 4, 5, 6, 7, 8]" 2 Write]
  by (auto simp: mem_create_wf)

text \<open>zeroing a block clears exactly its bytes.\<close>

theorem mem_bzero_zeroes:
  assumes "mem_wf mem" and "n < 2 ^ 31"
  shows "\<exists>mem'. mem_bzero mem_access mem addr (int n) = Inr (fault_none, mem') \<and> mem_wf mem'
    \<and> get (mem_byte mem') addr n = replicate n 0
    \<and> (\<forall>a. (\<forall>i < n. a \<noteq> addr + of_nat i) \<longrightarrow> mem_byte mem' a = mem_byte mem a)"
proof -
  obtain m' where m: "bzero_loop n mem_access mem addr = Inr (fault_none, m')" "mem_wf m'"
    "mem_byte m' = put (mem_byte mem) addr (replicate n 0)"
    using target.bzero [OF assms(1)] by blast
  moreover have "get (mem_byte m') addr n = replicate n 0"
    using get_put [of "replicate n 0" "mem_byte mem" addr] assms(2) by (simp add: m(3))
  ultimately show ?thesis by (auto simp: mem_bzero_def put_outside)
qed

theorem mem_bzero_zeroes_witness:
  "\<exists>mem'. mem_bzero mem_access (mem_create ''mem'') 0xffe 4 = Inr (fault_none, mem')
    \<and> get (mem_byte mem') 0xffe 4 = [0, 0, 0, 0]"
proof -
  have "replicate 4 (0 :: 8 word) = [0, 0, 0, 0]" by (simp add: numeral_eq_Suc)
  with mem_bzero_zeroes [of "mem_create ''mem''" 4 "0xffe"] show ?thesis
    by (auto simp: mem_create_wf)
qed

text \<open>\<open>mem_dump\<close> clears bit 2 of the address where aligning it would clear bits 0 and 1: it
  faults on a misaligned address, and otherwise starts at the address with bit 2 cleared, so
  that an aligned word with that bit set is not the first one printed.\<close>

theorem mem_dump_mask:
  assumes "mem_wf mem"
  shows "\<exists>fault out mem'. mem_dump mem addr 4 = Inr (fault, out, mem')
    \<and> (if addr AND 3 \<noteq> 0 then fault = fault_alignment \<and> out = []
       else fault = fault_none \<and> map fst out = [addr AND NOT 4, (addr AND NOT 4) + 4, (addr AND NOT 4) + 8])"
proof -
  let ?a = "addr AND NOT 4"
  have m: "(3 :: 64 word) = mask 2" "(4 :: 64 word) = push_bit 2 1"
    by (simp_all add: mask_eq_exp_minus_1 push_bit_eq_mult)
  have same: "?a AND 3 = addr AND 3"
    unfolding m by (rule bit_word_eqI) (auto simp: bit_simps simp del: push_bit_numeral push_bit_of_1)
  have dump: "mem_dump mem addr 4 = dump_loop 3 mem ?a []" by (simp add: mem_dump_def)
  show ?thesis
  proof (cases "addr AND 3 = 0")
    case False
    then have "mem_access mem Read ?a (replicate 4 0) 4 = Inr (fault_alignment, replicate 4 0, mem)"
      using same by (simp add: mem_access_def MD_PAGE_SIZE_def)
    then have "dump_loop 3 mem ?a [] = Inr (fault_alignment, [], mem)"
      unfolding numeral_3_eq_3 by simp
    then show ?thesis using False dump by simp
  next
    case True
    then have al: "?a AND 3 = 0" "(?a + 4) AND 3 = 0" "(?a + 4 + 4) AND 3 = 0"
      using same by (simp_all only: align4_next)
    obtain m1 d1 where 1: "mem_access mem Read ?a (replicate 4 0) 4 = Inr (fault_none, d1, m1)" "mem_wf m1"
      using mem_access_read [OF assms, of ?a 4 "replicate 4 0"] al(1) by auto
    obtain m2 d2 where 2: "mem_access m1 Read (?a + 4) (replicate 4 0) 4 = Inr (fault_none, d2, m2)" "mem_wf m2"
      using mem_access_read [OF 1(2), of "?a + 4" 4 "replicate 4 0"] al(2) by auto
    obtain m3 d3 where 3: "mem_access m2 Read (?a + 4 + 4) (replicate 4 0) 4 = Inr (fault_none, d3, m3)"
      using mem_access_read [OF 2(2), of "?a + 4 + 4" 4 "replicate 4 0"] al(3) by auto
    have "mem_dump mem addr 4 = dump_loop 3 mem ?a []" by (rule dump)
    also have "\<dots> = Inr (fault_none, [(?a, d1), (?a + 4, d2), (?a + 4 + 4, d3)], m3)"
      unfolding numeral_3_eq_3 using 1 2 3 by simp
    finally show ?thesis using True by (simp add: add.assoc)
  qed
qed

theorem mem_dump_mask_witness:
  "\<exists>fault out mem'. mem_dump (mem_create ''mem'') 0x1004 4 = Inr (fault, out, mem')
    \<and> map fst out = [0x1000, 0x1004, 0x1008]"
  using mem_dump_mask [of "mem_create ''mem''" "0x1004"] by (auto simp: mem_create_wf)

end
