(* ===== verification/InsnFlags.thy ===== *)
theory InsnFlags
  imports CPrelude
begin

text \<open>
  The flags that riscv.h gives the opcodes of a row of riscv.def, as the predictors, the
  scheduler and the instruction table use them.
\<close>

definition F_ICOMP :: "32 word" where "F_ICOMP = 0x1"
definition F_FCOMP :: "32 word" where "F_FCOMP = 0x2"
definition F_CTRL :: "32 word" where "F_CTRL = 0x4"
definition F_UNCOND :: "32 word" where "F_UNCOND = 0x8"
definition F_COND :: "32 word" where "F_COND = 0x10"
definition F_MEM :: "32 word" where "F_MEM = 0x20"
definition F_LOAD :: "32 word" where "F_LOAD = 0x40"
definition F_STORE :: "32 word" where "F_STORE = 0x80"
definition F_DISP :: "32 word" where "F_DISP = 0x100"
definition F_TRAP :: "32 word" where "F_TRAP = 0x800"
definition F_LONGLAT :: "32 word" where "F_LONGLAT = 0x1000"
definition F_DIRJMP :: "32 word" where "F_DIRJMP = 0x2000"
definition F_INDIRJMP :: "32 word" where "F_INDIRJMP = 0x4000"
definition F_CALL :: "32 word" where "F_CALL = 0x8000"
definition F_IMM :: "32 word" where "F_IMM = 0x20000"
definition F_ATOMIC :: "32 word" where "F_ATOMIC = 0x40000"
definition F_SYNC :: "32 word" where "F_SYNC = 0x80000"
definition F_AMO :: "32 word" where "F_AMO = 0x100000"
definition F_IFLUSH :: "32 word" where "F_IFLUSH = 0x200000"

lemmas flag_defs =
  F_ICOMP_def F_FCOMP_def F_CTRL_def F_UNCOND_def F_COND_def F_MEM_def F_LOAD_def F_STORE_def
  F_DISP_def F_TRAP_def F_LONGLAT_def F_DIRJMP_def F_INDIRJMP_def F_CALL_def F_IMM_def
  F_ATOMIC_def F_SYNC_def F_AMO_def F_IFLUSH_def

end
