(* ===== verification/Bpred.thy ===== *)
theory Bpred
  imports InsnFlags
begin

text \<open>
  The branch predictors (bpred.c, bpred.h): direction predictors (bimodal, two-level and
  combined), the branch target buffer with its LRU chains and the return-address stack.
  Pointers to saturating counters are a table and an index; pointers to BTB entries are
  indices into \<open>btb_data\<close>. Of the entries of the return-address stack only the target is
  used, so the stack is a list of targets. The opcode flags table \<open>md_op2flags\<close> and the two
  enumerators that \<open>MD_IS_INDIR\<close> names come from the expansion of riscv.def and are the fields
  of a parameter. \<open>dassert\<close> is disabled in the build and is not modelled; \<open>assert\<close> is.
\<close>

subsection \<open>Opcodes\<close>

record op_isa =
  md_op2flags :: "nat \<Rightarrow> 32 word"
  op_JAL :: nat
  op_C_JR :: nat

definition is_ctrl :: "op_isa \<Rightarrow> nat \<Rightarrow> bool" where
  "is_ctrl isa opc \<longleftrightarrow> md_op2flags isa opc AND F_CTRL \<noteq> 0"

definition is_jump :: "op_isa \<Rightarrow> nat \<Rightarrow> bool" where
  "is_jump isa opc \<longleftrightarrow> md_op2flags isa opc AND (F_CTRL OR F_UNCOND) = (F_CTRL OR F_UNCOND)"

definition is_cond :: "op_isa \<Rightarrow> nat \<Rightarrow> bool" where
  "is_cond isa opc \<longleftrightarrow> md_op2flags isa opc AND (F_CTRL OR F_COND) = (F_CTRL OR F_COND)"

definition MD_IS_INDIR :: "op_isa \<Rightarrow> nat \<Rightarrow> bool" where
  "MD_IS_INDIR isa opc \<longleftrightarrow> opc = op_JAL isa \<or> opc = op_C_JR isa"

subsection \<open>Data\<close>

datatype bpred_class =
  BPredComb | BPred2Level | BPred2bit | BPredTaken | BPredNotTaken | BPred_NUM

record two_level =
  l1size :: int
  l2size :: int
  shift_width :: nat
  use_xor :: bool
  shiftregs :: "32 word list"
  l2table :: "8 word list"

datatype bpred_dir =
    DirTwo two_level
  | DirBimod int "8 word list"
  | DirStatic bpred_class

record btb_ent =
  btb_addr :: "64 word"
  btb_op :: nat
  btb_target :: "64 word"
  btb_prev :: "nat option"
  btb_next :: "nat option"

record bpred =
  bp_class :: bpred_class
  bp_bimod :: "bpred_dir option"
  bp_twolev :: "bpred_dir option"
  bp_meta :: "bpred_dir option"
  btb_sets :: int
  btb_assoc :: int
  btb_data :: "btb_ent list"
  ret_size :: int
  ret_tos :: int
  ret_stack :: "64 word list"
  addr_hits :: "64 word"
  dir_hits :: "64 word"
  used_ras :: "64 word"
  used_bimod :: "64 word"
  used_2lev :: "64 word"
  jr_hits :: "64 word"
  jr_seen :: "64 word"
  jr_non_ras_hits :: "64 word"
  jr_non_ras_seen :: "64 word"
  bp_misses :: "64 word"
  bp_lookups :: "64 word"
  retstack_pops :: "64 word"
  retstack_pushes :: "64 word"
  ras_hits :: "64 word"

datatype ctr_tab = TBimod | TTwolev | TMeta

type_synonym ctr = "ctr_tab \<times> nat"

record bpred_upd =
  pdir1 :: "ctr option"
  pdir2 :: "ctr option"
  pmeta :: "ctr option"
  du_ras :: bool
  du_bimod :: bool
  du_twolev :: bool
  du_meta :: bool

subsection \<open>Creation\<close>

definition not_pow2 :: "int \<Rightarrow> bool" where
  "not_pow2 n \<longleftrightarrow> n = 0 \<or> n AND (n - 1) \<noteq> 0"

fun flipflop_table :: "nat \<Rightarrow> 8 word \<Rightarrow> 8 word list" where
  "flipflop_table 0 f = []"
| "flipflop_table (Suc n) f = f # flipflop_table n (3 - f)"

definition bpred_dir_create :: "bpred_class \<Rightarrow> int \<Rightarrow> int \<Rightarrow> int \<Rightarrow> bool \<Rightarrow> bpred_dir cres" where
  "bpred_dir_create cls l1 l2 sw xr =
     (case cls of
        BPred2Level \<Rightarrow>
          if not_pow2 l1 then Inl (Fatal ''level-1 size, `%d', must be non-zero and a power of two'')
          else if not_pow2 l2 then Inl (Fatal ''level-2 size, `%d', must be non-zero and a power of two'')
          else if sw = 0 \<or> sw > 30
          then Inl (Fatal ''shift register width, `%d', must be non-zero and positive'')
          else Inr (DirTwo \<lparr>l1size = l1, l2size = l2, shift_width = nat sw, use_xor = xr,
                            shiftregs = replicate (nat l1) 0,
                            l2table = flipflop_table (nat l2) 1\<rparr>)
      | BPred2bit \<Rightarrow>
          if not_pow2 l1 then Inl (Fatal ''2bit table size, `%d', must be non-zero and a power of two'')
          else Inr (DirBimod l1 (flipflop_table (nat l1) 1))
      | BPredTaken \<Rightarrow> Inr (DirStatic cls)
      | BPredNotTaken \<Rightarrow> Inr (DirStatic cls)
      | _ \<Rightarrow> Inl (Panic ''bogus branch direction predictor class''))"

text \<open>The BTB after the chaining loop of \<open>bpred_create\<close>: the \<open>i\<close>-th entry.\<close>

definition btb_init_ent :: "nat \<Rightarrow> nat \<Rightarrow> btb_ent" where
  "btb_init_ent assoc i =
     \<lparr>btb_addr = 0, btb_op = 0, btb_target = 0,
      btb_prev = (if assoc > 1 \<and> i mod assoc \<noteq> 0 then Some (i - 1) else None),
      btb_next = (if assoc > 1 \<and> i mod assoc \<noteq> assoc - 1 then Some (i + 1) else None)\<rparr>"

definition bpred0 :: "bpred_class \<Rightarrow> bpred" where
  "bpred0 cls =
     \<lparr>bp_class = cls, bp_bimod = None, bp_twolev = None, bp_meta = None, btb_sets = 0,
      btb_assoc = 0, btb_data = [], ret_size = 0, ret_tos = 0, ret_stack = [],
      addr_hits = 0, dir_hits = 0, used_ras = 0, used_bimod = 0, used_2lev = 0, jr_hits = 0,
      jr_seen = 0, jr_non_ras_hits = 0, jr_non_ras_seen = 0, bp_misses = 0, bp_lookups = 0,
      retstack_pops = 0, retstack_pushes = 0, ras_hits = 0\<rparr>"

definition create_dirs :: "bpred_class \<Rightarrow> int \<Rightarrow> int \<Rightarrow> int \<Rightarrow> int \<Rightarrow> int \<Rightarrow> bool \<Rightarrow> bpred cres" where
  "create_dirs cls bimod_size l1 l2 meta_size sw xr =
     (case cls of
        BPredComb \<Rightarrow>
          cbind (bpred_dir_create BPred2bit bimod_size 0 0 False) (\<lambda>b.
          cbind (bpred_dir_create BPred2Level l1 l2 sw xr) (\<lambda>t.
          cbind (bpred_dir_create BPred2bit meta_size 0 0 False) (\<lambda>m.
          Inr ((bpred0 cls)\<lparr>bp_bimod := Some b, bp_twolev := Some t, bp_meta := Some m\<rparr>))))
      | BPred2Level \<Rightarrow>
          cbind (bpred_dir_create cls l1 l2 sw xr) (\<lambda>t. Inr ((bpred0 cls)\<lparr>bp_twolev := Some t\<rparr>))
      | BPred2bit \<Rightarrow>
          cbind (bpred_dir_create cls bimod_size 0 0 False) (\<lambda>b. Inr ((bpred0 cls)\<lparr>bp_bimod := Some b\<rparr>))
      | BPred_NUM \<Rightarrow> Inl (Panic ''bogus predictor class'')
      | _ \<Rightarrow> Inr (bpred0 cls))"

definition create_btb :: "int \<Rightarrow> int \<Rightarrow> int \<Rightarrow> bpred \<Rightarrow> bpred cres" where
  "create_btb sets assoc retstack_size pred =
     (if not_pow2 sets then Inl (Fatal ''number of BTB sets must be non-zero and a power of two'')
      else if not_pow2 assoc then Inl (Fatal ''BTB associativity must be non-zero and a power of two'')
      else if retstack_size AND (retstack_size - 1) \<noteq> 0
      then Inl (Fatal ''Return-address-stack size must be zero or a power of two'')
      else Inr (pred\<lparr>btb_sets := sets, btb_assoc := assoc,
                    btb_data := map (btb_init_ent (nat assoc)) [0..<nat (sets * assoc)],
                    ret_size := retstack_size, ret_stack := replicate (nat retstack_size) 0,
                    ret_tos := retstack_size - 1\<rparr>))"

definition bpred_create :: "bpred_class \<Rightarrow> int \<Rightarrow> int \<Rightarrow> int \<Rightarrow> int \<Rightarrow> int \<Rightarrow> bool
    \<Rightarrow> int \<Rightarrow> int \<Rightarrow> int \<Rightarrow> bpred cres" where
  "bpred_create cls bimod_size l1 l2 meta_size sw xr sets assoc retstack_size =
     cbind (create_dirs cls bimod_size l1 l2 meta_size sw xr) (\<lambda>pred.
     if cls \<in> {BPredComb, BPred2Level, BPred2bit} then create_btb sets assoc retstack_size pred
     else Inr pred)"

text \<open>\<open>bpred_after_priming\<close> resets all the counters but \<open>jr_non_ras_hits\<close> and \<open>jr_non_ras_seen\<close>.\<close>

definition bpred_after_priming :: "bpred \<Rightarrow> bpred" where
  "bpred_after_priming pred = pred\<lparr>bp_lookups := 0, addr_hits := 0, dir_hits := 0, used_ras := 0,
     used_bimod := 0, used_2lev := 0, jr_hits := 0, jr_seen := 0, bp_misses := 0,
     retstack_pops := 0, retstack_pushes := 0, ras_hits := 0\<rparr>"

subsection \<open>Direction lookup\<close>

definition MD_BR_SHIFT :: nat where "MD_BR_SHIFT = 2"

definition BIMOD_HASH :: "int \<Rightarrow> 64 word \<Rightarrow> nat" where
  "BIMOD_HASH n addr =
     unat ((drop_bit 19 addr XOR drop_bit MD_BR_SHIFT addr) AND word_of_int (n - 1))"

definition l1_index :: "two_level \<Rightarrow> 64 word \<Rightarrow> nat" where
  "l1_index t baddr = unat (drop_bit MD_BR_SHIFT baddr AND word_of_int (l1size t - 1))"

definition l2_index :: "two_level \<Rightarrow> 64 word \<Rightarrow> nat" where
  "l2_index t baddr =
     (let l2 = scast (shiftregs t ! l1_index t baddr) :: 64 word; sh = drop_bit MD_BR_SHIFT baddr;
          l2' = (if use_xor t
                 then ((l2 XOR sh) AND (2 ^ shift_width t - 1)) OR push_bit (shift_width t) sh
                 else l2 OR push_bit (shift_width t) sh)
      in unat (ucast l2' AND word_of_int (l2size t - 1) :: 32 word))"

definition bpred_dir_lookup :: "bpred_dir \<Rightarrow> 64 word \<Rightarrow> nat option" where
  "bpred_dir_lookup d baddr =
     (case d of
        DirTwo t \<Rightarrow> Some (l2_index t baddr)
      | DirBimod n tab \<Rightarrow> Some (BIMOD_HASH n baddr)
      | DirStatic cls \<Rightarrow> None)"

text \<open>The counter behind a pointer, and its update.\<close>

definition dir_of :: "bpred \<Rightarrow> ctr_tab \<Rightarrow> bpred_dir option" where
  "dir_of pred k = (case k of TBimod \<Rightarrow> bp_bimod pred | TTwolev \<Rightarrow> bp_twolev pred | TMeta \<Rightarrow> bp_meta pred)"

definition dir_table :: "bpred_dir \<Rightarrow> 8 word list" where
  "dir_table d = (case d of DirTwo t \<Rightarrow> l2table t | DirBimod n tab \<Rightarrow> tab | DirStatic c \<Rightarrow> [])"

definition set_dir_table :: "8 word list \<Rightarrow> bpred_dir \<Rightarrow> bpred_dir" where
  "set_dir_table tab d =
     (case d of DirTwo t \<Rightarrow> DirTwo (t\<lparr>l2table := tab\<rparr>) | DirBimod n _ \<Rightarrow> DirBimod n tab
      | DirStatic c \<Rightarrow> DirStatic c)"

definition ctr_val :: "bpred \<Rightarrow> ctr \<Rightarrow> 8 word" where
  "ctr_val pred p = (case dir_of pred (fst p) of None \<Rightarrow> 0 | Some d \<Rightarrow> dir_table d ! snd p)"

definition ctr_set :: "ctr \<Rightarrow> 8 word \<Rightarrow> bpred \<Rightarrow> bpred" where
  "ctr_set p v pred =
     (let f = map_option (\<lambda>d. set_dir_table ((dir_table d)[snd p := v]) d) in
      case fst p of
        TBimod \<Rightarrow> pred\<lparr>bp_bimod := f (bp_bimod pred)\<rparr>
      | TTwolev \<Rightarrow> pred\<lparr>bp_twolev := f (bp_twolev pred)\<rparr>
      | TMeta \<Rightarrow> pred\<lparr>bp_meta := f (bp_meta pred)\<rparr>)"

definition dir_ptr :: "bpred \<Rightarrow> ctr_tab \<Rightarrow> 64 word \<Rightarrow> ctr option cres" where
  "dir_ptr pred k baddr =
     cbind (deref (dir_of pred k)) (\<lambda>d. Inr (map_option (Pair k) (bpred_dir_lookup d baddr)))"

subsection \<open>Lookup\<close>

text \<open>The branch target buffer: the set of a branch and the search for it.\<close>

definition btb_index :: "bpred \<Rightarrow> 64 word \<Rightarrow> nat" where
  "btb_index pred baddr = unat (drop_bit MD_BR_SHIFT baddr AND word_of_int (btb_sets pred - 1))"

definition btb_set :: "bpred \<Rightarrow> 64 word \<Rightarrow> nat list" where
  "btb_set pred baddr =
     (let index = btb_index pred baddr * nat (btb_assoc pred)
      in [index..<index + nat (btb_assoc pred)])"

definition btb_lookup :: "bpred \<Rightarrow> 64 word \<Rightarrow> nat option" where
  "btb_lookup pred baddr =
     (if btb_assoc pred > 1
      then find (\<lambda>i. btb_addr (btb_data pred ! i) = baddr) (btb_set pred baddr)
      else let i = btb_index pred baddr in
        if btb_addr (btb_data pred ! i) \<noteq> baddr then None else Some i)"

definition predicts_taken :: "bpred \<Rightarrow> ctr \<Rightarrow> bool" where
  "predicts_taken pred p \<longleftrightarrow> 2 \<le>s ctr_val pred p"

text \<open>The direction part: the update record with the counters to consult.\<close>

definition lookup_dir :: "op_isa \<Rightarrow> bpred \<Rightarrow> 64 word \<Rightarrow> nat \<Rightarrow> bpred_upd \<Rightarrow> bpred_upd cres" where
  "lookup_dir isa pred baddr opc du0 =
     (let du = du0\<lparr>du_ras := False, pdir1 := None, pdir2 := None, pmeta := None\<rparr> in
      case bp_class pred of
        BPredComb \<Rightarrow>
          if is_jump isa opc then Inr du
          else
            cbind (dir_ptr pred TBimod baddr) (\<lambda>bimod.
            cbind (dir_ptr pred TTwolev baddr) (\<lambda>twolev.
            cbind (dir_ptr pred TMeta baddr) (\<lambda>meta.
            cbind (deref meta) (\<lambda>m.
            cbind (deref bimod) (\<lambda>b.
            cbind (deref twolev) (\<lambda>t.
            let du1 = du\<lparr>pmeta := meta, du_meta := predicts_taken pred m,
                         du_bimod := predicts_taken pred b, du_twolev := predicts_taken pred t\<rparr>
            in Inr (if predicts_taken pred m then du1\<lparr>pdir1 := twolev, pdir2 := bimod\<rparr>
                    else du1\<lparr>pdir1 := bimod, pdir2 := twolev\<rparr>)))))))
      | BPred2Level \<Rightarrow>
          if is_jump isa opc then Inr du
          else cbind (dir_ptr pred TTwolev baddr) (\<lambda>p. Inr (du\<lparr>pdir1 := p\<rparr>))
      | BPred2bit \<Rightarrow>
          if is_jump isa opc then Inr du
          else cbind (dir_ptr pred TBimod baddr) (\<lambda>p. Inr (du\<lparr>pdir1 := p\<rparr>))
      | BPred_NUM \<Rightarrow> Inl (Panic ''bogus predictor class'')
      | _ \<Rightarrow> Inr du)"

text \<open>Call and return handling of a stateful predictor, then the BTB.\<close>

definition ras_push :: "64 word \<Rightarrow> bpred \<Rightarrow> bpred" where
  "ras_push baddr pred =
     (let tos = (ret_tos pred + 1) mod ret_size pred in
      pred\<lparr>ret_tos := tos, ret_stack := (ret_stack pred)[nat tos := baddr + 4],
           retstack_pushes := retstack_pushes pred + 1\<rparr>)"

definition ras_pop :: "bpred \<Rightarrow> 64 word \<times> bpred" where
  "ras_pop pred =
     (ret_stack pred ! nat (ret_tos pred),
      pred\<lparr>ret_tos := (ret_tos pred + ret_size pred - 1) mod ret_size pred,
           retstack_pops := retstack_pops pred + 1\<rparr>)"

definition btb_predict :: "op_isa \<Rightarrow> bpred \<Rightarrow> 64 word \<Rightarrow> nat \<Rightarrow> bpred_upd \<Rightarrow> 64 word cres" where
  "btb_predict isa pred baddr opc du =
     (let pbtb = btb_lookup pred baddr in
      if is_jump isa opc
      then Inr (case pbtb of Some i \<Rightarrow> btb_target (btb_data pred ! i) | None \<Rightarrow> 1)
      else cbind (deref (pdir1 du)) (\<lambda>p.
        Inr (if predicts_taken pred p
             then (case pbtb of Some i \<Rightarrow> btb_target (btb_data pred ! i) | None \<Rightarrow> 1) else 0)))"

definition bpred_lookup :: "op_isa \<Rightarrow> bpred \<Rightarrow> 64 word \<Rightarrow> 64 word \<Rightarrow> nat \<Rightarrow> bool \<Rightarrow> bool
    \<Rightarrow> bpred_upd option \<Rightarrow> int \<Rightarrow> (64 word \<times> bpred \<times> bpred_upd \<times> int) cres" where
  "bpred_lookup isa pred baddr btarget opc is_call is_return dup sidx =
     (case dup of
        None \<Rightarrow> Inl (Panic ''no bpred update record'')
      | Some du0 \<Rightarrow>
          if \<not> is_ctrl isa opc then Inr (0, pred, du0, sidx)
          else
            let pred1 = pred\<lparr>bp_lookups := bp_lookups pred + 1\<rparr> in
            cbind (lookup_dir isa pred1 baddr opc du0) (\<lambda>du.
            case bp_class pred of
              BPredTaken \<Rightarrow> Inr (btarget, pred1, du, sidx)
            | BPredNotTaken \<Rightarrow> Inr (if is_jump isa opc then btarget else baddr + 4, pred1, du, sidx)
            | _ \<Rightarrow>
                let sidx' = (if ret_size pred1 \<noteq> 0 then ret_tos pred1 else 0) in
                if is_return \<and> ret_size pred1 \<noteq> 0
                then let (target, pred2) = ras_pop pred1
                     in Inr (target, pred2, du\<lparr>du_ras := True\<rparr>, sidx')
                else
                  let pred2 = (if is_call \<and> ret_size pred1 \<noteq> 0 then ras_push baddr pred1 else pred1)
                  in cbind (btb_predict isa pred2 baddr opc du) (\<lambda>a. Inr (a, pred2, du, sidx'))))"

definition bpred_recover :: "bpred \<Rightarrow> int \<Rightarrow> bpred" where
  "bpred_recover pred stack_recover_idx = pred\<lparr>ret_tos := stack_recover_idx\<rparr>"

subsection \<open>Update\<close>

text \<open>
  The statistics of \<open>bpred_update\<close>; the flag tells whether the update goes on (it stops at a
  return that used the return-address stack).
\<close>

definition update_stats :: "op_isa \<Rightarrow> 32 word \<Rightarrow> bool \<Rightarrow> bool \<Rightarrow> nat \<Rightarrow> bpred_upd \<Rightarrow> bpred
    \<Rightarrow> bpred \<times> bool" where
  "update_stats isa taken pred_taken correct opc du pred =
     (let p1 = (if correct then pred\<lparr>addr_hits := addr_hits pred + 1\<rparr> else pred);
          p2 = (if pred_taken = (taken \<noteq> 0) then p1\<lparr>dir_hits := dir_hits p1 + 1\<rparr>
                else p1\<lparr>bp_misses := bp_misses p1 + 1\<rparr>);
          p3 = (if du_ras du then
                  let q = p2\<lparr>used_ras := used_ras p2 + 1\<rparr>
                  in if correct then q\<lparr>ras_hits := ras_hits q + 1\<rparr> else q
                else if is_cond isa opc then
                  if du_meta du then p2\<lparr>used_2lev := used_2lev p2 + 1\<rparr>
                  else p2\<lparr>used_bimod := used_bimod p2 + 1\<rparr>
                else p2)
      in if MD_IS_INDIR isa opc then
           let p4 = p3\<lparr>jr_seen := jr_seen p3 + 1\<rparr>;
               p5 = (if correct then p4\<lparr>jr_hits := jr_hits p4 + 1\<rparr> else p4)
           in if \<not> du_ras du then
                let p6 = p5\<lparr>jr_non_ras_seen := jr_non_ras_seen p5 + 1\<rparr>
                in (if correct then p6\<lparr>jr_non_ras_hits := jr_non_ras_hits p6 + 1\<rparr> else p6, True)
              else (p5, False)
         else (p3, True))"

definition update_history :: "op_isa \<Rightarrow> 64 word \<Rightarrow> 32 word \<Rightarrow> nat \<Rightarrow> bpred \<Rightarrow> bpred cres" where
  "update_history isa baddr taken opc pred =
     (if \<not> is_jump isa opc \<and> (bp_class pred = BPred2Level \<or> bp_class pred = BPredComb) then
        case bp_twolev pred of
          Some (DirTwo t) \<Rightarrow>
            let i = l1_index t baddr;
                reg = push_bit 1 (shiftregs t ! i) OR (if taken \<noteq> 0 then 1 else 0)
            in Inr (pred\<lparr>bp_twolev := Some (DirTwo
                 (t\<lparr>shiftregs := (shiftregs t)[i := reg AND (2 ^ shift_width t - 1)]\<rparr>))\<rparr>)
        | _ \<Rightarrow> Inl NullDeref
      else Inr pred)"

text \<open>The scan of the BTB set: match, LRU head and LRU tail.\<close>

fun btb_scan :: "btb_ent list \<Rightarrow> 64 word \<Rightarrow> nat list \<Rightarrow> nat option \<times> nat option \<times> nat option
    \<Rightarrow> (nat option \<times> nat option \<times> nat option) cres" where
  "btb_scan es baddr [] st = Inr st"
| "btb_scan es baddr (i # js) (pbtb, lruhead, lruitem) =
     cbind (if btb_addr (es ! i) = baddr then cassert (pbtb = None) (Inr (Some i)) else Inr pbtb)
       (\<lambda>pbtb'. btb_scan es baddr js
         (pbtb', if btb_prev (es ! i) = None then Some i else lruhead,
          if btb_next (es ! i) = None then Some i else lruitem))"

definition upd_ent :: "nat \<Rightarrow> (btb_ent \<Rightarrow> btb_ent) \<Rightarrow> btb_ent list \<Rightarrow> btb_ent list" where
  "upd_ent i f es = es[i := f (es ! i)]"

definition btb_to_front :: "nat \<Rightarrow> nat \<Rightarrow> btb_ent list \<Rightarrow> btb_ent list" where
  "btb_to_front p h es =
     (let e1 = (case btb_prev (es ! p) of
                  Some q \<Rightarrow> upd_ent q (btb_next_update (\<lambda>_. btb_next (es ! p))) es | None \<Rightarrow> es);
          e2 = (case btb_next (e1 ! p) of
                  Some q \<Rightarrow> upd_ent q (btb_prev_update (\<lambda>_. btb_prev (e1 ! p))) e1 | None \<Rightarrow> e1);
          e3 = upd_ent p (btb_prev_update (\<lambda>_. None)) (upd_ent p (btb_next_update (\<lambda>_. Some h)) e2)
      in upd_ent h (btb_prev_update (\<lambda>_. Some p)) e3)"

definition btb_select :: "bpred \<Rightarrow> 64 word \<Rightarrow> (nat \<times> btb_ent list) cres" where
  "btb_select pred baddr =
     (if btb_assoc pred > 1 then
        cbind (btb_scan (btb_data pred) baddr (btb_set pred baddr) (None, None, None))
          (\<lambda>(pbtb, lruhead, lruitem).
        cbind (deref (if pbtb = None then lruitem else pbtb)) (\<lambda>p.
        if lruhead \<noteq> Some p then
          cbind (deref lruhead) (\<lambda>h. Inr (p, btb_to_front p h (btb_data pred)))
        else Inr (p, btb_data pred)))
      else Inr (btb_index pred baddr, btb_data pred))"

definition btb_enter :: "64 word \<Rightarrow> 64 word \<Rightarrow> bool \<Rightarrow> nat \<Rightarrow> btb_ent \<Rightarrow> btb_ent" where
  "btb_enter baddr btarget correct opc e =
     (if btb_addr e = baddr then (if \<not> correct then e\<lparr>btb_target := btarget\<rparr> else e)
      else e\<lparr>btb_addr := baddr, btb_op := opc, btb_target := btarget\<rparr>)"

text \<open>Saturating counters.\<close>

definition sat_inc :: "8 word \<Rightarrow> 8 word" where "sat_inc c = (if c <s 3 then c + 1 else c)"
definition sat_dec :: "8 word \<Rightarrow> 8 word" where "sat_dec c = (if 0 <s c then c - 1 else c)"

definition train :: "bool \<Rightarrow> ctr option \<Rightarrow> bpred \<Rightarrow> bpred" where
  "train up p pred =
     (case p of None \<Rightarrow> pred
      | Some c \<Rightarrow> ctr_set c ((if up then sat_inc else sat_dec) (ctr_val pred c)) pred)"

definition train_meta :: "32 word \<Rightarrow> bpred_upd \<Rightarrow> bpred \<Rightarrow> bpred" where
  "train_meta taken du pred =
     (if pmeta du \<noteq> None \<and> du_bimod du \<noteq> du_twolev du
      then train ((if du_twolev du then 1 else 0) = taken) (pmeta du) pred else pred)"

definition bpred_update :: "op_isa \<Rightarrow> bpred \<Rightarrow> 64 word \<Rightarrow> 64 word \<Rightarrow> 32 word \<Rightarrow> bool \<Rightarrow> bool
    \<Rightarrow> nat \<Rightarrow> bpred_upd option \<Rightarrow> bpred cres" where
  "bpred_update isa pred baddr btarget taken pred_taken correct opc dup =
     (if \<not> is_ctrl isa opc then Inr pred
      else
        cbind (deref dup) (\<lambda>du.
        let (p1, go_on) = update_stats isa taken pred_taken correct opc du pred in
        if \<not> go_on \<or> bp_class pred = BPredNotTaken \<or> bp_class pred = BPredTaken then Inr p1
        else
          cbind (update_history isa baddr taken opc p1) (\<lambda>p2.
          cbind (if taken \<noteq> 0
                 then cbind (btb_select p2 baddr) (\<lambda>(p, es). Inr (Some p, p2\<lparr>btb_data := es\<rparr>))
                 else Inr (None, p2)) (\<lambda>(pbtb, p3).
          let p4 = train (taken \<noteq> 0) (pdir1 du) p3;
              p5 = train (taken \<noteq> 0) (pdir2 du) p4;
              p6 = train_meta taken du p5
          in Inr (case pbtb of
               None \<Rightarrow> p6
             | Some p \<Rightarrow> p6\<lparr>btb_data := upd_ent p (btb_enter baddr btarget correct opc) (btb_data p6)\<rparr>)))))"

end
