(* ===== verification/BpredCorrect.thy ===== *)
theory BpredCorrect
  imports Bpred
begin

text \<open>
  Correctness of the branch predictors: the LRU chains of the branch target buffer, its
  refinement by lists of entries, the invariant of the whole predictor, the return-address
  stack and the saturating counters.
\<close>

subsection \<open>The LRU chain of a BTB set\<close>

abbreviation bnx :: "btb_ent list \<Rightarrow> nat \<Rightarrow> nat option" where
  "bnx es \<equiv> (\<lambda>i. btb_next (es ! i))"

abbreviation bpv :: "btb_ent list \<Rightarrow> nat \<Rightarrow> nat option" where
  "bpv es \<equiv> (\<lambda>i. btb_prev (es ! i))"

definition lru_chain :: "btb_ent list \<Rightarrow> nat list \<Rightarrow> bool" where
  "lru_chain es xs \<longleftrightarrow> xs \<noteq> [] \<and> distinct xs \<and> set xs \<subseteq> {..<length es}
     \<and> dseg (bnx es) (bpv es) None (Some (hd xs)) xs None (Some (last xs))"

lemma upd_ent_length [simp]: "length (upd_ent i f es) = length es"
  by (simp add: upd_ent_def)

lemma upd_ent_nth: "i < length es \<Longrightarrow> upd_ent i f es ! j = (if j = i then f (es ! i) else es ! j)"
  by (simp add: upd_ent_def nth_list_update)

lemma links_upd [simp]:
  assumes "i < length es"
  shows "bnx (upd_ent i (btb_next_update (\<lambda>_. v)) es) = (bnx es)(i := v)"
    and "bpv (upd_ent i (btb_next_update (\<lambda>_. v)) es) = bpv es"
    and "bnx (upd_ent i (btb_prev_update (\<lambda>_. v)) es) = bnx es"
    and "bpv (upd_ent i (btb_prev_update (\<lambda>_. v)) es) = (bpv es)(i := v)"
  using assms by (auto simp: fun_eq_iff upd_ent_nth)

text \<open>What relinking leaves alone.\<close>

definition same_ents :: "nat set \<Rightarrow> btb_ent list \<Rightarrow> btb_ent list \<Rightarrow> bool" where
  "same_ents B es' es \<longleftrightarrow> length es' = length es
     \<and> (\<forall>i. btb_addr (es' ! i) = btb_addr (es ! i) \<and> btb_op (es' ! i) = btb_op (es ! i)
          \<and> btb_target (es' ! i) = btb_target (es ! i))
     \<and> (\<forall>i. i \<notin> B \<longrightarrow> es' ! i = es ! i)"

lemma same_ents_refl [simp]: "same_ents B es es"
  by (simp add: same_ents_def)

lemma same_ents_link:
  assumes "i < length es" "i \<in> B"
  shows "same_ents B (upd_ent i (btb_next_update f) es) es' \<longleftrightarrow> same_ents B es es'"
    and "same_ents B (upd_ent i (btb_prev_update f) es) es' \<longleftrightarrow> same_ents B es es'"
  using assms unfolding same_ents_def by (auto simp: upd_ent_nth)

lemma btb_to_front_chain:
  assumes c: "lru_chain es xs" and p: "p \<in> set xs" "p \<noteq> hd xs"
  shows "lru_chain (btb_to_front p (hd xs) es) (p # remove1 p xs)
    \<and> same_ents (set xs) (btb_to_front p (hd xs) es) es"
proof -
  obtain ys zs where xs: "xs = ys @ p # zs" using p(1) by (meson split_list)
  have ne: "ys \<noteq> []" using p(2) xs by auto
  have d: "distinct (ys @ p # zs)" and sub: "set xs \<subseteq> {..<length es}"
    and ds: "dseg (bnx es) (bpv es) None (Some (hd xs)) (ys @ p # zs) None (Some (last xs))"
    using c xs by (simp_all add: lru_chain_def)
  let ?q = "last ys" and ?h = "hd xs"
  have h: "?h = hd ys" using xs ne by simp
  note sp = dseg_splice [OF ds d ne]
  have in_q: "?q \<in> set xs" "?q \<noteq> p" using last_in_set [OF ne] xs d by auto
  have in_h: "?h \<in> set xs" "?h \<noteq> p" using p(2) hd_in_set [of xs] xs by auto
  have lt: "?q < length es" "p < length es" "?h < length es" using in_q in_h p(1) sub by auto
  have hz: "hd zs \<in> set xs" "hd zs \<noteq> p" "hd zs < length es" if "zs \<noteq> []"
    using that xs d sub by (cases zs; auto)+
  define e1 where "e1 = upd_ent ?q (btb_next_update (\<lambda>_. bnx es p)) es"
  have e1: "bnx e1 = (bnx es)(?q := bnx es p)" "bpv e1 = bpv es" "length e1 = length es"
    using lt by (simp_all add: e1_def)
  have s1: "same_ents (set xs) e1 es" using lt in_q by (simp add: e1_def same_ents_link)
  have e1p: "btb_next (e1 ! p) = btb_next (es ! p)" "btb_prev (e1 ! p) = Some ?q"
    using in_q lt sp(2) by (simp_all add: e1_def upd_ent_nth)
  define e2 where "e2 = (if zs = [] then e1 else upd_ent (hd zs) (btb_prev_update (\<lambda>_. Some ?q)) e1)"
  have e2: "bnx e2 = (bnx es)(?q := bnx es p)" "length e2 = length es"
      "bpv e2 = (if zs = [] then bpv es else (bpv es)(hd zs := Some ?q))"
    using e1 hz by (simp_all add: e2_def)
  have s2: "same_ents (set xs) e2 es" using s1 e1(3) hz by (simp add: e2_def same_ents_link)
  define e3 where "e3 = upd_ent p (btb_prev_update (\<lambda>_. None)) (upd_ent p (btb_next_update (\<lambda>_. Some ?h)) e2)"
  have e3: "bnx e3 = (bnx e2)(p := Some ?h)" "bpv e3 = (bpv e2)(p := None)" "length e3 = length es"
    using lt e2(2) by (simp_all add: e3_def)
  have s3: "same_ents (set xs) e3 es" using s2 lt e2(2) p(1) by (simp add: e3_def same_ents_link)
  have eq: "btb_to_front p ?h es = upd_ent ?h (btb_prev_update (\<lambda>_. Some p)) e3"
  proof -
    have a: "(case btb_prev (es ! p) of
        Some q \<Rightarrow> upd_ent q (btb_next_update (\<lambda>_. btb_next (es ! p))) es | None \<Rightarrow> es) = e1"
      using sp(2) by (simp add: e1_def)
    have b: "(case btb_next (e1 ! p) of
        Some q \<Rightarrow> upd_ent q (btb_prev_update (\<lambda>_. btb_prev (e1 ! p))) e1 | None \<Rightarrow> e1) = e2"
      using sp(3) unfolding e1p by (simp add: e2_def)
    show ?thesis unfolding btb_to_front_def Let_def a b e3_def ..
  qed
  have "dseg (bnx e2) (bpv e2) None (Some ?h) (ys @ zs) None (Some (last (ys @ zs)))"
    using sp(1) unfolding e2 by (cases "zs = []") auto
  from dseg_push_front [OF this, of ?h "tl (ys @ zs)" p] ne d h
  have "dseg ((bnx e2)(p := Some ?h)) (((bpv e2)(p := None))(?h := Some p)) None (Some p)
      (p # ys @ zs) None (Some (last (ys @ zs)))" by (cases ys) auto
  then have "dseg (bnx (btb_to_front p ?h es)) (bpv (btb_to_front p ?h es)) None (Some p)
      (p # ys @ zs) None (Some (last (p # ys @ zs)))"
    using e3 lt ne unfolding eq by (simp add: e3)
  moreover have "remove1 p xs = ys @ zs" using d xs by (simp add: remove1_append)
  moreover have "length (btb_to_front p ?h es) = length es" by (simp add: eq e3)
  ultimately have "lru_chain (btb_to_front p ?h es) (p # remove1 p xs)"
    using d sub xs by (auto simp: lru_chain_def)
  moreover have "same_ents (set xs) (btb_to_front p ?h es) es"
    unfolding eq using s3 lt e3(3) in_h by (simp add: same_ents_link)
  ultimately show ?thesis by blast
qed

subsection \<open>The scan of a set\<close>

lemma lru_chain_ends:
  assumes c: "lru_chain es xs" and i: "i \<in> set xs"
  shows "btb_prev (es ! i) = None \<longleftrightarrow> i = hd xs" and "btb_next (es ! i) = None \<longleftrightarrow> i = last xs"
proof -
  obtain ys zs where xs: "xs = ys @ i # zs" using i by (meson split_list)
  have d: "distinct (ys @ i # zs)"
    and ds: "dseg (bnx es) (bpv es) None (Some (hd xs)) (ys @ i # zs) None (Some (last xs))"
    using c xs by (simp_all add: lru_chain_def)
  obtain m where m: "dseg (bnx es) (bpv es) None (Some (hd xs)) ys (Some i) m" "bpv es i = m"
      "dseg (bnx es) (bpv es) (Some i) (bnx es i) zs None (Some (last xs))"
    using ds by (auto simp: dseg_append)
  show "btb_prev (es ! i) = None \<longleftrightarrow> i = hd xs"
  proof (cases "ys = []")
    case True
    then show ?thesis using m xs by simp
  next
    case False
    then have "hd xs \<noteq> i" using xs d by (cases ys) auto
    then show ?thesis using dseg_last [OF m(1) False] m(2) by simp
  qed
  show "btb_next (es ! i) = None \<longleftrightarrow> i = last xs"
  proof (cases "zs = []")
    case True
    then show ?thesis using m xs by simp
  next
    case False
    then have "last xs \<noteq> i" using xs d last_in_set [OF False] by auto
    then show ?thesis using dseg_hd [OF m(3) False] by simp
  qed
qed

lemma btb_scan_result:
  assumes "distinct js" and "\<forall>i \<in> set js. btb_addr (es ! i) = baddr \<longrightarrow> pb = None"
    and "\<forall>i \<in> set js. \<forall>j \<in> set js. btb_addr (es ! i) = baddr \<and> btb_addr (es ! j) = baddr \<longrightarrow> i = j"
    and "\<forall>i \<in> set js. (btb_prev (es ! i) = None \<longleftrightarrow> i = x) \<and> (btb_next (es ! i) = None \<longleftrightarrow> i = y)"
  shows "btb_scan es baddr js (pb, h, l)
    = Inr (case find (\<lambda>i. btb_addr (es ! i) = baddr) js of Some i \<Rightarrow> Some i | None \<Rightarrow> pb,
           if x \<in> set js then Some x else h, if y \<in> set js then Some y else l)"
  using assms
proof (induction js arbitrary: pb h l)
  case Nil
  then show ?case by simp
next
  case (Cons i js)
  let ?m = "btb_addr (es ! i) = baddr"
  let ?pb = "if ?m then Some i else pb"
  have "btb_scan es baddr (i # js) (pb, h, l) = btb_scan es baddr js
      (?pb, if i = x then Some i else h, if i = y then Some i else l)"
    using Cons.prems(2,4) by simp
  also have "\<dots> = Inr (case find (\<lambda>i. btb_addr (es ! i) = baddr) js of Some i \<Rightarrow> Some i | None \<Rightarrow> ?pb,
      if x \<in> set js then Some x else if i = x then Some i else h,
      if y \<in> set js then Some y else if i = y then Some i else l)"
    using Cons.prems by (intro Cons.IH) auto
  also have "\<dots> = Inr (case find (\<lambda>i. btb_addr (es ! i) = baddr) (i # js) of Some i \<Rightarrow> Some i | None \<Rightarrow> pb,
      if x \<in> set (i # js) then Some x else h, if y \<in> set (i # js) then Some y else l)"
  proof (cases ?m)
    case True
    then have "find (\<lambda>i. btb_addr (es ! i) = baddr) js = None"
      using Cons.prems(1,3) by (auto simp: find_None_iff)
    with True show ?thesis by simp
  next
    case False
    then show ?thesis by simp
  qed
  finally show ?case .
qed

subsection \<open>The branch target buffer as lists\<close>

definition set_ok :: "btb_ent list \<Rightarrow> nat set \<Rightarrow> bool" where
  "set_ok es B \<longleftrightarrow> (\<exists>xs. lru_chain es xs \<and> set xs = B)
     \<and> (\<forall>i \<in> B. \<forall>j \<in> B. btb_addr (es ! i) = btb_addr (es ! j) \<and> btb_addr (es ! i) \<noteq> 0 \<longrightarrow> i = j)"

definition btb_wf :: "bpred \<Rightarrow> bool" where
  "btb_wf pred \<longleftrightarrow> (\<exists>a b. a < 31 \<and> b < 31 \<and> btb_sets pred = 2 ^ a \<and> btb_assoc pred = 2 ^ b
     \<and> length (btb_data pred) = 2 ^ a * 2 ^ b
     \<and> (\<forall>j < 2 ^ a. set_ok (btb_data pred) {j * 2 ^ b..<j * 2 ^ b + 2 ^ b}))"

text \<open>The entries of a set from the most to the least recently used.\<close>

definition btb_mru :: "bpred \<Rightarrow> 64 word \<Rightarrow> nat list" where
  "btb_mru pred baddr =
     (let js = btb_set pred baddr; es = btb_data pred in
      collect (length js) (bnx es) (find (\<lambda>i. btb_prev (es ! i) = None) js))"

definition btb_lines :: "bpred \<Rightarrow> 64 word \<Rightarrow> (64 word \<times> 64 word) list" where
  "btb_lines pred baddr =
     map (\<lambda>i. (btb_addr (btb_data pred ! i), btb_target (btb_data pred ! i))) (btb_mru pred baddr)"

definition spec_btb :: "64 word \<Rightarrow> 64 word \<Rightarrow> bool \<Rightarrow> (64 word \<times> 64 word) list \<Rightarrow> (64 word \<times> 64 word) list" where
  "spec_btb baddr btarget correct ls =
     (case find (\<lambda>e. fst e = baddr) ls of
        Some e \<Rightarrow> (baddr, if correct then snd e else btarget) # filter (\<lambda>e. fst e \<noteq> baddr) ls
      | None \<Rightarrow> (baddr, btarget) # butlast ls)"

lemma mask_index_less:
  assumes "a < 64"
  shows "unat (x AND word_of_int (2 ^ a - 1) :: 64 word) < 2 ^ a"
  using unat_and_mask_less [of a x] assms by simp

lemma btb_wfE:
  assumes "btb_wf pred"
  obtains a b where "a < 31" "b < 31" "btb_sets pred = 2 ^ a" "btb_assoc pred = 2 ^ b"
    "length (btb_data pred) = 2 ^ a * 2 ^ b"
    "\<And>j. j < 2 ^ a \<Longrightarrow> set_ok (btb_data pred) {j * 2 ^ b..<j * 2 ^ b + 2 ^ b}"
    "\<And>baddr. btb_index pred baddr < 2 ^ a"
    "\<And>baddr. btb_set pred baddr
      = [btb_index pred baddr * 2 ^ b..<btb_index pred baddr * 2 ^ b + 2 ^ b]"
proof -
  from assms obtain a b where ab: "a < 31" "b < 31" "btb_sets pred = 2 ^ a" "btb_assoc pred = 2 ^ b"
    "length (btb_data pred) = 2 ^ a * 2 ^ b"
    "\<And>j. j < 2 ^ a \<Longrightarrow> set_ok (btb_data pred) {j * 2 ^ b..<j * 2 ^ b + 2 ^ b}"
    unfolding btb_wf_def by blast
  have "btb_index pred baddr < 2 ^ a" for baddr
    unfolding btb_index_def ab(3) using ab(1) by (intro mask_index_less) simp
  moreover have "btb_set pred baddr
      = [btb_index pred baddr * 2 ^ b..<btb_index pred baddr * 2 ^ b + 2 ^ b]" for baddr
    by (simp add: btb_set_def Let_def ab(4) nat_power_eq)
  ultimately show thesis using ab that by blast
qed

lemma btb_set_ok:
  assumes "btb_wf pred"
  shows "set_ok (btb_data pred) (set (btb_set pred baddr))"
    and "length (btb_set pred baddr) = nat (btb_assoc pred)"
    and "distinct (btb_set pred baddr)"
  using assms by (elim btb_wfE; simp add: nat_power_eq)+

lemma btb_mru_chain:
  assumes wf: "btb_wf pred" and c: "lru_chain (btb_data pred) xs" "set xs = set (btb_set pred baddr)"
  shows "btb_mru pred baddr = xs"
proof -
  let ?js = "btb_set pred baddr"
  have hd: "hd xs \<in> set ?js" using c by (metis hd_in_set lru_chain_def)
  have "find (\<lambda>i. btb_prev (btb_data pred ! i) = None) ?js = Some (hd xs)"
  proof -
    have "find (\<lambda>i. btb_prev (btb_data pred ! i) = None) ?js \<noteq> None"
      using hd lru_chain_ends(1) [OF c(1)] c(2) by (auto simp: find_None_iff_all)
    then obtain i where i: "find (\<lambda>i. btb_prev (btb_data pred ! i) = None) ?js = Some i" by auto
    then have "i \<in> set ?js" "btb_prev (btb_data pred ! i) = None" by (auto dest: find_Some_iff_nth_in)
    then show ?thesis using i lru_chain_ends(1) [OF c(1)] c(2) by auto
  qed
  moreover have "length xs = length ?js"
    using c btb_set_ok(3) [OF wf, of baddr] by (metis distinct_card lru_chain_def)
  moreover have "chain (bnx (btb_data pred)) (Some (hd xs)) xs"
    using c(1) by (auto simp: lru_chain_def dest: dseg_chain)
  ultimately show ?thesis by (simp add: btb_mru_def Let_def collect_chain)
qed

lemma lru_chain_single:
  assumes "lru_chain es xs" "set xs = {i}"
  shows "xs = [i]"
proof -
  have "distinct xs" using assms by (simp add: lru_chain_def)
  then have "length xs = 1" using assms(2) by (metis distinct_card is_singletonI is_singleton_altdef)
  then show ?thesis using assms(2) by (cases xs) auto
qed

lemma btb_select_result:
  assumes wf: "btb_wf pred" and nz: "baddr \<noteq> 0"
    and c: "lru_chain (btb_data pred) xs" "set xs = set (btb_set pred baddr)"
  shows "\<exists>p es. btb_select pred baddr = Inr (p, es)
    \<and> p = (case find (\<lambda>i. btb_addr (btb_data pred ! i) = baddr) xs of Some i \<Rightarrow> i | None \<Rightarrow> last xs)
    \<and> p \<in> set xs \<and> lru_chain es (p # remove1 p xs) \<and> same_ents (set xs) es (btb_data pred)"
proof -
  let ?es = "btb_data pred" and ?js = "btb_set pred baddr"
  have un: "\<forall>i \<in> set ?js. \<forall>j \<in> set ?js. btb_addr (?es ! i) = baddr \<and> btb_addr (?es ! j) = baddr \<longrightarrow> i = j"
    using btb_set_ok(1) [OF wf, of baddr] nz by (auto simp: set_ok_def)
  have ne: "xs \<noteq> []" using c(1) by (simp add: lru_chain_def)
  have ends: "\<forall>i \<in> set ?js. (btb_prev (?es ! i) = None \<longleftrightarrow> i = hd xs)
      \<and> (btb_next (?es ! i) = None \<longleftrightarrow> i = last xs)"
    using lru_chain_ends [OF c(1)] c(2) by auto
  have hl: "hd xs \<in> set ?js" "last xs \<in> set ?js" using ne c(2) hd_in_set last_in_set by blast+
  have fnd: "find (\<lambda>i. btb_addr (?es ! i) = baddr) ?js = find (\<lambda>i. btb_addr (?es ! i) = baddr) xs"
    using un c(2) by (intro find_unique) auto
  let ?f = "find (\<lambda>i. btb_addr (?es ! i) = baddr) xs"
  define p where "p = (case ?f of Some i \<Rightarrow> i | None \<Rightarrow> last xs)"
  have px: "p \<in> set xs"
    using last_in_set [OF ne] by (auto simp: p_def split: option.split dest: find_Some_iff_nth_in)
  show ?thesis
  proof (cases "btb_assoc pred > 1")
    case True
    have "btb_scan ?es baddr ?js (None, None, None) = Inr (?f, Some (hd xs), Some (last xs))"
      using btb_scan_result [OF btb_set_ok(3) [OF wf] _ un ends, of None None None] hl fnd
      by (simp split: option.split)
    then have sel: "btb_select pred baddr = (if Some (hd xs) \<noteq> Some p
        then Inr (p, btb_to_front p (hd xs) ?es) else Inr (p, ?es))"
      using True by (simp add: btb_select_def p_def split: option.split)
    show ?thesis
    proof (cases "p = hd xs")
      case True
      have "p # remove1 p xs = xs" using True ne by (cases xs) auto
      then show ?thesis using sel True px c(1) by (auto simp: p_def)
    next
      case False
      then show ?thesis using sel px btb_to_front_chain [OF c(1) px False] by (auto simp: p_def)
    qed
  next
    case False
    obtain b where ab: "btb_assoc pred = 2 ^ b"
      "btb_set pred baddr = [btb_index pred baddr * 2 ^ b..<btb_index pred baddr * 2 ^ b + 2 ^ b]"
      using wf by (rule btb_wfE) blast
    have "b = 0" using False ab(1) one_less_power [of "2::int" b] by (cases "b = 0") auto
    then have "xs = [btb_index pred baddr]" using lru_chain_single [OF c(1)] c(2) ab(2) by simp
    then show ?thesis using False px c(1) by (auto simp: btb_select_def p_def split: option.split)
  qed
qed

text \<open>Entering a branch into the selected entry: the set's lines follow the specification.\<close>

lemma find_map_option: "find P (map f xs) = map_option f (find (\<lambda>x. P (f x)) xs)"
  by (induction xs) auto

lemma remove1_filter: "distinct xs \<Longrightarrow> remove1 p xs = filter (\<lambda>i. i \<noteq> p) xs"
  by (simp add: distinct_remove1_removeAll removeAll_filter_not_eq eq_commute)

lemma enter_lines:
  fixes es :: "btb_ent list"
  defines "line \<equiv> (\<lambda>es (i :: nat). (btb_addr (es ! i), btb_target ((es :: btb_ent list) ! i)))"
  assumes d: "distinct xs" and ne: "xs \<noteq> []"
    and un: "\<forall>i \<in> set xs. \<forall>j \<in> set xs. btb_addr (es ! i) = baddr \<and> btb_addr (es ! j) = baddr \<longrightarrow> i = j"
    and p: "p = (case find (\<lambda>i. btb_addr (es ! i) = baddr) xs of Some i \<Rightarrow> i | None \<Rightarrow> last xs)"
    and new: "\<And>i. i \<in> set xs \<Longrightarrow> line es' i = (if i = p
        then (baddr, if btb_addr (es ! p) = baddr \<and> correct then btb_target (es ! p) else btarget)
        else line es i)"
  shows "map (line es') (p # remove1 p xs) = spec_btb baddr btarget correct (map (line es) xs)"
proof -
  have px: "p \<in> set xs"
    using last_in_set [OF ne] by (auto simp: p split: option.split dest: find_Some_iff_nth_in)
  have rest: "map (line es') (remove1 p xs) = map (line es) (remove1 p xs)"
    using new d by auto
  have fm: "find (\<lambda>e. fst e = baddr) (map (line es) xs)
      = map_option (line es) (find (\<lambda>i. btb_addr (es ! i) = baddr) xs)"
    by (simp add: find_map_option line_def)
  show ?thesis
  proof (cases "find (\<lambda>i. btb_addr (es ! i) = baddr) xs")
    case None
    then have pl: "p = last xs" using p by simp
    have nm: "btb_addr (es ! p) \<noteq> baddr" using None px by (auto simp: find_None_iff_all)
    have "remove1 p xs = butlast xs"
      using d ne pl by (cases xs rule: rev_cases) (auto simp: remove1_append)
    then show ?thesis using None rest new [OF px] nm
      by (simp add: spec_btb_def fm map_butlast)
  next
    case (Some i)
    then have pi: "p = i" and m: "btb_addr (es ! p) = baddr"
      using p by (auto dest: find_Some_iff_nth_in)
    have "remove1 p xs = filter (\<lambda>j. btb_addr (es ! j) \<noteq> baddr) xs"
      unfolding remove1_filter [OF d] using un px m by (intro filter_cong) auto
    then have "map (line es) (remove1 p xs) = filter (\<lambda>e. fst e \<noteq> baddr) (map (line es) xs)"
      by (simp add: filter_map o_def line_def)
    moreover have "spec_btb baddr btarget correct (map (line es) xs)
        = (baddr, if correct then btb_target (es ! p) else btarget)
            # filter (\<lambda>e. fst e \<noteq> baddr) (map (line es) xs)"
      unfolding spec_btb_def fm Some by (simp add: pi line_def)
    ultimately show ?thesis using rest new [OF px] m by simp
  qed
qed

subsection \<open>The invariant of the predictor\<close>

definition dir_ok :: "bpred_dir \<Rightarrow> bool" where
  "dir_ok d \<longleftrightarrow> (\<forall>c \<in> set (dir_table d). c \<le> 3)
     \<and> (case d of
          DirTwo t \<Rightarrow> (\<exists>a b. a < 31 \<and> b < 31 \<and> l1size t = 2 ^ a \<and> l2size t = 2 ^ b
            \<and> length (shiftregs t) = 2 ^ a \<and> length (l2table t) = 2 ^ b)
            \<and> 0 < shift_width t \<and> shift_width t \<le> 30
            \<and> (\<forall>r \<in> set (shiftregs t). r < 2 ^ shift_width t)
        | DirBimod n tab \<Rightarrow> (\<exists>a < 31. n = 2 ^ a \<and> length tab = 2 ^ a)
        | DirStatic c \<Rightarrow> False)"

definition is_two :: "bpred_dir option \<Rightarrow> bool" where
  "is_two d \<longleftrightarrow> (\<exists>t. d = Some (DirTwo t) \<and> dir_ok (DirTwo t))"

definition is_bimod :: "bpred_dir option \<Rightarrow> bool" where
  "is_bimod d \<longleftrightarrow> (\<exists>n tab. d = Some (DirBimod n tab) \<and> dir_ok (DirBimod n tab))"

definition dirs_wf :: "bpred \<Rightarrow> bool" where
  "dirs_wf pred \<longleftrightarrow>
     (case bp_class pred of
        BPredComb \<Rightarrow> is_bimod (bp_bimod pred) \<and> is_two (bp_twolev pred) \<and> is_bimod (bp_meta pred)
      | BPred2Level \<Rightarrow> is_two (bp_twolev pred)
      | BPred2bit \<Rightarrow> is_bimod (bp_bimod pred)
      | BPred_NUM \<Rightarrow> False
      | _ \<Rightarrow> True)"

definition ras_wf :: "bpred \<Rightarrow> bool" where
  "ras_wf pred \<longleftrightarrow> 0 \<le> ret_size pred \<and> length (ret_stack pred) = nat (ret_size pred)
     \<and> (ret_size pred \<noteq> 0 \<longrightarrow> 0 \<le> ret_tos pred \<and> ret_tos pred < ret_size pred)"

definition stateful :: "bpred \<Rightarrow> bool" where
  "stateful pred \<longleftrightarrow> bp_class pred \<in> {BPredComb, BPred2Level, BPred2bit}"

definition bpred_wf :: "bpred \<Rightarrow> bool" where
  "bpred_wf pred \<longleftrightarrow> dirs_wf pred \<and> (stateful pred \<longrightarrow> btb_wf pred \<and> ras_wf pred)"

definition ctr_ok :: "bpred \<Rightarrow> ctr \<Rightarrow> bool" where
  "ctr_ok pred p \<longleftrightarrow> (\<exists>d. dir_of pred (fst p) = Some d \<and> dir_ok d
     \<and> snd p < length (dir_table d))"

definition du_ok :: "bpred \<Rightarrow> bpred_upd \<Rightarrow> bool" where
  "du_ok pred du \<longleftrightarrow> (\<forall>p \<in> {pdir1 du, pdir2 du, pmeta du}. \<forall>c. p = Some c \<longrightarrow> ctr_ok pred c)"

lemma dir_lookup_ok:
  assumes "dir_ok d"
  shows "\<exists>i. bpred_dir_lookup d baddr = Some i \<and> i < length (dir_table d)"
proof (cases d)
  case (DirTwo t)
  then obtain b where b: "b < 31" "l2size t = 2 ^ b" "length (l2table t) = 2 ^ b"
    using assms by (auto simp: dir_ok_def)
  have "unat (x AND word_of_int (l2size t - 1) :: 32 word) < 2 ^ b" for x
    using unat_and_mask_less [of b x] b by simp
  then show ?thesis using DirTwo b by (simp add: bpred_dir_lookup_def dir_table_def l2_index_def Let_def)
next
  case (DirBimod n tab)
  then obtain a where a: "a < 31" "n = 2 ^ a" "length tab = 2 ^ a"
    using assms by (auto simp: dir_ok_def)
  then show ?thesis using DirBimod mask_index_less [of a]
    by (simp add: bpred_dir_lookup_def dir_table_def BIMOD_HASH_def)
next
  case (DirStatic c)
  with assms show ?thesis by (simp add: dir_ok_def)
qed

lemma dir_ptr_ok:
  assumes "dir_of pred k = Some d" "dir_ok d"
  shows "\<exists>c. dir_ptr pred k baddr = Inr (Some c) \<and> ctr_ok pred c"
  using dir_lookup_ok [OF assms(2), of baddr] assms
  by (auto simp: dir_ptr_def ctr_ok_def)

lemma lookup_dir_ok:
  assumes wf: "dirs_wf pred"
  shows "\<exists>du. lookup_dir isa pred baddr opc du0 = Inr du \<and> du_ok pred du \<and> \<not> du_ras du
    \<and> (stateful pred \<and> \<not> is_jump isa opc \<longrightarrow> pdir1 du \<noteq> None)"
proof (cases "bp_class pred")
  case BPredComb
  then have d: "\<exists>d. dir_of pred TBimod = Some d \<and> dir_ok d" "\<exists>d. dir_of pred TTwolev = Some d \<and> dir_ok d"
    "\<exists>d. dir_of pred TMeta = Some d \<and> dir_ok d"
    using wf by (auto simp: dirs_wf_def is_two_def is_bimod_def dir_of_def)
  then obtain b t m where p: "dir_ptr pred TBimod baddr = Inr (Some b)" "ctr_ok pred b"
    "dir_ptr pred TTwolev baddr = Inr (Some t)" "ctr_ok pred t"
    "dir_ptr pred TMeta baddr = Inr (Some m)" "ctr_ok pred m"
    using dir_ptr_ok by metis
  show ?thesis
    by (cases "is_jump isa opc"; cases "predicts_taken pred m")
      (simp_all add: lookup_dir_def BPredComb p Let_def du_ok_def del: split_paired_All)
next
  case BPred2Level
  then obtain t where "dir_ptr pred TTwolev baddr = Inr (Some t)" "ctr_ok pred t"
    using wf dir_ptr_ok [of pred TTwolev] by (fastforce simp: dirs_wf_def is_two_def dir_of_def)
  then show ?thesis
    by (cases "is_jump isa opc") (simp_all add: lookup_dir_def BPred2Level Let_def du_ok_def del: split_paired_All)
next
  case BPred2bit
  then obtain b where "dir_ptr pred TBimod baddr = Inr (Some b)" "ctr_ok pred b"
    using wf dir_ptr_ok [of pred TBimod] by (fastforce simp: dirs_wf_def is_bimod_def dir_of_def)
  then show ?thesis
    by (cases "is_jump isa opc") (simp_all add: lookup_dir_def BPred2bit Let_def du_ok_def del: split_paired_All)
qed (use wf in \<open>auto simp: lookup_dir_def Let_def du_ok_def stateful_def dirs_wf_def\<close>)

text \<open>Changes outside the direction tables and the BTB keep most of the invariant.\<close>

definition same_tables :: "bpred \<Rightarrow> bpred \<Rightarrow> bool" where
  "same_tables p' p \<longleftrightarrow> bp_class p' = bp_class p \<and> bp_bimod p' = bp_bimod p \<and> bp_twolev p' = bp_twolev p
     \<and> bp_meta p' = bp_meta p \<and> btb_sets p' = btb_sets p \<and> btb_assoc p' = btb_assoc p
     \<and> btb_data p' = btb_data p"

lemma same_tables_wf:
  assumes "same_tables p' p"
  shows "dirs_wf p' = dirs_wf p" "btb_wf p' = btb_wf p" "stateful p' = stateful p"
    "ctr_ok p' c = ctr_ok p c" "du_ok p' du = du_ok p du" "btb_lookup p' a = btb_lookup p a"
    "predicts_taken p' c = predicts_taken p c" "btb_set p' a = btb_set p a" "btb_lines p' a = btb_lines p a"
proof -
  have "dir_of p' = dir_of p" using assms by (auto simp: same_tables_def dir_of_def fun_eq_iff split: ctr_tab.split)
  moreover have "btb_index p' = btb_index p" using assms by (simp add: same_tables_def btb_index_def fun_eq_iff)
  moreover show "dirs_wf p' = dirs_wf p"
    using assms by (cases "bp_class p") (simp_all add: same_tables_def dirs_wf_def)
  ultimately show "btb_wf p' = btb_wf p" "stateful p' = stateful p"
    "ctr_ok p' c = ctr_ok p c" "du_ok p' du = du_ok p du" "btb_lookup p' a = btb_lookup p a"
    "predicts_taken p' c = predicts_taken p c" "btb_set p' a = btb_set p a" "btb_lines p' a = btb_lines p a"
    using assms
    by (simp_all add: same_tables_def btb_wf_def stateful_def ctr_ok_def du_ok_def
        btb_lookup_def btb_set_def predicts_taken_def ctr_val_def btb_lines_def btb_mru_def cong: if_cong)
qed

lemma ras_wf_push:
  assumes "ras_wf p" "ret_size p \<noteq> 0"
  shows "ras_wf (ras_push a p)" "same_tables (ras_push a p) p"
  using assms by (auto simp: ras_wf_def ras_push_def Let_def same_tables_def)

lemma ras_wf_pop:
  assumes "ras_wf p" "ret_size p \<noteq> 0"
  shows "ras_wf (snd (ras_pop p))" "same_tables (snd (ras_pop p)) p"
  using assms by (auto simp: ras_wf_def ras_pop_def same_tables_def)

lemma btb_predict_ok:
  assumes "is_jump isa opc \<or> pdir1 du \<noteq> None"
  shows "\<exists>a. btb_predict isa p baddr opc du = Inr a"
  using assms by (auto simp: btb_predict_def Let_def)

lemma bpred_lookup_stateful:
  assumes "is_ctrl isa opc" "stateful pred"
    and "lookup_dir isa (pred\<lparr>bp_lookups := bp_lookups pred + 1\<rparr>) baddr opc du0 = Inr du"
  shows "bpred_lookup isa pred baddr btarget opc is_call is_return (Some du0) sidx
    = (let pred1 = pred\<lparr>bp_lookups := bp_lookups pred + 1\<rparr>;
           s = (if ret_size pred1 \<noteq> 0 then ret_tos pred1 else 0)
       in if is_return \<and> ret_size pred1 \<noteq> 0
          then Inr (fst (ras_pop pred1), snd (ras_pop pred1), du\<lparr>du_ras := True\<rparr>, s)
          else let pred2 = (if is_call \<and> ret_size pred1 \<noteq> 0 then ras_push baddr pred1 else pred1)
            in cbind (btb_predict isa pred2 baddr opc du) (\<lambda>a. Inr (a, pred2, du, s)))"
  using assms by (cases "bp_class pred") (simp_all add: bpred_lookup_def stateful_def Let_def ras_pop_def)

lemma bpred_lookup_ok:
  assumes wf: "bpred_wf pred"
  shows "\<exists>a pred' du' s. bpred_lookup isa pred baddr btarget opc is_call is_return (Some du0) sidx
      = Inr (a, pred', du', s)
    \<and> bpred_wf pred' \<and> (is_ctrl isa opc \<longrightarrow> du_ok pred' du') \<and> same_tables pred' pred"
proof (cases "is_ctrl isa opc")
  case False
  then show ?thesis using wf by (auto simp: bpred_lookup_def same_tables_def)
next
  case ctrl: True
  define p1 where "p1 = pred\<lparr>bp_lookups := bp_lookups pred + 1\<rparr>"
  have st1: "same_tables p1 pred" by (simp add: p1_def same_tables_def)
  have wf1: "dirs_wf p1" "stateful p1 \<Longrightarrow> btb_wf p1" "stateful p1 \<Longrightarrow> ras_wf p1"
    using wf same_tables_wf [OF st1] by (auto simp: bpred_wf_def p1_def ras_wf_def)
  obtain du where du: "lookup_dir isa p1 baddr opc du0 = Inr du" "du_ok p1 du"
    "stateful p1 \<and> \<not> is_jump isa opc \<longrightarrow> pdir1 du \<noteq> None"
    using lookup_dir_ok [OF wf1(1), of isa baddr opc du0] by blast
  show ?thesis
  proof (cases "stateful pred")
    case False
    then have "bp_class pred = BPredTaken \<or> bp_class pred = BPredNotTaken"
      using wf by (cases "bp_class pred") (auto simp: stateful_def bpred_wf_def dirs_wf_def)
    moreover have "bpred_wf p1" using wf1 by (auto simp: bpred_wf_def)
    ultimately show ?thesis using ctrl du st1
      by (auto simp: bpred_lookup_def Let_def p1_def [symmetric])
  next
    case True
    then have sf: "stateful p1" using same_tables_wf(3) [OF st1] by simp
    note lk = bpred_lookup_stateful [OF ctrl True du(1) [unfolded p1_def], folded p1_def,
        of btarget is_call is_return sidx]
    define s where "s = (if ret_size p1 \<noteq> 0 then ret_tos p1 else 0)"
    show ?thesis
    proof (cases "is_return \<and> ret_size p1 \<noteq> 0")
      case ret: True
      let ?p2 = "snd (ras_pop p1)"
      note rp = ras_wf_pop [OF wf1(3) [OF sf] conjunct2 [OF ret]]
      have "bpred_wf ?p2" using rp(1) wf1 sf same_tables_wf(1-3) [OF rp(2)] by (simp add: bpred_wf_def)
      moreover have "du_ok ?p2 (du\<lparr>du_ras := True\<rparr>)"
        using du(2) same_tables_wf(4) [OF rp(2)] by (simp add: du_ok_def)
      moreover have "same_tables ?p2 pred" using rp(2) st1 by (simp add: same_tables_def)
      moreover have "bpred_lookup isa pred baddr btarget opc is_call is_return (Some du0) sidx
          = Inr (fst (ras_pop p1), ?p2, du\<lparr>du_ras := True\<rparr>, s)"
        unfolding lk Let_def s_def [symmetric] using ret by auto
      ultimately show ?thesis by blast
    next
      case nret: False
      define p2 where "p2 = (if is_call \<and> ret_size p1 \<noteq> 0 then ras_push baddr p1 else p1)"
      have r2: "ras_wf p2" "same_tables p2 p1"
        using ras_wf_push [OF wf1(3) [OF sf]] wf1(3) [OF sf] by (auto simp: p2_def same_tables_def)
      have "is_jump isa opc \<or> pdir1 du \<noteq> None" using du(3) sf by auto
      from btb_predict_ok [OF this] obtain a where a: "btb_predict isa p2 baddr opc du = Inr a" by blast
      have "bpred_wf p2" using r2(1) wf1 sf same_tables_wf(1-3) [OF r2(2)] by (simp add: bpred_wf_def)
      moreover have "du_ok p2 du" using du(2) same_tables_wf(5) [OF r2(2)] by simp
      moreover have "same_tables p2 pred" using r2(2) st1 by (simp add: same_tables_def)
      moreover have "bpred_lookup isa pred baddr btarget opc is_call is_return (Some du0) sidx
          = Inr (a, p2, du, s)"
        unfolding lk Let_def s_def [symmetric] p2_def [symmetric] using nret a by auto
      ultimately show ?thesis by blast
    qed
  qed
qed

subsection \<open>Update\<close>

text \<open>The two-bit counters.\<close>

lemma two_bit_cases: "(c :: 8 word) \<le> 3 \<Longrightarrow> c = 0 \<or> c = 1 \<or> c = 2 \<or> c = 3"
proof -
  assume "c \<le> 3"
  then have "unat c \<le> 3" by (simp add: word_le_nat_alt)
  then have "unat c = 0 \<or> unat c = 1 \<or> unat c = 2 \<or> unat c = 3" by auto
  then show ?thesis by (auto simp: word_unat_eq_iff)
qed

lemma sat_bounds: "c \<le> 3 \<Longrightarrow> sat_inc c \<le> 3" "c \<le> 3 \<Longrightarrow> sat_dec c \<le> 3"
  by (auto dest!: two_bit_cases simp: sat_inc_def sat_dec_def)

lemma sat_twice:
  "c \<le> 3 \<Longrightarrow> 2 \<le>s sat_inc (sat_inc c)" "c \<le> 3 \<Longrightarrow> \<not> 2 \<le>s sat_dec (sat_dec c)"
  by (auto dest!: two_bit_cases simp: sat_inc_def sat_dec_def word_sless_alt word_sle_eq)

definition same_rest :: "bpred \<Rightarrow> bpred \<Rightarrow> bool" where
  "same_rest p' p \<longleftrightarrow> bp_class p' = bp_class p \<and> btb_sets p' = btb_sets p \<and> btb_assoc p' = btb_assoc p
     \<and> btb_data p' = btb_data p \<and> ret_size p' = ret_size p \<and> ret_tos p' = ret_tos p
     \<and> ret_stack p' = ret_stack p"

lemma same_rest_trans: "same_rest a b \<Longrightarrow> same_rest b c \<Longrightarrow> same_rest a c"
  by (simp add: same_rest_def)

lemma same_rest_wf:
  assumes "same_rest p' p"
  shows "btb_wf p' = btb_wf p" "ras_wf p' = ras_wf p" "stateful p' = stateful p"
    "btb_lines p' a = btb_lines p a" "btb_set p' a = btb_set p a" "btb_mru p' a = btb_mru p a"
    "btb_select p' a = btb_select p a"
proof -
  have "btb_index p' = btb_index p" using assms by (simp add: same_rest_def btb_index_def fun_eq_iff)
  then show "btb_wf p' = btb_wf p" "ras_wf p' = ras_wf p" "stateful p' = stateful p"
    "btb_lines p' a = btb_lines p a" "btb_set p' a = btb_set p a" "btb_mru p' a = btb_mru p a"
    "btb_select p' a = btb_select p a"
    using assms by (simp_all add: same_rest_def btb_wf_def ras_wf_def stateful_def btb_lines_def
        btb_mru_def btb_set_def btb_select_def cong: if_cong)
qed

lemma dir_table_set [simp]:
  "\<not> (\<exists>c. d = DirStatic c) \<Longrightarrow> dir_table (set_dir_table tab d) = tab"
  by (cases d) (auto simp: dir_table_def set_dir_table_def)

lemma set_table_ok:
  assumes "dir_ok d" "v \<le> 3"
  shows "dir_ok (set_dir_table ((dir_table d)[i := v]) d)"
  using assms
  by (cases d)
    (auto simp: dir_ok_def dir_table_def set_dir_table_def dest!: set_update_subset_insert [THEN subsetD])

lemma ctr_set_wf:
  assumes wf: "dirs_wf pred" and v: "v \<le> 3"
  shows "dirs_wf (ctr_set p v pred)" and "same_rest (ctr_set p v pred) pred"
    and "ctr_ok pred c \<Longrightarrow> ctr_ok (ctr_set p v pred) c"
proof -
  have b: "is_bimod d \<Longrightarrow> is_bimod (map_option (\<lambda>d. set_dir_table ((dir_table d)[i := v]) d) d)" for d i
    using set_table_ok [OF _ v, of _ i] by (fastforce simp: is_bimod_def set_dir_table_def)
  have t: "is_two d \<Longrightarrow> is_two (map_option (\<lambda>d. set_dir_table ((dir_table d)[i := v]) d) d)" for d i
    using set_table_ok [OF _ v, of _ i] by (fastforce simp: is_two_def set_dir_table_def)
  show "dirs_wf (ctr_set p v pred)"
    using wf b t by (cases "fst p"; cases "bp_class pred") (auto simp: dirs_wf_def ctr_set_def Let_def)
  show "same_rest (ctr_set p v pred) pred"
    by (cases "fst p") (auto simp: ctr_set_def Let_def same_rest_def)
  have len: "length (dir_table (set_dir_table ((dir_table d)[i := v]) d)) = length (dir_table d)" for d i
    by (cases d) (auto simp: dir_table_def set_dir_table_def)
  show "ctr_ok pred c \<Longrightarrow> ctr_ok (ctr_set p v pred) c"
    using set_table_ok [OF _ v]
    by (cases "fst p"; cases "fst c") (auto simp: ctr_ok_def ctr_set_def Let_def dir_of_def len)
qed

lemma ctr_val_le: "ctr_ok pred p \<Longrightarrow> ctr_val pred p \<le> 3"
  by (auto simp: ctr_val_def ctr_ok_def dir_ok_def)

lemma train_wf:
  assumes wf: "dirs_wf pred" and p: "\<And>c. p = Some c \<Longrightarrow> ctr_ok pred c"
  shows "dirs_wf (train up p pred)" and "same_rest (train up p pred) pred"
    and "ctr_ok pred c \<Longrightarrow> ctr_ok (train up p pred) c"
proof -
  have "(if up then sat_inc else sat_dec) (ctr_val pred q) \<le> 3" if "p = Some q" for q
    using sat_bounds [OF ctr_val_le [OF p [OF that]]] by simp
  note s = ctr_set_wf [OF wf this]
  show "dirs_wf (train up p pred)" using wf s(1) by (cases p) (simp_all add: train_def)
  show "same_rest (train up p pred) pred" using s(2) by (cases p) (simp_all add: train_def same_rest_def)
  show "ctr_ok pred c \<Longrightarrow> ctr_ok (train up p pred) c" using s(3) by (cases p) (simp_all add: train_def)
qed

lemma du_ok_mono: "du_ok p du \<Longrightarrow> (\<And>c. ctr_ok p c \<Longrightarrow> ctr_ok p' c) \<Longrightarrow> du_ok p' du"
  by (simp add: du_ok_def)

text \<open>All the training of one update.\<close>

definition train_all :: "32 word \<Rightarrow> bpred_upd \<Rightarrow> bpred \<Rightarrow> bpred" where
  "train_all taken du p =
     train_meta taken du (train (taken \<noteq> 0) (pdir2 du) (train (taken \<noteq> 0) (pdir1 du) p))"

lemma train_all_wf:
  assumes wf: "dirs_wf pred" and du: "du_ok pred du"
  shows "dirs_wf (train_all taken du pred) \<and> same_rest (train_all taken du pred) pred"
proof -
  define a where "a = train (taken \<noteq> 0) (pdir1 du) pred"
  define b where "b = train (taken \<noteq> 0) (pdir2 du) a"
  have p: "ctr_ok p c" if "du_ok p du" "pdir1 du = Some c \<or> pdir2 du = Some c \<or> pmeta du = Some c" for p c
    using that by (auto simp: du_ok_def simp del: split_paired_All)
  have a: "dirs_wf a" "same_rest a pred" "du_ok a du"
    unfolding a_def using p [OF du]
    by (auto intro!: train_wf [OF wf] du_ok_mono [OF du] simp del: split_paired_All)
  have b: "dirs_wf b" "same_rest b a" "du_ok b du"
    unfolding b_def using p [OF a(3)]
    by (auto intro!: train_wf [OF a(1)] du_ok_mono [OF a(3)] simp del: split_paired_All)
  have "dirs_wf (train_meta taken du b) \<and> same_rest (train_meta taken du b) b"
    using train_wf(1,2) [OF b(1) p [OF b(3)]] b(1) by (simp add: train_meta_def same_rest_def)
  then show ?thesis
    using same_rest_trans [OF _ same_rest_trans [OF b(2) a(2)]]
    unfolding train_all_def a_def [symmetric] b_def [symmetric] by blast
qed

lemma update_stats_same:
  "same_tables (fst (update_stats isa taken pt correct opc du pred)) pred
    \<and> same_rest (fst (update_stats isa taken pt correct opc du pred)) pred"
  by (simp add: update_stats_def Let_def same_tables_def same_rest_def)

lemma update_history_wf:
  assumes wf: "dirs_wf pred"
  shows "\<exists>p. update_history isa baddr taken opc pred = Inr p \<and> dirs_wf p \<and> same_rest p pred
    \<and> (\<forall>c. ctr_ok pred c \<longrightarrow> ctr_ok p c)"
proof (cases "\<not> is_jump isa opc \<and> (bp_class pred = BPred2Level \<or> bp_class pred = BPredComb)")
  case False
  then have "update_history isa baddr taken opc pred = Inr pred" unfolding update_history_def by (rule if_not_P)
  then show ?thesis using wf by (auto simp: same_rest_def)
next
  case True
  then have "is_two (bp_twolev pred)" using wf by (auto simp: dirs_wf_def)
  then obtain t where t: "bp_twolev pred = Some (DirTwo t)" "dir_ok (DirTwo t)"
    unfolding is_two_def by blast
  let ?i = "l1_index t baddr"
  define r where "r = (push_bit 1 (shiftregs t ! ?i) OR (if taken \<noteq> 0 then 1 else 0)) AND (2 ^ shift_width t - 1)"
  let ?t = "t\<lparr>shiftregs := (shiftregs t)[?i := r]\<rparr>"
  let ?p = "pred\<lparr>bp_twolev := Some (DirTwo ?t)\<rparr>"
  have sw: "0 < shift_width t" "shift_width t \<le> 30" using t(2) by (auto simp: dir_ok_def)
  have "unat (2 ^ shift_width t :: 32 word) = 2 ^ shift_width t"
    using sw by (intro unat_two_power) simp
  then have "r < 2 ^ shift_width t" unfolding r_def
    using unat_and_mask_less [of "shift_width t" "push_bit 1 (shiftregs t ! ?i) OR (if taken \<noteq> 0 then 1 else 0)"]
    using sw unfolding word_less_nat_alt by simp
  then have ok: "dir_ok (DirTwo ?t)"
    using t(2) by (auto simp: dir_ok_def dir_table_def dest!: set_update_subset_insert [THEN subsetD])
  have "update_history isa baddr taken opc pred = Inr ?p"
    unfolding update_history_def if_P [OF True] t(1) by (simp add: Let_def r_def)
  moreover have "dirs_wf ?p" using wf t(1) ok by (cases "bp_class pred") (auto simp: dirs_wf_def is_two_def)
  moreover have "ctr_ok ?p c" if "ctr_ok pred c" for c
    using that t(1) ok by (cases "fst c") (auto simp: ctr_ok_def dir_of_def dir_table_def)
  ultimately show ?thesis by (auto simp: same_rest_def)
qed

subsection \<open>The branch target buffer after an update\<close>

lemma lru_chain_cong:
  assumes "\<And>i. i \<in> set xs \<Longrightarrow> btb_next (e1 ! i) = btb_next (e2 ! i) \<and> btb_prev (e1 ! i) = btb_prev (e2 ! i)"
    and "length e1 = length e2"
  shows "lru_chain e1 xs = lru_chain e2 xs"
proof -
  have "dseg (bnx e1) (bpv e1) None (Some (hd xs)) xs None (Some (last xs))
      = dseg (bnx e2) (bpv e2) None (Some (hd xs)) xs None (Some (last xs))"
    using assms(1) by (intro dseg_cong) auto
  with assms(2) show ?thesis by (simp add: lru_chain_def)
qed

lemma set_ok_cong:
  assumes "\<And>i. i \<in> B \<Longrightarrow> e1 ! i = e2 ! i" and "length e1 = length e2"
  shows "set_ok e1 B = set_ok e2 B"
proof -
  have "lru_chain e1 xs = lru_chain e2 xs" if "set xs = B" for xs
    using assms that by (intro lru_chain_cong) auto
  then have "(\<exists>xs. lru_chain e1 xs \<and> set xs = B) = (\<exists>xs. lru_chain e2 xs \<and> set xs = B)" by auto
  with assms(1) show ?thesis by (simp add: set_ok_def)
qed

lemma btb_enter_links [simp]:
  "btb_next (btb_enter baddr btarget correct opc e) = btb_next e"
  "btb_prev (btb_enter baddr btarget correct opc e) = btb_prev e"
  "btb_addr (btb_enter baddr btarget correct opc e) = baddr"
  "btb_target (btb_enter baddr btarget correct opc e)
    = (if btb_addr e = baddr \<and> correct then btb_target e else btarget)"
  by (auto simp: btb_enter_def)

lemma blocks_disjoint:
  fixes i j n :: nat
  assumes "i \<noteq> j"
  shows "{i * n..<i * n + n} \<inter> {j * n..<j * n + n} = {}"
proof -
  have "k div n = m" if "k \<in> {m * n..<m * n + n}" for k m
    using that by (intro div_nat_eqI) (auto simp: algebra_simps)
  with assms show ?thesis by blast
qed

text \<open>
  One taken update of the BTB: the set of the branch follows the specification, the other sets
  are unchanged.
\<close>

lemma btb_step:
  fixes pred pred'
  defines "es0 \<equiv> btb_data pred"
  assumes wf: "btb_wf pred" and nz: "baddr \<noteq> 0"
    and sel: "btb_select pred baddr = Inr (p, es)"
    and p': "btb_sets pred' = btb_sets pred" "btb_assoc pred' = btb_assoc pred"
      "btb_data pred' = upd_ent p (btb_enter baddr btarget correct opc) es"
  shows "btb_wf pred'"
    and "btb_lines pred' baddr = spec_btb baddr btarget correct (btb_lines pred baddr)"
    and "btb_index pred a \<noteq> btb_index pred baddr \<Longrightarrow> btb_lines pred' a = btb_lines pred a"
proof -
  define B where "B = set (btb_set pred baddr)"
  define es1 where "es1 = upd_ent p (btb_enter baddr btarget correct opc) es"
  have d1: "btb_data pred' = es1" by (simp add: p' es1_def)
  obtain xs where xs: "lru_chain es0 xs" "set xs = B"
    using btb_set_ok(1) [OF wf, of baddr] by (auto simp: set_ok_def es0_def B_def)
  have pp: "p = (case find (\<lambda>i. btb_addr (es0 ! i) = baddr) xs of Some i \<Rightarrow> i | None \<Rightarrow> last xs)"
    and px: "p \<in> set xs" and lc: "lru_chain es (p # remove1 p xs)" and se: "same_ents (set xs) es es0"
    using btb_select_result [OF wf nz xs(1) [unfolded es0_def] xs(2) [unfolded B_def]] sel
    by (auto simp: es0_def)
  have dx: "distinct xs" and nx: "xs \<noteq> []" and sx: "set xs \<subseteq> {..<length es0}"
    using xs(1) by (auto simp: lru_chain_def)
  have len: "length es = length es0" using se by (simp add: same_ents_def)
  have plt: "p < length es" using px sx len by auto
  have ln: "length es1 = length es0" by (simp add: es1_def len)
  have fld: "btb_addr (es ! i) = btb_addr (es0 ! i)" "btb_target (es ! i) = btb_target (es0 ! i)" for i
    using se by (simp_all add: same_ents_def)
  have out: "es1 ! i = es0 ! i" if "i \<notin> B" for i
    using that se px xs(2) plt by (auto simp: es1_def upd_ent_nth same_ents_def)
  have c1: "lru_chain es1 (p # remove1 p xs)"
    using lc plt by (subst lru_chain_cong [of _ _ es]) (auto simp: es1_def upd_ent_nth)
  have s1: "set (p # remove1 p xs) = B" using px dx xs(2) by auto
  have un: "i = j" if "i \<in> B" "j \<in> B" "btb_addr (es0 ! i) = btb_addr (es0 ! j)" "btb_addr (es0 ! i) \<noteq> 0" for i j
    using btb_set_ok(1) [OF wf, of baddr] that unfolding set_ok_def B_def es0_def by blast
  have line: "(btb_addr (es1 ! i), btb_target (es1 ! i)) = (if i = p
      then (baddr, if btb_addr (es0 ! p) = baddr \<and> correct then btb_target (es0 ! p) else btarget)
      else (btb_addr (es0 ! i), btb_target (es0 ! i)))" for i
    using plt by (simp add: es1_def upd_ent_nth fld)
  have hit: "i = p" if "i \<in> B" "btb_addr (es0 ! i) = baddr" for i
  proof -
    have "find (\<lambda>i. btb_addr (es0 ! i) = baddr) xs \<noteq> None"
      using that xs(2) by (auto simp: find_None_iff_all)
    then obtain k where k: "find (\<lambda>i. btb_addr (es0 ! i) = baddr) xs = Some k" by auto
    then have "k \<in> B" "btb_addr (es0 ! k) = baddr" using xs(2) by (auto dest: find_Some_iff_nth_in)
    then show ?thesis using un [of i k] that nz k pp by simp
  qed
  have ad: "btb_addr (es1 ! i) = (if i = p then baddr else btb_addr (es0 ! i))" for i
    using line [of i] by (cases "i = p") simp_all
  have okB: "set_ok es1 B"
    unfolding set_ok_def
  proof (intro conjI ballI impI)
    show "\<exists>xs. lru_chain es1 xs \<and> set xs = B" using c1 s1 by blast
    fix i j assume ij: "i \<in> B" "j \<in> B" "btb_addr (es1 ! i) = btb_addr (es1 ! j) \<and> btb_addr (es1 ! i) \<noteq> 0"
    consider "i = p" "j = p" | "i = p" "j \<noteq> p" | "i \<noteq> p" "j = p" | "i \<noteq> p" "j \<noteq> p" by blast
    then show "i = j"
    proof cases
      case 2
      then have "btb_addr (es0 ! j) = baddr" using ij(3) unfolding ad by metis
      then show ?thesis using hit [OF ij(2)] 2 by blast
    next
      case 3
      then have "btb_addr (es0 ! i) = baddr" using ij(3) unfolding ad by metis
      then show ?thesis using hit [OF ij(1)] 3 by blast
    next
      case 4
      then have "btb_addr (es0 ! i) = btb_addr (es0 ! j)" "btb_addr (es0 ! i) \<noteq> 0"
        using ij(3) unfolding ad by metis+
      then show ?thesis by (rule un [OF ij(1,2)])
    qed simp
  qed
  obtain a b where ab: "a < 31" "b < 31" "btb_sets pred = 2 ^ a" "btb_assoc pred = 2 ^ b"
    "length es0 = 2 ^ a * 2 ^ b"
    "\<And>j. j < 2 ^ a \<Longrightarrow> set_ok es0 {j * 2 ^ b..<j * 2 ^ b + 2 ^ b}"
    "\<And>c. btb_index pred c < 2 ^ a"
    "\<And>c. btb_set pred c = [btb_index pred c * 2 ^ b..<btb_index pred c * 2 ^ b + 2 ^ b]"
    by (rule btb_wfE [OF wf, folded es0_def]) (rule that; assumption)
  let ?blk = "\<lambda>j. {j * 2 ^ b..<j * 2 ^ b + 2 ^ b :: nat}"
  have B: "B = ?blk (btb_index pred baddr)" by (simp add: B_def ab(8))
  have blk: "set_ok es1 (?blk j)" if j: "j < 2 ^ a" for j
  proof (cases "j = btb_index pred baddr")
    case True
    then show ?thesis using okB B by simp
  next
    case False
    then have "?blk j \<inter> B = {}" unfolding B by (rule blocks_disjoint)
    then have "set_ok es1 (?blk j) = set_ok es0 (?blk j)" by (intro set_ok_cong out ln) blast
    then show ?thesis using ab(6) [OF j] by simp
  qed
  show wf': "btb_wf pred'"
    unfolding btb_wf_def d1 p' using ab(1-5) blk by (auto simp: ln)
  have bs: "btb_set pred' c = btb_set pred c" for c
    by (simp add: btb_set_def btb_index_def p')
  have "btb_mru pred baddr = xs"
    using xs by (intro btb_mru_chain [OF wf]) (simp_all add: es0_def B_def)
  then have l0: "btb_lines pred baddr = map (\<lambda>i. (btb_addr (es0 ! i), btb_target (es0 ! i))) xs"
    by (simp add: btb_lines_def es0_def)
  have "btb_mru pred' baddr = p # remove1 p xs"
    using c1 s1 by (intro btb_mru_chain [OF wf']) (simp_all add: d1 bs B_def)
  then have l1: "btb_lines pred' baddr
      = map (\<lambda>i. (btb_addr (es1 ! i), btb_target (es1 ! i))) (p # remove1 p xs)"
    by (simp add: btb_lines_def d1)
  show "btb_lines pred' baddr = spec_btb baddr btarget correct (btb_lines pred baddr)"
    unfolding l0 l1
  proof (rule enter_lines [OF dx nx _ pp])
    show "\<forall>i \<in> set xs. \<forall>j \<in> set xs. btb_addr (es0 ! i) = baddr \<and> btb_addr (es0 ! j) = baddr \<longrightarrow> i = j"
      by (metis hit xs(2))
  qed (rule line)
  show "btb_lines pred' a = btb_lines pred a" if "btb_index pred a \<noteq> btb_index pred baddr" for a
  proof -
    have dis: "?blk (btb_index pred a) \<inter> B = {}" unfolding B using that by (rule blocks_disjoint)
    obtain ys where ys: "lru_chain es0 ys" "set ys = ?blk (btb_index pred a)"
      using ab(6) [OF ab(7) [of a]] by (auto simp: set_ok_def)
    have o: "es1 ! i = es0 ! i" if "i \<in> set ys" for i using that ys(2) dis by (intro out) blast
    then have "lru_chain es1 ys" using ys(1) ln by (subst lru_chain_cong [of _ _ es0]) auto
    then have "btb_mru pred' a = ys"
      using ys(2) by (intro btb_mru_chain [OF wf']) (simp_all add: d1 bs ab(8))
    moreover have "btb_mru pred a = ys"
      using ys by (intro btb_mru_chain [OF wf]) (simp_all add: es0_def ab(8))
    ultimately show ?thesis using o by (simp add: btb_lines_def d1 es0_def)
  qed
qed

subsection \<open>The whole update\<close>

lemma same_tables_trans: "same_tables a b \<Longrightarrow> same_tables b c \<Longrightarrow> same_tables a c"
  by (simp add: same_tables_def)

lemma bpred_wfI: "dirs_wf p \<Longrightarrow> (stateful p \<Longrightarrow> btb_wf p \<and> ras_wf p) \<Longrightarrow> bpred_wf p"
  by (simp add: bpred_wf_def)

lemma btb_lines_cong:
  assumes "btb_data p = btb_data q" "btb_sets p = btb_sets q" "btb_assoc p = btb_assoc q"
  shows "btb_lines p a = btb_lines q a" "btb_wf p = btb_wf q" "btb_index p a = btb_index q a"
    "btb_select p a = btb_select q a" "btb_lookup p a = btb_lookup q a"
proof -
  have i: "btb_index p = btb_index q" using assms by (simp add: btb_index_def fun_eq_iff)
  then show "btb_lines p a = btb_lines q a" "btb_wf p = btb_wf q" "btb_index p a = btb_index q a"
    "btb_select p a = btb_select q a" "btb_lookup p a = btb_lookup q a"
    using assms
    by (simp_all add: btb_lines_def btb_mru_def btb_set_def btb_wf_def btb_select_def btb_lookup_def cong: if_cong)
qed

text \<open>Whether an update reaches the direction tables and the BTB.\<close>

definition goes_on :: "op_isa \<Rightarrow> nat \<Rightarrow> bpred_upd \<Rightarrow> bool" where
  "goes_on isa opc du \<longleftrightarrow> \<not> (MD_IS_INDIR isa opc \<and> du_ras du)"

lemma update_stats_goes_on: "snd (update_stats isa taken pt correct opc du pred) = goes_on isa opc du"
  by (simp add: update_stats_def Let_def goes_on_def)

lemma update_stateful:
  assumes st: "stateful pred" and ctrl: "is_ctrl isa opc" and go: "goes_on isa opc du"
  shows "bpred_update isa pred baddr btarget taken pt correct opc (Some du)
    = cbind (update_history isa baddr taken opc (fst (update_stats isa taken pt correct opc du pred))) (\<lambda>p2.
      cbind (if taken \<noteq> 0
             then cbind (btb_select p2 baddr) (\<lambda>(p, es). Inr (Some p, p2\<lparr>btb_data := es\<rparr>))
             else Inr (None, p2)) (\<lambda>(pbtb, p3).
      Inr (case pbtb of None \<Rightarrow> train_all taken du p3
           | Some p \<Rightarrow> (train_all taken du p3)\<lparr>btb_data := upd_ent p (btb_enter baddr btarget correct opc)
               (btb_data (train_all taken du p3))\<rparr>)))"
proof -
  obtain p1 g where s: "update_stats isa taken pt correct opc du pred = (p1, g)" by force
  have g: "g" using update_stats_goes_on [of isa taken pt correct opc du pred] go s by simp
  have c: "bp_class pred \<noteq> BPredNotTaken" "bp_class pred \<noteq> BPredTaken"
    using st by (auto simp: stateful_def)
  show ?thesis using ctrl g c unfolding bpred_update_def train_all_def Let_def by (simp add: s)
qed

lemma bpred_update_idle:
  assumes wf: "bpred_wf pred" and idle: "\<not> (is_ctrl isa opc \<and> goes_on isa opc du \<and> stateful pred)"
  shows "\<exists>p. bpred_update isa pred baddr btarget taken pt correct opc (Some du) = Inr p
    \<and> same_tables p pred \<and> same_rest p pred"
proof (cases "is_ctrl isa opc")
  case False
  then show ?thesis by (simp add: bpred_update_def same_tables_def same_rest_def)
next
  case True
  obtain p1 g where s: "update_stats isa taken pt correct opc du pred = (p1, g)" by force
  have g: "g = goes_on isa opc du" using update_stats_goes_on [of isa taken pt correct opc du pred] s by simp
  have p1: "same_tables p1 pred" "same_rest p1 pred"
    using update_stats_same [of isa taken pt correct opc du pred] s by simp_all
  have "\<not> g \<or> bp_class pred = BPredNotTaken \<or> bp_class pred = BPredTaken"
    using idle True g wf by (cases "bp_class pred") (auto simp: stateful_def bpred_wf_def dirs_wf_def)
  then show ?thesis using True p1 by (auto simp: bpred_update_def s)
qed

lemma bpred_update_active:
  assumes wf: "bpred_wf pred" and du: "du_ok pred du" and nz: "taken \<noteq> 0 \<Longrightarrow> baddr \<noteq> 0"
    and act: "is_ctrl isa opc" "goes_on isa opc du" "stateful pred"
  shows "\<exists>p. bpred_update isa pred baddr btarget taken pt correct opc (Some du) = Inr p
    \<and> bpred_wf p \<and> bp_class p = bp_class pred \<and> btb_sets p = btb_sets pred \<and> btb_assoc p = btb_assoc pred
    \<and> btb_lines p baddr = (if taken = 0 then btb_lines pred baddr
         else spec_btb baddr btarget correct (btb_lines pred baddr))
    \<and> (\<forall>a. btb_index pred a \<noteq> btb_index pred baddr \<longrightarrow> btb_lines p a = btb_lines pred a)"
proof -
  define p1 where "p1 = fst (update_stats isa taken pt correct opc du pred)"
  have p1: "same_tables p1 pred" "same_rest p1 pred" using update_stats_same by (simp_all add: p1_def)
  have wf1: "dirs_wf p1" "btb_wf p1" "ras_wf p1" "du_ok p1 du"
    using wf act(3) du same_tables_wf [OF p1(1)] same_rest_wf [OF p1(2)] by (simp_all add: bpred_wf_def)
  obtain p2 where p2: "update_history isa baddr taken opc p1 = Inr p2" "dirs_wf p2" "same_rest p2 p1"
      "\<And>c. ctr_ok p1 c \<Longrightarrow> ctr_ok p2 c"
    using update_history_wf [OF wf1(1), of isa baddr taken opc] by blast
  have r2: "same_rest p2 pred" using p2(3) p1(2) by (rule same_rest_trans)
  have wf2: "btb_wf p2" "ras_wf p2" "du_ok p2 du" "stateful p2"
    using wf1 act(3) same_rest_wf [OF p2(3)] same_rest_wf(3) [OF r2] du_ok_mono [OF wf1(4) p2(4)] by simp_all
  note up = update_stateful [OF act(3,1,2), of baddr btarget taken pt correct, folded p1_def, unfolded p2(1)]
  have l2: "btb_lines p2 a = btb_lines pred a" "btb_index p2 a = btb_index pred a" for a
    using r2 btb_lines_cong(1,3) [of p2 pred a] by (simp_all add: same_rest_def)
  show ?thesis
  proof (cases "taken = 0")
    case True
    define p6 where "p6 = train_all taken du p2"
    have p6: "dirs_wf p6" "same_rest p6 p2" using train_all_wf [OF p2(2) wf2(3)] by (simp_all add: p6_def)
    have "bpred_update isa pred baddr btarget taken pt correct opc (Some du) = Inr p6"
      unfolding up using True by (simp add: p6_def)
    moreover have "bpred_wf p6" using p6 wf2 same_rest_wf [OF p6(2)] by (simp add: bpred_wf_def)
    moreover have "btb_lines p6 a = btb_lines pred a" for a using same_rest_wf(4) [OF p6(2)] l2 by simp
    ultimately show ?thesis using True p6(2) r2 by (simp add: same_rest_def)
  next
    case False
    obtain xs where xs: "lru_chain (btb_data p2) xs" "set xs = set (btb_set p2 baddr)"
      using btb_set_ok(1) [OF wf2(1), of baddr] by (auto simp: set_ok_def)
    obtain p es where sel: "btb_select p2 baddr = Inr (p, es)"
      using btb_select_result [OF wf2(1) nz [OF False] xs] by blast
    define p3 where "p3 = p2\<lparr>btb_data := es\<rparr>"
    have dirs: "dirs_wf p3 = dirs_wf p2" "ctr_ok p3 c = ctr_ok p2 c" "du_ok p3 du = du_ok p2 du" for c
    proof -
      show "dirs_wf p3 = dirs_wf p2" by (cases "bp_class p2") (simp_all add: p3_def dirs_wf_def)
      have "dir_of p3 = dir_of p2" by (auto simp: p3_def dir_of_def fun_eq_iff split: ctr_tab.split)
      then show "ctr_ok p3 c = ctr_ok p2 c" "du_ok p3 du = du_ok p2 du"
        by (simp_all add: ctr_ok_def du_ok_def)
    qed
    define p6 where "p6 = train_all taken du p3"
    have p6: "dirs_wf p6" "same_rest p6 p3" using train_all_wf [of p3 du taken] p2(2) wf2(3) dirs
      by (simp_all add: p6_def)
    define p7 where "p7 = p6\<lparr>btb_data := upd_ent p (btb_enter baddr btarget correct opc) (btb_data p6)\<rparr>"
    have 7: "btb_sets p7 = btb_sets p2" "btb_assoc p7 = btb_assoc p2" "bp_class p7 = bp_class p2"
      "btb_data p7 = upd_ent p (btb_enter baddr btarget correct opc) es"
      using p6(2) by (simp_all add: p7_def same_rest_def p3_def)
    note st = btb_step [OF wf2(1) nz [OF False] sel 7(1,2,4)]
    have "bpred_update isa pred baddr btarget taken pt correct opc (Some du) = Inr p7"
      unfolding up using False sel by (simp add: p7_def p6_def p3_def)
    moreover have "dirs_wf p7" using p6(1) by (cases "bp_class p6") (simp_all add: p7_def dirs_wf_def)
    moreover have "ras_wf p7" using p6(2) wf2(2) by (simp add: p7_def p3_def same_rest_def ras_wf_def)
    ultimately show ?thesis using st False 7 r2 l2 by (auto simp: bpred_wf_def same_rest_def)
  qed
qed

end
