(* ===== verification/BpredProps.thy ===== *)
theory BpredProps
  imports BpredCorrect
begin

text \<open>
  What the branch predictor guarantees: which arguments \<open>bpred_create\<close> accepts and that it
  builds a well-formed predictor, that lookups and updates never fail and keep the invariant,
  that the branch target buffer is an LRU list per set, that the return-address stack is a
  stack of its last \<open>ret_size\<close> entries with recovery, and that training is learnt.
\<close>

subsection \<open>Creation\<close>

definition pow2_arg :: "int \<Rightarrow> bool" where
  "pow2_arg n \<longleftrightarrow> (\<exists>k < 31. n = 2 ^ k)"

definition legal_args :: "bpred_class \<Rightarrow> int \<Rightarrow> int \<Rightarrow> int \<Rightarrow> int \<Rightarrow> int \<Rightarrow> int \<Rightarrow> int \<Rightarrow> int \<Rightarrow> bool" where
  "legal_args cls bimod_size l1 l2 meta_size sw sets assoc rs \<longleftrightarrow>
     cls \<noteq> BPred_NUM
     \<and> (cls \<in> {BPredComb, BPred2bit} \<longrightarrow> pow2_arg bimod_size)
     \<and> (cls \<in> {BPredComb, BPred2Level} \<longrightarrow> pow2_arg l1 \<and> pow2_arg l2 \<and> 0 < sw \<and> sw \<le> 30)
     \<and> (cls = BPredComb \<longrightarrow> pow2_arg meta_size)
     \<and> (cls \<in> {BPredComb, BPred2Level, BPred2bit} \<longrightarrow>
          pow2_arg sets \<and> pow2_arg assoc \<and> (rs = 0 \<or> pow2_arg rs))"

lemma not_pow2_arg: "0 \<le> n \<Longrightarrow> n < 2 ^ 31 \<Longrightarrow> not_pow2 n \<longleftrightarrow> \<not> pow2_arg n"
proof -
  assume n: "0 \<le> n" "n < 2 ^ 31"
  show ?thesis
  proof (cases "n = 0")
    case True
    then show ?thesis by (simp add: not_pow2_def pow2_arg_def)
  next
    case False
    have "(\<exists>k. n = 2 ^ k) \<longleftrightarrow> pow2_arg n"
    proof
      assume "\<exists>k. n = 2 ^ k"
      then obtain k where k: "n = 2 ^ k" ..
      have "k < 31"
      proof (rule ccontr)
        assume "\<not> k < 31"
        then have "(2 :: int) ^ 31 \<le> 2 ^ k" by (intro power_increasing) auto
        then show False using n(2) k by simp
      qed
      then show "pow2_arg n" using k by (auto simp: pow2_arg_def)
    qed (auto simp: pow2_arg_def)
    then show ?thesis using False n(1) and_pred_int [of n] by (auto simp: not_pow2_def)
  qed
qed

lemma flipflop_length [simp]: "length (flipflop_table n f) = n"
  by (induction n arbitrary: f) auto

lemma flipflop_range: "c \<in> set (flipflop_table n f) \<Longrightarrow> f \<in> {1, 2} \<Longrightarrow> c \<in> {1, 2}"
  by (induction n arbitrary: f) auto

lemma flipflop_le: "c \<in> set (flipflop_table n 1) \<Longrightarrow> c \<le> 3"
  using flipflop_range [of c n 1] by auto

lemma create_bimod:
  assumes "pow2_arg n"
  shows "\<exists>d. bpred_dir_create BPred2bit n b c e = Inr d \<and> is_bimod (Some d)"
proof -
  obtain k where k: "k < 31" "n = 2 ^ k" using assms by (auto simp: pow2_arg_def)
  have "\<not> not_pow2 n"
    using assms k not_pow2_arg [of n] power_strict_increasing [OF k(1), of "2::int"] by simp
  then have "bpred_dir_create BPred2bit n b c e = Inr (DirBimod n (flipflop_table (nat n) 1))"
    by (simp add: bpred_dir_create_def)
  moreover have "dir_ok (DirBimod n (flipflop_table (nat n) 1))"
    using k flipflop_le by (auto simp: dir_ok_def dir_table_def nat_power_eq)
  ultimately show ?thesis by (simp add: is_bimod_def)
qed

lemma create_two:
  assumes p: "pow2_arg l1" "pow2_arg l2" and sw: "0 < sw" "sw \<le> 30"
  shows "\<exists>d. bpred_dir_create BPred2Level l1 l2 sw xr = Inr d \<and> is_two (Some d)"
proof -
  obtain k j where k: "k < 31" "l1 = 2 ^ k" and j: "j < 31" "l2 = 2 ^ j" using p by (auto simp: pow2_arg_def)
  have np: "\<not> not_pow2 l1" "\<not> not_pow2 l2"
    using p k j not_pow2_arg [of l1] not_pow2_arg [of l2] power_strict_increasing [OF k(1), of "2::int"]
      power_strict_increasing [OF j(1), of "2::int"] by simp_all
  let ?t = "\<lparr>l1size = l1, l2size = l2, shift_width = nat sw, use_xor = xr,
    shiftregs = replicate (nat l1) 0, l2table = flipflop_table (nat l2) 1\<rparr>"
  have "bpred_dir_create BPred2Level l1 l2 sw xr = Inr (DirTwo ?t)"
    using np sw by (simp add: bpred_dir_create_def)
  moreover have "dir_ok (DirTwo ?t)"
  proof -
    have "0 < (2 :: 32 word) ^ nat sw" using sw by (auto simp: word_gt_0)
    then show ?thesis using k j sw flipflop_le
      by (auto simp: dir_ok_def dir_table_def nat_power_eq)
  qed
  ultimately show ?thesis by (simp add: is_two_def)
qed

lemma init_dseg:
  assumes "n > 0" "d + k = n"
  shows "dseg (\<lambda>i. if i mod n \<noteq> n - 1 then Some (i + 1) else None)
       (\<lambda>i. if i mod n \<noteq> 0 then Some (i - 1) else None)
       (if d = 0 then None else Some (j * n + d - 1)) (if k = 0 then None else Some (j * n + d))
       [j * n + d..<j * n + n] None (Some (j * n + n - 1))"
  using assms
proof (induction k arbitrary: d)
  case 0
  then show ?case by simp
next
  case (Suc k)
  have u: "[j * n + d..<j * n + n] = (j * n + d) # [j * n + Suc d..<j * n + n]"
    using Suc.prems by (simp add: upt_conv_Cons)
  have m: "(j * n + d) mod n = d" using Suc.prems by simp
  show ?case
    using Suc.IH [of "Suc d"] Suc.prems unfolding u
    by (cases "d = 0"; cases "k = 0") (auto simp: m)
qed

lemma btb_init_ok:
  assumes "a < 31" "b < 31"
  defines "es \<equiv> map (btb_init_ent (2 ^ b)) [0..<2 ^ a * 2 ^ b]"
  assumes j: "j < 2 ^ a"
  shows "set_ok es {j * 2 ^ b..<j * 2 ^ b + 2 ^ b}"
proof -
  let ?n = "2 ^ b :: nat" and ?xs = "[j * 2 ^ b..<j * 2 ^ b + 2 ^ b] :: nat list"
  have "j * ?n + ?n \<le> 2 ^ a * ?n" using j by (metis add.commute mult_Suc mult_le_mono1 Suc_leI)
  then have nth: "es ! i = btb_init_ent ?n i" and len: "i < length es" if "i \<in> set ?xs" for i
    using that by (simp_all add: es_def)
  let ?nx = "\<lambda>i. if i mod ?n \<noteq> ?n - 1 then Some (i + 1) else None"
  let ?pv = "\<lambda>i. if i mod ?n \<noteq> 0 then Some (i - 1) else None"
  have lk: "bnx es i = ?nx i" "bpv es i = ?pv i" if "i \<in> set ?xs" for i
  proof -
    have n1: "?n > 1 \<longleftrightarrow> b \<noteq> 0" using one_less_power [of "2 :: nat" b] by (cases "b = 0") simp_all
    show "bnx es i = ?nx i" "bpv es i = ?pv i"
      unfolding nth [OF that] btb_init_ent_def n1 by (cases "b = 0"; simp)+
  qed
  have d: "dseg ?nx ?pv None (Some (j * ?n)) ?xs None (Some (j * ?n + ?n - 1))"
    using init_dseg [of ?n 0 ?n j] by simp
  have "dseg (bnx es) (bpv es) None (Some (hd ?xs)) ?xs None (Some (last ?xs))
      = dseg ?nx ?pv None (Some (hd ?xs)) ?xs None (Some (last ?xs))"
    using lk by (intro dseg_cong) auto
  moreover have "hd ?xs = j * ?n" "last ?xs = j * ?n + ?n - 1" by simp_all
  ultimately have "lru_chain es ?xs"
    unfolding lru_chain_def using d len by (auto simp del: upt_Suc)
  moreover have "btb_addr (es ! i) = 0" if "i \<in> set ?xs" for i
    using nth [OF that] by (simp add: btb_init_ent_def)
  ultimately show ?thesis unfolding set_ok_def by (intro conjI exI [of _ ?xs]) auto
qed

definition dirs_legal :: "bpred_class \<Rightarrow> int \<Rightarrow> int \<Rightarrow> int \<Rightarrow> int \<Rightarrow> int \<Rightarrow> bool" where
  "dirs_legal cls bimod_size l1 l2 meta_size sw \<longleftrightarrow>
     cls \<noteq> BPred_NUM
     \<and> (cls \<in> {BPredComb, BPred2bit} \<longrightarrow> pow2_arg bimod_size)
     \<and> (cls \<in> {BPredComb, BPred2Level} \<longrightarrow> pow2_arg l1 \<and> pow2_arg l2 \<and> 0 < sw \<and> sw \<le> 30)
     \<and> (cls = BPredComb \<longrightarrow> pow2_arg meta_size)"

lemma bad_bimod: "0 \<le> n \<Longrightarrow> n < 2 ^ 31 \<Longrightarrow> \<not> pow2_arg n \<Longrightarrow> \<exists>e. bpred_dir_create BPred2bit n b c f = Inl e"
  using not_pow2_arg [of n] by (simp add: bpred_dir_create_def)

lemma bad_two:
  assumes "0 \<le> l1" "l1 < 2 ^ 31" "0 \<le> l2" "l2 < 2 ^ 31" "0 \<le> sw"
    and "\<not> (pow2_arg l1 \<and> pow2_arg l2 \<and> 0 < sw \<and> sw \<le> 30)"
  shows "\<exists>e. bpred_dir_create BPred2Level l1 l2 sw xr = Inl e"
  using assms not_pow2_arg [of l1] not_pow2_arg [of l2] by (auto simp: bpred_dir_create_def)

lemma create_dirs_good:
  assumes "dirs_legal cls bimod_size l1 l2 meta_size sw"
  shows "\<exists>p. create_dirs cls bimod_size l1 l2 meta_size sw xr = Inr p \<and> dirs_wf p \<and> bp_class p = cls"
proof (cases cls)
  case BPredComb
  then obtain b m where b: "bpred_dir_create BPred2bit bimod_size 0 0 False = Inr b" "is_bimod (Some b)"
      and m: "bpred_dir_create BPred2bit meta_size 0 0 False = Inr m" "is_bimod (Some m)"
    using create_bimod assms by (auto simp: dirs_legal_def) metis
  obtain t where t: "bpred_dir_create BPred2Level l1 l2 sw xr = Inr t" "is_two (Some t)"
    using create_two [of l1 l2 sw xr] BPredComb assms by (auto simp: dirs_legal_def)
  show ?thesis using b m t by (simp add: BPredComb create_dirs_def dirs_wf_def bpred0_def)
next
  case BPred2Level
  then obtain t where "bpred_dir_create BPred2Level l1 l2 sw xr = Inr t" "is_two (Some t)"
    using create_two [of l1 l2 sw xr] assms by (auto simp: dirs_legal_def)
  then show ?thesis by (simp add: BPred2Level create_dirs_def dirs_wf_def bpred0_def)
next
  case BPred2bit
  then obtain b where "bpred_dir_create BPred2bit bimod_size 0 0 False = Inr b" "is_bimod (Some b)"
    using create_bimod assms by (auto simp: dirs_legal_def) metis
  then show ?thesis by (simp add: BPred2bit create_dirs_def dirs_wf_def bpred0_def)
qed (use assms in \<open>simp_all add: dirs_legal_def create_dirs_def dirs_wf_def bpred0_def\<close>)

lemma create_dirs_bad:
  assumes r: "\<forall>n \<in> {bimod_size, l1, l2, meta_size}. 0 \<le> n \<and> n < 2 ^ 31" "0 \<le> sw"
    and "\<not> dirs_legal cls bimod_size l1 l2 meta_size sw"
  shows "\<exists>e. create_dirs cls bimod_size l1 l2 meta_size sw xr = Inl e"
proof (cases cls)
  case BPredComb
  consider "\<not> pow2_arg bimod_size" | "\<not> (pow2_arg l1 \<and> pow2_arg l2 \<and> 0 < sw \<and> sw \<le> 30)" | "\<not> pow2_arg meta_size"
    using assms BPredComb by (auto simp: dirs_legal_def)
  then show ?thesis
  proof cases
    case 1
    then show ?thesis using bad_bimod [of bimod_size 0 0 False] r by (auto simp: BPredComb create_dirs_def)
  next
    case 2
    then show ?thesis using bad_two [of l1 l2 sw xr] r
      by (cases "bpred_dir_create BPred2bit bimod_size 0 0 False") (auto simp: BPredComb create_dirs_def)
  next
    case 3
    then show ?thesis using bad_bimod [of meta_size 0 0 False] r
      by (cases "bpred_dir_create BPred2bit bimod_size 0 0 False"; cases "bpred_dir_create BPred2Level l1 l2 sw xr")
        (auto simp: BPredComb create_dirs_def)
  qed
next
  case BPred2Level
  then show ?thesis using assms bad_two [of l1 l2 sw xr] by (auto simp: dirs_legal_def create_dirs_def)
next
  case BPred2bit
  then show ?thesis using assms bad_bimod [of bimod_size 0 0 False] by (auto simp: dirs_legal_def create_dirs_def)
qed (use assms in \<open>simp_all add: dirs_legal_def create_dirs_def\<close>)

lemma create_btb_good:
  assumes a: "pow2_arg sets" "pow2_arg assoc" "rs = 0 \<or> pow2_arg rs"
  shows "\<exists>q. create_btb sets assoc rs p = Inr q \<and> btb_wf q \<and> ras_wf q \<and> bp_class q = bp_class p
    \<and> bp_bimod q = bp_bimod p \<and> bp_twolev q = bp_twolev p \<and> bp_meta q = bp_meta p"
proof -
  obtain i j where i: "i < 31" "sets = 2 ^ i" and j: "j < 31" "assoc = 2 ^ j" using a by (auto simp: pow2_arg_def)
  have np: "\<not> not_pow2 sets" "\<not> not_pow2 assoc"
    using a i j not_pow2_arg [of sets] not_pow2_arg [of assoc] power_strict_increasing [OF i(1), of "2::int"]
      power_strict_increasing [OF j(1), of "2::int"] by simp_all
  have rs: "0 \<le> rs" "rs AND (rs - 1) = 0" using a(3) and_pred_int [of rs] by (auto simp: pow2_arg_def)
  define q where "q = p\<lparr>btb_sets := sets, btb_assoc := assoc,
    btb_data := map (btb_init_ent (nat assoc)) [0..<nat (sets * assoc)],
    ret_size := rs, ret_stack := replicate (nat rs) 0, ret_tos := rs - 1\<rparr>"
  have "create_btb sets assoc rs p = Inr q" using np rs by (simp add: create_btb_def q_def)
  moreover have "btb_wf q"
    using btb_init_ok [OF i(1) j(1)] i j unfolding btb_wf_def
    by (intro exI [of _ i] exI [of _ j]) (simp add: q_def nat_power_eq nat_mult_distrib)
  moreover have "ras_wf q" using rs by (simp add: ras_wf_def q_def)
  ultimately show ?thesis by (simp add: q_def)
qed

lemma create_btb_bad:
  assumes "\<forall>n \<in> {sets, assoc, rs}. 0 \<le> n \<and> n < 2 ^ 31"
    and "\<not> (pow2_arg sets \<and> pow2_arg assoc \<and> (rs = 0 \<or> pow2_arg rs))"
  shows "\<exists>e. create_btb sets assoc rs p = Inl e"
proof -
  have "rs = 0 \<or> rs AND (rs - 1) = 0 \<longrightarrow> rs = 0 \<or> pow2_arg rs"
    using not_pow2_arg [of rs] assms(1) by (auto simp: not_pow2_def)
  then show ?thesis
    using assms not_pow2_arg [of sets] not_pow2_arg [of assoc] by (auto simp: create_btb_def)
qed

lemma legal_args_split:
  "legal_args cls bimod_size l1 l2 meta_size sw sets assoc rs \<longleftrightarrow>
     dirs_legal cls bimod_size l1 l2 meta_size sw
     \<and> (cls \<in> {BPredComb, BPred2Level, BPred2bit} \<longrightarrow> pow2_arg sets \<and> pow2_arg assoc \<and> (rs = 0 \<or> pow2_arg rs))"
  by (auto simp: legal_args_def dirs_legal_def)

lemma bpred_create_ok:
  assumes "\<forall>n \<in> {bimod_size, l1, l2, meta_size, sets, assoc, rs}. 0 \<le> n \<and> n < 2 ^ 31" and "0 \<le> sw"
  shows "if legal_args cls bimod_size l1 l2 meta_size sw sets assoc rs
    then \<exists>p. bpred_create cls bimod_size l1 l2 meta_size sw xr sets assoc rs = Inr p
           \<and> bpred_wf p \<and> bp_class p = cls
    else \<exists>e. bpred_create cls bimod_size l1 l2 meta_size sw xr sets assoc rs = Inl e"
proof -
  let ?st = "cls \<in> {BPredComb, BPred2Level, BPred2bit}"
  let ?d = "dirs_legal cls bimod_size l1 l2 meta_size sw"
  let ?b = "pow2_arg sets \<and> pow2_arg assoc \<and> (rs = 0 \<or> pow2_arg rs)"
  show ?thesis
  proof (cases ?d)
    case False
    then have "\<exists>e. create_dirs cls bimod_size l1 l2 meta_size sw xr = Inl e"
      using assms by (intro create_dirs_bad) auto
    then show ?thesis using False by (auto simp: legal_args_split bpred_create_def)
  next
    case True
    then obtain p where p: "create_dirs cls bimod_size l1 l2 meta_size sw xr = Inr p" "dirs_wf p" "bp_class p = cls"
      using create_dirs_good by blast
    consider "?st" "?b" | "?st" "\<not> ?b" | "\<not> ?st" by blast
    then show ?thesis
    proof cases
      case 1
      then obtain q where q: "create_btb sets assoc rs p = Inr q" "btb_wf q" "ras_wf q" "bp_class q = bp_class p"
        "bp_bimod q = bp_bimod p" "bp_twolev q = bp_twolev p" "bp_meta q = bp_meta p"
        using create_btb_good [of sets assoc rs p] by blast
      have "dirs_wf q" using p(2) q(4-7) by (cases "bp_class p") (simp_all add: dirs_wf_def)
      then show ?thesis using 1 True p q by (auto simp: legal_args_split bpred_create_def bpred_wf_def)
    next
      case 2
      then have "\<exists>e. create_btb sets assoc rs p = Inl e" using assms by (intro create_btb_bad) auto
      then show ?thesis using 2 p by (auto simp: legal_args_split bpred_create_def)
    next
      case 3
      then show ?thesis using True p by (auto simp: legal_args_split bpred_create_def bpred_wf_def stateful_def)
    qed
  qed
qed

text \<open>\<open>bpred_create\<close> called with sizes in the range of \<open>int\<close> either rejects the arguments
  (some size that its class uses is not a power of two, or the history register is wider than
  30 bits) or builds a predictor that satisfies the invariant.\<close>
theorem bpred_create_wf:
  assumes "\<forall>n \<in> {bimod_size, l1, l2, meta_size, sets, assoc, rs}. 0 \<le> n \<and> n < 2 ^ 31" and "0 \<le> sw"
  shows "if legal_args cls bimod_size l1 l2 meta_size sw sets assoc rs
    then \<exists>p. bpred_create cls bimod_size l1 l2 meta_size sw xr sets assoc rs = Inr p
           \<and> bpred_wf p \<and> bp_class p = cls
    else \<exists>e. bpred_create cls bimod_size l1 l2 meta_size sw xr sets assoc rs = Inl e"
  using bpred_create_ok [OF assms] .

lemma bpred_create_wf_witness:
  "\<exists>p. bpred_create BPredComb 2048 1 1024 1024 8 False 512 4 8 = Inr p \<and> bpred_wf p \<and> bp_class p = BPredComb"
proof -
  have "pow2_arg (2 ^ k)" if "k < 31" for k using that by (auto simp: pow2_arg_def)
  from this [of 0] this [of 2] this [of 3] this [of 9] this [of 10] this [of 11]
  have "legal_args BPredComb 2048 1 1024 1024 8 512 4 8" by (simp add: legal_args_def)
  then show ?thesis
    using bpred_create_wf [of 2048 1 1024 1024 512 4 8 8 BPredComb False] by simp
qed

subsection \<open>Lookups and updates never fail\<close>

definition good_upd :: "bpred \<Rightarrow> bpred_upd \<Rightarrow> bool" where
  "good_upd pred du \<longleftrightarrow> (\<exists>isa pred0 baddr btarget opc c r du0 s a s'.
     bpred_wf pred0 \<and> is_ctrl isa opc
     \<and> bpred_lookup isa pred0 baddr btarget opc c r (Some du0) s = Inr (a, pred, du, s'))"

lemma good_upd_ok: "good_upd pred du \<Longrightarrow> bpred_wf pred \<and> du_ok pred du"
proof -
  assume "good_upd pred du"
  then obtain isa pred0 baddr btarget opc c r du0 s a s' where
    l: "bpred_wf pred0" "is_ctrl isa opc"
      "bpred_lookup isa pred0 baddr btarget opc c r (Some du0) s = Inr (a, pred, du, s')"
    unfolding good_upd_def by blast
  then show ?thesis using bpred_lookup_ok [OF l(1), of isa baddr btarget opc c r du0 s] by auto
qed

text \<open>In a well-formed predictor a lookup of any branch returns a prediction, and the
  predictor it leaves is well-formed with the same direction tables and BTB.\<close>
theorem bpred_lookup_total:
  assumes "bpred_wf pred"
  shows "\<exists>a pred' du s. bpred_lookup isa pred baddr btarget opc is_call is_return (Some du0) sidx
      = Inr (a, pred', du, s) \<and> bpred_wf pred' \<and> same_tables pred' pred"
  using bpred_lookup_ok [OF assms] by blast

text \<open>An update with the record that a lookup filled in succeeds and keeps the predictor
  well-formed, unless it is a taken branch at address 0 (the address of the empty entries).\<close>
theorem bpred_update_total:
  assumes "good_upd pred du" and "taken \<noteq> 0 \<Longrightarrow> baddr \<noteq> 0"
  shows "\<exists>p. bpred_update isa pred baddr btarget taken pred_taken correct opc (Some du) = Inr p
    \<and> bpred_wf p"
proof (cases "is_ctrl isa opc \<and> goes_on isa opc du \<and> stateful pred")
  case True
  then show ?thesis using bpred_update_active [of pred du taken baddr isa opc btarget pred_taken correct]
      good_upd_ok [OF assms(1)] assms(2) by blast
next
  case False
  have wf: "bpred_wf pred" using good_upd_ok [OF assms(1)] by blast
  obtain p where p: "bpred_update isa pred baddr btarget taken pred_taken correct opc (Some du) = Inr p"
    "same_tables p pred" "same_rest p pred"
    using bpred_update_idle [OF wf False] by blast
  have "bpred_wf p" using wf same_tables_wf(1-3) [OF p(2)] same_rest_wf(2) [OF p(3)] by (simp add: bpred_wf_def)
  with p(1) show ?thesis by blast
qed

text \<open>C16: The branch target buffer is an LRU list per set: a taken update moves the branch to the
  front of its set's list (with the new target unless the prediction was correct), or enters it
  in place of the least recently used entry; every other update leaves all the lists alone, and
  the other sets never change.\<close>
theorem bpred_update_refines_btb:
  assumes "good_upd pred du" and "stateful pred" and "taken \<noteq> 0 \<Longrightarrow> baddr \<noteq> 0"
  shows "\<exists>p. bpred_update isa pred baddr btarget taken pred_taken correct opc (Some du) = Inr p
    \<and> btb_lines p baddr = (if is_ctrl isa opc \<and> goes_on isa opc du \<and> taken \<noteq> 0
         then spec_btb baddr btarget correct (btb_lines pred baddr) else btb_lines pred baddr)
    \<and> (\<forall>a. btb_index pred a \<noteq> btb_index pred baddr \<longrightarrow> btb_lines p a = btb_lines pred a)"
proof (cases "is_ctrl isa opc \<and> goes_on isa opc du")
  case True
  then show ?thesis using bpred_update_active [of pred du taken baddr isa opc btarget pred_taken correct]
      good_upd_ok [OF assms(1)] assms(2,3) by (metis (no_types, lifting))
next
  case False
  have wf: "bpred_wf pred" using good_upd_ok [OF assms(1)] by blast
  obtain p where p: "bpred_update isa pred baddr btarget taken pred_taken correct opc (Some du) = Inr p"
    "same_tables p pred"
    using bpred_update_idle [OF wf] False by blast
  have "btb_lines p a = btb_lines pred a" for a using same_tables_wf(9) [OF p(2)] by simp
  then show ?thesis using p(1) False by auto
qed

subsection \<open>The return-address stack\<close>

text \<open>The entries from the most recent push to the oldest one kept.\<close>

definition ras_view :: "bpred \<Rightarrow> 64 word list" where
  "ras_view p = map (\<lambda>k. ret_stack p ! nat ((ret_tos p - int k) mod ret_size p)) [0..<nat (ret_size p)]"

lemma ras_view_push:
  assumes wf: "ras_wf p" and s: "ret_size p \<noteq> 0"
  shows "ras_view (ras_push a p) = (a + 4) # butlast (ras_view p)"
proof -
  let ?n = "ret_size p" and ?t = "ret_tos p"
  have n: "0 < ?n" "0 \<le> ?t" "?t < ?n" "length (ret_stack p) = nat ?n" using wf s by (auto simp: ras_wf_def)
  define t where "t = (?t + 1) mod ?n"
  have t: "0 \<le> t" "t < ?n" using n by (simp_all add: t_def)
  have p': "ret_size (ras_push a p) = ?n" "ret_tos (ras_push a p) = t"
    "ret_stack (ras_push a p) = (ret_stack p)[nat t := a + 4]"
    by (simp_all add: ras_push_def Let_def t_def)
  have len: "length ((a + 4) # butlast (ras_view p)) = nat ?n" using n by (simp add: ras_view_def)
  show ?thesis
  proof (rule nth_equalityI)
    show "length (ras_view (ras_push a p)) = length ((a + 4) # butlast (ras_view p))"
      unfolding len by (simp add: ras_view_def p')
    fix i assume "i < length (ras_view (ras_push a p))"
    then have i: "i < nat ?n" by (simp add: ras_view_def p')
    have lhs: "ras_view (ras_push a p) ! i = (ret_stack p)[nat t := a + 4] ! nat ((t - int i) mod ?n)"
      using i by (simp add: ras_view_def p')
    show "ras_view (ras_push a p) ! i = ((a + 4) # butlast (ras_view p)) ! i"
    proof (cases i)
      case 0
      then show ?thesis using lhs t n by simp
    next
      case (Suc k)
      have ne: "(t - int i) mod ?n \<noteq> t"
      proof
        assume "(t - int i) mod ?n = t"
        then have "(t - int i) mod ?n = t mod ?n" using t by simp
        then have "?n dvd int i" by (simp add: mod_eq_dvd_iff)
        then show False using i Suc n by (auto dest: zdvd_imp_le)
      qed
      have "(t - int i) mod ?n = (?t - int k) mod ?n"
        unfolding t_def Suc by (simp add: mod_simps)
      then have "ras_view (ras_push a p) ! i = ret_stack p ! nat ((?t - int k) mod ?n)"
      proof -
        assume eq: "(t - int i) mod ?n = (?t - int k) mod ?n"
        have "nat t \<noteq> nat ((t - int i) mod ?n)"
          using ne t n pos_mod_sign [of ?n "t - int i"] by (simp add: nat_eq_iff)
        then show ?thesis unfolding lhs eq [symmetric] by simp
      qed
      then show ?thesis using Suc i n by (simp add: ras_view_def nth_butlast)
    qed
  qed
qed

lemma ras_view_pop:
  assumes wf: "ras_wf p" and s: "ret_size p \<noteq> 0"
  shows "fst (ras_pop p) = hd (ras_view p)" and "ras_view (snd (ras_pop p)) = rotate1 (ras_view p)"
proof -
  let ?n = "ret_size p" and ?t = "ret_tos p"
  have n: "0 < ?n" "0 \<le> ?t" "?t < ?n" "length (ret_stack p) = nat ?n" using wf s by (auto simp: ras_wf_def)
  have len: "length (ras_view p) = nat ?n" by (simp add: ras_view_def)
  then have ne: "ras_view p \<noteq> []" using n by auto
  show "fst (ras_pop p) = hd (ras_view p)"
    using n ne by (simp add: ras_pop_def hd_conv_nth) (simp add: ras_view_def)
  have p': "ret_size (snd (ras_pop p)) = ?n" "ret_tos (snd (ras_pop p)) = (?t + ?n - 1) mod ?n"
    "ret_stack (snd (ras_pop p)) = ret_stack p" by (simp_all add: ras_pop_def)
  show "ras_view (snd (ras_pop p)) = rotate1 (ras_view p)"
  proof (rule nth_equalityI)
    show "length (ras_view (snd (ras_pop p))) = length (rotate1 (ras_view p))"
      by (simp add: ras_view_def p')
    fix i assume "i < length (ras_view (snd (ras_pop p)))"
    then have i: "i < nat ?n" by (simp add: ras_view_def p')
    have "((?t + ?n - 1) mod ?n - int i) mod ?n = (?t - int (Suc i)) mod ?n"
      using mod_add_self2 [of "?t - int (Suc i)" ?n] by (simp add: mod_simps algebra_simps)
    also have "\<dots> = (?t - int (Suc i mod nat ?n)) mod ?n"
      using n by (simp add: zmod_int mod_simps)
    finally have "ras_view (snd (ras_pop p)) ! i = ras_view p ! (Suc i mod nat ?n)"
      using i n by (simp add: ras_view_def p')
    then show "ras_view (snd (ras_pop p)) ! i = rotate1 (ras_view p) ! i"
      using i len by (simp add: nth_rotate1)
  qed
qed

lemma ras_view_cong:
  "ret_size p = ret_size q \<Longrightarrow> ret_tos p = ret_tos q \<Longrightarrow> ret_stack p = ret_stack q \<Longrightarrow> ras_view p = ras_view q"
  by (simp add: ras_view_def)

lemma ras_recover_push:
  assumes wf: "ras_wf p" and s: "ret_size p \<noteq> 0"
  shows "ras_view (bpred_recover (ras_push a p) (ret_tos p)) = butlast (ras_view p) @ [a + 4]"
proof -
  let ?q = "bpred_recover (ras_push a p) (ret_tos p)"
  let ?n = "ret_size p" and ?t = "ret_tos p"
  have n: "0 < ?n" "0 \<le> ?t" "?t < ?n" "length (ret_stack p) = nat ?n" using wf s by (auto simp: ras_wf_def)
  have wfp: "ras_wf (ras_push a p)" "ret_size (ras_push a p) = ?n" "ret_tos (ras_push a p) = (?t + 1) mod ?n"
    using ras_wf_push(1) [OF wf s] by (simp_all add: ras_push_def Let_def)
  have "((?t + 1) mod ?n + ?n - 1) mod ?n = ?t"
  proof (cases "?t + 1 = ?n")
    case True
    then have "(?t + 1) mod ?n + ?n - 1 = ?t" by simp
    then show ?thesis using n by (simp only: mod_pos_pos_trivial)
  next
    case False
    then have "(?t + 1) mod ?n + ?n - 1 = ?t + ?n" using n by simp
    then show ?thesis using n by (simp only: mod_add_self2 mod_pos_pos_trivial)
  qed
  then have "ras_view ?q = ras_view (snd (ras_pop (ras_push a p)))"
    by (intro ras_view_cong) (simp_all add: bpred_recover_def ras_pop_def wfp)
  also have "\<dots> = rotate1 ((a + 4) # butlast (ras_view p))"
    using ras_view_pop(2) [OF wfp(1)] s wfp(2) ras_view_push [OF wf s] by simp
  finally show ?thesis by simp
qed

text \<open>What one lookup does to the stack.\<close>

lemma lookup_ras:
  assumes wf: "bpred_wf pred" and st: "stateful pred" "is_ctrl isa opc" and s: "ret_size pred \<noteq> 0"
  shows "\<exists>a pred' du. bpred_lookup isa pred baddr btarget opc is_call is_return (Some du0) sidx
      = Inr (a, pred', du, ret_tos pred)
    \<and> bpred_wf pred' \<and> stateful pred' \<and> ret_size pred' = ret_size pred
    \<and> (is_return \<longrightarrow> a = hd (ras_view pred) \<and> du_ras du)
    \<and> ras_view pred' = (if is_return then rotate1 (ras_view pred)
        else if is_call then (baddr + 4) # butlast (ras_view pred) else ras_view pred)
    \<and> ras_view (bpred_recover pred' (ret_tos pred)) = (if is_call \<and> \<not> is_return
        then butlast (ras_view pred) @ [baddr + 4] else ras_view pred)"
proof -
  define p1 where "p1 = pred\<lparr>bp_lookups := bp_lookups pred + 1\<rparr>"
  have p1: "same_tables p1 pred" "ret_size p1 = ret_size pred" "ret_tos p1 = ret_tos pred"
    "ret_stack p1 = ret_stack pred" by (simp_all add: p1_def same_tables_def)
  have v1: "ras_view p1 = ras_view pred" using p1 by (intro ras_view_cong) simp_all
  have d1: "dirs_wf p1" "ras_wf p1" "stateful p1"
    using wf st same_tables_wf [OF p1(1)] p1 by (auto simp: bpred_wf_def ras_wf_def)
  obtain du where du: "lookup_dir isa p1 baddr opc du0 = Inr du"
    using lookup_dir_ok [OF d1(1)] by blast
  note lk = bpred_lookup_stateful [OF st(2,1) du [unfolded p1_def], folded p1_def, of btarget is_call is_return sidx]
  obtain a pred' du' s' where l: "bpred_lookup isa pred baddr btarget opc is_call is_return (Some du0) sidx
      = Inr (a, pred', du', s')" "bpred_wf pred'" "same_tables pred' pred"
    using bpred_lookup_ok [OF wf] by blast
  have st': "stateful pred'" using same_tables_wf(3) [OF l(3)] st(1) by simp
  have s1: "ret_size p1 \<noteq> 0" using s p1 by simp
  show ?thesis
  proof (cases is_return)
    case True
    then have e: "a = fst (ras_pop p1)" "pred' = snd (ras_pop p1)" "du' = du\<lparr>du_ras := True\<rparr>" "s' = ret_tos pred"
      using l(1) unfolding lk Let_def by (simp_all add: s p1)
    have "ras_view (bpred_recover pred' (ret_tos pred)) = ras_view pred"
      by (rule ras_view_cong) (simp_all add: e bpred_recover_def ras_pop_def p1)
    then show ?thesis using True l st' e ras_view_pop [OF d1(2) s1] v1 p1
      by (simp add: ras_pop_def)
  next
    case False
    then have e: "pred' = (if is_call then ras_push baddr p1 else p1)" "s' = ret_tos pred"
      using l(1) unfolding lk Let_def by (auto simp: s p1 cbind_Inr_iff)
    have r: "ras_view (bpred_recover p1 (ret_tos pred)) = ras_view pred"
      by (rule ras_view_cong) (simp_all add: bpred_recover_def p1)
    show ?thesis
      using False l st' e ras_view_push [OF d1(2) s1] ras_recover_push [OF d1(2) s1] v1 p1 r
      by (auto simp: ras_push_def Let_def)
  qed
qed

text \<open>A lookup of a call pushes the address after it (dropping the oldest entry), a lookup of a
  return predicts the most recent entry, and restoring the top-of-stack index it hands out undoes
  the lookup, except that a call has overwritten the oldest entry.\<close>
theorem bpred_lookup_ras:
  assumes "bpred_wf pred" and "stateful pred" and "is_ctrl isa opc" and "ret_size pred \<noteq> 0"
  shows "\<exists>a pred' du. bpred_lookup isa pred baddr btarget opc is_call is_return (Some du0) sidx
      = Inr (a, pred', du, ret_tos pred)
    \<and> (is_return \<longrightarrow> a = hd (ras_view pred) \<and> du_ras du)
    \<and> ras_view pred' = (if is_return then rotate1 (ras_view pred)
        else if is_call then (baddr + 4) # butlast (ras_view pred) else ras_view pred)
    \<and> ras_view (bpred_recover pred' (ret_tos pred)) = (if is_call \<and> \<not> is_return
        then butlast (ras_view pred) @ [baddr + 4] else ras_view pred)"
  using lookup_ras [OF assms] by blast

text \<open>Runs of calls (at an address) and returns, with the predicted return addresses.\<close>

definition ras_step :: "op_isa \<Rightarrow> nat \<Rightarrow> bpred_upd \<Rightarrow> bpred \<times> 64 word list \<Rightarrow> 64 word option
    \<Rightarrow> (bpred \<times> 64 word list) cres" where
  "ras_step isa opc du st i =
     (case i of
        Some baddr \<Rightarrow> cbind (bpred_lookup isa (fst st) baddr 0 opc True False (Some du) 0)
          (\<lambda>(a, p, _, _). Inr (p, snd st))
      | None \<Rightarrow> cbind (bpred_lookup isa (fst st) 0 0 opc False True (Some du) 0)
          (\<lambda>(a, p, _, _). Inr (p, snd st @ [a])))"

definition stack_step :: "64 word list \<times> 64 word list \<Rightarrow> 64 word option \<Rightarrow> 64 word list \<times> 64 word list" where
  "stack_step st i =
     (case i of
        Some baddr \<Rightarrow> ((baddr + 4) # butlast (fst st), snd st)
      | None \<Rightarrow> (rotate1 (fst st), snd st @ [hd (fst st)]))"

definition ras_inv :: "op_isa \<Rightarrow> nat \<Rightarrow> bpred \<times> 64 word list \<Rightarrow> bool" where
  "ras_inv isa opc st \<longleftrightarrow> bpred_wf (fst st) \<and> stateful (fst st) \<and> is_ctrl isa opc \<and> ret_size (fst st) \<noteq> 0"

interpretation ras: simulation "ras_inv isa opc" "\<lambda>_ _. True" "ras_step isa opc du"
    "\<lambda>st. (ras_view (fst st), snd st)" stack_step
  for isa :: op_isa and opc :: nat and du :: bpred_upd
proof unfold_locales
  fix s i
  assume "ras_inv isa opc s"
  then have inv: "bpred_wf (fst s)" "stateful (fst s)" "is_ctrl isa opc" "ret_size (fst s) \<noteq> 0"
    by (simp_all add: ras_inv_def)
  show "\<exists>s'. ras_step isa opc du s i = Inr s' \<and> ras_inv isa opc s'
      \<and> (ras_view (fst s'), snd s') = stack_step (ras_view (fst s), snd s) i"
  proof (cases i)
    case None
    show ?thesis using lookup_ras [OF inv, of 0 0 False True du 0] inv
      by (auto simp: None ras_step_def stack_step_def ras_inv_def)
  next
    case (Some baddr)
    show ?thesis using lookup_ras [OF inv, of baddr 0 True False du 0] inv
      by (auto simp: Some ras_step_def stack_step_def ras_inv_def)
  qed
qed

lemma stack_calls:
  assumes "length as \<le> length v"
  shows "foldl stack_step (v, out) (map Some as)
    = (rev (map (\<lambda>a. a + 4) as) @ take (length v - length as) v, out)"
  using assms
proof (induction as rule: rev_induct)
  case (snoc a as)
  have "butlast (rev (map (\<lambda>a. a + 4) as) @ take (length v - length as) v)
      = rev (map (\<lambda>a. a + 4) as) @ take (length v - length (as @ [a])) v"
    using snoc.prems by (cases "v = []") (auto simp: butlast_append butlast_take)
  then show ?case using snoc by (simp add: stack_step_def)
qed simp

lemma stack_returns:
  assumes "k \<le> length v"
  shows "foldl stack_step (v, out) (replicate k None) = (rotate k v, out @ take k v)"
  using assms
proof (induction k)
  case (Suc k)
  have "hd (rotate k v) = v ! k" using Suc.prems by (subst hd_rotate_conv_nth) auto
  moreover have "replicate (Suc k) (None :: 64 word option) = replicate k None @ [None]"
    by (simp add: replicate_append_same)
  ultimately show ?case using Suc by (simp add: stack_step_def take_Suc_conv_app_nth del: replicate.simps)
qed simp

text \<open>C17: As many returns as there were calls, and no more than the stack holds, are predicted to the
  addresses after the calls, the last call first.\<close>
theorem bpred_calls_and_returns:
  assumes "bpred_wf pred" and "stateful pred" and "is_ctrl isa opc" and "ret_size pred \<noteq> 0"
    and "int (length as) \<le> ret_size pred"
  shows "\<exists>pred'. run (ras_step isa opc du) (pred, []) (map Some as @ replicate (length as) None)
      = Inr (pred', rev (map (\<lambda>a. a + 4) as))"
proof -
  let ?js = "map Some as @ replicate (length as) None"
  have "ras_inv isa opc (pred, [])" using assms by (simp add: ras_inv_def)
  moreover have "admits (\<lambda>_ _. True) stack_step (ras_view (fst (pred, [] :: 64 word list)), []) ?js"
    by (rule admits_const) simp
  ultimately obtain st where st: "run (ras_step isa opc du) (pred, []) ?js = Inr st"
      "(ras_view (fst st), snd st) = foldl stack_step (ras_view pred, []) ?js"
    using ras.run_sim [of isa opc "(pred, [])" ?js du] by auto
  have "length as \<le> length (ras_view pred)" using assms(4,5) by (simp add: ras_view_def)
  then have "snd st = rev (map (\<lambda>a. a + 4) as)"
    using st(2) by (simp add: stack_calls stack_returns prod_eq_iff)
  then show ?thesis using st(1) by (cases st) auto
qed

subsection \<open>Training\<close>

lemma find_fst_filter: "find (\<lambda>e. fst e = x) (filter (\<lambda>e. fst e = x) xs) = find (\<lambda>e. fst e = x) xs"
  by (induction xs) auto

text \<open>The BTB part of a lookup through the lists.\<close>

lemma btb_lookup_lines:
  assumes wf: "btb_wf pred" and nz: "baddr \<noteq> 0"
  shows "map_option (\<lambda>i. btb_target (btb_data pred ! i)) (btb_lookup pred baddr)
    = map_option snd (find (\<lambda>e. fst e = baddr) (btb_lines pred baddr))"
proof -
  let ?es = "btb_data pred" and ?js = "btb_set pred baddr"
  obtain xs where xs: "lru_chain ?es xs" "set xs = set ?js"
    using btb_set_ok(1) [OF wf, of baddr] by (auto simp: set_ok_def)
  have un: "\<forall>i \<in> set ?js. \<forall>j \<in> set ?js. btb_addr (?es ! i) = baddr \<and> btb_addr (?es ! j) = baddr \<longrightarrow> i = j"
    using btb_set_ok(1) [OF wf, of baddr] nz by (auto simp: set_ok_def)
  have f: "find (\<lambda>i. btb_addr (?es ! i) = baddr) ?js = find (\<lambda>i. btb_addr (?es ! i) = baddr) xs"
    using un xs(2) by (intro find_unique) auto
  have l: "btb_lookup pred baddr = find (\<lambda>i. btb_addr (?es ! i) = baddr) xs"
  proof (cases "btb_assoc pred > 1")
    case True
    then show ?thesis by (simp add: btb_lookup_def f)
  next
    case False
    obtain b where ab: "btb_assoc pred = 2 ^ b"
      "?js = [btb_index pred baddr * 2 ^ b..<btb_index pred baddr * 2 ^ b + 2 ^ b]"
      using wf by (rule btb_wfE) blast
    have "b = 0" using False ab(1) one_less_power [of "2::int" b] by (cases "b = 0") auto
    then have "xs = [btb_index pred baddr]" using lru_chain_single [OF xs(1)] xs(2) ab(2) by simp
    then show ?thesis using False by (simp add: btb_lookup_def Let_def)
  qed
  have "btb_lines pred baddr = map (\<lambda>i. (btb_addr (?es ! i), btb_target (?es ! i))) xs"
    using xs by (simp add: btb_lines_def btb_mru_chain [OF wf xs])
  then show ?thesis unfolding l by (simp add: find_map_option option.map_comp o_def)
qed

lemma spec_btb_hit:
  "find (\<lambda>e. fst e = baddr) (spec_btb baddr btarget False ls) = Some (baddr, btarget)"
  by (auto simp: spec_btb_def split: option.split)

text \<open>One update of the two-bit predictor trains the counter of the branch.\<close>

lemma ctr_set_get:
  assumes "dir_of p (fst c) = Some d" "\<not> (\<exists>s. d = DirStatic s)" "snd c < length (dir_table d)"
  shows "ctr_val (ctr_set c v p) c = v"
  using assms by (cases "fst c") (auto simp: ctr_val_def ctr_set_def Let_def dir_of_def)

lemma two_bit_update:
  assumes wf: "bpred_wf p" and cls: "bp_class p = BPred2bit" and du: "du_ok p du"
    and nz: "taken \<noteq> 0 \<Longrightarrow> baddr \<noteq> 0" and act: "is_ctrl isa opc" "goes_on isa opc du"
    and ptr: "pdir1 du = Some (TBimod, i)" "pdir2 du = None" "pmeta du = None"
  shows "\<exists>p' n tab tab'. bpred_update isa p baddr btarget taken pt correct opc (Some du) = Inr p'
    \<and> bpred_wf p' \<and> bp_class p' = BPred2bit \<and> du_ok p' du
    \<and> bp_bimod p = Some (DirBimod n tab) \<and> bp_bimod p' = Some (DirBimod n tab')
    \<and> i < length tab \<and> length tab' = length tab \<and> tab ! i \<le> 3
    \<and> tab' ! i = (if taken \<noteq> 0 then sat_inc else sat_dec) (tab ! i)
    \<and> btb_lines p' baddr = (if taken = 0 then btb_lines p baddr
         else spec_btb baddr btarget correct (btb_lines p baddr))"
proof -
  have st: "stateful p" using cls by (simp add: stateful_def)
  obtain n tab where nt: "bp_bimod p = Some (DirBimod n tab)" "dir_ok (DirBimod n tab)"
    using wf cls by (auto simp: bpred_wf_def dirs_wf_def is_bimod_def)
  have i: "i < length tab" using du ptr nt by (auto simp: du_ok_def ctr_ok_def dir_of_def dir_table_def)
  then have t3: "tab ! i \<le> 3" using nt(2) by (auto simp: dir_ok_def dir_table_def)
  let ?f = "if taken \<noteq> 0 then sat_inc else sat_dec"
  obtain p' where p': "bpred_update isa p baddr btarget taken pt correct opc (Some du) = Inr p'"
    "bpred_wf p'" "bp_class p' = BPred2bit" "btb_lines p' baddr = (if taken = 0 then btb_lines p baddr
         else spec_btb baddr btarget correct (btb_lines p baddr))"
    using bpred_update_active [where taken = taken and btarget = btarget and pt = pt and correct = correct,
        OF wf du nz act st] cls by auto
  define p1 where "p1 = fst (update_stats isa taken pt correct opc du p)"
  have p1: "bp_class p1 = BPred2bit" "bp_bimod p1 = Some (DirBimod n tab)"
    using update_stats_same [of isa taken pt correct opc du p] cls nt(1) by (simp_all add: p1_def same_tables_def)
  have h: "update_history isa baddr taken opc p1 = Inr p1" by (simp add: update_history_def p1)
  have tr: "bp_bimod (train_all taken du q) = Some (DirBimod n (tab[i := ?f (tab ! i)]))"
    if "bp_bimod q = Some (DirBimod n tab)" for q
    using that ptr by (simp add: train_all_def train_meta_def train_def ctr_set_def Let_def ctr_val_def
        dir_of_def dir_table_def set_dir_table_def)
  have b: "bp_bimod p' = Some (DirBimod n (tab[i := ?f (tab ! i)]))"
  proof (cases "taken = 0")
    case True
    then have "p' = train_all taken du p1"
      using p'(1) unfolding update_stateful [OF st act] p1_def [symmetric] h by simp
    then show ?thesis using tr [OF p1(2)] by simp
  next
    case False
    then show ?thesis using p'(1) p1(2) unfolding update_stateful [OF st act] p1_def [symmetric] h
      by (auto simp: cbind_Inr_iff tr)
  qed
  have "?f (tab ! i) \<le> 3" using sat_bounds [OF t3] by simp
  then have "dir_ok (DirBimod n (tab[i := ?f (tab ! i)]))"
    using set_table_ok [OF nt(2), of "?f (tab ! i)" i] by (simp add: set_dir_table_def dir_table_def)
  then have "du_ok p' du" using ptr i b by (auto simp: du_ok_def ctr_ok_def dir_of_def dir_table_def)
  then show ?thesis using p' nt(1) b i t3 by auto
qed

text \<open>C18: The two-bit predictor learns: after two updates of a conditional branch with the same
  outcome (and a wrong target before), the next lookup of the branch returns its target if the
  outcome was taken, and predicts not taken otherwise.\<close>
theorem two_bit_learns:
  assumes wf: "bpred_wf pred" and cls: "bp_class pred = BPred2bit"
    and opc: "is_ctrl isa opc" "\<not> is_jump isa opc" and nz: "baddr \<noteq> 0"
  shows "\<exists>a0 p0 du s0 p1 p2 a p3 du3 s.
    bpred_lookup isa pred baddr bt opc False False (Some du0) sidx = Inr (a0, p0, du, s0)
    \<and> bpred_update isa p0 baddr btarget taken pt False opc (Some du) = Inr p1
    \<and> bpred_update isa p1 baddr btarget taken pt False opc (Some du) = Inr p2
    \<and> bpred_lookup isa p2 baddr bt opc False False (Some du0) sidx = Inr (a, p3, du3, s)
    \<and> a = (if taken \<noteq> 0 then btarget else 0)"
proof -
  have sf: "stateful p" if "bp_class p = BPred2bit" for p :: bpred using that by (simp add: stateful_def)
  have look: "\<exists>a s. bpred_lookup isa p baddr bt opc False False (Some du0) sidx
      = Inr (a, p\<lparr>bp_lookups := bp_lookups p + 1\<rparr>,
          du0\<lparr>du_ras := False, pdir1 := Some (TBimod, BIMOD_HASH n baddr), pdir2 := None, pmeta := None\<rparr>, s)
      \<and> a = (if 2 \<le>s tab ! BIMOD_HASH n baddr
             then case find (\<lambda>e. fst e = baddr) (btb_lines p baddr) of Some e \<Rightarrow> snd e | None \<Rightarrow> 1 else 0)"
    if p: "bpred_wf p" "bp_class p = BPred2bit" "bp_bimod p = Some (DirBimod n tab)" for p n tab
  proof -
    let ?p1 = "p\<lparr>bp_lookups := bp_lookups p + 1\<rparr>"
    have s1: "same_tables ?p1 p" by (simp add: same_tables_def)
    have b: "btb_wf ?p1" using p sf [OF p(2)] same_tables_wf(2) [OF s1] by (simp add: bpred_wf_def)
    let ?du = "du0\<lparr>du_ras := False, pdir1 := Some (TBimod, BIMOD_HASH n baddr), pdir2 := None, pmeta := None\<rparr>"
    have d: "lookup_dir isa ?p1 baddr opc du0 = Inr ?du"
      using p opc by (simp add: lookup_dir_def dir_ptr_def dir_of_def bpred_dir_lookup_def)
    have t: "(case btb_lookup ?p1 baddr of Some i \<Rightarrow> btb_target (btb_data ?p1 ! i) | None \<Rightarrow> 1)
        = (case find (\<lambda>e. fst e = baddr) (btb_lines p baddr) of Some e \<Rightarrow> snd e | None \<Rightarrow> 1)"
      using btb_lookup_lines [OF b nz] same_tables_wf(9) [OF s1, of baddr]
      by (auto split: option.splits)
    have pr: "predicts_taken ?p1 (TBimod, BIMOD_HASH n baddr) = (2 \<le>s tab ! BIMOD_HASH n baddr)"
      using p(3) by (simp add: predicts_taken_def ctr_val_def dir_of_def dir_table_def)
    show ?thesis
      unfolding bpred_lookup_stateful [OF opc(1) sf [OF p(2)] d] btb_predict_def
      using opc(2) by (simp add: Let_def t pr)
  qed
  obtain n tab where b0: "bp_bimod pred = Some (DirBimod n tab)"
    using wf cls by (auto simp: bpred_wf_def dirs_wf_def is_bimod_def)
  define p0 where "p0 = pred\<lparr>bp_lookups := bp_lookups pred + 1\<rparr>"
  define i where "i = BIMOD_HASH n baddr"
  define du where "du = du0\<lparr>du_ras := False, pdir1 := Some (TBimod, i), pdir2 := None, pmeta := None\<rparr>"
  obtain a0 s0 where l0: "bpred_lookup isa pred baddr bt opc False False (Some du0) sidx = Inr (a0, p0, du, s0)"
    using look [OF wf cls b0] unfolding p0_def du_def i_def by blast
  then have w0: "bpred_wf p0" "du_ok p0 du" "bp_class p0 = BPred2bit"
    using bpred_lookup_ok [OF wf, of isa baddr bt opc False False du0 sidx] opc cls
    by (auto simp: same_tables_def)
  have ptr: "goes_on isa opc du" "pdir1 du = Some (TBimod, i)" "pdir2 du = None" "pmeta du = None"
    by (simp_all add: du_def goes_on_def)
  note step = two_bit_update [where taken = taken and btarget = btarget and pt = pt and correct = False,
      OF _ _ _ nz opc(1) ptr]
  obtain p1 tab1 where u1: "bpred_update isa p0 baddr btarget taken pt False opc (Some du) = Inr p1"
    "bpred_wf p1" "bp_class p1 = BPred2bit" "du_ok p1 du" "bp_bimod p1 = Some (DirBimod n tab1)"
    "tab ! i \<le> 3" "tab1 ! i = (if taken \<noteq> 0 then sat_inc else sat_dec) (tab ! i)"
    using step [OF w0(1,3,2)] b0 by (auto simp: p0_def)
  obtain p2 tab2 where u2: "bpred_update isa p1 baddr btarget taken pt False opc (Some du) = Inr p2"
    "bpred_wf p2" "bp_class p2 = BPred2bit" "bp_bimod p2 = Some (DirBimod n tab2)"
    "tab2 ! i = (if taken \<noteq> 0 then sat_inc else sat_dec) (tab1 ! i)"
    "btb_lines p2 baddr = (if taken = 0 then btb_lines p1 baddr
         else spec_btb baddr btarget False (btb_lines p1 baddr))"
    using step [OF u1(2,3,4)] u1(5) by auto
  have "2 \<le>s tab2 ! i \<longleftrightarrow> taken \<noteq> 0"
    using sat_twice [OF u1(6)] by (simp add: u2(5) u1(7))
  then show ?thesis
    using l0 u1(1) u2(1) look [OF u2(2,3,4)] unfolding i_def [symmetric] u2(6)
    by (auto simp: spec_btb_hit)
qed

subsection \<open>Address zero and priming\<close>

text \<open>In a fresh predictor whose BTB is associative, the assertion that a branch occurs at most
  once in its set fails on a taken update at address 0: all the empty entries carry that address.\<close>
theorem bpred_update_zero_asserts:
  assumes range: "\<forall>n \<in> {bimod_size, l1, l2, meta_size, sets, assoc, rs}. 0 \<le> n \<and> n < 2 ^ 31" "0 \<le> sw"
    and cr: "bpred_create cls bimod_size l1 l2 meta_size sw xr sets assoc rs = Inr p"
    and st: "stateful p" and assoc: "assoc > 1"
    and act: "is_ctrl isa opc" "goes_on isa opc du" and taken: "taken \<noteq> 0"
  shows "bpred_update isa p 0 btarget taken pt correct opc (Some du) = Inl AssertFail"
proof -
  have wf: "bpred_wf p" "bp_class p = cls"
    using bpred_create_ok [OF range, of cls xr] cr by (auto split: if_splits)
  have sc: "cls \<in> {BPredComb, BPred2Level, BPred2bit}" using st wf(2) by (auto simp: stateful_def)
  have data: "btb_data p = map (btb_init_ent (nat assoc)) [0..<nat (sets * assoc)]" "btb_assoc p = assoc"
    using cr sc by (auto simp: bpred_create_def create_btb_def cbind_Inr_iff split: if_splits)
  define p1 where "p1 = fst (update_stats isa taken pt correct opc du p)"
  have p1: "same_tables p1 p" "same_rest p1 p" using update_stats_same by (simp_all add: p1_def)
  obtain p2 where p2: "update_history isa 0 taken opc p1 = Inr p2" "same_rest p2 p1"
    using update_history_wf [of p1 isa 0 taken opc] wf(1) same_tables_wf(1) [OF p1(1)]
    by (auto simp: bpred_wf_def)
  have r2: "same_rest p2 p" using p2(2) p1(2) by (rule same_rest_trans)
  have wf2: "btb_wf p2" using same_rest_wf(1) [OF r2] wf(1) st by (simp add: bpred_wf_def)
  have d2: "btb_data p2 = btb_data p" "btb_assoc p2 = assoc" using r2 data(2) by (simp_all add: same_rest_def)
  have sl: "length (btb_set p2 0) = nat assoc" using btb_set_ok(2) [OF wf2] d2(2) by simp
  have lt: "\<forall>i \<in> set (btb_set p2 0). i < length (btb_data p)"
    using btb_set_ok(1) [OF wf2, of 0] d2(1) by (auto simp: set_ok_def lru_chain_def)
  have z: "\<forall>i \<in> set (btb_set p2 0). btb_addr (btb_data p ! i) = 0"
    using lt by (auto simp: data(1) btb_init_ent_def)
  obtain i j js where js: "btb_set p2 0 = i # j # js"
    using sl assoc by (cases "btb_set p2 0"; cases "tl (btb_set p2 0)") auto
  have "btb_select p2 0 = Inl AssertFail"
    using z assoc by (simp add: btb_select_def d2 js)
  then show ?thesis
    unfolding update_stateful [OF st act] p1_def [symmetric] p2(1) using taken by simp
qed

text \<open>\<open>bpred_after_priming\<close> resets every counter except \<open>jr_non_ras_hits\<close> and
  \<open>jr_non_ras_seen\<close>, which keep what priming left, and keeps the predictions.\<close>
theorem bpred_after_priming_counters:
  "jr_non_ras_hits (bpred_after_priming p) = jr_non_ras_hits p
   \<and> jr_non_ras_seen (bpred_after_priming p) = jr_non_ras_seen p
   \<and> (\<forall>f \<in> {bp_lookups, addr_hits, dir_hits, used_ras, used_bimod, used_2lev, jr_hits, jr_seen,
          bp_misses, retstack_pops, retstack_pushes, ras_hits}. f (bpred_after_priming p) = 0)
   \<and> same_tables (bpred_after_priming p) p \<and> ras_view (bpred_after_priming p) = ras_view p"
  by (simp add: bpred_after_priming_def same_tables_def ras_view_def)

subsection \<open>Witnesses\<close>

definition demo_isa :: op_isa where
  "demo_isa = \<lparr>md_op2flags = (\<lambda>_. F_CTRL), op_JAL = 0, op_C_JR = 1\<rparr>"

definition demo_pred :: bpred where
  "demo_pred = (case bpred_create BPred2bit 8 0 0 0 0 False 2 2 4 of Inr p \<Rightarrow> p | Inl _ \<Rightarrow> bpred0 BPredTaken)"

definition demo_du :: bpred_upd where
  "demo_du = \<lparr>pdir1 = None, pdir2 = None, pmeta = None, du_ras = False, du_bimod = False,
     du_twolev = False, du_meta = False\<rparr>"

lemma demo_create: "bpred_create BPred2bit 8 0 0 0 0 False 2 2 4 = Inr demo_pred"
  by (simp add: demo_pred_def bpred_create_def create_dirs_def bpred_dir_create_def not_pow2_def
      create_btb_def)

lemma demo_wf: "bpred_wf demo_pred" "bp_class demo_pred = BPred2bit" "stateful demo_pred" "ret_size demo_pred = 4"
proof -
  have "pow2_arg (2 ^ k)" if "k < 31" for k using that by (auto simp: pow2_arg_def)
  from this [of 1] this [of 2] this [of 3]
  have "legal_args BPred2bit 8 0 0 0 0 2 2 4" by (simp add: legal_args_def)
  then show "bpred_wf demo_pred" and c: "bp_class demo_pred = BPred2bit"
    using bpred_create_ok [of 8 0 0 0 2 2 4 0 BPred2bit False] demo_create by simp_all
  then show "stateful demo_pred" by (simp add: stateful_def)
  show "ret_size demo_pred = 4"
    by (simp add: demo_pred_def bpred_create_def create_dirs_def bpred_dir_create_def not_pow2_def
        create_btb_def)
qed

lemma demo_ctrl: "is_ctrl demo_isa 2" "\<not> is_jump demo_isa 2"
  by (simp_all add: is_ctrl_def is_jump_def demo_isa_def F_CTRL_def F_UNCOND_def)

lemma demo_good: "\<exists>p du. good_upd p du \<and> stateful p \<and> bp_class p = BPred2bit"
proof -
  obtain a p du s where l: "bpred_lookup demo_isa demo_pred 64 0 2 False False (Some demo_du) 0 = Inr (a, p, du, s)"
    "same_tables p demo_pred"
    using bpred_lookup_ok [OF demo_wf(1)] by blast
  then have "good_upd p du" unfolding good_upd_def using demo_wf(1) demo_ctrl(1) by blast
  then show ?thesis using l(2) demo_wf(2) by (auto simp: same_tables_def stateful_def)
qed

lemma bpred_lookup_total_witness:
  "\<exists>a p du s. bpred_lookup demo_isa demo_pred 64 0 2 True False (Some demo_du) 0 = Inr (a, p, du, s) \<and> bpred_wf p"
  using bpred_lookup_total [OF demo_wf(1)] by blast

lemma bpred_update_total_witness:
  "\<exists>p du q. bpred_update demo_isa p 64 128 1 False False 2 (Some du) = Inr q \<and> bpred_wf q"
proof -
  obtain p du where "good_upd p du" using demo_good by blast
  from bpred_update_total [OF this, of 1 64 demo_isa 128 False False 2] show ?thesis by auto
qed

lemma bpred_update_refines_btb_witness:
  "\<exists>p du q. bpred_update demo_isa p 64 128 1 False False 2 (Some du) = Inr q
    \<and> (\<forall>a. btb_index p a \<noteq> btb_index p 64 \<longrightarrow> btb_lines q a = btb_lines p a)"
proof -
  obtain p du where "good_upd p du" "stateful p" using demo_good by blast
  from bpred_update_refines_btb [OF this, of 1 64 demo_isa 128 False False 2] show ?thesis by auto
qed

lemma bpred_lookup_ras_witness:
  "\<exists>a p du. bpred_lookup demo_isa demo_pred 64 0 2 True False (Some demo_du) 0 = Inr (a, p, du, ret_tos demo_pred)
    \<and> ras_view p = 68 # butlast (ras_view demo_pred)"
  using bpred_lookup_ras [OF demo_wf(1,3) demo_ctrl(1), of 64 0 True False demo_du 0] demo_wf(4) by auto

lemma bpred_calls_and_returns_witness:
  "\<exists>p. run (ras_step demo_isa 2 demo_du) (demo_pred, []) [Some 64, Some 128, None, None] = Inr (p, [132, 68])"
  using bpred_calls_and_returns [OF demo_wf(1,3) demo_ctrl(1), of "[64, 128]" demo_du] demo_wf(4)
  by (simp add: numeral_2_eq_2)

lemma two_bit_learns_witness:
  "\<exists>p2 p3 du3 s. bpred_lookup demo_isa p2 64 0 2 False False (Some demo_du) 0 = Inr (128, p3, du3, s)"
  using two_bit_learns [OF demo_wf(1,2) demo_ctrl, of 64 0 demo_du 0 128 1 False] by auto

lemma bpred_update_zero_asserts_witness:
  "bpred_update demo_isa demo_pred 0 128 1 False False 2 (Some demo_du) = Inl AssertFail"
  using bpred_update_zero_asserts [OF _ _ demo_create demo_wf(3) _ demo_ctrl(1), of demo_du 1 128 False False]
  by (simp add: goes_on_def demo_du_def)

lemma bpred_after_priming_counters_witness:
  "jr_seen (bpred_after_priming demo_pred) = 0 \<and> retstack_pops (bpred_after_priming demo_pred) = 0"
  using bpred_after_priming_counters [of demo_pred] by simp

end
