(* ===== verification/LinkLists.thy ===== *)
theory LinkLists
  imports CPrelude
begin

text \<open>
  Several singly linked lists over one pool of nodes, as C programs keep them: each list has a
  head pointer, a node lies in at most one list, and operations take the first node out of a
  list or put a free node into one. Shared by the scheduler's RS links and the hash table of
  speculative stores.
\<close>

subsection \<open>Segments of chains\<close>

fun seg :: "('a \<Rightarrow> 'a option) \<Rightarrow> 'a option \<Rightarrow> 'a list \<Rightarrow> 'a option \<Rightarrow> bool" where
  "seg nx p [] q = (p = q)"
| "seg nx p (x # xs) q = (p = Some x \<and> seg nx (nx x) xs q)"

lemma chain_append: "chain nx p (xs @ ys) \<longleftrightarrow> (\<exists>m. seg nx p xs m \<and> chain nx m ys)"
  by (induction xs arbitrary: p) auto

lemma seg_snoc: "seg nx p (xs @ [x]) q \<longleftrightarrow> seg nx p xs (Some x) \<and> nx x = q"
  by (induction xs arbitrary: p) auto

lemma seg_cong: "(\<And>x. x \<in> set xs \<Longrightarrow> nx x = nx' x) \<Longrightarrow> seg nx p xs q = seg nx' p xs q"
  by (induction xs arbitrary: p) auto

lemma chain_head: "chain nx p xs \<Longrightarrow> p = (case xs of [] \<Rightarrow> None | x # _ \<Rightarrow> Some x)"
  by (cases xs) auto

subsection \<open>Lists over a pool\<close>

text \<open>The nodes are \<open>0..m-1\<close>, \<open>nx\<close> is the next pointer, \<open>h w\<close> the head of list \<open>w\<close> and \<open>f w\<close> its
  nodes.\<close>

definition lists_in :: "nat \<Rightarrow> (nat \<Rightarrow> nat option) \<Rightarrow> ('w \<Rightarrow> nat option) \<Rightarrow> ('w \<Rightarrow> nat list) \<Rightarrow> bool" where
  "lists_in m nx h f \<longleftrightarrow> (\<forall>w. chain nx (h w) (f w) \<and> distinct (f w) \<and> set (f w) \<subseteq> {..<m})
     \<and> (\<forall>w w'. w \<noteq> w' \<longrightarrow> set (f w) \<inter> set (f w') = {})"

lemma lists_inD:
  assumes "lists_in m nx h f"
  shows "chain nx (h w) (f w)" "distinct (f w)" "x \<in> set (f w) \<Longrightarrow> x < m"
    "length (f w) \<le> m" "w \<noteq> w' \<Longrightarrow> x \<in> set (f w) \<Longrightarrow> x \<notin> set (f w')"
proof -
  show F: "chain nx (h w) (f w)" "distinct (f w)" "x \<in> set (f w) \<Longrightarrow> x < m"
    using assms by (auto simp: lists_in_def)
  show "length (f w) \<le> m"
    using F(2) assms by (intro chain_bound) (simp_all add: lists_in_def)
  show "w \<noteq> w' \<Longrightarrow> x \<in> set (f w) \<Longrightarrow> x \<notin> set (f w')"
    using assms unfolding lists_in_def by blast
qed

lemma lists_inI:
  assumes "\<And>w. chain nx (h w) (f w)" "\<And>w. distinct (f w)"
    "\<And>w x. x \<in> set (f w) \<Longrightarrow> x < m"
    "\<And>w w' x. w \<noteq> w' \<Longrightarrow> x \<in> set (f w) \<Longrightarrow> x \<in> set (f w') \<Longrightarrow> False"
  shows "lists_in m nx h f"
  using assms unfolding lists_in_def by blast

text \<open>Taking the first link out of a list, and putting a link no list has into one.\<close>

lemma lists_in_take:
  assumes f: "lists_in m nx h f" and src: "f a = n # xs"
    and nxs: "\<And>l. l \<noteq> n \<Longrightarrow> nx' l = nx l"
    and hds: "\<And>w. h' w = (if w = a then nx n else h w)"
  shows "lists_in m nx' h' (f(a := xs))" and "n \<notin> set ((f(a := xs)) w)"
proof -
  note F = lists_inD [OF f]
  have nw: "n \<notin> set (f w)" if "w \<noteq> a" for w using F(5) [of a w n] that src by auto
  have nn: "n \<notin> set xs" "chain nx (nx n) xs" "distinct xs"
    using F(1,2) [of a] src by auto
  have same: "chain nx' p zs = chain nx p zs" if "n \<notin> set zs" for p zs
    by (intro chain_cong nxs) (use that in auto)
  show "n \<notin> set ((f(a := xs)) w)" using nw nn by auto
  show "lists_in m nx' h' (f(a := xs))"
  proof (rule lists_inI)
    fix w show "chain nx' (h' w) ((f(a := xs)) w)"
      using nw [of w] nn F(1) [of w] hds [of w] by (cases "w = a") (simp_all add: same)
    show "distinct ((f(a := xs)) w)" using nn F(2) [of w] by simp
    fix x assume "x \<in> set ((f(a := xs)) w)"
    then have xw: "x \<in> set (f w)" using src by (auto split: if_splits)
    then show "x < m" using F(3) by simp
    fix w' assume "w \<noteq> w'" "x \<in> set ((f(a := xs)) w')"
    then show False using F(5) [of w w' x] xw src by (auto split: if_splits)
  qed
qed

lemma lists_in_put:
  assumes f: "lists_in m nx h f" and n: "\<And>w. n \<notin> set (f w)" "n < m" and dst: "f b = ys @ zs"
    and nxs: "\<And>l. l \<noteq> n \<Longrightarrow> (ys \<noteq> [] \<Longrightarrow> l \<noteq> last ys) \<Longrightarrow> nx' l = nx l"
    and nn: "nx' n = (case zs of [] \<Rightarrow> None | z # _ \<Rightarrow> Some z)"
    and ny: "ys \<noteq> [] \<Longrightarrow> nx' (last ys) = Some n"
    and hds: "\<And>w. h' w = (if w = b \<and> ys = [] then Some n else h w)"
  shows "lists_in m nx' h' (f(b := ys @ n # zs))"
proof -
  let ?g = "f(b := ys @ n # zs)"
  note F = lists_inD [OF f]
  have cb: "chain nx (h b) (ys @ zs)" and db: "distinct (ys @ zs)"
    using F(1,2) [of b] dst by auto
  obtain u where m: "seg nx (h b) ys u" "chain nx u zs"
    using cb by (auto simp: chain_append)
  have yz: "n \<notin> set ys" "n \<notin> set zs" using n(1) [of b] dst by auto
  have cz: "chain nx' (nx' n) zs"
  proof -
    have "l \<noteq> n \<and> (ys \<noteq> [] \<longrightarrow> l \<noteq> last ys)" if "l \<in> set zs" for l
      using that yz db last_in_set [of ys] by (auto simp: disjoint_iff)
    then have "chain nx' u zs" using m(2) nxs by (auto intro: chain_cong [THEN iffD1, rotated])
    then show ?thesis using chain_head [OF m(2)] nn by simp
  qed
  have cb': "chain nx' (h' b) (ys @ n # zs)"
  proof (cases ys rule: rev_cases)
    case Nil
    then show ?thesis using hds [of b] cz by simp
  next
    case (snoc ys' y)
    have "l \<noteq> n \<and> (ys \<noteq> [] \<longrightarrow> l \<noteq> last ys)" if "l \<in> set ys'" for l using that yz db snoc by auto
    then have "seg nx' (h b) ys' (Some y)"
      using m(1) nxs snoc by (auto simp: seg_snoc intro: seg_cong [THEN iffD1, rotated])
    then have "seg nx' (h b) ys (Some n)" using ny snoc by (simp add: seg_snoc)
    then have "chain nx' (h b) (ys @ n # zs)"
      using cz unfolding chain_append by (intro exI [of _ "Some n"]) simp
    then show ?thesis using hds [of b] snoc by simp
  qed
  have other: "chain nx' (h' w) (f w)" if w: "w \<noteq> b" for w
  proof -
    have "l \<noteq> n \<and> (ys \<noteq> [] \<longrightarrow> l \<noteq> last ys)" if l: "l \<in> set (f w)" for l
    proof -
      have "l \<notin> set ys" using F(5) [of w b l] l w dst by auto
      then show ?thesis using n(1) [of w] l last_in_set [of ys] by auto
    qed
    then have "chain nx' (h w) (f w)"
      using F(1) [of w] nxs by (auto intro: chain_cong [THEN iffD1, rotated])
    then show ?thesis using hds [of w] w by simp
  qed
  show ?thesis
  proof (rule lists_inI)
    fix w show "chain nx' (h' w) (?g w)" using cb' other by simp
    show "distinct (?g w)" using db yz F(2) [of w] by auto
    fix x assume x: "x \<in> set (?g w)"
    then have xw: "x = n \<and> w = b \<or> x \<in> set (f w)" using dst by (auto split: if_splits)
    then show "x < m" using F(3) [of x w] n by auto
    fix w' assume w': "w \<noteq> w'" and x': "x \<in> set (?g w')"
    then have "x = n \<and> w' = b \<or> x \<in> set (f w')" using dst by (auto split: if_splits)
    with xw w' show False using F(5) [of w w' x] n(1) by auto
  qed
qed

lemma lists_in_cong:
  assumes "lists_in m nx h f" "m \<le> m'"
    "\<And>w l. l \<in> set (f w) \<Longrightarrow> nx' l = nx l" "\<And>w. h' w = h w"
  shows "lists_in m' nx' h' f"
proof (rule lists_inI)
  note F = lists_inD [OF assms(1)]
  fix w show "chain nx' (h' w) (f w)"
    using F(1) [of w] assms(3) [of _ w] assms(4) [of w] by (auto intro: chain_cong [THEN iffD1, rotated])
  show "distinct (f w)" by (rule F(2))
  fix x assume x: "x \<in> set (f w)"
  then show "x < m'" using F(3) [of x w] assms(2) by simp
  fix w' assume "w \<noteq> w'" "x \<in> set (f w')"
  then show False using F(5) [of w w' x] x by simp
qed


lemma lists_in_front:
  assumes f: "lists_in m nx h f" and b: "f b = ys @ e # zs" and ne: "ys \<noteq> []"
  shows "lists_in m (nx(last ys := nx e, e := h b)) (h(b := Some e)) (f(b := e # ys @ zs))"
proof -
  let ?nx = "nx(last ys := nx e, e := h b)"
  note F = lists_inD [OF f]
  have mem: "last ys \<in> set (f b)" "e \<in> set (f b)" using b last_in_set [OF ne] by auto
  show ?thesis
  proof (rule lists_inI)
    fix w show "chain ?nx ((h(b := Some e)) w) ((f(b := e # ys @ zs)) w)"
    proof (cases "w = b")
      case True
      then show ?thesis
        using chain_to_front [OF F(1) [of b, unfolded b] F(2) [of b, unfolded b] ne] by simp
    next
      case False
      then have "last ys \<notin> set (f w)" "e \<notin> set (f w)" using F(5) [of b w] mem by auto
      then show ?thesis using F(1) [of w] False by (simp add: chain_upd_notin)
    qed
    show "distinct ((f(b := e # ys @ zs)) w)" using F(2) [of w] F(2) [of b] b by auto
    fix x assume x: "x \<in> set ((f(b := e # ys @ zs)) w)"
    then have xw: "x \<in> set (f w)" using b by (auto split: if_splits)
    then show "x < m" using F(3) by simp
    fix w' assume "w \<noteq> w'" "x \<in> set ((f(b := e # ys @ zs)) w')"
    then show False using F(5) [of w w' x] xw b by (auto split: if_splits)
  qed
qed

end
