(* ===== verification/SpecMem.thy ===== *)
theory SpecMem
  imports Memory LinkLists
begin

text \<open>
  The speculative memory of sim-outorder.c: a hash table of buckets that holds the stores done on
  a mispredicted path, layered over the simulated memory, and its reset when the path is squashed.
  A pointer to a bucket is an index into the buckets allocated so far; the eight data bytes of a
  bucket are a byte list. \<open>calloc\<close> is taken to succeed.
\<close>

subsection \<open>State\<close>

definition STORE_HASH_SIZE :: nat where "STORE_HASH_SIZE = 32"

record spec_mem_ent =
  se_next :: "nat option"
  se_addr :: "64 word"
  se_data :: "8 word list"

record spec_store =
  store_htable :: "nat option list"
  bucket_free_list :: "nat option"
  buckets :: "spec_mem_ent list"

text \<open>The bounds of the simulated program's segments.\<close>

record regions =
  ld_text_base :: "64 word"
  ld_text_size :: "32 word"
  ld_data_base :: "64 word"
  ld_brk_point :: "64 word"
  ld_stack_base :: "64 word"

definition MD_VALID_ADDR :: "regions \<Rightarrow> 64 word \<Rightarrow> bool" where
  "MD_VALID_ADDR g addr \<longleftrightarrow> ld_text_base g \<le> addr \<and> addr < ld_text_base g + ucast (ld_text_size g)
     \<or> ld_data_base g \<le> addr \<and> addr < ld_brk_point g
     \<or> ld_stack_base g - 16 * 1024 * 1024 \<le> addr \<and> addr < ld_stack_base g"

definition HASH_ADDR :: "64 word \<Rightarrow> nat" where
  "HASH_ADDR addr =
     unat ((drop_bit 24 addr XOR drop_bit 16 addr XOR drop_bit 8 addr XOR addr) AND of_nat (STORE_HASH_SIZE - 1))"

subsection \<open>Access\<close>

definition upd_bucket :: "nat \<Rightarrow> (spec_mem_ent \<Rightarrow> spec_mem_ent) \<Rightarrow> spec_store \<Rightarrow> spec_store" where
  "upd_bucket e f st = st\<lparr>buckets := (buckets st)[e := f (buckets st ! e)]\<rparr>"

abbreviation bnx :: "spec_store \<Rightarrow> nat \<Rightarrow> nat option" where
  "bnx st \<equiv> (\<lambda>e. se_next (buckets st ! e))"

text \<open>The search of the chain, which moves the bucket it finds to the front.\<close>

definition spec_find :: "spec_store \<Rightarrow> 64 word \<Rightarrow> (nat option \<times> spec_store) cres" where
  "spec_find st addr =
     (let index = HASH_ADDR addr in
      cbind (pscan (Suc (length (buckets st))) (\<lambda>e. se_addr (buckets st ! e) = addr) (bnx st) None
               (store_htable st ! index)) (\<lambda>(prev, ent).
      Inr (ent, case ent of
          None \<Rightarrow> st
        | Some e \<Rightarrow> (case prev of
            None \<Rightarrow> st
          | Some q \<Rightarrow> (upd_bucket e (se_next_update (\<lambda>_. store_htable st ! index))
                        (upd_bucket q (se_next_update (\<lambda>_. bnx st e)) st))
                      \<lparr>store_htable := (store_htable st)[index := Some e]\<rparr>))))"

text \<open>A bucket for a new store: from the free list, or a fresh one. In the bug-compatible mode it is
  not entered into the table.\<close>

definition spec_alloc :: "bool \<Rightarrow> spec_store \<Rightarrow> 64 word \<Rightarrow> nat \<times> spec_store" where
  "spec_alloc bugcompat st addr =
     (let index = HASH_ADDR addr;
          st1 = (case bucket_free_list st of
                   None \<Rightarrow> st\<lparr>buckets := buckets st @ [\<lparr>se_next = None, se_addr = 0, se_data = replicate 8 0\<rparr>],
                             bucket_free_list := Some (length (buckets st))\<rparr>
                 | Some _ \<Rightarrow> st);
          e = the (bucket_free_list st1);
          st2 = st1\<lparr>bucket_free_list := bnx st1 e\<rparr>
      in (e, if bugcompat then st2
             else (upd_bucket e (\<lambda>b. \<lparr>se_next = store_htable st2 ! index, se_addr = addr, se_data = replicate 8 0\<rparr>) st2)
                  \<lparr>store_htable := (store_htable st2)[index := Some e]\<rparr>))"

definition access_ok :: "regions \<Rightarrow> mem_cmd \<Rightarrow> 64 word \<Rightarrow> bool" where
  "access_ok g cmd addr \<longleftrightarrow>
     ld_text_base g \<le> addr \<and> addr < ld_text_base g + ucast (ld_text_size g) \<and> cmd = Read \<or> MD_VALID_ADDR g addr"

text \<open>Non-speculative reads: an access of 8 bytes is two of 4.\<close>

definition mem_bytes :: "mem_t \<Rightarrow> 64 word \<Rightarrow> nat \<Rightarrow> (8 word list \<times> mem_t) cres" where
  "mem_bytes mem addr n =
     (if n = 8
      then cbind (MEM_READ mem addr 4) (\<lambda>(lo, m1). cbind (MEM_READ m1 (addr + 4) 4) (\<lambda>(hi, m2). Inr (lo @ hi, m2)))
      else MEM_READ mem addr n)"

definition spec_mem_access :: "bool \<Rightarrow> regions \<Rightarrow> (mem_t \<times> spec_store) mem_access_fn" where
  "spec_mem_access bugcompat g = (\<lambda>(mem, st) cmd addr p nbytes.
     if int (length p) < nbytes then Inl OutOfBounds
     else if nbytes AND (nbytes - 1) \<noteq> 0 \<or> addr AND word_of_int (nbytes - 1) \<noteq> 0 \<or> \<not> access_ok g cmd addr
     then Inr (fault_none, replicate (nat nbytes) 0 @ drop (nat nbytes) p, (mem, st))
     else
       cbind (spec_find st addr) (\<lambda>(ent, st1).
       let (ent', st2) = (case ent of
             None \<Rightarrow> if cmd = Write then (let (e, s) = spec_alloc bugcompat st1 addr in (Some e, s)) else (None, st1)
           | Some e \<Rightarrow> (Some e, st1));
           n = nat nbytes
       in if n \<notin> {1, 2, 4, 8} then Inl (Panic ''access size not supported in mis-speculative mode'')
          else case (cmd, ent') of
            (Read, Some e) \<Rightarrow> Inr (fault_none, take n (se_data (buckets st2 ! e)) @ drop n p, (mem, st2))
          | (Read, None) \<Rightarrow> cbind (mem_bytes mem addr n) (\<lambda>(bs, m1). Inr (fault_none, bs @ drop n p, (m1, st2)))
          | (Write, Some e) \<Rightarrow> Inr (fault_none, p,
              (mem, upd_bucket e (\<lambda>b. b\<lparr>se_data := take n p @ drop n (se_data b)\<rparr>) st2))
          | (Write, None) \<Rightarrow> Inl NullDeref))"

subsection \<open>Reset\<close>

fun release_chain :: "nat \<Rightarrow> nat option \<Rightarrow> spec_store \<Rightarrow> spec_store cres" where
  "release_chain 0 ent st = Inl Diverge"
| "release_chain (Suc n) None st = Inr st"
| "release_chain (Suc n) (Some e) st =
     release_chain n (bnx st e)
       ((upd_bucket e (se_next_update (\<lambda>_. bucket_free_list st)) st)\<lparr>bucket_free_list := Some e\<rparr>)"

fun release_table :: "nat list \<Rightarrow> spec_store \<Rightarrow> spec_store cres" where
  "release_table [] st = Inr st"
| "release_table (i # js) st =
     cbind (release_chain (Suc (length (buckets st))) (store_htable st ! i) st) (\<lambda>st1.
     release_table js (st1\<lparr>store_htable := (store_htable st1)[i := None]\<rparr>))"

text \<open>The table part of \<open>tracer_recover\<close> and of \<open>tracer_init\<close>.\<close>

definition spec_reset :: "spec_store \<Rightarrow> spec_store cres" where
  "spec_reset st = release_table [0..<STORE_HASH_SIZE] st"

definition spec_init :: "spec_store \<Rightarrow> spec_store" where
  "spec_init st = st\<lparr>store_htable := map (\<lambda>_. None) [0..<STORE_HASH_SIZE]\<rparr>"

end
