(* ===== verification/SpecMemCorrect.thy ===== *)
theory SpecMemCorrect
  imports SpecMem
begin

text \<open>
  The speculative memory as a finite map from addresses to eight bytes: the search and the
  allocation keep the table a partition of the buckets into hash chains and a free list, and the
  access function reads and writes the map.
\<close>

subsection \<open>The table as a map\<close>

text \<open>The lists of buckets: \<open>None\<close> is the free list, \<open>Some i\<close> the chain of hash value \<open>i\<close>.\<close>

fun bucket_head :: "spec_store \<Rightarrow> nat option \<Rightarrow> nat option" where
  "bucket_head st None = bucket_free_list st"
| "bucket_head st (Some i) = (if i < length (store_htable st) then store_htable st ! i else None)"

definition spec_lists :: "spec_store \<Rightarrow> (nat option \<Rightarrow> nat list) \<Rightarrow> bool" where
  "spec_lists st f \<longleftrightarrow> lists_in (length (buckets st)) (bnx st) (bucket_head st) f
     \<and> length (store_htable st) = STORE_HASH_SIZE
     \<and> (\<forall>i. \<forall>e \<in> set (f (Some i)). HASH_ADDR (se_addr (buckets st ! e)) = i \<and> length (se_data (buckets st ! e)) = 8)
     \<and> (\<forall>i. distinct (map (\<lambda>e. se_addr (buckets st ! e)) (f (Some i))))"

definition chain_of :: "spec_store \<Rightarrow> nat option \<Rightarrow> nat list" where
  "chain_of st w = collect (length (buckets st)) (bnx st) (bucket_head st w)"

definition spec_wf :: "spec_store \<Rightarrow> bool" where
  "spec_wf st \<longleftrightarrow> spec_lists st (chain_of st)"

definition bucket_for :: "spec_store \<Rightarrow> 64 word \<Rightarrow> nat list \<Rightarrow> nat option" where
  "bucket_for st addr es = find (\<lambda>e. se_addr (buckets st ! e) = addr) es"

definition spec_view :: "spec_store \<Rightarrow> 64 word \<Rightarrow> 8 word list option" where
  "spec_view st addr =
     map_option (\<lambda>e. se_data (buckets st ! e)) (bucket_for st addr (chain_of st (Some (HASH_ADDR addr))))"

lemma HASH_ADDR_less: "HASH_ADDR addr < STORE_HASH_SIZE"
proof -
  have "(of_nat (STORE_HASH_SIZE - 1) :: 64 word) = 2 ^ 5 - 1" by (simp add: STORE_HASH_SIZE_def)
  then show ?thesis using unat_and_mask_less [of 5, where 'a = 64]
    by (simp add: HASH_ADDR_def STORE_HASH_SIZE_def)
qed

lemma spec_listsD:
  assumes "spec_lists st f"
  shows "lists_in (length (buckets st)) (bnx st) (bucket_head st) f" "length (store_htable st) = STORE_HASH_SIZE"
    "e \<in> set (f (Some i)) \<Longrightarrow> HASH_ADDR (se_addr (buckets st ! e)) = i"
    "e \<in> set (f (Some i)) \<Longrightarrow> length (se_data (buckets st ! e)) = 8"
    "distinct (map (\<lambda>e. se_addr (buckets st ! e)) (f (Some i)))"
    "bucket_head st (Some (HASH_ADDR a)) = store_htable st ! HASH_ADDR a"
  using assms HASH_ADDR_less [of a] by (auto simp: spec_lists_def)

lemma spec_lists_chain_of: "spec_lists st f \<Longrightarrow> chain_of st = f"
proof
  fix w assume "spec_lists st f"
  note L = lists_inD [OF spec_listsD(1) [OF this]]
  show "chain_of st w = f w" unfolding chain_of_def by (rule collect_chain [OF L(1) L(4)])
qed

lemma spec_wfI: "spec_lists st f \<Longrightarrow> spec_wf st \<and> chain_of st = f"
  using spec_lists_chain_of by (auto simp: spec_wf_def)

lemma spec_view_lists:
  "spec_lists st f \<Longrightarrow> spec_view st a
     = map_option (\<lambda>e. se_data (buckets st ! e)) (bucket_for st a (f (Some (HASH_ADDR a))))"
  by (simp add: spec_view_def spec_lists_chain_of)

text \<open>In a list of buckets with distinct addresses the search finds the bucket of its address.\<close>

lemma bucket_for_unique:
  assumes "distinct (map (\<lambda>e. se_addr (buckets st ! e)) es)" "e \<in> set es"
  shows "bucket_for st (se_addr (buckets st ! e)) es = Some e"
  using assms unfolding bucket_for_def by (induction es) auto

lemma bucket_for_perm:
  assumes "distinct (map (\<lambda>e. se_addr (buckets st ! e)) es)" "set es' = set es"
    "distinct (map (\<lambda>e. se_addr (buckets st ! e)) es')"
  shows "bucket_for st a es' = bucket_for st a es"
  unfolding bucket_for_def
proof (rule find_unique)
  fix x y assume "x \<in> set es'" "y \<in> set es'" "se_addr (buckets st ! x) = a" "se_addr (buckets st ! y) = a"
  then show "x = y" using bucket_for_unique [OF assms(3)] by (metis option.inject)
qed (simp add: assms(2))

subsection \<open>The search\<close>

lemma spec_find_ok:
  assumes wf: "spec_lists st f"
  obtains st1 f1 where "spec_find st a = Inr (bucket_for st a (f (Some (HASH_ADDR a))), st1)"
    "spec_lists st1 f1" "\<And>w. set (f1 w) = set (f w)" "bucket_free_list st1 = bucket_free_list st"
    "\<And>e. se_addr (buckets st1 ! e) = se_addr (buckets st ! e) \<and> se_data (buckets st1 ! e) = se_data (buckets st ! e)"
    "length (buckets st1) = length (buckets st)" "spec_view st1 = spec_view st"
proof -
  let ?b = "Some (HASH_ADDR a)"
  note S = spec_listsD [OF wf] and L = lists_inD [OF spec_listsD(1) [OF wf]]
  have c: "chain (bnx st) (store_htable st ! HASH_ADDR a) (f ?b)" using L(1) [of ?b] S(6) by simp
  have len: "length (f ?b) < Suc (length (buckets st))" using L(4) [of ?b] by simp
  show ?thesis
  proof (cases "bucket_for st a (f ?b)")
    case None
    then have "\<forall>e \<in> set (f ?b). se_addr (buckets st ! e) \<noteq> a" by (simp add: bucket_for_def find_None_iff_all)
    from pscan_none [OF c this len, of None] None wf show ?thesis
      by (intro that [of st f]) (simp_all add: spec_find_def)
  next
    case (Some e)
    then obtain ys zs where e: "f ?b = ys @ e # zs" "\<forall>y \<in> set ys. se_addr (buckets st ! y) \<noteq> a" "se_addr (buckets st ! e) = a"
      unfolding bucket_for_def by (rule find_split_first)
    have "length ys < Suc (length (buckets st))" using len e(1) by simp
    note scan = pscan_found [OF c [unfolded e(1)] e(2,3) this, of None]
    show ?thesis
    proof (cases "ys = []")
      case True
      with scan Some wf show ?thesis by (intro that [of st f]) (simp_all add: spec_find_def)
    next
      case False
      define st1 where "st1 = (upd_bucket e (se_next_update (\<lambda>_. store_htable st ! HASH_ADDR a))
          (upd_bucket (last ys) (se_next_update (\<lambda>_. bnx st e)) st))\<lparr>store_htable := (store_htable st)[HASH_ADDR a := Some e]\<rparr>"
      let ?f = "f(?b := e # ys @ zs)"
      have in_b: "e \<in> set (f ?b)" "last ys \<in> set (f ?b)" using e(1) False last_in_set [of ys] by auto
      have lt: "e < length (buckets st)" "last ys < length (buckets st)" using L(3) in_b by auto
      have ne: "last ys \<noteq> e" using L(2) [of ?b] e(1) False last_in_set [of ys] by auto
      have nx: "bnx st1 = (bnx st)(last ys := bnx st e, e := bucket_head st ?b)"
        using lt ne S(6) by (auto simp: st1_def upd_bucket_def nth_list_update fun_eq_iff)
      have hd: "bucket_head st1 = (bucket_head st)(?b := Some e)"
      proof
        fix w show "bucket_head st1 w = ((bucket_head st)(?b := Some e)) w"
          using S(2) HASH_ADDR_less [of a] by (cases w) (auto simp: st1_def upd_bucket_def nth_list_update)
      qed
      have bk: "se_addr (buckets st1 ! i) = se_addr (buckets st ! i) \<and> se_data (buckets st1 ! i) = se_data (buckets st ! i)" for i
        using lt by (cases "i = e"; cases "i = last ys") (simp_all add: st1_def upd_bucket_def nth_list_update)
      have lens: "length (buckets st1) = length (buckets st)" "length (store_htable st1) = STORE_HASH_SIZE"
        using S(2) by (simp_all add: st1_def upd_bucket_def)
      have sets: "set (?f w) = set (f w)" for w using e(1) by auto
      have dis: "distinct (map (\<lambda>i. se_addr (buckets st1 ! i)) (?f (Some i)))" for i
        using S(5) [of i] e(1) by (cases "i = HASH_ADDR a") (simp_all add: bk disjoint_iff, metis)
      have "lists_in (length (buckets st1)) (bnx st1) (bucket_head st1) ?f"
        unfolding lens(1) nx hd by (rule lists_in_front [OF S(1) e(1) False])
      moreover have "\<forall>i. \<forall>x \<in> set (?f (Some i)). HASH_ADDR (se_addr (buckets st1 ! x)) = i \<and> length (se_data (buckets st1 ! x)) = 8"
        unfolding sets using S(3,4) bk by simp
      ultimately have wf1: "spec_lists st1 ?f" using lens(2) dis unfolding spec_lists_def by simp
      have "spec_view st1 x = spec_view st x" for x
      proof -
        have "bucket_for st x (?f (Some (HASH_ADDR x))) = bucket_for st x (f (Some (HASH_ADDR x)))"
          by (rule bucket_for_perm [OF S(5) sets]) (use dis [of "HASH_ADDR x"] in \<open>simp add: bk\<close>)
        then show ?thesis unfolding spec_view_lists [OF wf1] spec_view_lists [OF wf] by (simp add: bucket_for_def bk)
      qed
      moreover have "spec_find st a = Inr (Some e, st1)"
        using scan False e(1) by (simp add: spec_find_def st1_def Let_def)
      moreover have "bucket_free_list st1 = bucket_free_list st" by (simp add: st1_def upd_bucket_def)
      ultimately show ?thesis using wf1 sets bk lens(1) Some by (intro that [of st1 ?f]) auto
    qed
  qed
qed

subsection \<open>The allocation\<close>

lemma spec_lists_grow:
  assumes wf: "spec_lists st f" and fr: "bucket_free_list st = None"
    and st1: "st1 = st\<lparr>buckets := buckets st @ [b], bucket_free_list := Some (length (buckets st))\<rparr>" "se_next b = None"
  shows "spec_lists st1 (f(None := [length (buckets st)]))"
proof -
  let ?n = "length (buckets st)"
  note S = spec_listsD [OF wf] and L = lists_inD [OF spec_listsD(1) [OF wf]]
  have old: "buckets st1 ! e = buckets st ! e" if "e < ?n" for e using that by (simp add: st1 nth_append)
  have fN: "f None = []" using L(1) [of None] fr by (cases "f None") auto
  have "lists_in (length (buckets st1)) (bnx st1) (bucket_head st) f"
    using lists_in_cong [OF S(1), of "length (buckets st1)" "bnx st1" "bucket_head st"] L(3) old by (simp add: st1)
  then have "lists_in (length (buckets st1)) (bnx st1) (bucket_head st1) (f(None := [] @ ?n # []))"
  proof (rule lists_in_put [where zs = "[]"])
    show "?n \<notin> set (f w)" for w using L(3) [of ?n w] by auto
    show "bucket_head st1 w = (if w = None \<and> [] = [] then Some ?n else bucket_head st w)" for w
      by (cases w) (simp_all add: st1)
  qed (simp_all add: fN st1)
  moreover have "se_addr (buckets st1 ! e) = se_addr (buckets st ! e) \<and> se_data (buckets st1 ! e) = se_data (buckets st ! e)"
    if "e \<in> set (f (Some i))" for e i using L(3) [OF that] old by simp
  ultimately show ?thesis using S unfolding spec_lists_def
    by (simp add: st1(1) distinct_map inj_on_def)
qed

lemma spec_alloc_ok:
  assumes wf: "spec_lists st f" and new: "bucket_for st a (f (Some (HASH_ADDR a))) = None"
    and al: "spec_alloc False st a = (e, st2)"
  shows "\<exists>f2. spec_lists st2 f2 \<and> e \<in> set (f2 (Some (HASH_ADDR a)))"
    and "se_addr (buckets st2 ! e) = a" "se_data (buckets st2 ! e) = replicate 8 0" "e < length (buckets st2)"
    and "spec_view st2 = (spec_view st)(a := Some (replicate 8 0))"
proof -
  let ?h = "HASH_ADDR a" and ?b = "Some (HASH_ADDR a)"
  define st1 where "st1 = (case bucket_free_list st of
      None \<Rightarrow> st\<lparr>buckets := buckets st @ [\<lparr>se_next = None, se_addr = 0, se_data = replicate 8 0\<rparr>],
                bucket_free_list := Some (length (buckets st))\<rparr>
    | Some _ \<Rightarrow> st)"
  note L0 = lists_inD [OF spec_listsD(1) [OF wf]]
  obtain f1 where f1: "spec_lists st1 f1" "\<And>i. f1 (Some i) = f (Some i)" "bucket_free_list st1 \<noteq> None"
    "\<And>x i. x \<in> set (f (Some i)) \<Longrightarrow> buckets st1 ! x = buckets st ! x" "store_htable st1 = store_htable st"
  proof (cases "bucket_free_list st")
    case None
    then show ?thesis using spec_lists_grow [OF wf None refl, of "\<lparr>se_next = None, se_addr = 0, se_data = replicate 8 0\<rparr>"] L0(3)
      by (intro that [of "f(None := [length (buckets st)])"]) (simp_all add: st1_def nth_append)
  next
    case (Some x)
    then show ?thesis using wf by (intro that [of f]) (simp_all add: st1_def)
  qed
  note S = spec_listsD [OF f1(1)] and L = lists_inD [OF spec_listsD(1) [OF f1(1)]]
  let ?st2 = "st1\<lparr>bucket_free_list := bnx st1 (the (bucket_free_list st1))\<rparr>"
  have e: "e = the (bucket_free_list st1)"
    and st2: "st2 = (upd_bucket e (\<lambda>b. \<lparr>se_next = store_htable st1 ! ?h, se_addr = a, se_data = replicate 8 0\<rparr>)
        (st1\<lparr>bucket_free_list := bnx st1 e\<rparr>))\<lparr>store_htable := (store_htable st1)[?h := Some e]\<rparr>"
    using al by (auto simp: spec_alloc_def Let_def st1_def [symmetric])
  obtain xs where xs: "f1 None = e # xs" using L(1) [of None] f1(3) e by (cases "f1 None") auto
  have lt: "e < length (buckets st1)" using L(3) [of e None] xs by simp
  have bk: "buckets st2 ! i = (if i = e then \<lparr>se_next = store_htable st1 ! ?h, se_addr = a, se_data = replicate 8 0\<rparr> else buckets st1 ! i)" for i
    using lt by (simp add: st2 upd_bucket_def nth_list_update)
  show addr_e: "se_addr (buckets st2 ! e) = a" and "se_data (buckets st2 ! e) = replicate 8 0" by (simp_all add: bk)
  show lt2: "e < length (buckets st2)" using lt by (simp add: st2 upd_bucket_def)
  let ?h1 = "(bucket_head st1)(None := bnx st1 e)" and ?f1 = "f1(None := xs)"
  let ?f2 = "?f1(?b := [] @ e # f1 ?b)"
  have tk: "lists_in (length (buckets st1)) (bnx st1) ?h1 ?f1" "\<And>w. e \<notin> set (?f1 w)"
    using lists_in_take [OF S(1) xs, of "bnx st1" ?h1] by auto
  have "lists_in (length (buckets st2)) (bnx st2) (bucket_head st2) ?f2"
  proof -
    have "lists_in (length (buckets st1)) (bnx st2) (bucket_head st2) ?f2"
    proof (rule lists_in_put [OF tk lt, where zs = "f1 ?b"])
      show "bucket_head st2 w = (if w = ?b \<and> [] = [] then Some e else ?h1 w)" for w
        using S(2) HASH_ADDR_less [of a] by (cases w) (auto simp: st2 upd_bucket_def)
      show "bnx st2 e = (case f1 ?b of [] \<Rightarrow> None | z # _ \<Rightarrow> Some z)"
        using chain_head [OF L(1) [of ?b]] S(6) by (simp add: bk)
    qed (simp_all add: bk)
    then show ?thesis by (simp add: st2 upd_bucket_def)
  qed
  moreover have "length (store_htable st2) = STORE_HASH_SIZE" using S(2) by (simp add: st2)
  moreover have old: "buckets st2 ! x = buckets st ! x" if "x \<in> set (f (Some i))" for x i
    using f1(2) [of i] f1(4) [of x i] that tk(2) [of "Some i"] by (auto simp: bk)
  have fresh: "\<forall>x \<in> set (f ?b). se_addr (buckets st ! x) \<noteq> a"
    using new by (simp add: bucket_for_def find_None_iff_all)
  have f2: "?f2 (Some i) = (if i = ?h then e # f ?b else f (Some i))" for i using f1(2) by simp
  note S0 = spec_listsD [OF wf]
  have "\<forall>i. \<forall>x \<in> set (?f2 (Some i)). HASH_ADDR (se_addr (buckets st2 ! x)) = i \<and> length (se_data (buckets st2 ! x)) = 8"
  proof (intro allI ballI)
    fix i x assume "x \<in> set (?f2 (Some i))"
    then consider "x = e" "i = ?h" | "x \<in> set (f (Some i))" unfolding f2 by (auto split: if_splits)
    then show "HASH_ADDR (se_addr (buckets st2 ! x)) = i \<and> length (se_data (buckets st2 ! x)) = 8"
    proof cases
      case 1
      then show ?thesis by (simp add: bk)
    next
      case 2
      then show ?thesis using S0(3,4) old by simp
    qed
  qed
  moreover have "\<forall>i. distinct (map (\<lambda>x. se_addr (buckets st2 ! x)) (?f2 (Some i)))"
  proof
    fix i
    have "map (\<lambda>x. se_addr (buckets st2 ! x)) (f (Some i)) = map (\<lambda>x. se_addr (buckets st ! x)) (f (Some i))"
      using old by (intro map_cong) auto
    then have "map (\<lambda>x. se_addr (buckets st2 ! x)) (?f2 (Some i))
        = (if i = ?h then a # map (\<lambda>x. se_addr (buckets st ! x)) (f ?b) else map (\<lambda>x. se_addr (buckets st ! x)) (f (Some i)))"
      unfolding f2 by (simp add: addr_e)
    then show "distinct (map (\<lambda>x. se_addr (buckets st2 ! x)) (?f2 (Some i)))"
      using S0(5) [of i] fresh by auto
  qed
  ultimately have wf2: "spec_lists st2 ?f2" unfolding spec_lists_def by blast
  then show "\<exists>f2. spec_lists st2 f2 \<and> e \<in> set (f2 ?b)" by (intro exI [of _ ?f2]) simp
  show "spec_view st2 = (spec_view st)(a := Some (replicate 8 0))"
  proof
    fix x
    have same: "bucket_for st2 x (f (Some (HASH_ADDR x))) = bucket_for st x (f (Some (HASH_ADDR x)))"
      unfolding bucket_for_def using old by (intro find_cong) auto
    have inb: "y \<in> set (f (Some (HASH_ADDR x)))" if "bucket_for st x (f (Some (HASH_ADDR x))) = Some y" for y
      using that unfolding bucket_for_def by (auto dest: find_Some_iff_nth_in)
    show "spec_view st2 x = ((spec_view st)(a := Some (replicate 8 0))) x"
    proof (cases "x = a")
      case True
      then show ?thesis unfolding spec_view_lists [OF wf2] f2 by (simp add: bucket_for_def bk)
    next
      case False
      then have "bucket_for st2 x (?f2 (Some (HASH_ADDR x))) = bucket_for st x (f (Some (HASH_ADDR x)))"
        unfolding f2 same [symmetric] by (simp add: bucket_for_def addr_e)
      then show ?thesis using False inb old unfolding spec_view_lists [OF wf2] spec_view_lists [OF wf]
        by (cases "bucket_for st x (f (Some (HASH_ADDR x)))") auto
    qed
  qed
qed

subsection \<open>Access\<close>

lemma spec_write_ok:
  assumes wf: "spec_lists st f" and e: "e \<in> set (f (Some (HASH_ADDR a)))" "se_addr (buckets st ! e) = a"
    and d: "length d = 8"
  shows "spec_lists (upd_bucket e (\<lambda>b. b\<lparr>se_data := d\<rparr>) st) f"
    and "spec_view (upd_bucket e (\<lambda>b. b\<lparr>se_data := d\<rparr>) st) = (spec_view st)(a := Some d)"
proof -
  let ?st = "upd_bucket e (\<lambda>b. b\<lparr>se_data := d\<rparr>) st"
  note S = spec_listsD [OF wf] and L = lists_inD [OF spec_listsD(1) [OF wf]]
  have lt: "e < length (buckets st)" using L(3) [OF e(1)] .
  have bk: "buckets ?st ! i = (if i = e then (buckets st ! e)\<lparr>se_data := d\<rparr> else buckets st ! i)" for i
    using lt by (simp add: upd_bucket_def nth_list_update)
  have addr: "se_addr (buckets ?st ! i) = se_addr (buckets st ! i)" for i by (simp add: bk)
  have "bnx ?st = bnx st" by (simp add: bk fun_eq_iff)
  moreover have "bucket_head ?st = bucket_head st"
  proof
    fix w show "bucket_head ?st w = bucket_head st w" by (cases w) (simp_all add: upd_bucket_def)
  qed
  moreover have "length (buckets ?st) = length (buckets st)" by (simp add: upd_bucket_def)
  ultimately have "lists_in (length (buckets ?st)) (bnx ?st) (bucket_head ?st) f" using S(1) by simp
  then show wf': "spec_lists ?st f"
    using S(2-5) d unfolding spec_lists_def addr by (simp add: bk) (simp add: upd_bucket_def)
  show "spec_view ?st = (spec_view st)(a := Some d)"
  proof
    fix x
    let ?h = "Some (HASH_ADDR x)"
    have b: "bucket_for ?st x (f ?h) = bucket_for st x (f ?h)" by (simp add: bucket_for_def addr)
    have "bucket_for st x (f ?h) = Some e \<longleftrightarrow> x = a"
      using bucket_for_unique [OF S(5) e(1)] e(2) unfolding bucket_for_def by (auto dest: find_Some_iff_nth_in)
    then show "spec_view ?st x = ((spec_view st)(a := Some d)) x"
      unfolding spec_view_lists [OF wf'] spec_view_lists [OF wf] b
      by (cases "bucket_for st x (f ?h)") (auto simp: bk)
  qed
qed

text \<open>What an access does to the map: \<open>over\<close> replaces the first bytes.\<close>

definition over :: "8 word list \<Rightarrow> 8 word list \<Rightarrow> 8 word list" where
  "over bs old = bs @ drop (length bs) old"

definition aligned :: "64 word \<Rightarrow> int \<Rightarrow> bool" where
  "aligned addr nbytes \<longleftrightarrow> nbytes AND (nbytes - 1) = 0 \<and> addr AND word_of_int (nbytes - 1) = 0"

lemma spec_access_write:
  assumes wf: "spec_wf st" and ok: "access_ok g Write a" "aligned a (int n)" "n \<in> {1, 2, 4, 8}" "n \<le> length p"
  shows "\<exists>st'. spec_mem_access False g (mem, st) Write a p (int n) = Inr (fault_none, p, (mem, st')) \<and> spec_wf st'
    \<and> spec_view st' = (spec_view st)(a := Some (over (take n p) (case spec_view st a of None \<Rightarrow> replicate 8 0 | Some d \<Rightarrow> d)))"
proof -
  let ?h = "Some (HASH_ADDR a)"
  define f where "f = chain_of st"
  have f: "spec_lists st f" using wf by (simp add: spec_wf_def f_def)
  obtain st1 f1 where st1: "spec_find st a = Inr (bucket_for st a (f ?h), st1)" "spec_lists st1 f1"
    "\<And>w. set (f1 w) = set (f w)"
    "\<And>e. se_addr (buckets st1 ! e) = se_addr (buckets st ! e) \<and> se_data (buckets st1 ! e) = se_data (buckets st ! e)"
    "spec_view st1 = spec_view st"
    using spec_find_ok [OF f, of a] by metis
  have fin: "?thesis" if a: "spec_mem_access False g (mem, st) Write a p (int n)
      = Inr (fault_none, p, (mem, upd_bucket e (\<lambda>b. b\<lparr>se_data := take n p @ drop n (se_data b)\<rparr>) st2))"
      and wf2: "spec_lists st2 f2" and e: "e \<in> set (f2 ?h)" "se_addr (buckets st2 ! e) = a"
      and d: "se_data (buckets st2 ! e) = (case spec_view st a of None \<Rightarrow> replicate 8 0 | Some d \<Rightarrow> d)"
      and v: "(spec_view st2)(a := x) = (spec_view st)(a := x)" for e st2 f2 x
  proof -
    let ?d = "over (take n p) (se_data (buckets st2 ! e))"
    have len: "length ?d = 8" using spec_listsD(4) [OF wf2 e(1)] ok(3,4) by (auto simp: over_def)
    have "take n p @ drop n (se_data (buckets st2 ! e)) = ?d" using ok(4) by (simp add: over_def)
    then have upd: "upd_bucket e (\<lambda>b. b\<lparr>se_data := take n p @ drop n (se_data b)\<rparr>) st2 = upd_bucket e (\<lambda>b. b\<lparr>se_data := ?d\<rparr>) st2"
      by (simp add: upd_bucket_def)
    note w = spec_write_ok [OF wf2 e len]
    have "(spec_view st2)(a := Some ?d) = (spec_view st)(a := Some ?d)" using v by (metis fun_upd_upd)
    then show ?thesis using a [unfolded upd] w spec_wfI [OF w(1)] d by auto
  qed
  show ?thesis
  proof (cases "bucket_for st a (f ?h)")
    case (Some e)
    have e: "e \<in> set (f ?h)" "se_addr (buckets st ! e) = a"
      using Some unfolding bucket_for_def by (auto dest: find_Some_iff_nth_in)
    have "spec_view st a = Some (se_data (buckets st ! e))" using spec_view_lists [OF f] Some by simp
    then show ?thesis
      by (intro fin [of e st1, OF _ st1(2)])
        (use ok st1 Some e in \<open>auto simp: spec_mem_access_def aligned_def\<close>)
  next
    case None
    obtain e st2 where al: "spec_alloc False st1 a = (e, st2)" by (cases "spec_alloc False st1 a")
    have b1: "bucket_for st1 a (f1 ?h) = None"
      using None st1(3,4) by (simp add: bucket_for_def find_None_iff_all)
    note A = spec_alloc_ok [OF st1(2) b1 al]
    obtain f2 where f2: "spec_lists st2 f2" "e \<in> set (f2 ?h)" using A(1) by blast
    have "spec_view st a = None" using spec_view_lists [OF f] None by simp
    then show ?thesis
      by (intro fin [of e st2, OF _ f2]) (use ok st1 None A al in \<open>auto simp: spec_mem_access_def aligned_def\<close>)
  qed
qed

lemma spec_access_read:
  assumes wf: "spec_wf st" and ok: "access_ok g Read a" "aligned a (int n)" "n \<in> {1, 2, 4, 8}" "n \<le> length p"
    and mem: "mem_bytes mem a n = Inr (bs, mem')"
  shows "\<exists>st'. spec_mem_access bugcompat g (mem, st) Read a p (int n)
      = Inr (fault_none, (case spec_view st a of None \<Rightarrow> bs | Some d \<Rightarrow> take n d) @ drop n p,
             (case spec_view st a of None \<Rightarrow> mem' | Some _ \<Rightarrow> mem, st'))
    \<and> spec_wf st' \<and> spec_view st' = spec_view st"
proof -
  let ?h = "Some (HASH_ADDR a)"
  have f: "spec_lists st (chain_of st)" using wf by (simp add: spec_wf_def)
  obtain st1 f1 where st1: "spec_find st a = Inr (bucket_for st a (chain_of st ?h), st1)" "spec_lists st1 f1"
    "\<And>e. se_addr (buckets st1 ! e) = se_addr (buckets st ! e) \<and> se_data (buckets st1 ! e) = se_data (buckets st ! e)"
    "spec_view st1 = spec_view st"
    using spec_find_ok [OF f, of a] by metis
  then show ?thesis using ok mem spec_wfI [OF st1(2)] spec_view_lists [OF f, of a]
    by (intro exI [of _ st1]) (cases "bucket_for st a (chain_of st ?h)"; auto simp: spec_mem_access_def aligned_def)
qed

subsection \<open>Reset\<close>

definition same_data :: "spec_store \<Rightarrow> spec_store \<Rightarrow> bool" where
  "same_data st st' \<longleftrightarrow> length (buckets st') = length (buckets st) \<and>
     (\<forall>e. se_addr (buckets st' ! e) = se_addr (buckets st ! e) \<and> se_data (buckets st' ! e) = se_data (buckets st ! e))"

lemma release_chain_ok:
  assumes "lists_in (length (buckets st)) (bnx st) h f" "h None = bucket_free_list st" "h (Some i) = ent"
    "length (f (Some i)) < k"
  shows "\<exists>st'. release_chain k ent st = Inr st' \<and> store_htable st' = store_htable st \<and> same_data st st'
    \<and> lists_in (length (buckets st)) (bnx st') (h(Some i := None, None := bucket_free_list st'))
        (f(Some i := [], None := rev (f (Some i)) @ f None))"
  using assms
proof (induction "f (Some i)" arbitrary: st ent h f k)
  case Nil
  note L = lists_inD [OF Nil.prems(1)]
  have "ent = None" using L(1) [of "Some i"] Nil.hyps [symmetric] Nil.prems(3) by simp
  moreover obtain k' where "k = Suc k'" using Nil.prems(4) by (cases k) auto
  moreover have triv: "h(Some i := None, None := bucket_free_list st) = h" "f(Some i := [], None := rev (f (Some i)) @ f None) = f"
    using Nil.hyps [symmetric] Nil.prems(2,3) \<open>ent = None\<close> by (auto simp: fun_eq_iff)
  moreover have li: "lists_in (length (buckets st)) (bnx st) (h(Some i := None, None := bucket_free_list st))
      (f(Some i := [], None := rev (f (Some i)) @ f None))"
    unfolding triv by (rule Nil.prems(1))
  ultimately show ?case
    by (intro exI [of _ st] conjI li) (simp_all add: same_data_def)
next
  case (Cons e es)
  note fe = Cons.hyps(2) [symmetric] and L = lists_inD [OF Cons.prems(1)]
  obtain k' where k: "k = Suc k'" using Cons.prems(4) by (cases k) auto
  have ent: "ent = Some e" using L(1) [of "Some i"] fe Cons.prems(3) by simp
  have lt: "e < length (buckets st)" using L(3) [of e "Some i"] fe by simp
  let ?st = "(upd_bucket e (se_next_update (\<lambda>_. bucket_free_list st)) st)\<lparr>bucket_free_list := Some e\<rparr>"
  let ?h1 = "h(Some i := bnx st e)" and ?f1 = "f(Some i := es)"
  let ?h2 = "?h1(None := Some e)" and ?f2 = "?f1(None := [] @ e # ?f1 None)"
  have tk: "lists_in (length (buckets st)) (bnx st) ?h1 ?f1" "\<And>w. e \<notin> set (?f1 w)"
    using lists_in_take [OF Cons.prems(1) fe, of "bnx st" ?h1] by auto
  have bk: "buckets ?st ! j = (if j = e then (buckets st ! e)\<lparr>se_next := bucket_free_list st\<rparr> else buckets st ! j)" for j
    using lt by (simp add: upd_bucket_def nth_list_update)
  have "lists_in (length (buckets st)) (bnx ?st) ?h2 ?f2"
  proof (rule lists_in_put [OF tk lt, where zs = "?f1 None"])
    show "bnx ?st e = (case ?f1 None of [] \<Rightarrow> None | z # _ \<Rightarrow> Some z)"
      unfolding bk using chain_head [OF L(1) [of None]] Cons.prems(2) by simp
  qed (simp_all add: upd_bucket_def)
  moreover have "length (buckets ?st) = length (buckets st)" by (simp add: upd_bucket_def)
  moreover have "es = ?f2 (Some i)" "length (?f2 (Some i)) < k'" using Cons.prems(4) fe k by simp_all
  ultimately obtain st' where st': "release_chain k' (bnx st e) ?st = Inr st'" "store_htable st' = store_htable ?st"
    "same_data ?st st'" "lists_in (length (buckets st)) (bnx st') (?h2(Some i := None, None := bucket_free_list st'))
        (?f2(Some i := [], None := rev (?f2 (Some i)) @ ?f2 None))"
    using Cons.hyps(1) [of ?f2 ?st ?h2 "bnx st e" k'] by auto
  have "?f2(Some i := [], None := rev (?f2 (Some i)) @ ?f2 None) = f(Some i := [], None := rev (f (Some i)) @ f None)"
    "?h2(Some i := None, None := bucket_free_list st') = h(Some i := None, None := bucket_free_list st')"
    using fe by (auto simp: fun_eq_iff)
  moreover have "same_data st st'" using st'(3) bk by (auto simp: same_data_def upd_bucket_def)
  moreover have "store_htable st' = store_htable st" using st'(2) by (simp add: upd_bucket_def)
  ultimately show ?case using st'(1,4) by (auto simp: k ent)
qed

lemma release_table_ok:
  assumes "spec_lists st f" "set js \<subseteq> {..<STORE_HASH_SIZE}" "distinct js"
  shows "\<exists>st' f'. release_table js st = Inr st' \<and> spec_lists st' f' \<and> same_data st st'
    \<and> (\<forall>i. f' (Some i) = (if i \<in> set js then [] else f (Some i)))
    \<and> set (f' None) = set (f None) \<union> (\<Union>i \<in> set js. set (f (Some i)))"
  using assms
proof (induction js arbitrary: st f)
  case Nil
  then show ?case by (intro exI [of _ st] exI [of _ f]) (simp add: same_data_def)
next
  case (Cons i js)
  note S = spec_listsD [OF Cons.prems(1)] and L = lists_inD [OF spec_listsD(1) [OF Cons.prems(1)]]
  have i: "i < STORE_HASH_SIZE" using Cons.prems(2) by simp
  let ?f = "f(Some i := [], None := rev (f (Some i)) @ f None)"
  have "bucket_head st None = bucket_free_list st" "bucket_head st (Some i) = store_htable st ! i"
    "length (f (Some i)) < Suc (length (buckets st))"
    using i S(2) L(4) [of "Some i"] by simp_all
  from release_chain_ok [OF S(1) this]
  obtain st1 where st1: "release_chain (Suc (length (buckets st))) (store_htable st ! i) st = Inr st1"
    "store_htable st1 = store_htable st" "same_data st st1"
    "lists_in (length (buckets st)) (bnx st1) ((bucket_head st)(Some i := None, None := bucket_free_list st1)) ?f"
    by blast
  let ?st = "st1\<lparr>store_htable := (store_htable st1)[i := None]\<rparr>"
  have sd: "same_data st ?st" using st1(3) by (simp add: same_data_def)
  have hd: "bucket_head ?st = (bucket_head st)(Some i := None, None := bucket_free_list st1)"
  proof
    fix w show "bucket_head ?st w = ((bucket_head st)(Some i := None, None := bucket_free_list st1)) w"
      using i S(2) st1(2) by (cases w) (auto simp: nth_list_update)
  qed
  have "lists_in (length (buckets ?st)) (bnx ?st) (bucket_head ?st) ?f"
    unfolding hd using st1(4) sd by (simp add: same_data_def)
  moreover have "length (store_htable ?st) = STORE_HASH_SIZE" using S(2) st1(2) by simp
  moreover have "\<forall>j. \<forall>e \<in> set (?f (Some j)). HASH_ADDR (se_addr (buckets ?st ! e)) = j \<and> length (se_data (buckets ?st ! e)) = 8"
    using S(3,4) sd by (auto simp: same_data_def)
  moreover have "\<forall>j. distinct (map (\<lambda>e. se_addr (buckets ?st ! e)) (?f (Some j)))"
    using S(5) sd by (auto simp: same_data_def)
  ultimately have "spec_lists ?st ?f" unfolding spec_lists_def by blast
  from Cons.IH [OF this] Cons.prems(2,3)
  obtain st' f' where st': "release_table js ?st = Inr st'" "spec_lists st' f'" "same_data ?st st'"
    "\<forall>j. f' (Some j) = (if j \<in> set js then [] else ?f (Some j))"
    "set (f' None) = set (?f None) \<union> (\<Union>j \<in> set js. set (?f (Some j)))" by auto
  have "same_data st st'" using sd st'(3) by (simp add: same_data_def)
  moreover have "set (f' None) = set (f None) \<union> (\<Union>j \<in> set (i # js). set (f (Some j)))"
    unfolding st'(5) using Cons.prems(3) by (auto split: if_splits)
  ultimately show ?case using st1(1) st'(1,2,4)
    by (intro exI [of _ st'] exI [of _ f']) auto
qed

lemma spec_reset_ok:
  assumes "spec_wf st"
  shows "\<exists>st'. spec_reset st = Inr st' \<and> spec_wf st' \<and> spec_view st' = (\<lambda>_. None)
    \<and> length (buckets st') = length (buckets st)
    \<and> set (chain_of st' None) = (\<Union>w. set (chain_of st w))"
proof -
  have f: "spec_lists st (chain_of st)" using assms by (simp add: spec_wf_def)
  obtain st' f' where st': "spec_reset st = Inr st'" "spec_lists st' f'" "same_data st st'"
    "\<forall>i. f' (Some i) = (if i \<in> {..<STORE_HASH_SIZE} then [] else chain_of st (Some i))"
    "set (f' None) = set (chain_of st None) \<union> (\<Union>i \<in> {..<STORE_HASH_SIZE}. set (chain_of st (Some i)))"
    using release_table_ok [OF f, of "[0..<STORE_HASH_SIZE]"] unfolding spec_reset_def
    by (auto simp: lessThan_atLeast0 atLeast_upt)
  have out: "chain_of st (Some i) = []" if "\<not> i < STORE_HASH_SIZE" for i
  proof (cases "chain_of st (Some i)")
    case (Cons e es)
    then have "e \<in> set (chain_of st (Some i))" by simp
    then have "i < STORE_HASH_SIZE" using spec_listsD(3) [OF f] HASH_ADDR_less by metis
    then show ?thesis using that by simp
  qed
  have "set (chain_of st' None) = (\<Union>w. set (chain_of st w))"
  proof -
    have "(\<Union>w. set (chain_of st w)) = set (chain_of st None) \<union> (\<Union>i. set (chain_of st (Some i)))"
      unfolding UNIV_option_conv by auto
    also have "(\<Union>i. set (chain_of st (Some i))) = (\<Union>i \<in> {..<STORE_HASH_SIZE}. set (chain_of st (Some i)))"
      using out by fastforce
    finally show ?thesis using st'(5) spec_lists_chain_of [OF st'(2)] by simp
  qed
  moreover have "spec_view st' = (\<lambda>_. None)"
    using st'(4) HASH_ADDR_less by (simp add: spec_view_lists [OF st'(2)] bucket_for_def fun_eq_iff)
  ultimately show ?thesis using st'(1,3) spec_wfI [OF st'(2)] by (auto simp: same_data_def)
qed

lemma spec_init_ok:
  assumes "buckets st = []" "bucket_free_list st = None"
  shows "spec_wf (spec_init st)" "spec_view (spec_init st) = (\<lambda>_. None)"
proof -
  have hd: "bucket_head (spec_init st) w = None" for w
    using assms by (cases w) (auto simp: spec_init_def)
  have wf: "spec_lists (spec_init st) (\<lambda>_. [])"
    unfolding spec_lists_def by (simp add: lists_in_def hd) (simp add: spec_init_def)
  then show "spec_wf (spec_init st)" using spec_wfI by blast
  show "spec_view (spec_init st) = (\<lambda>_. None)"
    by (simp add: spec_view_lists [OF wf] bucket_for_def fun_eq_iff)
qed

subsection \<open>The properties\<close>

text \<open>C24: On a mispredicted path the simulated memory is never written: a store only changes the
  speculative map at its address, keeping the bytes beyond its size, and a load returns the bytes of
  the speculative map at its address and those of memory when the map has none. Misaligned accesses
  and accesses outside the segments read zeros and store nothing.\<close>

theorem spec_mem_layer:
  assumes wf: "spec_wf st" and n: "n \<in> {1, 2, 4, 8}" "n \<le> length p"
  shows "(aligned a (int n) \<and> access_ok g Write a \<longrightarrow>
      (\<exists>st'. spec_mem_access False g (mem, st) Write a p (int n) = Inr (fault_none, p, (mem, st')) \<and> spec_wf st'
        \<and> spec_view st' = (spec_view st)(a := Some (over (take n p) (case spec_view st a of None \<Rightarrow> replicate 8 0 | Some d \<Rightarrow> d)))))
    \<and> (aligned a (int n) \<and> access_ok g Read a \<and> mem_bytes mem a n = Inr (bs, mem') \<longrightarrow>
      (\<exists>st'. spec_mem_access bugcompat g (mem, st) Read a p (int n)
          = Inr (fault_none, (case spec_view st a of None \<Rightarrow> bs | Some d \<Rightarrow> take n d) @ drop n p,
                 (case spec_view st a of None \<Rightarrow> mem' | Some _ \<Rightarrow> mem, st'))
        \<and> spec_wf st' \<and> spec_view st' = spec_view st))
    \<and> (\<not> aligned a (int n) \<or> \<not> access_ok g cmd a \<longrightarrow>
      spec_mem_access bugcompat g (mem, st) cmd a p (int n) = Inr (fault_none, replicate n 0 @ drop n p, (mem, st)))"
proof (intro conjI impI)
  assume "aligned a (int n) \<and> access_ok g Write a"
  then show "\<exists>st'. spec_mem_access False g (mem, st) Write a p (int n) = Inr (fault_none, p, (mem, st')) \<and> spec_wf st'
        \<and> spec_view st' = (spec_view st)(a := Some (over (take n p) (case spec_view st a of None \<Rightarrow> replicate 8 0 | Some d \<Rightarrow> d)))"
    using spec_access_write [OF wf _ _ n] by blast
next
  assume "aligned a (int n) \<and> access_ok g Read a \<and> mem_bytes mem a n = Inr (bs, mem')"
  then show "\<exists>st'. spec_mem_access bugcompat g (mem, st) Read a p (int n)
          = Inr (fault_none, (case spec_view st a of None \<Rightarrow> bs | Some d \<Rightarrow> take n d) @ drop n p,
                 (case spec_view st a of None \<Rightarrow> mem' | Some _ \<Rightarrow> mem, st'))
        \<and> spec_wf st' \<and> spec_view st' = spec_view st"
    using spec_access_read [OF wf _ _ n] by blast
next
  assume "\<not> aligned a (int n) \<or> \<not> access_ok g cmd a"
  then show "spec_mem_access bugcompat g (mem, st) cmd a p (int n) = Inr (fault_none, replicate n 0 @ drop n p, (mem, st))"
    using n(2) by (auto simp: spec_mem_access_def aligned_def)
qed

definition no_stores :: spec_store where
  "no_stores = spec_init \<lparr>store_htable = [], bucket_free_list = None, buckets = []\<rparr>"

definition small_regions :: regions where
  "small_regions = \<lparr>ld_text_base = 0x1000, ld_text_size = 0x1000, ld_data_base = 0x4000, ld_brk_point = 0x8000,
     ld_stack_base = 0x7fff0000\<rparr>"

lemma no_stores_ok: "spec_wf no_stores" "spec_view no_stores = (\<lambda>_. None)"
  by (simp_all add: no_stores_def spec_init_ok)

theorem spec_mem_layer_witness:
  "\<exists>st'. spec_mem_access False small_regions (mem_create ''m'', no_stores) Write 0x4008 [7, 0, 0, 0] 4
      = Inr (fault_none, [7, 0, 0, 0], (mem_create ''m'', st'))
    \<and> spec_view st' 0x4008 = Some [7, 0, 0, 0, 0, 0, 0, 0]"
proof -
  have "aligned 0x4008 (int 4)" "access_ok small_regions Write 0x4008" by code_simp+
  then show ?thesis
    using spec_mem_layer [OF no_stores_ok(1), of 4 "[7, 0, 0, 0]" "0x4008" small_regions "mem_create ''m''",
        THEN conjunct1]
    by (auto simp: no_stores_ok(2) over_def numeral_eq_Suc)
qed

text \<open>Recovery from a misprediction forgets every speculative store and returns all their buckets
  to the free list, whatever the table holds; no bucket is lost.\<close>

theorem spec_reset_forgets:
  assumes "spec_wf st"
  shows "\<exists>st'. spec_reset st = Inr st' \<and> spec_wf st' \<and> spec_view st' = (\<lambda>_. None)
    \<and> length (buckets st') = length (buckets st)
    \<and> set (chain_of st' None) = (\<Union>w. set (chain_of st w))"
  by (rule spec_reset_ok [OF assms])

definition one_store :: spec_store where
  "one_store = snd (spec_alloc False no_stores 0x4008)"

lemma one_store_ok: "spec_wf one_store" "spec_view one_store 0x4008 = Some (replicate 8 0)"
proof -
  obtain e where e: "spec_alloc False no_stores 0x4008 = (e, one_store)"
    unfolding one_store_def by (cases "spec_alloc False no_stores 0x4008") simp
  have f: "spec_lists no_stores (chain_of no_stores)" using no_stores_ok(1) by (simp add: spec_wf_def)
  have "bucket_for no_stores 0x4008 (chain_of no_stores (Some (HASH_ADDR 0x4008))) = None"
    using no_stores_ok(2) spec_view_lists [OF f, of "0x4008"] by simp
  note A = spec_alloc_ok [OF f this e]
  show "spec_wf one_store" using A(1) spec_wfI by blast
  show "spec_view one_store 0x4008 = Some (replicate 8 0)" using A(5) by simp
qed

theorem spec_reset_forgets_witness:
  "\<exists>st'. spec_reset one_store = Inr st' \<and> spec_view one_store 0x4008 \<noteq> None \<and> spec_view st' 0x4008 = None"
  using spec_reset_forgets [OF one_store_ok(1)] one_store_ok(2) by auto

end
