(* ===== verification/Hier.thy ===== *)
theory Hier
  imports Cache "HOL-Library.Signed_Division"
begin

text \<open>
  The cache hierarchy of sim-outorder.c: the miss handlers that connect the caches and TLBs with
  one another and with memory. A cache pointer is an index into the list of caches, each kept with
  the handler it was created with; caches may be shared (a unified instruction and data cache). A
  handler that stops the simulator leaves the first failure in \<open>hier_err\<close>, and the access as a whole
  returns it. The \<open>n\<close>-th access draws \<open>rnd n\<close> when it replaces a random block.
\<close>

datatype miss_handler = DL1_fn | DL2_fn | IL1_fn | IL2_fn | ITLB_fn | DTLB_fn

record mem_hier =
  hcaches :: "(cache \<times> miss_handler) list"
  cache_dl1 :: "nat option"
  cache_dl2 :: "nat option"
  cache_il1 :: "nat option"
  cache_il2 :: "nat option"
  itlb :: "nat option"
  dtlb :: "nat option"
  hier_accesses :: nat
  hier_err :: "cerr option"

record latencies =
  mem_lat0 :: int
  mem_lat1 :: int
  mem_bus_width :: int
  tlb_miss_lat :: int

definition mem_access_latency :: "latencies \<Rightarrow> int \<Rightarrow> 32 word cres" where
  "mem_access_latency g blk_sz =
     (let chunks = (blk_sz + (mem_bus_width g - 1)) sdiv mem_bus_width g in
      cassert (chunks > 0) (Inr (word_of_int (mem_lat0 g + mem_lat1 g * (chunks - 1)))))"

text \<open>The result of a handler: a latency, or a failure, with the block's data as it is.\<close>

definition handled :: "cache_blk \<Rightarrow> (32 word \<times> mem_hier) cres \<Rightarrow> mem_hier \<Rightarrow> 32 word \<times> 8 word list \<times> mem_hier" where
  "handled blk r w = (case r of
       Inr (lat, w') \<Rightarrow> (lat, blk_data blk, w')
     | Inl e \<Rightarrow> (0, blk_data blk, w\<lparr>hier_err := (case hier_err w of None \<Rightarrow> Some e | Some e' \<Rightarrow> Some e')\<rparr>))"

text \<open>An access to the \<open>k\<close>-th cache, whose miss handler is given by \<open>fn\<close>.\<close>

definition access_via :: "(miss_handler \<Rightarrow> mem_hier blk_access_fn) \<Rightarrow> (nat \<Rightarrow> int) \<Rightarrow> nat \<Rightarrow> mem_cmd \<Rightarrow> 64 word
    \<Rightarrow> int \<Rightarrow> 64 word \<Rightarrow> mem_hier \<Rightarrow> (32 word \<times> mem_hier) cres" where
  "access_via fn rnd k cmd addr nbytes now w =
     (let (cp, h) = hcaches w ! k in
      cbind (cache_access (fn h) cp cmd addr [] nbytes now (rnd (hier_accesses w))
               (w\<lparr>hier_accesses := hier_accesses w + 1\<rparr>)) (\<lambda>r.
      let w' = ao_world r in
      case hier_err w' of
        Some e \<Rightarrow> Inl e
      | None \<Rightarrow> Inr (ao_lat r, w'\<lparr>hcaches := (hcaches w')[k := (ao_cache r, h)]\<rparr>)))"

text \<open>Main memory: reads take the latency of a block, writes are buffered.\<close>

definition memory_below :: "latencies \<Rightarrow> mem_cmd \<Rightarrow> int \<Rightarrow> mem_hier \<Rightarrow> (32 word \<times> mem_hier) cres" where
  "memory_below g cmd bsize w =
     (if cmd = Read then cbind (mem_access_latency g bsize) (\<lambda>lat. Inr (lat, w)) else Inr (0, w))"

definition no_inst_write :: "mem_cmd \<Rightarrow> 'a \<Rightarrow> 'a cres" where
  "no_inst_write cmd r =
     (if cmd = Read then Inr r else Inl (Panic ''writes to instruction memory not supported''))"

definition tlb_access_fn :: "latencies \<Rightarrow> cache_blk \<Rightarrow> mem_hier \<Rightarrow> (32 word \<times> mem_hier) cres" where
  "tlb_access_fn g blk w = cassert (blk_user_data blk \<noteq> None) (Inr (word_of_int (tlb_miss_lat g), w))"

text \<open>The handlers; \<open>below\<close> is an access to a cache of the next level. The translation a TLB handler
  stores through the block's user data is the constant 0 and no code reads it.\<close>

definition dl1_access_fn :: "latencies \<Rightarrow> (nat \<Rightarrow> mem_cmd \<Rightarrow> 64 word \<Rightarrow> int \<Rightarrow> 64 word \<Rightarrow> mem_hier \<Rightarrow> (32 word \<times> mem_hier) cres)
    \<Rightarrow> mem_hier blk_access_fn" where
  "dl1_access_fn g below cmd baddr bsize blk now w = handled blk
     (case cache_dl2 w of
        Some k \<Rightarrow> cbind (below k cmd baddr bsize now w) (\<lambda>(lat, w'). Inr (if cmd = Read then lat else 0, w'))
      | None \<Rightarrow> memory_below g cmd bsize w) w"

definition dl2_access_fn :: "latencies \<Rightarrow> mem_hier blk_access_fn" where
  "dl2_access_fn g cmd baddr bsize blk now w = handled blk (memory_below g cmd bsize w) w"

definition il1_access_fn :: "latencies \<Rightarrow> (nat \<Rightarrow> mem_cmd \<Rightarrow> 64 word \<Rightarrow> int \<Rightarrow> 64 word \<Rightarrow> mem_hier \<Rightarrow> (32 word \<times> mem_hier) cres)
    \<Rightarrow> mem_hier blk_access_fn" where
  "il1_access_fn g below cmd baddr bsize blk now w = handled blk
     (case cache_il2 w of
        Some k \<Rightarrow> cbind (below k cmd baddr bsize now w) (\<lambda>(lat, w'). no_inst_write cmd (lat, w'))
      | None \<Rightarrow> cbind (no_inst_write cmd ()) (\<lambda>_. memory_below g cmd bsize w)) w"

definition il2_access_fn :: "latencies \<Rightarrow> mem_hier blk_access_fn" where
  "il2_access_fn g cmd baddr bsize blk now w = handled blk
     (cbind (no_inst_write cmd ()) (\<lambda>_. memory_below g cmd bsize w)) w"

definition itlb_access_fn :: "latencies \<Rightarrow> mem_hier blk_access_fn" where
  "itlb_access_fn g cmd baddr bsize blk now w = handled blk (tlb_access_fn g blk w) w"

definition dtlb_access_fn :: "latencies \<Rightarrow> mem_hier blk_access_fn" where
  "dtlb_access_fn g cmd baddr bsize blk now w = handled blk (tlb_access_fn g blk w) w"

text \<open>The call through \<open>blk_access_fn\<close>; the fuel is the number of cache levels still below.\<close>

fun call_handler :: "nat \<Rightarrow> latencies \<Rightarrow> (nat \<Rightarrow> int) \<Rightarrow> miss_handler \<Rightarrow> mem_hier blk_access_fn" where
  "call_handler 0 g rnd h cmd baddr bsize blk now w = handled blk (Inl Diverge) w"
| "call_handler (Suc d) g rnd h cmd baddr bsize blk now w =
     (let below = access_via (call_handler d g rnd) rnd in
      case h of
        DL1_fn \<Rightarrow> dl1_access_fn g below cmd baddr bsize blk now w
      | DL2_fn \<Rightarrow> dl2_access_fn g cmd baddr bsize blk now w
      | IL1_fn \<Rightarrow> il1_access_fn g below cmd baddr bsize blk now w
      | IL2_fn \<Rightarrow> il2_access_fn g cmd baddr bsize blk now w
      | ITLB_fn \<Rightarrow> itlb_access_fn g cmd baddr bsize blk now w
      | DTLB_fn \<Rightarrow> dtlb_access_fn g cmd baddr bsize blk now w)"

definition hier_access :: "latencies \<Rightarrow> (nat \<Rightarrow> int) \<Rightarrow> nat \<Rightarrow> mem_cmd \<Rightarrow> 64 word \<Rightarrow> int \<Rightarrow> 64 word \<Rightarrow> mem_hier
    \<Rightarrow> (32 word \<times> mem_hier) cres" where
  "hier_access g rnd = access_via (call_handler 2 g rnd) rnd"

end
