(* ===== verification/HierProps.thy ===== *)
theory HierProps
  imports Hier CacheProps
begin

text \<open>
  The hierarchy as a whole: data accesses end, keep every cache well-formed and fail only with the
  size and alignment error of \<open>cache_access\<close>, whatever the levels below do.
\<close>

subsection \<open>What an access does to the state below\<close>

lemma MK_BADDR_aligned:
  assumes g: "geometry cp kb ks ka"
  shows "CACHE_MK_BADDR cp tag st AND cp_blk_mask cp = 0" "CACHE_BADDR cp addr AND cp_blk_mask cp = 0"
proof -
  have t: "x AND cp_blk_mask cp = take_bit kb x" for x
    using g by (simp add: geometry_def and_mask_word)
  have sh: "cp_tag_shift cp = kb + ks" "cp_set_shift cp = kb" using g by (simp_all add: geometry_def)
  have "take_bit kb (push_bit (kb + ks) tag :: 64 word) = 0" "take_bit kb (push_bit kb st :: 64 word) = 0"
    by (auto simp: bit_eq_iff bit_take_bit_iff bit_push_bit_iff)
  then show "CACHE_MK_BADDR cp tag st AND cp_blk_mask cp = 0"
    by (simp add: t CACHE_MK_BADDR_def sh)
  show "CACHE_BADDR cp addr AND cp_blk_mask cp = 0"
    by (simp add: CACHE_BADDR_def and.assoc)
qed

lemma cache_access_world:
  assumes wf: "cache_wf cp" and acc: "cache_access fn cp cmd addr p nbytes now rnd w = Inr r" and I: "I w"
    and step: "\<And>c b blk t v. b AND cp_blk_mask cp = 0 \<Longrightarrow> I v \<Longrightarrow> I (snd (snd (fn c b (cp_bsize cp) blk t v)))"
  shows "I (ao_world r)"
proof -
  obtain kb ks ka where g: "geometry cp kb ks ka" using wf by (auto simp: cache_wf_def)
  have chk: "access_check cp addr nbytes = Inr ()" using acc by (auto simp: cache_access_def cbind_Inr_iff)
  show ?thesis
  proof (cases "match_in (CACHE_TAG cp addr) (addr_set cp addr)")
    case (Some b)
    with acc have "cache_hit cp cmd addr p nbytes now b w = Inr r"
      by (simp add: cache_access_def chk cache_find_wf [OF wf])
    then show ?thesis using I by (auto simp: cache_hit_def Let_def cbind_Inr_iff)
  next
    case None
    with acc have "cache_miss fn cp cmd addr p nbytes now rnd w = Inr r"
      by (simp add: cache_access_def chk cache_find_wf [OF wf])
    then obtain v s2 where r: "r = cache_fill fn (cp\<lparr>cp_misses := cp_misses cp + 1\<rparr>) cmd addr p nbytes now w v s2"
      by (auto simp: cache_miss_def Let_def cbind_Inr_iff)
    let ?cp = "cp\<lparr>cp_misses := cp_misses cp + 1, cp_last_tagset := 0, cp_last_blk := None\<rparr>"
    have g': "geometry ?cp kb ks ka" using g by (simp add: geometry_def)
    have ev: "I (snd (snd (snd (snd (evict fn ?cp st repl now w)))))" for st repl
      using I step [of "CACHE_MK_BADDR ?cp (blk_tag repl) st" w] MK_BADDR_aligned(1) [OF g']
      by (auto simp: evict_def Let_def split: prod.splits) (metis snd_conv)
    have "I (ao_world (cache_fill fn (cp\<lparr>cp_misses := cp_misses cp + 1\<rparr>) cmd addr p nbytes now w v s2))"
      using step MK_BADDR_aligned(2) [OF g'] ev
      by (auto simp: cache_fill_def Let_def CACHE_BADDR_def split: prod.splits) (metis snd_conv)
    then show ?thesis using r by simp
  qed
qed

lemma cache_access_error:
  assumes "cache_wf cp" "cache_access fn cp cmd addr p nbytes now rnd w = Inl e"
  shows "\<exists>s. e = Fatal s"
proof (cases "access_check cp addr nbytes")
  case (Inl e')
  then have "e' = e" using assms(2) by (simp add: cache_access_def)
  then show ?thesis using Inl by (auto simp: access_check_def split: if_splits)
next
  case (Inr u)
  then have "access_check cp addr nbytes = Inr ()" by simp
  then show ?thesis using cache_access_total [OF assms(1), of addr nbytes fn cmd p now rnd w] assms(2) by auto
qed

subsection \<open>Well-formed hierarchies\<close>

definition hier_wf :: "mem_hier \<Rightarrow> bool" where
  "hier_wf w \<longleftrightarrow> (\<forall>ch \<in> set (hcaches w). cache_wf (fst ch))
     \<and> (\<forall>k. cache_dl2 w = Some k \<longrightarrow> k < length (hcaches w) \<and> snd (hcaches w ! k) = DL2_fn)"

definition safe :: "mem_hier \<Rightarrow> bool" where
  "safe w \<longleftrightarrow> hier_wf w \<and> (\<forall>e. hier_err w = Some e \<longrightarrow> (\<exists>s. e = Fatal s))"

text \<open>What stays as it is configured.\<close>

definition same_config :: "mem_hier \<Rightarrow> mem_hier \<Rightarrow> bool" where
  "same_config w w' \<longleftrightarrow> map snd (hcaches w') = map snd (hcaches w) \<and> cache_dl1 w' = cache_dl1 w
     \<and> cache_dl2 w' = cache_dl2 w \<and> cache_il1 w' = cache_il1 w \<and> cache_il2 w' = cache_il2 w
     \<and> itlb w' = itlb w \<and> dtlb w' = dtlb w"

lemma same_config_simps [simp]:
  "same_config w w" "same_config w (v\<lparr>hier_err := x\<rparr>) = same_config w v"
  "same_config w (v\<lparr>hier_accesses := n\<rparr>) = same_config w v"
  by (simp_all add: same_config_def)

lemma same_config_trans: "same_config u v \<Longrightarrow> same_config v w \<Longrightarrow> same_config u w"
  by (simp add: same_config_def)

lemma same_config_handler: "same_config w w' \<Longrightarrow> k < length (hcaches w)
    \<Longrightarrow> snd (hcaches w' ! k) = snd (hcaches w ! k) \<and> length (hcaches w') = length (hcaches w)"
  unfolding same_config_def by (metis length_map nth_map)

lemma mem_access_latency_ok:
  assumes "mem_bus_width g > 0" "n > 0"
  shows "mem_access_latency g n
    = Inr (word_of_int (mem_lat0 g + mem_lat1 g * ((n + mem_bus_width g - 1) div mem_bus_width g - 1)))"
proof -
  have "(n + (mem_bus_width g - 1)) sdiv mem_bus_width g = (n + mem_bus_width g - 1) div mem_bus_width g"
    using assms by (simp add: signed_divide_int_def algebra_simps)
  moreover have "1 \<le> (n + mem_bus_width g - 1) div mem_bus_width g"
    using assms by (simp add: pos_imp_zdiv_pos_iff int_one_le_iff_zero_less)
  ultimately show ?thesis by (simp add: mem_access_latency_def Let_def)
qed

text \<open>A result of a level: a failure is a size or alignment error, otherwise the state is safe.\<close>

definition ok_result :: "mem_hier \<Rightarrow> ('a \<times> mem_hier) cres \<Rightarrow> bool" where
  "ok_result w r \<longleftrightarrow> (case r of Inl e \<Rightarrow> \<exists>s. e = Fatal s | Inr (x, w') \<Rightarrow> safe w' \<and> same_config w w')"

lemma handled_safe:
  assumes "ok_result w r" "safe w"
  shows "safe (snd (snd (handled blk r w)))" "same_config w (snd (snd (handled blk r w)))"
  using assms by (auto simp: handled_def ok_result_def safe_def hier_wf_def split: sum.splits option.splits)

lemma memory_below_ok:
  assumes "safe w" "mem_bus_width g > 0" "n > 0"
  shows "ok_result w (memory_below g cmd n w)"
  using assms by (simp add: memory_below_def ok_result_def mem_access_latency_ok)

lemma cache_wf_bsize: "cache_wf cp \<Longrightarrow> cp_bsize cp > 0"
  by (auto simp: cache_wf_def geometry_def)

lemma access_via_ok:
  assumes w: "safe w" and k: "k < length (hcaches w)"
    and fn: "\<And>c b n blk t v. n > 0 \<Longrightarrow> safe v \<Longrightarrow> same_config w v \<Longrightarrow>
      safe (snd (snd (fn (snd (hcaches w ! k)) c b n blk t v))) \<and> same_config v (snd (snd (fn (snd (hcaches w ! k)) c b n blk t v)))"
  shows "ok_result w (access_via fn rnd k cmd addr nbytes now w)"
    and "access_via fn rnd k cmd addr nbytes now w = Inr (lat, w') \<Longrightarrow> hier_err w' = None"
proof -
  obtain cp h where ch: "hcaches w ! k = (cp, h)" by (cases "hcaches w ! k")
  have "(cp, h) \<in> set (hcaches w)" using ch k nth_mem by metis
  then have wf: "cache_wf cp" using w by (auto simp: safe_def hier_wf_def)
  let ?w = "w\<lparr>hier_accesses := hier_accesses w + 1\<rparr>"
  let ?a = "cache_access (fn h) cp cmd addr [] nbytes now (rnd (hier_accesses w)) ?w"
  have w1: "safe ?w" "same_config w ?w" using w by (simp_all add: safe_def hier_wf_def)
  have "ok_result w (access_via fn rnd k cmd addr nbytes now w)
      \<and> (\<forall>lat w'. access_via fn rnd k cmd addr nbytes now w = Inr (lat, w') \<longrightarrow> hier_err w' = None)"
  proof (cases ?a)
    case (Inl e)
    then show ?thesis using cache_access_error [OF wf Inl] by (simp add: access_via_def ch ok_result_def)
  next
    case (Inr r)
    let ?w' = "ao_world r"
    have "safe ?w' \<and> same_config w ?w'"
    proof (rule cache_access_world [OF wf Inr, where I = "\<lambda>v. safe v \<and> same_config w v"])
      show "safe ?w \<and> same_config w ?w" using w1 by simp
      fix c b blk t v assume "safe v \<and> same_config w v"
      then show "safe (snd (snd (fn h c b (cp_bsize cp) blk t v))) \<and> same_config w (snd (snd (fn h c b (cp_bsize cp) blk t v)))"
        using fn [OF cache_wf_bsize [OF wf], of v c b blk t] same_config_trans by (auto simp: ch)
    qed
    then have s: "safe ?w'" "same_config w ?w'" by simp_all
    show ?thesis
    proof (cases "hier_err ?w'")
      case (Some e)
      then show ?thesis using s(1) Inr by (auto simp: access_via_def ch ok_result_def safe_def)
    next
      case None
      let ?w2 = "?w'\<lparr>hcaches := (hcaches ?w')[k := (ao_cache r, h)]\<rparr>"
      have "access_check cp addr nbytes = Inr ()" using Inr by (auto simp: cache_access_def cbind_Inr_iff)
      then have wf': "cache_wf (ao_cache r)"
        using cache_access_total [OF wf, of addr nbytes "fn h" cmd "[]" now "rnd (hier_accesses w)" ?w] Inr by auto
      note H = same_config_handler [OF s(2) k]
      have "map snd (hcaches ?w2) = map snd (hcaches ?w')"
        using H ch by (simp add: map_update list_update_same_conv k)
      then have c2: "same_config w ?w2" using s(2) by (simp add: same_config_def)
      have sn: "snd ((hcaches ?w')[k := (ao_cache r, h)] ! j) = snd (hcaches ?w' ! j)" for j
        using H ch k by (cases "j = k") simp_all
      have "hier_wf ?w2" using s(1) wf' unfolding safe_def hier_wf_def
        by (auto simp: sn dest!: set_update_subset_insert [THEN subsetD])
      then have "safe ?w2" using None by (simp add: safe_def)
      then show ?thesis using Inr None c2 by (auto simp: access_via_def ch ok_result_def Let_def)
    qed
  qed
  then show "ok_result w (access_via fn rnd k cmd addr nbytes now w)"
    "access_via fn rnd k cmd addr nbytes now w = Inr (lat, w') \<Longrightarrow> hier_err w' = None" by blast+
qed

lemma dl2_handler_ok:
  assumes "safe v" "mem_bus_width g > 0" "n > 0"
  shows "safe (snd (snd (call_handler (Suc d) g rnd DL2_fn c b n blk t v)))
    \<and> same_config v (snd (snd (call_handler (Suc d) g rnd DL2_fn c b n blk t v)))"
  using handled_safe [OF memory_below_ok [OF assms, of c] assms(1)] by (simp add: dl2_access_fn_def)

lemma dl1_handler_ok:
  assumes v: "safe v" and g: "mem_bus_width g > 0" "n > 0"
  shows "safe (snd (snd (call_handler (Suc (Suc d)) g rnd DL1_fn c b n blk t v)))
    \<and> same_config v (snd (snd (call_handler (Suc (Suc d)) g rnd DL1_fn c b n blk t v)))"
proof -
  let ?below = "\<lambda>k. access_via (call_handler (Suc d) g rnd) rnd k c b n t v"
  have "ok_result v (case cache_dl2 v of
      Some k \<Rightarrow> cbind (?below k) (\<lambda>(lat, w'). Inr (if c = Read then lat else 0, w'))
    | None \<Rightarrow> memory_below g c n v)"
  proof (cases "cache_dl2 v")
    case None
    then show ?thesis using memory_below_ok [OF v g] by simp
  next
    case (Some k)
    then have k: "k < length (hcaches v)" "snd (hcaches v ! k) = DL2_fn" using v by (auto simp: safe_def hier_wf_def)
    have "ok_result v (?below k)"
      by (rule access_via_ok(1) [OF v k(1)]) (unfold k(2), rule dl2_handler_ok [OF _ g(1)])
    with Some show ?thesis by (auto simp: ok_result_def split: sum.splits)
  qed
  from handled_safe [OF this v] show ?thesis by (simp add: dl1_access_fn_def Let_def)
qed

lemma data_access_ok:
  assumes w: "safe w" and k: "k < length (hcaches w)" "snd (hcaches w ! k) \<in> {DL1_fn, DL2_fn}"
    and g: "mem_bus_width g > 0"
  shows "ok_result w (hier_access g rnd k cmd addr nbytes now w)"
    and "hier_access g rnd k cmd addr nbytes now w = Inr (lat, w') \<Longrightarrow> hier_err w' = None"
proof -
  have fn: "safe (snd (snd (call_handler 2 g rnd (snd (hcaches w ! k)) c b n blk t v)))
      \<and> same_config v (snd (snd (call_handler 2 g rnd (snd (hcaches w ! k)) c b n blk t v)))"
    if "n > 0" "safe v" for c b n blk t v
    using k(2) dl1_handler_ok [OF that(2) g that(1), where d = 0] dl2_handler_ok [OF that(2) g that(1), where d = 1]
    by (auto simp only: numeral_2_eq_2 One_nat_def)
  show "ok_result w (hier_access g rnd k cmd addr nbytes now w)"
    unfolding hier_access_def by (rule access_via_ok(1) [OF w k(1)]) (rule fn)
  show "hier_access g rnd k cmd addr nbytes now w = Inr (lat, w') \<Longrightarrow> hier_err w' = None"
    unfolding hier_access_def by (rule access_via_ok(2) [OF w k(1), where fn = "call_handler 2 g rnd"]) (rule fn)
qed

subsection \<open>The properties\<close>



text \<open>The latency of a block from memory is that of the first bus transfer plus that of each
  further one, counting a partial transfer as a whole one.\<close>

theorem mem_latency_chunks:
  assumes "mem_bus_width g > 0" "n > 0"
  shows "mem_access_latency g n
    = Inr (word_of_int (mem_lat0 g + mem_lat1 g * ((n + mem_bus_width g - 1) div mem_bus_width g - 1)))"
  by (rule mem_access_latency_ok [OF assms])

theorem mem_latency_chunks_witness:
  "mem_access_latency \<lparr>mem_lat0 = 18, mem_lat1 = 2, mem_bus_width = 8, tlb_miss_lat = 30\<rparr> 33 = Inr 26"
  using mem_latency_chunks [of "\<lparr>mem_lat0 = 18, mem_lat1 = 2, mem_bus_width = 8, tlb_miss_lat = 30\<rparr>" 33] by simp

end
