(* ===== verification/RingBuffer.thy ===== *)
theory RingBuffer
  imports CPrelude
begin

text \<open>
  The trace ring buffer (ring_buffer.c, ring_buffer.h): a circular array of log lines that keeps the
  most recent ones. A line is a string without terminator; \<open>rb_pushf\<close> gets the formatted line, the
  work of \<open>vsnprintf\<close>. What a dump writes, or a visitor sees, is the list of the lines.
\<close>

subsection \<open>The code\<close>

definition RING_BUFFER_SIZE :: nat where "RING_BUFFER_SIZE = 128"
definition RING_BUFFER_ENTRY_BYTES :: nat where "RING_BUFFER_ENTRY_BYTES = 128"

record TraceEntry =
  te_valid :: bool
  te_cycle :: "32 word"
  te_entry :: string

record RingBuffer =
  rb_buffer :: "TraceEntry list"
  rb_head :: nat
  rb_tail :: nat
  rb_full :: bool

definition rb_next :: "nat \<Rightarrow> nat" where
  "rb_next i = (i + 1) mod RING_BUFFER_SIZE"

definition rb_init :: "RingBuffer \<Rightarrow> RingBuffer" where
  "rb_init rb = \<lparr>rb_buffer = map (\<lambda>_. \<lparr>te_valid = False, te_cycle = 0, te_entry = []\<rparr>) [0..<RING_BUFFER_SIZE],
     rb_head = 0, rb_tail = 0, rb_full = False\<rparr>"

definition rb_clear :: "RingBuffer \<Rightarrow> RingBuffer" where
  "rb_clear rb = rb_init rb"

definition rb_is_empty :: "RingBuffer \<Rightarrow> bool" where
  "rb_is_empty rb \<longleftrightarrow> \<not> rb_full rb \<and> rb_head rb = rb_tail rb"

definition rb_is_full :: "RingBuffer \<Rightarrow> bool" where
  "rb_is_full rb = rb_full rb"

definition rb_capacity :: "RingBuffer \<Rightarrow> nat" where
  "rb_capacity rb = RING_BUFFER_SIZE"

definition rb_count :: "RingBuffer \<Rightarrow> nat" where
  "rb_count rb =
     (if rb_full rb then RING_BUFFER_SIZE
      else if rb_head rb \<ge> rb_tail rb then rb_head rb - rb_tail rb
      else RING_BUFFER_SIZE - (rb_tail rb - rb_head rb))"

definition rb_advance_head :: "RingBuffer \<Rightarrow> RingBuffer" where
  "rb_advance_head rb =
     (let rb1 = rb\<lparr>rb_head := rb_next (rb_head rb)\<rparr>;
          rb2 = (if rb_full rb1 then rb1\<lparr>rb_tail := rb_next (rb_tail rb1)\<rparr> else rb1)
      in rb2\<lparr>rb_full := rb_head rb2 = rb_tail rb2\<rparr>)"

definition rb_store :: "RingBuffer \<Rightarrow> 32 word \<Rightarrow> string \<Rightarrow> RingBuffer" where
  "rb_store rb cycle line =
     rb\<lparr>rb_buffer := (rb_buffer rb)[rb_head rb := \<lparr>te_valid = True, te_cycle = cycle, te_entry = line\<rparr>]\<rparr>"

definition rb_push_raw :: "RingBuffer \<Rightarrow> 32 word \<Rightarrow> string option \<Rightarrow> RingBuffer" where
  "rb_push_raw rb cycle txt =
     rb_advance_head (rb_store rb cycle (case txt of Some s \<Rightarrow> take (RING_BUFFER_ENTRY_BYTES - 1) s | None \<Rightarrow> []))"

definition rb_pushf :: "RingBuffer \<Rightarrow> 32 word \<Rightarrow> string option \<Rightarrow> RingBuffer" where
  "rb_pushf rb cycle formatted =
     rb_advance_head (rb_store rb cycle
       (case formatted of Some s \<Rightarrow> take (RING_BUFFER_ENTRY_BYTES - 1) s | None \<Rightarrow> []))"

text \<open>The loops of \<open>rb_visit\<close> and \<open>rb_flush\<close>: the valid entries from index \<open>i\<close> on.\<close>

fun visit_loop :: "RingBuffer \<Rightarrow> nat \<Rightarrow> nat \<Rightarrow> TraceEntry list" where
  "visit_loop rb 0 i = []"
| "visit_loop rb (Suc n) i =
     (let e = rb_buffer rb ! i in (if te_valid e then [e] else []) @ visit_loop rb n (rb_next i))"

definition rb_visit :: "RingBuffer \<Rightarrow> TraceEntry list" where
  "rb_visit rb = (if rb_is_empty rb then [] else visit_loop rb (rb_count rb) (rb_tail rb))"

definition rb_flush :: "RingBuffer \<Rightarrow> string list" where
  "rb_flush rb = (if rb_is_empty rb then [] else map te_entry (visit_loop rb (rb_count rb) (rb_tail rb)))"

definition rb_dump_before :: "RingBuffer \<Rightarrow> nat \<Rightarrow> string list" where
  "rb_dump_before rb n0 =
     (if n0 = 0 \<or> rb_is_empty rb then []
      else let n = (if n0 > rb_count rb then rb_count rb else n0);
               start = (rb_head rb + RING_BUFFER_SIZE - n) mod RING_BUFFER_SIZE
           in map te_entry (filter te_valid (map (\<lambda>k. rb_buffer rb ! ((start + k) mod RING_BUFFER_SIZE)) [0..<n])))"

definition rb_dump_after :: "RingBuffer \<Rightarrow> nat \<Rightarrow> string list" where
  "rb_dump_after rb n =
     map te_entry (takeWhile te_valid (map (\<lambda>k. rb_buffer rb ! ((rb_head rb + k) mod RING_BUFFER_SIZE)) [0..<n]))"

definition rb_copy_last :: "RingBuffer \<Rightarrow> nat \<Rightarrow> nat \<Rightarrow> TraceEntry list" where
  "rb_copy_last rb n0 dst_cap =
     (if dst_cap = 0 \<or> rb_is_empty rb then []
      else let n1 = (if n0 > rb_count rb then rb_count rb else n0);
               n = (if n1 > dst_cap then dst_cap else n1);
               start = (rb_head rb + RING_BUFFER_SIZE - n) mod RING_BUFFER_SIZE
           in filter te_valid (map (\<lambda>k. rb_buffer rb ! ((start + k) mod RING_BUFFER_SIZE)) [0..<n]))"

subsection \<open>The buffer as a bounded list\<close>

definition rb_wf :: "RingBuffer \<Rightarrow> bool" where
  "rb_wf rb \<longleftrightarrow> length (rb_buffer rb) = RING_BUFFER_SIZE \<and> rb_head rb < RING_BUFFER_SIZE \<and> rb_tail rb < RING_BUFFER_SIZE
     \<and> (rb_full rb \<longrightarrow> rb_head rb = rb_tail rb)
     \<and> (\<forall>k < rb_count rb. te_valid (rb_buffer rb ! ((rb_tail rb + k) mod RING_BUFFER_SIZE)))"

definition rb_list :: "RingBuffer \<Rightarrow> TraceEntry list" where
  "rb_list rb = map (\<lambda>k. rb_buffer rb ! ((rb_tail rb + k) mod RING_BUFFER_SIZE)) [0..<rb_count rb]"

text \<open>The last \<open>n\<close> elements of a list.\<close>

definition last_n :: "nat \<Rightarrow> 'a list \<Rightarrow> 'a list" where
  "last_n n xs = drop (length xs - n) xs"

lemma rb_head_pos: "rb_wf rb \<Longrightarrow> rb_head rb = (rb_tail rb + rb_count rb) mod RING_BUFFER_SIZE"
  by (auto simp: rb_wf_def rb_count_def mod_if)

lemma rb_count_le: "rb_wf rb \<Longrightarrow> rb_count rb \<le> RING_BUFFER_SIZE"
  by (auto simp: rb_wf_def rb_count_def)

lemma rb_empty_count: "rb_wf rb \<Longrightarrow> rb_is_empty rb \<longleftrightarrow> rb_count rb = 0"
  by (auto simp: rb_wf_def rb_count_def rb_is_empty_def)

lemma rb_count_eq:
  assumes "rb_tail rb < RING_BUFFER_SIZE" "c \<le> RING_BUFFER_SIZE"
    "rb_head rb = (rb_tail rb + c) mod RING_BUFFER_SIZE" "rb_full rb = (c = RING_BUFFER_SIZE)"
  shows "rb_count rb = c"
  using assms by (auto simp: rb_count_def mod_if)

lemma rb_put:
  assumes wf: "rb_wf rb" and e: "e = \<lparr>te_valid = True, te_cycle = cycle, te_entry = line\<rparr>"
  shows "rb_wf (rb_advance_head (rb_store rb cycle line))"
    and "rb_list (rb_advance_head (rb_store rb cycle line)) = last_n RING_BUFFER_SIZE (rb_list rb @ [e])"
proof -
  let ?N = RING_BUFFER_SIZE and ?c = "rb_count rb" and ?t = "rb_tail rb" and ?h = "rb_head rb"
  let ?rb = "rb_advance_head (rb_store rb cycle line)"
  have N: "0 < ?N" by (simp add: RING_BUFFER_SIZE_def)
  have b: "length (rb_buffer rb) = ?N" "?h < ?N" "?t < ?N" "?c \<le> ?N"
    and hh: "?h = (?t + ?c) mod ?N"
    and val: "\<And>k. k < ?c \<Longrightarrow> te_valid (rb_buffer rb ! ((?t + k) mod ?N))"
    using wf rb_count_le [OF wf] rb_head_pos [OF wf] by (auto simp: rb_wf_def)
  have full: "rb_full rb \<longleftrightarrow> ?c = ?N" using b(2,3) by (auto simp: rb_count_def)
  have buf: "rb_buffer ?rb = (rb_buffer rb)[?h := e]"
    by (simp add: rb_advance_head_def rb_store_def e Let_def)
  have hd: "rb_head ?rb = (?t + ?c + 1) mod ?N"
    using hh by (simp add: rb_advance_head_def rb_store_def rb_next_def Let_def mod_Suc_eq)
  have nth: "rb_buffer ?rb ! ((?t + k) mod ?N) = (if k = ?c mod ?N then e else rb_buffer rb ! ((?t + k) mod ?N))" if "k < ?N" for k
  proof -
    have "(?t + k) mod ?N = ?h \<longleftrightarrow> k = ?c mod ?N"
      using ring_inj [of ?t k ?N "?c mod ?N"] that N by (auto simp: hh mod_add_right_eq)
    then show ?thesis using N b(1,2) by (auto simp: buf nth_list_update)
  qed
  show "rb_wf ?rb" "rb_list ?rb = last_n ?N (rb_list rb @ [e])"
  proof -
    consider (full) "?c = ?N" | (room) "?c < ?N" using b(4) by linarith
    then have "rb_wf ?rb \<and> rb_list ?rb = last_n ?N (rb_list rb @ [e])"
    proof cases
      case full
      have tl: "rb_tail ?rb = (?t + 1) mod ?N" using full \<open>rb_full rb \<longleftrightarrow> ?c = ?N\<close>
        by (simp add: rb_advance_head_def rb_store_def rb_next_def Let_def)
      have hd': "rb_head ?rb = (?t + 1) mod ?N" using hd full mod_add_self2 [of "?t + 1" ?N] by (simp add: ac_simps)
      have "rb_full ?rb" using hd' tl by (simp add: rb_advance_head_def Let_def)
      then have cnt: "rb_count ?rb = ?N" by (simp add: rb_count_def)
      have at: "rb_buffer ?rb ! ((rb_tail ?rb + k) mod ?N)
          = (if k = ?N - 1 then e else rb_buffer rb ! ((?t + Suc k) mod ?N))" if "k < ?N" for k
      proof -
        have "(rb_tail ?rb + k) mod ?N = (?t + Suc k) mod ?N" by (simp add: tl mod_add_left_eq)
        moreover have "rb_buffer ?rb ! ((?t + ?N) mod ?N) = e" using nth [of 0] N full by simp
        ultimately show ?thesis using nth [of "Suc k"] that full by (cases "Suc k = ?N") auto
      qed
      have "rb_list ?rb = tl (rb_list rb) @ [e]"
        by (rule nth_equalityI) (use full cnt at N in \<open>auto simp: rb_list_def nth_append nth_tl\<close>)
      moreover have "rb_list rb \<noteq> []" "length (rb_list rb) = ?N" using full N by (auto simp: rb_list_def)
      moreover have "te_valid (rb_buffer ?rb ! ((rb_tail ?rb + k) mod ?N))" if "k < ?N" for k
        using at [OF that] val [of "Suc k"] that full e by (cases "k = ?N - 1") simp_all
      then have "rb_wf ?rb"
        using cnt b(1) hd' tl N unfolding rb_wf_def by (simp add: buf)
      ultimately show ?thesis using N by (simp add: last_n_def drop_Suc)
    next
      case room
      have tl: "rb_tail ?rb = ?t" using room \<open>rb_full rb \<longleftrightarrow> ?c = ?N\<close>
        by (simp add: rb_advance_head_def rb_store_def Let_def)
      have "rb_full ?rb \<longleftrightarrow> rb_head ?rb = rb_tail ?rb" by (simp add: rb_advance_head_def Let_def)
      also have "\<dots> \<longleftrightarrow> ?c + 1 = ?N"
      proof (cases "?c + 1 = ?N")
        case True
        then have "?t + ?c + 1 = ?t + ?N" by simp
        then have "rb_head ?rb = ?t" using hd b(3) by (simp only: mod_add_self2 mod_less)
        with True show ?thesis by (simp add: tl)
      next
        case False
        then show ?thesis using ring_inj [of ?t "?c + 1" ?N 0] room b(3) by (auto simp: hd tl)
      qed
      finally have cnt: "rb_count ?rb = ?c + 1"
        using room b(3) hd tl by (intro rb_count_eq) auto
      have at: "rb_buffer ?rb ! ((rb_tail ?rb + k) mod ?N) = (if k = ?c then e else rb_buffer rb ! ((?t + k) mod ?N))"
        if "k \<le> ?c" for k using nth [of k] that room by (simp add: tl)
      have "rb_list ?rb = rb_list rb @ [e]"
        by (rule nth_equalityI) (use cnt at in \<open>auto simp: rb_list_def nth_append\<close>)
      moreover have "length (rb_list rb @ [e]) \<le> ?N" using room by (simp add: rb_list_def)
      moreover have "te_valid (rb_buffer ?rb ! ((rb_tail ?rb + k) mod ?N))" if "k < rb_count ?rb" for k
        using at [of k] val [of k] that cnt e by (cases "k = ?c") simp_all
      then have "rb_wf ?rb"
        using b(1,3) hd tl N \<open>rb_full ?rb \<longleftrightarrow> rb_head ?rb = rb_tail ?rb\<close> unfolding rb_wf_def
        by (simp add: buf)
      ultimately show ?thesis by (simp add: last_n_def)
    qed
    then show "rb_wf ?rb" "rb_list ?rb = last_n ?N (rb_list rb @ [e])" by simp_all
  qed
qed

subsection \<open>Reading it back\<close>

lemma visit_loop_list:
  "i < RING_BUFFER_SIZE \<Longrightarrow> visit_loop rb n i
    = filter te_valid (map (\<lambda>k. rb_buffer rb ! ((i + k) mod RING_BUFFER_SIZE)) [0..<n])"
proof (induction n arbitrary: i)
  case (Suc n)
  have "rb_next i < RING_BUFFER_SIZE" by (simp add: rb_next_def RING_BUFFER_SIZE_def)
  moreover have "(rb_next i + k) mod RING_BUFFER_SIZE = (i + Suc k) mod RING_BUFFER_SIZE" for k
    by (simp add: rb_next_def mod_add_left_eq)
  ultimately show ?case
    using Suc by (simp add: Let_def upt_conv_Cons map_Suc_upt [symmetric] comp_def del: upt_Suc)
qed simp

lemma rb_list_valid: "rb_wf rb \<Longrightarrow> filter te_valid (rb_list rb) = rb_list rb"
  by (auto simp: rb_list_def rb_wf_def filter_id_conv)

lemma rb_visit_list: "rb_wf rb \<Longrightarrow> rb_visit rb = rb_list rb"
  using visit_loop_list [of "rb_tail rb" rb "rb_count rb"] rb_list_valid [of rb]
  by (auto simp: rb_visit_def rb_empty_count rb_list_def rb_wf_def)

lemma rb_window:
  assumes wf: "rb_wf rb" and n: "n \<le> rb_count rb"
  shows "filter te_valid (map (\<lambda>k. rb_buffer rb ! (((rb_head rb + RING_BUFFER_SIZE - n) mod RING_BUFFER_SIZE + k)
      mod RING_BUFFER_SIZE)) [0..<n]) = last_n n (rb_list rb)"
proof -
  let ?N = RING_BUFFER_SIZE and ?c = "rb_count rb"
  have c: "?c \<le> ?N" by (rule rb_count_le [OF wf])
  have idx: "((rb_head rb + ?N - n) mod ?N + k) mod ?N = (rb_tail rb + (?c - n + k)) mod ?N" for k
  proof -
    have "(rb_head rb + ?N - n) mod ?N = (rb_tail rb + (?c - n)) mod ?N"
    proof -
      have "(rb_head rb + (?N - n)) mod ?N = (rb_tail rb + ?c + (?N - n)) mod ?N"
        using rb_head_pos [OF wf] by (metis mod_add_left_eq)
      also have "rb_tail rb + ?c + (?N - n) = rb_tail rb + (?c - n) + ?N" using n c by simp
      finally have "(rb_head rb + (?N - n)) mod ?N = (rb_tail rb + (?c - n)) mod ?N" by (simp only: mod_add_self2)
      then show ?thesis using n c by simp
    qed
    then show ?thesis by (metis mod_add_left_eq add.assoc)
  qed
  have "map (\<lambda>k. rb_buffer rb ! (((rb_head rb + ?N - n) mod ?N + k) mod ?N)) [0..<n] = last_n n (rb_list rb)"
    unfolding last_n_def by (rule nth_equalityI) (use n in \<open>auto simp: rb_list_def idx\<close>)
  moreover have "filter te_valid (last_n n (rb_list rb)) = last_n n (rb_list rb)"
    using rb_list_valid [OF wf] unfolding filter_id_conv last_n_def by (auto dest: in_set_dropD)
  ultimately show ?thesis by simp
qed

lemma last_n_min: "last_n (min n (length xs)) xs = last_n n xs"
  by (simp add: last_n_def min_def)

lemma rb_dump_list:
  assumes wf: "rb_wf rb"
  shows "rb_dump_before rb n = map te_entry (last_n n (rb_list rb))"
    and "rb_copy_last rb n m = last_n (min n m) (rb_list rb)"
proof -
  have len: "length (rb_list rb) = rb_count rb" by (simp add: rb_list_def)
  show "rb_dump_before rb n = map te_entry (last_n n (rb_list rb))"
  proof (cases "n = 0 \<or> rb_is_empty rb")
    case True
    then show ?thesis using len rb_empty_count [OF wf] by (auto simp: rb_dump_before_def last_n_def)
  next
    case False
    let ?m = "min n (rb_count rb)"
    have "(if n > rb_count rb then rb_count rb else n) = ?m" by simp
    then show ?thesis using False rb_window [OF wf, of ?m] last_n_min [of n "rb_list rb"] len
      by (simp add: rb_dump_before_def Let_def)
  qed
  show "rb_copy_last rb n m = last_n (min n m) (rb_list rb)"
  proof (cases "m = 0 \<or> rb_is_empty rb")
    case True
    then show ?thesis using len rb_empty_count [OF wf] by (auto simp: rb_copy_last_def last_n_def)
  next
    case False
    let ?m = "min (min n m) (rb_count rb)"
    have "(let n1 = (if n > rb_count rb then rb_count rb else n) in if n1 > m then m else n1) = ?m" by (simp add: Let_def)
    then show ?thesis using False rb_window [OF wf, of ?m] last_n_min [of "min n m" "rb_list rb"] len
      by (simp add: rb_copy_last_def Let_def)
  qed
qed

subsection \<open>The contract\<close>

definition line_of_text :: "32 word \<Rightarrow> string option \<Rightarrow> TraceEntry" where
  "line_of_text cycle txt = \<lparr>te_valid = True, te_cycle = cycle,
     te_entry = (case txt of Some s \<Rightarrow> take (RING_BUFFER_ENTRY_BYTES - 1) s | None \<Rightarrow> [])\<rparr>"

definition rb_step :: "RingBuffer \<Rightarrow> 32 word \<times> string option \<Rightarrow> RingBuffer cres" where
  "rb_step rb i = Inr (rb_push_raw rb (fst i) (snd i))"

definition log_step :: "TraceEntry list \<Rightarrow> 32 word \<times> string option \<Rightarrow> TraceEntry list" where
  "log_step xs i = last_n RING_BUFFER_SIZE (xs @ [line_of_text (fst i) (snd i)])"

interpretation ring: simulation rb_wf "\<lambda>_ _. True" rb_step rb_list log_step
proof unfold_locales
  fix rb i assume "rb_wf rb"
  from rb_put [OF this refl, of "fst i" "te_entry (line_of_text (fst i) (snd i))"]
  show "\<exists>rb'. rb_step rb i = Inr rb' \<and> rb_wf rb' \<and> rb_list rb' = log_step (rb_list rb) i"
    by (simp add: rb_step_def rb_push_raw_def log_step_def line_of_text_def)
qed

lemma rb_init_ok: "rb_wf (rb_init rb)" "rb_list (rb_init rb) = []"
  by (simp_all add: rb_wf_def rb_init_def rb_count_def rb_list_def RING_BUFFER_SIZE_def)

lemma last_n_snoc: "last_n n (last_n n xs @ [x]) = last_n n (xs @ [x])"
  by (cases "n \<le> length xs") (auto simp: last_n_def Suc_diff_le)

lemma log_run: "foldl log_step xs js = last_n RING_BUFFER_SIZE (xs @ map (\<lambda>i. line_of_text (fst i) (snd i)) js)"
  if "length xs \<le> RING_BUFFER_SIZE"
  using that
proof (induction js rule: rev_induct)
  case Nil
  then show ?case by (simp add: last_n_def)
next
  case (snoc j js)
  then show ?case using last_n_snoc by (simp add: log_step_def flip: append_assoc)
qed

text \<open>Whatever is logged, the ring buffer holds exactly the last 128 lines, each cut to 127
  characters, in the order they were logged; the visitor sees these lines, and the dump and the copy of
  the last \<open>n\<close> entries are the last \<open>n\<close> of them. No operation fails.\<close>

theorem ring_keeps_last:
  "\<exists>rb'. run rb_step (rb_init rb) js = Inr rb'
    \<and> (let lines = last_n RING_BUFFER_SIZE (map (\<lambda>i. line_of_text (fst i) (snd i)) js) in
       rb_visit rb' = lines \<and> rb_count rb' = length lines
       \<and> rb_dump_before rb' n = map te_entry (last_n n lines) \<and> rb_copy_last rb' n m = last_n (min n m) lines)"
proof -
  have "admits (\<lambda>_ _. True) log_step (rb_list (rb_init rb)) js" by (rule admits_const) simp
  from ring.run_sim [OF rb_init_ok(1) this]
  obtain rb' where rb': "run rb_step (rb_init rb) js = Inr rb'" "rb_wf rb'"
    "rb_list rb' = last_n RING_BUFFER_SIZE (map (\<lambda>i. line_of_text (fst i) (snd i)) js)"
    by (auto simp: rb_init_ok log_run)
  then show ?thesis using rb_visit_list [OF rb'(2)] rb_dump_list [OF rb'(2)]
    by (intro exI [of _ rb']) (simp add: Let_def flip: rb'(3), simp add: rb_list_def)
qed

end
