(* ===== verification/CaptureBuf.thy ===== *)
theory CaptureBuf
  imports RingBuffer "HOL-Library.While_Combinator"
begin

text \<open>
  The capture buffer (capture_buf.c, capture_buf.h): a growing array of log lines. \<open>size_t\<close> values are
  naturals (the array would have to fill the address space to wrap around), \<open>malloc\<close> and \<open>realloc\<close> are
  taken to succeed, and the entries they leave unset are the parameter \<open>junk\<close>.
\<close>

subsection \<open>The code\<close>

definition CAP_ENTRY_BYTES :: nat where "CAP_ENTRY_BYTES = RING_BUFFER_ENTRY_BYTES"

record CapEntry =
  ce_valid :: bool
  ce_cycle :: "32 word"
  ce_entry :: string

record CaptureBuf =
  cb_v :: "CapEntry list"
  cb_len :: nat
  cb_cap :: nat

text \<open>The loop \<open>while (ncap < cb->len + need) ncap *= 2\<close>.\<close>

definition grow_loop :: "nat \<Rightarrow> nat \<Rightarrow> nat option" where
  "grow_loop want ncap = while_option (\<lambda>n. n < want) (\<lambda>n. n * 2) ncap"

definition cap_grow :: "CapEntry \<Rightarrow> CaptureBuf \<Rightarrow> nat \<Rightarrow> CaptureBuf cres" where
  "cap_grow junk cb need =
     (if cb_len cb + need \<le> cb_cap cb then Inr cb
      else case grow_loop (cb_len cb + need) (if cb_cap cb \<noteq> 0 then cb_cap cb else 256) of
        None \<Rightarrow> Inl Diverge
      | Some ncap \<Rightarrow> Inr (cb\<lparr>cb_v := take ncap (cb_v cb) @ replicate (ncap - length (cb_v cb)) junk, cb_cap := ncap\<rparr>))"

definition cap_init :: "CapEntry \<Rightarrow> nat \<Rightarrow> CaptureBuf" where
  "cap_init junk n = \<lparr>cb_v = replicate n junk, cb_len = 0, cb_cap = n\<rparr>"

definition cap_reset :: "CaptureBuf \<Rightarrow> CaptureBuf" where
  "cap_reset cb = cb\<lparr>cb_len := 0\<rparr>"

definition cap_free :: "CaptureBuf \<Rightarrow> CaptureBuf" where
  "cap_free cb = cb\<lparr>cb_v := [], cb_len := 0, cb_cap := 0\<rparr>"

definition cap_append :: "CapEntry \<Rightarrow> CaptureBuf \<Rightarrow> 32 word \<Rightarrow> string option \<Rightarrow> CaptureBuf cres" where
  "cap_append junk cb cycle line =
     cbind (cap_grow junk cb 1) (\<lambda>cb1.
     if cb_len cb1 < length (cb_v cb1)
     then Inr (cb1\<lparr>cb_v := (cb_v cb1)[cb_len cb1 := \<lparr>ce_valid = True, ce_cycle = cycle,
                    ce_entry = (case line of Some s \<Rightarrow> take (CAP_ENTRY_BYTES - 1) s | None \<Rightarrow> [])\<rparr>],
                 cb_len := cb_len cb1 + 1\<rparr>)
     else Inl OutOfBounds)"

text \<open>What \<open>cap_flush\<close> writes: each line ends in a newline, except an empty one.\<close>

definition flush_line :: "CapEntry \<Rightarrow> string" where
  "flush_line e = (if \<not> ce_valid e then []
     else ce_entry e @ (if ce_entry e \<noteq> [] \<and> last (ce_entry e) \<noteq> CHR 0x0A then [CHR 0x0A] else []))"

definition cap_flush :: "CaptureBuf \<Rightarrow> string" where
  "cap_flush cb = concat (map (\<lambda>i. flush_line (cb_v cb ! i)) [0..<cb_len cb])"

subsection \<open>Correctness\<close>

definition cap_wf :: "CaptureBuf \<Rightarrow> bool" where
  "cap_wf cb \<longleftrightarrow> length (cb_v cb) = cb_cap cb \<and> cb_len cb \<le> cb_cap cb"

definition cap_list :: "CaptureBuf \<Rightarrow> CapEntry list" where
  "cap_list cb = take (cb_len cb) (cb_v cb)"

definition cap_entry :: "32 word \<times> string option \<Rightarrow> CapEntry" where
  "cap_entry i = \<lparr>ce_valid = True, ce_cycle = fst i,
     ce_entry = (case snd i of Some s \<Rightarrow> take (CAP_ENTRY_BYTES - 1) s | None \<Rightarrow> [])\<rparr>"

lemma grow_loop_ends:
  assumes "0 < ncap"
  shows "\<exists>c. grow_loop want ncap = Some c \<and> want \<le> c \<and> ncap \<le> c \<and> (c = ncap \<or> c < 2 * want)"
proof -
  let ?b = "\<lambda>n. n < want" and ?c = "\<lambda>n::nat. n * 2"
  have "\<exists>c. while_option ?b ?c ncap = Some c"
  proof (rule measure_while_option_Some [where P = "\<lambda>n. 0 < n" and f = "\<lambda>n. want - n"])
    show "0 < ncap" by (rule assms)
    fix s assume "0 < s" "s < want"
    then show "0 < s * 2 \<and> want - s * 2 < want - s" by simp
  qed
  then obtain c where c: "while_option ?b ?c ncap = Some c" by blast
  have "want \<le> c" using while_option_stop [OF c] by simp
  moreover have "ncap \<le> c \<and> (c = ncap \<or> c < 2 * want)"
    by (rule while_option_rule [OF _ c, where P = "\<lambda>n. ncap \<le> n \<and> (n = ncap \<or> n < 2 * want)"]) auto
  ultimately show ?thesis using c by (auto simp: grow_loop_def)
qed

lemma cap_grow_ok:
  assumes "cap_wf cb"
  obtains cb' where "cap_grow junk cb need = Inr cb'" "cap_wf cb'" "cap_list cb' = cap_list cb"
    "cb_len cb' = cb_len cb" "cb_len cb + need \<le> cb_cap cb'"
proof (cases "cb_len cb + need \<le> cb_cap cb")
  case True
  then show ?thesis using assms by (intro that [of cb]) (simp_all add: cap_grow_def)
next
  case False
  define n where "n = (if cb_cap cb \<noteq> 0 then cb_cap cb else 256)"
  have n: "0 < n" "cb_cap cb \<le> n" by (simp_all add: n_def)
  obtain c where c: "grow_loop (cb_len cb + need) n = Some c" "cb_len cb + need \<le> c" "n \<le> c"
    using grow_loop_ends [OF n(1)] by blast
  then show ?thesis using False assms n(2)
    by (intro that [of "cb\<lparr>cb_v := take c (cb_v cb) @ replicate (c - length (cb_v cb)) junk, cb_cap := c\<rparr>"])
      (use c(1) [unfolded n_def] in \<open>auto simp: cap_grow_def cap_wf_def cap_list_def\<close>)
qed

definition cap_step :: "CapEntry \<Rightarrow> CaptureBuf \<Rightarrow> 32 word \<times> string option \<Rightarrow> CaptureBuf cres" where
  "cap_step junk cb i = cap_append junk cb (fst i) (snd i)"

interpretation capture: simulation cap_wf "\<lambda>_ _. True" "cap_step junk" cap_list "\<lambda>xs i. xs @ [cap_entry i]"
proof unfold_locales
  fix cb i assume wf: "cap_wf cb"
  obtain cb' where cb': "cap_grow junk cb 1 = Inr cb'" "cap_wf cb'" "cap_list cb' = cap_list cb"
    "cb_len cb' = cb_len cb" "cb_len cb + 1 \<le> cb_cap cb'"
    by (rule cap_grow_ok [OF wf])
  then have l: "cb_len cb' < length (cb_v cb')" by (simp add: cap_wf_def)
  let ?cb = "cb'\<lparr>cb_v := (cb_v cb')[cb_len cb' := cap_entry i], cb_len := cb_len cb' + 1\<rparr>"
  have "cap_step junk cb i = Inr ?cb" using cb'(1) l by (simp add: cap_step_def cap_append_def cap_entry_def)
  moreover have "cap_wf ?cb" using cb' by (simp add: cap_wf_def)
  moreover have "cap_list ?cb = cap_list cb' @ [cap_entry i]"
    using l by (simp add: cap_list_def take_Suc_conv_app_nth)
  ultimately show "\<exists>cb1. cap_step junk cb i = Inr cb1 \<and> cap_wf cb1 \<and> cap_list cb1 = cap_list cb @ [cap_entry i]"
    using cb'(3) by auto
qed

text \<open>The growth loop of the capture buffer ends and yields a capacity that suffices and at most
  doubles what is needed.\<close>

theorem cap_growth_ends:
  assumes "0 < ncap"
  shows "\<exists>c. grow_loop want ncap = Some c \<and> want \<le> c \<and> ncap \<le> c \<and> (c = ncap \<or> c < 2 * want)"
  by (rule grow_loop_ends [OF assms])

theorem cap_growth_ends_witness: "\<exists>c. grow_loop 300 256 = Some c \<and> 300 \<le> c \<and> c < 600"
  using cap_growth_ends [of 256 300] by fastforce

text \<open>The capture buffer loses nothing: after any sequence of appends it holds every line, cut to 127
  characters, in order, from any initial capacity (0 included), and the flush writes them all.\<close>

theorem cap_keeps_all:
  "\<exists>cb'. run (cap_step junk) (cap_init junk n) js = Inr cb'
    \<and> cap_list cb' = map cap_entry js \<and> cap_flush cb' = concat (map (\<lambda>i. flush_line (cap_entry i)) js)"
proof -
  have wf: "cap_wf (cap_init junk n)" by (simp add: cap_wf_def cap_init_def)
  have app: "foldl (\<lambda>xs i. xs @ [cap_entry i]) xs js = xs @ map cap_entry js" for xs
    by (induction js arbitrary: xs) auto
  have "admits (\<lambda>_ _. True) (\<lambda>xs i. xs @ [cap_entry i]) (cap_list (cap_init junk n)) js" by (rule admits_const) simp
  from capture.run_sim [OF wf this, of junk]
  obtain cb' where cb': "run (cap_step junk) (cap_init junk n) js = Inr cb'" "cap_wf cb'" "cap_list cb' = map cap_entry js"
    by (auto simp: app cap_list_def cap_init_def)
  have "map (\<lambda>i. flush_line (cb_v cb' ! i)) [0..<cb_len cb'] = map flush_line (cap_list cb')"
    using cb'(2) by (intro nth_equalityI) (auto simp: cap_list_def cap_wf_def)
  then show ?thesis using cb'(1,3) by (simp add: cap_flush_def comp_def)
qed

end
