(* ===== verification/Bitmap.thy ===== *)
theory Bitmap
  imports CPrelude
begin

text \<open>
  The bit vectors of bitmap.h: arrays of 32-bit words with the macros that set, clear, combine
  and test them. \<open>bits\<close> reads a vector as the set of its members, and every macro is shown
  to be the corresponding operation on sets.
\<close>

type_synonym bitmap = "32 word list"

subsection \<open>The macros\<close>

definition BITMAP_SIZE :: "nat \<Rightarrow> nat" where
  "BITMAP_SIZE n = (n + 31) div 32"

text \<open>The loop \<open>for (i=0; i<SZ; i++) B[i] = e(i)\<close> of the whole-map macros.\<close>

definition map_loop :: "nat \<Rightarrow> (nat \<Rightarrow> 32 word) \<Rightarrow> bitmap \<Rightarrow> bitmap" where
  "map_loop sz e bm = fold (\<lambda>i b. b[i := e i]) [0..<sz] bm"

definition BITMAP_SET_MAP :: "bitmap \<Rightarrow> nat \<Rightarrow> bitmap" where
  "BITMAP_SET_MAP bm sz = map_loop sz (\<lambda>_. 0xffffffff) bm"

definition BITMAP_CLEAR_MAP :: "bitmap \<Rightarrow> nat \<Rightarrow> bitmap" where
  "BITMAP_CLEAR_MAP bm sz = map_loop sz (\<lambda>_. 0) bm"

definition BITMAP_SET :: "bitmap \<Rightarrow> nat \<Rightarrow> bitmap" where
  "BITMAP_SET bm n = bm[n div 32 := bm ! (n div 32) OR push_bit (n mod 32) 1]"

definition BITMAP_CLEAR :: "bitmap \<Rightarrow> nat \<Rightarrow> bitmap" where
  "BITMAP_CLEAR bm n = bm[n div 32 := bm ! (n div 32) AND NOT (push_bit (n mod 32) 1)]"

definition BITMAP_COPY :: "bitmap \<Rightarrow> bitmap \<Rightarrow> nat \<Rightarrow> bitmap" where
  "BITMAP_COPY dest src sz = map_loop sz (\<lambda>i. src ! i) dest"

definition BITMAP_IOR :: "bitmap \<Rightarrow> bitmap \<Rightarrow> bitmap \<Rightarrow> nat \<Rightarrow> bitmap" where
  "BITMAP_IOR b1 b2 b3 sz = map_loop sz (\<lambda>i. b2 ! i OR b3 ! i) b1"

definition BITMAP_XOR :: "bitmap \<Rightarrow> bitmap \<Rightarrow> bitmap \<Rightarrow> nat \<Rightarrow> bitmap" where
  "BITMAP_XOR b1 b2 b3 sz = map_loop sz (\<lambda>i. b2 ! i XOR b3 ! i) b1"

definition BITMAP_AND :: "bitmap \<Rightarrow> bitmap \<Rightarrow> bitmap \<Rightarrow> nat \<Rightarrow> bitmap" where
  "BITMAP_AND b1 b2 b3 sz = map_loop sz (\<lambda>i. b2 ! i AND b3 ! i) b1"

definition BITMAP_NOT :: "bitmap \<Rightarrow> bitmap \<Rightarrow> nat \<Rightarrow> bitmap" where
  "BITMAP_NOT b1 b2 sz = map_loop sz (\<lambda>i. NOT (b2 ! i)) b1"

definition BITMAP_EMPTY_P :: "bitmap \<Rightarrow> nat \<Rightarrow> bool" where
  "BITMAP_EMPTY_P bm sz \<longleftrightarrow> fold (\<lambda>i res. res OR bm ! i) [0..<sz] 0 = 0"

definition BITMAP_DISJOINT_P :: "bitmap \<Rightarrow> bitmap \<Rightarrow> nat \<Rightarrow> bool" where
  "BITMAP_DISJOINT_P b1 b2 sz \<longleftrightarrow> fold (\<lambda>i res. res OR (b1 ! i AND b2 ! i)) [0..<sz] 0 = 0"

definition BITMAP_SET_P :: "bitmap \<Rightarrow> nat \<Rightarrow> bool" where
  "BITMAP_SET_P bm n \<longleftrightarrow> bm ! (n div 32) AND push_bit (n mod 32) 1 \<noteq> 0"

fun count_word :: "nat \<Rightarrow> 32 word \<Rightarrow> nat" where
  "count_word 0 w = 0"
| "count_word (Suc j) w =
     (let w' = drop_bit 1 w in (if w \<noteq> push_bit 1 w' then 1 else 0) + count_word j w')"

definition BITMAP_COUNT_ONES :: "bitmap \<Rightarrow> nat \<Rightarrow> nat" where
  "BITMAP_COUNT_ONES bm sz = fold (\<lambda>i n. n + count_word 32 (bm ! i)) [0..<sz] 0"

subsection \<open>Vectors as sets\<close>

definition bits :: "bitmap \<Rightarrow> nat set" where
  "bits bm = {n. n < 32 * length bm \<and> bit (bm ! (n div 32)) (n mod 32)}"

lemma map_loop_length [simp]: "length (map_loop sz e bm) = length bm"
proof -
  have "length (fold (\<lambda>i b. b[i := e i]) is bm) = length bm" for "is"
    by (induction "is" arbitrary: bm) auto
  then show ?thesis by (simp add: map_loop_def)
qed

lemma map_loop_nth:
  "sz \<le> length bm \<Longrightarrow> i < length bm \<Longrightarrow> map_loop sz e bm ! i = (if i < sz then e i else bm ! i)"
proof (induction sz)
  case 0
  then show ?case by (simp add: map_loop_def)
next
  case (Suc sz)
  have "map_loop (Suc sz) e bm = (map_loop sz e bm)[sz := e sz]" by (simp add: map_loop_def)
  with Suc show ?case by (auto simp: nth_list_update less_Suc_eq)
qed

lemma bit_single: "bit (2 ^ k :: 32 word) j \<longleftrightarrow> j = k \<and> k < 32"
  by (auto simp: bit_exp_iff)

lemma word_zero_bits: "w = 0 \<longleftrightarrow> (\<forall>k. \<not> bit (w :: 32 word) k)"
proof
  assume a: "\<forall>k. \<not> bit w k"
  show "w = 0" by (rule bit_word_eqI) (simp add: a)
qed simp

lemma set_p_bits: "n < 32 * length bm \<Longrightarrow> BITMAP_SET_P bm n \<longleftrightarrow> n \<in> bits bm"
proof -
  assume n: "n < 32 * length bm"
  let ?w = "bm ! (n div 32)" and ?k = "n mod 32"
  have "?w AND push_bit ?k 1 \<noteq> 0 \<longleftrightarrow> (\<exists>j. bit (?w AND push_bit ?k 1) j)"
    by (simp add: word_zero_bits)
  also have "\<dots> \<longleftrightarrow> bit ?w ?k" by (auto simp: bit_and_iff bit_single)
  finally show ?thesis using n by (simp add: BITMAP_SET_P_def bits_def)
qed

lemma bit_index: "m div 32 = n div 32 \<Longrightarrow> m mod 32 = n mod 32 \<Longrightarrow> m = (n :: nat)"
  by (metis div_mult_mod_eq)

lemma set_bits: "n < 32 * length bm \<Longrightarrow> bits (BITMAP_SET bm n) = insert n (bits bm)"
  by (auto simp: bits_def BITMAP_SET_def nth_list_update bit_or_iff bit_single dest: bit_index)

lemma clear_bits: "n < 32 * length bm \<Longrightarrow> bits (BITMAP_CLEAR bm n) = bits bm - {n}"
  by (auto simp: bits_def BITMAP_CLEAR_def nth_list_update bit_and_iff bit_not_iff bit_single
      dest: bit_index split: if_splits)

lemma bitmap_length [simp]:
  "length (BITMAP_SET bm n) = length bm" "length (BITMAP_CLEAR bm n) = length bm"
  "length (BITMAP_CLEAR_MAP bm sz) = length bm"
  by (simp_all add: BITMAP_SET_def BITMAP_CLEAR_def BITMAP_CLEAR_MAP_def)

text \<open>A whole-map macro, bit by bit.\<close>

lemma map_loop_bits:
  assumes "sz = length bm"
  shows "bits (map_loop sz e bm) = {n. n < 32 * sz \<and> bit (e (n div 32)) (n mod 32)}"
proof -
  have "n div 32 < length bm" if "n < 32 * sz" for n using that assms by auto
  then show ?thesis using assms by (auto simp: bits_def map_loop_nth)
qed

lemma clear_map_bits: "bits (BITMAP_CLEAR_MAP bm (length bm)) = {}"
  by (simp add: BITMAP_CLEAR_MAP_def map_loop_bits)

lemma ones_bit: "k < 32 \<Longrightarrow> bit (0xffffffff :: 32 word) k"
proof -
  assume "k < 32"
  then have "bit (mask 32 :: 32 word) k" by (simp add: bit_mask_iff)
  then show ?thesis by (simp add: mask_eq_exp_minus_1)
qed

lemma fold_or_bit: "bit (fold (\<lambda>i res. res OR e i) xs r :: 32 word) k \<longleftrightarrow> bit r k \<or> (\<exists>i \<in> set xs. bit (e i) k)"
  by (induction xs arbitrary: r) (auto simp: bit_or_iff)

lemma fold_or_zero: "fold (\<lambda>i res. res OR e i) xs 0 = (0 :: 32 word) \<longleftrightarrow> (\<forall>i \<in> set xs. \<forall>k < 32. \<not> bit (e i) k)"
proof -
  have "fold (\<lambda>i res. res OR e i) xs 0 = (0 :: 32 word) \<longleftrightarrow> (\<forall>k. \<not> bit (fold (\<lambda>i res. res OR e i) xs 0 :: 32 word) k)"
    by (rule word_zero_bits)
  also have "\<dots> \<longleftrightarrow> (\<forall>k. \<forall>i \<in> set xs. \<not> bit (e i) k)" by (simp add: fold_or_bit)
  also have "\<dots> \<longleftrightarrow> (\<forall>i \<in> set xs. \<forall>k < 32. \<not> bit (e i) k)"
  proof -
    have "k < 32" if "bit (e i) k" for i k using bit_imp_le_length [OF that] by simp
    then show ?thesis by blast
  qed
  finally show ?thesis .
qed

lemma all_bits: "(\<forall>i \<in> set [0..<sz]. \<forall>k < 32. P i k) \<longleftrightarrow> (\<forall>n < 32 * sz. P (n div 32) (n mod 32))" for P :: "nat \<Rightarrow> nat \<Rightarrow> bool"
proof
  assume "\<forall>i \<in> set [0..<sz]. \<forall>k < 32. P i k"
  then show "\<forall>n < 32 * sz. P (n div 32) (n mod 32)" by (auto simp: div_less_iff_less_mult)
next
  assume a: "\<forall>n < 32 * sz. P (n div 32) (n mod 32)"
  show "\<forall>i \<in> set [0..<sz]. \<forall>k < 32. P i k"
  proof (intro ballI allI impI)
    fix i k :: nat assume "i \<in> set [0..<sz]" "k < 32"
    then have "32 * i + k < 32 * sz" "(32 * i + k) div 32 = i" "(32 * i + k) mod 32 = k" by auto
    then show "P i k" using a by metis
  qed
qed

subsection \<open>Counting\<close>

lemma count_word_card: "count_word j w = card {k. k < j \<and> bit w k}"
proof (induction j arbitrary: w)
  case (Suc j)
  have "bit (push_bit 1 (drop_bit 1 w)) k \<longleftrightarrow> k \<noteq> 0 \<and> bit w k" for k
    using bit_imp_le_length [of w k] unfolding bit_push_bit_iff bit_drop_bit_eq
    by (cases k) (auto simp: o_def)
  then have e: "w \<noteq> push_bit 1 (drop_bit 1 w) \<longleftrightarrow> bit w 0"
    by (metis bit_word_eqI)
  have s: "{k. k < Suc j \<and> bit w k} = (if bit w 0 then {0} else {}) \<union> Suc ` {k. k < j \<and> bit (drop_bit 1 w) k}"
    by (auto simp: bit_drop_bit_eq image_iff less_Suc_eq_0_disj)
  have "card {k. k < Suc j \<and> bit w k} = (if bit w 0 then 1 else 0) + card (Suc ` {k. k < j \<and> bit (drop_bit 1 w) k})"
    unfolding s by (subst card_Un_disjoint) auto
  then show ?case using Suc.IH e by (simp add: Let_def card_image del: One_nat_def)
qed simp

lemma count_ones_card: "BITMAP_COUNT_ONES bm (length bm) = card (bits bm)"
proof -
  let ?W = "\<lambda>i. {k. k < 32 \<and> bit (bm ! i) k}"
  let ?B = "\<lambda>i. (\<lambda>k. 32 * i + k) ` ?W i"
  have sum: "fold (\<lambda>i n. n + f i) xs m = m + sum_list (map f xs)" for f :: "nat \<Rightarrow> nat" and xs m
    by (induction xs arbitrary: m) auto
  have "bits bm = (\<Union>i<length bm. ?B i)"
  proof
    show "bits bm \<subseteq> (\<Union>i<length bm. ?B i)"
    proof
      fix n assume "n \<in> bits bm"
      then have "n mod 32 \<in> ?W (n div 32)" "n div 32 < length bm" "n = 32 * (n div 32) + n mod 32"
        by (auto simp: bits_def)
      then show "n \<in> (\<Union>i<length bm. ?B i)" by blast
    qed
  qed (auto simp: bits_def)
  moreover have "card (\<Union>i<length bm. ?B i) = (\<Sum>i<length bm. card (?B i))"
  proof (rule card_UN_disjoint)
    have d: "n div 32 = i" if "n \<in> ?B i" for n i using that by auto
    have "?B i \<inter> ?B j = {}" if ij: "i \<noteq> j" for i j
    proof (rule equals0I)
      fix n assume n: "n \<in> ?B i \<inter> ?B j"
      show False using d [OF IntD1 [OF n]] d [OF IntD2 [OF n]] ij by (rule_tac notE [OF ij]) (rule trans [OF sym])
    qed
    then show "\<forall>i\<in>{..<length bm}. \<forall>j\<in>{..<length bm}. i \<noteq> j \<longrightarrow> ?B i \<inter> ?B j = {}" by simp
  qed auto
  moreover have "card (?B i) = count_word 32 (bm ! i)" for i
    by (simp add: count_word_card card_image inj_on_def)
  ultimately have "card (bits bm) = (\<Sum>i<length bm. count_word 32 (bm ! i))" by simp
  then show ?thesis by (simp add: BITMAP_COUNT_ONES_def sum interv_sum_list_conv_sum_set_nat atLeast0LessThan)
qed

subsection \<open>The properties\<close>

text \<open>The single-bit macros and the population count are insertion, deletion, membership and
  cardinality of the set a bitmap stands for.\<close>
theorem bitmap_member_ops:
  assumes "n < 32 * length bm"
  shows "bits (BITMAP_SET bm n) = insert n (bits bm) \<and> bits (BITMAP_CLEAR bm n) = bits bm - {n}
    \<and> (BITMAP_SET_P bm n \<longleftrightarrow> n \<in> bits bm) \<and> BITMAP_COUNT_ONES bm (length bm) = card (bits bm)"
  by (intro conjI set_bits [OF assms] clear_bits [OF assms] set_p_bits [OF assms] count_ones_card)

lemma bitmap_member_ops_witness: "bits (BITMAP_SET [0, 0] 40) = insert 40 (bits [0, 0])"
  using bitmap_member_ops [of 40 "[0, 0]"] by simp

text \<open>The whole-map macros are the operations on sets, and \<open>BITMAP_DISJOINT_P\<close> holds when the
  intersection is empty (its comment says non-empty).\<close>
theorem bitmap_map_ops:
  assumes "length b1 = sz" and "length b2 = sz" and "length b3 = sz"
  shows "bits (BITMAP_SET_MAP b1 sz) = {..<32 * sz} \<and> bits (BITMAP_CLEAR_MAP b1 sz) = {}
    \<and> bits (BITMAP_COPY b1 b2 sz) = bits b2
    \<and> bits (BITMAP_IOR b1 b2 b3 sz) = bits b2 \<union> bits b3
    \<and> bits (BITMAP_XOR b1 b2 b3 sz) = (bits b2 - bits b3) \<union> (bits b3 - bits b2)
    \<and> bits (BITMAP_AND b1 b2 b3 sz) = bits b2 \<inter> bits b3
    \<and> bits (BITMAP_NOT b1 b2 sz) = {..<32 * sz} - bits b2
    \<and> (BITMAP_EMPTY_P b2 sz \<longleftrightarrow> bits b2 = {})
    \<and> (BITMAP_DISJOINT_P b2 b3 sz \<longleftrightarrow> bits b2 \<inter> bits b3 = {})"
proof -
  note mb = map_loop_bits [OF assms(1) [symmetric]]
  have p: "BITMAP_EMPTY_P b2 sz \<longleftrightarrow> (\<forall>n < 32 * sz. \<not> bit (b2 ! (n div 32)) (n mod 32))"
    unfolding BITMAP_EMPTY_P_def fold_or_zero using all_bits [of sz "\<lambda>i k. \<not> bit (b2 ! i) k"] by simp
  have q: "BITMAP_DISJOINT_P b2 b3 sz \<longleftrightarrow> (\<forall>n < 32 * sz. \<not> bit (b2 ! (n div 32) AND b3 ! (n div 32)) (n mod 32))"
    unfolding BITMAP_DISJOINT_P_def fold_or_zero
    by (rule all_bits)
  have "bit (0xffffffff :: 32 word) (n mod 32)" for n by (rule ones_bit) simp
  then have "bits (BITMAP_SET_MAP b1 sz) = {..<32 * sz}" "bits (BITMAP_CLEAR_MAP b1 sz) = {}"
    unfolding BITMAP_SET_MAP_def BITMAP_CLEAR_MAP_def mb by auto
  moreover have "bits (BITMAP_COPY b1 b2 sz) = bits b2" unfolding BITMAP_COPY_def mb by (simp add: bits_def assms)
  moreover have "bits (BITMAP_IOR b1 b2 b3 sz) = bits b2 \<union> bits b3"
    unfolding BITMAP_IOR_def mb by (auto simp: bits_def assms bit_or_iff)
  moreover have "bits (BITMAP_XOR b1 b2 b3 sz) = (bits b2 - bits b3) \<union> (bits b3 - bits b2)"
    unfolding BITMAP_XOR_def mb by (auto simp: bits_def assms bit_xor_iff)
  moreover have "bits (BITMAP_AND b1 b2 b3 sz) = bits b2 \<inter> bits b3"
    unfolding BITMAP_AND_def mb by (auto simp: bits_def assms bit_and_iff)
  moreover have "bits (BITMAP_NOT b1 b2 sz) = {..<32 * sz} - bits b2"
    unfolding BITMAP_NOT_def mb by (auto simp: bits_def assms bit_not_iff)
  moreover have "BITMAP_EMPTY_P b2 sz \<longleftrightarrow> bits b2 = {}" unfolding p by (auto simp: bits_def assms)
  moreover have "BITMAP_DISJOINT_P b2 b3 sz \<longleftrightarrow> bits b2 \<inter> bits b3 = {}"
    unfolding q by (auto simp: bits_def assms bit_and_iff)
  ultimately show ?thesis by blast
qed

lemma bitmap_map_ops_witness: "bits (BITMAP_IOR [0] [5] [10] 1) = bits [5] \<union> bits [10]"
  using bitmap_map_ops [of "[0]" 1 "[5]" "[10]"] by simp

end
