(* ===== verification/Sched.thy ===== *)
theory Sched
  imports Bitmap Bpred
begin

text \<open>
  The scheduler core of sim-outorder.c: reservation stations, the pool of RS links, the event
  queue, the ready queue, the create vector and the dependence links between stations, and the
  load/store queue scan. A pointer to a station is the queue it lies in and its index, a pointer
  to an RS link an index into the pool; the union in an RS link is kept as three fields, of
  which every list reads the one it wrote. The state is an extensible record: the later stages
  add caches, predictor and functional units to it. Printing and pipeline tracing are left out.
\<close>

subsection \<open>Instruction flags\<close>

definition is_store :: "op_isa \<Rightarrow> nat \<Rightarrow> bool" where
  "is_store isa opc \<longleftrightarrow> md_op2flags isa opc AND (F_MEM OR F_STORE) = (F_MEM OR F_STORE)"

definition is_load :: "op_isa \<Rightarrow> nat \<Rightarrow> bool" where
  "is_load isa opc \<longleftrightarrow> md_op2flags isa opc AND (F_MEM OR F_LOAD) = (F_MEM OR F_LOAD)"

subsection \<open>Stations, links and the scheduler state\<close>

datatype stall_reason =
    STALL_NONE | STALL_HEAD_NOT_COMPLETE | STALL_LSQ_NOT_COMPLETE | STALL_LOAD_MISS
  | STALL_DTLB_MISS | STALL_STORE_ADDR_NOT_READY | STALL_STORE_DATA_NOT_READY
  | STALL_STORE_PORT_BUSY | STALL_FU_BUSY

datatype rsref = InRUU nat | InLSQ nat

record station =
  rs_op :: nat
  rs_PC :: "64 word"
  rs_next_PC :: "64 word"
  rs_pred_PC :: "64 word"
  rs_mf_firstPC :: "64 word"
  rs_in_LSQ :: bool
  rs_ea_comp :: bool
  rs_recover_inst :: bool
  rs_stack_recover_idx :: int
  rs_dir_update :: bpred_upd
  rs_spec_mode :: bool
  rs_addr :: "64 word"
  rs_tag :: "32 word"
  rs_seq :: "32 word"
  rs_slip :: "32 word"
  rs_queued :: bool
  rs_issued :: bool
  rs_completed :: bool
  rs_onames :: "nat list"
  rs_odep_list :: "nat option list"
  rs_idep_ready :: "bool list"
  rs_uop_id :: "32 word"
  rs_wb_cyc :: "64 word"
  rs_last_block :: stall_reason
  rs_last_block_cycle :: "64 word"
  rs_miss_level :: int

record RS_link =
  lk_next :: "nat option"
  lk_rs :: "rsref option"
  lk_tag :: "32 word"
  lk_when :: "64 word"
  lk_seq :: "32 word"
  lk_opnum :: nat

record CV_link =
  cv_rs :: "rsref option"
  cv_odep_num :: nat

record core =
  RUU :: "station list"
  RUU_head :: nat
  RUU_tail :: nat
  RUU_num :: nat
  LSQ :: "station list"
  LSQ_head :: nat
  LSQ_tail :: nat
  LSQ_num :: nat
  links :: "RS_link list"
  rslink_free_list :: "nat option"
  event_queue :: "nat option"
  ready_queue :: "nat option"
  use_spec_cv :: bitmap
  create_vector :: "CV_link list"
  spec_create_vector :: "CV_link list"
  create_vector_rt :: "64 word list"
  spec_create_vector_rt :: "64 word list"
  sim_cycle :: "64 word"
  spec_mode :: bool

definition NA :: nat where "NA = 0"
definition MAX_IDEPS :: nat where "MAX_IDEPS = 4"
definition MAX_ODEPS :: nat where "MAX_ODEPS = 3"
definition MD_TOTAL_REGS :: nat where "MD_TOTAL_REGS = 32 + 32 + 3 + 1 + 1 + 1"

text \<open>A station as \<open>calloc\<close> leaves it, and the two queues before the first cycle.\<close>

definition zero_station :: station where
  "zero_station = \<lparr>rs_op = 0, rs_PC = 0, rs_next_PC = 0, rs_pred_PC = 0, rs_mf_firstPC = 0, rs_in_LSQ = False,
     rs_ea_comp = False, rs_recover_inst = False, rs_stack_recover_idx = 0,
     rs_dir_update = \<lparr>pdir1 = None, pdir2 = None, pmeta = None, du_ras = False, du_bimod = False,
       du_twolev = False, du_meta = False\<rparr>,
     rs_spec_mode = False, rs_addr = 0, rs_tag = 0, rs_seq = 0, rs_slip = 0, rs_queued = False, rs_issued = False,
     rs_completed = False, rs_onames = replicate MAX_ODEPS 0, rs_odep_list = replicate MAX_ODEPS None,
     rs_idep_ready = replicate MAX_IDEPS False, rs_uop_id = 0, rs_wb_cyc = 0, rs_last_block = STALL_NONE,
     rs_last_block_cycle = 0, rs_miss_level = 0\<rparr>"

definition ruu_init :: "nat \<Rightarrow> 'z core_scheme \<Rightarrow> 'z core_scheme" where
  "ruu_init n c = c\<lparr>RUU := replicate n zero_station, RUU_num := 0, RUU_head := 0, RUU_tail := 0\<rparr>"

definition lsq_init :: "nat \<Rightarrow> 'z core_scheme \<Rightarrow> 'z core_scheme" where
  "lsq_init n c = c\<lparr>LSQ := replicate n zero_station, LSQ_num := 0, LSQ_head := 0, LSQ_tail := 0\<rparr>"

definition CVLINK_NULL :: CV_link where "CVLINK_NULL = \<lparr>cv_rs = None, cv_odep_num = 0\<rparr>"

definition rs_of :: "'z core_scheme \<Rightarrow> rsref \<Rightarrow> station" where
  "rs_of c r = (case r of InRUU i \<Rightarrow> RUU c ! i | InLSQ i \<Rightarrow> LSQ c ! i)"

definition upd_rs :: "rsref \<Rightarrow> (station \<Rightarrow> station) \<Rightarrow> 'z core_scheme \<Rightarrow> 'z core_scheme" where
  "upd_rs r f c = (case r of
      InRUU i \<Rightarrow> c\<lparr>RUU := (RUU c)[i := f (RUU c ! i)]\<rparr>
    | InLSQ i \<Rightarrow> c\<lparr>LSQ := (LSQ c)[i := f (LSQ c ! i)]\<rparr>)"

definition OPERANDS_READY :: "station \<Rightarrow> bool" where
  "OPERANDS_READY rs \<longleftrightarrow> rs_idep_ready rs ! 0 \<and> rs_idep_ready rs ! 1 \<and> rs_idep_ready rs ! 2 \<and> rs_idep_ready rs ! 3"

definition STORE_ADDR_READY :: "station \<Rightarrow> bool" where
  "STORE_ADDR_READY rs \<longleftrightarrow> rs_idep_ready rs ! 1"

subsection \<open>The pool of RS links\<close>

definition upd_link :: "nat \<Rightarrow> (RS_link \<Rightarrow> RS_link) \<Rightarrow> 'z core_scheme \<Rightarrow> 'z core_scheme" where
  "upd_link n f c = c\<lparr>links := (links c)[n := f (links c ! n)]\<rparr>"

text \<open>\<open>rslink_init\<close>: the pool and the free list after the allocation loop, whose last link is first.\<close>

fun rslink_push :: "nat \<Rightarrow> 'z core_scheme \<Rightarrow> 'z core_scheme" where
  "rslink_push 0 c = c"
| "rslink_push (Suc n) c =
     (let c1 = rslink_push n c; i = length (links c1) in
      c1\<lparr>links := links c1 @ [\<lparr>lk_next = rslink_free_list c1, lk_rs = None, lk_tag = 0, lk_when = 0,
                                lk_seq = 0, lk_opnum = 0\<rparr>],
         rslink_free_list := Some i\<rparr>)"

definition rslink_init :: "nat \<Rightarrow> 'z core_scheme \<Rightarrow> 'z core_scheme" where
  "rslink_init nlinks c = rslink_push nlinks (c\<lparr>rslink_free_list := None\<rparr>)"

definition RSLINK_NEW :: "rsref \<Rightarrow> 'z core_scheme \<Rightarrow> (nat \<times> 'z core_scheme) cres" where
  "RSLINK_NEW rs c =
     (case rslink_free_list c of
        None \<Rightarrow> Inl (Panic ''out of rs links'')
      | Some n \<Rightarrow> Inr (n, upd_link n (\<lambda>l. l\<lparr>lk_next := None, lk_rs := Some rs, lk_tag := rs_tag (rs_of c rs)\<rparr>)
          (c\<lparr>rslink_free_list := lk_next (links c ! n)\<rparr>)))"

definition RSLINK_FREE :: "nat \<Rightarrow> 'z core_scheme \<Rightarrow> 'z core_scheme" where
  "RSLINK_FREE n c =
     (upd_link n (\<lambda>l. l\<lparr>lk_rs := None, lk_tag := 0, lk_next := rslink_free_list c\<rparr>) c)\<lparr>rslink_free_list := Some n\<rparr>"

fun free_list_loop :: "nat \<Rightarrow> nat option \<Rightarrow> 'z core_scheme \<Rightarrow> 'z core_scheme cres" where
  "free_list_loop 0 p c = Inl Diverge"
| "free_list_loop (Suc n) None c = Inr c"
| "free_list_loop (Suc n) (Some l) c = free_list_loop n (lk_next (links c ! l)) (RSLINK_FREE l c)"

definition RSLINK_FREE_LIST :: "nat option \<Rightarrow> 'z core_scheme \<Rightarrow> 'z core_scheme cres" where
  "RSLINK_FREE_LIST p c = free_list_loop (Suc (length (links c))) p c"

definition RSLINK_VALID :: "'z core_scheme \<Rightarrow> nat \<Rightarrow> bool cres" where
  "RSLINK_VALID c n =
     (let l = links c ! n in cbind (deref (lk_rs l)) (\<lambda>r. Inr (lk_tag l = rs_tag (rs_of c r))))"

text \<open>Insert link \<open>n\<close> before the first link of a list that satisfies \<open>P\<close>: the pointer to the
  list's head afterwards.\<close>

definition insert_link :: "(RS_link \<Rightarrow> bool) \<Rightarrow> nat \<Rightarrow> nat option \<Rightarrow> 'z core_scheme \<Rightarrow> (nat option \<times> 'z core_scheme) cres" where
  "insert_link P n head c =
     cbind (pscan (Suc (length (links c))) (\<lambda>l. P (links c ! l)) (\<lambda>l. lk_next (links c ! l)) None head) (\<lambda>(prev, ev).
     Inr (case prev of
       Some p \<Rightarrow> (head, upd_link p (lk_next_update (\<lambda>_. Some n))
                    (upd_link n (lk_next_update (\<lambda>_. lk_next (links c ! p))) c))
     | None \<Rightarrow> (Some n, upd_link n (lk_next_update (\<lambda>_. head)) c)))"

subsection \<open>The event queue\<close>

definition eventq_init :: "'z core_scheme \<Rightarrow> 'z core_scheme" where
  "eventq_init c = c\<lparr>event_queue := None\<rparr>"

definition eventq_queue_event :: "rsref \<Rightarrow> 64 word \<Rightarrow> 'z core_scheme \<Rightarrow> 'z core_scheme cres" where
  "eventq_queue_event rs when c =
     (if rs_completed (rs_of c rs) then Inl (Panic ''event completed'')
      else if when \<le>s sim_cycle c then Inl (Panic ''event occurred in the past'')
      else
        cbind (RSLINK_NEW rs c) (\<lambda>(n, c1).
        cbind (insert_link (\<lambda>l. \<not> lk_when l <s when) n (event_queue c1)
                 (upd_link n (lk_when_update (\<lambda>_. when)) c1)) (\<lambda>(h, c2).
        Inr (c2\<lparr>event_queue := h\<rparr>))))"

fun next_event_loop :: "nat \<Rightarrow> 'z core_scheme \<Rightarrow> (rsref option \<times> 'z core_scheme) cres" where
  "next_event_loop 0 c = Inl Diverge"
| "next_event_loop (Suc k) c =
     (case event_queue c of
        None \<Rightarrow> Inr (None, c)
      | Some ev \<Rightarrow>
          if \<not> lk_when (links c ! ev) \<le>s sim_cycle c then Inr (None, c)
          else
            let c1 = c\<lparr>event_queue := lk_next (links c ! ev)\<rparr> in
            cbind (RSLINK_VALID c1 ev) (\<lambda>valid.
            if valid then Inr (lk_rs (links c1 ! ev), RSLINK_FREE ev c1)
            else next_event_loop k (RSLINK_FREE ev c1)))"

definition eventq_next_event :: "'z core_scheme \<Rightarrow> (rsref option \<times> 'z core_scheme) cres" where
  "eventq_next_event c = next_event_loop (Suc (length (links c))) c"

subsection \<open>The ready queue\<close>

definition readyq_init :: "'z core_scheme \<Rightarrow> 'z core_scheme" where
  "readyq_init c = c\<lparr>ready_queue := None\<rparr>"

text \<open>The operations that go to the head of the ready queue.\<close>

definition readyq_front :: "op_isa \<Rightarrow> station \<Rightarrow> bool" where
  "readyq_front isa s \<longleftrightarrow> md_op2flags isa (rs_op s) AND F_ATOMIC = 0 \<or> rs_in_LSQ s
     \<or> md_op2flags isa (rs_op s) AND (F_LONGLAT OR F_CTRL) \<noteq> 0"

definition readyq_enqueue :: "op_isa \<Rightarrow> rsref \<Rightarrow> 'z core_scheme \<Rightarrow> 'z core_scheme cres" where
  "readyq_enqueue isa rs c =
     (if rs_queued (rs_of c rs) then Inl (Panic ''node is already queued'')
      else
        cbind (RSLINK_NEW rs (upd_rs rs (rs_queued_update (\<lambda>_. True)) c)) (\<lambda>(n, c1).
        let s = rs_of c1 rs; c2 = upd_link n (lk_seq_update (\<lambda>_. rs_seq s)) c1 in
        if readyq_front isa s
        then Inr ((upd_link n (lk_next_update (\<lambda>_. ready_queue c2)) c2)\<lparr>ready_queue := Some n\<rparr>)
        else cbind (insert_link (\<lambda>l. \<not> lk_seq l < rs_seq s) n (ready_queue c2) c2) (\<lambda>(h, c3).
          Inr (c3\<lparr>ready_queue := h\<rparr>))))"

subsection \<open>The create vector\<close>

definition CV_BMAP_SZ :: nat where "CV_BMAP_SZ = BITMAP_SIZE MD_TOTAL_REGS"

definition CREATE_VECTOR :: "'z core_scheme \<Rightarrow> nat \<Rightarrow> CV_link" where
  "CREATE_VECTOR c n = (if BITMAP_SET_P (use_spec_cv c) n then spec_create_vector c ! n else create_vector c ! n)"

definition CREATE_VECTOR_RT :: "'z core_scheme \<Rightarrow> nat \<Rightarrow> 64 word" where
  "CREATE_VECTOR_RT c n =
     (if BITMAP_SET_P (use_spec_cv c) n then spec_create_vector_rt c ! n else create_vector_rt c ! n)"

definition SET_CREATE_VECTOR :: "nat \<Rightarrow> CV_link \<Rightarrow> 'z core_scheme \<Rightarrow> 'z core_scheme" where
  "SET_CREATE_VECTOR n l c =
     (if spec_mode c
      then c\<lparr>use_spec_cv := BITMAP_SET (use_spec_cv c) n, spec_create_vector := (spec_create_vector c)[n := l]\<rparr>
      else c\<lparr>create_vector := (create_vector c)[n := l]\<rparr>)"

definition cv_init :: "'z core_scheme \<Rightarrow> 'z core_scheme" where
  "cv_init c =
     c\<lparr>create_vector := replicate MD_TOTAL_REGS CVLINK_NULL, create_vector_rt := replicate MD_TOTAL_REGS 0,
       spec_create_vector := replicate MD_TOTAL_REGS CVLINK_NULL,
       spec_create_vector_rt := replicate MD_TOTAL_REGS 0,
       use_spec_cv := BITMAP_CLEAR_MAP (use_spec_cv c) CV_BMAP_SZ\<rparr>"

subsection \<open>Dependence links\<close>

definition ruu_link_idep :: "rsref \<Rightarrow> nat \<Rightarrow> nat \<Rightarrow> 'z core_scheme \<Rightarrow> 'z core_scheme cres" where
  "ruu_link_idep rs idep_num idep_name c =
     (let set_ready = (\<lambda>b. upd_rs rs (\<lambda>s. s\<lparr>rs_idep_ready := (rs_idep_ready s)[idep_num := b]\<rparr>)) in
      if idep_name = NA then Inr (set_ready True c)
      else
        case cv_rs (CREATE_VECTOR c idep_name) of
          None \<Rightarrow> Inr (set_ready True c)
        | Some h \<Rightarrow>
            let o_num = cv_odep_num (CREATE_VECTOR c idep_name) in
            cbind (RSLINK_NEW rs (set_ready False c)) (\<lambda>(n, c1).
            Inr (upd_rs h (\<lambda>s. s\<lparr>rs_odep_list := (rs_odep_list s)[o_num := Some n]\<rparr>)
              (upd_link n (\<lambda>l. l\<lparr>lk_opnum := idep_num, lk_next := rs_odep_list (rs_of c1 h) ! o_num\<rparr>) c1))))"

definition ruu_install_odep :: "rsref \<Rightarrow> nat \<Rightarrow> nat \<Rightarrow> 'z core_scheme \<Rightarrow> 'z core_scheme" where
  "ruu_install_odep rs odep_num odep_name c =
     (if odep_name = NA then upd_rs rs (\<lambda>s. s\<lparr>rs_onames := (rs_onames s)[odep_num := NA]\<rparr>) c
      else SET_CREATE_VECTOR odep_name \<lparr>cv_rs = Some rs, cv_odep_num = odep_num\<rparr>
        (upd_rs rs (\<lambda>s. s\<lparr>rs_onames := (rs_onames s)[odep_num := odep_name],
                           rs_odep_list := (rs_odep_list s)[odep_num := None]\<rparr>) c))"

subsection \<open>The load/store queue scan\<close>

definition MAX_STD_UNKNOWNS :: nat where "MAX_STD_UNKNOWNS = 64"

text \<open>One entry: whether the scan stops, and the addresses of stores whose data is unknown.\<close>

definition refresh_store :: "station \<Rightarrow> 64 word list \<Rightarrow> 64 word list option cres" where
  "refresh_store s unk =
     (if \<not> STORE_ADDR_READY s then Inr None
      else if \<not> OPERANDS_READY s then
        if length unk = MAX_STD_UNKNOWNS
        then Inl (Fatal ''STD unknown array overflow, increase MAX_STD_UNKNOWNS'')
        else Inr (Some (unk @ [rs_addr s]))
      else Inr (Some (map (\<lambda>a. if a = rs_addr s then 0 else a) unk)))"

definition load_waiting :: "op_isa \<Rightarrow> station \<Rightarrow> bool" where
  "load_waiting isa s \<longleftrightarrow> is_load isa (rs_op s) \<and> \<not> rs_queued s \<and> \<not> rs_issued s \<and> \<not> rs_completed s
     \<and> OPERANDS_READY s"

fun refresh_loop :: "op_isa \<Rightarrow> nat \<Rightarrow> nat \<Rightarrow> 64 word list \<Rightarrow> 'z core_scheme \<Rightarrow> 'z core_scheme cres" where
  "refresh_loop isa 0 index unk c = Inr c"
| "refresh_loop isa (Suc k) index unk c =
     (let s = LSQ c ! index in
      cbind (if is_store isa (rs_op s) then refresh_store s unk else Inr (Some unk)) (\<lambda>r.
      case r of
        None \<Rightarrow> Inr c
      | Some unk' \<Rightarrow>
          cbind (if load_waiting isa s \<and> rs_addr s \<notin> set unk' then readyq_enqueue isa (InLSQ index) c else Inr c)
            (refresh_loop isa k ((index + 1) mod length (LSQ c)) unk')))"

definition lsq_refresh :: "op_isa \<Rightarrow> 'z core_scheme \<Rightarrow> 'z core_scheme cres" where
  "lsq_refresh isa c = refresh_loop isa (LSQ_num c) (LSQ_head c) [] c"

end
