(* ===== verification/Resource.thy ===== *)
theory Resource
  imports CPrelude
begin

text \<open>
  Functional-unit resource pools (resource.c, resource.h): the instances of each unit, the
  table from resource classes to the templates that can execute them, and the search for a free
  one. A pointer to a template is the index of its instance and its index in that instance; the
  \<open>master\<close> link is the index of the instance. Entry \<open>(c, i)\<close> of the table beyond its eight
  columns is out of bounds.
\<close>

subsection \<open>Data\<close>

definition MAX_RES_CLASSES :: nat where "MAX_RES_CLASSES = 16"
definition MAX_INSTS_PER_CLASS :: nat where "MAX_INSTS_PER_CLASS = 8"

record res_template =
  rt_class :: int
  rt_oplat :: int
  rt_issuelat :: int
  rt_master :: "nat option"

record res_desc =
  rd_name :: string
  rd_quantity :: int
  rd_busy :: int
  rd_x :: "res_template list"

record res_pool =
  rp_name :: string
  rp_num_resources :: int
  rp_resources :: "res_desc list"
  rp_nents :: "nat list"
  rp_table :: "(nat \<times> nat) option list list"

subsection \<open>Operations\<close>

text \<open>The number of used templates of an instance: the loops stop at the first class 0.\<close>

definition used_templates :: "res_desc \<Rightarrow> nat" where
  "used_templates d = length (takeWhile (\<lambda>t. rt_class t \<noteq> 0) (take MAX_RES_CLASSES (rd_x d)))"

fun count_insts :: "res_desc list \<Rightarrow> int \<Rightarrow> int cres" where
  "count_insts [] n = Inr n"
| "count_insts (d # ds) n =
     (if rd_quantity d > int MAX_INSTS_PER_CLASS
      then Inl (Fatal ''too many functional units, increase MAX_INSTS_PER_CLASS'')
      else count_insts ds (n + rd_quantity d))"

definition make_inst :: "res_desc \<Rightarrow> nat \<Rightarrow> res_desc" where
  "make_inst d index =
     d\<lparr>rd_quantity := 1, rd_busy := 0,
       rd_x := map (\<lambda>k. if k < used_templates d then (rd_x d ! k)\<lparr>rt_master := Some index\<rparr> else rd_x d ! k)
                 [0..<length (rd_x d)]\<rparr>"

fun make_insts :: "res_desc list \<Rightarrow> nat \<Rightarrow> res_desc list" where
  "make_insts [] index = []"
| "make_insts (d # ds) index =
     map (make_inst d) [index..<index + nat (rd_quantity d)]
       @ make_insts ds (index + nat (rd_quantity d))"

text \<open>\<open>res->table[plate->class][res->nents[plate->class]++] = plate\<close>.\<close>

definition table_add :: "res_pool \<Rightarrow> nat \<times> nat \<Rightarrow> res_pool cres" where
  "table_add p ij =
     (let plate = rd_x (rp_resources p ! fst ij) ! snd ij; c = rt_class plate in
      cassert (c < int MAX_RES_CLASSES)
        (if c < 0 then Inl OutOfBounds
         else let n = rp_nents p ! nat c in
           if n < MAX_INSTS_PER_CLASS
           then Inr (p\<lparr>rp_table := (rp_table p)[nat c := (rp_table p ! nat c)[n := Some ij]],
                       rp_nents := (rp_nents p)[nat c := n + 1]\<rparr>)
           else Inl OutOfBounds))"

fun table_fill :: "(nat \<times> nat) list \<Rightarrow> res_pool \<Rightarrow> res_pool cres" where
  "table_fill [] p = Inr p"
| "table_fill (ij # ijs) p = cbind (table_add p ij) (table_fill ijs)"

definition plates :: "res_desc list \<Rightarrow> (nat \<times> nat) list" where
  "plates insts = concat (map (\<lambda>i. map (Pair i) [0..<used_templates (insts ! i)]) [0..<length insts])"

definition res_create_pool :: "string \<Rightarrow> res_desc list \<Rightarrow> res_pool cres" where
  "res_create_pool name pool =
     cbind (count_insts pool 0) (\<lambda>ninsts.
     let insts = make_insts pool 0 in
     cassert (int (length insts) = ninsts)
       (table_fill (plates insts)
         \<lparr>rp_name = name, rp_num_resources = ninsts, rp_resources = insts,
          rp_nents = replicate MAX_RES_CLASSES 0,
          rp_table = replicate MAX_RES_CLASSES (replicate MAX_INSTS_PER_CLASS None)\<rparr>))"

text \<open>The instance behind a template pointer, through its \<open>master\<close> link.\<close>

definition plate :: "res_pool \<Rightarrow> nat \<times> nat \<Rightarrow> res_template" where
  "plate p ij = rd_x (rp_resources p ! fst ij) ! snd ij"

definition master_busy :: "res_pool \<Rightarrow> nat \<times> nat \<Rightarrow> int cres" where
  "master_busy p ij = cbind (deref (rt_master (plate p ij))) (\<lambda>m. Inr (rd_busy (rp_resources p ! m)))"

fun res_scan :: "res_pool \<Rightarrow> (nat \<times> nat) option list \<Rightarrow> (nat \<times> nat) option cres" where
  "res_scan p [] = Inr None"
| "res_scan p (None # row) = Inr None"
| "res_scan p (Some ij # row) =
     cbind (master_busy p ij) (\<lambda>b. if b = 0 then Inr (Some ij) else res_scan p row)"

definition res_get :: "res_pool \<Rightarrow> int \<Rightarrow> (nat \<times> nat) option cres" where
  "res_get p cls =
     cassert (cls < int MAX_RES_CLASSES)
       (if cls < 0 then Inl OutOfBounds
        else cassert (rp_table p ! nat cls ! 0 \<noteq> None) (res_scan p (rp_table p ! nat cls)))"

text \<open>The callers' side: reserving the unit of a template and stepping the busy timers
  (\<open>ruu_release_fu\<close> of sim-outorder.c).\<close>

definition set_busy :: "nat \<Rightarrow> int \<Rightarrow> res_pool \<Rightarrow> res_pool" where
  "set_busy m v p = p\<lparr>rp_resources := (rp_resources p)[m := (rp_resources p ! m)\<lparr>rd_busy := v\<rparr>]\<rparr>"

definition ruu_release_fu :: "res_pool \<Rightarrow> res_pool" where
  "ruu_release_fu p =
     p\<lparr>rp_resources := map (\<lambda>i. let d = rp_resources p ! i in
          if int i < rp_num_resources p \<and> rd_busy d > 0 then d\<lparr>rd_busy := rd_busy d - 1\<rparr> else d)
        [0..<length (rp_resources p)]\<rparr>"

subsection \<open>The table after creation\<close>

text \<open>The templates of a class, in the order of the instances.\<close>

definition of_class :: "res_desc list \<Rightarrow> nat \<Rightarrow> (nat \<times> nat) list \<Rightarrow> (nat \<times> nat) list" where
  "of_class insts c ijs = filter (\<lambda>ij. rt_class (rd_x (insts ! fst ij) ! snd ij) = int c) ijs"

definition row_of :: "(nat \<times> nat) list \<Rightarrow> (nat \<times> nat) option list" where
  "row_of xs = map Some xs @ replicate (MAX_INSTS_PER_CLASS - length xs) None"

definition table_is :: "res_pool \<Rightarrow> (nat \<times> nat) list \<Rightarrow> bool" where
  "table_is p ijs \<longleftrightarrow> length (rp_table p) = MAX_RES_CLASSES \<and> length (rp_nents p) = MAX_RES_CLASSES
     \<and> (\<forall>c < MAX_RES_CLASSES. let xs = of_class (rp_resources p) c ijs in
          length xs \<le> MAX_INSTS_PER_CLASS \<and> rp_table p ! c = row_of xs \<and> rp_nents p ! c = length xs)"

definition classes_ok :: "res_desc list \<Rightarrow> (nat \<times> nat) list \<Rightarrow> bool" where
  "classes_ok insts ijs \<longleftrightarrow> (\<forall>ij \<in> set ijs. let c = rt_class (rd_x (insts ! fst ij) ! snd ij) in
     0 \<le> c \<and> c < int MAX_RES_CLASSES)"

lemma row_of_snoc:
  "length xs < MAX_INSTS_PER_CLASS \<Longrightarrow> (row_of xs)[length xs := Some x] = row_of (xs @ [x])"
proof -
  assume l: "length xs < MAX_INSTS_PER_CLASS"
  then obtain k where k: "MAX_INSTS_PER_CLASS - length xs = Suc k" by (metis Suc_diff_Suc)
  then have "MAX_INSTS_PER_CLASS - length (xs @ [x]) = k" by simp
  then show ?thesis by (simp add: row_of_def k list_update_append)
qed

lemma table_add_step:
  assumes t: "table_is p ijs" and c: "classes_ok (rp_resources p) [ij]"
    and room: "\<And>c. c < MAX_RES_CLASSES \<Longrightarrow> length (of_class (rp_resources p) c (ijs @ [ij])) \<le> MAX_INSTS_PER_CLASS"
  shows "\<exists>p'. table_add p ij = Inr p' \<and> table_is p' (ijs @ [ij]) \<and> rp_resources p' = rp_resources p
    \<and> rp_num_resources p' = rp_num_resources p"
proof -
  define c where "c = rt_class (rd_x (rp_resources p ! fst ij) ! snd ij)"
  have cb: "0 \<le> c" "nat c < MAX_RES_CLASSES" "c < int MAX_RES_CLASSES"
    using c by (auto simp: classes_ok_def c_def Let_def)
  have oc: "of_class (rp_resources p) d (ijs @ [ij])
      = of_class (rp_resources p) d ijs @ (if int d = c then [ij] else [])" for d
    by (simp add: of_class_def c_def)
  have n: "rp_nents p ! nat c = length (of_class (rp_resources p) (nat c) ijs)"
      "rp_table p ! nat c = row_of (of_class (rp_resources p) (nat c) ijs)"
    using t cb by (simp_all add: table_is_def Let_def)
  have lt: "length (of_class (rp_resources p) (nat c) ijs) < MAX_INSTS_PER_CLASS"
    using room [OF cb(2)] oc [of "nat c"] cb by simp
  let ?p = "p\<lparr>rp_table := (rp_table p)[nat c := (rp_table p ! nat c)[rp_nents p ! nat c := Some ij]],
       rp_nents := (rp_nents p)[nat c := rp_nents p ! nat c + 1]\<rparr>"
  have "table_add p ij = Inr ?p"
    using cb lt by (simp add: table_add_def c_def [symmetric] Let_def n)
  moreover have "table_is ?p (ijs @ [ij])"
    unfolding table_is_def Let_def
  proof (intro conjI allI impI)
    fix d assume d: "d < MAX_RES_CLASSES"
    show "length (of_class (rp_resources ?p) d (ijs @ [ij])) \<le> MAX_INSTS_PER_CLASS" using room [OF d] by simp
    have old: "rp_table p ! d = row_of (of_class (rp_resources p) d ijs)"
      "rp_nents p ! d = length (of_class (rp_resources p) d ijs)"
      using t d by (simp_all add: table_is_def Let_def)
    show "rp_table ?p ! d = row_of (of_class (rp_resources ?p) d (ijs @ [ij]))"
      using t old cb lt d row_of_snoc [OF lt, of ij]
      by (cases "d = nat c") (auto simp: oc n table_is_def)
    show "rp_nents ?p ! d = length (of_class (rp_resources ?p) d (ijs @ [ij]))"
      using t old cb d by (cases "d = nat c") (auto simp: oc n table_is_def)
  qed (use t in \<open>simp_all add: table_is_def\<close>)
  ultimately show ?thesis by auto
qed

lemma of_class_append: "of_class insts c (xs @ ys) = of_class insts c xs @ of_class insts c ys"
  by (simp add: of_class_def)

lemma table_fill_ok:
  assumes "table_is p ijs" and "classes_ok (rp_resources p) js"
    and "\<And>c. c < MAX_RES_CLASSES \<Longrightarrow> length (of_class (rp_resources p) c (ijs @ js)) \<le> MAX_INSTS_PER_CLASS"
  shows "\<exists>p'. table_fill js p = Inr p' \<and> table_is p' (ijs @ js) \<and> rp_resources p' = rp_resources p
    \<and> rp_num_resources p' = rp_num_resources p"
  using assms
proof (induction js arbitrary: p ijs)
  case Nil
  then show ?case by simp
next
  case (Cons ij js)
  have c: "classes_ok (rp_resources p) [ij]" "classes_ok (rp_resources p) js"
    using Cons.prems(2) by (auto simp: classes_ok_def)
  have r: "length (of_class (rp_resources p) d (ijs @ [ij])) \<le> MAX_INSTS_PER_CLASS" if "d < MAX_RES_CLASSES" for d
    using Cons.prems(3) [OF that] of_class_append [of "rp_resources p" d "ijs @ [ij]" js] by simp
  obtain p1 where p1: "table_add p ij = Inr p1" "table_is p1 (ijs @ [ij])" "rp_resources p1 = rp_resources p"
    "rp_num_resources p1 = rp_num_resources p"
    using table_add_step [OF Cons.prems(1) c(1) r] by blast
  show ?case using Cons.IH [OF p1(2)] Cons.prems(3) c(2) p1 by simp
qed

text \<open>A class with more instances than a row holds runs over the end of the row.\<close>

lemma table_fill_overflow:
  assumes "table_is p ijs" and "classes_ok (rp_resources p) js"
    and "length (of_class (rp_resources p) c (ijs @ js)) > MAX_INSTS_PER_CLASS" and "c < MAX_RES_CLASSES"
  shows "table_fill js p = Inl OutOfBounds"
  using assms
proof (induction js arbitrary: p ijs)
  case Nil
  then show ?case by (auto simp: table_is_def Let_def)
next
  case (Cons ij js)
  have cl: "classes_ok (rp_resources p) [ij]" "classes_ok (rp_resources p) js"
    using Cons.prems(2) by (auto simp: classes_ok_def)
  define d where "d = nat (rt_class (rd_x (rp_resources p ! fst ij) ! snd ij))"
  have d: "rt_class (rd_x (rp_resources p ! fst ij) ! snd ij) = int d" "d < MAX_RES_CLASSES"
    using cl(1) by (auto simp: classes_ok_def d_def Let_def)
  have oc: "of_class (rp_resources p) e (ijs @ [ij])
      = of_class (rp_resources p) e ijs @ (if e = d then [ij] else [])" for e
    by (simp add: of_class_def d(1))
  have n: "rp_nents p ! d = length (of_class (rp_resources p) d ijs)"
    "length (of_class (rp_resources p) e ijs) \<le> MAX_INSTS_PER_CLASS" if "e < MAX_RES_CLASSES" for e
    using Cons.prems(1) d(2) that by (simp_all add: table_is_def Let_def)
  show ?case
  proof (cases "length (of_class (rp_resources p) d ijs) < MAX_INSTS_PER_CLASS")
    case False
    then have "table_add p ij = Inl OutOfBounds"
      using d n(1) [OF d(2)] by (simp add: table_add_def Let_def)
    then show ?thesis by simp
  next
    case True
    have "length (of_class (rp_resources p) e (ijs @ [ij])) \<le> MAX_INSTS_PER_CLASS" if "e < MAX_RES_CLASSES" for e
      using n(2) [OF that] True by (auto simp: oc)
    then obtain p1 where p1: "table_add p ij = Inr p1" "table_is p1 (ijs @ [ij])" "rp_resources p1 = rp_resources p"
      using table_add_step [OF Cons.prems(1) cl(1)] by blast
    show ?thesis using Cons.IH [OF p1(2)] Cons.prems(3,4) cl(2) p1 by simp
  qed
qed

subsection \<open>Well-formed pools\<close>

definition pool_ok :: "res_pool \<Rightarrow> bool" where
  "pool_ok p \<longleftrightarrow> table_is p (plates (rp_resources p)) \<and> rp_num_resources p = int (length (rp_resources p))
     \<and> (\<forall>ij \<in> set (plates (rp_resources p)). rt_master (plate p ij) = Some (fst ij))"

text \<open>The templates that serve a class, in table order.\<close>

definition units :: "res_pool \<Rightarrow> nat \<Rightarrow> (nat \<times> nat) list" where
  "units p c = of_class (rp_resources p) c (plates (rp_resources p))"

lemma plates_mem: "ij \<in> set (plates insts) \<longleftrightarrow> fst ij < length insts \<and> snd ij < used_templates (insts ! fst ij)"
proof -
  have "(a, b) \<in> set (plates insts) \<longleftrightarrow> a < length insts \<and> b < used_templates (insts ! a)" for a b
    by (auto simp: plates_def image_iff)
  then show ?thesis by (cases ij) simp
qed

lemma used_le: "used_templates d \<le> length (rd_x d)"
  unfolding used_templates_def using length_takeWhile_le [of _ "take MAX_RES_CLASSES (rd_x d)"]
  by (rule le_trans) simp

lemma make_inst_used [simp]: "used_templates (make_inst d n) = used_templates d"
proof -
  have m: "map rt_class (rd_x (make_inst d n)) = map rt_class (rd_x d)"
    by (rule nth_equalityI) (simp_all add: make_inst_def)
  have "used_templates e = length (takeWhile (\<lambda>c. c \<noteq> 0) (take MAX_RES_CLASSES (map rt_class (rd_x e))))" for e
    by (simp add: used_templates_def take_map takeWhile_map o_def)
  then show ?thesis by (simp add: m)
qed

lemma make_insts_nth:
  "i < length (make_insts ds k) \<Longrightarrow> \<exists>d \<in> set ds. make_insts ds k ! i = make_inst d (k + i)"
proof (induction ds arbitrary: k i)
  case (Cons d ds)
  show ?case
  proof (cases "i < nat (rd_quantity d)")
    case True
    then show ?thesis by (auto simp: nth_append)
  next
    case False
    then have "i - nat (rd_quantity d) < length (make_insts ds (k + nat (rd_quantity d)))"
      using Cons.prems by auto
    then obtain e where "e \<in> set ds"
      "make_insts ds (k + nat (rd_quantity d)) ! (i - nat (rd_quantity d))
        = make_inst e (k + nat (rd_quantity d) + (i - nat (rd_quantity d)))"
      using Cons.IH by blast
    then show ?thesis using False by (auto simp: nth_append)
  qed
qed simp

lemma make_insts_length:
  "(\<forall>d \<in> set ds. 0 \<le> rd_quantity d) \<Longrightarrow> int (length (make_insts ds k)) = sum_list (map rd_quantity ds)"
  by (induction ds arbitrary: k) auto

lemma count_insts_ok:
  "(\<forall>d \<in> set ds. rd_quantity d \<le> int MAX_INSTS_PER_CLASS) \<Longrightarrow> count_insts ds n = Inr (n + sum_list (map rd_quantity ds))"
  by (induction ds arbitrary: n) auto

lemma empty_table:
  "table_is \<lparr>rp_name = name, rp_num_resources = n, rp_resources = insts,
      rp_nents = replicate MAX_RES_CLASSES 0,
      rp_table = replicate MAX_RES_CLASSES (replicate MAX_INSTS_PER_CLASS None)\<rparr> []"
  by (simp add: table_is_def of_class_def row_of_def Let_def)

lemma made_master:
  assumes "ij \<in> set (plates (make_insts pool 0))"
  shows "rt_master (rd_x (make_insts pool 0 ! fst ij) ! snd ij) = Some (fst ij)"
proof -
  have i: "fst ij < length (make_insts pool 0)" "snd ij < used_templates (make_insts pool 0 ! fst ij)"
    using assms by (simp_all add: plates_mem)
  obtain d where d: "make_insts pool 0 ! fst ij = make_inst d (fst ij)"
    using make_insts_nth [OF i(1)] by auto
  have "snd ij < length (rd_x d)" using i(2) used_le [of d] unfolding d make_inst_used by simp
  then show ?thesis using i(2) unfolding d make_inst_used by (simp add: make_inst_def)
qed

lemma master_busy_ok:
  "pool_ok p \<Longrightarrow> ij \<in> set (plates (rp_resources p))
    \<Longrightarrow> master_busy p ij = Inr (rd_busy (rp_resources p ! fst ij))"
  by (auto simp: master_busy_def pool_ok_def)

lemma res_scan_row:
  assumes "pool_ok p" and "set xs \<subseteq> set (plates (rp_resources p))"
  shows "res_scan p (map Some xs @ replicate k None)
    = Inr (find (\<lambda>ij. rd_busy (rp_resources p ! fst ij) = 0) xs)"
  using assms(2)
proof (induction xs)
  case Nil
  then show ?case by (cases k) auto
next
  case (Cons x xs)
  then show ?case using master_busy_ok [OF assms(1), of x] by simp
qed

subsection \<open>The properties\<close>

lemma res_create_pool_cases:
  assumes q: "\<forall>d \<in> set pool. 0 \<le> rd_quantity d \<and> rd_quantity d \<le> int MAX_INSTS_PER_CLASS"
    and cl: "classes_ok (make_insts pool 0) (plates (make_insts pool 0))"
  defines "n c \<equiv> length (of_class (make_insts pool 0) c (plates (make_insts pool 0)))"
  shows "if \<forall>c < MAX_RES_CLASSES. n c \<le> MAX_INSTS_PER_CLASS
    then \<exists>p. res_create_pool name pool = Inr p \<and> pool_ok p \<and> rp_resources p = make_insts pool 0
    else res_create_pool name pool = Inl OutOfBounds"
proof -
  let ?I = "make_insts pool 0"
  let ?p0 = "\<lparr>rp_name = name, rp_num_resources = int (length ?I), rp_resources = ?I,
      rp_nents = replicate MAX_RES_CLASSES 0,
      rp_table = replicate MAX_RES_CLASSES (replicate MAX_INSTS_PER_CLASS None)\<rparr>"
  have "count_insts pool 0 = Inr (int (length ?I))"
    using count_insts_ok [of pool 0] make_insts_length [of pool 0] q by simp
  then have cr: "res_create_pool name pool = table_fill (plates ?I) ?p0"
    by (simp add: res_create_pool_def Let_def)
  have t0: "table_is ?p0 []" by (rule empty_table)
  show ?thesis
  proof (cases "\<forall>c < MAX_RES_CLASSES. n c \<le> MAX_INSTS_PER_CLASS")
    case True
    then obtain p where p: "table_fill (plates ?I) ?p0 = Inr p" "table_is p (plates ?I)"
        "rp_resources p = ?I" "rp_num_resources p = int (length ?I)"
      using table_fill_ok [OF t0, of "plates ?I"] cl by (auto simp: n_def)
    then have "pool_ok p" using made_master by (simp add: pool_ok_def plate_def)
    then show ?thesis using True p cr by auto
  next
    case False
    then obtain c where "c < MAX_RES_CLASSES" "n c > MAX_INSTS_PER_CLASS" by auto
    then have "table_fill (plates ?I) ?p0 = Inl OutOfBounds"
      using table_fill_overflow [OF t0, of "plates ?I" c] cl by (simp add: n_def)
    then show ?thesis using False cr by auto
  qed
qed

text \<open>C38: Creating a pool whose descriptors have between 0 and 8 instances and valid classes gives a
  pool in which every template is in the row of its class exactly once, when no class has more
  than 8 instances in all; when some class has more, the table is written out of bounds
  (the size check looks at one descriptor at a time).\<close>
theorem res_create_pool_result:
  assumes q: "\<forall>d \<in> set pool. 0 \<le> rd_quantity d \<and> rd_quantity d \<le> int MAX_INSTS_PER_CLASS"
    and cl: "classes_ok (make_insts pool 0) (plates (make_insts pool 0))"
  defines "n c \<equiv> length (of_class (make_insts pool 0) c (plates (make_insts pool 0)))"
  shows "if \<forall>c < MAX_RES_CLASSES. n c \<le> MAX_INSTS_PER_CLASS
    then \<exists>p. res_create_pool name pool = Inr p \<and> pool_ok p \<and> rp_resources p = make_insts pool 0
    else res_create_pool name pool = Inl OutOfBounds"
  using res_create_pool_cases [OF q cl] unfolding n_def .

text \<open>In a well-formed pool \<open>res_get\<close> returns the first template of the class whose unit is free,
  and NULL only when every unit of the class is busy; it asserts when the class has no unit.\<close>
theorem res_get_first_free:
  assumes ok: "pool_ok p" and c: "c < MAX_RES_CLASSES"
  shows "res_get p (int c) = (if units p c = [] then Inl AssertFail
    else Inr (find (\<lambda>ij. rd_busy (rp_resources p ! fst ij) = 0) (units p c)))"
proof -
  have row: "rp_table p ! c = row_of (units p c)" and len: "length (units p c) \<le> MAX_INSTS_PER_CLASS"
    using ok c by (auto simp: pool_ok_def table_is_def units_def Let_def)
  have sub: "set (units p c) \<subseteq> set (plates (rp_resources p))" by (auto simp: units_def of_class_def)
  have "row_of (units p c) ! 0 \<noteq> None \<longleftrightarrow> units p c \<noteq> []"
    by (cases "units p c") (auto simp: row_of_def MAX_INSTS_PER_CLASS_def nth_append)
  then show ?thesis
    using c res_scan_row [OF ok sub] by (simp add: res_get_def row) (simp add: row_of_def)
qed

text \<open>C39: A unit reserved for \<open>v\<close> cycles is busy for exactly the next \<open>v\<close> steps of the release
  function, and the others count down independently.\<close>
theorem busy_countdown:
  assumes "pool_ok p" and "m < length (rp_resources p)" and "0 \<le> v"
  shows "rd_busy (rp_resources ((ruu_release_fu ^^ k) (set_busy m v p)) ! m) = max 0 (v - int k)
    \<and> (\<forall>i < length (rp_resources p). i \<noteq> m \<and> 0 \<le> rd_busy (rp_resources p ! i) \<longrightarrow>
         rd_busy (rp_resources ((ruu_release_fu ^^ k) (set_busy m v p)) ! i)
           = max 0 (rd_busy (rp_resources p ! i) - int k))"
proof -
  let ?q = "\<lambda>k. (ruu_release_fu ^^ k) (set_busy m v p)"
  let ?b = "\<lambda>i. if i = m then v else rd_busy (rp_resources p ! i)"
  have len: "length (rp_resources (?q k)) = length (rp_resources p)
      \<and> rp_num_resources (?q k) = int (length (rp_resources p))" for k
    using assms(1) by (induction k) (auto simp: ruu_release_fu_def set_busy_def pool_ok_def)
  have "rd_busy (rp_resources (?q k) ! i) = max 0 (?b i - int k)"
    if i: "i < length (rp_resources p)" "0 \<le> ?b i" for i
  proof (induction k)
    case 0
    then show ?case using i by (auto simp: set_busy_def nth_list_update)
  next
    case (Suc k)
    have "rd_busy (rp_resources (?q (Suc k)) ! i)
        = (let b = rd_busy (rp_resources (?q k) ! i) in if b > 0 then b - 1 else b)"
      using i(1) len [of k] by (simp add: ruu_release_fu_def Let_def)
    then show ?case unfolding Suc by (simp add: Let_def)
  qed
  then show ?thesis using assms by auto
qed

subsection \<open>Witnesses\<close>

definition demo_desc :: "int \<Rightarrow> res_desc" where
  "demo_desc n = \<lparr>rd_name = ''integer-ALU'', rd_quantity = n, rd_busy = 0,
     rd_x = \<lparr>rt_class = 1, rt_oplat = 1, rt_issuelat = 1, rt_master = None\<rparr>
       # replicate 15 \<lparr>rt_class = 0, rt_oplat = 0, rt_issuelat = 0, rt_master = None\<rparr>\<rparr>"

lemma demo_used: "used_templates (demo_desc n) = 1"
  by (simp add: used_templates_def demo_desc_def MAX_RES_CLASSES_def)

lemma demo_insts: "make_insts [demo_desc 2] 0 = [make_inst (demo_desc 2) 0, make_inst (demo_desc 2) 1]"
  by (simp add: demo_desc_def upt_rec)

lemma demo_plates: "plates [make_inst (demo_desc 2) 0, make_inst (demo_desc 2) 1] = [(0, 0), (1, 0)]"
  by (simp add: plates_def demo_used upt_rec)

lemma demo_class: "rt_class (rd_x (make_inst (demo_desc 2) n) ! 0) = 1"
  by (simp add: make_inst_def demo_used) (simp add: demo_desc_def)

lemma demo_pool:
  "classes_ok (make_insts [demo_desc 2] 0) (plates (make_insts [demo_desc 2] 0))"
  "c < MAX_RES_CLASSES \<Longrightarrow> length (of_class (make_insts [demo_desc 2] 0) c (plates (make_insts [demo_desc 2] 0)))
     \<le> MAX_INSTS_PER_CLASS"
  unfolding demo_insts demo_plates
  by (simp_all add: classes_ok_def of_class_def demo_class MAX_RES_CLASSES_def MAX_INSTS_PER_CLASS_def Let_def)

lemma demo_ok: "\<exists>p. pool_ok p \<and> rp_resources p = make_insts [demo_desc 2] 0"
  using res_create_pool_cases [of "[demo_desc 2]" "''fu-pool''"] demo_pool
  by (auto simp: demo_desc_def MAX_INSTS_PER_CLASS_def split: if_splits)

lemma res_create_pool_result_witness:
  "\<exists>p. res_create_pool ''fu-pool'' [demo_desc 2] = Inr p \<and> pool_ok p"
  using res_create_pool_result [of "[demo_desc 2]" "''fu-pool''"] demo_pool
  by (auto simp: demo_desc_def MAX_INSTS_PER_CLASS_def split: if_splits)

lemma res_get_first_free_witness: "\<exists>p ij. pool_ok p \<and> res_get p 1 = Inr (Some ij)"
proof -
  obtain p where p: "pool_ok p" "rp_resources p = make_insts [demo_desc 2] 0" using demo_ok by blast
  have u: "units p 1 = [(0, 0), (1, 0)]"
    unfolding units_def p(2) demo_insts demo_plates of_class_def by (simp add: demo_class)
  have "rd_busy (rp_resources p ! 0) = 0" unfolding p(2) demo_insts by (simp add: make_inst_def)
  then have "res_get p 1 = Inr (Some (0, 0))"
    using res_get_first_free [OF p(1), of 1] unfolding u by (simp add: MAX_RES_CLASSES_def)
  then show ?thesis using p(1) by blast
qed

lemma busy_countdown_witness: "\<exists>p. pool_ok p \<and> rd_busy (rp_resources ((ruu_release_fu ^^ 2) (set_busy 0 5 p)) ! 0) = 3"
proof -
  obtain p where p: "pool_ok p" "rp_resources p = make_insts [demo_desc 2] 0" using demo_ok by blast
  have "rd_busy (rp_resources ((ruu_release_fu ^^ 2) (set_busy 0 5 p)) ! 0) = 3"
    using busy_countdown [OF p(1), of 0 5 2] unfolding p(2) demo_insts by simp
  then show ?thesis using p(1) by blast
qed

end
