(* ===== verification/TopDown.thy ===== *)
theory TopDown
  imports CPrelude
begin

text \<open>
  The per-cycle stall classification of sim-outorder.c: latches that the stages set during a cycle,
  the bucket counters, and the two classifiers over them. Flags that C keeps as \<open>int\<close> are booleans.
\<close>

subsection \<open>The code\<close>

record latches =
  R_this :: int
  Hnr_this :: bool
  Recover_this :: bool
  Hmem_this :: bool
  Hmult_this :: bool
  Hoth_this :: bool
  ReadyEmpty :: bool
  ROBfull :: bool
  LSQfull :: bool
  ICacheMissF :: bool
  ITLBMissF :: bool
  LateWB :: bool
  latewb_head_uop :: "32 word"
  latewb_armed :: bool

record cyc_counters =
  cyc_BadSpec :: "64 word"
  cyc_RetireBlock_MEM :: "64 word"
  cyc_RetireBlock_MULTDIV :: "64 word"
  cyc_RetireBlock_Others :: "64 word"
  cyc_CoreBoundEmpty :: "64 word"
  cyc_BackPressure :: "64 word"
  cyc_FrontEnd :: "64 word"

definition cyc_RetireBlock_sum :: "cyc_counters \<Rightarrow> 64 word" where
  "cyc_RetireBlock_sum c = cyc_RetireBlock_MEM c + cyc_RetireBlock_MULTDIV c + cyc_RetireBlock_Others c"

definition cycle_reset_classify_latches :: latches where
  "cycle_reset_classify_latches =
     \<lparr>R_this = 0, Hnr_this = False, Recover_this = False, Hmem_this = False, Hmult_this = False, Hoth_this = False,
      ReadyEmpty = False, ROBfull = False, LSQfull = False, ICacheMissF = False, ITLBMissF = False, LateWB = False,
      latewb_head_uop = 0, latewb_armed = False\<rparr>"

definition classify_and_count_this_cycle :: "latches \<Rightarrow> cyc_counters \<Rightarrow> cyc_counters" where
  "classify_and_count_this_cycle l c =
     (let lowR = R_this l \<le> 1 in
      if Recover_this l then c\<lparr>cyc_BadSpec := cyc_BadSpec c + 1\<rparr>
      else if lowR \<and> Hnr_this l then
        (if Hmem_this l then c\<lparr>cyc_RetireBlock_MEM := cyc_RetireBlock_MEM c + 1\<rparr>
         else if Hmult_this l then c\<lparr>cyc_RetireBlock_MULTDIV := cyc_RetireBlock_MULTDIV c + 1\<rparr>
         else c\<lparr>cyc_RetireBlock_Others := cyc_RetireBlock_Others c + 1\<rparr>)
      else if lowR \<and> \<not> Hnr_this l \<and> ReadyEmpty l then c\<lparr>cyc_CoreBoundEmpty := cyc_CoreBoundEmpty c + 1\<rparr>
      else if lowR \<and> (ROBfull l \<or> LSQfull l) then c\<lparr>cyc_BackPressure := cyc_BackPressure c + 1\<rparr>
      else if lowR \<and> (ICacheMissF l \<or> ITLBMissF l) then c\<lparr>cyc_FrontEnd := cyc_FrontEnd c + 1\<rparr>
      else c)"

datatype cause = RETIRING | BADSPEC | MEM | MULTDIV | OTHER | CORE | BACKPRESSURE | FRONTEND

definition classify_cycle :: "latches \<Rightarrow> cause" where
  "classify_cycle l =
     (if Recover_this l then BADSPEC
      else if Hnr_this l then (if Hmem_this l then MEM else if Hmult_this l then MULTDIV else OTHER)
      else if \<not> Hnr_this l \<and> ReadyEmpty l then CORE
      else if ROBfull l \<or> LSQfull l then BACKPRESSURE
      else if ICacheMissF l \<or> ITLBMissF l then FRONTEND
      else RETIRING)"

subsection \<open>The two classifiers\<close>

text \<open>The counter a cause belongs to.\<close>

fun bump :: "cause \<Rightarrow> cyc_counters \<Rightarrow> cyc_counters" where
  "bump RETIRING c = c"
| "bump BADSPEC c = c\<lparr>cyc_BadSpec := cyc_BadSpec c + 1\<rparr>"
| "bump MEM c = c\<lparr>cyc_RetireBlock_MEM := cyc_RetireBlock_MEM c + 1\<rparr>"
| "bump MULTDIV c = c\<lparr>cyc_RetireBlock_MULTDIV := cyc_RetireBlock_MULTDIV c + 1\<rparr>"
| "bump OTHER c = c\<lparr>cyc_RetireBlock_Others := cyc_RetireBlock_Others c + 1\<rparr>"
| "bump CORE c = c\<lparr>cyc_CoreBoundEmpty := cyc_CoreBoundEmpty c + 1\<rparr>"
| "bump BACKPRESSURE c = c\<lparr>cyc_BackPressure := cyc_BackPressure c + 1\<rparr>"
| "bump FRONTEND c = c\<lparr>cyc_FrontEnd := cyc_FrontEnd c + 1\<rparr>"


end
