(* ===== verification/Stages.thy ===== *)
theory Stages
  imports Sched SpecMem Hier Resource TopDown
begin

text \<open>
  The back end of sim-outorder.c: squashing, the recovery of the trace generator, writeback, commit
  and issue, over the scheduler core extended by the functional units, the predictor, the cache
  hierarchy, the speculative memory and the stall latches. Printing, pipeline tracing and the
  occupancy statistics are left out, and with the pipe tracing the loop that drains the fetch
  queue in \<open>tracer_recover\<close>, whose only other effect the reset after it overwrites.
\<close>

subsection \<open>State and configuration\<close>

record cpu = core +
  fu_pool :: res_pool
  pred :: "bpred option"
  hier :: mem_hier
  spec_st :: spec_store
  use_spec_R :: bitmap
  use_spec_F :: bitmap
  use_spec_C :: bitmap
  fetch_num :: nat
  fetch_head :: nat
  fetch_tail :: nat
  fetch_pred_PC :: "64 word"
  fetch_regs_PC :: "64 word"
  recover_PC :: "64 word"
  regs_PC :: "64 word"
  ruu_fetch_issue_delay :: "32 word"
  sim_slip :: "64 word"
  sim_invalid_addrs :: "64 word"
  td :: latches
  last_head_uop_id :: "32 word"
  stall_active :: bool

datatype spec_update = spec_ID | spec_WB | spec_CT
datatype op_kind = OpInst | OpLink | OpBogus

record sim_cfg =
  cf_isa :: op_isa
  MD_OP_FUCLASS :: "nat \<Rightarrow> int"
  cf_op_kind :: "nat \<Rightarrow> op_kind"
  cf_lat :: latencies
  cf_regions :: regions
  cf_rand :: "nat \<Rightarrow> int"
  cache_dl1_lat :: int
  ruu_commit_width :: nat
  ruu_issue_width :: nat
  ruu_branch_penalty :: "32 word"
  bpred_spec_update :: spec_update

definition MD_NOP_OP :: nat where "MD_NOP_OP = 0"
definition INST_BYTES :: "64 word" where "INST_BYTES = 4"

definition upd_td :: "(latches \<Rightarrow> latches) \<Rightarrow> cpu \<Rightarrow> cpu" where
  "upd_td f c = c\<lparr>td := f (td c)\<rparr>"

definition scan_ready_behind :: "'z core_scheme \<Rightarrow> nat \<Rightarrow> nat" where
  "scan_ready_behind c max_scan =
     length (takeWhile (\<lambda>i. rs_completed (RUU c ! ((RUU_head c + i) mod length (RUU c))))
               [1..<min (RUU_num c) max_scan])"

subsection \<open>Squashing\<close>

fun free_odeps :: "nat list \<Rightarrow> rsref \<Rightarrow> 'z core_scheme \<Rightarrow> 'z core_scheme cres" where
  "free_odeps [] r c = Inr c"
| "free_odeps (i # js) r c =
     cbind (RSLINK_FREE_LIST (rs_odep_list (rs_of c r) ! i) c) (\<lambda>c1.
     free_odeps js r (upd_rs r (\<lambda>s. s\<lparr>rs_odep_list := (rs_odep_list s)[i := None]\<rparr>) c1))"

definition squash :: "rsref \<Rightarrow> 'z core_scheme \<Rightarrow> 'z core_scheme cres" where
  "squash r c = cbind (free_odeps [0..<MAX_ODEPS] r c) (\<lambda>c1. Inr (upd_rs r (\<lambda>s. s\<lparr>rs_tag := rs_tag s + 1\<rparr>) c1))"

definition prev_slot :: "nat \<Rightarrow> nat \<Rightarrow> nat" where
  "prev_slot n i = (i + (n - 1)) mod n"

text \<open>The squash of the memory operation that belongs to an address computation: the state, the next
  slot of the load/store queue to look at and its tail.\<close>

definition squash_mem :: "nat \<Rightarrow> nat \<Rightarrow> nat \<Rightarrow> 'z core_scheme \<Rightarrow> ('z core_scheme \<times> nat \<times> nat) cres" where
  "squash_mem ri li lp c =
     (if rs_ea_comp (RUU c ! ri) then
        if LSQ_num c = 0 then Inl (Panic ''RUU and LSQ out of sync'')
        else cbind (squash (InLSQ li) c) (\<lambda>c1.
          Inr (c1\<lparr>LSQ_num := LSQ_num c1 - 1\<rparr>, prev_slot (length (LSQ c1)) li, li))
      else Inr (c, li, lp))"

fun recover_loop :: "nat \<Rightarrow> nat \<Rightarrow> nat \<Rightarrow> nat \<Rightarrow> nat \<Rightarrow> nat \<Rightarrow> 'z core_scheme \<Rightarrow> 'z core_scheme cres" where
  "recover_loop 0 b ri li rp lp c = Inl Diverge"
| "recover_loop (Suc k) b ri li rp lp c =
     (if ri = b then Inr (c\<lparr>RUU_tail := rp, LSQ_tail := lp\<rparr>)
      else if RUU_num c = 0 then Inl (Panic ''empty RUU'')
      else if ri = RUU_head c then Inl (Panic ''RUU head and tail broken'')
      else
        cbind (squash_mem ri li lp c) (\<lambda>(c1, li', lp').
        cbind (squash (InRUU ri) c1) (\<lambda>c2.
        recover_loop k b (prev_slot (length (RUU c2)) ri) li' ri lp' (c2\<lparr>RUU_num := RUU_num c2 - 1\<rparr>))))"

definition ruu_recover :: "nat \<Rightarrow> 'z core_scheme \<Rightarrow> 'z core_scheme cres" where
  "ruu_recover branch_index c =
     cbind (recover_loop (Suc (RUU_num c)) branch_index (prev_slot (length (RUU c)) (RUU_tail c))
              (prev_slot (length (LSQ c)) (LSQ_tail c)) (RUU_tail c) (LSQ_tail c) c) (\<lambda>c1.
     Inr (c1\<lparr>use_spec_cv := BITMAP_CLEAR_MAP (use_spec_cv c1) CV_BMAP_SZ\<rparr>))"

subsection \<open>The trace generator\<close>

definition R_BMAP_SZ :: nat where "R_BMAP_SZ = BITMAP_SIZE 32"
definition F_BMAP_SZ :: nat where "F_BMAP_SZ = BITMAP_SIZE 32"
definition C_BMAP_SZ :: nat where "C_BMAP_SZ = BITMAP_SIZE 3"

definition clear_spec_regs :: "cpu \<Rightarrow> cpu" where
  "clear_spec_regs c =
     c\<lparr>spec_mode := False, use_spec_R := BITMAP_CLEAR_MAP (use_spec_R c) R_BMAP_SZ,
       use_spec_F := BITMAP_CLEAR_MAP (use_spec_F c) F_BMAP_SZ,
       use_spec_C := BITMAP_CLEAR_MAP (use_spec_C c) C_BMAP_SZ\<rparr>"

definition tracer_recover :: "cpu \<Rightarrow> cpu cres" where
  "tracer_recover c =
     (if \<not> spec_mode c then Inl (Panic ''cannot recover unless in speculative mode'')
      else cbind (spec_reset (spec_st c)) (\<lambda>st.
        Inr ((clear_spec_regs c)\<lparr>spec_st := st, fetch_num := 0, fetch_head := 0, fetch_tail := 0,
               fetch_pred_PC := recover_PC c, fetch_regs_PC := recover_PC c\<rparr>)))"

definition tracer_init :: "cpu \<Rightarrow> cpu" where
  "tracer_init c = (clear_spec_regs c)\<lparr>spec_st := spec_init (spec_st c)\<rparr>"

end
