(* ===== verification/SchedCorrect.thy ===== *)
theory SchedCorrect
  imports Sched LinkLists
begin

text \<open>
  Correctness of the link pool and of the lists built from it: every RS link lies in at most one
  list (the free list, the event queue, the ready queue or the output list of a station), the
  operations move links between lists and change nothing else, and each list is the abstract
  list its users take it for.
\<close>

subsection \<open>Owners of links\<close>

datatype owner = OFree | OEvents | OReady | OOut rsref nat

abbreviation lnx :: "'z core_scheme \<Rightarrow> nat \<Rightarrow> nat option" where
  "lnx c \<equiv> (\<lambda>l. lk_next (links c ! l))"

fun valid_rs :: "'z core_scheme \<Rightarrow> rsref \<Rightarrow> bool" where
  "valid_rs c (InRUU i) = (i < length (RUU c))"
| "valid_rs c (InLSQ i) = (i < length (LSQ c))"

fun head_of :: "'z core_scheme \<Rightarrow> owner \<Rightarrow> nat option" where
  "head_of c OFree = rslink_free_list c"
| "head_of c OEvents = event_queue c"
| "head_of c OReady = ready_queue c"
| "head_of c (OOut r i) =
     (if valid_rs c r \<and> i < length (rs_odep_list (rs_of c r)) then rs_odep_list (rs_of c r) ! i else None)"

definition owned_by :: "'z core_scheme \<Rightarrow> (owner \<Rightarrow> nat list) \<Rightarrow> bool" where
  "owned_by c f \<longleftrightarrow> lists_in (length (links c)) (lnx c) (head_of c) f"

definition owned :: "'z core_scheme \<Rightarrow> owner \<Rightarrow> nat list" where
  "owned c w = collect (length (links c)) (lnx c) (head_of c w)"

definition links_wf :: "'z core_scheme \<Rightarrow> bool" where
  "links_wf c \<longleftrightarrow> owned_by c (owned c)"

lemmas owned_byD = lists_inD [of "length (links c)" "lnx c" "head_of c" for c, folded owned_by_def]
lemmas owned_byI = lists_inI [of "lnx c" "head_of c" _ "length (links c)" for c, folded owned_by_def]

lemma owned_by_unique: "owned_by c f \<Longrightarrow> owned c = f"
proof
  fix w assume f: "owned_by c f"
  show "owned c w = f w"
    unfolding owned_def by (rule collect_chain [OF owned_byD(1,4) [OF f]])
qed

lemma links_wfI: "owned_by c f \<Longrightarrow> links_wf c \<and> owned c = f"
  using owned_by_unique by (auto simp: links_wf_def)

lemma owned_by_take:
  assumes f: "owned_by c f" and src: "f a = n # xs"
    and len: "length (links c') = length (links c)"
    and nx: "\<And>l. l \<noteq> n \<Longrightarrow> lnx c' l = lnx c l"
    and hd: "\<And>w. head_of c' w = (if w = a then lnx c n else head_of c w)"
  shows "owned_by c' (f(a := xs))" and "n \<notin> set ((f(a := xs)) w)"
  using lists_in_take [where nx' = "lnx c'" and h' = "head_of c'", OF f [unfolded owned_by_def] src nx hd]
  unfolding owned_by_def len by simp_all

lemma owned_by_put:
  assumes f: "owned_by c f" and n: "\<And>w. n \<notin> set (f w)" "n < length (links c)" and dst: "f b = ys @ zs"
    and len: "length (links c') = length (links c)"
    and nx: "\<And>l. l \<noteq> n \<Longrightarrow> (ys \<noteq> [] \<Longrightarrow> l \<noteq> last ys) \<Longrightarrow> lnx c' l = lnx c l"
    and nn: "lnx c' n = (case zs of [] \<Rightarrow> None | z # _ \<Rightarrow> Some z)"
    and ny: "ys \<noteq> [] \<Longrightarrow> lnx c' (last ys) = Some n"
    and hd: "\<And>w. head_of c' w = (if w = b \<and> ys = [] then Some n else head_of c w)"
  shows "owned_by c' (f(b := ys @ n # zs))"
  using lists_in_put [OF f [unfolded owned_by_def] n dst nx nn ny hd] unfolding owned_by_def len .

lemma owned_by_cong:
  assumes "owned_by c f" "length (links c') = length (links c)"
    "\<And>w l. l \<in> set (f w) \<Longrightarrow> lnx c' l = lnx c l" "\<And>w. head_of c' w = head_of c w"
  shows "owned_by c' f"
  using lists_in_cong [OF assms(1) [unfolded owned_by_def] _ assms(3,4), of "length (links c')"] assms(2)
  unfolding owned_by_def by simp

subsection \<open>Updates of links and stations\<close>

definition payload :: "RS_link \<Rightarrow> RS_link" where
  "payload l = l\<lparr>lk_next := None\<rparr>"

lemma payload_simps [simp]:
  "payload (l\<lparr>lk_next := v\<rparr>) = payload l"
  "payload (l\<lparr>lk_next := v, lk_rs := r, lk_tag := t\<rparr>) = payload (l\<lparr>lk_rs := r, lk_tag := t\<rparr>)"
  "lk_when (payload l) = lk_when l" "lk_seq (payload l) = lk_seq l" "lk_rs (payload l) = lk_rs l"
  "lk_tag (payload l) = lk_tag l" "lk_opnum (payload l) = lk_opnum l"
  by (simp_all add: payload_def)

lemma payload_eqD:
  "payload l = payload l' \<Longrightarrow> lk_when l = lk_when l' \<and> lk_seq l = lk_seq l' \<and> lk_rs l = lk_rs l'
     \<and> lk_tag l = lk_tag l' \<and> lk_opnum l = lk_opnum l'"
  by (metis payload_simps(3-7))

lemma rs_of_frame [simp]:
  "rs_of (upd_link n g c) r = rs_of c r"
  "rs_of (c\<lparr>rslink_free_list := p\<rparr>) r = rs_of c r"
  "rs_of (c\<lparr>event_queue := p\<rparr>) r = rs_of c r"
  "rs_of (c\<lparr>ready_queue := p\<rparr>) r = rs_of c r"
  "rs_of (c\<lparr>links := ls\<rparr>) r = rs_of c r"
  by (cases r; simp add: rs_of_def upd_link_def)+

lemma valid_rs_frame [simp]:
  "valid_rs (upd_link n g c) r = valid_rs c r"
  "valid_rs (c\<lparr>rslink_free_list := p\<rparr>) r = valid_rs c r"
  "valid_rs (c\<lparr>event_queue := p\<rparr>) r = valid_rs c r"
  "valid_rs (c\<lparr>ready_queue := p\<rparr>) r = valid_rs c r"
  "valid_rs (c\<lparr>links := ls\<rparr>) r = valid_rs c r"
  "valid_rs (upd_rs r' h c) r = valid_rs c r"
  by (cases r; simp add: upd_link_def upd_rs_def split: rsref.splits)+

lemma core_frame [simp]:
  "rslink_free_list (upd_link n g c) = rslink_free_list c"
  "event_queue (upd_link n g c) = event_queue c"
  "ready_queue (upd_link n g c) = ready_queue c"
  "sim_cycle (upd_link n g c) = sim_cycle c"
  "length (links (upd_link n g c)) = length (links c)"
  "links (upd_rs r h c) = links c"
  "rslink_free_list (upd_rs r h c) = rslink_free_list c"
  "event_queue (upd_rs r h c) = event_queue c"
  "ready_queue (upd_rs r h c) = ready_queue c"
  "sim_cycle (upd_rs r h c) = sim_cycle c"
  by (simp_all add: upd_link_def upd_rs_def split: rsref.splits)

lemma head_of_frame [simp]:
  "head_of (upd_link n g c) w = head_of c w"
  "head_of (c\<lparr>links := ls\<rparr>) w = head_of c w"
  "head_of (c\<lparr>rslink_free_list := p\<rparr>) w = (if w = OFree then p else head_of c w)"
  "head_of (c\<lparr>event_queue := p\<rparr>) w = (if w = OEvents then p else head_of c w)"
  "head_of (c\<lparr>ready_queue := p\<rparr>) w = (if w = OReady then p else head_of c w)"
  by (cases w; simp)+

lemma links_upd_link [simp]:
  "n < length (links c) \<Longrightarrow> links (upd_link n g c) ! l = (if l = n then g (links c ! l) else links c ! l)"
  by (simp add: upd_link_def nth_list_update)

lemma rs_of_upd_rs:
  "valid_rs c r \<Longrightarrow> rs_of (upd_rs r h c) r' = (if r' = r then h (rs_of c r) else rs_of c r')"
  by (cases r; cases r') (auto simp: rs_of_def upd_rs_def nth_list_update)

lemma head_of_upd_rs:
  assumes "valid_rs c r" "rs_odep_list (h (rs_of c r)) = rs_odep_list (rs_of c r)"
  shows "head_of (upd_rs r h c) w = head_of c w"
  using assms by (cases w) (auto simp: rs_of_upd_rs)

lemma owned_by_upd_rs:
  assumes "owned_by c f" "valid_rs c r" "rs_odep_list (h (rs_of c r)) = rs_odep_list (rs_of c r)"
  shows "owned_by (upd_rs r h c) f"
  using assms by (intro owned_by_cong [OF assms(1)]) (simp_all add: head_of_upd_rs)

lemma owned_by_upd_link:
  assumes "owned_by c f" "n < length (links c)" "\<And>l. lk_next (g l) = lk_next l"
  shows "owned_by (upd_link n g c) f"
  using assms by (intro owned_by_cong [OF assms(1)]) simp_all

subsection \<open>Allocation and insertion\<close>

abbreviation taken :: "rsref \<Rightarrow> nat \<Rightarrow> 'z core_scheme \<Rightarrow> 'z core_scheme" where
  "taken rs n c \<equiv> upd_link n (\<lambda>l. l\<lparr>lk_next := None, lk_rs := Some rs, lk_tag := rs_tag (rs_of c rs)\<rparr>)
     (c\<lparr>rslink_free_list := lk_next (links c ! n)\<rparr>)"

lemma RSLINK_NEW_none: "owned_by c f \<Longrightarrow> f OFree = [] \<Longrightarrow> RSLINK_NEW rs c = Inl (Panic ''out of rs links'')"
  using owned_byD(1) [of c f OFree] by (simp add: RSLINK_NEW_def)

lemma RSLINK_NEW_some:
  assumes f: "owned_by c f" and n: "f OFree = n # xs"
  shows "RSLINK_NEW rs c = Inr (n, taken rs n c)" "owned_by (taken rs n c) (f(OFree := xs))"
    "n < length (links c)" "n \<notin> set ((f(OFree := xs)) w)"
proof -
  have h: "rslink_free_list c = Some n" using owned_byD(1) [OF f, of OFree] n by simp
  then show "RSLINK_NEW rs c = Inr (n, taken rs n c)" by (simp add: RSLINK_NEW_def)
  show l: "n < length (links c)" using owned_byD(3) [OF f, of n OFree] n by simp
  show "owned_by (taken rs n c) (f(OFree := xs))"
    by (rule owned_by_take(1) [where a = OFree and n = n, OF f n]) (use l in simp_all)
  show "n \<notin> set ((f(OFree := xs)) w)"
    by (rule owned_by_take(2) [where a = OFree and n = n and c' = "taken rs n c", OF f n]) (use l in simp_all)
qed

lemma insert_link_ok:
  assumes f: "owned_by c f" and n: "\<And>w. n \<notin> set (f w)" "n < length (links c)"
    and ys: "ys = takeWhile (\<lambda>l. \<not> P (links c ! l)) (f b)" and zs: "zs = dropWhile (\<lambda>l. \<not> P (links c ! l)) (f b)"
  obtains ls where "insert_link P n (head_of c b) c = Inr (if ys = [] then Some n else head_of c b, c\<lparr>links := ls\<rparr>)"
    "length ls = length (links c)" "\<And>l. payload (ls ! l) = payload (links c ! l)"
    "\<And>l. l \<noteq> n \<Longrightarrow> (ys \<noteq> [] \<Longrightarrow> l \<noteq> last ys) \<Longrightarrow> ls ! l = links c ! l"
    "lk_next (ls ! n) = (case zs of [] \<Rightarrow> None | z # _ \<Rightarrow> Some z)"
    "ys \<noteq> [] \<Longrightarrow> lk_next (ls ! last ys) = Some n"
proof -
  note F = owned_byD [OF f]
  have split: "f b = ys @ zs" by (simp add: ys zs)
  have yP: "\<forall>y \<in> set ys. \<not> P (links c ! y)" by (auto simp: ys dest: set_takeWhileD)
  have len: "length (f b) < Suc (length (links c))" using F(4) [of b] by simp
  obtain ev where scan: "pscan (Suc (length (links c))) (\<lambda>l. P (links c ! l)) (lnx c) None (head_of c b)
      = Inr (if ys = [] then None else Some (last ys), ev)"
  proof (cases zs)
    case Nil
    then show ?thesis using pscan_none [of "lnx c" "head_of c b" ys "\<lambda>l. P (links c ! l)"] F(1) [of b] split yP len that
      by auto
  next
    case (Cons z zs')
    have "P (links c ! z)" using Cons zs hd_dropWhile [of "\<lambda>l. \<not> P (links c ! l)" "f b"] by simp
    then show ?thesis
      using pscan_found [of "lnx c" "head_of c b" ys z zs' "\<lambda>l. P (links c ! l)"] F(1) [of b] split yP len that Cons
      by auto
  qed
  obtain m where m: "seg (lnx c) (head_of c b) ys m" "chain (lnx c) m zs"
    using F(1) [of b] split by (auto simp: chain_append)
  note mz = chain_head [OF m(2)]
  show ?thesis
  proof (cases "ys = []")
    case True
    then have "head_of c b = m" using m by simp
    with True scan mz n show ?thesis
      by (intro that [of "(links c)[n := (links c ! n)\<lparr>lk_next := head_of c b\<rparr>]"])
        (auto simp: insert_link_def upd_link_def nth_list_update)
  next
    case False
    then have ly: "last ys \<in> set (f b)" using split by simp
    then have y: "last ys < length (links c)" "last ys \<noteq> n" using F(3) n(1) by auto
    have mm: "lnx c (last ys) = m" using m(1) False by (cases ys rule: rev_cases) (auto simp: seg_snoc)
    show ?thesis
      by (intro that [of "((links c)[n := (links c ! n)\<lparr>lk_next := m\<rparr>])[last ys := (links c ! last ys)\<lparr>lk_next := Some n\<rparr>]"])
        (use False scan mz n y mm in \<open>auto simp: insert_link_def upd_link_def nth_list_update\<close>)
  qed
qed

text \<open>A link no list has, linked into the queue \<open>b\<close> before the first link that satisfies \<open>P\<close>.\<close>

lemma insert_link_put:
  assumes f: "owned_by c f" and n: "\<And>w. n \<notin> set (f w)" "n < length (links c)"
    and set: "\<And>h ls w. head_of (put h (c\<lparr>links := ls\<rparr>)) w = (if w = b then h else head_of c w)"
      "\<And>h ls. links (put h (c\<lparr>links := ls\<rparr>)) = ls"
  obtains ls h where "insert_link P n (head_of c b) c = Inr (h, c\<lparr>links := ls\<rparr>)"
    "length ls = length (links c)" "\<And>l. payload (ls ! l) = payload (links c ! l)"
    "owned_by (put h (c\<lparr>links := ls\<rparr>)) (f(b := takeWhile (\<lambda>l. \<not> P (links c ! l)) (f b)
       @ n # dropWhile (\<lambda>l. \<not> P (links c ! l)) (f b)))"
proof -
  let ?ys = "takeWhile (\<lambda>l. \<not> P (links c ! l)) (f b)" and ?zs = "dropWhile (\<lambda>l. \<not> P (links c ! l)) (f b)"
  obtain ls where ls: "insert_link P n (head_of c b) c
        = Inr (if ?ys = [] then Some n else head_of c b, c\<lparr>links := ls\<rparr>)"
      "length ls = length (links c)" "\<And>l. payload (ls ! l) = payload (links c ! l)"
      "\<And>l. l \<noteq> n \<Longrightarrow> (?ys \<noteq> [] \<Longrightarrow> l \<noteq> last ?ys) \<Longrightarrow> ls ! l = links c ! l"
      "lk_next (ls ! n) = (case ?zs of [] \<Rightarrow> None | z # _ \<Rightarrow> Some z)"
      "?ys \<noteq> [] \<Longrightarrow> lk_next (ls ! last ?ys) = Some n"
    using insert_link_ok [OF f n refl refl, of P b] by blast
  show ?thesis
    by (rule that [OF ls(1-3)], rule owned_by_put [OF f n])
      (use ls(2,4-6) in \<open>simp_all add: set\<close>)
qed

lemma links_queue_update [simp]:
  "links (c\<lparr>event_queue := p\<rparr>) = links c" "links (c\<lparr>ready_queue := p\<rparr>) = links c"
  by simp_all

lemma eventq_queue_event_ok:
  assumes f: "owned_by c f" and n: "f OFree = n # xs" and ok: "\<not> rs_completed (rs_of c rs)" "\<not> when \<le>s sim_cycle c"
  obtains p h ls where
    "eventq_queue_event rs when c = Inr (c\<lparr>rslink_free_list := p, links := ls, event_queue := h\<rparr>)"
    "length ls = length (links c)"
    "owned_by (c\<lparr>rslink_free_list := p, links := ls, event_queue := h\<rparr>)
       (f(OFree := xs, OEvents := takeWhile (\<lambda>l. lk_when (links c ! l) <s when) (f OEvents)
          @ n # dropWhile (\<lambda>l. lk_when (links c ! l) <s when) (f OEvents)))"
    "\<And>l. payload (ls ! l) = (if l = n then payload ((links c ! n)\<lparr>lk_rs := Some rs, lk_tag := rs_tag (rs_of c rs), lk_when := when\<rparr>)
       else payload (links c ! l))"
proof -
  note new = RSLINK_NEW_some [OF f n]
  let ?c1 = "taken rs n c" and ?f1 = "f(OFree := xs)"
  let ?c2 = "upd_link n (lk_when_update (\<lambda>_. when)) ?c1"
  have f2: "owned_by ?c2 ?f1" by (rule owned_by_upd_link [OF new(2) [of rs]]) (use new(3) in simp_all)
  have n2: "\<And>w. n \<notin> set (?f1 w)" "n < length (links ?c2)" using new(4) new(3) by simp_all
  obtain ls h where ls: "insert_link (\<lambda>l. \<not> lk_when l <s when) n (head_of ?c2 OEvents) ?c2 = Inr (h, ?c2\<lparr>links := ls\<rparr>)"
    "length ls = length (links ?c2)" "\<And>l. payload (ls ! l) = payload (links ?c2 ! l)"
    "owned_by ((?c2\<lparr>links := ls\<rparr>)\<lparr>event_queue := h\<rparr>) (?f1(OEvents := takeWhile (\<lambda>l. \<not> \<not> lk_when (links ?c2 ! l) <s when) (?f1 OEvents)
       @ n # dropWhile (\<lambda>l. \<not> \<not> lk_when (links ?c2 ! l) <s when) (?f1 OEvents)))"
    by (rule insert_link_put [OF f2 n2, where put = "\<lambda>h c. c\<lparr>event_queue := h\<rparr>" and b = OEvents]) (simp, simp, rule that)
  have q: "l \<noteq> n" if "l \<in> set (f OEvents)" for l using new(4) [of OEvents] that by auto
  have tw: "takeWhile (\<lambda>l. lk_when (links ?c2 ! l) <s when) (f OEvents) = takeWhile (\<lambda>l. lk_when (links c ! l) <s when) (f OEvents)"
    "dropWhile (\<lambda>l. lk_when (links ?c2 ! l) <s when) (f OEvents) = dropWhile (\<lambda>l. lk_when (links c ! l) <s when) (f OEvents)"
    using q new(3) by (auto intro!: takeWhile_cong dropWhile_cong)
  have st: "(?c2\<lparr>links := ls\<rparr>)\<lparr>event_queue := h\<rparr> = c\<lparr>rslink_free_list := lk_next (links c ! n), links := ls, event_queue := h\<rparr>"
    by (simp add: upd_link_def)
  have "eventq_queue_event rs when c = Inr (?c2\<lparr>links := ls, event_queue := h\<rparr>)"
    using ok new(1) ls(1) by (simp add: eventq_queue_event_def)
  moreover have "?f1 OEvents = f OEvents" by simp
  note ow = ls(4) [unfolded st this not_not tw]
  ultimately show ?thesis
    using ls(2,3) new(3) unfolding st
    by (intro that [OF _ _ ow]) (simp_all add: payload_def)
qed

lemma readyq_enqueue_ok:
  assumes f: "owned_by c f" and n: "f OFree = n # xs" and rs: "valid_rs c rs" "\<not> rs_queued (rs_of c rs)"
    and before: "before = (\<lambda>l. \<not> readyq_front isa (rs_of c rs) \<and> lk_seq (links c ! l) < rs_seq (rs_of c rs))"
  obtains p h ls where
    "readyq_enqueue isa rs c = Inr (upd_rs rs (rs_queued_update (\<lambda>_. True)) c\<lparr>rslink_free_list := p, links := ls, ready_queue := h\<rparr>)"
    "length ls = length (links c)"
    "owned_by (upd_rs rs (rs_queued_update (\<lambda>_. True)) c\<lparr>rslink_free_list := p, links := ls, ready_queue := h\<rparr>)
       (f(OFree := xs, OReady := takeWhile before (f OReady) @ n # dropWhile before (f OReady)))"
    "\<And>l. payload (ls ! l) = (if l = n then payload ((links c ! n)\<lparr>lk_rs := Some rs, lk_tag := rs_tag (rs_of c rs), lk_seq := rs_seq (rs_of c rs)\<rparr>)
       else payload (links c ! l))"
proof -
  let ?c0 = "upd_rs rs (rs_queued_update (\<lambda>_. True)) c"
  have f0: "owned_by ?c0 f" by (rule owned_by_upd_rs [OF f rs(1)]) simp
  note new = RSLINK_NEW_some [OF f0 n]
  have s0: "rs_of ?c0 rs = (rs_of c rs)\<lparr>rs_queued := True\<rparr>" using rs(1) by (simp add: rs_of_upd_rs)
  have front: "readyq_front isa (rs_of ?c0 rs) = readyq_front isa (rs_of c rs)" by (simp add: s0 readyq_front_def)
  let ?c1 = "taken rs n ?c0" and ?f1 = "f(OFree := xs)"
  let ?c2 = "upd_link n (lk_seq_update (\<lambda>_. rs_seq (rs_of ?c1 rs))) ?c1"
  let ?P = "\<lambda>l. readyq_front isa (rs_of c rs) \<or> \<not> lk_seq l < rs_seq (rs_of c rs)"
  have f2: "owned_by ?c2 ?f1" by (rule owned_by_upd_link [OF new(2) [of rs]]) (use new(3) in simp_all)
  have n2: "\<And>w. n \<notin> set (?f1 w)" "n < length (links ?c2)" using new(4) new(3) by simp_all
  obtain ls h where ls: "insert_link ?P n (head_of ?c2 OReady) ?c2 = Inr (h, ?c2\<lparr>links := ls\<rparr>)"
    "length ls = length (links ?c2)" "\<And>l. payload (ls ! l) = payload (links ?c2 ! l)"
    "owned_by ((?c2\<lparr>links := ls\<rparr>)\<lparr>ready_queue := h\<rparr>) (?f1(OReady := takeWhile (\<lambda>l. \<not> ?P (links ?c2 ! l)) (?f1 OReady)
       @ n # dropWhile (\<lambda>l. \<not> ?P (links ?c2 ! l)) (?f1 OReady)))"
    by (rule insert_link_put [OF f2 n2, where put = "\<lambda>h c. c\<lparr>ready_queue := h\<rparr>" and b = OReady]) (simp, simp, rule that)
  have q: "l \<noteq> n" if "l \<in> set (f OReady)" for l using new(4) [of OReady] that by auto
  have tw: "takeWhile (\<lambda>l. \<not> ?P (links ?c2 ! l)) (f OReady) = takeWhile before (f OReady)"
    "dropWhile (\<lambda>l. \<not> ?P (links ?c2 ! l)) (f OReady) = dropWhile before (f OReady)"
    using q new(3) by (auto simp: before intro!: takeWhile_cong dropWhile_cong)
  have st: "(?c2\<lparr>links := ls\<rparr>)\<lparr>ready_queue := h\<rparr> = ?c0\<lparr>rslink_free_list := lk_next (links c ! n), links := ls, ready_queue := h\<rparr>"
    by (simp add: upd_link_def)
  have "readyq_enqueue isa rs c = Inr ((?c2\<lparr>links := ls\<rparr>)\<lparr>ready_queue := h\<rparr>)"
  proof (cases "readyq_front isa (rs_of c rs)")
    case True
    then have "insert_link ?P n (head_of ?c2 OReady) ?c2
        = Inr (Some n, upd_link n (lk_next_update (\<lambda>_. head_of ?c2 OReady)) ?c2)"
      by (cases "head_of ?c2 OReady") (simp_all add: insert_link_def)
    with True ls(1) rs(2) new(1) show ?thesis by (simp add: readyq_enqueue_def Let_def front [simplified s0] s0)
  next
    case False
    then show ?thesis using ls(1) rs(2) new(1) by (simp add: readyq_enqueue_def Let_def front [simplified s0] s0)
  qed
  moreover have "?f1 OReady = f OReady" by simp
  note ow = ls(4) [unfolded st this not_not tw]
  ultimately show ?thesis
    using ls(2,3) new(3) unfolding st
    by (intro that [OF _ _ ow]) (simp_all add: payload_def s0)
qed

subsection \<open>Release of links and the next event\<close>

lemma RSLINK_FREE_frame [simp]:
  "event_queue (RSLINK_FREE n c) = event_queue c" "ready_queue (RSLINK_FREE n c) = ready_queue c"
  "rslink_free_list (RSLINK_FREE n c) = Some n" "sim_cycle (RSLINK_FREE n c) = sim_cycle c"
  "length (links (RSLINK_FREE n c)) = length (links c)" "rs_of (RSLINK_FREE n c) r = rs_of c r"
  "valid_rs (RSLINK_FREE n c) r = valid_rs c r"
  "head_of (RSLINK_FREE n c) w = (if w = OFree then Some n else head_of c w)"
  "n < length (links c) \<Longrightarrow> links (RSLINK_FREE n c) ! l
     = (if l = n then (links c ! l)\<lparr>lk_rs := None, lk_tag := 0, lk_next := rslink_free_list c\<rparr> else links c ! l)"
  by (simp_all add: RSLINK_FREE_def)

lemma RSLINK_FREE_put:
  assumes f: "owned_by c f" and n: "\<And>w. n \<notin> set (f w)" "n < length (links c)"
  shows "owned_by (RSLINK_FREE n c) (f(OFree := n # f OFree))"
  using owned_by_put [OF f n, of OFree "[]" "f OFree" "RSLINK_FREE n c"] n(2)
    chain_head [OF owned_byD(1) [OF f, of OFree]]
  by simp

text \<open>A link is live when its station still has the tag the link was made with.\<close>

definition live :: "'z core_scheme \<Rightarrow> nat \<Rightarrow> bool" where
  "live c l = (case lk_rs (links c ! l) of None \<Rightarrow> False | Some r \<Rightarrow> lk_tag (links c ! l) = rs_tag (rs_of c r))"

definition due :: "'z core_scheme \<Rightarrow> nat \<Rightarrow> bool" where
  "due c l \<longleftrightarrow> lk_when (links c ! l) \<le>s sim_cycle c"

lemma next_event_loop_ok:
  assumes "owned_by c f" "\<forall>l \<in> set (f OEvents). lk_rs (links c ! l) \<noteq> None" "length (f OEvents) < k"
    and "dead = takeWhile (\<lambda>l. due c l \<and> \<not> live c l) (f OEvents)"
    and "rest = dropWhile (\<lambda>l. due c l \<and> \<not> live c l) (f OEvents)"
    and "got = (case rest of [] \<Rightarrow> [] | e # _ \<Rightarrow> if due c e then [e] else [])"
  shows "\<exists>h p ls. next_event_loop k c
      = Inr (case got of [] \<Rightarrow> None | e # _ \<Rightarrow> lk_rs (links c ! e), c\<lparr>event_queue := h, links := ls, rslink_free_list := p\<rparr>)
    \<and> owned_by (c\<lparr>event_queue := h, links := ls, rslink_free_list := p\<rparr>)
        (f(OEvents := drop (length got) rest, OFree := got @ rev dead @ f OFree))
    \<and> length ls = length (links c)
    \<and> (\<forall>l. l \<notin> set dead \<union> set got \<longrightarrow> payload (ls ! l) = payload (links c ! l))"
  using assms
proof (induction "f OEvents" arbitrary: c f k dead rest got)
  case Nil
  then obtain m where k: "k = Suc m" by (cases k) auto
  note L = Nil.hyps [symmetric]
  have "event_queue c = None" using owned_byD(1) [OF Nil.prems(1), of OEvents] L by simp
  then have "next_event_loop k c = Inr (None, c)" by (simp add: k)
  moreover have "dead = []" "rest = f OEvents" "got = []" using Nil.prems(4-6) L by simp_all
  ultimately show ?case using Nil.prems(1)
    by (intro exI [of _ "event_queue c"] exI [of _ "rslink_free_list c"] exI [of _ "links c"]) simp
next
  case (Cons e es)
  note f = Cons.prems(1) and L = Cons.hyps(2) [symmetric]
  obtain m where k: "k = Suc m" "length es < m" using Cons.prems(3) L by (cases k) auto
  have h: "event_queue c = Some e" using owned_byD(1) [OF f, of OEvents] L by simp
  show ?case
  proof (cases "due c e")
    case False
    then have "next_event_loop k c = Inr (None, c)" using h by (simp add: k due_def)
    moreover have "dead = []" "rest = f OEvents" "got = []" using Cons.prems(4-6) L False by simp_all
    ultimately show ?thesis using f
      by (intro exI [of _ "event_queue c"] exI [of _ "rslink_free_list c"] exI [of _ "links c"]) simp
  next
    case True
    define c1 where "c1 = c\<lparr>event_queue := lk_next (links c ! e)\<rparr>"
    define c2 where "c2 = RSLINK_FREE e c1"
    let ?f1 = "f(OEvents := es)" and ?f2 = "f(OEvents := es, OFree := e # f OFree)"
    have e: "e < length (links c)" using owned_byD(3) [OF f, of e OEvents] L by simp
    have f1: "owned_by c1 ?f1" "\<And>w. e \<notin> set (?f1 w)"
      using owned_by_take [where a = OEvents and n = e and c' = c1, OF f L] by (simp_all add: c1_def)
    then have "owned_by c2 (?f1(OFree := e # ?f1 OFree))" unfolding c2_def
      by (intro RSLINK_FREE_put) (use e in \<open>simp_all add: c1_def\<close>)
    then have f2: "owned_by c2 ?f2" by simp
    have c2: "c2 = c\<lparr>event_queue := lk_next (links c ! e), links := links c2, rslink_free_list := Some e\<rparr>"
      "length (links c2) = length (links c)" "\<And>l. l \<noteq> e \<Longrightarrow> links c2 ! l = links c ! l"
      using e by (simp_all add: c2_def c1_def RSLINK_FREE_def upd_link_def)
    obtain r where r: "lk_rs (links c ! e) = Some r" using Cons.prems(2) L by auto
    have step: "next_event_loop k c = (if live c e then Inr (Some r, c2) else next_event_loop m c2)"
      using h True r by (simp add: k due_def live_def c2_def c1_def RSLINK_VALID_def Let_def)
    show ?thesis
    proof (cases "live c e")
      case True
      have "dead = []" "rest = e # es" "got = [e]" using Cons.prems(4-6) L True \<open>due c e\<close> by simp_all
      then show ?thesis using step True r f2 c2
        by (intro exI [of _ "lk_next (links c ! e)"] exI [of _ "Some e"] exI [of _ "links c2"])
          (simp flip: c2(1))
    next
      case False
      have es: "l \<noteq> e" if "l \<in> set es" for l using f1(2) [of OEvents] that by auto
      have same: "due c2 l = due c l" "live c2 l = live c l" if "l \<noteq> e" for l
        using c2(3) [OF that] by (simp_all add: due_def live_def c2_def c1_def split: option.splits)
      have tw: "takeWhile (\<lambda>l. due c2 l \<and> \<not> live c2 l) es = takeWhile (\<lambda>l. due c l \<and> \<not> live c l) es"
        "dropWhile (\<lambda>l. due c2 l \<and> \<not> live c2 l) es = dropWhile (\<lambda>l. due c l \<and> \<not> live c l) es"
        using es same by (auto intro!: takeWhile_cong dropWhile_cong)
      obtain dead' where d: "dead = e # dead'" "dead' = takeWhile (\<lambda>l. due c l \<and> \<not> live c l) es"
        "rest = dropWhile (\<lambda>l. due c l \<and> \<not> live c l) es"
        using Cons.prems(4,5) L False \<open>due c e\<close> by simp
      have rest: "set rest \<subseteq> set es" using d(3) by (auto dest: set_dropWhileD)
      have "got = (case rest of [] \<Rightarrow> [] | e # _ \<Rightarrow> if due c2 e then [e] else [])"
        using Cons.prems(6) rest same es by (cases rest) auto
      from Cons.hyps(1) [of ?f2 c2 m dead' rest got, OF _ f2 _ _ _ _ this]
      obtain h p ls where IH: "next_event_loop m c2 = Inr (case got of [] \<Rightarrow> None | e # _ \<Rightarrow> lk_rs (links c2 ! e),
            c2\<lparr>event_queue := h, links := ls, rslink_free_list := p\<rparr>)"
        "owned_by (c2\<lparr>event_queue := h, links := ls, rslink_free_list := p\<rparr>)
           (?f2(OEvents := drop (length got) rest, OFree := got @ rev dead' @ ?f2 OFree))"
        "length ls = length (links c2)"
        "\<forall>l. l \<notin> set dead' \<union> set got \<longrightarrow> payload (ls ! l) = payload (links c2 ! l)"
        using d tw k Cons.prems(2) L c2(3) es by auto
      have tk: "(case got of [] \<Rightarrow> None | e # _ \<Rightarrow> lk_rs (links c2 ! e)) = (case got of [] \<Rightarrow> None | e # _ \<Rightarrow> lk_rs (links c ! e))"
        using Cons.prems(6) rest es c2(3) by (cases rest) auto
      have st: "c2\<lparr>event_queue := h, links := ls, rslink_free_list := p\<rparr> = c\<lparr>event_queue := h, links := ls, rslink_free_list := p\<rparr>"
        by (subst c2(1)) simp
      have fn: "?f2(OEvents := drop (length got) rest, OFree := got @ rev dead' @ ?f2 OFree)
          = f(OEvents := drop (length got) rest, OFree := got @ rev dead @ f OFree)"
        using d(1) by (auto simp: fun_eq_iff)
      show ?thesis using step False IH(1,3,4) IH(2) [unfolded fn st] d(1) c2(2,3)
        by (intro exI [of _ h] exI [of _ p] exI [of _ ls]) (simp add: st tk)
    qed
  qed
qed

subsection \<open>What the queues hold\<close>

text \<open>The entries of a queue in order, each with its key, station and tag, and the lists an
  operation leaves alone.\<close>

definition event_of :: "'z core_scheme \<Rightarrow> nat \<Rightarrow> 64 word \<times> rsref option \<times> 32 word" where
  "event_of c l = (lk_when (links c ! l), lk_rs (links c ! l), lk_tag (links c ! l))"

definition ready_of :: "'z core_scheme \<Rightarrow> nat \<Rightarrow> 32 word \<times> rsref option \<times> 32 word" where
  "ready_of c l = (lk_seq (links c ! l), lk_rs (links c ! l), lk_tag (links c ! l))"

definition events :: "'z core_scheme \<Rightarrow> (64 word \<times> rsref option \<times> 32 word) list" where
  "events c = map (event_of c) (owned c OEvents)"

definition ready :: "'z core_scheme \<Rightarrow> (32 word \<times> rsref option \<times> 32 word) list" where
  "ready c = map (ready_of c) (owned c OReady)"

lemma entry_of_payload:
  assumes "payload (links c' ! l) = payload (links c ! l)"
  shows "event_of c' l = event_of c l" "ready_of c' l = ready_of c l"
  using payload_eqD [OF assms] by (simp_all add: event_of_def ready_of_def)

definition insert_before :: "('a \<Rightarrow> bool) \<Rightarrow> 'a \<Rightarrow> 'a list \<Rightarrow> 'a list" where
  "insert_before stay x xs = takeWhile stay xs @ x # dropWhile stay xs"

definition same_lists :: "owner set \<Rightarrow> 'z core_scheme \<Rightarrow> 'z core_scheme \<Rightarrow> bool" where
  "same_lists W c c' \<longleftrightarrow> (\<forall>w. w \<notin> W \<longrightarrow> owned c' w = owned c w
     \<and> map (\<lambda>l. payload (links c' ! l)) (owned c w) = map (\<lambda>l. payload (links c ! l)) (owned c w))"

lemma insert_before_map:
  "map g (insert_before (\<lambda>x. stay (g x)) x xs) = insert_before stay (g x) (map g xs)"
  by (simp add: insert_before_def takeWhile_map dropWhile_map comp_def)

lemma insert_before_cong:
  "(\<And>y. y \<in> set xs \<Longrightarrow> stay y = stay' y) \<Longrightarrow> insert_before stay x xs = insert_before stay' x xs"
  unfolding insert_before_def by (metis (mono_tags, lifting) takeWhile_cong dropWhile_cong)

lemma insert_before_sorted:
  assumes "sorted_wrt R xs" "\<And>y z. y \<in> set xs \<Longrightarrow> stay y \<Longrightarrow> R y x" "\<And>y. \<not> stay y \<Longrightarrow> R x y"
    and trans: "\<And>a b c. R a b \<Longrightarrow> R b c \<Longrightarrow> R a c"
  shows "sorted_wrt R (insert_before stay x xs)"
proof -
  have s: "sorted_wrt R (takeWhile stay xs @ dropWhile stay xs)" using assms(1) by simp
  have tw: "\<forall>y \<in> set (takeWhile stay xs). R y x" using assms(2) by (auto dest: set_takeWhileD)
  have dw: "\<forall>y \<in> set (dropWhile stay xs). R x y"
  proof (cases "dropWhile stay xs")
    case (Cons z zs)
    then have "R x z" using assms(3) [of z] hd_dropWhile [of stay xs] by simp
    then show ?thesis using s Cons trans by (auto simp: sorted_wrt_append)
  next
    case Nil
    show ?thesis unfolding Nil by simp
  qed
  from s tw dw show ?thesis by (auto simp: insert_before_def sorted_wrt_append intro: trans)
qed

subsection \<open>The initial pool\<close>

definition no_outs :: "'z core_scheme \<Rightarrow> bool" where
  "no_outs c \<longleftrightarrow> (\<forall>s \<in> set (RUU c) \<union> set (LSQ c). \<forall>p \<in> set (rs_odep_list s). p = None)"

lemma no_outs_head: "no_outs c \<Longrightarrow> head_of c (OOut r i) = None"
  by (cases r) (auto simp: no_outs_def rs_of_def, (metis UnI1 UnI2 nth_mem)+)

definition three_lists :: "nat list \<Rightarrow> nat list \<Rightarrow> nat list \<Rightarrow> owner \<Rightarrow> nat list" where
  "three_lists A B C w = (case w of OFree \<Rightarrow> A | OEvents \<Rightarrow> B | OReady \<Rightarrow> C | OOut _ _ \<Rightarrow> [])"

text \<open>A check of a concrete state in which no station has consumers.\<close>

lemma owned_by_three:
  assumes "no_outs c" "chain (lnx c) (rslink_free_list c) A" "chain (lnx c) (event_queue c) B"
    "chain (lnx c) (ready_queue c) C" "distinct (A @ B @ C)" "\<forall>l \<in> set (A @ B @ C). l < length (links c)"
  shows "owned_by c (three_lists A B C)"
proof (rule owned_byI)
  fix w show "chain (lnx c) (head_of c w) (three_lists A B C w)"
    using assms(2-4) no_outs_head [OF assms(1)] by (cases w) (simp_all add: three_lists_def del: head_of.simps(4))
  show "distinct (three_lists A B C w)" using assms(5) by (cases w) (simp_all add: three_lists_def)
  fix x assume x: "x \<in> set (three_lists A B C w)"
  then show "x < length (links c)" using assms(6) by (cases w) (simp_all add: three_lists_def)
  fix w' assume "w \<noteq> w'" "x \<in> set (three_lists A B C w')"
  then show False using x assms(5) by (cases w; cases w') (auto simp: three_lists_def)
qed

definition no_queues :: "'z core_scheme \<Rightarrow> bool" where
  "no_queues c \<longleftrightarrow> links c = [] \<and> event_queue c = None \<and> ready_queue c = None \<and> no_outs c"

lemma rslink_push_state:
  "links c = [] \<Longrightarrow> rslink_free_list c = None \<Longrightarrow> length (links (rslink_push n c)) = n
     \<and> (\<forall>i < n. lnx (rslink_push n c) i = (if i = 0 then None else Some (i - 1)))
     \<and> rslink_push n c = c\<lparr>links := links (rslink_push n c), rslink_free_list := (if n = 0 then None else Some (n - 1))\<rparr>"
proof (induction n)
  case 0
  then show ?case by simp
next
  case (Suc n)
  let ?c = "rslink_push n c"
  from Suc have IH: "length (links ?c) = n" "\<forall>i < n. lnx ?c i = (if i = 0 then None else Some (i - 1))"
    "?c = c\<lparr>links := links ?c, rslink_free_list := (if n = 0 then None else Some (n - 1))\<rparr>" by auto
  have fl: "rslink_free_list ?c = (if n = 0 then None else Some (n - 1))" by (subst IH(3)) simp
  have "rslink_push (Suc n) c = c\<lparr>links := links (rslink_push (Suc n) c), rslink_free_list := Some n\<rparr>"
    using IH(1) by (subst (1) rslink_push.simps) (simp add: Let_def, subst (1) IH(3), simp)
  moreover have "lnx (rslink_push (Suc n) c) i = (if i = 0 then None else Some (i - 1))" if "i < Suc n" for i
    using that IH(1,2) fl by (cases "i = n") (auto simp: Let_def nth_append)
  ultimately show ?case using IH(1) by (simp add: Let_def)
qed

lemma chain_down:
  "(\<And>i. i < n \<Longrightarrow> nx i = (if i = 0 then None else Some (i - 1))) \<Longrightarrow>
   chain nx (if n = 0 then None else Some (n - 1)) (rev [0..<n])"
proof (induction n)
  case (Suc n)
  then have "chain nx (if n = 0 then None else Some (n - 1)) (rev [0..<n])" by simp
  then show ?case using Suc.prems [of n] by (cases n) auto
qed simp

lemma rslink_init_ok:
  assumes "no_queues c"
  shows "owned_by (rslink_init n c) (\<lambda>w. if w = OFree then rev [0..<n] else [])"
proof -
  let ?c = "rslink_init n c"
  have st: "length (links ?c) = n" "\<forall>i < n. lnx ?c i = (if i = 0 then None else Some (i - 1))"
    "?c = c\<lparr>links := links ?c, rslink_free_list := (if n = 0 then None else Some (n - 1))\<rparr>"
    using rslink_push_state [of "c\<lparr>rslink_free_list := None\<rparr>" n] assms by (simp_all add: rslink_init_def no_queues_def)
  have hd: "head_of ?c w = (if w = OFree then (if n = 0 then None else Some (n - 1)) else None)" for w
  proof (cases w)
    case (OOut r i)
    then show ?thesis using assms no_outs_head [of c r i]
      by (subst st(3)) (simp add: no_queues_def del: head_of.simps(4))
  qed (subst st(3), use assms in \<open>simp add: no_queues_def\<close>)+
  show ?thesis
  proof (rule owned_byI)
    fix w show "chain (lnx ?c) (head_of ?c w) (if w = OFree then rev [0..<n] else [])"
      using chain_down [of n "lnx ?c"] st(2) by (simp add: hd)
  qed (use st(1) in \<open>auto split: if_splits\<close>)
qed

subsection \<open>Insertions as operations on entries\<close>

lemma insert_view:
  assumes "\<And>l. l \<in> set xs \<Longrightarrow> view' l = view l" "\<And>l. l \<in> set xs \<Longrightarrow> stay l = stay' (view l)"
  shows "map view' (insert_before stay n xs) = insert_before stay' (view' n) (map view xs)"
proof -
  have "insert_before stay n xs = insert_before (\<lambda>l. stay' (view' l)) n xs"
    by (rule insert_before_cong) (simp add: assms)
  then have "map view' (insert_before stay n xs) = insert_before stay' (view' n) (map view' xs)"
    by (simp add: insert_before_map)
  also have "map view' xs = map view xs" using assms by simp
  finally show ?thesis .
qed

lemma same_listsI:
  assumes "owned c' = g" "\<And>w. w \<notin> W \<Longrightarrow> g w = owned c w"
    "\<And>w l. w \<notin> W \<Longrightarrow> l \<in> set (owned c w) \<Longrightarrow> payload (links c' ! l) = payload (links c ! l)"
  shows "same_lists W c c'"
  using assms by (simp add: same_lists_def)

text \<open>What an insertion means for the entries: \<open>g\<close> is the view of a link as an entry.\<close>

lemma queue_put:
  assumes wf: "links_wf c" and n: "owned c OFree = n # xs" and b: "b \<noteq> OFree"
    and o': "owned_by c' ((owned c)(OFree := xs, b := insert_before stay n (owned c b)))"
    and pl: "\<And>l. l \<noteq> n \<Longrightarrow> payload (links c' ! l) = payload (links c ! l)"
    and g: "\<And>l. payload (links c' ! l) = payload (links c ! l) \<Longrightarrow> g c' l = g c l"
    and stay: "\<And>l. stay l = stay' (g c l)"
  shows "links_wf c'" "owned c' OFree = tl (owned c OFree)" "same_lists {OFree, b} c c'"
    "map (g c') (owned c' b) = insert_before stay' (g c' n) (map (g c) (owned c b))"
proof -
  have f: "owned_by c (owned c)" using wf by (simp add: links_wf_def)
  note ow = links_wfI [OF o']
  have nw: "n \<notin> set (owned c w)" if "w \<noteq> OFree" for w using RSLINK_NEW_some(4) [OF f n, of w] that by simp
  show "links_wf c'" "owned c' OFree = tl (owned c OFree)" using ow b n by simp_all
  show "same_lists {OFree, b} c c'"
    by (rule same_listsI [OF conjunct2 [OF ow]], simp, rule pl) (use nw in auto)
  have "map (g c') (insert_before stay n (owned c b)) = insert_before stay' (g c' n) (map (g c) (owned c b))"
    by (rule insert_view, rule g, rule pl) (use nw [OF b] stay in auto)
  then show "map (g c') (owned c' b) = insert_before stay' (g c' n) (map (g c) (owned c b))"
    using ow b by simp
qed

lemma readyq_enqueue_result:
  assumes wf: "links_wf c" and v: "valid_rs c rs"
  shows "rs_queued (rs_of c rs) \<Longrightarrow> readyq_enqueue isa rs c = Inl (Panic ''node is already queued'')"
    and "\<not> rs_queued (rs_of c rs) \<Longrightarrow> owned c OFree = [] \<Longrightarrow> readyq_enqueue isa rs c = Inl (Panic ''out of rs links'')"
    and "\<not> rs_queued (rs_of c rs) \<Longrightarrow> owned c OFree \<noteq> [] \<Longrightarrow>
      \<exists>c'. readyq_enqueue isa rs c = Inr c' \<and> links_wf c'
        \<and> ready c' = insert_before (\<lambda>e. \<not> readyq_front isa (rs_of c rs) \<and> fst e < rs_seq (rs_of c rs))
            (rs_seq (rs_of c rs), Some rs, rs_tag (rs_of c rs)) (ready c)
        \<and> (md_op2flags isa (rs_op (rs_of c rs)) AND F_ATOMIC = 0
            \<longrightarrow> ready c' = (rs_seq (rs_of c rs), Some rs, rs_tag (rs_of c rs)) # ready c)
        \<and> (\<exists>p ls h. c' = upd_rs rs (rs_queued_update (\<lambda>_. True)) c\<lparr>rslink_free_list := p, links := ls, ready_queue := h\<rparr>)
        \<and> owned c' OFree = tl (owned c OFree) \<and> same_lists {OFree, OReady} c c'"
proof -
  have f: "owned_by c (owned c)" using wf by (simp add: links_wf_def)
  show "rs_queued (rs_of c rs) \<Longrightarrow> readyq_enqueue isa rs c = Inl (Panic ''node is already queued'')"
    by (simp add: readyq_enqueue_def)
  have f0: "owned_by (upd_rs rs (rs_queued_update (\<lambda>_. True)) c) (owned c)" by (rule owned_by_upd_rs [OF f v]) simp
  show "\<not> rs_queued (rs_of c rs) \<Longrightarrow> owned c OFree = [] \<Longrightarrow> readyq_enqueue isa rs c = Inl (Panic ''out of rs links'')"
    by (simp add: readyq_enqueue_def RSLINK_NEW_none [OF f0])
  assume ok: "\<not> rs_queued (rs_of c rs)" "owned c OFree \<noteq> []"
  then obtain n xs where n: "owned c OFree = n # xs" by (cases "owned c OFree") auto
  let ?stay = "\<lambda>e. \<not> readyq_front isa (rs_of c rs) \<and> fst e < rs_seq (rs_of c rs)"
  let ?before = "\<lambda>l. \<not> readyq_front isa (rs_of c rs) \<and> lk_seq (links c ! l) < rs_seq (rs_of c rs)"
  let ?c0 = "upd_rs rs (rs_queued_update (\<lambda>_. True)) c"
  obtain p h ls where c': "readyq_enqueue isa rs c = Inr (?c0\<lparr>rslink_free_list := p, links := ls, ready_queue := h\<rparr>)"
    "length ls = length (links c)"
    "owned_by (?c0\<lparr>rslink_free_list := p, links := ls, ready_queue := h\<rparr>)
       ((owned c)(OFree := xs, OReady := insert_before ?before n (owned c OReady)))"
    "\<And>l. payload (ls ! l) = (if l = n then payload ((links c ! n)\<lparr>lk_rs := Some rs, lk_tag := rs_tag (rs_of c rs), lk_seq := rs_seq (rs_of c rs)\<rparr>)
       else payload (links c ! l))"
    by (rule readyq_enqueue_ok [OF f n v ok(1) refl, of isa]) (simp add: insert_before_def)
  let ?c = "?c0\<lparr>rslink_free_list := p, links := ls, ready_queue := h\<rparr>"
  let ?e = "(rs_seq (rs_of c rs), Some rs, rs_tag (rs_of c rs))"
  have pl: "payload (links ?c ! l) = payload (links c ! l)" if "l \<noteq> n" for l using c'(4) [of l] that by simp
  have new: "ready_of ?c n = ?e"
    using payload_eqD [OF c'(4) [of n, simplified if_P refl]] by (simp add: ready_of_def)
  note put = queue_put [OF wf n _ c'(3), where g = ready_of and stay' = ?stay]
  have rdy: "ready ?c = insert_before ?stay ?e (ready c)"
    unfolding ready_def new [symmetric] by (rule put(4)) (simp, erule pl, erule entry_of_payload(2), simp add: ready_of_def)
  moreover have "ready ?c = ?e # ready c" if "md_op2flags isa (rs_op (rs_of c rs)) AND F_ATOMIC = 0"
  proof -
    have "readyq_front isa (rs_of c rs)" using that by (simp add: readyq_front_def)
    then show ?thesis unfolding rdy by (cases "ready c") (simp_all add: insert_before_def)
  qed
  moreover have "links_wf ?c" "owned ?c OFree = tl (owned c OFree)" "same_lists {OFree, OReady} c ?c"
    by (rule put, simp, erule pl, erule entry_of_payload(2), simp add: ready_of_def)+
  ultimately show "\<exists>c'. readyq_enqueue isa rs c = Inr c' \<and> links_wf c'
        \<and> ready c' = insert_before ?stay ?e (ready c)
        \<and> (md_op2flags isa (rs_op (rs_of c rs)) AND F_ATOMIC = 0 \<longrightarrow> ready c' = ?e # ready c)
        \<and> (\<exists>p ls h. c' = upd_rs rs (rs_queued_update (\<lambda>_. True)) c\<lparr>rslink_free_list := p, links := ls, ready_queue := h\<rparr>)
        \<and> owned c' OFree = tl (owned c OFree) \<and> same_lists {OFree, OReady} c c'"
    using c'(1) by blast
qed

subsection \<open>Registering a consumer\<close>

lemma head_of_upd_odep:
  assumes "valid_rs c h" "i < length (rs_odep_list (rs_of c h))"
  shows "head_of (upd_rs h (\<lambda>s. s\<lparr>rs_odep_list := (rs_odep_list s)[i := p]\<rparr>) c) w
    = (if w = OOut h i then p else head_of c w)"
  using assms by (cases w) (auto simp: rs_of_upd_rs)

lemma ruu_link_idep_ok:
  assumes f: "owned_by c f" and n: "f OFree = n # xs" and rs: "valid_rs c rs"
    and name: "name \<noteq> NA" "cv_rs (CREATE_VECTOR c name) = Some h" "i = cv_odep_num (CREATE_VECTOR c name)"
    and h: "valid_rs c h" "i < length (rs_odep_list (rs_of c h))"
  obtains c' where "ruu_link_idep rs k name c = Inr c'"
    "owned_by c' (f(OFree := xs, OOut h i := n # f (OOut h i)))"
    "\<And>l. payload (links c' ! l) = (if l = n then payload ((links c ! n)\<lparr>lk_rs := Some rs, lk_tag := rs_tag (rs_of c rs), lk_opnum := k\<rparr>)
       else payload (links c ! l))"
    "\<And>r. rs_of c' r = (let s = (if r = rs then (rs_of c rs)\<lparr>rs_idep_ready := (rs_idep_ready (rs_of c rs))[k := False]\<rparr> else rs_of c r)
       in if r = h then s\<lparr>rs_odep_list := (rs_odep_list s)[i := Some n]\<rparr> else s)"
proof -
  let ?c0 = "upd_rs rs (\<lambda>s. s\<lparr>rs_idep_ready := (rs_idep_ready s)[k := False]\<rparr>) c"
  have f0: "owned_by ?c0 f" by (rule owned_by_upd_rs [OF f rs]) simp
  note new = RSLINK_NEW_some [OF f0 n]
  let ?c1 = "taken rs n ?c0"
  let ?c2 = "upd_link n (\<lambda>l. l\<lparr>lk_opnum := k, lk_next := rs_odep_list (rs_of ?c1 h) ! i\<rparr>) ?c1"
  let ?c3 = "upd_rs h (\<lambda>s. s\<lparr>rs_odep_list := (rs_odep_list s)[i := Some n]\<rparr>) ?c2"
  have v2: "valid_rs ?c2 h" "i < length (rs_odep_list (rs_of ?c2 h))" using h rs by (auto simp: rs_of_upd_rs)
  have hd: "rs_odep_list (rs_of ?c1 h) ! i = head_of ?c1 (OOut h i)" using v2 by simp
  have "owned_by ?c3 ((f(OFree := xs))(OOut h i := [] @ n # (f(OFree := xs)) (OOut h i)))"
  proof (rule owned_by_put [OF new(2) new(4), where ys = "[]" and zs = "(f(OFree := xs)) (OOut h i)" and c' = ?c3])
    show "head_of ?c3 w = (if w = OOut h i \<and> [] = [] then Some n else head_of ?c1 w)" for w
      unfolding head_of_upd_odep [OF v2] by simp
    show "lnx ?c3 n = (case (f(OFree := xs)) (OOut h i) of [] \<Rightarrow> None | z # _ \<Rightarrow> Some z)"
      using chain_head [OF owned_byD(1) [OF new(2), of rs "OOut h i"]] new(3) unfolding hd by simp
  qed (use new(3) in simp_all)
  moreover have "ruu_link_idep rs k name c = Inr ?c3"
    using name new(1) by (simp add: ruu_link_idep_def Let_def)
  moreover have "payload (links ?c3 ! l) = (if l = n then payload ((links c ! n)\<lparr>lk_rs := Some rs, lk_tag := rs_tag (rs_of c rs), lk_opnum := k\<rparr>)
       else payload (links c ! l))" for l
    using new(3) rs by (simp add: payload_def rs_of_upd_rs)
  moreover have "rs_of ?c3 r = (let s = (if r = rs then (rs_of c rs)\<lparr>rs_idep_ready := (rs_idep_ready (rs_of c rs))[k := False]\<rparr> else rs_of c r)
       in if r = h then s\<lparr>rs_odep_list := (rs_odep_list s)[i := Some n]\<rparr> else s)" for r
    using rs h(1) by (simp add: rs_of_upd_rs Let_def)
  ultimately show ?thesis by (intro that [of ?c3]) simp_all
qed

end
