(* ===== verification/LsqCorrect.thy ===== *)
theory LsqCorrect
  imports SchedCorrect
begin

text \<open>
  The load/store queue scan: which addresses the scan holds back, and that it enters into the
  ready queue exactly the waiting loads that no earlier store can still change.
\<close>

subsection \<open>Blocked addresses\<close>

definition std_unknown :: "op_isa \<Rightarrow> station \<Rightarrow> bool" where
  "std_unknown isa s \<longleftrightarrow> is_store isa (rs_op s) \<and> STORE_ADDR_READY s \<and> \<not> OPERANDS_READY s"

definition std_known :: "op_isa \<Rightarrow> station \<Rightarrow> bool" where
  "std_known isa s \<longleftrightarrow> is_store isa (rs_op s) \<and> STORE_ADDR_READY s \<and> OPERANDS_READY s"

text \<open>An address is pending after the entries \<open>xs\<close> when the value it will hold is not known yet; a
  store is overwritten when a later store to its address has its data.\<close>

fun pending :: "op_isa \<Rightarrow> station list \<Rightarrow> 64 word \<Rightarrow> bool" where
  "pending isa [] a = False"
| "pending isa (s # xs) a \<longleftrightarrow>
     std_unknown isa s \<and> rs_addr s = a \<and> \<not> (\<exists>t \<in> set xs. std_known isa t \<and> rs_addr t = a) \<or> pending isa xs a"

fun overwritten :: "op_isa \<Rightarrow> station list \<Rightarrow> bool" where
  "overwritten isa [] = False"
| "overwritten isa (s # xs) \<longleftrightarrow>
     std_unknown isa s \<and> (\<exists>t \<in> set xs. std_known isa t \<and> rs_addr t = rs_addr s) \<or> overwritten isa xs"

definition blocked :: "op_isa \<Rightarrow> station list \<Rightarrow> 64 word \<Rightarrow> bool" where
  "blocked isa xs a \<longleftrightarrow> pending isa xs a \<or> a = 0 \<and> overwritten isa xs"

definition woken :: "op_isa \<Rightarrow> station list \<Rightarrow> station \<Rightarrow> bool" where
  "woken isa xs s \<longleftrightarrow> load_waiting isa s
     \<and> (\<forall>t \<in> set (xs @ [s]). is_store isa (rs_op t) \<longrightarrow> STORE_ADDR_READY t) \<and> \<not> blocked isa (xs @ [s]) (rs_addr s)"

lemma std_exclusive: "std_known isa s \<Longrightarrow> \<not> std_unknown isa s"
  by (simp add: std_known_def std_unknown_def)

lemma pending_snoc:
  "pending isa (xs @ [s]) a \<longleftrightarrow> std_unknown isa s \<and> rs_addr s = a
     \<or> pending isa xs a \<and> \<not> (std_known isa s \<and> rs_addr s = a)"
  using std_exclusive [of isa s] by (induction xs) auto

lemma overwritten_snoc:
  "overwritten isa (xs @ [s]) \<longleftrightarrow> overwritten isa xs
     \<or> std_known isa s \<and> (\<exists>t \<in> set xs. std_unknown isa t \<and> rs_addr t = rs_addr s)"
  using std_exclusive [of isa s] by (induction xs) auto

lemma unknown_pending:
  "t \<in> set xs \<Longrightarrow> std_unknown isa t \<Longrightarrow> pending isa xs (rs_addr t) \<or> overwritten isa xs"
  by (induction xs) auto

lemma pending_unknown: "pending isa xs a \<Longrightarrow> \<exists>t \<in> set xs. std_unknown isa t \<and> rs_addr t = a"
  by (induction xs) auto

lemma blocked_snoc:
  "std_unknown isa s \<Longrightarrow> blocked isa (xs @ [s]) a \<longleftrightarrow> blocked isa xs a \<or> a = rs_addr s"
  "std_known isa s \<Longrightarrow> blocked isa (xs @ [s]) a
     \<longleftrightarrow> (\<exists>b. blocked isa xs b \<and> a = (if b = rs_addr s then 0 else b))"
  "\<not> is_store isa (rs_op s) \<Longrightarrow> blocked isa (xs @ [s]) a = blocked isa xs a"
proof -
  show "std_unknown isa s \<Longrightarrow> blocked isa (xs @ [s]) a \<longleftrightarrow> blocked isa xs a \<or> a = rs_addr s"
    using std_exclusive [of isa s] by (auto simp: blocked_def pending_snoc overwritten_snoc)
  show "\<not> is_store isa (rs_op s) \<Longrightarrow> blocked isa (xs @ [s]) a = blocked isa xs a"
    by (auto simp: blocked_def pending_snoc overwritten_snoc std_known_def std_unknown_def)
  assume k: "std_known isa s"
  then have "blocked isa (xs @ [s]) a \<longleftrightarrow> pending isa xs a \<and> rs_addr s \<noteq> a
      \<or> a = 0 \<and> (overwritten isa xs \<or> (\<exists>t \<in> set xs. std_unknown isa t \<and> rs_addr t = rs_addr s))"
    using std_exclusive [OF k] by (auto simp: blocked_def pending_snoc overwritten_snoc)
  also have "(overwritten isa xs \<or> (\<exists>t \<in> set xs. std_unknown isa t \<and> rs_addr t = rs_addr s))
      \<longleftrightarrow> overwritten isa xs \<or> pending isa xs (rs_addr s)"
    using unknown_pending [of _ xs isa] pending_unknown [of isa xs "rs_addr s"] by metis
  finally show "blocked isa (xs @ [s]) a \<longleftrightarrow> (\<exists>b. blocked isa xs b \<and> a = (if b = rs_addr s then 0 else b))"
    unfolding blocked_def by metis
qed

lemma refresh_store_ok:
  assumes "is_store isa (rs_op s)" "set unk = Collect (blocked isa xs)" "length unk < MAX_STD_UNKNOWNS"
  shows "refresh_store s unk = Inr None \<and> \<not> STORE_ADDR_READY s
    \<or> (\<exists>unk'. refresh_store s unk = Inr (Some unk') \<and> STORE_ADDR_READY s
         \<and> set unk' = Collect (blocked isa (xs @ [s])) \<and> length unk' \<le> Suc (length unk))"
proof (cases "STORE_ADDR_READY s \<and> OPERANDS_READY s")
  case True
  then have "std_known isa s" using assms(1) by (simp add: std_known_def)
  then have "set (map (\<lambda>a. if a = rs_addr s then 0 else a) unk) = Collect (blocked isa (xs @ [s]))"
    unfolding set_map assms(2) blocked_snoc(2) [OF \<open>std_known isa s\<close>] image_def by simp
  with True show ?thesis by (simp add: refresh_store_def)
next
  case False
  show ?thesis
  proof (cases "STORE_ADDR_READY s")
    case True
    then have "std_unknown isa s" using assms(1) False by (simp add: std_unknown_def)
    then have "set (unk @ [rs_addr s]) = Collect (blocked isa (xs @ [s]))"
      using blocked_snoc(1) [of isa s xs] assms(2) by auto
    with True False assms(3) show ?thesis by (simp add: refresh_store_def)
  qed (simp add: refresh_store_def)
qed

subsection \<open>The scan\<close>

definition lsq_pos :: "'z core_scheme \<Rightarrow> nat \<Rightarrow> nat" where
  "lsq_pos c j = (LSQ_head c + j) mod length (LSQ c)"

definition lsq_entries :: "'z core_scheme \<Rightarrow> nat \<Rightarrow> station list" where
  "lsq_entries c n = map (\<lambda>j. LSQ c ! lsq_pos c j) [0..<n]"

definition lsq_woken :: "op_isa \<Rightarrow> 'z core_scheme \<Rightarrow> nat set" where
  "lsq_woken isa c = {lsq_pos c j | j. j < LSQ_num c \<and> woken isa (lsq_entries c j) (LSQ c ! lsq_pos c j)}"

lemma lsq_pos_less: "LSQ c \<noteq> [] \<Longrightarrow> lsq_pos c j < length (LSQ c)"
  by (simp add: lsq_pos_def)

lemma lsq_pos_inj:
  assumes "lsq_pos c i = lsq_pos c j" "i < length (LSQ c)" "j < length (LSQ c)"
  shows "i = j"
  using ring_inj assms unfolding lsq_pos_def .

lemma lsq_pos_Suc: "lsq_pos c (Suc j) = (lsq_pos c j + 1) mod length (LSQ c)"
  by (simp add: lsq_pos_def mod_Suc_eq)

lemma lsq_entries_Suc: "lsq_entries c (Suc j) = lsq_entries c j @ [LSQ c ! lsq_pos c j]"
  by (simp add: lsq_entries_def)

lemma same_lists_trans:
  "same_lists W c d \<Longrightarrow> same_lists W d e \<Longrightarrow> same_lists W c e"
  unfolding same_lists_def by (metis (no_types, lifting))

lemma set_insert_before: "set (insert_before stay x xs) = insert x (set xs)"
  by (induction xs) (auto simp: insert_before_def)

text \<open>The stations in a ready queue.\<close>

definition ready_rs :: "'z core_scheme \<Rightarrow> rsref option set" where
  "ready_rs c = (\<lambda>e. fst (snd e)) ` set (ready c)"

lemma refresh_stop:
  assumes "m = Inr c" "links_wf c" "length (LSQ c) = n"
  shows "\<exists>c'. m = Inr c' \<and> links_wf c' \<and> same_lists {OFree, OReady} c c'
    \<and> ready_rs c' = ready_rs c \<union> (\<lambda>i. Some (InLSQ i)) ` {}
    \<and> (\<exists>p ls h. c' = c\<lparr>rslink_free_list := p, links := ls, ready_queue := h,
         LSQ := map (\<lambda>i. if i \<in> {} then (LSQ c ! i)\<lparr>rs_queued := True\<rparr> else LSQ c ! i) [0..<n]\<rparr>)"
proof -
  have "LSQ c = map (\<lambda>i. LSQ c ! i) [0..<n]" using assms(3) by (simp add: map_nth flip: assms(3))
  then have "c = c\<lparr>rslink_free_list := rslink_free_list c, links := links c, ready_queue := ready_queue c,
      LSQ := map (\<lambda>i. if i \<in> {} then (LSQ c ! i)\<lparr>rs_queued := True\<rparr> else LSQ c ! i) [0..<n]\<rparr>" by simp
  moreover have "same_lists {OFree, OReady} c c" "ready_rs c = ready_rs c \<union> (\<lambda>i. Some (InLSQ i)) ` {}"
    by (simp_all add: same_lists_def)
  ultimately show ?thesis using assms(1,2) by blast
qed

lemma refresh_loop_ok:
  assumes "j + k = LSQ_num c0" "LSQ_num c0 \<le> length (LSQ c0)" "LSQ_num c0 \<le> MAX_STD_UNKNOWNS"
    and "links_wf c" "length (LSQ c) = length (LSQ c0)"
    and "\<And>i. j \<le> i \<Longrightarrow> i < LSQ_num c0 \<Longrightarrow> LSQ c ! lsq_pos c0 i = LSQ c0 ! lsq_pos c0 i"
    and "set unk = Collect (blocked isa (lsq_entries c0 j))" "length unk \<le> j"
    and "k \<le> length (owned c OFree)"
    and "\<forall>t \<in> set (lsq_entries c0 j). is_store isa (rs_op t) \<longrightarrow> STORE_ADDR_READY t"
    and "W = {lsq_pos c0 i | i. j \<le> i \<and> i < LSQ_num c0 \<and> woken isa (lsq_entries c0 i) (LSQ c0 ! lsq_pos c0 i)}"
  shows "\<exists>c'. refresh_loop isa k (lsq_pos c0 j) unk c = Inr c' \<and> links_wf c' \<and> same_lists {OFree, OReady} c c'
    \<and> ready_rs c' = ready_rs c \<union> (\<lambda>i. Some (InLSQ i)) ` W
    \<and> (\<exists>p ls h. c' = c\<lparr>rslink_free_list := p, links := ls, ready_queue := h,
         LSQ := map (\<lambda>i. if i \<in> W then (LSQ c ! i)\<lparr>rs_queued := True\<rparr> else LSQ c ! i) [0..<length (LSQ c0)]\<rparr>)"
  using assms
proof (induction k arbitrary: j unk c W)
  case 0
  have W: "W = {}" using 0 by auto
  show ?case unfolding W by (rule refresh_stop) (use 0 in simp_all)
next
  case (Suc k)
  let ?s = "LSQ c0 ! lsq_pos c0 j" and ?xs = "lsq_entries c0 j"
  let ?W = "{lsq_pos c0 i | i. Suc j \<le> i \<and> i < LSQ_num c0 \<and> woken isa (lsq_entries c0 i) (LSQ c0 ! lsq_pos c0 i)}"
  have j: "j < LSQ_num c0" "j < length (LSQ c0)" using Suc.prems(1,2) by auto
  then have "LSQ c0 \<noteq> []" by auto
  then have pos: "lsq_pos c0 j < length (LSQ c)" using lsq_pos_less [of c0 j] Suc.prems(5) by simp
  have s: "LSQ c ! lsq_pos c0 j = ?s" using Suc.prems(6) [of j] j by simp
  have nx: "(lsq_pos c0 j + 1) mod length (LSQ c) = lsq_pos c0 (Suc j)" by (simp add: lsq_pos_Suc Suc.prems(5))
  have W: "W = (if woken isa ?xs ?s then insert (lsq_pos c0 j) ?W else ?W)"
    using j(1) le_eq_less_or_eq unfolding Suc.prems(11) by (auto simp: Suc_le_eq)
  show ?case
  proof (cases "is_store isa (rs_op ?s) \<and> \<not> STORE_ADDR_READY ?s")
    case True
    have "\<not> woken isa (lsq_entries c0 i) (LSQ c0 ! lsq_pos c0 i)" if "j \<le> i" for i
    proof -
      have "?s \<in> set (lsq_entries c0 i @ [LSQ c0 ! lsq_pos c0 i])"
        using that by (cases "i = j") (auto simp: lsq_entries_def)
      then show ?thesis using True by (auto simp: woken_def)
    qed
    then have W0: "W = {}" using Suc.prems(11) by auto
    have "refresh_loop isa (Suc k) (lsq_pos c0 j) unk c = Inr c"
      unfolding refresh_loop.simps Let_def s refresh_store_def using True by simp
    then show ?thesis unfolding W0 using Suc.prems(4,5) by (rule refresh_stop)
  next
    case False
    obtain unk' where unk': "(if is_store isa (rs_op ?s) then refresh_store ?s unk else Inr (Some unk)) = Inr (Some unk')"
      "set unk' = Collect (blocked isa (?xs @ [?s]))" "length unk' \<le> Suc j"
    proof (cases "is_store isa (rs_op ?s)")
      case True
      have "length unk < MAX_STD_UNKNOWNS" using Suc.prems(1,3,8) by simp
      from refresh_store_ok [OF True Suc.prems(7) this] False True Suc.prems(8) that
      show ?thesis by fastforce
    next
      case False
      then have "blocked isa (?xs @ [?s]) = blocked isa ?xs" by (intro ext blocked_snoc(3))
      with False show ?thesis using Suc.prems(7,8) by (intro that [of unk]) simp_all
    qed
    have ready: "\<forall>t \<in> set (?xs @ [?s]). is_store isa (rs_op t) \<longrightarrow> STORE_ADDR_READY t"
      using Suc.prems(10) False by auto
    then have wk: "load_waiting isa ?s \<and> rs_addr ?s \<notin> set unk' \<longleftrightarrow> woken isa ?xs ?s"
      unfolding woken_def unk'(2) by simp
    have step: "refresh_loop isa (Suc k) (lsq_pos c0 j) unk c = cbind (if woken isa ?xs ?s
          then readyq_enqueue isa (InLSQ (lsq_pos c0 j)) c else Inr c) (refresh_loop isa k (lsq_pos c0 (Suc j)) unk')"
      unfolding refresh_loop.simps Let_def s unk'(1) by (simp add: wk nx [simplified])
    have num: "Suc j + k = LSQ_num c0" and free: "k \<le> length (owned c OFree)" using Suc.prems(1,9) by simp_all
    note sets = unk'(2) [folded lsq_entries_Suc] and ready = ready [folded lsq_entries_Suc]
    note IH = Suc.IH [where j = "Suc j" and unk = unk' and W = ?W, OF _ Suc.prems(2,3) _ _ _ _ unk'(3)]
    show ?thesis
    proof (cases "woken isa ?xs ?s")
      case False
      have keep: "LSQ c ! lsq_pos c0 i = LSQ c0 ! lsq_pos c0 i" if "Suc j \<le> i" "i < LSQ_num c0" for i
        using Suc.prems(6) [of i] that by simp
      from False have "W = ?W" "refresh_loop isa (Suc k) (lsq_pos c0 j) unk c = refresh_loop isa k (lsq_pos c0 (Suc j)) unk' c"
        unfolding step using W by simp_all
      then show ?thesis using IH [of c, OF num Suc.prems(4,5) keep sets free ready refl] by simp
    next
      case True
      let ?r = "InLSQ (lsq_pos c0 j)"
      have r: "rs_of c ?r = ?s" "valid_rs c ?r" using s pos by (simp_all add: rs_of_def)
      have "\<not> rs_queued (rs_of c ?r)" "owned c OFree \<noteq> []"
        using True r Suc.prems(9) by (auto simp: woken_def load_waiting_def)
      from readyq_enqueue_result(3) [OF Suc.prems(4) r(2) this, of isa]
      obtain c1 p1 ls1 h1 where c1: "readyq_enqueue isa ?r c = Inr c1" "links_wf c1"
        "ready c1 = insert_before (\<lambda>e. \<not> readyq_front isa (rs_of c ?r) \<and> fst e < rs_seq (rs_of c ?r))
            (rs_seq (rs_of c ?r), Some ?r, rs_tag (rs_of c ?r)) (ready c)"
        "c1 = upd_rs ?r (rs_queued_update (\<lambda>_. True)) c\<lparr>rslink_free_list := p1, links := ls1, ready_queue := h1\<rparr>"
        "owned c1 OFree = tl (owned c OFree)" "same_lists {OFree, OReady} c c1"
        by blast
      have lsq1: "LSQ c1 = (LSQ c)[lsq_pos c0 j := (LSQ c ! lsq_pos c0 j)\<lparr>rs_queued := True\<rparr>]"
        unfolding c1(4) by (simp add: upd_rs_def)
      have keep: "LSQ c1 ! lsq_pos c0 i = LSQ c0 ! lsq_pos c0 i" if "Suc j \<le> i" "i < LSQ_num c0" for i
      proof -
        have "lsq_pos c0 i \<noteq> lsq_pos c0 j"
          using lsq_pos_inj [of c0 i j] that j(2) Suc.prems(2) by auto
        then show ?thesis unfolding lsq1 using Suc.prems(6) [of i] that by simp
      qed
      have len1: "length (LSQ c1) = length (LSQ c0)" and free1: "k \<le> length (owned c1 OFree)"
        using Suc.prems(5,9) by (simp_all add: lsq1 c1(5))
      have rdy: "ready_rs c1 = insert (Some ?r) (ready_rs c)"
        by (simp add: ready_rs_def c1(3) set_insert_before)
      obtain c' p ls h where c': "refresh_loop isa k (lsq_pos c0 (Suc j)) unk' c1 = Inr c'" "links_wf c'"
        "same_lists {OFree, OReady} c1 c'" "ready_rs c' = ready_rs c1 \<union> (\<lambda>i. Some (InLSQ i)) ` ?W"
        "c' = c1\<lparr>rslink_free_list := p, links := ls, ready_queue := h,
           LSQ := map (\<lambda>i. if i \<in> ?W then (LSQ c1 ! i)\<lparr>rs_queued := True\<rparr> else LSQ c1 ! i) [0..<length (LSQ c0)]\<rparr>"
        using IH [of c1, OF num c1(2) len1 keep sets free1 ready refl] by blast
      have "map (\<lambda>i. if i \<in> ?W then (LSQ c1 ! i)\<lparr>rs_queued := True\<rparr> else LSQ c1 ! i) [0..<length (LSQ c0)]
          = map (\<lambda>i. if i \<in> W then (LSQ c ! i)\<lparr>rs_queued := True\<rparr> else LSQ c ! i) [0..<length (LSQ c0)]"
        using True Suc.prems(5) pos unfolding W lsq1 by (intro map_cong) (auto simp: nth_list_update)
      then have "c' = c\<lparr>rslink_free_list := p, links := ls, ready_queue := h,
           LSQ := map (\<lambda>i. if i \<in> W then (LSQ c ! i)\<lparr>rs_queued := True\<rparr> else LSQ c ! i) [0..<length (LSQ c0)]\<rparr>"
        unfolding c'(5) c1(4) by (simp add: upd_rs_def)
      moreover have "ready_rs c' = ready_rs c \<union> (\<lambda>i. Some (InLSQ i)) ` W"
        unfolding c'(4) rdy W using True by simp
      moreover have "refresh_loop isa (Suc k) (lsq_pos c0 j) unk c = Inr c'"
        unfolding step using True c1(1) c'(1) by simp
      ultimately show ?thesis using c'(2) same_lists_trans [OF c1(6) c'(3)] by blast
    qed
  qed
qed

lemma lsq_refresh_ok:
  assumes "links_wf c" "LSQ_head c < length (LSQ c)" "LSQ_num c \<le> length (LSQ c)" "LSQ_num c \<le> MAX_STD_UNKNOWNS"
    "LSQ_num c \<le> length (owned c OFree)"
  shows "\<exists>c'. lsq_refresh isa c = Inr c' \<and> links_wf c' \<and> same_lists {OFree, OReady} c c'
    \<and> ready_rs c' = ready_rs c \<union> (\<lambda>i. Some (InLSQ i)) ` lsq_woken isa c
    \<and> (\<exists>p ls h. c' = c\<lparr>rslink_free_list := p, links := ls, ready_queue := h,
         LSQ := map (\<lambda>i. if i \<in> lsq_woken isa c then (LSQ c ! i)\<lparr>rs_queued := True\<rparr> else LSQ c ! i)
                  [0..<length (LSQ c)]\<rparr>)"
proof -
  have "lsq_pos c 0 = LSQ_head c" using assms(2) by (simp add: lsq_pos_def)
  then show ?thesis
    using refresh_loop_ok [of 0 "LSQ_num c" c c "[]" isa "lsq_woken isa c"] assms
    by (simp add: lsq_refresh_def lsq_entries_def blocked_def lsq_woken_def)
qed

end
