(* ===== verification/RecoverCorrect.thy ===== *)
theory RecoverCorrect
  imports Stages LsqCorrect
begin

text \<open>
  The squash of the operations younger than a mispredicted branch: the links of their output lists
  go back to the pool, their tags change, which invalidates every link that still names them, and
  the two queues end behind the branch.
\<close>

subsection \<open>Releasing whole lists\<close>

text \<open>The links \<open>ls\<close> and owners \<open>f'\<close> after the lists of \<open>W\<close> have been released.\<close>

definition released :: "owner set \<Rightarrow> RS_link list \<Rightarrow> (owner \<Rightarrow> nat list) \<Rightarrow> RS_link list \<Rightarrow> (owner \<Rightarrow> nat list) \<Rightarrow> bool" where
  "released W ls f ls' f' \<longleftrightarrow> length ls' = length ls \<and> OFree \<notin> W
     \<and> (\<forall>w. w \<noteq> OFree \<longrightarrow> f' w = (if w \<in> W then [] else f w))
     \<and> set (f' OFree) = set (f OFree) \<union> (\<Union>w \<in> W. set (f w))
     \<and> (\<forall>l. ls' ! l = ls ! l \<or> l \<in> (\<Union>w \<in> W. set (f w)) \<and> lk_rs (ls' ! l) = None)"

lemma released_none: "released {} ls f ls f"
  by (simp add: released_def)

lemma releasedD:
  assumes "released W ls f ls' f'"
  shows "length ls' = length ls" "OFree \<notin> W" "w \<noteq> OFree \<Longrightarrow> f' w = (if w \<in> W then [] else f w)"
    "set (f' OFree) = set (f OFree) \<union> (\<Union>w \<in> W. set (f w))"
    "ls' ! l = ls ! l \<or> l \<in> (\<Union>w \<in> W. set (f w)) \<and> lk_rs (ls' ! l) = None"
  using assms unfolding released_def by blast+

lemma released_trans:
  assumes a: "released W ls f ls1 f1" and b: "released W' ls1 f1 ls2 f2"
  shows "released (W \<union> W') ls f ls2 f2"
proof -
  note A = releasedD [OF a] and B = releasedD [OF b]
  let ?A = "\<Union>w \<in> W. set (f w)" and ?B = "\<Union>w \<in> W'. set (f w)"
  have one: "set (f1 w) = (if w \<in> W then {} else set (f w))" if "w \<in> W'" for w
    using A(3) [of w] B(2) that by (cases "w = OFree") auto
  have sub: "(\<Union>w \<in> W'. set (f1 w)) \<subseteq> ?B" "?B \<subseteq> ?A \<union> (\<Union>w \<in> W'. set (f1 w))"
    using one by (auto split: if_splits)
  have all: "(\<Union>w \<in> W \<union> W'. set (f w)) = ?A \<union> ?B" by auto
  have "ls2 ! l = ls ! l \<or> l \<in> ?A \<union> ?B \<and> lk_rs (ls2 ! l) = None" for l
    using A(5) [of l] B(5) [of l] sub(1) by auto
  moreover have "set (f2 OFree) = set (f OFree) \<union> (?A \<union> ?B)"
    unfolding B(4) A(4) using sub by blast
  moreover have "f2 w = (if w \<in> W \<union> W' then [] else f w)" if "w \<noteq> OFree" for w
    unfolding B(3) [OF that] A(3) [OF that] by simp
  ultimately show ?thesis using A(1,2) B(1,2) unfolding released_def all by simp
qed

lemma released_extend:
  assumes a: "released W ls f ls' f'" and W: "W \<subseteq> W'" "OFree \<notin> W'" "\<And>w. w \<in> W' - W \<Longrightarrow> f w = []"
  shows "released W' ls f ls' f'"
proof -
  have U: "(\<Union>w \<in> W'. set (f w)) = (\<Union>w \<in> W. set (f w))" using W(1,3) by fastforce
  show ?thesis using a W unfolding released_def U by auto
qed

lemma RSLINK_FREE_upd_rs: "RSLINK_FREE n (upd_rs r g c) = upd_rs r g (RSLINK_FREE n c)"
  by (cases r) (simp_all add: RSLINK_FREE_def upd_link_def upd_rs_def)

text \<open>The loop over a chain that no list owns any more; \<open>g\<close> is the update of the station that drops
  the chain, which the code does after the loop.\<close>

lemma free_list_loop_ok:
  assumes "owned_by (upd_rs r g c) f" "chain (lnx c) p xs" "distinct xs"
    and "\<forall>x \<in> set xs. x < length (links c) \<and> (\<forall>w. x \<notin> set (f w))" "length xs < k"
  shows "\<exists>ls q. free_list_loop k p c = Inr (c\<lparr>links := ls, rslink_free_list := q\<rparr>)
    \<and> owned_by (upd_rs r g (c\<lparr>links := ls, rslink_free_list := q\<rparr>)) (f(OFree := rev xs @ f OFree))
    \<and> length ls = length (links c) \<and> (\<forall>l. ls ! l = links c ! l \<or> l \<in> set xs \<and> lk_rs (ls ! l) = None)"
  using assms
proof (induction xs arbitrary: c f p k)
  case Nil
  then obtain m where "k = Suc m" by (cases k) auto
  then show ?case using Nil by (intro exI [of _ "links c"] exI [of _ "rslink_free_list c"]) simp
next
  case (Cons x xs)
  obtain m where m: "k = Suc m" "length xs < m" using Cons.prems(5) by (cases k) auto
  have p: "p = Some x" "chain (lnx c) (lnx c x) xs" and x: "x < length (links c)" "\<And>w. x \<notin> set (f w)"
    using Cons.prems(2,4) by auto
  let ?c = "RSLINK_FREE x c"
  have f1: "owned_by (upd_rs r g ?c) (f(OFree := x # f OFree))"
    using RSLINK_FREE_put [OF Cons.prems(1), of x] x by (simp add: RSLINK_FREE_upd_rs)
  have ch: "chain (lnx ?c) (lnx c x) xs"
    using p(2) x(1) Cons.prems(3) by (subst chain_cong [of xs _ "lnx c"]) auto
  have d: "distinct xs" using Cons.prems(3) by simp
  have pre: "\<forall>y \<in> set xs. y < length (links ?c) \<and> (\<forall>w. y \<notin> set ((f(OFree := x # f OFree)) w))"
    using Cons.prems(3,4) by auto
  obtain ls q where IH: "free_list_loop m (lnx c x) ?c = Inr (?c\<lparr>links := ls, rslink_free_list := q\<rparr>)"
    "owned_by (upd_rs r g (?c\<lparr>links := ls, rslink_free_list := q\<rparr>)) ((f(OFree := x # f OFree))(OFree := rev xs @ (f(OFree := x # f OFree)) OFree))"
    "length ls = length (links ?c)" "\<forall>l. ls ! l = links ?c ! l \<or> l \<in> set xs \<and> lk_rs (ls ! l) = None"
    using Cons.IH [OF f1 ch d pre m(2)] by blast
  have st: "?c\<lparr>links := ls, rslink_free_list := q\<rparr> = c\<lparr>links := ls, rslink_free_list := q\<rparr>"
    by (simp add: RSLINK_FREE_def upd_link_def)
  have "ls ! l = links c ! l \<or> l \<in> set (x # xs) \<and> lk_rs (ls ! l) = None" for l
    using IH(4) [rule_format, of l] x(1) by (auto split: if_splits)
  moreover have "free_list_loop k p c = Inr (c\<lparr>links := ls, rslink_free_list := q\<rparr>)"
    using IH(1) m(1) p(1) unfolding st by simp
  moreover have "(f(OFree := x # f OFree))(OFree := rev xs @ (f(OFree := x # f OFree)) OFree) = f(OFree := rev (x # xs) @ f OFree)"
    by simp
  note IH(2) [unfolded st this]
  moreover have "length ls = length (links c)" using IH(3) by simp
  ultimately show ?case by blast
qed

lemma owned_by_drop:
  assumes f: "owned_by c f" and r: "valid_rs c r" "i < length (rs_odep_list (rs_of c r))"
  shows "owned_by (upd_rs r (\<lambda>s. s\<lparr>rs_odep_list := (rs_odep_list s)[i := None]\<rparr>) c) (f(OOut r i := []))"
proof (rule owned_byI)
  note F = owned_byD [OF f]
  let ?c = "upd_rs r (\<lambda>s. s\<lparr>rs_odep_list := (rs_odep_list s)[i := None]\<rparr>) c"
  fix w show "chain (lnx ?c) (head_of ?c w) ((f(OOut r i := [])) w)"
    using F(1) [of w] unfolding head_of_upd_odep [OF r] by simp
  show "distinct ((f(OOut r i := [])) w)" using F(2) [of w] by simp
  show "x < length (links ?c)" if "x \<in> set ((f(OOut r i := [])) w)" for x
    using F(3) [of x w] that by (auto split: if_splits)
  show False if "w \<noteq> w'" "x \<in> set ((f(OOut r i := [])) w)" "x \<in> set ((f(OOut r i := [])) w')" for w' x
    using F(5) [OF that(1), of x] that(2,3) by (auto split: if_splits)
qed

lemma RSLINK_FREE_LIST_ok:
  assumes f: "owned_by c f" and r: "valid_rs c r" "i < length (rs_odep_list (rs_of c r))"
  shows "\<exists>ls q f'. RSLINK_FREE_LIST (rs_odep_list (rs_of c r) ! i) c = Inr (c\<lparr>links := ls, rslink_free_list := q\<rparr>)
    \<and> owned_by (upd_rs r (\<lambda>s. s\<lparr>rs_odep_list := (rs_odep_list s)[i := None]\<rparr>) (c\<lparr>links := ls, rslink_free_list := q\<rparr>)) f'
    \<and> released {OOut r i} (links c) f ls f'"
proof -
  note F = owned_byD [OF f]
  let ?xs = "f (OOut r i)" and ?g = "\<lambda>s. s\<lparr>rs_odep_list := (rs_odep_list s)[i := None]\<rparr>"
  have h: "rs_odep_list (rs_of c r) ! i = head_of c (OOut r i)" using r by simp
  have lone: "\<forall>x \<in> set ?xs. x < length (links c) \<and> (\<forall>w. x \<notin> set ((f(OOut r i := [])) w))"
    using F(3) [of _ "OOut r i"] F(5) [of "OOut r i"] by auto
  have len: "length ?xs < Suc (length (links c))" using F(4) [of "OOut r i"] by simp
  obtain ls q where ls: "free_list_loop (Suc (length (links c))) (head_of c (OOut r i)) c = Inr (c\<lparr>links := ls, rslink_free_list := q\<rparr>)"
    "owned_by (upd_rs r ?g (c\<lparr>links := ls, rslink_free_list := q\<rparr>))
       ((f(OOut r i := []))(OFree := rev ?xs @ (f(OOut r i := [])) OFree))"
    "length ls = length (links c)" "\<forall>l. ls ! l = links c ! l \<or> l \<in> set ?xs \<and> lk_rs (ls ! l) = None"
    using free_list_loop_ok [OF owned_by_drop [OF f r] F(1,2) lone len] by blast
  have "released {OOut r i} (links c) f ls ((f(OOut r i := []))(OFree := rev ?xs @ (f(OOut r i := [])) OFree))"
    using ls(3,4) by (auto simp: released_def)
  then show ?thesis using ls(1,2) unfolding RSLINK_FREE_LIST_def h by blast
qed

subsection \<open>Squashing one station\<close>

definition squashed :: "station \<Rightarrow> station" where
  "squashed s = s\<lparr>rs_odep_list := replicate MAX_ODEPS None, rs_tag := rs_tag s + 1\<rparr>"

definition outs :: "rsref \<Rightarrow> owner set" where
  "outs r = range (OOut r)"

lemma upd_rs_twice:
  "valid_rs c r \<Longrightarrow> upd_rs r g (upd_rs r h c) = upd_rs r (\<lambda>s. g (h s)) c"
  by (cases r) (simp_all add: upd_rs_def)

lemma upd_rs_links: "(upd_rs r g c)\<lparr>links := ls, rslink_free_list := q\<rparr> = upd_rs r g (c\<lparr>links := ls, rslink_free_list := q\<rparr>)"
  by (cases r) (simp_all add: upd_rs_def)

lemma free_odeps_ok:
  assumes "owned_by c f" "valid_rs c r" "\<forall>i \<in> set js. i < length (rs_odep_list (rs_of c r))"
  shows "\<exists>ls q f'. free_odeps js r c = Inr (upd_rs r (\<lambda>s. s\<lparr>rs_odep_list := fold (\<lambda>i xs. xs[i := None]) js (rs_odep_list s)\<rparr>)
         (c\<lparr>links := ls, rslink_free_list := q\<rparr>))
    \<and> owned_by (upd_rs r (\<lambda>s. s\<lparr>rs_odep_list := fold (\<lambda>i xs. xs[i := None]) js (rs_odep_list s)\<rparr>)
         (c\<lparr>links := ls, rslink_free_list := q\<rparr>)) f'
    \<and> released (OOut r ` set js) (links c) f ls f'"
  using assms
proof (induction js arbitrary: c f)
  case Nil
  have "upd_rs r (\<lambda>s. s) c = c" by (cases r) (simp_all add: upd_rs_def)
  then show ?case using Nil released_none [of "links c" f]
    by (intro exI [of _ "links c"] exI [of _ "rslink_free_list c"] exI [of _ f]) simp
next
  case (Cons i js)
  let ?g = "\<lambda>s. s\<lparr>rs_odep_list := (rs_odep_list s)[i := None]\<rparr>"
  let ?h = "\<lambda>s. s\<lparr>rs_odep_list := fold (\<lambda>i xs. xs[i := None]) js (rs_odep_list s)\<rparr>"
  obtain ls q f1 where fl: "RSLINK_FREE_LIST (rs_odep_list (rs_of c r) ! i) c = Inr (c\<lparr>links := ls, rslink_free_list := q\<rparr>)"
    "owned_by (upd_rs r ?g (c\<lparr>links := ls, rslink_free_list := q\<rparr>)) f1" "released {OOut r i} (links c) f ls f1"
    using RSLINK_FREE_LIST_ok [OF Cons.prems(1,2), of i] Cons.prems(3) by auto
  let ?c = "upd_rs r ?g (c\<lparr>links := ls, rslink_free_list := q\<rparr>)"
  have v: "valid_rs ?c r" "valid_rs (c\<lparr>links := ls', rslink_free_list := q'\<rparr>) r" for ls' q' using Cons.prems(2) by simp_all
  have "rs_of ?c r = ?g (rs_of c r)" using Cons.prems(2) by (simp add: rs_of_upd_rs)
  then have "\<forall>i \<in> set js. i < length (rs_odep_list (rs_of ?c r))" using Cons.prems(3) by simp
  from Cons.IH [OF fl(2) v(1) this]
  obtain ls' q' f' where IH: "free_odeps js r ?c = Inr (upd_rs r ?h (?c\<lparr>links := ls', rslink_free_list := q'\<rparr>))"
    "owned_by (upd_rs r ?h (?c\<lparr>links := ls', rslink_free_list := q'\<rparr>)) f'" "released (OOut r ` set js) (links ?c) f1 ls' f'"
    by blast
  have st: "upd_rs r ?h (?c\<lparr>links := ls', rslink_free_list := q'\<rparr>)
      = upd_rs r (\<lambda>s. s\<lparr>rs_odep_list := fold (\<lambda>i xs. xs[i := None]) (i # js) (rs_odep_list s)\<rparr>)
          (c\<lparr>links := ls', rslink_free_list := q'\<rparr>)"
    unfolding upd_rs_links upd_rs_twice [OF v(2)] by (simp add: upd_rs_twice Cons.prems(2))
  have "free_odeps (i # js) r c = free_odeps js r ?c" using fl(1) by simp
  moreover have "released (OOut r ` set (i # js)) (links c) f ls' f'"
    using released_trans [OF fl(3) IH(3) [simplified]] by simp
  ultimately show ?case using IH(1,2) unfolding st by auto
qed

lemma squash_ok:
  assumes f: "owned_by c f" and r: "valid_rs c r" "length (rs_odep_list (rs_of c r)) = MAX_ODEPS"
  shows "\<exists>ls q f'. squash r c = Inr (upd_rs r squashed (c\<lparr>links := ls, rslink_free_list := q\<rparr>))
    \<and> owned_by (upd_rs r squashed (c\<lparr>links := ls, rslink_free_list := q\<rparr>)) f' \<and> released (outs r) (links c) f ls f'"
proof -
  let ?g = "\<lambda>s. s\<lparr>rs_odep_list := fold (\<lambda>i xs. xs[i := None]) [0..<MAX_ODEPS] (rs_odep_list s)\<rparr>"
  obtain ls q f' where fo: "free_odeps [0..<MAX_ODEPS] r c = Inr (upd_rs r ?g (c\<lparr>links := ls, rslink_free_list := q\<rparr>))"
    "owned_by (upd_rs r ?g (c\<lparr>links := ls, rslink_free_list := q\<rparr>)) f'" "released (OOut r ` set [0..<MAX_ODEPS]) (links c) f ls f'"
    using free_odeps_ok [OF f r(1), of "[0..<MAX_ODEPS]"] r(2) by auto
  let ?c = "c\<lparr>links := ls, rslink_free_list := q\<rparr>"
  have v: "valid_rs ?c r" "rs_of ?c r = rs_of c r" using r(1) by simp_all
  obtain x y z where xyz: "rs_odep_list (rs_of c r) = [x, y, z]"
    using r(2) by (auto simp: MAX_ODEPS_def numeral_eq_Suc length_Suc_conv)
  have g: "?g (rs_of c r) = (rs_of c r)\<lparr>rs_odep_list := [None, None, None]\<rparr>" by (simp add: xyz MAX_ODEPS_def numeral_eq_Suc)
  have same: "upd_rs r h ?c = upd_rs r h' ?c" if "h (rs_of c r) = h' (rs_of c r)" for h h'
    using that by (cases r) (simp_all add: upd_rs_def rs_of_def)
  have st: "upd_rs r (\<lambda>s. s\<lparr>rs_tag := rs_tag s + 1\<rparr>) (upd_rs r ?g ?c) = upd_rs r squashed ?c"
    unfolding upd_rs_twice [OF v(1)] by (rule same) (simp add: g xyz squashed_def MAX_ODEPS_def numeral_eq_Suc)
  have "owned_by (upd_rs r squashed ?c) f'"
    unfolding st [symmetric] by (rule owned_by_upd_rs [OF fo(2)]) (use v in simp_all)
  moreover have "squash r c = Inr (upd_rs r squashed ?c)" using fo(1) st by (simp add: squash_def)
  moreover have none: "f (OOut r i) = []" if "i \<notin> set [0..<MAX_ODEPS]" for i
    using owned_byD(1) [OF f, of "OOut r i"] r(2) that by (cases "f (OOut r i)") auto
  have "released (outs r) (links c) f ls f'"
    by (rule released_extend [OF fo(3)]) (use none in \<open>auto simp: outs_def image_iff\<close>)
  ultimately show ?thesis by blast
qed

subsection \<open>The loop\<close>

definition ruu_pos :: "'z core_scheme \<Rightarrow> nat \<Rightarrow> nat" where
  "ruu_pos c j = (RUU_head c + j) mod length (RUU c)"

text \<open>Both queues as rings of stations with three output lists each.\<close>

definition rings_wf :: "'z core_scheme \<Rightarrow> bool" where
  "rings_wf c \<longleftrightarrow> RUU_num c \<le> length (RUU c) \<and> LSQ_num c \<le> length (LSQ c)
     \<and> 0 < length (RUU c) \<and> 0 < length (LSQ c)
     \<and> RUU_head c < length (RUU c) \<and> LSQ_head c < length (LSQ c)
     \<and> RUU_tail c = ruu_pos c (RUU_num c) \<and> LSQ_tail c = lsq_pos c (LSQ_num c)
     \<and> (\<forall>s \<in> set (RUU c) \<union> set (LSQ c). length (rs_odep_list s) = MAX_ODEPS)"

text \<open>How many of the operations at positions \<open>js\<close> of the RUU have an entry in the load/store queue,
  and the operations younger than position \<open>k\<close>.\<close>

definition mem_ops :: "'z core_scheme \<Rightarrow> nat list \<Rightarrow> nat" where
  "mem_ops c js = length (filter (\<lambda>j. rs_ea_comp (RUU c ! ruu_pos c j)) js)"

definition younger :: "'z core_scheme \<Rightarrow> nat \<Rightarrow> rsref set" where
  "younger c k = (\<lambda>j. InRUU (ruu_pos c j)) ` {Suc k..<RUU_num c}
     \<union> (\<lambda>j. InLSQ (lsq_pos c j)) ` {LSQ_num c - mem_ops c [Suc k..<RUU_num c]..<LSQ_num c}"

definition squash_all :: "rsref set \<Rightarrow> 'z core_scheme \<Rightarrow> 'z core_scheme" where
  "squash_all S c = c\<lparr>RUU := map (\<lambda>i. if InRUU i \<in> S then squashed (RUU c ! i) else RUU c ! i) [0..<length (RUU c)],
     LSQ := map (\<lambda>i. if InLSQ i \<in> S then squashed (LSQ c ! i) else LSQ c ! i) [0..<length (LSQ c)]\<rparr>"

lemma squash_all_none: "squash_all {} c = c"
  by (simp add: squash_all_def map_nth)

lemma squash_all_insert:
  assumes "valid_rs c r" "r \<notin> S"
  shows "squash_all S (upd_rs r squashed c) = squash_all (insert r S) c"
  using assms by (cases r) (auto simp: squash_all_def upd_rs_def nth_list_update)

lemma prev_slot_ring: "prev_slot n ((h + Suc j) mod n) = (h + j) mod n" if "0 < n" for n :: nat
proof -
  have "((h + Suc j) mod n + (n - 1)) mod n = (h + Suc j + (n - 1)) mod n" by (simp add: mod_add_left_eq)
  also have "h + Suc j + (n - 1) = h + j + n" using that by simp
  finally show ?thesis by (simp add: prev_slot_def)
qed

lemma ruu_pos_less: "0 < length (RUU c) \<Longrightarrow> ruu_pos c j < length (RUU c)"
  by (simp add: ruu_pos_def)

lemma ruu_pos_inj:
  assumes "ruu_pos c i = ruu_pos c j" "i < length (RUU c)" "j < length (RUU c)"
  shows "i = j"
  using ring_inj assms unfolding ruu_pos_def .

text \<open>A step of the loop keeps the shape of the rings and the memory operations.\<close>

definition same_rings :: "'z core_scheme \<Rightarrow> 'z core_scheme \<Rightarrow> bool" where
  "same_rings c c' \<longleftrightarrow> length (RUU c') = length (RUU c) \<and> length (LSQ c') = length (LSQ c)
     \<and> RUU_head c' = RUU_head c \<and> LSQ_head c' = LSQ_head c
     \<and> map rs_ea_comp (RUU c') = map rs_ea_comp (RUU c)
     \<and> (\<forall>s \<in> set (RUU c') \<union> set (LSQ c'). length (rs_odep_list s) = MAX_ODEPS)"

lemma same_rings_pos:
  assumes "same_rings c c'"
  shows "ruu_pos c' j = ruu_pos c j" "lsq_pos c' j = lsq_pos c j"
    "0 < length (RUU c) \<Longrightarrow> rs_ea_comp (RUU c' ! ruu_pos c j) = rs_ea_comp (RUU c ! ruu_pos c j)"
    "0 < length (RUU c) \<Longrightarrow> mem_ops c' js = mem_ops c js"
proof -
  show P: "ruu_pos c' j = ruu_pos c j" "lsq_pos c' j = lsq_pos c j" for j
    using assms by (simp_all add: same_rings_def ruu_pos_def lsq_pos_def)
  show E: "rs_ea_comp (RUU c' ! ruu_pos c j) = rs_ea_comp (RUU c ! ruu_pos c j)" if "0 < length (RUU c)" for j
    using assms ruu_pos_less [OF that, of j] unfolding same_rings_def by (metis nth_map)
  show "0 < length (RUU c) \<Longrightarrow> mem_ops c' js = mem_ops c js" by (simp add: mem_ops_def P E)
qed

lemma same_rings_squash_all:
  assumes "\<forall>s \<in> set (RUU c) \<union> set (LSQ c). length (rs_odep_list s) = MAX_ODEPS"
  shows "same_rings c ((squash_all S c)\<lparr>links := ls, rslink_free_list := q, LSQ_num := n\<rparr>)"
proof -
  have "map rs_ea_comp (RUU (squash_all S c)) = map rs_ea_comp (RUU c)"
    by (rule nth_equalityI) (auto simp: squash_all_def squashed_def)
  then show ?thesis using assms by (auto simp: same_rings_def squash_all_def squashed_def)
qed

lemma map_single: "map (\<lambda>i. if i = r then g (xs ! i) else xs ! i) [0..<length xs] = xs[r := g (xs ! r)]"
  by (cases "r < length xs"; rule nth_equalityI) (auto simp: nth_list_update)

lemma num_frame [simp]:
  "rs_of (c\<lparr>LSQ_num := n\<rparr>) r = rs_of c r" "valid_rs (c\<lparr>LSQ_num := n\<rparr>) r = valid_rs c r"
  "rs_of (c\<lparr>RUU_num := n\<rparr>) r = rs_of c r" "valid_rs (c\<lparr>RUU_num := n\<rparr>) r = valid_rs c r"
  "rs_of (c\<lparr>RUU_tail := n\<rparr>) r = rs_of c r" "valid_rs (c\<lparr>RUU_tail := n\<rparr>) r = valid_rs c r"
  "rs_of (c\<lparr>LSQ_tail := n\<rparr>) r = rs_of c r" "valid_rs (c\<lparr>LSQ_tail := n\<rparr>) r = valid_rs c r"
  "rs_of (c\<lparr>use_spec_cv := b\<rparr>) r = rs_of c r" "valid_rs (c\<lparr>use_spec_cv := b\<rparr>) r = valid_rs c r"
  by (cases r; simp add: rs_of_def)+

lemma owned_by_num [simp]:
  "owned_by (c\<lparr>LSQ_num := n\<rparr>) f = owned_by c f" "owned_by (c\<lparr>RUU_num := n\<rparr>) f = owned_by c f"
  "owned_by (c\<lparr>RUU_tail := n\<rparr>) f = owned_by c f" "owned_by (c\<lparr>LSQ_tail := n\<rparr>) f = owned_by c f"
  "owned_by (c\<lparr>use_spec_cv := b\<rparr>) f = owned_by c f"
proof -
  have "head_of (c\<lparr>LSQ_num := n\<rparr>) = head_of c" "head_of (c\<lparr>RUU_num := n\<rparr>) = head_of c"
    "head_of (c\<lparr>RUU_tail := n\<rparr>) = head_of c" "head_of (c\<lparr>LSQ_tail := n\<rparr>) = head_of c"
    "head_of (c\<lparr>use_spec_cv := b\<rparr>) = head_of c"
    by (rule ext, case_tac x; simp)+
  then show "owned_by (c\<lparr>LSQ_num := n\<rparr>) f = owned_by c f" "owned_by (c\<lparr>RUU_num := n\<rparr>) f = owned_by c f"
    "owned_by (c\<lparr>RUU_tail := n\<rparr>) f = owned_by c f" "owned_by (c\<lparr>LSQ_tail := n\<rparr>) f = owned_by c f"
    "owned_by (c\<lparr>use_spec_cv := b\<rparr>) f = owned_by c f" by (simp_all add: owned_by_def)
qed

text \<open>One operation: its entry in the load/store queue, if it has one, and its station.\<close>

definition squash_set :: "'z core_scheme \<Rightarrow> nat \<Rightarrow> nat \<Rightarrow> rsref set" where
  "squash_set c ri li = (if rs_ea_comp (RUU c ! ri) then {InLSQ li} else {}) \<union> {InRUU ri}"

lemma squash_step:
  assumes f: "owned_by c f" and v: "ri < length (RUU c)" "li < length (LSQ c)"
    and odeps: "\<forall>s \<in> set (RUU c) \<union> set (LSQ c). length (rs_odep_list s) = MAX_ODEPS"
    and num: "rs_ea_comp (RUU c ! ri) \<Longrightarrow> 0 < LSQ_num c"
    and ea: "ea = (if rs_ea_comp (RUU c ! ri) then 1 else 0)"
  shows "\<exists>ls q f' c1. squash_mem ri li lp c
      = Inr (c1, if rs_ea_comp (RUU c ! ri) then (prev_slot (length (LSQ c)) li, li) else (li, lp))
    \<and> squash (InRUU ri) c1 = Inr ((squash_all (squash_set c ri li) c)\<lparr>links := ls, rslink_free_list := q, LSQ_num := LSQ_num c - ea\<rparr>)
    \<and> owned_by ((squash_all (squash_set c ri li) c)\<lparr>links := ls, rslink_free_list := q, LSQ_num := LSQ_num c - ea\<rparr>) f'
    \<and> released (\<Union>r \<in> squash_set c ri li. outs r) (links c) f ls f'"
proof (cases "rs_ea_comp (RUU c ! ri)")
  case False
  have "valid_rs c (InRUU ri)" "length (rs_odep_list (rs_of c (InRUU ri))) = MAX_ODEPS"
    using v odeps by (simp_all add: rs_of_def)
  from squash_ok [OF f this] obtain ls q f' where sq:
    "squash (InRUU ri) c = Inr (upd_rs (InRUU ri) squashed (c\<lparr>links := ls, rslink_free_list := q\<rparr>))"
    "owned_by (upd_rs (InRUU ri) squashed (c\<lparr>links := ls, rslink_free_list := q\<rparr>)) f'" "released (outs (InRUU ri)) (links c) f ls f'"
    by blast
  have S: "squash_set c ri li = {InRUU ri}" using False by (simp add: squash_set_def)
  have st: "(squash_all (squash_set c ri li) c)\<lparr>links := ls, rslink_free_list := q, LSQ_num := LSQ_num c - ea\<rparr>
      = upd_rs (InRUU ri) squashed (c\<lparr>links := ls, rslink_free_list := q\<rparr>)"
    using False ea by (simp add: S upd_rs_def squash_all_def map_single map_nth)
  show ?thesis using sq(1,2) [folded st] sq(3) False
    by (intro exI [of _ ls] exI [of _ q] exI [of _ f'] exI [of _ c]) (simp add: squash_mem_def S)
next
  case True
  have "valid_rs c (InLSQ li)" "length (rs_odep_list (rs_of c (InLSQ li))) = MAX_ODEPS"
    using v odeps by (simp_all add: rs_of_def)
  from squash_ok [OF f this] obtain ls1 q1 f1 where sq1:
    "squash (InLSQ li) c = Inr (upd_rs (InLSQ li) squashed (c\<lparr>links := ls1, rslink_free_list := q1\<rparr>))"
    "owned_by (upd_rs (InLSQ li) squashed (c\<lparr>links := ls1, rslink_free_list := q1\<rparr>)) f1"
    "released (outs (InLSQ li)) (links c) f ls1 f1"
    by blast
  let ?c0 = "upd_rs (InLSQ li) squashed (c\<lparr>links := ls1, rslink_free_list := q1\<rparr>)"
  let ?c1 = "?c0\<lparr>LSQ_num := LSQ_num ?c0 - 1\<rparr>"
  have f1: "owned_by ?c1 f1" using sq1(2) by simp
  have "valid_rs ?c1 (InRUU ri)" "length (rs_odep_list (rs_of ?c1 (InRUU ri))) = MAX_ODEPS"
    using v odeps by (simp_all add: rs_of_def upd_rs_def)
  from squash_ok [OF f1 this] obtain ls q f' where sq:
    "squash (InRUU ri) ?c1 = Inr (upd_rs (InRUU ri) squashed (?c1\<lparr>links := ls, rslink_free_list := q\<rparr>))"
    "owned_by (upd_rs (InRUU ri) squashed (?c1\<lparr>links := ls, rslink_free_list := q\<rparr>)) f'" "released (outs (InRUU ri)) (links ?c1) f1 ls f'"
    by blast
  have S: "squash_set c ri li = {InLSQ li, InRUU ri}" using True by (simp add: squash_set_def insert_commute)
  have st: "upd_rs (InRUU ri) squashed (?c1\<lparr>links := ls, rslink_free_list := q\<rparr>)
      = (squash_all (squash_set c ri li) c)\<lparr>links := ls, rslink_free_list := q, LSQ_num := LSQ_num c - ea\<rparr>"
    using True ea by (simp add: S upd_rs_def squash_all_def map_single)
  have "length (LSQ ?c1) = length (LSQ c)" by (simp add: upd_rs_def)
  then have "squash_mem ri li lp c = Inr (?c1, prev_slot (length (LSQ c)) li, li)"
    using True num sq1(1) by (simp add: squash_mem_def)
  moreover have "released (\<Union>r \<in> squash_set c ri li. outs r) (links c) f ls f'"
    using released_trans [OF sq1(3), of "outs (InRUU ri)" ls f'] sq(3) by (simp add: S upd_rs_def)
  ultimately show ?thesis using sq(1,2) unfolding st if_P [OF True] by blast
qed

lemma squash_all_union:
  assumes "S \<inter> T = {}"
  shows "squash_all T (squash_all S c) = squash_all (S \<union> T) c"
proof -
  have "r \<in> S \<Longrightarrow> r \<notin> T" for r using assms by auto
  then show ?thesis by (auto simp: squash_all_def)
qed

lemma squash_all_frame:
  "squash_all S (c\<lparr>links := ls, rslink_free_list := q, LSQ_num := n, RUU_num := m\<rparr>)
    = (squash_all S c)\<lparr>links := ls, rslink_free_list := q, LSQ_num := n, RUU_num := m\<rparr>"
  by (simp add: squash_all_def)

text \<open>The operations younger than \<open>k\<close> are the last one and the others.\<close>

lemma younger_last:
  assumes wf: "RUU_num c \<le> length (RUU c)" "LSQ_num c \<le> length (LSQ c)" "0 < length (LSQ c)"
    and k: "Suc k < RUU_num c" "mem_ops c [Suc k..<RUU_num c] \<le> LSQ_num c"
    and ri: "ri = ruu_pos c (RUU_num c - 1)" and ea: "ea = (if rs_ea_comp (RUU c ! ri) then 1 else 0)"
    and li': "rs_ea_comp (RUU c ! ri) \<longrightarrow> li = lsq_pos c (LSQ_num c - 1)"
    and c': "same_rings c c'" "RUU_num c' = RUU_num c - 1" "LSQ_num c' = LSQ_num c - ea"
  shows "mem_ops c [Suc k..<RUU_num c] = mem_ops c' [Suc k..<RUU_num c'] + ea"
    "younger c k = squash_set c ri li \<union> younger c' k" "squash_set c ri li \<inter> younger c' k = {}"
proof -
  have li: "li = lsq_pos c (LSQ_num c - 1)" if "rs_ea_comp (RUU c ! ri)" using li' that by simp
  let ?n = "RUU_num c - 1" and ?L = "LSQ_num c" and ?m = "mem_ops c [Suc k..<RUU_num c - 1]"
  have N: "0 < length (RUU c)" using wf(1) k(1) by linarith
  have n: "[Suc k..<RUU_num c] = [Suc k..<?n] @ [?n]" using k(1) by (cases "RUU_num c") auto
  note pos = same_rings_pos [OF c'(1)]
  have m': "mem_ops c' [Suc k..<RUU_num c'] = ?m" using pos(4) [OF N] c'(2) by simp
  show m: "mem_ops c [Suc k..<RUU_num c] = mem_ops c' [Suc k..<RUU_num c'] + ea"
    unfolding m' n by (simp add: mem_ops_def ri ea)
  have le: "?m + ea \<le> ?L" using k(2) unfolding m m' .
  have y': "younger c' k = (\<lambda>j. InRUU (ruu_pos c j)) ` {Suc k..<?n} \<union> (\<lambda>j. InLSQ (lsq_pos c j)) ` {?L - ea - ?m..<?L - ea}"
    by (simp add: younger_def pos(1,2) m' c'(2,3) pos(4) [OF N])
  have y: "younger c k = (\<lambda>j. InRUU (ruu_pos c j)) ` {Suc k..<RUU_num c} \<union> (\<lambda>j. InLSQ (lsq_pos c j)) ` {?L - (?m + ea)..<?L}"
    unfolding younger_def m m' ..
  have R: "{Suc k..<RUU_num c} = insert ?n {Suc k..<?n}" using k(1) by auto
  have Q: "{?L - (?m + ea)..<?L} = (if ea = 1 then insert (?L - 1) {?L - ea - ?m..<?L - ea} else {?L - ea - ?m..<?L - ea})"
    using le ea by auto
  show "younger c k = squash_set c ri li \<union> younger c' k"
    unfolding y y' R Q squash_set_def using ea li by (auto simp: ri)
  have rn: "ruu_pos c ?n \<noteq> ruu_pos c j" if "j < ?n" for j
  proof -
    have "?n < length (RUU c)" "j < length (RUU c)" using that wf(1) k(1) by linarith+
    then show ?thesis using ruu_pos_inj [of c ?n j] that by auto
  qed
  have r: "InRUU ri \<notin> (\<lambda>j. InRUU (ruu_pos c j)) ` {Suc k..<?n}"
  proof
    assume "InRUU ri \<in> (\<lambda>j. InRUU (ruu_pos c j)) ` {Suc k..<?n}"
    then obtain j where "j < ?n" "ri = ruu_pos c j" by auto
    with rn [of j] show False unfolding ri by blast
  qed
  have qn: "lsq_pos c (?L - 1) \<noteq> lsq_pos c j" if "j < ?L - 1" for j
  proof -
    have "?L - 1 < length (LSQ c)" "j < length (LSQ c)" using that wf(2) by linarith+
    then show ?thesis using lsq_pos_inj [of c "?L - 1" j] that by auto
  qed
  have q: "InLSQ li \<notin> (\<lambda>j. InLSQ (lsq_pos c j)) ` {?L - ea - ?m..<?L - ea}" if e: "rs_ea_comp (RUU c ! ri)"
  proof
    assume "InLSQ li \<in> (\<lambda>j. InLSQ (lsq_pos c j)) ` {?L - ea - ?m..<?L - ea}"
    then obtain j where "j < ?L - 1" "li = lsq_pos c j" using e by (auto simp: ea)
    with qn [of j] show False unfolding li [OF e] by blast
  qed
  show "squash_set c ri li \<inter> younger c' k = {}"
    unfolding y' squash_set_def using r q by auto
qed

lemma recover_loop_ok:
  assumes "owned_by c f" "\<forall>s \<in> set (RUU c) \<union> set (LSQ c). length (rs_odep_list s) = MAX_ODEPS"
    and "RUU_num c \<le> length (RUU c)" "LSQ_num c \<le> length (LSQ c)" "0 < length (LSQ c)" "RUU_head c < length (RUU c)"
    and "k < RUU_num c" "mem_ops c [Suc k..<RUU_num c] \<le> LSQ_num c" "RUU_num c - Suc k < fuel"
  shows "\<exists>ls q f'. recover_loop fuel (ruu_pos c k) (ruu_pos c (RUU_num c - 1))
        (prev_slot (length (LSQ c)) (lsq_pos c (LSQ_num c))) (ruu_pos c (RUU_num c)) (lsq_pos c (LSQ_num c)) c
      = Inr ((squash_all (younger c k) c)\<lparr>links := ls, rslink_free_list := q,
          LSQ_num := LSQ_num c - mem_ops c [Suc k..<RUU_num c], RUU_num := Suc k,
          RUU_tail := ruu_pos c (Suc k), LSQ_tail := lsq_pos c (LSQ_num c - mem_ops c [Suc k..<RUU_num c])\<rparr>)
    \<and> owned_by ((squash_all (younger c k) c)\<lparr>links := ls, rslink_free_list := q\<rparr>) f'
    \<and> released (\<Union>r \<in> younger c k. outs r) (links c) f ls f'"
  using assms
proof (induction fuel arbitrary: c f)
  case 0
  then show ?case by simp
next
  case (Suc fuel)
  note f = Suc.prems(1) and odeps = Suc.prems(2) and wf = Suc.prems(3-6) and k = Suc.prems(7,8)
  let ?N = "length (RUU c)" and ?M = "length (LSQ c)"
  have N: "0 < ?N" using wf(4) by linarith
  show ?case
  proof (cases "RUU_num c = Suc k")
    case True
    have y: "younger c k = {}" "mem_ops c [Suc k..<RUU_num c] = 0" by (simp_all add: younger_def mem_ops_def True)
    have "c\<lparr>links := links c, rslink_free_list := rslink_free_list c, LSQ_num := LSQ_num c, RUU_num := Suc k,
        RUU_tail := u, LSQ_tail := v\<rparr> = c\<lparr>RUU_tail := u, LSQ_tail := v\<rparr>" for u v
      using True by (cases c) simp
    then show ?thesis unfolding y squash_all_none True
      by (intro exI [of _ "links c"] exI [of _ "rslink_free_list c"] exI [of _ f])
        (use f in \<open>simp add: mem_ops_def released_none\<close>)
  next
    case False
    then have k1: "Suc k < RUU_num c" using k(1) by simp
    define ri where "ri = ruu_pos c (RUU_num c - 1)"
    define li where "li = prev_slot ?M (lsq_pos c (LSQ_num c))"
    define ea :: nat where "ea = (if rs_ea_comp (RUU c ! ri) then 1 else 0)"
    have v: "ri < ?N" "li < ?M" using N wf(3) by (simp_all add: ri_def ruu_pos_less li_def prev_slot_def)
    have "mem_ops c [Suc k..<RUU_num c] = mem_ops c [Suc k..<RUU_num c - 1] + ea"
    proof -
      have "[Suc k..<RUU_num c] = [Suc k..<RUU_num c - 1] @ [RUU_num c - 1]" using k1 by (cases "RUU_num c") auto
      then show ?thesis by (simp add: mem_ops_def ri_def ea_def)
    qed
    then have eaL: "ea \<le> LSQ_num c" using k(2) by simp
    then have num: "rs_ea_comp (RUU c ! ri) \<Longrightarrow> 0 < LSQ_num c" by (simp add: ea_def)
    have li: "li = lsq_pos c (LSQ_num c - 1)" if "rs_ea_comp (RUU c ! ri)"
      using prev_slot_ring [OF wf(3), of "LSQ_head c" "LSQ_num c - 1"] num [OF that] by (simp add: li_def lsq_pos_def)
    have limp: "rs_ea_comp (RUU c ! ri) \<longrightarrow> li = lsq_pos c (LSQ_num c - 1)" using li by blast
    let ?S = "squash_set c ri li"
    obtain ls q f1 c1 where st: "squash_mem ri li (lsq_pos c (LSQ_num c)) c
        = Inr (c1, if rs_ea_comp (RUU c ! ri) then (prev_slot ?M li, li) else (li, lsq_pos c (LSQ_num c)))"
      "squash (InRUU ri) c1 = Inr ((squash_all ?S c)\<lparr>links := ls, rslink_free_list := q, LSQ_num := LSQ_num c - ea\<rparr>)"
      "owned_by ((squash_all ?S c)\<lparr>links := ls, rslink_free_list := q, LSQ_num := LSQ_num c - ea\<rparr>) f1"
      "released (\<Union>r \<in> ?S. outs r) (links c) f ls f1"
      using squash_step [OF f v odeps num ea_def, of "lsq_pos c (LSQ_num c)"] by blast
    let ?c2 = "(squash_all ?S c)\<lparr>links := ls, rslink_free_list := q, LSQ_num := LSQ_num c - ea\<rparr>"
    let ?c3 = "?c2\<lparr>RUU_num := RUU_num c - 1\<rparr>"
    have sr: "same_rings c ?c3" using same_rings_squash_all [OF odeps, where S = ?S and ls = ls and q = q and n = "LSQ_num c - ea"]
      by (simp add: same_rings_def)
    note pos = same_rings_pos [OF sr]
    have RR: "RUU_num ?c3 = RUU_num c - 1" "LSQ_num ?c3 = LSQ_num c - ea" by simp_all
    note y = younger_last [OF wf(1-3) k1 k(2) ri_def ea_def limp sr RR]
    have len: "length (RUU ?c3) = ?N" "length (LSQ ?c3) = ?M" "RUU_head ?c3 = RUU_head c" "links ?c3 = ls"
      using sr by (simp_all add: same_rings_def)
    have ne: "ri \<noteq> ruu_pos c k" "ri \<noteq> RUU_head c"
    proof -
      have l: "RUU_num c - 1 < ?N" "k < ?N" "RUU_num c - 1 \<noteq> k" "RUU_num c - 1 \<noteq> 0" using wf(1) k1 by linarith+
      have "RUU_head c = ruu_pos c 0" using wf(4) by (simp add: ruu_pos_def)
      then show "ri \<noteq> ruu_pos c k" "ri \<noteq> RUU_head c"
        unfolding ri_def using ruu_pos_inj [of c "RUU_num c - 1"] l N by metis+
    qed
    have ri': "prev_slot ?N ri = ruu_pos c (RUU_num c - 1 - 1)"
      using prev_slot_ring [OF N, of "RUU_head c" "RUU_num c - 1 - 1"] k1 by (simp add: ri_def ruu_pos_def Suc_diff_Suc)
    have li': "(if rs_ea_comp (RUU c ! ri) then (prev_slot ?M li, li) else (li, lsq_pos c (LSQ_num c)))
        = (prev_slot ?M (lsq_pos c (LSQ_num c - ea)), lsq_pos c (LSQ_num c - ea))"
    proof (cases "rs_ea_comp (RUU c ! ri)")
      case True
      then show ?thesis unfolding li [OF True] by (simp add: ea_def)
    qed (simp add: ea_def li_def)
    have go: "recover_loop (Suc fuel) (ruu_pos c k) ri li (ruu_pos c (RUU_num c)) (lsq_pos c (LSQ_num c)) c
        = recover_loop fuel (ruu_pos c k) (ruu_pos c (RUU_num c - 1 - 1)) (prev_slot ?M (lsq_pos c (LSQ_num c - ea)))
            ri (lsq_pos c (LSQ_num c - ea)) ?c3"
    proof -
      have "length (RUU ?c2) = ?N" "RUU_num ?c2 = RUU_num c" by (simp_all add: squash_all_def)
      then show ?thesis using st(1,2) ne k1 ri' unfolding li' by simp
    qed
    have f3: "owned_by ?c3 f1" using st(3) by simp
    have o3: "\<forall>s \<in> set (RUU ?c3) \<union> set (LSQ ?c3). length (rs_odep_list s) = MAX_ODEPS"
      using sr by (simp add: same_rings_def)
    have IH: "\<exists>ls q f'. recover_loop fuel (ruu_pos ?c3 k) (ruu_pos ?c3 (RUU_num ?c3 - 1))
        (prev_slot (length (LSQ ?c3)) (lsq_pos ?c3 (LSQ_num ?c3))) (ruu_pos ?c3 (RUU_num ?c3)) (lsq_pos ?c3 (LSQ_num ?c3)) ?c3
      = Inr ((squash_all (younger ?c3 k) ?c3)\<lparr>links := ls, rslink_free_list := q,
          LSQ_num := LSQ_num ?c3 - mem_ops ?c3 [Suc k..<RUU_num ?c3], RUU_num := Suc k,
          RUU_tail := ruu_pos ?c3 (Suc k), LSQ_tail := lsq_pos ?c3 (LSQ_num ?c3 - mem_ops ?c3 [Suc k..<RUU_num ?c3])\<rparr>)
      \<and> owned_by ((squash_all (younger ?c3 k) ?c3)\<lparr>links := ls, rslink_free_list := q\<rparr>) f'
      \<and> released (\<Union>r \<in> younger ?c3 k. outs r) (links ?c3) f1 ls f'"
    proof (rule Suc.IH [OF f3 o3])
      show "RUU_num ?c3 \<le> length (RUU ?c3)" using wf(1) len(1) unfolding RR by linarith
      show "LSQ_num ?c3 \<le> length (LSQ ?c3)" using wf(2) len(2) unfolding RR by linarith
      show "0 < length (LSQ ?c3)" using wf(3) len(2) by linarith
      show "RUU_head ?c3 < length (RUU ?c3)" using wf(4) len(1,3) by linarith
      show "k < RUU_num ?c3" using k1 unfolding RR by linarith
      show "mem_ops ?c3 [Suc k..<RUU_num ?c3] \<le> LSQ_num ?c3" using k(2) y(1) unfolding RR by linarith
      show "RUU_num ?c3 - Suc k < fuel" using Suc.prems(9) k1 unfolding RR by linarith
    qed
    obtain ls' q' f' where r: "recover_loop fuel (ruu_pos ?c3 k) (ruu_pos ?c3 (RUU_num ?c3 - 1))
        (prev_slot (length (LSQ ?c3)) (lsq_pos ?c3 (LSQ_num ?c3))) (ruu_pos ?c3 (RUU_num ?c3)) (lsq_pos ?c3 (LSQ_num ?c3)) ?c3
      = Inr ((squash_all (younger ?c3 k) ?c3)\<lparr>links := ls', rslink_free_list := q',
          LSQ_num := LSQ_num ?c3 - mem_ops ?c3 [Suc k..<RUU_num ?c3], RUU_num := Suc k,
          RUU_tail := ruu_pos ?c3 (Suc k), LSQ_tail := lsq_pos ?c3 (LSQ_num ?c3 - mem_ops ?c3 [Suc k..<RUU_num ?c3])\<rparr>)"
      "owned_by ((squash_all (younger ?c3 k) ?c3)\<lparr>links := ls', rslink_free_list := q'\<rparr>) f'"
      "released (\<Union>r \<in> younger ?c3 k. outs r) (links ?c3) f1 ls' f'"
      using IH by blast
    have sq: "squash_all (younger ?c3 k) ?c3
        = (squash_all (younger c k) c)\<lparr>links := ls, rslink_free_list := q, LSQ_num := LSQ_num c - ea, RUU_num := RUU_num c - 1\<rparr>"
      by (simp only: squash_all_frame squash_all_union [OF y(3)] y(2))
    have L: "LSQ_num c - ea - mem_ops ?c3 [Suc k..<RUU_num c - 1] = LSQ_num c - mem_ops c [Suc k..<RUU_num c]"
      using y(1) unfolding RR by (simp add: add.commute)
    have "recover_loop (Suc fuel) (ruu_pos c k) ri li (ruu_pos c (RUU_num c)) (lsq_pos c (LSQ_num c)) c
        = Inr ((squash_all (younger c k) c)\<lparr>links := ls', rslink_free_list := q',
          LSQ_num := LSQ_num c - mem_ops c [Suc k..<RUU_num c], RUU_num := Suc k,
          RUU_tail := ruu_pos c (Suc k), LSQ_tail := lsq_pos c (LSQ_num c - mem_ops c [Suc k..<RUU_num c])\<rparr>)"
      unfolding go using r(1) unfolding RR pos(1,2) len(2) sq L by (simp add: ri_def)
    moreover have "owned_by ((squash_all (younger c k) c)\<lparr>links := ls', rslink_free_list := q'\<rparr>) f'"
    proof -
      have "d\<lparr>links := ls, rslink_free_list := q, LSQ_num := LSQ_num c - ea, RUU_num := RUU_num c - 1,
          links := ls', rslink_free_list := q'\<rparr>
        = d\<lparr>links := ls', rslink_free_list := q', LSQ_num := LSQ_num c - ea, RUU_num := RUU_num c - 1\<rparr>" for d :: "'a core_scheme"
        by simp
      from r(2) [unfolded sq this] show ?thesis by simp
    qed
    moreover have "released (\<Union>r \<in> younger c k. outs r) (links c) f ls' f'"
    proof -
      have "(\<Union>r \<in> younger c k. outs r) = (\<Union>r \<in> ?S. outs r) \<union> (\<Union>r \<in> younger ?c3 k. outs r)"
        by (subst y(2)) (rule UN_Un)
      then show ?thesis using released_trans [OF st(4) r(3) [unfolded len(4)]] by (rule ssubst)
    qed
    ultimately show ?thesis unfolding ri_def li_def by blast
  qed
qed

end
