(* ===== verification/SchedProps.thy ===== *)
theory SchedProps
  imports LsqCorrect
begin

text \<open>
  The properties of the scheduler's queues and dependence links, each over the list of entries
  a queue holds, with the states of a small machine as witnesses.
\<close>

subsection \<open>A small machine\<close>

definition blank_core :: core where
  "blank_core = \<lparr>RUU = [], RUU_head = 0, RUU_tail = 0, RUU_num = 0, LSQ = [], LSQ_head = 0, LSQ_tail = 0, LSQ_num = 0,
     links = [], rslink_free_list = None, event_queue = None, ready_queue = None, use_spec_cv = replicate 3 0,
     create_vector = [], spec_create_vector = [], create_vector_rt = [], spec_create_vector_rt = [],
     sim_cycle = 0, spec_mode = False\<rparr>"

definition small_core :: core where
  "small_core = rslink_init 4 (readyq_init (eventq_init (cv_init (lsq_init 2 (ruu_init 2 blank_core)))))"

lemma small_core_no_queues: "no_queues (readyq_init (eventq_init (cv_init (lsq_init 2 (ruu_init 2 blank_core)))))"
  by (simp add: no_queues_def no_outs_def readyq_init_def eventq_init_def cv_init_def lsq_init_def ruu_init_def blank_core_def
    zero_station_def)

lemma small_core_wf: "links_wf small_core" "owned small_core = (\<lambda>w. if w = OFree then [3, 2, 1, 0] else [])"
proof -
  have "rev [0..<4] = [3, 2, 1, 0 :: nat]" by code_simp
  then show "links_wf small_core" "owned small_core = (\<lambda>w. if w = OFree then [3, 2, 1, 0] else [])"
    using links_wfI [OF rslink_init_ok [OF small_core_no_queues, of 4]] unfolding small_core_def by metis+
qed

lemma small_core_state:
  "rs_of small_core (InRUU 0) = zero_station" "valid_rs small_core (InRUU 0)" "sim_cycle small_core = 0"
  by code_simp+

subsection \<open>The pool\<close>

text \<open>The pool of links starts with every link free exactly once, in the order the allocation
  loop leaves, and no queue holds a link.\<close>

theorem rslink_init_free:
  assumes "no_queues c"
  shows "links_wf (rslink_init n c)" and "owned (rslink_init n c) OFree = rev [0..<n]"
    and "w \<noteq> OFree \<Longrightarrow> owned (rslink_init n c) w = []" and "length (links (rslink_init n c)) = n"
proof -
  have f: "owned_by (rslink_init n c) (\<lambda>w. if w = OFree then rev [0..<n] else [])"
    by (rule rslink_init_ok [OF assms])
  show "links_wf (rslink_init n c)" "owned (rslink_init n c) OFree = rev [0..<n]"
    "w \<noteq> OFree \<Longrightarrow> owned (rslink_init n c) w = []" using links_wfI [OF f] by simp_all
  show "length (links (rslink_init n c)) = n"
    using rslink_push_state [of "c\<lparr>rslink_free_list := None\<rparr>" n] assms
    by (simp add: rslink_init_def no_queues_def)
qed

theorem rslink_init_free_witness:
  "links_wf small_core \<and> owned small_core OFree = rev [0..<4] \<and> owned small_core OEvents = []"
  using rslink_init_free(1,2) [OF small_core_no_queues, of 4] rslink_init_free(3) [OF small_core_no_queues, of OEvents 4]
  by (simp add: small_core_def)

subsection \<open>The event queue\<close>

lemma eventq_queue_event_insert_cases:
  assumes wf: "links_wf c"
  shows "rs_completed (rs_of c rs) \<Longrightarrow> eventq_queue_event rs when c = Inl (Panic ''event completed'')"
    and "\<not> rs_completed (rs_of c rs) \<Longrightarrow> when \<le>s sim_cycle c
      \<Longrightarrow> eventq_queue_event rs when c = Inl (Panic ''event occurred in the past'')"
    and "\<not> rs_completed (rs_of c rs) \<Longrightarrow> \<not> when \<le>s sim_cycle c \<Longrightarrow> owned c OFree = []
      \<Longrightarrow> eventq_queue_event rs when c = Inl (Panic ''out of rs links'')"
    and "\<not> rs_completed (rs_of c rs) \<Longrightarrow> \<not> when \<le>s sim_cycle c \<Longrightarrow> owned c OFree \<noteq> []
      \<Longrightarrow> \<exists>c'. eventq_queue_event rs when c = Inr c' \<and> links_wf c'
        \<and> events c' = insert_before (\<lambda>e. fst e <s when) (when, Some rs, rs_tag (rs_of c rs)) (events c)
        \<and> (sorted_wrt (\<lambda>e e'. fst e \<le>s fst e') (events c) \<longrightarrow> sorted_wrt (\<lambda>e e'. fst e \<le>s fst e') (events c'))
        \<and> owned c' OFree = tl (owned c OFree) \<and> same_lists {OFree, OEvents} c c'"
proof -
  have f: "owned_by c (owned c)" using wf by (simp add: links_wf_def)
  show "rs_completed (rs_of c rs) \<Longrightarrow> eventq_queue_event rs when c = Inl (Panic ''event completed'')"
    "\<not> rs_completed (rs_of c rs) \<Longrightarrow> when \<le>s sim_cycle c
      \<Longrightarrow> eventq_queue_event rs when c = Inl (Panic ''event occurred in the past'')"
    "\<not> rs_completed (rs_of c rs) \<Longrightarrow> \<not> when \<le>s sim_cycle c \<Longrightarrow> owned c OFree = []
      \<Longrightarrow> eventq_queue_event rs when c = Inl (Panic ''out of rs links'')"
    using RSLINK_NEW_none [OF f] by (simp_all add: eventq_queue_event_def)
  assume ok: "\<not> rs_completed (rs_of c rs)" "\<not> when \<le>s sim_cycle c" "owned c OFree \<noteq> []"
  then obtain n xs where n: "owned c OFree = n # xs" by (cases "owned c OFree") auto
  obtain p h ls where c': "eventq_queue_event rs when c = Inr (c\<lparr>rslink_free_list := p, links := ls, event_queue := h\<rparr>)"
    "length ls = length (links c)"
    "owned_by (c\<lparr>rslink_free_list := p, links := ls, event_queue := h\<rparr>)
       ((owned c)(OFree := xs, OEvents := insert_before (\<lambda>l. lk_when (links c ! l) <s when) n (owned c OEvents)))"
    "\<And>l. payload (ls ! l) = (if l = n then payload ((links c ! n)\<lparr>lk_rs := Some rs, lk_tag := rs_tag (rs_of c rs), lk_when := when\<rparr>)
       else payload (links c ! l))"
    by (rule eventq_queue_event_ok [OF f n ok(1,2)]) (simp add: insert_before_def)
  let ?c = "c\<lparr>rslink_free_list := p, links := ls, event_queue := h\<rparr>"
  have pl: "payload (links ?c ! l) = payload (links c ! l)" if "l \<noteq> n" for l using c'(4) [of l] that by simp
  have new: "event_of ?c n = (when, Some rs, rs_tag (rs_of c rs))"
    using payload_eqD [OF c'(4) [of n, simplified if_P refl]] by (simp add: event_of_def)
  note put = queue_put [OF wf n _ c'(3), where g = event_of and stay' = "\<lambda>e. fst e <s when"]
  have evs: "events ?c = insert_before (\<lambda>e. fst e <s when) (when, Some rs, rs_tag (rs_of c rs)) (events c)"
    unfolding events_def new [symmetric] by (rule put(4)) (simp, erule pl, erule entry_of_payload(1), simp add: event_of_def)
  moreover have "sorted_wrt (\<lambda>e e'. fst e \<le>s fst e') (events c) \<longrightarrow> sorted_wrt (\<lambda>e e'. fst e \<le>s fst e') (events ?c)"
    unfolding evs by (intro impI insert_before_sorted) (auto simp: word_sless_alt word_sle_eq)
  moreover have "links_wf ?c" "owned ?c OFree = tl (owned c OFree)" "same_lists {OFree, OEvents} c ?c"
    by (rule put, simp, erule pl, erule entry_of_payload(1), simp add: event_of_def)+
  ultimately show "\<exists>c'. eventq_queue_event rs when c = Inr c' \<and> links_wf c'
      \<and> events c' = insert_before (\<lambda>e. fst e <s when) (when, Some rs, rs_tag (rs_of c rs)) (events c)
      \<and> (sorted_wrt (\<lambda>e e'. fst e \<le>s fst e') (events c) \<longrightarrow> sorted_wrt (\<lambda>e e'. fst e \<le>s fst e') (events c'))
      \<and> owned c' OFree = tl (owned c OFree) \<and> same_lists {OFree, OEvents} c c'"
    using c'(1) by auto
qed

text \<open>C27: Queueing the completion of an operation puts it into the event queue behind all earlier
  completions and before every completion at the same or a later cycle; the queue stays sorted, the
  link comes from the free list and no other list changes. It fails exactly when the operation is
  already complete, when the cycle is not in the future, or when no link is free.\<close>

theorem eventq_queue_event_insert:
  assumes wf: "links_wf c"
  shows "(rs_completed (rs_of c rs) \<longrightarrow>
      eventq_queue_event rs when c = Inl (Panic ''event completed''))
    \<and> (\<not> rs_completed (rs_of c rs) \<and> when \<le>s sim_cycle c \<longrightarrow>
      eventq_queue_event rs when c = Inl (Panic ''event occurred in the past''))
    \<and> (\<not> rs_completed (rs_of c rs) \<and> \<not> when \<le>s sim_cycle c \<and> owned c OFree = [] \<longrightarrow>
      eventq_queue_event rs when c = Inl (Panic ''out of rs links''))
    \<and> (\<not> rs_completed (rs_of c rs) \<and> \<not> when \<le>s sim_cycle c \<and> owned c OFree \<noteq> [] \<longrightarrow>
      (\<exists>c'. eventq_queue_event rs when c = Inr c' \<and> links_wf c'
          \<and> events c' = insert_before (\<lambda>e. fst e <s when) (when, Some rs, rs_tag (rs_of c rs)) (events c)
          \<and> (sorted_wrt (\<lambda>e e'. fst e \<le>s fst e') (events c) \<longrightarrow> sorted_wrt (\<lambda>e e'. fst e \<le>s fst e') (events c'))
          \<and> owned c' OFree = tl (owned c OFree) \<and> same_lists {OFree, OEvents} c c'))"
  by (intro conjI impI; (elim conjE)?; (rule eventq_queue_event_insert_cases [OF assms]; assumption))

theorem eventq_queue_event_insert_witness:
  "\<exists>c'. eventq_queue_event (InRUU 0) 5 small_core = Inr c' \<and> events c' = [(5, Some (InRUU 0), 0)]"
proof -
  have "events small_core = []" by (simp add: events_def small_core_wf)
  moreover have "\<not> (5 :: 64 word) \<le>s 0" by code_simp
  ultimately show ?thesis
    using eventq_queue_event_insert [OF small_core_wf(1), of "InRUU 0" 5]
    by (auto simp: small_core_wf small_core_state zero_station_def insert_before_def)
qed

text \<open>The abstract event queue: drop the entries of squashed operations that are due and take the
  first one that is still wanted.\<close>

fun pop_event :: "64 word \<Rightarrow> ('a \<times> 'b \<Rightarrow> bool) \<Rightarrow> (64 word \<times> 'a option \<times> 'b) list
    \<Rightarrow> 'a option \<times> (64 word \<times> 'a option \<times> 'b) list" where
  "pop_event now wanted [] = (None, [])"
| "pop_event now wanted ((t, r, g) # es) =
     (if \<not> t \<le>s now then (None, (t, r, g) # es)
      else case r of None \<Rightarrow> (None, es) | Some q \<Rightarrow> if wanted (q, g) then (Some q, es) else pop_event now wanted es)"

definition wanted :: "'z core_scheme \<Rightarrow> rsref \<times> 32 word \<Rightarrow> bool" where
  "wanted c e \<longleftrightarrow> snd e = rs_tag (rs_of c (fst e))"

lemma pop_event_loop:
  assumes "\<forall>l \<in> set xs. lk_rs (links c ! l) \<noteq> None"
    and "rest = dropWhile (\<lambda>l. due c l \<and> \<not> live c l) xs"
    and "got = (case rest of [] \<Rightarrow> [] | e # _ \<Rightarrow> if due c e then [e] else [])"
  shows "pop_event (sim_cycle c) (wanted c) (map (event_of c) xs)
    = (case got of [] \<Rightarrow> None | e # _ \<Rightarrow> lk_rs (links c ! e), map (event_of c) (drop (length got) rest))"
  using assms
proof (induction xs)
  case (Cons x xs)
  obtain r where r: "lk_rs (links c ! x) = Some r" using Cons.prems(1) by auto
  have e: "event_of c x = (lk_when (links c ! x), Some r, lk_tag (links c ! x))" by (simp add: event_of_def r)
  have w: "wanted c (r, lk_tag (links c ! x)) = live c x" by (simp add: wanted_def live_def r)
  show ?case using Cons by (cases "due c x"; cases "live c x") (simp_all add: e w r, simp_all add: due_def event_of_def r)
qed simp

text \<open>C26: Fetching the next event returns the oldest completion that is due and whose operation was
  not squashed, removes it, and returns the links of all squashed completions before it to the free
  list; it returns none when nothing wanted is due. It ends whatever the queue holds, and no other
  list changes.\<close>

theorem eventq_next_event_pops:
  assumes wf: "links_wf c" and q: "\<forall>e \<in> set (events c). fst (snd e) \<noteq> None"
  shows "\<exists>c'. eventq_next_event c = Inr (fst (pop_event (sim_cycle c) (wanted c) (events c)), c') \<and> links_wf c'
    \<and> events c' = snd (pop_event (sim_cycle c) (wanted c) (events c))
    \<and> length (owned c' OFree) + length (events c') = length (owned c OFree) + length (events c)
    \<and> same_lists {OFree, OEvents} c c'"
proof -
  have f: "owned_by c (owned c)" using wf by (simp add: links_wf_def)
  have q': "\<forall>l \<in> set (owned c OEvents). lk_rs (links c ! l) \<noteq> None"
    using q by (simp add: events_def event_of_def)
  let ?stop = "\<lambda>l. due c l \<and> \<not> live c l"
  define dead where "dead = takeWhile ?stop (owned c OEvents)"
  define rest where "rest = dropWhile ?stop (owned c OEvents)"
  define got where "got = (case rest of [] \<Rightarrow> [] | e # _ \<Rightarrow> if due c e then [e] else [])"
  have parts: "owned c OEvents = dead @ got @ drop (length got) rest"
  proof -
    have "got @ drop (length got) rest = rest" by (simp add: got_def split: list.splits)
    then show ?thesis by (simp add: dead_def rest_def)
  qed
  have "length (owned c OEvents) < Suc (length (links c))" using owned_byD(4) [OF f, of OEvents] by simp
  from next_event_loop_ok [OF f q' this dead_def rest_def got_def]
  obtain h p ls where c': "eventq_next_event c = Inr (case got of [] \<Rightarrow> None | e # _ \<Rightarrow> lk_rs (links c ! e),
        c\<lparr>event_queue := h, links := ls, rslink_free_list := p\<rparr>)"
      "owned_by (c\<lparr>event_queue := h, links := ls, rslink_free_list := p\<rparr>)
        ((owned c)(OEvents := drop (length got) rest, OFree := got @ rev dead @ owned c OFree))"
      "\<forall>l. l \<notin> set dead \<union> set got \<longrightarrow> payload (ls ! l) = payload (links c ! l)"
    unfolding eventq_next_event_def by blast
  let ?c = "c\<lparr>event_queue := h, links := ls, rslink_free_list := p\<rparr>"
  note o' = links_wfI [OF c'(2)]
  have keep: "payload (links ?c ! l) = payload (links c ! l)" if "l \<notin> set dead \<union> set got" for l
    using c'(3) that by simp
  have dis: "distinct (dead @ got @ drop (length got) rest)" using owned_byD(2) [OF f, of OEvents] parts by simp
  have ev: "events ?c = map (event_of c) (drop (length got) rest)"
  proof -
    have "event_of ?c l = event_of c l" if "l \<in> set (drop (length got) rest)" for l
      using that dis by (intro entry_of_payload(1) keep) auto
    then show ?thesis using o' by (simp add: events_def)
  qed
  have "same_lists {OFree, OEvents} c ?c"
  proof (rule same_listsI [OF conjunct2 [OF o']])
    fix w l assume w: "w \<notin> {OFree, OEvents}" and l: "l \<in> set (owned c w)"
    then have "l \<notin> set (owned c OEvents)" using owned_byD(5) [OF f, of w OEvents l] by auto
    then show "payload (links ?c ! l) = payload (links c ! l)" using parts by (intro keep) simp
  qed simp
  moreover have "pop_event (sim_cycle c) (wanted c) (events c)
      = (case got of [] \<Rightarrow> None | e # _ \<Rightarrow> lk_rs (links c ! e), map (event_of c) (drop (length got) rest))"
    unfolding events_def by (rule pop_event_loop [OF q' rest_def got_def])
  moreover have "length (owned ?c OFree) + length (events ?c) = length (owned c OFree) + length (events c)"
    using o' ev parts by (simp add: events_def)
  ultimately show ?thesis using c'(1) o' ev by auto
qed

text \<open>The small machine with a squashed completion due at cycle 3 and a wanted one at cycle 5.\<close>

definition small_busy :: core where
  "small_busy = (case eventq_queue_event (InRUU 0) 3 small_core of Inl _ \<Rightarrow> small_core | Inr c \<Rightarrow>
     (case eventq_queue_event (InRUU 1) 5 c of Inl _ \<Rightarrow> small_core | Inr d \<Rightarrow>
        upd_rs (InRUU 0) (rs_tag_update (\<lambda>_. 1)) (d\<lparr>sim_cycle := 6\<rparr>)))"

lemma small_busy_owned: "owned_by small_busy (three_lists [1, 0] [3, 2] [])"
  by (rule owned_by_three) code_simp+

lemma small_busy_events: "events small_busy = [(3, Some (InRUU 0), 0), (5, Some (InRUU 1), 0)]"
  by code_simp

theorem eventq_next_event_pops_witness:
  "\<exists>c'. eventq_next_event small_busy = Inr (Some (InRUU 1), c') \<and> events c' = []"
proof -
  have "pop_event (sim_cycle small_busy) (wanted small_busy) (events small_busy) = (Some (InRUU 1), [])"
    by code_simp
  then show ?thesis
    using eventq_next_event_pops [of small_busy] links_wfI [OF small_busy_owned]
    by (auto simp: small_busy_events)
qed

subsection \<open>The ready queue\<close>

lemma readyq_enqueue_insert_cases:
  assumes wf: "links_wf c" and v: "valid_rs c rs"
  shows "rs_queued (rs_of c rs) \<Longrightarrow> readyq_enqueue isa rs c = Inl (Panic ''node is already queued'')"
    and "\<not> rs_queued (rs_of c rs) \<Longrightarrow> owned c OFree = [] \<Longrightarrow> readyq_enqueue isa rs c = Inl (Panic ''out of rs links'')"
    and "\<not> rs_queued (rs_of c rs) \<Longrightarrow> owned c OFree \<noteq> [] \<Longrightarrow>
      \<exists>c'. readyq_enqueue isa rs c = Inr c' \<and> links_wf c'
        \<and> ready c' = insert_before (\<lambda>e. \<not> readyq_front isa (rs_of c rs) \<and> fst e < rs_seq (rs_of c rs))
            (rs_seq (rs_of c rs), Some rs, rs_tag (rs_of c rs)) (ready c)
        \<and> (md_op2flags isa (rs_op (rs_of c rs)) AND F_ATOMIC = 0
            \<longrightarrow> ready c' = (rs_seq (rs_of c rs), Some rs, rs_tag (rs_of c rs)) # ready c)
        \<and> (\<exists>p ls h. c' = upd_rs rs (rs_queued_update (\<lambda>_. True)) c\<lparr>rslink_free_list := p, links := ls, ready_queue := h\<rparr>)
        \<and> owned c' OFree = tl (owned c OFree) \<and> same_lists {OFree, OReady} c c'"
  using readyq_enqueue_result [OF assms] by blast+


text \<open>Opcode 1 is an atomic operation, every other opcode has no flags.\<close>

definition small_isa :: op_isa where
  "small_isa = \<lparr>md_op2flags = (\<lambda>n. if n = 1 then F_ATOMIC else if n = 2 then F_MEM OR F_LOAD
     else if n = 3 then F_MEM OR F_STORE else 0), op_JAL = 7, op_C_JR = 8\<rparr>"


subsection \<open>The load/store queue\<close>

text \<open>C23: The scan of the load/store queue enters into the ready queue exactly the waiting loads before
  which every store knows its address and no store to the load's address still waits for its data
  (or was overwritten, for address 0, the value that stands for an overwritten store); it marks just
  these loads as queued, ends, and changes nothing else.\<close>

theorem lsq_refresh_wakes:
  assumes "links_wf c" "LSQ_head c < length (LSQ c)" "LSQ_num c \<le> length (LSQ c)" "LSQ_num c \<le> MAX_STD_UNKNOWNS"
    "LSQ_num c \<le> length (owned c OFree)"
  shows "\<exists>c'. lsq_refresh isa c = Inr c' \<and> links_wf c' \<and> same_lists {OFree, OReady} c c'
    \<and> ready_rs c' = ready_rs c \<union> {Some (InLSQ (lsq_pos c j)) | j. j < LSQ_num c
         \<and> woken isa (lsq_entries c j) (LSQ c ! lsq_pos c j)}
    \<and> (\<exists>p ls h. c' = c\<lparr>rslink_free_list := p, links := ls, ready_queue := h,
         LSQ := map (\<lambda>i. if i \<in> lsq_woken isa c then (LSQ c ! i)\<lparr>rs_queued := True\<rparr> else LSQ c ! i)
                  [0..<length (LSQ c)]\<rparr>)"
proof -
  have "{Some (InLSQ (lsq_pos c j)) | j. j < LSQ_num c \<and> woken isa (lsq_entries c j) (LSQ c ! lsq_pos c j)}
      = (\<lambda>i. Some (InLSQ i)) ` lsq_woken isa c"
    by (auto simp: lsq_woken_def)
  then show ?thesis using lsq_refresh_ok [OF assms, of isa] by simp
qed

text \<open>A store whose data is unknown to address 8, and a ready load from address 16.\<close>

definition small_lsq :: core where
  "small_lsq = small_core\<lparr>LSQ := [zero_station\<lparr>rs_op := 3, rs_addr := 8, rs_idep_ready := [False, True, True, True]\<rparr>,
     zero_station\<lparr>rs_op := 2, rs_addr := 16, rs_idep_ready := [True, True, True, True]\<rparr>], LSQ_num := 2\<rparr>"

lemma small_lsq_owned: "owned_by small_lsq (three_lists [3, 2, 1, 0] [] [])"
  by (rule owned_by_three) code_simp+

theorem lsq_refresh_wakes_witness:
  "\<exists>c'. lsq_refresh small_isa small_lsq = Inr c' \<and> Some (InLSQ 1) \<in> ready_rs c' \<and> ready_rs small_lsq = {}"
proof -
  have c: "LSQ_head small_lsq < length (LSQ small_lsq)" "LSQ_num small_lsq \<le> length (LSQ small_lsq)"
    "LSQ_num small_lsq \<le> MAX_STD_UNKNOWNS" "LSQ_num small_lsq \<le> 4"
    by code_simp+
  have w: "1 < LSQ_num small_lsq" "lsq_pos small_lsq 1 = 1"
    "woken small_isa (lsq_entries small_lsq 1) (LSQ small_lsq ! lsq_pos small_lsq 1)"
    by code_simp+
  have wf: "links_wf small_lsq" "LSQ_num small_lsq \<le> length (owned small_lsq OFree)"
    using links_wfI [OF small_lsq_owned] c(4) by (simp_all add: three_lists_def)
  have e: "ready_rs small_lsq = {}"
    using links_wfI [OF small_lsq_owned] by (simp add: ready_rs_def ready_def three_lists_def)
  have "Some (InLSQ 1) \<in> {Some (InLSQ (lsq_pos small_lsq j)) | j. j < LSQ_num small_lsq
      \<and> woken small_isa (lsq_entries small_lsq j) (LSQ small_lsq ! lsq_pos small_lsq j)}"
    by (intro CollectI exI [of _ 1]) (use w in simp)
  then show ?thesis
    using lsq_refresh_wakes [OF wf(1) c(1-3) wf(2), of small_isa] e by blast
qed

subsection \<open>Dependence links\<close>

lemma ruu_link_idep_registers_cases:
  assumes wf: "links_wf c" and rs: "valid_rs c rs"
  shows "name = NA \<or> cv_rs (CREATE_VECTOR c name) = None \<Longrightarrow>
      \<exists>c'. ruu_link_idep rs k name c = Inr c' \<and> links_wf c' \<and> owned c' = owned c \<and> links c' = links c
        \<and> rs_of c' rs = (rs_of c rs)\<lparr>rs_idep_ready := (rs_idep_ready (rs_of c rs))[k := True]\<rparr>"
    and "name \<noteq> NA \<Longrightarrow> cv_rs (CREATE_VECTOR c name) = Some h \<Longrightarrow> owned c OFree = []
      \<Longrightarrow> ruu_link_idep rs k name c = Inl (Panic ''out of rs links'')"
    and "name \<noteq> NA \<Longrightarrow> CREATE_VECTOR c name = \<lparr>cv_rs = Some h, cv_odep_num = i\<rparr> \<Longrightarrow> valid_rs c h
      \<Longrightarrow> i < length (rs_odep_list (rs_of c h)) \<Longrightarrow> owned c OFree = n # xs \<Longrightarrow>
      \<exists>c'. ruu_link_idep rs k name c = Inr c' \<and> links_wf c'
        \<and> owned c' (OOut h i) = n # owned c (OOut h i) \<and> owned c' OFree = xs
        \<and> same_lists {OFree, OOut h i} c c'
        \<and> lk_rs (links c' ! n) = Some rs \<and> lk_tag (links c' ! n) = rs_tag (rs_of c rs) \<and> lk_opnum (links c' ! n) = k
        \<and> rs_idep_ready (rs_of c' rs) = (rs_idep_ready (rs_of c rs))[k := False]"
proof -
  have f: "owned_by c (owned c)" using wf by (simp add: links_wf_def)
  let ?g = "\<lambda>b. \<lambda>s. s\<lparr>rs_idep_ready := (rs_idep_ready s)[k := b]\<rparr>"
  have f0: "owned_by (upd_rs rs (?g b) c) (owned c)" for b by (rule owned_by_upd_rs [OF f rs]) simp
  show "\<exists>c'. ruu_link_idep rs k name c = Inr c' \<and> links_wf c' \<and> owned c' = owned c \<and> links c' = links c
        \<and> rs_of c' rs = (rs_of c rs)\<lparr>rs_idep_ready := (rs_idep_ready (rs_of c rs))[k := True]\<rparr>"
    if "name = NA \<or> cv_rs (CREATE_VECTOR c name) = None"
    using that links_wfI [OF f0 [of True]] rs
    by (intro exI [of _ "upd_rs rs (?g True) c"]) (auto simp: ruu_link_idep_def rs_of_upd_rs)
  show "ruu_link_idep rs k name c = Inl (Panic ''out of rs links'')"
    if "name \<noteq> NA" "cv_rs (CREATE_VECTOR c name) = Some h" "owned c OFree = []"
    using that RSLINK_NEW_none [OF f0 that(3)] by (simp add: ruu_link_idep_def Let_def)
  assume a: "name \<noteq> NA" "CREATE_VECTOR c name = \<lparr>cv_rs = Some h, cv_odep_num = i\<rparr>" "valid_rs c h"
    "i < length (rs_odep_list (rs_of c h))" "owned c OFree = n # xs"
  then have cv: "cv_rs (CREATE_VECTOR c name) = Some h" "i = cv_odep_num (CREATE_VECTOR c name)" by simp_all
  obtain c' where c': "ruu_link_idep rs k name c = Inr c'"
    "owned_by c' ((owned c)(OFree := xs, OOut h i := n # owned c (OOut h i)))"
    "\<And>l. payload (links c' ! l) = (if l = n then payload ((links c ! n)\<lparr>lk_rs := Some rs, lk_tag := rs_tag (rs_of c rs), lk_opnum := k\<rparr>)
       else payload (links c ! l))"
    "\<And>r. rs_of c' r = (let s = (if r = rs then (rs_of c rs)\<lparr>rs_idep_ready := (rs_idep_ready (rs_of c rs))[k := False]\<rparr> else rs_of c r)
       in if r = h then s\<lparr>rs_odep_list := (rs_odep_list s)[i := Some n]\<rparr> else s)"
    by (rule ruu_link_idep_ok [OF f a(5) rs a(1) cv a(3,4)]) blast
  note o' = links_wfI [OF c'(2)]
  have nw: "n \<notin> set (owned c w)" if "w \<noteq> OFree" for w using RSLINK_NEW_some(4) [OF f a(5), of w] that by simp
  have "same_lists {OFree, OOut h i} c c'"
    by (rule same_listsI [OF conjunct2 [OF o']]) (use nw c'(3) in auto)
  moreover have "lk_rs (links c' ! n) = Some rs" "lk_tag (links c' ! n) = rs_tag (rs_of c rs)" "lk_opnum (links c' ! n) = k"
    using payload_eqD [OF c'(3) [of n, simplified if_P refl]] by simp_all
  moreover have "rs_idep_ready (rs_of c' rs) = (rs_idep_ready (rs_of c rs))[k := False]"
    by (simp add: c'(4) Let_def)
  ultimately show "\<exists>c'. ruu_link_idep rs k name c = Inr c' \<and> links_wf c'
        \<and> owned c' (OOut h i) = n # owned c (OOut h i) \<and> owned c' OFree = xs
        \<and> same_lists {OFree, OOut h i} c c'
        \<and> lk_rs (links c' ! n) = Some rs \<and> lk_tag (links c' ! n) = rs_tag (rs_of c rs) \<and> lk_opnum (links c' ! n) = k
        \<and> rs_idep_ready (rs_of c' rs) = (rs_idep_ready (rs_of c rs))[k := False]"
    using c'(1) o' by auto
qed

text \<open>Linking an input operand makes it ready at once when nothing in flight creates its register;
  otherwise the operand waits, and the consumer, its tag and the operand's number are entered at the
  front of the output list of the creating operand. It fails only when no link is free.\<close>

theorem ruu_link_idep_registers:
  assumes wf: "links_wf c" and rs: "valid_rs c rs"
  shows "((name = NA \<or> cv_rs (CREATE_VECTOR c name) = None) \<longrightarrow>
      (\<exists>c'. ruu_link_idep rs k name c = Inr c' \<and> links_wf c' \<and> owned c' = owned c \<and> links c' = links c
          \<and> rs_of c' rs = (rs_of c rs)\<lparr>rs_idep_ready := (rs_idep_ready (rs_of c rs))[k := True]\<rparr>))
    \<and> (name \<noteq> NA \<and> cv_rs (CREATE_VECTOR c name) = Some h \<and> owned c OFree = [] \<longrightarrow>
      ruu_link_idep rs k name c = Inl (Panic ''out of rs links''))
    \<and> (name \<noteq> NA \<and> CREATE_VECTOR c name = \<lparr>cv_rs = Some h, cv_odep_num = i\<rparr> \<and> valid_rs c h \<and> i < length (rs_odep_list (rs_of c h)) \<and> owned c OFree = n # xs \<longrightarrow>
      (\<exists>c'. ruu_link_idep rs k name c = Inr c' \<and> links_wf c'
          \<and> owned c' (OOut h i) = n # owned c (OOut h i) \<and> owned c' OFree = xs
          \<and> same_lists {OFree, OOut h i} c c'
          \<and> lk_rs (links c' ! n) = Some rs \<and> lk_tag (links c' ! n) = rs_tag (rs_of c rs) \<and> lk_opnum (links c' ! n) = k
          \<and> rs_idep_ready (rs_of c' rs) = (rs_idep_ready (rs_of c rs))[k := False]))"
  by (intro conjI impI; (elim conjE)?; (rule ruu_link_idep_registers_cases [OF assms]; assumption))

text \<open>Station 1 reads register 5, which station 0 creates as its first output.\<close>

definition small_dep :: core where
  "small_dep = ruu_install_odep (InRUU 0) 0 5 small_core"

lemma small_dep_owned: "owned_by small_dep (three_lists [3, 2, 1, 0] [] [])"
  by (rule owned_by_three) code_simp+

theorem ruu_link_idep_registers_witness:
  "\<exists>c'. ruu_link_idep (InRUU 1) 2 5 small_dep = Inr c' \<and> owned c' (OOut (InRUU 0) 0) = [3]"
proof -
  have "(5::nat) \<noteq> NA" "CREATE_VECTOR small_dep 5 = \<lparr>cv_rs = Some (InRUU 0), cv_odep_num = 0\<rparr>" "valid_rs small_dep (InRUU 0)"
    "valid_rs small_dep (InRUU 1)" "0 < length (rs_odep_list (rs_of small_dep (InRUU 0)))"
    by code_simp+
  moreover have "links_wf small_dep" "owned small_dep OFree = [3, 2, 1, 0]" "owned small_dep (OOut (InRUU 0) 0) = []"
    using links_wfI [OF small_dep_owned] by (simp_all add: three_lists_def)
  ultimately show ?thesis
    using ruu_link_idep_registers [of small_dep "InRUU 1" 5 2 "InRUU 0" 0 3 "[2, 1, 0]"] by auto
qed

end
