(* ===== verification/RecoverProps.thy ===== *)
theory RecoverProps
  imports RecoverCorrect SchedProps
begin

text \<open>
  The properties of speculation in the scheduler: what the create vector shows while the trace is
  on a mispredicted path, and what the recovery from the misprediction restores.
\<close>

subsection \<open>The create vector while speculating\<close>

definition set_creators :: "(nat \<times> CV_link) list \<Rightarrow> 'z core_scheme \<Rightarrow> 'z core_scheme" where
  "set_creators ws c = fold (\<lambda>(n, l). SET_CREATE_VECTOR n l) ws c"

lemma spec_creators:
  assumes "spec_mode c" "length (use_spec_cv c) = CV_BMAP_SZ" "length (spec_create_vector c) = MD_TOTAL_REGS"
    "\<forall>w \<in> set ws. fst w < MD_TOTAL_REGS" "m < MD_TOTAL_REGS"
  shows "create_vector (set_creators ws c) = create_vector c \<and> length (use_spec_cv (set_creators ws c)) = CV_BMAP_SZ
    \<and> CREATE_VECTOR (set_creators ws c) m = (case map_of (rev ws) m of Some l \<Rightarrow> l | None \<Rightarrow> CREATE_VECTOR c m)"
  using assms
proof (induction ws rule: rev_induct)
  case Nil
  then show ?case by (simp add: set_creators_def)
next
  case (snoc w ws)
  obtain n l where w: "w = (n, l)" by (cases w)
  let ?c = "set_creators ws c"
  have IH: "create_vector ?c = create_vector c" "length (use_spec_cv ?c) = CV_BMAP_SZ"
    "CREATE_VECTOR ?c m = (case map_of (rev ws) m of Some l \<Rightarrow> l | None \<Rightarrow> CREATE_VECTOR c m)"
    using snoc by auto
  have mode: "spec_mode (set_creators ws c) \<and> length (spec_create_vector (set_creators ws c)) = MD_TOTAL_REGS" for ws
    using snoc.prems(1,3)
    by (induction ws rule: rev_induct) (auto simp: set_creators_def SET_CREATE_VECTOR_def split: prod.splits)
  have sz: "x < 32 * length (use_spec_cv ?c)" if "x < MD_TOTAL_REGS" for x
    using that IH(2) by (simp add: CV_BMAP_SZ_def BITMAP_SIZE_def MD_TOTAL_REGS_def)
  have n: "n < MD_TOTAL_REGS" using snoc.prems(4) w by simp
  have p: "BITMAP_SET_P (BITMAP_SET (use_spec_cv ?c) n) m \<longleftrightarrow> m = n \<or> BITMAP_SET_P (use_spec_cv ?c) m"
    using sz [OF n] sz [OF snoc.prems(5)] by (simp add: set_p_bits set_bits)
  have st: "set_creators (ws @ [w]) c = SET_CREATE_VECTOR n l ?c" by (simp add: set_creators_def w)
  have "CREATE_VECTOR (SET_CREATE_VECTOR n l ?c) m = (if m = n then l else CREATE_VECTOR ?c m)"
    using mode [of ws] n p by (simp add: CREATE_VECTOR_def SET_CREATE_VECTOR_def nth_list_update)
  then show ?case unfolding st using IH mode [of ws] w by (simp add: SET_CREATE_VECTOR_def)
qed

text \<open>While the trace is on a mispredicted path, whatever operations are entered, the create
  vector of the correct path is not written, and a lookup sees the last creator entered on the
  mispredicted path for its register and otherwise what it saw before.\<close>

theorem spec_creators_shadow:
  assumes "spec_mode c" "length (use_spec_cv c) = CV_BMAP_SZ" "length (spec_create_vector c) = MD_TOTAL_REGS"
    and "\<forall>w \<in> set ws. fst w < MD_TOTAL_REGS" "m < MD_TOTAL_REGS"
  shows "create_vector (set_creators ws c) = create_vector c
    \<and> CREATE_VECTOR (set_creators ws c) m = (case map_of (rev ws) m of Some l \<Rightarrow> l | None \<Rightarrow> CREATE_VECTOR c m)"
  using spec_creators [OF assms] by simp

definition spec_core :: core where
  "spec_core = small_core\<lparr>spec_mode := True\<rparr>"

theorem spec_creators_shadow_witness:
  "CREATE_VECTOR (set_creators [(5, \<lparr>cv_rs = Some (InRUU 1), cv_odep_num = 0\<rparr>)] spec_core) 5
     = \<lparr>cv_rs = Some (InRUU 1), cv_odep_num = 0\<rparr>"
proof -
  have "spec_mode spec_core" "length (use_spec_cv spec_core) = CV_BMAP_SZ"
    "length (spec_create_vector spec_core) = MD_TOTAL_REGS" "(5::nat) < MD_TOTAL_REGS"
    by code_simp+
  then show ?thesis
    using spec_creators_shadow [of spec_core "[(5, \<lparr>cv_rs = Some (InRUU 1), cv_odep_num = 0\<rparr>)]" 5] by simp
qed

subsection \<open>Recovery\<close>

lemma squash_all_rs:
  "valid_rs c r \<Longrightarrow> rs_of (squash_all S c) r = (if r \<in> S then squashed (rs_of c r) else rs_of c r)"
  by (cases r) (simp_all add: squash_all_def rs_of_def)

lemma younger_valid: "rings_wf c \<Longrightarrow> r \<in> younger c k \<Longrightarrow> valid_rs c r"
  by (auto simp: younger_def rings_wf_def ruu_pos_less lsq_pos_def)

lemma released_dead:
  assumes rel: "released W (links c) f ls f'" and l: "lk_rs (links c ! l) = Some r" "live c l"
    and c': "links c' = ls" "rs_of c' r = squashed (rs_of c r)"
  shows "\<not> live c' l"
proof (cases "ls ! l = links c ! l")
  case True
  then show ?thesis using l c' by (simp add: live_def squashed_def)
next
  case False
  then show ?thesis using releasedD(5) [OF rel, of l] c' by (simp add: live_def)
qed

text \<open>The state a recovery leaves.\<close>

definition recovered :: "nat \<Rightarrow> RS_link list \<Rightarrow> nat option \<Rightarrow> 'z core_scheme \<Rightarrow> 'z core_scheme" where
  "recovered k ls q c = (let m = mem_ops c [Suc k..<RUU_num c] in
     (squash_all (younger c k) c)\<lparr>links := ls, rslink_free_list := q, LSQ_num := LSQ_num c - m, RUU_num := Suc k,
       RUU_tail := ruu_pos c (Suc k), LSQ_tail := lsq_pos c (LSQ_num c - m),
       use_spec_cv := BITMAP_CLEAR_MAP (use_spec_cv c) CV_BMAP_SZ\<rparr>)"

lemma ruu_recover_ok:
  assumes wf: "links_wf c" "rings_wf c" and k: "k < RUU_num c" "mem_ops c [Suc k..<RUU_num c] \<le> LSQ_num c"
  shows "\<exists>ls q f'. ruu_recover (ruu_pos c k) c = Inr (recovered k ls q c) \<and> owned_by (recovered k ls q c) f'
    \<and> released (\<Union>r \<in> younger c k. outs r) (links c) (owned c) ls f'"
proof -
  have f: "owned_by c (owned c)" using wf(1) by (simp add: links_wf_def)
  have R: "\<forall>s \<in> set (RUU c) \<union> set (LSQ c). length (rs_odep_list s) = MAX_ODEPS" "RUU_num c \<le> length (RUU c)"
    "LSQ_num c \<le> length (LSQ c)" "0 < length (LSQ c)" "RUU_head c < length (RUU c)" "RUU_tail c = ruu_pos c (RUU_num c)"
    "LSQ_tail c = lsq_pos c (LSQ_num c)" "0 < length (RUU c)"
    using wf(2) by (simp_all add: rings_wf_def)
  have t: "prev_slot (length (RUU c)) (RUU_tail c) = ruu_pos c (RUU_num c - 1)"
    using prev_slot_ring [OF R(8), of "RUU_head c" "RUU_num c - 1"] k(1) by (simp add: R(6) ruu_pos_def)
  have fuel: "RUU_num c - Suc k < Suc (RUU_num c)" by simp
  note L = recover_loop_ok [OF f R(1-5) k fuel]
  have cvm: "use_spec_cv (squash_all S c) = use_spec_cv c" for S by (simp add: squash_all_def)
  from L show ?thesis
    unfolding ruu_recover_def t unfolding R(6,7)
    by (elim exE conjE) (intro exI conjI, simp_all add: recovered_def Let_def cvm del: recover_loop.simps)
qed

lemma recovered_rings:
  assumes "rings_wf c" "k < RUU_num c"
  shows "rings_wf (recovered k ls q c)"
proof -
  have "\<forall>s \<in> set (RUU (recovered k ls q c)) \<union> set (LSQ (recovered k ls q c)). length (rs_odep_list s) = MAX_ODEPS"
    using assms(1) by (auto simp: rings_wf_def recovered_def Let_def squash_all_def squashed_def)
  moreover have "LSQ_num c - m \<le> length (LSQ c)" for m using assms(1) by (simp add: rings_wf_def le_trans [OF diff_le_self])
  ultimately show ?thesis
    using assms by (simp add: rings_wf_def ruu_pos_def lsq_pos_def recovered_def Let_def squash_all_def)
qed

lemma recovered_rs:
  "valid_rs c r \<Longrightarrow> rs_of (recovered k ls q c) r = (if r \<in> younger c k then squashed (rs_of c r) else rs_of c r)"
  using squash_all_rs [of c r "younger c k"] by (cases r) (simp_all add: rs_of_def recovered_def Let_def)

text \<open>C21: Recovery from a mispredicted branch always ends and squashes exactly the operations younger
  than the branch, in both queues: they lose their consumers, whose links go back to the pool, and
  get a new tag, so that no event or ready entry that names them is live any more. Both queues end
  behind the branch, every other station and all queues are as before, the pool of links stays
  well-formed, and the create vector is that of the correct path again.\<close>

theorem ruu_recover_squashes:
  assumes wf: "links_wf c" "rings_wf c" and k: "k < RUU_num c" "mem_ops c [Suc k..<RUU_num c] \<le> LSQ_num c"
    and cv: "length (use_spec_cv c) = CV_BMAP_SZ"
  shows "\<exists>c'. ruu_recover (ruu_pos c k) c = Inr c' \<and> links_wf c' \<and> rings_wf c'
    \<and> RUU_head c' = RUU_head c \<and> RUU_num c' = Suc k
    \<and> LSQ_head c' = LSQ_head c \<and> LSQ_num c' = LSQ_num c - mem_ops c [Suc k..<RUU_num c]
    \<and> (\<forall>r. valid_rs c r \<longrightarrow> rs_of c' r = (if r \<in> younger c k then squashed (rs_of c r) else rs_of c r))
    \<and> owned c' OEvents = owned c OEvents \<and> owned c' OReady = owned c OReady
    \<and> set (owned c' OFree) = set (owned c OFree) \<union> (\<Union>r \<in> younger c k. \<Union>i. set (owned c (OOut r i)))
    \<and> (\<forall>l r. r \<in> younger c k \<and> lk_rs (links c ! l) = Some r \<and> live c l \<longrightarrow> \<not> live c' l)
    \<and> (\<forall>n < MD_TOTAL_REGS. CREATE_VECTOR c' n = create_vector c ! n)"
proof -
  let ?Y = "younger c k"
  obtain ls q f' where r: "ruu_recover (ruu_pos c k) c = Inr (recovered k ls q c)" "owned_by (recovered k ls q c) f'"
    and rel: "released (\<Union>r \<in> ?Y. outs r) (links c) (owned c) ls f'"
    using ruu_recover_ok [OF wf k] by blast
  let ?c = "recovered k ls q c"
  have lw: "links_wf ?c" "owned ?c = f'" using links_wfI [OF r(2)] by blast+
  have num: "RUU_head ?c = RUU_head c" "RUU_num ?c = Suc k" "LSQ_head ?c = LSQ_head c"
    "LSQ_num ?c = LSQ_num c - mem_ops c [Suc k..<RUU_num c]" "links ?c = ls"
    by (simp_all add: recovered_def Let_def squash_all_def)
  have dead: "\<not> live ?c l" if "r \<in> ?Y" "lk_rs (links c ! l) = Some r" "live c l" for r l
    by (rule released_dead [OF rel that(2,3) num(5)]) (use recovered_rs [OF younger_valid [OF wf(2) that(1)]] that(1) in simp)
  have keep: "owned ?c OEvents = owned c OEvents" "owned ?c OReady = owned c OReady"
    unfolding lw(2) using releasedD(3) [OF rel] by (auto simp: outs_def)
  have free: "set (owned ?c OFree) = set (owned c OFree) \<union> (\<Union>r \<in> ?Y. \<Union>i. set (owned c (OOut r i)))"
    unfolding lw(2) releasedD(4) [OF rel] by (auto simp: outs_def)
  have "\<not> BITMAP_SET_P (use_spec_cv ?c) n" if "n < MD_TOTAL_REGS" for n
    using clear_map_bits [of "use_spec_cv c"] cv that
    by (simp add: recovered_def Let_def set_p_bits CV_BMAP_SZ_def BITMAP_SIZE_def MD_TOTAL_REGS_def)
  then have cvs: "\<forall>n < MD_TOTAL_REGS. CREATE_VECTOR ?c n = create_vector c ! n"
    by (simp add: CREATE_VECTOR_def recovered_def Let_def squash_all_def)
  show ?thesis
    using r(1) lw(1) recovered_rings [OF wf(2) k(1), of ls q] num recovered_rs [of c _ k ls q] keep free dead cvs by blast
qed

text \<open>Two operations in flight; the first is the branch, the second was entered behind it.\<close>

definition two_core :: core where
  "two_core = (ruu_install_odep (InRUU 1) 0 5 spec_core)\<lparr>RUU_num := 2\<rparr>"

lemma two_core_owned: "owned_by two_core (three_lists [3, 2, 1, 0] [] [])"
  by (rule owned_by_three) code_simp+

theorem ruu_recover_squashes_witness:
  "\<exists>c'. ruu_recover 0 two_core = Inr c' \<and> RUU_num c' = 1 \<and> rs_tag (rs_of c' (InRUU 1)) = 1
     \<and> CREATE_VECTOR two_core 5 = \<lparr>cv_rs = Some (InRUU 1), cv_odep_num = 0\<rparr> \<and> CREATE_VECTOR c' 5 = CVLINK_NULL"
proof -
  have "rings_wf two_core" "(0::nat) < RUU_num two_core" "ruu_pos two_core 0 = 0"
    "mem_ops two_core [Suc 0..<RUU_num two_core] \<le> LSQ_num two_core" "length (use_spec_cv two_core) = CV_BMAP_SZ"
    "valid_rs two_core (InRUU 1)" "InRUU 1 \<in> younger two_core 0" "rs_tag (squashed (rs_of two_core (InRUU 1))) = 1"
    "(5::nat) < MD_TOTAL_REGS" "create_vector two_core ! 5 = CVLINK_NULL"
    "CREATE_VECTOR two_core 5 = \<lparr>cv_rs = Some (InRUU 1), cv_odep_num = 0\<rparr>"
    by code_simp+
  then show ?thesis
    using ruu_recover_squashes [of two_core 0] links_wfI [OF two_core_owned] by fastforce
qed

end
