(* ===== verification/Writeback.thy ===== *)
theory Writeback
  imports Stages
begin

text \<open>
  The writeback stage of sim-outorder.c: every completed operation is taken from the event queue,
  a mispredicted branch recovers the machine, the predictor is updated when it is configured to be
  updated here, and the results are broadcast along the output lists of the operation.
\<close>

subsection \<open>Broadcast of a result\<close>

text \<open>A consumer that still exists: its operand becomes ready, and when that was the last one the
  consumer enters the ready queue, unless it is a load, which the load/store queue scan wakes.\<close>

definition wake_consumer :: "op_isa \<Rightarrow> rsref \<Rightarrow> nat \<Rightarrow> 'z core_scheme \<Rightarrow> 'z core_scheme cres" where
  "wake_consumer isa r opnum c =
     (if rs_idep_ready (rs_of c r) ! opnum then Inl (Panic ''output dependence already satisfied'')
      else
        let c1 = upd_rs r (\<lambda>s. s\<lparr>rs_idep_ready := (rs_idep_ready s)[opnum := True]\<rparr>) c; s = rs_of c1 r in
        if OPERANDS_READY s \<and> (\<not> rs_in_LSQ s \<or> is_store isa (rs_op s)) then readyq_enqueue isa r c1 else Inr c1)"

fun walk_outputs :: "nat \<Rightarrow> op_isa \<Rightarrow> nat option \<Rightarrow> 'z core_scheme \<Rightarrow> 'z core_scheme cres" where
  "walk_outputs 0 isa olink c = Inl Diverge"
| "walk_outputs (Suc k) isa None c = Inr c"
| "walk_outputs (Suc k) isa (Some l) c =
     cbind (RSLINK_VALID c l) (\<lambda>valid.
     cbind (if valid then wake_consumer isa (the (lk_rs (links c ! l))) (lk_opnum (links c ! l)) c else Inr c) (\<lambda>c1.
     walk_outputs k isa (lk_next (links c1 ! l)) (RSLINK_FREE l c1)))"

text \<open>The create vector entry of a result that can now be read from a register.\<close>

definition retire_creator :: "rsref \<Rightarrow> nat \<Rightarrow> 'z core_scheme \<Rightarrow> 'z core_scheme" where
  "retire_creator r i c =
     (let n = rs_onames (rs_of c r) ! i; here = \<lparr>cv_rs = Some r, cv_odep_num = i\<rparr> in
      if rs_spec_mode (rs_of c r)
      then (if spec_create_vector c ! n = here
            then c\<lparr>spec_create_vector := (spec_create_vector c)[n := CVLINK_NULL],
                   spec_create_vector_rt := (spec_create_vector_rt c)[n := sim_cycle c]\<rparr>
            else c)
      else (if create_vector c ! n = here
            then c\<lparr>create_vector := (create_vector c)[n := CVLINK_NULL],
                   create_vector_rt := (create_vector_rt c)[n := sim_cycle c]\<rparr>
            else c))"

definition broadcast_output :: "op_isa \<Rightarrow> rsref \<Rightarrow> nat \<Rightarrow> 'z core_scheme \<Rightarrow> 'z core_scheme cres" where
  "broadcast_output isa r i c =
     (if rs_onames (rs_of c r) ! i = NA then Inr c
      else
        let c1 = retire_creator r i c in
        cbind (walk_outputs (Suc (length (links c1))) isa (rs_odep_list (rs_of c1 r) ! i) c1) (\<lambda>c2.
        Inr (upd_rs r (\<lambda>s. s\<lparr>rs_odep_list := (rs_odep_list s)[i := None]\<rparr>) c2)))"

fun broadcast :: "op_isa \<Rightarrow> rsref \<Rightarrow> nat list \<Rightarrow> 'z core_scheme \<Rightarrow> 'z core_scheme cres" where
  "broadcast isa r [] c = Inr c"
| "broadcast isa r (i # js) c = cbind (broadcast_output isa r i c) (broadcast isa r js)"

subsection \<open>Recovery and the predictor\<close>

definition recover_branch :: "sim_cfg \<Rightarrow> rsref \<Rightarrow> cpu \<Rightarrow> cpu cres" where
  "recover_branch cfg r c =
     (case r of
        InLSQ i \<Rightarrow> Inl OutOfBounds
      | InRUU i \<Rightarrow>
          if rs_in_LSQ (rs_of c r) then Inl (Panic ''mis-predicted load or store?!?!?'')
          else
            cbind (ruu_recover i c) (\<lambda>c1.
            cbind (tracer_recover c1) (\<lambda>c2.
            Inr (upd_td (Recover_this_update (\<lambda>_. True))
              (c2\<lparr>pred := map_option (\<lambda>p. bpred_recover p (rs_stack_recover_idx (rs_of c2 r))) (pred c2),
                  ruu_fetch_issue_delay := ruu_branch_penalty cfg\<rparr>)))))"

text \<open>The update of the predictor, from writeback or commit.\<close>

definition predictor_update :: "sim_cfg \<Rightarrow> station \<Rightarrow> cpu \<Rightarrow> cpu cres" where
  "predictor_update cfg s c =
     (case pred c of
        None \<Rightarrow> Inr c
      | Some p \<Rightarrow>
          cbind (bpred_update (cf_isa cfg) p (if rs_mf_firstPC s \<noteq> 0 then rs_mf_firstPC s else regs_PC c)
                   (rs_next_PC s) (of_bool (rs_next_PC s \<noteq> rs_PC s + INST_BYTES))
                   (rs_pred_PC s \<noteq> rs_PC s + INST_BYTES) (rs_pred_PC s = rs_next_PC s) (rs_op s)
                   (Some (rs_dir_update s))) (\<lambda>p'.
          Inr (c\<lparr>pred := Some p'\<rparr>)))"

subsection \<open>The stage\<close>

definition complete :: "rsref \<Rightarrow> cpu \<Rightarrow> cpu cres" where
  "complete r c =
     (let c1 = upd_rs r (\<lambda>s. s\<lparr>rs_wb_cyc := sim_cycle c\<rparr>) c; s = rs_of c1 r in
      if \<not> OPERANDS_READY s \<or> rs_queued s \<or> \<not> rs_issued s \<or> rs_completed s
      then Inl (Panic ''inst completed and !ready, !issued, or completed'')
      else Inr (upd_rs r (rs_completed_update (\<lambda>_. True)) c1))"

definition note_late_wb :: "rsref \<Rightarrow> cpu \<Rightarrow> cpu" where
  "note_late_wb r c =
     (if Hnr_this (td c) \<and> latewb_head_uop (td c) \<noteq> 0 \<and> rs_uop_id (rs_of c r) = latewb_head_uop (td c)
      then upd_td (LateWB_update (\<lambda>_. True)) c else c)"

definition writeback_one :: "sim_cfg \<Rightarrow> rsref \<Rightarrow> cpu \<Rightarrow> cpu cres" where
  "writeback_one cfg r c =
     cbind (complete r c) (\<lambda>c1.
     cbind (if rs_recover_inst (rs_of c1 r) then recover_branch cfg r c1 else Inr c1) (\<lambda>c2.
     let s = rs_of c2 r in
     cbind (if bpred_spec_update cfg = spec_WB \<and> \<not> rs_in_LSQ s \<and> md_op2flags (cf_isa cfg) (rs_op s) AND F_CTRL \<noteq> 0
            then predictor_update cfg s c2 else Inr c2) (\<lambda>c3.
     broadcast (cf_isa cfg) r [0..<MAX_ODEPS] (note_late_wb r c3))))"

fun writeback_loop :: "nat \<Rightarrow> sim_cfg \<Rightarrow> cpu \<Rightarrow> cpu cres" where
  "writeback_loop 0 cfg c = Inl Diverge"
| "writeback_loop (Suc k) cfg c =
     cbind (eventq_next_event c) (\<lambda>(r, c1).
     case r of
       None \<Rightarrow> Inr c1
     | Some r \<Rightarrow> cbind (writeback_one cfg r c1) (writeback_loop k cfg))"

definition ruu_writeback :: "sim_cfg \<Rightarrow> cpu \<Rightarrow> cpu cres" where
  "ruu_writeback cfg c = writeback_loop (Suc (length (links c))) cfg c"

end
