(* ===== verification/Commit.thy ===== *)
theory Commit
  imports Writeback
begin

text \<open>
  The commit stage of sim-outorder.c: the oldest operations leave the RUU in program order, a memory
  operation together with its entry at the head of the load/store queue, a store through a memory
  port into the data cache. A head that cannot leave records why it stalls. The pipetrace events
  that C collects from the latency of the cache accesses are left out.
\<close>

subsection \<open>Units and caches\<close>

definition reserve_unit :: "nat \<times> nat \<Rightarrow> cpu \<Rightarrow> cpu cres" where
  "reserve_unit fu c =
     cbind (master_busy (fu_pool c) fu) (\<lambda>b.
     if b \<noteq> 0 then Inl (Panic ''functional unit already in use'')
     else cbind (deref (rt_master (plate (fu_pool c) fu))) (\<lambda>m.
       Inr (c\<lparr>fu_pool := set_busy m (rt_issuelat (plate (fu_pool c) fu)) (fu_pool c)\<rparr>)))"

definition word_access :: "sim_cfg \<Rightarrow> nat \<Rightarrow> mem_cmd \<Rightarrow> 64 word \<Rightarrow> cpu \<Rightarrow> (32 word \<times> cpu) cres" where
  "word_access cfg k cmd addr c =
     cbind (hier_access (cf_lat cfg) (cf_rand cfg) k cmd (addr AND NOT 3) 4 (sim_cycle c) (hier c)) (\<lambda>(lat, h).
     Inr (lat, c\<lparr>hier := h\<rparr>))"

definition optional_access :: "sim_cfg \<Rightarrow> nat option \<Rightarrow> mem_cmd \<Rightarrow> 64 word \<Rightarrow> cpu \<Rightarrow> cpu cres" where
  "optional_access cfg k cmd addr c =
     (case k of None \<Rightarrow> Inr c | Some n \<Rightarrow> cbind (word_access cfg n cmd addr c) (\<lambda>(_, c1). Inr c1))"

subsection \<open>Stalls\<close>

definition log_head_stall :: "station \<Rightarrow> cpu \<Rightarrow> cpu" where
  "log_head_stall s c = c\<lparr>stall_active := True, last_head_uop_id := rs_uop_id s\<rparr>"

definition arm_latewb :: "32 word \<Rightarrow> latches \<Rightarrow> latches" where
  "arm_latewb u t = t\<lparr>latewb_head_uop := u, latewb_armed := True\<rparr>"

definition stall_head :: "cpu \<Rightarrow> cpu" where
  "stall_head c =
     (let h = InRUU (RUU_head c);
          c1 = (if rs_last_block (rs_of c h) = STALL_NONE
                then upd_rs h (\<lambda>s. s\<lparr>rs_last_block := STALL_HEAD_NOT_COMPLETE,
                       rs_last_block_cycle := (if rs_last_block_cycle s \<noteq> 0 then rs_last_block_cycle s else sim_cycle c)\<rparr>) c
                else c);
          s = rs_of c1 h
      in upd_td (\<lambda>t. arm_latewb (rs_uop_id s)
           (t\<lparr>Hnr_this := True, Hoth_this := True,
              Hmult_this := Hmult_this t \<or> rs_issued s \<and> rs_op s \<in> {96, 99, 101, 103}\<rparr>)) (log_head_stall s c1))"

definition stall_mem :: "cpu \<Rightarrow> cpu" where
  "stall_mem c =
     (let s = RUU c ! RUU_head c; m = LSQ c ! LSQ_head c;
          miss = (rs_last_block m = STALL_LOAD_MISS \<or> rs_last_block m = STALL_DTLB_MISS)
      in upd_td (\<lambda>t. arm_latewb (rs_uop_id s)
           (t\<lparr>Hnr_this := True, Hmem_this := Hmem_this t \<or> miss, Hoth_this := Hoth_this t \<or> \<not> miss\<rparr>)) (log_head_stall s c))"

definition stall_port :: "cpu \<Rightarrow> cpu" where
  "stall_port c =
     (let s = RUU c ! RUU_head c;
          c1 = upd_rs (InLSQ (LSQ_head c)) (\<lambda>m. m\<lparr>rs_last_block := STALL_STORE_PORT_BUSY,
                 rs_last_block_cycle := (if rs_last_block_cycle m = 0 then sim_cycle c else rs_last_block_cycle m)\<rparr>) c
      in upd_td (\<lambda>t. arm_latewb (rs_uop_id s) (t\<lparr>Hnr_this := True, Hmem_this := True\<rparr>)) (log_head_stall s c1))"

subsection \<open>Retirement\<close>

definition retire_lsq :: "cpu \<Rightarrow> cpu" where
  "retire_lsq c =
     (let h = LSQ_head c; c1 = upd_rs (InLSQ h) (\<lambda>s. s\<lparr>rs_tag := rs_tag s + 1\<rparr>) c in
      c1\<lparr>sim_slip := sim_slip c1 + (sim_cycle c1 - scast (rs_slip (LSQ c1 ! h))),
         LSQ_head := (h + 1) mod length (LSQ c1), LSQ_num := LSQ_num c1 - 1\<rparr>)"

text \<open>The write of a store; the boolean says whether a port was free.\<close>

definition commit_store :: "sim_cfg \<Rightarrow> cpu \<Rightarrow> (bool \<times> cpu) cres" where
  "commit_store cfg c =
     (let m = LSQ c ! LSQ_head c in
      cbind (res_get (fu_pool c) (MD_OP_FUCLASS cfg (rs_op m))) (\<lambda>fu.
      case fu of
        None \<Rightarrow> Inr (False, stall_port c)
      | Some f \<Rightarrow>
          cbind (reserve_unit f c) (\<lambda>c1.
          cbind (optional_access cfg (cache_dl1 (hier c1)) Write (rs_addr m) c1) (\<lambda>c2.
          cbind (optional_access cfg (dtlb (hier c2)) Read (rs_addr m) c2) (\<lambda>c3. Inr (True, c3))))))"

definition commit_mem :: "sim_cfg \<Rightarrow> cpu \<Rightarrow> (bool \<times> cpu) cres" where
  "commit_mem cfg c =
     (let m = LSQ c ! LSQ_head c in
      if LSQ_num c = 0 \<or> \<not> rs_in_LSQ m then Inl (Panic ''RUU out of sync with LSQ'')
      else if \<not> rs_completed m then Inr (False, stall_mem c)
      else cbind (if is_store (cf_isa cfg) (rs_op m) then commit_store cfg c else Inr (True, c)) (\<lambda>(goes, c1).
        Inr (goes, if goes then retire_lsq c1 else c1)))"

definition retire_ruu :: "cpu \<Rightarrow> cpu cres" where
  "retire_ruu c =
     (let h = RUU_head c;
          c1 = upd_rs (InRUU h) (\<lambda>s. s\<lparr>rs_tag := rs_tag s + 1\<rparr>) c;
          c2 = c1\<lparr>sim_slip := sim_slip c1 + (sim_cycle c1 - scast (rs_slip (RUU c1 ! h))),
                 RUU_head := (h + 1) mod length (RUU c1), RUU_num := RUU_num c1 - 1\<rparr>
      in if list_ex (\<lambda>i. rs_odep_list (RUU c2 ! h) ! i \<noteq> None) [0..<MAX_ODEPS]
         then Inl (Panic ''retired instruction has odeps'') else Inr c2)"

definition commit_head :: "sim_cfg \<Rightarrow> cpu \<Rightarrow> (bool \<times> cpu) cres" where
  "commit_head cfg c =
     (let s = RUU c ! RUU_head c; c0 = upd_td (latewb_head_uop_update (\<lambda>_. rs_uop_id s)) c in
      if \<not> rs_completed s then Inr (False, stall_head c0)
      else
        cbind (if rs_ea_comp s then commit_mem cfg c0 else Inr (True, c0)) (\<lambda>(goes, c1).
        if \<not> goes then Inr (False, c1)
        else
          cbind (if bpred_spec_update cfg = spec_CT \<and> md_op2flags (cf_isa cfg) (rs_op s) AND F_CTRL \<noteq> 0
                 then predictor_update cfg s c1 else Inr c1) (\<lambda>c2.
          cbind (retire_ruu c2) (\<lambda>c3. Inr (True, c3)))))"

text \<open>The loop, over the commit slots that remain, with the number of committed operations.\<close>

fun commit_loop :: "sim_cfg \<Rightarrow> nat \<Rightarrow> nat \<Rightarrow> cpu \<Rightarrow> (nat \<times> cpu) cres" where
  "commit_loop cfg 0 n c = Inr (n, c)"
| "commit_loop cfg (Suc k) n c =
     (if RUU_num c = 0 then Inr (n, c)
      else cbind (commit_head cfg c) (\<lambda>(goes, c1). if goes then commit_loop cfg k (Suc n) c1 else Inr (n, c1)))"

definition ruu_commit :: "sim_cfg \<Rightarrow> cpu \<Rightarrow> cpu cres" where
  "ruu_commit cfg c =
     cbind (commit_loop cfg (ruu_commit_width cfg) 0 c) (\<lambda>(committed, c1).
     let c2 = (if committed > 0 then c1\<lparr>stall_active := False, last_head_uop_id := 0\<rparr> else c1)
     in Inr (upd_td (R_this_update (\<lambda>_. int committed)) c2))"

end
