(* ===== verification/Issue.thy ===== *)
theory Issue
  imports Commit
begin

text \<open>
  The issue stage of sim-outorder.c: the ready queue is taken over, its operations are issued to
  functional units in order until the issue width is used up, and the rest is queued again. The
  local \<open>tlb_lat\<close> is read where no access has set it; its value at the start of the stage is the
  parameter \<open>junk\<close>.
\<close>

subsection \<open>Loads\<close>

text \<open>The search for an earlier store to the same address, from slot \<open>i\<close> back to the head of the
  load/store queue.\<close>

fun store_forward :: "nat \<Rightarrow> sim_cfg \<Rightarrow> 64 word \<Rightarrow> nat \<Rightarrow> 'z core_scheme \<Rightarrow> bool cres" where
  "store_forward 0 cfg addr i c = Inl Diverge"
| "store_forward (Suc k) cfg addr i c =
     (let j = prev_slot (length (LSQ c)) i; s = LSQ c ! j in
      if md_op2flags (cf_isa cfg) (rs_op s) AND F_STORE \<noteq> 0 \<and> rs_addr s = addr then Inr True
      else if j = LSQ_head c then Inr False
      else store_forward k cfg addr j c)"

definition forwarded :: "sim_cfg \<Rightarrow> nat \<Rightarrow> 'z core_scheme \<Rightarrow> bool cres" where
  "forwarded cfg i c =
     (if i = LSQ_head c then Inr False
      else store_forward (Suc (length (LSQ c))) cfg (rs_addr (LSQ c ! i)) i c)"

text \<open>The latency without a forwarding store.\<close>

definition cache_load :: "sim_cfg \<Rightarrow> 64 word \<Rightarrow> int \<Rightarrow> cpu \<Rightarrow> (int \<times> cpu) cres" where
  "cache_load cfg addr oplat c =
     (let ok = MD_VALID_ADDR (cf_regions cfg) addr;
          c1 = (if \<not> spec_mode c \<and> \<not> ok then c\<lparr>sim_invalid_addrs := sim_invalid_addrs c + 1\<rparr> else c)
      in case cache_dl1 (hier c1) of
           Some k \<Rightarrow> if ok then cbind (word_access cfg k Read addr c1) (\<lambda>(lat, c2). Inr (sint lat, c2))
                     else Inr (oplat, c1)
         | None \<Rightarrow> Inr (oplat, c1))"

definition tlb_load :: "sim_cfg \<Rightarrow> 64 word \<Rightarrow> int \<Rightarrow> int \<Rightarrow> cpu \<Rightarrow> (int \<times> int \<times> cpu) cres" where
  "tlb_load cfg addr load_lat tlb_lat c =
     (case dtlb (hier c) of
        Some k \<Rightarrow> if MD_VALID_ADDR (cf_regions cfg) addr
          then cbind (word_access cfg k Read addr c) (\<lambda>(lat, c1). Inr (max (sint lat) load_lat, sint lat, c1))
          else Inr (load_lat, tlb_lat, c)
      | None \<Rightarrow> Inr (load_lat, tlb_lat, c))"

definition stamp_load :: "sim_cfg \<Rightarrow> int \<Rightarrow> int \<Rightarrow> 64 word \<Rightarrow> station \<Rightarrow> station" where
  "stamp_load cfg load_lat tlb_lat now s =
     (let s1 = (if load_lat > cache_dl1_lat cfg
                then s\<lparr>rs_last_block := STALL_LOAD_MISS, rs_last_block_cycle := now, rs_miss_level := 2\<rparr> else s)
      in if tlb_lat > 1 then s1\<lparr>rs_last_block := STALL_DTLB_MISS, rs_last_block_cycle := now\<rparr> else s1)"

definition issue_load :: "sim_cfg \<Rightarrow> nat \<Rightarrow> int \<Rightarrow> int \<Rightarrow> cpu \<Rightarrow> (int \<times> cpu) cres" where
  "issue_load cfg i oplat tlb_lat c =
     (let addr = rs_addr (LSQ c ! i) in
      cbind (forwarded cfg i c) (\<lambda>fwd.
      cbind (if fwd then Inr (1, c) else cache_load cfg addr oplat c) (\<lambda>(lat, c1).
      cbind (tlb_load cfg addr lat tlb_lat c1) (\<lambda>(load_lat, tlb', c2).
      cbind (eventq_queue_event (InLSQ i) (sim_cycle c2 + word_of_int load_lat)
               (upd_rs (InLSQ i) (stamp_load cfg load_lat tlb' (sim_cycle c2)) c2)) (\<lambda>c3.
      Inr (tlb', c3))))))"

subsection \<open>One operation\<close>

definition set_issued :: "rsref \<Rightarrow> cpu \<Rightarrow> cpu" where
  "set_issued r c = upd_rs r (rs_issued_update (\<lambda>_. True)) c"

definition issue_store :: "sim_cfg \<Rightarrow> rsref \<Rightarrow> cpu \<Rightarrow> cpu cres" where
  "issue_store cfg r c =
     (let c1 = upd_rs r (\<lambda>s. s\<lparr>rs_issued := True, rs_completed := True\<rparr>) c; s = rs_of c1 r in
      if rs_onames s ! 0 \<noteq> 0 \<or> rs_onames s ! 1 \<noteq> 0 \<or> rs_onames s ! 2 \<noteq> 0 then
        (if rs_op s = MD_NOP_OP then Inl (Panic ''store creates result'')
         else case cf_op_kind cfg (rs_op s) of
           OpInst \<Rightarrow> Inl (Panic ''store creates result'')
         | OpLink \<Rightarrow> Inl (Panic ''attempted to execute a linking opcode'')
         | OpBogus \<Rightarrow> Inl (Panic ''attempted to execute a bogus opcode''))
      else if rs_recover_inst s then Inl (Panic ''mis-predicted store'')
      else Inr c1)"

definition issue_unit :: "sim_cfg \<Rightarrow> rsref \<Rightarrow> nat \<times> nat \<Rightarrow> int \<Rightarrow> cpu \<Rightarrow> (int \<times> cpu) cres" where
  "issue_unit cfg r fu tlb_lat c =
     (let oplat = rt_oplat (plate (fu_pool c) fu); s = rs_of c r in
      cbind (reserve_unit fu (set_issued r c)) (\<lambda>c1.
      case r of
        InLSQ i \<Rightarrow>
          if rs_in_LSQ s \<and> is_load (cf_isa cfg) (rs_op s) then issue_load cfg i oplat tlb_lat c1
          else cbind (eventq_queue_event r (sim_cycle c1 + word_of_int oplat) c1) (\<lambda>c2. Inr (tlb_lat, c2))
      | InRUU i \<Rightarrow>
          if rs_in_LSQ s \<and> is_load (cf_isa cfg) (rs_op s) then Inl OutOfBounds
          else cbind (eventq_queue_event r (sim_cycle c1 + word_of_int oplat) c1) (\<lambda>c2. Inr (tlb_lat, c2))))"

text \<open>The result: how many operations were issued, \<open>tlb_lat\<close>, and the state.\<close>

definition issue_one :: "sim_cfg \<Rightarrow> rsref \<Rightarrow> int \<Rightarrow> cpu \<Rightarrow> (nat \<times> int \<times> cpu) cres" where
  "issue_one cfg r tlb_lat c0 =
     (let s = rs_of c0 r; isa = cf_isa cfg in
      if \<not> OPERANDS_READY s \<or> \<not> rs_queued s \<or> rs_issued s \<or> rs_completed s
      then Inl (Panic ''issued inst !ready, issued, or completed'')
      else
        let c = upd_rs r (rs_queued_update (\<lambda>_. False)) c0 in
        if rs_in_LSQ s \<and> is_store isa (rs_op s) \<and> md_op2flags isa (rs_op s) AND F_ATOMIC = 0
        then cbind (issue_store cfg r c) (\<lambda>c1. Inr (1, tlb_lat, c1))
        else if MD_OP_FUCLASS cfg (rs_op s) \<noteq> int NA
        then cbind (res_get (fu_pool c) (MD_OP_FUCLASS cfg (rs_op s))) (\<lambda>fu.
          case fu of
            Some f \<Rightarrow> cbind (issue_unit cfg r f tlb_lat c) (\<lambda>(t, c1). Inr (1, t, c1))
          | None \<Rightarrow> cbind (readyq_enqueue isa r c) (\<lambda>c1. Inr (0, tlb_lat, c1)))
        else cbind (eventq_queue_event r (sim_cycle c + 1) (set_issued r c)) (\<lambda>c1. Inr (1, tlb_lat, c1)))"

subsection \<open>The stage\<close>

fun issue_loop :: "nat \<Rightarrow> sim_cfg \<Rightarrow> nat option \<Rightarrow> nat \<Rightarrow> int \<Rightarrow> cpu \<Rightarrow> (nat option \<times> cpu) cres" where
  "issue_loop 0 cfg node n_issued tlb_lat c = Inl Diverge"
| "issue_loop (Suc k) cfg node n_issued tlb_lat c =
     (case node of
        None \<Rightarrow> Inr (None, c)
      | Some n \<Rightarrow>
          if \<not> n_issued < ruu_issue_width cfg then Inr (Some n, c)
          else
            cbind (RSLINK_VALID c n) (\<lambda>valid.
            cbind (if valid then issue_one cfg (the (lk_rs (links c ! n))) tlb_lat c else Inr (0, tlb_lat, c)) (\<lambda>(m, t, c1).
            issue_loop k cfg (lk_next (links c ! n)) (n_issued + m) t (RSLINK_FREE n c1))))"

fun requeue_loop :: "nat \<Rightarrow> op_isa \<Rightarrow> nat option \<Rightarrow> 'z core_scheme \<Rightarrow> 'z core_scheme cres" where
  "requeue_loop 0 isa node c = Inl Diverge"
| "requeue_loop (Suc k) isa None c = Inr c"
| "requeue_loop (Suc k) isa (Some n) c =
     cbind (RSLINK_VALID c n) (\<lambda>valid.
     let r = the (lk_rs (links c ! n)) in
     cbind (if valid then readyq_enqueue isa r (upd_rs r (rs_queued_update (\<lambda>_. False)) c) else Inr c) (\<lambda>c1.
     requeue_loop k isa (lk_next (links c ! n)) (RSLINK_FREE n c1)))"

definition ruu_issue :: "sim_cfg \<Rightarrow> int \<Rightarrow> cpu \<Rightarrow> cpu cres" where
  "ruu_issue cfg junk c =
     cbind (issue_loop (Suc (length (links c))) cfg (ready_queue c) 0 junk (c\<lparr>ready_queue := None\<rparr>)) (\<lambda>(node, c1).
     requeue_loop (Suc (length (links c))) (cf_isa cfg) node c1)"

end
