(* ===== verification/CommitProps.thy ===== *)
theory CommitProps
  imports Issue RecoverCorrect
begin

text \<open>
  The properties of retirement and of store forwarding: what one call of the commit stage retires,
  and when a load takes its value from an earlier store in the load/store queue.
\<close>

subsection \<open>What the parts of a commit leave alone\<close>

lemma truncate_eqD:
  assumes "core.truncate c1 = core.truncate c"
  shows "RUU c1 = RUU c" "LSQ c1 = LSQ c" "RUU_head c1 = RUU_head c" "RUU_num c1 = RUU_num c"
    "LSQ_head c1 = LSQ_head c" "LSQ_num c1 = LSQ_num c"
  using assms by (simp_all add: core.truncate_def)

lemma reserve_unit_frame: "reserve_unit fu c = Inr c1 \<Longrightarrow> core.truncate c1 = core.truncate c \<and> td c1 = td c"
  by (auto simp: reserve_unit_def core.truncate_def cbind_Inr_iff split: if_splits)

lemma optional_access_frame: "optional_access cfg k cmd a c = Inr c1 \<Longrightarrow> core.truncate c1 = core.truncate c \<and> td c1 = td c"
  by (auto simp: optional_access_def word_access_def core.truncate_def cbind_Inr_iff split: option.splits)

lemma predictor_update_frame: "predictor_update cfg s c = Inr c1 \<Longrightarrow> core.truncate c1 = core.truncate c \<and> td c1 = td c"
  by (auto simp: predictor_update_def core.truncate_def cbind_Inr_iff split: option.splits)

text \<open>The fields commit reads, with the tags.\<close>

definition same_ops :: "'z core_scheme \<Rightarrow> 'y core_scheme \<Rightarrow> bool" where
  "same_ops c c1 \<longleftrightarrow> map rs_tag (RUU c1) = map rs_tag (RUU c)
     \<and> map rs_completed (RUU c1) = map rs_completed (RUU c) \<and> map rs_ea_comp (RUU c1) = map rs_ea_comp (RUU c)
     \<and> map rs_tag (LSQ c1) = map rs_tag (LSQ c) \<and> map rs_completed (LSQ c1) = map rs_completed (LSQ c)
     \<and> RUU_head c1 = RUU_head c \<and> RUU_num c1 = RUU_num c \<and> LSQ_head c1 = LSQ_head c \<and> LSQ_num c1 = LSQ_num c"

lemma map_upd_same: "g y = g (xs ! i) \<Longrightarrow> map g (xs[i := y]) = map g xs"
  by (cases "i < length xs"; rule nth_equalityI) (auto simp: nth_list_update)

lemma same_ops_truncate: "core.truncate c1 = core.truncate c \<Longrightarrow> same_ops c c1"
  using truncate_eqD [of c1 c] by (simp add: same_ops_def)

lemma stall_frame:
  "same_ops c (stall_head c)" "same_ops c (stall_mem c)" "same_ops c (stall_port c)"
  "Hnr_this (td (stall_head c))" "Hnr_this (td (stall_mem c))" "Hnr_this (td (stall_port c))"
  by (simp_all add: stall_head_def stall_mem_def stall_port_def same_ops_def Let_def upd_td_def arm_latewb_def
      log_head_stall_def upd_rs_def map_upd_same)

subsection \<open>One operation\<close>

lemma commit_mem_stays:
  assumes "commit_mem cfg c = Inr (False, c1)"
  shows "same_ops c c1" "Hnr_this (td c1)"
proof -
  have port: "same_ops c c1 \<and> Hnr_this (td c1)" if "commit_store cfg c = Inr (False, c1)"
    using that stall_frame(3,6) [of c] by (auto simp: commit_store_def cbind_Inr_iff Let_def split: option.splits)
  show "same_ops c c1" "Hnr_this (td c1)"
    using assms port stall_frame(2,5) [of c]
    by (auto simp: commit_mem_def Let_def cbind_Inr_iff split: if_splits)
qed

lemma commit_store_goes:
  "commit_store cfg c = Inr (True, c1) \<Longrightarrow> core.truncate c1 = core.truncate c \<and> td c1 = td c"
  by (auto simp: commit_store_def Let_def cbind_Inr_iff split: option.splits
      dest!: reserve_unit_frame optional_access_frame)

definition bump_tag :: "station \<Rightarrow> station" where
  "bump_tag s = s\<lparr>rs_tag := rs_tag s + 1\<rparr>"

lemma commit_mem_goes:
  assumes "commit_mem cfg c = Inr (True, c1)"
  shows "RUU c1 = RUU c" "RUU_head c1 = RUU_head c" "RUU_num c1 = RUU_num c" "LSQ_num c \<noteq> 0"
    "rs_completed (LSQ c ! LSQ_head c)" "LSQ c1 = (LSQ c)[LSQ_head c := bump_tag (LSQ c ! LSQ_head c)]"
    "LSQ_head c1 = (LSQ_head c + 1) mod length (LSQ c)" "LSQ_num c1 = LSQ_num c - 1"
proof -
  obtain c2 where c2: "core.truncate c2 = core.truncate c" "c1 = retire_lsq c2" and
    ok: "LSQ_num c \<noteq> 0" "rs_completed (LSQ c ! LSQ_head c)"
  proof -
    have ok: "LSQ_num c \<noteq> 0" "rs_completed (LSQ c ! LSQ_head c)"
      and run: "cbind (if is_store (cf_isa cfg) (rs_op (LSQ c ! LSQ_head c)) then commit_store cfg c else Inr (True, c))
        (\<lambda>(goes, c1). Inr (goes, if goes then retire_lsq c1 else c1)) = Inr (True, c1)"
      using assms by (simp_all add: commit_mem_def Let_def split: if_splits)
    from run obtain c2 where "(if is_store (cf_isa cfg) (rs_op (LSQ c ! LSQ_head c)) then commit_store cfg c else Inr (True, c))
        = Inr (True, c2)" "c1 = retire_lsq c2"
      by (simp only: cbind_Inr_iff split_paired_Ex) auto
    moreover from this(1) have "core.truncate c2 = core.truncate c"
      using commit_store_goes [of cfg c c2] by (simp split: if_splits)
    ultimately show ?thesis using ok that by blast
  qed
  show "RUU c1 = RUU c" "RUU_head c1 = RUU_head c" "RUU_num c1 = RUU_num c" "LSQ_num c \<noteq> 0"
    "rs_completed (LSQ c ! LSQ_head c)" "LSQ c1 = (LSQ c)[LSQ_head c := bump_tag (LSQ c ! LSQ_head c)]"
    "LSQ_head c1 = (LSQ_head c + 1) mod length (LSQ c)" "LSQ_num c1 = LSQ_num c - 1"
    using truncate_eqD [OF c2(1)] ok by (simp_all add: c2(2) retire_lsq_def Let_def upd_rs_def bump_tag_def)
qed

lemma retire_ruu_goes:
  assumes "retire_ruu c = Inr c1"
  shows "RUU c1 = (RUU c)[RUU_head c := bump_tag (RUU c ! RUU_head c)]" "LSQ c1 = LSQ c"
    "RUU_head c1 = (RUU_head c + 1) mod length (RUU c)" "RUU_num c1 = RUU_num c - 1"
    "LSQ_head c1 = LSQ_head c" "LSQ_num c1 = LSQ_num c"
  using assms by (auto simp: retire_ruu_def Let_def upd_rs_def bump_tag_def split: if_splits)

lemma commit_head_goes:
  assumes "commit_head cfg c = Inr (True, c1)"
  shows "rs_completed (RUU c ! RUU_head c)" "RUU c1 = (RUU c)[RUU_head c := bump_tag (RUU c ! RUU_head c)]"
    "RUU_head c1 = (RUU_head c + 1) mod length (RUU c)" "RUU_num c1 = RUU_num c - 1"
    "rs_ea_comp (RUU c ! RUU_head c) \<Longrightarrow> LSQ_num c \<noteq> 0 \<and> rs_completed (LSQ c ! LSQ_head c)"
    "LSQ c1 = (if rs_ea_comp (RUU c ! RUU_head c) then (LSQ c)[LSQ_head c := bump_tag (LSQ c ! LSQ_head c)] else LSQ c)"
    "LSQ_head c1 = (if rs_ea_comp (RUU c ! RUU_head c) then (LSQ_head c + 1) mod length (LSQ c) else LSQ_head c)"
    "LSQ_num c1 = LSQ_num c - (if rs_ea_comp (RUU c ! RUU_head c) then 1 else 0)"
proof -
  let ?s = "RUU c ! RUU_head c" and ?c0 = "upd_td (latewb_head_uop_update (\<lambda>_. rs_uop_id (RUU c ! RUU_head c))) c"
  have t0: "core.truncate ?c0 = core.truncate c" by (simp add: upd_td_def core.truncate_def)
  note T0 = truncate_eqD [OF t0]
  let ?pu = "\<lambda>c2. if bpred_spec_update cfg = spec_CT \<and> md_op2flags (cf_isa cfg) (rs_op ?s) AND F_CTRL \<noteq> 0
         then predictor_update cfg ?s c2 else Inr c2"
  have ok: "rs_completed ?s" using assms unfolding commit_head_def Let_def by (simp split: if_splits)
  have run: "cbind (if rs_ea_comp ?s then commit_mem cfg ?c0 else Inr (True, ?c0)) (\<lambda>(goes, c1).
        if \<not> goes then Inr (False, c1) else cbind (?pu c1) (\<lambda>c2. cbind (retire_ruu c2) (\<lambda>c3. Inr (True, c3)))) = Inr (True, c1)"
    using assms unfolding commit_head_def Let_def by (simp only: ok not_True_eq_False if_False)
  from run obtain g c2 where c2': "(if rs_ea_comp ?s then commit_mem cfg ?c0 else Inr (True, ?c0)) = Inr (g, c2)"
    and rest: "(if \<not> g then Inr (False, c2) else cbind (?pu c2) (\<lambda>c2. cbind (retire_ruu c2) (\<lambda>c3. Inr (True, c3)))) = Inr (True, c1)"
    unfolding cbind_Inr_iff split_paired_Ex prod.case by blast
  have g: "g" using rest by (cases g) simp_all
  with c2' have c2: "(if rs_ea_comp ?s then commit_mem cfg ?c0 else Inr (True, ?c0)) = Inr (True, c2)" by simp
  from rest g obtain c3 where c3: "?pu c2 = Inr c3" and c1: "retire_ruu c3 = Inr c1"
    by (simp only: cbind_Inr_iff not_True_eq_False if_False) auto
  have t3: "core.truncate c3 = core.truncate c2"
    using c3 predictor_update_frame [of cfg ?s c2 c3] by (auto split: if_splits)
  note T3 = truncate_eqD [OF t3] and R = retire_ruu_goes [OF c1]
  show "rs_completed ?s" by (rule ok)
  have M: "RUU c2 = RUU c \<and> RUU_head c2 = RUU_head c \<and> RUU_num c2 = RUU_num c
    \<and> (rs_ea_comp ?s \<longrightarrow> LSQ_num c \<noteq> 0 \<and> rs_completed (LSQ c ! LSQ_head c))
    \<and> LSQ c2 = (if rs_ea_comp ?s then (LSQ c)[LSQ_head c := bump_tag (LSQ c ! LSQ_head c)] else LSQ c)
    \<and> LSQ_head c2 = (if rs_ea_comp ?s then (LSQ_head c + 1) mod length (LSQ c) else LSQ_head c)
    \<and> LSQ_num c2 = LSQ_num c - (if rs_ea_comp ?s then 1 else 0)"
  proof (cases "rs_ea_comp ?s")
    case True
    then have "commit_mem cfg ?c0 = Inr (True, c2)" using c2 by simp
    from commit_mem_goes [OF this] T0 show ?thesis using True by simp
  next
    case False
    then have "c2 = ?c0" using c2 by simp
    then show ?thesis using False T0 by simp
  qed
  show "RUU c1 = (RUU c)[RUU_head c := bump_tag (RUU c ! RUU_head c)]"
    "RUU_head c1 = (RUU_head c + 1) mod length (RUU c)" "RUU_num c1 = RUU_num c - 1"
    "rs_ea_comp (RUU c ! RUU_head c) \<Longrightarrow> LSQ_num c \<noteq> 0 \<and> rs_completed (LSQ c ! LSQ_head c)"
    "LSQ c1 = (if rs_ea_comp (RUU c ! RUU_head c) then (LSQ c)[LSQ_head c := bump_tag (LSQ c ! LSQ_head c)] else LSQ c)"
    "LSQ_head c1 = (if rs_ea_comp (RUU c ! RUU_head c) then (LSQ_head c + 1) mod length (LSQ c) else LSQ_head c)"
    "LSQ_num c1 = LSQ_num c - (if rs_ea_comp (RUU c ! RUU_head c) then 1 else 0)"
    using R T3 M by simp_all
qed

lemma commit_head_stays:
  assumes "commit_head cfg c = Inr (False, c1)"
  shows "same_ops c c1" "Hnr_this (td c1)"
proof -
  let ?c0 = "upd_td (latewb_head_uop_update (\<lambda>_. rs_uop_id (RUU c ! RUU_head c))) c"
  have t0: "same_ops (upd_td g c) d = same_ops c d" for g and d :: cpu
    by (simp_all add: upd_td_def same_ops_def)
  have "same_ops ?c0 c1 \<and> Hnr_this (td c1)"
    using assms commit_mem_stays [of cfg ?c0 c1] stall_frame(1,4) [of ?c0]
    unfolding commit_head_def Let_def
    by (auto simp: cbind_Inr_iff split: if_splits)
  then show "same_ops c c1" "Hnr_this (td c1)" by (simp_all add: t0)
qed

subsection \<open>The stage\<close>

text \<open>The first \<open>n\<close> operations of the RUU have left it, with their entries in the load/store queue:
  all were complete, their tags are bumped and no other tag is.\<close>

definition bumped :: "nat set \<Rightarrow> station list \<Rightarrow> station list \<Rightarrow> bool" where
  "bumped A xs ys \<longleftrightarrow> map rs_tag ys = map (\<lambda>i. rs_tag (xs ! i) + (if i \<in> A then 1 else 0)) [0..<length xs]"

definition retired :: "nat \<Rightarrow> 'z core_scheme \<Rightarrow> 'z core_scheme \<Rightarrow> bool" where
  "retired n c c' \<longleftrightarrow> (let m = mem_ops c [0..<n] in
     n \<le> RUU_num c \<and> RUU_num c' = RUU_num c - n \<and> RUU_head c' = ruu_pos c n
     \<and> m \<le> LSQ_num c \<and> LSQ_num c' = LSQ_num c - m \<and> LSQ_head c' = lsq_pos c m
     \<and> (\<forall>j < n. rs_completed (RUU c ! ruu_pos c j)) \<and> (\<forall>j < m. rs_completed (LSQ c ! lsq_pos c j))
     \<and> map rs_completed (RUU c') = map rs_completed (RUU c) \<and> map rs_ea_comp (RUU c') = map rs_ea_comp (RUU c)
     \<and> map rs_completed (LSQ c') = map rs_completed (LSQ c)
     \<and> bumped (ruu_pos c ` {..<n}) (RUU c) (RUU c') \<and> bumped (lsq_pos c ` {..<m}) (LSQ c) (LSQ c'))"

lemma bumped_none: "bumped {} xs xs"
  unfolding bumped_def by (rule nth_equalityI) simp_all

lemma bumped_nth:
  assumes "bumped A xs ys"
  shows "length ys = length xs" "i < length xs \<Longrightarrow> rs_tag (ys ! i) = rs_tag (xs ! i) + (if i \<in> A then 1 else 0)"
proof -
  show l: "length ys = length xs" using arg_cong [OF assms [unfolded bumped_def], of length] by simp
  show "i < length xs \<Longrightarrow> rs_tag (ys ! i) = rs_tag (xs ! i) + (if i \<in> A then 1 else 0)"
    using arg_cong [OF assms [unfolded bumped_def], of "\<lambda>zs. zs ! i"] l by simp
qed

lemma bumped_insert:
  assumes "bumped A xs ys" "p < length xs" "p \<notin> A"
  shows "bumped (insert p A) xs (ys[p := bump_tag (ys ! p)])"
  unfolding bumped_def
  by (rule nth_equalityI) (use assms bumped_nth [OF assms(1)] in \<open>simp_all add: nth_list_update bump_tag_def\<close>)

lemma same_ops_retired:
  "retired n c c1 \<Longrightarrow> same_ops c1 c2 \<Longrightarrow> retired n c c2"
  by (simp add: retired_def same_ops_def Let_def bumped_def)

lemma retired_0: "rings_wf c \<Longrightarrow> retired 0 c c"
  by (simp add: retired_def rings_wf_def ruu_pos_def lsq_pos_def mem_ops_def bumped_none)

lemma map_eq_nth: "map g ys = map g xs \<Longrightarrow> i < length xs \<Longrightarrow> g (ys ! i) = g (xs ! i)"
  by (metis length_map nth_map)

lemma retired_Suc:
  assumes wf: "rings_wf c" and r: "retired n c c1" and n: "n < RUU_num c"
    and go: "commit_head cfg c1 = Inr (True, c2)"
  shows "retired (Suc n) c c2"
proof -
  let ?m = "mem_ops c [0..<n]" and ?p = "ruu_pos c n" and ?q = "lsq_pos c (mem_ops c [0..<n])"
  have R: "RUU_num c1 = RUU_num c - n" "RUU_head c1 = ?p" "?m \<le> LSQ_num c" "LSQ_num c1 = LSQ_num c - ?m" "LSQ_head c1 = ?q"
    "\<forall>j < n. rs_completed (RUU c ! ruu_pos c j)" "\<forall>j < ?m. rs_completed (LSQ c ! lsq_pos c j)"
    "map rs_completed (RUU c1) = map rs_completed (RUU c)" "map rs_ea_comp (RUU c1) = map rs_ea_comp (RUU c)"
    "map rs_completed (LSQ c1) = map rs_completed (LSQ c)"
    "bumped (ruu_pos c ` {..<n}) (RUU c) (RUU c1)" "bumped (lsq_pos c ` {..<?m}) (LSQ c) (LSQ c1)"
    using r by (simp_all add: retired_def Let_def)
  have W: "RUU_num c \<le> length (RUU c)" "LSQ_num c \<le> length (LSQ c)" "0 < length (RUU c)" "0 < length (LSQ c)"
    using wf by (simp_all add: rings_wf_def)
  have len: "length (RUU c1) = length (RUU c)" "length (LSQ c1) = length (LSQ c)"
    using bumped_nth(1) [OF R(11)] bumped_nth(1) [OF R(12)] by simp_all
  have p: "?p < length (RUU c)" "?q < length (LSQ c)" using W(3,4) by (simp_all add: ruu_pos_def lsq_pos_def)
  note G = commit_head_goes [OF go, unfolded R(2,5) len]
  let ?ea = "rs_ea_comp (RUU c ! ?p)"
  have ea: "rs_ea_comp (RUU c1 ! ?p) = ?ea" and done1: "rs_completed (RUU c ! ?p)"
    using map_eq_nth [OF R(9) p(1)] map_eq_nth [OF R(8) p(1)] G(1) by simp_all
  have lsq: "?m < LSQ_num c \<and> rs_completed (LSQ c ! ?q)" if ?ea
    using G(5) that ea R(4) map_eq_nth [OF R(10) p(2)] by auto
  have m: "mem_ops c [0..<Suc n] = ?m + (if ?ea then 1 else 0)" by (simp add: mem_ops_def)
  have pn: "?p \<notin> ruu_pos c ` {..<n}" using ruu_pos_inj [of c n] n W(1) by fastforce
  have qn: "?q \<notin> lsq_pos c ` {..<?m}" if ?ea using lsq_pos_inj [of c ?m] lsq [OF that] W(2) by fastforce
  have h: "(?p + 1) mod length (RUU c) = ruu_pos c (Suc n)" "(?q + 1) mod length (LSQ c) = lsq_pos c (Suc ?m)"
    by (simp_all add: ruu_pos_def lsq_pos_def mod_Suc_eq)
  have b1: "bumped (ruu_pos c ` {..<Suc n}) (RUU c) (RUU c2)"
    unfolding G(2) lessThan_Suc image_insert by (rule bumped_insert [OF R(11) p(1) pn])
  have b2: "bumped (lsq_pos c ` {..<mem_ops c [0..<Suc n]}) (LSQ c) (LSQ c2)"
  proof (cases ?ea)
    case True
    then show ?thesis unfolding m using bumped_insert [OF R(12) p(2) qn [OF True]]
      by (simp add: G(6) ea lessThan_Suc)
  next
    case False
    then show ?thesis unfolding m using R(12) by (simp add: G(6) ea)
  qed
  have keep: "map rs_completed (RUU c2) = map rs_completed (RUU c)" "map rs_ea_comp (RUU c2) = map rs_ea_comp (RUU c)"
    "map rs_completed (LSQ c2) = map rs_completed (LSQ c)"
    using R(8,9,10) by (simp_all add: G(2,6) map_upd_same bump_tag_def)
  have done2: "\<forall>j < Suc n. rs_completed (RUU c ! ruu_pos c j)" using R(6) done1 less_Suc_eq by auto
  have done3: "\<forall>j < mem_ops c [0..<Suc n]. rs_completed (LSQ c ! lsq_pos c j)"
    unfolding m using R(7) lsq less_Suc_eq by auto
  show ?thesis unfolding retired_def Let_def
  proof (intro conjI)
    show "mem_ops c [0..<Suc n] \<le> LSQ_num c" "LSQ_num c2 = LSQ_num c - mem_ops c [0..<Suc n]"
      "LSQ_head c2 = lsq_pos c (mem_ops c [0..<Suc n])"
      unfolding m using R(3,4) lsq G(7,8) ea h(2) by (auto split: if_splits)
  qed (use n R(1) G(3,4) h(1) b1 b2 keep done2 done3 in simp_all)
qed

lemma commit_loop_retires:
  assumes "rings_wf c"
  shows "retired n c c1 \<Longrightarrow> commit_loop cfg k n c1 = Inr (n', c') \<Longrightarrow>
    n \<le> n' \<and> n' \<le> n + k \<and> retired n' c c' \<and> (n' < n + k \<and> n' < RUU_num c \<longrightarrow> Hnr_this (td c'))"
proof (induction k arbitrary: n c1)
  case 0
  then show ?case by simp
next
  case (Suc k)
  have num: "RUU_num c1 = RUU_num c - n" "n \<le> RUU_num c" using Suc.prems(1) by (simp_all add: retired_def Let_def)
  show ?case
  proof (cases "RUU_num c1 = 0")
    case True
    then show ?thesis using Suc.prems num by simp
  next
    case False
    then obtain g c2 where g: "commit_head cfg c1 = Inr (g, c2)"
      and rest: "(if g then commit_loop cfg k (Suc n) c2 else Inr (n, c2)) = Inr (n', c')"
      using Suc.prems(2) by (auto simp: cbind_Inr_iff)
    show ?thesis
    proof (cases g)
      case True
      then have "retired (Suc n) c c2" using retired_Suc [OF assms Suc.prems(1), of cfg c2] g num False by simp
      from Suc.IH [OF this] show ?thesis using rest True by auto
    next
      case False
      then show ?thesis using rest g commit_head_stays [of cfg c1 c2] same_ops_retired [OF Suc.prems(1), of c2] by auto
    qed
  qed
qed

text \<open>C22: One call of the commit stage retires a prefix of the operations in the RUU, in program order
  and at most the commit width: each was complete, a memory operation leaves together with the head
  of the load/store queue, which was complete as well, exactly these slots get a new tag, and the
  number is what the stage reports. When it stops short of the width with operations left, it has
  recorded that the head is not ready.\<close>

theorem ruu_commit_in_order:
  assumes "rings_wf c" "ruu_commit cfg c = Inr c'"
  shows "\<exists>n \<le> ruu_commit_width cfg. retired n c c' \<and> R_this (td c') = int n
    \<and> (n < ruu_commit_width cfg \<and> n < RUU_num c \<longrightarrow> Hnr_this (td c'))"
proof -
  obtain n c1 where n: "commit_loop cfg (ruu_commit_width cfg) 0 c = Inr (n, c1)"
    and c': "c' = upd_td (R_this_update (\<lambda>_. int n)) (if n > 0 then c1\<lparr>stall_active := False, last_head_uop_id := 0\<rparr> else c1)"
    using assms(2) by (auto simp: ruu_commit_def cbind_Inr_iff Let_def)
  note L = commit_loop_retires [OF assms(1) retired_0 [OF assms(1)] n]
  have "same_ops c1 c'" by (simp add: c' upd_td_def same_ops_def)
  then have "retired n c c'" using L same_ops_retired by blast
  moreover have "R_this (td c') = int n" "Hnr_this (td c') = Hnr_this (td c1)" by (simp_all add: c' upd_td_def)
  ultimately show ?thesis using L by auto
qed

text \<open>A machine with two operations in flight, of which the first is complete.\<close>

definition small_hier :: mem_hier where
  "small_hier = \<lparr>hcaches = [], cache_dl1 = None, cache_dl2 = None, cache_il1 = None, cache_il2 = None, itlb = None,
     dtlb = None, hier_accesses = 0, hier_err = None\<rparr>"

definition small_cpu :: "station list \<Rightarrow> station list \<Rightarrow> cpu" where
  "small_cpu ru ls = \<lparr>RUU = ru, RUU_head = 0, RUU_tail = 0, RUU_num = length ru, LSQ = ls, LSQ_head = 0, LSQ_tail = 0,
     LSQ_num = length ls, links = [], rslink_free_list = None, event_queue = None, ready_queue = None, use_spec_cv = replicate 3 0,
     create_vector = [], spec_create_vector = [], create_vector_rt = [], spec_create_vector_rt = [],
     sim_cycle = 0, spec_mode = False,
     fu_pool = \<lparr>rp_name = [], rp_num_resources = 0, rp_resources = [], rp_nents = [], rp_table = []\<rparr>,
     pred = None, hier = small_hier,
     spec_st = spec_init \<lparr>store_htable = [], bucket_free_list = None, buckets = []\<rparr>, use_spec_R = [0], use_spec_F = [0],
     use_spec_C = [0], fetch_num = 0, fetch_head = 0, fetch_tail = 0, fetch_pred_PC = 0, fetch_regs_PC = 0, recover_PC = 0,
     regs_PC = 0, ruu_fetch_issue_delay = 0, sim_slip = 0, sim_invalid_addrs = 0, td = cycle_reset_classify_latches,
     last_head_uop_id = 0, stall_active = False\<rparr>"

definition small_cfg :: sim_cfg where
  "small_cfg = \<lparr>cf_isa = \<lparr>md_op2flags = (\<lambda>n. if n = 2 then F_MEM OR F_LOAD else if n = 3 then F_MEM OR F_STORE else 0),
       op_JAL = 7, op_C_JR = 8\<rparr>,
     MD_OP_FUCLASS = (\<lambda>_. 0), cf_op_kind = (\<lambda>_. OpInst),
     cf_lat = \<lparr>mem_lat0 = 18, mem_lat1 = 2, mem_bus_width = 8, tlb_miss_lat = 30\<rparr>,
     cf_regions = \<lparr>ld_text_base = 0x1000, ld_text_size = 0x1000, ld_data_base = 0x4000, ld_brk_point = 0x8000, ld_stack_base = 0x7fff0000\<rparr>,
     cf_rand = (\<lambda>_. 0), cache_dl1_lat = 1, ruu_commit_width = 4, ruu_issue_width = 4, ruu_branch_penalty = 3,
     bpred_spec_update = spec_CT\<rparr>"

definition half_done :: cpu where
  "half_done = small_cpu [zero_station\<lparr>rs_completed := True\<rparr>, zero_station] [zero_station]"

theorem ruu_commit_in_order_witness:
  "\<exists>c'. ruu_commit small_cfg half_done = Inr c' \<and> R_this (td c') = 1 \<and> retired 1 half_done c' \<and> Hnr_this (td c')"
proof -
  have ok: "rings_wf half_done" "RUU_num half_done = 2" "ruu_commit_width small_cfg = 4" by code_simp+
  have "case ruu_commit small_cfg half_done of Inr c' \<Rightarrow> R_this (td c') = 1 | Inl _ \<Rightarrow> False" by code_simp
  then obtain c' where c': "ruu_commit small_cfg half_done = Inr c'" "R_this (td c') = 1" by (auto split: sum.splits)
  from ruu_commit_in_order [OF ok(1) c'(1)] show ?thesis using c' ok by auto
qed

subsection \<open>Store forwarding\<close>

definition stores_to :: "sim_cfg \<Rightarrow> 64 word \<Rightarrow> station \<Rightarrow> bool" where
  "stores_to cfg a s \<longleftrightarrow> md_op2flags (cf_isa cfg) (rs_op s) AND F_STORE \<noteq> 0 \<and> rs_addr s = a"

lemma lsq_pos_head:
  assumes "LSQ_head c < length (LSQ c)" "j < length (LSQ c)"
  shows "lsq_pos c j = LSQ_head c \<longleftrightarrow> j = 0"
proof -
  have "0 < length (LSQ c)" "lsq_pos c 0 = LSQ_head c" using assms by (auto simp: lsq_pos_def)
  then show ?thesis using lsq_pos_inj [of c j 0] assms(2) by metis
qed

lemma store_forward_ok:
  assumes "LSQ_head c < length (LSQ c)" "j < length (LSQ c)"
  shows "j < k \<Longrightarrow> j \<noteq> 0 \<Longrightarrow> store_forward k cfg a (lsq_pos c j) c = Inr (\<exists>m < j. stores_to cfg a (LSQ c ! lsq_pos c m))"
  using assms(2)
proof (induction j arbitrary: k)
  case 0
  then show ?case by simp
next
  case (Suc j)
  obtain m where k: "k = Suc m" "j < m" using Suc.prems(1) by (cases k) auto
  have N: "0 < length (LSQ c)" using assms by linarith
  have p: "prev_slot (length (LSQ c)) (lsq_pos c (Suc j)) = lsq_pos c j"
    using prev_slot_ring [OF N, of "LSQ_head c" j] by (simp add: lsq_pos_def)
  have h: "lsq_pos c j = LSQ_head c \<longleftrightarrow> j = 0"
    using lsq_pos_head [OF assms(1), of j] Suc.prems(3) by simp
  have step: "store_forward k cfg a (lsq_pos c (Suc j)) c = (if stores_to cfg a (LSQ c ! lsq_pos c j) then Inr True
      else if j = 0 then Inr False else store_forward m cfg a (lsq_pos c j) c)"
    unfolding k(1) store_forward.simps(2) Let_def p stores_to_def h ..
  show ?case unfolding step using Suc.IH [OF k(2)] Suc.prems(3) less_Suc_eq by auto
qed

text \<open>C31: The search for a forwarding store always ends, and finds one exactly when an earlier entry of
  the load/store queue is a store to the load's address; it never looks past the head of the queue.\<close>

theorem load_forwarding:
  assumes "LSQ_head c < length (LSQ c)" "j < length (LSQ c)"
  shows "forwarded cfg (lsq_pos c j) c
    = Inr (\<exists>m < j. md_op2flags (cf_isa cfg) (rs_op (LSQ c ! lsq_pos c m)) AND F_STORE \<noteq> 0
        \<and> rs_addr (LSQ c ! lsq_pos c m) = rs_addr (LSQ c ! lsq_pos c j))"
proof (cases "j = 0")
  case True
  then show ?thesis using assms(1) by (simp add: forwarded_def lsq_pos_def)
next
  case False
  have "lsq_pos c j \<noteq> LSQ_head c" using lsq_pos_head [OF assms] False by simp
  then show ?thesis using store_forward_ok [OF assms _ False, of "Suc (length (LSQ c))"] assms(2)
    by (simp add: forwarded_def stores_to_def del: store_forward.simps)
qed

definition load_after_store :: cpu where
  "load_after_store = small_cpu [] [zero_station\<lparr>rs_op := 3, rs_addr := 0x4000\<rparr>, zero_station\<lparr>rs_op := 2, rs_addr := 0x4000\<rparr>]"

theorem load_forwarding_witness: "forwarded small_cfg 1 load_after_store = Inr True"
proof -
  have "LSQ_head load_after_store < length (LSQ load_after_store)" "1 < length (LSQ load_after_store)"
    "lsq_pos load_after_store 1 = 1"
    "stores_to small_cfg (rs_addr (LSQ load_after_store ! lsq_pos load_after_store 1)) (LSQ load_after_store ! lsq_pos load_after_store 0)"
    by code_simp+
  then show ?thesis using load_forwarding [of load_after_store 1 small_cfg] by (auto simp: stores_to_def)
qed

end
