(* ===== verification/RvTable.thy ===== *)
theory RvTable
  imports InsnFlags
begin

text \<open>
  The instruction table of the target, riscv.def, as data: its three kinds of line
  (\<open>DEFINST\<close>, \<open>DEFLINK\<close>, \<open>CONNECT\<close>) in the order of the file, for the configuration of
  config_rv64g.h (I, M, A, F, D and C on). The simulators include the file several times
  with different definitions of the three macros; here each inclusion is a function over the
  list \<open>machine_def\<close>. The opcodes whose rows the file generates with \<open>C_LUI_EXPAND\<close>,
  \<open>C_MV_EXPAND\<close>, \<open>C_ADD_EXPAND\<close> and \<open>C_JALR_EXPAND\<close> carry the two-digit suffix as a number.
\<close>

subsection \<open>Opcodes\<close>

datatype u_op = LUI | AUIPC | JAL | JALR

datatype branch_op = BEQ | BNE | BLT | BGE | BLTU | BGEU

datatype load_op = LB | LH | LW | LD | LBU | LHU | LWU

datatype store_op = SB | SH | SW | SD

datatype imm_op = ADDIW | SLLIW | SRLIW | SRAIW | ADDI | SLTI | SLTIU | XORI | ORI | ANDI | SLLI |
    SRLI | SRAI

datatype reg_op = ADD | SLL | SLT | SLTU | XOR_OP | SRL | OR_OP | AND_OP | SUB | SRA | ADDW |
    SLLW | SRLW | SUBW | SRAW

datatype sys_op = FENCE | FENCE_I | ECALL | EBREAK | SRET | MRET

datatype csr_op = CSRRW | CSRRS | CSRRC | CSRRWI | CSRRSI | CSRRCI

datatype mul_op = MULW | DIVW | DIVUW | REMW | REMUW | MUL | MULH | MULHSU | MULHU | DIV | DIVU |
    REM | REMU

datatype (plugins only: code size) amo_op = LR_W | SC_W | AMOSWAP_W | AMOADD_W | AMOXOR_W |
    AMOAND_W | AMOOR_W | AMOMIN_W | AMOMAX_W | AMOMINU_W | AMOMAXU_W | LR_D | SC_D | AMOSWAP_D |
    AMOADD_D | AMOXOR_D | AMOAND_D | AMOOR_D | AMOMIN_D | AMOMAX_D | AMOMINU_D | AMOMAXU_D

datatype (plugins only: code size) fp_op = FLW | FLD | FSW | FSD | FMADD_S | FMADD_D | FMSUB_S |
    FMSUB_D | FNMSUB_S | FNMSUB_D | FNMADD_S | FNMADD_D | FADD_S | FSUB_S | FMUL_S | FDIV_S |
    FSQRT_S | FMV_W_X | FMV_D_X | FADD_D | FSUB_D | FMUL_D | FDIV_D | FSQRT_D | FSGNJ_D |
    FSGNJN_D | FSGNJX_D | FMIN_D | FMAX_D | FCVT_S_D | FCVT_D_S | FEQ_D | FLT_D | FLE_D |
    FMV_X_D | FCLASS_D | FCVT_W_D | FCVT_WU_D | FCVT_L_D | FCVT_LU_D | FCVT_D_W | FCVT_D_WU |
    FCVT_D_L | FCVT_D_LU | FSGNJ_S | FSGNJN_S | FSGNJX_S | FMIN_S | FMAX_S | FCVT_W_S | FCVT_L_S |
    FCVT_WU_S | FCVT_LU_S | FMV_X_W | FCLASS_S | FEQ_S | FLT_S | FLE_S | FCVT_S_W | FCVT_S_WU |
    FCVT_S_L | FCVT_S_LU

datatype (plugins only: code size) c_op = C_ADDI4SPN | C_FLD | C_LW | C_LD | C_FSD | C_SW | C_SD |
    C_ADDI | C_ADDIW | C_LI | C_J | C_BEQZ | C_BNEZ | C_ADDI16SP | C_SRLI64 | C_SRAI64 | C_ANDI |
    C_SUB | C_XOR | C_OR | C_AND | C_SUBW | C_ADDW | C_SLLI64 | C_FLDSP | C_LWSP | C_LDSP |
    C_FSDSP | C_SWSP | C_SDSP | C_JR | C_EBREAK | C_LUI int | C_MV int | C_ADD int | C_JALR int

datatype (plugins only: code size) md_link = BRANCH_LINK | LOAD_LINK | SAVE_LINK | INTI_LINK |
    INTIW_LINK | FENCE_LINK | ENV_AND_CSR_LINK | INTR_LINK | INTRW_LINK | A_EXTENSION_LINK |
    FL_LINK | FS_LINK | FMADD_LINK | FMSUB_LINK | FNMSUB_LINK | FNMADD_LINK | FLOATS_LINK |
    C0_LINK | C1_LINK | C2_LINK | I_INTR_LINK_0 | RV64M_LINK | I_INTR_LINK_64 | I_INTRW_LINK_0 |
    RV64MW_LINK | I_INTRW_LINK_64 | SHIFT_RIGHTW_I_LINK | SHIFT_RIGHT_I_LINK | ENV_LINK |
    RVA_W_LINK | RVA_D_LINK | FSGNJ_S_LINK | FMIN_MAX_S_LINK | FCVT__S_LINK | FMVCLASS_LINK |
    FCOMPARE_S_LINK | FCVT_S__LINK | FSGNJ_D_LINK | FMIN_MAX_D_LINK | FCVT_SD_LINK |
    FCVT_DS_LINK | FCOMPARE_D_LINK | FMVCLASS_D_LINK | FCVT__D_LINK | FCVT_D__LINK |
    C1_16SP_LINK | C1_LOGI_LINK | C1_LOGI_C_LINK | C1_LOGI_C_0_LINK | C1_LOGI_C_1_LINK |
    C2_JMP_LINK | C2_JMP_0_LINK | C2_JMP_1_LINK | C2_JMP_1_EBRK_LINK | C2_JMP_1_EB_JL_LINK

datatype insn =
    U u_op | Br branch_op | Ld load_op | St store_op | OpI imm_op | OpR reg_op | Sys sys_op | Csr csr_op | Mul mul_op | Amo amo_op | Fp fp_op | C c_op

datatype md_opcode = OP_NA | Inst insn | Link md_link

subsection \<open>Functional-unit classes and operand names\<close>

datatype fu_class =
    FUClamd_NA | IntALU | IntMULT | IntDIV | FloatADD | FloatCMP | FloatCVT | FloatMULT
  | FloatDIV | FloatSQRT | FloatMULT_ACC | RdPort | WrPort | AMOPort

datatype reg_field =
    RD | RS1 | RS2 | RS3 | RD_C_x8 | RD_C_x32 | RS1_C_x8 | RS1_C_x32 | RS1_RD_C_x8
  | RS1_RD_C_x32 | RS2_C_x8 | RS2_C_x32 | REG_SP | REG_RA

datatype dep = DNA | DGPR reg_field | DFPR reg_field | DCSR

datatype mdef =
    DEFINST insn int fu_class "32 word" "dep list" "dep list"
  | DEFLINK md_link int nat int int
  | CONNECT md_link

definition NA :: int where "NA = 0"
definition FUNCT2_SHIFT :: nat where "FUNCT2_SHIFT = 25"
definition FUNCT3_SHIFT :: nat where "FUNCT3_SHIFT = 12"
definition FUNCT7_SHIFT :: nat where "FUNCT7_SHIFT = 25"
definition FUNCT2_MASK :: int where "FUNCT2_MASK = 0x03"
definition FUNCT3_MASK :: int where "FUNCT3_MASK = 0x07"
definition FUNCT5_MASK :: int where "FUNCT5_MASK = 0x1f"
definition FUNCT7_MASK :: int where "FUNCT7_MASK = 0x7f"
definition FUNCT3_C_SHIFT :: nat where "FUNCT3_C_SHIFT = 13"
definition FUNCT2_C_SHIFT :: nat where "FUNCT2_C_SHIFT = 10"
definition FUNCT1_C_SHIFT :: nat where "FUNCT1_C_SHIFT = 12"
definition FUNCT2_2ND_C_SHIFT :: nat where "FUNCT2_2ND_C_SHIFT = 5"
definition FUNCT3_C_11_7_SHIFT :: nat where "FUNCT3_C_11_7_SHIFT = 7"
definition RS1_C_SHIFT :: nat where "RS1_C_SHIFT = 9"
definition RS2_C_SHIFT :: nat where "RS2_C_SHIFT = 2"
definition RS1_C_2ND_SHIFT :: nat where "RS1_C_2ND_SHIFT = 7"
definition FUNCT3_C_MASK :: int where "FUNCT3_C_MASK = 0x07"
definition FUNCT2_C_MASK :: int where "FUNCT2_C_MASK = 0x03"
definition FUNCT1_C_MASK :: int where "FUNCT1_C_MASK = 0x01"
definition FUNCT2_2ND_C_MASK :: int where "FUNCT2_2ND_C_MASK = 0x03"
definition FUNCT3_C_11_7_MASK :: int where "FUNCT3_C_11_7_MASK = 0x1f"
definition RS1_C_MASK :: int where "RS1_C_MASK = 0x1f"
definition RS2_C_MASK :: int where "RS2_C_MASK = 0x1f"
definition RS1_C_2ND_MASK :: int where "RS1_C_2ND_MASK = 0x1f"

subsection \<open>The table\<close>

text \<open>
  A \<open>DEFINST\<close> row holds the opcode, its index in the table that is being built, its
  functional unit, its flags and the registers it is declared to write and to read; a
  \<open>DEFLINK\<close> row the link, its index, the mask and the shift that select the next index,
  and the second shift.
\<close>

definition machine_def_links :: "mdef list" where
  "machine_def_links =
    [DEFINST (U LUI) 0x37 IntALU (F_ICOMP OR F_IMM) [DGPR RD, DNA, DNA] [DNA, DNA, DNA, DNA],
     DEFINST (U AUIPC) 0x17 IntALU (F_ICOMP OR F_IMM) [DGPR RD, DNA, DNA] [DNA, DNA, DNA, DNA],
     DEFINST (U JAL) 0x6f IntALU (F_CTRL OR F_UNCOND OR F_DIRJMP) [DGPR RD, DNA, DNA] [DNA, DNA, DNA, DNA],
     DEFINST (U JALR) 0x67 IntALU (F_CTRL OR F_UNCOND OR F_INDIRJMP) [DGPR RD, DNA, DNA] [DNA, DGPR RS1, DNA, DNA],
     DEFLINK BRANCH_LINK 0x63 FUNCT3_SHIFT FUNCT3_MASK 0,
     DEFLINK LOAD_LINK 0x3 FUNCT3_SHIFT FUNCT3_MASK 0,
     DEFLINK SAVE_LINK 0x23 FUNCT3_SHIFT FUNCT3_MASK 0,
     DEFLINK INTI_LINK 0x13 FUNCT3_SHIFT FUNCT3_MASK 0,
     DEFLINK INTIW_LINK 0x1b FUNCT3_SHIFT FUNCT3_MASK 0,
     DEFLINK FENCE_LINK 0xf FUNCT3_SHIFT FUNCT3_MASK 0,
     DEFLINK ENV_AND_CSR_LINK 0x73 FUNCT3_SHIFT FUNCT3_MASK 0,
     DEFLINK INTR_LINK 0x33 FUNCT7_SHIFT FUNCT7_MASK 0,
     DEFLINK INTRW_LINK 0x3b FUNCT7_SHIFT FUNCT7_MASK 0,
     DEFLINK A_EXTENSION_LINK 0x2f FUNCT3_SHIFT FUNCT3_MASK 0,
     DEFLINK FL_LINK 0x7 FUNCT3_SHIFT FUNCT3_MASK 0,
     DEFLINK FS_LINK 0x27 FUNCT3_SHIFT FUNCT3_MASK 0,
     DEFLINK FMADD_LINK 0x43 FUNCT2_SHIFT FUNCT2_MASK 0,
     DEFLINK FMSUB_LINK 0x47 FUNCT2_SHIFT FUNCT2_MASK 0,
     DEFLINK FNMSUB_LINK 0x4b FUNCT2_SHIFT FUNCT2_MASK 0,
     DEFLINK FNMADD_LINK 0x4f FUNCT2_SHIFT FUNCT2_MASK 0,
     DEFLINK FLOATS_LINK 0x53 FUNCT7_SHIFT FUNCT7_MASK 0,
     DEFLINK C0_LINK 0x0 FUNCT3_C_SHIFT FUNCT3_C_MASK 0,
     DEFLINK C1_LINK 0x1 FUNCT3_C_SHIFT FUNCT3_C_MASK 0,
     DEFLINK C2_LINK 0x2 FUNCT3_C_SHIFT FUNCT3_C_MASK 0,
     CONNECT INTR_LINK,
     DEFLINK I_INTR_LINK_0 0x0 FUNCT3_SHIFT FUNCT3_MASK 0,
     DEFLINK RV64M_LINK 0x1 FUNCT3_SHIFT FUNCT3_MASK 0,
     DEFLINK I_INTR_LINK_64 0x20 FUNCT3_SHIFT FUNCT3_MASK 0,
     CONNECT INTRW_LINK,
     DEFLINK I_INTRW_LINK_0 0x0 FUNCT3_SHIFT FUNCT3_MASK 0,
     DEFLINK RV64MW_LINK 0x1 FUNCT3_SHIFT FUNCT3_MASK 0,
     DEFLINK I_INTRW_LINK_64 0x20 FUNCT3_SHIFT FUNCT3_MASK 0]"

definition machine_def_i :: "mdef list" where
  "machine_def_i =
    [CONNECT BRANCH_LINK,
     DEFINST (Br BEQ) 0x0 IntALU (F_CTRL OR F_COND OR F_DIRJMP) [DNA, DNA, DNA] [DNA, DGPR RS1, DGPR RS2, DNA],
     DEFINST (Br BNE) 0x1 IntALU (F_CTRL OR F_COND OR F_DIRJMP) [DNA, DNA, DNA] [DNA, DGPR RS1, DGPR RS2, DNA],
     DEFINST (Br BLT) 0x4 IntALU (F_CTRL OR F_COND OR F_DIRJMP) [DNA, DNA, DNA] [DNA, DGPR RS1, DGPR RS2, DNA],
     DEFINST (Br BGE) 0x5 IntALU (F_CTRL OR F_COND OR F_DIRJMP) [DNA, DNA, DNA] [DNA, DGPR RS1, DGPR RS2, DNA],
     DEFINST (Br BLTU) 0x6 IntALU (F_CTRL OR F_COND OR F_DIRJMP) [DNA, DNA, DNA] [DNA, DGPR RS1, DGPR RS2, DNA],
     DEFINST (Br BGEU) 0x7 IntALU (F_CTRL OR F_COND OR F_DIRJMP) [DNA, DNA, DNA] [DNA, DGPR RS1, DGPR RS2, DNA],
     CONNECT LOAD_LINK,
     DEFINST (Ld LB) 0x0 RdPort (F_MEM OR F_LOAD OR F_DISP) [DGPR RD, DNA, DNA] [DNA, DGPR RS1, DNA, DNA],
     DEFINST (Ld LH) 0x1 RdPort (F_MEM OR F_LOAD OR F_DISP) [DGPR RD, DNA, DNA] [DNA, DGPR RS1, DNA, DNA],
     DEFINST (Ld LW) 0x2 RdPort (F_MEM OR F_LOAD OR F_DISP) [DGPR RD, DNA, DNA] [DNA, DGPR RS1, DNA, DNA],
     DEFINST (Ld LD) 0x3 RdPort (F_MEM OR F_LOAD OR F_DISP) [DGPR RD, DNA, DNA] [DNA, DGPR RS1, DNA, DNA],
     DEFINST (Ld LBU) 0x4 RdPort (F_MEM OR F_LOAD OR F_DISP) [DGPR RD, DNA, DNA] [DNA, DGPR RS1, DNA, DNA],
     DEFINST (Ld LHU) 0x5 RdPort (F_MEM OR F_LOAD OR F_DISP) [DGPR RD, DNA, DNA] [DNA, DGPR RS1, DNA, DNA],
     DEFINST (Ld LWU) 0x6 RdPort (F_MEM OR F_LOAD OR F_DISP) [DGPR RD, DNA, DNA] [DNA, DGPR RS1, DNA, DNA],
     CONNECT SAVE_LINK,
     DEFINST (St SB) 0x0 WrPort (F_MEM OR F_STORE OR F_DISP) [DNA, DNA, DNA] [DNA, DGPR RS1, DGPR RS2, DNA],
     DEFINST (St SH) 0x1 WrPort (F_MEM OR F_STORE OR F_DISP) [DNA, DNA, DNA] [DNA, DGPR RS1, DGPR RS2, DNA],
     DEFINST (St SW) 0x2 WrPort (F_MEM OR F_STORE OR F_DISP) [DNA, DNA, DNA] [DNA, DGPR RS1, DGPR RS2, DNA],
     DEFINST (St SD) 0x3 WrPort (F_MEM OR F_STORE OR F_DISP) [DNA, DNA, DNA] [DNA, DGPR RS1, DGPR RS2, DNA],
     CONNECT INTIW_LINK,
     DEFINST (OpI ADDIW) 0x0 IntALU (F_ICOMP OR F_IMM) [DGPR RD, DNA, DNA] [DNA, DGPR RS1, DNA, DNA],
     DEFINST (OpI SLLIW) 0x1 IntALU (F_ICOMP) [DGPR RD, DNA, DNA] [DNA, DGPR RS1, DNA, DNA],
     DEFLINK SHIFT_RIGHTW_I_LINK 0x5 30 3 0,
     CONNECT SHIFT_RIGHTW_I_LINK,
     DEFINST (OpI SRLIW) 0x0 IntALU (F_ICOMP) [DGPR RD, DNA, DNA] [DNA, DGPR RS1, DNA, DNA],
     DEFINST (OpI SRAIW) 0x1 IntALU (F_ICOMP) [DGPR RD, DNA, DNA] [DNA, DGPR RS1, DNA, DNA],
     CONNECT INTI_LINK,
     DEFINST (OpI ADDI) 0x0 IntALU (F_ICOMP OR F_IMM) [DGPR RD, DNA, DNA] [DNA, DGPR RS1, DNA, DNA],
     DEFINST (OpI SLTI) 0x2 IntALU (F_ICOMP OR F_IMM) [DGPR RD, DNA, DNA] [DNA, DGPR RS1, DNA, DNA],
     DEFINST (OpI SLTIU) 0x3 IntALU (F_ICOMP OR F_IMM) [DGPR RD, DNA, DNA] [DNA, DGPR RS1, DNA, DNA],
     DEFINST (OpI XORI) 0x4 IntALU (F_ICOMP OR F_IMM) [DGPR RD, DNA, DNA] [DNA, DGPR RS1, DNA, DNA],
     DEFINST (OpI ORI) 0x6 IntALU (F_ICOMP OR F_IMM) [DGPR RD, DNA, DNA] [DNA, DGPR RS1, DNA, DNA],
     DEFINST (OpI ANDI) 0x7 IntALU (F_ICOMP OR F_IMM) [DGPR RD, DNA, DNA] [DNA, DGPR RS1, DNA, DNA],
     DEFINST (OpI SLLI) 0x1 IntALU (F_ICOMP) [DGPR RD, DNA, DNA] [DNA, DGPR RS1, DNA, DNA],
     DEFLINK SHIFT_RIGHT_I_LINK 0x5 30 3 0,
     CONNECT SHIFT_RIGHT_I_LINK,
     DEFINST (OpI SRLI) 0x0 IntALU (F_ICOMP) [DGPR RD, DNA, DNA] [DNA, DGPR RS1, DNA, DNA],
     DEFINST (OpI SRAI) 0x1 IntALU (F_ICOMP) [DGPR RD, DNA, DNA] [DNA, DGPR RS1, DNA, DNA],
     CONNECT I_INTR_LINK_0,
     DEFINST (OpR ADD) 0x0 IntALU (F_ICOMP) [DGPR RD, DNA, DNA] [DNA, DGPR RS1, DGPR RS2, DNA],
     DEFINST (OpR SLL) 0x1 IntALU (F_ICOMP) [DGPR RD, DNA, DNA] [DNA, DGPR RS1, DGPR RS2, DNA],
     DEFINST (OpR SLT) 0x2 IntALU (F_ICOMP) [DGPR RD, DNA, DNA] [DNA, DGPR RS1, DGPR RS2, DNA],
     DEFINST (OpR SLTU) 0x3 IntALU (F_ICOMP) [DGPR RD, DNA, DNA] [DNA, DGPR RS1, DGPR RS2, DNA],
     DEFINST (OpR XOR_OP) 0x4 IntALU (F_ICOMP) [DGPR RD, DNA, DNA] [DNA, DGPR RS1, DGPR RS2, DNA],
     DEFINST (OpR SRL) 0x5 IntALU (F_ICOMP) [DGPR RD, DNA, DNA] [DNA, DGPR RS1, DGPR RS2, DNA],
     DEFINST (OpR OR_OP) 0x6 IntALU (F_ICOMP) [DGPR RD, DNA, DNA] [DNA, DGPR RS1, DGPR RS2, DNA],
     DEFINST (OpR AND_OP) 0x7 IntALU (F_ICOMP) [DGPR RD, DNA, DNA] [DNA, DGPR RS1, DGPR RS2, DNA],
     CONNECT I_INTR_LINK_64,
     DEFINST (OpR SUB) 0x0 IntALU (F_ICOMP) [DGPR RD, DNA, DNA] [DNA, DGPR RS1, DGPR RS2, DNA],
     DEFINST (OpR SRA) 0x5 IntALU (F_ICOMP) [DGPR RD, DNA, DNA] [DNA, DGPR RS1, DGPR RS2, DNA],
     CONNECT I_INTRW_LINK_0,
     DEFINST (OpR ADDW) 0x0 IntALU (F_ICOMP) [DGPR RD, DNA, DNA] [DNA, DGPR RS1, DGPR RS2, DNA],
     DEFINST (OpR SLLW) 0x1 IntALU (F_ICOMP) [DGPR RD, DNA, DNA] [DNA, DGPR RS1, DGPR RS2, DNA],
     DEFINST (OpR SRLW) 0x5 IntALU (F_ICOMP) [DGPR RD, DNA, DNA] [DNA, DGPR RS1, DGPR RS2, DNA],
     CONNECT I_INTRW_LINK_64,
     DEFINST (OpR SUBW) 0x0 IntALU (F_ICOMP) [DGPR RD, DNA, DNA] [DNA, DGPR RS1, DGPR RS2, DNA],
     DEFINST (OpR SRAW) 0x5 IntALU (F_ICOMP) [DGPR RD, DNA, DNA] [DNA, DGPR RS1, DGPR RS2, DNA],
     CONNECT FENCE_LINK,
     DEFINST (Sys FENCE) 0x0 FUClamd_NA (F_ATOMIC OR F_SYNC) [DNA, DNA, DNA] [DNA, DNA, DNA, DNA],
     DEFINST (Sys FENCE_I) 0x1 FUClamd_NA (F_ICOMP OR F_IFLUSH) [DNA, DNA, DNA] [DNA, DNA, DNA, DNA],
     CONNECT ENV_AND_CSR_LINK,
     DEFLINK ENV_LINK 0x0 20 4095 0,
     DEFINST (Csr CSRRW) 0x1 IntALU (F_ICOMP) [DGPR RD, DCSR, DNA] [DGPR RS1, DCSR, DNA, DNA],
     DEFINST (Csr CSRRS) 0x2 IntALU (F_ICOMP) [DGPR RD, DCSR, DNA] [DGPR RS1, DCSR, DNA, DNA],
     DEFINST (Csr CSRRC) 0x3 IntALU (F_ICOMP) [DGPR RD, DCSR, DNA] [DGPR RS1, DCSR, DNA, DNA],
     DEFINST (Csr CSRRWI) 0x5 IntALU (F_ICOMP) [DGPR RD, DCSR, DNA] [DNA, DCSR, DNA, DNA],
     DEFINST (Csr CSRRSI) 0x6 IntALU (F_ICOMP) [DGPR RD, DCSR, DNA] [DNA, DCSR, DNA, DNA],
     DEFINST (Csr CSRRCI) 0x7 IntALU (F_ICOMP) [DGPR RD, DCSR, DNA] [DNA, DCSR, DNA, DNA],
     CONNECT ENV_LINK,
     DEFINST (Sys ECALL) 0x0 FUClamd_NA (F_TRAP) [DNA, DNA, DNA] [DNA, DNA, DNA, DNA],
     DEFINST (Sys EBREAK) 0x1 FUClamd_NA (F_TRAP) [DNA, DNA, DNA] [DNA, DNA, DNA, DNA],
     DEFINST (Sys SRET) 0x102 FUClamd_NA (F_TRAP) [DNA, DNA, DNA] [DNA, DNA, DNA, DNA],
     DEFINST (Sys MRET) 0x302 FUClamd_NA (F_TRAP) [DNA, DNA, DNA] [DNA, DNA, DNA, DNA]]"

definition machine_def_m :: "mdef list" where
  "machine_def_m =
    [CONNECT RV64MW_LINK,
     DEFINST (Mul MULW) 0x0 IntMULT (F_ICOMP OR F_LONGLAT) [DGPR RD, DNA, DNA] [DNA, DGPR RS1, DGPR RS2, DNA],
     DEFINST (Mul DIVW) 0x4 IntDIV (F_ICOMP OR F_LONGLAT) [DGPR RD, DNA, DNA] [DNA, DGPR RS1, DGPR RS2, DNA],
     DEFINST (Mul DIVUW) 0x5 IntDIV (F_ICOMP OR F_LONGLAT) [DGPR RD, DNA, DNA] [DNA, DGPR RS1, DGPR RS2, DNA],
     DEFINST (Mul REMW) 0x6 IntDIV (F_ICOMP OR F_LONGLAT) [DGPR RD, DNA, DNA] [DNA, DGPR RS1, DGPR RS2, DNA],
     DEFINST (Mul REMUW) 0x7 IntDIV (F_ICOMP OR F_LONGLAT) [DGPR RD, DNA, DNA] [DNA, DGPR RS1, DGPR RS2, DNA],
     CONNECT RV64M_LINK,
     DEFINST (Mul MUL) 0x0 IntMULT (F_ICOMP OR F_LONGLAT) [DGPR RD, DNA, DNA] [DNA, DGPR RS1, DGPR RS2, DNA],
     DEFINST (Mul MULH) 0x1 IntMULT (F_ICOMP OR F_LONGLAT) [DGPR RD, DNA, DNA] [DNA, DGPR RS1, DGPR RS2, DNA],
     DEFINST (Mul MULHSU) 0x2 IntMULT (F_ICOMP OR F_LONGLAT) [DGPR RD, DNA, DNA] [DNA, DGPR RS1, DGPR RS2, DNA],
     DEFINST (Mul MULHU) 0x3 IntMULT (F_ICOMP OR F_LONGLAT) [DGPR RD, DNA, DNA] [DNA, DGPR RS1, DGPR RS2, DNA],
     DEFINST (Mul DIV) 0x4 IntDIV (F_ICOMP OR F_LONGLAT) [DGPR RD, DNA, DNA] [DNA, DGPR RS1, DGPR RS2, DNA],
     DEFINST (Mul DIVU) 0x5 IntDIV (F_ICOMP OR F_LONGLAT) [DGPR RD, DNA, DNA] [DNA, DGPR RS1, DGPR RS2, DNA],
     DEFINST (Mul REM) 0x6 IntDIV (F_ICOMP OR F_LONGLAT) [DGPR RD, DNA, DNA] [DNA, DGPR RS1, DGPR RS2, DNA],
     DEFINST (Mul REMU) 0x7 IntDIV (F_ICOMP OR F_LONGLAT) [DGPR RD, DNA, DNA] [DNA, DGPR RS1, DGPR RS2, DNA]]"

definition machine_def_a :: "mdef list" where
  "machine_def_a =
    [CONNECT A_EXTENSION_LINK,
     DEFLINK RVA_W_LINK 0x2 27 FUNCT5_MASK 0,
     DEFLINK RVA_D_LINK 0x3 27 FUNCT5_MASK 0,
     CONNECT RVA_W_LINK,
     DEFINST (Amo LR_W) 0x2 RdPort (F_MEM OR F_LOAD OR F_DISP OR F_ATOMIC) [DGPR RD, DNA, DNA] [DNA, DGPR RS1, DNA, DNA],
     DEFINST (Amo SC_W) 0x3 WrPort (F_MEM OR F_STORE OR F_DISP OR F_ATOMIC) [DNA, DNA, DNA] [DNA, DGPR RS1, DGPR RS2, DNA],
     DEFINST (Amo AMOSWAP_W) 0x1 AMOPort (F_MEM OR F_STORE OR F_DISP OR F_ATOMIC OR F_AMO) [DNA, DNA, DNA] [DNA, DGPR RS1, DGPR RS2, DNA],
     DEFINST (Amo AMOADD_W) 0x0 AMOPort (F_MEM OR F_STORE OR F_DISP OR F_ATOMIC OR F_AMO) [DGPR RD, DNA, DNA] [DNA, DGPR RS1, DGPR RS2, DNA],
     DEFINST (Amo AMOXOR_W) 0x4 AMOPort (F_MEM OR F_STORE OR F_DISP OR F_ATOMIC OR F_AMO) [DGPR RD, DNA, DNA] [DNA, DGPR RS1, DGPR RS2, DNA],
     DEFINST (Amo AMOAND_W) 0xc AMOPort (F_MEM OR F_STORE OR F_DISP OR F_ATOMIC OR F_AMO) [DGPR RD, DNA, DNA] [DGPR RS1, DGPR RS2, DNA, DNA],
     DEFINST (Amo AMOOR_W) 0x8 AMOPort (F_MEM OR F_STORE OR F_DISP OR F_ATOMIC OR F_AMO) [DGPR RD, DNA, DNA] [DGPR RS1, DGPR RS2, DNA, DNA],
     DEFINST (Amo AMOMIN_W) 0x10 AMOPort (F_MEM OR F_STORE OR F_DISP OR F_ATOMIC OR F_AMO) [DGPR RD, DNA, DNA] [DNA, DGPR RS1, DGPR RS2, DNA],
     DEFINST (Amo AMOMAX_W) 0x14 AMOPort (F_MEM OR F_STORE OR F_DISP OR F_ATOMIC OR F_AMO) [DGPR RD, DNA, DNA] [DNA, DGPR RS1, DGPR RS2, DNA],
     DEFINST (Amo AMOMINU_W) 0x18 AMOPort (F_MEM OR F_STORE OR F_DISP OR F_ATOMIC OR F_AMO) [DGPR RD, DNA, DNA] [DNA, DGPR RS1, DGPR RS2, DNA],
     DEFINST (Amo AMOMAXU_W) 0x1c AMOPort (F_MEM OR F_STORE OR F_DISP OR F_ATOMIC OR F_AMO) [DGPR RD, DNA, DNA] [DNA, DGPR RS1, DGPR RS2, DNA],
     CONNECT RVA_D_LINK,
     DEFINST (Amo LR_D) 0x2 RdPort (F_MEM OR F_LOAD OR F_DISP OR F_ATOMIC) [DGPR RD, DNA, DNA] [DNA, DGPR RS1, DNA, DNA],
     DEFINST (Amo SC_D) 0x3 WrPort (F_MEM OR F_STORE OR F_DISP OR F_ATOMIC) [DGPR RD, DNA, DNA] [DNA, DGPR RS1, DGPR RS2, DNA],
     DEFINST (Amo AMOSWAP_D) 0x1 AMOPort (F_MEM OR F_STORE OR F_DISP OR F_ATOMIC OR F_AMO) [DGPR RS1, DNA, DNA] [DNA, DGPR RS1, DGPR RS2, DNA],
     DEFINST (Amo AMOADD_D) 0x0 AMOPort (F_MEM OR F_STORE OR F_DISP OR F_ATOMIC OR F_AMO) [DGPR RD, DNA, DNA] [DNA, DGPR RS1, DGPR RS2, DNA],
     DEFINST (Amo AMOXOR_D) 0x4 AMOPort (F_MEM OR F_STORE OR F_DISP OR F_ATOMIC OR F_AMO) [DGPR RD, DNA, DNA] [DNA, DGPR RS1, DGPR RS2, DNA],
     DEFINST (Amo AMOAND_D) 0xc AMOPort (F_MEM OR F_STORE OR F_DISP OR F_ATOMIC OR F_AMO) [DGPR RD, DNA, DNA] [DNA, DGPR RS1, DGPR RS2, DNA],
     DEFINST (Amo AMOOR_D) 0x8 AMOPort (F_MEM OR F_STORE OR F_DISP OR F_ATOMIC OR F_AMO) [DGPR RD, DNA, DNA] [DNA, DGPR RS1, DGPR RS2, DNA],
     DEFINST (Amo AMOMIN_D) 0x10 AMOPort (F_MEM OR F_STORE OR F_DISP OR F_ATOMIC OR F_AMO) [DGPR RD, DNA, DNA] [DNA, DGPR RS1, DGPR RS2, DNA],
     DEFINST (Amo AMOMAX_D) 0x14 AMOPort (F_MEM OR F_STORE OR F_DISP OR F_ATOMIC OR F_AMO) [DGPR RD, DNA, DNA] [DNA, DGPR RS1, DGPR RS2, DNA],
     DEFINST (Amo AMOMINU_D) 0x18 AMOPort (F_MEM OR F_STORE OR F_DISP OR F_ATOMIC OR F_AMO) [DGPR RD, DNA, DNA] [DNA, DGPR RS1, DGPR RS2, DNA],
     DEFINST (Amo AMOMAXU_D) 0x1c AMOPort (F_MEM OR F_STORE OR F_DISP OR F_ATOMIC OR F_AMO) [DGPR RD, DNA, DNA] [DNA, DGPR RS1, DGPR RS2, DNA]]"

definition machine_def_fd :: "mdef list" where
  "machine_def_fd =
    [CONNECT FL_LINK,
     DEFINST (Fp FLW) 0x2 RdPort (F_MEM OR F_LOAD OR F_DISP) [DFPR RD, DNA, DNA] [DNA, DGPR RS1, DNA, DNA],
     DEFINST (Fp FLD) 0x3 RdPort (F_MEM OR F_LOAD OR F_DISP) [DFPR RD, DNA, DNA] [DNA, DGPR RS1, DNA, DNA],
     CONNECT FS_LINK,
     DEFINST (Fp FSW) 0x2 WrPort (F_MEM OR F_STORE OR F_DISP) [DNA, DNA, DNA] [DNA, DGPR RS1, DFPR RS2, DNA],
     DEFINST (Fp FSD) 0x3 WrPort (F_MEM OR F_STORE OR F_DISP) [DNA, DNA, DNA] [DNA, DGPR RS1, DFPR RS2, DNA],
     CONNECT FMADD_LINK,
     DEFINST (Fp FMADD_S) 0x0 FloatMULT_ACC (F_FCOMP) [DFPR RD, DNA, DNA] [DFPR RS1, DFPR RS2, DFPR RS3, DNA],
     DEFINST (Fp FMADD_D) 0x1 FloatMULT_ACC (F_FCOMP) [DFPR RD, DNA, DNA] [DFPR RS1, DFPR RS2, DFPR RS3, DNA],
     CONNECT FMSUB_LINK,
     DEFINST (Fp FMSUB_S) 0x0 FloatMULT_ACC (F_FCOMP) [DFPR RD, DNA, DNA] [DFPR RS1, DFPR RS2, DFPR RS3, DNA],
     DEFINST (Fp FMSUB_D) 0x1 FloatMULT_ACC (F_FCOMP) [DFPR RD, DNA, DNA] [DFPR RS1, DFPR RS2, DFPR RS3, DNA],
     CONNECT FNMSUB_LINK,
     DEFINST (Fp FNMSUB_S) 0x0 FloatMULT_ACC (F_FCOMP) [DFPR RD, DNA, DNA] [DFPR RS1, DFPR RS2, DFPR RS3, DNA],
     DEFINST (Fp FNMSUB_D) 0x1 FloatMULT_ACC (F_FCOMP) [DFPR RD, DNA, DNA] [DFPR RS1, DFPR RS2, DFPR RS3, DNA],
     CONNECT FNMADD_LINK,
     DEFINST (Fp FNMADD_S) 0x0 FloatMULT_ACC (F_FCOMP) [DFPR RD, DNA, DNA] [DNA, DFPR RS1, DFPR RS2, DFPR RS3],
     DEFINST (Fp FNMADD_D) 0x1 FloatMULT_ACC (F_FCOMP) [DFPR RD, DNA, DNA] [DNA, DFPR RS1, DFPR RS2, DFPR RS3],
     CONNECT FLOATS_LINK,
     DEFINST (Fp FADD_S) 0x0 FloatADD (F_FCOMP) [DFPR RD, DNA, DNA] [DNA, DFPR RS1, DFPR RS2, DNA],
     DEFINST (Fp FSUB_S) 0x4 FloatADD (F_FCOMP) [DFPR RD, DNA, DNA] [DNA, DFPR RS1, DFPR RS2, DNA],
     DEFINST (Fp FMUL_S) 0x8 FloatMULT (F_FCOMP) [DFPR RD, DNA, DNA] [DNA, DFPR RS1, DFPR RS2, DNA],
     DEFINST (Fp FDIV_S) 0xc FloatDIV (F_FCOMP) [DFPR RD, DNA, DNA] [DNA, DFPR RS1, DFPR RS2, DNA],
     DEFINST (Fp FSQRT_S) 0x2c FloatSQRT (F_FCOMP) [DFPR RD, DNA, DNA] [DNA, DFPR RS1, DNA, DNA],
     DEFLINK FSGNJ_S_LINK 0x10 FUNCT3_SHIFT FUNCT3_MASK 0,
     DEFLINK FMIN_MAX_S_LINK 0x14 FUNCT3_SHIFT FUNCT3_MASK 0,
     DEFLINK FCVT__S_LINK 0x60 20 31 0,
     DEFLINK FMVCLASS_LINK 0x70 FUNCT3_SHIFT FUNCT3_MASK 0,
     DEFLINK FCOMPARE_S_LINK 0x50 FUNCT3_SHIFT FUNCT3_MASK 0,
     DEFLINK FCVT_S__LINK 0x68 20 31 0,
     DEFINST (Fp FMV_W_X) 0x78 FUClamd_NA (F_ICOMP) [DGPR RD, DNA, DNA] [DNA, DFPR RS1, DNA, DNA],
     DEFINST (Fp FMV_D_X) 0x79 FUClamd_NA (F_ICOMP) [DGPR RD, DNA, DNA] [DNA, DFPR RS1, DNA, DNA],
     DEFINST (Fp FADD_D) 0x1 FloatADD (F_FCOMP) [DFPR RD, DNA, DNA] [DNA, DFPR RS1, DFPR RS2, DNA],
     DEFINST (Fp FSUB_D) 0x5 FloatADD (F_FCOMP) [DFPR RD, DNA, DNA] [DNA, DFPR RS1, DFPR RS2, DNA],
     DEFINST (Fp FMUL_D) 0x9 FloatMULT (F_FCOMP) [DFPR RD, DNA, DNA] [DNA, DFPR RS1, DFPR RS2, DNA],
     DEFINST (Fp FDIV_D) 0xd FloatDIV (F_FCOMP) [DFPR RD, DNA, DNA] [DNA, DFPR RS1, DFPR RS2, DNA],
     DEFINST (Fp FSQRT_D) 0x2d FloatSQRT (F_FCOMP) [DFPR RD, DNA, DNA] [DNA, DFPR RS1, DNA, DNA],
     DEFLINK FSGNJ_D_LINK 0x11 FUNCT3_SHIFT FUNCT3_MASK 0,
     DEFLINK FMIN_MAX_D_LINK 0x15 FUNCT3_SHIFT FUNCT3_MASK 0,
     DEFLINK FCVT_SD_LINK 0x20 20 31 0,
     DEFLINK FCVT_DS_LINK 0x21 20 31 0,
     DEFLINK FCOMPARE_D_LINK 0x51 FUNCT3_SHIFT FUNCT3_MASK 0,
     DEFLINK FMVCLASS_D_LINK 0x71 FUNCT3_SHIFT FUNCT3_MASK 0,
     DEFLINK FCVT__D_LINK 0x61 20 31 0,
     DEFLINK FCVT_D__LINK 0x69 20 31 0,
     CONNECT FSGNJ_D_LINK,
     DEFINST (Fp FSGNJ_D) 0x0 IntALU (F_ICOMP) [DFPR RD, DNA, DNA] [DNA, DFPR RS1, DFPR RS2, DNA],
     DEFINST (Fp FSGNJN_D) 0x1 IntALU (F_ICOMP) [DFPR RD, DNA, DNA] [DNA, DFPR RS1, DFPR RS2, DNA],
     DEFINST (Fp FSGNJX_D) 0x2 IntALU (F_ICOMP) [DFPR RD, DNA, DNA] [DNA, DFPR RS1, DFPR RS2, DNA],
     CONNECT FMIN_MAX_D_LINK,
     DEFINST (Fp FMIN_D) 0x0 FloatCMP (F_ICOMP) [DFPR RD, DNA, DNA] [DNA, DFPR RS1, DFPR RS2, DNA],
     DEFINST (Fp FMAX_D) 0x1 FloatCMP (F_ICOMP) [DFPR RD, DNA, DNA] [DNA, DFPR RS1, DFPR RS2, DNA],
     CONNECT FCVT_SD_LINK,
     DEFINST (Fp FCVT_S_D) 0x1 FloatCVT (F_FCOMP) [DFPR RD, DNA, DNA] [DNA, DFPR RS1, DNA, DNA],
     CONNECT FCVT_DS_LINK,
     DEFINST (Fp FCVT_D_S) 0x0 FloatCVT (F_FCOMP) [DFPR RD, DNA, DNA] [DNA, DFPR RS1, DNA, DNA],
     CONNECT FCOMPARE_D_LINK,
     DEFINST (Fp FEQ_D) 0x2 FloatCMP (F_FCOMP) [DGPR RD, DNA, DNA] [DNA, DFPR RS1, DFPR RS2, DNA],
     DEFINST (Fp FLT_D) 0x1 FloatCMP (F_FCOMP) [DGPR RD, DNA, DNA] [DNA, DFPR RS1, DFPR RS2, DNA],
     DEFINST (Fp FLE_D) 0x0 FloatCMP (F_FCOMP) [DGPR RD, DNA, DNA] [DNA, DFPR RS1, DFPR RS2, DNA],
     CONNECT FMVCLASS_D_LINK,
     DEFINST (Fp FMV_X_D) 0x0 FloatCVT (F_ICOMP) [DGPR RD, DNA, DNA] [DNA, DFPR RS1, DNA, DNA],
     DEFINST (Fp FCLASS_D) 0x1 FloatCVT (F_FCOMP) [DGPR RD, DNA, DNA] [DNA, DFPR RS1, DNA, DNA],
     CONNECT FCVT__D_LINK,
     DEFINST (Fp FCVT_W_D) 0x0 FloatCVT (F_FCOMP) [DGPR RD, DNA, DNA] [DNA, DFPR RS1, DNA, DNA],
     DEFINST (Fp FCVT_WU_D) 0x1 FloatCVT (F_FCOMP) [DGPR RD, DNA, DNA] [DNA, DFPR RS1, DNA, DNA],
     DEFINST (Fp FCVT_L_D) 0x2 FloatCVT (F_FCOMP) [DGPR RD, DNA, DNA] [DNA, DFPR RS1, DNA, DNA],
     DEFINST (Fp FCVT_LU_D) 0x3 FloatCVT (F_FCOMP) [DGPR RD, DNA, DNA] [DNA, DFPR RS1, DNA, DNA],
     CONNECT FCVT_D__LINK,
     DEFINST (Fp FCVT_D_W) 0x0 FloatCVT (F_FCOMP) [DFPR RD, DNA, DNA] [DNA, DFPR RS1, DNA, DNA],
     DEFINST (Fp FCVT_D_WU) 0x1 FloatCVT (F_FCOMP) [DFPR RD, DNA, DNA] [DNA, DFPR RS1, DNA, DNA],
     DEFINST (Fp FCVT_D_L) 0x2 FloatCVT (F_FCOMP) [DFPR RD, DNA, DNA] [DNA, DFPR RS1, DNA, DNA],
     DEFINST (Fp FCVT_D_LU) 0x3 FloatCVT (F_FCOMP) [DFPR RD, DNA, DNA] [DNA, DFPR RS1, DNA, DNA],
     CONNECT FSGNJ_S_LINK,
     DEFINST (Fp FSGNJ_S) 0x0 IntALU (F_ICOMP) [DGPR RD, DNA, DNA] [DNA, DNA, DNA, DNA],
     DEFINST (Fp FSGNJN_S) 0x1 IntALU (F_ICOMP) [DGPR RD, DNA, DNA] [DNA, DNA, DNA, DNA],
     DEFINST (Fp FSGNJX_S) 0x2 IntALU (F_ICOMP) [DGPR RD, DNA, DNA] [DNA, DNA, DNA, DNA],
     CONNECT FMIN_MAX_S_LINK,
     DEFINST (Fp FMIN_S) 0x0 FloatCMP (F_ICOMP) [DFPR RD, DNA, DNA] [DNA, DFPR RS1, DFPR RS2, DNA],
     DEFINST (Fp FMAX_S) 0x1 FloatCMP (F_ICOMP) [DFPR RD, DNA, DNA] [DNA, DFPR RS1, DFPR RS2, DNA],
     CONNECT FCVT__S_LINK,
     DEFINST (Fp FCVT_W_S) 0x0 FloatCVT (F_ICOMP) [DGPR RD, DNA, DNA] [DNA, DFPR RS1, DNA, DNA],
     DEFINST (Fp FCVT_L_S) 0x2 FloatCVT (F_ICOMP) [DGPR RD, DNA, DNA] [DNA, DFPR RS1, DNA, DNA],
     DEFINST (Fp FCVT_WU_S) 0x1 FloatCVT (F_ICOMP) [DGPR RD, DNA, DNA] [DNA, DFPR RS1, DNA, DNA],
     DEFINST (Fp FCVT_LU_S) 0x3 FloatCVT (F_ICOMP) [DGPR RD, DNA, DNA] [DNA, DFPR RS1, DNA, DNA],
     CONNECT FMVCLASS_LINK,
     DEFINST (Fp FMV_X_W) 0x0 IntALU (F_ICOMP) [DGPR RD, DNA, DNA] [DNA, DFPR RS1, DNA, DNA],
     DEFINST (Fp FCLASS_S) 0x1 FloatCMP (F_FCOMP) [DGPR RD, DNA, DNA] [DNA, DFPR RS1, DNA, DNA],
     CONNECT FCOMPARE_S_LINK,
     DEFINST (Fp FEQ_S) 0x2 FloatCMP (F_FCOMP) [DGPR RD, DNA, DNA] [DNA, DFPR RS1, DFPR RS2, DNA],
     DEFINST (Fp FLT_S) 0x1 FloatCMP (F_FCOMP) [DGPR RD, DNA, DNA] [DNA, DFPR RS1, DFPR RS2, DNA],
     DEFINST (Fp FLE_S) 0x0 FloatCMP (F_FCOMP) [DGPR RD, DNA, DNA] [DNA, DFPR RS1, DFPR RS2, DNA],
     CONNECT FCVT_S__LINK,
     DEFINST (Fp FCVT_S_W) 0x0 FloatCVT (F_ICOMP) [DGPR RD, DNA, DNA] [DNA, DFPR RS1, DNA, DNA],
     DEFINST (Fp FCVT_S_WU) 0x1 FloatCVT (F_ICOMP) [DGPR RD, DNA, DNA] [DNA, DFPR RS1, DNA, DNA],
     DEFINST (Fp FCVT_S_L) 0x2 FloatCVT (F_ICOMP) [DGPR RD, DNA, DNA] [DNA, DFPR RS1, DNA, DNA],
     DEFINST (Fp FCVT_S_LU) 0x3 FloatCVT (F_ICOMP) [DGPR RD, DNA, DNA] [DNA, DFPR RS1, DNA, DNA]]"

definition machine_def_c :: "mdef list" where
  "machine_def_c =
    [CONNECT C0_LINK,
     DEFINST (C C_ADDI4SPN) 0x0 IntALU (F_ICOMP OR F_IMM) [DGPR RD_C_x8, DNA, DNA] [DNA, DGPR REG_SP, DNA, DNA],
     DEFINST (C C_FLD) 0x1 RdPort (F_MEM OR F_LOAD OR F_DISP) [DFPR RD_C_x8, DNA, DNA] [DNA, DGPR RS1_C_x8, DNA, DNA],
     DEFINST (C C_LW) 0x2 RdPort (F_MEM OR F_LOAD OR F_DISP) [DGPR RD_C_x8, DNA, DNA] [DNA, DGPR RS1_C_x8, DNA, DNA],
     DEFINST (C C_LD) 0x3 RdPort (F_MEM OR F_LOAD OR F_DISP) [DGPR RD_C_x8, DNA, DNA] [DNA, DGPR RS1_C_x8, DNA, DNA],
     DEFINST (C C_FSD) 0x5 WrPort (F_MEM OR F_STORE OR F_DISP) [DNA, DNA, DNA] [DNA, DGPR RS1, DFPR RS2, DNA],
     DEFINST (C C_SW) 0x6 WrPort (F_MEM OR F_STORE OR F_DISP) [DNA, DNA, DNA] [DNA, DGPR RS1_C_x8, DGPR RS2_C_x8, DNA],
     DEFINST (C C_SD) 0x7 WrPort (F_MEM OR F_STORE OR F_DISP) [DNA, DNA, DNA] [DNA, DGPR RS1_C_x8, DGPR RS2_C_x8, DNA],
     CONNECT C1_LINK,
     DEFINST (C C_ADDI) 0x0 IntALU (F_ICOMP OR F_IMM) [DGPR RS1_RD_C_x32, DNA, DNA] [DNA, DGPR RS1_RD_C_x32, DNA, DNA],
     DEFINST (C C_ADDIW) 0x1 IntALU (F_ICOMP OR F_IMM) [DGPR RS1_RD_C_x32, DNA, DNA] [DNA, DGPR RS1_RD_C_x32, DNA, DNA],
     DEFINST (C C_LI) 0x2 IntALU (F_ICOMP OR F_IMM) [DGPR RD_C_x32, DNA, DNA] [DNA, DNA, DNA, DNA],
     DEFLINK C1_16SP_LINK 0x3 FUNCT3_C_11_7_SHIFT FUNCT3_C_11_7_MASK 0,
     DEFLINK C1_LOGI_LINK 0x4 FUNCT2_C_SHIFT FUNCT2_C_MASK 0,
     DEFINST (C C_J) 0x5 IntALU (F_CTRL OR F_UNCOND OR F_DIRJMP) [DNA, DNA, DNA] [DNA, DNA, DNA, DNA],
     DEFINST (C C_BEQZ) 0x6 IntALU (F_CTRL OR F_COND OR F_DIRJMP) [DNA, DNA, DNA] [DNA, DGPR RS1_C_x8, DNA, DNA],
     DEFINST (C C_BNEZ) 0x7 IntALU (F_CTRL OR F_COND OR F_DIRJMP) [DNA, DNA, DNA] [DNA, DGPR RS1_C_x8, DNA, DNA],
     CONNECT C1_16SP_LINK,
     DEFINST (C C_ADDI16SP) 0x2 IntALU (F_ICOMP OR F_IMM) [DGPR REG_SP, DNA, DNA] [DNA, DGPR REG_SP, DNA, DNA],
     DEFINST (C (C_LUI 0)) 0x0 IntALU (F_ICOMP OR F_IMM) [DGPR RS1_RD_C_x32, DNA, DNA] [DNA, DNA, DNA, DNA],
     DEFINST (C (C_LUI 1)) 0x1 IntALU (F_ICOMP OR F_IMM) [DGPR RS1_RD_C_x32, DNA, DNA] [DNA, DNA, DNA, DNA],
     DEFINST (C (C_LUI 3)) 0x3 IntALU (F_ICOMP OR F_IMM) [DGPR RS1_RD_C_x32, DNA, DNA] [DNA, DNA, DNA, DNA],
     DEFINST (C (C_LUI 4)) 0x4 IntALU (F_ICOMP OR F_IMM) [DGPR RS1_RD_C_x32, DNA, DNA] [DNA, DNA, DNA, DNA],
     DEFINST (C (C_LUI 5)) 0x5 IntALU (F_ICOMP OR F_IMM) [DGPR RS1_RD_C_x32, DNA, DNA] [DNA, DNA, DNA, DNA],
     DEFINST (C (C_LUI 6)) 0x6 IntALU (F_ICOMP OR F_IMM) [DGPR RS1_RD_C_x32, DNA, DNA] [DNA, DNA, DNA, DNA],
     DEFINST (C (C_LUI 7)) 0x7 IntALU (F_ICOMP OR F_IMM) [DGPR RS1_RD_C_x32, DNA, DNA] [DNA, DNA, DNA, DNA],
     DEFINST (C (C_LUI 8)) 0x8 IntALU (F_ICOMP OR F_IMM) [DGPR RS1_RD_C_x32, DNA, DNA] [DNA, DNA, DNA, DNA],
     DEFINST (C (C_LUI 9)) 0x9 IntALU (F_ICOMP OR F_IMM) [DGPR RS1_RD_C_x32, DNA, DNA] [DNA, DNA, DNA, DNA],
     DEFINST (C (C_LUI 10)) 0xa IntALU (F_ICOMP OR F_IMM) [DGPR RS1_RD_C_x32, DNA, DNA] [DNA, DNA, DNA, DNA],
     DEFINST (C (C_LUI 11)) 0xb IntALU (F_ICOMP OR F_IMM) [DGPR RS1_RD_C_x32, DNA, DNA] [DNA, DNA, DNA, DNA],
     DEFINST (C (C_LUI 12)) 0xc IntALU (F_ICOMP OR F_IMM) [DGPR RS1_RD_C_x32, DNA, DNA] [DNA, DNA, DNA, DNA],
     DEFINST (C (C_LUI 13)) 0xd IntALU (F_ICOMP OR F_IMM) [DGPR RS1_RD_C_x32, DNA, DNA] [DNA, DNA, DNA, DNA],
     DEFINST (C (C_LUI 14)) 0xe IntALU (F_ICOMP OR F_IMM) [DGPR RS1_RD_C_x32, DNA, DNA] [DNA, DNA, DNA, DNA],
     DEFINST (C (C_LUI 15)) 0xf IntALU (F_ICOMP OR F_IMM) [DGPR RS1_RD_C_x32, DNA, DNA] [DNA, DNA, DNA, DNA],
     DEFINST (C (C_LUI 16)) 0x10 IntALU (F_ICOMP OR F_IMM) [DGPR RS1_RD_C_x32, DNA, DNA] [DNA, DNA, DNA, DNA],
     DEFINST (C (C_LUI 17)) 0x11 IntALU (F_ICOMP OR F_IMM) [DGPR RS1_RD_C_x32, DNA, DNA] [DNA, DNA, DNA, DNA],
     DEFINST (C (C_LUI 18)) 0x12 IntALU (F_ICOMP OR F_IMM) [DGPR RS1_RD_C_x32, DNA, DNA] [DNA, DNA, DNA, DNA],
     DEFINST (C (C_LUI 19)) 0x13 IntALU (F_ICOMP OR F_IMM) [DGPR RS1_RD_C_x32, DNA, DNA] [DNA, DNA, DNA, DNA],
     DEFINST (C (C_LUI 20)) 0x14 IntALU (F_ICOMP OR F_IMM) [DGPR RS1_RD_C_x32, DNA, DNA] [DNA, DNA, DNA, DNA],
     DEFINST (C (C_LUI 21)) 0x15 IntALU (F_ICOMP OR F_IMM) [DGPR RS1_RD_C_x32, DNA, DNA] [DNA, DNA, DNA, DNA],
     DEFINST (C (C_LUI 22)) 0x16 IntALU (F_ICOMP OR F_IMM) [DGPR RS1_RD_C_x32, DNA, DNA] [DNA, DNA, DNA, DNA],
     DEFINST (C (C_LUI 23)) 0x17 IntALU (F_ICOMP OR F_IMM) [DGPR RS1_RD_C_x32, DNA, DNA] [DNA, DNA, DNA, DNA],
     DEFINST (C (C_LUI 24)) 0x18 IntALU (F_ICOMP OR F_IMM) [DGPR RS1_RD_C_x32, DNA, DNA] [DNA, DNA, DNA, DNA],
     DEFINST (C (C_LUI 25)) 0x19 IntALU (F_ICOMP OR F_IMM) [DGPR RS1_RD_C_x32, DNA, DNA] [DNA, DNA, DNA, DNA],
     DEFINST (C (C_LUI 26)) 0x1a IntALU (F_ICOMP OR F_IMM) [DGPR RS1_RD_C_x32, DNA, DNA] [DNA, DNA, DNA, DNA],
     DEFINST (C (C_LUI 27)) 0x1b IntALU (F_ICOMP OR F_IMM) [DGPR RS1_RD_C_x32, DNA, DNA] [DNA, DNA, DNA, DNA],
     DEFINST (C (C_LUI 28)) 0x1c IntALU (F_ICOMP OR F_IMM) [DGPR RS1_RD_C_x32, DNA, DNA] [DNA, DNA, DNA, DNA],
     DEFINST (C (C_LUI 29)) 0x1d IntALU (F_ICOMP OR F_IMM) [DGPR RS1_RD_C_x32, DNA, DNA] [DNA, DNA, DNA, DNA],
     DEFINST (C (C_LUI 30)) 0x1e IntALU (F_ICOMP OR F_IMM) [DGPR RS1_RD_C_x32, DNA, DNA] [DNA, DNA, DNA, DNA],
     DEFINST (C (C_LUI 31)) 0x1f IntALU (F_ICOMP OR F_IMM) [DGPR RS1_RD_C_x32, DNA, DNA] [DNA, DNA, DNA, DNA],
     CONNECT C1_LOGI_LINK,
     DEFINST (C C_SRLI64) 0x0 IntALU (F_ICOMP) [DGPR RS1_RD_C_x8, DNA, DNA] [DNA, DGPR RS1_RD_C_x8, DNA, DNA],
     DEFINST (C C_SRAI64) 0x1 IntALU (F_ICOMP) [DGPR RS1_RD_C_x8, DNA, DNA] [DNA, DGPR RS1_RD_C_x8, DNA, DNA],
     DEFINST (C C_ANDI) 0x2 IntALU (F_ICOMP OR F_IMM) [DGPR RS1_RD_C_x8, DNA, DNA] [DNA, DGPR RS1_RD_C_x8, DNA, DNA],
     DEFLINK C1_LOGI_C_LINK 0x3 FUNCT1_C_SHIFT FUNCT1_C_MASK 0,
     CONNECT C1_LOGI_C_LINK,
     DEFLINK C1_LOGI_C_0_LINK 0x0 FUNCT2_2ND_C_SHIFT FUNCT2_2ND_C_MASK 0,
     DEFLINK C1_LOGI_C_1_LINK 0x1 FUNCT2_2ND_C_SHIFT FUNCT2_2ND_C_MASK 0,
     CONNECT C1_LOGI_C_0_LINK,
     DEFINST (C C_SUB) 0x0 IntALU (F_ICOMP) [DGPR RS1_RD_C_x8, DNA, DNA] [DNA, DGPR RS1_RD_C_x8, DGPR RS2_C_x8, DNA],
     DEFINST (C C_XOR) 0x1 IntALU (F_ICOMP) [DGPR RS1_RD_C_x8, DNA, DNA] [DNA, DGPR RS1_RD_C_x8, DGPR RS2_C_x8, DNA],
     DEFINST (C C_OR) 0x2 IntALU (F_ICOMP) [DGPR RS1_RD_C_x8, DNA, DNA] [DNA, DGPR RS1_RD_C_x8, DGPR RS2_C_x8, DNA],
     DEFINST (C C_AND) 0x3 IntALU (F_ICOMP) [DGPR RS1_RD_C_x8, DNA, DNA] [DNA, DGPR RS1_RD_C_x8, DGPR RS2_C_x8, DNA],
     CONNECT C1_LOGI_C_1_LINK,
     DEFINST (C C_SUBW) 0x0 IntALU (F_ICOMP) [DGPR RS1_RD_C_x8, DNA, DNA] [DNA, DGPR RS1_RD_C_x8, DGPR RS2_C_x8, DNA],
     DEFINST (C C_ADDW) 0x1 IntALU (F_ICOMP) [DGPR RS1_RD_C_x8, DNA, DNA] [DNA, DGPR RS1_RD_C_x8, DGPR RS2_C_x8, DNA],
     CONNECT C2_LINK,
     DEFINST (C C_SLLI64) 0x0 IntALU (F_ICOMP) [DGPR RS1_RD_C_x32, DNA, DNA] [DNA, DGPR RS1_RD_C_x32, DNA, DNA],
     DEFINST (C C_FLDSP) 0x1 RdPort (F_MEM OR F_LOAD OR F_DISP) [DFPR RD_C_x32, DNA, DNA] [DNA, DGPR REG_SP, DNA, DNA],
     DEFINST (C C_LWSP) 0x2 RdPort (F_MEM OR F_LOAD OR F_DISP) [DGPR RD_C_x32, DNA, DNA] [DNA, DGPR REG_SP, DNA, DNA],
     DEFINST (C C_LDSP) 0x3 RdPort (F_MEM OR F_LOAD OR F_DISP) [DGPR RD_C_x32, DNA, DNA] [DNA, DGPR REG_SP, DNA, DNA],
     DEFINST (C C_FSDSP) 0x5 WrPort (F_MEM OR F_STORE OR F_DISP) [DNA, DNA, DNA] [DNA, DGPR REG_SP, DFPR RS2_C_x32, DNA],
     DEFINST (C C_SWSP) 0x6 WrPort (F_MEM OR F_STORE OR F_DISP) [DNA, DNA, DNA] [DNA, DGPR REG_SP, DGPR RS2_C_x32, DNA],
     DEFINST (C C_SDSP) 0x7 WrPort (F_MEM OR F_STORE OR F_DISP) [DNA, DNA, DNA] [DNA, DGPR REG_SP, DGPR RS2_C_x32, DNA],
     DEFLINK C2_JMP_LINK 0x4 FUNCT1_C_SHIFT FUNCT1_C_MASK 0,
     CONNECT C2_JMP_LINK,
     DEFLINK C2_JMP_0_LINK 0x0 RS2_C_SHIFT RS2_C_MASK 0,
     DEFLINK C2_JMP_1_LINK 0x1 RS2_C_SHIFT RS2_C_MASK 0,
     CONNECT C2_JMP_0_LINK,
     DEFINST (C C_JR) 0x0 IntALU (F_CTRL OR F_UNCOND OR F_DIRJMP) [DNA, DNA, DNA] [DNA, DGPR RS1_C_x32, DGPR RS2_C_x32, DNA],
     DEFINST (C (C_MV 1)) 0x1 IntALU (F_ICOMP OR F_IMM) [DGPR RS1_RD_C_x32, DNA, DNA] [DNA, DGPR RS2_C_x32, DNA, DNA],
     DEFINST (C (C_MV 2)) 0x2 IntALU (F_ICOMP OR F_IMM) [DGPR RS1_RD_C_x32, DNA, DNA] [DNA, DGPR RS2_C_x32, DNA, DNA],
     DEFINST (C (C_MV 3)) 0x3 IntALU (F_ICOMP OR F_IMM) [DGPR RS1_RD_C_x32, DNA, DNA] [DNA, DGPR RS2_C_x32, DNA, DNA],
     DEFINST (C (C_MV 4)) 0x4 IntALU (F_ICOMP OR F_IMM) [DGPR RS1_RD_C_x32, DNA, DNA] [DNA, DGPR RS2_C_x32, DNA, DNA],
     DEFINST (C (C_MV 5)) 0x5 IntALU (F_ICOMP OR F_IMM) [DGPR RS1_RD_C_x32, DNA, DNA] [DNA, DGPR RS2_C_x32, DNA, DNA],
     DEFINST (C (C_MV 6)) 0x6 IntALU (F_ICOMP OR F_IMM) [DGPR RS1_RD_C_x32, DNA, DNA] [DNA, DGPR RS2_C_x32, DNA, DNA],
     DEFINST (C (C_MV 7)) 0x7 IntALU (F_ICOMP OR F_IMM) [DGPR RS1_RD_C_x32, DNA, DNA] [DNA, DGPR RS2_C_x32, DNA, DNA],
     DEFINST (C (C_MV 8)) 0x8 IntALU (F_ICOMP OR F_IMM) [DGPR RS1_RD_C_x32, DNA, DNA] [DNA, DGPR RS2_C_x32, DNA, DNA],
     DEFINST (C (C_MV 9)) 0x9 IntALU (F_ICOMP OR F_IMM) [DGPR RS1_RD_C_x32, DNA, DNA] [DNA, DGPR RS2_C_x32, DNA, DNA],
     DEFINST (C (C_MV 10)) 0xa IntALU (F_ICOMP OR F_IMM) [DGPR RS1_RD_C_x32, DNA, DNA] [DNA, DGPR RS2_C_x32, DNA, DNA],
     DEFINST (C (C_MV 11)) 0xb IntALU (F_ICOMP OR F_IMM) [DGPR RS1_RD_C_x32, DNA, DNA] [DNA, DGPR RS2_C_x32, DNA, DNA],
     DEFINST (C (C_MV 12)) 0xc IntALU (F_ICOMP OR F_IMM) [DGPR RS1_RD_C_x32, DNA, DNA] [DNA, DGPR RS2_C_x32, DNA, DNA],
     DEFINST (C (C_MV 13)) 0xd IntALU (F_ICOMP OR F_IMM) [DGPR RS1_RD_C_x32, DNA, DNA] [DNA, DGPR RS2_C_x32, DNA, DNA],
     DEFINST (C (C_MV 14)) 0xe IntALU (F_ICOMP OR F_IMM) [DGPR RS1_RD_C_x32, DNA, DNA] [DNA, DGPR RS2_C_x32, DNA, DNA],
     DEFINST (C (C_MV 15)) 0xf IntALU (F_ICOMP OR F_IMM) [DGPR RS1_RD_C_x32, DNA, DNA] [DNA, DGPR RS2_C_x32, DNA, DNA],
     DEFINST (C (C_MV 16)) 0x10 IntALU (F_ICOMP OR F_IMM) [DGPR RS1_RD_C_x32, DNA, DNA] [DNA, DGPR RS2_C_x32, DNA, DNA],
     DEFINST (C (C_MV 17)) 0x11 IntALU (F_ICOMP OR F_IMM) [DGPR RS1_RD_C_x32, DNA, DNA] [DNA, DGPR RS2_C_x32, DNA, DNA],
     DEFINST (C (C_MV 18)) 0x12 IntALU (F_ICOMP OR F_IMM) [DGPR RS1_RD_C_x32, DNA, DNA] [DNA, DGPR RS2_C_x32, DNA, DNA],
     DEFINST (C (C_MV 19)) 0x13 IntALU (F_ICOMP OR F_IMM) [DGPR RS1_RD_C_x32, DNA, DNA] [DNA, DGPR RS2_C_x32, DNA, DNA],
     DEFINST (C (C_MV 20)) 0x14 IntALU (F_ICOMP OR F_IMM) [DGPR RS1_RD_C_x32, DNA, DNA] [DNA, DGPR RS2_C_x32, DNA, DNA],
     DEFINST (C (C_MV 21)) 0x15 IntALU (F_ICOMP OR F_IMM) [DGPR RS1_RD_C_x32, DNA, DNA] [DNA, DGPR RS2_C_x32, DNA, DNA],
     DEFINST (C (C_MV 22)) 0x16 IntALU (F_ICOMP OR F_IMM) [DGPR RS1_RD_C_x32, DNA, DNA] [DNA, DGPR RS2_C_x32, DNA, DNA],
     DEFINST (C (C_MV 23)) 0x17 IntALU (F_ICOMP OR F_IMM) [DGPR RS1_RD_C_x32, DNA, DNA] [DNA, DGPR RS2_C_x32, DNA, DNA],
     DEFINST (C (C_MV 24)) 0x18 IntALU (F_ICOMP OR F_IMM) [DGPR RS1_RD_C_x32, DNA, DNA] [DNA, DGPR RS2_C_x32, DNA, DNA],
     DEFINST (C (C_MV 25)) 0x19 IntALU (F_ICOMP OR F_IMM) [DGPR RS1_RD_C_x32, DNA, DNA] [DNA, DGPR RS2_C_x32, DNA, DNA],
     DEFINST (C (C_MV 26)) 0x1a IntALU (F_ICOMP OR F_IMM) [DGPR RS1_RD_C_x32, DNA, DNA] [DNA, DGPR RS2_C_x32, DNA, DNA],
     DEFINST (C (C_MV 27)) 0x1b IntALU (F_ICOMP OR F_IMM) [DGPR RS1_RD_C_x32, DNA, DNA] [DNA, DGPR RS2_C_x32, DNA, DNA],
     DEFINST (C (C_MV 28)) 0x1c IntALU (F_ICOMP OR F_IMM) [DGPR RS1_RD_C_x32, DNA, DNA] [DNA, DGPR RS2_C_x32, DNA, DNA],
     DEFINST (C (C_MV 29)) 0x1d IntALU (F_ICOMP OR F_IMM) [DGPR RS1_RD_C_x32, DNA, DNA] [DNA, DGPR RS2_C_x32, DNA, DNA],
     DEFINST (C (C_MV 30)) 0x1e IntALU (F_ICOMP OR F_IMM) [DGPR RS1_RD_C_x32, DNA, DNA] [DNA, DGPR RS2_C_x32, DNA, DNA],
     DEFINST (C (C_MV 31)) 0x1f IntALU (F_ICOMP OR F_IMM) [DGPR RS1_RD_C_x32, DNA, DNA] [DNA, DGPR RS2_C_x32, DNA, DNA],
     CONNECT C2_JMP_1_LINK,
     DEFLINK C2_JMP_1_EBRK_LINK 0x0 RS1_C_SHIFT RS1_C_MASK 0,
     DEFINST (C (C_ADD 1)) 0x1 IntALU (F_ICOMP) [DGPR RS1_RD_C_x32, DNA, DNA] [DNA, DGPR RS1_RD_C_x32, DGPR RS2_C_x32, DNA],
     DEFINST (C (C_ADD 2)) 0x2 IntALU (F_ICOMP) [DGPR RS1_RD_C_x32, DNA, DNA] [DNA, DGPR RS1_RD_C_x32, DGPR RS2_C_x32, DNA],
     DEFINST (C (C_ADD 3)) 0x3 IntALU (F_ICOMP) [DGPR RS1_RD_C_x32, DNA, DNA] [DNA, DGPR RS1_RD_C_x32, DGPR RS2_C_x32, DNA],
     DEFINST (C (C_ADD 4)) 0x4 IntALU (F_ICOMP) [DGPR RS1_RD_C_x32, DNA, DNA] [DNA, DGPR RS1_RD_C_x32, DGPR RS2_C_x32, DNA],
     DEFINST (C (C_ADD 5)) 0x5 IntALU (F_ICOMP) [DGPR RS1_RD_C_x32, DNA, DNA] [DNA, DGPR RS1_RD_C_x32, DGPR RS2_C_x32, DNA],
     DEFINST (C (C_ADD 6)) 0x6 IntALU (F_ICOMP) [DGPR RS1_RD_C_x32, DNA, DNA] [DNA, DGPR RS1_RD_C_x32, DGPR RS2_C_x32, DNA],
     DEFINST (C (C_ADD 7)) 0x7 IntALU (F_ICOMP) [DGPR RS1_RD_C_x32, DNA, DNA] [DNA, DGPR RS1_RD_C_x32, DGPR RS2_C_x32, DNA],
     DEFINST (C (C_ADD 8)) 0x8 IntALU (F_ICOMP) [DGPR RS1_RD_C_x32, DNA, DNA] [DNA, DGPR RS1_RD_C_x32, DGPR RS2_C_x32, DNA],
     DEFINST (C (C_ADD 9)) 0x9 IntALU (F_ICOMP) [DGPR RS1_RD_C_x32, DNA, DNA] [DNA, DGPR RS1_RD_C_x32, DGPR RS2_C_x32, DNA],
     DEFINST (C (C_ADD 10)) 0xa IntALU (F_ICOMP) [DGPR RS1_RD_C_x32, DNA, DNA] [DNA, DGPR RS1_RD_C_x32, DGPR RS2_C_x32, DNA],
     DEFINST (C (C_ADD 11)) 0xb IntALU (F_ICOMP) [DGPR RS1_RD_C_x32, DNA, DNA] [DNA, DGPR RS1_RD_C_x32, DGPR RS2_C_x32, DNA],
     DEFINST (C (C_ADD 12)) 0xc IntALU (F_ICOMP) [DGPR RS1_RD_C_x32, DNA, DNA] [DNA, DGPR RS1_RD_C_x32, DGPR RS2_C_x32, DNA],
     DEFINST (C (C_ADD 13)) 0xd IntALU (F_ICOMP) [DGPR RS1_RD_C_x32, DNA, DNA] [DNA, DGPR RS1_RD_C_x32, DGPR RS2_C_x32, DNA],
     DEFINST (C (C_ADD 14)) 0xe IntALU (F_ICOMP) [DGPR RS1_RD_C_x32, DNA, DNA] [DNA, DGPR RS1_RD_C_x32, DGPR RS2_C_x32, DNA],
     DEFINST (C (C_ADD 15)) 0xf IntALU (F_ICOMP) [DGPR RS1_RD_C_x32, DNA, DNA] [DNA, DGPR RS1_RD_C_x32, DGPR RS2_C_x32, DNA],
     DEFINST (C (C_ADD 16)) 0x10 IntALU (F_ICOMP) [DGPR RS1_RD_C_x32, DNA, DNA] [DNA, DGPR RS1_RD_C_x32, DGPR RS2_C_x32, DNA],
     DEFINST (C (C_ADD 17)) 0x11 IntALU (F_ICOMP) [DGPR RS1_RD_C_x32, DNA, DNA] [DNA, DGPR RS1_RD_C_x32, DGPR RS2_C_x32, DNA],
     DEFINST (C (C_ADD 18)) 0x12 IntALU (F_ICOMP) [DGPR RS1_RD_C_x32, DNA, DNA] [DNA, DGPR RS1_RD_C_x32, DGPR RS2_C_x32, DNA],
     DEFINST (C (C_ADD 19)) 0x13 IntALU (F_ICOMP) [DGPR RS1_RD_C_x32, DNA, DNA] [DNA, DGPR RS1_RD_C_x32, DGPR RS2_C_x32, DNA],
     DEFINST (C (C_ADD 20)) 0x14 IntALU (F_ICOMP) [DGPR RS1_RD_C_x32, DNA, DNA] [DNA, DGPR RS1_RD_C_x32, DGPR RS2_C_x32, DNA],
     DEFINST (C (C_ADD 21)) 0x15 IntALU (F_ICOMP) [DGPR RS1_RD_C_x32, DNA, DNA] [DNA, DGPR RS1_RD_C_x32, DGPR RS2_C_x32, DNA],
     DEFINST (C (C_ADD 22)) 0x16 IntALU (F_ICOMP) [DGPR RS1_RD_C_x32, DNA, DNA] [DNA, DGPR RS1_RD_C_x32, DGPR RS2_C_x32, DNA],
     DEFINST (C (C_ADD 23)) 0x17 IntALU (F_ICOMP) [DGPR RS1_RD_C_x32, DNA, DNA] [DNA, DGPR RS1_RD_C_x32, DGPR RS2_C_x32, DNA],
     DEFINST (C (C_ADD 24)) 0x18 IntALU (F_ICOMP) [DGPR RS1_RD_C_x32, DNA, DNA] [DNA, DGPR RS1_RD_C_x32, DGPR RS2_C_x32, DNA],
     DEFINST (C (C_ADD 25)) 0x19 IntALU (F_ICOMP) [DGPR RS1_RD_C_x32, DNA, DNA] [DNA, DGPR RS1_RD_C_x32, DGPR RS2_C_x32, DNA],
     DEFINST (C (C_ADD 26)) 0x1a IntALU (F_ICOMP) [DGPR RS1_RD_C_x32, DNA, DNA] [DNA, DGPR RS1_RD_C_x32, DGPR RS2_C_x32, DNA],
     DEFINST (C (C_ADD 27)) 0x1b IntALU (F_ICOMP) [DGPR RS1_RD_C_x32, DNA, DNA] [DNA, DGPR RS1_RD_C_x32, DGPR RS2_C_x32, DNA],
     DEFINST (C (C_ADD 28)) 0x1c IntALU (F_ICOMP) [DGPR RS1_RD_C_x32, DNA, DNA] [DNA, DGPR RS1_RD_C_x32, DGPR RS2_C_x32, DNA],
     DEFINST (C (C_ADD 29)) 0x1d IntALU (F_ICOMP) [DGPR RS1_RD_C_x32, DNA, DNA] [DNA, DGPR RS1_RD_C_x32, DGPR RS2_C_x32, DNA],
     DEFINST (C (C_ADD 30)) 0x1e IntALU (F_ICOMP) [DGPR RS1_RD_C_x32, DNA, DNA] [DNA, DGPR RS1_RD_C_x32, DGPR RS2_C_x32, DNA],
     DEFINST (C (C_ADD 31)) 0x1f IntALU (F_ICOMP) [DGPR RS1_RD_C_x32, DNA, DNA] [DNA, DGPR RS1_RD_C_x32, DGPR RS2_C_x32, DNA],
     CONNECT C2_JMP_1_EBRK_LINK,
     DEFLINK C2_JMP_1_EB_JL_LINK 0x0 RS1_C_2ND_SHIFT RS1_C_2ND_MASK 0,
     CONNECT C2_JMP_1_EB_JL_LINK,
     DEFINST (C C_EBREAK) 0x0 FUClamd_NA (F_TRAP) [DNA, DNA, DNA] [DNA, DNA, DNA, DNA],
     DEFINST (C (C_JALR 1)) 0x1 IntALU (F_CTRL OR F_UNCOND OR F_INDIRJMP) [DGPR REG_RA, DNA, DNA] [DNA, DGPR RS1_C_x32, DNA, DNA],
     DEFINST (C (C_JALR 2)) 0x2 IntALU (F_CTRL OR F_UNCOND OR F_INDIRJMP) [DGPR REG_RA, DNA, DNA] [DNA, DGPR RS1_C_x32, DNA, DNA],
     DEFINST (C (C_JALR 3)) 0x3 IntALU (F_CTRL OR F_UNCOND OR F_INDIRJMP) [DGPR REG_RA, DNA, DNA] [DNA, DGPR RS1_C_x32, DNA, DNA],
     DEFINST (C (C_JALR 4)) 0x4 IntALU (F_CTRL OR F_UNCOND OR F_INDIRJMP) [DGPR REG_RA, DNA, DNA] [DNA, DGPR RS1_C_x32, DNA, DNA],
     DEFINST (C (C_JALR 5)) 0x5 IntALU (F_CTRL OR F_UNCOND OR F_INDIRJMP) [DGPR REG_RA, DNA, DNA] [DNA, DGPR RS1_C_x32, DNA, DNA],
     DEFINST (C (C_JALR 6)) 0x6 IntALU (F_CTRL OR F_UNCOND OR F_INDIRJMP) [DGPR REG_RA, DNA, DNA] [DNA, DGPR RS1_C_x32, DNA, DNA],
     DEFINST (C (C_JALR 7)) 0x7 IntALU (F_CTRL OR F_UNCOND OR F_INDIRJMP) [DGPR REG_RA, DNA, DNA] [DNA, DGPR RS1_C_x32, DNA, DNA],
     DEFINST (C (C_JALR 8)) 0x8 IntALU (F_CTRL OR F_UNCOND OR F_INDIRJMP) [DGPR REG_RA, DNA, DNA] [DNA, DGPR RS1_C_x32, DNA, DNA],
     DEFINST (C (C_JALR 9)) 0x9 IntALU (F_CTRL OR F_UNCOND OR F_INDIRJMP) [DGPR REG_RA, DNA, DNA] [DNA, DGPR RS1_C_x32, DNA, DNA],
     DEFINST (C (C_JALR 10)) 0xa IntALU (F_CTRL OR F_UNCOND OR F_INDIRJMP) [DGPR REG_RA, DNA, DNA] [DNA, DGPR RS1_C_x32, DNA, DNA],
     DEFINST (C (C_JALR 11)) 0xb IntALU (F_CTRL OR F_UNCOND OR F_INDIRJMP) [DGPR REG_RA, DNA, DNA] [DNA, DGPR RS1_C_x32, DNA, DNA],
     DEFINST (C (C_JALR 12)) 0xc IntALU (F_CTRL OR F_UNCOND OR F_INDIRJMP) [DGPR REG_RA, DNA, DNA] [DNA, DGPR RS1_C_x32, DNA, DNA],
     DEFINST (C (C_JALR 13)) 0xd IntALU (F_CTRL OR F_UNCOND OR F_INDIRJMP) [DGPR REG_RA, DNA, DNA] [DNA, DGPR RS1_C_x32, DNA, DNA],
     DEFINST (C (C_JALR 14)) 0xe IntALU (F_CTRL OR F_UNCOND OR F_INDIRJMP) [DGPR REG_RA, DNA, DNA] [DNA, DGPR RS1_C_x32, DNA, DNA],
     DEFINST (C (C_JALR 15)) 0xf IntALU (F_CTRL OR F_UNCOND OR F_INDIRJMP) [DGPR REG_RA, DNA, DNA] [DNA, DGPR RS1_C_x32, DNA, DNA],
     DEFINST (C (C_JALR 16)) 0x10 IntALU (F_CTRL OR F_UNCOND OR F_INDIRJMP) [DGPR REG_RA, DNA, DNA] [DNA, DGPR RS1_C_x32, DNA, DNA],
     DEFINST (C (C_JALR 17)) 0x11 IntALU (F_CTRL OR F_UNCOND OR F_INDIRJMP) [DGPR REG_RA, DNA, DNA] [DNA, DGPR RS1_C_x32, DNA, DNA],
     DEFINST (C (C_JALR 18)) 0x12 IntALU (F_CTRL OR F_UNCOND OR F_INDIRJMP) [DGPR REG_RA, DNA, DNA] [DNA, DGPR RS1_C_x32, DNA, DNA],
     DEFINST (C (C_JALR 19)) 0x13 IntALU (F_CTRL OR F_UNCOND OR F_INDIRJMP) [DGPR REG_RA, DNA, DNA] [DNA, DGPR RS1_C_x32, DNA, DNA],
     DEFINST (C (C_JALR 20)) 0x14 IntALU (F_CTRL OR F_UNCOND OR F_INDIRJMP) [DGPR REG_RA, DNA, DNA] [DNA, DGPR RS1_C_x32, DNA, DNA],
     DEFINST (C (C_JALR 21)) 0x15 IntALU (F_CTRL OR F_UNCOND OR F_INDIRJMP) [DGPR REG_RA, DNA, DNA] [DNA, DGPR RS1_C_x32, DNA, DNA],
     DEFINST (C (C_JALR 22)) 0x16 IntALU (F_CTRL OR F_UNCOND OR F_INDIRJMP) [DGPR REG_RA, DNA, DNA] [DNA, DGPR RS1_C_x32, DNA, DNA],
     DEFINST (C (C_JALR 23)) 0x17 IntALU (F_CTRL OR F_UNCOND OR F_INDIRJMP) [DGPR REG_RA, DNA, DNA] [DNA, DGPR RS1_C_x32, DNA, DNA],
     DEFINST (C (C_JALR 24)) 0x18 IntALU (F_CTRL OR F_UNCOND OR F_INDIRJMP) [DGPR REG_RA, DNA, DNA] [DNA, DGPR RS1_C_x32, DNA, DNA],
     DEFINST (C (C_JALR 25)) 0x19 IntALU (F_CTRL OR F_UNCOND OR F_INDIRJMP) [DGPR REG_RA, DNA, DNA] [DNA, DGPR RS1_C_x32, DNA, DNA],
     DEFINST (C (C_JALR 26)) 0x1a IntALU (F_CTRL OR F_UNCOND OR F_INDIRJMP) [DGPR REG_RA, DNA, DNA] [DNA, DGPR RS1_C_x32, DNA, DNA],
     DEFINST (C (C_JALR 27)) 0x1b IntALU (F_CTRL OR F_UNCOND OR F_INDIRJMP) [DGPR REG_RA, DNA, DNA] [DNA, DGPR RS1_C_x32, DNA, DNA],
     DEFINST (C (C_JALR 28)) 0x1c IntALU (F_CTRL OR F_UNCOND OR F_INDIRJMP) [DGPR REG_RA, DNA, DNA] [DNA, DGPR RS1_C_x32, DNA, DNA],
     DEFINST (C (C_JALR 29)) 0x1d IntALU (F_CTRL OR F_UNCOND OR F_INDIRJMP) [DGPR REG_RA, DNA, DNA] [DNA, DGPR RS1_C_x32, DNA, DNA],
     DEFINST (C (C_JALR 30)) 0x1e IntALU (F_CTRL OR F_UNCOND OR F_INDIRJMP) [DGPR REG_RA, DNA, DNA] [DNA, DGPR RS1_C_x32, DNA, DNA],
     DEFINST (C (C_JALR 31)) 0x1f IntALU (F_CTRL OR F_UNCOND OR F_INDIRJMP) [DGPR REG_RA, DNA, DNA] [DNA, DGPR RS1_C_x32, DNA, DNA]]"

definition machine_def :: "mdef list" where
  "machine_def = machine_def_links @ machine_def_i @ machine_def_m @ machine_def_a
     @ machine_def_fd @ machine_def_c"

lemmas machine_def_defs = machine_def_def machine_def_links_def machine_def_i_def
  machine_def_m_def machine_def_a_def machine_def_fd_def machine_def_c_def

end
