(* ===== verification/RvDecode.thy ===== *)
theory RvDecode
  imports RvTable
begin

text \<open>
  The instruction decoder: \<open>md_init_decoder\<close> (riscv.c), which lays the tables of riscv.def
  out one after the other in \<open>md_mask2op\<close>, and \<open>MD_SET_OPCODE\<close> (riscv.h), which walks them.
  The array is a list of writes, the newest first; an index nobody wrote holds \<open>OP_NA\<close>. Both
  sides of the array bound \<open>MD_MAX_MASK + 1\<close> are checked, and the \<open>while\<close> loop of
  \<open>MD_SET_OPCODE\<close> runs on fuel.
\<close>

subsection \<open>Building the tables\<close>

definition MD_MAX_MASK :: int where "MD_MAX_MASK = 2048"

type_synonym mask2op = "(int \<times> md_opcode) list"

definition op_at :: "mask2op \<Rightarrow> int \<Rightarrow> md_opcode" where
  "op_at t i = (case map_of t i of None \<Rightarrow> OP_NA | Some op \<Rightarrow> op)"

record decoder =
  md_mask2op :: mask2op
  md_opoffset :: "(md_link \<times> int) list"
  max_offset :: int
  offset :: int

definition decoder0 :: decoder where
  "decoder0 = \<lparr>md_mask2op = [], md_opoffset = [], max_offset = 0, offset = 0\<rparr>"

definition store_op :: "int \<Rightarrow> md_opcode \<Rightarrow> decoder \<Rightarrow> decoder cres" where
  "store_op i op d =
     (if i < 0 \<or> MD_MAX_MASK < i then Inl OutOfBounds
      else Inr (d\<lparr>md_mask2op := (i, op) # md_mask2op d, max_offset := max (max_offset d) i\<rparr>))"

fun init_row :: "mdef \<Rightarrow> decoder \<Rightarrow> decoder cres" where
  "init_row (DEFINST x msk res flags outs ins) d =
     (if MD_MAX_MASK \<le> msk + offset d then Inl (Fatal ''mask value is too small'')
      else if op_at (md_mask2op d) (msk + offset d) \<noteq> OP_NA
      then Inl (Fatal ''doubly defined opcode'')
      else store_op (msk + offset d) (Inst x) d)"
| "init_row (DEFLINK l msk sh mk second) d =
     (if op_at (md_mask2op d) (msk + offset d + second) \<noteq> OP_NA
      then Inl (Fatal ''doubly defined mask value'')
      else store_op (msk + offset d) (Link l) d)"
| "init_row (CONNECT l) d =
     Inr (d\<lparr>offset := max_offset d + 1, md_opoffset := (l, max_offset d + 1) # md_opoffset d\<rparr>)"

fun init_rows :: "mdef list \<Rightarrow> decoder \<Rightarrow> decoder cres" where
  "init_rows [] d = Inr d"
| "init_rows (r # rs) d = cbind (init_row r d) (init_rows rs)"

definition md_init_decoder :: "decoder cres" where
  "md_init_decoder =
     cbind (init_rows machine_def decoder0) (\<lambda>d.
     if MD_MAX_MASK \<le> max_offset d then Inl (Panic ''MASK_MAX is too small'') else Inr d)"

subsection \<open>Walking them\<close>

text \<open>\<open>md_opmask\<close> and \<open>md_opshift\<close>: 0 for every opcode that is not a link.\<close>

fun link_row :: "md_link \<Rightarrow> mdef list \<Rightarrow> int \<times> nat" where
  "link_row l [] = (0, 0)"
| "link_row l (DEFLINK k msk sh mk second # rs) =
     (if k = l then (mk, sh) else link_row l rs)"
| "link_row l (_ # rs) = link_row l rs"

fun md_opmask :: "md_opcode \<Rightarrow> int" where
  "md_opmask (Link l) = fst (link_row l machine_def)"
| "md_opmask _ = 0"

fun md_opshift :: "md_opcode \<Rightarrow> nat" where
  "md_opshift (Link l) = snd (link_row l machine_def)"
| "md_opshift _ = 0"

fun opoffset :: "decoder \<Rightarrow> md_opcode \<Rightarrow> int" where
  "opoffset d (Link l) = (case map_of (md_opoffset d) l of None \<Rightarrow> 0 | Some i \<Rightarrow> i)"
| "opoffset d _ = 0"

definition INST_IsCompressed :: "32 word \<Rightarrow> bool" where
  "INST_IsCompressed inst \<longleftrightarrow> inst AND 0x03 \<noteq> 0x03"

definition MD_TOP_OP :: "32 word \<Rightarrow> 32 word" where "MD_TOP_OP inst = inst AND 0x7f"
definition MD_C_TOP_OP :: "32 word \<Rightarrow> 32 word" where "MD_C_TOP_OP inst = inst AND 0x03"

definition next_index :: "decoder \<Rightarrow> 32 word \<Rightarrow> md_opcode \<Rightarrow> int" where
  "next_index d inst op =
     uint (signed_drop_bit (md_opshift op) inst AND word_of_int (md_opmask op)) + opoffset d op"

fun decode_loop :: "nat \<Rightarrow> decoder \<Rightarrow> 32 word \<Rightarrow> md_opcode \<Rightarrow> md_opcode cres" where
  "decode_loop 0 d inst op = Inl Diverge"
| "decode_loop (Suc n) d inst op =
     (if md_opmask op = 0 then Inr op
      else if MD_MAX_MASK < next_index d inst op then Inl OutOfBounds
      else decode_loop n d inst (op_at (md_mask2op d) (next_index d inst op)))"

text \<open>\<open>OP_MAX\<close> is 370: 369 rows define an opcode, and 0 is \<open>OP_NA\<close>.\<close>

definition OP_MAX :: nat where "OP_MAX = 370"

definition MD_SET_OPCODE :: "decoder \<Rightarrow> 32 word \<Rightarrow> md_opcode cres" where
  "MD_SET_OPCODE d inst =
     decode_loop OP_MAX d inst
       (op_at (md_mask2op d)
          (uint (if INST_IsCompressed inst then MD_C_TOP_OP inst else MD_TOP_OP inst)))"

subsection \<open>What the simulators read from the table\<close>

fun inst_row :: "insn \<Rightarrow> mdef list \<Rightarrow> (fu_class \<times> 32 word \<times> dep list \<times> dep list) option" where
  "inst_row x [] = None"
| "inst_row x (DEFINST y msk res flags outs ins # rs) =
     (if y = x then Some (res, flags, outs, ins) else inst_row x rs)"
| "inst_row x (_ # rs) = inst_row x rs"

fun md_op2fu :: "md_opcode \<Rightarrow> fu_class" where
  "md_op2fu (Inst x) = (case inst_row x machine_def of None \<Rightarrow> FUClamd_NA | Some r \<Rightarrow> fst r)"
| "md_op2fu _ = FUClamd_NA"

fun md_op2flags :: "md_opcode \<Rightarrow> 32 word" where
  "md_op2flags (Inst x) = (case inst_row x machine_def of None \<Rightarrow> 0 | Some r \<Rightarrow> fst (snd r))"
| "md_op2flags _ = 0"

text \<open>The value of an opcode in \<open>enum md_opcode\<close>: its position among the rows that define one.\<close>

fun op_rows :: "mdef list \<Rightarrow> md_opcode list" where
  "op_rows [] = []"
| "op_rows (DEFINST x msk res flags outs ins # rs) = Inst x # op_rows rs"
| "op_rows (DEFLINK l msk sh mk second # rs) = Link l # op_rows rs"
| "op_rows (CONNECT l # rs) = op_rows rs"

fun position :: "int \<Rightarrow> md_opcode \<Rightarrow> md_opcode list \<Rightarrow> int" where
  "position n op [] = 0"
| "position n op (x # xs) = (if x = op then n else position (n + 1) op xs)"

definition op_enum :: "md_opcode \<Rightarrow> int" where
  "op_enum op = position 1 op (op_rows machine_def)"

end
