(* ===== verification/RvFields.thy ===== *)
theory RvFields
  imports RvDecode
begin

text \<open>
  The operand fields and immediates of an instruction word, as the macros of riscv.h compute
  them, and the conversions around them. An instruction is a \<open>sword_t\<close>, so \<open>inst >> n\<close> is an
  arithmetic shift; where a macro ends as an \<open>int\<close> it is widened with its sign (\<open>scast\<close>),
  where a hexadecimal mask makes it \<open>unsigned\<close> it is widened with zeros (\<open>ucast\<close>). Signed
  arithmetic wraps, as it does at the \<open>-O0\<close> the Makefile builds with.
\<close>

subsection \<open>Register specifiers\<close>

definition bits_at :: "nat \<Rightarrow> 32 word \<Rightarrow> 32 word \<Rightarrow> 32 word" where
  "bits_at n mk inst = signed_drop_bit n inst AND mk"

fun reg_of :: "reg_field \<Rightarrow> 32 word \<Rightarrow> nat" where
  "reg_of RS1 inst = unat (bits_at 15 0x1f inst)"
| "reg_of RS2 inst = unat (bits_at 20 0x1f inst)"
| "reg_of RS3 inst = unat (bits_at 27 0x1f inst)"
| "reg_of RD inst = unat (bits_at 7 0x1f inst)"
| "reg_of RD_C_x8 inst = unat (bits_at 2 0x07 inst + 0x08)"
| "reg_of RD_C_x32 inst = unat (bits_at 7 0x1f inst)"
| "reg_of RS1_C_x8 inst = unat (bits_at 7 0x07 inst + 0x08)"
| "reg_of RS1_C_x32 inst = unat (bits_at 7 0x1f inst)"
| "reg_of RS1_RD_C_x8 inst = unat (bits_at 7 0x07 inst + 0x08)"
| "reg_of RS1_RD_C_x32 inst = unat (bits_at 7 0x1f inst)"
| "reg_of RS2_C_x8 inst = unat (bits_at 2 0x07 inst + 0x08)"
| "reg_of RS2_C_x32 inst = unat (bits_at 2 0x1f inst)"
| "reg_of REG_SP inst = 2"
| "reg_of REG_RA inst = 1"

subsection \<open>Conversions\<close>

definition LOW_MASK :: "64 word" where "LOW_MASK = 0x00000000ffffffff"

definition EXT :: "64 word \<Rightarrow> 64 word" where "EXT x = x AND 0x00000000ffffffff"

definition SEXT :: "64 word \<Rightarrow> 64 word" where
  "SEXT x = (if x AND 0x80000000 \<noteq> 0 then x OR 0xffffffff00000000 else x)"

text \<open>
  \<open>SEXT_TO(X, a, 64)\<close> ends with a mask \<open>(1ULL << 64) - 1\<close>, whose shift is as wide as its
  operand: what it yields is up to the compiler, and is the parameter \<open>one_shl64\<close>.
\<close>

definition SEXT_TO :: "64 word \<Rightarrow> 64 word \<Rightarrow> nat \<Rightarrow> nat \<Rightarrow> 64 word" where
  "SEXT_TO one_shl64 x a b =
     (if x AND push_bit (a - 1) 1 \<noteq> 0 then x OR NOT (push_bit a 1 - 1) else x)
       AND ((if b < 64 then push_bit b 1 else one_shl64) - 1)"

subsection \<open>Immediates\<close>

definition IMM :: "32 word \<Rightarrow> 32 word" where "IMM inst = signed_drop_bit 20 inst"

definition SIMM :: "32 word \<Rightarrow> 32 word" where
  "SIMM inst = (IMM inst AND 0xffffffe0) OR bits_at 7 0x1f inst"

definition BIMM :: "32 word \<Rightarrow> 32 word" where
  "BIMM inst = (SIMM inst AND 0xfffff7fe) OR push_bit 11 (bits_at 7 0x01 inst)"

definition UIMM :: "32 word \<Rightarrow> 32 word" where
  "UIMM inst = push_bit 12 (signed_drop_bit 12 inst)"

definition UIMM4 :: "32 word \<Rightarrow> 32 word" where "UIMM4 inst = bits_at 15 0x1f inst"

definition JIMM :: "32 word \<Rightarrow> 32 word" where
  "JIMM inst = (IMM inst AND 0xfff007fe) OR (UIMM inst AND 0x000ff000)
     OR push_bit 11 (bits_at 20 0x01 inst)"

definition CSR :: "32 word \<Rightarrow> nat" where "CSR inst = unat (drop_bit 20 inst)"
definition SHAMT_I :: "32 word \<Rightarrow> nat" where "SHAMT_I inst = unat (bits_at 20 0x3f inst)"
definition SHAMT_IW :: "32 word \<Rightarrow> nat" where "SHAMT_IW inst = unat (bits_at 20 0x1f inst)"

subsection \<open>Immediates of the compressed formats\<close>

definition IMM_C_R :: "32 word \<Rightarrow> 32 word" where "IMM_C_R inst = inst AND 0x7c"
definition IMM_C_L :: "32 word \<Rightarrow> 32 word" where "IMM_C_L inst = inst AND 0x1f80"
definition IMM_C_5 :: "32 word \<Rightarrow> 32 word" where
  "IMM_C_5 inst = push_bit 5 (bits_at 12 0x01 inst)"

definition WIMM_C_R :: "32 word \<Rightarrow> 32 word" where
  "WIMM_C_R inst = drop_bit 2 (IMM_C_R inst AND 0x70) OR push_bit 4 (IMM_C_R inst AND 0x0c) OR IMM_C_5 inst"
definition WIMM_C_L :: "32 word \<Rightarrow> 32 word" where
  "WIMM_C_L inst = drop_bit 7 (IMM_C_L inst AND 0x1e00) OR drop_bit 1 (IMM_C_L inst AND 0x0180)"
definition DIMM_C_R :: "32 word \<Rightarrow> 32 word" where
  "DIMM_C_R inst = drop_bit 2 (IMM_C_R inst AND 0x60) OR push_bit 4 (IMM_C_R inst AND 0x1c) OR IMM_C_5 inst"
definition DIMM_C_L :: "32 word \<Rightarrow> 32 word" where
  "DIMM_C_L inst = drop_bit 7 (IMM_C_L inst AND 0x1c00) OR drop_bit 1 (IMM_C_L inst AND 0x0380)"
definition WIMM_C_BRLS :: "32 word \<Rightarrow> 32 word" where
  "WIMM_C_BRLS inst = drop_bit 4 (inst AND 0x40) OR push_bit 1 (inst AND 0x20)
     OR push_bit 3 (bits_at 10 0x07 inst)"
definition DIMM_C_BRLS :: "32 word \<Rightarrow> 32 word" where
  "DIMM_C_BRLS inst = push_bit 1 (inst AND 0x60) OR push_bit 3 (bits_at 10 0x07 inst)"

definition JICI :: "32 word \<Rightarrow> 32 word" where "JICI inst = inst AND 0x1ffc"

definition JIMM_C :: "32 word \<Rightarrow> 32 word" where
  "JIMM_C inst = push_bit 3 (JICI inst AND 0x4) OR drop_bit 2 (JICI inst AND 0x38)
     OR push_bit 1 (JICI inst AND 0x40) OR drop_bit 1 (JICI inst AND 0x80)
     OR push_bit 2 (JICI inst AND 0x100) OR drop_bit 1 (JICI inst AND 0x600)
     OR push_bit 4 (bits_at 11 0x01 (JICI inst)) OR push_bit 11 (bits_at 12 0x01 (JICI inst))"

definition IMM_C_12_10 :: "32 word \<Rightarrow> 32 word" where "IMM_C_12_10 inst = inst AND 0x1c00"

definition BIMM_C :: "32 word \<Rightarrow> 32 word" where
  "BIMM_C inst = push_bit 3 (IMM_C_R inst AND 0x04) OR drop_bit 2 (IMM_C_R inst AND 0x18)
     OR push_bit 1 (IMM_C_R inst AND 0x60) OR drop_bit 7 (IMM_C_12_10 inst AND 0x0c00)
     OR drop_bit 4 (IMM_C_12_10 inst AND 0x1000)"

definition IMM_C_5_4_0 :: "32 word \<Rightarrow> 32 word" where
  "IMM_C_5_4_0 inst = drop_bit 2 (IMM_C_R inst) OR IMM_C_5 inst"

definition SHAMT_C :: "32 word \<Rightarrow> nat" where "SHAMT_C inst = unat (IMM_C_5_4_0 inst)"

definition UIMM_C :: "32 word \<Rightarrow> 32 word" where
  "UIMM_C inst = push_bit 10 (IMM_C_R inst) OR push_bit 12 (IMM_C_5 inst)"

definition IMM_C_4SPN :: "32 word \<Rightarrow> 32 word" where
  "IMM_C_4SPN inst = drop_bit 2 (inst AND 0x20) OR drop_bit 4 (inst AND 0x40)
     OR drop_bit 1 (inst AND 0x780) OR drop_bit 7 (inst AND 0x1800)"

definition IMM_C_16SP :: "32 word \<Rightarrow> 32 word" where
  "IMM_C_16SP inst = push_bit 3 (IMM_C_R inst AND 0x04) OR push_bit 4 (IMM_C_R inst AND 0x18)
     OR push_bit 1 (IMM_C_R inst AND 0x20) OR drop_bit 2 (IMM_C_R inst AND 0x40)
     OR push_bit 4 (IMM_C_5 inst)"

lemmas imm_defs =
  IMM_def SIMM_def BIMM_def UIMM_def JIMM_def bits_at_def
lemmas imm_c_defs =
  IMM_C_R_def IMM_C_L_def IMM_C_5_def WIMM_C_R_def WIMM_C_L_def DIMM_C_R_def DIMM_C_L_def
  WIMM_C_BRLS_def DIMM_C_BRLS_def JICI_def JIMM_C_def IMM_C_12_10_def BIMM_C_def IMM_C_5_4_0_def
  UIMM_C_def IMM_C_4SPN_def IMM_C_16SP_def bits_at_def

end
