(* ===== verification/CArith.thy ===== *)
theory CArith
  imports CPrelude
begin

text \<open>
  Signed division of C: it truncates, and an operation that overflows is undefined.
\<close>

definition c_div :: "int \<Rightarrow> int \<Rightarrow> int" where "c_div a b = sgn a * sgn b * (\<bar>a\<bar> div \<bar>b\<bar>)"
definition c_mod :: "int \<Rightarrow> int \<Rightarrow> int" where "c_mod a b = a - c_div a b * b"

text \<open>Signed division at \<open>n\<close> bits: dividing the least value by -1 is undefined, as is dividing by 0.\<close>

definition sdiv_at :: "nat \<Rightarrow> int \<Rightarrow> int \<Rightarrow> int cres" where
  "sdiv_at n a b = (if b = 0 \<or> a = - (2 ^ (n - 1)) \<and> b = -1 then Inl Undefined else Inr (c_div a b))"
definition smod_at :: "nat \<Rightarrow> int \<Rightarrow> int \<Rightarrow> int cres" where
  "smod_at n a b = (if b = 0 \<or> a = - (2 ^ (n - 1)) \<and> b = -1 then Inl Undefined else Inr (c_mod a b))"

end
