(* ===== verification/RvSem.thy ===== *)
theory RvSem
  imports RvFields Memory CArith
begin

text \<open>
  The semantics of the instructions, the \<open>_IMPL\<close> macros of riscv.def, over the accessor
  macros each simulator defines before it includes the file: \<open>GPR\<close>, \<open>SET_GPR\<close>, \<open>CPC\<close>,
  \<open>SET_NPC\<close>, \<open>SET_TPC\<close>, \<open>READ_x\<close>, \<open>WRITE_x\<close>, \<open>CSRS\<close>, \<open>SYSCALL\<close> and the rest are the fields
  of a record, and \<open>exec\<close> runs an instruction over any of them. \<open>DECLARE_FAULT(F)\<close> leaves the
  instruction with the fault \<open>F\<close>. The arithmetic of the F and D extensions is the host's
  floating point (floating_point_handler.def) and is a field too.
\<close>

subsection \<open>The accessors\<close>

record lrsc_t =
  target_addr :: "64 word"
  lrsc_val :: "64 word"

record 's hooks =
  GPR :: "'s \<Rightarrow> nat \<Rightarrow> 64 word"
  SET_GPR :: "nat \<Rightarrow> 64 word \<Rightarrow> 's \<Rightarrow> 's"
  FPRD_Q :: "'s \<Rightarrow> nat \<Rightarrow> 64 word"
  SET_FPRD_Q :: "nat \<Rightarrow> 64 word \<Rightarrow> 's \<Rightarrow> 's"
  CSRS :: "'s \<Rightarrow> nat \<Rightarrow> 64 word"
  SET_CSRS :: "nat \<Rightarrow> 64 word \<Rightarrow> 's \<Rightarrow> 's"
  CPC :: "'s \<Rightarrow> 64 word"
  SET_NPC :: "64 word \<Rightarrow> 's \<Rightarrow> 's"
  SET_TPC :: "64 word \<Rightarrow> 's \<Rightarrow> 's"
  CtrlInstTaken :: "bool \<Rightarrow> 's \<Rightarrow> 's"
  READ :: "nat \<Rightarrow> 64 word \<Rightarrow> 's \<Rightarrow> (64 word \<times> md_fault \<times> 's) cres"
  WRITE :: "nat \<Rightarrow> 64 word \<Rightarrow> 64 word \<Rightarrow> 's \<Rightarrow> (md_fault \<times> 's) cres"
  LRSC :: "'s \<Rightarrow> lrsc_t"
  SET_LRSC :: "lrsc_t \<Rightarrow> 's \<Rightarrow> 's"
  SYSCALL :: "32 word \<Rightarrow> 's \<Rightarrow> 's cres"
  FLOAT :: "fp_op \<Rightarrow> 32 word \<Rightarrow> 's \<Rightarrow> 's cres"
  one_shl64 :: "64 word"
  junk_fault :: md_fault

type_synonym 's exec_res = "(md_fault \<times> 's) cres"

definition finish :: "'s \<Rightarrow> 's exec_res" where "finish s = Inr (fault_none, s)"
definition DECLARE_FAULT :: "md_fault \<Rightarrow> 's \<Rightarrow> 's exec_res" where "DECLARE_FAULT f s = Inr (f, s)"

definition load :: "'s hooks \<Rightarrow> nat \<Rightarrow> 64 word \<Rightarrow> 's \<Rightarrow> (64 word \<Rightarrow> 's \<Rightarrow> 's exec_res) \<Rightarrow> 's exec_res" where
  "load h n addr s k =
     cbind (READ h n addr s) (\<lambda>(v, fault, s1).
     if fault \<noteq> fault_none then DECLARE_FAULT fault s1 else k v s1)"

definition store :: "'s hooks \<Rightarrow> nat \<Rightarrow> 64 word \<Rightarrow> 64 word \<Rightarrow> 's \<Rightarrow> ('s \<Rightarrow> 's exec_res) \<Rightarrow> 's exec_res" where
  "store h n v addr s k =
     cbind (WRITE h n v addr s) (\<lambda>(fault, s1).
     if fault \<noteq> fault_none then DECLARE_FAULT fault s1 else k s1)"

abbreviation gpr_of :: "'s hooks \<Rightarrow> reg_field \<Rightarrow> 32 word \<Rightarrow> 's \<Rightarrow> 64 word" where
  "gpr_of h f inst s \<equiv> GPR h s (reg_of f inst)"

subsection \<open>Casts between the widths of the registers\<close>

definition low32 :: "64 word \<Rightarrow> 32 word" where "low32 x = ucast x"
definition sw :: "32 word \<Rightarrow> 64 word" where "sw x = scast x"
definition uw :: "32 word \<Rightarrow> 64 word" where "uw x = ucast x"

subsection \<open>Upper immediates and jumps\<close>

fun exec_u :: "'s hooks \<Rightarrow> u_op \<Rightarrow> 32 word \<Rightarrow> 's \<Rightarrow> 's exec_res" where
  "exec_u h LUI inst s = finish (SET_GPR h (reg_of RD inst) (SEXT (sw (UIMM inst))) s)"
| "exec_u h AUIPC inst s =
     finish (SET_GPR h (reg_of RD inst) (SEXT (sw (UIMM inst)) + CPC h s) s)"
| "exec_u h JAL inst s =
     (let s1 = SET_GPR h (reg_of RD inst) (CPC h s + 4) s;
          s2 = SET_TPC h (CPC h s1 + SEXT (uw (JIMM inst))) s1
      in finish (SET_NPC h (CPC h s2 + SEXT (uw (JIMM inst))) s2))"
| "exec_u h JALR inst s =
     (let rd = CPC h s + 4;
          s1 = SET_TPC h (gpr_of h RS1 inst s + SEXT (sw (IMM inst))) s;
          s2 = SET_NPC h (gpr_of h RS1 inst s1 + SEXT (sw (IMM inst))) s1
      in finish (SET_GPR h (reg_of RD inst) rd s2))"

subsection \<open>Branches\<close>

fun branch_taken :: "branch_op \<Rightarrow> 64 word \<Rightarrow> 64 word \<Rightarrow> bool" where
  "branch_taken BEQ a b = (a = b)"
| "branch_taken BNE a b = (a \<noteq> b)"
| "branch_taken BLT a b = (sint a < sint b)"
| "branch_taken BGE a b = (sint b \<le> sint a)"
| "branch_taken BLTU a b = (a < b)"
| "branch_taken BGEU a b = (b \<le> a)"

definition exec_branch :: "'s hooks \<Rightarrow> branch_op \<Rightarrow> 32 word \<Rightarrow> 's \<Rightarrow> 's exec_res" where
  "exec_branch h op inst s =
     (let s1 = SET_TPC h (CPC h s + SEXT (uw (BIMM inst))) s
      in finish (if branch_taken op (gpr_of h RS1 inst s1) (gpr_of h RS2 inst s1)
                 then SET_NPC h (CPC h s1 + SEXT (uw (BIMM inst))) s1 else s1))"

subsection \<open>Loads and stores\<close>

fun load_size :: "load_op \<Rightarrow> nat" where
  "load_size LB = 1" | "load_size LBU = 1" | "load_size LH = 2" | "load_size LHU = 2"
| "load_size LW = 4" | "load_size LWU = 4" | "load_size LD = 8"

fun load_result :: "load_op \<Rightarrow> 64 word \<Rightarrow> 64 word" where
  "load_result LB v = scast (ucast v :: 8 word)"
| "load_result LH v = scast (ucast v :: 16 word)"
| "load_result LW v = scast (ucast v :: 32 word)"
| "load_result LD v = v"
| "load_result LBU v = ucast (ucast v :: 8 word)"
| "load_result LHU v = ucast (ucast v :: 16 word)"
| "load_result LWU v = ucast (ucast v :: 32 word)"

definition exec_load :: "'s hooks \<Rightarrow> load_op \<Rightarrow> 32 word \<Rightarrow> 's \<Rightarrow> 's exec_res" where
  "exec_load h op inst s =
     load h (load_size op) (gpr_of h RS1 inst s + SEXT (sw (IMM inst))) s
       (\<lambda>v s1. finish (SET_GPR h (reg_of RD inst) (load_result op v) s1))"

fun store_size :: "store_op \<Rightarrow> nat" where
  "store_size SB = 1" | "store_size SH = 2" | "store_size SW = 4" | "store_size SD = 8"

fun store_mask :: "store_op \<Rightarrow> 64 word" where
  "store_mask SB = 0xff" | "store_mask SH = 0xffff" | "store_mask SW = 0xffffffff"
| "store_mask SD = 0xffffffffffffffff"

definition exec_store :: "'s hooks \<Rightarrow> store_op \<Rightarrow> 32 word \<Rightarrow> 's \<Rightarrow> 's exec_res" where
  "exec_store h op inst s =
     store h (store_size op) (store_mask op AND gpr_of h RS2 inst s)
       (gpr_of h RS1 inst s + SEXT (uw (SIMM inst))) s finish"

subsection \<open>Register-immediate operations\<close>

fun imm_result :: "64 word \<Rightarrow> imm_op \<Rightarrow> 32 word \<Rightarrow> 64 word \<Rightarrow> 64 word" where
  "imm_result z ADDIW inst a =
     SEXT_TO z (((a AND LOW_MASK) + SEXT_TO z (sw (IMM inst)) 12 32) AND LOW_MASK) 32 64"
| "imm_result z SLLIW inst a = SEXT (0xffffffff AND push_bit (SHAMT_IW inst) a)"
| "imm_result z SRLIW inst a = SEXT (drop_bit (SHAMT_IW inst) (LOW_MASK AND a))"
| "imm_result z SRAIW inst a = SEXT (drop_bit (SHAMT_IW inst) (SEXT (LOW_MASK AND a)))"
| "imm_result z ADDI inst a = a + SEXT (sw (IMM inst))"
| "imm_result z SLTI inst a = (if sint a < sint (SEXT (sw (IMM inst))) then 1 else 0)"
| "imm_result z SLTIU inst a = (if a < SEXT (sw (IMM inst)) then 1 else 0)"
| "imm_result z XORI inst a = a XOR SEXT (sw (IMM inst))"
| "imm_result z ORI inst a = a OR SEXT (sw (IMM inst))"
| "imm_result z ANDI inst a = a AND SEXT (sw (IMM inst))"
| "imm_result z SLLI inst a = push_bit (SHAMT_I inst) a"
| "imm_result z SRLI inst a = drop_bit (SHAMT_I inst) a"
| "imm_result z SRAI inst a = signed_drop_bit (SHAMT_I inst) a"

definition exec_imm :: "'s hooks \<Rightarrow> imm_op \<Rightarrow> 32 word \<Rightarrow> 's \<Rightarrow> 's exec_res" where
  "exec_imm h op inst s =
     finish (SET_GPR h (reg_of RD inst) (imm_result (one_shl64 h) op inst (gpr_of h RS1 inst s)) s)"

subsection \<open>Register-register operations\<close>

definition SHIFT_MASK :: "64 word" where "SHIFT_MASK = 0x3f"
definition SHIFTW_MASK :: "64 word" where "SHIFTW_MASK = 0x1f"

fun reg_result :: "reg_op \<Rightarrow> 64 word \<Rightarrow> 64 word \<Rightarrow> 64 word" where
  "reg_result ADD a b = a + b"
| "reg_result SLL a b = push_bit (unat (b AND SHIFT_MASK)) a"
| "reg_result SLT a b = (if sint a < sint b then 1 else 0)"
| "reg_result SLTU a b = (if a < b then 1 else 0)"
| "reg_result XOR_OP a b = a XOR b"
| "reg_result SRL a b = drop_bit (unat (b AND SHIFT_MASK)) a"
| "reg_result OR_OP a b = a OR b"
| "reg_result AND_OP a b = a AND b"
| "reg_result SUB a b = a - b"
| "reg_result SRA a b = signed_drop_bit (unat (b AND SHIFT_MASK)) a"
| "reg_result ADDW a b = SEXT (0xffffffff AND (a + b))"
| "reg_result SLLW a b = SEXT (0xffffffff AND push_bit (unat (b AND SHIFTW_MASK)) a)"
| "reg_result SRLW a b = SEXT (drop_bit (unat (b AND SHIFTW_MASK)) (0xffffffff AND a))"
| "reg_result SUBW a b = SEXT (0xffffffff AND (a - (0xffffffff AND b)))"
| "reg_result SRAW a b = SEXT (drop_bit (unat (b AND SHIFTW_MASK)) (SEXT (0xffffffff AND a)))"

definition exec_reg :: "'s hooks \<Rightarrow> reg_op \<Rightarrow> 32 word \<Rightarrow> 's \<Rightarrow> 's exec_res" where
  "exec_reg h op inst s =
     finish (SET_GPR h (reg_of RD inst)
       (reg_result op (gpr_of h RS1 inst s) (gpr_of h RS2 inst s)) s)"

subsection \<open>The M extension\<close>

definition INT32_MIN :: int where "INT32_MIN = - (2 ^ 31)"
definition INT32_MAX :: int where "INT32_MAX = 2 ^ 31 - 1"

text \<open>The upper half of a product, from four products of 32-bit halves, as the code forms it.\<close>

definition mulh_result :: "64 word \<Rightarrow> 64 word \<Rightarrow> 64 word" where
  "mulh_result a b =
     (let h1 = signed_drop_bit 32 a; l1 = a AND LOW_MASK;
          h2 = signed_drop_bit 32 b; l2 = b AND LOW_MASK;
          high = h1 * h2; low = l1 * l2; hl = h1 * l2; lh = l1 * h2;
          mid = hl + lh;
          carry = (if sint mid < sint hl \<or> sint mid < sint lh then 1 else 0);
          mid2 = mid + signed_drop_bit 32 low;
          carry2 = (if sint mid2 < sint mid then carry + 1 else carry);
          result = high + push_bit 32 carry2 + (signed_drop_bit 32 mid2 AND LOW_MASK)
      in result AND LOW_MASK)"

definition mulhsu_result :: "64 word \<Rightarrow> 64 word \<Rightarrow> 64 word" where
  "mulhsu_result a b =
     (let h1 = signed_drop_bit 32 a; l1 = a AND LOW_MASK;
          h2 = drop_bit 32 b; l2 = b AND LOW_MASK;
          high = h1 * h2; low = l1 * l2; hl = h1 * l2; lh = l1 * h2;
          mid = hl + lh;
          carry = (if sint mid < sint hl then 1 else 0);
          mid2 = mid + drop_bit 32 low;
          carry2 = (if mid2 < drop_bit 32 low then carry + 1 else carry)
      in high + push_bit 32 carry2 + signed_drop_bit 32 mid2)"

definition mulhu_result :: "64 word \<Rightarrow> 64 word \<Rightarrow> 64 word" where
  "mulhu_result a b =
     (let h1 = drop_bit 32 a; l1 = a AND LOW_MASK;
          h2 = drop_bit 32 b; l2 = b AND LOW_MASK;
          high = h1 * h2; low = l1 * l2; hl = h1 * l2; lh = l1 * h2;
          mid = hl + lh;
          carry = (if mid < hl \<or> mid < lh then 1 else 0);
          mid2 = mid + drop_bit 32 low;
          carry2 = (if mid2 < mid then carry + 1 else carry)
      in high + push_bit 32 carry2 + (drop_bit 32 mid2 AND LOW_MASK))"

definition divw_result :: "64 word \<Rightarrow> 64 word \<Rightarrow> 64 word cres" where
  "divw_result a b =
     (let r1 = sint (low32 a); r2 = sint (low32 b)
      in if r1 = INT32_MIN \<and> r2 = 0 then Inr (- 1)
         else if r1 = INT32_MIN \<and> r2 = INT32_MAX then Inr (SEXT (word_of_int INT32_MIN))
         else if r1 = INT32_MIN \<and> r2 = -1 then Inr (SEXT (word_of_int INT32_MIN))
         else if r1 = INT32_MIN then Inr (SEXT (word_of_int INT32_MIN))
         else if r2 = 0 then Inr (- 1)
         else cbind (sdiv_at 32 r1 r2) (\<lambda>q. Inr (SEXT (word_of_int q))))"

definition divuw_result :: "64 word \<Rightarrow> 64 word \<Rightarrow> 64 word cres" where
  "divuw_result a b =
     (let r1 = low32 a; r2 = low32 b
      in if r1 = 0 \<and> r2 = 0 then Inr (- 1)
         else if r1 = 0 \<and> r2 = - 1 then Inr 0
         else if r1 = 0 then Inr 0
         else if r2 = 0 then Inr (- 1)
         else Inr (SEXT (uw (r1 div r2))))"

definition remw_result :: "64 word \<Rightarrow> 64 word \<Rightarrow> 64 word cres" where
  "remw_result a b =
     (let r1 = sint (low32 a); r2 = sint (low32 b)
      in if r2 = -1 then Inr 0
         else if r2 = 0 then Inr (SEXT (word_of_int r1))
         else cbind (smod_at 32 r1 r2) (\<lambda>q. Inr (SEXT (word_of_int q))))"

definition remuw_result :: "64 word \<Rightarrow> 64 word \<Rightarrow> 64 word cres" where
  "remuw_result a b =
     (let r1 = low32 a; r2 = low32 b
      in if r2 = 0 then Inr (SEXT (uw r1)) else Inr (SEXT (uw (r1 mod r2))))"

definition div_result :: "64 word \<Rightarrow> 64 word \<Rightarrow> 64 word cres" where
  "div_result a b =
     (if a = 0 \<and> sint b = -1 then Inr 0
      else if b = 0 then Inr (- 1)
      else cbind (sdiv_at 64 (sint a) (sint b)) (\<lambda>q. Inr (word_of_int q)))"

definition divu_result :: "64 word \<Rightarrow> 64 word \<Rightarrow> 64 word cres" where
  "divu_result a b =
     (if a = 0 \<and> b = 0 then Inr (- 1)
      else if a = 0 \<and> b = - 1 then Inr 0
      else if a = 0 then Inr 0
      else if b = 0 then Inr (- 1)
      else Inr (a div b))"

definition rem_result :: "64 word \<Rightarrow> 64 word \<Rightarrow> 64 word cres" where
  "rem_result a b =
     (if sint b = -1 then Inr 0
      else if b = 0 then Inr a
      else cbind (smod_at 64 (sint a) (sint b)) (\<lambda>q. Inr (word_of_int q)))"

definition remu_result :: "64 word \<Rightarrow> 64 word \<Rightarrow> 64 word cres" where
  "remu_result a b = (if b = 0 then Inr a else Inr (a mod b))"

fun mul_result :: "mul_op \<Rightarrow> 64 word \<Rightarrow> 64 word \<Rightarrow> 64 word cres" where
  "mul_result MULW a b = Inr (SEXT (0xffffffff AND ((0xffffffff AND a) * (0xffffffff AND b))))"
| "mul_result DIVW a b = divw_result a b"
| "mul_result DIVUW a b = divuw_result a b"
| "mul_result REMW a b = remw_result a b"
| "mul_result REMUW a b = remuw_result a b"
| "mul_result MUL a b = Inr (a * b)"
| "mul_result MULH a b = Inr (mulh_result a b)"
| "mul_result MULHSU a b = Inr (mulhsu_result a b)"
| "mul_result MULHU a b = Inr (mulhu_result a b)"
| "mul_result DIV a b = div_result a b"
| "mul_result DIVU a b = divu_result a b"
| "mul_result REM a b = rem_result a b"
| "mul_result REMU a b = remu_result a b"

definition exec_mul :: "'s hooks \<Rightarrow> mul_op \<Rightarrow> 32 word \<Rightarrow> 's \<Rightarrow> 's exec_res" where
  "exec_mul h op inst s =
     cbind (mul_result op (gpr_of h RS1 inst s) (gpr_of h RS2 inst s)) (\<lambda>r.
     finish (SET_GPR h (reg_of RD inst) r s))"

subsection \<open>Control and status registers\<close>

definition FFLAGS :: nat where "FFLAGS = 0x001"
definition FRM :: nat where "FRM = 0x002"
definition FCSR :: nat where "FCSR = 0x003"
definition SEPC :: nat where "SEPC = 0x141"
definition MSTATUS :: nat where "MSTATUS = 0x300"
definition MEPC :: nat where "MEPC = 0x341"

text \<open>\<open>SYNC_FCSR(CSR, 0)\<close> and \<open>SYNC_FCSR(CSR, 1)\<close>.\<close>

definition sync_read :: "'s hooks \<Rightarrow> nat \<Rightarrow> 's \<Rightarrow> 's" where
  "sync_read h c s =
     (if c = FCSR then SET_CSRS h FCSR (push_bit 5 (CSRS h s FRM) OR CSRS h s FFLAGS) s else s)"

definition sync_write :: "'s hooks \<Rightarrow> nat \<Rightarrow> 's \<Rightarrow> 's" where
  "sync_write h c s =
     (if c = FCSR
      then let s1 = SET_CSRS h FRM (drop_bit 5 (CSRS h s FCSR) AND 0x3) s
           in SET_CSRS h FFLAGS (CSRS h s1 FCSR AND 0x1f) s1
      else s)"

definition csr_write :: "'s hooks \<Rightarrow> nat \<Rightarrow> 64 word \<Rightarrow> 's \<Rightarrow> 's" where
  "csr_write h c v s = sync_write h c (SET_CSRS h c v s)"

fun exec_csr :: "'s hooks \<Rightarrow> csr_op \<Rightarrow> 32 word \<Rightarrow> 's \<Rightarrow> 's exec_res" where
  "exec_csr h CSRRW inst s0 =
     (let c = CSR inst; s = sync_read h c s0
      in if reg_of RD inst \<noteq> 0
         then let tmp = CSRS h s c
              in finish (SET_GPR h (reg_of RD inst) tmp (csr_write h c (gpr_of h RS1 inst s) s))
         else finish (csr_write h c (gpr_of h RS1 inst s) s))"
| "exec_csr h CSRRS inst s0 =
     (let c = CSR inst; s = sync_read h c s0
      in if reg_of RS1 inst \<noteq> 0
         then let rd = low32 (CSRS h s c)
              in finish (SET_GPR h (reg_of RD inst) (uw rd)
                   (csr_write h c (gpr_of h RS1 inst s OR CSRS h s c) s))
         else finish (sync_write h c (SET_GPR h (reg_of RD inst) (CSRS h s c) s)))"
| "exec_csr h CSRRC inst s0 =
     (let c = CSR inst; s = sync_read h c s0
      in if reg_of RS1 inst \<noteq> 0
         then let rd = low32 (CSRS h s c)
              in finish (SET_GPR h (reg_of RD inst) (uw rd)
                   (csr_write h c (NOT (gpr_of h RS1 inst s) AND CSRS h s c) s))
         else finish (sync_write h c (SET_GPR h (reg_of RD inst) (CSRS h s c) s)))"
| "exec_csr h CSRRWI inst s0 =
     (let c = CSR inst; s = sync_read h c s0
      in if reg_of RD inst \<noteq> 0
         then let tmp = CSRS h s c
              in finish (SET_GPR h (reg_of RD inst) tmp (csr_write h c (EXT (uw (UIMM4 inst))) s))
         else finish (csr_write h c (EXT (uw (UIMM4 inst))) s))"
| "exec_csr h CSRRSI inst s0 =
     (let c = CSR inst; s = sync_read h c s0; rd = low32 (CSRS h s c)
      in finish (SET_GPR h (reg_of RD inst) (uw rd)
           (if UIMM4 inst \<noteq> 0 then csr_write h c (sw (UIMM4 inst) OR CSRS h s c) s else s)))"
| "exec_csr h CSRRCI inst s0 =
     (let c = CSR inst; s = sync_read h c s0; rd = low32 (CSRS h s c)
      in finish (SET_GPR h (reg_of RD inst) (uw rd)
           (if UIMM4 inst \<noteq> 0 then csr_write h c (sw (NOT (UIMM4 inst)) AND CSRS h s c) s else s)))"

subsection \<open>System instructions\<close>

definition SIE :: "64 word" where "SIE = push_bit 1 1"
definition MIE :: "64 word" where "MIE = push_bit 3 1"
definition SPIE :: "64 word" where "SPIE = push_bit 5 1"
definition MPIE :: "64 word" where "MPIE = push_bit 7 1"
definition SPP :: "64 word" where "SPP = push_bit 8 1"
definition MPP :: "64 word" where "MPP = push_bit 11 0x11"

definition xret :: "'s hooks \<Rightarrow> 64 word \<Rightarrow> 64 word \<Rightarrow> 64 word \<Rightarrow> nat \<Rightarrow> 's \<Rightarrow> 's exec_res" where
  "xret h ie pp pie epc s =
     (let m0 = CSRS h s MSTATUS AND NOT (ie OR pp);
          m1 = (if m0 AND pie \<noteq> 0 then m0 OR ie else m0);
          s1 = SET_CSRS h MSTATUS (m1 OR pie) s
      in finish (SET_NPC h (CSRS h s1 epc) s1))"

fun exec_sys :: "'s hooks \<Rightarrow> sys_op \<Rightarrow> 32 word \<Rightarrow> 's \<Rightarrow> 's exec_res" where
  "exec_sys h FENCE inst s = finish s"
| "exec_sys h FENCE_I inst s = finish s"
| "exec_sys h ECALL inst s = cbind (SYSCALL h inst s) finish"
| "exec_sys h EBREAK inst s = cbind (SYSCALL h 93 s) finish"
| "exec_sys h SRET inst s = xret h SIE SPP SPIE SEPC s"
| "exec_sys h MRET inst s = xret h MIE MPP MPIE MEPC s"

end
