(* ===== verification/RvExec.thy ===== *)
theory RvExec
  imports RvSem
begin

text \<open>
  The A and C extensions of riscv.def, the moves of the F and D extensions between memory and
  the register file, and the switch over the opcode that runs any instruction.
\<close>

subsection \<open>Atomic memory operations\<close>

text \<open>
  The operations of width W read a \<open>word_t\<close> and sign-extend it into RD. Which address they
  read and write depends on the local they use: the whole register, or a copy of it cut to 32
  bits and widened again.
\<close>

fun amo_read_addr :: "amo_op \<Rightarrow> 64 word \<Rightarrow> 64 word" where
  "amo_read_addr AMOSWAP_W a = uw (low32 a)"
| "amo_read_addr _ a = a"

fun amo_write_addr :: "amo_op \<Rightarrow> 64 word \<Rightarrow> 64 word" where
  "amo_write_addr AMOSWAP_W a = uw (low32 a)"
| "amo_write_addr AMOAND_W a = sw (low32 a)"
| "amo_write_addr AMOMINU_W a = uw (low32 a)"
| "amo_write_addr _ a = a"

text \<open>What is written back, if anything, from the value in memory and the source register.\<close>

fun amo_w :: "amo_op \<Rightarrow> 32 word \<Rightarrow> 32 word \<Rightarrow> 32 word option" where
  "amo_w AMOSWAP_W m b = Some b"
| "amo_w AMOADD_W m b = Some (m + b)"
| "amo_w AMOXOR_W m b = Some (m XOR b)"
| "amo_w AMOAND_W m b = Some (m AND b)"
| "amo_w AMOOR_W m b = Some (m OR b)"
| "amo_w AMOMIN_W m b = (if sint b < sint m then Some b else None)"
| "amo_w AMOMAX_W m b = (if sint b > sint m then Some b else None)"
| "amo_w AMOMINU_W m b = (if b < m then Some b else None)"
| "amo_w AMOMAXU_W m b = (if b > m then Some b else None)"
| "amo_w _ m b = None"

fun amo_d :: "amo_op \<Rightarrow> 64 word \<Rightarrow> 64 word \<Rightarrow> 64 word option" where
  "amo_d AMOSWAP_D m b = Some b"
| "amo_d AMOADD_D m b = Some (m + b)"
| "amo_d AMOXOR_D m b = Some (m XOR b)"
| "amo_d AMOAND_D m b = Some (m AND b)"
| "amo_d AMOOR_D m b = Some (m OR b)"
| "amo_d AMOMIN_D m b = (if sint b < sint m then Some b else None)"
| "amo_d AMOMAX_D m b = (if sint b > sint m then Some b else None)"
| "amo_d AMOMINU_D m b = (if b < m then Some b else None)"
| "amo_d AMOMAXU_D m b = (if b > m then Some b else None)"
| "amo_d _ m b = None"

definition store_opt :: "'s hooks \<Rightarrow> nat \<Rightarrow> 64 word option \<Rightarrow> 64 word \<Rightarrow> 's \<Rightarrow> ('s \<Rightarrow> 's exec_res) \<Rightarrow> 's exec_res" where
  "store_opt h n v addr s k = (case v of None \<Rightarrow> k s | Some x \<Rightarrow> store h n x addr s k)"

definition exec_amo_w :: "'s hooks \<Rightarrow> amo_op \<Rightarrow> 32 word \<Rightarrow> 's \<Rightarrow> 's exec_res" where
  "exec_amo_w h op inst s =
     (let a = gpr_of h RS1 inst s; b = low32 (gpr_of h RS2 inst s)
      in load h 4 (amo_read_addr op a) s (\<lambda>v s1.
         store_opt h 4 (map_option uw (amo_w op (low32 v) b)) (amo_write_addr op a) s1 (\<lambda>s2.
         finish (SET_GPR h (reg_of RD inst) (SEXT (sw (low32 v))) s2))))"

definition exec_amo_d :: "'s hooks \<Rightarrow> amo_op \<Rightarrow> 32 word \<Rightarrow> 's \<Rightarrow> 's exec_res" where
  "exec_amo_d h op inst s =
     (let a = gpr_of h RS1 inst s; b = gpr_of h RS2 inst s
      in load h 8 a s (\<lambda>v s1.
         store_opt h 8 (amo_d op v b) a s1 (\<lambda>s2.
         finish (SET_GPR h (reg_of RD inst) v s2))))"

definition lrsc_init :: lrsc_t where "lrsc_init = \<lparr>target_addr = 0, lrsc_val = 0\<rparr>"

text \<open>\<open>lrsc->target_addr\<close> is read off \<open>GPR(RS1)\<close> after RD has been written.\<close>

definition exec_lr :: "'s hooks \<Rightarrow> nat \<Rightarrow> (64 word \<Rightarrow> 64 word) \<Rightarrow> 32 word \<Rightarrow> 's \<Rightarrow> 's exec_res" where
  "exec_lr h n conv inst s =
     load h n (gpr_of h RS1 inst s) s (\<lambda>v s1.
     (let s2 = SET_GPR h (reg_of RD inst) (conv v) s1
      in finish (SET_LRSC h \<lparr>target_addr = gpr_of h RS1 inst s2, lrsc_val = conv v\<rparr> s2)))"

text \<open>The source register is masked with \<open>WORD_MASK\<close> at both widths.\<close>

definition exec_sc :: "'s hooks \<Rightarrow> nat \<Rightarrow> 32 word \<Rightarrow> 's \<Rightarrow> 's exec_res" where
  "exec_sc h n inst s =
     (let src = 0xffffffff AND gpr_of h RS2 inst s
      in cbind (READ h n (gpr_of h RS1 inst s) s) (\<lambda>(target, fault, s1).
         if gpr_of h RS1 inst s1 = target_addr (LRSC h s1) \<and> target = lrsc_val (LRSC h s1)
         then store h n src (gpr_of h RS1 inst s1) s1 (\<lambda>s2.
              finish (SET_LRSC h lrsc_init (SET_GPR h (reg_of RD inst) 0 s2)))
         else finish (SET_LRSC h lrsc_init (SET_GPR h (reg_of RD inst) 1 s1))))"

fun exec_amo :: "'s hooks \<Rightarrow> amo_op \<Rightarrow> 32 word \<Rightarrow> 's \<Rightarrow> 's exec_res" where
  "exec_amo h LR_W inst s = exec_lr h 4 (\<lambda>v. sw (low32 v)) inst s"
| "exec_amo h SC_W inst s = exec_sc h 4 inst s"
| "exec_amo h LR_D inst s = exec_lr h 8 (\<lambda>v. v) inst s"
| "exec_amo h SC_D inst s = exec_sc h 8 inst s"
| "exec_amo h op inst s =
     (if op \<in> {AMOSWAP_W, AMOADD_W, AMOXOR_W, AMOAND_W, AMOOR_W, AMOMIN_W, AMOMAX_W, AMOMINU_W,
               AMOMAXU_W}
      then exec_amo_w h op inst s else exec_amo_d h op inst s)"

subsection \<open>Floating-point loads and stores\<close>

definition NAN_BOX :: "64 word" where "NAN_BOX = push_bit 32 0xffffffff"

definition store_fp :: "'s hooks \<Rightarrow> nat \<Rightarrow> nat \<Rightarrow> 64 word \<Rightarrow> 's \<Rightarrow> 's exec_res" where
  "store_fp h n r addr s = store h n (FPRD_Q h s r) addr s finish"

definition load_fp :: "'s hooks \<Rightarrow> nat \<Rightarrow> 64 word \<Rightarrow> nat \<Rightarrow> 64 word \<Rightarrow> 's \<Rightarrow> 's exec_res" where
  "load_fp h n box r addr s = load h n addr s (\<lambda>v s1. finish (SET_FPRD_Q h r (v OR box) s1))"

fun exec_fp :: "'s hooks \<Rightarrow> fp_op \<Rightarrow> 32 word \<Rightarrow> 's \<Rightarrow> 's exec_res" where
  "exec_fp h FLW inst s =
     load_fp h 4 NAN_BOX (reg_of RD inst) (gpr_of h RS1 inst s + SEXT (sw (IMM inst))) s"
| "exec_fp h FLD inst s =
     load_fp h 8 0 (reg_of RD inst) (gpr_of h RS1 inst s + SEXT (sw (IMM inst))) s"
| "exec_fp h FSW inst s =
     store_fp h 4 (reg_of RS2 inst) (gpr_of h RS1 inst s + SEXT (uw (SIMM inst))) s"
| "exec_fp h FSD inst s =
     store_fp h 8 (reg_of RS2 inst) (gpr_of h RS1 inst s + SEXT (uw (SIMM inst))) s"
| "exec_fp h op inst s = cbind (FLOAT h op inst s) finish"

subsection \<open>The C extension\<close>

definition load_gpr :: "'s hooks \<Rightarrow> load_op \<Rightarrow> nat \<Rightarrow> 64 word \<Rightarrow> 's \<Rightarrow> 's exec_res" where
  "load_gpr h op r addr s =
     load h (load_size op) addr s (\<lambda>v s1. finish (SET_GPR h r (load_result op v) s1))"

definition store_gpr :: "'s hooks \<Rightarrow> store_op \<Rightarrow> nat \<Rightarrow> 64 word \<Rightarrow> 's \<Rightarrow> 's exec_res" where
  "store_gpr h op r addr s = store h (store_size op) (store_mask op AND GPR h s r) addr s finish"

definition set_or_fault :: "'s hooks \<Rightarrow> bool \<Rightarrow> nat \<Rightarrow> 64 word \<Rightarrow> 's \<Rightarrow> 's exec_res" where
  "set_or_fault h bad r v s =
     (if bad then DECLARE_FAULT fault_break s else finish (SET_GPR h r v s))"

definition jump_c :: "'s hooks \<Rightarrow> 64 word \<Rightarrow> 's \<Rightarrow> 's" where
  "jump_c h t s = CtrlInstTaken h True (SET_NPC h t (SET_TPC h t s))"

definition branch_c :: "'s hooks \<Rightarrow> bool \<Rightarrow> 32 word \<Rightarrow> 's \<Rightarrow> 's" where
  "branch_c h on_zero inst s =
     (let t = CPC h s + SEXT_TO (one_shl64 h) (uw (BIMM_C inst)) 9 64; s1 = SET_TPC h t s
      in if (gpr_of h RS1_C_x8 inst s1 = 0) = on_zero
         then CtrlInstTaken h True (SET_NPC h t s1) else s1)"

text \<open>The jumps and moves of quadrant 2.\<close>

fun exec_c_jump :: "'s hooks \<Rightarrow> c_op \<Rightarrow> 32 word \<Rightarrow> 's \<Rightarrow> 's exec_res" where
  "exec_c_jump h C_JR inst s =
     (if reg_of RS2_C_x32 inst \<noteq> 0 then DECLARE_FAULT fault_break s
      else finish (jump_c h (gpr_of h RS1_C_x32 inst s) s))"
| "exec_c_jump h (C_MV n) inst s =
     finish (SET_GPR h (reg_of RS1_RD_C_x32 inst) (gpr_of h RS2_C_x32 inst s) s)"
| "exec_c_jump h (C_ADD n) inst s =
     set_or_fault h (reg_of RS1_RD_C_x32 inst = 0 \<or> reg_of RS2_C_x32 inst = 0) (reg_of RS1_RD_C_x32 inst)
       (gpr_of h RS1_RD_C_x32 inst s + gpr_of h RS2_C_x32 inst s) s"
| "exec_c_jump h C_EBREAK inst s = cbind (SYSCALL h 93 s) finish"
| "exec_c_jump h (C_JALR n) inst s =
     (let rd = CPC h s + 2
      in if reg_of RS2_C_x32 inst \<noteq> 0 then DECLARE_FAULT fault_break s
         else let t = gpr_of h RS1_C_x32 inst s
              in finish (CtrlInstTaken h True (SET_GPR h (reg_of REG_RA inst) rd
                   (SET_NPC h t (SET_TPC h t s)))))"

text \<open>The accesses relative to the stack pointer of quadrant 2.\<close>

fun exec_c_stack :: "'s hooks \<Rightarrow> c_op \<Rightarrow> 32 word \<Rightarrow> 's \<Rightarrow> 's exec_res" where
  "exec_c_stack h C_SLLI64 inst s =
     set_or_fault h (reg_of RS1_RD_C_x32 inst = 0 \<or> SHAMT_C inst = 0) (reg_of RS1_RD_C_x32 inst)
       (push_bit (SHAMT_C inst) (gpr_of h RS1_RD_C_x32 inst s)) s"
| "exec_c_stack h C_FLDSP inst s =
     load_fp h 8 0 (reg_of RD_C_x32 inst) (gpr_of h REG_SP inst s + EXT (uw (DIMM_C_R inst))) s"
| "exec_c_stack h C_LWSP inst s =
     (if reg_of RD_C_x32 inst = 0 then DECLARE_FAULT fault_break s
      else load_gpr h LW (reg_of RD_C_x32 inst) (gpr_of h REG_SP inst s + EXT (uw (WIMM_C_R inst))) s)"
| "exec_c_stack h C_LDSP inst s =
     (if reg_of RD_C_x32 inst = 0 then DECLARE_FAULT fault_break s
      else load_gpr h LD (reg_of RD_C_x32 inst) (gpr_of h REG_SP inst s + EXT (uw (DIMM_C_R inst))) s)"
| "exec_c_stack h C_FSDSP inst s =
     store_fp h 8 (reg_of RS2_C_x32 inst) (gpr_of h REG_SP inst s + EXT (uw (DIMM_C_L inst))) s"
| "exec_c_stack h C_SWSP inst s =
     store_gpr h SW (reg_of RS2_C_x32 inst) (gpr_of h REG_SP inst s + EXT (uw (WIMM_C_L inst))) s"
| "exec_c_stack h C_SDSP inst s =
     store_gpr h SD (reg_of RS2_C_x32 inst) (gpr_of h REG_SP inst s + EXT (uw (DIMM_C_L inst))) s"
| "exec_c_stack h op inst s = exec_c_jump h op inst s"

text \<open>The register forms of quadrant 1.\<close>

fun exec_c_alu :: "'s hooks \<Rightarrow> c_op \<Rightarrow> 32 word \<Rightarrow> 's \<Rightarrow> 's exec_res" where
  "exec_c_alu h C_SRLI64 inst s =
     set_or_fault h (reg_of RS1_RD_C_x8 inst = 0 \<or> SHAMT_C inst = 0) (reg_of RS1_RD_C_x8 inst)
       (drop_bit (SHAMT_C inst) (gpr_of h RS1_RD_C_x8 inst s)) s"
| "exec_c_alu h C_SRAI64 inst s =
     set_or_fault h (reg_of RS1_RD_C_x8 inst = 0 \<or> SHAMT_C inst = 0) (reg_of RS1_RD_C_x8 inst)
       (signed_drop_bit (SHAMT_C inst) (gpr_of h RS1_RD_C_x8 inst s)) s"
| "exec_c_alu h C_ANDI inst s =
     finish (SET_GPR h (reg_of RS1_RD_C_x8 inst)
       (gpr_of h RS1_RD_C_x8 inst s AND SEXT_TO (one_shl64 h) (uw (IMM_C_5_4_0 inst)) 6 64) s)"
| "exec_c_alu h C_SUB inst s =
     finish (SET_GPR h (reg_of RS1_RD_C_x8 inst) (gpr_of h RS1_RD_C_x8 inst s - gpr_of h RS2_C_x8 inst s) s)"
| "exec_c_alu h C_XOR inst s =
     finish (SET_GPR h (reg_of RS1_RD_C_x8 inst) (gpr_of h RS1_RD_C_x8 inst s XOR gpr_of h RS2_C_x8 inst s) s)"
| "exec_c_alu h C_OR inst s =
     finish (SET_GPR h (reg_of RS1_RD_C_x8 inst) (gpr_of h RS1_RD_C_x8 inst s OR gpr_of h RS2_C_x8 inst s) s)"
| "exec_c_alu h C_AND inst s =
     finish (SET_GPR h (reg_of RS1_RD_C_x8 inst) (gpr_of h RS1_RD_C_x8 inst s AND gpr_of h RS2_C_x8 inst s) s)"
| "exec_c_alu h C_SUBW inst s =
     finish (SET_GPR h (reg_of RS1_RD_C_x8 inst) (SEXT_TO (one_shl64 h)
       ((gpr_of h RS1_RD_C_x8 inst s - gpr_of h RS2_C_x8 inst s) AND LOW_MASK) 32 64) s)"
| "exec_c_alu h C_ADDW inst s =
     finish (SET_GPR h (reg_of RS1_RD_C_x8 inst) (SEXT_TO (one_shl64 h)
       ((gpr_of h RS1_RD_C_x8 inst s + gpr_of h RS2_C_x8 inst s) AND LOW_MASK) 32 64) s)"
| "exec_c_alu h op inst s = exec_c_stack h op inst s"

text \<open>The immediate forms and branches of quadrant 1.\<close>

fun exec_c_imm :: "'s hooks \<Rightarrow> c_op \<Rightarrow> 32 word \<Rightarrow> 's \<Rightarrow> 's exec_res" where
  "exec_c_imm h C_ADDI inst s =
     set_or_fault h (reg_of RS1_RD_C_x32 inst = 0 \<or> IMM_C_5_4_0 inst = 0) (reg_of RS1_RD_C_x32 inst)
       (gpr_of h RS1_RD_C_x32 inst s + SEXT_TO (one_shl64 h) (uw (IMM_C_5_4_0 inst)) 6 64) s"
| "exec_c_imm h C_ADDIW inst s =
     set_or_fault h (reg_of RS1_RD_C_x32 inst = 0) (reg_of RS1_RD_C_x32 inst)
       (SEXT_TO (one_shl64 h)
         (((gpr_of h RS1_RD_C_x32 inst s AND LOW_MASK)
            + SEXT_TO (one_shl64 h) (uw (IMM_C_5_4_0 inst)) 6 32) AND LOW_MASK) 32 64) s"
| "exec_c_imm h C_LI inst s =
     (if reg_of RD_C_x32 inst = 0 then DECLARE_FAULT (junk_fault h) s
      else finish (SET_GPR h (reg_of RD_C_x32 inst)
             (SEXT_TO (one_shl64 h) (uw (IMM_C_5_4_0 inst)) 6 64) s))"
| "exec_c_imm h C_J inst s =
     finish (jump_c h (CPC h s + SEXT_TO (one_shl64 h) (uw (JIMM_C inst)) 12 64) s)"
| "exec_c_imm h C_BEQZ inst s = finish (branch_c h True inst s)"
| "exec_c_imm h C_BNEZ inst s = finish (branch_c h False inst s)"
| "exec_c_imm h C_ADDI16SP inst s =
     set_or_fault h (IMM_C_16SP inst = 0) (reg_of REG_SP inst)
       (gpr_of h REG_SP inst s + SEXT_TO (one_shl64 h) (uw (IMM_C_16SP inst)) 10 64) s"
| "exec_c_imm h (C_LUI n) inst s =
     set_or_fault h (reg_of RS1_RD_C_x32 inst = 0 \<or> reg_of RS1_RD_C_x32 inst = 2 \<or> UIMM_C inst = 0)
       (reg_of RS1_RD_C_x32 inst) (SEXT_TO (one_shl64 h) (uw (UIMM_C inst)) 18 64) s"
| "exec_c_imm h op inst s = exec_c_alu h op inst s"

text \<open>The loads and stores of quadrant 0.\<close>

fun exec_c_mem :: "'s hooks \<Rightarrow> c_op \<Rightarrow> 32 word \<Rightarrow> 's \<Rightarrow> 's exec_res" where
  "exec_c_mem h C_ADDI4SPN inst s =
     set_or_fault h (IMM_C_4SPN inst = 0) (reg_of RD_C_x8 inst)
       (gpr_of h REG_SP inst s + EXT (uw (IMM_C_4SPN inst))) s"
| "exec_c_mem h C_FLD inst s =
     load_fp h 8 0 (reg_of RD_C_x8 inst) (gpr_of h RS1_C_x8 inst s + EXT (uw (DIMM_C_BRLS inst))) s"
| "exec_c_mem h C_LW inst s =
     load_gpr h LW (reg_of RD_C_x8 inst) (gpr_of h RS1_C_x8 inst s + EXT (uw (WIMM_C_BRLS inst))) s"
| "exec_c_mem h C_LD inst s =
     load_gpr h LD (reg_of RD_C_x8 inst) (gpr_of h RS1_C_x8 inst s + EXT (uw (DIMM_C_BRLS inst))) s"
| "exec_c_mem h C_FSD inst s =
     store_fp h 8 (reg_of RS2_C_x8 inst) (gpr_of h RS1_C_x8 inst s + EXT (uw (DIMM_C_BRLS inst))) s"
| "exec_c_mem h C_SW inst s =
     store_gpr h SW (reg_of RS2_C_x8 inst) (gpr_of h RS1_C_x8 inst s + EXT (uw (WIMM_C_BRLS inst))) s"
| "exec_c_mem h C_SD inst s =
     store_gpr h SD (reg_of RS2_C_x8 inst) (gpr_of h RS1_C_x8 inst s + EXT (uw (DIMM_C_BRLS inst))) s"
| "exec_c_mem h op inst s = exec_c_imm h op inst s"

definition exec_c :: "'s hooks \<Rightarrow> c_op \<Rightarrow> 32 word \<Rightarrow> 's \<Rightarrow> 's exec_res" where
  "exec_c h op inst s = exec_c_mem h op inst s"

subsection \<open>The switch over the opcode\<close>

fun exec_insn :: "'s hooks \<Rightarrow> insn \<Rightarrow> 32 word \<Rightarrow> 's \<Rightarrow> 's exec_res" where
  "exec_insn h (U x) inst s = exec_u h x inst s"
| "exec_insn h (Br x) inst s = exec_branch h x inst s"
| "exec_insn h (Ld x) inst s = exec_load h x inst s"
| "exec_insn h (St x) inst s = exec_store h x inst s"
| "exec_insn h (OpI x) inst s = exec_imm h x inst s"
| "exec_insn h (OpR x) inst s = exec_reg h x inst s"
| "exec_insn h (Sys x) inst s = exec_sys h x inst s"
| "exec_insn h (Csr x) inst s = exec_csr h x inst s"
| "exec_insn h (Mul x) inst s = exec_mul h x inst s"
| "exec_insn h (Amo x) inst s = exec_amo h x inst s"
| "exec_insn h (Fp x) inst s = exec_fp h x inst s"
| "exec_insn h (C x) inst s = exec_c h x inst s"

end
