(* ===== verification/SimFast.thy ===== *)
theory SimFast
  imports RvExec
begin

text \<open>
  The functional simulator of sim-fast.c: its registers, memory and LR/SC recorder, the
  accessor macros it gives to riscv.def, \<open>MD_FETCH_INST\<close> and one iteration of the loop of
  \<open>sim_main\<close>. The loop has no exit of its own (the exit system call leaves through the host),
  so a run is a number of iterations. System calls and host floating point are parameters.
\<close>

subsection \<open>State\<close>

record regs_t =
  regs_R :: "nat \<Rightarrow> 64 word"
  regs_F :: "nat \<Rightarrow> 64 word"
  regs_C :: "nat \<Rightarrow> 64 word"
  regs_PC :: "64 word"
  regs_NPC :: "64 word"

definition regs_init :: regs_t where
  "regs_init = \<lparr>regs_R = (\<lambda>_. 0), regs_F = (\<lambda>_. 0), regs_C = (\<lambda>_. 0), regs_PC = 0, regs_NPC = 0\<rparr>"

record fast =
  regs :: regs_t
  fmem :: mem_t
  lrsc :: lrsc_t
  IsCtrlInstTaken :: bool
  sim_num_insn :: "64 word"
  mem_cross_page_refs :: "64 word"

record host =
  sys_syscall :: "32 word \<Rightarrow> fast \<Rightarrow> fast cres"
  host_float :: "fp_op \<Rightarrow> 32 word \<Rightarrow> fast \<Rightarrow> fast cres"
  host_shl64 :: "64 word"
  host_junk :: md_fault

definition sim_init :: fast where
  "sim_init = \<lparr>regs = regs_init, fmem = mem_init (mem_create ''mem''), lrsc = lrsc_init,
     IsCtrlInstTaken = False, sim_num_insn = 0, mem_cross_page_refs = 0\<rparr>"

definition MISA :: nat where "MISA = 0x301"
definition MHARTID :: nat where "MHARTID = 0xf14"

definition upd_regs :: "(regs_t \<Rightarrow> regs_t) \<Rightarrow> fast \<Rightarrow> fast" where
  "upd_regs f s = s\<lparr>regs := f (regs s)\<rparr>"

definition set_R :: "nat \<Rightarrow> 64 word \<Rightarrow> fast \<Rightarrow> fast" where
  "set_R n v = upd_regs (\<lambda>r. r\<lparr>regs_R := (regs_R r)(n := v)\<rparr>)"
definition set_F :: "nat \<Rightarrow> 64 word \<Rightarrow> fast \<Rightarrow> fast" where
  "set_F n v = upd_regs (\<lambda>r. r\<lparr>regs_F := (regs_F r)(n := v)\<rparr>)"
definition set_C :: "nat \<Rightarrow> 64 word \<Rightarrow> fast \<Rightarrow> fast" where
  "set_C n v = upd_regs (\<lambda>r. r\<lparr>regs_C := (regs_C r)(n := v)\<rparr>)"
definition set_PC :: "64 word \<Rightarrow> fast \<Rightarrow> fast" where
  "set_PC v = upd_regs (\<lambda>r. r\<lparr>regs_PC := v\<rparr>)"
definition set_NPC :: "64 word \<Rightarrow> fast \<Rightarrow> fast" where
  "set_NPC v = upd_regs (\<lambda>r. r\<lparr>regs_NPC := v\<rparr>)"

text \<open>\<open>sim_machine_init\<close>: I, M, A, F, D and C, hart 0.\<close>

definition sim_machine_init :: "fast \<Rightarrow> fast" where
  "sim_machine_init s =
     set_C MHARTID 0
       (set_C MISA (push_bit 8 1 OR push_bit 12 1 OR 1 OR push_bit 5 1 OR push_bit 3 1 OR push_bit 2 1) s)"

subsection \<open>Memory accessors\<close>

definition le_word :: "8 word list \<Rightarrow> 64 word" where
  "le_word bs = foldr (\<lambda>b a. ucast b OR push_bit 8 a) bs 0"

definition le_bytes :: "nat \<Rightarrow> 64 word \<Rightarrow> 8 word list" where
  "le_bytes n w = map (\<lambda>i. ucast (drop_bit (8 * i) w)) [0..<n]"

definition mem_read_n :: "nat \<Rightarrow> 64 word \<Rightarrow> mem_t \<Rightarrow> (64 word \<times> mem_t) cres" where
  "mem_read_n n addr m = cbind (MEM_READ m addr n) (\<lambda>(bs, m1). Inr (le_word bs, m1))"

definition fast_read :: "nat \<Rightarrow> 64 word \<Rightarrow> fast \<Rightarrow> (64 word \<times> md_fault \<times> fast) cres" where
  "fast_read n addr s =
     cbind (mem_read_n n addr (fmem s)) (\<lambda>(v, m1). Inr (v, fault_none, s\<lparr>fmem := m1\<rparr>))"

definition fast_write :: "nat \<Rightarrow> 64 word \<Rightarrow> 64 word \<Rightarrow> fast \<Rightarrow> (md_fault \<times> fast) cres" where
  "fast_write n v addr s =
     cbind (MEM_WRITE (fmem s) addr (le_bytes n v)) (\<lambda>m1. Inr (fault_none, s\<lparr>fmem := m1\<rparr>))"

definition fast_hooks :: "host \<Rightarrow> fast hooks" where
  "fast_hooks hs =
     \<lparr>GPR = (\<lambda>s n. regs_R (regs s) n), SET_GPR = set_R,
      FPRD_Q = (\<lambda>s n. regs_F (regs s) n), SET_FPRD_Q = set_F,
      CSRS = (\<lambda>s n. regs_C (regs s) n), SET_CSRS = set_C,
      CPC = (\<lambda>s. regs_PC (regs s)), SET_NPC = set_NPC, SET_TPC = (\<lambda>v s. s),
      CtrlInstTaken = (\<lambda>b s. s\<lparr>IsCtrlInstTaken := b\<rparr>),
      READ = fast_read, WRITE = fast_write,
      LRSC = lrsc, SET_LRSC = (\<lambda>l s. s\<lparr>lrsc := l\<rparr>),
      SYSCALL = sys_syscall hs, FLOAT = host_float hs,
      one_shl64 = host_shl64 hs, junk_fault = host_junk hs\<rparr>"

subsection \<open>Fetch and one instruction\<close>

text \<open>
  \<open>MD_FETCH_INST\<close>: one halfword, and the next one unless the instruction is compressed; the
  page-table access counter is put back by one unless the second half may lie on another page.
\<close>

definition near_page_end :: "64 word \<Rightarrow> bool" where
  "near_page_end pc \<longleftrightarrow> 4095 - (pc AND 4095) \<le> 2"

definition md_fetch_inst :: "fast \<Rightarrow> (32 word \<times> fast) cres" where
  "md_fetch_inst s =
     cbind (mem_read_n 2 (regs_PC (regs s)) (fmem s)) (\<lambda>(lo, m1).
     if INST_IsCompressed (low32 lo) then Inr (low32 lo, s\<lparr>fmem := m1\<rparr>)
     else cbind (mem_read_n 2 (regs_PC (regs s) + 2) m1) (\<lambda>(hi, m2).
       let m3 = m2\<lparr>mem_ptab_accesses := mem_ptab_accesses m2 - 1\<rparr>;
           inst = low32 (lo OR push_bit 16 hi)
       in if near_page_end (regs_PC (regs s))
          then Inr (inst, s\<lparr>fmem := m3\<lparr>mem_ptab_accesses := mem_ptab_accesses m3 + 1\<rparr>,
                            mem_cross_page_refs := mem_cross_page_refs s + 1\<rparr>)
          else Inr (inst, s\<lparr>fmem := m3\<rparr>)))"

fun fast_switch :: "host \<Rightarrow> md_opcode \<Rightarrow> 32 word \<Rightarrow> fast \<Rightarrow> fast cres" where
  "fast_switch hs OP_NA inst s = Inl (Panic ''attempted to execute a bogus opcode'')"
| "fast_switch hs (Link l) inst s = Inl (Panic ''attempted to execute a linking opcode'')"
| "fast_switch hs (Inst x) inst s =
     cbind (exec_insn (fast_hooks hs) x inst s) (\<lambda>(fault, s1). Inr s1)"

definition next_pc :: "md_opcode \<Rightarrow> 32 word \<Rightarrow> fast \<Rightarrow> fast" where
  "next_pc op inst s =
     (let s1 = set_PC (regs_NPC (regs s)) s;
          s2 = set_NPC (regs_NPC (regs s1) + 4) s1;
          ctrl = md_op2flags op AND F_CTRL \<noteq> 0
      in if INST_IsCompressed inst \<and> \<not> ctrl \<or> INST_IsCompressed inst \<and> ctrl \<and> \<not> IsCtrlInstTaken s2
         then set_NPC (regs_NPC (regs s2) - 2) (set_PC (regs_PC (regs s2) - 2) s2) else s2)"

definition fast_step :: "host \<Rightarrow> decoder \<Rightarrow> fast \<Rightarrow> fast cres" where
  "fast_step hs d s =
     (let s1 = (set_R 0 0 s)\<lparr>IsCtrlInstTaken := False, sim_num_insn := sim_num_insn s + 1\<rparr>
      in cbind (md_fetch_inst s1) (\<lambda>(inst, s2).
         cbind (MD_SET_OPCODE d inst) (\<lambda>op.
         cbind (fast_switch hs op inst s2) (\<lambda>s3.
         Inr (next_pc op inst s3)))))"

primrec fast_run :: "host \<Rightarrow> decoder \<Rightarrow> nat \<Rightarrow> fast \<Rightarrow> fast cres" where
  "fast_run hs d 0 s = Inr s"
| "fast_run hs d (Suc n) s = cbind (fast_step hs d s) (fast_run hs d n)"

text \<open>\<open>sim_main\<close> up to its loop: the default next PC.\<close>

definition fast_start :: "fast \<Rightarrow> fast" where
  "fast_start s = set_NPC (regs_PC (regs s) + 4) s"

end
