(* ===== verification/RvSemCorrect.thy ===== *)
theory RvSemCorrect
  imports RvExec
begin

text \<open>
  The integer semantics of RvSem against the RISC-V manual: sign extension, the register and
  immediate operations, and the multiplications and divisions.
\<close>

subsection \<open>Sign extension\<close>

definition sx32 :: "64 word \<Rightarrow> 64 word" where "sx32 x = scast (ucast x :: 32 word)"

lemma bit_sx32: "bit (sx32 x) n \<longleftrightarrow> n < 64 \<and> bit x (min n 31)"
  by (auto simp: sx32_def bit_signed_iff bit_unsigned_iff min_def)

lemma and_bit31: "x AND 0x80000000 \<noteq> 0 \<longleftrightarrow> bit (x :: 64 word) 31"
proof -
  have "(0x80000000 :: 64 word) = push_bit 31 1" by (simp add: push_bit_eq_mult)
  then show ?thesis by (simp add: bit_iff_and_push_bit_not_eq_0)
qed

lemma mask32_word: "(0xffffffff :: 64 word) = mask 32" "(0xffffffff00000000 :: 64 word) = NOT (mask 32)"
  by (simp_all add: mask_eq_exp_minus_1)

lemma bit_SEXT: "bit (SEXT x) n \<longleftrightarrow> n < 64 \<and> (bit x n \<or> 32 \<le> n \<and> bit x 31)"
  by (auto simp: SEXT_def and_bit31 mask32_word bit_simps dest: bit_imp_le_length)

lemma SEXT_low: "SEXT (x AND 0xffffffff) = sx32 x" "SEXT (0xffffffff AND x) = sx32 x"
  by (rule bit_word_eqI; auto simp: bit_SEXT bit_sx32 mask32_word bit_simps min_def)+

lemma SEXT_sw: "SEXT (sw w) = sw w"
  by (rule bit_word_eqI) (auto simp: bit_SEXT sw_def bit_signed_iff min_def)

lemma bit32_le: "bit (w :: 32 word) n \<Longrightarrow> n \<le> 31"
  by (drule bit_imp_le_length) simp

lemma SEXT_uw: "SEXT (uw w) = sw w"
proof (rule bit_word_eqI)
  fix n assume "n < LENGTH(64)"
  then show "bit (SEXT (uw w)) n = bit (sw w) n"
    by (cases "n = 31") (auto simp: bit_SEXT sw_def uw_def bit_signed_iff bit_unsigned_iff min_def
        dest: bit32_le)
qed

lemma sx32_uw: "sx32 (uw w) = sw w"
  by (rule bit_word_eqI) (auto simp: bit_sx32 sw_def uw_def bit_signed_iff bit_unsigned_iff min_def)

lemma sx32_sw: "sx32 (sw w) = sw w"
  by (rule bit_word_eqI) (auto simp: bit_sx32 sw_def bit_signed_iff min_def)

lemma low32_sw [simp]: "low32 (sw w) = w"
  apply (rule bit_word_eqI)
  subgoal for n
    by (cases "n = 31") (auto simp: low32_def sw_def bit_signed_iff bit_unsigned_iff min_def)
  done

lemma low32_uw [simp]: "low32 (uw w) = w"
  by (rule bit_word_eqI) (auto simp: low32_def uw_def bit_unsigned_iff)

lemma bit_SEXT_TO_64:
  "0 < a \<Longrightarrow> a \<le> 64 \<Longrightarrow> bit (SEXT_TO 0 x a 64) n \<longleftrightarrow> n < 64 \<and> (bit x n \<or> a \<le> n \<and> bit x (a - 1))"
proof -
  assume a: "0 < a" "a \<le> 64"
  have "x AND push_bit (a - 1) 1 \<noteq> 0 \<longleftrightarrow> bit x (a - 1)"
    by (simp add: bit_iff_and_push_bit_not_eq_0)
  moreover have "push_bit a (1 :: 64 word) - 1 = mask a" by (simp add: mask_eq_exp_minus_1 push_bit_eq_mult)
  ultimately show ?thesis
    by (auto simp: SEXT_TO_def bit_simps dest: bit_imp_le_length)
qed

lemma SEXT_TO_low: "SEXT_TO 0 (x AND 0xffffffff) 32 64 = sx32 x"
  by (rule bit_word_eqI) (auto simp: bit_SEXT_TO_64 bit_sx32 mask32_word bit_simps min_def)

subsection \<open>The operations of the manual\<close>

definition imm12 :: "32 word \<Rightarrow> 64 word" where
  "imm12 inst = scast (ucast (drop_bit 20 inst) :: 12 word)"

lemma IMM_imm12: "sw (IMM inst) = imm12 inst"
  apply (rule bit_word_eqI)
  subgoal for n
    by (cases "n = 11") (auto simp: sw_def IMM_def imm12_def bit_signed_iff bit_unsigned_iff
        bit_signed_drop_bit_iff bit_drop_bit_eq min_def)
  done

fun isa_imm :: "imm_op \<Rightarrow> 32 word \<Rightarrow> 64 word \<Rightarrow> 64 word" where
  "isa_imm ADDIW inst a = sx32 (a + imm12 inst)"
| "isa_imm SLLIW inst a = sw (push_bit (SHAMT_IW inst) (low32 a))"
| "isa_imm SRLIW inst a = sw (drop_bit (SHAMT_IW inst) (low32 a))"
| "isa_imm SRAIW inst a = sw (signed_drop_bit (SHAMT_IW inst) (low32 a))"
| "isa_imm ADDI inst a = a + imm12 inst"
| "isa_imm SLTI inst a = (if sint a < sint (imm12 inst) then 1 else 0)"
| "isa_imm SLTIU inst a = (if uint a < uint (imm12 inst) then 1 else 0)"
| "isa_imm XORI inst a = a XOR imm12 inst"
| "isa_imm ORI inst a = a OR imm12 inst"
| "isa_imm ANDI inst a = a AND imm12 inst"
| "isa_imm SLLI inst a = word_of_int (uint a * 2 ^ SHAMT_I inst)"
| "isa_imm SRLI inst a = word_of_int (uint a div 2 ^ SHAMT_I inst)"
| "isa_imm SRAI inst a = word_of_int (sint a div 2 ^ SHAMT_I inst)"

fun isa_reg :: "reg_op \<Rightarrow> 64 word \<Rightarrow> 64 word \<Rightarrow> 64 word" where
  "isa_reg ADD a b = word_of_int (sint a + sint b)"
| "isa_reg SLL a b = word_of_int (uint a * 2 ^ (unat b mod 64))"
| "isa_reg SLT a b = (if sint a < sint b then 1 else 0)"
| "isa_reg SLTU a b = (if uint a < uint b then 1 else 0)"
| "isa_reg XOR_OP a b = a XOR b"
| "isa_reg SRL a b = word_of_int (uint a div 2 ^ (unat b mod 64))"
| "isa_reg OR_OP a b = a OR b"
| "isa_reg AND_OP a b = a AND b"
| "isa_reg SUB a b = word_of_int (sint a - sint b)"
| "isa_reg SRA a b = word_of_int (sint a div 2 ^ (unat b mod 64))"
| "isa_reg ADDW a b = sw (low32 a + low32 b)"
| "isa_reg SLLW a b = sw (push_bit (unat b mod 32) (low32 a))"
| "isa_reg SRLW a b = sw (drop_bit (unat b mod 32) (low32 a))"
| "isa_reg SUBW a b = sw (low32 a - low32 b)"
| "isa_reg SRAW a b = sw (signed_drop_bit (unat b mod 32) (low32 a))"

lemma sw_low32: "sw (low32 x) = sx32 x"
  by (simp add: sw_def low32_def sx32_def)

lemma sx32_push: "k < 32 \<Longrightarrow> sx32 (push_bit k a) = sw (push_bit k (low32 a))"
  unfolding sw_low32 [symmetric]
  by (rule arg_cong [of _ _ sw], rule bit_word_eqI)
    (auto simp: low32_def bit_unsigned_iff bit_push_bit_iff)

lemma SEXT_drop: "k < 32 \<Longrightarrow> SEXT (drop_bit k (a AND 0xffffffff)) = sw (drop_bit k (low32 a))"
  apply (rule bit_word_eqI)
  subgoal for n
    by (cases "n = 31"; cases "k = 0") (auto simp: bit_SEXT sw_def low32_def mask32_word bit_signed_iff
        bit_unsigned_iff bit_drop_bit_eq bit_and_iff bit_mask_iff min_def)
  done

lemma SEXT_drop_signed: "k < 32 \<Longrightarrow> SEXT (drop_bit k (sx32 a)) = sw (signed_drop_bit k (low32 a))"
  apply (rule bit_word_eqI)
  subgoal for n
    by (cases "n = 31"; cases "k = 0") (auto simp: bit_SEXT bit_sx32 sw_def low32_def bit_signed_iff
        bit_unsigned_iff bit_drop_bit_eq bit_signed_drop_bit_iff min_def)
  done

lemma SHAMT_bounds: "SHAMT_IW inst < 32" "SHAMT_I inst < 64"
proof -
  have 1: "bits_at 20 0x1f inst = take_bit 5 (signed_drop_bit 20 inst)"
    "bits_at 20 0x3f inst = take_bit 6 (signed_drop_bit 20 inst)"
    by (simp_all add: bits_at_def take_bit_eq_mask mask_eq_exp_minus_1)
  show "SHAMT_IW inst < 32" "SHAMT_I inst < 64"
    unfolding SHAMT_IW_def SHAMT_I_def 1
    using take_bit_nat_less_exp [of 5] take_bit_nat_less_exp [of 6]
    by (simp_all add: unsigned_take_bit_eq)
qed

lemma bit_SEXT_TO:
  "0 < a \<Longrightarrow> b < 64 \<Longrightarrow> bit (SEXT_TO z x a b) n \<longleftrightarrow> n < b \<and> (bit x n \<or> a \<le> n \<and> bit x (a - 1))"
proof -
  assume a: "0 < a" "b < 64"
  have "x AND push_bit (a - 1) 1 \<noteq> 0 \<longleftrightarrow> bit x (a - 1)"
    by (simp add: bit_iff_and_push_bit_not_eq_0)
  moreover have "push_bit a (1 :: 64 word) - 1 = mask a" for a
    by (simp add: mask_eq_exp_minus_1 push_bit_eq_mult)
  ultimately show ?thesis using a
    by (auto simp: SEXT_TO_def bit_simps dest: bit_imp_le_length)
qed

lemma bit_imm12: "bit (imm12 inst) n \<longleftrightarrow> n < 64 \<and> bit inst (20 + min n 11)"
  by (auto simp: imm12_def bit_signed_iff bit_unsigned_iff bit_drop_bit_eq min_def)

lemma SEXT_TO_imm: "SEXT_TO z (sw (IMM inst)) 12 32 = imm12 inst AND 0xffffffff"
  unfolding IMM_imm12 mask32_word
  apply (rule bit_word_eqI)
  subgoal for n
    by (cases "n = 11") (auto simp: bit_SEXT_TO bit_imm12 bit_and_iff bit_mask_iff min_def)
  done

lemma take32_64: "take_bit LENGTH(32) (take_bit LENGTH(64) (x :: int)) = take_bit LENGTH(32) x"
  by simp

lemma low32_and: "low32 (x AND 0xffffffff) = low32 x"
  by (rule bit_word_eqI) (simp add: low32_def mask32_word bit_unsigned_iff bit_and_iff bit_mask_iff)

lemma low32_add: "low32 (x + y) = low32 x + low32 y"
  unfolding low32_def by transfer (metis take_bit_add take32_64)

lemma and_mask_eq: "(x AND 0xffffffff) = (y AND 0xffffffff) \<longleftrightarrow> low32 x = low32 (y :: 64 word)"
proof -
  have "x AND mask 32 = uw (low32 x)" for x :: "64 word"
    by (rule bit_word_eqI) (auto simp: low32_def uw_def bit_unsigned_iff bit_and_iff bit_mask_iff)
  then show ?thesis by (metis low32_uw mask32_word(1))
qed

lemma low32_minus: "low32 (x - y) = low32 x - low32 y"
  unfolding low32_def by transfer (metis take_bit_diff take32_64)

lemma low32_mult: "low32 (x * y) = low32 x * low32 y"
  unfolding low32_def by transfer (metis take_bit_mult take32_64)

lemmas low32_ops = low32_and low32_add low32_minus low32_mult

lemma shift_mask: "unat (b AND SHIFT_MASK) = unat b mod 64" "unat (b AND SHIFTW_MASK) = unat b mod 32"
proof -
  have m: "SHIFT_MASK = mask 6" "SHIFTW_MASK = mask 5"
    by (simp_all add: SHIFT_MASK_def SHIFTW_MASK_def mask_eq_exp_minus_1)
  have "unat (take_bit n b) = unat b mod 2 ^ n" for n
    by (simp only: unsigned_take_bit_eq) (simp only: take_bit_eq_mod)
  then show "unat (b AND SHIFT_MASK) = unat b mod 64" "unat (b AND SHIFTW_MASK) = unat b mod 32"
    unfolding m take_bit_eq_mask [symmetric] by simp_all
qed

lemma push_bit_isa: "push_bit k (a :: 64 word) = word_of_int (uint a * 2 ^ k)"
  by (simp add: push_bit_eq_mult)

lemma drop_bit_isa: "drop_bit k (a :: 64 word) = word_of_int (uint a div 2 ^ k)"
  by (rule bit_word_eqI)
    (auto simp: bit_word_of_int_iff bit_drop_bit_eq bit_uint_iff dest: bit_imp_le_length
      simp flip: drop_bit_eq_div)

lemma sdrop_bit_isa: "signed_drop_bit k (a :: 64 word) = word_of_int (sint a div 2 ^ k)"
  by (rule bit_word_eqI)
    (auto simp: bit_word_of_int_iff bit_signed_drop_bit_iff bit_drop_bit_eq bit_sint_iff
      dest: bit_imp_le_length simp flip: drop_bit_eq_div)

lemma low_and: "(0xffffffff AND x) = x AND (0xffffffff :: 64 word)"
  by (rule and.commute)

lemmas word_op_isa = SEXT_low sx32_push SEXT_drop SEXT_drop_signed low_and

theorem imm_isa: "imm_result 0 op inst a = isa_imm op inst a"
proof (cases op)
  case ADDIW
  then show ?thesis
    by (simp add: SEXT_TO_imm LOW_MASK_def SEXT_TO_low) (simp add: low32_ops flip: sw_low32)
next
  case SLLI
  then show ?thesis by (simp only: imm_result.simps isa_imm.simps push_bit_isa)
next
  case SRLI
  then show ?thesis by (simp only: imm_result.simps isa_imm.simps drop_bit_isa)
next
  case SRLIW
  then show ?thesis
    by (simp only: imm_result.simps isa_imm.simps LOW_MASK_def low_and SEXT_drop SHAMT_bounds)
next
  case SRAI
  then show ?thesis by (simp only: imm_result.simps isa_imm.simps sdrop_bit_isa)
qed (simp_all add: word_op_isa SHAMT_bounds SEXT_sw LOW_MASK_def word_less_def flip: IMM_imm12)

theorem reg_isa: "reg_result op a b = isa_reg op a b"
proof (cases op)
  case SLL
  then show ?thesis by (simp only: reg_result.simps isa_reg.simps shift_mask push_bit_isa)
next
  case SRL
  then show ?thesis by (simp only: reg_result.simps isa_reg.simps shift_mask drop_bit_isa)
next
  case SRA
  then show ?thesis by (simp only: reg_result.simps isa_reg.simps shift_mask sdrop_bit_isa)
next
  case SRLW
  then show ?thesis
    by (simp only: reg_result.simps isa_reg.simps shift_mask low_and SEXT_drop mod_less_divisor zero_less_numeral)
next
  case SUBW
  then show ?thesis by (simp add: word_op_isa) (simp add: low32_ops flip: sw_low32)
next
  case ADDW
  then show ?thesis by (simp add: word_op_isa) (simp add: low32_ops flip: sw_low32)
qed (simp_all add: word_op_isa shift_mask word_less_def)

subsection \<open>Multiplication and division\<close>

lemma carry_add:
  "uint (x + y) + (if x + y < x then 2 ^ 64 else 0) = uint x + uint (y :: 64 word)"
  "x + y < y \<longleftrightarrow> x + y < (x :: 64 word)"
proof -
  have r: "0 \<le> uint x" "uint x < 2 ^ 64" "0 \<le> uint y" "uint y < 2 ^ 64"
    using uint_lt2p [of x] uint_lt2p [of y] by simp_all
  have u: "uint (x + y) = (if uint x + uint y < 2 ^ 64 then uint x + uint y else uint x + uint y - 2 ^ 64)"
    using r by (auto simp: uint_word_ariths mod_add_if_z)
  show "uint (x + y) + (if x + y < x then 2 ^ 64 else 0) = uint x + uint y" "x + y < y \<longleftrightarrow> x + y < x"
    using r by (auto simp: word_less_def u)
qed

lemma halves:
  "uint (drop_bit 32 x) = uint x div 2 ^ 32" "uint (x AND LOW_MASK) = uint (x :: 64 word) mod 2 ^ 32"
proof -
  show "uint (drop_bit 32 x) = uint x div 2 ^ 32"
    using uint_lt2p [of x] by (simp only: unsigned_drop_bit_eq) (simp add: drop_bit_eq_div take_bit_int_eq_self)
  have "x AND LOW_MASK = take_bit 32 x"
    by (simp add: LOW_MASK_def mask32_word take_bit_eq_mask)
  then show "uint (x AND LOW_MASK) = uint x mod 2 ^ 32"
    by (simp add: unsigned_take_bit_eq) (simp add: take_bit_eq_mod)
qed

lemma half_bounds:
  "0 \<le> uint (drop_bit 32 (x :: 64 word))" "uint (drop_bit 32 x) < 2 ^ 32"
  "0 \<le> uint (x AND LOW_MASK)" "uint (x AND LOW_MASK) < 2 ^ 32"
  using uint_lt2p [of x] uint_ge_0 [of x] by (auto simp: halves pos_imp_zdiv_nonneg_iff)

lemma mult_halves:
  "uint x < 2 ^ 32 \<Longrightarrow> uint y < 2 ^ 32 \<Longrightarrow> uint (x * y) = uint x * uint (y :: 64 word)"
proof -
  assume "uint x < 2 ^ 32" "uint y < 2 ^ 32"
  then have "uint x * uint y < 2 ^ 32 * 2 ^ 32" by (intro mult_strict_mono) auto
  then show ?thesis by (simp add: uint_word_ariths)
qed

lemma div_halves: "(x * 2 ^ 32 + y) div 2 ^ 64 = (x + y div 2 ^ 32) div (2 ^ 32 :: int)"
proof -
  have "(x * 2 ^ 32 + y) div (2 ^ 32 * 2 ^ 32) = (x * 2 ^ 32 + y) div 2 ^ 32 div (2 ^ 32 :: int)"
    by (rule zdiv_zmult2_eq) simp
  then show ?thesis by simp
qed

lemma mulhu_isa: "mulhu_result a b = word_of_int (uint a * uint b div 2 ^ 64)"
proof -
  define h1 l1 h2 l2 where "h1 = drop_bit 32 a" and "l1 = a AND LOW_MASK"
    and "h2 = drop_bit 32 b" and "l2 = b AND LOW_MASK"
  note defs = this
  note bounds = half_bounds [of a, folded defs] half_bounds [of b, folded defs]
  have prods: "uint (h1 * h2) = uint h1 * uint h2" "uint (l1 * l2) = uint l1 * uint l2"
    "uint (h1 * l2) = uint h1 * uint l2" "uint (l1 * h2) = uint l1 * uint h2"
    using bounds by (simp_all add: mult_halves)
  define mid where "mid = h1 * l2 + l1 * h2"
  define c1 where "c1 = (if mid < h1 * l2 \<or> mid < l1 * h2 then 1 else 0 :: 64 word)"
  define mid2 where "mid2 = mid + drop_bit 32 (l1 * l2)"
  define c2 where "c2 = (if mid2 < mid then c1 + 1 else c1)"
  define k :: int where "k = (if mid < h1 * l2 then 1 else 0) + (if mid2 < mid then 1 else 0)"
  have c2: "c2 = word_of_int k"
    using carry_add(2) [of "h1 * l2" "l1 * h2"] by (auto simp: c2_def c1_def k_def mid_def)
  have sum: "uint mid2 + k * 2 ^ 64 = uint h1 * uint l2 + uint l1 * uint h2 + uint l1 * uint l2 div 2 ^ 32"
    using carry_add(1) [of "h1 * l2" "l1 * h2"] carry_add(1) [of mid "drop_bit 32 (l1 * l2)"]
    by (simp add: prods halves k_def mid_def mid2_def split: if_splits)
  have ab: "uint a = uint h1 * 2 ^ 32 + uint l1" "uint b = uint h2 * 2 ^ 32 + uint l2"
    by (simp_all add: defs halves)
  have "uint a * uint b = (uint h1 * uint h2) * 2 ^ 64
      + ((uint h1 * uint l2 + uint l1 * uint h2) * 2 ^ 32 + uint l1 * uint l2)"
    unfolding ab by (simp add: algebra_simps)
  then have "uint a * uint b div 2 ^ 64
      = uint h1 * uint h2 + ((uint h1 * uint l2 + uint l1 * uint h2) * 2 ^ 32 + uint l1 * uint l2) div 2 ^ 64"
    by simp
  also have "((uint h1 * uint l2 + uint l1 * uint h2) * 2 ^ 32 + uint l1 * uint l2) div 2 ^ 64
      = (uint mid2 + k * 2 ^ 64) div 2 ^ 32"
    unfolding sum by (rule div_halves)
  also have "(uint mid2 + k * 2 ^ 64) div 2 ^ 32 = uint mid2 div 2 ^ 32 + k * 2 ^ 32"
    by (simp add: div_mult_self1 [where c = "k * 2 ^ 32" and b = "2 ^ 32", simplified])
  finally have "word_of_int (uint a * uint b div 2 ^ 64)
      = h1 * h2 + word_of_int k * 2 ^ 32 + (word_of_int (uint mid2 div 2 ^ 32) :: 64 word)"
    by (simp add: prods [symmetric] wi_hom_syms)
  moreover have "drop_bit 32 mid2 AND LOW_MASK = word_of_int (uint mid2 div 2 ^ 32)"
  proof -
    have "uint (drop_bit 32 mid2 AND LOW_MASK) = uint (drop_bit 32 mid2)"
      using half_bounds [of mid2] by (simp add: halves)
    then show ?thesis by (metis halves(1) word_of_int_uint)
  qed
  moreover have "mulhu_result a b = h1 * h2 + push_bit 32 c2 + (drop_bit 32 mid2 AND LOW_MASK)"
    by (simp only: mulhu_result_def Let_def flip: defs mid_def c1_def mid2_def c2_def)
  ultimately show ?thesis by (simp add: push_bit_eq_mult flip: c2)
qed

text \<open>The M extension: division by zero gives -1 or the dividend, overflow wraps.\<close>

fun isa_mul :: "mul_op \<Rightarrow> 64 word \<Rightarrow> 64 word \<Rightarrow> 64 word" where
  "isa_mul MUL a b = word_of_int (sint a * sint b)"
| "isa_mul MULW a b = sw (low32 a * low32 b)"
| "isa_mul MULH a b = word_of_int (sint a * sint b div 2 ^ 64)"
| "isa_mul MULHSU a b = word_of_int (sint a * uint b div 2 ^ 64)"
| "isa_mul MULHU a b = word_of_int (uint a * uint b div 2 ^ 64)"
| "isa_mul DIV a b = (if b = 0 then - 1 else word_of_int (c_div (sint a) (sint b)))"
| "isa_mul DIVU a b = (if b = 0 then - 1 else word_of_int (uint a div uint b))"
| "isa_mul REM a b = (if b = 0 then a else word_of_int (c_mod (sint a) (sint b)))"
| "isa_mul REMU a b = (if b = 0 then a else word_of_int (uint a mod uint b))"
| "isa_mul DIVW a b = (if low32 b = 0 then - 1
     else sw (word_of_int (c_div (sint (low32 a)) (sint (low32 b)))))"
| "isa_mul DIVUW a b = (if low32 b = 0 then - 1
     else sw (word_of_int (uint (low32 a) div uint (low32 b))))"
| "isa_mul REMW a b = (if low32 b = 0 then sw (low32 a)
     else sw (word_of_int (c_mod (sint (low32 a)) (sint (low32 b)))))"
| "isa_mul REMUW a b = (if low32 b = 0 then sw (low32 a)
     else sw (word_of_int (uint (low32 a) mod uint (low32 b))))"

lemma c_div_simps [simp]: "c_div 0 b = 0" "c_mod a (-1) = 0"
  by (simp_all add: c_div_def c_mod_def sgn_if)

lemma sint_zero_iff [simp]: "sint (w :: 'a::len word) = 0 \<longleftrightarrow> w = 0"
  by (rule signed_eq_0_iff)

lemma SEXT_woi:
  assumes "- (2 ^ 31) \<le> i" "i < 2 ^ 31" shows "SEXT (word_of_int i) = sw (word_of_int i)"
proof -
  have b: "bit i n = bit i (min n 31)" for n
    using bit_signed_take_bit_iff [of 31 i n] unfolding signed_take_bit_int_eq_self [OF assms]
    by (simp add: min.commute)
  have w: "word_of_int i = sw (word_of_int i)"
  proof (rule bit_word_eqI)
    show "bit (word_of_int i :: 64 word) n = bit (sw (word_of_int i)) n" for n
      by (cases "n \<le> 31") (use b [of n] in \<open>auto simp: sw_def bit_signed_iff bit_word_of_int_iff\<close>)
  qed
  show ?thesis by (subst w) (rule SEXT_sw)
qed

lemma c_div_range:
  assumes "- (2 ^ n) \<le> a" "a < 2 ^ n" "b \<noteq> 0" "\<not> (a = - (2 ^ n) \<and> b = -1)"
  shows "- (2 ^ n) \<le> c_div a b" "c_div a b < 2 ^ n"
proof -
  have d: "\<bar>a\<bar> div \<bar>b\<bar> \<le> \<bar>a\<bar>" "0 \<le> \<bar>a\<bar> div \<bar>b\<bar>"
    using assms(3) by (simp_all add: zdiv_mono2 [of "\<bar>a\<bar>" 1 "\<bar>b\<bar>", simplified] pos_imp_zdiv_nonneg_iff)
  have e: "\<bar>a\<bar> div \<bar>b\<bar> < 2 ^ n" if "a < 0" "b < 0"
  proof (cases "a = - (2 ^ n)")
    case True
    then have "\<bar>a\<bar> div \<bar>b\<bar> < \<bar>a\<bar>" using that assms(4) by (intro int_div_less_self) auto
    then show ?thesis using True by simp
  qed (use d that assms(1) in simp)
  show "- (2 ^ n) \<le> c_div a b" "c_div a b < 2 ^ n"
    using d e assms by (auto simp: c_div_def sgn_if split: if_splits)
qed

lemma c_mod_range:
  assumes "- (2 ^ n) \<le> a" "a < 2 ^ n" "- (2 ^ n) \<le> b" "b < 2 ^ n" "b \<noteq> 0"
  shows "- (2 ^ n) \<le> c_mod a b" "c_mod a b < 2 ^ n"
proof -
  have eq: "c_mod a b = sgn a * (\<bar>a\<bar> mod \<bar>b\<bar>)"
    using assms(5) by (auto simp: c_mod_def c_div_def sgn_if minus_div_mult_eq_mod algebra_simps
        simp flip: minus_mult_div_eq_mod)
  have "0 \<le> \<bar>a\<bar> mod \<bar>b\<bar>" "\<bar>a\<bar> mod \<bar>b\<bar> < \<bar>b\<bar>" using assms(5) by simp_all
  moreover have "\<bar>b\<bar> \<le> 2 ^ n" using assms(3,4) by auto
  ultimately show "- (2 ^ n) \<le> c_mod a b" "c_mod a b < 2 ^ n"
    using assms(1,2) by (auto simp: eq sgn_if)
qed

lemma sint32_range: "- (2 ^ 31) \<le> sint (w :: 32 word)" "sint w < 2 ^ 31"
  using sint_range_size [of w] by (simp_all add: word_size)

lemma sint64_range: "- (2 ^ 63) \<le> sint (w :: 64 word)" "sint w < 2 ^ 63"
  using sint_range_size [of w] by (simp_all add: word_size)

text \<open>
  The operations that agree with the manual, and the operands on which the others do: the two
  signed divisions are right but for their overflow (64 bit) and for a least dividend (32 bit).
\<close>

fun mul_agrees :: "mul_op \<Rightarrow> 64 word \<Rightarrow> 64 word \<Rightarrow> bool" where
  "mul_agrees MULH a b = False"
| "mul_agrees MULHSU a b = False"
| "mul_agrees DIV a b = (\<not> (sint a = - (2 ^ 63) \<and> sint b = -1))"
| "mul_agrees DIVW a b = (sint (low32 a) \<noteq> - (2 ^ 31) \<or> low32 b = 0 \<or> sint (low32 b) \<in> {1, -1})"
| "mul_agrees _ a b = True"

lemma div_isa: "mul_agrees DIV a b \<Longrightarrow> div_result a b = Inr (isa_mul DIV a b)"
  by (auto simp: div_result_def sdiv_at_def)

lemma rem_isa: "rem_result a b = Inr (isa_mul REM a b)"
  by (auto simp: rem_result_def smod_at_def)

lemma divw_isa: "mul_agrees DIVW a b \<Longrightarrow> divw_result a b = Inr (isa_mul DIVW a b)"
proof (cases "sint (low32 a) = - (2 ^ 31)")
  case True
  moreover assume "mul_agrees DIVW a b"
  moreover have "SEXT (word_of_int (- (2 ^ 31))) = sw (word_of_int (- (2 ^ 31)))"
    by (rule SEXT_woi) simp_all
  ultimately show ?thesis
    by (auto simp: divw_result_def Let_def INT32_MIN_def INT32_MAX_def c_div_def sgn_if sw_def)
next
  case False
  show ?thesis
  proof (cases "low32 b = 0")
    case True
    then show ?thesis using False by (simp add: divw_result_def Let_def INT32_MIN_def)
  next
    case b: False
    then have "SEXT (word_of_int (c_div (sint (low32 a)) (sint (low32 b))))
        = sw (word_of_int (c_div (sint (low32 a)) (sint (low32 b))))"
      using False by (intro SEXT_woi c_div_range sint32_range) auto
    then show ?thesis using b False
      by (simp add: divw_result_def Let_def INT32_MIN_def sdiv_at_def)
  qed
qed

lemma remw_isa: "remw_result a b = Inr (isa_mul REMW a b)"
proof (cases "low32 b = 0 \<or> sint (low32 b) = -1")
  case True
  have "SEXT (word_of_int (sint (low32 a))) = sw (word_of_int (sint (low32 a)))"
    by (intro SEXT_woi sint32_range)
  then show ?thesis using True by (auto simp: remw_result_def Let_def sw_def)
next
  case False
  then have "SEXT (word_of_int (c_mod (sint (low32 a)) (sint (low32 b))))
      = sw (word_of_int (c_mod (sint (low32 a)) (sint (low32 b))))"
    by (intro SEXT_woi c_mod_range sint32_range) auto
  then show ?thesis using False by (simp add: remw_result_def Let_def smod_at_def)
qed

theorem mul_isa: "mul_agrees op a b \<Longrightarrow> mul_result op a b = Inr (isa_mul op a b)"
proof (cases op)
  case MUL
  then show ?thesis by simp
next
  case MULW
  then show ?thesis by (simp add: SEXT_low) (simp add: low32_ops low_and flip: sw_low32)
next
  case MULHU
  then show ?thesis by (simp add: mulhu_isa)
next
  case DIVU
  then show ?thesis by (auto simp: divu_result_def word_div_def)
next
  case REMU
  then show ?thesis by (simp add: remu_result_def word_mod_def)
next
  case DIVUW
  then show ?thesis by (auto simp: divuw_result_def Let_def SEXT_uw word_div_def sw_def)
next
  case REMUW
  then show ?thesis by (auto simp: remuw_result_def Let_def SEXT_uw word_mod_def)
qed (simp_all add: div_isa rem_isa divw_isa remw_isa)

theorem mul_deviates:
  "mul_result MULH (- 1) 1 = Inr 0xffffffff \<and> isa_mul MULH (- 1) 1 = - 1
   \<and> mul_result MULHSU (- 2) 0x1ffffffff = Inr 0xffffffff \<and> isa_mul MULHSU (- 2) 0x1ffffffff = - 1
   \<and> mul_result DIV 0x8000000000000000 (- 1) = Inl Undefined
   \<and> isa_mul DIV 0x8000000000000000 (- 1) = 0x8000000000000000
   \<and> mul_result DIVW 0x80000000 2 = Inr 0xffffffff80000000
   \<and> isa_mul DIVW 0x80000000 2 = 0xffffffffc0000000"
  by code_simp

end
