(* ===== verification/RvDecodeCorrect.thy ===== *)
theory RvDecodeCorrect
  imports RvDecode "HOL-Library.RBT_Impl"
begin

text \<open>
  What the decoder of RvDecode computes. \<open>isa_table\<close> is the encoding table of the RISC-V
  specification, one mask and one match value per instruction; \<open>known_decode\<close> runs
  \<open>MD_SET_OPCODE\<close> on the bits such a row fixes, and a row it accepts is decoded for every
  instruction word that matches it.
\<close>

subsection \<open>The tables the initialisation builds\<close>

text \<open>The layout without its checks, and the checks without the table.\<close>

definition put_op :: "int \<Rightarrow> md_opcode \<Rightarrow> decoder \<Rightarrow> decoder" where
  "put_op i op d = d\<lparr>md_mask2op := (i, op) # md_mask2op d, max_offset := max (max_offset d) i\<rparr>"

fun lay :: "mdef list \<Rightarrow> decoder \<Rightarrow> decoder" where
  "lay [] d = d"
| "lay (DEFINST x msk res flags outs ins # rs) d = lay rs (put_op (msk + offset d) (Inst x) d)"
| "lay (DEFLINK l msk sh mk second # rs) d = lay rs (put_op (msk + offset d) (Link l) d)"
| "lay (CONNECT l # rs) d =
     lay rs (d\<lparr>offset := max_offset d + 1, md_opoffset := (l, max_offset d + 1) # md_opoffset d\<rparr>)"

fun lay_ok :: "mdef list \<Rightarrow> int \<Rightarrow> int \<Rightarrow> int list \<Rightarrow> bool" where
  "lay_ok [] off mx seen = (mx < MD_MAX_MASK)"
| "lay_ok (DEFINST x msk res flags outs ins # rs) off mx seen =
     (0 \<le> msk \<and> msk + off < MD_MAX_MASK \<and> msk \<notin> set seen
      \<and> lay_ok rs off (max mx (msk + off)) (msk # seen))"
| "lay_ok (DEFLINK l msk sh mk second # rs) off mx seen =
     (0 \<le> msk \<and> msk + off < MD_MAX_MASK \<and> second = 0 \<and> msk \<notin> set seen
      \<and> lay_ok rs off (max mx (msk + off)) (msk # seen))"
| "lay_ok (CONNECT l # rs) off mx seen = lay_ok rs (mx + 1) mx []"

definition laid :: "decoder \<Rightarrow> int list \<Rightarrow> bool" where
  "laid d seen \<longleftrightarrow> 0 \<le> offset d \<and> 0 \<le> max_offset d
     \<and> (\<forall>i \<in> fst ` set (md_mask2op d). i \<le> max_offset d \<and> (offset d \<le> i \<longrightarrow> i - offset d \<in> set seen))"

lemma laid_fresh: "laid d seen \<Longrightarrow> 0 \<le> k \<Longrightarrow> k \<notin> set seen \<Longrightarrow> op_at (md_mask2op d) (k + offset d) = OP_NA"
  by (force simp: laid_def op_at_def split: option.splits dest: map_of_SomeD)

lemma laid_put: "laid d seen \<Longrightarrow> 0 \<le> k \<Longrightarrow> laid (put_op (k + offset d) op d) (k # seen)"
  by (auto simp: laid_def put_op_def)

lemma laid_connect:
  "laid d seen \<Longrightarrow> laid (d\<lparr>offset := max_offset d + 1, md_opoffset := u\<rparr>) []"
  by (auto simp: laid_def)

lemma put_op_sel [simp]:
  "offset (put_op i op d) = offset d" "max_offset (put_op i op d) = max (max_offset d) i"
  by (simp_all add: put_op_def)

lemma init_rows_lay:
  "laid d seen \<Longrightarrow> lay_ok rs (offset d) (max_offset d) seen
    \<Longrightarrow> init_rows rs d = Inr (lay rs d) \<and> max_offset (lay rs d) < MD_MAX_MASK"
proof (induction rs arbitrary: d seen)
  case Nil
  then show ?case by simp
next
  case (Cons r rs)
  have put: "init_rows rs (put_op (k + offset d) op d) = Inr (lay rs (put_op (k + offset d) op d))
      \<and> max_offset (lay rs (put_op (k + offset d) op d)) < MD_MAX_MASK
      \<and> store_op (k + offset d) op d = Inr (put_op (k + offset d) op d)"
    if "0 \<le> k" "k + offset d < MD_MAX_MASK"
      "lay_ok rs (offset d) (max (max_offset d) (k + offset d)) (k # seen)" for k op
    using Cons.IH [OF laid_put [OF Cons.prems(1) that(1)]] that Cons.prems(1)
    by (auto simp: store_op_def put_op_def laid_def)
  show ?case
  proof (cases r)
    case (DEFINST x msk res flags outs ins)
    then show ?thesis using Cons.prems put [of msk "Inst x"]
      by (simp add: laid_fresh)
  next
    case (DEFLINK l msk sh mk second)
    then show ?thesis using Cons.prems put [of msk "Link l"]
      by (simp add: laid_fresh)
  next
    case (CONNECT l)
    then show ?thesis
      using Cons.prems Cons.IH [OF laid_connect [OF Cons.prems(1)],
          of "(l, max_offset d + 1) # md_opoffset d"] by simp
  qed
qed

definition rv_decoder :: decoder where
  "rv_decoder = lay machine_def decoder0"

lemma md_init_decoder_rv: "md_init_decoder = Inr rv_decoder \<and> max_offset rv_decoder < MD_MAX_MASK"
proof -
  have "lay_ok machine_def 0 0 []" by code_simp
  then show ?thesis
    using init_rows_lay [of decoder0 "[]" machine_def]
    by (simp add: md_init_decoder_def rv_decoder_def laid_def decoder0_def)
qed

subsection \<open>Lookups\<close>

type_synonym op_tree = "(int, md_opcode) rbt"
type_synonym link_info = "(md_link \<times> int \<times> nat \<times> int) list"

definition rv_tree :: op_tree where "rv_tree = rbt_bulkload (md_mask2op rv_decoder)"

definition tree_at :: "op_tree \<Rightarrow> int \<Rightarrow> md_opcode" where
  "tree_at t i = (case rbt_lookup t i of None \<Rightarrow> OP_NA | Some op \<Rightarrow> op)"

lemma tree_at_rv: "tree_at rv_tree = op_at (md_mask2op rv_decoder)"
  by (simp add: tree_at_def op_at_def rv_tree_def rbt_lookup_rbt_bulkload fun_eq_iff)

text \<open>Mask, shift and table offset of every link.\<close>

fun link_rows :: "mdef list \<Rightarrow> (md_link \<times> int \<times> nat) list" where
  "link_rows [] = []"
| "link_rows (DEFLINK l msk sh mk second # rs) = (l, mk, sh) # link_rows rs"
| "link_rows (DEFINST x msk res flags outs ins # rs) = link_rows rs"
| "link_rows (CONNECT l # rs) = link_rows rs"

lemma link_row_rows: "link_row l rs = (case map_of (link_rows rs) l of None \<Rightarrow> (0, 0) | Some p \<Rightarrow> p)"
  by (induction rs rule: link_rows.induct) auto

fun attach :: "(md_link \<times> int \<times> nat) list \<Rightarrow> (md_link \<times> int) list \<Rightarrow> link_info" where
  "attach ps [] = []"
| "attach ps ((l, off) # xs) =
     (case map_of ps l of None \<Rightarrow> attach ps xs | Some (mk, sh) \<Rightarrow> (l, mk, sh, off) # attach ps xs)"

lemma attach_lookup:
  "map_of (attach ps xs) l = Some (mk, sh, off)
    \<Longrightarrow> map_of ps l = Some (mk, sh) \<and> map_of xs l = Some off"
  by (induction ps xs rule: attach.induct) (auto split: option.splits if_splits)

definition rv_links :: link_info where
  "rv_links = attach (link_rows machine_def) (md_opoffset rv_decoder)"

lemma rv_links_lookup:
  "map_of rv_links l = Some (mk, sh, off)
    \<Longrightarrow> md_opmask (Link l) = mk \<and> md_opshift (Link l) = sh \<and> opoffset rv_decoder (Link l) = off"
  unfolding rv_links_def by (drule attach_lookup) (simp add: link_row_rows)

subsection \<open>Decoding from the bits a row fixes\<close>

definition fixed :: "int \<Rightarrow> nat \<Rightarrow> int \<Rightarrow> bool" where
  "fixed m sh mk \<longleftrightarrow> 0 < mk \<and> push_bit sh mk < 4294967296 \<and> push_bit sh mk AND m = push_bit sh mk"

primrec known_loop :: "nat \<Rightarrow> op_tree \<Rightarrow> link_info \<Rightarrow> int \<Rightarrow> int \<Rightarrow> md_opcode \<Rightarrow> insn option" where
  "known_loop 0 t ls m v op = None"
| "known_loop (Suc n) t ls m v op =
     (case op of
        OP_NA \<Rightarrow> None
      | Inst x \<Rightarrow> Some x
      | Link l \<Rightarrow>
          (case map_of ls l of
             None \<Rightarrow> None
           | Some (mk, sh, off) \<Rightarrow>
               (let i = drop_bit sh (v AND push_bit sh mk) + off
                in if fixed m sh mk \<and> i \<le> MD_MAX_MASK then known_loop n t ls m v (tree_at t i)
                   else None)))"

definition known_decode :: "op_tree \<Rightarrow> link_info \<Rightarrow> int \<Rightarrow> int \<Rightarrow> insn option" where
  "known_decode t ls m v =
     (if v AND 3 = 3
      then if m AND 127 = 127 then known_loop 8 t ls m v (tree_at t (v AND 127)) else None
      else if m AND 3 = 3 then known_loop 8 t ls m v (tree_at t (v AND 3)) else None)"

lemma index_known:
  assumes "uint (inst :: 32 word) AND m = v" "fixed m sh mk"
  shows "uint (signed_drop_bit sh inst AND word_of_int mk) = drop_bit sh (v AND push_bit sh mk)"
proof (rule bit_eqI)
  fix n
  assume "possible_bit TYPE(int) n"
  have lt: "bit mk n \<Longrightarrow> n + sh < 32"
  proof (rule ccontr)
    assume b: "bit mk n" and "\<not> n + sh < 32"
    then have "bit (push_bit sh mk) (n + sh)" "32 \<le> n + sh" by (simp_all add: bit_push_bit_iff_int)
    moreover have "push_bit sh mk = take_bit 32 (push_bit sh mk)"
      using assms(2) by (simp add: fixed_def take_bit_int_eq_self push_bit_eq_mult)
    ultimately show False by (metis bit_take_bit_iff linorder_not_less)
  qed
  have m: "bit mk n \<Longrightarrow> bit m (n + sh)"
    using assms(2) unfolding fixed_def by (metis add_diff_cancel_right' bit_and_iff bit_push_bit_iff_int le_add2)
  have v: "bit v (n + sh) \<longleftrightarrow> bit inst (n + sh) \<and> bit m (n + sh) \<and> n + sh < 32"
    using assms(1) by (auto simp: bit_and_iff bit_uint_iff)
  show "bit (uint (signed_drop_bit sh inst AND (word_of_int mk :: 32 word))) n
      = bit (drop_bit sh (v AND push_bit sh mk)) n"
    using lt m v
    by (auto simp: bit_uint_iff bit_and_iff bit_word_of_int_iff bit_signed_drop_bit_iff
        bit_drop_bit_eq bit_push_bit_iff_int ac_simps)
qed

lemma known_loop_sound:
  "known_loop n rv_tree rv_links m v op = Some x \<Longrightarrow> uint inst AND m = v
    \<Longrightarrow> decode_loop n rv_decoder inst op = Inr (Inst x)"
proof (induction n arbitrary: op)
  case (Suc n)
  show ?case
  proof (cases op)
    case (Link l)
    with Suc.prems(1) obtain mk sh off where l: "map_of rv_links l = Some (mk, sh, off)"
      and f: "fixed m sh mk" and i: "drop_bit sh (v AND push_bit sh mk) + off \<le> MD_MAX_MASK"
      and k: "known_loop n rv_tree rv_links m v
          (tree_at rv_tree (drop_bit sh (v AND push_bit sh mk) + off)) = Some x"
      by (auto simp: Let_def split: option.splits if_splits)
    have "next_index rv_decoder inst op = drop_bit sh (v AND push_bit sh mk) + off"
      using rv_links_lookup [OF l] index_known [OF Suc.prems(2) f] Link by (simp add: next_index_def)
    then show ?thesis
      using Suc.IH [OF k Suc.prems(2)] rv_links_lookup [OF l] f i Link
      by (simp add: tree_at_rv fixed_def)
  qed (use Suc.prems in auto)
qed simp

lemma decode_loop_mono: "decode_loop n d inst op = Inr x \<Longrightarrow> n \<le> k \<Longrightarrow> decode_loop k d inst op = Inr x"
proof (induction n arbitrary: op k)
  case (Suc n)
  then obtain j where "k = Suc j" "n \<le> j" by (cases k) auto
  with Suc show ?case by (auto split: if_splits)
qed simp

lemma and_known: "(w :: int) AND m = v \<Longrightarrow> m AND b = b \<Longrightarrow> v AND b = w AND b"
  by (metis and.assoc)

lemma known_decode_sound:
  assumes k: "known_decode rv_tree rv_links m v = Some x" and w: "uint inst AND m = v"
  shows "MD_SET_OPCODE rv_decoder inst = Inr (Inst x)"
proof -
  have run: "known_loop 8 rv_tree rv_links m v op = Some x
      \<Longrightarrow> decode_loop OP_MAX rv_decoder inst op = Inr (Inst x)" for op
  proof (rule decode_loop_mono [OF known_loop_sound [OF _ w]])
    show "8 \<le> OP_MAX" by (simp add: OP_MAX_def)
  qed
  have top: "uint (inst AND 0x7f) = uint inst AND 127" "uint (inst AND 0x03) = uint inst AND 3"
    by (simp_all add: uint_and)
  have c: "INST_IsCompressed inst \<longleftrightarrow> uint inst AND 3 \<noteq> 3"
    unfolding INST_IsCompressed_def word_uint_eq_iff top by simp
  have m127: "m AND 127 = 127 \<Longrightarrow> m AND 3 = 3"
  proof -
    assume "m AND 127 = 127"
    then have "(m AND 127) AND 3 = 127 AND 3" by simp
    then show "m AND 3 = 3" by (simp add: and.assoc)
  qed
  show ?thesis
    using k run and_known [OF w] m127 c
    by (auto simp: known_decode_def MD_SET_OPCODE_def MD_TOP_OP_def MD_C_TOP_OP_def top tree_at_rv
        split: if_splits)
qed

subsection \<open>The encoding table of the specification\<close>

text \<open>
  Instruction, mask and match value. The compressed instructions whose opcode carries a
  register number have one row per register; C.EBREAK is treated apart.
\<close>

definition isa_int :: "(insn \<times> int \<times> int) list" where
  "isa_int =
    [(U LUI, 0x7f, 0x37), (U AUIPC, 0x7f, 0x17), (U JAL, 0x7f, 0x6f), (U JALR, 0x707f, 0x67),
     (Br BEQ, 0x707f, 0x63), (Br BNE, 0x707f, 0x1063), (Br BLT, 0x707f, 0x4063),
     (Br BGE, 0x707f, 0x5063), (Br BLTU, 0x707f, 0x6063), (Br BGEU, 0x707f, 0x7063),
     (Ld LB, 0x707f, 0x3), (Ld LH, 0x707f, 0x1003), (Ld LW, 0x707f, 0x2003),
     (Ld LD, 0x707f, 0x3003), (Ld LBU, 0x707f, 0x4003), (Ld LHU, 0x707f, 0x5003),
     (Ld LWU, 0x707f, 0x6003), (St SB, 0x707f, 0x23), (St SH, 0x707f, 0x1023),
     (St SW, 0x707f, 0x2023), (St SD, 0x707f, 0x3023), (OpI ADDI, 0x707f, 0x13),
     (OpI SLTI, 0x707f, 0x2013), (OpI SLTIU, 0x707f, 0x3013), (OpI XORI, 0x707f, 0x4013),
     (OpI ORI, 0x707f, 0x6013), (OpI ANDI, 0x707f, 0x7013), (OpI SLLI, 0xfc00707f, 0x1013),
     (OpI SRLI, 0xfc00707f, 0x5013), (OpI SRAI, 0xfc00707f, 0x40005013),
     (OpI ADDIW, 0x707f, 0x1b), (OpI SLLIW, 0xfe00707f, 0x101b),
     (OpI SRLIW, 0xfe00707f, 0x501b), (OpI SRAIW, 0xfe00707f, 0x4000501b),
     (OpR ADD, 0xfe00707f, 0x33), (OpR SLL, 0xfe00707f, 0x1033), (OpR SLT, 0xfe00707f, 0x2033),
     (OpR SLTU, 0xfe00707f, 0x3033), (OpR XOR_OP, 0xfe00707f, 0x4033),
     (OpR SRL, 0xfe00707f, 0x5033), (OpR OR_OP, 0xfe00707f, 0x6033),
     (OpR AND_OP, 0xfe00707f, 0x7033), (OpR SUB, 0xfe00707f, 0x40000033),
     (OpR SRA, 0xfe00707f, 0x40005033), (OpR ADDW, 0xfe00707f, 0x3b),
     (OpR SLLW, 0xfe00707f, 0x103b), (OpR SRLW, 0xfe00707f, 0x503b),
     (OpR SUBW, 0xfe00707f, 0x4000003b), (OpR SRAW, 0xfe00707f, 0x4000503b),
     (Sys FENCE, 0x707f, 0xf), (Sys FENCE_I, 0x707f, 0x100f), (Sys ECALL, 0xffffffff, 0x73),
     (Sys EBREAK, 0xffffffff, 0x100073), (Sys SRET, 0xffffffff, 0x10200073),
     (Sys MRET, 0xffffffff, 0x30200073), (Csr CSRRW, 0x707f, 0x1073),
     (Csr CSRRS, 0x707f, 0x2073), (Csr CSRRC, 0x707f, 0x3073), (Csr CSRRWI, 0x707f, 0x5073),
     (Csr CSRRSI, 0x707f, 0x6073), (Csr CSRRCI, 0x707f, 0x7073),
     (Mul MUL, 0xfe00707f, 0x2000033), (Mul MULH, 0xfe00707f, 0x2001033),
     (Mul MULHSU, 0xfe00707f, 0x2002033), (Mul MULHU, 0xfe00707f, 0x2003033),
     (Mul DIV, 0xfe00707f, 0x2004033), (Mul DIVU, 0xfe00707f, 0x2005033),
     (Mul REM, 0xfe00707f, 0x2006033), (Mul REMU, 0xfe00707f, 0x2007033),
     (Mul MULW, 0xfe00707f, 0x200003b), (Mul DIVW, 0xfe00707f, 0x200403b),
     (Mul DIVUW, 0xfe00707f, 0x200503b), (Mul REMW, 0xfe00707f, 0x200603b),
     (Mul REMUW, 0xfe00707f, 0x200703b), (Amo LR_W, 0xf9f0707f, 0x1000202f),
     (Amo AMOADD_W, 0xf800707f, 0x202f), (Amo AMOSWAP_W, 0xf800707f, 0x800202f),
     (Amo SC_W, 0xf800707f, 0x1800202f), (Amo AMOXOR_W, 0xf800707f, 0x2000202f),
     (Amo AMOOR_W, 0xf800707f, 0x4000202f), (Amo AMOAND_W, 0xf800707f, 0x6000202f),
     (Amo AMOMIN_W, 0xf800707f, 0x8000202f), (Amo AMOMAX_W, 0xf800707f, 0xa000202f),
     (Amo AMOMINU_W, 0xf800707f, 0xc000202f), (Amo AMOMAXU_W, 0xf800707f, 0xe000202f),
     (Amo LR_D, 0xf9f0707f, 0x1000302f), (Amo AMOADD_D, 0xf800707f, 0x302f),
     (Amo AMOSWAP_D, 0xf800707f, 0x800302f), (Amo SC_D, 0xf800707f, 0x1800302f),
     (Amo AMOXOR_D, 0xf800707f, 0x2000302f), (Amo AMOOR_D, 0xf800707f, 0x4000302f),
     (Amo AMOAND_D, 0xf800707f, 0x6000302f), (Amo AMOMIN_D, 0xf800707f, 0x8000302f),
     (Amo AMOMAX_D, 0xf800707f, 0xa000302f), (Amo AMOMINU_D, 0xf800707f, 0xc000302f),
     (Amo AMOMAXU_D, 0xf800707f, 0xe000302f)]"

definition isa_float :: "(insn \<times> int \<times> int) list" where
  "isa_float =
    [(Fp FLW, 0x707f, 0x2007), (Fp FLD, 0x707f, 0x3007), (Fp FSW, 0x707f, 0x2027),
     (Fp FSD, 0x707f, 0x3027), (Fp FMADD_S, 0x600007f, 0x43), (Fp FMSUB_S, 0x600007f, 0x47),
     (Fp FNMSUB_S, 0x600007f, 0x4b), (Fp FNMADD_S, 0x600007f, 0x4f),
     (Fp FADD_S, 0xfe00007f, 0x53), (Fp FSUB_S, 0xfe00007f, 0x8000053),
     (Fp FMUL_S, 0xfe00007f, 0x10000053), (Fp FDIV_S, 0xfe00007f, 0x18000053),
     (Fp FSQRT_S, 0xfff0007f, 0x58000053), (Fp FSGNJ_S, 0xfe00707f, 0x20000053),
     (Fp FSGNJN_S, 0xfe00707f, 0x20001053), (Fp FSGNJX_S, 0xfe00707f, 0x20002053),
     (Fp FMIN_S, 0xfe00707f, 0x28000053), (Fp FMAX_S, 0xfe00707f, 0x28001053),
     (Fp FLE_S, 0xfe00707f, 0xa0000053), (Fp FLT_S, 0xfe00707f, 0xa0001053),
     (Fp FEQ_S, 0xfe00707f, 0xa0002053), (Fp FCVT_W_S, 0xfff0007f, 0xc0000053),
     (Fp FCVT_S_W, 0xfff0007f, 0xd0000053), (Fp FCVT_WU_S, 0xfff0007f, 0xc0100053),
     (Fp FCVT_S_WU, 0xfff0007f, 0xd0100053), (Fp FCVT_L_S, 0xfff0007f, 0xc0200053),
     (Fp FCVT_S_L, 0xfff0007f, 0xd0200053), (Fp FCVT_LU_S, 0xfff0007f, 0xc0300053),
     (Fp FCVT_S_LU, 0xfff0007f, 0xd0300053), (Fp FCLASS_S, 0xfff0707f, 0xe0001053),
     (Fp FMADD_D, 0x600007f, 0x2000043), (Fp FMSUB_D, 0x600007f, 0x2000047),
     (Fp FNMSUB_D, 0x600007f, 0x200004b), (Fp FNMADD_D, 0x600007f, 0x200004f),
     (Fp FADD_D, 0xfe00007f, 0x2000053), (Fp FSUB_D, 0xfe00007f, 0xa000053),
     (Fp FMUL_D, 0xfe00007f, 0x12000053), (Fp FDIV_D, 0xfe00007f, 0x1a000053),
     (Fp FSQRT_D, 0xfff0007f, 0x5a000053), (Fp FSGNJ_D, 0xfe00707f, 0x22000053),
     (Fp FSGNJN_D, 0xfe00707f, 0x22001053), (Fp FSGNJX_D, 0xfe00707f, 0x22002053),
     (Fp FMIN_D, 0xfe00707f, 0x2a000053), (Fp FMAX_D, 0xfe00707f, 0x2a001053),
     (Fp FLE_D, 0xfe00707f, 0xa2000053), (Fp FLT_D, 0xfe00707f, 0xa2001053),
     (Fp FEQ_D, 0xfe00707f, 0xa2002053), (Fp FCVT_W_D, 0xfff0007f, 0xc2000053),
     (Fp FCVT_D_W, 0xfff0007f, 0xd2000053), (Fp FCVT_WU_D, 0xfff0007f, 0xc2100053),
     (Fp FCVT_D_WU, 0xfff0007f, 0xd2100053), (Fp FCVT_L_D, 0xfff0007f, 0xc2200053),
     (Fp FCVT_D_L, 0xfff0007f, 0xd2200053), (Fp FCVT_LU_D, 0xfff0007f, 0xc2300053),
     (Fp FCVT_D_LU, 0xfff0007f, 0xd2300053), (Fp FCLASS_D, 0xfff0707f, 0xe2001053),
     (Fp FMV_X_W, 0xfff0707f, 0xe0000053), (Fp FMV_W_X, 0xfff0707f, 0xf0000053),
     (Fp FMV_X_D, 0xfff0707f, 0xe2000053), (Fp FMV_D_X, 0xfff0707f, 0xf2000053),
     (Fp FCVT_S_D, 0xfff0007f, 0x40100053), (Fp FCVT_D_S, 0xfff0007f, 0x42000053)]"

definition isa_compressed :: "(insn \<times> int \<times> int) list" where
  "isa_compressed =
    [(C C_ADDI4SPN, 0xe003, 0x0), (C C_FLD, 0xe003, 0x2000), (C C_LW, 0xe003, 0x4000),
     (C C_LD, 0xe003, 0x6000), (C C_FSD, 0xe003, 0xa000), (C C_SW, 0xe003, 0xc000),
     (C C_SD, 0xe003, 0xe000), (C C_ADDI, 0xe003, 0x1), (C C_ADDIW, 0xe003, 0x2001),
     (C C_LI, 0xe003, 0x4001), (C C_ADDI16SP, 0xef83, 0x6101), (C C_SRLI64, 0xec03, 0x8001),
     (C C_SRAI64, 0xec03, 0x8401), (C C_ANDI, 0xec03, 0x8801), (C C_SUB, 0xfc63, 0x8c01),
     (C C_XOR, 0xfc63, 0x8c21), (C C_OR, 0xfc63, 0x8c41), (C C_AND, 0xfc63, 0x8c61),
     (C C_SUBW, 0xfc63, 0x9c01), (C C_ADDW, 0xfc63, 0x9c21), (C C_J, 0xe003, 0xa001),
     (C C_BEQZ, 0xe003, 0xc001), (C C_BNEZ, 0xe003, 0xe001), (C C_SLLI64, 0xe003, 0x2),
     (C C_FLDSP, 0xe003, 0x2002), (C C_LWSP, 0xe003, 0x4002), (C C_LDSP, 0xe003, 0x6002),
     (C C_FSDSP, 0xe003, 0xa002), (C C_SWSP, 0xe003, 0xc002), (C C_SDSP, 0xe003, 0xe002),
     (C C_JR, 0xf07f, 0x8002)]"

definition isa_numbered :: "(insn \<times> int \<times> int) list" where
  "isa_numbered =
     map (\<lambda>n. (C (C_LUI n), 0xef83, 0x6001 + n * 128)) ([1] @ [3..31])
     @ map (\<lambda>n. (C (C_MV n), 0xf07f, 0x8002 + n * 4)) [1..31]
     @ map (\<lambda>n. (C (C_ADD n), 0xf07f, 0x9002 + n * 4)) [1..31]
     @ map (\<lambda>n. (C (C_JALR n), 0xffff, 0x9002 + n * 128)) [1..31]"

definition isa_table :: "(insn \<times> int \<times> int) list" where
  "isa_table = isa_int @ isa_float @ isa_compressed @ isa_numbered"

text \<open>Opcodes that differ only in the suffix have one and the same \<open>_IMPL\<close>.\<close>

fun base_op :: "c_op \<Rightarrow> c_op" where
  "base_op (C_LUI n) = C_LUI 0"
| "base_op (C_MV n) = C_MV 0"
| "base_op (C_ADD n) = C_ADD 0"
| "base_op (C_JALR n) = C_JALR 0"
| "base_op x = x"

definition base_insn :: "insn \<Rightarrow> insn" where
  "base_insn x = (case x of C c \<Rightarrow> C (base_op c) | _ \<Rightarrow> x)"

definition same_impl :: "insn \<Rightarrow> insn \<Rightarrow> bool" where
  "same_impl x y \<longleftrightarrow> base_insn x = base_insn y"

fun all_known :: "op_tree \<Rightarrow> link_info \<Rightarrow> (insn \<times> int \<times> int) list \<Rightarrow> bool" where
  "all_known t ls [] = True"
| "all_known t ls ((x, m, v) # rs) =
     ((case known_decode t ls m v of None \<Rightarrow> False | Some y \<Rightarrow> same_impl y x) \<and> all_known t ls rs)"

lemma all_knownD:
  "all_known t ls rs \<Longrightarrow> (x, m, v) \<in> set rs \<Longrightarrow> \<exists>y. known_decode t ls m v = Some y \<and> same_impl y x"
  by (induction rs) (auto split: option.splits)

lemma all_known_append [simp]: "all_known t ls (xs @ ys) \<longleftrightarrow> all_known t ls xs \<and> all_known t ls ys"
  by (induction t ls xs rule: all_known.induct) auto

lemma isa_int_known: "all_known rv_tree rv_links isa_int"
  by code_simp

lemma isa_float_known: "all_known rv_tree rv_links isa_float"
  by code_simp

lemma isa_compressed_known: "all_known rv_tree rv_links isa_compressed"
  by code_simp

lemma isa_numbered_known: "all_known rv_tree rv_links isa_numbered"
  by code_simp

lemma isa_known: "all_known rv_tree rv_links isa_table"
  by (simp add: isa_table_def isa_int_known isa_float_known isa_compressed_known isa_numbered_known)

subsection \<open>The walk ends\<close>

text \<open>
  Every link sits at a smaller index than the table it opens, so the indices of a walk
  increase: it visits each link at most once.
\<close>

fun links_before :: "(md_link \<times> int) list \<Rightarrow> mask2op \<Rightarrow> bool" where
  "links_before offs [] = True"
| "links_before offs ((i, op) # t) =
     ((case op of Link l \<Rightarrow> (case map_of offs l of None \<Rightarrow> False | Some off \<Rightarrow> i < off) | _ \<Rightarrow> True)
      \<and> links_before offs t)"

lemma rv_links_before: "links_before (md_opoffset rv_decoder) (md_mask2op rv_decoder)"
  by code_simp

lemma rv_table_length: "length (md_mask2op rv_decoder) = 369"
  by code_simp

lemma links_beforeD:
  "links_before offs t \<Longrightarrow> (i, Link l) \<in> set t \<Longrightarrow> \<exists>off. map_of offs l = Some off \<and> i < off"
  by (induction offs t rule: links_before.induct) (auto split: option.splits)

lemma op_at_mem: "op_at t i = op \<Longrightarrow> op \<noteq> OP_NA \<Longrightarrow> (i, op) \<in> set t"
  by (auto simp: op_at_def split: option.splits dest: map_of_SomeD)

definition rv_ahead :: "int \<Rightarrow> int set" where
  "rv_ahead i = {j \<in> fst ` set (md_mask2op rv_decoder). i \<le> j}"

lemma rv_ahead_le: "card (rv_ahead i) \<le> 369"
proof -
  have "card (rv_ahead i) \<le> card (fst ` set (md_mask2op rv_decoder))"
    unfolding rv_ahead_def by (rule card_mono) auto
  also have "\<dots> \<le> card (set (md_mask2op rv_decoder))" by (rule card_image_le) simp
  also have "\<dots> \<le> 369" using card_length [of "md_mask2op rv_decoder"] by (simp add: rv_table_length)
  finally show ?thesis .
qed

lemma link_step:
  assumes "op_at (md_mask2op rv_decoder) i = Link l"
  shows "card (rv_ahead (next_index rv_decoder inst (Link l))) < card (rv_ahead i)"
proof -
  have mem: "(i, Link l) \<in> set (md_mask2op rv_decoder)" using op_at_mem [OF assms] by simp
  then obtain off where off: "map_of (md_opoffset rv_decoder) l = Some off" "i < off"
    using links_beforeD [OF rv_links_before] by blast
  then have "i < next_index rv_decoder inst (Link l)"
    by (simp add: next_index_def) (smt (verit) uint_ge_0)
  then have "rv_ahead (next_index rv_decoder inst (Link l)) \<subset> rv_ahead i"
    using mem by (force simp: rv_ahead_def)
  then show ?thesis by (rule psubset_card_mono [rotated]) (simp add: rv_ahead_def)
qed

fun masked_links :: "(md_link \<times> int \<times> nat) list \<Rightarrow> mask2op \<Rightarrow> bool" where
  "masked_links ps [] = True"
| "masked_links ps ((i, op) # t) =
     ((case op of Link l \<Rightarrow> (case map_of ps l of None \<Rightarrow> False | Some p \<Rightarrow> fst p \<noteq> 0) | _ \<Rightarrow> True)
      \<and> masked_links ps t)"

lemma rv_masked_links: "masked_links (link_rows machine_def) (md_mask2op rv_decoder)"
  by code_simp

lemma masked_linksD:
  "masked_links (link_rows rs) t \<Longrightarrow> (i, Link l) \<in> set t \<Longrightarrow> fst (link_row l rs) \<noteq> 0"
  by (induction "link_rows rs" t rule: masked_links.induct)
    (auto simp: link_row_rows split: option.splits)

definition is_link :: "md_opcode \<Rightarrow> bool" where
  "is_link op = (case op of Link l \<Rightarrow> True | _ \<Rightarrow> False)"

lemma decode_loop_ends:
  "card (rv_ahead i) < n
    \<Longrightarrow> case decode_loop n rv_decoder inst (op_at (md_mask2op rv_decoder) i) of
          Inl e \<Rightarrow> e = OutOfBounds | Inr op \<Rightarrow> \<not> is_link op"
proof (induction n arbitrary: i)
  case (Suc n)
  show ?case
  proof (cases "op_at (md_mask2op rv_decoder) i")
    case (Link l)
    have "(i, Link l) \<in> set (md_mask2op rv_decoder)" using op_at_mem [OF Link] by simp
    then have "md_opmask (Link l) \<noteq> 0" using masked_linksD [OF rv_masked_links] by simp
    then show ?thesis using Suc.IH link_step [OF Link, of inst] Suc.prems Link by auto
  qed (auto simp: is_link_def)
qed simp

lemma rv_decode_ends:
  "case MD_SET_OPCODE rv_decoder inst of Inl e \<Rightarrow> e = OutOfBounds | Inr op \<Rightarrow> \<not> is_link op"
  unfolding MD_SET_OPCODE_def
  by (rule decode_loop_ends) (simp add: OP_MAX_def le_less_trans [OF rv_ahead_le])

lemma rv_decode_isa:
  assumes "(x, m, v) \<in> set isa_table" "uint inst AND m = v"
  shows "\<exists>y. MD_SET_OPCODE rv_decoder inst = Inr (Inst y) \<and> same_impl y x"
  using all_knownD [OF isa_known assms(1)] known_decode_sound [OF _ assms(2)] by blast

text \<open>Decoding one concrete word.\<close>

lemma rv_decode_word:
  "known_decode rv_tree rv_links 0xffffffff (uint inst) = Some x
    \<Longrightarrow> MD_SET_OPCODE rv_decoder inst = Inr (Inst x)"
proof (rule known_decode_sound)
  have "uint inst AND mask 32 = uint inst"
    using uint_lt2p [of inst] by (simp add: take_bit_int_eq_self flip: take_bit_eq_mask)
  then show "uint inst AND 0xffffffff = uint inst" by (simp add: mask_eq_exp_minus_1)
qed

end
