(* ===== verification/SimFastCorrect.thy ===== *)
theory SimFastCorrect
  imports SimFast RvSemCorrect RvDecodeCorrect MemoryProps
begin

text \<open>
  The functional simulator against the architecture. \<open>isa_next\<close> is the RISC-V manual's
  machine for RV64IM without system instructions, over registers, a program counter and a
  function from addresses to bytes; its step is undefined (\<open>None\<close>) on words outside that
  set and in the cases where the code departs from the manual. \<open>fast_run\<close> simulates it.
\<close>

subsection \<open>Immediates by the bits of the word\<close>

text \<open>
  An immediate is listed from its least bit up, by the positions of the instruction word it is
  taken from (32, beyond the word, stands for a constant 0), and extended with its last bit.
\<close>

definition imm_of :: "nat list \<Rightarrow> 32 word \<Rightarrow> 64 word" where
  "imm_of ps inst = horner_sum of_bool 2 (map (bit inst) (ps @ replicate (64 - length ps) (last ps)))"

definition S_imm :: "nat list" where "S_imm = [7..<12] @ [25..<32]"
definition B_imm :: "nat list" where "B_imm = 32 # [8..<12] @ [25..<31] @ [7, 31]"
definition U_imm :: "nat list" where "U_imm = replicate 12 32 @ [12..<32]"
definition J_imm :: "nat list" where "J_imm = 32 # [21..<31] @ [20] @ [12..<20] @ [31]"

lemma bit_imm_of:
  assumes "ps \<noteq> []" "length ps \<le> 32" "n < 64"
  shows "bit (imm_of ps inst) n \<longleftrightarrow> bit inst (if n < length ps then ps ! n else last ps)"
  using assms by (auto simp: imm_of_def bit_horner_sum_bit_word_iff nth_append)

lemma imm_ofI:
  assumes "ps \<noteq> []" "length ps \<le> 32"
    and eq: "map (bit w) [0..<32] = map (bit inst) (ps @ replicate (32 - length ps) (last ps))"
  shows "sw w = imm_of ps inst"
proof (rule bit_word_eqI)
  fix n assume n: "n < LENGTH(64)"
  have b: "bit w i \<longleftrightarrow> bit inst (if i < length ps then ps ! i else last ps)" if "i < 32" for i
    using arg_cong [OF eq, of "\<lambda>xs. xs ! i"] that by (auto simp: nth_append)
  have l: "last ps = ps ! 31" if "31 < length ps"
  proof -
    have "length ps = 32" using that assms(2) by simp
    then show ?thesis using assms(1) by (simp add: last_conv_nth)
  qed
  show "bit (sw w) n = bit (imm_of ps inst) n"
  proof (cases "n \<le> 31")
    case True
    then show ?thesis using n b [of n] bit_imm_of [OF assms(1,2), of n inst]
      by (simp add: sw_def bit_signed_iff)
  next
    case False
    then show ?thesis using n b [of 31] l bit_imm_of [OF assms(1,2), of n inst] assms(2)
      by (simp add: sw_def bit_signed_iff split: if_splits)
  qed
qed

lemma bit_UIMM: "bit (UIMM inst) n \<longleftrightarrow> 12 \<le> n \<and> bit inst n"
  unfolding UIMM_def bit_push_bit_iff bit_signed_drop_bit_iff by (auto dest: bit_imp_le_length)

lemmas bit_fields = IMM_def SIMM_def BIMM_def JIMM_def bits_at_def bit_UIMM bit_and_iff bit_or_iff bit_push_bit_iff bit_signed_drop_bit_iff
  bit_drop_bit_eq

lemma upt_32: "[0..<32] = [0,1,2,3,4,5,6,7,8,9,10,11,12,13,14,15,16,17,18,19,20,21,22,23,24,25,26,
    27,28,29,30,31]"
  by code_simp

lemma imm_positions:
  "S_imm = [7,8,9,10,11,25,26,27,28,29,30,31]"
  "B_imm = [32,8,9,10,11,25,26,27,28,29,30,7,31]"
  "U_imm = [32,32,32,32,32,32,32,32,32,32,32,32,12,13,14,15,16,17,18,19,20,21,22,23,24,25,26,27,28,29,30,31]"
  "J_imm = [32,21,22,23,24,25,26,27,28,29,30,20,12,13,14,15,16,17,18,19,31]"
  by code_simp+

lemma bit_inst_32 [simp]: "\<not> bit (inst :: 32 word) 32"
  by (auto dest: bit_imp_le_length)

lemma replicate_n: "replicate (numeral k) x = x # replicate (pred_numeral k) x"
  by (simp add: numeral_eq_Suc)

lemma SIMM_isa: "sw (SIMM inst) = imm_of S_imm inst"
  by (rule imm_ofI) (simp_all add: imm_positions upt_32 bit_fields replicate_n del: push_bit_numeral)

lemma BIMM_isa: "sw (BIMM inst) = imm_of B_imm inst"
  by (rule imm_ofI) (simp_all add: imm_positions upt_32 bit_fields replicate_n del: push_bit_numeral)

lemma UIMM_isa: "sw (UIMM inst) = imm_of U_imm inst"
  by (rule imm_ofI) (simp_all add: imm_positions upt_32 bit_fields replicate_n del: push_bit_numeral)

lemma JIMM_isa: "sw (JIMM inst) = imm_of J_imm inst"
  by (rule imm_ofI) (simp_all add: imm_positions upt_32 bit_fields replicate_n del: push_bit_numeral)

subsection \<open>The machine of the manual\<close>

record arch =
  aR :: "nat \<Rightarrow> 64 word"
  aPC :: "64 word"
  aM :: "64 word \<Rightarrow> 8 word"

definition set_rd :: "32 word \<Rightarrow> 64 word \<Rightarrow> arch \<Rightarrow> arch" where
  "set_rd inst v a = (if reg_of RD inst = 0 then a else a\<lparr>aR := (aR a)(reg_of RD inst := v)\<rparr>)"

abbreviation rs1 :: "32 word \<Rightarrow> arch \<Rightarrow> 64 word" where "rs1 inst a \<equiv> aR a (reg_of RS1 inst)"
abbreviation rs2 :: "32 word \<Rightarrow> arch \<Rightarrow> 64 word" where "rs2 inst a \<equiv> aR a (reg_of RS2 inst)"

definition step_pc :: "arch \<Rightarrow> arch" where "step_pc a = a\<lparr>aPC := aPC a + 4\<rparr>"

definition load_addr :: "32 word \<Rightarrow> arch \<Rightarrow> 64 word" where "load_addr inst a = rs1 inst a + imm12 inst"
definition store_addr :: "32 word \<Rightarrow> arch \<Rightarrow> 64 word" where
  "store_addr inst a = rs1 inst a + imm_of S_imm inst"

fun isa_step :: "insn \<Rightarrow> 32 word \<Rightarrow> arch \<Rightarrow> arch" where
  "isa_step (U LUI) inst a = step_pc (set_rd inst (imm_of U_imm inst) a)"
| "isa_step (U AUIPC) inst a = step_pc (set_rd inst (aPC a + imm_of U_imm inst) a)"
| "isa_step (U JAL) inst a = (set_rd inst (aPC a + 4) a)\<lparr>aPC := aPC a + imm_of J_imm inst\<rparr>"
| "isa_step (U JALR) inst a =
     (set_rd inst (aPC a + 4) a)\<lparr>aPC := (rs1 inst a + imm12 inst) AND NOT 1\<rparr>"
| "isa_step (Br x) inst a =
     (if branch_taken x (rs1 inst a) (rs2 inst a) then a\<lparr>aPC := aPC a + imm_of B_imm inst\<rparr>
      else step_pc a)"
| "isa_step (Ld x) inst a =
     step_pc (set_rd inst (load_result x (le_word (get (aM a) (load_addr inst a) (load_size x)))) a)"
| "isa_step (St x) inst a =
     step_pc (a\<lparr>aM := put (aM a) (store_addr inst a) (le_bytes (store_size x) (rs2 inst a))\<rparr>)"
| "isa_step (OpI x) inst a = step_pc (set_rd inst (isa_imm x inst (rs1 inst a)) a)"
| "isa_step (OpR x) inst a = step_pc (set_rd inst (isa_reg x (rs1 inst a) (rs2 inst a)) a)"
| "isa_step (Mul x) inst a = step_pc (set_rd inst (isa_mul x (rs1 inst a) (rs2 inst a)) a)"
| "isa_step _ inst a = a"

text \<open>
  Where the simulator agrees: an access does not cross a page (the simulator reads and writes
  the host's page buffer past its end), the target of JALR is even (bit 0 is kept), and the
  operands of M are not among the deviations.
\<close>

fun isa_agrees :: "insn \<Rightarrow> 32 word \<Rightarrow> arch \<Rightarrow> bool" where
  "isa_agrees (U JALR) inst a = (\<not> bit (rs1 inst a + imm12 inst) 0)"
| "isa_agrees (U x) inst a = True"
| "isa_agrees (Br x) inst a = True"
| "isa_agrees (Ld x) inst a = (MEM_OFFSET (load_addr inst a) + load_size x \<le> MD_PAGE_SIZE)"
| "isa_agrees (St x) inst a = (MEM_OFFSET (store_addr inst a) + store_size x \<le> MD_PAGE_SIZE)"
| "isa_agrees (OpI x) inst a = True"
| "isa_agrees (OpR x) inst a = True"
| "isa_agrees (Mul x) inst a = mul_agrees x (rs1 inst a) (rs2 inst a)"
| "isa_agrees _ inst a = False"

fun isa_decode :: "(insn \<times> int \<times> int) list \<Rightarrow> int \<Rightarrow> insn option" where
  "isa_decode [] i = None"
| "isa_decode ((x, m, v) # rs) i = (if i AND m = v then Some x else isa_decode rs i)"

definition isa_next :: "arch \<Rightarrow> arch option" where
  "isa_next a =
     (let inst = low32 (le_word (get (aM a) (aPC a) 4))
      in if bit (aPC a) 0 then None
         else case isa_decode isa_int (uint inst) of
                None \<Rightarrow> None
              | Some x \<Rightarrow> if isa_agrees x inst a then Some (isa_step x inst a) else None)"

fun isa_run :: "nat \<Rightarrow> arch \<Rightarrow> arch option" where
  "isa_run 0 a = Some a"
| "isa_run (Suc n) a = (case isa_next a of None \<Rightarrow> None | Some b \<Rightarrow> isa_run n b)"

definition abs_fast :: "fast \<Rightarrow> arch" where
  "abs_fast s = \<lparr>aR = (regs_R (regs s))(0 := 0), aPC = regs_PC (regs s), aM = mem_byte (fmem s)\<rparr>"

definition fast_wf :: "fast \<Rightarrow> bool" where
  "fast_wf s \<longleftrightarrow> mem_wf (fmem s) \<and> regs_NPC (regs s) = regs_PC (regs s) + 4"

subsection \<open>Fetch\<close>

lemma le_word_append:
  "le_word (xs @ ys) = le_word xs OR push_bit (8 * length xs) (le_word ys)"
proof (induction xs)
  case (Cons x xs)
  have "push_bit 8 (le_word xs OR push_bit (8 * length xs) (le_word ys))
      = push_bit 8 (le_word xs) OR push_bit (8 + 8 * length xs) (le_word ys)"
    by (simp only: push_bit_or push_bit_push_bit)
  then show ?case using Cons by (simp add: le_word_def or.assoc)
qed (simp add: le_word_def)

lemma le_word_4: "le_word (get f a 4) = le_word (get f a 2) OR push_bit 16 (le_word (get f (a + 2) 2))"
  using le_word_append [of "get f a 2" "get f (a + 2) 2"] get_add [of f a 2 2] by simp

lemma even_in_page: "\<not> bit a 0 \<Longrightarrow> MEM_OFFSET a + 2 \<le> MD_PAGE_SIZE"
proof -
  assume "\<not> bit a 0"
  then have "\<not> bit (MEM_OFFSET a) 0"
    unfolding MEM_OFFSET_def bit_unsigned_iff bit_and_iff by blast
  then have "even (MEM_OFFSET a)" by (simp add: bit_0)
  then show ?thesis using MEM_OFFSET_less [of a] by (auto simp: MD_PAGE_SIZE_def elim: evenE)
qed

lemma mem_wf_read:
  assumes "mem_wf m" "MEM_OFFSET a + n \<le> MD_PAGE_SIZE"
  obtains m' where "mem_read_n n a m = Inr (le_word (get (mem_byte m) a n), m')" "mem_wf m'"
    "mem_byte m' = mem_byte m"
proof -
  obtain bk where "mem_inv m bk" using assms(1) by (auto simp: mem_wf_def)
  from MEM_READ_bytes [OF this assms(2)] obtain m' bk' where
    "MEM_READ m a n = Inr (get (mem_byte m) a n, m')" "mem_inv m' bk'" "\<forall>x. mem_byte m' x = mem_byte m x"
    by blast
  then show ?thesis using that [of m'] by (auto simp: mem_read_n_def mem_wf_def)
qed

lemma mem_wf_write:
  assumes "mem_wf m" "MEM_OFFSET a + length bs \<le> MD_PAGE_SIZE"
  obtains m' where "MEM_WRITE m a bs = Inr m'" "mem_wf m'" "mem_byte m' = put (mem_byte m) a bs"
proof -
  obtain bk where "mem_inv m bk" using assms(1) by (auto simp: mem_wf_def)
  from MEM_WRITE_bytes [OF this assms(2)] obtain m' bk' where
    "MEM_WRITE m a bs = Inr m'" "mem_inv m' bk'" "\<forall>x. mem_byte m' x = put (mem_byte m) a bs x" by blast
  then show ?thesis using that [of m'] by (auto simp: mem_wf_def)
qed

lemma mem_stats_wf [simp]:
  "mem_wf (m\<lparr>mem_ptab_accesses := x\<rparr>) \<longleftrightarrow> mem_wf m"
  "mem_byte (m\<lparr>mem_ptab_accesses := x\<rparr>) = mem_byte m"
  by (simp_all add: mem_wf_def mem_inv_def mem_byte_def [abs_def] mem_lookup_def tag_is_def [abs_def]
      fun_eq_iff split: option.split)

lemma low2_of_word: "w AND (3 :: 32 word) = 3 \<longleftrightarrow> (\<forall>n < 2. bit w n)"
proof -
  have m: "(3 :: 32 word) = mask 2" by (simp add: mask_eq_exp_minus_1)
  have "bit w n" if "w AND mask 2 = mask 2" "n < 2" for n
    using arg_cong [OF that(1), of "\<lambda>x. bit x n"] that(2) by (simp add: bit_and_iff bit_mask_iff)
  then show ?thesis unfolding m by (auto intro!: bit_word_eqI simp: bit_and_iff bit_mask_iff)
qed

lemma md_fetch_inst_result:
  assumes wf: "mem_wf (fmem s)" and even: "\<not> bit (regs_PC (regs s)) 0"
    and inst: "inst = low32 (le_word (get (mem_byte (fmem s)) (regs_PC (regs s)) 4))"
    and full: "\<not> INST_IsCompressed inst"
  obtains m k where "md_fetch_inst s = Inr (inst, s\<lparr>fmem := m, mem_cross_page_refs := k\<rparr>)"
    "mem_wf m" "mem_byte m = mem_byte (fmem s)"
proof -
  let ?pc = "regs_PC (regs s)" and ?f = "mem_byte (fmem s)"
  obtain m1 where m1: "mem_read_n 2 ?pc (fmem s) = Inr (le_word (get ?f ?pc 2), m1)" "mem_wf m1"
    "mem_byte m1 = ?f" using mem_wf_read [OF wf even_in_page [OF even]] by blast
  have even2: "\<not> bit (?pc + 2) 0" using even by (simp add: bit_0)
  obtain m2 where m2: "mem_read_n 2 (?pc + 2) m1 = Inr (le_word (get ?f (?pc + 2) 2), m2)" "mem_wf m2"
    "mem_byte m2 = ?f" using mem_wf_read [OF m1(2) even_in_page [OF even2]] m1(3) by metis
  have "bit (low32 (le_word (get ?f ?pc 2))) n = bit inst n" if "n < 2" for n
    using that by (simp add: inst le_word_4 low32_def bit_unsigned_iff bit_or_iff bit_push_bit_iff)
  then have "\<not> INST_IsCompressed (low32 (le_word (get ?f ?pc 2)))"
    using full by (simp add: INST_IsCompressed_def low2_of_word)
  then have "md_fetch_inst s = Inr (inst, s\<lparr>fmem := m2\<lparr>mem_ptab_accesses :=
      mem_ptab_accesses m2 - 1 + (if near_page_end ?pc then 1 else 0)\<rparr>,
      mem_cross_page_refs := mem_cross_page_refs s + (if near_page_end ?pc then 1 else 0)\<rparr>)"
    by (simp add: md_fetch_inst_def m1 m2 Let_def inst le_word_4)
  then show ?thesis by (rule that) (simp_all add: m2)
qed

subsection \<open>One instruction\<close>

declare reg_of.simps [simp del]

lemma SEXT_imms:
  "SEXT (sw (IMM inst)) = imm12 inst" "SEXT (uw (SIMM inst)) = imm_of S_imm inst"
  "SEXT (uw (BIMM inst)) = imm_of B_imm inst" "SEXT (sw (UIMM inst)) = imm_of U_imm inst"
  "SEXT (uw (JIMM inst)) = imm_of J_imm inst"
  unfolding SEXT_sw SEXT_uw by (simp_all only: IMM_imm12 SIMM_isa BIMM_isa UIMM_isa JIMM_isa)

lemma fast_hooks_sel [simp]:
  "GPR (fast_hooks hs) s n = regs_R (regs s) n" "SET_GPR (fast_hooks hs) = set_R"
  "CPC (fast_hooks hs) s = regs_PC (regs s)" "SET_NPC (fast_hooks hs) = set_NPC"
  "SET_TPC (fast_hooks hs) v s = s" "READ (fast_hooks hs) = fast_read"
  "WRITE (fast_hooks hs) = fast_write" "one_shl64 (fast_hooks hs) = host_shl64 hs"
  by (simp_all add: fast_hooks_def)

lemma fast_set_sel [simp]:
  "regs_R (regs (set_R n v s)) = (regs_R (regs s))(n := v)" "regs_PC (regs (set_R n v s)) = regs_PC (regs s)"
  "regs_NPC (regs (set_R n v s)) = regs_NPC (regs s)" "fmem (set_R n v s) = fmem s"
  "regs_R (regs (set_NPC v s)) = regs_R (regs s)" "regs_PC (regs (set_NPC v s)) = regs_PC (regs s)"
  "regs_NPC (regs (set_NPC v s)) = v" "fmem (set_NPC v s) = fmem s"
  "regs_R (regs (set_PC v s)) = regs_R (regs s)" "regs_PC (regs (set_PC v s)) = v"
  "regs_NPC (regs (set_PC v s)) = regs_NPC (regs s)" "fmem (set_PC v s) = fmem s"
  by (simp_all add: set_R_def set_NPC_def set_PC_def upd_regs_def)

text \<open>The architectural state once the program counter has taken its next value.\<close>

definition abs_next :: "fast \<Rightarrow> arch" where
  "abs_next s = \<lparr>aR = (regs_R (regs s))(0 := 0), aPC = regs_NPC (regs s), aM = mem_byte (fmem s)\<rparr>"

definition ready :: "fast \<Rightarrow> bool" where
  "ready s \<longleftrightarrow> fast_wf s \<and> regs_R (regs s) 0 = 0"

definition runs_as :: "fast exec_res \<Rightarrow> arch \<Rightarrow> bool" where
  "runs_as r a \<longleftrightarrow> (\<exists>s. r = Inr (fault_none, s) \<and> mem_wf (fmem s) \<and> abs_next s = a)"

lemma runs_as_set_R:
  "ready s \<Longrightarrow> runs_as (finish (set_R (reg_of RD inst) v s)) (step_pc (set_rd inst v (abs_fast s)))"
  by (auto simp: runs_as_def finish_def ready_def fast_wf_def abs_next_def abs_fast_def step_pc_def
      set_rd_def)

lemma regs_abs [simp]: "ready s \<Longrightarrow> aR (abs_fast s) n = regs_R (regs s) n"
  by (simp add: ready_def abs_fast_def)

lemma pc_abs [simp]: "aPC (abs_fast s) = regs_PC (regs s)" "aM (abs_fast s) = mem_byte (fmem s)"
  by (simp_all add: abs_fast_def)

lemma bit_0_and_not_1: "\<not> bit (x :: 64 word) 0 \<Longrightarrow> x AND - 2 = x"
proof -
  assume x: "\<not> bit x 0"
  have "x AND NOT 1 = x" 
    by (rule bit_word_eqI) (use x in \<open>auto simp: bit_and_iff bit_not_iff bit_1_iff intro!: gr0I\<close>)
  then show "x AND - 2 = x" by simp
qed

lemma exec_u_isa:
  "ready s \<Longrightarrow> isa_agrees (U x) inst (abs_fast s)
    \<Longrightarrow> runs_as (exec_u (fast_hooks hs) x inst s) (isa_step (U x) inst (abs_fast s))"
proof (cases x)
  case JAL
  then show "ready s \<Longrightarrow> ?thesis"
    by (auto simp: Let_def SEXT_imms runs_as_def finish_def ready_def fast_wf_def abs_next_def
        abs_fast_def set_rd_def)
next
  case JALR
  moreover assume "ready s" "isa_agrees (U x) inst (abs_fast s)"
  ultimately show ?thesis
    by (auto simp: Let_def SEXT_imms bit_0_and_not_1 runs_as_def finish_def ready_def
        fast_wf_def abs_next_def abs_fast_def set_rd_def)
qed (simp_all add: SEXT_imms runs_as_set_R add.commute)

lemma exec_branch_isa:
  "ready s \<Longrightarrow> runs_as (exec_branch (fast_hooks hs) x inst s) (isa_step (Br x) inst (abs_fast s))"
  by (simp add: exec_branch_def Let_def SEXT_imms)
    (auto simp: runs_as_def finish_def ready_def fast_wf_def abs_next_def abs_fast_def step_pc_def)

lemma exec_load_isa:
  assumes "ready s" "isa_agrees (Ld x) inst (abs_fast s)"
  shows "runs_as (exec_load (fast_hooks hs) x inst s) (isa_step (Ld x) inst (abs_fast s))"
proof -
  let ?a = "load_addr inst (abs_fast s)"
  have wf: "mem_wf (fmem s)" using assms(1) by (simp add: ready_def fast_wf_def)
  obtain m where m: "mem_read_n (load_size x) ?a (fmem s)
      = Inr (le_word (get (mem_byte (fmem s)) ?a (load_size x)), m)" "mem_wf m"
    "mem_byte m = mem_byte (fmem s)" using mem_wf_read [OF wf] assms(2) by auto
  let ?v = "load_result x (le_word (get (mem_byte (fmem s)) ?a (load_size x)))"
  have "ready (s\<lparr>fmem := m\<rparr>)" "abs_fast (s\<lparr>fmem := m\<rparr>) = abs_fast s"
    using assms(1) m by (simp_all add: ready_def fast_wf_def abs_fast_def)
  then have "runs_as (finish (set_R (reg_of RD inst) ?v (s\<lparr>fmem := m\<rparr>)))
      (step_pc (set_rd inst ?v (abs_fast s)))" using runs_as_set_R by metis
  moreover have "regs_R (regs s) (reg_of RS1 inst) + imm12 inst = ?a"
    using assms(1) by (simp add: load_addr_def)
  ultimately show ?thesis
    by (simp add: exec_load_def SEXT_imms load_def fast_read_def m(1))
qed

lemma le_bytes_mask: "le_bytes (store_size x) (store_mask x AND v) = le_bytes (store_size x) v"
proof -
  have "store_mask x = mask (8 * store_size x)" "8 * store_size x \<le> 64"
    by (cases x; simp add: mask_eq_exp_minus_1)+
  then show ?thesis
    by (auto simp: le_bytes_def bit_unsigned_iff bit_drop_bit_eq bit_and_iff bit_mask_iff
        intro!: bit_word_eqI dest: bit_imp_le_length)
qed

lemma length_le_bytes [simp]: "length (le_bytes n v) = n"
  by (simp add: le_bytes_def)

lemma exec_store_isa:
  assumes "ready s" "isa_agrees (St x) inst (abs_fast s)"
  shows "runs_as (exec_store (fast_hooks hs) x inst s) (isa_step (St x) inst (abs_fast s))"
proof -
  let ?a = "store_addr inst (abs_fast s)"
  let ?bs = "le_bytes (store_size x) (regs_R (regs s) (reg_of RS2 inst))"
  have wf: "mem_wf (fmem s)" using assms(1) by (simp add: ready_def fast_wf_def)
  obtain m where m: "MEM_WRITE (fmem s) ?a ?bs = Inr m" "mem_wf m"
    "mem_byte m = put (mem_byte (fmem s)) ?a ?bs" using mem_wf_write [OF wf, of ?a ?bs] assms(2) by auto
  have "regs_R (regs s) (reg_of RS1 inst) + imm_of S_imm inst = ?a"
    using assms(1) by (simp add: store_addr_def)
  then show ?thesis using assms(1) m
    by (simp add: exec_store_def SEXT_imms store_def fast_write_def le_bytes_mask runs_as_def
        finish_def abs_next_def ready_def fast_wf_def)
      (simp add: step_pc_def abs_fast_def)
qed

lemma exec_insn_isa:
  assumes "host_shl64 hs = 0" "ready s" "isa_agrees x inst (abs_fast s)"
  shows "runs_as (exec_insn (fast_hooks hs) x inst s) (isa_step x inst (abs_fast s))"
proof (cases x)
  case (OpI y)
  then show ?thesis using assms by (simp add: exec_imm_def imm_isa runs_as_set_R)
next
  case (OpR y)
  then show ?thesis using assms by (simp add: exec_reg_def reg_isa runs_as_set_R)
next
  case (Mul y)
  then show ?thesis using assms by (simp add: exec_mul_def mul_isa runs_as_set_R)
qed (use assms exec_u_isa exec_branch_isa exec_load_isa exec_store_isa in auto)

subsection \<open>A step and a run\<close>

lemma isa_decode_mem: "isa_decode rows i = Some x \<Longrightarrow> \<exists>m v. (x, m, v) \<in> set rows \<and> i AND m = v"
  by (induction rows i rule: isa_decode.induct) (auto split: if_splits)

lemma isa_int_full: "(x, m, v) \<in> set isa_int \<Longrightarrow> m AND 3 = 3 \<and> v AND 3 = 3"
proof -
  have "list_all (\<lambda>(x, m, v). m AND 3 = 3 \<and> v AND 3 = 3) isa_int" by code_simp
  then show "(x, m, v) \<in> set isa_int \<Longrightarrow> ?thesis" by (auto simp: list_all_iff)
qed

lemma isa_int_base: "(x, m, v) \<in> set isa_int \<Longrightarrow> same_impl y x \<Longrightarrow> y = x"
proof -
  have "list_all (\<lambda>(x, m, v). case x of C c \<Rightarrow> False | _ \<Rightarrow> True) isa_int" by code_simp
  then show "(x, m, v) \<in> set isa_int \<Longrightarrow> same_impl y x \<Longrightarrow> y = x"
    by (auto simp: list_all_iff same_impl_def base_insn_def split: insn.splits)
qed

lemma isa_int_table: "set isa_int \<subseteq> set isa_table"
  by (simp add: isa_table_def)

lemma isa_decode_sound:
  assumes "isa_decode isa_int (uint inst) = Some x"
  shows "MD_SET_OPCODE rv_decoder inst = Inr (Inst x)" "\<not> INST_IsCompressed inst"
proof -
  obtain m v where row: "(x, m, v) \<in> set isa_int" "uint inst AND m = v"
    using isa_decode_mem [OF assms] by blast
  show "MD_SET_OPCODE rv_decoder inst = Inr (Inst x)"
    using rv_decode_isa [OF _ row(2)] isa_int_table row(1) isa_int_base by blast
  have "uint inst AND (m AND 3) = v AND 3" using row(2) by (simp flip: and.assoc)
  then have "uint (inst AND 3) = uint (3 :: 32 word)" 
    using isa_int_full [OF row(1)] by (simp add: unsigned_and_eq)
  then show "\<not> INST_IsCompressed inst" by (simp add: INST_IsCompressed_def word_uint_eq_iff)
qed

lemma fast_step_isa:
  assumes hs: "host_shl64 hs = 0" and wf: "fast_wf s" and nx: "isa_next (abs_fast s) = Some a"
  shows "\<exists>s'. fast_step hs rv_decoder s = Inr s' \<and> fast_wf s' \<and> abs_fast s' = a"
proof -
  define inst where "inst = low32 (le_word (get (mem_byte (fmem s)) (regs_PC (regs s)) 4))"
  obtain x where even: "\<not> bit (regs_PC (regs s)) 0" and dec: "isa_decode isa_int (uint inst) = Some x"
    and agr: "isa_agrees x inst (abs_fast s)" and a: "a = isa_step x inst (abs_fast s)"
    using nx by (auto simp: isa_next_def Let_def inst_def split: if_splits option.splits)
  let ?s1 = "(set_R 0 0 s)\<lparr>IsCtrlInstTaken := False, sim_num_insn := sim_num_insn s + 1\<rparr>"
  obtain m k where f: "md_fetch_inst ?s1 = Inr (inst, ?s1\<lparr>fmem := m, mem_cross_page_refs := k\<rparr>)"
    "mem_wf m" "mem_byte m = mem_byte (fmem s)"
  proof (rule md_fetch_inst_result [of ?s1 inst])
    show "mem_wf (fmem ?s1)" using wf by (simp add: fast_wf_def)
  qed (use even isa_decode_sound(2) [OF dec] in \<open>simp_all add: inst_def\<close>)
  let ?s2 = "?s1\<lparr>fmem := m, mem_cross_page_refs := k\<rparr>"
  have s2: "ready ?s2" "abs_fast ?s2 = abs_fast s"
    using wf f by (simp_all add: ready_def fast_wf_def abs_fast_def)
  obtain s3 where s3: "exec_insn (fast_hooks hs) x inst ?s2 = Inr (fault_none, s3)" "mem_wf (fmem s3)"
    "abs_next s3 = a" using exec_insn_isa [OF hs s2(1)] agr a s2(2) by (auto simp: runs_as_def)
  have "fast_step hs rv_decoder s = Inr (next_pc (Inst x) inst s3)"
    by (simp add: fast_step_def Let_def f(1) isa_decode_sound(1) [OF dec] s3(1))
  moreover have "fast_wf (next_pc (Inst x) inst s3)" "abs_fast (next_pc (Inst x) inst s3) = a"
    using isa_decode_sound(2) [OF dec] s3(2,3)
    by (simp_all add: next_pc_def Let_def fast_wf_def abs_fast_def abs_next_def)
  ultimately show ?thesis by blast
qed

lemma fast_run_refines:
  "host_shl64 hs = 0 \<Longrightarrow> fast_wf s \<Longrightarrow> isa_run n (abs_fast s) = Some a
    \<Longrightarrow> \<exists>s'. fast_run hs rv_decoder n s = Inr s' \<and> fast_wf s' \<and> abs_fast s' = a"
proof (induction n arbitrary: s)
  case (Suc n)
  then obtain b where b: "isa_next (abs_fast s) = Some b" "isa_run n b = Some a"
    by (auto split: option.splits)
  obtain s1 where "fast_step hs rv_decoder s = Inr s1" "fast_wf s1" "abs_fast s1 = b"
    using fast_step_isa [OF Suc.prems(1,2) b(1)] by blast
  with Suc.IH [of s1] Suc.prems(1) b(2) show ?case by auto
qed auto

end
