(* ===== verification/FastProps.thy ===== *)
theory FastProps
  imports SimFastCorrect
begin

text \<open>
  Properties of the RISC-V decoder, of the instruction semantics and of the functional
  simulator that runs them.
\<close>

definition bare_host :: host where
  "bare_host = \<lparr>sys_syscall = (\<lambda>_ s. Inr s), host_float = (\<lambda>_ _ s. Inr s), host_shl64 = 0,
     host_junk = fault_none\<rparr>"

definition boot :: "64 word \<Rightarrow> mem_t \<Rightarrow> fast" where
  "boot pc m = fast_start (set_PC pc (sim_init\<lparr>fmem := m\<rparr>))"

lemma boot_wf: "mem_wf m \<Longrightarrow> fast_wf (boot pc m)"
  by (simp add: boot_def fast_start_def fast_wf_def)

lemma boot_abs: "abs_fast (boot pc m) = \<lparr>aR = (\<lambda>_. 0), aPC = pc, aM = mem_byte m\<rparr>"
  by (simp add: boot_def fast_start_def abs_fast_def sim_init_def regs_init_def fun_eq_iff)

subsection \<open>Simulation\<close>


text \<open>A program: 5 times 7, stored, loaded, compared, and a branch back to its start.\<close>

definition demo :: "8 word list" where
  "demo = concat (map (le_bytes 4)
     [0x00500093, 0x00700113, 0x022081b3, 0x10302023, 0x10002203, 0xfe4186e3])"

lemma demo_run:
  "case isa_run 6 \<lparr>aR = (\<lambda>_. 0), aPC = 0x1000, aM = put (\<lambda>_. 0) 0x1000 demo\<rparr> of
     None \<Rightarrow> False | Some a \<Rightarrow> aR a 4 = 35 \<and> aPC a = 0x1000"
  by code_simp


subsection \<open>Decoding\<close>

text \<open>C10: the tables of riscv.def decode the encodings of the manual. Every word that matches the
  mask and value of a row of the manual's encoding table (RV64IMAFDC) is decoded to that
  instruction, or to another opcode of the same implementation, whatever its other bits.\<close>

theorem decode_isa:
  assumes "(x, m, v) \<in> set isa_table" and "uint inst AND m = v"
  shows "\<exists>y. MD_SET_OPCODE rv_decoder inst = Inr (Inst y) \<and> same_impl y x"
  using assms by (rule rv_decode_isa)

theorem decode_isa_witness:
  "\<exists>y. MD_SET_OPCODE rv_decoder 0x022081b3 = Inr (Inst y) \<and> same_impl y (Mul MUL)"
proof (rule decode_isa)
  have "list_ex (\<lambda>r. r = (Mul MUL, 0xfe00707f, 0x2000033)) isa_int" by code_simp
  then show "(Mul MUL, 0xfe00707f, 0x2000033) \<in> set isa_table"
    by (auto simp: list_ex_iff isa_table_def)
qed simp

text \<open>C11: the decoding loop ends on every word. It never runs forever and never hands a linking
  opcode to the simulator's switch; the one thing that can go wrong is an index beyond the
  table, which the code does not check.\<close>

theorem decode_total:
  "case MD_SET_OPCODE rv_decoder inst of
     Inl e \<Rightarrow> e = OutOfBounds | Inr op \<Rightarrow> (case op of Link l \<Rightarrow> False | _ \<Rightarrow> True)"
  using rv_decode_ends [of inst]
  by (auto simp: is_link_def split: sum.splits md_opcode.splits)

text \<open>What the decoder does outside the manual's table: C.EBREAK is taken for C.JALR, a load with
  the reserved width 7 for a store of a byte, and the debug instruction DRET indexes the table
  out of bounds.\<close>

theorem decode_leaks:
  "MD_SET_OPCODE rv_decoder 0x9002 = Inr (Inst (C (C_JALR 7)))
   \<and> MD_SET_OPCODE rv_decoder 0x7003 = Inr (Inst (St SB))
   \<and> MD_SET_OPCODE rv_decoder 0x7b200073 = Inl OutOfBounds"
proof (intro conjI)
  have "known_decode rv_tree rv_links 0xffffffff (uint (0x9002 :: 32 word)) = Some (C (C_JALR 7))"
    by code_simp
  then show "MD_SET_OPCODE rv_decoder 0x9002 = Inr (Inst (C (C_JALR 7)))" by (rule rv_decode_word)
  have "known_decode rv_tree rv_links 0xffffffff (uint (0x7003 :: 32 word)) = Some (St SB)"
    by code_simp
  then show "MD_SET_OPCODE rv_decoder 0x7003 = Inr (Inst (St SB))" by (rule rv_decode_word)
  show "MD_SET_OPCODE rv_decoder 0x7b200073 = Inl OutOfBounds" by code_simp
qed

subsection \<open>The instruction semantics\<close>

text \<open>C12: the integer operations compute what the manual says, on every operand. The shift and
  sign-extension tricks of the macros (a 32-bit result sign-extended by its bit 31, shift
  amounts masked, SRAIW through a 64-bit sign extension) amount to the manual's arithmetic,
  for the register and the immediate forms and both widths.\<close>

theorem alu_isa:
  "reg_result op a b = isa_reg op a b \<and> imm_result 0 opi inst a = isa_imm opi inst a"
  using reg_isa imm_isa by blast

text \<open>C13: the immediates of the S, B, U and J formats. Each macro's shifts and masks, followed by
  the macro's widening to 64 bits, collect the bits of the instruction word in the manual's order
  and extend the sign.\<close>

theorem immediates_isa:
  "SEXT (uw (SIMM inst)) = imm_of S_imm inst \<and> SEXT (uw (BIMM inst)) = imm_of B_imm inst
   \<and> SEXT (sw (UIMM inst)) = imm_of U_imm inst \<and> SEXT (uw (JIMM inst)) = imm_of J_imm inst"
  by (intro conjI SEXT_imms)

text \<open>C14: multiplication and division compute what the manual says, the upper product of MULHU
  formed from four half products included, outside of MULH, MULHSU, the overflow of DIV and
  DIVW's least dividend.\<close>

theorem mul_ok:
  assumes "mul_agrees op a b"
  shows "mul_result op a b = Inr (isa_mul op a b)"
  using assms by (rule mul_isa)

theorem mul_ok_witness:
  "mul_result MULHU 0xfffffffffffffffe 0xffffffffffffffff = Inr 0xfffffffffffffffd"
proof -
  have "isa_mul MULHU 0xfffffffffffffffe 0xffffffffffffffff = 0xfffffffffffffffd" by code_simp
  then show ?thesis using mul_ok [of MULHU "0xfffffffffffffffe" "0xffffffffffffffff"] by simp
qed

text \<open>Where multiplication and division depart from the manual. MULH loses the upper half of
  its result, MULHSU misses a borrow, the overflowing DIV divides the least integer by -1 (which C
  leaves undefined), and DIVW returns its dividend when that is the least integer.\<close>

theorem mul_departs:
  "mul_result MULH (- 1) 1 = Inr 0xffffffff \<and> isa_mul MULH (- 1) 1 = - 1
   \<and> mul_result MULHSU (- 2) 0x1ffffffff = Inr 0xffffffff \<and> isa_mul MULHSU (- 2) 0x1ffffffff = - 1
   \<and> mul_result DIV 0x8000000000000000 (- 1) = Inl Undefined
   \<and> isa_mul DIV 0x8000000000000000 (- 1) = 0x8000000000000000
   \<and> mul_result DIVW 0x80000000 2 = Inr 0xffffffff80000000
   \<and> isa_mul DIVW 0x80000000 2 = 0xffffffffc0000000"
  by (rule mul_deviates)

subsection \<open>Load reserved and store conditional\<close>

lemma fast_hooks_lrsc [simp]:
  "LRSC (fast_hooks hs) = lrsc" "SET_LRSC (fast_hooks hs) l s = s\<lparr>lrsc := l\<rparr>"
  by (simp_all add: fast_hooks_def)

lemma fast_lrsc_sel [simp]: "lrsc (set_R n v s) = lrsc s"
  by (simp add: set_R_def upd_regs_def)

lemma le_word_bound: "length bs \<le> k \<Longrightarrow> 8 * k \<le> n \<Longrightarrow> \<not> bit (le_word bs) n"
proof (induction bs arbitrary: k n)
  case (Cons b bs)
  then obtain j where "k = Suc j" "length bs \<le> j" by (cases k) auto
  with Cons.IH [of j "n - 8"] Cons.prems show ?case
    by (auto simp: le_word_def bit_or_iff bit_unsigned_iff bit_push_bit_iff dest: bit_imp_le_length)
qed (simp add: le_word_def)

lemma le_word_low: "length bs \<le> 4 \<Longrightarrow> uw (low32 (le_word bs)) = le_word bs"
  using le_word_bound [of bs 4]
  by (intro bit_word_eqI) (auto simp: uw_def low32_def bit_unsigned_iff simp flip: not_le)

lemma sw_eq_uw: "sw w = uw w \<longleftrightarrow> \<not> bit w 31"
proof
  assume "sw w = uw w"
  from arg_cong [OF this, of "\<lambda>x. bit x 63"] show "\<not> bit w 31"
    by (auto simp: sw_def uw_def bit_signed_iff bit_unsigned_iff dest: bit_imp_le_length)
next
  assume "\<not> bit w 31"
  show "sw w = uw w"
  proof (rule bit_word_eqI)
    fix n assume "n < LENGTH(64)"
    then show "bit (sw w) n = bit (uw w) n" using \<open>\<not> bit w 31\<close>
      by (cases "n \<le> 31") (auto simp: sw_def uw_def bit_signed_iff bit_unsigned_iff dest: bit32_le)
  qed
qed

definition word_at :: "mem_t \<Rightarrow> 64 word \<Rightarrow> 32 word" where
  "word_at m a = low32 (le_word (get (mem_byte m) a 4))"

lemma mem_wf_word:
  assumes "mem_wf m" "MEM_OFFSET a + 4 \<le> MD_PAGE_SIZE"
  obtains m' where "mem_read_n 4 a m = Inr (uw (word_at m a), m')" "mem_wf m'" "mem_byte m' = mem_byte m"
  using mem_wf_read [OF assms] le_word_low [of "get (mem_byte m) a 4"] by (auto simp: word_at_def)

text \<open>C28: SC.W after LR.W. With RD of LR.W apart from the address register, an SC.W to the same
  address right after it succeeds, storing the low word of RS2, exactly when bit 31 of the word
  is clear: LR.W remembers the sign-extended value and SC.W compares it with the zero-extended
  word, so on a negative word the pair fails forever.\<close>

theorem lr_sc_w:
  assumes "mem_wf (fmem s)" and "regs_R (regs s) (reg_of RS1 i) = a" and "reg_of RS1 j = reg_of RS1 i"
    and "reg_of RD i \<noteq> reg_of RS1 i" and "MEM_OFFSET a + 4 \<le> MD_PAGE_SIZE"
  shows "\<exists>s1 s2. exec_amo (fast_hooks hs) LR_W i s = Inr (fault_none, s1)
    \<and> exec_amo (fast_hooks hs) SC_W j s1 = Inr (fault_none, s2)
    \<and> regs_R (regs s1) (reg_of RD i) = sw (word_at (fmem s) a)
    \<and> regs_R (regs s2) (reg_of RD j) = (if bit (word_at (fmem s) a) 31 then 1 else 0)
    \<and> mem_byte (fmem s2) = (if bit (word_at (fmem s) a) 31 then mem_byte (fmem s)
        else put (mem_byte (fmem s)) a (le_bytes 4 (regs_R (regs s1) (reg_of RS2 j))))"
proof -
  let ?w = "word_at (fmem s) a"
  obtain m1 where m1: "mem_read_n 4 a (fmem s) = Inr (uw ?w, m1)" "mem_wf m1"
    "mem_byte m1 = mem_byte (fmem s)" using mem_wf_word [OF assms(1,5)] by blast
  let ?s1 = "(set_R (reg_of RD i) (sw ?w) (s\<lparr>fmem := m1\<rparr>))\<lparr>lrsc := \<lparr>target_addr = a, lrsc_val = sw ?w\<rparr>\<rparr>"
  have lr: "exec_amo (fast_hooks hs) LR_W i s = Inr (fault_none, ?s1)"
    using assms(2,4) by (simp add: exec_lr_def load_def fast_read_def m1(1) finish_def Let_def)
  have "word_at m1 a = ?w" by (simp add: word_at_def m1(3))
  then obtain m2 where m2: "mem_read_n 4 a m1 = Inr (uw ?w, m2)" "mem_wf m2"
    "mem_byte m2 = mem_byte (fmem s)" using mem_wf_word [OF m1(2) assms(5)] m1(3) by metis
  let ?bs = "le_bytes 4 (regs_R (regs ?s1) (reg_of RS2 j))"
  obtain m3 where m3: "MEM_WRITE m2 a ?bs = Inr m3" "mem_wf m3" "mem_byte m3 = put (mem_byte m2) a ?bs"
    using mem_wf_write [OF m2(2), of a ?bs] assms(5) by auto
  have bs: "le_bytes 4 (0xffffffff AND v) = le_bytes 4 v" for v
    using le_bytes_mask [of SW] by simp
  have R1: "regs_R (regs ?s1) (reg_of RS1 j) = a" using assms(2,3,4) by simp
  let ?s2 = "(set_R (reg_of RD j) (if bit ?w 31 then 1 else 0)
    (?s1\<lparr>fmem := if bit ?w 31 then m2 else m3\<rparr>))\<lparr>lrsc := lrsc_init\<rparr>"
  have "exec_amo (fast_hooks hs) SC_W j ?s1 = Inr (fault_none, ?s2)"
    using assms(2,3,4) m3(1) sw_eq_uw [of ?w]
    by (auto simp: exec_sc_def fast_read_def m2(1) store_def fast_write_def bs finish_def eq_commute
        [of "uw ?w"])
  then show ?thesis using lr m2(3) m3(3) by (intro exI [of _ ?s1] exI [of _ ?s2]) simp
qed

theorem lr_sc_w_witness:
  "\<exists>m s1 s2. MEM_WRITE (mem_create ''mem'') 0x1000 [0, 0, 0, 0x80] = Inr m
     \<and> exec_amo (fast_hooks bare_host) LR_W 0x1002a32f (set_R 5 0x1000 (sim_init\<lparr>fmem := m\<rparr>))
       = Inr (fault_none, s1)
     \<and> exec_amo (fast_hooks bare_host) SC_W 0x1862a3af s1 = Inr (fault_none, s2)
     \<and> regs_R (regs s1) 6 = 0xffffffff80000000 \<and> regs_R (regs s2) 7 = 1"
proof -
  have off: "MEM_OFFSET 0x1000 + length [0, 0, 0, 0x80 :: 8 word] \<le> MD_PAGE_SIZE" by code_simp
  from mem_wf_write [OF mem_create_wf this, of "''mem''"] obtain m where
    m: "MEM_WRITE (mem_create ''mem'') 0x1000 [0, 0, 0, 0x80] = Inr m" "mem_wf m"
      "mem_byte m = put (mem_byte (mem_create ''mem'')) 0x1000 [0, 0, 0, 0x80]" by blast
  let ?s = "set_R 5 0x1000 (sim_init\<lparr>fmem := m\<rparr>)"
  have regs: "reg_of RS1 0x1002a32f = 5" "reg_of RD 0x1002a32f = 6" "reg_of RS1 0x1862a3af = 5"
    "reg_of RD 0x1862a3af = 7" by code_simp+
  have "low32 (le_word (get (put (\<lambda>_. 0) 0x1000 [0, 0, 0, 0x80]) 0x1000 4)) = 0x80000000" by code_simp
  moreover have "mem_byte (mem_create ''mem'') = (\<lambda>_. 0)" by (simp add: mem_create_byte fun_eq_iff)
  ultimately have w: "word_at (fmem ?s) 0x1000 = 0x80000000" by (simp add: word_at_def m(3))
  have b: "bit (0x80000000 :: 32 word) 31" "sw 0x80000000 = 0xffffffff80000000" by code_simp+
  have "\<exists>s1 s2. exec_amo (fast_hooks bare_host) LR_W 0x1002a32f ?s = Inr (fault_none, s1)
    \<and> exec_amo (fast_hooks bare_host) SC_W 0x1862a3af s1 = Inr (fault_none, s2)
    \<and> regs_R (regs s1) (reg_of RD 0x1002a32f) = sw (word_at (fmem ?s) 0x1000)
    \<and> regs_R (regs s2) (reg_of RD 0x1862a3af) = (if bit (word_at (fmem ?s) 0x1000) 31 then 1 else 0)
    \<and> mem_byte (fmem s2) = (if bit (word_at (fmem ?s) 0x1000) 31 then mem_byte (fmem ?s)
        else put (mem_byte (fmem ?s)) 0x1000 (le_bytes 4 (regs_R (regs s1) (reg_of RS2 0x1862a3af))))"
    by (rule lr_sc_w) (use off in \<open>simp_all add: regs m(2)\<close>)
  then obtain s1 s2 where "exec_amo (fast_hooks bare_host) LR_W 0x1002a32f ?s = Inr (fault_none, s1)"
    "exec_amo (fast_hooks bare_host) SC_W 0x1862a3af s1 = Inr (fault_none, s2)"
    "regs_R (regs s1) 6 = 0xffffffff80000000" "regs_R (regs s2) 7 = 1"
    unfolding regs w b(2) using b(1) by auto
  then show ?thesis using m(1) by blast
qed

subsection \<open>The floating-point control register\<close>

lemma fast_hooks_csr [simp]:
  "CSRS (fast_hooks hs) s n = regs_C (regs s) n" "SET_CSRS (fast_hooks hs) = set_C"
  by (simp_all add: fast_hooks_def)

lemma fast_set_C_sel [simp]:
  "regs_C (regs (set_C n v s)) = (regs_C (regs s))(n := v)" "regs_R (regs (set_C n v s)) = regs_R (regs s)"
  "regs_C (regs (set_R n v s)) = regs_C (regs s)"
  by (simp_all add: set_C_def set_R_def upd_regs_def)

lemma fcsr_fields: "push_bit 5 (drop_bit 5 v AND 0x3) OR (v AND 0x1f) = v AND (0x7f :: 64 word)"
proof -
  have m: "(0x3 :: 64 word) = mask 2" "(0x1f :: 64 word) = mask 5" "(0x7f :: 64 word) = mask 7"
    by (simp_all add: mask_eq_exp_minus_1)
  show ?thesis unfolding m
    by (rule bit_word_eqI) (auto simp: bit_simps)
qed

text \<open>C32: what FCSR holds is read back but for bit 7. A write of FCSR splits it into FRM and FFLAGS,
  a read puts it together from them; the rounding mode has three bits and the write keeps two.\<close>

theorem fcsr_roundtrip:
  assumes "CSR i = FCSR" and "reg_of RD i = 0" and "CSR j = FCSR" and "reg_of RS1 j = 0"
  shows "\<exists>s1 s2. exec_csr (fast_hooks hs) CSRRW i s = Inr (fault_none, s1)
    \<and> exec_csr (fast_hooks hs) CSRRS j s1 = Inr (fault_none, s2)
    \<and> regs_R (regs s2) (reg_of RD j) = regs_R (regs s) (reg_of RS1 i) AND 0x7f"
  using assms fcsr_fields
  by (simp add: finish_def Let_def csr_write_def sync_write_def sync_read_def FCSR_def FRM_def FFLAGS_def)

theorem fcsr_roundtrip_witness:
  "\<exists>s1 s2. exec_csr (fast_hooks bare_host) CSRRW 0x00329073 (set_R 5 0xe0 sim_init) = Inr (fault_none, s1)
    \<and> exec_csr (fast_hooks bare_host) CSRRS 0x00302373 s1 = Inr (fault_none, s2)
    \<and> regs_R (regs s2) 6 = 0x60"
proof -
  have f: "CSR 0x00329073 = FCSR" "reg_of RD 0x00329073 = 0" "CSR 0x00302373 = FCSR"
    "reg_of RS1 0x00302373 = 0" "reg_of RD 0x00302373 = 6" "reg_of RS1 0x00329073 = 5" by code_simp+
  from fcsr_roundtrip [OF f(1-4), of bare_host "set_R 5 0xe0 sim_init"] show ?thesis
    by (simp add: f)
qed

end
