(* ===== verification/MiscStr.thy ===== *)
theory MiscStr
  imports Misc
begin

text \<open>
  The string and number helpers of misc.c, and what eval.c uses of the C library's string
  conversions. A C string is the list of its characters before the terminating NUL.
\<close>

subsection \<open>Characters\<close>

definition chr :: "char \<Rightarrow> nat" where "chr c = of_char c"

definition between :: "nat \<Rightarrow> nat \<Rightarrow> nat \<Rightarrow> bool" where "between a b n \<longleftrightarrow> a \<le> n \<and> n \<le> b"

definition isdigit :: "char \<Rightarrow> bool" where "isdigit c \<longleftrightarrow> between 48 57 (chr c)"
definition isalpha :: "char \<Rightarrow> bool" where
  "isalpha c \<longleftrightarrow> between 65 90 (chr c) \<or> between 97 122 (chr c)"
definition isspace :: "char \<Rightarrow> bool" where "isspace c \<longleftrightarrow> chr c = 32 \<or> between 9 13 (chr c)"

definition tolower :: "char \<Rightarrow> char" where
  "tolower c = (if between 65 90 (chr c) then char_of (chr c + 32) else c)"

text \<open>The character at the front, NUL at the end.\<close>

fun front :: "string \<Rightarrow> nat" where
  "front [] = 0"
| "front (c # s) = chr c"

subsection \<open>Searching and comparing\<close>

text \<open>\<open>mystrrchr\<close> returns a pointer into the string: the suffix it points at.\<close>

fun strrchr_loop :: "string \<Rightarrow> nat \<Rightarrow> string option \<Rightarrow> string option" where
  "strrchr_loop [] c r = (if c = 0 then Some [] else r)"
| "strrchr_loop (x # s) c r = strrchr_loop s c (if chr x = c then Some (x # s) else r)"

definition mystrrchr :: "string \<Rightarrow> nat \<Rightarrow> string option" where
  "mystrrchr s c = strrchr_loop s c None"

fun mystricmp :: "string \<Rightarrow> string \<Rightarrow> int" where
  "mystricmp s1 s2 =
     (let u1 = (case s1 of [] \<Rightarrow> 0 | c # _ \<Rightarrow> chr (tolower c));
          u2 = (case s2 of [] \<Rightarrow> 0 | c # _ \<Rightarrow> chr (tolower c))
      in if u1 \<noteq> u2 then int u1 - int u2
         else if u1 = 0 then 0
         else case (s1, s2) of (_ # t1, _ # t2) \<Rightarrow> mystricmp t1 t2 | _ \<Rightarrow> 0)"

declare mystricmp.simps [simp del]

subsection \<open>Bit fields and cyclic redundancy\<close>

definition extractl :: "32 word \<Rightarrow> int \<Rightarrow> int \<Rightarrow> 32 word cres" where
  "extractl w pos num =
     (if pos + 1 - num < 0 \<or> 32 \<le> pos + 1 - num \<or> num < 0 \<or> 32 \<le> num then Inl Undefined
      else Inr (drop_bit (nat (pos + 1 - num)) w AND NOT (push_bit (nat num) (- 1))))"

definition POLYNOMIAL :: "32 word" where "POLYNOMIAL = 0x04c11db7"

definition crc_bit :: "32 word \<Rightarrow> 32 word" where
  "crc_bit a = (if a AND 0x80000000 \<noteq> 0 then push_bit 1 a XOR POLYNOMIAL else push_bit 1 a)"

definition crc_gentab :: "32 word list" where
  "crc_gentab = map (\<lambda>i. (crc_bit ^^ 8) (push_bit 24 (of_nat i))) [0..<256]"

definition crc_byte :: "32 word list \<Rightarrow> 32 word \<Rightarrow> 32 word \<Rightarrow> 32 word" where
  "crc_byte tab a b = push_bit 8 a XOR tab ! unat ((drop_bit 24 a XOR b) AND 0xff)"

definition crc :: "32 word \<Rightarrow> 32 word \<Rightarrow> 32 word" where
  "crc a data = foldl (\<lambda>acc j. crc_byte crc_gentab acc (drop_bit (j * 8) data)) a [0..<4]"

subsection \<open>Numbers\<close>

definition digit_of :: "char \<Rightarrow> int option" where
  "digit_of c = (if isdigit c then Some (int (chr c) - 48)
     else if isalpha c then Some (int (chr (tolower c)) - 97 + 10) else None)"

text \<open>
  The conversion loop of \<open>myatosq\<close> and \<open>myatoq\<close>: once the value would pass the limit it
  stays, and the rest of the digits is skipped. Returned are value, overflow and the rest.
\<close>

fun atoq_loop :: "int \<Rightarrow> int \<Rightarrow> string \<Rightarrow> int \<Rightarrow> bool \<Rightarrow> int \<times> bool \<times> string" where
  "atoq_loop base limit [] i ovf = (i, ovf, [])"
| "atoq_loop base limit (c # s) i ovf =
     (case digit_of c of
        None \<Rightarrow> (i, ovf, c # s)
      | Some d \<Rightarrow>
          if base \<le> d then (i, ovf, c # s)
          else if limit div base < i \<or> i = limit div base \<and> limit mod base < d
          then atoq_loop base limit s i True
          else atoq_loop base limit s (i * base + d) ovf)"

fun has_0x :: "string \<Rightarrow> bool" where
  "has_0x (a # b # s) = (chr a = 48 \<and> chr (tolower b) = 120)"
| "has_0x _ = False"

definition atoq_base :: "string \<Rightarrow> int \<Rightarrow> int cres" where
  "atoq_base s base =
     (let b = if base = 0 then if has_0x s then 16 else 10 else base
      in if b \<le> 1 \<or> 36 < b then Inl (Panic ''bogus base: %d'') else Inr b)"

definition skip_0x :: "int \<Rightarrow> string \<Rightarrow> string" where
  "skip_0x base s = (if base = 16 \<and> has_0x s then drop 2 s else s)"

text \<open>What a conversion leaves: value, \<open>errno\<close> set to ERANGE, and \<open>*endp\<close>.\<close>

type_synonym 'a conv = "'a \<times> bool \<times> string"

definition LL_MAX :: int where "LL_MAX = 9223372036854775807"
definition ULL_MAX :: int where "ULL_MAX = 18446744073709551615"

definition myatosq :: "string \<Rightarrow> int \<Rightarrow> 64 word conv cres" where
  "myatosq nptr base =
     (if nptr = [] then Inl (Panic ''strtoll() passed a NULL string'')
      else let s = dropWhile isspace nptr
      in if s = [] then Inr (0, False, nptr)
      else cbind (atoq_base s base) (\<lambda>b.
        let negative = (front s = 45);
            s1 = skip_0x b (if front s = 45 \<or> front s = 43 then tl s else s)
        in case atoq_loop b LL_MAX s1 0 False of (i, ovf, rest) \<Rightarrow>
           if rest = s1 then Inr (0, False, nptr)
           else if ovf then Inr (if negative then word_of_int (- LL_MAX - 1) else word_of_int LL_MAX, True, rest)
           else Inr (if negative then word_of_int (- i) else word_of_int i, False, rest)))"

definition myatoq :: "string \<Rightarrow> int \<Rightarrow> 64 word conv cres" where
  "myatoq nptr base =
     (if nptr = [] then Inl (Panic ''strtoll() passed a NULL string'')
      else let s = dropWhile isspace nptr
      in if s = [] then Inr (0, False, nptr)
      else cbind (atoq_base s base) (\<lambda>b.
        let s1 = skip_0x b s
        in case atoq_loop b ULL_MAX s1 0 False of (i, ovf, rest) \<Rightarrow>
           if rest = s1 then Inr (0, False, nptr)
           else if ovf then Inr (word_of_int ULL_MAX, True, rest)
           else Inr (word_of_int i, False, rest)))"

text \<open>
  \<open>strtol\<close> and \<open>strtoul\<close> of the C library at base 0, on text that starts with a digit or a
  point, with a \<open>long\<close> of 64 bits: the base by the prefix, all digits of that base, and
  ERANGE beyond the limit.
\<close>

fun digits_loop :: "int \<Rightarrow> string \<Rightarrow> int \<Rightarrow> int \<times> string" where
  "digits_loop base [] i = (i, [])"
| "digits_loop base (c # s) i =
     (case digit_of c of
        None \<Rightarrow> (i, c # s)
      | Some d \<Rightarrow> if base \<le> d then (i, c # s) else digits_loop base s (i * base + d))"

definition hex_follows :: "string \<Rightarrow> bool" where
  "hex_follows s \<longleftrightarrow> has_0x s
     \<and> (case drop 2 s of [] \<Rightarrow> False | c # _ \<Rightarrow> (case digit_of c of None \<Rightarrow> False | Some d \<Rightarrow> d < 16))"

definition strto :: "int \<Rightarrow> string \<Rightarrow> int conv" where
  "strto limit s =
     (let base = (if hex_follows s then 16 else if front s = 48 then 8 else 10);
          s1 = (if hex_follows s then drop 2 s else s);
          r = digits_loop base s1 0
      in if snd r = s1 then (0, False, s)
         else if limit < fst r then (limit, True, snd r) else (fst r, False, snd r))"

definition strtol :: "string \<Rightarrow> int conv" where "strtol s = strto LL_MAX s"
definition strtoul :: "string \<Rightarrow> int conv" where "strtoul s = strto ULL_MAX s"

end
