(* ===== verification/Eval.thy ===== *)
theory Eval
  imports MiscStr CArith
begin

text \<open>
  The expression evaluator of eval.c: the tokenizer with its one-token lookahead, the
  arithmetic on tagged values, the conversion of literals and the recursive descent. The
  user's identifier evaluator is a parameter, and so is the host's floating point.
\<close>

subsection \<open>Values\<close>

datatype eval_err =
  ERR_NOERR | ERR_UPAREN | ERR_NOTERM | ERR_DIV0 | ERR_BADCONST | ERR_BADEXPR | ERR_UNDEFVAR | ERR_EXTRA

datatype eval_type = et_int | et_uint | et_addr | et_qword | et_sqword | et_float | et_double | et_symbol

text \<open>The tagged union: the constructor is the tag. Signed members are kept as their bits.\<close>

datatype ('f, 'd) eval_value =
    V_int "32 word" | V_uint "32 word" | V_addr "64 word" | V_qword "64 word" | V_sqword "64 word"
  | V_float 'f | V_double 'd | V_symbol string

fun val_type :: "('f, 'd) eval_value \<Rightarrow> eval_type" where
  "val_type (V_int x) = et_int" | "val_type (V_uint x) = et_uint" | "val_type (V_addr x) = et_addr"
| "val_type (V_qword x) = et_qword" | "val_type (V_sqword x) = et_sqword"
| "val_type (V_float x) = et_float" | "val_type (V_double x) = et_double"
| "val_type (V_symbol x) = et_symbol"

text \<open>Floating point of the host; conversions to integers truncate, before the cast wraps.\<close>

record ('f, 'd) fp_host =
  d_add :: "'d \<Rightarrow> 'd \<Rightarrow> 'd"
  d_sub :: "'d \<Rightarrow> 'd \<Rightarrow> 'd"
  d_mul :: "'d \<Rightarrow> 'd \<Rightarrow> 'd"
  d_div :: "'d \<Rightarrow> 'd \<Rightarrow> 'd"
  d_neg :: "'d \<Rightarrow> 'd"
  d_zero :: "'d \<Rightarrow> bool"
  d_of_int :: "int \<Rightarrow> 'd"
  d_trunc :: "'d \<Rightarrow> int"
  f_addf :: "'f \<Rightarrow> 'f \<Rightarrow> 'f"
  f_subf :: "'f \<Rightarrow> 'f \<Rightarrow> 'f"
  f_mulf :: "'f \<Rightarrow> 'f \<Rightarrow> 'f"
  f_divf :: "'f \<Rightarrow> 'f \<Rightarrow> 'f"
  f_negf :: "'f \<Rightarrow> 'f"
  f_zero :: "'f \<Rightarrow> bool"
  f_of_int :: "int \<Rightarrow> 'f"
  f_trunc :: "'f \<Rightarrow> int"
  d_of_f :: "'f \<Rightarrow> 'd"
  f_of_d :: "'d \<Rightarrow> 'f"
  strtod :: "string \<Rightarrow> 'd \<times> bool \<times> string"

definition err_value :: "('f, 'd) eval_value" where "err_value = V_int 0"

abbreviation sym_panic :: "'a cres" where "sym_panic \<equiv> Inl (Panic ''symbol used in expression'')"

subsection \<open>Conversions\<close>

fun result_type :: "eval_type \<Rightarrow> eval_type \<Rightarrow> eval_type cres" where
  "result_type t1 t2 =
     (if t1 = et_symbol \<or> t2 = et_symbol then sym_panic
      else if t1 = et_double \<or> t2 = et_double then Inr et_double
      else if t1 = et_float \<or> t2 = et_float then Inr et_float
      else if t1 = et_qword \<or> t2 = et_qword then Inr et_qword
      else if t1 = et_sqword \<or> t2 = et_sqword then Inr et_sqword
      else if t1 = et_addr \<or> t2 = et_addr then Inr et_addr
      else if t1 = et_uint \<or> t2 = et_uint then Inr et_uint
      else Inr et_int)"

fun eval_as_double :: "('f, 'd) fp_host \<Rightarrow> ('f, 'd) eval_value \<Rightarrow> 'd cres" where
  "eval_as_double h (V_double x) = Inr x"
| "eval_as_double h (V_float x) = Inr (d_of_f h x)"
| "eval_as_double h (V_qword x) = Inr (d_of_int h (uint x))"
| "eval_as_double h (V_sqword x) = Inr (d_of_int h (sint x))"
| "eval_as_double h (V_addr x) = Inr (d_of_int h (uint x))"
| "eval_as_double h (V_uint x) = Inr (d_of_int h (uint x))"
| "eval_as_double h (V_int x) = Inr (d_of_int h (sint x))"
| "eval_as_double h (V_symbol x) = sym_panic"

fun eval_as_float :: "('f, 'd) fp_host \<Rightarrow> ('f, 'd) eval_value \<Rightarrow> 'f cres" where
  "eval_as_float h (V_double x) = Inr (f_of_d h x)"
| "eval_as_float h (V_float x) = Inr x"
| "eval_as_float h (V_qword x) = Inr (f_of_int h (uint x))"
| "eval_as_float h (V_sqword x) = Inr (f_of_int h (sint x))"
| "eval_as_float h (V_addr x) = Inr (f_of_int h (uint x))"
| "eval_as_float h (V_uint x) = Inr (f_of_int h (uint x))"
| "eval_as_float h (V_int x) = Inr (f_of_int h (sint x))"
| "eval_as_float h (V_symbol x) = sym_panic"

text \<open>The four integer conversions take the value apart alike and differ in the width they keep.\<close>

fun eval_as_qword :: "('f, 'd) fp_host \<Rightarrow> ('f, 'd) eval_value \<Rightarrow> 64 word cres" where
  "eval_as_qword h (V_double x) = Inr (word_of_int (d_trunc h x))"
| "eval_as_qword h (V_float x) = Inr (word_of_int (f_trunc h x))"
| "eval_as_qword h (V_qword x) = Inr x"
| "eval_as_qword h (V_sqword x) = Inr x"
| "eval_as_qword h (V_addr x) = Inr x"
| "eval_as_qword h (V_uint x) = Inr (ucast x)"
| "eval_as_qword h (V_int x) = Inr (scast x)"
| "eval_as_qword h (V_symbol x) = sym_panic"

definition eval_as_sqword :: "('f, 'd) fp_host \<Rightarrow> ('f, 'd) eval_value \<Rightarrow> 64 word cres" where
  "eval_as_sqword h v = eval_as_qword h v"

definition eval_as_addr :: "('f, 'd) fp_host \<Rightarrow> ('f, 'd) eval_value \<Rightarrow> 64 word cres" where
  "eval_as_addr h v = eval_as_qword h v"

fun eval_as_uint :: "('f, 'd) fp_host \<Rightarrow> ('f, 'd) eval_value \<Rightarrow> 32 word cres" where
  "eval_as_uint h (V_double x) = Inr (word_of_int (d_trunc h x))"
| "eval_as_uint h (V_float x) = Inr (word_of_int (f_trunc h x))"
| "eval_as_uint h (V_qword x) = Inr (ucast x)"
| "eval_as_uint h (V_sqword x) = Inr (ucast x)"
| "eval_as_uint h (V_addr x) = Inr (ucast x)"
| "eval_as_uint h (V_uint x) = Inr x"
| "eval_as_uint h (V_int x) = Inr x"
| "eval_as_uint h (V_symbol x) = sym_panic"

definition eval_as_int :: "('f, 'd) fp_host \<Rightarrow> ('f, 'd) eval_value \<Rightarrow> 32 word cres" where
  "eval_as_int h v = eval_as_uint h v"

subsection \<open>Arithmetic\<close>

text \<open>
  \<open>f_add\<close>, \<open>f_sub\<close>, \<open>f_mult\<close> and \<open>f_div\<close> convert both operands to the result type and apply
  the operator there; signed sums, differences and products wrap, a signed quotient may be
  undefined. A symbol sets \<open>eval_error\<close>.
\<close>

datatype arith = Add | Sub | Mult | Div

fun arith_w :: "arith \<Rightarrow> 'a::len word \<Rightarrow> 'a word \<Rightarrow> 'a word cres" where
  "arith_w Add a b = Inr (a + b)"
| "arith_w Sub a b = Inr (a - b)"
| "arith_w Mult a b = Inr (a * b)"
| "arith_w Div a b = (if b = 0 then Inl Undefined else Inr (a div b))"

fun arith_s :: "arith \<Rightarrow> 'a::len word \<Rightarrow> 'a word \<Rightarrow> 'a word cres" where
  "arith_s Add a b = Inr (a + b)"
| "arith_s Sub a b = Inr (a - b)"
| "arith_s Mult a b = Inr (a * b)"
| "arith_s Div a b = cbind (sdiv_at LENGTH('a) (sint a) (sint b)) (\<lambda>q. Inr (word_of_int q))"

fun arith_d :: "('f, 'd) fp_host \<Rightarrow> arith \<Rightarrow> 'd \<Rightarrow> 'd \<Rightarrow> 'd" where
  "arith_d h Add a b = d_add h a b" | "arith_d h Sub a b = d_sub h a b"
| "arith_d h Mult a b = d_mul h a b" | "arith_d h Div a b = d_div h a b"

fun arith_f :: "('f, 'd) fp_host \<Rightarrow> arith \<Rightarrow> 'f \<Rightarrow> 'f \<Rightarrow> 'f" where
  "arith_f h Add a b = f_addf h a b" | "arith_f h Sub a b = f_subf h a b"
| "arith_f h Mult a b = f_mulf h a b" | "arith_f h Div a b = f_divf h a b"

text \<open>What an operation yields: a value, or the error it leaves in \<open>eval_error\<close> with \<open>err_value\<close>.\<close>

type_synonym ('f, 'd) ev = "(eval_err + ('f, 'd) eval_value) cres"

definition in_type :: "'a cres \<Rightarrow> 'a cres \<Rightarrow> ('a \<Rightarrow> 'a \<Rightarrow> 'a cres) \<Rightarrow> ('a \<Rightarrow> ('f, 'd) eval_value) \<Rightarrow> ('f, 'd) ev" where
  "in_type a b f mk = cbind a (\<lambda>x. cbind b (\<lambda>y. cbind (f x y) (\<lambda>z. Inr (Inr (mk z)))))"

definition f_arith :: "('f, 'd) fp_host \<Rightarrow> arith \<Rightarrow> ('f, 'd) eval_value \<Rightarrow> ('f, 'd) eval_value \<Rightarrow> ('f, 'd) ev" where
  "f_arith h op v1 v2 =
     (if val_type v1 = et_symbol \<or> val_type v2 = et_symbol then Inr (Inl ERR_BADEXPR)
      else cbind (result_type (val_type v1) (val_type v2)) (\<lambda>et. case et of
          et_double \<Rightarrow> in_type (eval_as_double h v1) (eval_as_double h v2) (\<lambda>x y. Inr (arith_d h op x y)) V_double
        | et_float \<Rightarrow> in_type (eval_as_float h v1) (eval_as_float h v2) (\<lambda>x y. Inr (arith_f h op x y)) V_float
        | et_qword \<Rightarrow> in_type (eval_as_qword h v1) (eval_as_qword h v2) (arith_w op) V_qword
        | et_sqword \<Rightarrow> in_type (eval_as_sqword h v1) (eval_as_sqword h v2) (arith_s op) V_sqword
        | et_addr \<Rightarrow> in_type (eval_as_addr h v1) (eval_as_addr h v2) (arith_w op) V_addr
        | et_uint \<Rightarrow> in_type (eval_as_uint h v1) (eval_as_uint h v2) (arith_w op) V_uint
        | et_int \<Rightarrow> in_type (eval_as_int h v1) (eval_as_int h v2) (arith_s op) V_int
        | et_symbol \<Rightarrow> Inl (Panic ''bogus expression type'')))"

definition f_add :: "('f, 'd) fp_host \<Rightarrow> ('f, 'd) eval_value \<Rightarrow> ('f, 'd) eval_value \<Rightarrow> ('f, 'd) ev" where
  "f_add h = f_arith h Add"
definition f_sub :: "('f, 'd) fp_host \<Rightarrow> ('f, 'd) eval_value \<Rightarrow> ('f, 'd) eval_value \<Rightarrow> ('f, 'd) ev" where
  "f_sub h = f_arith h Sub"
definition f_mult :: "('f, 'd) fp_host \<Rightarrow> ('f, 'd) eval_value \<Rightarrow> ('f, 'd) eval_value \<Rightarrow> ('f, 'd) ev" where
  "f_mult h = f_arith h Mult"
definition f_div :: "('f, 'd) fp_host \<Rightarrow> ('f, 'd) eval_value \<Rightarrow> ('f, 'd) eval_value \<Rightarrow> ('f, 'd) ev" where
  "f_div h = f_arith h Div"

fun f_neg :: "('f, 'd) fp_host \<Rightarrow> ('f, 'd) eval_value \<Rightarrow> eval_err + ('f, 'd) eval_value" where
  "f_neg h (V_double x) = Inr (V_double (d_neg h x))"
| "f_neg h (V_float x) = Inr (V_float (f_negf h x))"
| "f_neg h (V_qword x) = Inr (V_sqword (- x))"
| "f_neg h (V_sqword x) = Inr (V_sqword (- x))"
| "f_neg h (V_addr x) = Inr (V_addr (- x))"
| "f_neg h (V_uint x) =
     (if x > 0x80000000 then Inr (V_sqword (- ucast x)) else Inr (V_int (- x)))"
| "f_neg h (V_int x) = (if x = 0x80000000 then Inr (V_uint 0x80000000) else Inr (V_int (- x)))"
| "f_neg h (V_symbol x) = Inl ERR_BADEXPR"

fun f_eq_zero :: "('f, 'd) fp_host \<Rightarrow> ('f, 'd) eval_value \<Rightarrow> eval_err + bool" where
  "f_eq_zero h (V_double x) = Inr (d_zero h x)"
| "f_eq_zero h (V_float x) = Inr (f_zero h x)"
| "f_eq_zero h (V_qword x) = Inr (x = 0)"
| "f_eq_zero h (V_sqword x) = Inr (x = 0)"
| "f_eq_zero h (V_addr x) = Inr (x = 0)"
| "f_eq_zero h (V_uint x) = Inr (x = 0)"
| "f_eq_zero h (V_int x) = Inr (x = 0)"
| "f_eq_zero h (V_symbol x) = Inl ERR_BADEXPR"

subsection \<open>The tokenizer\<close>

datatype eval_token =
    tok_ident | tok_const | tok_plus | tok_minus | tok_mult | tok_div | tok_oparen | tok_cparen
  | tok_eof | tok_whitespace | tok_invalid

text \<open>
  \<open>init_tok_map\<close>. The table has 256 entries and is indexed by a \<open>char\<close>, which is negative
  from 128 on (\<open>char\<close> is signed on the host).
\<close>

definition tok_map :: "nat \<Rightarrow> eval_token" where
  "tok_map c =
     (if between 97 122 c \<or> between 65 90 c \<or> c = 95 \<or> c = 36 then tok_ident
      else if between 48 57 c \<or> c = 46 then tok_const
      else if c = 43 then tok_plus
      else if c = 45 then tok_minus
      else if c = 42 then tok_mult
      else if c = 47 then tok_div
      else if c = 40 then tok_oparen
      else if c = 41 then tok_cparen
      else if c = 32 \<or> c = 9 then tok_whitespace
      else tok_invalid)"

definition tok_of :: "char \<Rightarrow> eval_token cres" where
  "tok_of c = (if 128 \<le> chr c then Inl OutOfBounds else Inr (tok_map (chr c)))"

record eval_state =
  es_p :: string
  lastp :: string
  tok_buf :: string
  peek_tok :: eval_token
  eval_error :: eval_err

fun skip_ws :: "string \<Rightarrow> string cres" where
  "skip_ws [] = Inr []"
| "skip_ws (c # s) = cbind (tok_of c) (\<lambda>t. if t = tok_whitespace then skip_ws s else Inr (c # s))"

text \<open>Both scans return the characters they copied and the rest.\<close>

fun scan_ident :: "string \<Rightarrow> (string \<times> string) cres" where
  "scan_ident [] = Inr ([], [])"
| "scan_ident (c # s) =
     cbind (tok_of c) (\<lambda>t.
     if t = tok_ident \<or> t = tok_const
     then cbind (scan_ident s) (\<lambda>(b, r). Inr (c # b, r)) else Inr ([], c # s))"

definition in_number :: "eval_token \<Rightarrow> char \<Rightarrow> nat \<Rightarrow> bool \<Rightarrow> bool" where
  "in_number t c prev hex \<longleftrightarrow>
     t = tok_const \<or> chr c = 45 \<and> prev = 101 \<or> chr c = 43 \<and> prev = 101
     \<or> chr (tolower c) = 101 \<or> chr (tolower c) = 120 \<or> between 97 102 (chr (tolower c)) \<and> hex"

fun scan_const :: "string \<Rightarrow> nat \<Rightarrow> bool \<Rightarrow> (string \<times> string) cres" where
  "scan_const [] prev hex = Inr ([], [])"
| "scan_const (c # s) prev hex =
     cbind (tok_of c) (\<lambda>t.
     if in_number t c prev hex
     then cbind (scan_const s (chr (tolower c)) (hex \<or> chr (tolower c) = 120)) (\<lambda>(b, r). Inr (c # b, r))
     else Inr ([], c # s))"

text \<open>\<open>tok_buf\<close> holds 511 characters and the NUL.\<close>

definition TOK_BUF :: nat where "TOK_BUF = 512"

definition lex :: "string \<Rightarrow> (eval_token \<times> string \<times> string) cres" where
  "lex p =
     cbind (skip_ws p) (\<lambda>q.
     case q of
       [] \<Rightarrow> Inr (tok_eof, [], [])
     | c # s \<Rightarrow>
         cbind (tok_of c) (\<lambda>tok.
         cbind (if tok = tok_ident then scan_ident s
                else if tok = tok_const then scan_const s 0 False else Inr ([], s)) (\<lambda>(b, r).
         if TOK_BUF \<le> length (c # b) then Inl OutOfBounds
         else Inr (if tok \<in> {tok_ident, tok_const, tok_plus, tok_minus, tok_mult, tok_div, tok_oparen, tok_cparen}
                   then tok else tok_invalid, c # b, r))))"

definition get_next_token :: "eval_state \<Rightarrow> (eval_token \<times> eval_state) cres" where
  "get_next_token es =
     (if peek_tok es \<noteq> tok_invalid then Inr (peek_tok es, es\<lparr>peek_tok := tok_invalid\<rparr>)
      else cbind (lex (es_p es)) (\<lambda>(tok, b, r). Inr (tok, es\<lparr>es_p := r, tok_buf := b\<rparr>)))"

definition peek_next_token :: "eval_state \<Rightarrow> (eval_token \<times> eval_state) cres" where
  "peek_next_token es =
     (if peek_tok es = tok_invalid
      then cbind (get_next_token (es\<lparr>lastp := es_p es\<rparr>)) (\<lambda>(tok, es1). Inr (tok, es1\<lparr>peek_tok := tok\<rparr>))
      else Inr (peek_tok es, es))"

subsection \<open>Literals\<close>

text \<open>\<open>long\<close> is 64 bits wide on the host, so \<open>int_val\<close> and \<open>uint_val\<close> keep the low half.\<close>

definition constant_val :: "('f, 'd) fp_host \<Rightarrow> string \<Rightarrow> ('f, 'd) ev" where
  "constant_val h buf =
     (let l = strtol buf; ul = strtoul buf
      in if \<not> fst (snd l) \<and> snd (snd l) = [] then Inr (Inr (V_int (word_of_int (fst l))))
         else if \<not> fst (snd ul) \<and> snd (snd ul) = [] then Inr (Inr (V_uint (word_of_int (fst ul))))
         else cbind (myatosq buf 0) (\<lambda>sq.
              if \<not> fst (snd sq) \<and> snd (snd sq) = [] then Inr (Inr (V_sqword (fst sq)))
         else cbind (myatoq buf 0) (\<lambda>q.
              if \<not> fst (snd q) \<and> snd (snd q) = [] then Inr (Inr (V_qword (fst q)))
         else let d = strtod h buf
              in if \<not> fst (snd d) \<and> snd (snd d) = [] then Inr (Inr (V_double (fst d)))
                 else Inr (Inl ERR_BADCONST))))"

subsection \<open>Recursive descent\<close>

type_synonym ('f, 'd) parse = "(('f, 'd) eval_value \<times> eval_state) cres"

text \<open>
  \<open>throw\<close> leaves an error and \<open>settle\<close> takes the outcome of an operation; \<open>after\<close> and \<open>check\<close>
  are the tests of \<open>eval_error\<close> that follow a call.
\<close>

definition throw :: "eval_err \<Rightarrow> eval_state \<Rightarrow> ('f, 'd) parse" where
  "throw e es = Inr (err_value, es\<lparr>eval_error := e\<rparr>)"

definition settle :: "('f, 'd) ev \<Rightarrow> eval_state \<Rightarrow> ('f, 'd) parse" where
  "settle r es = cbind r (\<lambda>x. case x of Inl e \<Rightarrow> throw e es | Inr v \<Rightarrow> Inr (v, es))"

definition after :: "('f, 'd) parse \<Rightarrow> (('f, 'd) eval_value \<Rightarrow> eval_state \<Rightarrow> ('f, 'd) parse) \<Rightarrow> ('f, 'd) parse" where
  "after m k = cbind m (\<lambda>(v, es). if eval_error es \<noteq> ERR_NOERR then Inr (err_value, es) else k v es)"

definition check :: "('f, 'd) parse \<Rightarrow> ('f, 'd) parse" where
  "check m = after m (\<lambda>v es. Inr (v, es))"

record ('f, 'd) evaluator =
  f_eval_ident :: "string \<Rightarrow> eval_err + ('f, 'd) eval_value"
  fp :: "('f, 'd) fp_host"

fun expr :: "nat \<Rightarrow> ('f, 'd) evaluator \<Rightarrow> eval_state \<Rightarrow> ('f, 'd) parse"
  and eterm :: "nat \<Rightarrow> ('f, 'd) evaluator \<Rightarrow> eval_state \<Rightarrow> ('f, 'd) parse"
  and factor :: "nat \<Rightarrow> ('f, 'd) evaluator \<Rightarrow> eval_state \<Rightarrow> ('f, 'd) parse"
where
  "expr 0 ev es = Inl Diverge"
| "expr (Suc n) ev es =
     after (eterm n ev es) (\<lambda>v es1.
     cbind (peek_next_token es1) (\<lambda>(tok, es2).
     if tok = tok_plus then
       cbind (get_next_token es2) (\<lambda>(_, es3).
       cbind (expr n ev es3) (\<lambda>(v1, es4). check (settle (f_add (fp ev) v v1) es4)))
     else if tok = tok_minus then
       cbind (get_next_token es2) (\<lambda>(_, es3).
       cbind (expr n ev es3) (\<lambda>(v1, es4). check (settle (f_sub (fp ev) v v1) es4)))
     else Inr (v, es2)))"
| "eterm 0 ev es = Inl Diverge"
| "eterm (Suc n) ev es =
     after (factor n ev es) (\<lambda>v es1.
     cbind (peek_next_token es1) (\<lambda>(tok, es2).
     if tok = tok_mult then
       cbind (get_next_token es2) (\<lambda>(_, es3).
       cbind (eterm n ev es3) (\<lambda>(v1, es4). check (settle (f_mult (fp ev) v v1) es4)))
     else if tok = tok_div then
       cbind (get_next_token es2) (\<lambda>(_, es3).
       after (eterm n ev es3) (\<lambda>v1 es4.
         case f_eq_zero (fp ev) v1 of
           Inl e \<Rightarrow> settle (f_div (fp ev) v v1) (es4\<lparr>eval_error := e\<rparr>)
         | Inr z \<Rightarrow> if z then throw ERR_DIV0 es4 else settle (f_div (fp ev) v v1) es4))
     else Inr (v, es2)))"
| "factor 0 ev es = Inl Diverge"
| "factor (Suc n) ev es =
     cbind (peek_next_token es) (\<lambda>(tok, es1).
     if tok = tok_oparen then
       cbind (get_next_token es1) (\<lambda>(_, es2).
       after (expr n ev es2) (\<lambda>v es3.
       cbind (peek_next_token es3) (\<lambda>(tok2, es4).
       if tok2 \<noteq> tok_cparen then throw ERR_UPAREN es4
       else cbind (get_next_token es4) (\<lambda>(_, es5). Inr (v, es5)))))
     else if tok = tok_minus then
       cbind (get_next_token es1) (\<lambda>(_, es2).
       after (factor n ev es2) (\<lambda>v es3. settle (Inr (f_neg (fp ev) v)) es3))
     else if tok = tok_ident then
       cbind (get_next_token es1) (\<lambda>(_, es2). settle (Inr (f_eval_ident ev (tok_buf es2))) es2)
     else if tok = tok_const then
       cbind (get_next_token es1) (\<lambda>(_, es2). settle (constant_val (fp ev) (tok_buf es2)) es2)
     else throw ERR_NOTERM es1)"

definition start :: "string \<Rightarrow> eval_state" where
  "start p = \<lparr>es_p = p, lastp = p, tok_buf = [], peek_tok = tok_invalid, eval_error = ERR_NOERR\<rparr>"

text \<open>Value, \<open>eval_error\<close> and \<open>*endp\<close>. The depth of the descent is at most three calls a token.\<close>

definition eval_fuel :: "string \<Rightarrow> nat" where "eval_fuel p = 6 * length p + 3"

definition eval_expr :: "('f, 'd) evaluator \<Rightarrow> string \<Rightarrow> (('f, 'd) eval_value \<times> eval_err \<times> string) cres" where
  "eval_expr ev p =
     cbind (expr (eval_fuel p) ev (start p)) (\<lambda>(v, es).
     Inr (v, eval_error es, if peek_tok es \<noteq> tok_invalid then lastp es else es_p es))"

end
