(* ===== verification/EvalCorrect.thy ===== *)
theory EvalCorrect
  imports Eval
begin

text \<open>
  The evaluator against its grammar: it always ends, and on the text of an expression of the
  grammar it returns the expression's value or its error.
\<close>

subsection \<open>It ends\<close>

definition ends :: "'a cres \<Rightarrow> ('a \<Rightarrow> bool) \<Rightarrow> bool" where
  "ends m P \<longleftrightarrow> (case m of Inl e \<Rightarrow> e \<noteq> Diverge | Inr x \<Rightarrow> P x)"

lemma ends_simps [simp]: "ends (Inl e) P \<longleftrightarrow> e \<noteq> Diverge" "ends (Inr x) P \<longleftrightarrow> P x"
  by (simp_all add: ends_def)

lemma ends_cbind: "ends m P \<Longrightarrow> (\<And>x. P x \<Longrightarrow> ends (f x) Q) \<Longrightarrow> ends (cbind m f) Q"
  by (cases m) auto

lemma ends_mono: "ends m P \<Longrightarrow> (\<And>x. P x \<Longrightarrow> Q x) \<Longrightarrow> ends m Q"
  by (cases m) auto

lemma ends_after:
  "ends m (\<lambda>(v, es). P v es) \<Longrightarrow> (\<And>v es. P v es \<Longrightarrow> ends (k v es) Q)
    \<Longrightarrow> (\<And>v es. P v es \<Longrightarrow> Q (err_value, es)) \<Longrightarrow> ends (after m k) Q"
  unfolding after_def by (erule ends_cbind) auto

lemma tok_of_ends: "ends (tok_of c) (\<lambda>t. True)"
  by (simp add: tok_of_def)

lemma skip_ws_ends: "ends (skip_ws p) (\<lambda>q. length q \<le> length p)"
  by (induction p) (auto intro!: ends_cbind [OF tok_of_ends] elim!: ends_mono)

lemma scan_ident_ends: "ends (scan_ident p) (\<lambda>(b, r). length r \<le> length p)"
  by (induction p) (auto intro!: ends_cbind [OF tok_of_ends] ends_cbind)

lemma scan_const_ends: "ends (scan_const p l x) (\<lambda>(b, r). length r \<le> length p)"
proof (induction p arbitrary: l x)
  case (Cons c p)
  show ?case
    by (auto intro!: ends_cbind [OF tok_of_ends] ends_cbind [OF Cons.IH])
qed simp

lemma lex_ends: "ends (lex p) (\<lambda>(t, b, r). length r \<le> length p
    \<and> t \<noteq> tok_whitespace \<and> (t \<noteq> tok_eof \<longrightarrow> length r < length p))"
  unfolding lex_def
proof (rule ends_cbind [OF skip_ws_ends])
  fix q :: string assume q: "length q \<le> length p"
  show "ends (case q of [] \<Rightarrow> Inr (tok_eof, [], []) | c # s \<Rightarrow>
      cbind (tok_of c) (\<lambda>tok.
        cbind (if tok = tok_ident then scan_ident s
               else if tok = tok_const then scan_const s 0 False else Inr ([], s)) (\<lambda>(b, r).
        if TOK_BUF \<le> length (c # b) then Inl OutOfBounds
        else Inr (if tok \<in> {tok_ident, tok_const, tok_plus, tok_minus, tok_mult, tok_div, tok_oparen, tok_cparen}
                  then tok else tok_invalid, c # b, r))))
    (\<lambda>(t, b, r). length r \<le> length p \<and> t \<noteq> tok_whitespace \<and> (t \<noteq> tok_eof \<longrightarrow> length r < length p))"
  proof (cases q)
    case (Cons c s)
    have scan: "ends (if tok = tok_ident then scan_ident s
        else if tok = tok_const then scan_const s 0 False else Inr ([], s)) (\<lambda>(b, r). length r \<le> length s)" for tok
      using scan_ident_ends scan_const_ends by simp
    show ?thesis unfolding Cons list.case using q Cons
      by (intro ends_cbind [OF tok_of_ends] ends_cbind [OF scan]) auto
  qed (use q in simp)
qed

text \<open>What is left to read: two for a character, one for a token looked ahead at.\<close>

definition left :: "eval_state \<Rightarrow> nat" where
  "left es = 2 * length (es_p es) + (if peek_tok es \<in> {tok_invalid, tok_eof} then 0 else 1)"

lemma get_next_token_ends:
  "ends (get_next_token es) (\<lambda>(t, es'). left es' \<le> left es
    \<and> (t \<noteq> tok_eof \<longrightarrow> left es' < left es) \<and> (peek_tok es \<noteq> tok_invalid \<longrightarrow> t = peek_tok es) )"
proof (cases "peek_tok es = tok_invalid")
  case True
  then show ?thesis unfolding get_next_token_def left_def
    by simp (rule ends_cbind [OF lex_ends], auto)
qed (auto simp: get_next_token_def left_def)

lemma peek_next_token_ends:
  "ends (peek_next_token es) (\<lambda>(t, es'). left es' \<le> left es \<and> peek_tok es' = t)"
proof (cases "peek_tok es = tok_invalid")
  case True
  then show ?thesis unfolding peek_next_token_def get_next_token_def left_def
    by (simp add: cbind_assoc) (rule ends_cbind [OF lex_ends], auto)
qed (auto simp: peek_next_token_def)

text \<open>Looking ahead at a token and consuming it.\<close>

lemma peeked_get_ends:
  assumes "\<And>t es1. left es1 \<le> left es \<Longrightarrow> peek_tok es1 = t \<Longrightarrow> ends (k t es1) P"
  shows "ends (cbind (peek_next_token es) (\<lambda>(t, es1). k t es1)) P"
  by (rule ends_cbind [OF peek_next_token_ends]) (use assms in auto)

lemma get_ends:
  assumes "peek_tok es \<noteq> tok_invalid" "peek_tok es \<noteq> tok_eof"
    and "\<And>t es1. left es1 < left es \<Longrightarrow> ends (k t es1) P"
  shows "ends (cbind (get_next_token es) (\<lambda>(t, es1). k t es1)) P"
  by (rule ends_cbind [OF get_next_token_ends]) (use assms in auto)

lemma left_error [simp]: "left (es\<lparr>eval_error := e\<rparr>) = left es"
  by (simp add: left_def)

lemma throw_ends [simp]: "ends (throw e es) (\<lambda>(v, es'). left es' \<le> n) \<longleftrightarrow> left es \<le> n"
  by (simp add: throw_def)

lemma settle_ends:
  "ends r (\<lambda>_. True) \<Longrightarrow> left es \<le> n \<Longrightarrow> ends (settle r es) (\<lambda>(v, es'). left es' \<le> n)"
  unfolding settle_def by (erule ends_cbind) (auto split: sum.split)

lemma check_ends:
  "ends m (\<lambda>(v, es'). left es' \<le> n) \<Longrightarrow> ends (check m) (\<lambda>(v, es'). left es' \<le> n)"
  unfolding check_def by (erule ends_after) auto

lemma arith_ends: "ends (arith_w op a b) (\<lambda>_. True)" "ends (arith_s op a b) (\<lambda>_. True)"
  by (cases op; simp add: sdiv_at_def)+

lemma conv_ends:
  "ends (eval_as_double h v) (\<lambda>_. True)" "ends (eval_as_float h v) (\<lambda>_. True)"
  "ends (eval_as_qword h v) (\<lambda>_. True)" "ends (eval_as_sqword h v) (\<lambda>_. True)"
  "ends (eval_as_addr h v) (\<lambda>_. True)" "ends (eval_as_uint h v) (\<lambda>_. True)"
  "ends (eval_as_int h v) (\<lambda>_. True)"
  by (cases v; simp add: eval_as_sqword_def eval_as_addr_def eval_as_int_def)+

lemma in_type_ends:
  "ends a (\<lambda>_. True) \<Longrightarrow> ends b (\<lambda>_. True) \<Longrightarrow> (\<And>x y. ends (f x y) (\<lambda>_. True))
    \<Longrightarrow> ends (in_type a b f mk) (\<lambda>_. True)"
  unfolding in_type_def by (rule ends_cbind, assumption)+ simp

lemma f_arith_ends: "ends (f_arith h op v1 v2) (\<lambda>_. True)"
  unfolding f_arith_def
  by (auto intro!: in_type_ends conv_ends arith_ends split: eval_type.split)

lemmas f_ops_def = f_add_def f_sub_def f_mult_def f_div_def

lemma atoq_base_ends: "ends (atoq_base s b) (\<lambda>_. True)"
  by (simp add: atoq_base_def Let_def)

lemma myatosq_ends: "ends (myatosq s b) (\<lambda>_. True)" "ends (myatoq s b) (\<lambda>_. True)"
  unfolding myatosq_def myatoq_def Let_def
  by (auto intro!: ends_cbind [OF atoq_base_ends] split: prod.split)

lemma constant_ends: "ends (constant_val h b) (\<lambda>_. True)"
  unfolding constant_val_def Let_def
  by (simp only: split: if_split) (auto intro!: ends_cbind [OF myatosq_ends(1)] ends_cbind [OF myatosq_ends(2)])

text \<open>The bound each of the three routines needs, and that it holds \<open>n\<close> calls deep.\<close>

definition parse_fuel :: "nat \<Rightarrow> ('f, 'd) evaluator \<Rightarrow> bool" where
  "parse_fuel n ev \<longleftrightarrow> (\<forall>es.
     (3 * left es + 3 \<le> n \<longrightarrow> ends (expr n ev es) (\<lambda>(v, es'). left es' \<le> left es))
     \<and> (3 * left es + 2 \<le> n \<longrightarrow> ends (eterm n ev es) (\<lambda>(v, es'). left es' \<le> left es))
     \<and> (3 * left es + 1 \<le> n \<longrightarrow> ends (factor n ev es) (\<lambda>(v, es'). left es' \<le> left es)))"

lemma parse_fuelD:
  assumes "parse_fuel n ev" "left es \<le> m"
  shows "3 * left es + 3 \<le> n \<Longrightarrow> ends (expr n ev es) (\<lambda>(v, es'). left es' \<le> m)"
    "3 * left es + 2 \<le> n \<Longrightarrow> ends (eterm n ev es) (\<lambda>(v, es'). left es' \<le> m)"
    "3 * left es + 1 \<le> n \<Longrightarrow> ends (factor n ev es) (\<lambda>(v, es'). left es' \<le> m)"
  using assms by (auto simp: parse_fuel_def elim!: ends_mono)

lemmas settles = settle_ends [OF f_arith_ends] settle_ends [OF constant_ends]

lemma expr_ends:
  assumes f: "parse_fuel n ev" and b: "3 * left es + 3 \<le> Suc n"
  shows "ends (expr (Suc n) ev es) (\<lambda>(v, es'). left es' \<le> left es)"
proof -
  have "ends (eterm n ev es) (\<lambda>(v, es'). left es' \<le> left es)" by (rule parse_fuelD [OF f]) (use b in auto)
  then show ?thesis unfolding expr.simps
  proof (rule ends_after)
    fix v es1 assume es1: "left es1 \<le> left es"
    have op: "ends (cbind (get_next_token es2) (\<lambda>(_, es3).
        cbind (expr n ev es3) (\<lambda>(v1, es4). check (settle (f_arith h op v v1) es4))))
        (\<lambda>(v, es'). left es' \<le> left es)" if "left es2 \<le> left es" "peek_tok es2 \<notin> {tok_invalid, tok_eof}" for es2 h op
      using that b by (intro get_ends ends_cbind [OF parse_fuelD(1) [OF f, of _ "left es"]]) (auto intro!: check_ends settles)
    show "ends (cbind (peek_next_token es1) (\<lambda>(tok, es2).
        if tok = tok_plus then
          cbind (get_next_token es2) (\<lambda>(_, es3).
          cbind (expr n ev es3) (\<lambda>(v1, es4). check (settle (f_add (fp ev) v v1) es4)))
        else if tok = tok_minus then
          cbind (get_next_token es2) (\<lambda>(_, es3).
          cbind (expr n ev es3) (\<lambda>(v1, es4). check (settle (f_sub (fp ev) v v1) es4)))
        else Inr (v, es2))) (\<lambda>(v, es'). left es' \<le> left es)"
      using es1 by (intro peeked_get_ends) (auto simp: f_ops_def intro!: op)
  qed simp
qed

lemma eterm_ends:
  assumes f: "parse_fuel n ev" and b: "3 * left es + 2 \<le> Suc n"
  shows "ends (eterm (Suc n) ev es) (\<lambda>(v, es'). left es' \<le> left es)"
proof -
  have "ends (factor n ev es) (\<lambda>(v, es'). left es' \<le> left es)" by (rule parse_fuelD [OF f]) (use b in auto)
  then show ?thesis unfolding eterm.simps
  proof (rule ends_after)
    fix v es1 assume es1: "left es1 \<le> left es"
    have mult: "ends (cbind (get_next_token es2) (\<lambda>(_, es3).
        cbind (eterm n ev es3) (\<lambda>(v1, es4). check (settle (f_mult (fp ev) v v1) es4))))
        (\<lambda>(v, es'). left es' \<le> left es)" if "left es2 \<le> left es" "peek_tok es2 = tok_mult" for es2
      using that b by (intro get_ends ends_cbind [OF parse_fuelD(2) [OF f, of _ "left es"]]) (auto simp: f_ops_def intro!: check_ends settles)
    have quot: "ends (cbind (get_next_token es2) (\<lambda>(_, es3).
        after (eterm n ev es3) (\<lambda>v1 es4.
          case f_eq_zero (fp ev) v1 of
            Inl e \<Rightarrow> settle (f_div (fp ev) v v1) (es4\<lparr>eval_error := e\<rparr>)
          | Inr z \<Rightarrow> if z then throw ERR_DIV0 es4 else settle (f_div (fp ev) v v1) es4)))
        (\<lambda>(v, es'). left es' \<le> left es)" if "left es2 \<le> left es" "peek_tok es2 = tok_div" for es2
      using that b by (intro get_ends ends_after [OF parse_fuelD(2) [OF f, of _ "left es"]])
        (auto simp: f_ops_def intro!: settles split: sum.split)
    show "ends (cbind (peek_next_token es1) (\<lambda>(tok, es2).
        if tok = tok_mult then
          cbind (get_next_token es2) (\<lambda>(_, es3).
          cbind (eterm n ev es3) (\<lambda>(v1, es4). check (settle (f_mult (fp ev) v v1) es4)))
        else if tok = tok_div then
          cbind (get_next_token es2) (\<lambda>(_, es3).
          after (eterm n ev es3) (\<lambda>v1 es4.
            case f_eq_zero (fp ev) v1 of
              Inl e \<Rightarrow> settle (f_div (fp ev) v v1) (es4\<lparr>eval_error := e\<rparr>)
            | Inr z \<Rightarrow> if z then throw ERR_DIV0 es4 else settle (f_div (fp ev) v v1) es4))
        else Inr (v, es2))) (\<lambda>(v, es'). left es' \<le> left es)"
      using es1 by (intro peeked_get_ends) (auto intro!: mult quot)
  qed simp
qed

lemma factor_ends:
  assumes f: "parse_fuel n ev" and b: "3 * left es + 1 \<le> Suc n"
  shows "ends (factor (Suc n) ev es) (\<lambda>(v, es'). left es' \<le> left es)"
proof -
  have paren: "ends (cbind (get_next_token es1) (\<lambda>(_, es2).
      after (expr n ev es2) (\<lambda>v es3.
      cbind (peek_next_token es3) (\<lambda>(tok2, es4).
      if tok2 \<noteq> tok_cparen then throw ERR_UPAREN es4
      else cbind (get_next_token es4) (\<lambda>(_, es5). Inr (v, es5))))))
      (\<lambda>(v, es'). left es' \<le> left es)" if "left es1 \<le> left es" "peek_tok es1 = tok_oparen" for es1
    using that b by (intro get_ends ends_after [OF parse_fuelD(1) [OF f, of _ "left es"]] peeked_get_ends)
      (auto intro!: get_ends)
  have neg: "ends (cbind (get_next_token es1) (\<lambda>(_, es2).
      after (factor n ev es2) (\<lambda>v es3. settle (Inr (f_neg (fp ev) v)) es3)))
      (\<lambda>(v, es'). left es' \<le> left es)" if "left es1 \<le> left es" "peek_tok es1 = tok_minus" for es1
  proof (rule get_ends)
    fix es2 assume "left es2 < left es1"
    then have "ends (factor n ev es2) (\<lambda>(v, es'). left es' \<le> left es)"
      by (intro parse_fuelD [OF f]) (use that b in auto)
    then show "ends (after (factor n ev es2) (\<lambda>v es3. settle (Inr (f_neg (fp ev) v)) es3))
        (\<lambda>(v, es'). left es' \<le> left es)"
      by (rule ends_after) (auto intro!: settle_ends)
  qed (use that in auto)
  have leaf: "ends (cbind (get_next_token es1) (\<lambda>(_, es2). settle (g es2) es2)) (\<lambda>(v, es'). left es' \<le> left es)"
    if "left es1 \<le> left es" "peek_tok es1 \<notin> {tok_invalid, tok_eof}" "\<And>es2. ends (g es2) (\<lambda>_. True)" for es1 g
    using that by (intro get_ends settle_ends) auto
  show ?thesis unfolding factor.simps
    by (intro peeked_get_ends) (auto intro!: paren neg leaf constant_ends)
qed

lemma parse_ends: "parse_fuel n ev"
proof (induction n)
  case 0
  then show ?case by (simp add: parse_fuel_def)
next
  case (Suc n)
  show ?case unfolding parse_fuel_def [of "Suc n"]
    by (intro allI conjI impI expr_ends [OF Suc] eterm_ends [OF Suc] factor_ends [OF Suc])
qed

subsection \<open>The grammar\<close>

text \<open>
  Expressions as the descent groups them: sums and products associate to the right. Their
  value is that of the operands, or the first error the evaluation meets.
\<close>

datatype expr_t = Term term_t | Plus term_t expr_t | Minus term_t expr_t
  and term_t = Factor factor_t | Times factor_t term_t | Over factor_t term_t
  and factor_t = Paren expr_t | Neg factor_t | Ident string | Num string

definition ebind :: "('f, 'd) ev \<Rightarrow> (('f, 'd) eval_value \<Rightarrow> ('f, 'd) ev) \<Rightarrow> ('f, 'd) ev" where
  "ebind m k = cbind m (\<lambda>r. case r of Inl e \<Rightarrow> Inr (Inl e) | Inr v \<Rightarrow> k v)"

text \<open>
  An operator is applied before the error of its right operand is looked at; only its own
  complaint about a symbol can then take the other error's place.
\<close>

definition eager :: "('f, 'd) ev \<Rightarrow> (('f, 'd) eval_value \<Rightarrow> ('f, 'd) ev) \<Rightarrow> ('f, 'd) ev" where
  "eager m k = cbind m (\<lambda>r. case r of
     Inl e \<Rightarrow> cbind (k err_value) (\<lambda>q. Inr (Inl (case q of Inl e' \<Rightarrow> e' | Inr _ \<Rightarrow> e)))
   | Inr v \<Rightarrow> k v)"

primrec sem_e :: "('f, 'd) evaluator \<Rightarrow> expr_t \<Rightarrow> ('f, 'd) ev"
  and sem_t :: "('f, 'd) evaluator \<Rightarrow> term_t \<Rightarrow> ('f, 'd) ev"
  and sem_f :: "('f, 'd) evaluator \<Rightarrow> factor_t \<Rightarrow> ('f, 'd) ev"
where
  "sem_e ev (Term t) = sem_t ev t"
| "sem_e ev (Plus t e) = ebind (sem_t ev t) (\<lambda>v. eager (sem_e ev e) (f_add (fp ev) v))"
| "sem_e ev (Minus t e) = ebind (sem_t ev t) (\<lambda>v. eager (sem_e ev e) (f_sub (fp ev) v))"
| "sem_t ev (Factor f) = sem_f ev f"
| "sem_t ev (Times f t) = ebind (sem_f ev f) (\<lambda>v. eager (sem_t ev t) (f_mult (fp ev) v))"
| "sem_t ev (Over f t) = ebind (sem_f ev f) (\<lambda>v. ebind (sem_t ev t) (\<lambda>v1.
     case f_eq_zero (fp ev) v1 of
       Inl e \<Rightarrow> Inr (Inl e)
     | Inr z \<Rightarrow> if z then Inr (Inl ERR_DIV0) else f_div (fp ev) v v1))"
| "sem_f ev (Paren e) = sem_e ev e"
| "sem_f ev (Neg f) = ebind (sem_f ev f) (\<lambda>v. Inr (f_neg (fp ev) v))"
| "sem_f ev (Ident s) = Inr (f_eval_ident ev s)"
| "sem_f ev (Num s) = constant_val (fp ev) s"

type_synonym tok_text = "eval_token \<times> string"

primrec toks_e :: "expr_t \<Rightarrow> tok_text list"
  and toks_t :: "term_t \<Rightarrow> tok_text list"
  and toks_f :: "factor_t \<Rightarrow> tok_text list"
where
  "toks_e (Term t) = toks_t t"
| "toks_e (Plus t e) = toks_t t @ (tok_plus, ''+'') # toks_e e"
| "toks_e (Minus t e) = toks_t t @ (tok_minus, ''-'') # toks_e e"
| "toks_t (Factor f) = toks_f f"
| "toks_t (Times f t) = toks_f f @ (tok_mult, ''*'') # toks_t t"
| "toks_t (Over f t) = toks_f f @ (tok_div, ''/'') # toks_t t"
| "toks_f (Paren e) = (tok_oparen, ''('') # toks_e e @ [(tok_cparen, '')'')]"
| "toks_f (Neg f) = (tok_minus, ''-'') # toks_f f"
| "toks_f (Ident s) = [(tok_ident, s)]"
| "toks_f (Num s) = [(tok_const, s)]"

text \<open>The text of an expression: its tokens, each followed by a space.\<close>

definition text_of :: "expr_t \<Rightarrow> string" where
  "text_of e = concat (map (\<lambda>(t, b). b @ '' '') (toks_e e))"

text \<open>Identifiers and literals are what the tokenizer takes whole.\<close>

definition token_ok :: "tok_text \<Rightarrow> bool" where
  "token_ok tb \<longleftrightarrow> fst tb \<notin> {tok_eof, tok_invalid} \<and> (\<forall>rest. lex (snd tb @ '' '' @ rest) = Inr (fst tb, snd tb, '' '' @ rest))"

subsection \<open>The evaluator follows the grammar\<close>

definition tx :: "tok_text list \<Rightarrow> string" where "tx ts = concat (map (\<lambda>(t, b). b @ '' '') ts)"

fun next_of :: "tok_text list \<Rightarrow> eval_token" where
  "next_of [] = tok_eof"
| "next_of (tb # ts) = fst tb"

text \<open>The evaluator is about to read the tokens \<open>ts\<close>, the first of which it may have looked at.\<close>

definition at :: "eval_state \<Rightarrow> tok_text list \<Rightarrow> bool" where
  "at es ts \<longleftrightarrow> eval_error es = ERR_NOERR \<and> list_all token_ok ts
     \<and> (peek_tok es = tok_invalid \<and> (es_p es = tx ts \<or> es_p es = '' '' @ tx ts)
        \<or> peek_tok es = next_of ts
          \<and> (case ts of [] \<Rightarrow> True | tb # r \<Rightarrow> tok_buf es = snd tb \<and> es_p es = '' '' @ tx r))"

lemma lex_space: "lex ('' '' @ p) = lex p"
  by (simp add: lex_def tok_of_def tok_map_def chr_def between_def)

lemma lex_tx:
  "list_all token_ok ts \<Longrightarrow> lex (tx ts)
    = Inr (next_of ts, (case ts of [] \<Rightarrow> [] | tb # r \<Rightarrow> snd tb), (case ts of [] \<Rightarrow> [] | tb # r \<Rightarrow> '' '' @ tx r))"
  by (cases ts) (auto simp: tx_def token_ok_def lex_def)

lemma get_at:
  assumes "at es (tb # ts)"
  obtains es' where "get_next_token es = Inr (fst tb, es')" "at es' ts" "tok_buf es' = snd tb"
proof (cases "peek_tok es = tok_invalid")
  case True
  then have "es_p es = tx (tb # ts) \<or> es_p es = '' '' @ tx (tb # ts)" "list_all token_ok (tb # ts)"
    using assms by (auto simp: at_def token_ok_def)
  then have "lex (es_p es) = Inr (fst tb, snd tb, '' '' @ tx ts)"
    using lex_tx [of "tb # ts"] lex_space by auto
  then show ?thesis using True assms
    by (intro that [of "es\<lparr>es_p := '' '' @ tx ts, tok_buf := snd tb\<rparr>"])
      (auto simp: get_next_token_def at_def)
next
  case False
  then show ?thesis using assms
    by (intro that [of "es\<lparr>peek_tok := tok_invalid\<rparr>"]) (auto simp: get_next_token_def at_def)
qed

lemma peek_at:
  assumes "at es ts"
  obtains es' where "peek_next_token es = Inr (next_of ts, es')" "at es' ts"
proof (cases "peek_tok es = tok_invalid")
  case True
  then have "es_p es = tx ts \<or> es_p es = '' '' @ tx ts" "list_all token_ok ts"
    using assms by (auto simp: at_def token_ok_def split: list.splits)
  then have "lex (es_p es) = Inr (next_of ts, (case ts of [] \<Rightarrow> [] | tb # r \<Rightarrow> snd tb),
      (case ts of [] \<Rightarrow> [] | tb # r \<Rightarrow> '' '' @ tx r))"
    using lex_tx [of ts] lex_space by auto
  then show ?thesis using True assms
    by (intro that [of "es\<lparr>lastp := es_p es, es_p := (case ts of [] \<Rightarrow> [] | tb # r \<Rightarrow> '' '' @ tx r),
        tok_buf := (case ts of [] \<Rightarrow> [] | tb # r \<Rightarrow> snd tb), peek_tok := next_of ts\<rparr>"])
      (auto simp: peek_next_token_def get_next_token_def at_def split: list.splits)
next
  case False
  then show ?thesis using assms
    by (intro that [of es]) (auto simp: peek_next_token_def at_def)
qed

text \<open>A parse delivers an outcome: its value with the tokens \<open>ts\<close> still to read, or its error.\<close>

definition delivers :: "('f, 'd) parse \<Rightarrow> ('f, 'd) ev \<Rightarrow> tok_text list \<Rightarrow> bool" where
  "delivers m r ts \<longleftrightarrow> (case r of
     Inl c \<Rightarrow> m = Inl c
   | Inr (Inl e) \<Rightarrow> e \<noteq> ERR_NOERR \<and> (\<exists>es. m = Inr (err_value, es) \<and> eval_error es = e)
   | Inr (Inr v) \<Rightarrow> \<exists>es. m = Inr (v, es) \<and> at es ts)"

lemma at_noerr: "at es ts \<Longrightarrow> eval_error es = ERR_NOERR"
  by (simp add: at_def)

lemma delivers_after:
  assumes "delivers m r ts1" "\<And>v es. at es ts1 \<Longrightarrow> delivers (k v es) (R v) ts"
  shows "delivers (after m k) (ebind r R) ts"
proof (cases "\<exists>v. r = Inr (Inr v)")
  case True
  then obtain v es where "r = Inr (Inr v)" "m = Inr (v, es)" "at es ts1"
    using assms(1) by (auto simp: delivers_def)
  then show ?thesis using assms(2) by (simp add: after_def ebind_def at_noerr)
next
  case False
  then show ?thesis using assms(1) by (auto simp: delivers_def after_def ebind_def split: sum.splits)
qed

lemma delivers_peek:
  assumes "at es ts1" "\<And>es'. at es' ts1 \<Longrightarrow> delivers (k (next_of ts1) es') r ts"
  shows "delivers (cbind (peek_next_token es) (\<lambda>(t, es'). k t es')) r ts"
  by (rule peek_at [OF assms(1)]) (use assms(2) in simp)

lemma delivers_get:
  assumes "at es (tb # ts1)" "\<And>es'. at es' ts1 \<Longrightarrow> tok_buf es' = snd tb \<Longrightarrow> delivers (k (fst tb) es') r ts"
  shows "delivers (cbind (get_next_token es) (\<lambda>(t, es'). k t es')) r ts"
  by (rule get_at [OF assms(1)]) (use assms(2) in simp)

definition no_false_error :: "('f, 'd) ev \<Rightarrow> bool" where
  "no_false_error r \<longleftrightarrow> r \<noteq> Inr (Inl ERR_NOERR)"

lemma delivers_settle: "at es ts \<Longrightarrow> no_false_error r \<Longrightarrow> delivers (settle r es) r ts"
  by (auto simp: delivers_def settle_def throw_def no_false_error_def split: sum.splits)

lemma delivers_check: "delivers m r ts \<Longrightarrow> delivers (check m) r ts"
  by (cases "\<exists>v. r = Inr (Inr v)")
    (auto simp: delivers_def check_def after_def at_noerr split: sum.splits)

lemma delivers_eager:
  assumes "delivers m r ts" "\<And>v. no_false_error (F v)"
  shows "delivers (cbind m (\<lambda>(v1, es). check (settle (F v1) es))) (eager r F) ts"
proof (cases r)
  case (Inr x)
  show ?thesis
  proof (cases x)
    case (Inl e)
    then obtain es where es: "m = Inr (err_value, es)" "eval_error es = e" "e \<noteq> ERR_NOERR"
      using assms(1) Inr by (auto simp: delivers_def)
    show ?thesis
    proof (cases "F err_value")
      case F: (Inr q)
      then show ?thesis using es Inr Inl assms(2) [of err_value]
        by (cases q) (auto simp: delivers_def eager_def settle_def throw_def check_def after_def
            no_false_error_def)
    qed (use es Inr Inl in \<open>simp add: delivers_def eager_def settle_def check_def after_def\<close>)
  next
    case v: (Inr v)
    then obtain es where es: "m = Inr (v, es)" "at es ts" using assms(1) Inr by (auto simp: delivers_def)
    have "delivers (check (settle (F v) es)) (F v) ts"
      by (intro delivers_check delivers_settle es(2) assms(2))
    then show ?thesis using es Inr v by (simp add: eager_def)
  qed
qed (use assms(1) in \<open>simp add: delivers_def eager_def\<close>)

text \<open>A binary operator: left operand, operator, and the rest of the chain.\<close>

lemma delivers_binary:
  assumes "delivers m r (tb # ts1)" "\<And>es. at es ts1 \<Longrightarrow> delivers (rec es) rr ts"
    and "\<And>v v1. no_false_error (F v v1)"
    and "\<And>v es. K v (fst tb) es = cbind (get_next_token es) (\<lambda>(_, es3).
      cbind (rec es3) (\<lambda>(v1, es4). check (settle (F v v1) es4)))"
  shows "delivers (after m (\<lambda>v es1. cbind (peek_next_token es1) (\<lambda>(tok, es2). K v tok es2)))
    (ebind r (\<lambda>v. eager rr (F v))) ts"
proof (rule delivers_after [OF assms(1)], rule delivers_peek, assumption)
  fix v es' assume "at es' (tb # ts1)"
  then show "delivers (K v (next_of (tb # ts1)) es') (eager rr (F v)) ts"
    unfolding next_of.simps assms(4)
    by (rule delivers_get) (intro delivers_eager assms(2,3))
qed

lemma ebind_unit: "ebind r (\<lambda>v. Inr (Inr v)) = r"
  by (cases r) (auto simp: ebind_def split: sum.split)

text \<open>No operator follows.\<close>

lemma delivers_last:
  assumes "delivers m r ts" "\<And>v es. K v (next_of ts) es = Inr (v, es)"
  shows "delivers (after m (\<lambda>v es1. cbind (peek_next_token es1) (\<lambda>(tok, es2). K v tok es2))) r ts"
proof -
  have "delivers (after m (\<lambda>v es1. cbind (peek_next_token es1) (\<lambda>(tok, es2). K v tok es2)))
      (ebind r (\<lambda>v. Inr (Inr v))) ts"
    by (rule delivers_after [OF assms(1)], rule delivers_peek, assumption)
      (simp add: delivers_def assms(2))
  then show ?thesis by (simp only: ebind_unit)
qed

lemma f_arith_error: "no_false_error (f_arith h op v1 v2)"
  by (auto simp: no_false_error_def f_arith_def in_type_def cbind_Inr_iff split: eval_type.splits)

lemma leaf_errors: "no_false_error (Inr (f_neg h v))" "no_false_error (constant_val h b)"
  by (cases v; simp add: no_false_error_def)
    (auto simp: no_false_error_def constant_val_def Let_def cbind_Inr_iff split: if_splits)

lemma f_eq_zero_error: "f_eq_zero h v = Inl e \<Longrightarrow> e = ERR_BADEXPR \<and> f_div h v0 v = Inr (Inl ERR_BADEXPR)"
  by (cases v) (auto simp: f_div_def f_arith_def)

lemma delivers_quot:
  assumes "at es ts"
  shows "delivers (case f_eq_zero h v1 of
        Inl e \<Rightarrow> settle (f_div h v v1) (es\<lparr>eval_error := e\<rparr>)
      | Inr z \<Rightarrow> if z then throw ERR_DIV0 es else settle (f_div h v v1) es)
      (case f_eq_zero h v1 of Inl e \<Rightarrow> Inr (Inl e)
      | Inr z \<Rightarrow> if z then Inr (Inl ERR_DIV0) else f_div h v v1) ts"
proof (cases "f_eq_zero h v1")
  case (Inl e)
  then show ?thesis using f_eq_zero_error [OF Inl, of v]
    by (auto simp: settle_def throw_def delivers_def)
next
  case (Inr z)
  have "delivers (settle (f_div h v v1) es) (f_div h v v1) ts"
    by (rule delivers_settle [OF assms]) (simp add: f_div_def f_arith_error)
  then show ?thesis using Inr by (simp add: throw_def) (simp add: delivers_def)
qed

text \<open>The user's identifier evaluator sets \<open>eval_error\<close> when it fails.\<close>

definition honest :: "('f, 'd) evaluator \<Rightarrow> bool" where
  "honest ev \<longleftrightarrow> (\<forall>s. f_eval_ident ev s \<noteq> Inl ERR_NOERR)"

lemma toks_nonempty: "toks_e e \<noteq> []" "toks_t t \<noteq> []" "toks_f f \<noteq> []"
  by (induction e and t and f) auto

lemma token_length: "0 < length (toks_e e)" "0 < length (toks_t t)" "0 < length (toks_f f)"
  using toks_nonempty by auto

lemma descent:
  "honest ev \<Longrightarrow> at es (toks_e e @ ts) \<Longrightarrow> next_of ts \<notin> {tok_plus, tok_minus, tok_mult, tok_div}
    \<Longrightarrow> 3 * length (toks_e e) \<le> n \<Longrightarrow> delivers (expr n ev es) (sem_e ev e) ts"
  "honest ev \<Longrightarrow> at es (toks_t t @ ts) \<Longrightarrow> next_of ts \<notin> {tok_mult, tok_div}
    \<Longrightarrow> 3 * length (toks_t t) - 1 \<le> n \<Longrightarrow> delivers (eterm n ev es) (sem_t ev t) ts"
  "honest ev \<Longrightarrow> at es (toks_f f @ ts)
    \<Longrightarrow> 3 * length (toks_f f) - 2 \<le> n \<Longrightarrow> delivers (factor n ev es) (sem_f ev f) ts"
proof (induction e and t and f arbitrary: n es ts and n es ts and n es ts)
  case (Term t)
  then obtain k where n: "n = Suc k" using token_length(2) [of t] by (cases n) auto
  show ?case unfolding n expr.simps sem_e.simps
  proof (rule delivers_last)
    show "delivers (eterm k ev es) (sem_t ev t) ts"
      by (rule Term.IH) (use Term.prems n in auto)
  qed (use Term.prems(3) in auto)
next
  case (Plus t e)
  then obtain k where n: "n = Suc k" by (cases n) auto
  show ?case unfolding n expr.simps sem_e.simps
  proof (rule delivers_binary [where tb = "(tok_plus, ''+'')" and ?ts1.0 = "toks_e e @ ts"])
    show "delivers (eterm k ev es) (sem_t ev t) ((tok_plus, ''+'') # toks_e e @ ts)"
      by (rule Plus.IH(1)) (use Plus.prems n in auto)
    show "delivers (expr k ev es') (sem_e ev e) ts" if "at es' (toks_e e @ ts)" for es'
      by (rule Plus.IH(2)) (use Plus.prems n that in auto)
  qed (simp_all add: f_add_def f_arith_error)
next
  case (Minus t e)
  then obtain k where n: "n = Suc k" by (cases n) auto
  show ?case unfolding n expr.simps sem_e.simps
  proof (rule delivers_binary [where tb = "(tok_minus, ''-'')" and ?ts1.0 = "toks_e e @ ts"])
    show "delivers (eterm k ev es) (sem_t ev t) ((tok_minus, ''-'') # toks_e e @ ts)"
      by (rule Minus.IH(1)) (use Minus.prems n in auto)
    show "delivers (expr k ev es') (sem_e ev e) ts" if "at es' (toks_e e @ ts)" for es'
      by (rule Minus.IH(2)) (use Minus.prems n that in auto)
  qed (simp_all add: f_sub_def f_arith_error)
next
  case (Factor f)
  then obtain k where n: "n = Suc k" using token_length(3) [of f] by (cases n) auto
  show ?case unfolding n eterm.simps sem_t.simps
  proof (rule delivers_last)
    show "delivers (factor k ev es) (sem_f ev f) ts"
      by (rule Factor.IH) (use Factor.prems n in auto)
  qed (use Factor.prems(3) in auto)
next
  case (Times f t)
  then obtain k where n: "n = Suc k" by (cases n) auto
  show ?case unfolding n eterm.simps sem_t.simps
  proof (rule delivers_binary [where tb = "(tok_mult, ''*'')" and ?ts1.0 = "toks_t t @ ts"])
    show "delivers (factor k ev es) (sem_f ev f) ((tok_mult, ''*'') # toks_t t @ ts)"
      by (rule Times.IH(1)) (use Times.prems n in auto)
    show "delivers (eterm k ev es') (sem_t ev t) ts" if "at es' (toks_t t @ ts)" for es'
      by (rule Times.IH(2)) (use Times.prems n that in auto)
  qed (simp_all add: f_mult_def f_arith_error)
next
  case (Over f t)
  then obtain k where n: "n = Suc k" by (cases n) auto
  show ?case unfolding n eterm.simps sem_t.simps
  proof (rule delivers_after [where ?ts1.0 = "(tok_div, ''/'') # toks_t t @ ts"])
    show "delivers (factor k ev es) (sem_f ev f) ((tok_div, ''/'') # toks_t t @ ts)"
      by (rule Over.IH(1)) (use Over.prems n in auto)
  next
    fix v es1 assume es1: "at es1 ((tok_div, ''/'') # toks_t t @ ts)"
    have t: "delivers (eterm k ev es3) (sem_t ev t) ts" if "at es3 (toks_t t @ ts)" for es3
      by (rule Over.IH(2)) (use Over.prems n that in auto)
    show "delivers (cbind (peek_next_token es1) (\<lambda>(tok, es2).
        if tok = tok_mult then
          cbind (get_next_token es2) (\<lambda>(_, es3).
          cbind (eterm k ev es3) (\<lambda>(v1, es4). check (settle (f_mult (fp ev) v v1) es4)))
        else if tok = tok_div then
          cbind (get_next_token es2) (\<lambda>(_, es3).
          after (eterm k ev es3) (\<lambda>v1 es4.
            case f_eq_zero (fp ev) v1 of
              Inl e \<Rightarrow> settle (f_div (fp ev) v v1) (es4\<lparr>eval_error := e\<rparr>)
            | Inr z \<Rightarrow> if z then throw ERR_DIV0 es4 else settle (f_div (fp ev) v v1) es4))
        else Inr (v, es2)))
        (ebind (sem_t ev t) (\<lambda>v1. case f_eq_zero (fp ev) v1 of Inl e \<Rightarrow> Inr (Inl e)
          | Inr z \<Rightarrow> if z then Inr (Inl ERR_DIV0) else f_div (fp ev) v v1)) ts"
      by (rule delivers_peek [OF es1]) (simp, erule delivers_get, rule delivers_after [OF t], assumption, rule delivers_quot)
  qed
next
  case (Paren e)
  then obtain k where n: "n = Suc k" by (cases n) auto
  let ?close = "(tok_cparen, '')'') # ts"
  have e: "delivers (expr k ev es2) (sem_e ev e) ?close" if "at es2 (toks_e e @ ?close)" for es2
    by (rule Paren.IH) (use Paren.prems n that in auto)
  have close: "delivers (after (expr k ev es2) (\<lambda>v es3.
      cbind (peek_next_token es3) (\<lambda>(tok2, es4).
      if tok2 \<noteq> tok_cparen then throw ERR_UPAREN es4
      else cbind (get_next_token es4) (\<lambda>(_, es5). Inr (v, es5))))) (ebind (sem_e ev e) (\<lambda>v. Inr (Inr v))) ts"
    if "at es2 (toks_e e @ ?close)" for es2
    by (rule delivers_after [OF e [OF that]], rule delivers_peek, assumption, simp, erule delivers_get)
      (simp add: delivers_def)
  have "at es ((tok_oparen, ''('') # toks_e e @ ?close)" using Paren.prems(2) by simp
  then show ?case unfolding n factor.simps sem_f.simps
    by (rule delivers_peek) (simp, erule delivers_get, rule close [unfolded ebind_unit])
next
  case (Neg f)
  then obtain k where n: "n = Suc k" by (cases n) auto
  have f: "delivers (factor k ev es2) (sem_f ev f) ts" if "at es2 (toks_f f @ ts)" for es2
    by (rule Neg.IH) (use Neg.prems n that in auto)
  have neg: "delivers (after (factor k ev es2) (\<lambda>v es3. settle (Inr (f_neg (fp ev) v)) es3))
      (ebind (sem_f ev f) (\<lambda>v. Inr (f_neg (fp ev) v))) ts" if "at es2 (toks_f f @ ts)" for es2
    by (rule delivers_after [OF f [OF that]]) (intro delivers_settle leaf_errors)
  have "at es ((tok_minus, ''-'') # toks_f f @ ts)" using Neg.prems(2) by simp
  then show ?case unfolding n factor.simps sem_f.simps
    by (rule delivers_peek) (simp, erule delivers_get, rule neg)
next
  case (Ident x)
  then obtain k where n: "n = Suc k" by (cases n) auto
  have "at es ((tok_ident, x) # ts)" using Ident.prems(2) by simp
  then show ?case unfolding n factor.simps sem_f.simps
    by (rule delivers_peek) (simp, erule delivers_get,
      use Ident.prems(1) in \<open>auto simp: honest_def no_false_error_def intro!: delivers_settle\<close>)
next
  case (Num x)
  then obtain k where n: "n = Suc k" by (cases n) auto
  have "at es ((tok_const, x) # ts)" using Num.prems(2) by simp
  then show ?case unfolding n factor.simps sem_f.simps
    by (rule delivers_peek) (simp, erule delivers_get, auto intro!: delivers_settle leaf_errors)
qed

lemma length_tx: "list_all token_ok ts \<Longrightarrow> length ts \<le> length (tx ts)"
  by (induction ts) (auto simp: tx_def)

lemma eval_expr_delivers:
  assumes "honest ev" "list_all token_ok (toks_e e)"
  shows "delivers (expr (eval_fuel (text_of e)) ev (start (text_of e))) (sem_e ev e) []"
proof (rule descent(1) [OF assms(1)])
  have "text_of e = tx (toks_e e)" by (simp add: text_of_def tx_def)
  then show "at (start (text_of e)) (toks_e e @ [])" using assms(2) by (simp add: at_def start_def)
  show "3 * length (toks_e e) \<le> eval_fuel (text_of e)"
    using length_tx [OF assms(2)] \<open>text_of e = _\<close> by (simp add: eval_fuel_def)
qed simp

subsection \<open>Types\<close>

text \<open>The usual arithmetic conversions: operands meet at the higher rank.\<close>

fun rank :: "eval_type \<Rightarrow> nat" where
  "rank et_int = 0" | "rank et_uint = 1" | "rank et_addr = 2" | "rank et_sqword = 3"
| "rank et_qword = 4" | "rank et_float = 5" | "rank et_double = 6" | "rank et_symbol = 7"

text \<open>An outcome of the right type: a number, an error other than a symbol in arithmetic, or an
  operation C leaves undefined.\<close>

definition numeric :: "('f, 'd) ev \<Rightarrow> bool" where
  "numeric r \<longleftrightarrow> (case r of Inl c \<Rightarrow> c = Undefined | Inr (Inl e) \<Rightarrow> e \<noteq> ERR_BADEXPR
     | Inr (Inr v) \<Rightarrow> val_type v \<noteq> et_symbol)"

lemma numeric_cases:
  assumes "numeric r"
  obtains "r = Inl Undefined" | e where "r = Inr (Inl e)" "e \<noteq> ERR_BADEXPR"
    | v where "r = Inr (Inr v)" "val_type v \<noteq> et_symbol"
  using assms by (auto simp: numeric_def split: sum.splits)

lemma numeric_ebind:
  assumes "numeric r" "\<And>v. val_type v \<noteq> et_symbol \<Longrightarrow> numeric (k v)"
  shows "numeric (ebind r k)"
  by (rule numeric_cases [OF assms(1)]) (simp_all add: ebind_def assms(2), simp_all add: numeric_def)

lemma numeric_arith:
  "val_type v1 \<noteq> et_symbol \<Longrightarrow> val_type v2 \<noteq> et_symbol \<Longrightarrow> numeric (f_arith h op v1 v2)"
  by (cases v1; cases v2; cases op)
    (simp_all add: numeric_def f_arith_def in_type_def eval_as_sqword_def eval_as_addr_def
      eval_as_int_def sdiv_at_def)

lemma err_value_int [simp]: "val_type err_value = et_int"
  by (simp add: err_value_def)

lemma numeric_eager:
  assumes "numeric r" "\<And>v. val_type v \<noteq> et_symbol \<Longrightarrow> numeric (k v)"
  shows "numeric (eager r k)"
proof (rule numeric_cases [OF assms(1)])
  fix e assume "r = Inr (Inl e)" "e \<noteq> ERR_BADEXPR"
  moreover have "numeric (k err_value)" by (rule assms(2)) simp
  ultimately show ?thesis
    by (auto simp: numeric_def eager_def split: sum.splits)
qed (simp_all add: eager_def assms(2), simp add: numeric_def)

text \<open>Identifiers that stand for numbers, and literals with a character.\<close>

primrec typed_e :: "('f, 'd) evaluator \<Rightarrow> expr_t \<Rightarrow> bool"
  and typed_t :: "('f, 'd) evaluator \<Rightarrow> term_t \<Rightarrow> bool"
  and typed_f :: "('f, 'd) evaluator \<Rightarrow> factor_t \<Rightarrow> bool"
where
  "typed_e ev (Term t) = typed_t ev t"
| "typed_e ev (Plus t e) = (typed_t ev t \<and> typed_e ev e)"
| "typed_e ev (Minus t e) = (typed_t ev t \<and> typed_e ev e)"
| "typed_t ev (Factor f) = typed_f ev f"
| "typed_t ev (Times f t) = (typed_f ev f \<and> typed_t ev t)"
| "typed_t ev (Over f t) = (typed_f ev f \<and> typed_t ev t)"
| "typed_f ev (Paren e) = typed_e ev e"
| "typed_f ev (Neg f) = typed_f ev f"
| "typed_f ev (Ident s) = numeric (Inr (f_eval_ident ev s))"
| "typed_f ev (Num s) = (s \<noteq> [])"

lemma numeric_neg: "val_type v \<noteq> et_symbol \<Longrightarrow> numeric (Inr (f_neg h v))"
  by (cases v) (auto simp: numeric_def)

lemma numeric_quot:
  assumes "val_type v \<noteq> et_symbol" "val_type v1 \<noteq> et_symbol"
  shows "numeric (case f_eq_zero h v1 of Inl e \<Rightarrow> Inr (Inl e)
    | Inr z \<Rightarrow> if z then Inr (Inl ERR_DIV0) else f_div h v v1)"
  using numeric_arith [OF assms] assms(2)
  by (cases v1) (auto simp: f_div_def numeric_def [of "Inr (Inl ERR_DIV0)"])

lemma atoq_base_0: "\<exists>b. atoq_base s 0 = Inr b"
  by (simp add: atoq_base_def)

lemma numeric_constant: "s \<noteq> [] \<Longrightarrow> numeric (constant_val h s)"
proof -
  assume "s \<noteq> []"
  then have "\<exists>x. myatosq s 0 = Inr x" "\<exists>y. myatoq s 0 = Inr y"
    using atoq_base_0 [of "dropWhile isspace s"]
    by (auto simp: myatosq_def myatoq_def Let_def split: prod.splits)
  then show ?thesis by (auto simp: constant_val_def Let_def numeric_def)
qed

lemma sem_numeric:
  "typed_e ev e \<Longrightarrow> numeric (sem_e ev e)" "typed_t ev t \<Longrightarrow> numeric (sem_t ev t)"
  "typed_f ev f \<Longrightarrow> numeric (sem_f ev f)"
  by (induction e and t and f)
    (auto intro!: numeric_ebind numeric_eager numeric_arith numeric_neg numeric_quot numeric_constant
      simp: f_add_def f_sub_def f_mult_def)

end
