(* ===== verification/MiscProps.thy ===== *)
theory MiscProps
  imports MiscStr
begin

text \<open>Properties of the string and number helpers of misc.c.\<close>

subsection \<open>The cyclic redundancy code\<close>

lemma top31: "x AND 0x80000000 \<noteq> 0 \<longleftrightarrow> bit (x :: 32 word) 31"
proof -
  have "(0x80000000 :: 32 word) = push_bit 31 1" by (simp add: push_bit_eq_mult)
  then show ?thesis by (simp add: bit_iff_and_push_bit_not_eq_0)
qed

lemma crc_bit_xor: "crc_bit (a XOR b) = crc_bit a XOR crc_bit b"
  unfolding crc_bit_def top31 by (simp add: bit_xor_iff push_bit_xor ac_simps)

lemma crc_bits_xor: "(crc_bit ^^ n) (a XOR b) = (crc_bit ^^ n) a XOR (crc_bit ^^ n) b"
  by (induction n) (simp_all add: crc_bit_xor)

lemma crc_bit_low: "\<not> bit a 31 \<Longrightarrow> crc_bit a = push_bit 1 a"
  unfolding crc_bit_def top31 by simp

lemma crc_bits_low: "n \<le> 32 \<Longrightarrow> (\<forall>i < n. \<not> bit a (31 - i)) \<Longrightarrow> (crc_bit ^^ n) a = push_bit n a"
proof (induction n)
  case (Suc n)
  then have "\<not> bit (push_bit n a) 31" by (simp add: bit_push_bit_iff)
  then have "crc_bit (push_bit n a) = push_bit 1 (push_bit n a)" by (rule crc_bit_low)
  also have "\<dots> = push_bit (Suc n) a" by (simp only: push_bit_push_bit plus_1_eq_Suc)
  finally have "crc_bit (push_bit n a) = push_bit (Suc n) a" .
  then show ?case using Suc by (simp del: push_bit_Suc)
qed simp

lemma crc_gentab_nth: "i < 256 \<Longrightarrow> crc_gentab ! i = (crc_bit ^^ 8) (push_bit 24 (of_nat i))"
  by (simp add: crc_gentab_def)

text \<open>C37: the table-driven checksum is the bit-serial one: each of the four data bytes, least first,
  is added to the top of the accumulator, which then takes eight steps of the division by the
  polynomial.\<close>

theorem crc_serial:
  "crc a data = foldl (\<lambda>acc j. (crc_bit ^^ 8) (acc XOR push_bit 24 (drop_bit (j * 8) data))) a [0..<4]"
proof -
  have step: "crc_byte crc_gentab a b = (crc_bit ^^ 8) (a XOR push_bit 24 b)" for a b
  proof -
    let ?t = "(drop_bit 24 a XOR b) AND 0xff"
    have m: "(0xff :: 32 word) = mask 8" by (simp add: mask_eq_exp_minus_1)
    have "?t < 2 ^ 8" unfolding m by (rule and_mask_less') simp
    then have lt: "unat ?t < 256" by (simp add: word_less_nat_alt)
    have split: "a XOR push_bit 24 b = push_bit 24 ?t XOR take_bit 24 a"
      unfolding m by (rule bit_word_eqI) (auto simp: bit_simps)
    have "(crc_bit ^^ 8) (take_bit 24 a) = push_bit 8 (take_bit 24 a)"
      by (rule crc_bits_low) (auto simp: bit_take_bit_iff)
    also have "\<dots> = push_bit 8 a" by (rule bit_word_eqI) (auto simp: bit_simps)
    finally show ?thesis
      unfolding split crc_bits_xor crc_byte_def crc_gentab_nth [OF lt] by (simp add: xor.commute)
  qed
  show ?thesis by (simp add: crc_def step)
qed

subsection \<open>Numbers\<close>

lemma digit_of_nonneg: "digit_of c = Some d \<Longrightarrow> 0 \<le> d"
  by (auto simp: digit_of_def isdigit_def isalpha_def tolower_def between_def chr_def split: if_splits)

lemma more_digits: "0 < base \<Longrightarrow> 0 \<le> i \<Longrightarrow> 0 \<le> d \<Longrightarrow> i \<le> i * base + (d :: int)"
  by (simp add: mult_le_cancel_left1 add_increasing2)

lemma digits_loop_ge: "0 < base \<Longrightarrow> 0 \<le> i \<Longrightarrow> i \<le> fst (digits_loop base s i)"
proof (induction base s i rule: digits_loop.induct)
  case (2 base c s i)
  show ?case
  proof (cases "digit_of c")
    case (Some d)
    then have "i \<le> i * base + d" using more_digits 2 digit_of_nonneg by blast
    then show ?thesis using 2 Some by (auto intro: order_trans)
  qed simp
qed simp

lemma atoq_overflowed: "snd (atoq_loop base limit s i True) = (True, snd (digits_loop base s j))"
  by (induction base limit s i "True" arbitrary: j rule: atoq_loop.induct) (auto split: option.splits)

lemma over_limit:
  assumes "0 \<le> d" "d < (base :: int)"
  shows "limit div base < i \<or> i = limit div base \<and> limit mod base < d \<longleftrightarrow> limit < i * base + d"
proof -
  have eq: "limit = limit div base * base + limit mod base" by simp
  have m: "0 \<le> limit mod base" "limit mod base < base" using assms by simp_all
  consider "limit div base < i" | "i = limit div base" | "i < limit div base" by linarith
  then show ?thesis
  proof cases
    case 1
    then have "(limit div base + 1) * base \<le> i * base" using assms by (intro mult_right_mono) auto
    moreover have "(limit div base + 1) * base = limit div base * base + base" by (simp add: algebra_simps)
    ultimately show ?thesis using 1 eq m assms by linarith
  next
    case 2
    then show ?thesis using eq by (metis less_irrefl add_less_cancel_left)
  next
    case 3
    then have "(i + 1) * base \<le> limit div base * base" using assms by (intro mult_right_mono) auto
    moreover have "(i + 1) * base = i * base + base" by (simp add: algebra_simps)
    ultimately have "i * base + d < limit" using assms m eq by linarith
    then show ?thesis using 3 by simp
  qed
qed

text \<open>The conversion loop detects overflow. Without wrapping around on the way, it returns the
  value of all the digits that follow, with the rest of the string, when that value is within
  the limit, and reports overflow exactly when it is not.\<close>

theorem atoq_loop_value:
  assumes "0 < base" and "0 \<le> i" and "i \<le> limit"
  shows "case atoq_loop base limit s i False of (v, ovf, rest) \<Rightarrow>
    rest = snd (digits_loop base s i) \<and> (ovf = (limit < fst (digits_loop base s i)))
    \<and> (ovf \<or> v = fst (digits_loop base s i))"
  using assms
proof (induction base s i rule: digits_loop.induct)
  case (2 base c s i)
  show ?case
  proof (cases "\<exists>d. digit_of c = Some d \<and> d < base")
    case True
    then obtain d where d: "digit_of c = Some d" "\<not> base \<le> d" "0 \<le> d" "d < base"
      using digit_of_nonneg by force
    have ge: "0 \<le> i * base + d" using 2(3) d(3) 2(2) by simp
    show ?thesis
    proof (cases "limit < i * base + d")
      case True
      then have "limit < fst (digits_loop base s (i * base + d))"
        using digits_loop_ge [OF 2(2) ge, of s] by linarith
      then show ?thesis using True d over_limit [OF d(3,4), of limit i]
        atoq_overflowed [of base limit s i "i * base + d"] by (auto split: prod.splits)
    next
      case False
      then have c: "\<not> (limit div base < i \<or> i = limit div base \<and> limit mod base < d)"
        using over_limit [OF d(3,4)] by blast
      have "atoq_loop base limit (c # s) i False = atoq_loop base limit s (i * base + d) False"
        by (simp only: atoq_loop.simps d(1) option.case if_not_P [OF c] if_not_P [OF d(2)])
      moreover have "digits_loop base (c # s) i = digits_loop base s (i * base + d)" using d by simp
      moreover have "i * base + d \<le> limit" using False by simp
      ultimately show ?thesis using 2(1) [OF d(1,2) 2(2) ge] by (simp only:)
    qed
  qed (use 2 in \<open>auto split: option.splits\<close>)
qed auto

theorem atoq_loop_value_witness:
  "case atoq_loop 10 ULL_MAX ''18446744073709551616!'' 0 False of (v, ovf, rest) \<Rightarrow> rest = ''!'' \<and> ovf"
proof -
  have "digits_loop 10 ''18446744073709551616!'' 0 = (18446744073709551616, ''!'')" by code_simp
  then show ?thesis using atoq_loop_value [of 10 0 ULL_MAX "''18446744073709551616!''"]
    by (auto simp: ULL_MAX_def split: prod.splits)
qed

end
