(* ===== verification/EvalProps.thy ===== *)
theory EvalProps
  imports EvalCorrect MiscProps
begin

text \<open>Properties of the expression evaluator of eval.c.\<close>

text \<open>An evaluator without identifiers, on a host without floating point.\<close>

definition no_fp :: "(unit, unit) fp_host" where
  "no_fp = \<lparr>d_add = (\<lambda>_ _. ()), d_sub = (\<lambda>_ _. ()), d_mul = (\<lambda>_ _. ()), d_div = (\<lambda>_ _. ()),
     d_neg = (\<lambda>_. ()), d_zero = (\<lambda>_. False), d_of_int = (\<lambda>_. ()), d_trunc = (\<lambda>_. 0),
     f_addf = (\<lambda>_ _. ()), f_subf = (\<lambda>_ _. ()), f_mulf = (\<lambda>_ _. ()), f_divf = (\<lambda>_ _. ()),
     f_negf = (\<lambda>_. ()), f_zero = (\<lambda>_. False), f_of_int = (\<lambda>_. ()), f_trunc = (\<lambda>_. 0),
     d_of_f = (\<lambda>_. ()), f_of_d = (\<lambda>_. ()), strtod = (\<lambda>s. ((), False, s))\<rparr>"

definition calc :: "(unit, unit) evaluator" where
  "calc = \<lparr>f_eval_ident = (\<lambda>_. Inl ERR_UNDEFVAR), fp = no_fp\<rparr>"

text \<open>The evaluator returns on every string, whatever the identifier evaluator and the host's
  floating point are: the descent needs at most three calls a token, so \<open>eval_expr\<close> yields a
  value, an error code and an end pointer unless it stops in one of the ways C can.\<close>

theorem eval_expr_ends: "eval_expr ev p \<noteq> Inl Diverge"
proof -
  have "ends (expr (eval_fuel p) ev (start p)) (\<lambda>(v, es'). left es' \<le> left (start p))"
    by (rule parse_fuelD [OF parse_ends]) (simp_all add: eval_fuel_def left_def start_def)
  then have "ends (eval_expr ev p) (\<lambda>_. True)"
    unfolding eval_expr_def by (rule ends_cbind) auto
  then show ?thesis by (auto simp: ends_def)
qed

text \<open>C29: on the text of an expression of the grammar the evaluator computes the expression's value,
  or reports the error its evaluation meets: tokenizing, looking ahead and descending undo the
  printing. The grammar is the code's: sums and products associate to the right.\<close>

theorem eval_expr_grammar:
  assumes "honest ev" and "list_all token_ok (toks_e e)"
  shows "case sem_e ev e of
      Inl c \<Rightarrow> eval_expr ev (text_of e) = Inl c
    | Inr (Inl err) \<Rightarrow> \<exists>endp. eval_expr ev (text_of e) = Inr (err_value, err, endp)
    | Inr (Inr v) \<Rightarrow> \<exists>endp. eval_expr ev (text_of e) = Inr (v, ERR_NOERR, endp)"
  using eval_expr_delivers [OF assms] unfolding eval_expr_def
  by (auto simp: delivers_def dest: at_noerr split: sum.splits)

definition seven :: expr_t where
  "seven = Minus (Times (Num ''2'') (Factor (Num ''5''))) (Term (Factor (Num ''0x3'')))"

lemma seven_tokens: "list_all token_ok (toks_e seven)"
  by (simp add: seven_def token_ok_def lex_def tok_of_def tok_map_def chr_def between_def
      in_number_def tolower_def TOK_BUF_def)

theorem eval_expr_grammar_witness:
  "\<exists>endp. eval_expr calc ''2 * 5 - 0x3 '' = Inr (V_int 7, ERR_NOERR, endp)"
proof -
  have "honest calc" by (simp add: honest_def calc_def)
  note this seven_tokens
  moreover have "text_of seven = ''2 * 5 - 0x3 ''" by code_simp
  moreover have "sem_e calc seven = Inr (Inr (V_int 7))" by code_simp
  ultimately show ?thesis using eval_expr_grammar [of calc seven] by simp
qed



text \<open>Arithmetic works at the higher of the two ranks. For numbers of any two types the result
  of \<open>+\<close>, \<open>-\<close>, \<open>*\<close> and \<open>/\<close> has the type of the operand of higher rank (C's order, with
  \<open>md_addr_t\<close> between \<open>unsigned int\<close> and \<open>sqword_t\<close>), and for a symbol it is an error.\<close>

theorem f_arith_rank:
  "case f_arith h op v1 v2 of
     Inl c \<Rightarrow> c = Undefined \<and> op = Div
   | Inr (Inl err) \<Rightarrow> err = ERR_BADEXPR \<and> et_symbol \<in> {val_type v1, val_type v2}
   | Inr (Inr v) \<Rightarrow> rank (val_type v) = max (rank (val_type v1)) (rank (val_type v2))"
  by (cases v1; cases v2; cases op)
    (simp_all add: f_arith_def in_type_def eval_as_sqword_def eval_as_addr_def eval_as_int_def
      sdiv_at_def)


end
