(* ===== verification/FrontEnd.thy ===== *)
theory FrontEnd
  imports Issue SimFast
begin

text \<open>
  The front end of sim-outorder.c: fetch, and dispatch, which executes every instruction in
  program order on the architected or, on a mispredicted path, on the speculative state, and
  enters it into the RUU and the load/store queue. The state is the back end's, with the fetch
  queue, the two register files and the memory. The locals of \<open>ruu_dispatch\<close> that the macros of
  riscv.def write (\<open>target_PC\<close>, \<open>addr\<close>, \<open>temp_*\<close>) are fields, and what C leaves uninitialised is
  in the configuration. Macro fusion is off, its default. Printing, pipe tracing, DLite and the
  statistics by PC are left out.
\<close>

subsection \<open>State and configuration\<close>

record fetch_rec =
  fr_IR :: "32 word"
  fr_regs_PC :: "64 word"
  fr_pred_PC :: "64 word"
  fr_dir_update :: bpred_upd
  fr_stack_recover_idx :: int

record counts =
  ct_num_insn :: "64 word"
  ct_num_comp_insn :: "64 word"
  ct_total_insn :: "64 word"
  ct_total_refs :: "64 word"
  ct_num_refs :: "64 word"
  ct_total_loads :: "64 word"
  ct_num_loads :: "64 word"
  ct_total_branches :: "64 word"
  ct_num_branches :: "64 word"

record ooo =
  mach :: cpu
  fetch_data :: "fetch_rec list"
  reg_R :: "nat \<Rightarrow> 64 word"
  reg_F :: "nat \<Rightarrow> 64 word"
  reg_C :: "nat \<Rightarrow> 64 word"
  reg_NPC :: "64 word"
  spec_R :: "nat \<Rightarrow> 64 word"
  spec_F :: "nat \<Rightarrow> 64 word"
  spec_C :: "nat \<Rightarrow> 64 word"
  omem :: mem_t
  olrsc :: lrsc_t
  octrl_taken :: bool
  target_PC :: "64 word"
  mem_addr :: "64 word"
  temps :: "nat \<Rightarrow> 8 word list"
  inst_seq :: "32 word"
  next_uop_id :: "32 word"
  last_op :: "rsref option \<times> 32 word"
  macro_total_count :: nat
  cross_refs :: "64 word"
  counts :: counts
  cyc :: cyc_counters

text \<open>A floating-point instruction sees its source registers, the old destination and the control
  registers; it sets at most one register, and control registers.\<close>

record fp_args =
  fa_rs1 :: "64 word"
  fa_rs2 :: "64 word"
  fa_rs3 :: "64 word"
  fa_rd :: "64 word"
  fa_gpr :: "64 word"
  fa_csr :: "nat \<Rightarrow> 64 word"

datatype fp_dest = To_FPR "64 word" | To_GPR "64 word" | To_none

text \<open>A system call is given the registers and the memory.\<close>

type_synonym sys_fn = "32 word \<Rightarrow> regs_t \<times> mem_t \<Rightarrow> (regs_t \<times> mem_t) cres"

type_synonym fp_result = "fp_dest \<times> (nat \<times> 64 word) list"

record ooo_cfg =
  ocfg :: sim_cfg
  odec :: decoder
  ruu_decode_width :: nat
  fetch_speed :: nat
  ruu_ifq_size :: nat
  ruu_include_spec :: bool
  ruu_inorder_issue :: bool
  pred_perfect :: bool
  bugcompat_mode :: bool
  cache_il1_lat :: int
  o_syscall :: sys_fn
  o_fp :: "fp_op \<Rightarrow> 32 word \<Rightarrow> fp_args \<Rightarrow> fp_result cres"
  o_shl64 :: "64 word"
  o_junk_fault :: md_fault
  o_junk_target :: "64 word"
  o_junk_idx :: int
  o_junk_tlb :: int

definition on_cpu :: "(cpu \<Rightarrow> cpu cres) \<Rightarrow> ooo \<Rightarrow> ooo cres" where
  "on_cpu f w = cbind (f (mach w)) (\<lambda>c. Inr (w\<lparr>mach := c\<rparr>))"

definition upd_cpu :: "(cpu \<Rightarrow> cpu) \<Rightarrow> ooo \<Rightarrow> ooo" where
  "upd_cpu f w = w\<lparr>mach := f (mach w)\<rparr>"

abbreviation spec :: "ooo \<Rightarrow> bool" where "spec w \<equiv> spec_mode (mach w)"

subsection \<open>The accessor macros\<close>

text \<open>Registers are read from the speculative copy once it was written on the wrong path. The
  control registers share one bit, so one write makes all of them read from the copy.\<close>

definition oGPR :: "ooo \<Rightarrow> nat \<Rightarrow> 64 word" where
  "oGPR w n = (if BITMAP_SET_P (use_spec_R (mach w)) n then spec_R w n else reg_R w n)"
definition oSET_GPR :: "nat \<Rightarrow> 64 word \<Rightarrow> ooo \<Rightarrow> ooo" where
  "oSET_GPR n v w =
     (if spec w
      then upd_cpu (\<lambda>c. c\<lparr>use_spec_R := BITMAP_SET (use_spec_R c) n\<rparr>) (w\<lparr>spec_R := (spec_R w)(n := v)\<rparr>)
      else w\<lparr>reg_R := (reg_R w)(n := v)\<rparr>)"

definition oFPRD_Q :: "ooo \<Rightarrow> nat \<Rightarrow> 64 word" where
  "oFPRD_Q w n = (if BITMAP_SET_P (use_spec_F (mach w)) n then spec_F w n else reg_F w n)"
definition oSET_FPRD_Q :: "nat \<Rightarrow> 64 word \<Rightarrow> ooo \<Rightarrow> ooo" where
  "oSET_FPRD_Q n v w =
     (if spec w
      then upd_cpu (\<lambda>c. c\<lparr>use_spec_F := BITMAP_SET (use_spec_F c) n\<rparr>) (w\<lparr>spec_F := (spec_F w)(n := v)\<rparr>)
      else w\<lparr>reg_F := (reg_F w)(n := v)\<rparr>)"

definition oCSRS :: "ooo \<Rightarrow> nat \<Rightarrow> 64 word" where
  "oCSRS w n = (if BITMAP_SET_P (use_spec_C (mach w)) 0 then spec_C w n else reg_C w n)"
definition oSET_CSRS :: "nat \<Rightarrow> 64 word \<Rightarrow> ooo \<Rightarrow> ooo" where
  "oSET_CSRS n v w =
     (if spec w
      then upd_cpu (\<lambda>c. c\<lparr>use_spec_C := BITMAP_SET (use_spec_C c) 0\<rparr>) (w\<lparr>spec_C := (spec_C w)(n := v)\<rparr>)
      else w\<lparr>reg_C := (reg_C w)(n := v)\<rparr>)"

text \<open>\<open>__READ_SPECMEM\<close> and \<open>__WRITE_SPECMEM\<close>, through the local of the access's width.\<close>

definition spec_access :: "ooo_cfg \<Rightarrow> mem_cmd \<Rightarrow> nat \<Rightarrow> 64 word \<Rightarrow> ooo \<Rightarrow> (md_fault \<times> ooo) cres" where
  "spec_access cfg cmd n addr w =
     (let w1 = w\<lparr>mem_addr := addr\<rparr> in
      if spec w1
      then cbind (spec_mem_access (bugcompat_mode cfg) (cf_regions (ocfg cfg)) (omem w1, spec_st (mach w1)) cmd addr
                    (temps w1 n) (int n)) (\<lambda>(fault, p, (m, st)).
           Inr (fault, upd_cpu (spec_st_update (\<lambda>_. st)) (w1\<lparr>omem := m, temps := (temps w1)(n := p)\<rparr>)))
      else cbind (mem_access (omem w1) cmd addr (temps w1 n) (int n)) (\<lambda>(fault, p, m).
           Inr (fault, w1\<lparr>omem := m, temps := (temps w1)(n := p)\<rparr>)))"

definition oREAD :: "ooo_cfg \<Rightarrow> nat \<Rightarrow> 64 word \<Rightarrow> ooo \<Rightarrow> (64 word \<times> md_fault \<times> ooo) cres" where
  "oREAD cfg n addr w =
     cbind (spec_access cfg Read n addr w) (\<lambda>(fault, w1). Inr (le_word (temps w1 n), fault, w1))"

definition oWRITE :: "ooo_cfg \<Rightarrow> nat \<Rightarrow> 64 word \<Rightarrow> 64 word \<Rightarrow> ooo \<Rightarrow> (md_fault \<times> ooo) cres" where
  "oWRITE cfg n v addr w = spec_access cfg Write n addr (w\<lparr>temps := (temps w)(n := le_bytes n v)\<rparr>)"

definition regs_of :: "ooo \<Rightarrow> regs_t" where
  "regs_of w = \<lparr>regs_R = reg_R w, regs_F = reg_F w, regs_C = reg_C w, regs_t.regs_PC = cpu.regs_PC (mach w),
     regs_NPC = reg_NPC w\<rparr>"

definition put_regs :: "regs_t \<Rightarrow> ooo \<Rightarrow> ooo" where
  "put_regs r w =
     (upd_cpu (cpu.regs_PC_update (\<lambda>_. regs_t.regs_PC r)) w)
       \<lparr>reg_R := regs_R r, reg_F := regs_F r, reg_C := regs_C r, reg_NPC := regs_NPC r\<rparr>"

definition oSYSCALL :: "ooo_cfg \<Rightarrow> 32 word \<Rightarrow> ooo \<Rightarrow> ooo cres" where
  "oSYSCALL cfg inst w =
     (if spec w then Inl (Panic ''speculative syscall'')
      else cbind (o_syscall cfg inst (regs_of w, omem w)) (\<lambda>(r, m). Inr ((put_regs r w)\<lparr>omem := m\<rparr>)))"

definition oFLOAT :: "ooo_cfg \<Rightarrow> fp_op \<Rightarrow> 32 word \<Rightarrow> ooo \<Rightarrow> ooo cres" where
  "oFLOAT cfg op inst w =
     cbind (o_fp cfg op inst \<lparr>fa_rs1 = oFPRD_Q w (reg_of RS1 inst), fa_rs2 = oFPRD_Q w (reg_of RS2 inst),
              fa_rs3 = oFPRD_Q w (reg_of RS3 inst), fa_rd = oFPRD_Q w (reg_of RD inst),
              fa_gpr = oGPR w (reg_of RS1 inst), fa_csr = oCSRS w\<rparr>) (\<lambda>(dest, csrs).
     Inr (fold (\<lambda>(n, v). oSET_CSRS n v) csrs (case dest of
            To_FPR v \<Rightarrow> oSET_FPRD_Q (reg_of RD inst) v w
          | To_GPR v \<Rightarrow> oSET_GPR (reg_of RD inst) v w
          | To_none \<Rightarrow> w)))"

definition ooo_hooks :: "ooo_cfg \<Rightarrow> ooo hooks" where
  "ooo_hooks cfg =
     \<lparr>GPR = oGPR, SET_GPR = oSET_GPR, FPRD_Q = oFPRD_Q, SET_FPRD_Q = oSET_FPRD_Q,
      CSRS = oCSRS, SET_CSRS = oSET_CSRS, CPC = (\<lambda>w. cpu.regs_PC (mach w)),
      SET_NPC = (\<lambda>v w. w\<lparr>reg_NPC := v\<rparr>), SET_TPC = (\<lambda>v w. w\<lparr>target_PC := v\<rparr>),
      CtrlInstTaken = (\<lambda>b w. w\<lparr>octrl_taken := b\<rparr>),
      READ = oREAD cfg, WRITE = oWRITE cfg, LRSC = olrsc, SET_LRSC = (\<lambda>l w. w\<lparr>olrsc := l\<rparr>),
      SYSCALL = oSYSCALL cfg, FLOAT = oFLOAT cfg, one_shl64 = o_shl64 cfg, junk_fault = o_junk_fault cfg\<rparr>"

definition ISCOMPRESS :: "32 word \<Rightarrow> 64 word" where
  "ISCOMPRESS inst = (if INST_IsCompressed inst then 2 else 4)"

definition opnum :: "md_opcode \<Rightarrow> nat" where "opnum op = nat (op_enum op)"

definition is_call :: "md_opcode \<Rightarrow> bool" where
  "is_call op \<longleftrightarrow> RvDecode.md_op2flags op AND (F_CTRL OR F_CALL) = F_CTRL OR F_CALL"

definition is_return :: "md_opcode \<Rightarrow> bool" where
  "is_return op \<longleftrightarrow> op = Inst (U JAL) \<or> op = Inst (C C_JR)"

definition is_mem :: "md_opcode \<Rightarrow> bool" where "is_mem op \<longleftrightarrow> RvDecode.md_op2flags op AND F_MEM \<noteq> 0"

definition has_flag :: "32 word \<Rightarrow> md_opcode \<Rightarrow> bool" where
  "has_flag f op \<longleftrightarrow> RvDecode.md_op2flags op AND f \<noteq> 0"

subsection \<open>Fetch\<close>

definition fetch_init :: "ooo_cfg \<Rightarrow> ooo \<Rightarrow> ooo" where
  "fetch_init cfg w =
     upd_cpu (\<lambda>c. c\<lparr>fetch_num := 0, fetch_tail := 0, fetch_head := 0\<rparr>)
       (w\<lparr>fetch_data := replicate (ruu_ifq_size cfg)
          \<lparr>fr_IR = 0, fr_regs_PC = 0, fr_pred_PC = 0, fr_dir_update = rs_dir_update zero_station,
           fr_stack_recover_idx = 0\<rparr>\<rparr>)"

definition in_text :: "ooo_cfg \<Rightarrow> 64 word \<Rightarrow> bool" where
  "in_text cfg pc \<longleftrightarrow> ld_text_base (cf_regions (ocfg cfg)) \<le> pc
     \<and> pc < ld_text_base (cf_regions (ocfg cfg)) + ucast (ld_text_size (cf_regions (ocfg cfg)))
     \<and> pc AND 1 = 0"

text \<open>\<open>MD_FETCH_INST\<close> at an address.\<close>

definition fetch_inst :: "64 word \<Rightarrow> ooo \<Rightarrow> (32 word \<times> ooo) cres" where
  "fetch_inst pc w =
     cbind (md_fetch_inst (set_PC pc (sim_init\<lparr>fmem := omem w, mem_cross_page_refs := cross_refs w\<rparr>))) (\<lambda>(inst, s).
     Inr (inst, w\<lparr>omem := fmem s, cross_refs := mem_cross_page_refs s\<rparr>))"

text \<open>One access of the instruction side, of the size the code computes from the address.\<close>

definition inst_access :: "ooo_cfg \<Rightarrow> nat \<Rightarrow> 64 word \<Rightarrow> ooo \<Rightarrow> (int \<times> ooo) cres" where
  "inst_access cfg k pc w =
     cbind (hier_access (cf_lat (ocfg cfg)) (cf_rand (ocfg cfg)) k Read pc (if pc AND 3 \<noteq> 3 then 2 else 4)
              (sim_cycle (mach w)) (hier (mach w))) (\<lambda>(lat, h).
     Inr (sint lat, upd_cpu (hier_update (\<lambda>_. h)) w))"

definition note_imiss :: "bool \<Rightarrow> ooo \<Rightarrow> ooo" where
  "note_imiss b w = (if b then upd_cpu (upd_td (ICacheMissF_update (\<lambda>_. True))) w else w)"
definition note_itlb :: "bool \<Rightarrow> ooo \<Rightarrow> ooo" where
  "note_itlb b w = (if b then upd_cpu (upd_td (ITLBMissF_update (\<lambda>_. True))) w else w)"

text \<open>The latency of the instruction cache and TLB, accessed in parallel.\<close>

definition fetch_latency :: "ooo_cfg \<Rightarrow> 64 word \<Rightarrow> ooo \<Rightarrow> (int \<times> ooo) cres" where
  "fetch_latency cfg pc w =
     cbind (case cache_il1 (hier (mach w)) of
        None \<Rightarrow> Inr (cache_il1_lat cfg, w)
      | Some k \<Rightarrow> cbind (inst_access cfg k pc w) (\<lambda>(lat, w1). Inr (lat, note_imiss (lat > cache_il1_lat cfg) w1)))
     (\<lambda>(lat, w1).
     case itlb (hier (mach w1)) of
        None \<Rightarrow> Inr (lat, w1)
      | Some k \<Rightarrow> cbind (inst_access cfg k pc w1) (\<lambda>(tlat, w2). Inr (max tlat lat, note_itlb (tlat > 1) w2)))"

text \<open>The next fetch address: whether the predictor gave a target, the address, the predictor's
  update record and the stack index.\<close>

definition predict_next :: "ooo_cfg \<Rightarrow> 32 word \<Rightarrow> 64 word \<Rightarrow> bpred_upd \<Rightarrow> int \<Rightarrow> ooo
    \<Rightarrow> (bool \<times> 64 word \<times> bpred_upd \<times> int \<times> ooo) cres" where
  "predict_next cfg inst pc du sidx w =
     (case pred (mach w) of
        None \<Rightarrow> Inr (False, pc + ISCOMPRESS inst, du, sidx, w)
      | Some p \<Rightarrow>
          cbind (MD_SET_OPCODE (odec cfg) inst) (\<lambda>op.
          if has_flag F_CTRL op
          then cbind (bpred_lookup (cf_isa (ocfg cfg)) p pc 0 (opnum op) (is_call op) (is_return op) (Some du) sidx)
                 (\<lambda>(t, p', du', sidx').
                 let w1 = upd_cpu (pred_update (\<lambda>_. Some p')) w
                 in Inr (t \<noteq> 0, if t = 0 then pc + ISCOMPRESS inst else t, du', sidx', w1))
          else Inr (False, pc + ISCOMPRESS inst, du, sidx, w)))"

text \<open>One entry: \<open>None\<close> when a miss blocks fetch, else whether the predictor gave a target.\<close>

definition fetch_word :: "ooo_cfg \<Rightarrow> 64 word \<Rightarrow> ooo \<Rightarrow> (32 word option \<times> ooo) cres" where
  "fetch_word cfg pc w =
     (if in_text cfg pc
      then cbind (fetch_inst pc w) (\<lambda>(inst, w1).
           cbind (fetch_latency cfg pc w1) (\<lambda>(lat, w2).
           if lat \<noteq> cache_il1_lat cfg
           then Inr (None, upd_cpu (\<lambda>c. c\<lparr>ruu_fetch_issue_delay := ruu_fetch_issue_delay c + word_of_int (lat - 1)\<rparr>) w2)
           else Inr (Some inst, w2)))
      else Inr (Some 0x13, w))"

definition enqueue_fetch :: "ooo_cfg \<Rightarrow> fetch_rec \<Rightarrow> ooo \<Rightarrow> ooo" where
  "enqueue_fetch cfg r w =
     upd_cpu (\<lambda>c. c\<lparr>fetch_pred_PC := fr_pred_PC r,
                     fetch_tail := (fetch_tail c + 1) AND (ruu_ifq_size cfg - 1), fetch_num := fetch_num c + 1\<rparr>)
       (w\<lparr>fetch_data := (fetch_data w)[fetch_tail (mach w) := r]\<rparr>)"

definition fetch_one :: "ooo_cfg \<Rightarrow> int \<Rightarrow> ooo \<Rightarrow> (bool option \<times> int \<times> ooo) cres" where
  "fetch_one cfg sidx w0 =
     (let pc = fetch_pred_PC (mach w0); w = upd_cpu (\<lambda>c. c\<lparr>fetch_regs_PC := pc\<rparr>) w0 in
      cbind (fetch_word cfg pc w) (\<lambda>(r, w1).
      case r of
        None \<Rightarrow> Inr (None, sidx, w1)
      | Some inst \<Rightarrow>
          cbind (predict_next cfg inst pc (fr_dir_update (fetch_data w1 ! fetch_tail (mach w1))) sidx w1)
            (\<lambda>(t, npc, du, sidx', w2).
          Inr (Some t, sidx', enqueue_fetch cfg
            \<lparr>fr_IR = inst, fr_regs_PC = pc, fr_pred_PC = npc, fr_dir_update = du, fr_stack_recover_idx = sidx'\<rparr> w2))))"

fun fetch_loop :: "ooo_cfg \<Rightarrow> nat \<Rightarrow> nat \<Rightarrow> int \<Rightarrow> ooo \<Rightarrow> ooo cres" where
  "fetch_loop cfg 0 branch_cnt sidx w = Inr w"
| "fetch_loop cfg (Suc k) branch_cnt sidx w =
     (if \<not> fetch_num (mach w) < ruu_ifq_size cfg then Inr w
      else cbind (fetch_one cfg sidx w) (\<lambda>(r, sidx', w1).
           case r of
             None \<Rightarrow> Inr w1
           | Some t \<Rightarrow>
               if t \<and> fetch_speed cfg \<le> branch_cnt + 1 then Inr w1
               else fetch_loop cfg k (if t then branch_cnt + 1 else branch_cnt) sidx' w1))"

definition ruu_fetch :: "ooo_cfg \<Rightarrow> ooo \<Rightarrow> ooo cres" where
  "ruu_fetch cfg w =
     fetch_loop cfg (ruu_decode_width cfg * fetch_speed cfg * (ruu_ifq_size cfg div (ruu_decode_width cfg * fetch_speed cfg)))
       0 (o_junk_idx cfg) w"

end
