(* ===== verification/Dispatch.thy ===== *)
theory Dispatch
  imports FrontEnd
begin

text \<open>
  The dispatch stage and the main loop of sim-outorder.c. An instruction at the head of the fetch
  queue is executed at once, in order, and then takes a station in the RUU, a memory operation
  also one in the load/store queue; a wrong prediction puts the trace generator on the wrong path
  until the branch completes.
\<close>

subsection \<open>Operand names\<close>

definition DTMP :: nat where "DTMP = 1 + 1 + 32 + 32"

fun dep_name :: "32 word \<Rightarrow> dep \<Rightarrow> nat" where
  "dep_name inst DNA = 0"
| "dep_name inst (DGPR f) = reg_of f inst"
| "dep_name inst (DFPR f) = 32 + reg_of f inst"
| "dep_name inst DCSR = 1 + 32 + 32"

definition name_at :: "32 word \<Rightarrow> dep list \<Rightarrow> nat \<Rightarrow> nat" where
  "name_at inst ds i = (if i < length ds then dep_name inst (ds ! i) else 0)"

text \<open>The opcode as dispatch goes on with it, its output and input names, and the fault.\<close>

record decoded =
  de_op :: md_opcode
  de_outs :: "nat list"
  de_ins :: "nat list"
  de_fault :: md_fault

definition no_operation :: decoded where
  "no_operation = \<lparr>de_op = OP_NA, de_outs = [0, 0, 0], de_ins = [0, 0, 0, 0], de_fault = fault_none\<rparr>"

definition execute :: "ooo_cfg \<Rightarrow> md_opcode \<Rightarrow> 32 word \<Rightarrow> ooo \<Rightarrow> (decoded \<times> ooo) cres" where
  "execute cfg op inst w =
     (case op of
        Inst x \<Rightarrow>
          (case inst_row x machine_def of
             None \<Rightarrow> Inr (no_operation, w)
           | Some (_, _, outs, ins) \<Rightarrow>
               cbind (exec_insn (ooo_hooks cfg) x inst w) (\<lambda>(fault, w1).
               Inr (\<lparr>de_op = Inst x, de_outs = map (name_at inst outs) [0..<3],
                      de_ins = map (name_at inst ins) [0..<4],
                      de_fault = (if spec w1 then fault_none else fault)\<rparr>, w1)))
      | _ \<Rightarrow> Inr (no_operation, w))"

subsection \<open>Before execution\<close>

definition inorder_stall :: "ooo_cfg \<Rightarrow> ooo \<Rightarrow> bool" where
  "inorder_stall cfg w \<longleftrightarrow> ruu_inorder_issue cfg
     \<and> (case fst (last_op w) of
          None \<Rightarrow> False
        | Some r \<Rightarrow> snd (last_op w) = rs_tag (rs_of (mach w) r) \<and> \<not> OPERANDS_READY (rs_of (mach w) r))"

definition head_rec :: "ooo \<Rightarrow> fetch_rec" where
  "head_rec w = fetch_data w ! fetch_head (mach w)"

definition latch_pc :: "fetch_rec \<Rightarrow> ooo \<Rightarrow> ooo" where
  "latch_pc f w =
     (upd_cpu (cpu.regs_PC_update (\<lambda>_. fr_regs_PC f)) w)\<lparr>reg_NPC := fr_regs_PC f + ISCOMPRESS (fr_IR f)\<rparr>"

text \<open>Traps and synchronising instructions wait for an empty RUU.\<close>

definition must_drain :: "md_opcode \<Rightarrow> ooo \<Rightarrow> bool cres" where
  "must_drain op w =
     (if has_flag F_TRAP op then
        if RUU_num (mach w) \<noteq> 0 then Inr True
        else if spec w then Inl (Panic ''drained and speculative'')
        else Inr False
      else Inr (has_flag F_SYNC op \<and> RUU_num (mach w) \<noteq> 0))"

definition count_insn :: "32 word \<Rightarrow> ooo \<Rightarrow> ooo" where
  "count_insn inst w =
     (if spec w then w
      else let k = counts w in
        w\<lparr>counts := k\<lparr>ct_num_insn := ct_num_insn k + 1,
          ct_num_comp_insn := ct_num_comp_insn k + (if INST_IsCompressed inst then 1 else 0)\<rparr>\<rparr>)"

definition zero_regs :: "ooo \<Rightarrow> ooo" where
  "zero_regs w = w\<lparr>reg_R := (reg_R w)(0 := 0), spec_R := (spec_R w)(0 := 0), mem_addr := 0\<rparr>"

definition count_refs :: "md_opcode \<Rightarrow> ooo \<Rightarrow> ooo" where
  "count_refs op w =
     (if is_mem op
      then let k = counts w; n = (if spec w then 0 else 1); l = (if has_flag F_STORE op then 0 else 1) in
        w\<lparr>counts := k\<lparr>ct_total_refs := ct_total_refs k + 1, ct_num_refs := ct_num_refs k + n,
          ct_total_loads := ct_total_loads k + l, ct_num_loads := ct_num_loads k + l * n\<rparr>\<rparr>
      else w)"

text \<open>The fetch queue is restarted at the computed next PC when prediction is perfect and was wrong,
  or when a direct jump was predicted taken to another target: whether it was, and \<open>pred_PC\<close>.\<close>

definition redirect_fetch :: "ooo_cfg \<Rightarrow> md_opcode \<Rightarrow> fetch_rec \<Rightarrow> ooo \<Rightarrow> bool \<times> 64 word \<times> ooo" where
  "redirect_fetch cfg op f w =
     (let npc = reg_NPC w; ppc = fr_pred_PC f; jump = F_CTRL OR F_DIRJMP in
      if ppc \<noteq> npc \<and> pred_perfect cfg
         \<or> RvDecode.md_op2flags op AND jump = jump \<and> target_PC w \<noteq> ppc
           \<and> ppc \<noteq> cpu.regs_PC (mach w) + ISCOMPRESS (fr_IR f)
      then (True, if pred_perfect cfg then npc else ppc,
            upd_cpu (\<lambda>c. c\<lparr>fetch_pred_PC := npc, fetch_regs_PC := npc, fetch_head := ruu_ifq_size cfg - 1,
              fetch_num := 1, fetch_tail := 0,
              ruu_fetch_issue_delay := (if pred_perfect cfg then ruu_fetch_issue_delay c
                else ruu_branch_penalty (ocfg cfg))\<rparr>) w)
      else (False, ppc, w))"

subsection \<open>Allocation\<close>

text \<open>What both stations get; \<open>rs_tag\<close>, the operands and the output lists are left to the links.\<close>

definition fill_station :: "nat \<Rightarrow> 64 word \<Rightarrow> 32 word \<Rightarrow> 32 word \<Rightarrow> ooo \<Rightarrow> station \<Rightarrow> station" where
  "fill_station op ppc seq uop w s =
     s\<lparr>rs_slip := ucast (sim_cycle (mach w) - 1), rs_op := op, rs_PC := cpu.regs_PC (mach w),
       rs_next_PC := reg_NPC w, rs_pred_PC := ppc, rs_in_LSQ := False, rs_ea_comp := False,
       rs_recover_inst := False, rs_spec_mode := spec w, rs_addr := 0, rs_seq := seq, rs_queued := False,
       rs_issued := False, rs_completed := False, rs_mf_firstPC := 0, rs_uop_id := uop,
       rs_last_block := STALL_NONE, rs_last_block_cycle := 0, rs_miss_level := 0\<rparr>"

definition fill_ruu :: "md_opcode \<Rightarrow> fetch_rec \<Rightarrow> 64 word \<Rightarrow> ooo \<Rightarrow> ooo" where
  "fill_ruu op f ppc w =
     (let mem = is_mem op in
      (upd_cpu (\<lambda>c. upd_rs (InRUU (RUU_tail c)) (\<lambda>s.
         (fill_station (if mem then opnum (Inst (OpR ADD)) else opnum op) ppc (inst_seq w + 1) (next_uop_id w) w s)
           \<lparr>rs_ea_comp := mem, rs_dir_update := fr_dir_update f, rs_stack_recover_idx := fr_stack_recover_idx f\<rparr>) c) w)
      \<lparr>inst_seq := inst_seq w + 1, next_uop_id := next_uop_id w + 1\<rparr>)"

definition fill_lsq :: "md_opcode \<Rightarrow> 64 word \<Rightarrow> ooo \<Rightarrow> ooo" where
  "fill_lsq op ppc w =
     (upd_cpu (\<lambda>c. upd_rs (InLSQ (LSQ_tail c)) (\<lambda>s.
        (fill_station (opnum op) ppc (inst_seq w + 1) (rs_uop_id (RUU c ! RUU_tail c)) w s)
          \<lparr>rs_in_LSQ := True, rs_addr := mem_addr w, rs_stack_recover_idx := 0,
           rs_dir_update := (rs_dir_update s)\<lparr>pdir1 := None, pdir2 := None, pmeta := None\<rparr>\<rparr>) c) w)
     \<lparr>inst_seq := inst_seq w + 1\<rparr>"

fun link_ideps :: "rsref \<Rightarrow> nat \<Rightarrow> nat list \<Rightarrow> cpu \<Rightarrow> cpu cres" where
  "link_ideps r i [] c = Inr c"
| "link_ideps r i (n # ns) c = cbind (ruu_link_idep r i n c) (link_ideps r (Suc i) ns)"

fun install_odeps :: "rsref \<Rightarrow> nat \<Rightarrow> nat list \<Rightarrow> cpu \<Rightarrow> cpu" where
  "install_odeps r i [] c = c"
| "install_odeps r i (n # ns) c = install_odeps r (Suc i) ns (ruu_install_odep r i n c)"

definition bump_ruu :: "cpu \<Rightarrow> cpu" where
  "bump_ruu c = c\<lparr>RUU_tail := (RUU_tail c + 1) mod length (RUU c), RUU_num := RUU_num c + 1\<rparr>"
definition bump_lsq :: "cpu \<Rightarrow> cpu" where
  "bump_lsq c = c\<lparr>LSQ_tail := (LSQ_tail c + 1) mod length (LSQ c), LSQ_num := LSQ_num c + 1\<rparr>"

definition enqueue_if :: "bool \<Rightarrow> op_isa \<Rightarrow> rsref \<Rightarrow> cpu \<Rightarrow> cpu cres" where
  "enqueue_if b isa r c = (if b then readyq_enqueue isa r c else Inr c)"

text \<open>Stations \<open>r\<close> and \<open>m\<close> of a memory operation: the address computation feeds the access.\<close>

definition allocate_mem :: "ooo_cfg \<Rightarrow> decoded \<Rightarrow> rsref \<Rightarrow> rsref \<Rightarrow> cpu \<Rightarrow> cpu cres" where
  "allocate_mem cfg d r m c =
     cbind (link_ideps r 0 (de_ins d) c) (\<lambda>c1.
     cbind (link_ideps m 0 [0, de_ins d ! 1, 0, 0] (install_odeps r 0 [DTMP, 0, 0] c1)) (\<lambda>c2.
     let c3 = bump_lsq (bump_ruu (install_odeps m 0 (de_outs d) c2)) in
     cbind (enqueue_if (OPERANDS_READY (rs_of c3 r)) (cf_isa (ocfg cfg)) r c3) (\<lambda>c4.
     enqueue_if (RvDecode.md_op2flags (de_op d) AND (F_MEM OR F_STORE) = F_MEM OR F_STORE
         \<and> OPERANDS_READY (rs_of c4 m) \<and> \<not> has_flag F_LOAD (de_op d)) (cf_isa (ocfg cfg)) m c4)))"

definition allocate_reg :: "ooo_cfg \<Rightarrow> decoded \<Rightarrow> rsref \<Rightarrow> cpu \<Rightarrow> cpu cres" where
  "allocate_reg cfg d r c =
     cbind (link_ideps r 0 (de_ins d) c) (\<lambda>c1.
     let c2 = bump_ruu (install_odeps r 0 (de_outs d) c1) in
     enqueue_if (OPERANDS_READY (rs_of c2 r)) (cf_isa (ocfg cfg)) r c2)"

definition set_last :: "rsref \<Rightarrow> ooo \<Rightarrow> ooo" where
  "set_last r w = w\<lparr>last_op := (Some r, rs_tag (rs_of (mach w) r))\<rparr>"

text \<open>The station taken, \<open>None\<close> for an operation that takes none.\<close>

definition allocate :: "ooo_cfg \<Rightarrow> decoded \<Rightarrow> fetch_rec \<Rightarrow> 64 word \<Rightarrow> ooo \<Rightarrow> (rsref option \<times> ooo) cres" where
  "allocate cfg d f ppc w =
     (if de_op d = OP_NA then Inr (None, w)
      else
        let r = InRUU (RUU_tail (mach w)); w1 = fill_ruu (de_op d) f ppc w in
        if is_mem (de_op d) then
          let m = InLSQ (LSQ_tail (mach w)) in
          cbind (on_cpu (allocate_mem cfg d r m) (fill_lsq (de_op d) ppc w1)) (\<lambda>w2. Inr (Some r, set_last m w2))
        else
          cbind (on_cpu (allocate_reg cfg d r) w1) (\<lambda>w2.
          Inr (Some r, if OPERANDS_READY (rs_of (mach w2) r) then w2\<lparr>last_op := (None, 0)\<rparr> else set_last r w2)))"

subsection \<open>After allocation\<close>

definition count_dispatch :: "md_opcode \<Rightarrow> ooo \<Rightarrow> ooo" where
  "count_dispatch op w =
     (let k = counts w; b = (if has_flag F_CTRL op then 1 else 0) in
      w\<lparr>counts := k\<lparr>ct_total_insn := ct_total_insn k + 1, ct_total_branches := ct_total_branches k + b,
        ct_num_branches := ct_num_branches k + (if spec w then 0 else b)\<rparr>\<rparr>)"

definition update_at_dispatch :: "ooo_cfg \<Rightarrow> md_opcode \<Rightarrow> 64 word \<Rightarrow> rsref option \<Rightarrow> ooo \<Rightarrow> ooo cres" where
  "update_at_dispatch cfg op ppc r w =
     (case pred (mach w) of
        None \<Rightarrow> Inr w
      | Some p \<Rightarrow>
          if has_flag F_CTRL op \<and> bpred_spec_update (ocfg cfg) = spec_ID then
            cbind (deref r) (\<lambda>r.
            let pc = cpu.regs_PC (mach w); npc = reg_NPC w; s = rs_of (mach w) r in
            cbind (bpred_update (cf_isa (ocfg cfg)) p (if rs_mf_firstPC s \<noteq> 0 then rs_mf_firstPC s else pc) npc
                     (of_bool (npc \<noteq> pc + INST_BYTES)) (ppc \<noteq> pc + INST_BYTES) (ppc = npc) (opnum op)
                     (Some (rs_dir_update s))) (\<lambda>p'.
            Inr (upd_cpu (pred_update (\<lambda>_. Some p')) w)))
          else Inr w)"

text \<open>A wrong prediction that fetch was not redirected for starts the wrong path.\<close>

definition enter_spec :: "64 word \<Rightarrow> bool \<Rightarrow> rsref option \<Rightarrow> ooo \<Rightarrow> ooo cres" where
  "enter_spec ppc redirected r w =
     (if ppc \<noteq> reg_NPC w \<and> \<not> redirected
      then cbind (deref r) (\<lambda>r.
        Inr (upd_cpu (\<lambda>c. (upd_rs r (rs_recover_inst_update (\<lambda>_. True)) c)
          \<lparr>spec_mode := True, recover_PC := reg_NPC w\<rparr>) w))
      else Inr w)"

definition resolve :: "ooo_cfg \<Rightarrow> md_opcode \<Rightarrow> 64 word \<Rightarrow> bool \<Rightarrow> rsref option \<Rightarrow> ooo \<Rightarrow> ooo cres" where
  "resolve cfg op ppc redirected r w =
     (if spec w then Inr w
      else cbind (update_at_dispatch cfg op ppc r w) (enter_spec ppc redirected r))"

definition consume :: "ooo_cfg \<Rightarrow> ooo \<Rightarrow> ooo" where
  "consume cfg w =
     (upd_cpu (\<lambda>c. c\<lparr>fetch_head := (fetch_head c + 1) AND (ruu_ifq_size cfg - 1),
        fetch_num := fetch_num c - macro_total_count w\<rparr>) w)\<lparr>macro_total_count := 1\<rparr>"

subsection \<open>The stage\<close>

text \<open>One instruction: whether dispatch goes on, whether a station was taken, and \<open>fetch_redirected\<close>,
  which stays set for the rest of the cycle.\<close>

definition dispatch_one :: "ooo_cfg \<Rightarrow> bool \<Rightarrow> ooo \<Rightarrow> ((bool \<times> bool \<times> bool) \<times> ooo) cres" where
  "dispatch_one cfg red w0 =
     (let f = head_rec w0; inst = fr_IR f; w = latch_pc f w0 in
      cbind (MD_SET_OPCODE (odec cfg) inst) (\<lambda>op.
      cbind (must_drain op w) (\<lambda>stop.
      if stop then Inr ((False, False, red), w)
      else
        cbind (execute cfg op inst (count_insn inst (zero_regs w))) (\<lambda>(d, w1).
        if de_fault d \<noteq> fault_none then Inl (Fatal ''non-speculative fault (%d) detected @ 0x%08p'')
        else
          let (now, ppc, w2) = redirect_fetch cfg (de_op d) f (count_refs (de_op d) w1); red' = (red \<or> now) in
          cbind (allocate cfg d f ppc w2) (\<lambda>(r, w3).
          cbind (resolve cfg (de_op d) ppc red' r (count_dispatch (de_op d) w3)) (\<lambda>w4.
          Inr ((True, r \<noteq> None, red'), consume cfg w4)))))))"

fun dispatch_loop :: "ooo_cfg \<Rightarrow> nat \<Rightarrow> nat \<Rightarrow> bool \<Rightarrow> ooo \<Rightarrow> ooo cres" where
  "dispatch_loop cfg 0 n red w = Inl Diverge"
| "dispatch_loop cfg (Suc k) n red w =
     (let c = mach w in
      if \<not> (n < ruu_decode_width cfg * fetch_speed cfg \<and> RUU_num c < length (RUU c) \<and> LSQ_num c < length (LSQ c)
            \<and> fetch_num c \<noteq> 0 \<and> (ruu_include_spec cfg \<or> \<not> spec w)) \<or> inorder_stall cfg w
      then Inr w
      else cbind (dispatch_one cfg red w) (\<lambda>((goes, took, red'), w1).
           if goes then dispatch_loop cfg k (if took then n + 1 else n) red' w1 else Inr w1))"

definition ruu_dispatch :: "ooo_cfg \<Rightarrow> ooo \<Rightarrow> ooo cres" where
  "ruu_dispatch cfg w =
     dispatch_loop cfg (ruu_decode_width cfg * fetch_speed cfg + fetch_num (mach w) + 2) 0 False
       (w\<lparr>target_PC := o_junk_target cfg, temps := (\<lambda>n. replicate n 0)\<rparr>)"

subsection \<open>The main loop\<close>

definition sanity :: "cpu \<Rightarrow> cpu cres" where
  "sanity c =
     (if RUU_num c < LSQ_num c then Inl (Panic ''RUU_num < LSQ_num'')
      else if (RUU_head c + RUU_num c) mod length (RUU c) \<noteq> RUU_tail c then Inl (Panic ''RUU_head/RUU_tail wedged'')
      else if (LSQ_head c + LSQ_num c) mod length (LSQ c) \<noteq> LSQ_tail c then Inl (Panic ''LSQ_head/LSQ_tail wedged'')
      else Inr c)"

definition end_latches :: "cpu \<Rightarrow> latches \<Rightarrow> latches" where
  "end_latches c t = t\<lparr>ROBfull := RUU_num c \<ge> length (RUU c), LSQfull := LSQ_num c \<ge> length (LSQ c),
     ReadyEmpty := ready_queue c = None\<rparr>"

definition refresh_issue :: "ooo_cfg \<Rightarrow> ooo \<Rightarrow> ooo cres" where
  "refresh_issue cfg w =
     cbind (on_cpu (lsq_refresh (cf_isa (ocfg cfg))) w) (on_cpu (ruu_issue (ocfg cfg) (o_junk_tlb cfg)))"

definition fetch_phase :: "ooo_cfg \<Rightarrow> ooo \<Rightarrow> ooo cres" where
  "fetch_phase cfg w =
     (if ruu_fetch_issue_delay (mach w) = 0 then ruu_fetch cfg w
      else Inr (upd_cpu (\<lambda>c. c\<lparr>ruu_fetch_issue_delay := ruu_fetch_issue_delay c - 1\<rparr>) w))"

definition classify :: "ooo \<Rightarrow> ooo" where
  "classify w =
     (if 0 <s sim_cycle (mach w) \<and> sim_cycle (mach w) <s 10000
      then w\<lparr>cyc := classify_and_count_this_cycle (td (mach w)) (cyc w)\<rparr> else w)"

text \<open>One iteration of the loop of \<open>sim_main\<close>; the occupancy counters are left out.\<close>

definition sim_cycle_step :: "ooo_cfg \<Rightarrow> ooo \<Rightarrow> ooo cres" where
  "sim_cycle_step cfg w =
     cbind (on_cpu sanity w) (\<lambda>w0.
     cbind (on_cpu (ruu_commit (ocfg cfg)) (upd_cpu (td_update (\<lambda>_. cycle_reset_classify_latches)) w0)) (\<lambda>w1.
     cbind (on_cpu (ruu_writeback (ocfg cfg)) (upd_cpu (fu_pool_update ruu_release_fu) w1)) (\<lambda>w2.
     cbind (if bugcompat_mode cfg then Inr w2 else refresh_issue cfg w2) (\<lambda>w3.
     cbind (ruu_dispatch cfg w3) (\<lambda>w4.
     cbind (if bugcompat_mode cfg then refresh_issue cfg w4 else Inr w4) (\<lambda>w5.
     cbind (fetch_phase cfg w5) (\<lambda>w6.
     Inr (upd_cpu (\<lambda>c. c\<lparr>sim_cycle := sim_cycle c + 1\<rparr>) (classify (upd_cpu (\<lambda>c. upd_td (end_latches c) c) w6))))))))))"

primrec sim_cycles :: "ooo_cfg \<Rightarrow> nat \<Rightarrow> ooo \<Rightarrow> ooo cres" where
  "sim_cycles cfg 0 w = Inr w"
| "sim_cycles cfg (Suc n) w = cbind (sim_cycle_step cfg w) (sim_cycles cfg n)"

text \<open>The start of the timing simulation.\<close>

definition timing_start :: "ooo \<Rightarrow> ooo" where
  "timing_start w = upd_cpu (\<lambda>c. c\<lparr>fetch_regs_PC := cpu.regs_PC c - 4, fetch_pred_PC := cpu.regs_PC c,
     cpu.regs_PC := cpu.regs_PC c - 4\<rparr>) w"

end
