(* ===== verification/StageKeeps.thy ===== *)
theory StageKeeps
  imports Dispatch
begin

text \<open>
  What the stages of sim-outorder.c leave alone. A predicate on the machine that does not look at
  the stations (but for \<open>ea_comp\<close>), the links, the queues, the create vectors, the units, the
  caches, the predictor and the stall latches is kept by every operation that works on those
  only: issue, the load/store queue scan, the broadcast of results, the squash of a station, the
  stalls and stores of commit, and the linking of a new operation. The locale states it once;
  the window of operations in flight and the front end are its two instances.
\<close>

locale back_end_keeps =
  fixes P :: "cpu \<Rightarrow> bool"
  assumes rs: "P c \<Longrightarrow> (\<And>s. rs_ea_comp (f s) = rs_ea_comp s) \<Longrightarrow> P (upd_rs r f c)"
    and lk: "P c \<Longrightarrow> P (c\<lparr>links := ls\<rparr>)"
    and free: "P c \<Longrightarrow> P (c\<lparr>rslink_free_list := q\<rparr>)"
    and events: "P c \<Longrightarrow> P (c\<lparr>event_queue := q\<rparr>)"
    and readies: "P c \<Longrightarrow> P (c\<lparr>ready_queue := q\<rparr>)"
    and cv: "P c \<Longrightarrow> P (c\<lparr>create_vector := v\<rparr>)" "P c \<Longrightarrow> P (c\<lparr>spec_create_vector := v\<rparr>)" "P c \<Longrightarrow> P (c\<lparr>use_spec_cv := b\<rparr>)"
    and cv_rt: "P c \<Longrightarrow> P (c\<lparr>create_vector_rt := t\<rparr>)" "P c \<Longrightarrow> P (c\<lparr>spec_create_vector_rt := t\<rparr>)"
    and units: "P c \<Longrightarrow> P (c\<lparr>fu_pool := u\<rparr>)"
    and predictor: "P c \<Longrightarrow> P (c\<lparr>pred := p\<rparr>)"
    and caches: "P c \<Longrightarrow> P (c\<lparr>hier := h\<rparr>)"
    and latch: "P c \<Longrightarrow> P (c\<lparr>td := t'\<rparr>)"
    and stats: "P c \<Longrightarrow> P (c\<lparr>sim_invalid_addrs := n\<rparr>)" "P c \<Longrightarrow> P (c\<lparr>stall_active := b'\<rparr>)"
      "P c \<Longrightarrow> P (c\<lparr>last_head_uop_id := k\<rparr>)" "P c \<Longrightarrow> P (c\<lparr>sim_slip := n'\<rparr>)"
begin

definition keeps :: "cpu cres \<Rightarrow> bool" where "keeps r \<longleftrightarrow> (\<forall>c. r = Inr c \<longrightarrow> P c)"
definition keeps2 :: "('a \<times> cpu) cres \<Rightarrow> bool" where "keeps2 r \<longleftrightarrow> (\<forall>a c. r = Inr (a, c) \<longrightarrow> P c)"

definition keeps3 :: "('a \<times> 'b \<times> cpu) cres \<Rightarrow> bool" where "keeps3 r \<longleftrightarrow> (\<forall>a b c. r = Inr (a, b, c) \<longrightarrow> P c)"

lemma keeps_simps [simp]:
  "keeps (Inr c) = P c" "keeps (Inl e)" "keeps2 (Inr (a, c)) = P c" "keeps2 (Inl e)" "keeps3 (Inr (a, b, c)) = P c" "keeps3 (Inl e)"
  by (simp_all add: keeps_def keeps2_def keeps3_def)

lemma keeps_bind:
  "keeps r \<Longrightarrow> (\<And>c. P c \<Longrightarrow> keeps (k c)) \<Longrightarrow> keeps (cbind r k)"
  "keeps r \<Longrightarrow> (\<And>c. P c \<Longrightarrow> keeps2 (k2 c)) \<Longrightarrow> keeps2 (cbind r k2)"
  "keeps r \<Longrightarrow> (\<And>c. P c \<Longrightarrow> keeps3 (k3 c)) \<Longrightarrow> keeps3 (cbind r k3)"
  by (auto simp: keeps_def keeps2_def keeps3_def cbind_Inr_iff)

lemma keeps2_bind:
  "keeps2 q \<Longrightarrow> (\<And>a c. P c \<Longrightarrow> keeps (k (a, c))) \<Longrightarrow> keeps (cbind q k)"
  "keeps2 q \<Longrightarrow> (\<And>a c. P c \<Longrightarrow> keeps2 (k2 (a, c))) \<Longrightarrow> keeps2 (cbind q k2)"
  "keeps2 q \<Longrightarrow> (\<And>a c. P c \<Longrightarrow> keeps3 (k3 (a, c))) \<Longrightarrow> keeps3 (cbind q k3)"
  by (auto simp: keeps_def keeps2_def keeps3_def cbind_Inr_iff)

lemma keeps3_bind:
  "keeps3 q \<Longrightarrow> (\<And>a b c. P c \<Longrightarrow> keeps2 (k2 (a, b, c))) \<Longrightarrow> keeps2 (cbind q k2)"
  by (auto simp: keeps2_def keeps3_def cbind_Inr_iff)

text \<open>A result that is no state: any continuation will do.\<close>

lemma keeps_any:
  "(\<And>a. keeps (k a)) \<Longrightarrow> keeps (cbind x k)" "(\<And>a. keeps2 (k2 a)) \<Longrightarrow> keeps2 (cbind x k2)"
  "(\<And>a. keeps3 (k3 a)) \<Longrightarrow> keeps3 (cbind x k3)"
  by (auto simp: keeps_def keeps2_def keeps3_def cbind_Inr_iff)

lemmas valid_any = keeps_any(1,2) [where x = "RSLINK_VALID d l" for d :: cpu and l]
lemmas unit_any = keeps_any(2) [where x = "res_get u n" for u n] keeps_any(3) [where x = "res_get u n" for u n]

subsection \<open>Links and queues\<close>

lemma lk': "P c \<Longrightarrow> P (links_update g c)" and units': "P c \<Longrightarrow> P (fu_pool_update g' c)"
proof -
  have "links_update g c = c\<lparr>links := g (links c)\<rparr>" "fu_pool_update g' c = c\<lparr>fu_pool := g' (fu_pool c)\<rparr>" by simp_all
  then show "P c \<Longrightarrow> P (links_update g c)" "P c \<Longrightarrow> P (fu_pool_update g' c)" by (simp_all only: lk units)
qed

lemmas fields = lk free events readies cv cv_rt units predictor caches latch stats

lemma link: "P c \<Longrightarrow> P (upd_link n f c)" by (simp add: upd_link_def lk)

lemma tdu: "P c \<Longrightarrow> P (upd_td f c)" by (simp add: upd_td_def latch)

lemma rslink_new: "P c \<Longrightarrow> keeps2 (RSLINK_NEW r c)"
  by (auto simp: RSLINK_NEW_def intro!: link free split: option.split)

lemma rslink_free: "P c \<Longrightarrow> P (RSLINK_FREE n c)"
  by (auto simp: RSLINK_FREE_def intro!: link free)

lemma free_loop: "P c \<Longrightarrow> keeps (free_list_loop n p c)"
  by (induction n p c rule: free_list_loop.induct) (auto intro: rslink_free)

lemma rslink_free_list: "P c \<Longrightarrow> keeps (RSLINK_FREE_LIST p c)"
  unfolding RSLINK_FREE_LIST_def by (rule free_loop)

lemma insert: "P c \<Longrightarrow> keeps2 (insert_link Q n h c)"
  unfolding insert_link_def by (auto intro!: keeps_any link split: option.split)

lemma eventq_queue: "P c \<Longrightarrow> keeps (eventq_queue_event r t c)"
  unfolding eventq_queue_event_def
  by (auto intro!: keeps2_bind [OF rslink_new] keeps2_bind [OF insert] link events)

lemma next_loop: "P c \<Longrightarrow> keeps2 (next_event_loop n c)"
proof (induction n arbitrary: c)
  case (Suc n)
  show ?case
    by (auto simp: Let_def Suc.prems split: option.split
        intro!: valid_any Suc.IH rslink_free events Suc.prems)
qed simp

lemma eventq_next: "P c \<Longrightarrow> keeps2 (eventq_next_event c)"
  unfolding eventq_next_event_def by (rule next_loop)

lemma readyq: "P c \<Longrightarrow> keeps (readyq_enqueue isa r c)"
  unfolding readyq_enqueue_def Let_def
  by (auto intro!: keeps2_bind [OF rslink_new] keeps2_bind [OF insert] link readies rs)

lemma set_cv: "P c \<Longrightarrow> P (SET_CREATE_VECTOR n l c)"
proof -
  assume c: "P c"
  have "P (c\<lparr>use_spec_cv := b, spec_create_vector := v\<rparr>)" for b v using cv(2) [OF cv(3) [OF c]] by simp
  then show ?thesis using c cv(1) [OF c] by (simp add: SET_CREATE_VECTOR_def)
qed

lemma link_idep: "P c \<Longrightarrow> keeps (ruu_link_idep r i n c)"
  unfolding ruu_link_idep_def Let_def
  by (auto intro!: keeps2_bind [OF rslink_new] link rs split: option.split)

lemma install_odep: "P c \<Longrightarrow> P (ruu_install_odep r i n c)"
  unfolding ruu_install_odep_def by (auto intro!: set_cv rs)

lemma refresh: "P c \<Longrightarrow> keeps (refresh_loop isa k i unk c)"
proof (induction k arbitrary: i unk c)
  case (Suc k)
  show ?case unfolding refresh_loop.simps Let_def
    by (rule keeps_any) (auto simp: Suc.prems split: option.split intro!: keeps_bind(1) Suc.IH readyq)
qed simp

lemma lsq_scan: "P c \<Longrightarrow> keeps (lsq_refresh isa c)"
  unfolding lsq_refresh_def by (rule refresh)

subsection \<open>Squash and writeback\<close>

lemma odeps: "P c \<Longrightarrow> keeps (free_odeps js r c)"
proof (induction js arbitrary: c)
  case (Cons i js)
  show ?case unfolding free_odeps.simps
    by (rule keeps_bind(1) [OF rslink_free_list [OF Cons.prems]], rule Cons.IH, erule rs) simp
qed simp

lemma squash: "P c \<Longrightarrow> keeps (squash r c)"
  unfolding squash_def by (auto intro!: keeps_bind [OF odeps] rs)

lemma wake: "P c \<Longrightarrow> keeps (wake_consumer isa r n c)"
  unfolding wake_consumer_def Let_def by (auto intro!: readyq rs)

lemma walk: "P c \<Longrightarrow> keeps (walk_outputs k isa l c)"
proof (induction k arbitrary: l c)
  case (Suc k)
  then show ?case by (cases l) (auto intro!: valid_any keeps_bind(1) wake Suc.IH rslink_free)
qed simp

lemma creator: "P c \<Longrightarrow> P (retire_creator r i c)"
proof -
  assume "P c"
  then have "P (c\<lparr>spec_create_vector := v, spec_create_vector_rt := t\<rparr>)" "P (c\<lparr>create_vector := v, create_vector_rt := t\<rparr>)" for v t
    by (blast intro: cv cv_rt)+
  then show ?thesis using \<open>P c\<close> unfolding retire_creator_def Let_def by simp
qed

lemma broadcasts: "P c \<Longrightarrow> keeps (broadcast isa r js c)"
proof (induction js arbitrary: c)
  case (Cons i js)
  have "keeps (broadcast_output isa r i c)"
    unfolding broadcast_output_def Let_def
    using Cons.prems by (auto intro!: keeps_bind(1) [OF walk] creator rs)
  then show ?case using Cons.IH by (auto intro: keeps_bind(1))
qed simp

lemma completes: "P c \<Longrightarrow> keeps (complete r c)"
  unfolding complete_def Let_def by (auto intro!: rs)

lemma late: "P c \<Longrightarrow> P (note_late_wb r c)"
  by (simp add: note_late_wb_def tdu)

lemma pred_update: "P c \<Longrightarrow> keeps (predictor_update cfg s c)"
  unfolding predictor_update_def by (auto intro!: keeps_any predictor split: option.split)

subsection \<open>Commit\<close>

lemma reserve: "P c \<Longrightarrow> keeps (reserve_unit fu c)"
  unfolding reserve_unit_def by (auto intro!: keeps_any units)

lemma access: "P c \<Longrightarrow> keeps2 (word_access cfg k cmd a c)"
  unfolding word_access_def by (rule keeps_any) (auto intro!: caches)

lemma opt_access: "P c \<Longrightarrow> keeps (optional_access cfg k cmd a c)"
  unfolding optional_access_def by (auto intro!: keeps2_bind [OF access] split: option.split)

lemma log_stall: "P c \<Longrightarrow> P (log_head_stall s c)"
  unfolding log_head_stall_def by (metis stats(2,3))

lemma stalls: "P c \<Longrightarrow> P (stall_head c)" "P c \<Longrightarrow> P (stall_mem c)" "P c \<Longrightarrow> P (stall_port c)"
  unfolding stall_head_def stall_mem_def stall_port_def Let_def by (auto intro!: tdu log_stall rs)

lemma store_commit: "P c \<Longrightarrow> keeps2 (commit_store cfg c)"
  unfolding commit_store_def Let_def
  by (auto intro!: unit_any keeps_bind(2) [OF reserve] keeps_bind(2) [OF opt_access] stalls split: option.split)

lemma release: "P c \<Longrightarrow> P (fu_pool_update ruu_release_fu c)"
  by (rule units')

subsection \<open>Issue\<close>

lemma loads: "P c \<Longrightarrow> keeps2 (cache_load cfg a l c)" "P c \<Longrightarrow> keeps3 (tlb_load cfg a l t c)"
proof -
  have "P c \<Longrightarrow> P (if b then c\<lparr>sim_invalid_addrs := n\<rparr> else c)" for b n by (simp add: stats)
  then show "P c \<Longrightarrow> keeps2 (cache_load cfg a l c)"
    unfolding cache_load_def Let_def
    by (cases "cache_dl1 (hier (if \<not> spec_mode c \<and> \<not> MD_VALID_ADDR (cf_regions cfg) a then c\<lparr>sim_invalid_addrs := sim_invalid_addrs c + 1\<rparr> else c))")
      (auto intro!: keeps2_bind [OF access])
  show "P c \<Longrightarrow> keeps3 (tlb_load cfg a l t c)"
    unfolding tlb_load_def by (auto intro!: keeps2_bind [OF access] split: option.split)
qed

lemma stamp_ea [simp]: "rs_ea_comp (stamp_load cfg l t now s) = rs_ea_comp s"
  by (simp add: stamp_load_def Let_def)

lemma load_issue: "P c \<Longrightarrow> keeps2 (issue_load cfg i l t c)"
proof -
  assume c: "P c"
  have "keeps2 (if b then Inr (1, c) else cache_load cfg a l c)" for b a using c loads by simp
  then show ?thesis unfolding issue_load_def Let_def
    by (intro keeps_any keeps2_bind(2) [of "if _ then _ else _"])
      (auto intro!: keeps3_bind [OF loads(2)] keeps_bind(2) [OF eventq_queue] rs)
qed

lemma store_issue: "P c \<Longrightarrow> keeps (issue_store cfg r c)"
  unfolding issue_store_def Let_def by (auto intro!: rs split: op_kind.split)

lemma unit_issue: "P c \<Longrightarrow> keeps2 (issue_unit cfg r fu t c)"
proof -
  assume "P c"
  then have "P (set_issued r c)" by (auto simp: set_issued_def intro!: rs)
  then show ?thesis unfolding issue_unit_def Let_def
    by (intro keeps_bind(2) [OF reserve])
      (auto intro!: load_issue keeps_bind(2) [OF eventq_queue] split: rsref.split)
qed

lemma one_issue: "P c \<Longrightarrow> keeps3 (issue_one cfg r t c)"
proof -
  assume "P c"
  then have c: "P (upd_rs r (rs_queued_update (\<lambda>_. False)) c)" by (auto intro!: rs)
  then have "P (set_issued r (upd_rs r (rs_queued_update (\<lambda>_. False)) c))" by (auto simp: set_issued_def intro!: rs)
  then show ?thesis using c unfolding issue_one_def Let_def
    by (auto intro!: keeps_bind(3) [OF store_issue] unit_any keeps_bind(3) [OF readyq] keeps2_bind(3) [OF unit_issue]
        keeps_bind(3) [OF eventq_queue] split: option.split)
qed

lemma issue_keeps: "P c \<Longrightarrow> keeps2 (issue_loop k cfg node n t c)"
proof (induction k arbitrary: node n t c)
  case (Suc k)
  have one: "keeps3 (if v then issue_one cfg r t c else Inr (0, t, c))" for v r
    using one_issue Suc.prems by simp
  show ?case using Suc.prems
    by (auto split: option.split intro!: valid_any keeps3_bind [OF one] Suc.IH rslink_free)
qed simp

lemma requeue: "P c \<Longrightarrow> keeps (requeue_loop k isa node c)"
proof (induction k arbitrary: node c)
  case (Suc k)
  have one: "keeps (if v then readyq_enqueue isa r (upd_rs r (rs_queued_update (\<lambda>_. False)) c) else Inr c)" for v r
    using Suc.prems by (auto intro!: readyq rs)
  show ?case by (cases node) (auto simp: Suc.prems Let_def intro!: valid_any keeps_bind(1) [OF one] Suc.IH rslink_free)
qed simp

lemma issue: "P c \<Longrightarrow> keeps (ruu_issue cfg junk c)"
  unfolding ruu_issue_def by (rule keeps2_bind(1) [OF issue_keeps]) (simp_all add: requeue readies del: requeue_loop.simps)

subsection \<open>The links of a new operation\<close>

lemma ideps: "P c \<Longrightarrow> keeps (link_ideps r i ns c)"
  by (induction ns arbitrary: i c) (auto intro!: keeps_bind(1) [OF link_idep])

lemma odep_list: "P c \<Longrightarrow> P (install_odeps r i ns c)"
  by (induction ns arbitrary: i c) (auto intro!: install_odep)

lemma enqueue: "P c \<Longrightarrow> keeps (enqueue_if b isa r c)"
  by (simp add: enqueue_if_def readyq)

end

text \<open>Retirement moves the heads and the numbers on top of it.\<close>

locale commit_keeps = back_end_keeps +
  assumes heads: "P c \<Longrightarrow> P (c\<lparr>RUU_head := h, RUU_num := n\<rparr>)" "P c \<Longrightarrow> P (c\<lparr>LSQ_head := h, LSQ_num := n\<rparr>)"
begin

lemma retire: "P c \<Longrightarrow> P (retire_lsq c)" "P c \<Longrightarrow> keeps (retire_ruu c)"
  unfolding retire_lsq_def retire_ruu_def Let_def
  by (auto intro!: heads [OF stats(4)] rs)

lemma mem_commit: "P c \<Longrightarrow> keeps2 (commit_mem cfg c)"
  unfolding commit_mem_def Let_def
  by (auto intro!: keeps2_bind(2) [OF store_commit] stalls retire)

lemma head_commit: "P c \<Longrightarrow> keeps2 (commit_head cfg c)"
  unfolding commit_head_def Let_def
  by (auto intro!: keeps2_bind(2) [OF mem_commit] keeps_bind(2) [OF pred_update] keeps_bind(2) [OF retire(2)] stalls tdu)

lemma commit: "P c \<Longrightarrow> keeps (ruu_commit cfg c)"
proof -
  have l: "P c \<Longrightarrow> keeps2 (commit_loop cfg k n c)" for k n c
    by (induction k arbitrary: n c) (auto intro!: keeps2_bind(2) [OF head_commit])
  assume "P c"
  from l [OF this] show ?thesis unfolding ruu_commit_def Let_def
    by (rule keeps2_bind(1)) (auto simp: stats intro!: tdu stats(3) [OF stats(2)])
qed

end

text \<open>Writeback keeps what the recovery from a mispredicted branch keeps.\<close>

locale writeback_keeps = back_end_keeps +
  assumes branch: "P c \<Longrightarrow> recover_branch cfg r c = Inr c' \<Longrightarrow> P c'"
begin

lemma branches: "P c \<Longrightarrow> keeps (recover_branch cfg r c)"
  by (simp add: keeps_def branch)

lemma one_writeback: "P c \<Longrightarrow> keeps (writeback_one cfg r c)"
  unfolding writeback_one_def Let_def
  by (auto intro!: keeps_bind(1) [OF completes] keeps_bind(1) [OF branches] keeps_bind(1) [OF pred_update] broadcasts late)

lemma writeback: "P c \<Longrightarrow> keeps (ruu_writeback cfg c)"
proof -
  have "P c \<Longrightarrow> keeps (writeback_loop k cfg c)" for k c
    by (induction k arbitrary: c)
      (auto intro!: keeps2_bind(1) [OF eventq_next] keeps_bind(1) [OF one_writeback] split: option.split)
  then show "P c \<Longrightarrow> keeps (ruu_writeback cfg c)" unfolding ruu_writeback_def by blast
qed

end

end
