(* ===== verification/HooksSim.thy ===== *)
theory HooksSim
  imports RvExec
begin

text \<open>
  Two engines that run riscv.def over their own accessor macros. When the macros agree on related
  states, an instruction that completes without a fault on the first engine completes on the
  second, in a related state. \<open>data_sim\<close> asks for the registers and the memory only and covers the
  instructions that neither jump nor leave the engine; \<open>insn_sim\<close> adds the program counter and the
  host. Store conditional is left out: it goes on after a read that faulted.
\<close>

lemma reg_of_less [simp]: "reg_of f inst < 32"
proof -
  have le: "unat (bits_at n m inst) \<le> unat m" for n m
    by (simp add: bits_at_def word_and_le1 flip: word_le_nat_alt)
  have 1: "unat (bits_at n 0x1f inst) < 32" for n using le [of n "0x1f"] by simp
  have 2: "unat (bits_at n 7 inst + 8) < 32" for n using le [of n 7] by (simp add: unat_word_ariths)
  show ?thesis by (cases f) (simp_all add: 1 2)
qed

definition access_size :: "nat \<Rightarrow> bool" where "access_size k \<longleftrightarrow> k \<in> {1, 2, 4, 8}"

lemma access_sizes [simp]:
  "access_size (Suc 0)" "access_size 2" "access_size 4" "access_size 8" "access_size (load_size x)" "access_size (store_size y)"
  by (simp_all add: access_size_def, cases x, simp_all, cases y, simp_all)

declare reg_of.simps [simp del]

definition is_C :: "insn \<Rightarrow> bool" where "is_C x \<longleftrightarrow> (case x of C y \<Rightarrow> True | _ \<Rightarrow> False)"

definition jumps_c :: "c_op \<Rightarrow> bool" where
  "jumps_c x \<longleftrightarrow> (case x of C_J \<Rightarrow> True | C_BEQZ \<Rightarrow> True | C_BNEZ \<Rightarrow> True | C_JR \<Rightarrow> True | C_JALR n \<Rightarrow> True
     | C_EBREAK \<Rightarrow> True | _ \<Rightarrow> False)"

locale data_sim =
  fixes h :: "'s hooks" and h' :: "'t hooks" and R :: "'s \<Rightarrow> 't \<Rightarrow> bool"
  assumes gpr: "R s t \<Longrightarrow> n < 32 \<Longrightarrow> GPR h s n = GPR h' t n"
    and fpr: "R s t \<Longrightarrow> n < 32 \<Longrightarrow> FPRD_Q h s n = FPRD_Q h' t n"
    and csr: "R s t \<Longrightarrow> CSRS h s n = CSRS h' t n"
    and pc: "R s t \<Longrightarrow> CPC h s = CPC h' t"
    and one: "one_shl64 h = one_shl64 h'"
    and junk: "junk_fault h = junk_fault h'"
    and set_gpr: "R s t \<Longrightarrow> R (SET_GPR h n v s) (SET_GPR h' n v t)"
    and set_fpr: "R s t \<Longrightarrow> R (SET_FPRD_Q h n v s) (SET_FPRD_Q h' n v t)"
    and set_csr: "R s t \<Longrightarrow> R (SET_CSRS h n v s) (SET_CSRS h' n v t)"
    and set_lrsc: "R s t \<Longrightarrow> R (SET_LRSC h l s) (SET_LRSC h' l t)"
    and read_mem: "R s t \<Longrightarrow> access_size k \<Longrightarrow> READ h k a s = Inr (v, fault_none, s')
      \<Longrightarrow> \<exists>t'. READ h' k a t = Inr (v, fault_none, t') \<and> R s' t'"
    and write_mem: "R s t \<Longrightarrow> access_size k \<Longrightarrow> WRITE h k v a s = Inr (fault_none, s')
      \<Longrightarrow> \<exists>t'. WRITE h' k v a t = Inr (fault_none, t') \<and> R s' t'"
    and float: "R s t \<Longrightarrow> FLOAT h op inst s = Inr s' \<Longrightarrow> \<exists>t'. FLOAT h' op inst t = Inr t' \<and> R s' t'"
begin

definition sims :: "'s exec_res \<Rightarrow> 't exec_res \<Rightarrow> bool" where
  "sims r r' \<longleftrightarrow> (\<forall>s. r = Inr (fault_none, s) \<longrightarrow> (\<exists>t. r' = Inr (fault_none, t) \<and> R s t))"

lemma sims_finish: "R s t \<Longrightarrow> sims (finish s) (finish t)"
  by (simp add: sims_def finish_def)

lemma sims_fault: "R s t \<Longrightarrow> sims (DECLARE_FAULT f s) (DECLARE_FAULT f t)"
  by (simp add: sims_def DECLARE_FAULT_def)

lemma set_val:
  "R s t \<Longrightarrow> v = v' \<Longrightarrow> R (SET_GPR h n v s) (SET_GPR h' n v' t)"
  "R s t \<Longrightarrow> v = v' \<Longrightarrow> R (SET_FPRD_Q h n v s) (SET_FPRD_Q h' n v' t)"
  "R s t \<Longrightarrow> v = v' \<Longrightarrow> R (SET_CSRS h n v s) (SET_CSRS h' n v' t)"
  "R s t \<Longrightarrow> l = l' \<Longrightarrow> R (SET_LRSC h l s) (SET_LRSC h' l' t)"
  by (simp_all add: set_gpr set_fpr set_csr set_lrsc)

lemmas view = gpr [OF _ reg_of_less] fpr [OF _ reg_of_less] csr pc

lemma sims_load:
  assumes "R s t" "a = a'" "access_size n" "\<And>v s1 t1. R s1 t1 \<Longrightarrow> sims (k v s1) (k' v t1)"
  shows "sims (load h n a s k) (load h' n a' t k')"
  unfolding sims_def
proof (intro allI impI)
  fix s' assume "load h n a s k = Inr (fault_none, s')"
  then obtain v s1 where r: "READ h n a s = Inr (v, fault_none, s1)" and k: "k v s1 = Inr (fault_none, s')"
    by (auto simp: load_def cbind_Inr_iff DECLARE_FAULT_def split: if_splits)
  obtain t1 where "READ h' n a t = Inr (v, fault_none, t1)" "R s1 t1" using read_mem [OF assms(1,3) r] by blast
  then show "\<exists>t'. load h' n a' t k' = Inr (fault_none, t') \<and> R s' t'"
    using assms(4) [of s1 t1 v] k by (simp add: load_def sims_def assms(2) [symmetric])
qed

lemma sims_store:
  assumes "R s t" "a = a'" "v = v'" "access_size n" "\<And>s1 t1. R s1 t1 \<Longrightarrow> sims (k s1) (k' t1)"
  shows "sims (store h n v a s k) (store h' n v' a' t k')"
  unfolding sims_def
proof (intro allI impI)
  fix s' assume "store h n v a s k = Inr (fault_none, s')"
  then obtain s1 where w: "WRITE h n v a s = Inr (fault_none, s1)" and k: "k s1 = Inr (fault_none, s')"
    by (auto simp: store_def cbind_Inr_iff DECLARE_FAULT_def split: if_splits)
  obtain t1 where "WRITE h' n v a t = Inr (fault_none, t1)" "R s1 t1" using write_mem [OF assms(1,4) w] by blast
  then show "\<exists>t'. store h' n v' a' t k' = Inr (fault_none, t') \<and> R s' t'"
    using assms(5) [of s1 t1] k by (simp add: store_def sims_def assms(2,3) [symmetric])
qed

lemma sims_store_opt:
  assumes "R s t" "access_size n" "\<And>s1 t1. R s1 t1 \<Longrightarrow> sims (k s1) (k' t1)"
  shows "sims (store_opt h n v a s k) (store_opt h' n v a t k')"
  using assms by (auto simp: store_opt_def intro!: sims_store split: option.split)

lemma sims_float: "R s t \<Longrightarrow> sims (cbind (FLOAT h op i s) finish) (cbind (FLOAT h' op i t) finish)"
  by (auto simp: sims_def cbind_Inr_iff finish_def dest: float)

lemma sims_if: "sims a a' \<Longrightarrow> sims b b' \<Longrightarrow> sims (if p then a else b) (if p then a' else b')"
  by simp

subsection \<open>The instructions on registers and memory\<close>

lemma sims_mem:
  assumes r: "R s t"
  shows "sims (exec_load h x inst s) (exec_load h' x inst t)" "sims (exec_store h y inst s) (exec_store h' y inst t)"
  unfolding exec_load_def exec_store_def
  using r by (auto simp: view [OF r] intro!: sims_load sims_store sims_finish set_gpr)

lemma sims_int:
  assumes r: "R s t"
  shows "sims (exec_imm h x inst s) (exec_imm h' x inst t)" "sims (exec_reg h y inst s) (exec_reg h' y inst t)"
    "sims (exec_mul h z inst s) (exec_mul h' z inst t)"
  using r unfolding exec_imm_def exec_reg_def exec_mul_def view [OF r] one
  by (auto simp: cbind_def intro!: set_gpr split: sum.split simp: sims_def finish_def)

lemma sync_sims:
  assumes r: "R s t"
  shows "R (sync_read h c s) (sync_read h' c t)" "R (sync_write h c s) (sync_write h' c t)"
    "v = v' \<Longrightarrow> R (csr_write h c v s) (csr_write h' c v' t)"
proof -
  show "R (sync_read h c s) (sync_read h' c t)" using r by (simp add: sync_read_def view [OF r] set_csr)
  have w: "R (sync_write h c s) (sync_write h' c t)" if "R s t" for s t
    using that view(3) [OF set_csr [OF that]]
    by (simp add: sync_write_def Let_def view [OF that] set_csr)
  show "R (sync_write h c s) (sync_write h' c t)" by (rule w [OF r])
  show "v = v' \<Longrightarrow> R (csr_write h c v s) (csr_write h' c v' t)"
    using w [OF set_csr [OF r]] by (simp add: csr_write_def)
qed

lemma sims_csr:
  assumes r: "R s t"
  shows "sims (exec_csr h x inst s) (exec_csr h' x inst t)"
proof -
  have q: "R (sync_read h c s) (sync_read h' c t)" for c by (rule sync_sims(1) [OF r])
  show ?thesis by (cases x) (auto simp: Let_def view [OF q] intro!: sims_finish set_val sync_sims q)
qed

lemma sims_amo:
  assumes r: "R s t" and x: "x \<noteq> SC_W" "x \<noteq> SC_D"
  shows "sims (exec_amo h x inst s) (exec_amo h' x inst t)"
proof -
  have "sims (exec_amo_w h x inst s) (exec_amo_w h' x inst t)" "sims (exec_amo_d h x inst s) (exec_amo_d h' x inst t)" for x
    unfolding exec_amo_w_def exec_amo_d_def Let_def view [OF r]
    by (auto intro!: sims_load [OF r] sims_store_opt sims_finish set_gpr)
  moreover have "sims (exec_lr h n conv inst s) (exec_lr h' n conv inst t)" if "access_size n" for n conv
    unfolding exec_lr_def view [OF r]
    by (rule sims_load [OF r refl that]) (auto simp: Let_def view(1) [OF set_gpr] intro!: sims_finish set_val)
  ultimately show ?thesis using x by (cases x) simp_all
qed

lemma sims_fp_moves:
  assumes r: "R s t"
  shows "access_size n \<Longrightarrow> sims (load_fp h n b q a s) (load_fp h' n b q a t)"
    "access_size n \<Longrightarrow> sims (store_fp h n (reg_of f i) a s) (store_fp h' n (reg_of f i) a t)"
  unfolding load_fp_def store_fp_def
  by (auto intro!: sims_load sims_store sims_finish set_fpr view r)

lemma sims_fp:
  assumes r: "R s t"
  shows "sims (exec_fp h x inst s) (exec_fp h' x inst t)"
  by (cases x) (simp_all add: view [OF r] sims_fp_moves r sims_float)

lemma sims_c_parts:
  assumes r: "R s t"
  shows "sims (load_gpr h x q a s) (load_gpr h' x q a t)"
    "sims (store_gpr h y (reg_of f i) a s) (store_gpr h' y (reg_of f i) a t)"
    "v = v' \<Longrightarrow> sims (set_or_fault h bad q v s) (set_or_fault h' bad q v' t)"
  unfolding load_gpr_def store_gpr_def set_or_fault_def view [OF r]
  using r by (auto intro!: sims_load sims_store sims_finish sims_fault set_gpr)

lemma sims_c_data:
  assumes r: "R s t" and x: "\<not> jumps_c x"
  shows "sims (exec_c h x inst s) (exec_c h' x inst t)"
  using x unfolding exec_c_def
  by (cases x) (auto simp: jumps_c_def view [OF r] one junk intro!: sims_c_parts sims_fp_moves sims_finish sims_fault set_gpr r)

end

subsection \<open>Jumps and system instructions\<close>

locale insn_sim = data_sim +
  assumes set_npc: "R s t \<Longrightarrow> R (SET_NPC h v s) (SET_NPC h' v t)"
    and set_tpc: "R s t \<Longrightarrow> R (SET_TPC h v s) (SET_TPC h' v t)"
    and syscall: "R s t \<Longrightarrow> SYSCALL h inst s = Inr s' \<Longrightarrow> \<exists>t'. SYSCALL h' inst t = Inr t' \<and> R s' t'"
begin

lemma set_pcs:
  "R s t \<Longrightarrow> v = v' \<Longrightarrow> R (SET_NPC h v s) (SET_NPC h' v' t)"
  "R s t \<Longrightarrow> v = v' \<Longrightarrow> R (SET_TPC h v s) (SET_TPC h' v' t)"
  by (simp_all add: set_npc set_tpc)

lemma sims_u:
  assumes r: "R s t"
  shows "sims (exec_u h x inst s) (exec_u h' x inst t)"
  using r by (cases x) (auto simp: Let_def view [OF r] view [OF set_gpr [OF r]] view [OF set_tpc [OF r]]
      view [OF set_tpc [OF set_gpr [OF r]]] intro!: sims_finish set_val set_pcs)

lemma sims_branch:
  assumes r: "R s t"
  shows "sims (exec_branch h x inst s) (exec_branch h' x inst t)"
  using r by (auto simp: exec_branch_def Let_def view [OF r] view [OF set_tpc [OF r]] intro!: sims_finish set_pcs)

lemma sims_sys:
  assumes r: "R s t"
  shows "sims (exec_sys h x inst s) (exec_sys h' x inst t)"
proof -
  have c: "sims (cbind (SYSCALL h i s) finish) (cbind (SYSCALL h' i t) finish)" for i
    using r by (auto simp: sims_def cbind_Inr_iff finish_def dest: syscall)
  have "sims (xret h ie pp pie epc s) (xret h' ie pp pie epc t)" for ie pp pie epc
    using r by (auto simp: xret_def Let_def view [OF r] view(3) [OF set_csr [OF r]] intro!: sims_finish set_pcs set_csr)
  then show ?thesis using c r by (cases x) (auto intro!: sims_finish)
qed

lemma sims_insn:
  assumes "R s t" "x \<noteq> Amo SC_W" "x \<noteq> Amo SC_D" "\<not> is_C x"
  shows "sims (exec_insn h x inst s) (exec_insn h' x inst t)"
  using assms by (cases x) (simp_all add: is_C_def sims_u sims_branch sims_mem sims_int sims_csr sims_sys sims_amo sims_fp)

end

end
