(* ===== verification/FastSim.thy ===== *)
theory FastSim
  imports Dispatch HooksSim SimFastCorrect
begin

text \<open>
  The instructions of the correct path in sim-outorder.c against sim-fast.c: with the same host
  (system calls, floating point) behind both, an instruction that dispatch executes outside of
  the speculative mode changes registers, memory and program counter the way an iteration of the
  functional simulator does.
\<close>

declare reg_of.simps [simp del]

subsection \<open>The two simulators on the same host\<close>

definition fast_args :: "32 word \<Rightarrow> fast \<Rightarrow> fp_args" where
  "fast_args inst s =
     \<lparr>fa_rs1 = regs_F (regs s) (reg_of RS1 inst), fa_rs2 = regs_F (regs s) (reg_of RS2 inst),
      fa_rs3 = regs_F (regs s) (reg_of RS3 inst), fa_rd = regs_F (regs s) (reg_of RD inst),
      fa_gpr = regs_R (regs s) (reg_of RS1 inst), fa_csr = regs_C (regs s)\<rparr>"

definition fast_float :: "(fp_op \<Rightarrow> 32 word \<Rightarrow> fp_args \<Rightarrow> fp_result cres) \<Rightarrow> fp_op \<Rightarrow> 32 word \<Rightarrow> fast \<Rightarrow> fast cres" where
  "fast_float f op inst s =
     cbind (f op inst (fast_args inst s)) (\<lambda>(dest, csrs).
     Inr (fold (\<lambda>(n, v). set_C n v) csrs (case dest of
            To_FPR v \<Rightarrow> set_F (reg_of RD inst) v s
          | To_GPR v \<Rightarrow> set_R (reg_of RD inst) v s
          | To_none \<Rightarrow> s)))"

definition fast_syscall :: "sys_fn \<Rightarrow> 32 word \<Rightarrow> fast \<Rightarrow> fast cres" where
  "fast_syscall f inst s = cbind (f inst (regs s, fmem s)) (\<lambda>(r, m). Inr (s\<lparr>regs := r, fmem := m\<rparr>))"

definition host_of :: "ooo_cfg \<Rightarrow> host" where
  "host_of cfg = \<lparr>sys_syscall = fast_syscall (o_syscall cfg), host_float = fast_float (o_fp cfg),
     host_shl64 = o_shl64 cfg, host_junk = o_junk_fault cfg\<rparr>"

text \<open>A system call sees the memory by its bytes: not how they are spread over pages and buckets.\<close>

definition same_mem :: "mem_t \<Rightarrow> mem_t \<Rightarrow> bool" where
  "same_mem m m' \<longleftrightarrow> mem_wf m \<and> mem_wf m' \<and> mem_byte m = mem_byte m'"

definition syscall_ok :: "sys_fn \<Rightarrow> bool" where
  "syscall_ok f \<longleftrightarrow> (\<forall>inst r m m' r1 m1. same_mem m m' \<and> f inst (r, m) = Inr (r1, m1)
     \<longrightarrow> (\<exists>m1'. f inst (r, m') = Inr (r1, m1') \<and> same_mem m1 m1'))"

definition clean_regs :: "cpu \<Rightarrow> bool" where
  "clean_regs c \<longleftrightarrow> (\<forall>n < 32. \<not> BITMAP_SET_P (use_spec_R c) n \<and> \<not> BITMAP_SET_P (use_spec_F c) n)
     \<and> \<not> BITMAP_SET_P (use_spec_C c) 0"

definition same_state :: "ooo \<Rightarrow> fast \<Rightarrow> bool" where
  "same_state w s \<longleftrightarrow> \<not> spec w \<and> clean_regs (mach w) \<and> (\<forall>n. length (temps w n) = n)
     \<and> reg_R w = regs_R (regs s) \<and> reg_F w = regs_F (regs s) \<and> reg_C w = regs_C (regs s)
     \<and> cpu.regs_PC (mach w) = regs_PC (regs s) \<and> same_mem (omem w) (fmem s)"

lemma upd_cpu_sel [simp]:
  "mach (upd_cpu f w) = f (mach w)" "reg_R (upd_cpu f w) = reg_R w" "reg_F (upd_cpu f w) = reg_F w"
  "reg_C (upd_cpu f w) = reg_C w" "reg_NPC (upd_cpu f w) = reg_NPC w" "omem (upd_cpu f w) = omem w"
  "olrsc (upd_cpu f w) = olrsc w" "temps (upd_cpu f w) = temps w" "fetch_data (upd_cpu f w) = fetch_data w"
  "macro_total_count (upd_cpu f w) = macro_total_count w" "target_PC (upd_cpu f w) = target_PC w"
  "counts (upd_cpu f w) = counts w" "mem_addr (upd_cpu f w) = mem_addr w" "last_op (upd_cpu f w) = last_op w"
  by (simp_all add: upd_cpu_def)

lemma ooo_hooks_sel [simp]:
  "GPR (ooo_hooks cfg) = oGPR" "SET_GPR (ooo_hooks cfg) = oSET_GPR" "FPRD_Q (ooo_hooks cfg) = oFPRD_Q"
  "SET_FPRD_Q (ooo_hooks cfg) = oSET_FPRD_Q" "CSRS (ooo_hooks cfg) = oCSRS" "SET_CSRS (ooo_hooks cfg) = oSET_CSRS"
  "CPC (ooo_hooks cfg) w = cpu.regs_PC (mach w)" "SET_NPC (ooo_hooks cfg) v w = w\<lparr>reg_NPC := v\<rparr>"
  "SET_TPC (ooo_hooks cfg) v w = w\<lparr>target_PC := v\<rparr>" "CtrlInstTaken (ooo_hooks cfg) b w = w\<lparr>octrl_taken := b\<rparr>"
  "READ (ooo_hooks cfg) = oREAD cfg" "WRITE (ooo_hooks cfg) = oWRITE cfg" "LRSC (ooo_hooks cfg) = olrsc"
  "SET_LRSC (ooo_hooks cfg) l w = w\<lparr>olrsc := l\<rparr>" "SYSCALL (ooo_hooks cfg) = oSYSCALL cfg" "FLOAT (ooo_hooks cfg) = oFLOAT cfg"
  "one_shl64 (ooo_hooks cfg) = o_shl64 cfg" "junk_fault (ooo_hooks cfg) = o_junk_fault cfg"
  by (simp_all add: ooo_hooks_def)

lemma fast_hooks_rest [simp]:
  "FPRD_Q (fast_hooks hs) s n = regs_F (regs s) n" "SET_FPRD_Q (fast_hooks hs) = set_F"
  "CSRS (fast_hooks hs) s n = regs_C (regs s) n" "SET_CSRS (fast_hooks hs) = set_C"
  "LRSC (fast_hooks hs) = lrsc" "SET_LRSC (fast_hooks hs) l s = s\<lparr>lrsc := l\<rparr>"
  "CtrlInstTaken (fast_hooks hs) b s = s\<lparr>IsCtrlInstTaken := b\<rparr>"
  "SYSCALL (fast_hooks hs) = sys_syscall hs" "FLOAT (fast_hooks hs) = host_float hs" "junk_fault (fast_hooks hs) = host_junk hs"
  by (simp_all add: fast_hooks_def)

subsection \<open>The accessors\<close>

lemma same_views:
  assumes "same_state w s"
  shows "n < 32 \<Longrightarrow> oGPR w n = regs_R (regs s) n" "n < 32 \<Longrightarrow> oFPRD_Q w n = regs_F (regs s) n" "oCSRS w k = regs_C (regs s) k"
  using assms by (simp_all add: same_state_def clean_regs_def oGPR_def oFPRD_Q_def oCSRS_def)

lemma same_sets:
  assumes "same_state w s"
  shows "same_state (oSET_GPR n v w) (set_R n v s)" "same_state (oSET_FPRD_Q n v w) (set_F n v s)"
    "same_state (oSET_CSRS n v w) (set_C n v s)"
  using assms by (simp_all add: same_state_def oSET_GPR_def oSET_FPRD_Q_def oSET_CSRS_def set_R_def set_F_def set_C_def upd_regs_def)

lemma npc_sets:
  "reg_NPC (oSET_GPR n v w) = reg_NPC w" "reg_NPC (oSET_FPRD_Q n v w) = reg_NPC w" "reg_NPC (oSET_CSRS n v w) = reg_NPC w"
  "regs_NPC (regs (set_F n v s)) = regs_NPC (regs s)"
  "regs_NPC (regs (set_C n v s)) = regs_NPC (regs s)"
  by (simp_all add: oSET_GPR_def oSET_FPRD_Q_def oSET_CSRS_def set_F_def set_C_def upd_regs_def)

definition rel :: "(64 word \<Rightarrow> 64 word \<Rightarrow> bool \<Rightarrow> bool) \<Rightarrow> ooo \<Rightarrow> fast \<Rightarrow> bool" where
  "rel N w s \<longleftrightarrow> same_state w s \<and> N (reg_NPC w) (regs_NPC (regs s)) (IsCtrlInstTaken s)"

lemma rel_sets:
  assumes "rel N w s"
  shows "rel N (oSET_GPR n v w) (set_R n v s)" "rel N (oSET_FPRD_Q n v w) (set_F n v s)"
    "rel N (oSET_CSRS n v w) (set_C n v s)"
  using assms same_sets [of w s]
  by (simp_all add: rel_def npc_sets, simp_all add: set_R_def set_F_def set_C_def upd_regs_def)

text \<open>Outside of the speculative mode an access that does not fault is a legal access of the memory.\<close>

lemma mem_access_ok:
  assumes "mem_access m cmd a p (int k) = Inr (fault_none, q, m')" "access_size k"
  shows "legal_access a (int k)"
  using assms by (auto simp: mem_access_def legal_access_def split: if_splits)

lemma unat_low: "unat (a AND mask n) = unat a mod 2 ^ n" for a :: "64 word"
  by (simp add: unsigned_take_bit_eq flip: take_bit_eq_mask, simp add: take_bit_eq_mod)

lemma legal_in_page:
  assumes "legal_access a (int k)" "access_size k"
  shows "MEM_OFFSET a + k \<le> MD_PAGE_SIZE"
proof -
  have low: "a AND word_of_int (int k - 1) = 0" using assms(1) by (simp add: legal_access_def)
  have off: "MEM_OFFSET a = unat a mod 4096" by (rule MEM_OFFSET_mod)
  have "unat a mod k = 0"
    using low assms(2) unat_low [of a 0] unat_low [of a 1] unat_low [of a 2] unat_low [of a 3]
    by (auto simp: access_size_def mask_eq_exp_minus_1)
  then have "k dvd unat a" by (simp add: mod_eq_0_iff_dvd)
  moreover have "k dvd 4096" using assms(2) by (auto simp: access_size_def)
  ultimately have d: "k dvd unat a mod 4096" by (simp add: dvd_mod)
  obtain j where j: "4096 = k * j" using \<open>k dvd 4096\<close> by (rule dvdE)
  obtain i where i: "unat a mod 4096 = k * i" using d by (rule dvdE)
  have "unat a mod 4096 < 4096" by simp
  then have "k * i < k * j" using i j by linarith
  then have "i < j" by simp
  then have "k * (i + 1) \<le> k * j" by (intro mult_le_mono2) simp
  then show ?thesis unfolding off i using j by (simp add: MD_PAGE_SIZE_def)
qed

lemma read_same:
  assumes r: "rel N w s" "access_size k" and rd: "oREAD cfg k a w = Inr (v, fault_none, w')"
  shows "\<exists>s'. fast_read k a s = Inr (v, fault_none, s') \<and> rel N w' s'"
proof -
  have st: "\<not> spec w" "length (temps w k) = k" "mem_wf (omem w)" "mem_wf (fmem s)" "mem_byte (omem w) = mem_byte (fmem s)"
    using r(1) by (simp_all add: rel_def same_state_def same_mem_def)
  obtain q m where acc: "mem_access (omem w) Read a (temps w k) (int k) = Inr (fault_none, q, m)"
    and w': "v = le_word q" "w' = w\<lparr>mem_addr := a, omem := m, temps := (temps w)(k := q)\<rparr>"
    using rd st(1) by (auto simp: oREAD_def spec_access_def Let_def cbind_Inr_iff)
  have legal: "legal_access a (int k)" by (rule mem_access_ok [OF acc r(2)])
  from mem_access_read [OF st(3) legal, of "temps w k"] acc st(2)
  have q: "q = get (mem_byte (omem w)) a k" "mem_wf m" "mem_byte m = mem_byte (omem w)" by auto
  obtain m' where m': "mem_read_n k a (fmem s) = Inr (le_word (get (mem_byte (fmem s)) a k), m')" "mem_wf m'"
    "mem_byte m' = mem_byte (fmem s)" using mem_wf_read [OF st(4) legal_in_page [OF legal r(2)]] by blast
  show ?thesis
    using r(1) m' q st unfolding w'
    by (auto simp: fast_read_def rel_def same_state_def same_mem_def)
qed

lemma write_same:
  assumes r: "rel N w s" "access_size k" and wr: "oWRITE cfg k v a w = Inr (fault_none, w')"
  shows "\<exists>s'. fast_write k v a s = Inr (fault_none, s') \<and> rel N w' s'"
proof -
  have st: "\<not> spec w" "mem_wf (omem w)" "mem_wf (fmem s)" "mem_byte (omem w) = mem_byte (fmem s)"
    using r(1) by (simp_all add: rel_def same_state_def same_mem_def)
  let ?bs = "le_bytes k v"
  have len: "length ?bs = k" by (simp add: le_bytes_def)
  obtain q m where acc: "mem_access (omem w) Write a ?bs (int k) = Inr (fault_none, q, m)"
    and w': "w' = w\<lparr>mem_addr := a, omem := m, temps := (temps w)(k := q)\<rparr>"
    using wr st(1) by (auto simp: oWRITE_def spec_access_def Let_def cbind_Inr_iff)
  have legal: "legal_access a (int k)" by (rule mem_access_ok [OF acc r(2)])
  from mem_access_write [OF st(2) legal, of ?bs] acc len
  have q: "q = ?bs" "mem_wf m" "mem_byte m = put (mem_byte (omem w)) a ?bs" by auto
  obtain m' where m': "MEM_WRITE (fmem s) a ?bs = Inr m'" "mem_wf m'" "mem_byte m' = put (mem_byte (fmem s)) a ?bs"
    using mem_wf_write [OF st(3), of a ?bs] legal_in_page [OF legal r(2)] len by auto
  show ?thesis
    using r(1) m' q st len unfolding w'
    by (auto simp: fast_write_def rel_def same_state_def same_mem_def)
qed

lemma rel_csrs:
  "rel N w s \<Longrightarrow> rel N (fold (\<lambda>(n, v). oSET_CSRS n v) csrs w) (fold (\<lambda>(n, v). set_C n v) csrs s)"
  by (induction csrs arbitrary: w s) (auto intro: rel_sets(3))

lemma float_same:
  assumes r: "rel N w s" and f: "oFLOAT cfg op inst w = Inr w'"
  shows "\<exists>s'. fast_float (o_fp cfg) op inst s = Inr s' \<and> rel N w' s'"
proof -
  have st: "same_state w s" using r by (simp add: rel_def)
  note V = same_views [OF st]
  have args: "\<lparr>fa_rs1 = oFPRD_Q w (reg_of RS1 inst), fa_rs2 = oFPRD_Q w (reg_of RS2 inst),
      fa_rs3 = oFPRD_Q w (reg_of RS3 inst), fa_rd = oFPRD_Q w (reg_of RD inst),
      fa_gpr = oGPR w (reg_of RS1 inst), fa_csr = oCSRS w\<rparr> = fast_args inst s"
    by (simp add: fast_args_def V fun_eq_iff)
  obtain dest csrs where "o_fp cfg op inst (fast_args inst s) = Inr (dest, csrs)"
    "w' = fold (\<lambda>(n, v). oSET_CSRS n v) csrs (case dest of To_FPR v \<Rightarrow> oSET_FPRD_Q (reg_of RD inst) v w
        | To_GPR v \<Rightarrow> oSET_GPR (reg_of RD inst) v w | To_none \<Rightarrow> w)"
    using f unfolding oFLOAT_def args by (auto simp: cbind_Inr_iff simp del: fold_simps)
  moreover have "rel N (case dest of To_FPR v \<Rightarrow> oSET_FPRD_Q (reg_of RD inst) v w
        | To_GPR v \<Rightarrow> oSET_GPR (reg_of RD inst) v w | To_none \<Rightarrow> w)
      (case dest of To_FPR v \<Rightarrow> set_F (reg_of RD inst) v s | To_GPR v \<Rightarrow> set_R (reg_of RD inst) v s | To_none \<Rightarrow> s)"
    using r by (simp add: rel_sets split: fp_dest.split)
  ultimately show ?thesis by (auto simp: fast_float_def intro: rel_csrs)
qed

interpretation dat: data_sim "ooo_hooks cfg" "fast_hooks (host_of cfg)" "rel N" for cfg N
proof (unfold_locales, goal_cases)
  case (1 s t n) then show ?case using same_views(1) [of s t n] by (simp add: rel_def)
next
  case (2 s t n) then show ?case using same_views(2) [of s t n] by (simp add: rel_def)
next
  case (3 s t n) then show ?case using same_views(3) [of s t n] by (simp add: rel_def)
next
  case 4 then show ?case by (simp add: rel_def same_state_def)
next
  case 5 show ?case by (simp add: host_of_def)
next
  case 6 show ?case by (simp add: host_of_def)
next
  case 7 then show ?case by (simp add: rel_sets)
next
  case 8 then show ?case by (simp add: rel_sets)
next
  case 9 then show ?case by (simp add: rel_sets)
next
  case 10 then show ?case by (simp add: rel_def same_state_def)
next
  case (11 s t k a v s') then show ?case using read_same [of N s t k cfg a v s'] by simp
next
  case (12 s t k v a s') then show ?case using write_same [of N s t k cfg v a s'] by simp
next
  case (13 s t op inst s') then show ?case using float_same [of N s t cfg op inst s'] by (simp add: host_of_def)
qed

definition same_npc :: "ooo_cfg \<Rightarrow> 64 word \<Rightarrow> 64 word \<Rightarrow> bool \<Rightarrow> bool" where
  "same_npc cfg a b t \<longleftrightarrow> a = b \<and> syscall_ok (o_syscall cfg)"

lemma syscall_same:
  assumes r: "rel (same_npc cfg) w s" and f: "oSYSCALL cfg inst w = Inr w'"
  shows "\<exists>s'. fast_syscall (o_syscall cfg) inst s = Inr s' \<and> rel (same_npc cfg) w' s'"
proof -
  have st: "same_state w s" "reg_NPC w = regs_NPC (regs s)" and ok: "syscall_ok (o_syscall cfg)"
    using r by (simp_all add: rel_def same_npc_def)
  have regs: "regs_of w = regs s" using st by (simp add: regs_of_def same_state_def)
  obtain r1 m1 where w': "o_syscall cfg inst (regs s, omem w) = Inr (r1, m1)" "w' = (put_regs r1 w)\<lparr>omem := m1\<rparr>"
    using f unfolding oSYSCALL_def regs by (auto simp: cbind_Inr_iff split: if_splits)
  obtain m1' where "o_syscall cfg inst (regs s, fmem s) = Inr (r1, m1')" "same_mem m1 m1'"
    using ok w'(1) st(1) unfolding syscall_ok_def same_state_def by blast
  then show ?thesis using st(1) ok unfolding w'(2)
    by (auto simp: fast_syscall_def rel_def same_npc_def same_state_def clean_regs_def put_regs_def)
qed

interpretation run: insn_sim "ooo_hooks cfg" "fast_hooks (host_of cfg)" "rel (same_npc cfg)" for cfg
proof (unfold_locales, goal_cases)
  case 1 then show ?case by (simp add: rel_def same_npc_def same_state_def set_NPC_def upd_regs_def)
next
  case 2 then show ?case by (simp add: rel_def same_npc_def same_state_def)
next
  case (3 s t inst s') then show ?case using syscall_same [of cfg s t inst s'] by (simp add: host_of_def)
qed

subsection \<open>One instruction\<close>

text \<open>The rows of the compressed jumps carry the flag that \<open>next_pc\<close> asks for.\<close>

fun row_ctrl :: "mdef \<Rightarrow> bool" where
  "row_ctrl (DEFINST (C y) msk res flags outs ins) \<longleftrightarrow> (jumps_c y \<and> y \<noteq> C_EBREAK \<longrightarrow> flags AND F_CTRL \<noteq> 0)"
| "row_ctrl _ \<longleftrightarrow> True"

lemma rows_ctrl: "list_all row_ctrl machine_def"
  by code_simp

lemma inst_row_ctrl:
  assumes "list_all row_ctrl ds" "inst_row (C y) ds = Some (res, flags, outs, ins)" "jumps_c y" "y \<noteq> C_EBREAK"
  shows "flags AND F_CTRL \<noteq> 0"
  using assms
proof (induction ds)
  case (Cons d ds)
  show ?case
  proof (cases "\<exists>msk res' flags' outs' ins'. d = DEFINST (C y) msk res' flags' outs' ins'")
    case True
    then show ?thesis using Cons.prems by auto
  next
    case False
    then have "inst_row (C y) (d # ds) = inst_row (C y) ds" by (cases d) auto
    then show ?thesis using Cons by simp
  qed
qed simp

lemma jump_ctrl:
  assumes "inst_row (C y) machine_def \<noteq> None" "jumps_c y" "y \<noteq> C_EBREAK"
  shows "RvDecode.md_op2flags (Inst (C y)) AND F_CTRL \<noteq> 0"
  using assms inst_row_ctrl [OF rows_ctrl, of y] by auto

definition supported :: "insn \<Rightarrow> bool" where
  "supported x \<longleftrightarrow> x \<noteq> Amo SC_W \<and> x \<noteq> Amo SC_D \<and> x \<noteq> C C_EBREAK \<and> inst_row x machine_def \<noteq> None"

definition pc_after :: "insn \<Rightarrow> 32 word \<Rightarrow> fast \<Rightarrow> 64 word" where
  "pc_after x inst s = regs_PC (regs (next_pc (Inst x) inst s))"

lemma pc_after:
  "pc_after x inst s = regs_NPC (regs s) - (if INST_IsCompressed inst
     \<and> (RvDecode.md_op2flags (Inst x) AND F_CTRL = 0 \<or> \<not> IsCtrlInstTaken s) then 2 else 0)"
  unfolding pc_after_def next_pc_def Let_def by (auto simp: set_PC_def set_NPC_def upd_regs_def)

text \<open>The compressed jumps; \<open>b\<close> is the difference of the two next-PC registers before a jump.\<close>

lemma same_tpc [simp]: "same_state (w\<lparr>target_PC := v\<rparr>) s = same_state w s"
  and same_npc' [simp]: "same_state (w\<lparr>reg_NPC := v\<rparr>) s = same_state w s"
  and same_ctrl [simp]: "same_state (w\<lparr>octrl_taken := b\<rparr>) s = same_state w s"
  and same_fast [simp]: "same_state w (set_NPC v s) = same_state w s" "same_state w (s\<lparr>IsCtrlInstTaken := b\<rparr>) = same_state w s"
  by (simp_all add: same_state_def set_NPC_def upd_regs_def)

lemma views_frame [simp]:
  "oGPR (w\<lparr>target_PC := v\<rparr>) = oGPR w" "oGPR (w\<lparr>reg_NPC := v\<rparr>) = oGPR w"
  by (simp_all add: oGPR_def fun_eq_iff)

lemma jump_same:
  assumes st: "same_state w s" and y: "jumps_c y" "y \<noteq> C_EBREAK"
    and npc: "reg_NPC w = regs_PC (regs s) + 2" "regs_NPC (regs s) = regs_PC (regs s) + 4" "\<not> IsCtrlInstTaken s"
    and e: "exec_insn (ooo_hooks cfg) (C y) inst w = Inr (fault_none, w')"
  shows "\<exists>s'. exec_insn (fast_hooks (host_of cfg)) (C y) inst s = Inr (fault_none, s') \<and> same_state w' s'
    \<and> (if IsCtrlInstTaken s' then reg_NPC w' = regs_NPC (regs s') else reg_NPC w' = regs_NPC (regs s') - 2)"
proof -
  note V = same_views [OF st]
  have pc: "cpu.regs_PC (mach w) = regs_PC (regs s)" using st by (simp add: same_state_def)
  have one: "host_shl64 (host_of cfg) = o_shl64 cfg" by (simp add: host_of_def)
  show ?thesis
    using y e npc st
    by (cases y) (auto simp: jumps_c_def exec_c_def jump_c_def branch_c_def finish_def DECLARE_FAULT_def Let_def V pc one
        npc_sets intro!: same_sets split: if_splits)
qed

lemma exec_same:
  assumes st: "same_state w s" "syscall_ok (o_syscall cfg)" and x: "supported x" "INST_IsCompressed inst \<longleftrightarrow> is_C x"
    and npc: "reg_NPC w = regs_PC (regs s) + ISCOMPRESS inst" "regs_NPC (regs s) = regs_PC (regs s) + 4" "\<not> IsCtrlInstTaken s"
    and e: "exec_insn (ooo_hooks cfg) x inst w = Inr (fault_none, w')"
  shows "\<exists>s'. exec_insn (fast_hooks (host_of cfg)) x inst s = Inr (fault_none, s') \<and> same_state w' s'
    \<and> pc_after x inst s' = reg_NPC w'"
proof (cases "is_C x")
  case False
  then have n: "reg_NPC w = regs_NPC (regs s)" using npc x(2) by (simp add: ISCOMPRESS_def)
  have "rel (same_npc cfg) w s" using st n by (simp add: rel_def same_npc_def)
  from run.sims_insn [OF this, of x inst] obtain s' where
    "exec_insn (fast_hooks (host_of cfg)) x inst s = Inr (fault_none, s')" "rel (same_npc cfg) w' s'"
    using e x(1) False by (auto simp: dat.sims_def supported_def)
  then show ?thesis using x(2) False by (auto simp: rel_def same_npc_def pc_after)
next
  case True
  then obtain y where y: "x = C y" "y \<noteq> C_EBREAK" using x(1) by (auto simp: is_C_def supported_def split: insn.splits)
  have two: "reg_NPC w = regs_PC (regs s) + 2" using npc(1) x(2) True by (simp add: ISCOMPRESS_def)
  show ?thesis
  proof (cases "jumps_c y")
    case False
    let ?N = "\<lambda>a b t. a = regs_PC (regs s) + 2 \<and> b = regs_PC (regs s) + 4 \<and> \<not> t"
    have "rel ?N w s" using st(1) two npc by (simp add: rel_def)
    from dat.sims_c_data [OF this False, of cfg inst] obtain s' where
      "exec_c (fast_hooks (host_of cfg)) y inst s = Inr (fault_none, s')" "rel ?N w' s'"
      using e by (auto simp: dat.sims_def y(1))
    then show ?thesis using x(2) True by (auto simp: rel_def pc_after y(1))
  next
    case jump: True
    have "RvDecode.md_op2flags (Inst (C y)) AND F_CTRL \<noteq> 0"
      using jump_ctrl [of y] x(1) jump y by (simp add: supported_def)
    then show ?thesis
      using jump_same [OF st(1) jump y(2) two npc(2,3) e [unfolded y(1)]] x(2) True unfolding y(1) pc_after by auto
  qed
qed

end
