(* ===== verification/HooksKeep.thy ===== *)
theory HooksKeep
  imports RvExec
begin

text \<open>
  What an engine may rely on when it runs riscv.def: an invariant that every accessor macro keeps
  is kept by every instruction. The locale is the contract of the macros; the simulators
  discharge it for their own.
\<close>

locale keeps =
  fixes h :: "'s hooks" and P :: "'s \<Rightarrow> bool"
  assumes set_gpr: "P s \<Longrightarrow> P (SET_GPR h n v s)"
    and set_fpr: "P s \<Longrightarrow> P (SET_FPRD_Q h n v s)"
    and set_csr: "P s \<Longrightarrow> P (SET_CSRS h n v s)"
    and set_npc: "P s \<Longrightarrow> P (SET_NPC h v s)"
    and set_tpc: "P s \<Longrightarrow> P (SET_TPC h v s)"
    and set_ctrl: "P s \<Longrightarrow> P (CtrlInstTaken h b s)"
    and set_lrsc: "P s \<Longrightarrow> P (SET_LRSC h l s)"
    and read_mem: "P s \<Longrightarrow> READ h k a s = Inr (v, fault, s') \<Longrightarrow> P s'"
    and write_mem: "P s \<Longrightarrow> WRITE h k v a s = Inr (fault, s') \<Longrightarrow> P s'"
    and syscall: "P s \<Longrightarrow> SYSCALL h inst s = Inr s' \<Longrightarrow> P s'"
    and float: "P s \<Longrightarrow> FLOAT h op inst s = Inr s' \<Longrightarrow> P s'"
begin

definition kept :: "'s exec_res \<Rightarrow> bool" where
  "kept r \<longleftrightarrow> (\<forall>fault s. r = Inr (fault, s) \<longrightarrow> P s)"

lemmas sets = set_gpr set_fpr set_csr set_npc set_tpc set_ctrl set_lrsc

lemma kept_simps [simp]:
  "kept (finish s) = P s" "kept (DECLARE_FAULT f s) = P s" "kept (Inl e)"
  by (auto simp: kept_def finish_def DECLARE_FAULT_def)

lemma kept_load: "P s \<Longrightarrow> (\<And>v s'. P s' \<Longrightarrow> kept (k v s')) \<Longrightarrow> kept (load h n a s k)"
  by (auto simp: load_def cbind_Inr_iff kept_def DECLARE_FAULT_def split: if_splits dest: read_mem)

lemma kept_store: "P s \<Longrightarrow> (\<And>s'. P s' \<Longrightarrow> kept (k s')) \<Longrightarrow> kept (store h n v a s k)"
  by (auto simp: store_def cbind_Inr_iff kept_def DECLARE_FAULT_def split: if_splits dest: write_mem)

lemma kept_store_opt: "P s \<Longrightarrow> (\<And>s'. P s' \<Longrightarrow> kept (k s')) \<Longrightarrow> kept (store_opt h n v a s k)"
  by (auto simp: store_opt_def kept_store split: option.splits)

lemma kept_syscall: "P s \<Longrightarrow> kept (cbind (SYSCALL h i s) finish)"
  by (auto simp: kept_def cbind_Inr_iff finish_def dest: syscall)

lemma kept_float: "P s \<Longrightarrow> kept (cbind (FLOAT h op i s) finish)"
  by (auto simp: kept_def cbind_Inr_iff finish_def dest: float)

lemmas kept_intros = kept_load kept_store kept_store_opt kept_syscall kept_float

lemma kept_u: "P s \<Longrightarrow> kept (exec_u h x inst s)"
  by (cases x) (auto simp: Let_def intro!: sets)

lemma kept_branch: "P s \<Longrightarrow> kept (exec_branch h x inst s)"
  by (auto simp: exec_branch_def Let_def intro!: sets)

lemma kept_mem: "P s \<Longrightarrow> kept (exec_load h x inst s)" "P s \<Longrightarrow> kept (exec_store h y inst s)"
  by (auto simp: exec_load_def exec_store_def intro!: kept_intros sets)

lemma kept_int:
  "P s \<Longrightarrow> kept (exec_imm h x inst s)" "P s \<Longrightarrow> kept (exec_reg h y inst s)" "P s \<Longrightarrow> kept (exec_mul h z inst s)"
  by (auto simp: exec_imm_def exec_reg_def exec_mul_def kept_def cbind_Inr_iff finish_def intro!: sets)

lemma sync_keeps: "P s \<Longrightarrow> P (sync_read h c s)" "P s \<Longrightarrow> P (sync_write h c s)" "P s \<Longrightarrow> P (csr_write h c v s)"
  by (auto simp: sync_read_def sync_write_def csr_write_def Let_def intro!: sets)

lemma kept_csr: "P s \<Longrightarrow> kept (exec_csr h x inst s)"
  by (cases x) (auto simp: Let_def intro!: sets sync_keeps)

lemma kept_sys: "P s \<Longrightarrow> kept (exec_sys h x inst s)"
  by (cases x) (auto simp: xret_def Let_def intro!: kept_intros sets)

lemma kept_sc: "P s \<Longrightarrow> kept (exec_sc h n inst s)"
proof -
  assume s: "P s"
  have "kept (store h n v a s1 (\<lambda>s2. finish (SET_LRSC h lrsc_init (SET_GPR h r 0 s2))))" if "P s1" for n v a s1 r
    using that by (auto intro!: kept_store sets)
  then show ?thesis using s
    by (auto simp: exec_sc_def Let_def kept_def cbind_Inr_iff finish_def split: if_splits dest: read_mem intro!: sets)
qed

lemma kept_amo: "P s \<Longrightarrow> kept (exec_amo h x inst s)"
proof -
  assume s: "P s"
  have "kept (exec_amo_w h x inst s)" "kept (exec_amo_d h x inst s)" for x
    using s by (auto simp: exec_amo_w_def exec_amo_d_def Let_def intro!: kept_intros sets)
  moreover have "kept (exec_lr h n conv inst s)" for n conv
    using s by (auto simp: exec_lr_def Let_def intro!: kept_intros sets)
  ultimately show ?thesis using kept_sc [OF s] by (cases x) simp_all
qed

lemma kept_fp_moves: "P s \<Longrightarrow> kept (load_fp h n b r a s)" "P s \<Longrightarrow> kept (store_fp h n r a s)"
  by (auto simp: load_fp_def store_fp_def intro!: kept_intros sets)

lemma kept_fp: "P s \<Longrightarrow> kept (exec_fp h x inst s)"
  by (cases x) (simp_all add: kept_fp_moves kept_float)

lemma kept_c_parts:
  "P s \<Longrightarrow> kept (load_gpr h x r a s)" "P s \<Longrightarrow> kept (store_gpr h y r a s)" "P s \<Longrightarrow> kept (set_or_fault h b r v s)"
  "P s \<Longrightarrow> P (jump_c h t s)" "P s \<Longrightarrow> P (branch_c h z inst s)"
  by (auto simp: load_gpr_def store_gpr_def set_or_fault_def jump_c_def branch_c_def Let_def intro!: kept_intros sets)

lemma kept_c: "P s \<Longrightarrow> kept (exec_c h x inst s)"
  by (cases x) (auto simp: exec_c_def Let_def kept_c_parts kept_fp_moves kept_syscall intro!: sets)

lemma exec_insn_keeps: "P s \<Longrightarrow> exec_insn h x inst s = Inr (fault, s') \<Longrightarrow> P s'"
proof -
  assume s: "P s" and e: "exec_insn h x inst s = Inr (fault, s')"
  have "kept (exec_insn h x inst s)"
    using s by (cases x) (simp_all add: kept_u kept_branch kept_mem kept_int kept_csr kept_sys kept_amo kept_fp kept_c)
  then show "P s'" using e by (simp add: kept_def)
qed

end

end
