(* ===== verification/FrontFrames.thy ===== *)
theory FrontFrames
  imports StageKeeps FastSim HooksKeep
begin

text \<open>
  The two instances of the contract of StageKeeps: \<open>front\<close>, what the back end shows of the front end,
  which only recovery, dispatch and fetch change, and \<open>window\<close>, the bookkeeping of the two rings,
  which only commit, recovery and dispatch change.
\<close>

definition front :: "cpu \<Rightarrow> (bool \<times> 64 word \<times> 64 word) \<times> (nat \<times> nat \<times> nat) \<times> bitmap \<times> bitmap \<times> bitmap" where
  "front c = ((spec_mode c, recover_PC c, fetch_pred_PC c), (fetch_num c, fetch_head c, fetch_tail c),
     use_spec_R c, use_spec_F c, use_spec_C c)"

definition window :: "cpu \<Rightarrow> (nat \<times> nat \<times> nat \<times> bool list) \<times> nat \<times> nat \<times> nat \<times> nat" where
  "window c = ((RUU_head c, RUU_tail c, RUU_num c, map rs_ea_comp (RUU c)), LSQ_head c, LSQ_tail c, LSQ_num c, length (LSQ c))"

lemma front_upd_rs [simp]: "front (upd_rs r f c) = front c"
  by (cases r) (simp_all add: front_def upd_rs_def)

lemma window_upd_rs: "(\<And>s. rs_ea_comp (f s) = rs_ea_comp s) \<Longrightarrow> window (upd_rs r f c) = window c"
proof (cases r)
  case (InRUU i)
  assume "\<And>s. rs_ea_comp (f s) = rs_ea_comp s"
  moreover have "map rs_ea_comp ((RUU c)[i := f (RUU c ! i)]) = (map rs_ea_comp (RUU c))[i := rs_ea_comp (f (RUU c ! i))]"
    by (rule map_update)
  moreover have "(map rs_ea_comp (RUU c))[i := rs_ea_comp (RUU c ! i)] = map rs_ea_comp (RUU c)"
    by (cases "i < length (RUU c)") (simp_all flip: map_update)
  ultimately show ?thesis using InRUU by (simp add: window_def upd_rs_def)
qed (simp add: window_def upd_rs_def)

interpretation fr: commit_keeps "\<lambda>c. front c = v" for v
  by unfold_locales (simp_all, simp_all add: front_def)

interpretation wi: back_end_keeps "\<lambda>c. window c = v" for v
  by unfold_locales (simp_all add: window_upd_rs, simp_all add: window_def)

subsection \<open>The front end through the back end\<close>

lemmas front_frame =
  fr.squash [OF refl, unfolded fr.keeps_def, rule_format]
  fr.lsq_scan [OF refl, unfolded fr.keeps_def, rule_format]
  fr.issue [OF refl, unfolded fr.keeps_def, rule_format]
  fr.broadcasts [OF refl, unfolded fr.keeps_def, rule_format]
  fr.completes [OF refl, unfolded fr.keeps_def, rule_format]
  fr.pred_update [OF refl, unfolded fr.keeps_def, rule_format]
  fr.eventq_next [OF refl, unfolded fr.keeps2_def, rule_format]
  fr.store_commit [OF refl, unfolded fr.keeps2_def, rule_format]
  fr.ideps [OF refl, unfolded fr.keeps_def, rule_format]
  fr.enqueue [OF refl, unfolded fr.keeps_def, rule_format]
  fr.odep_list [OF refl] fr.late [OF refl]

lemmas window_frame =
  wi.squash [OF refl, unfolded wi.keeps_def, rule_format]
  wi.lsq_scan [OF refl, unfolded wi.keeps_def, rule_format]
  wi.issue [OF refl, unfolded wi.keeps_def, rule_format]
  wi.broadcasts [OF refl, unfolded wi.keeps_def, rule_format]
  wi.completes [OF refl, unfolded wi.keeps_def, rule_format]
  wi.pred_update [OF refl, unfolded wi.keeps_def, rule_format]
  wi.eventq_next [OF refl, unfolded wi.keeps2_def, rule_format]
  wi.store_commit [OF refl, unfolded wi.keeps2_def, rule_format]
  wi.ideps [OF refl, unfolded wi.keeps_def, rule_format]
  wi.enqueue [OF refl, unfolded wi.keeps_def, rule_format]
  wi.odep_list [OF refl] wi.late [OF refl]

lemmas front_commit = fr.commit [OF refl, unfolded fr.keeps_def, rule_format]

lemma front_recover: "ruu_recover i c = Inr c' \<Longrightarrow> front c' = front c"
proof -
  have m: "squash_mem ri li lp c = Inr (c', p) \<Longrightarrow> front c' = front c" for ri li lp c c' p
  proof -
    have n: "front (d\<lparr>LSQ_num := x\<rparr>) = front d" for d x by (simp add: front_def)
    show "squash_mem ri li lp c = Inr (c', p) \<Longrightarrow> front c' = front c"
      by (auto simp: squash_mem_def cbind_Inr_iff n split: if_splits dest!: front_frame(1))
  qed
  have n: "front (d\<lparr>RUU_num := x\<rparr>) = front d" "front (d\<lparr>RUU_tail := x, LSQ_tail := y\<rparr>) = front d"
    "front (d\<lparr>use_spec_cv := b\<rparr>) = front d" for d x y b by (simp_all add: front_def)
  have l: "recover_loop k b ri li rp lp c = Inr c' \<Longrightarrow> front c' = front c" for k b ri li rp lp c c'
  proof (induction k arbitrary: ri li rp lp c)
    case (Suc k)
    show ?case
    proof (cases "ri = b")
      case True
      then show ?thesis using Suc.prems by (auto simp: n)
    next
      case False
      then obtain c1 li' lp' c2 where "squash_mem ri li lp c = Inr (c1, li', lp')" "squash (InRUU ri) c1 = Inr c2"
        "recover_loop k b (prev_slot (length (RUU c2)) ri) li' ri lp' (c2\<lparr>RUU_num := RUU_num c2 - 1\<rparr>) = Inr c'"
        using Suc.prems by (auto simp: cbind_Inr_iff split: if_splits)
      then show ?thesis using Suc.IH m front_frame(1) by (metis n(1))
    qed
  qed simp
  show "ruu_recover i c = Inr c' \<Longrightarrow> front c' = front c"
    by (auto simp: ruu_recover_def cbind_Inr_iff n simp del: recover_loop.simps dest!: l)
qed

end
