(* ===== verification/FrontCorrect.thy ===== *)
theory FrontCorrect
  imports FrontFrames
begin

text \<open>
  The fetch queue as a list, and fetch on it: the ring between fetch and dispatch holds a chain of
  entries, each at the address the one before predicted, and fetch puts the words in memory at
  the predicted addresses behind it. Registers and memory bytes are not touched.
\<close>

subsection \<open>The ring as a list\<close>

definition queue :: "ooo_cfg \<Rightarrow> ooo \<Rightarrow> fetch_rec list" where
  "queue cfg w = map (\<lambda>i. fetch_data w ! ((fetch_head (mach w) + i) mod ruu_ifq_size cfg)) [0..<fetch_num (mach w)]"

definition ifq_ok :: "ooo_cfg \<Rightarrow> bool" where "ifq_ok cfg \<longleftrightarrow> (\<exists>k \<le> 31. ruu_ifq_size cfg = 2 ^ k)"

definition queue_ok :: "ooo_cfg \<Rightarrow> ooo \<Rightarrow> bool" where
  "queue_ok cfg w \<longleftrightarrow> length (fetch_data w) = ruu_ifq_size cfg \<and> fetch_head (mach w) < ruu_ifq_size cfg
     \<and> fetch_num (mach w) \<le> ruu_ifq_size cfg
     \<and> fetch_tail (mach w) = (fetch_head (mach w) + fetch_num (mach w)) mod ruu_ifq_size cfg"

fun chained :: "64 word \<Rightarrow> fetch_rec list \<Rightarrow> 64 word \<Rightarrow> bool" where
  "chained pc [] q \<longleftrightarrow> pc = q"
| "chained pc (f # fs) q \<longleftrightarrow> fr_regs_PC f = pc \<and> chained (fr_pred_PC f) fs q"

lemma chained_append: "chained p (xs @ ys) q \<longleftrightarrow> (\<exists>r. chained p xs r \<and> chained r ys q)"
  by (induction xs arbitrary: p) auto

lemma ifq_mask: "ifq_ok cfg \<Longrightarrow> n AND (ruu_ifq_size cfg - 1) = n mod ruu_ifq_size cfg"
proof -
  assume "ifq_ok cfg"
  then obtain k where k: "ruu_ifq_size cfg = 2 ^ k" by (auto simp: ifq_ok_def)
  have "n AND mask k = n mod 2 ^ k" by (simp add: take_bit_eq_mod flip: take_bit_eq_mask)
  then show ?thesis by (simp add: k mask_eq_exp_minus_1)
qed

lemma ifq_pos: "ifq_ok cfg \<Longrightarrow> 0 < ruu_ifq_size cfg"
  by (auto simp: ifq_ok_def)

lemma queue_length [simp]: "length (queue cfg w) = fetch_num (mach w)"
  by (simp add: queue_def)

lemma queue_nth: "i < fetch_num (mach w) \<Longrightarrow> queue cfg w ! i = fetch_data w ! ((fetch_head (mach w) + i) mod ruu_ifq_size cfg)"
  by (simp add: queue_def)

lemma queue_head: "queue_ok cfg w \<Longrightarrow> fetch_num (mach w) \<noteq> 0 \<Longrightarrow> queue cfg w = head_rec w # tl (queue cfg w)"
proof -
  assume ok: "queue_ok cfg w" and n: "fetch_num (mach w) \<noteq> 0"
  have "queue cfg w \<noteq> []" using n by (auto simp: queue_def)
  moreover have "hd (queue cfg w) = head_rec w"
    using ok n by (simp add: queue_def head_rec_def queue_ok_def hd_map)
  ultimately show ?thesis by (metis list.collapse)
qed

lemma ring_slot:
  assumes "i < n" "n < k" "0 < (k :: nat)"
  shows "(h + i) mod k \<noteq> (h + n) mod k"
proof
  assume eq: "(h + i) mod k = (h + n) mod k"
  obtain j where "h + n = h + i + k * j"
    using mod_eq_nat1E [OF eq [symmetric]] assms(1) by auto
  then show False using assms by (cases j) auto
qed

lemma enqueue_queue:
  assumes q: "ifq_ok cfg" "queue_ok cfg w" and n: "fetch_num (mach w) < ruu_ifq_size cfg"
  shows "queue cfg (enqueue_fetch cfg r w) = queue cfg w @ [r]" "queue_ok cfg (enqueue_fetch cfg r w)"
proof -
  let ?k = "ruu_ifq_size cfg" and ?h = "fetch_head (mach w)" and ?n = "fetch_num (mach w)"
  have Q: "length (fetch_data w) = ?k" "?h < ?k" "fetch_tail (mach w) = (?h + ?n) mod ?k"
    using q(2) by (simp_all add: queue_ok_def)
  have m: "i AND (?k - Suc 0) = i mod ?k" for i using ifq_mask [OF q(1), of i] by simp
  have "(fetch_data w)[(?h + ?n) mod ?k := r] ! ((?h + i) mod ?k) = (if i = ?n then r else fetch_data w ! ((?h + i) mod ?k))"
    if "i \<le> ?n" for i
    using ring_slot [of i ?n ?k ?h] that n Q(1) by (auto simp: nth_list_update)
  then show "queue cfg (enqueue_fetch cfg r w) = queue cfg w @ [r]"
    by (intro nth_equalityI) (auto simp: queue_def enqueue_fetch_def upd_cpu_def Q(3) nth_append less_Suc_eq)
  show "queue_ok cfg (enqueue_fetch cfg r w)"
    using Q n by (simp add: queue_ok_def enqueue_fetch_def upd_cpu_def m mod_Suc_eq)
qed

subsection \<open>One word\<close>

text \<open>The instruction word at an address: a halfword when it is compressed.\<close>

definition word_at_pc :: "(64 word \<Rightarrow> 8 word) \<Rightarrow> 64 word \<Rightarrow> 32 word" where
  "word_at_pc f pc =
     (let lo = low32 (le_word (get f pc 2))
      in if INST_IsCompressed lo then lo else low32 (le_word (get f pc 4)))"

lemma md_fetch_inst_word:
  assumes wf: "mem_wf (fmem s)" and even: "\<not> bit (regs_PC (regs s)) 0"
  shows "\<exists>m k. md_fetch_inst s = Inr (word_at_pc (mem_byte (fmem s)) (regs_PC (regs s)), s\<lparr>fmem := m, mem_cross_page_refs := k\<rparr>)
    \<and> mem_wf m \<and> mem_byte m = mem_byte (fmem s)"
proof (cases "INST_IsCompressed (low32 (le_word (get (mem_byte (fmem s)) (regs_PC (regs s)) 2)))")
  case True
  obtain m where "mem_read_n 2 (regs_PC (regs s)) (fmem s) = Inr (le_word (get (mem_byte (fmem s)) (regs_PC (regs s)) 2), m)"
    "mem_wf m" "mem_byte m = mem_byte (fmem s)" using mem_wf_read [OF wf even_in_page [OF even]] by blast
  then show ?thesis using True
    by (intro exI [of _ m] exI [of _ "mem_cross_page_refs s"]) (simp add: md_fetch_inst_def word_at_pc_def Let_def)
next
  case False
  let ?f = "mem_byte (fmem s)" and ?pc = "regs_PC (regs s)"
  have "bit (low32 (le_word (get ?f ?pc 2))) n = bit (low32 (le_word (get ?f ?pc 4))) n" if "n < 2" for n
    using that by (simp add: le_word_4 low32_def bit_unsigned_iff bit_or_iff bit_push_bit_iff)
  then have "\<not> INST_IsCompressed (low32 (le_word (get ?f ?pc 4)))"
    using False by (simp add: INST_IsCompressed_def low2_of_word)
  from md_fetch_inst_result [OF wf even refl this] obtain m k where
    "md_fetch_inst s = Inr (low32 (le_word (get ?f ?pc 4)), s\<lparr>fmem := m, mem_cross_page_refs := k\<rparr>)"
    "mem_wf m" "mem_byte m = ?f" by blast
  moreover have "word_at_pc ?f ?pc = low32 (le_word (get ?f ?pc 4))" using False by (simp add: word_at_pc_def)
  ultimately show ?thesis by (intro exI [of _ m] exI [of _ k]) simp
qed

lemma even_pc: "pc AND 1 = 0 \<longleftrightarrow> \<not> bit (pc :: 64 word) 0"
  by (metis and_one_eq bit_0 even_iff_mod_2_eq_zero)

lemma fetch_inst_word:
  assumes "mem_wf (omem w)" "pc AND 1 = 0"
  shows "\<exists>m k. fetch_inst pc w = Inr (word_at_pc (mem_byte (omem w)) pc, w\<lparr>omem := m, cross_refs := k\<rparr>)
    \<and> mem_wf m \<and> mem_byte m = mem_byte (omem w)"
proof -
  let ?s = "set_PC pc (sim_init\<lparr>fmem := omem w, mem_cross_page_refs := cross_refs w\<rparr>)"
  have s: "fmem ?s = omem w" "regs_PC (regs ?s) = pc" by simp_all
  have e: "\<not> bit (regs_PC (regs ?s)) 0" using assms(2) even_pc [of pc] by simp
  obtain m k where "md_fetch_inst ?s = Inr (word_at_pc (mem_byte (omem w)) pc, ?s\<lparr>fmem := m, mem_cross_page_refs := k\<rparr>)"
    "mem_wf m" "mem_byte m = mem_byte (omem w)"
    using md_fetch_inst_word [of ?s] assms(1) e unfolding s by blast
  then show ?thesis by (intro exI [of _ m] exI [of _ k]) (simp add: fetch_inst_def)
qed

subsection \<open>Fetch\<close>

definition only_mach :: "ooo \<Rightarrow> ooo \<Rightarrow> bool" where
  "only_mach w w' \<longleftrightarrow> w' = w\<lparr>mach := mach w'\<rparr> \<and> front (mach w') = front (mach w) \<and> window (mach w') = window (mach w)"

lemma only_mach_refl [simp]: "only_mach w w" by (simp add: only_mach_def)

lemma only_mach_trans: "only_mach w w1 \<Longrightarrow> only_mach w1 w2 \<Longrightarrow> only_mach w w2"
  unfolding only_mach_def by (metis ooo.surjective ooo.update_convs(1))

lemma only_mach_upd: "(\<And>c. front (g c) = front c) \<Longrightarrow> (\<And>c. window (g c) = window c) \<Longrightarrow> only_mach w (upd_cpu g w)"
  by (simp add: only_mach_def upd_cpu_def)

lemma front_upds [simp]:
  "front (hier_update g c) = front c" "front (pred_update g' c) = front c" "front (upd_td g'' c) = front c"
  "front (ruu_fetch_issue_delay_update u c) = front c" "front (fetch_regs_PC_update v c) = front c"
  by (simp_all add: front_def upd_td_def)

lemma window_upds [simp]:
  "window (hier_update g c) = window c" "window (pred_update g' c) = window c" "window (upd_td g'' c) = window c"
  "window (ruu_fetch_issue_delay_update u c) = window c" "window (fetch_regs_PC_update v c) = window c"
  by (simp_all add: window_def upd_td_def)

lemma inst_access_frame: "inst_access cfg k pc w = Inr (lat, w') \<Longrightarrow> only_mach w w'"
  by (auto simp: inst_access_def cbind_Inr_iff intro!: only_mach_upd)

lemma note_frame: "only_mach w (note_imiss b w)" "only_mach w (note_itlb b w)"
  by (auto simp: note_imiss_def note_itlb_def intro!: only_mach_upd)

lemma fetch_latency_frame:
  assumes "fetch_latency cfg pc w = Inr (lat, w')"
  shows "only_mach w w'"
proof -
  obtain l w1 where 1: "(case cache_il1 (hier (mach w)) of None \<Rightarrow> Inr (cache_il1_lat cfg, w)
      | Some k \<Rightarrow> cbind (inst_access cfg k pc w) (\<lambda>(lat, w1). Inr (lat, note_imiss (lat > cache_il1_lat cfg) w1))) = Inr (l, w1)"
    and 2: "(case itlb (hier (mach w1)) of None \<Rightarrow> Inr (l, w1)
      | Some k \<Rightarrow> cbind (inst_access cfg k pc w1) (\<lambda>(tlat, w2). Inr (max tlat l, note_itlb (tlat > 1) w2))) = Inr (lat, w')"
    using assms unfolding fetch_latency_def by (simp only: cbind_Inr_iff) auto
  have "only_mach w w1"
    using 1 by (auto simp: cbind_Inr_iff split: option.splits intro: only_mach_trans [OF inst_access_frame note_frame(1)])
  moreover have "only_mach w1 w'"
    using 2 by (auto simp: cbind_Inr_iff split: option.splits intro: only_mach_trans [OF inst_access_frame note_frame(2)])
  ultimately show ?thesis by (rule only_mach_trans)
qed

lemma predict_next_frame: "predict_next cfg inst pc du si w = Inr (t, npc, du', si', w') \<Longrightarrow> only_mach w w'"
proof (cases "pred (mach w)")
  case (Some p)
  assume h: "predict_next cfg inst pc du si w = Inr (t, npc, du', si', w')"
  have "w' = w \<or> (\<exists>p'. w' = upd_cpu (pred_update (\<lambda>_. Some p')) w)"
    using h unfolding predict_next_def Some option.case Let_def
    by (subst (asm) cbind_Inr_iff, elim exE conjE) (auto simp: cbind_Inr_iff split: if_splits)
  then show ?thesis by (auto intro!: only_mach_upd)
qed (auto simp: predict_next_def)

text \<open>What fetch keeps: everything the correct path depends on; the memory by its bytes.\<close>

definition fetch_keeps :: "ooo \<Rightarrow> ooo \<Rightarrow> bool" where
  "fetch_keeps w w' \<longleftrightarrow> reg_R w' = reg_R w \<and> reg_F w' = reg_F w \<and> reg_C w' = reg_C w \<and> olrsc w' = olrsc w
     \<and> mem_wf (omem w') \<and> mem_byte (omem w') = mem_byte (omem w) \<and> macro_total_count w' = macro_total_count w
     \<and> spec_mode (mach w') = spec_mode (mach w) \<and> recover_PC (mach w') = recover_PC (mach w)
     \<and> use_spec_R (mach w') = use_spec_R (mach w) \<and> use_spec_F (mach w') = use_spec_F (mach w)
     \<and> use_spec_C (mach w') = use_spec_C (mach w)"

lemma fetch_keeps_trans: "fetch_keeps w w1 \<Longrightarrow> fetch_keeps w1 w2 \<Longrightarrow> fetch_keeps w w2"
  by (simp add: fetch_keeps_def)

definition fetched_word :: "ooo_cfg \<Rightarrow> (64 word \<Rightarrow> 8 word) \<Rightarrow> 64 word \<Rightarrow> 32 word" where
  "fetched_word cfg f pc = (if in_text cfg pc then word_at_pc f pc else 0x13)"

lemma fetch_word_ok:
  assumes "fetch_word cfg pc w = Inr (r, w')" "mem_wf (omem w)"
  shows "front (mach w') = front (mach w) \<and> fetch_data w' = fetch_data w \<and> fetch_keeps w w'
    \<and> (case r of None \<Rightarrow> True | Some inst \<Rightarrow> inst = fetched_word cfg (mem_byte (omem w)) pc)"
proof (cases "in_text cfg pc")
  case False
  then show ?thesis using assms by (auto simp: fetch_word_def fetched_word_def fetch_keeps_def)
next
  case True
  obtain m k where fi: "fetch_inst pc w = Inr (word_at_pc (mem_byte (omem w)) pc, w\<lparr>omem := m, cross_refs := k\<rparr>)"
    "mem_wf m" "mem_byte m = mem_byte (omem w)"
    using fetch_inst_word [OF assms(2), of pc] True by (auto simp: in_text_def)
  obtain lat w2 where 2: "fetch_latency cfg pc (w\<lparr>omem := m, cross_refs := k\<rparr>) = Inr (lat, w2)"
    and 3: "(if lat \<noteq> cache_il1_lat cfg
      then Inr (None, upd_cpu (\<lambda>c. c\<lparr>ruu_fetch_issue_delay := ruu_fetch_issue_delay c + word_of_int (lat - 1)\<rparr>) w2)
      else Inr (Some (word_at_pc (mem_byte (omem w)) pc), w2)) = (Inr (r, w') :: (32 word option \<times> ooo) cres)"
  proof -
    have "cbind (fetch_latency cfg pc (w\<lparr>omem := m, cross_refs := k\<rparr>)) (\<lambda>(lat, w2).
        if lat \<noteq> cache_il1_lat cfg
        then Inr (None, upd_cpu (\<lambda>c. c\<lparr>ruu_fetch_issue_delay := ruu_fetch_issue_delay c + word_of_int (lat - 1)\<rparr>) w2)
        else Inr (Some (word_at_pc (mem_byte (omem w)) pc), w2)) = Inr (r, w')"
      using assms(1) True by (simp add: fetch_word_def fi(1))
    then show ?thesis unfolding cbind_Inr_iff split_paired_Ex prod.case by (elim exE conjE) (rule that)
  qed
  have "only_mach (w\<lparr>omem := m, cross_refs := k\<rparr>) w2" by (rule fetch_latency_frame [OF 2])
  moreover have "only_mach w2 w'" using 3 by (auto split: if_splits intro!: only_mach_upd)
  ultimately have o: "only_mach (w\<lparr>omem := m, cross_refs := k\<rparr>) w'" by (rule only_mach_trans)
  define c where "c = mach w'"
  have w': "w' = w\<lparr>omem := m, cross_refs := k, mach := c\<rparr>" "front c = front (mach w)"
    using o by (simp_all add: only_mach_def c_def)
  have "r = None \<or> r = Some (fetched_word cfg (mem_byte (omem w)) pc)"
    using 3 True by (auto simp: fetched_word_def split: if_splits)
  then show ?thesis using w' fi(2,3) by (auto simp: fetch_keeps_def front_def)
qed

text \<open>The entries fetch adds: each holds the word at its address and the address it predicts.\<close>

definition adds :: "ooo_cfg \<Rightarrow> ooo \<Rightarrow> fetch_rec list \<Rightarrow> ooo \<Rightarrow> bool" where
  "adds cfg w rs w' \<longleftrightarrow> queue cfg w' = queue cfg w @ rs \<and> queue_ok cfg w' \<and> fetch_keeps w w'
     \<and> chained (fetch_pred_PC (mach w)) rs (fetch_pred_PC (mach w'))
     \<and> (\<forall>r \<in> set rs. fr_IR r = fetched_word cfg (mem_byte (omem w)) (fr_regs_PC r))"

lemma adds_none: "queue_ok cfg w \<Longrightarrow> mem_wf (omem w) \<Longrightarrow> adds cfg w [] w"
  by (simp add: adds_def fetch_keeps_def)

lemma adds_trans: "adds cfg w rs w1 \<Longrightarrow> adds cfg w1 rs' w2 \<Longrightarrow> adds cfg w (rs @ rs') w2"
  unfolding adds_def using fetch_keeps_trans by (auto simp: chained_append fetch_keeps_def)

lemma fetch_one_adds:
  assumes ok: "ifq_ok cfg" "queue_ok cfg w" "mem_wf (omem w)" "fetch_num (mach w) < ruu_ifq_size cfg"
    and f: "fetch_one cfg si w = Inr (r, si', w')"
  shows "\<exists>rs. adds cfg w rs w' \<and> length rs \<le> 1"
proof -
  let ?pc = "fetch_pred_PC (mach w)" and ?w = "upd_cpu (\<lambda>c. c\<lparr>fetch_regs_PC := fetch_pred_PC (mach w)\<rparr>) w"
  obtain r1 w1 where 1: "fetch_word cfg ?pc ?w = Inr (r1, w1)"
    and 2: "(case r1 of None \<Rightarrow> Inr (None, si, w1) | Some inst \<Rightarrow>
      cbind (predict_next cfg inst ?pc (fr_dir_update (fetch_data w1 ! fetch_tail (mach w1))) si w1)
            (\<lambda>(t, npc, du, sidx', w2).
          Inr (Some t, sidx', enqueue_fetch cfg
            \<lparr>fr_IR = inst, fr_regs_PC = ?pc, fr_pred_PC = npc, fr_dir_update = du, fr_stack_recover_idx = sidx'\<rparr> w2)))
      = Inr (r, si', w')"
    using f unfolding fetch_one_def Let_def by (simp only: cbind_Inr_iff) auto
  have w0: "front (mach ?w) = front (mach w)" "fetch_keeps w ?w"
    using ok(3) by (simp_all add: fetch_keeps_def)
  from fetch_word_ok [OF 1] ok(3) have w1: "front (mach w1) = front (mach w)" "fetch_data w1 = fetch_data w" "fetch_keeps ?w w1"
    "r1 = None \<or> r1 = Some (fetched_word cfg (mem_byte (omem w)) ?pc)"
    using w0(1) by (auto split: option.splits)
  have k1: "fetch_keeps w w1" by (rule fetch_keeps_trans [OF w0(2) w1(3)])
  have q1: "queue cfg w1 = queue cfg w" "queue_ok cfg w1" "fetch_pred_PC (mach w1) = ?pc"
    using w1(1,2) ok(2) by (simp_all add: queue_def queue_ok_def front_def)
  show ?thesis
  proof (cases r1)
    case None
    then show ?thesis using 2 q1 k1 by (intro exI [of _ "[]"]) (auto simp: adds_def)
  next
    case (Some inst)
    then obtain t npc du si2 w2 where p: "predict_next cfg inst ?pc (fr_dir_update (fetch_data w1 ! fetch_tail (mach w1))) si w1
        = Inr (t, npc, du, si2, w2)"
      and e2: "(Inr (Some t, si2, enqueue_fetch cfg \<lparr>fr_IR = inst, fr_regs_PC = ?pc, fr_pred_PC = npc, fr_dir_update = du,
        fr_stack_recover_idx = si2\<rparr> w2) :: (bool option \<times> int \<times> ooo) cres) = Inr (r, si', w')"
      using 2 [unfolded Some option.case cbind_Inr_iff split_paired_Ex prod.case] by (elim exE conjE) (rule that)
    have w': "w' = enqueue_fetch cfg \<lparr>fr_IR = inst, fr_regs_PC = ?pc, fr_pred_PC = npc, fr_dir_update = du,
        fr_stack_recover_idx = si'\<rparr> w2" using e2 by auto
    obtain c2 where o: "w2 = w1\<lparr>mach := c2\<rparr>" "front c2 = front (mach w1)"
      using predict_next_frame [OF p] unfolding only_mach_def by blast
    have fd: "fetch_data w2 = fetch_data w1" "fetch_keeps w1 w2"
      using k1 o(2) by (simp_all add: o(1) fetch_keeps_def front_def)
    have q2: "queue cfg w2 = queue cfg w" "queue_ok cfg w2" "fetch_num (mach w2) < ruu_ifq_size cfg"
      using q1 o(2) w1(1) ok(4) by (simp_all add: o(1) queue_def queue_ok_def front_def)
    have e: "fetch_keeps w2 w'" "fetch_pred_PC (mach w') = npc"
      using fd(2) unfolding w' by (simp_all add: fetch_keeps_def enqueue_fetch_def upd_cpu_def)
    have "adds cfg w [\<lparr>fr_IR = inst, fr_regs_PC = ?pc, fr_pred_PC = npc, fr_dir_update = du, fr_stack_recover_idx = si'\<rparr>] w'"
      unfolding adds_def using enqueue_queue [OF ok(1) q2(2,3)] q2(1) fetch_keeps_trans [OF k1 fetch_keeps_trans [OF fd(2) e(1)]]
        e(2) w1(4) Some unfolding w' by simp
    then show ?thesis by (metis One_nat_def length_Cons list.size(3) order_refl)
  qed
qed

lemma fetch_loop_adds:
  assumes "ifq_ok cfg" "queue_ok cfg w" "mem_wf (omem w)" "fetch_loop cfg k b si w = Inr w'"
  shows "\<exists>rs. adds cfg w rs w' \<and> length rs \<le> k"
  using assms(2-4)
proof (induction k arbitrary: b si w)
  case 0
  then show ?case using adds_none [of cfg w] by (intro exI [of _ "[]"]) simp
next
  case (Suc k)
  show ?case
  proof (cases "fetch_num (mach w) < ruu_ifq_size cfg")
    case False
    then show ?thesis using Suc.prems adds_none [OF Suc.prems(1,2)] by (intro exI [of _ "[]"]) simp
  next
    case True
    then obtain r si' w1 where 1: "fetch_one cfg si w = Inr (r, si', w1)"
      and 2: "(case r of None \<Rightarrow> Inr w1 | Some t \<Rightarrow> if t \<and> fetch_speed cfg \<le> b + 1 then Inr w1
          else fetch_loop cfg k (if t then b + 1 else b) si' w1) = (Inr w' :: ooo cres)"
    proof -
      have "cbind (fetch_one cfg si w) (\<lambda>(r, si', w1). case r of None \<Rightarrow> Inr w1
          | Some t \<Rightarrow> if t \<and> fetch_speed cfg \<le> b + 1 then Inr w1
            else fetch_loop cfg k (if t then b + 1 else b) si' w1) = Inr w'"
        using Suc.prems(3) True by simp
      then show ?thesis unfolding cbind_Inr_iff split_paired_Ex prod.case by (elim exE conjE) (rule that)
    qed
    obtain rs where rs: "adds cfg w rs w1" "length rs \<le> 1" using fetch_one_adds [OF assms(1) Suc.prems(1,2) True 1] by blast
    show ?thesis
    proof (cases "w' = w1")
      case True
      then show ?thesis using rs by (intro exI [of _ rs]) auto
    next
      case False
      then obtain b' where "fetch_loop cfg k b' si' w1 = Inr w'" using 2 by (auto split: option.splits if_splits)
      then obtain rs' where "adds cfg w1 rs' w'" "length rs' \<le> k"
        using Suc.IH [of w1 b' si'] rs(1) by (auto simp: adds_def fetch_keeps_def)
      then show ?thesis using adds_trans [OF rs(1)] rs(2) by (intro exI [of _ "rs @ rs'"]) auto
    qed
  qed
qed

lemma ruu_fetch_adds:
  assumes "ifq_ok cfg" "queue_ok cfg w" "mem_wf (omem w)" "ruu_fetch cfg w = Inr w'"
  shows "\<exists>rs. adds cfg w rs w'"
  using fetch_loop_adds [OF assms(1-3)] assms(4) unfolding ruu_fetch_def by blast

end
