(* ===== verification/DispatchCorrect.thy ===== *)
theory DispatchCorrect
  imports FrontCorrect
begin

text \<open>
  Dispatch against the functional simulator. \<open>matches\<close> relates the machine to a state of
  sim-fast.c: the architected registers, the memory by its bytes, and as program counter the
  address of the next instruction of the correct path, which is the head of the fetch queue, the
  next fetch address, or on a mispredicted path the recovery address. An instruction dispatched
  on the correct path is a step of the functional simulator, one dispatched on a mispredicted
  path is none, and neither are the other stages.
\<close>

subsection \<open>Accesses on a mispredicted path\<close>

lemma MEM_READ_in_page:
  assumes "mem_wf m" "MEM_OFFSET a + n \<le> MD_PAGE_SIZE" "MEM_READ m a n = Inr (bs, m')"
  shows "mem_wf m' \<and> mem_byte m' = mem_byte m"
proof -
  obtain m1 where "mem_read_n n a m = Inr (le_word (get (mem_byte m) a n), m1)" "mem_wf m1" "mem_byte m1 = mem_byte m"
    using mem_wf_read [OF assms(1,2)] by blast
  then show ?thesis using assms(3) by (simp add: mem_read_n_def)
qed

lemma mem_bytes_keeps:
  assumes m: "mem_wf m" and a: "legal_access a (int n)" "access_size n" and r: "mem_bytes m a n = Inr (bs, m')"
  shows "mem_wf m' \<and> mem_byte m' = mem_byte m"
proof (cases "n = 8")
  case False
  then show ?thesis using MEM_READ_in_page [OF m legal_in_page [OF a]] r by (simp add: mem_bytes_def)
next
  case True
  have p: "MEM_OFFSET a + 8 \<le> MD_PAGE_SIZE" using legal_in_page [OF a] True by simp
  have p4: "MEM_OFFSET (a + 4) + 4 \<le> MD_PAGE_SIZE" using in_page(1) [of a 4] p by simp
  obtain lo m1 hi where "MEM_READ m a 4 = Inr (lo, m1)" "MEM_READ m1 (a + 4) 4 = Inr (hi, m')"
    using r True by (auto simp: mem_bytes_def cbind_Inr_iff)
  then show ?thesis using MEM_READ_in_page [OF m, of a 4] MEM_READ_in_page [OF _ p4, of m1] p by auto
qed

lemma spec_mem_keeps:
  assumes m: "mem_wf m" and r: "spec_mem_access b g (m, st) cmd a p (int k) = Inr (fault, q, (m', st'))"
  shows "mem_wf m' \<and> mem_byte m' = mem_byte m"
proof (cases "int k AND (int k - 1) \<noteq> 0 \<or> a AND word_of_int (int k - 1) \<noteq> 0 \<or> \<not> access_ok g cmd a")
  case True
  then show ?thesis using m r by (auto simp: spec_mem_access_def split: if_splits)
next
  case False
  have "m' = m \<or> (\<exists>bs. mem_bytes m a k = Inr (bs, m') \<and> access_size k)"
  proof (cases cmd)
    case Read
    then show ?thesis using r False
      by (auto simp: spec_mem_access_def access_size_def Let_def cbind_Inr_iff split: if_splits option.splits)
  next
    case Write
    then show ?thesis using r False
      by (auto simp: spec_mem_access_def Let_def cbind_Inr_iff split: if_splits option.splits prod.splits)
  qed
  moreover have "legal_access a (int k)" if "access_size k"
    using False that by (auto simp: legal_access_def access_size_def MD_PAGE_SIZE_def)
  ultimately show ?thesis using m mem_bytes_keeps [OF m] by blast
qed

text \<open>What a mispredicted path may not touch: the architected registers and the bytes of memory.\<close>

definition arch_regs :: "ooo \<Rightarrow> (nat \<Rightarrow> 64 word) \<times> (nat \<Rightarrow> 64 word) \<times> (nat \<Rightarrow> 64 word) \<times> (64 word \<Rightarrow> 8 word)" where
  "arch_regs w = ((reg_R w)(0 := 0), reg_F w, reg_C w, mem_byte (omem w))"

definition fetch_view :: "ooo \<Rightarrow> fetch_rec list \<times> nat \<times> (nat \<times> nat \<times> nat) \<times> 64 word \<times> 64 word" where
  "fetch_view w = (fetch_data w, macro_total_count w, (fetch_num (mach w), fetch_head (mach w), fetch_tail (mach w)),
     fetch_pred_PC (mach w), recover_PC (mach w))"

definition map_sizes :: "cpu \<Rightarrow> nat \<times> nat \<times> nat" where
  "map_sizes c = (length (use_spec_R c), length (use_spec_F c), length (use_spec_C c))"

definition spec_isolated :: "ooo \<Rightarrow> ooo \<Rightarrow> bool" where
  "spec_isolated w0 w \<longleftrightarrow> spec w \<and> mem_wf (omem w) \<and> arch_regs w = arch_regs w0 \<and> fetch_view w = fetch_view w0
     \<and> map_sizes (mach w) = map_sizes (mach w0)"

lemma spec_access_isolated:
  assumes i: "spec_isolated w0 w" and r: "spec_access cfg cmd n a w = Inr (fault, w')"
  shows "spec_isolated w0 w'"
proof -
  have s: "spec w" and m: "mem_wf (omem w)" using i by (simp_all add: spec_isolated_def)
  obtain p mm st where a: "spec_mem_access (bugcompat_mode cfg) (cf_regions (ocfg cfg)) (omem w, spec_st (mach w)) cmd a
      (temps w n) (int n) = Inr (fault, p, (mm, st))"
    and w': "w' = upd_cpu (spec_st_update (\<lambda>_. st)) (w\<lparr>mem_addr := a, omem := mm, temps := (temps w)(n := p)\<rparr>)"
    using r s by (auto simp: spec_access_def Let_def cbind_Inr_iff)
  show ?thesis using i spec_mem_keeps [OF m a]
    by (simp add: w' spec_isolated_def arch_regs_def fetch_view_def map_sizes_def upd_cpu_def)
qed

lemma isolated_sets:
  assumes "spec_isolated w0 w"
  shows "spec_isolated w0 (oSET_GPR n v w)" "spec_isolated w0 (oSET_FPRD_Q n v w)" "spec_isolated w0 (oSET_CSRS n v w)"
    "spec_isolated w0 (w\<lparr>reg_NPC := v\<rparr>)" "spec_isolated w0 (w\<lparr>target_PC := v\<rparr>)" "spec_isolated w0 (w\<lparr>octrl_taken := b\<rparr>)"
    "spec_isolated w0 (w\<lparr>olrsc := l\<rparr>)" "spec_isolated w0 (w\<lparr>temps := t\<rparr>)"
  using assms
  by (simp_all add: spec_isolated_def arch_regs_def fetch_view_def map_sizes_def oSET_GPR_def oSET_FPRD_Q_def oSET_CSRS_def upd_cpu_def)

lemma isolated_float:
  assumes "spec_isolated w0 w" "oFLOAT cfg op inst w = Inr w'"
  shows "spec_isolated w0 w'"
proof -
  have f: "spec_isolated w0 (fold (\<lambda>(n, v). oSET_CSRS n v) csrs w)" if "spec_isolated w0 w" for csrs w
    using that by (induction csrs arbitrary: w) (auto simp: isolated_sets)
  obtain dest csrs where "w' = fold (\<lambda>(n, v). oSET_CSRS n v) csrs (case dest of To_FPR v \<Rightarrow> oSET_FPRD_Q (reg_of RD inst) v w
        | To_GPR v \<Rightarrow> oSET_GPR (reg_of RD inst) v w | To_none \<Rightarrow> w)"
    using assms(2) unfolding oFLOAT_def by (auto simp: cbind_Inr_iff simp del: fold_simps)
  then show ?thesis using f isolated_sets [OF assms(1)] assms(1) by (auto split: fp_dest.split)
qed

interpretation iso: keeps "ooo_hooks cfg" "spec_isolated w0" for cfg w0
proof (unfold_locales, goal_cases)
  case 8 then show ?case by (auto simp: oREAD_def cbind_Inr_iff dest: spec_access_isolated)
next
  case 9 then show ?case by (auto simp: oWRITE_def dest: isolated_sets(8) spec_access_isolated)
next
  case 10 then show ?case by (simp add: oSYSCALL_def spec_isolated_def)
next
  case 11 then show ?case by (simp add: isolated_float)
qed (simp_all add: isolated_sets)

subsection \<open>Execution on the correct path leaves the front end alone\<close>

definition on_path :: "ooo \<Rightarrow> ooo \<Rightarrow> bool" where
  "on_path w0 w \<longleftrightarrow> \<not> spec w \<and> front (mach w) = front (mach w0) \<and> fetch_data w = fetch_data w0
     \<and> macro_total_count w = macro_total_count w0"

lemma on_path_sets:
  assumes "on_path w0 w"
  shows "on_path w0 (oSET_GPR n v w)" "on_path w0 (oSET_FPRD_Q n v w)" "on_path w0 (oSET_CSRS n v w)"
    "on_path w0 (w\<lparr>reg_NPC := v\<rparr>)" "on_path w0 (w\<lparr>target_PC := v\<rparr>)" "on_path w0 (w\<lparr>octrl_taken := b\<rparr>)"
    "on_path w0 (w\<lparr>olrsc := l\<rparr>)" "on_path w0 (w\<lparr>temps := t\<rparr>)"
  using assms by (simp_all add: on_path_def oSET_GPR_def oSET_FPRD_Q_def oSET_CSRS_def)

lemma on_path_access: "on_path w0 w \<Longrightarrow> spec_access cfg cmd n a w = Inr (fault, w') \<Longrightarrow> on_path w0 w'"
  by (auto simp: spec_access_def on_path_def Let_def cbind_Inr_iff)

lemma on_path_float:
  assumes "on_path w0 w" "oFLOAT cfg op inst w = Inr w'"
  shows "on_path w0 w'"
proof -
  have f: "on_path w0 (fold (\<lambda>(n, v). oSET_CSRS n v) csrs w)" if "on_path w0 w" for csrs w
    using that by (induction csrs arbitrary: w) (auto simp: on_path_sets)
  obtain dest csrs where "w' = fold (\<lambda>(n, v). oSET_CSRS n v) csrs (case dest of To_FPR v \<Rightarrow> oSET_FPRD_Q (reg_of RD inst) v w
        | To_GPR v \<Rightarrow> oSET_GPR (reg_of RD inst) v w | To_none \<Rightarrow> w)"
    using assms(2) unfolding oFLOAT_def by (auto simp: cbind_Inr_iff simp del: fold_simps)
  then show ?thesis using f on_path_sets [OF assms(1)] assms(1) by (auto split: fp_dest.split)
qed

lemma on_path_syscall: "on_path w0 w \<Longrightarrow> oSYSCALL cfg inst w = Inr w' \<Longrightarrow> on_path w0 w'"
  by (auto simp: oSYSCALL_def on_path_def put_regs_def front_def cbind_Inr_iff split: if_splits)

interpretation onp: keeps "ooo_hooks cfg" "on_path w0" for cfg w0
proof (unfold_locales, goal_cases)
  case 8 then show ?case by (auto simp: oREAD_def cbind_Inr_iff dest: on_path_access)
next
  case 9 then show ?case by (auto simp: oWRITE_def dest: on_path_sets(8) on_path_access)
next
  case 10 then show ?case by (auto dest: on_path_syscall)
next
  case 11 then show ?case by (simp add: on_path_float)
qed (simp_all add: on_path_sets)

subsection \<open>Allocation\<close>

text \<open>A step that works on the queues of the back end only.\<close>

definition quiet :: "ooo \<Rightarrow> ooo \<Rightarrow> bool" where
  "quiet w w' \<longleftrightarrow> reg_R w' = reg_R w \<and> reg_F w' = reg_F w \<and> reg_C w' = reg_C w \<and> reg_NPC w' = reg_NPC w
     \<and> omem w' = omem w \<and> temps w' = temps w \<and> fetch_data w' = fetch_data w
     \<and> macro_total_count w' = macro_total_count w \<and> front (mach w') = front (mach w)"

lemma quiet_refl [simp]: "quiet w w" by (simp add: quiet_def)

lemma quiet_trans: "quiet w w1 \<Longrightarrow> quiet w1 w2 \<Longrightarrow> quiet w w2" by (simp add: quiet_def)

lemma quiet_upd: "(\<And>c. front (g c) = front c) \<Longrightarrow> quiet w (upd_cpu g w)"
  by (simp add: quiet_def)

lemma quiet_on_cpu: "on_cpu f w = Inr w' \<Longrightarrow> (\<And>c'. f (mach w) = Inr c' \<Longrightarrow> front c' = front (mach w)) \<Longrightarrow> quiet w w'"
  by (auto simp: on_cpu_def quiet_def cbind_Inr_iff)

lemma front_bumps [simp]: "front (bump_ruu c) = front c" "front (bump_lsq c) = front c"
  by (simp_all add: bump_ruu_def bump_lsq_def front_def)

lemma front_allocate_reg: "allocate_reg cfg d r c = Inr c' \<Longrightarrow> front c' = front c"
  by (auto simp: allocate_reg_def Let_def cbind_Inr_iff front_frame(11) dest!: front_frame(9,10))

lemma front_allocate_mem: "allocate_mem cfg d r m c = Inr c' \<Longrightarrow> front c' = front c"
  unfolding allocate_mem_def Let_def
  by (auto simp only: cbind_Inr_iff front_bumps front_frame(11) dest!: front_frame(9,10))

lemma quiet_fill: "quiet w (fill_ruu op f ppc w)" "quiet w (fill_lsq op ppc w)"
  by (simp_all add: fill_ruu_def fill_lsq_def quiet_def Let_def)

lemma quiet_allocate:
  assumes "allocate cfg d f ppc w = Inr (r, w')"
  shows "quiet w w'"
proof (cases "de_op d = OP_NA")
  case True
  then show ?thesis using assms by (simp add: allocate_def)
next
  case False
  let ?w1 = "fill_ruu (de_op d) f ppc w"
  have last: "quiet v (set_last q v)" "quiet v (v\<lparr>last_op := x\<rparr>)" for q v x by (simp_all add: set_last_def quiet_def)
  show ?thesis
  proof (cases "is_mem (de_op d)")
    case True
    then obtain q m w2 where 2: "on_cpu (allocate_mem cfg d q m) (fill_lsq (de_op d) ppc ?w1) = Inr w2" "w' = set_last m w2"
      using assms False by (auto simp: allocate_def Let_def cbind_Inr_iff)
    have "quiet (fill_lsq (de_op d) ppc ?w1) w2" by (rule quiet_on_cpu [OF 2(1) front_allocate_mem])
    then show ?thesis unfolding 2(2) using quiet_fill last(1) quiet_trans by meson
  next
    case m: False
    then obtain q w2 where 2: "on_cpu (allocate_reg cfg d q) ?w1 = Inr w2" "w' = w2\<lparr>last_op := (None, 0)\<rparr> \<or> w' = set_last q w2"
      using assms False by (auto simp: allocate_def Let_def cbind_Inr_iff split: if_splits)
    have "quiet ?w1 w2" by (rule quiet_on_cpu [OF 2(1) front_allocate_reg])
    then show ?thesis using 2(2) quiet_fill(1) last quiet_trans by meson
  qed
qed

lemma quiet_counts: "quiet w (count_refs op w)" "quiet w (count_dispatch op w)"
  by (simp_all add: count_refs_def count_dispatch_def quiet_def Let_def)

lemma quiet_update_at_dispatch: "update_at_dispatch cfg op ppc r w = Inr w' \<Longrightarrow> quiet w w'"
  by (auto simp: update_at_dispatch_def Let_def cbind_Inr_iff split: option.splits if_splits intro!: quiet_upd)

subsection \<open>One instruction\<close>

text \<open>The front end and the queue survive; \<open>pc\<close> is the address the queue starts at.\<close>

definition spec_maps :: "cpu \<Rightarrow> bool" where
  "spec_maps c \<longleftrightarrow> map_sizes c = (R_BMAP_SZ, F_BMAP_SZ, C_BMAP_SZ) \<and> (\<not> spec_mode c \<longrightarrow> clean_regs c)"

definition front_ok :: "ooo_cfg \<Rightarrow> ooo \<Rightarrow> bool" where
  "front_ok cfg w \<longleftrightarrow> ifq_ok cfg \<and> queue_ok cfg w \<and> (\<exists>pc. chained pc (queue cfg w) (fetch_pred_PC (mach w)))
     \<and> macro_total_count w = 1 \<and> spec_maps (mach w) \<and> mem_wf (omem w)"

definition arch_PC :: "ooo \<Rightarrow> 64 word" where
  "arch_PC w = (if spec w then recover_PC (mach w)
     else if fetch_num (mach w) = 0 then fetch_pred_PC (mach w) else fr_regs_PC (head_rec w))"

lemma arch_PC_chain:
  "queue_ok cfg w \<Longrightarrow> chained pc (queue cfg w) (fetch_pred_PC (mach w)) \<Longrightarrow> \<not> spec w \<Longrightarrow> arch_PC w = pc"
  using queue_head [of cfg w] by (cases "queue cfg w") (auto simp: arch_PC_def queue_def)

text \<open>What a station does not see of a state: all it depends on is the queue and the front end.\<close>

definition calm :: "ooo \<Rightarrow> ooo \<Rightarrow> bool" where
  "calm w w' \<longleftrightarrow> arch_regs w' = arch_regs w \<and> reg_NPC w' = reg_NPC w \<and> mem_wf (omem w') = mem_wf (omem w)
     \<and> fetch_data w' = fetch_data w \<and> macro_total_count w' = macro_total_count w"

lemma quiet_calm: "quiet w w' \<Longrightarrow> calm w w'"
  by (simp add: quiet_def calm_def arch_regs_def)

lemma calm_trans: "calm w w1 \<Longrightarrow> calm w1 w2 \<Longrightarrow> calm w w2" by (simp add: calm_def)

definition entered :: "64 word \<Rightarrow> cpu \<Rightarrow> cpu" where
  "entered npc c = c\<lparr>spec_mode := True, recover_PC := npc\<rparr>"

lemma resolve_result:
  assumes "resolve cfg op ppc red r w = Inr w'"
  shows "calm w w' \<and> front (mach w') = front (if \<not> spec w \<and> ppc \<noteq> reg_NPC w \<and> \<not> red then entered (reg_NPC w) (mach w) else mach w)"
proof (cases "spec w")
  case True
  then show ?thesis using assms by (simp add: resolve_def calm_def)
next
  case False
  then obtain w1 where 1: "update_at_dispatch cfg op ppc r w = Inr w1" "enter_spec ppc red r w1 = Inr w'"
    using assms by (auto simp: resolve_def cbind_Inr_iff)
  have q: "quiet w w1" by (rule quiet_update_at_dispatch [OF 1(1)])
  then have npc: "reg_NPC w1 = reg_NPC w" and f: "front (mach w1) = front (mach w)" by (simp_all add: quiet_def)
  show ?thesis
  proof (cases "ppc \<noteq> reg_NPC w \<and> \<not> red")
    case True
    then obtain q where w': "w' = upd_cpu (\<lambda>c. (upd_rs q (rs_recover_inst_update (\<lambda>_. True)) c)
          \<lparr>spec_mode := True, recover_PC := reg_NPC w1\<rparr>) w1"
      using 1(2) npc by (auto simp: enter_spec_def cbind_Inr_iff)
    have "front (mach (upd_cpu (\<lambda>c. upd_rs q (rs_recover_inst_update (\<lambda>_. True)) c) w1)) = front (mach w1)" by simp
    then have "front (mach w') = front (entered (reg_NPC w) (mach w))" using f npc
      by (simp add: w' front_def entered_def)
    moreover have "calm w1 w'" by (simp add: w' calm_def arch_regs_def)
    ultimately show ?thesis using True False calm_trans [OF quiet_calm [OF q]] by simp
  next
    case no: False
    then have "w' = w1" using 1(2) npc by (auto simp: enter_spec_def)
    then show ?thesis using q no False quiet_calm f by auto
  qed
qed

definition run_state :: "32 word \<Rightarrow> ooo \<Rightarrow> ooo" where
  "run_state inst w = count_insn inst (zero_regs w)"

lemma dispatch_one_cases:
  assumes "dispatch_one cfg red w0 = Inr ((goes, took, red'), w')"
  obtains (stop) "\<not> goes" "w' = latch_pc (head_rec w0) w0" "red' = red"
  | (go) op d w1 now ppc w2 r w3 w4 where "goes" "MD_SET_OPCODE (odec cfg) (fr_IR (head_rec w0)) = Inr op"
      "execute cfg op (fr_IR (head_rec w0)) (run_state (fr_IR (head_rec w0)) (latch_pc (head_rec w0) w0)) = Inr (d, w1)"
      "de_fault d = fault_none" "redirect_fetch cfg (de_op d) (head_rec w0) (count_refs (de_op d) w1) = (now, ppc, w2)"
      "allocate cfg d (head_rec w0) ppc w2 = Inr (r, w3)"
      "resolve cfg (de_op d) ppc (red \<or> now) r (count_dispatch (de_op d) w3) = Inr w4" "w' = consume cfg w4" "red' = (red \<or> now)"
proof -
  let ?f = "head_rec w0"
  obtain op st where op: "MD_SET_OPCODE (odec cfg) (fr_IR ?f) = Inr op" "must_drain op (latch_pc ?f w0) = Inr st"
    using assms unfolding dispatch_one_def Let_def by (simp only: cbind_Inr_iff) auto
  show ?thesis
  proof (cases st)
    case True
    then show ?thesis using assms op stop by (simp add: dispatch_one_def Let_def)
  next
    case False
    then have *: "cbind (execute cfg op (fr_IR ?f) (run_state (fr_IR ?f) (latch_pc ?f w0))) (\<lambda>(d, w1).
        if de_fault d \<noteq> fault_none then Inl (Fatal ''non-speculative fault (%d) detected @ 0x%08p'')
        else
          let (now, ppc, w2) = redirect_fetch cfg (de_op d) ?f (count_refs (de_op d) w1); red' = (red \<or> now) in
          cbind (allocate cfg d ?f ppc w2) (\<lambda>(r, w3).
          cbind (resolve cfg (de_op d) ppc red' r (count_dispatch (de_op d) w3)) (\<lambda>w4.
          Inr ((True, r \<noteq> None, red'), consume cfg w4)))) = Inr ((goes, took, red'), w')"
      using assms op by (simp add: dispatch_one_def Let_def run_state_def)
    then obtain d w1 where 1: "execute cfg op (fr_IR ?f) (run_state (fr_IR ?f) (latch_pc ?f w0)) = Inr (d, w1)"
      "de_fault d = fault_none"
      and 2: "(let (now, ppc, w2) = redirect_fetch cfg (de_op d) ?f (count_refs (de_op d) w1); red' = (red \<or> now) in
          cbind (allocate cfg d ?f ppc w2) (\<lambda>(r, w3).
          cbind (resolve cfg (de_op d) ppc red' r (count_dispatch (de_op d) w3)) (\<lambda>w4.
          Inr ((True, r \<noteq> None, red'), consume cfg w4)))) = (Inr ((goes, took, red'), w') :: ((bool \<times> bool \<times> bool) \<times> ooo) cres)"
      unfolding cbind_Inr_iff split_paired_Ex prod.case by (elim exE conjE) (auto split: if_splits)
    obtain now ppc w2 where r: "redirect_fetch cfg (de_op d) ?f (count_refs (de_op d) w1) = (now, ppc, w2)"
      by (cases "redirect_fetch cfg (de_op d) ?f (count_refs (de_op d) w1)") auto
    from 2 [unfolded r Let_def prod.case] obtain q w3 w4 where "allocate cfg d ?f ppc w2 = Inr (q, w3)"
      "resolve cfg (de_op d) ppc (red \<or> now) q (count_dispatch (de_op d) w3) = Inr w4"
      "goes" "red' = (red \<or> now)" "w' = consume cfg w4"
      unfolding cbind_Inr_iff split_paired_Ex prod.case by auto
    then show ?thesis using go op(1) 1 r by blast
  qed
qed

text \<open>After execution, whatever the path: the head leaves the queue, or all of it on a redirection, and
  the correct path goes on at the computed next address.\<close>

lemma redirect_result:
  assumes "redirect_fetch cfg op f w = (now, ppc, w')"
  shows "calm w w' \<and> spec w' = spec w \<and> recover_PC (mach w') = recover_PC (mach w)
    \<and> use_spec_R (mach w') = use_spec_R (mach w) \<and> use_spec_F (mach w') = use_spec_F (mach w)
    \<and> use_spec_C (mach w') = use_spec_C (mach w)
    \<and> (if now then fetch_pred_PC (mach w') = reg_NPC w \<and> fetch_num (mach w') = 1
          \<and> fetch_head (mach w') = ruu_ifq_size cfg - 1 \<and> fetch_tail (mach w') = 0
       else ppc = fr_pred_PC f \<and> w' = w)"
  using assms by (auto simp: redirect_fetch_def Let_def calm_def arch_regs_def split: if_splits)

lemma consume_result:
  assumes "ifq_ok cfg" "macro_total_count w = 1"
  shows "calm w (consume cfg w)" "spec (consume cfg w) = spec w" "recover_PC (mach (consume cfg w)) = recover_PC (mach w)"
    "fetch_pred_PC (mach (consume cfg w)) = fetch_pred_PC (mach w)" "fetch_num (mach (consume cfg w)) = fetch_num (mach w) - 1"
    "fetch_head (mach (consume cfg w)) = (fetch_head (mach w) + 1) mod ruu_ifq_size cfg"
    "fetch_tail (mach (consume cfg w)) = fetch_tail (mach w)"
    "use_spec_R (mach (consume cfg w)) = use_spec_R (mach w)" "use_spec_F (mach (consume cfg w)) = use_spec_F (mach w)"
    "use_spec_C (mach (consume cfg w)) = use_spec_C (mach w)"
proof -
  have m: "i AND (ruu_ifq_size cfg - Suc 0) = i mod ruu_ifq_size cfg" for i using ifq_mask [OF assms(1), of i] by simp
  show "calm w (consume cfg w)" "spec (consume cfg w) = spec w" "recover_PC (mach (consume cfg w)) = recover_PC (mach w)"
    "fetch_pred_PC (mach (consume cfg w)) = fetch_pred_PC (mach w)" "fetch_num (mach (consume cfg w)) = fetch_num (mach w) - 1"
    "fetch_head (mach (consume cfg w)) = (fetch_head (mach w) + 1) mod ruu_ifq_size cfg"
    "fetch_tail (mach (consume cfg w)) = fetch_tail (mach w)"
    "use_spec_R (mach (consume cfg w)) = use_spec_R (mach w)" "use_spec_F (mach (consume cfg w)) = use_spec_F (mach w)"
    "use_spec_C (mach (consume cfg w)) = use_spec_C (mach w)"
    using assms(2) m by (simp_all add: consume_def calm_def arch_regs_def)
qed

lemma queue_tail:
  assumes "queue_ok cfg w" "fetch_num (mach w) \<noteq> 0" "0 < ruu_ifq_size cfg"
    and "fetch_data w' = fetch_data w" "fetch_num (mach w') = fetch_num (mach w) - 1"
    "fetch_head (mach w') = (fetch_head (mach w) + 1) mod ruu_ifq_size cfg" "fetch_tail (mach w') = fetch_tail (mach w)"
  shows "queue_ok cfg w'" "queue cfg w' = tl (queue cfg w)"
proof -
  obtain k where k: "fetch_num (mach w) = Suc k" using assms(2) by (cases "fetch_num (mach w)") auto
  show "queue_ok cfg w'" using assms k by (simp add: queue_ok_def mod_add_left_eq)
  show "queue cfg w' = tl (queue cfg w)"
    using assms(4-6) k by (auto simp: queue_def upt_conv_Cons map_Suc_upt [symmetric] mod_add_left_eq simp del: upt_Suc)
qed

lemma dispatch_rest:
  assumes ok: "front_ok cfg w0" "fetch_num (mach w0) \<noteq> 0"
    and w1: "fetch_view w1 = fetch_view w0" "map_sizes (mach w1) = map_sizes (mach w0)" "mem_wf (omem w1)"
      "\<not> spec w1 \<longrightarrow> clean_regs (mach w1)"
    and r: "redirect_fetch cfg op (head_rec w0) (count_refs op w1) = (now, ppc, w2)"
    and a: "allocate cfg d (head_rec w0) ppc w2 = Inr (q, w3)"
    and e: "resolve cfg op ppc (False \<or> now) q (count_dispatch op w3) = Inr w4"
  shows "front_ok cfg (consume cfg w4) \<and> arch_regs (consume cfg w4) = arch_regs w1
    \<and> arch_PC (consume cfg w4) = (if spec w1 then recover_PC (mach w1) else reg_NPC w1)
    \<and> (spec w1 \<longrightarrow> spec (consume cfg w4)) \<and> (now \<longrightarrow> fetch_num (mach (consume cfg w4)) = 0)"
proof -
  let ?f = "head_rec w0" and ?n = "reg_NPC w1" and ?w = "consume cfg w4"
  have O: "ifq_ok cfg" "queue_ok cfg w0" "macro_total_count w0 = 1" "0 < ruu_ifq_size cfg" using ok ifq_pos
    by (auto simp: front_ok_def)
  have V: "fetch_data w1 = fetch_data w0" "macro_total_count w1 = 1" "fetch_num (mach w1) = fetch_num (mach w0)"
    "fetch_head (mach w1) = fetch_head (mach w0)" "fetch_tail (mach w1) = fetch_tail (mach w0)"
    "fetch_pred_PC (mach w1) = fetch_pred_PC (mach w0)" "recover_PC (mach w1) = recover_PC (mach w0)"
    using w1(1) O(3) by (simp_all add: fetch_view_def)
  have c1: "quiet w1 (count_refs op w1)" by (rule quiet_counts)
  note R = redirect_result [OF r]
  have q3: "quiet w2 (count_dispatch op w3)" by (rule quiet_trans [OF quiet_allocate [OF a] quiet_counts(2)])
  note E = resolve_result [OF e]
  have npc: "reg_NPC (count_dispatch op w3) = ?n" using R c1 q3 by (simp add: quiet_def calm_def)
  have spec3: "spec (count_dispatch op w3) = spec w1" using R c1 q3 by (simp add: quiet_def front_def)
  have cm: "calm w1 w4"
    using calm_trans [OF quiet_calm [OF c1]] calm_trans [OF _ quiet_calm [OF q3]] R E calm_trans by blast
  have m4: "macro_total_count w4 = 1" using cm V(2) by (simp add: calm_def)
  note C = consume_result [OF O(1) m4]
  have cm': "calm w1 ?w" by (rule calm_trans [OF cm C(1)])
  have enter: "\<not> spec w1 \<and> ppc \<noteq> ?n \<and> \<not> now \<Longrightarrow> spec w4 \<and> recover_PC (mach w4) = ?n"
    and stay: "\<not> (\<not> spec w1 \<and> ppc \<noteq> ?n \<and> \<not> now) \<Longrightarrow> spec w4 = spec w1 \<and> recover_PC (mach w4) = recover_PC (mach w1)"
    and fetch: "fetch_num (mach w4) = fetch_num (mach w2)" "fetch_head (mach w4) = fetch_head (mach w2)"
      "fetch_tail (mach w4) = fetch_tail (mach w2)" "fetch_pred_PC (mach w4) = fetch_pred_PC (mach w2)"
    and maps: "use_spec_R (mach w4) = use_spec_R (mach w1)" "use_spec_F (mach w4) = use_spec_F (mach w1)"
      "use_spec_C (mach w4) = use_spec_C (mach w1)"
    using E R q3 c1 unfolding npc spec3 by (auto simp: front_def entered_def quiet_def split: if_splits)
  have Q: "queue_ok cfg ?w \<and> chained (if now then ?n else fr_pred_PC ?f) (queue cfg ?w) (fetch_pred_PC (mach ?w))"
  proof (cases now)
    case True
    have n: "fetch_num (mach ?w) = 0" "fetch_head (mach ?w) = 0" "fetch_tail (mach ?w) = 0" "fetch_pred_PC (mach ?w) = ?n"
      using True R c1 O(4) by (simp_all add: C fetch quiet_def)
    have "length (fetch_data ?w) = ruu_ifq_size cfg" using cm' V(1) O(2) by (simp add: calm_def queue_ok_def)
    then show ?thesis using n O(4) True by (simp add: queue_ok_def queue_def)
  next
    case False
    have w2: "w2 = count_refs op w1" using R False by simp
    have s: "fetch_num (mach ?w) = fetch_num (mach w0) - 1" "fetch_head (mach ?w) = (fetch_head (mach w0) + 1) mod ruu_ifq_size cfg"
      "fetch_tail (mach ?w) = fetch_tail (mach w0)" "fetch_pred_PC (mach ?w) = fetch_pred_PC (mach w0)"
      using c1 V by (simp_all add: C fetch w2 quiet_def front_def)
    have d: "fetch_data ?w = fetch_data w0" using cm' V(1) by (simp add: calm_def)
    note T = queue_tail [OF O(2) ok(2) O(4) d s(1-3)]
    obtain pc where "chained pc (queue cfg w0) (fetch_pred_PC (mach w0))" using ok(1) by (auto simp: front_ok_def)
    then have "chained (fr_pred_PC ?f) (tl (queue cfg w0)) (fetch_pred_PC (mach w0))"
      using queue_head [OF O(2) ok(2)] by (metis chained.simps(2))
    then show ?thesis using T False s(4) by simp
  qed
  have spec: "spec ?w = (spec w1 \<or> ppc \<noteq> ?n \<and> \<not> now)" "recover_PC (mach ?w) = (if spec w1 \<or> ppc = ?n \<or> now then recover_PC (mach w1) else ?n)"
    using enter stay by (auto simp: C(2,3))
  have "arch_PC ?w = (if spec w1 then recover_PC (mach w1) else ?n)"
  proof (cases "spec ?w")
    case True
    then show ?thesis using spec by (auto simp: arch_PC_def)
  next
    case False
    then have "(if now then ?n else fr_pred_PC ?f) = ?n" "\<not> spec w1" using spec(1) R by (auto split: if_splits)
    then show ?thesis using arch_PC_chain [of cfg ?w] Q False by simp
  qed
  moreover have "spec_maps (mach ?w)"
    using ok(1) w1(2,4) stay spec(1) by (auto simp: front_ok_def spec_maps_def map_sizes_def clean_regs_def C maps)
  moreover have "mem_wf (omem ?w)" "macro_total_count ?w = 1" "arch_regs ?w = arch_regs w1" using cm' w1(3) V(2) by (simp_all add: calm_def)
  moreover have "now \<longrightarrow> fetch_num (mach ?w) = 0" using R fetch(1) by (simp add: C)
  ultimately show ?thesis using Q O(1) spec(1) by (auto simp: front_ok_def)
qed

subsection \<open>Steps of the functional simulator\<close>

text \<open>An iteration of sim-fast.c after its fetch; \<open>fast_step\<close> fetches the word and runs it.\<close>

definition fast_insn :: "host \<Rightarrow> decoder \<Rightarrow> 32 word \<Rightarrow> fast \<Rightarrow> fast cres" where
  "fast_insn hs d inst s =
     cbind (MD_SET_OPCODE d inst) (\<lambda>op. cbind (fast_switch hs op inst s) (\<lambda>s1. Inr (next_pc op inst s1)))"

definition fast_begin :: "fast \<Rightarrow> fast" where
  "fast_begin s = (set_R 0 0 s)\<lparr>IsCtrlInstTaken := False, sim_num_insn := sim_num_insn s + 1\<rparr>"

lemma fast_step_insn: "fast_step hs d s = cbind (md_fetch_inst (fast_begin s)) (\<lambda>(inst, s1). fast_insn hs d inst s1)"
  by (simp add: fast_step_def fast_begin_def fast_insn_def Let_def)

definition matches :: "ooo \<Rightarrow> fast \<Rightarrow> bool" where
  "matches w s \<longleftrightarrow> arch_regs w = ((regs_R (regs s))(0 := 0), regs_F (regs s), regs_C (regs s), mem_byte (fmem s))
     \<and> mem_wf (fmem s) \<and> arch_PC w = regs_PC (regs s) \<and> regs_NPC (regs s) = regs_PC (regs s) + 4"

text \<open>The words both simulators run alike.\<close>

definition ok_word :: "decoder \<Rightarrow> 32 word \<Rightarrow> bool" where
  "ok_word d inst \<longleftrightarrow> (\<exists>x. MD_SET_OPCODE d inst = Inr (Inst x) \<and> supported x \<and> (INST_IsCompressed inst \<longleftrightarrow> is_C x))"

definition temps_ok :: "ooo \<Rightarrow> bool" where
  "temps_ok w \<longleftrightarrow> \<not> spec w \<longrightarrow> (\<forall>n. length (temps w n) = n)"

lemma next_pc_regs:
  "regs_R (regs (next_pc op inst s)) = regs_R (regs s)" "regs_F (regs (next_pc op inst s)) = regs_F (regs s)"
  "regs_C (regs (next_pc op inst s)) = regs_C (regs s)" "fmem (next_pc op inst s) = fmem s"
  "regs_NPC (regs (next_pc op inst s)) = regs_PC (regs (next_pc op inst s)) + 4"
  by (simp_all add: next_pc_def Let_def set_PC_def set_NPC_def upd_regs_def)

lemma run_state_sel [simp]:
  "mach (run_state i w) = mach w" "reg_R (run_state i w) = (reg_R w)(0 := 0)" "reg_F (run_state i w) = reg_F w"
  "reg_C (run_state i w) = reg_C w" "omem (run_state i w) = omem w" "reg_NPC (run_state i w) = reg_NPC w"
  "temps (run_state i w) = temps w" "fetch_data (run_state i w) = fetch_data w"
  "macro_total_count (run_state i w) = macro_total_count w"
  by (simp_all add: run_state_def count_insn_def zero_regs_def Let_def)

lemma latch_pc_sel [simp]:
  "front (mach (latch_pc f w)) = front (mach w)" "reg_R (latch_pc f w) = reg_R w" "reg_F (latch_pc f w) = reg_F w"
  "reg_C (latch_pc f w) = reg_C w" "omem (latch_pc f w) = omem w" "reg_NPC (latch_pc f w) = fr_regs_PC f + ISCOMPRESS (fr_IR f)"
  "temps (latch_pc f w) = temps w" "fetch_data (latch_pc f w) = fetch_data w" "cpu.regs_PC (mach (latch_pc f w)) = fr_regs_PC f"
  "macro_total_count (latch_pc f w) = macro_total_count w" "spec (latch_pc f w) = spec w"
  by (simp_all add: latch_pc_def front_def)

lemma arch_PC_head: "\<not> spec w \<Longrightarrow> fetch_num (mach w) \<noteq> 0 \<Longrightarrow> arch_PC w = fr_regs_PC (head_rec w)"
  by (simp add: arch_PC_def)

text \<open>An instruction on the correct path.\<close>

lemma dispatch_on_path:
  assumes ok: "front_ok cfg w0" "fetch_num (mach w0) \<noteq> 0" "\<not> spec w0" "temps_ok w0"
    and m: "matches w0 s" "syscall_ok (o_syscall cfg)" "ok_word (odec cfg) (fr_IR (head_rec w0))"
    and d: "dispatch_one cfg False w0 = Inr ((True, took, red'), w')"
  shows "\<exists>s'. fast_insn (host_of cfg) (odec cfg) (fr_IR (head_rec w0)) (fast_begin s) = Inr s' \<and> matches w' s'
    \<and> front_ok cfg w' \<and> temps_ok w' \<and> (red' \<longrightarrow> fetch_num (mach w') = 0)"
  using d
proof (cases rule: dispatch_one_cases)
  case stop
  then show ?thesis by simp
next
  case (go op d w1 now ppc w2 r w3 w4)
  let ?f = "head_rec w0" and ?i = "fr_IR (head_rec w0)"
  let ?w = "run_state ?i (latch_pc ?f w0)" and ?s = "fast_begin s"
  obtain x where x: "op = Inst x" "supported x" "INST_IsCompressed ?i \<longleftrightarrow> is_C x" using m(3) go(2) by (auto simp: ok_word_def)
  obtain fault where e: "exec_insn (ooo_hooks cfg) x ?i ?w = Inr (fault, w1)"
    and df: "de_fault d = (if spec w1 then fault_none else fault)"
    using go(3) x(2) by (auto simp: execute_def x(1) supported_def cbind_Inr_iff)
  have "on_path w0 ?w" using ok(3) by (simp add: on_path_def)
  from onp.exec_insn_keeps [OF this e] have p: "on_path w0 w1" .
  then have e: "exec_insn (ooo_hooks cfg) x ?i ?w = Inr (fault_none, w1)" using e df go(4) by (simp add: on_path_def)
  have pc: "fr_regs_PC ?f = regs_PC (regs s)" using m(1) arch_PC_head [OF ok(3,2)] by (simp add: matches_def)
  have st: "same_state ?w ?s" using m(1) ok pc
    by (auto simp: same_state_def same_mem_def matches_def arch_regs_def temps_ok_def front_ok_def spec_maps_def
        fast_begin_def clean_regs_def front_def latch_pc_def)
       (simp_all add: set_R_def upd_regs_def fun_upd_def)
  have npc: "reg_NPC ?w = regs_PC (regs ?s) + ISCOMPRESS ?i" "regs_NPC (regs ?s) = regs_PC (regs ?s) + 4" "\<not> IsCtrlInstTaken ?s"
    using m(1) pc by (simp_all add: matches_def fast_begin_def)
  obtain s1 where s1: "exec_insn (fast_hooks (host_of cfg)) x ?i ?s = Inr (fault_none, s1)" "same_state w1 s1"
    "pc_after x ?i s1 = reg_NPC w1" using exec_same [OF st m(2) x(2,3) npc e] by blast
  let ?s' = "next_pc (Inst x) ?i s1"
  have run: "fast_insn (host_of cfg) (odec cfg) ?i ?s = Inr ?s'" using go(2) s1(1) by (simp add: fast_insn_def x(1))
  have v: "fetch_view w1 = fetch_view w0" "map_sizes (mach w1) = map_sizes (mach w0)" "\<not> spec w1"
    using p by (simp_all add: on_path_def fetch_view_def map_sizes_def front_def)
  have w1: "mem_wf (omem w1)" "clean_regs (mach w1)" using s1(2) by (simp_all add: same_state_def same_mem_def)
  have R: "front_ok cfg w'" "arch_regs w' = arch_regs w1" "arch_PC w' = reg_NPC w1" "now \<longrightarrow> fetch_num (mach w') = 0"
    using dispatch_rest [OF ok(1,2) v(1,2) w1(1) _ go(5,6,7)] w1(2) v(3) go(8) by auto
  have t: "temps w' = temps w1"
  proof -
    have "temps w2 = temps (count_refs (de_op d) w1)" using go(5) by (auto simp: redirect_fetch_def Let_def split: if_splits)
    moreover have "temps w4 = temps (count_dispatch (de_op d) w3)"
      using go(7) quiet_update_at_dispatch
      by (fastforce simp: resolve_def enter_spec_def cbind_Inr_iff quiet_def split: if_splits)
    ultimately show ?thesis using go(8) quiet_counts [of w1] quiet_counts [of w3] quiet_allocate [OF go(6)]
      by (simp add: quiet_def consume_def)
  qed
  have "matches w' ?s'"
    using R(2,3) s1(2,3) by (auto simp: matches_def arch_regs_def same_state_def same_mem_def next_pc_regs pc_after_def)
  moreover have "temps_ok w'" using t s1(2) by (simp add: temps_ok_def same_state_def)
  ultimately show ?thesis using run R(1,4) go(9) by auto
qed

text \<open>An instruction on a mispredicted path.\<close>

lemma dispatch_off_path:
  assumes ok: "front_ok cfg w0" "fetch_num (mach w0) \<noteq> 0" "spec w0"
    and d: "dispatch_one cfg False w0 = Inr ((True, took, red'), w')"
  shows "front_ok cfg w' \<and> arch_regs w' = arch_regs w0 \<and> arch_PC w' = arch_PC w0 \<and> spec w'
    \<and> (red' \<longrightarrow> fetch_num (mach w') = 0)"
  using d
proof (cases rule: dispatch_one_cases)
  case stop
  then show ?thesis by simp
next
  case (go op d w1 now ppc w2 r w3 w4)
  let ?f = "head_rec w0" and ?i = "fr_IR (head_rec w0)"
  let ?w = "run_state ?i (latch_pc ?f w0)"
  have i: "spec_isolated w0 ?w"
    using ok by (auto simp: spec_isolated_def front_ok_def arch_regs_def fetch_view_def map_sizes_def latch_pc_def)
  have i1: "spec_isolated w0 w1"
  proof (cases op)
    case (Inst x)
    then show ?thesis using go(3) i iso.exec_insn_keeps [OF i]
      by (auto simp: execute_def cbind_Inr_iff split: option.splits)
  qed (use go(3) i in \<open>auto simp: execute_def\<close>)
  then have v: "fetch_view w1 = fetch_view w0" "map_sizes (mach w1) = map_sizes (mach w0)" "spec w1" "mem_wf (omem w1)"
    "arch_regs w1 = arch_regs w0" by (simp_all add: spec_isolated_def)
  have "arch_PC w0 = recover_PC (mach w1)" using ok(3) v(1) by (simp add: arch_PC_def fetch_view_def)
  then show ?thesis using dispatch_rest [OF ok(1,2) v(1,2,4) _ go(5,6,7)] v(3,5) go(8,9) by auto
qed

end
