(* ===== verification/CycleCorrect.thy ===== *)
theory CycleCorrect
  imports DispatchCorrect
begin

text \<open>
  Whole cycles of the main loop: the instructions that dispatch executes on the correct path are a
  run of the functional simulator; commit, writeback with its recoveries, issue and fetch are no step.
\<close>

subsection \<open>The run of one dispatch stage\<close>

text \<open>An instruction as dispatch takes it from the queue: its address, its word, and the word memory
  holds there by then.\<close>

type_synonym entry = "64 word \<times> 32 word \<times> 32 word"

definition entry_of :: "ooo \<Rightarrow> entry" where
  "entry_of w = (let f = head_rec w in (fr_regs_PC f, fr_IR f, word_at_pc (mem_byte (omem w)) (fr_regs_PC f)))"

text \<open>What both simulators run alike: the word in memory, with an instruction they share.\<close>

fun ok_entry :: "decoder \<Rightarrow> entry \<Rightarrow> bool" where
  "ok_entry d (pc, i, m) \<longleftrightarrow> ok_word d i \<and> m = i \<and> \<not> bit pc 0"

text \<open>The instructions dispatch executes outside of the speculative mode, in order.\<close>

fun dispatched :: "ooo_cfg \<Rightarrow> nat \<Rightarrow> nat \<Rightarrow> bool \<Rightarrow> ooo \<Rightarrow> entry list" where
  "dispatched cfg 0 n red w = []"
| "dispatched cfg (Suc k) n red w =
     (let c = mach w in
      if \<not> (n < ruu_decode_width cfg * fetch_speed cfg \<and> RUU_num c < length (RUU c) \<and> LSQ_num c < length (LSQ c)
            \<and> fetch_num c \<noteq> 0 \<and> (ruu_include_spec cfg \<or> \<not> spec w)) \<or> inorder_stall cfg w
      then []
      else case dispatch_one cfg red w of
          Inl e \<Rightarrow> []
        | Inr ((goes, took, red'), w1) \<Rightarrow>
            if goes then (if spec w then [] else [entry_of w])
              @ dispatched cfg k (if took then n + 1 else n) red' w1
            else [])"

lemma fast_run_add: "fast_run hs d (m + n) s = cbind (fast_run hs d m s) (fast_run hs d n)"
proof (induction m arbitrary: s)
  case (Suc m)
  then have "fast_run hs d (m + n) = (\<lambda>s. cbind (fast_run hs d m s) (fast_run hs d n))" by blast
  then show ?case by (simp add: cbind_assoc)
qed simp

lemma fast_run_one: "fast_run hs d 1 s = fast_step hs d s"
  by (cases "fast_step hs d s") simp_all

text \<open>Dispatch on the correct path is an iteration of the functional simulator, its fetch included.\<close>

lemma dispatch_step:
  assumes ok: "front_ok cfg w0" "fetch_num (mach w0) \<noteq> 0" "\<not> spec w0" "temps_ok w0"
    and m: "matches w0 s" "syscall_ok (o_syscall cfg)" "ok_entry (odec cfg) (entry_of w0)"
    and d: "dispatch_one cfg False w0 = Inr ((True, took, red'), w')"
  shows "\<exists>s'. fast_step (host_of cfg) (odec cfg) s = Inr s' \<and> matches w' s' \<and> front_ok cfg w' \<and> temps_ok w'
    \<and> (red' \<longrightarrow> fetch_num (mach w') = 0)"
proof -
  have e: "ok_word (odec cfg) (fr_IR (head_rec w0))" "\<not> bit (fr_regs_PC (head_rec w0)) 0"
    "word_at_pc (mem_byte (omem w0)) (fr_regs_PC (head_rec w0)) = fr_IR (head_rec w0)"
    using m(3) by (simp_all add: entry_of_def Let_def)
  have s: "regs_PC (regs (fast_begin s)) = fr_regs_PC (head_rec w0)" "fmem (fast_begin s) = fmem s"
    "mem_byte (fmem s) = mem_byte (omem w0)" "mem_wf (fmem s)"
    using m(1) arch_PC_head [OF ok(3,2)] by (simp_all add: matches_def fast_begin_def arch_regs_def)
  obtain mm k where f: "md_fetch_inst (fast_begin s) = Inr (fr_IR (head_rec w0), (fast_begin s)\<lparr>fmem := mm, mem_cross_page_refs := k\<rparr>)"
    and mm: "mem_wf mm" "mem_byte mm = mem_byte (fmem s)"
    using md_fetch_inst_word [of "fast_begin s"] e s by auto
  let ?s = "s\<lparr>fmem := mm, mem_cross_page_refs := k\<rparr>"
  have b: "(fast_begin s)\<lparr>fmem := mm, mem_cross_page_refs := k\<rparr> = fast_begin ?s"
    by (simp add: fast_begin_def set_R_def upd_regs_def)
  have "matches w0 ?s" using m(1) mm by (simp add: matches_def)
  from dispatch_on_path [OF ok this m(2) e(1) d] show ?thesis by (simp add: fast_step_insn f b)
qed

text \<open>A state and the run of \<open>n\<close> iterations that leads to it.\<close>

definition follows :: "ooo_cfg \<Rightarrow> fast \<Rightarrow> nat \<Rightarrow> ooo \<Rightarrow> bool" where
  "follows cfg s n w \<longleftrightarrow> front_ok cfg w \<and> (\<exists>s'. fast_run (host_of cfg) (odec cfg) n s = Inr s' \<and> matches w s')"

lemma view_same:
  assumes "arch_regs w' = arch_regs w" "mem_wf (omem w') = mem_wf (omem w)" "fetch_data w' = fetch_data w"
    "macro_total_count w' = macro_total_count w" "front (mach w') = front (mach w)"
  shows "front_ok cfg w' = front_ok cfg w" "arch_PC w' = arch_PC w" "matches w' s = matches w s" "follows cfg s m w' = follows cfg s m w"
proof -
  have q: "queue cfg w' = queue cfg w" "queue_ok cfg w' = queue_ok cfg w" "head_rec w' = head_rec w"
    using assms(3,5) by (simp_all add: front_def queue_def queue_ok_def head_rec_def)
  show ok: "front_ok cfg w' = front_ok cfg w" using assms q
    by (simp add: front_ok_def front_def spec_maps_def map_sizes_def clean_regs_def)
  show pc: "arch_PC w' = arch_PC w" using assms(5) q(3) by (simp add: arch_PC_def front_def)
  show m: "matches w' s = matches w s" for s using assms(1) pc by (simp add: matches_def)
  show "follows cfg s m w' = follows cfg s m w" by (simp add: follows_def ok m)
qed

lemma follows_latch: "follows cfg s m (latch_pc f w) = follows cfg s m w"
  by (rule view_same) (simp_all add: arch_regs_def)

lemma follows_quiet: "quiet w w' \<Longrightarrow> follows cfg s m w' = follows cfg s m w"
  by (rule view_same) (simp_all add: quiet_def arch_regs_def)

lemma dispatch_loop_follows:
  assumes "syscall_ok (o_syscall cfg)" "follows cfg s m w" "temps_ok w" "red \<longrightarrow> fetch_num (mach w) = 0"
    and "dispatch_loop cfg k n red w = Inr w'" "\<forall>i \<in> set (dispatched cfg k n red w). ok_entry (odec cfg) i"
  shows "follows cfg s (m + length (dispatched cfg k n red w)) w'"
  using assms(2-6)
proof (induction k arbitrary: n red w m)
  case (Suc k)
  let ?stop = "\<not> (n < ruu_decode_width cfg * fetch_speed cfg \<and> RUU_num (mach w) < length (RUU (mach w))
    \<and> LSQ_num (mach w) < length (LSQ (mach w)) \<and> fetch_num (mach w) \<noteq> 0 \<and> (ruu_include_spec cfg \<or> \<not> spec w))
    \<or> inorder_stall cfg w"
  show ?case
  proof (cases ?stop)
    case True
    then have "dispatched cfg (Suc k) n red w = []" "w' = w" using Suc.prems(4) by simp_all
    then show ?thesis using Suc.prems(1) by (simp del: dispatched.simps)
  next
    case False
    then have num: "fetch_num (mach w) \<noteq> 0" and red: "red = False" using Suc.prems(3) by auto
    have "cbind (dispatch_one cfg red w) (\<lambda>((goes, took, red'), w1).
        if goes then dispatch_loop cfg k (if took then n + 1 else n) red' w1 else Inr w1) = Inr w'"
      using Suc.prems(4) unfolding dispatch_loop.simps Let_def if_not_P [OF False] .
    then obtain goes took red' w1 where 1: "dispatch_one cfg red w = Inr ((goes, took, red'), w1)"
      and 2: "(if goes then dispatch_loop cfg k (if took then n + 1 else n) red' w1 else Inr w1) = (Inr w' :: ooo cres)"
      unfolding cbind_Inr_iff split_paired_Ex prod.case by (elim exE conjE) (rule that)
    have words: "dispatched cfg (Suc k) n red w = (if goes then (if spec w then [] else [entry_of w])
        @ dispatched cfg k (if took then n + 1 else n) red' w1 else [])"
      using False by (simp add: Let_def 1)
    show ?thesis
    proof (cases goes)
      case no: False
      then have "w' = latch_pc (head_rec w) w" using 1 2 by (auto elim: dispatch_one_cases)
      then show ?thesis using Suc.prems(1) no by (simp add: words follows_latch del: dispatched.simps)
    next
      case True
      let ?m = "m + length (if spec w then [] else [entry_of w])"
      obtain s0 where s0: "fast_run (host_of cfg) (odec cfg) m s = Inr s0" "matches w s0" and ok: "front_ok cfg w"
        using Suc.prems(1) by (auto simp: follows_def)
      have "follows cfg s ?m w1 \<and> temps_ok w1 \<and> (red' \<longrightarrow> fetch_num (mach w1) = 0)"
      proof (cases "spec w")
        case sp: True
        have "front_ok cfg w1 \<and> arch_regs w1 = arch_regs w \<and> arch_PC w1 = arch_PC w \<and> spec w1 \<and> (red' \<longrightarrow> fetch_num (mach w1) = 0)"
          using dispatch_off_path [OF ok num sp] 1 True red by simp
        then show ?thesis using sp s0 by (auto simp: follows_def matches_def temps_ok_def)
      next
        case np: False
        have "ok_entry (odec cfg) (entry_of w)" using Suc.prems(5) True np by (simp add: words del: dispatched.simps)
        from dispatch_step [OF ok num np Suc.prems(2) s0(2) assms(1) this] 1 [unfolded red] True
        obtain s1 where "fast_step (host_of cfg) (odec cfg) s0 = Inr s1" "matches w1 s1"
          "front_ok cfg w1" "temps_ok w1" "red' \<longrightarrow> fetch_num (mach w1) = 0" by auto
        then show ?thesis using np s0(1) fast_run_add [of _ _ m 1 s] by (simp add: follows_def fast_run_one [unfolded One_nat_def])
      qed
      moreover have "dispatch_loop cfg k (if took then n + 1 else n) red' w1 = Inr w'" using 2 True by simp
      moreover have "\<forall>i \<in> set (dispatched cfg k (if took then n + 1 else n) red' w1). ok_entry (odec cfg) i"
        using Suc.prems(5) True by (simp add: words del: dispatched.simps)
      ultimately have "follows cfg s (?m + length (dispatched cfg k (if took then n + 1 else n) red' w1)) w'"
        using Suc.IH by blast
      then show ?thesis using True by (simp add: words add.assoc del: dispatched.simps)
    qed
  qed
qed simp

subsection \<open>The other stages\<close>

lemma follows_on_cpu:
  "on_cpu f w = Inr w' \<Longrightarrow> (\<And>c'. f (mach w) = Inr c' \<Longrightarrow> front c' = front (mach w)) \<Longrightarrow> follows cfg s m w' = follows cfg s m w"
  by (rule follows_quiet [OF quiet_on_cpu])

lemma clear_map_none: "length bm = BITMAP_SIZE k \<Longrightarrow> n < 32 * length bm \<Longrightarrow> \<not> BITMAP_SET_P (BITMAP_CLEAR_MAP bm (BITMAP_SIZE k)) n"
  using clear_map_bits [of bm] set_p_bits [of n "BITMAP_CLEAR_MAP bm (length bm)"]
  by (metis BITMAP_CLEAR_MAP_def empty_iff map_loop_length)

lemma tracer_follows:
  assumes f: "follows cfg s m (w\<lparr>mach := c\<rparr>)" and t: "tracer_recover c = Inr c'"
  shows "follows cfg s m (w\<lparr>mach := c'\<rparr>)"
proof -
  have ok: "front_ok cfg (w\<lparr>mach := c\<rparr>)" using f by (simp add: follows_def)
  have sz: "length (use_spec_R c) = BITMAP_SIZE 32" "length (use_spec_F c) = BITMAP_SIZE 32" "length (use_spec_C c) = BITMAP_SIZE 3"
    using ok by (simp_all add: front_ok_def spec_maps_def map_sizes_def R_BMAP_SZ_def F_BMAP_SZ_def C_BMAP_SZ_def)
  obtain st where sp: "spec_mode c" and c': "c' = (clear_spec_regs c)\<lparr>spec_st := st, fetch_num := 0, fetch_head := 0, fetch_tail := 0,
               fetch_pred_PC := recover_PC c, fetch_regs_PC := recover_PC c\<rparr>"
    using t by (auto simp: tracer_recover_def cbind_Inr_iff split: if_splits)
  have clean: "clean_regs c'"
    using clear_map_none [OF sz(1)] clear_map_none [OF sz(2)] clear_map_none [OF sz(3)] sz
    by (simp add: c' clear_spec_regs_def clean_regs_def R_BMAP_SZ_def F_BMAP_SZ_def C_BMAP_SZ_def BITMAP_SIZE_def)
  have sizes: "map_sizes c' = map_sizes c"
    by (simp add: c' clear_spec_regs_def map_sizes_def BITMAP_CLEAR_MAP_def)
  have "front_ok cfg (w\<lparr>mach := c'\<rparr>)" using ok clean sizes
    by (auto simp: front_ok_def queue_ok_def queue_def spec_maps_def c' ifq_pos)
  moreover have "arch_PC (w\<lparr>mach := c'\<rparr>) = arch_PC (w\<lparr>mach := c\<rparr>)"
    using sp by (simp add: arch_PC_def c' clear_spec_regs_def)
  ultimately show ?thesis using f by (simp add: follows_def matches_def arch_regs_def)
qed

text \<open>The contract of StageKeeps once more, with the recovery.\<close>

lemma follows_front:
  "front c' = front c \<Longrightarrow> follows cfg s m (w\<lparr>mach := c\<rparr>) \<Longrightarrow> follows cfg s m (w\<lparr>mach := c'\<rparr>)"
  by (subst view_same(4) [of _ "w\<lparr>mach := c\<rparr>"]) (simp_all add: arch_regs_def)

interpretation fo: writeback_keeps "\<lambda>c. follows cfg s m (w\<lparr>mach := c\<rparr>)" for cfg s m w
proof (unfold_locales, goal_cases)
  case (19 c scfg r d)
  obtain i d1 d2 p where d: "ruu_recover i c = Inr d1" "tracer_recover d1 = Inr d2"
    and e: "d = upd_td (Recover_this_update (\<lambda>_. True)) (d2\<lparr>pred := p, ruu_fetch_issue_delay := ruu_branch_penalty scfg\<rparr>)"
    using 19(2) by (auto simp: recover_branch_def cbind_Inr_iff split: rsref.splits if_splits)
  have "follows cfg s m (w\<lparr>mach := d1\<rparr>)" using follows_front [OF front_recover [OF d(1)] 19(1)] .
  from tracer_follows [OF this d(2)] have "follows cfg s m (w\<lparr>mach := d2\<rparr>)" .
  then show ?case by (rule follows_front [rotated]) (simp add: e upd_td_def front_def)
qed (erule follows_front [rotated], (rule front_upd_rs | (simp add: front_def; fail)))+

lemma writeback_follows:
  assumes "follows cfg s m w" "on_cpu (ruu_writeback scfg) w = Inr w'"
  shows "follows cfg s m w'"
proof -
  obtain c' where c': "ruu_writeback scfg (mach w) = Inr c'" "w' = w\<lparr>mach := c'\<rparr>"
    using assms(2) by (auto simp: on_cpu_def cbind_Inr_iff)
  have "follows cfg s m (w\<lparr>mach := mach w\<rparr>)" using assms(1) by simp
  from fo.writeback [OF this, unfolded fo.keeps_def, rule_format, OF c'(1)] show ?thesis unfolding c'(2) .
qed

lemma fetch_follows:
  assumes f: "follows cfg s m w" and r: "ruu_fetch cfg w = Inr w'"
  shows "follows cfg s m w'"
proof -
  have ok: "front_ok cfg w" using f by (simp add: follows_def)
  then have O: "ifq_ok cfg" "queue_ok cfg w" "mem_wf (omem w)" by (simp_all add: front_ok_def)
  obtain rs where a: "adds cfg w rs w'" using ruu_fetch_adds [OF O r] by blast
  then have k: "fetch_keeps w w'" "queue_ok cfg w'" "queue cfg w' = queue cfg w @ rs"
    "chained (fetch_pred_PC (mach w)) rs (fetch_pred_PC (mach w'))" by (simp_all add: adds_def)
  obtain pc where pc: "chained pc (queue cfg w) (fetch_pred_PC (mach w))" using ok by (auto simp: front_ok_def)
  then have pc': "chained pc (queue cfg w') (fetch_pred_PC (mach w'))" using k(3,4) by (auto simp: chained_append)
  have "front_ok cfg w'" using ok k pc'
    by (auto simp: front_ok_def fetch_keeps_def spec_maps_def map_sizes_def clean_regs_def)
  moreover have "arch_PC w' = arch_PC w"
  proof (cases "spec w")
    case True
    then show ?thesis using k(1) by (simp add: arch_PC_def fetch_keeps_def)
  next
    case False
    then have "arch_PC w = pc" "arch_PC w' = pc"
      using arch_PC_chain [OF O(2) pc] arch_PC_chain [OF k(2) pc'] k(1) by (simp_all add: fetch_keeps_def)
    then show ?thesis by simp
  qed
  ultimately show ?thesis using f k(1) by (simp add: follows_def matches_def arch_regs_def fetch_keeps_def)
qed

lemma refresh_issue_follows: "refresh_issue cfg w = Inr w' \<Longrightarrow> follows cfg' s m w' = follows cfg' s m w"
proof -
  assume "refresh_issue cfg w = Inr w'"
  then obtain w1 where 1: "on_cpu (lsq_refresh (cf_isa (ocfg cfg))) w = Inr w1"
    "on_cpu (ruu_issue (ocfg cfg) (o_junk_tlb cfg)) w1 = Inr w'" by (auto simp: refresh_issue_def cbind_Inr_iff)
  show ?thesis using follows_on_cpu [OF 1(1) front_frame(2)] follows_on_cpu [OF 1(2) front_frame(3)] by simp
qed

subsection \<open>Cycles\<close>

text \<open>A cycle up to dispatch, and from there on.\<close>

definition before_dispatch :: "ooo_cfg \<Rightarrow> ooo \<Rightarrow> ooo cres" where
  "before_dispatch cfg w =
     cbind (on_cpu sanity w) (\<lambda>w0.
     cbind (on_cpu (ruu_commit (ocfg cfg)) (upd_cpu (td_update (\<lambda>_. cycle_reset_classify_latches)) w0)) (\<lambda>w1.
     cbind (on_cpu (ruu_writeback (ocfg cfg)) (upd_cpu (fu_pool_update ruu_release_fu) w1)) (\<lambda>w2.
     if bugcompat_mode cfg then Inr w2 else refresh_issue cfg w2)))"

definition after_dispatch :: "ooo_cfg \<Rightarrow> ooo \<Rightarrow> ooo cres" where
  "after_dispatch cfg w4 =
     cbind (if bugcompat_mode cfg then refresh_issue cfg w4 else Inr w4) (\<lambda>w5.
     cbind (fetch_phase cfg w5) (\<lambda>w6.
     Inr (upd_cpu (\<lambda>c. c\<lparr>sim_cycle := sim_cycle c + 1\<rparr>) (classify (upd_cpu (\<lambda>c. upd_td (end_latches c) c) w6)))))"

lemma sim_cycle_step_parts:
  "sim_cycle_step cfg w = cbind (before_dispatch cfg w) (\<lambda>w3. cbind (ruu_dispatch cfg w3) (after_dispatch cfg))"
  by (simp add: sim_cycle_step_def before_dispatch_def after_dispatch_def [abs_def] cbind_assoc)

definition cycle_entries :: "ooo_cfg \<Rightarrow> ooo \<Rightarrow> entry list" where
  "cycle_entries cfg w =
     (case before_dispatch cfg w of
        Inl e \<Rightarrow> []
      | Inr w3 \<Rightarrow> dispatched cfg (ruu_decode_width cfg * fetch_speed cfg + fetch_num (mach w3) + 2) 0 False
          (w3\<lparr>target_PC := o_junk_target cfg, temps := (\<lambda>n. replicate n 0)\<rparr>))"

primrec run_entries :: "ooo_cfg \<Rightarrow> nat \<Rightarrow> ooo \<Rightarrow> entry list" where
  "run_entries cfg 0 w = []"
| "run_entries cfg (Suc n) w =
     (case sim_cycle_step cfg w of Inl e \<Rightarrow> [] | Inr w' \<Rightarrow> cycle_entries cfg w @ run_entries cfg n w')"

lemma before_follows:
  assumes f: "follows cfg s m w" and r: "before_dispatch cfg w = Inr w'"
  shows "follows cfg s m w'"
proof -
  obtain w0 w1 w2 where 0: "on_cpu sanity w = Inr w0"
    and 1: "on_cpu (ruu_commit (ocfg cfg)) (upd_cpu (td_update (\<lambda>_. cycle_reset_classify_latches)) w0) = Inr w1"
    and 2: "on_cpu (ruu_writeback (ocfg cfg)) (upd_cpu (fu_pool_update ruu_release_fu) w1) = Inr w2"
    and 3: "(if bugcompat_mode cfg then Inr w2 else refresh_issue cfg w2) = (Inr w' :: ooo cres)"
    using r by (auto simp: before_dispatch_def cbind_Inr_iff)
  have "front c' = front (mach w)" if "sanity (mach w) = Inr c'" for c'
    using that by (simp add: sanity_def split: if_splits)
  then have "follows cfg s m w0" using f follows_on_cpu [OF 0, of cfg s m] by blast
  then have "follows cfg s m (upd_cpu (td_update (\<lambda>_. cycle_reset_classify_latches)) w0)"
    by (subst follows_quiet [OF quiet_upd]) (simp_all add: front_def)
  then have "follows cfg s m w1" using follows_on_cpu [OF 1 front_commit] by simp
  then have "follows cfg s m (upd_cpu (fu_pool_update ruu_release_fu) w1)"
    by (subst follows_quiet [OF quiet_upd]) (simp_all add: front_def)
  then have "follows cfg s m w2" using writeback_follows 2 by blast
  then show ?thesis using 3 refresh_issue_follows by (auto split: if_splits)
qed

lemma after_follows:
  assumes f: "follows cfg s m w" and r: "after_dispatch cfg w = Inr w'"
  shows "follows cfg s m w'"
proof -
  obtain w5 w6 where 5: "(if bugcompat_mode cfg then refresh_issue cfg w else Inr w) = Inr w5" and 6: "fetch_phase cfg w5 = Inr w6"
    and w': "w' = upd_cpu (\<lambda>c. c\<lparr>sim_cycle := sim_cycle c + 1\<rparr>) (classify (upd_cpu (\<lambda>c. upd_td (end_latches c) c) w6))"
    using r by (auto simp: after_dispatch_def cbind_Inr_iff)
  have "follows cfg s m w5" using 5 f refresh_issue_follows by (auto split: if_splits)
  then have "follows cfg s m w6" using 6 fetch_follows
    by (auto simp: fetch_phase_def follows_quiet [OF quiet_upd] split: if_splits)
  moreover have "quiet w6 w'" by (simp add: w' classify_def upd_td_def quiet_def front_def)
  ultimately show ?thesis using follows_quiet by blast
qed

lemma cycle_follows:
  assumes h: "syscall_ok (o_syscall cfg)" and f: "follows cfg s m w" and r: "sim_cycle_step cfg w = Inr w'"
    and i: "\<forall>i \<in> set (cycle_entries cfg w). ok_entry (odec cfg) i"
  shows "follows cfg s (m + length (cycle_entries cfg w)) w'"
proof -
  obtain w3 w4 where 3: "before_dispatch cfg w = Inr w3" and 4: "ruu_dispatch cfg w3 = Inr w4" and 5: "after_dispatch cfg w4 = Inr w'"
    using r by (auto simp: sim_cycle_step_parts cbind_Inr_iff)
  let ?w = "w3\<lparr>target_PC := o_junk_target cfg, temps := (\<lambda>n. replicate n 0)\<rparr>"
  have "follows cfg s m w3" by (rule before_follows [OF f 3])
  then have f3: "follows cfg s m ?w"
    by (subst view_same(4)) (simp_all add: arch_regs_def)
  have "follows cfg s (m + length (cycle_entries cfg w)) w4"
    using dispatch_loop_follows [OF h f3 _ _ 4 [unfolded ruu_dispatch_def]] i 3
    by (simp add: cycle_entries_def temps_ok_def)
  then show ?thesis using after_follows 5 by blast
qed

lemma cycles_follow:
  assumes "syscall_ok (o_syscall cfg)" "follows cfg s m w" "sim_cycles cfg n w = Inr w'"
    and "\<forall>i \<in> set (run_entries cfg n w). ok_entry (odec cfg) i"
  shows "follows cfg s (m + length (run_entries cfg n w)) w'"
  using assms(2-4)
proof (induction n arbitrary: w m)
  case (Suc n)
  then obtain w1 where 1: "sim_cycle_step cfg w = Inr w1" "sim_cycles cfg n w1 = Inr w'" by (auto simp: cbind_Inr_iff)
  have words: "run_entries cfg (Suc n) w = cycle_entries cfg w @ run_entries cfg n w1" by (simp add: 1)
  have "follows cfg s (m + length (cycle_entries cfg w)) w1"
    using cycle_follows [OF assms(1) Suc.prems(1) 1(1)] Suc.prems(3) unfolding words by simp
  from Suc.IH [OF this 1(2)] show ?case using Suc.prems(3) unfolding words by (simp add: add.assoc)
qed simp

end
