(* ===== verification/WindowCorrect.thy ===== *)
theory WindowCorrect
  imports CycleCorrect CommitProps
begin

text \<open>
  The window of operations in flight, as the two rings keep it: the tails are behind the last
  operation, and the load/store queue has an entry for each address computation in the RUU and no
  other. Every stage of a cycle keeps this, so that the checks at the start of a cycle pass.
\<close>

definition window_ok :: "'z core_scheme \<Rightarrow> bool" where
  "window_ok c \<longleftrightarrow> RUU_num c \<le> length (RUU c) \<and> LSQ_num c \<le> length (LSQ c)
     \<and> RUU_head c < length (RUU c) \<and> LSQ_head c < length (LSQ c)
     \<and> RUU_tail c = ruu_pos c (RUU_num c) \<and> LSQ_tail c = lsq_pos c (LSQ_num c)
     \<and> LSQ_num c = mem_ops c [0..<RUU_num c]"

lemma ruu_len: "window c' = window c \<Longrightarrow> length (RUU c') = length (RUU c)"
  by (simp add: window_def) (metis length_map)

lemma mem_ops_map:
  assumes "map rs_ea_comp (RUU c') = map rs_ea_comp (RUU c)" "RUU_head c' = RUU_head c" "0 < length (RUU c)"
  shows "mem_ops c' js = mem_ops c js"
proof -
  have l: "length (RUU c') = length (RUU c)" using arg_cong [OF assms(1), of length] by simp
  then have p: "ruu_pos c' j = ruu_pos c j" for j by (simp add: ruu_pos_def assms(2))
  have "rs_ea_comp (RUU c' ! ruu_pos c j) = rs_ea_comp (RUU c ! ruu_pos c j)" for j
    using map_eq_nth [OF assms(1) ruu_pos_less [OF assms(3)]] .
  then show ?thesis by (simp add: mem_ops_def p)
qed

lemma window_ok_cong:
  assumes "window c' = window c"
  shows "window_ok c' = window_ok c"
proof (cases "0 < length (RUU c)")
  case True
  have "mem_ops c' js = mem_ops c js" for js
    by (rule mem_ops_map) (use True assms in \<open>simp_all add: window_def\<close>)
  moreover have "ruu_pos c' j = ruu_pos c j" "lsq_pos c' j = lsq_pos c j" for j
    using assms ruu_len [OF assms] by (simp_all add: window_def ruu_pos_def lsq_pos_def)
  ultimately show ?thesis using assms ruu_len [OF assms] by (simp add: window_ok_def window_def)
next
  case False
  then show ?thesis using ruu_len [OF assms] by (simp add: window_ok_def)
qed

lemma mem_ops_Suc: "mem_ops c [0..<Suc n] = mem_ops c [0..<n] + (if rs_ea_comp (RUU c ! ruu_pos c n) then 1 else 0)"
  by (simp add: mem_ops_def)

declare reg_of.simps [simp del]

subsection \<open>Commit\<close>

interpretation ta: commit_keeps "\<lambda>c. (RUU_tail c, LSQ_tail c) = v" for v
  by unfold_locales (simp_all add: upd_rs_def split: rsref.split)

lemmas tails_frame = ta.head_commit [OF refl, unfolded ta.keeps2_def, rule_format]

lemma mem_ops_head: "0 < n \<Longrightarrow> mem_ops c [0..<n] = (if rs_ea_comp (RUU c ! ruu_pos c 0) then 1 else 0) + mem_ops c [1..<n]"
  by (simp add: mem_ops_def upt_conv_Cons)

lemma mem_ops_shift:
  assumes "map rs_ea_comp (RUU c') = map rs_ea_comp (RUU c)" "RUU_head c' = (RUU_head c + 1) mod length (RUU c)" "0 < length (RUU c)"
  shows "mem_ops c' [0..<n] = mem_ops c [1..<Suc n]"
proof -
  have l: "length (RUU c') = length (RUU c)" using arg_cong [OF assms(1), of length] by simp
  have p: "ruu_pos c' j = ruu_pos c (Suc j)" for j by (simp add: ruu_pos_def assms(2) l mod_Suc_eq mod_add_left_eq)
  have "rs_ea_comp (RUU c' ! ruu_pos c (Suc j)) = rs_ea_comp (RUU c ! ruu_pos c (Suc j))" for j
    using map_eq_nth [OF assms(1) ruu_pos_less [OF assms(3)]] .
  moreover have "[1..<Suc n] = map Suc [0..<n]" by (simp add: map_Suc_upt)
  ultimately show ?thesis unfolding mem_ops_def by (simp only: filter_map p comp_def length_map)
qed

lemma window_commit_head:
  assumes w: "window_ok c" "RUU_num c \<noteq> 0" and g: "commit_head cfg c = Inr (b, c')"
  shows "window_ok c'"
proof -
  have t: "RUU_tail c' = RUU_tail c" "LSQ_tail c' = LSQ_tail c" using tails_frame [OF g] by simp_all
  show ?thesis
  proof (cases b)
    case False
    then have "same_ops c c'" using commit_head_stays(1) [of cfg c c'] g by simp
    then have "window c' = window c" using t map_eq_imp_length_eq [of rs_tag "LSQ c'" rs_tag "LSQ c"]
      by (simp add: same_ops_def window_def)
    then show ?thesis using w(1) window_ok_cong by blast
  next
    case True
    have "commit_head cfg c = Inr (True, c')" using g True by simp
    note G = commit_head_goes [OF this]
    let ?ea = "rs_ea_comp (RUU c ! RUU_head c)"
    have W: "RUU_num c \<le> length (RUU c)" "LSQ_num c \<le> length (LSQ c)" "RUU_head c < length (RUU c)" "LSQ_head c < length (LSQ c)"
      "RUU_tail c = ruu_pos c (RUU_num c)" "LSQ_tail c = lsq_pos c (LSQ_num c)" "LSQ_num c = mem_ops c [0..<RUU_num c]"
      using w(1) by (simp_all add: window_ok_def)
    have len: "length (RUU c') = length (RUU c)" "length (LSQ c') = length (LSQ c)" by (simp_all add: G)
    have h0: "ruu_pos c 0 = RUU_head c" using W(3) by (simp add: ruu_pos_def)
    obtain k where k: "RUU_num c = Suc k" using w(2) by (cases "RUU_num c") auto
    have ea: "map rs_ea_comp (RUU c') = map rs_ea_comp (RUU c)" by (simp add: G(2) map_upd_same bump_tag_def)
    have m: "mem_ops c' [0..<k] = mem_ops c [1..<Suc k]"
      by (rule mem_ops_shift [OF ea]) (use W(3) in \<open>auto simp: G\<close>)
    have n: "LSQ_num c = (if ?ea then 1 else 0) + mem_ops c [1..<Suc k]"
      using mem_ops_head [of "Suc k" c] W(7) k h0 by simp
    have "LSQ_num c' = mem_ops c' [0..<RUU_num c']" using n m by (simp add: G k)
    moreover have "RUU_tail c' = ruu_pos c' (RUU_num c')"
      using t(1) W(5) by (simp add: ruu_pos_def len G(3,4) k mod_Suc_eq mod_add_left_eq)
    moreover have "LSQ_tail c' = lsq_pos c' (LSQ_num c')"
      using t(2) W(6) n by (simp add: lsq_pos_def len G(7,8) mod_Suc_eq mod_add_left_eq)
    moreover have "RUU_num c' \<le> length (RUU c')" "LSQ_num c' \<le> length (LSQ c')" "RUU_head c' < length (RUU c')"
      "LSQ_head c' < length (LSQ c')" using W(1-4) len by (auto simp: G(3,4,7,8) intro!: mod_less_divisor)
    ultimately show ?thesis unfolding window_ok_def by blast
  qed
qed

lemma window_commit:
  assumes w: "window_ok c" and r: "ruu_commit cfg c = Inr c'"
  shows "window_ok c'"
proof -
  have l: "window_ok c \<Longrightarrow> commit_loop cfg k n c = Inr (m, c') \<Longrightarrow> window_ok c'" for k n m c c'
  proof (induction k arbitrary: n c)
    case (Suc k)
    show ?case
    proof (cases "RUU_num c = 0")
      case True
      then show ?thesis using Suc.prems by simp
    next
      case False
      then obtain g c1 where 1: "commit_head cfg c = Inr (g, c1)"
        "(if g then commit_loop cfg k (Suc n) c1 else Inr (n, c1)) = Inr (m, c')"
        using Suc.prems(2) by (auto simp: cbind_Inr_iff)
      have "window_ok c1" by (rule window_commit_head [OF Suc.prems(1) False 1(1)])
      then show ?thesis using 1(2) Suc.IH by (auto split: if_splits)
    qed
  qed simp
  obtain m c1 where c1: "commit_loop cfg (ruu_commit_width cfg) 0 c = Inr (m, c1)"
    "c' = upd_td (R_this_update (\<lambda>_. int m)) (if m > 0 then c1\<lparr>stall_active := False, last_head_uop_id := 0\<rparr> else c1)"
    using r by (auto simp: ruu_commit_def Let_def cbind_Inr_iff)
  have "window c' = window c1" unfolding c1(2) by (simp add: window_def upd_td_def)
  then show ?thesis using l [OF w c1(1)] window_ok_cong by blast
qed

subsection \<open>Recovery and writeback\<close>

lemma prev_ring: "0 < n \<Longrightarrow> 0 < j \<Longrightarrow> prev_slot n ((h + j) mod n) = (h + (j - 1)) mod n" for n :: nat
  using prev_slot_ring [of n h "j - 1"] by simp

text \<open>The window without its tails, which the loop of recovery carries in locals.\<close>

definition untailed :: "'z core_scheme \<Rightarrow> bool" where
  "untailed c \<longleftrightarrow> RUU_num c \<le> length (RUU c) \<and> LSQ_num c \<le> length (LSQ c)
     \<and> RUU_head c < length (RUU c) \<and> LSQ_head c < length (LSQ c) \<and> LSQ_num c = mem_ops c [0..<RUU_num c]"

lemma window_ok_iff: "window_ok c \<longleftrightarrow> untailed c \<and> RUU_tail c = ruu_pos c (RUU_num c) \<and> LSQ_tail c = lsq_pos c (LSQ_num c)"
  by (auto simp: window_ok_def untailed_def)

lemma window_pos:
  assumes "window c' = window c"
  shows "ruu_pos c' j = ruu_pos c j" "lsq_pos c' j = lsq_pos c j"
    "length (RUU c') = length (RUU c)" "length (LSQ c') = length (LSQ c)"
    "RUU_num c' = RUU_num c" "LSQ_num c' = LSQ_num c" "RUU_head c' = RUU_head c" "LSQ_head c' = LSQ_head c"
    "map rs_ea_comp (RUU c') = map rs_ea_comp (RUU c)"
  using assms ruu_len [OF assms] by (simp_all add: window_def ruu_pos_def lsq_pos_def)

lemma squash_one_window:
  fixes c :: cpu
  assumes u: "untailed c" "RUU_num c = Suc k" and i: "ri = ruu_pos c k"
    and l: "li = prev_slot (length (LSQ c)) (lsq_pos c (LSQ_num c))" "lp = lsq_pos c (LSQ_num c)"
    and 1: "squash_mem ri li lp c = Inr (c1, li', lp')" and 2: "squash (InRUU ri) c1 = Inr c2"
  shows "untailed (c2\<lparr>RUU_num := k\<rparr>) \<and> lp' = lsq_pos c2 (LSQ_num c2) \<and> li' = prev_slot (length (LSQ c2)) lp'
    \<and> RUU_head c2 = RUU_head c \<and> length (RUU c2) = length (RUU c) \<and> RUU_num c2 = Suc k"
proof -
  have n: "LSQ_num c = mem_ops c [0..<k] + (if rs_ea_comp (RUU c ! ri) then 1 else 0)"
    using u mem_ops_Suc [of c k] by (simp add: untailed_def i)
  have len: "0 < length (RUU c)" "0 < length (LSQ c)" using u(1) by (auto simp: untailed_def)
  note w2 = window_frame(1) [OF 2]
  have "untailed (c2\<lparr>RUU_num := k\<rparr>) \<and> lp' = lsq_pos c2 (LSQ_num c2) \<and> li' = prev_slot (length (LSQ c2)) lp'
    \<and> map rs_ea_comp (RUU c2) = map rs_ea_comp (RUU c) \<and> RUU_head c2 = RUU_head c \<and> RUU_num c2 = Suc k"
  proof (cases "rs_ea_comp (RUU c ! ri)")
    case False
    then have c1: "c1 = c" "li' = li" "lp' = lp" using 1 by (simp_all add: squash_mem_def)
    note W = window_pos [OF w2 [unfolded c1(1)]]
    have "mem_ops (c2\<lparr>RUU_num := k\<rparr>) [0..<k] = mem_ops c [0..<k]"
      by (rule mem_ops_map) (use W len in simp_all)
    then show ?thesis using u n l c1(2,3) False W by (simp add: untailed_def)
  next
    case True
    then obtain c0 where c0: "squash (InLSQ li) c = Inr c0" "c1 = c0\<lparr>LSQ_num := LSQ_num c0 - 1\<rparr>"
      "li' = prev_slot (length (LSQ c1)) li" "lp' = li" using 1 by (auto simp: squash_mem_def cbind_Inr_iff split: if_splits)
    note W0 = window_pos [OF window_frame(1) [OF c0(1)]]
    note W = window_pos [OF w2]
    have c1: "map rs_ea_comp (RUU c1) = map rs_ea_comp (RUU c)" "RUU_head c1 = RUU_head c" "RUU_num c1 = Suc k"
      "LSQ_num c1 = LSQ_num c - 1" "lsq_pos c1 j = lsq_pos c j" "LSQ_head c1 = LSQ_head c" "length (LSQ c1) = length (LSQ c)"
      "length (RUU c1) = length (RUU c)" for j
      using W0 u(2) by (simp_all add: c0(2) lsq_pos_def)
    have li: "li = lsq_pos c (LSQ_num c - 1)" using prev_ring [OF len(2), of "LSQ_num c" "LSQ_head c"] n True
      by (simp add: l(1) lsq_pos_def)
    have "mem_ops (c2\<lparr>RUU_num := k\<rparr>) [0..<k] = mem_ops c [0..<k]"
      by (rule mem_ops_map) (use W c1 len in simp_all)
    moreover have "Suc k \<le> length (RUU c)" "RUU_head c < length (RUU c)" "LSQ_head c < length (LSQ c)" "LSQ_num c \<le> length (LSQ c)"
      "LSQ_num c = Suc (mem_ops c [0..<k])" using u n True by (simp_all add: untailed_def del: upt_Suc)
    ultimately show ?thesis using W c1 c0(3,4) li by (simp add: untailed_def)
  qed
  then show ?thesis using map_eq_imp_length_eq [of rs_ea_comp "RUU c2" rs_ea_comp "RUU c"] by simp
qed

lemma recover_loop_window:
  fixes c :: cpu
  assumes "untailed c" "ri = prev_slot (length (RUU c)) rp" "rp = ruu_pos c (RUU_num c)"
    "li = prev_slot (length (LSQ c)) lp" "lp = lsq_pos c (LSQ_num c)" "recover_loop k b ri li rp lp c = Inr c'"
  shows "window_ok c'"
  using assms
proof (induction k arbitrary: ri li rp lp c)
  case (Suc k)
  show ?case
  proof (cases "ri = b")
    case True
    then have "c' = c\<lparr>RUU_tail := rp, LSQ_tail := lp\<rparr>" using Suc.prems(6) by simp
    then show ?thesis using Suc.prems(1,3,5) by (simp add: window_ok_iff untailed_def mem_ops_def ruu_pos_def lsq_pos_def)
  next
    case False
    then obtain c1 li' lp' c2 where 1: "squash_mem ri li lp c = Inr (c1, li', lp')" and 2: "squash (InRUU ri) c1 = Inr c2"
      and 3: "recover_loop k b (prev_slot (length (RUU c2)) ri) li' ri lp' (c2\<lparr>RUU_num := RUU_num c2 - 1\<rparr>) = Inr c'"
      and n: "RUU_num c \<noteq> 0"
      using Suc.prems(6) by (auto simp: cbind_Inr_iff split: if_splits)
    obtain j where j: "RUU_num c = Suc j" using n by (cases "RUU_num c") auto
    have "0 < length (RUU c)" using Suc.prems(1) by (auto simp: untailed_def)
    then have ri: "ri = ruu_pos c j"
      using prev_slot_ring [of "length (RUU c)" "RUU_head c" j] by (simp add: Suc.prems(2,3) j ruu_pos_def)
    note S = squash_one_window [OF Suc.prems(1) j ri Suc.prems(4) [unfolded Suc.prems(5)] Suc.prems(5) 1 2]
    show ?thesis
      by (rule Suc.IH [OF _ _ _ _ _ 3])
        (use S ri in \<open>simp_all add: ruu_pos_def lsq_pos_def untailed_def\<close>)
  qed
qed simp

lemma window_recover:
  fixes c :: cpu
  assumes w: "window_ok c" and r: "ruu_recover i c = Inr c'"
  shows "window_ok c'"
proof -
  obtain c1 where c1: "recover_loop (Suc (RUU_num c)) i (prev_slot (length (RUU c)) (RUU_tail c))
      (prev_slot (length (LSQ c)) (LSQ_tail c)) (RUU_tail c) (LSQ_tail c) c = Inr c1"
    and c': "c' = c1\<lparr>use_spec_cv := BITMAP_CLEAR_MAP (use_spec_cv c1) CV_BMAP_SZ\<rparr>"
    using r by (auto simp: ruu_recover_def cbind_Inr_iff simp del: recover_loop.simps)
  have "window_ok c1" by (rule recover_loop_window [OF _ refl _ refl _ c1]) (use w in \<open>simp_all add: window_ok_iff\<close>)
  then show ?thesis by (subst window_ok_cong [of _ c1]) (simp_all add: c' window_def)
qed

interpretation wk: writeback_keeps window_ok
proof (unfold_locales, goal_cases)
  case (19 c cfg r d)
  obtain i d1 d2 p where d: "ruu_recover i c = Inr d1" "tracer_recover d1 = Inr d2"
    and e: "d = upd_td (Recover_this_update (\<lambda>_. True)) (d2\<lparr>pred := p, ruu_fetch_issue_delay := ruu_branch_penalty cfg\<rparr>)"
    using 19(2) by (auto simp: recover_branch_def cbind_Inr_iff split: rsref.splits if_splits)
  have "window d2 = window d1" using d(2)
    by (auto simp: tracer_recover_def clear_spec_regs_def cbind_Inr_iff window_def split: if_splits)
  then have "window d = window d1" by (simp add: e upd_td_def window_def)
  then show ?case using window_recover [OF 19(1) d(1)] window_ok_cong by blast
qed (simp add: window_ok_cong [OF window_upd_rs], (subst window_ok_cong; simp add: window_def)+)

subsection \<open>Dispatch\<close>

abbreviation owindow :: "ooo \<Rightarrow> (nat \<times> nat \<times> nat \<times> bool list) \<times> nat \<times> nat \<times> nat \<times> nat" where
  "owindow w \<equiv> window (mach w)"

lemma owindow_sets [simp]:
  "owindow (oSET_GPR n v w) = owindow w" "owindow (oSET_FPRD_Q n v w) = owindow w" "owindow (oSET_CSRS n v w) = owindow w"
  "owindow (put_regs r w) = owindow w"
  by (simp_all add: oSET_GPR_def oSET_FPRD_Q_def oSET_CSRS_def put_regs_def window_def)

lemma owindow_access: "spec_access cfg cmd n a w = Inr (fault, w') \<Longrightarrow> owindow w' = owindow w"
  by (auto simp: spec_access_def Let_def cbind_Inr_iff window_def split: if_splits)

lemma owindow_float: "oFLOAT cfg op inst w = Inr w' \<Longrightarrow> owindow w' = owindow w"
proof -
  have f: "owindow (fold (\<lambda>(n, v). oSET_CSRS n v) csrs w) = owindow w" for csrs w
    by (induction csrs arbitrary: w) auto
  show "owindow w' = owindow w" if h: "oFLOAT cfg op inst w = Inr w'"
  proof -
    obtain dest csrs where "w' = fold (\<lambda>(n, v). oSET_CSRS n v) csrs (case dest of To_FPR v \<Rightarrow> oSET_FPRD_Q (reg_of RD inst) v w
        | To_GPR v \<Rightarrow> oSET_GPR (reg_of RD inst) v w | To_none \<Rightarrow> w)"
      using h unfolding oFLOAT_def by (auto simp: cbind_Inr_iff simp del: fold_simps)
    then show ?thesis using f by (simp split: fp_dest.split)
  qed
qed

interpretation wn: keeps "ooo_hooks cfg" "\<lambda>w. owindow w = v" for cfg v
proof (unfold_locales, goal_cases)
  case 8 then show ?case by (auto simp: oREAD_def cbind_Inr_iff dest: owindow_access)
next
  case 9 then show ?case by (auto simp: oWRITE_def dest!: owindow_access)
next
  case 10 then show ?case by (auto simp: oSYSCALL_def cbind_Inr_iff split: if_splits)
next
  case 11 then show ?case by (simp add: owindow_float)
qed simp_all

lemma owindow_run [simp]: "owindow (run_state i w) = owindow w" "owindow (latch_pc f w) = owindow w"
  by (simp_all add: run_state_def count_insn_def zero_regs_def Let_def latch_pc_def, simp add: window_def)

lemma owindow_execute: "execute cfg op i w = Inr (d, w') \<Longrightarrow> owindow w' = owindow w"
  by (auto simp: execute_def cbind_Inr_iff split: md_opcode.splits option.splits dest: wn.exec_insn_keeps [OF refl])

lemma owindow_count [simp]: "owindow (count_refs op w) = owindow w" "owindow (count_dispatch op w) = owindow w"
  by (simp_all add: count_refs_def count_dispatch_def Let_def)

lemma owindow_redirect: "redirect_fetch cfg op f w = (now, ppc, w') \<Longrightarrow> owindow w' = owindow w"
  by (auto simp: redirect_fetch_def Let_def window_def split: if_splits)

lemma owindow_resolve: "resolve cfg op ppc red r w = Inr w' \<Longrightarrow> owindow w' = owindow w"
proof -
  have u: "update_at_dispatch cfg op ppc r w = Inr w' \<Longrightarrow> owindow w' = owindow w" for w w'
    by (auto simp: update_at_dispatch_def Let_def cbind_Inr_iff split: option.splits if_splits)
  have m: "window (c\<lparr>spec_mode := b, recover_PC := a\<rparr>) = window c" for c b a by (simp add: window_def)
  have e: "enter_spec ppc red r w = Inr w' \<Longrightarrow> owindow w' = owindow w" for w w'
    by (auto simp: enter_spec_def cbind_Inr_iff m window_upd_rs split: if_splits)
  show "resolve cfg op ppc red r w = Inr w' \<Longrightarrow> owindow w' = owindow w"
    by (auto simp: resolve_def cbind_Inr_iff split: if_splits dest!: u e)
qed

lemma owindow_consume [simp]: "owindow (consume cfg w) = owindow w"
  by (simp add: consume_def window_def)

text \<open>A new operation takes the slot at the tail, and one of the load/store queue when it accesses
  memory.\<close>

definition grown :: "bool \<Rightarrow> cpu \<Rightarrow> cpu \<Rightarrow> bool" where
  "grown m c c' \<longleftrightarrow> window c' = (((RUU_head c, (RUU_tail c + 1) mod length (RUU c), RUU_num c + 1, (map rs_ea_comp (RUU c))[RUU_tail c := m]),
     LSQ_head c, if m then (LSQ_tail c + 1) mod length (LSQ c) else LSQ_tail c, LSQ_num c + (if m then 1 else 0), length (LSQ c)))"

lemma fill_ruu_window: "owindow (fill_ruu op f ppc w) = ((RUU_head (mach w), RUU_tail (mach w), RUU_num (mach w),
    (map rs_ea_comp (RUU (mach w)))[RUU_tail (mach w) := is_mem op]), LSQ_head (mach w), LSQ_tail (mach w), LSQ_num (mach w), length (LSQ (mach w)))"
  by (simp add: fill_ruu_def window_def upd_rs_def Let_def map_update)

lemma fill_lsq_window: "owindow (fill_lsq op ppc w) = owindow w"
  by (simp add: fill_lsq_def window_def upd_rs_def)

lemma bump_window:
  "window (bump_ruu c) = (let ((h, t, n, e), q) = window c in ((h, (t + 1) mod length e, n + 1, e), q))"
  "window (bump_lsq c) = (let (r, h, t, n, l) = window c in (r, h, (t + 1) mod l, n + 1, l))"
  by (simp_all add: bump_ruu_def bump_lsq_def window_def)

lemma allocate_window:
  "allocate_reg cfg d r c = Inr c' \<Longrightarrow> window c' = window (bump_ruu c)"
  "allocate_mem cfg d r m c = Inr c' \<Longrightarrow> window c' = window (bump_lsq (bump_ruu c))"
  unfolding allocate_reg_def allocate_mem_def Let_def
  by (auto simp only: cbind_Inr_iff bump_window window_frame(11) dest!: window_frame(9,10))

lemma allocate_grows:
  assumes "allocate cfg d f ppc w = Inr (r, w')" "de_op d \<noteq> OP_NA"
  shows "grown (is_mem (de_op d)) (mach w) (mach w')"
proof (cases "is_mem (de_op d)")
  case True
  let ?w1 = "fill_lsq (de_op d) ppc (fill_ruu (de_op d) f ppc w)"
  obtain q m w2 where 2: "on_cpu (allocate_mem cfg d q m) ?w1 = Inr w2" "w' = set_last m w2"
    using assms True by (auto simp: allocate_def Let_def cbind_Inr_iff)
  then have "allocate_mem cfg d q m (mach ?w1) = Inr (mach w')" by (auto simp: on_cpu_def cbind_Inr_iff set_last_def)
  from allocate_window(2) [OF this] show ?thesis using True
    by (simp add: grown_def bump_window fill_lsq_window fill_ruu_window)
next
  case False
  let ?w1 = "fill_ruu (de_op d) f ppc w"
  obtain q w2 where 2: "on_cpu (allocate_reg cfg d q) ?w1 = Inr w2" "w' = w2\<lparr>last_op := (None, 0)\<rparr> \<or> w' = set_last q w2"
    using assms False by (auto simp: allocate_def Let_def cbind_Inr_iff split: if_splits)
  then have "allocate_reg cfg d q (mach ?w1) = Inr (mach w')" by (auto simp: on_cpu_def cbind_Inr_iff set_last_def)
  from allocate_window(1) [OF this] show ?thesis using False
    by (simp add: grown_def bump_window fill_ruu_window)
qed

lemma grown_ok:
  assumes w: "window_ok c" and room: "RUU_num c < length (RUU c)" "LSQ_num c < length (LSQ c)" and g: "grown m c c'"
  shows "window_ok c'"
proof -
  have W: "RUU_head c < length (RUU c)" "LSQ_head c < length (LSQ c)" "RUU_tail c = ruu_pos c (RUU_num c)"
    "LSQ_tail c = lsq_pos c (LSQ_num c)" "LSQ_num c = mem_ops c [0..<RUU_num c]" using w by (simp_all add: window_ok_def)
  have G: "RUU_head c' = RUU_head c" "RUU_tail c' = (RUU_tail c + 1) mod length (RUU c)" "RUU_num c' = Suc (RUU_num c)"
    "map rs_ea_comp (RUU c') = (map rs_ea_comp (RUU c))[RUU_tail c := m]" "LSQ_head c' = LSQ_head c"
    "LSQ_tail c' = (if m then (LSQ_tail c + 1) mod length (LSQ c) else LSQ_tail c)"
    "LSQ_num c' = LSQ_num c + (if m then 1 else 0)" "length (LSQ c') = length (LSQ c)"
    using g by (simp_all add: grown_def window_def)
  have len: "length (RUU c') = length (RUU c)" using arg_cong [OF G(4), of length] by simp
  have pos: "ruu_pos c' j = ruu_pos c j" for j by (simp add: ruu_pos_def G(1) len)
  have n: "0 < length (RUU c)" using W(1) by auto
  have ea: "rs_ea_comp (RUU c' ! ruu_pos c j) = (if j = RUU_num c then m else rs_ea_comp (RUU c ! ruu_pos c j))"
    if "j \<le> RUU_num c" for j
  proof -
    have "rs_ea_comp (RUU c' ! ruu_pos c j) = (map rs_ea_comp (RUU c'))! ruu_pos c j" using ruu_pos_less [OF n] len by simp
    also have "\<dots> = (if j = RUU_num c then m else rs_ea_comp (RUU c ! ruu_pos c j))"
      using ruu_pos_inj [of c j "RUU_num c"] that room(1) ruu_pos_less [OF n] by (auto simp: G(4) W(3) nth_list_update)
    finally show ?thesis .
  qed
  have "mem_ops c' [0..<RUU_num c] = mem_ops c [0..<RUU_num c]"
    unfolding mem_ops_def pos by (intro arg_cong [where f = length] filter_cong refl) (simp add: ea)
  then have "LSQ_num c' = mem_ops c' [0..<RUU_num c']"
    using W(5) ea [of "RUU_num c"] by (simp add: G(3,7) mem_ops_Suc pos del: upt_Suc)
  moreover have "LSQ_tail c' = lsq_pos c' (LSQ_num c')" using W(4) by (simp add: G lsq_pos_def mod_Suc_eq)
  moreover have "RUU_tail c' = ruu_pos c' (RUU_num c')" using W(3) by (simp add: G len ruu_pos_def mod_Suc_eq)
  moreover have "RUU_num c' \<le> length (RUU c')" "LSQ_num c' \<le> length (LSQ c')" "RUU_head c' < length (RUU c')"
    "LSQ_head c' < length (LSQ c')" using W(1,2) room len by (simp_all add: G)
  ultimately show ?thesis unfolding window_ok_def by blast
qed

lemma dispatch_one_window:
  assumes w: "window_ok (mach w)" and room: "RUU_num (mach w) < length (RUU (mach w))" "LSQ_num (mach w) < length (LSQ (mach w))"
    and d: "dispatch_one cfg red w = Inr ((goes, took, red'), w')"
  shows "window_ok (mach w')"
  using d
proof (cases rule: dispatch_one_cases)
  case stop
  then show ?thesis using w window_ok_cong [of "mach w'" "mach w"] by simp
next
  case (go op d w1 now ppc w2 r w3 w4)
  have 2: "owindow w2 = owindow w"
    using owindow_execute [OF go(3)] owindow_redirect [OF go(5)] by simp
  have r2: "RUU_num (mach w2) < length (RUU (mach w2))" "LSQ_num (mach w2) < length (LSQ (mach w2))"
    using room window_pos [OF 2] by simp_all
  have ok2: "window_ok (mach w2)" using window_ok_cong [OF 2] w by simp
  have "window_ok (mach w3)"
  proof (cases "de_op d = OP_NA")
    case True
    then show ?thesis using go(6) ok2 by (simp add: allocate_def)
  next
    case False
    from grown_ok [OF ok2 r2 allocate_grows [OF go(6) this]] show ?thesis .
  qed
  moreover have "owindow w' = owindow w3" using owindow_resolve [OF go(7)] go(8) by simp
  ultimately show ?thesis using window_ok_cong by blast
qed

lemma dispatch_window:
  assumes "window_ok (mach w)" "ruu_dispatch cfg w = Inr w'"
  shows "window_ok (mach w')"
proof -
  have "window_ok (mach w) \<Longrightarrow> dispatch_loop cfg k n red w = Inr w' \<Longrightarrow> window_ok (mach w')" for k n red w
  proof (induction k arbitrary: n red w)
    case (Suc k)
    let ?stop = "\<not> (n < ruu_decode_width cfg * fetch_speed cfg \<and> RUU_num (mach w) < length (RUU (mach w))
      \<and> LSQ_num (mach w) < length (LSQ (mach w)) \<and> fetch_num (mach w) \<noteq> 0 \<and> (ruu_include_spec cfg \<or> \<not> spec w))
      \<or> inorder_stall cfg w"
    show ?case
    proof (cases ?stop)
      case True
      then show ?thesis using Suc.prems by simp
    next
      case False
      have "cbind (dispatch_one cfg red w) (\<lambda>((goes, took, red'), w1).
          if goes then dispatch_loop cfg k (if took then n + 1 else n) red' w1 else Inr w1) = Inr w'"
        using Suc.prems(2) unfolding dispatch_loop.simps Let_def if_not_P [OF False] .
      then obtain goes took red' w1 where 1: "dispatch_one cfg red w = Inr ((goes, took, red'), w1)"
        and 2: "(if goes then dispatch_loop cfg k (if took then n + 1 else n) red' w1 else Inr w1) = (Inr w' :: ooo cres)"
        unfolding cbind_Inr_iff split_paired_Ex prod.case by (elim exE conjE) (rule that)
      have "window_ok (mach w1)" using dispatch_one_window [OF Suc.prems(1) _ _ 1] False by blast
      then show ?thesis using 2 Suc.IH by (auto split: if_splits)
    qed
  qed simp
  from this [OF _ assms(2) [unfolded ruu_dispatch_def]] show ?thesis using assms(1) by simp
qed

subsection \<open>Fetch, and whole cycles\<close>

lemma fetch_inst_window: "fetch_inst pc w = Inr (i, w') \<Longrightarrow> mach w' = mach w"
  by (auto simp: fetch_inst_def cbind_Inr_iff)

lemma fetch_word_window: "fetch_word cfg pc w = Inr (r, w') \<Longrightarrow> owindow w' = owindow w"
proof -
  have l: "fetch_latency cfg pc w = Inr (lat, w') \<Longrightarrow> owindow w' = owindow w" for w w' lat
    using fetch_latency_frame by (auto simp: only_mach_def)
  show "fetch_word cfg pc w = Inr (r, w') \<Longrightarrow> owindow w' = owindow w"
    by (auto simp: fetch_word_def cbind_Inr_iff split: if_splits dest!: fetch_inst_window l)
qed

lemma enqueue_fetch_window [simp]: "owindow (enqueue_fetch cfg r w) = owindow w"
  by (simp add: enqueue_fetch_def window_def)

lemma fetch_one_window:
  assumes "fetch_one cfg si w = Inr (r, si', w')"
  shows "owindow w' = owindow w"
proof -
  let ?pc = "fetch_pred_PC (mach w)" and ?w = "upd_cpu (\<lambda>c. c\<lparr>fetch_regs_PC := fetch_pred_PC (mach w)\<rparr>) w"
  obtain r1 w1 where 1: "fetch_word cfg ?pc ?w = Inr (r1, w1)"
    and 2: "(case r1 of None \<Rightarrow> Inr (None, si, w1) | Some inst \<Rightarrow>
      cbind (predict_next cfg inst ?pc (fr_dir_update (fetch_data w1 ! fetch_tail (mach w1))) si w1)
            (\<lambda>(t, npc, du, sidx', w2).
          Inr (Some t, sidx', enqueue_fetch cfg
            \<lparr>fr_IR = inst, fr_regs_PC = ?pc, fr_pred_PC = npc, fr_dir_update = du, fr_stack_recover_idx = sidx'\<rparr> w2)))
      = Inr (r, si', w')"
    using assms unfolding fetch_one_def Let_def by (simp only: cbind_Inr_iff) auto
  have w1: "owindow w1 = owindow w" using fetch_word_window [OF 1] by simp
  show ?thesis
  proof (cases r1)
    case None
    then show ?thesis using 2 w1 by simp
  next
    case (Some inst)
    then obtain t npc du si2 w2 where p: "predict_next cfg inst ?pc (fr_dir_update (fetch_data w1 ! fetch_tail (mach w1))) si w1
        = Inr (t, npc, du, si2, w2)"
      and e2: "(Inr (Some t, si2, enqueue_fetch cfg \<lparr>fr_IR = inst, fr_regs_PC = ?pc, fr_pred_PC = npc, fr_dir_update = du,
        fr_stack_recover_idx = si2\<rparr> w2) :: (bool option \<times> int \<times> ooo) cres) = Inr (r, si', w')"
      using 2 [unfolded Some option.case cbind_Inr_iff split_paired_Ex prod.case] by (elim exE conjE) (rule that)
    have "owindow w2 = owindow w1" using predict_next_frame [OF p] by (simp add: only_mach_def)
    then show ?thesis using e2 w1 by auto
  qed
qed

lemma fetch_window: "ruu_fetch cfg w = Inr w' \<Longrightarrow> owindow w' = owindow w"
proof -
  have "fetch_loop cfg k b si w = Inr w' \<Longrightarrow> owindow w' = owindow w" for k b si w
  proof (induction k arbitrary: b si w)
    case (Suc k)
    show ?case
    proof (cases "fetch_num (mach w) < ruu_ifq_size cfg")
      case False
      then show ?thesis using Suc.prems by simp
    next
      case True
      have "cbind (fetch_one cfg si w) (\<lambda>(r, si', w1). case r of None \<Rightarrow> Inr w1
          | Some t \<Rightarrow> if t \<and> fetch_speed cfg \<le> b + 1 then Inr w1
            else fetch_loop cfg k (if t then b + 1 else b) si' w1) = Inr w'"
        using Suc.prems True by simp
      then obtain r si' w1 where 1: "fetch_one cfg si w = Inr (r, si', w1)"
        and 2: "(case r of None \<Rightarrow> Inr w1 | Some t \<Rightarrow> if t \<and> fetch_speed cfg \<le> b + 1 then Inr w1
          else fetch_loop cfg k (if t then b + 1 else b) si' w1) = (Inr w' :: ooo cres)"
        unfolding cbind_Inr_iff split_paired_Ex prod.case by (elim exE conjE) (rule that)
      have "w' = w1 \<or> (\<exists>b'. fetch_loop cfg k b' si' w1 = Inr w')" using 2 by (auto split: option.splits if_splits)
      then show ?thesis using fetch_one_window [OF 1] Suc.IH by metis
    qed
  qed simp
  then show "ruu_fetch cfg w = Inr w' \<Longrightarrow> owindow w' = owindow w" unfolding ruu_fetch_def by blast
qed

lemma sanity_passes:
  assumes "window_ok c"
  shows "sanity c = Inr c"
proof -
  have "mem_ops c [0..<RUU_num c] \<le> RUU_num c"
    unfolding mem_ops_def by (rule order_trans [OF length_filter_le]) simp
  then show ?thesis using assms by (simp add: sanity_def window_ok_def ruu_pos_def lsq_pos_def)
qed

lemma refresh_issue_window: "refresh_issue cfg w = Inr w' \<Longrightarrow> owindow w' = owindow w"
  by (auto simp: refresh_issue_def on_cpu_def cbind_Inr_iff window_frame(2,3))

lemma cycle_window:
  assumes w: "window_ok (mach w)" and r: "sim_cycle_step cfg w = Inr w'"
  shows "window_ok (mach w')"
proof -
  obtain w3 w4 where 3: "before_dispatch cfg w = Inr w3" and 4: "ruu_dispatch cfg w3 = Inr w4" and 5: "after_dispatch cfg w4 = Inr w'"
    using r by (auto simp: sim_cycle_step_parts cbind_Inr_iff)
  have upd: "window_ok (mach (upd_cpu f v)) = window_ok (mach v)" if "\<And>c. window (f c) = window c" for f v
    using window_ok_cong [OF that] by simp
  obtain w1 w2 where 1: "on_cpu (ruu_commit (ocfg cfg)) (upd_cpu (td_update (\<lambda>_. cycle_reset_classify_latches)) w) = Inr w1"
    and 2: "on_cpu (ruu_writeback (ocfg cfg)) (upd_cpu (fu_pool_update ruu_release_fu) w1) = Inr w2"
    and 3: "(if bugcompat_mode cfg then Inr w2 else refresh_issue cfg w2) = (Inr w3 :: ooo cres)"
    using 3 sanity_passes [OF w] by (auto simp: before_dispatch_def on_cpu_def cbind_Inr_iff)
  have "window_ok (mach (upd_cpu (td_update (\<lambda>_. cycle_reset_classify_latches)) w))" using w by (subst upd) (simp_all add: window_def)
  then have "window_ok (mach w1)" using window_commit 1 by (auto simp: on_cpu_def cbind_Inr_iff)
  then have "window_ok (mach (upd_cpu (fu_pool_update ruu_release_fu) w1))" by (subst upd) (simp_all add: window_def)
  then have "window_ok (mach w2)" using wk.writeback 2 by (auto simp: on_cpu_def cbind_Inr_iff wk.keeps_def)
  moreover have "owindow w3 = owindow w2" using 3 refresh_issue_window by (auto split: if_splits)
  ultimately have "window_ok (mach w3)" using window_ok_cong by blast
  then have ok4: "window_ok (mach w4)" by (rule dispatch_window [OF _ 4])
  obtain w5 w6 where 5: "(if bugcompat_mode cfg then refresh_issue cfg w4 else Inr w4) = Inr w5" and 6: "fetch_phase cfg w5 = Inr w6"
    and w': "w' = upd_cpu (\<lambda>c. c\<lparr>sim_cycle := sim_cycle c + 1\<rparr>) (classify (upd_cpu (\<lambda>c. upd_td (end_latches c) c) w6))"
    using 5 by (auto simp: after_dispatch_def cbind_Inr_iff)
  have "owindow w5 = owindow w4" using 5 refresh_issue_window by (auto split: if_splits)
  moreover have "owindow w6 = owindow w5" using 6 fetch_window by (auto simp: fetch_phase_def split: if_splits)
  moreover have "owindow w' = owindow w6" by (simp add: w' classify_def window_def upd_td_def)
  ultimately have "owindow w' = owindow w4" by simp
  then show ?thesis using ok4 window_ok_cong by blast
qed

lemma cycles_window: "window_ok (mach w) \<Longrightarrow> sim_cycles cfg n w = Inr w' \<Longrightarrow> window_ok (mach w')"
  by (induction n arbitrary: w) (auto simp: cbind_Inr_iff dest: cycle_window)

end
