(* ===== verification/FrontProps.thy ===== *)
theory FrontProps
  imports WindowCorrect SchedProps FastProps
begin

text \<open>
  The properties of the front end and of whole cycles of the timing simulator.
\<close>

subsection \<open>A small machine\<close>

text \<open>An idle machine with one instruction in its fetch queue; \<open>d\<close> is the decoder and \<open>m\<close> the memory.\<close>

definition front_cpu :: "nat \<Rightarrow> 64 word \<Rightarrow> cpu" where
  "front_cpu k pc = (let c = small_cpu [] [] in
     c\<lparr>RUU := replicate 2 zero_station, LSQ := replicate 2 zero_station,
       links := links small_core, rslink_free_list := rslink_free_list small_core,
       create_vector := create_vector small_core, spec_create_vector := spec_create_vector small_core,
       create_vector_rt := create_vector_rt small_core, spec_create_vector_rt := spec_create_vector_rt small_core,
       use_spec_cv := use_spec_cv small_core,
       fetch_num := k, fetch_tail := k, fetch_pred_PC := pc, cpu.regs_PC := pc, ruu_fetch_issue_delay := 2\<rparr>)"

definition front_cfg :: "decoder \<Rightarrow> ooo_cfg" where
  "front_cfg d = \<lparr>ocfg = small_cfg, odec = d, ruu_decode_width = 1, fetch_speed = 1, ruu_ifq_size = 2,
     ruu_include_spec = True, ruu_inorder_issue = False, pred_perfect = False, bugcompat_mode = False, cache_il1_lat = 1,
     o_syscall = (\<lambda>_ s. Inr s), o_fp = (\<lambda>_ _ _. Inr (To_none, [])), o_shl64 = 0, o_junk_fault = fault_none,
     o_junk_target = 0, o_junk_idx = 0, o_junk_tlb = 0\<rparr>"

definition queued :: "32 word \<Rightarrow> 64 word \<Rightarrow> fetch_rec" where
  "queued i pc = \<lparr>fr_IR = i, fr_regs_PC = pc, fr_pred_PC = pc + 4, fr_dir_update = rs_dir_update zero_station, fr_stack_recover_idx = 0\<rparr>"

definition front_start :: "cpu \<Rightarrow> mem_t \<Rightarrow> fetch_rec list \<Rightarrow> ooo" where
  "front_start c m q = \<lparr>mach = c, fetch_data = q,
     reg_R = (\<lambda>_. 0), reg_F = (\<lambda>_. 0), reg_C = (\<lambda>_. 0), reg_NPC = 0, spec_R = (\<lambda>_. 0), spec_F = (\<lambda>_. 0), spec_C = (\<lambda>_. 0),
     omem = m, olrsc = lrsc_init, octrl_taken = False, target_PC = 0, mem_addr = 0, temps = (\<lambda>n. replicate n 0),
     inst_seq = 0, next_uop_id = 0, last_op = (None, 0), macro_total_count = 1, cross_refs = 0,
     counts = \<lparr>ct_num_insn = 0, ct_num_comp_insn = 0, ct_total_insn = 0, ct_total_refs = 0, ct_num_refs = 0, ct_total_loads = 0,
       ct_num_loads = 0, ct_total_branches = 0, ct_num_branches = 0\<rparr>,
     cyc = \<lparr>cyc_BadSpec = 0, cyc_RetireBlock_MEM = 0, cyc_RetireBlock_MULTDIV = 0, cyc_RetireBlock_Others = 0,
       cyc_CoreBoundEmpty = 0, cyc_BackPressure = 0, cyc_FrontEnd = 0\<rparr>\<rparr>"

text \<open>A taken branch, \<open>beq x0, x0, 8\<close>, that was predicted not taken.\<close>

abbreviation branch :: "32 word" where "branch \<equiv> 0x463"

definition branch_start :: "mem_t \<Rightarrow> ooo" where
  "branch_start m = front_start (front_cpu 1 0x1004) m [queued branch 0x1000, queued 0 0]"

definition at_dispatch :: "decoder \<Rightarrow> mem_t \<Rightarrow> ooo" where
  "at_dispatch d m = (projr (before_dispatch (front_cfg d) (branch_start m)))\<lparr>target_PC := 0, temps := (\<lambda>n. replicate n 0)\<rparr>"

lemma at_dispatch_ok: "before_dispatch (front_cfg d) (branch_start m) = Inr (projr (before_dispatch (front_cfg d) (branch_start m)))"
proof -
  have "\<not> isl (before_dispatch (front_cfg d) (branch_start m))" by code_simp
  then show ?thesis by (cases "before_dispatch (front_cfg d) (branch_start m)") simp_all
qed

lemma before_dispatch_omem: "before_dispatch cfg w = Inr w' \<Longrightarrow> omem w' = omem w"
proof -
  have o: "on_cpu f w = Inr w' \<Longrightarrow> omem w' = omem w" for f w w' by (auto simp: on_cpu_def cbind_Inr_iff)
  have r: "refresh_issue cfg w = Inr w' \<Longrightarrow> omem w' = omem w" for w w' by (auto simp: refresh_issue_def cbind_Inr_iff dest!: o)
  show "before_dispatch cfg w = Inr w' \<Longrightarrow> omem w' = omem w"
    by (auto simp: before_dispatch_def cbind_Inr_iff split: if_splits dest!: o r)
qed

lemma at_dispatch_omem: "omem (at_dispatch d m) = m"
  using before_dispatch_omem [OF at_dispatch_ok] by (simp add: at_dispatch_def branch_start_def front_start_def)

lemma at_dispatch_head: "head_rec (at_dispatch d m) = queued branch 0x1000" by code_simp
lemma at_dispatch_num: "fetch_num (mach (at_dispatch d m)) = 1" by code_simp
lemma at_dispatch_spec: "\<not> spec (at_dispatch d m)" by code_simp
lemma at_dispatch_free: "ready_queue (mach (at_dispatch d m)) = None \<and> rslink_free_list (mach (at_dispatch d m)) \<noteq> None
  \<and> RUU_tail (mach (at_dispatch d m)) = 0 \<and> ruu_fetch_issue_delay (mach (at_dispatch d m)) = 2" by code_simp
lemma at_dispatch_room: "RUU_num (mach (at_dispatch d m)) = 0 \<and> LSQ_num (mach (at_dispatch d m)) = 0
  \<and> length (RUU (mach (at_dispatch d m))) = 2 \<and> length (LSQ (mach (at_dispatch d m))) = 2" by code_simp

text \<open>The branch is taken whatever the registers hold.\<close>

lemma beq_row: "inst_row (Br BEQ) machine_def = Some (IntALU, F_CTRL OR F_COND OR F_DIRJMP, [DNA, DNA, DNA], [DNA, DGPR RS1, DGPR RS2, DNA])"
  by code_simp

lemma branch_fields: "reg_of RS1 branch = 0" "reg_of RS2 branch = 0" "SEXT (uw (BIMM branch)) = 8"
  by code_simp+

definition beq_decoded :: decoded where
  "beq_decoded = \<lparr>de_op = Inst (Br BEQ), de_outs = [0, 0, 0], de_ins = [0, 0, 0, 0], de_fault = fault_none\<rparr>"

lemma branch_execute:
  "execute cfg (Inst (Br BEQ)) branch w = Inr (beq_decoded,
     w\<lparr>target_PC := cpu.regs_PC (mach w) + 8, reg_NPC := cpu.regs_PC (mach w) + 8\<rparr>)"
  by (simp add: execute_def beq_row exec_branch_def branch_fields beq_decoded_def name_at_def Let_def finish_def upt_rec)

lemma readyq_enqueue_first:
  assumes "ready_queue c = None" "rslink_free_list c = Some n" "\<not> rs_queued (rs_of c r)"
  shows "\<exists>c'. readyq_enqueue isa r c = Inr c'"
  using assms by (auto simp: readyq_enqueue_def RSLINK_NEW_def insert_link_def Let_def)

text \<open>An operation without inputs and outputs takes a station when a link is free.\<close>

lemma allocate_free:
  fixes c :: cpu
  assumes "ready_queue c = None" "rslink_free_list c = Some n" "\<not> rs_queued (rs_of c r)" "valid_rs c r"
  shows "\<exists>c'. allocate_reg cfg \<lparr>de_op = op, de_outs = [0, 0, 0], de_ins = [0, 0, 0, 0], de_fault = f\<rparr> r c = Inr c'"
proof -
  define g :: "station \<Rightarrow> station" where "g = (\<lambda>s. s\<lparr>rs_idep_ready := (rs_idep_ready s)[0 := True, Suc 0 := True, Suc (Suc 0) := True, Suc (Suc (Suc 0)) := True],
    rs_onames := (rs_onames s)[0 := 0, Suc 0 := 0, Suc (Suc 0) := 0]\<rparr>)"
  have 1: "upd_rs r h (upd_rs r k c) = upd_rs r (\<lambda>s. h (k s)) c" for h k using assms(4) by (rule upd_rs_twice)
  have v: "valid_rs (upd_rs r h c) r" for h using assms(4) by simp
  let ?c = "bump_ruu (upd_rs r g c)"
  have "ready_queue ?c = None" "rslink_free_list ?c = Some n" "\<not> rs_queued (rs_of ?c r)"
    using assms by (simp_all add: bump_ruu_def rs_of_upd_rs g_def)
  then have "\<exists>c'. enqueue_if b isa r ?c = Inr c'" for b isa
    using readyq_enqueue_first [of ?c n r isa] by (simp add: enqueue_if_def)
  moreover have "allocate_reg cfg \<lparr>de_op = op, de_outs = [0, 0, 0], de_ins = [0, 0, 0, 0], de_fault = f\<rparr> r c
    = enqueue_if (OPERANDS_READY (rs_of ?c r)) (cf_isa (ocfg cfg)) r ?c"
    by (simp add: allocate_reg_def Let_def ruu_link_idep_def ruu_install_odep_def Sched.NA_def upd_rs_twice v assms(4) g_def)
  ultimately show ?thesis by simp
qed

lemma beq_flags: "\<not> has_flag F_TRAP (Inst (Br BEQ))" "\<not> has_flag F_SYNC (Inst (Br BEQ))" "\<not> is_mem (Inst (Br BEQ))"
  by code_simp+

interpretation dl: back_end_keeps "\<lambda>c. ruu_fetch_issue_delay c = v" for v
  by unfold_locales (simp_all add: upd_rs_def split: rsref.split)

lemma allocate_reg_delay: "allocate_reg cfg d r c = Inr c' \<Longrightarrow> ruu_fetch_issue_delay c' = ruu_fetch_issue_delay c"
proof -
  have i: "link_ideps r i ns c = Inr c' \<Longrightarrow> ruu_fetch_issue_delay c' = ruu_fetch_issue_delay c" for i ns c c'
    using dl.ideps [OF refl, unfolded dl.keeps_def] by blast
  have e: "enqueue_if b isa r c = Inr c' \<Longrightarrow> ruu_fetch_issue_delay c' = ruu_fetch_issue_delay c" for b isa c c'
    using dl.enqueue [OF refl, unfolded dl.keeps_def] by blast
  show "allocate_reg cfg d r c = Inr c' \<Longrightarrow> ruu_fetch_issue_delay c' = ruu_fetch_issue_delay c"
    by (auto simp: allocate_reg_def Let_def cbind_Inr_iff bump_ruu_def dl.odep_list [OF refl] dest!: i e)
qed

lemma branch_dispatch:
  assumes h: "head_rec w = queued branch pc" and d: "MD_SET_OPCODE (odec cfg) branch = Inr (Inst (Br BEQ))"
    and c: "bpred_spec_update (ocfg cfg) \<noteq> spec_ID" "\<not> pred_perfect cfg"
    and w: "ready_queue (mach w) = None" "rslink_free_list (mach w) \<noteq> None" "RUU_tail (mach w) < length (RUU (mach w))"
  shows "\<exists>w'. dispatch_one cfg False w = Inr ((True, True, False), consume cfg w') \<and> spec w'
    \<and> recover_PC (mach w') = (if spec w then recover_PC (mach w) else pc + 8)
    \<and> ruu_fetch_issue_delay (mach w') = ruu_fetch_issue_delay (mach w)"
proof -
  let ?f = "queued branch pc" and ?b = "Inst (Br BEQ)"
  let ?v = "run_state branch (latch_pc ?f w)"
  define w1 where "w1 = ?v\<lparr>target_PC := pc + 8, reg_NPC := pc + 8\<rparr>"
  have m1: "mach w1 = (mach w)\<lparr>cpu.regs_PC := pc\<rparr>" by (simp add: w1_def latch_pc_def queued_def)
  then have w1: "cpu.regs_PC (mach w1) = pc" "reg_NPC w1 = pc + 8" "target_PC w1 = pc + 8" "spec w1 = spec w"
    "recover_PC (mach w1) = recover_PC (mach w)" "ruu_fetch_issue_delay (mach w1) = ruu_fetch_issue_delay (mach w)"
    by (simp_all add: w1_def)
  have 1: "execute cfg ?b branch ?v = Inr (beq_decoded, w1)"
    by (simp add: branch_execute w1_def) (simp add: latch_pc_def queued_def)
  have r: "redirect_fetch cfg ?b ?f (count_refs ?b w1) = (False, pc + 4, w1)"
    using w1 c(2) beq_flags(3) by (simp add: redirect_fetch_def count_refs_def queued_def ISCOMPRESS_def INST_IsCompressed_def Let_def)
  let ?w2 = "fill_ruu ?b ?f (pc + 4) w1" and ?r = "InRUU (RUU_tail (mach w))"
  have "\<exists>c'. allocate_reg cfg beq_decoded ?r (mach ?w2) = Inr c'"
    unfolding beq_decoded_def using w by (intro allocate_free [of _ "the (rslink_free_list (mach w))"])
      (auto simp: m1 fill_ruu_def upd_rs_def rs_of_def fill_station_def Let_def)
  then obtain c' where c': "allocate_reg cfg beq_decoded ?r (mach ?w2) = Inr c'" by blast
  obtain q w3 where 3: "allocate cfg beq_decoded ?f (pc + 4) w1 = Inr (Some q, w3)" and m3: "mach w3 = c'"
    using beq_flags(3) c' by (auto simp: allocate_def Let_def on_cpu_def set_last_def beq_decoded_def m1)
  have "ruu_fetch_issue_delay (mach ?w2) = ruu_fetch_issue_delay (mach w)" by (simp add: fill_ruu_def upd_rs_def Let_def w1)
  then have d3: "ruu_fetch_issue_delay (mach w3) = ruu_fetch_issue_delay (mach w)" using allocate_reg_delay [OF c'] by (simp add: m3)
  have "quiet w1 w3" by (rule quiet_allocate [OF 3])
  then have w3: "spec w3 = spec w" "reg_NPC w3 = pc + 8" "recover_PC (mach w3) = recover_PC (mach w)"
    using w1 by (simp_all add: quiet_def front_def)
  let ?k = "count_dispatch ?b w3"
  let ?w4 = "if spec w then ?k else upd_cpu (\<lambda>c. (upd_rs q (rs_recover_inst_update (\<lambda>_. True)) c)
    \<lparr>spec_mode := True, recover_PC := pc + 8\<rparr>) ?k"
  have k: "mach ?k = mach w3" "reg_NPC ?k = reg_NPC w3" by (simp_all add: count_dispatch_def Let_def)
  have 4: "resolve cfg ?b (pc + 4) False (Some q) ?k = Inr ?w4"
    using w3 c(1) by (simp add: resolve_def update_at_dispatch_def enter_spec_def deref_def k split: option.split)
  have "dispatch_one cfg False w = Inr ((True, True, False), consume cfg ?w4)"
    using 1 3 4 r d beq_flags by (simp add: dispatch_one_def h must_drain_def Let_def run_state_def queued_def beq_decoded_def)
  moreover have "spec ?w4" "recover_PC (mach ?w4) = (if spec w then recover_PC (mach w) else pc + 8)"
    "ruu_fetch_issue_delay (mach ?w4) = ruu_fetch_issue_delay (mach w)"
    using w3 d3 by (auto simp: k upd_rs_def split: rsref.split)
  ultimately show ?thesis by blast
qed

text \<open>The whole cycle.\<close>

lemma branch_cycle:
  assumes d: "MD_SET_OPCODE d branch = Inr (Inst (Br BEQ))"
  shows "\<exists>w'. sim_cycle_step (front_cfg d) (branch_start m) = Inr w' \<and> spec w' \<and> recover_PC (mach w') = 0x1008
    \<and> cycle_entries (front_cfg d) (branch_start m) = [entry_of (at_dispatch d m)]"
proof -
  let ?c = "front_cfg d" and ?w = "at_dispatch d m"
  have "bpred_spec_update (ocfg ?c) \<noteq> spec_ID" "\<not> pred_perfect ?c" "MD_SET_OPCODE (odec ?c) branch = Inr (Inst (Br BEQ))"
    using d by (simp_all add: front_cfg_def small_cfg_def)
  then obtain w4 where 4: "dispatch_one ?c False ?w = Inr ((True, True, False), consume ?c w4)"
    and w4: "spec w4" "recover_PC (mach w4) = 0x1008" "ruu_fetch_issue_delay (mach w4) = 2"
    using branch_dispatch [OF at_dispatch_head, of ?c d m] at_dispatch_free [of d m] at_dispatch_room [of d m] at_dispatch_spec [of d m]
    by auto
  have c: "ruu_decode_width ?c = 1" "fetch_speed ?c = 1" "ruu_include_spec ?c" "\<not> ruu_inorder_issue ?c" "\<not> bugcompat_mode ?c"
    "o_junk_target ?c = 0" by (simp_all add: front_cfg_def)
  have room: "RUU_num (mach ?w) < length (RUU (mach ?w))" "LSQ_num (mach ?w) < length (LSQ (mach ?w))" "fetch_num (mach ?w) \<noteq> 0"
    "\<not> inorder_stall ?c ?w" using at_dispatch_room [of d m] at_dispatch_num [of d m] c(4) by (auto simp: inorder_stall_def)
  have loop: "dispatch_loop ?c (Suc (Suc k)) 0 False ?w = Inr (consume ?c w4)" for k
    using room c(1-3) 4 by simp
  have ents: "dispatched ?c (Suc (Suc k)) 0 False ?w = [entry_of ?w]" for k
    using room c(1-3) 4 at_dispatch_spec [of d m] by simp
  obtain w3 where w3: "before_dispatch ?c (branch_start m) = Inr w3" "?w = w3\<lparr>target_PC := o_junk_target ?c, temps := (\<lambda>n. replicate n 0)\<rparr>"
    using at_dispatch_ok [of d m] by (simp add: at_dispatch_def c)
  have n: "ruu_decode_width ?c * fetch_speed ?c + fetch_num (mach w3) + 2 = Suc (Suc (1 + fetch_num (mach w3)))" by (simp add: c)
  have "ruu_dispatch ?c w3 = Inr (consume ?c w4)" unfolding ruu_dispatch_def n w3(2) [symmetric] by (rule loop)
  moreover have "cycle_entries ?c (branch_start m) = [entry_of ?w]"
    unfolding cycle_entries_def w3(1) sum.case n w3(2) [symmetric] by (rule ents)
  moreover obtain w' where "after_dispatch ?c (consume ?c w4) = Inr w'" "spec w'" "recover_PC (mach w') = 0x1008"
    using c(5) w4 by (simp add: after_dispatch_def fetch_phase_def consume_def classify_def upd_td_def)
  ultimately show ?thesis using w3(1) by (simp add: sim_cycle_step_parts)
qed

subsection \<open>The timing simulator and the functional simulator\<close>

lemma front_start_ok:
  assumes "mem_wf m"
  shows "front_ok (front_cfg d) (branch_start m)" "front_ok (front_cfg d) ((branch_start m)\<lparr>mach := (front_cpu 1 0x1004)\<lparr>spec_mode := True, recover_PC := a\<rparr>\<rparr>)"
proof -
  have i: "ifq_ok (front_cfg d)" by (auto simp: ifq_ok_def front_cfg_def intro!: exI [of _ 1])
  have m: "spec_maps (front_cpu 1 0x1004)" "spec_maps ((front_cpu 1 0x1004)\<lparr>spec_mode := True, recover_PC := a\<rparr>)"
  proof -
    have "map_sizes (front_cpu 1 0x1004) = (R_BMAP_SZ, F_BMAP_SZ, C_BMAP_SZ)" by code_simp
    moreover have "clean_regs (front_cpu 1 0x1004)"
      by (simp add: clean_regs_def front_cpu_def small_cpu_def Let_def BITMAP_SET_P_def)
    ultimately show "spec_maps (front_cpu 1 0x1004)" "spec_maps ((front_cpu 1 0x1004)\<lparr>spec_mode := True, recover_PC := a\<rparr>)"
      by (simp_all add: spec_maps_def map_sizes_def)
  qed
  have q: "queue_ok (front_cfg d) (branch_start m)" "queue (front_cfg d) (branch_start m) = [queued branch 0x1000]"
    by (simp_all add: queue_ok_def queue_def branch_start_def front_start_def front_cpu_def small_cpu_def front_cfg_def Let_def)
  show "front_ok (front_cfg d) (branch_start m)"
    using i m q assms by (auto simp: front_ok_def) (simp_all add: branch_start_def front_start_def front_cpu_def queued_def Let_def)
  have q': "queue_ok (front_cfg d) ((branch_start m)\<lparr>mach := (front_cpu 1 0x1004)\<lparr>spec_mode := True, recover_PC := a\<rparr>\<rparr>)"
    "queue (front_cfg d) ((branch_start m)\<lparr>mach := (front_cpu 1 0x1004)\<lparr>spec_mode := True, recover_PC := a\<rparr>\<rparr>) = [queued branch 0x1000]"
    by (simp_all add: queue_ok_def queue_def branch_start_def front_start_def front_cpu_def small_cpu_def front_cfg_def Let_def)
  show "front_ok (front_cfg d) ((branch_start m)\<lparr>mach := (front_cpu 1 0x1004)\<lparr>spec_mode := True, recover_PC := a\<rparr>\<rparr>)"
    using i m(2) q' assms by (auto simp: front_ok_def) (simp_all add: branch_start_def front_start_def front_cpu_def queued_def Let_def)
qed


definition branch_bytes :: "8 word list" where "branch_bytes = le_bytes 4 0x463"

lemma branch_memory:
  obtains m where "MEM_WRITE (mem_create ''mem'') 0x1000 branch_bytes = Inr m" "mem_wf m"
    "word_at_pc (mem_byte m) 0x1000 = branch"
proof -
  have "MEM_OFFSET 0x1000 + length branch_bytes \<le> MD_PAGE_SIZE" by code_simp
  from mem_wf_write [OF mem_create_wf this, of "''mem''"] obtain m where
    m: "MEM_WRITE (mem_create ''mem'') 0x1000 branch_bytes = Inr m" "mem_wf m"
      "mem_byte m = put (mem_byte (mem_create ''mem'')) 0x1000 branch_bytes" by blast
  have "word_at_pc (put (\<lambda>_. 0) 0x1000 branch_bytes) 0x1000 = branch" by code_simp
  moreover have "mem_byte (mem_create ''mem'') = (\<lambda>_. 0)" by (simp add: mem_create_byte fun_eq_iff)
  ultimately show ?thesis using m that by simp
qed

lemma beq_decode: "MD_SET_OPCODE rv_decoder branch = Inr (Inst (Br BEQ))"
proof -
  have "known_decode rv_tree rv_links 0xffffffff (uint branch) = Some (Br BEQ)" by code_simp
  then show ?thesis by (rule rv_decode_word)
qed

lemma branch_matches:
  assumes "mem_wf m"
  shows "matches (branch_start m) (boot 0x1000 m)"
  using assms
  by (auto simp: matches_def arch_regs_def arch_PC_def head_rec_def branch_start_def front_start_def front_cpu_def small_cpu_def
      queued_def boot_def fast_start_def sim_init_def regs_init_def Let_def fun_eq_iff set_PC_def set_NPC_def upd_regs_def)

lemma branch_ok: "word_at_pc (mem_byte m) 0x1000 = branch \<Longrightarrow> ok_entry rv_decoder (entry_of (at_dispatch d m))"
proof -
  assume "word_at_pc (mem_byte m) 0x1000 = branch"
  moreover have "supported (Br BEQ)" "\<not> is_C (Br BEQ)" by (simp add: supported_def beq_row) code_simp
  ultimately show ?thesis using beq_decode
    by (simp add: entry_of_def at_dispatch_head at_dispatch_omem queued_def ok_word_def INST_IsCompressed_def)
qed


subsection \<open>Mispredicted paths\<close>

lemma off_path_loop:
  assumes "front_ok cfg w" "spec w" "red \<longrightarrow> fetch_num (mach w) = 0" "dispatch_loop cfg k n red w = Inr w'"
  shows "front_ok cfg w' \<and> arch_regs w' = arch_regs w \<and> arch_PC w' = arch_PC w \<and> spec w'"
  using assms
proof (induction k arbitrary: n red w)
  case (Suc k)
  let ?stop = "\<not> (n < ruu_decode_width cfg * fetch_speed cfg \<and> RUU_num (mach w) < length (RUU (mach w))
    \<and> LSQ_num (mach w) < length (LSQ (mach w)) \<and> fetch_num (mach w) \<noteq> 0 \<and> (ruu_include_spec cfg \<or> \<not> spec w))
    \<or> inorder_stall cfg w"
  show ?case
  proof (cases ?stop)
    case True
    then show ?thesis using Suc.prems by simp
  next
    case False
    then have num: "fetch_num (mach w) \<noteq> 0" and red: "red = False" using Suc.prems(3) by auto
    have "cbind (dispatch_one cfg red w) (\<lambda>((goes, took, red'), w1).
        if goes then dispatch_loop cfg k (if took then n + 1 else n) red' w1 else Inr w1) = Inr w'"
      using Suc.prems(4) unfolding dispatch_loop.simps Let_def if_not_P [OF False] .
    then obtain goes took red' w1 where 1: "dispatch_one cfg False w = Inr ((goes, took, red'), w1)"
      and 2: "(if goes then dispatch_loop cfg k (if took then n + 1 else n) red' w1 else Inr w1) = (Inr w' :: ooo cres)"
      unfolding red cbind_Inr_iff split_paired_Ex prod.case by (elim exE conjE) (rule that)
    show ?thesis
    proof (cases goes)
      case no: False
      then have w1: "w1 = latch_pc (head_rec w) w" "w' = w1" using 1 2 by (auto elim: dispatch_one_cases)
      have "front_ok cfg w1 = front_ok cfg w" "arch_PC w1 = arch_PC w"
        unfolding w1(1) by (rule view_same; simp add: arch_regs_def)+
      moreover have "arch_regs w1 = arch_regs w" "spec w1 = spec w" unfolding w1(1) by (simp_all add: arch_regs_def)
      ultimately show ?thesis using Suc.prems(1,2) w1(2) by simp
    next
      case True
      have "front_ok cfg w1 \<and> arch_regs w1 = arch_regs w \<and> arch_PC w1 = arch_PC w \<and> spec w1 \<and> (red' \<longrightarrow> fetch_num (mach w1) = 0)"
        using dispatch_off_path [OF Suc.prems(1) num Suc.prems(2)] 1 True by simp
      then show ?thesis using Suc.IH [of w1 red'] 2 True by auto
    qed
  qed
qed simp

text \<open>C3: A mispredicted path leaves no trace. Whatever dispatch executes in the speculative mode, loads,
  stores, register and control-register writes and further mispredicted branches included, the
  architected registers, every byte of memory and the address the correct path goes on at stay as
  they are, and so does the speculative mode.\<close>

theorem wrong_path_isolated:
  assumes "front_ok cfg w" "spec w" "ruu_dispatch cfg w = Inr w'"
  shows "arch_regs w' = arch_regs w \<and> arch_PC w' = arch_PC w \<and> spec w' \<and> front_ok cfg w'"
proof -
  let ?w = "w\<lparr>target_PC := o_junk_target cfg, temps := (\<lambda>n. replicate n 0)\<rparr>"
  have v: "front_ok cfg ?w = front_ok cfg w" "arch_PC ?w = arch_PC w" "arch_regs ?w = arch_regs w"
    by (rule view_same; simp add: arch_regs_def)+ (simp add: arch_regs_def)
  show ?thesis
    using off_path_loop [OF _ _ _ assms(3) [unfolded ruu_dispatch_def]] assms(1,2) v by simp
qed

definition spec_start :: "mem_t \<Rightarrow> ooo" where
  "spec_start m = (branch_start m)\<lparr>mach := (front_cpu 1 0x1004)\<lparr>spec_mode := True, recover_PC := 0x2000\<rparr>\<rparr>"

theorem wrong_path_isolated_witness:
  "\<exists>w'. ruu_dispatch (front_cfg rv_decoder) (spec_start (mem_create ''mem'')) = Inr w' \<and> arch_PC w' = 0x2000
     \<and> arch_regs w' = arch_regs (spec_start (mem_create ''mem''))"
proof -
  let ?c = "front_cfg rv_decoder" and ?s = "spec_start (mem_create ''mem'')"
  let ?w = "?s\<lparr>target_PC := o_junk_target ?c, temps := (\<lambda>n. replicate n 0)\<rparr>"
  have mach: "mach ?w = (front_cpu 1 0x1004)\<lparr>spec_mode := True, recover_PC := 0x2000\<rparr>" by (simp add: spec_start_def)
  have h: "head_rec ?w = queued branch 0x1000"
    by (simp add: head_rec_def spec_start_def branch_start_def front_start_def front_cpu_def small_cpu_def Let_def)
  have c: "ruu_decode_width ?c = 1" "fetch_speed ?c = 1" "ruu_include_spec ?c" "\<not> ruu_inorder_issue ?c"
    "bpred_spec_update (ocfg ?c) \<noteq> spec_ID" "\<not> pred_perfect ?c" "MD_SET_OPCODE (odec ?c) branch = Inr (Inst (Br BEQ))"
    using beq_decode by (simp_all add: front_cfg_def small_cfg_def)
  have q: "ready_queue (front_cpu 1 0x1004) = None" "rslink_free_list (front_cpu 1 0x1004) \<noteq> None"
    "RUU_num (front_cpu 1 0x1004) = 0" "LSQ_num (front_cpu 1 0x1004) = 0" "RUU_tail (front_cpu 1 0x1004) = 0"
    "length (RUU (front_cpu 1 0x1004)) = 2" "length (LSQ (front_cpu 1 0x1004)) = 2" "fetch_num (front_cpu 1 0x1004) = 1" by code_simp+
  obtain w' where 1: "dispatch_one ?c False ?w = Inr ((True, True, False), consume ?c w')"
    using branch_dispatch [OF h, of ?c] c(5-7) q unfolding mach by auto
  have "dispatch_loop ?c (Suc (Suc k)) 0 False ?w = Inr (consume ?c w')" for k
    using 1 c(1-4) q by (simp add: mach inorder_stall_def)
  moreover have "ruu_decode_width ?c * fetch_speed ?c + fetch_num (mach ?s) + 2 = Suc (Suc (Suc (Suc 0)))"
    using q(8) mach by (simp add: c spec_start_def)
  ultimately have d: "ruu_dispatch ?c ?s = Inr (consume ?c w')" by (simp add: ruu_dispatch_def del: dispatch_loop.simps)
  have "front_ok ?c ?s" unfolding spec_start_def by (rule front_start_ok(2) [OF mem_create_wf])
  moreover have "spec ?s" "arch_PC ?s = 0x2000" by (simp_all add: spec_start_def arch_PC_def)
  ultimately show ?thesis using wrong_path_isolated [OF _ _ d] d by auto
qed

subsection \<open>The fetch queue\<close>

text \<open>C19: What fetch puts into its queue. A call of the fetch stage appends to the queue a chain of
  entries, the first at the next fetch address and each other at the address predicted before it,
  the last prediction being where fetch goes on; each holds the word in memory at its address, or
  a no-operation outside of the text segment. Registers, memory bytes and the window are not touched.\<close>

theorem fetch_appends:
  assumes "ifq_ok cfg" "queue_ok cfg w" "mem_wf (omem w)" "ruu_fetch cfg w = Inr w'"
  shows "\<exists>rs. queue cfg w' = queue cfg w @ rs \<and> chained (fetch_pred_PC (mach w)) rs (fetch_pred_PC (mach w'))
    \<and> (\<forall>r \<in> set rs. fr_IR r = fetched_word cfg (mem_byte (omem w)) (fr_regs_PC r))
    \<and> queue_ok cfg w' \<and> arch_regs w' = arch_regs w \<and> window (mach w') = window (mach w)"
proof -
  obtain rs where "adds cfg w rs w'" using ruu_fetch_adds [OF assms] by blast
  then show ?thesis using fetch_window [OF assms(4)] by (intro exI [of _ rs]) (auto simp: adds_def fetch_keeps_def arch_regs_def)
qed

lemma fetch_one_stray:
  assumes "\<not> in_text cfg (fetch_pred_PC (mach w))" "pred (mach w) = None"
  shows "\<exists>r. fetch_one cfg si w = Inr (Some False, si, enqueue_fetch cfg r (upd_cpu (\<lambda>c. c\<lparr>fetch_regs_PC := fetch_pred_PC (mach w)\<rparr>) w))"
  using assms by (simp add: fetch_one_def fetch_word_def predict_next_def Let_def) blast

text \<open>Outside of the text segment: no-operations fill the one free slot.\<close>

definition stray_start :: ooo where
  "stray_start = front_start (front_cpu 1 0x104) (mem_create ''mem'') [queued branch 0x100, queued 0 0]"

theorem fetch_appends_witness:
  "\<exists>w'. ruu_fetch (front_cfg rv_decoder) stray_start = Inr w' \<and> map fr_regs_PC (queue (front_cfg rv_decoder) w') = [0x100, 0x104]"
proof -
  let ?c = "front_cfg rv_decoder"
  have m: "fetch_pred_PC (mach stray_start) = 0x104" "pred (mach stray_start) = None" "fetch_num (mach stray_start) = 1"
    by (simp_all add: stray_start_def front_start_def front_cpu_def small_cpu_def Let_def)
  have c: "ruu_decode_width ?c = 1" "fetch_speed ?c = 1" "ruu_ifq_size ?c = 2" by (simp_all add: front_cfg_def)
  have "\<not> in_text ?c (fetch_pred_PC (mach stray_start))" by (simp add: m in_text_def front_cfg_def small_cfg_def)
  then obtain r where "fetch_one ?c (o_junk_idx ?c) stray_start = Inr (Some False, o_junk_idx ?c,
      enqueue_fetch ?c r (upd_cpu (\<lambda>c. c\<lparr>fetch_regs_PC := fetch_pred_PC (mach stray_start)\<rparr>) stray_start))"
    using fetch_one_stray m(2) by blast
  then have "\<exists>w'. ruu_fetch ?c stray_start = Inr w' \<and> fetch_num (mach w') = 2"
    by (simp add: ruu_fetch_def c m(3) numeral_2_eq_2 enqueue_fetch_def)
  then obtain w' where w': "ruu_fetch ?c stray_start = Inr w'" "fetch_num (mach w') = 2" by blast
  have o: "ifq_ok ?c" "queue_ok ?c stray_start" "mem_wf (omem stray_start)" "fetch_pred_PC (mach stray_start) = 0x104"
    "queue ?c stray_start = [queued branch 0x100]" "fr_regs_PC (queued branch 0x100) = 0x100"
    by (auto simp: ifq_ok_def queue_ok_def queue_def stray_start_def front_start_def front_cpu_def small_cpu_def front_cfg_def
        queued_def mem_create_wf Let_def intro: exI [of _ 1])
  obtain rs where rs: "queue ?c w' = queue ?c stray_start @ rs" "chained 0x104 rs (fetch_pred_PC (mach w'))"
    using fetch_appends [OF o(1-3) w'(1)] o(4) by auto
  have "length rs = 1" using arg_cong [OF rs(1), of length] w'(2) o(5) by simp
  then obtain r where "rs = [r]" by (cases rs) auto
  then show ?thesis using w'(1) rs o(5,6) by auto
qed

subsection \<open>The window of operations in flight\<close>

text \<open>C4: The two rings stay in step. If the tails stand behind the last operation and the load/store
  queue has an entry for every address computation in the RUU and no other, then this still holds
  after any number of cycles, whatever is committed, squashed and dispatched, and the checks with
  which the main loop starts a cycle never fail.\<close>

theorem window_invariant:
  assumes "window_ok (mach w)" "sim_cycles cfg n w = Inr w'"
  shows "window_ok (mach w') \<and> sanity (mach w') = Inr (mach w')"
  using cycles_window [OF assms] sanity_passes by blast

theorem window_invariant_witness:
  "\<exists>w'. sim_cycles (front_cfg rv_decoder) 1 (branch_start (mem_create ''mem'')) = Inr w' \<and> sanity (mach w') = Inr (mach w')"
proof -
  obtain w' where w': "sim_cycle_step (front_cfg rv_decoder) (branch_start (mem_create ''mem'')) = Inr w'"
    using branch_cycle [OF beq_decode, of "mem_create ''mem''"] by blast
  have "window_ok (mach (branch_start (mem_create ''mem'')))" by code_simp
  then show ?thesis using window_invariant [of "branch_start (mem_create ''mem'')" "front_cfg rv_decoder" 1] w' by simp
qed

subsection \<open>The dispatch loop\<close>

interpretation vw: keeps "ooo_hooks cfg" "\<lambda>w. fetch_view w = v" for cfg v
proof (unfold_locales, goal_cases)
  case (8 s k a x f s')
  then show ?case by (auto simp: oREAD_def spec_access_def fetch_view_def Let_def cbind_Inr_iff split: if_splits)
next
  case 9
  then show ?case by (auto simp: oWRITE_def spec_access_def fetch_view_def Let_def cbind_Inr_iff split: if_splits)
next
  case 10
  then show ?case by (auto simp: oSYSCALL_def put_regs_def fetch_view_def cbind_Inr_iff split: if_splits)
next
  case (11 s op inst s')
  have f: "fetch_view (fold (\<lambda>(n, v). oSET_CSRS n v) csrs w) = fetch_view w" for csrs w
    by (induction csrs arbitrary: w) (auto simp: oSET_CSRS_def fetch_view_def)
  obtain dest csrs where "s' = fold (\<lambda>(n, v). oSET_CSRS n v) csrs (case dest of To_FPR v \<Rightarrow> oSET_FPRD_Q (reg_of RD inst) v s
        | To_GPR v \<Rightarrow> oSET_GPR (reg_of RD inst) v s | To_none \<Rightarrow> s)"
    using 11(2) unfolding ooo_hooks_sel oFLOAT_def by (auto simp: cbind_Inr_iff simp del: fold_simps)
  then have "fetch_view s' = fetch_view s" using f
    by (simp add: oSET_GPR_def oSET_FPRD_Q_def fetch_view_def split: fp_dest.split)
  then show ?case using 11(1) by simp
qed (simp_all add: fetch_view_def oSET_GPR_def oSET_FPRD_Q_def oSET_CSRS_def)

lemma execute_view: "execute cfg op i w = Inr (d, w') \<Longrightarrow> fetch_view w' = fetch_view w"
  by (auto simp: execute_def cbind_Inr_iff split: md_opcode.splits option.splits dest: vw.exec_insn_keeps [OF refl])

lemma dispatch_one_shrinks:
  assumes d: "dispatch_one cfg red w = Inr ((True, took, red'), w')" and m: "macro_total_count w = 1" "fetch_num (mach w) \<noteq> 0"
  shows "macro_total_count w' = 1 \<and> fetch_num (mach w') < fetch_num (mach w)"
  using d
proof (cases rule: dispatch_one_cases)
  case stop
  then show ?thesis by simp
next
  case (go op d w1 now ppc w2 r w3 w4)
  have "fetch_view w1 = fetch_view w" using execute_view [OF go(3)] by (simp add: fetch_view_def front_def latch_pc_def)
  then have w1: "macro_total_count w1 = 1" "fetch_num (mach w1) = fetch_num (mach w)" using m(1) by (simp_all add: fetch_view_def)
  have "quiet w1 (count_refs (de_op d) w1)" by (rule quiet_counts)
  then have "macro_total_count w2 = 1" "fetch_num (mach w2) \<le> fetch_num (mach w)"
    using redirect_result [OF go(5)] w1 m(2) by (auto simp: calm_def quiet_def front_def split: if_splits)
  moreover have "quiet w2 (count_dispatch (de_op d) w3)" using quiet_allocate [OF go(6)] quiet_counts(2) quiet_trans by blast
  moreover note resolve_result [OF go(7)]
  ultimately have "macro_total_count w4 = 1" "fetch_num (mach w4) \<le> fetch_num (mach w)"
    by (auto simp: quiet_def calm_def front_def entered_def split: if_splits)
  then show ?thesis using go(8) m(2) by (simp add: consume_def)
qed



subsection \<open>The first instruction\<close>



end
